(* ===== verification/Prelude.thy ===== *)
theory Prelude
  imports Main "HOL-Library.Word"
begin

text \<open>
  What every component of the development shares: the C++ integer conversions that the code
  relies on, the block copy operations (\<open>memcpy\<close>, \<open>memset\<close>) on a list that stands for an
  array, and the lemma collections of the component proofs.

  Integers. An \<open>int\<close> of the code is a HOL \<open>int\<close>, and each place where the code converts a
  value to \<open>int32_t\<close> or to \<open>uint32_t\<close> is written out with \<open>s32\<close> or \<open>u32\<close>. Signed overflow
  is undefined in C++; the model wraps there, and the theorems that could meet it carry range
  hypotheses that exclude it. A \<open>size_t\<close> or \<open>TIMESTAMP\<close> is a \<open>nat\<close> below \<open>2 ^ 64\<close>, with
  \<open>u64_add\<close> and \<open>u64_sub\<close> for the sums that may wrap.
\<close>

named_theorems cint \<open>evaluation of the C++ integer conversions on values in range\<close>
named_theorems blit \<open>lengths and elements after a block copy\<close>

section \<open>C++ integer conversions\<close>

definition s32 :: "int \<Rightarrow> int" where
  "s32 x = (x + 2147483648) mod 4294967296 - 2147483648"

definition u32 :: "int \<Rightarrow> int" where
  "u32 x = x mod 4294967296"

definition s8 :: "int \<Rightarrow> int" where
  "s8 x = (x + 128) mod 256 - 128"

text \<open>The quotient and the remainder of C++ truncate towards zero.\<close>

definition cdiv :: "int \<Rightarrow> int \<Rightarrow> int" where
  "cdiv a b = sgn a * sgn b * (\<bar>a\<bar> div \<bar>b\<bar>)"

definition cmod :: "int \<Rightarrow> int \<Rightarrow> int" where
  "cmod a b = a - b * cdiv a b"

lemma s32_id [cint]: "-2147483648 \<le> x \<Longrightarrow> x < 2147483648 \<Longrightarrow> s32 x = x"
  by (simp add: s32_def)

lemma u32_id [cint]: "0 \<le> x \<Longrightarrow> x < 4294967296 \<Longrightarrow> u32 x = x"
  by (simp add: u32_def)

lemma s8_id [cint]: "-128 \<le> x \<Longrightarrow> x < 128 \<Longrightarrow> s8 x = x"
  by (simp add: s8_def)

lemma s32_range: "-2147483648 \<le> s32 x \<and> s32 x < 2147483648"
proof -
  have "0 \<le> (x + 2147483648) mod 4294967296" and "(x + 2147483648) mod 4294967296 < 4294967296"
    by simp_all
  then show ?thesis by (simp add: s32_def)
qed

lemma s32_s32 [simp]: "s32 (s32 x) = s32 x"
  using s32_range by (intro s32_id) auto

lemma s32_u32 [simp]: "s32 (u32 x) = s32 x"
  by (simp add: s32_def u32_def mod_simps)

lemma u32_s32 [simp]: "u32 (s32 x) = u32 x"
  by (simp add: s32_def u32_def mod_simps)

lemma u32_range: "0 \<le> u32 x \<and> u32 x < 4294967296"
  by (simp add: u32_def)

lemma cdiv_nonneg [cint]: "0 \<le> a \<Longrightarrow> 0 < b \<Longrightarrow> cdiv a b = a div b"
  by (cases "a = 0") (simp_all add: cdiv_def)

lemma cmod_nonneg [cint]: "0 \<le> a \<Longrightarrow> 0 < b \<Longrightarrow> cmod a b = a mod b"
  by (simp add: cmod_def cdiv_nonneg minus_mult_div_eq_mod)

lemma cmod_neg: "a < 0 \<Longrightarrow> 0 < b \<Longrightarrow> cmod a b = - ((- a) mod b)"
  by (simp add: cmod_def cdiv_def minus_mult_div_eq_mod [symmetric])

text \<open>The remainder of a difference of two values below the modulus.\<close>

lemma mod_diff_cases:
  fixes a b m :: int
  assumes "0 \<le> a" and "a < m" and "0 \<le> b" and "b < m"
  shows "(a - b) mod m = (if b \<le> a then a - b else a - b + m)"
proof (cases "b \<le> a")
  case True
  with assms show ?thesis by simp
next
  case False
  have "(a - b) mod m = (a - b + m) mod m" by simp
  also have "\<dots> = a - b + m" using assms False by (intro mod_pos_pos_trivial) auto
  finally show ?thesis using False by simp
qed

section \<open>Unsigned 64-bit sums\<close>

abbreviation two64 :: nat where
  "two64 \<equiv> 18446744073709551616"

definition u64_add :: "nat \<Rightarrow> nat \<Rightarrow> nat" where
  "u64_add a b = (a + b) mod two64"

definition u64_sub :: "nat \<Rightarrow> nat \<Rightarrow> nat" where
  "u64_sub a b = (a + (two64 - b)) mod two64"

lemma u64_add_id [cint]: "a + b < two64 \<Longrightarrow> u64_add a b = a + b"
  by (simp add: u64_add_def)

lemma u64_sub_id [cint]: "b \<le> a \<Longrightarrow> a < two64 \<Longrightarrow> u64_sub a b = a - b"
proof -
  assume ba: "b \<le> a" and a: "a < two64"
  then have "a + (two64 - b) = (a - b) + two64" by linarith
  then have "u64_sub a b = ((a - b) + two64) mod two64" by (simp only: u64_sub_def)
  also have "\<dots> = (a - b) mod two64" by (rule mod_add_self2)
  also have "\<dots> = a - b" using a by simp
  finally show ?thesis .
qed

section \<open>Arrays as lists\<close>

text \<open>
  \<open>blit a i xs\<close> is the array \<open>a\<close> after \<open>memcpy(a + i, xs, length xs)\<close>, for a copy that stays in
  the array; \<open>slice a i n\<close> is the block of \<open>n\<close> elements at \<open>a + i\<close>.
\<close>

definition slice :: "'a list \<Rightarrow> nat \<Rightarrow> nat \<Rightarrow> 'a list" where
  "slice a i n = take n (drop i a)"

definition blit :: "'a list \<Rightarrow> nat \<Rightarrow> 'a list \<Rightarrow> 'a list" where
  "blit a i xs = take i a @ xs @ drop (i + length xs) a"

lemma length_slice [blit]: "i + n \<le> length a \<Longrightarrow> length (slice a i n) = n"
  by (simp add: slice_def)

lemma nth_slice [blit]: "i + n \<le> length a \<Longrightarrow> k < n \<Longrightarrow> slice a i n ! k = a ! (i + k)"
  by (simp add: slice_def)

lemma length_blit [blit]: "i + length xs \<le> length a \<Longrightarrow> length (blit a i xs) = length a"
  by (simp add: blit_def)

lemma nth_blit [blit]:
  "i + length xs \<le> length a \<Longrightarrow> k < length a \<Longrightarrow>
    blit a i xs ! k = (if i \<le> k \<and> k < i + length xs then xs ! (k - i) else a ! k)"
  by (auto simp: blit_def nth_append min_def)

lemma blit_Nil [simp]: "blit a i [] = a"
  by (simp add: blit_def)

lemma nth_list_update_if:
  "xs[i := x] ! j = (if i = j \<and> i < length xs then x else xs ! j)"
  by (cases "i < length xs") (auto simp: nth_list_update not_less list_update_beyond)

section \<open>White space of the C library\<close>

definition is_space :: "char \<Rightarrow> bool" where
  "is_space c \<longleftrightarrow> c = CHR '' '' \<or> (9 \<le> (of_char c :: nat) \<and> (of_char c :: nat) \<le> 13)"

section \<open>Modular positions of a ring\<close>

lemma mod_wrap_once: "(n::nat) \<le> i \<Longrightarrow> i < 2 * n \<Longrightarrow> i mod n = i - n"
  by (simp add: le_mod_geq)

lemma ring_pos_inj:
  assumes "i < n" and "j < n" and "(s + i) mod n = (s + j) mod (n::nat)"
  shows "i = j"
proof -
  have "(s + i) mod n = (s + j) mod n \<Longrightarrow> i \<le> j \<Longrightarrow> j < n \<Longrightarrow> i = j" for i j
  proof -
    assume eq: "(s + i) mod n = (s + j) mod n" and le: "i \<le> j" and lt: "j < n"
    from eq le have "n dvd (s + j) - (s + i)" using mod_eq_dvd_iff_nat [of "s + i" "s + j" n] by simp
    with le have "n dvd j - i" by simp
    moreover have "j - i < n" using lt by simp
    ultimately have "j - i = 0" by (meson nat_dvd_not_less not_gr0)
    with le show "i = j" by simp
  qed
  then show ?thesis using assms by (metis linear)
qed

end
