(* ===== verification/GSMTime.thy ===== *)
theory GSMTime
  imports Prelude
begin

text \<open>
  GSM frame clock values: \<open>FNDelta\<close>, \<open>FNCompare\<close> and the class \<open>GSM::Time\<close> of
  \<^verbatim>\<open>GSM/GSMCommon.h\<close> and \<^verbatim>\<open>GSM/GSMCommon.cpp\<close>. A time is a frame number and a timeslot;
  \<open>valid_time\<close> is the range the class means (frames below the hyperframe, eight slots) and \<open>slots\<close>
  counts the slots since frame 0, which is the abstraction the arithmetic is proved against.
\<close>

section \<open>Frame number differences\<close>

definition gHyperframe :: int where
  "gHyperframe = 2048 * 26 * 51"

definition FNDelta :: "int \<Rightarrow> int \<Rightarrow> int" where
  "FNDelta v1 v2 =
    (let halfModulus = gHyperframe div 2;
         delta = s32 (v1 - v2)
     in if delta \<ge> halfModulus then s32 (delta - gHyperframe)
        else if delta < - halfModulus then s32 (delta + gHyperframe)
        else delta)"

definition FNCompare :: "int \<Rightarrow> int \<Rightarrow> int" where
  "FNCompare v1 v2 =
    (let delta = FNDelta v1 v2
     in if delta > 0 then 1 else if delta < 0 then -1 else 0)"

section \<open>The class Time\<close>

record gsm_time =
  mFN :: int
  mTN :: int

abbreviation Time :: "int \<Rightarrow> int \<Rightarrow> gsm_time" where
  "Time fn tn \<equiv> \<lparr>mFN = fn, mTN = tn\<rparr>"

text \<open>\<open>TN()\<close> returns the slot as an unsigned, so a negative slot reads as a large one.\<close>

definition time_FN :: "gsm_time \<Rightarrow> int" where
  "time_FN t = mFN t"

definition time_TN :: "gsm_time \<Rightarrow> int" where
  "time_TN t = u32 (mTN t)"

definition set_FN :: "int \<Rightarrow> gsm_time \<Rightarrow> gsm_time" where
  "set_FN wFN t = t\<lparr>mFN := s32 wFN\<rparr>"

definition set_TN :: "int \<Rightarrow> gsm_time \<Rightarrow> gsm_time" where
  "set_TN wTN t = t\<lparr>mTN := s32 wTN\<rparr>"

text \<open>
  \<open>rollForward\<close> loops until the frame number has the wanted residue. The remainder is computed on
  unsigned values, and the loop may never stop, so it is a partial function. Its \<open>assert\<close> and the
  division by a zero modulus are the failing branches of \<open>rollForward\<close>.
\<close>

partial_function (option) rollForward_loop :: "int \<Rightarrow> int \<Rightarrow> gsm_time \<Rightarrow> gsm_time option" where
  "rollForward_loop wFN modulus t =
    (if u32 (mFN t) mod modulus \<noteq> wFN
     then rollForward_loop wFN modulus (t\<lparr>mFN := u32 (mFN t + 1) mod gHyperframe\<rparr>)
     else Some t)"

definition rollForward :: "int \<Rightarrow> int \<Rightarrow> gsm_time \<Rightarrow> gsm_time option" where
  "rollForward wFN modulus t =
    (if modulus = 0 \<or> \<not> modulus < gHyperframe then None else rollForward_loop wFN modulus t)"

definition time_inc :: "gsm_time \<Rightarrow> gsm_time" where
  "time_inc t = t\<lparr>mFN := u32 (mFN t + 1) mod gHyperframe\<rparr>"

text \<open>The \<open>assert(step<=8)\<close> of \<open>decTN\<close> and \<open>incTN\<close> aborts: \<open>None\<close>.\<close>

definition decTN :: "int \<Rightarrow> gsm_time \<Rightarrow> gsm_time option" where
  "decTN step t =
    (if step \<le> 8 then
       (let tn = s32 (mTN t - step)
        in if tn < 0 then
             (let fn = mFN t - 1
              in Some (Time (if fn < 0 then s32 (fn + gHyperframe) else fn) (tn + 8)))
           else Some (t\<lparr>mTN := tn\<rparr>))
     else None)"

definition incTN :: "int \<Rightarrow> gsm_time \<Rightarrow> gsm_time option" where
  "incTN step t =
    (if step \<le> 8 then
       (let tn = s32 (mTN t + step)
        in if tn > 7 then Some (Time (u32 (mFN t + 1) mod gHyperframe) (tn - 8))
           else Some (t\<lparr>mTN := tn\<rparr>))
     else None)"

definition add_frames :: "gsm_time \<Rightarrow> int \<Rightarrow> gsm_time" where
  "add_frames t step =
    (let fn = s32 (mFN t + step);
         fn' = (if fn < 0 then s32 (fn + gHyperframe) else fn)
     in t\<lparr>mFN := u32 fn' mod gHyperframe\<rparr>)"

definition sub_frames :: "gsm_time \<Rightarrow> int \<Rightarrow> gsm_time" where
  "sub_frames t step = add_frames t (- step)"

definition add_time :: "gsm_time \<Rightarrow> gsm_time \<Rightarrow> gsm_time" where
  "add_time t u =
    (let newTN = cmod (mTN t + mTN u) 8;
         newFN = u32 (mFN t + mFN u + cdiv (mTN t + mTN u) 8) mod gHyperframe
     in Time newFN newTN)"

definition diff_time :: "gsm_time \<Rightarrow> gsm_time \<Rightarrow> int" where
  "diff_time t u = FNDelta (mFN t) (mFN u)"

definition time_less :: "gsm_time \<Rightarrow> gsm_time \<Rightarrow> bool" where
  "time_less t u =
    (if mFN t = mFN u then mTN t < mTN u else FNCompare (mFN t) (mFN u) < 0)"

definition time_greater :: "gsm_time \<Rightarrow> gsm_time \<Rightarrow> bool" where
  "time_greater t u =
    (if mFN t = mFN u then mTN t > mTN u else FNCompare (mFN t) (mFN u) > 0)"

definition time_le :: "gsm_time \<Rightarrow> gsm_time \<Rightarrow> bool" where
  "time_le t u =
    (if mFN t = mFN u then mTN t \<le> mTN u else FNCompare (mFN t) (mFN u) \<le> 0)"

definition time_ge :: "gsm_time \<Rightarrow> gsm_time \<Rightarrow> bool" where
  "time_ge t u =
    (if mFN t = mFN u then mTN t \<ge> mTN u else FNCompare (mFN t) (mFN u) \<ge> 0)"

definition time_eq :: "gsm_time \<Rightarrow> gsm_time \<Rightarrow> bool" where
  "time_eq t u \<longleftrightarrow> mFN t = mFN u \<and> mTN t = mTN u"

text \<open>The standard derivations; each returns an unsigned.\<close>

definition time_SFN :: "gsm_time \<Rightarrow> int" where
  "time_SFN t = u32 (cdiv (mFN t) (26 * 51))"

definition time_T1 :: "gsm_time \<Rightarrow> int" where
  "time_T1 t = time_SFN t mod 2048"

definition time_T2 :: "gsm_time \<Rightarrow> int" where
  "time_T2 t = u32 (cmod (mFN t) 26)"

definition time_T3 :: "gsm_time \<Rightarrow> int" where
  "time_T3 t = u32 (cmod (mFN t) 51)"

definition time_T3p :: "gsm_time \<Rightarrow> int" where
  "time_T3p t = u32 (time_T3 t - 1) div 10"

definition time_TC :: "gsm_time \<Rightarrow> int" where
  "time_TC t = u32 (cmod (cdiv (time_FN t) 51) 8)"

definition time_T1p :: "gsm_time \<Rightarrow> int" where
  "time_T1p t = time_SFN t mod 32"

definition time_T1R :: "gsm_time \<Rightarrow> int" where
  "time_T1R t = time_T1 t mod 64"

section \<open>Validity and the slot count\<close>

definition valid_FN :: "int \<Rightarrow> bool" where
  "valid_FN n \<longleftrightarrow> 0 \<le> n \<and> n < gHyperframe"

definition valid_time :: "gsm_time \<Rightarrow> bool" where
  "valid_time t \<longleftrightarrow> valid_FN (mFN t) \<and> 0 \<le> mTN t \<and> mTN t < 8"

definition slots :: "gsm_time \<Rightarrow> int" where
  "slots t = 8 * mFN t + mTN t"

lemma gHyperframe_eq: "gHyperframe = 2715648"
  by (simp add: gHyperframe_def)

lemma valid_timeI: "0 \<le> fn \<Longrightarrow> fn < 2715648 \<Longrightarrow> 0 \<le> tn \<Longrightarrow> tn < 8 \<Longrightarrow> valid_time (Time fn tn)"
  by (simp add: valid_time_def valid_FN_def gHyperframe_eq)

lemma valid_timeD:
  "valid_time t \<Longrightarrow> 0 \<le> mFN t \<and> mFN t < 2715648 \<and> 0 \<le> mTN t \<and> mTN t < 8"
  by (simp add: valid_time_def valid_FN_def gHyperframe_eq)

lemma time_TN_valid [cint]: "valid_time t \<Longrightarrow> time_TN t = mTN t"
  by (auto simp: time_TN_def dest!: valid_timeD intro!: cint)

text \<open>What \<open>FNDelta\<close> computes on frame numbers of the hyperframe: three cases, no wrap-around.\<close>

lemma FNDelta_cases:
  assumes "valid_FN v1" and "valid_FN v2"
  shows "FNDelta v1 v2 =
    (if v1 - v2 \<ge> 1357824 then v1 - v2 - 2715648
     else if v1 - v2 < -1357824 then v1 - v2 + 2715648 else v1 - v2)"
  using assms by (simp add: FNDelta_def Let_def gHyperframe_eq valid_FN_def cint)

lemma FNCompare_cases:
  assumes "valid_FN v1" and "valid_FN v2"
  shows "FNCompare v1 v2 = sgn (FNDelta v1 v2)"
  by (simp add: FNCompare_def Let_def)

lemma slots_inj: "valid_time t \<Longrightarrow> valid_time u \<Longrightarrow> slots t = slots u \<Longrightarrow> t = u"
proof -
  assume t: "valid_time t" and u: "valid_time u" and e: "slots t = slots u"
  have e': "8 * mFN t + mTN t = 8 * mFN u + mTN u" using e by (simp add: slots_def)
  have "mFN t = mFN u" using valid_timeD [OF t] valid_timeD [OF u] e' by linarith
  moreover from this e' have "mTN t = mTN u" by simp
  ultimately show "t = u" by (cases t; cases u) simp
qed

section \<open>Differences and order\<close>

text \<open>\<open>FNDelta\<close> of two frame numbers is their difference modulo the hyperframe, taken in the
  half-open interval of one hyperframe centred on zero.\<close>

theorem FNDelta_correct:
  assumes "valid_FN v1" and "valid_FN v2"
  shows "- (gHyperframe div 2) \<le> FNDelta v1 v2 \<and> FNDelta v1 v2 < gHyperframe div 2 \<and>
    FNDelta v1 v2 mod gHyperframe = (v1 - v2) mod gHyperframe"
proof -
  have b: "0 \<le> v1" "v1 < 2715648" "0 \<le> v2" "v2 < 2715648"
    using assms by (simp_all add: valid_FN_def gHyperframe_eq)
  have "(v1 - v2 - 2715648) mod 2715648 = (v1 - v2) mod 2715648"
    and "(v1 - v2 + 2715648) mod 2715648 = (v1 - v2) mod 2715648"
    by (rule minus_mod_self2, rule mod_add_self2)
  then have "FNDelta v1 v2 mod gHyperframe = (v1 - v2) mod gHyperframe"
    unfolding FNDelta_cases [OF assms] gHyperframe_eq by auto
  moreover have "- 1357824 \<le> FNDelta v1 v2 \<and> FNDelta v1 v2 < 1357824"
    unfolding FNDelta_cases [OF assms] using b by auto
  ultimately show ?thesis by (simp add: gHyperframe_eq)
qed

theorem FNDelta_correct_witness:
  "FNDelta 5 2715640 = 13 \<and> FNDelta 5 2715640 mod gHyperframe = (5 - 2715640) mod gHyperframe"
  using FNDelta_correct [of 5 2715640]
  by (simp add: valid_FN_def gHyperframe_eq FNDelta_def Let_def s32_def)

text \<open>The order in terms of the difference modulo the hyperframe.\<close>

lemma time_less_iff:
  assumes "valid_time t" and "valid_time u"
  shows "time_less t u \<longleftrightarrow>
    (if mFN t = mFN u then mTN t < mTN u
     else 0 < (mFN u - mFN t) mod 2715648 \<and> (mFN u - mFN t) mod 2715648 \<le> 1357824)"
proof -
  have v: "valid_FN (mFN t)" "valid_FN (mFN u)"
    using assms by (simp_all add: valid_time_def)
  have b: "0 \<le> mFN t" "mFN t < 2715648" "0 \<le> mFN u" "mFN u < 2715648"
    using valid_timeD [OF assms(1)] valid_timeD [OF assms(2)] by blast+
  have "sgn (FNDelta (mFN t) (mFN u)) < 0 \<longleftrightarrow>
      0 < (mFN u - mFN t) mod 2715648 \<and> (mFN u - mFN t) mod 2715648 \<le> 1357824"
    if "mFN t \<noteq> mFN u"
    unfolding FNDelta_cases [OF v] mod_diff_cases [OF b(3,4,1,2)] using b that by (auto simp: sgn_if)
  then show ?thesis by (simp add: time_less_def FNCompare_cases [OF v])
qed

lemma time_greater_iff:
  assumes "valid_time t" and "valid_time u"
  shows "time_greater t u \<longleftrightarrow>
    (if mFN t = mFN u then mTN t > mTN u
     else 0 < (mFN t - mFN u) mod 2715648 \<and> (mFN t - mFN u) mod 2715648 < 1357824)"
proof -
  have v: "valid_FN (mFN t)" "valid_FN (mFN u)"
    using assms by (simp_all add: valid_time_def)
  have b: "0 \<le> mFN t" "mFN t < 2715648" "0 \<le> mFN u" "mFN u < 2715648"
    using valid_timeD [OF assms(1)] valid_timeD [OF assms(2)] by blast+
  have "sgn (FNDelta (mFN t) (mFN u)) > 0 \<longleftrightarrow>
      0 < (mFN t - mFN u) mod 2715648 \<and> (mFN t - mFN u) mod 2715648 < 1357824"
    if "mFN t \<noteq> mFN u"
    unfolding FNDelta_cases [OF v] mod_diff_cases [OF b] using b that by (auto simp: sgn_if)
  then show ?thesis by (simp add: time_greater_def FNCompare_cases [OF v])
qed

text \<open>The comparisons of two valid times: exactly one of less, equal and greater holds, and less is
  the converse of greater, except for frames exactly half a hyperframe apart, where each time is
  less than the other and neither is greater.\<close>

theorem time_trichotomy:
  assumes "valid_time t" and "valid_time u"
  shows "if (mFN u - mFN t) mod gHyperframe = gHyperframe div 2
    then time_less t u \<and> time_less u t \<and> \<not> time_greater t u \<and> \<not> time_greater u t
    else (time_less t u \<longleftrightarrow> time_greater u t) \<and>
      (time_eq t u \<longleftrightarrow> \<not> time_less t u \<and> \<not> time_less u t) \<and>
      \<not> (time_less t u \<and> time_less u t)"
proof -
  have b: "0 \<le> mFN t" "mFN t < 2715648" "0 \<le> mFN u" "mFN u < 2715648"
    using valid_timeD [OF assms(1)] valid_timeD [OF assms(2)] by blast+
  note iffs = time_less_iff [OF assms] time_less_iff [OF assms(2,1)]
    time_greater_iff [OF assms] time_greater_iff [OF assms(2,1)]
  note mods = mod_diff_cases [OF b] mod_diff_cases [OF b(3,4,1,2)]
  show ?thesis
    unfolding iffs gHyperframe_eq mods time_eq_def using b by auto
qed

theorem time_trichotomy_witness:
  "(time_less (Time 0 0) (Time 1357824 0) \<and> time_less (Time 1357824 0) (Time 0 0)) \<and>
   \<not> (time_less (Time 2715647 7) (Time 0 0) \<and> time_less (Time 0 0) (Time 2715647 7))"
proof -
  have v: "valid_time (Time 0 0)" "valid_time (Time 1357824 0)" "valid_time (Time 2715647 7)"
    by (simp_all add: valid_time_def valid_FN_def gHyperframe_eq)
  show ?thesis
    using time_trichotomy [OF v(1,2)] time_trichotomy [OF v(3,1)] by (simp add: gHyperframe_eq)
qed

text \<open>On frames that lie in one window of less than half a hyperframe the circular order is the
  lexicographic order of the distance from the window's start and the slot.\<close>

theorem time_less_window:
  assumes "valid_time t" and "valid_time u" and "valid_FN base"
    and "(mFN t - base) mod gHyperframe < gHyperframe div 2"
    and "(mFN u - base) mod gHyperframe < gHyperframe div 2"
  shows "time_less t u \<longleftrightarrow>
    (mFN t - base) mod gHyperframe < (mFN u - base) mod gHyperframe \<or>
    mFN t = mFN u \<and> mTN t < mTN u"
proof -
  have b: "0 \<le> mFN t" "mFN t < 2715648" "0 \<le> mFN u" "mFN u < 2715648"
    using valid_timeD [OF assms(1)] valid_timeD [OF assms(2)] by blast+
  have c: "0 \<le> base" "base < 2715648" using assms(3) by (simp_all add: valid_FN_def gHyperframe_eq)
  let ?a = "(mFN t - base) mod 2715648" and ?b = "(mFN u - base) mod 2715648"
  have d: "(mFN u - mFN t) mod 2715648 = (?b - ?a) mod 2715648" by (simp add: mod_simps)
  have ab: "0 \<le> ?a" "?a < 2715648" "0 \<le> ?b" "?b < 2715648" by simp_all
  have "?a = ?b \<longleftrightarrow> mFN t = mFN u"
    unfolding mod_diff_cases [OF b(1,2) c] mod_diff_cases [OF b(3,4) c] using b c by auto
  then show ?thesis
    using assms(4,5)
    unfolding time_less_iff [OF assms(1,2)] gHyperframe_eq d mod_diff_cases [OF ab(3,4,1,2)] by auto
qed

theorem time_less_window_witness:
  "time_less (Time 2715640 3) (Time 7 1) \<and> (7 - 2715640) mod gHyperframe < gHyperframe div 2"
  using time_less_window [where t = "Time 2715640 3" and u = "Time 7 1" and base = 2715640]
  by (simp add: valid_time_def valid_FN_def gHyperframe_eq)

section \<open>Slot arithmetic\<close>

lemma incTN_valid:
  assumes "valid_time t" and "0 \<le> step" and "step \<le> 8"
  shows "incTN step t = Some
    (if mTN t + step > 7
     then Time (if mFN t = 2715647 then 0 else mFN t + 1) (mTN t + step - 8)
     else Time (mFN t) (mTN t + step))"
proof -
  have b: "0 \<le> mFN t" "mFN t < 2715648" "0 \<le> mTN t" "mTN t < 8"
    using valid_timeD [OF assms(1)] by blast+
  have s: "s32 (mTN t + step) = mTN t + step" using b assms(2,3) by (intro cint) auto
  have u: "u32 (mFN t + 1) = mFN t + 1" using b by (intro cint) auto
  have m: "(mFN t + 1) mod 2715648 = (if mFN t = 2715647 then 0 else mFN t + 1)"
    using b by auto
  have "t = Time (mFN t) (mTN t)" by simp
  then show ?thesis using assms(3) by (simp add: incTN_def Let_def s u m gHyperframe_eq)
qed

lemma decTN_valid:
  assumes "valid_time t" and "0 \<le> step" and "step \<le> 8"
  shows "decTN step t = Some
    (if mTN t < step
     then Time (if mFN t = 0 then 2715647 else mFN t - 1) (mTN t - step + 8)
     else Time (mFN t) (mTN t - step))"
proof -
  have b: "0 \<le> mFN t" "mFN t < 2715648" "0 \<le> mTN t" "mTN t < 8"
    using valid_timeD [OF assms(1)] by blast+
  have s: "s32 (mTN t - step) = mTN t - step" using b assms(2,3) by (intro cint) auto
  have u: "s32 (mFN t - 1 + 2715648) = mFN t - 1 + 2715648" using b by (intro cint) auto
  have f: "(if mFN t - 1 < 0 then s32 (mFN t - 1 + gHyperframe) else mFN t - 1) =
      (if mFN t = 0 then 2715647 else mFN t - 1)"
    unfolding gHyperframe_eq u using b by auto
  have "t = Time (mFN t) (mTN t)" by simp
  then show ?thesis using assms(3) by (simp only: decTN_def Let_def s f) simp
qed

text \<open>\<open>incTN\<close> adds its step to the slot count modulo the hyperframe, keeps the time valid, and
  \<open>decTN\<close> of the same step goes back to where it was.\<close>

theorem incTN_slots:
  assumes "valid_time t" and "0 \<le> step" and "step \<le> 8"
  shows "\<exists>t'. incTN step t = Some t' \<and> valid_time t' \<and>
    slots t' = (slots t + step) mod (8 * gHyperframe) \<and> decTN step t' = Some t"
proof -
  have b: "0 \<le> mFN t" "mFN t < 2715648" "0 \<le> mTN t" "mTN t < 8"
    using valid_timeD [OF assms(1)] by blast+
  let ?t' = "if mTN t + step > 7
     then Time (if mFN t = 2715647 then 0 else mFN t + 1) (mTN t + step - 8)
     else Time (mFN t) (mTN t + step)"
  have v: "valid_time ?t'"
    using b assms(2,3) by (auto simp: valid_time_def valid_FN_def gHyperframe_eq)
  have sl: "slots ?t' = (slots t + step) mod 21725184"
  proof (cases "mFN t = 2715647 \<and> mTN t + step > 7")
    case True
    then have "slots t + step = slots ?t' + 21725184" by (simp add: slots_def)
    then have "(slots t + step) mod 21725184 = slots ?t' mod 21725184" by (simp only: mod_add_self2)
    also have "\<dots> = slots ?t'" using True b assms(2,3) by (simp add: slots_def)
    finally show ?thesis by simp
  next
    case False
    then have eq: "slots t + step = slots ?t'" by (auto simp: slots_def)
    have "0 \<le> slots t + step" and "slots t + step < 21725184"
      using False b assms(2,3) by (auto simp: slots_def)
    then have "(slots t + step) mod 21725184 = slots t + step" by simp
    with eq show ?thesis by simp
  qed
  have "decTN step ?t' = Some t"
    unfolding decTN_valid [OF v assms(2,3)] using b assms(2,3) by (cases t) auto
  then show ?thesis
    using v sl by (auto simp: incTN_valid [OF assms] gHyperframe_eq)
qed

theorem incTN_slots_witness:
  "\<exists>t'. incTN 8 (Time 2715647 3) = Some t' \<and> slots t' = 3 \<and> decTN 8 t' = Some (Time 2715647 3)"
  using incTN_slots [OF valid_timeI, of 2715647 3 8] by (auto simp: gHyperframe_eq slots_def)

lemma incTN_1_valid:
  "valid_time t \<Longrightarrow> \<exists>t'. incTN 1 t = Some t' \<and> valid_time t'"
  using incTN_valid [of t 1]
  by (auto simp: valid_time_def valid_FN_def gHyperframe_eq)

text \<open>The sum of two times adds their slot counts modulo the hyperframe.\<close>

theorem add_time_slots:
  assumes "valid_time t" and "valid_time u"
  shows "valid_time (add_time t u) \<and>
    slots (add_time t u) = (slots t + slots u) mod (8 * gHyperframe)"
proof -
  have b: "0 \<le> mFN t" "mFN t < 2715648" "0 \<le> mFN u" "mFN u < 2715648"
    "0 \<le> mTN t" "mTN t < 8" "0 \<le> mTN u" "mTN u < 8"
    using valid_timeD [OF assms(1)] valid_timeD [OF assms(2)] by blast+
  define c where "c = (mTN t + mTN u) div 8"
  define r where "r = (mTN t + mTN u) mod 8"
  define f where "f = mFN t + mFN u + c"
  have c: "0 \<le> c" "c \<le> 1" and r: "0 \<le> r" "r < 8" and cr: "mTN t + mTN u = 8 * c + r"
    using b by (simp_all add: c_def r_def)
  have f: "0 \<le> f" "f < 4294967296" using b c by (simp_all add: f_def)
  have add: "add_time t u = Time (f mod 2715648) r"
    using b f by (simp add: add_time_def Let_def cint gHyperframe_eq c_def r_def f_def)
  have fm: "0 \<le> f mod 2715648" "f mod 2715648 < 2715648" by simp_all
  have v: "valid_time (add_time t u)" unfolding add by (intro valid_timeI fm r)
  have "slots t + slots u = 8 * f + r" using cr by (simp add: slots_def f_def)
  also have "\<dots> = (8 * (f mod 2715648) + r) + f div 2715648 * 21725184"
    using div_mult_mod_eq [of f 2715648] by linarith
  finally have "(slots t + slots u) mod 21725184 = (8 * (f mod 2715648) + r) mod 21725184"
    by (simp only: mod_mult_self1)
  also have "\<dots> = 8 * (f mod 2715648) + r" using fm r by simp
  finally show ?thesis using v by (simp add: slots_def add gHyperframe_eq)
qed

theorem add_time_slots_witness:
  "add_time (Time 2715647 5) (Time 3 4) = Time 3 1 \<and> valid_time (add_time (Time 2715647 5) (Time 3 4))"
  using add_time_slots [OF valid_timeI valid_timeI, of 2715647 5 3 4]
  by (simp add: add_time_def Let_def cmod_def cdiv_def u32_def gHyperframe_eq)

section \<open>Termination of rollForward\<close>

definition rolled :: "int \<Rightarrow> int \<Rightarrow> gsm_time \<Rightarrow> bool" where
  "rolled wFN modulus t \<longleftrightarrow> (\<exists>t'. rollForward_loop wFN modulus t = Some t' \<and> valid_FN (mFN t') \<and>
    mFN t' mod modulus = wFN \<and> mTN t' = mTN t)"

lemma rolled_here:
  assumes "valid_FN (mFN t)" and "mFN t mod modulus = wFN"
  shows "rolled wFN modulus t"
proof -
  have "u32 (mFN t) = mFN t"
    using assms(1) by (intro cint) (simp_all add: valid_FN_def gHyperframe_eq)
  with assms show ?thesis by (subst rolled_def, subst rollForward_loop.simps) simp
qed

lemma rolled_next:
  assumes "valid_FN (mFN t)" and "mFN t mod modulus \<noteq> wFN"
    and "rolled wFN modulus (t\<lparr>mFN := (mFN t + 1) mod 2715648\<rparr>)"
  shows "rolled wFN modulus t"
proof -
  have b: "0 \<le> mFN t" "mFN t < 2715648"
    using assms(1) by (simp_all add: valid_FN_def gHyperframe_eq)
  then have "u32 (mFN t) = mFN t" and "u32 (mFN t + 1) = mFN t + 1" by (auto intro!: cint)
  with assms(2) have
    "rollForward_loop wFN modulus t = rollForward_loop wFN modulus (t\<lparr>mFN := (mFN t + 1) mod 2715648\<rparr>)"
    by (subst rollForward_loop.simps) (simp add: gHyperframe_eq)
  with assms(3) show ?thesis by (simp add: rolled_def)
qed

text \<open>The loop reaches a frame of the wanted residue that lies ahead before the hyperframe ends, and
  after the end it starts from frame 0, where every residue lies ahead.\<close>

lemma rolled_ahead:
  assumes "0 \<le> mFN t" and "mFN t + int n < 2715648" and "(mFN t + int n) mod modulus = wFN"
  shows "rolled wFN modulus t"
  using assms
proof (induction n arbitrary: t)
  case 0
  then show ?case by (intro rolled_here) (simp_all add: valid_FN_def gHyperframe_eq)
next
  case (Suc n)
  have v: "valid_FN (mFN t)" using Suc.prems by (simp add: valid_FN_def gHyperframe_eq)
  have m: "(mFN t + 1) mod 2715648 = mFN t + 1" using Suc.prems by simp
  have "rolled wFN modulus (t\<lparr>mFN := mFN t + 1\<rparr>)"
    using Suc.prems by (intro Suc.IH) (simp_all add: algebra_simps)
  then show ?case using rolled_here [OF v] rolled_next [OF v] unfolding m by blast
qed

lemma rolled_always:
  assumes "0 \<le> wFN" and "wFN < modulus" and "modulus < 2715648"
    and "0 \<le> mFN t" and "mFN t + int n = 2715647"
  shows "rolled wFN modulus t"
  using assms
proof (induction n arbitrary: t)
  case 0
  then have v: "valid_FN (mFN t)" by (simp add: valid_FN_def gHyperframe_eq)
  have m: "(mFN t + 1) mod 2715648 = 0" using 0 by simp
  have "rolled wFN modulus (t\<lparr>mFN := 0\<rparr>)"
    using 0 by (intro rolled_ahead [where n = "nat wFN"]) simp_all
  then show ?case using rolled_here [OF v] rolled_next [OF v] unfolding m by blast
next
  case (Suc n)
  have v: "valid_FN (mFN t)" using Suc.prems by (simp add: valid_FN_def gHyperframe_eq)
  have m: "(mFN t + 1) mod 2715648 = mFN t + 1" using Suc.prems by simp
  have "rolled wFN modulus (t\<lparr>mFN := mFN t + 1\<rparr>)"
    using Suc.prems by (intro Suc.IH) simp_all
  then show ?case using rolled_here [OF v] rolled_next [OF v] unfolding m by blast
qed

lemma rollForward_loop_result:
  assumes "rollForward_loop wFN modulus t = Some t'"
  shows "u32 (mFN t') mod modulus = wFN"
  using assms
proof (rule rollForward_loop.raw_induct [where P = "\<lambda>wFN modulus t t'. u32 (mFN t') mod modulus = wFN", rotated])
  fix f wFN modulus t t'
  assume IH: "\<And>wFN modulus t t'. f wFN modulus (t :: gsm_time) = Some t' \<Longrightarrow> u32 (mFN t') mod modulus = wFN"
    and eq: "(if u32 (mFN t) mod modulus \<noteq> wFN
       then f wFN modulus (t\<lparr>mFN := u32 (mFN t + 1) mod gHyperframe\<rparr>) else Some t) = Some t'"
  show "u32 (mFN t') mod modulus = wFN"
    using eq IH by (cases "u32 (mFN t) mod modulus = wFN") auto
qed

text \<open>\<open>rollForward\<close> returns exactly when the wanted residue is below the modulus, and then at a
  valid frame of that residue, in the same slot; with a residue that no frame has it never returns.\<close>

theorem rollForward_terminates:
  assumes "valid_time t" and "0 < modulus" and "modulus < gHyperframe" and "0 \<le> wFN"
  shows "if wFN < modulus
    then \<exists>t'. rollForward wFN modulus t = Some t' \<and>
      valid_time t' \<and> mFN t' mod modulus = wFN \<and> mTN t' = mTN t
    else rollForward wFN modulus t = None"
proof -
  have r: "rollForward wFN modulus t = rollForward_loop wFN modulus t"
    using assms(2,3) by (simp add: rollForward_def)
  have yes: "rolled wFN modulus t" if "wFN < modulus"
    using assms that valid_timeD [OF assms(1)]
    by (intro rolled_always [where n = "nat (2715647 - mFN t)"]) (simp_all add: gHyperframe_eq)
  have no: "wFN < modulus" if "rollForward_loop wFN modulus t = Some t'" for t'
    using rollForward_loop_result [OF that] assms(2) pos_mod_bound [OF assms(2), of "u32 (mFN t')"] by simp
  show ?thesis
  proof (cases "wFN < modulus")
    case True
    with yes assms(1) show ?thesis by (auto simp: r rolled_def valid_time_def)
  next
    case False
    then have "rollForward_loop wFN modulus t = None" using no by (metis not_None_eq)
    with False show ?thesis by (simp add: r)
  qed
qed

theorem rollForward_terminates_witness:
  "(\<exists>t'. rollForward 3 26 (Time 2715646 2) = Some t' \<and> mFN t' mod 26 = 3) \<and>
   rollForward 26 26 (Time 2715646 2) = None"
proof -
  have v: "valid_time (Time 2715646 2)" by (simp add: valid_time_def valid_FN_def gHyperframe_eq)
  show ?thesis
    using rollForward_terminates [OF v, of 26 3] rollForward_terminates [OF v, of 26 26]
    by (auto simp: gHyperframe_eq)
qed

end
