(* ===== verification/LinkedLists.thy ===== *)
theory LinkedLists
  imports Prelude
begin

text \<open>
  The pointer FIFO of \<^verbatim>\<open>CommonLibs/LinkedLists.h\<close> and \<^verbatim>\<open>CommonLibs/LinkedLists.cpp\<close>, with its
  nodes in an explicit store, and the contract of a FIFO that the interthread queues are built on.

  The node store is the list \<open>pf_nodes\<close> of all nodes ever allocated; an address is an index into it
  and \<open>None\<close> is the null pointer. A payload is a \<open>void *\<close>, so it is an option as well. \<open>pf_inv\<close> is the
  representation invariant (head chain and free list are disjoint chains that together hold every
  node, the tail is the last node of the chain, the size is its length) and \<open>pf_contents\<close> the queue a
  state stands for.
\<close>

section \<open>The contract of a FIFO\<close>

text \<open>A client's run of puts and gets, over any implementation; it collects what the gets return.\<close>

datatype 'v fifo_op = Put 'v | Get

fun fifo_run :: "('v \<Rightarrow> 'q \<Rightarrow> 'q) \<Rightarrow> ('q \<Rightarrow> 'v option \<times> 'q) \<Rightarrow> 'v fifo_op list \<Rightarrow> 'q \<Rightarrow> 'v list \<times> 'q" where
  "fifo_run put get [] q = ([], q)"
| "fifo_run put get (Put v # ops) q = fifo_run put get ops (put v q)"
| "fifo_run put get (Get # ops) q =
    (let (r, q1) = get q; (vs, q2) = fifo_run put get ops q1
     in (case r of None \<Rightarrow> vs | Some v \<Rightarrow> v # vs, q2))"

fun fifo_puts :: "'v fifo_op list \<Rightarrow> 'v list" where
  "fifo_puts [] = []"
| "fifo_puts (Put v # ops) = v # fifo_puts ops"
| "fifo_puts (Get # ops) = fifo_puts ops"

locale fifo_queue =
  fixes empty :: 'q
    and put :: "'v \<Rightarrow> 'q \<Rightarrow> 'q"
    and get :: "'q \<Rightarrow> 'v option \<times> 'q"
    and size_of :: "'q \<Rightarrow> nat"
    and contents :: "'q \<Rightarrow> 'v list"
    and invar :: "'q \<Rightarrow> bool"
  assumes contents_empty: "contents empty = []"
    and contents_put: "invar q \<Longrightarrow> contents (put v q) = contents q @ [v]"
    and get_Nil: "invar q \<Longrightarrow> contents q = [] \<Longrightarrow> get q = (None, q)"
    and get_Cons: "invar q \<Longrightarrow> contents q = v # vs \<Longrightarrow> fst (get q) = Some v \<and> contents (snd (get q)) = vs"
    and size_contents: "invar q \<Longrightarrow> size_of q = length (contents q)"
    and invar_empty: "invar empty"
    and invar_put: "invar q \<Longrightarrow> invar (put v q)"
    and invar_get: "invar q \<Longrightarrow> invar (snd (get q))"
begin

text \<open>What was in the queue and what was put comes out in order: a run returns a prefix of it, and
  the rest is still in the queue.\<close>

lemma run_fifo:
  "invar q \<Longrightarrow> fifo_run put get ops q = (vs, q') \<Longrightarrow>
    invar q' \<and> contents q @ fifo_puts ops = vs @ contents q'"
proof (induction ops arbitrary: q vs rule: fifo_puts.induct)
  case 1
  then show ?case by simp
next
  case (2 v ops)
  then show ?case using "2.IH" [of "put v q"] by (simp add: contents_put invar_put)
next
  case (3 ops)
  obtain r q1 where g: "get q = (r, q1)" by force
  obtain ws where ws: "fifo_run put get ops q1 = (ws, q')"
    and vs: "vs = (case r of None \<Rightarrow> ws | Some v \<Rightarrow> v # ws)"
    using "3.prems"(2) g by (auto simp: Let_def split: prod.splits)
  have IH: "invar q' \<and> contents q1 @ fifo_puts ops = ws @ contents q'"
    using "3.IH" [OF _ ws] invar_get [OF "3.prems"(1)] g by simp
  then show ?case
    using get_Nil [OF "3.prems"(1)] get_Cons [OF "3.prems"(1)] g vs
    by (cases "contents q") auto
qed

lemma drain:
  assumes "invar q"
  shows "fst (fifo_run put get (replicate (size_of q) Get) q) = contents q"
  using assms
proof (induction "contents q" arbitrary: q)
  case Nil
  then show ?case by (simp add: size_contents)
next
  case (Cons v vs)
  obtain r q1 where g: "get q = (r, q1)" by force
  then have r: "r = Some v" and c: "contents q1 = vs" and i: "invar q1"
    using get_Cons [OF Cons.prems Cons.hyps(2) [symmetric]] invar_get [OF Cons.prems] by simp_all
  have sz: "size_of q = Suc (size_of q1)"
    using size_contents [OF i] size_contents [OF Cons.prems] c Cons.hyps(2) [symmetric] by simp
  obtain ws q2 where run: "fifo_run put get (replicate (size_of q1) Get) q1 = (ws, q2)" by force
  have "ws = vs" using Cons.hyps(1) [OF c [symmetric] i] run c by simp
  then show ?case using sz run g r Cons.hyps(2) [symmetric] by simp
qed

end

section \<open>PointerFIFO\<close>

record 'v list_node =
  nd_next :: "nat option"
  nd_data :: "'v option"

record 'v pointer_fifo =
  pf_nodes :: "'v list_node list"
  pf_head :: "nat option"
  pf_tail :: "nat option"
  pf_free :: "nat option"
  pf_size :: nat

definition pf_new :: "'v pointer_fifo" where
  "pf_new = \<lparr>pf_nodes = [], pf_head = None, pf_tail = None, pf_free = None, pf_size = 0\<rparr>"

definition node_set_next :: "nat \<Rightarrow> nat option \<Rightarrow> 'v list_node list \<Rightarrow> 'v list_node list" where
  "node_set_next a p ns = ns[a := (ns ! a)\<lparr>nd_next := p\<rparr>]"

definition node_set_data :: "nat \<Rightarrow> 'v option \<Rightarrow> 'v list_node list \<Rightarrow> 'v list_node list" where
  "node_set_data a v ns = ns[a := (ns ! a)\<lparr>nd_data := v\<rparr>]"

text \<open>A node fresh from \<open>new\<close> has fields without a value; both callers write them before any read.\<close>

definition pf_allocate :: "'v pointer_fifo \<Rightarrow> nat \<times> 'v pointer_fifo" where
  "pf_allocate q =
    (case pf_free q of
       None \<Rightarrow> (length (pf_nodes q),
                q\<lparr>pf_nodes := pf_nodes q @ [\<lparr>nd_next = None, nd_data = None\<rparr>]\<rparr>)
     | Some a \<Rightarrow> (a, q\<lparr>pf_free := nd_next (pf_nodes q ! a)\<rparr>))"

definition pf_release :: "nat \<Rightarrow> 'v pointer_fifo \<Rightarrow> 'v pointer_fifo" where
  "pf_release a q =
    q\<lparr>pf_nodes := node_set_next a (pf_free q) (pf_nodes q), pf_free := Some a\<rparr>"

definition pf_push_front :: "'v option \<Rightarrow> 'v pointer_fifo \<Rightarrow> 'v pointer_fifo" where
  "pf_push_front v q =
    (let (a, q1) = pf_allocate q;
         ns = node_set_next a (pf_head q1) (node_set_data a v (pf_nodes q1))
     in q1\<lparr>pf_nodes := ns, pf_head := Some a,
           pf_tail := (if pf_tail q1 = None then Some a else pf_tail q1),
           pf_size := pf_size q1 + 1\<rparr>)"

definition pf_put :: "'v option \<Rightarrow> 'v pointer_fifo \<Rightarrow> 'v pointer_fifo" where
  "pf_put v q =
    (let (a, q1) = pf_allocate q;
         ns = node_set_next a None (node_set_data a v (pf_nodes q1));
         ns' = (case pf_tail q1 of Some t \<Rightarrow> node_set_next t (Some a) ns | None \<Rightarrow> ns)
     in q1\<lparr>pf_nodes := ns', pf_tail := Some a,
           pf_head := (if pf_head q1 = None then Some a else pf_head q1),
           pf_size := pf_size q1 + 1\<rparr>)"

definition pf_get :: "'v pointer_fifo \<Rightarrow> 'v option \<times> 'v pointer_fifo" where
  "pf_get q =
    (case pf_head q of
       None \<Rightarrow> (None, q)
     | Some h \<Rightarrow>
         (let next = nd_next (pf_nodes q ! h);
              retVal = nd_data (pf_nodes q ! h);
              q1 = pf_release h q
          in (retVal, q1\<lparr>pf_head := next,
                        pf_tail := (if next = None then None else pf_tail q1),
                        pf_size := pf_size q1 - 1\<rparr>)))"

definition pf_front :: "'v pointer_fifo \<Rightarrow> 'v option" where
  "pf_front q = (case pf_head q of None \<Rightarrow> None | Some h \<Rightarrow> nd_data (pf_nodes q ! h))"

definition pf_totalSize :: "'v pointer_fifo \<Rightarrow> nat" where
  "pf_totalSize q = 0"

text \<open>The destructor walks both chains and deletes each node; \<open>walk\<close> collects the addresses it frees,
  with the number of nodes as fuel.\<close>

fun walk :: "nat \<Rightarrow> 'v list_node list \<Rightarrow> nat option \<Rightarrow> nat list" where
  "walk 0 ns p = []"
| "walk (Suc n) ns None = []"
| "walk (Suc n) ns (Some a) = a # walk n ns (nd_next (ns ! a))"

definition pf_destroy :: "'v pointer_fifo \<Rightarrow> nat list" where
  "pf_destroy q = walk (length (pf_nodes q)) (pf_nodes q) (pf_head q)
    @ walk (length (pf_nodes q)) (pf_nodes q) (pf_free q)"

section \<open>Chains of nodes\<close>

fun chain :: "'v list_node list \<Rightarrow> nat option \<Rightarrow> nat list \<Rightarrow> bool" where
  "chain ns p [] \<longleftrightarrow> p = None"
| "chain ns p (a # as) \<longleftrightarrow> p = Some a \<and> a < length ns \<and> chain ns (nd_next (ns ! a)) as"

lemma chain_bound: "chain ns p as \<Longrightarrow> set as \<subseteq> {..<length ns}"
  by (induction as arbitrary: p) auto

lemma chain_cong:
  "chain ns p as \<Longrightarrow> length ns \<le> length ms \<Longrightarrow>
    (\<And>a. a \<in> set as \<Longrightarrow> nd_next (ms ! a) = nd_next (ns ! a)) \<Longrightarrow> chain ms p as"
  by (induction as arbitrary: p) auto

lemma chain_unique: "chain ns p as \<Longrightarrow> chain ns p bs \<Longrightarrow> as = bs"
proof (induction as arbitrary: p bs)
  case Nil
  then show ?case by (cases bs) auto
next
  case (Cons a as)
  then show ?case by (cases bs) auto
qed

lemma walk_chain: "chain ns p as \<Longrightarrow> length as \<le> n \<Longrightarrow> walk n ns p = as"
proof (induction as arbitrary: n p)
  case Nil
  then show ?case by (cases n) auto
next
  case (Cons a as)
  then show ?case by (cases n) auto
qed

lemma chain_snoc:
  "chain ns p (as @ [t]) \<Longrightarrow> distinct (as @ [t]) \<Longrightarrow> a < length ns \<Longrightarrow> a \<notin> set (as @ [t]) \<Longrightarrow>
    nd_next (ns ! a) = None \<Longrightarrow> chain (node_set_next t (Some a) ns) p (as @ [t, a])"
proof (induction as arbitrary: p)
  case Nil
  then show ?case by (auto simp: node_set_next_def nth_list_update)
next
  case (Cons b as)
  then show ?case by (auto simp: node_set_next_def nth_list_update)
qed

section \<open>Representation invariant\<close>

definition pf_rep :: "'v pointer_fifo \<Rightarrow> nat list \<Rightarrow> nat list \<Rightarrow> bool" where
  "pf_rep q as fs \<longleftrightarrow>
    chain (pf_nodes q) (pf_head q) as \<and> chain (pf_nodes q) (pf_free q) fs \<and>
    distinct (as @ fs) \<and> set (as @ fs) = {..<length (pf_nodes q)} \<and>
    pf_tail q = (if as = [] then None else Some (last as)) \<and> pf_size q = length as"

definition pf_inv :: "'v pointer_fifo \<Rightarrow> bool" where
  "pf_inv q \<longleftrightarrow> (\<exists>as fs. pf_rep q as fs)"

definition pf_contents :: "'v pointer_fifo \<Rightarrow> 'v option list" where
  "pf_contents q = map (\<lambda>a. nd_data (pf_nodes q ! a)) (walk (length (pf_nodes q)) (pf_nodes q) (pf_head q))"

lemma rep_count: "pf_rep q as fs \<Longrightarrow> length as + length fs = length (pf_nodes q)"
  unfolding pf_rep_def by (metis card_lessThan distinct_card length_append)

lemma rep_contents: "pf_rep q as fs \<Longrightarrow> pf_contents q = map (\<lambda>a. nd_data (pf_nodes q ! a)) as"
  using rep_count [of q as fs] walk_chain [of "pf_nodes q" "pf_head q" as "length (pf_nodes q)"]
  by (simp add: pf_contents_def pf_rep_def)

lemma pf_inv_new: "pf_inv pf_new"
  unfolding pf_inv_def pf_rep_def by (intro exI [of _ "[]"]) (simp add: pf_new_def)

text \<open>Allocation takes a node that is in neither chain.\<close>

lemma rep_allocate:
  assumes "pf_rep q as fs"
  obtains a q1 fs' where "pf_allocate q = (a, q1)" and "a < length (pf_nodes q1)"
    and "a \<notin> set as" and "a \<notin> set fs'" and "chain (pf_nodes q1) (pf_head q1) as"
    and "chain (pf_nodes q1) (pf_free q1) fs'" and "distinct (as @ fs')"
    and "insert a (set (as @ fs')) = {..<length (pf_nodes q1)}"
    and "pf_head q1 = pf_head q" and "pf_tail q1 = pf_tail q" and "pf_size q1 = pf_size q"
    and "\<And>b. b \<in> set as \<Longrightarrow> pf_nodes q1 ! b = pf_nodes q ! b"
proof (cases fs)
  case Nil
  let ?q = "q\<lparr>pf_nodes := pf_nodes q @ [\<lparr>nd_next = None, nd_data = None\<rparr>]\<rparr>"
  have s: "set as = {..<length (pf_nodes q)}" and f: "pf_free q = None" and d: "distinct as"
    and c0: "chain (pf_nodes q) (pf_head q) as"
    using assms Nil by (simp_all add: pf_rep_def)
  have "chain (pf_nodes q @ [\<lparr>nd_next = None, nd_data = None\<rparr>]) (pf_head q) as"
    by (rule chain_cong [OF c0]) (use s in \<open>simp_all add: nth_append\<close>)
  then have c: "chain (pf_nodes ?q) (pf_head ?q) as" by simp
  show ?thesis
  proof (rule that [of "length (pf_nodes q)" ?q "[]"])
    show "pf_allocate q = (length (pf_nodes q), ?q)" by (simp add: pf_allocate_def f)
    show "insert (length (pf_nodes q)) (set (as @ [])) = {..<length (pf_nodes ?q)}"
      using s by (simp add: lessThan_Suc)
    show "pf_nodes ?q ! b = pf_nodes q ! b" if "b \<in> set as" for b
      using that s by (simp add: nth_append)
    show "chain (pf_nodes ?q) (pf_head ?q) as" by (rule c)
  qed (use s d f in simp_all)
next
  case (Cons a fs')
  let ?q = "q\<lparr>pf_free := nd_next (pf_nodes q ! a)\<rparr>"
  have r: "chain (pf_nodes q) (pf_head q) as" "pf_free q = Some a" "a < length (pf_nodes q)"
    "chain (pf_nodes q) (nd_next (pf_nodes q ! a)) fs'" "distinct (as @ fs')" "a \<notin> set as" "a \<notin> set fs'"
    "insert a (set (as @ fs')) = {..<length (pf_nodes q)}"
    using assms Cons by (simp_all add: pf_rep_def)
  show ?thesis
    by (rule that [of a ?q fs']) (use r in \<open>simp_all add: pf_allocate_def\<close>)
qed

lemma rep_put:
  assumes "pf_rep q as fs"
  shows "\<exists>a fs'. pf_rep (pf_put v q) (as @ [a]) fs' \<and> pf_contents (pf_put v q) = pf_contents q @ [v]"
proof -
  from assms obtain a q1 fs' where al: "pf_allocate q = (a, q1)" "a < length (pf_nodes q1)"
    "a \<notin> set as" "a \<notin> set fs'" "chain (pf_nodes q1) (pf_head q1) as"
    "chain (pf_nodes q1) (pf_free q1) fs'" "distinct (as @ fs')"
    "insert a (set (as @ fs')) = {..<length (pf_nodes q1)}"
    "pf_head q1 = pf_head q" "pf_tail q1 = pf_tail q" "pf_size q1 = pf_size q"
    "\<And>b. b \<in> set as \<Longrightarrow> pf_nodes q1 ! b = pf_nodes q ! b"
    by (rule rep_allocate) blast
  define ns where "ns = node_set_next a None (node_set_data a v (pf_nodes q1))"
  have ns: "length ns = length (pf_nodes q1)" "nd_next (ns ! a) = None" "nd_data (ns ! a) = v"
    "\<And>b. b \<noteq> a \<Longrightarrow> ns ! b = pf_nodes q1 ! b"
    using al(2) by (simp_all add: ns_def node_set_next_def node_set_data_def nth_list_update)
  have same: "ns ! b = pf_nodes q1 ! b" if "b \<in> set as \<or> b \<in> set fs'" for b
    using that al(3,4) ns(4) by metis
  have cf: "chain ns (pf_free q1) fs'" by (rule chain_cong [OF al(6)]) (simp_all add: ns(1) same)
  have ca: "chain ns (pf_head q1) as" by (rule chain_cong [OF al(5)]) (simp_all add: ns(1) same)
  define ms where "ms = (case pf_tail q1 of Some t \<Rightarrow> node_set_next t (Some a) ns | None \<Rightarrow> ns)"
  have ms: "length ms = length ns" "\<And>b. nd_data (ms ! b) = nd_data (ns ! b)"
    "\<And>b. pf_tail q1 \<noteq> Some b \<Longrightarrow> ms ! b = ns ! b"
    by (auto simp: ms_def node_set_next_def nth_list_update_if split: option.split)
  have tl: "pf_tail q1 = (if as = [] then None else Some (last as))" using assms al by (simp add: pf_rep_def)
  have tl_as: "pf_tail q1 = Some t \<Longrightarrow> t \<in> set as" for t
    using tl by (auto split: if_splits)
  have c1: "chain ms (if pf_head q1 = None then Some a else pf_head q1) (as @ [a])"
  proof (cases as rule: rev_cases)
    case Nil
    then show ?thesis using ca tl al(2) ns(1,2) by (auto simp: ms_def)
  next
    case (snoc bs t)
    have "pf_head q1 \<noteq> None" using ca snoc by (cases bs) auto
    moreover have "chain (node_set_next t (Some a) ns) (pf_head q1) (bs @ [t, a])"
      using ca snoc al(2,3,7) ns(1,2) by (intro chain_snoc) auto
    ultimately show ?thesis using snoc tl by (auto simp: ms_def)
  qed
  have c2: "chain ms (pf_free q1) fs'"
  proof (rule chain_cong [OF cf])
    show "nd_next (ms ! b) = nd_next (ns ! b)" if "b \<in> set fs'" for b
    proof -
      have "pf_tail q1 \<noteq> Some b" using that tl_as al(7) by auto
      then show ?thesis by (simp add: ms(3))
    qed
  qed (simp add: ms(1))
  have rep: "pf_rep (pf_put v q) (as @ [a]) fs'"
    using c1 c2 al assms ms(1) ns(1) unfolding pf_put_def al(1) Let_def split
    by (auto simp: pf_rep_def ms_def ns_def)
  have "map (\<lambda>a. nd_data (ms ! a)) as = map (\<lambda>a. nd_data (pf_nodes q ! a)) as"
    using ms(2) ns(4) al(3,12) by (intro map_cong refl) (metis)
  moreover have "pf_nodes (pf_put v q) = ms" by (simp add: pf_put_def al(1) Let_def ms_def ns_def split: option.split)
  ultimately have "pf_contents (pf_put v q) = pf_contents q @ [v]"
    unfolding rep_contents [OF rep] rep_contents [OF assms] by (simp add: ms(2) ns(3))
  with rep show ?thesis by blast
qed

lemma rep_push_front:
  assumes "pf_rep q as fs"
  shows "\<exists>a fs'. pf_rep (pf_push_front v q) (a # as) fs' \<and> pf_contents (pf_push_front v q) = v # pf_contents q"
proof -
  from assms obtain a q1 fs' where al: "pf_allocate q = (a, q1)" "a < length (pf_nodes q1)"
    "a \<notin> set as" "a \<notin> set fs'" "chain (pf_nodes q1) (pf_head q1) as"
    "chain (pf_nodes q1) (pf_free q1) fs'" "distinct (as @ fs')"
    "insert a (set (as @ fs')) = {..<length (pf_nodes q1)}"
    "pf_head q1 = pf_head q" "pf_tail q1 = pf_tail q" "pf_size q1 = pf_size q"
    "\<And>b. b \<in> set as \<Longrightarrow> pf_nodes q1 ! b = pf_nodes q ! b"
    by (rule rep_allocate) blast
  define ns where "ns = node_set_next a (pf_head q1) (node_set_data a v (pf_nodes q1))"
  have ns: "length ns = length (pf_nodes q1)" "nd_next (ns ! a) = pf_head q1" "nd_data (ns ! a) = v"
    "\<And>b. b \<noteq> a \<Longrightarrow> ns ! b = pf_nodes q1 ! b"
    using al(2) by (simp_all add: ns_def node_set_next_def node_set_data_def nth_list_update)
  have same: "ns ! b = pf_nodes q1 ! b" if "b \<in> set as \<or> b \<in> set fs'" for b
    using that al(3,4) ns(4) by metis
  have cf: "chain ns (pf_free q1) fs'" by (rule chain_cong [OF al(6)]) (simp_all add: ns(1) same)
  have ca: "chain ns (pf_head q1) as" by (rule chain_cong [OF al(5)]) (simp_all add: ns(1) same)
  have tl: "pf_tail q1 = (if as = [] then None else Some (last as))" and sz: "pf_size q1 = length as"
    using assms al by (simp_all add: pf_rep_def)
  have rep: "pf_rep (pf_push_front v q) (a # as) fs'"
    using cf ca al(2,3,4,7,8) ns(1,2) tl sz unfolding pf_push_front_def al(1) Let_def split
    by (simp add: pf_rep_def ns_def)
  have "map (\<lambda>a. nd_data (ns ! a)) as = map (\<lambda>a. nd_data (pf_nodes q ! a)) as"
    using same al(12) by (intro map_cong refl) simp
  then have "pf_contents (pf_push_front v q) = v # pf_contents q"
    unfolding rep_contents [OF rep] rep_contents [OF assms]
    using ns(3) by (simp add: pf_push_front_def al(1) Let_def ns_def)
  with rep show ?thesis by blast
qed

lemma rep_get:
  assumes "pf_rep q (a # as) fs"
  shows "pf_rep (snd (pf_get q)) as (a # fs)" and "fst (pf_get q) = nd_data (pf_nodes q ! a)"
    and "pf_contents (snd (pf_get q)) = tl (pf_contents q)"
proof -
  have r: "pf_head q = Some a" "a < length (pf_nodes q)" "chain (pf_nodes q) (nd_next (pf_nodes q ! a)) as"
    "chain (pf_nodes q) (pf_free q) fs" "a \<notin> set as" "a \<notin> set fs" "distinct (as @ fs)"
    "insert a (set (as @ fs)) = {..<length (pf_nodes q)}"
    "pf_tail q = Some (last (a # as))" "pf_size q = Suc (length as)"
    using assms by (simp_all add: pf_rep_def)
  define ns where "ns = node_set_next a (pf_free q) (pf_nodes q)"
  have ns: "length ns = length (pf_nodes q)" "nd_next (ns ! a) = pf_free q"
    "\<And>b. nd_data (ns ! b) = nd_data (pf_nodes q ! b)" "\<And>b. b \<noteq> a \<Longrightarrow> ns ! b = pf_nodes q ! b"
    using r(2) by (auto simp: ns_def node_set_next_def nth_list_update_if)
  have same: "ns ! b = pf_nodes q ! b" if "b \<in> set as \<or> b \<in> set fs" for b
    using that r(5,6) ns(4) by metis
  have cf: "chain ns (pf_free q) fs" by (rule chain_cong [OF r(4)]) (simp_all add: ns(1) same)
  have ca: "chain ns (nd_next (pf_nodes q ! a)) as" by (rule chain_cong [OF r(3)]) (simp_all add: ns(1) same)
  have nil: "nd_next (pf_nodes q ! a) = None \<longleftrightarrow> as = []" using r(3) by (cases as) auto
  have get: "pf_get q = (nd_data (pf_nodes q ! a), q\<lparr>pf_nodes := ns, pf_free := Some a,
      pf_head := nd_next (pf_nodes q ! a), pf_tail := (if as = [] then None else pf_tail q),
      pf_size := pf_size q - 1\<rparr>)"
    using nil by (simp add: pf_get_def r(1) Let_def pf_release_def ns_def)
  show rep: "pf_rep (snd (pf_get q)) as (a # fs)"
    using cf ca r(2,5,6,7,8,9,10) ns(1,2) by (auto simp: get pf_rep_def)
  show "fst (pf_get q) = nd_data (pf_nodes q ! a)" by (simp add: get)
  show "pf_contents (snd (pf_get q)) = tl (pf_contents q)"
    unfolding rep_contents [OF rep] rep_contents [OF assms] by (simp add: get ns(3))
qed

lemma rep_get_empty: "pf_rep q [] fs \<Longrightarrow> pf_get q = (None, q)"
  by (simp add: pf_rep_def pf_get_def)

lemma pf_contents_Nil: "pf_inv q \<Longrightarrow> pf_contents q = [] \<Longrightarrow> pf_get q = (None, q)"
  by (metis pf_inv_def rep_contents rep_get_empty map_is_Nil_conv)

lemma pf_contents_Cons:
  assumes "pf_inv q" and "pf_contents q = v # vs"
  shows "fst (pf_get q) = v \<and> pf_contents (snd (pf_get q)) = vs \<and> pf_inv (snd (pf_get q))"
proof -
  from assms(1) obtain as fs where rep: "pf_rep q as fs" by (auto simp: pf_inv_def)
  with assms(2) obtain a bs where as: "as = a # bs" using rep_contents [OF rep] by (cases as) auto
  show ?thesis
    using rep_get [OF rep [unfolded as]] rep_contents [OF rep] assms(2) as by (auto simp: pf_inv_def)
qed

lemma pf_inv_put: "pf_inv q \<Longrightarrow> pf_inv (pf_put v q) \<and> pf_contents (pf_put v q) = pf_contents q @ [v]"
  using rep_put unfolding pf_inv_def by metis

lemma pf_inv_push_front:
  "pf_inv q \<Longrightarrow> pf_inv (pf_push_front v q) \<and> pf_contents (pf_push_front v q) = v # pf_contents q"
  using rep_push_front unfolding pf_inv_def by metis

lemma pf_size_contents: "pf_inv q \<Longrightarrow> pf_size q = length (pf_contents q)"
  unfolding pf_inv_def by (auto simp: rep_contents pf_rep_def)

lemma pf_front_contents:
  "pf_inv q \<Longrightarrow> pf_front q = (case pf_contents q of [] \<Rightarrow> None | v # _ \<Rightarrow> v)"
  unfolding pf_inv_def
  by (auto simp: rep_contents pf_front_def pf_rep_def split: list.split)

text \<open>
  A queue whose clients put non-null pointers meets the contract of a FIFO. A client that puts a
  null pointer cannot tell its return from an empty queue.
\<close>

definition pf_ok :: "'v pointer_fifo \<Rightarrow> bool" where
  "pf_ok q \<longleftrightarrow> pf_inv q \<and> None \<notin> set (pf_contents q)"

definition pf_list :: "'v pointer_fifo \<Rightarrow> 'v list" where
  "pf_list q = map the (pf_contents q)"

lemma pf_ok_new: "pf_ok pf_new"
  using pf_inv_new by (simp add: pf_ok_def) (simp add: pf_contents_def pf_new_def)

lemma pf_ok_put:
  "pf_ok q \<Longrightarrow> pf_ok (pf_put (Some v) q) \<and> pf_list (pf_put (Some v) q) = pf_list q @ [v]"
  using pf_inv_put [of q "Some v"] by (auto simp: pf_ok_def pf_list_def)

lemma pf_ok_get:
  assumes "pf_ok q"
  shows "pf_ok (snd (pf_get q)) \<and>
    (case pf_list q of [] \<Rightarrow> pf_get q = (None, q)
     | v # vs \<Rightarrow> fst (pf_get q) = Some v \<and> pf_list (snd (pf_get q)) = vs)"
proof (cases "pf_contents q")
  case Nil
  then show ?thesis using assms pf_contents_Nil [of q] by (simp add: pf_ok_def pf_list_def)
next
  case (Cons v vs)
  then show ?thesis using assms pf_contents_Cons [of q v vs] by (auto simp: pf_ok_def pf_list_def)
qed

interpretation pfq: fifo_queue pf_new "\<lambda>v. pf_put (Some v)" pf_get pf_size pf_list pf_ok
proof (unfold_locales, goal_cases)
  case 1
  show ?case by (simp add: pf_list_def pf_contents_def pf_new_def)
next
  case (2 q v)
  then show ?case by (simp add: pf_ok_put)
next
  case (3 q)
  then show ?case using pf_ok_get [of q] by simp
next
  case (4 q v vs)
  then show ?case using pf_ok_get [of q] by simp
next
  case (5 q)
  then show ?case by (simp add: pf_ok_def pf_list_def pf_size_contents)
next
  case 6
  show ?case by (rule pf_ok_new)
next
  case (7 q v)
  then show ?case by (simp add: pf_ok_put)
next
  case (8 q)
  then show ?case using pf_ok_get [of q] by blast
qed

section \<open>Properties\<close>



text \<open>The destructor frees every node that was ever allocated, and frees each of them once.\<close>

theorem PointerFIFO_destroy_exact:
  assumes "pf_inv q"
  shows "distinct (pf_destroy q) \<and> set (pf_destroy q) = {..<length (pf_nodes q)}"
proof -
  from assms obtain as fs where rep: "pf_rep q as fs" by (auto simp: pf_inv_def)
  have "pf_destroy q = as @ fs"
    using rep rep_count [OF rep] walk_chain [of "pf_nodes q" "pf_head q" as "length (pf_nodes q)"]
      walk_chain [of "pf_nodes q" "pf_free q" fs "length (pf_nodes q)"]
    by (simp add: pf_destroy_def pf_rep_def)
  then show ?thesis using rep by (simp add: pf_rep_def)
qed

theorem PointerFIFO_destroy_exact_witness:
  "pf_destroy (snd (pf_get (pf_put (Some 8) (pf_put (Some (7::nat)) pf_new)))) = [1, 0] \<and>
   distinct (pf_destroy (snd (pf_get (pf_put (Some 8) (pf_put (Some (7::nat)) pf_new)))))"
proof -
  have "pf_inv (snd (pf_get (pf_put (Some 8) (pf_put (Some (7::nat)) pf_new))))"
    using pf_ok_get pf_ok_put pf_ok_new unfolding pf_ok_def by metis
  from PointerFIFO_destroy_exact [OF this] show ?thesis by (simp, code_simp)
qed

end
