(* ===== verification/Interthread.thy ===== *)
theory Interthread
  imports LinkedLists "HOL-Library.Multiset"
begin

text \<open>
  The interthread mechanisms of \<^verbatim>\<open>CommonLibs/Interthread.h\<close>: the FIFO \<open>InterthreadQueue\<close> over a
  PointerFIFO, the queue with a low water mark, the keyed map, the priority queue and the semaphore.

  Each method of the code holds the object's mutex from its first to its last access, and lets it go
  only inside a wait on a condition variable, so a method is one atomic step, or a sequence of them
  with waits in between. A wait is modelled by what the other threads did to the object until the
  waiter got the mutex again: a function on the object's state. A method that waits takes the list of
  its wake-ups (with the clock's verdict \<open>passed\<close> where a timeout is checked) and returns \<open>None\<close> when
  it is still waiting after the last of them. What a method deletes is part of its result.
\<close>

section \<open>InterthreadQueue\<close>

fun itq_clear_loop :: "nat \<Rightarrow> 'v pointer_fifo \<Rightarrow> ('v list \<times> 'v pointer_fifo) option" where
  "itq_clear_loop fuel q =
    (if pf_size q > 0 then
       (case fuel of
          0 \<Rightarrow> None
        | Suc n \<Rightarrow>
            (let (v, q1) = pf_get q
             in map_option (\<lambda>(vs, q2). (case v of None \<Rightarrow> vs | Some x \<Rightarrow> x # vs, q2)) (itq_clear_loop n q1)))
     else Some ([], q))"

declare itq_clear_loop.simps [simp del]

definition itq_clear :: "'v pointer_fifo \<Rightarrow> ('v list \<times> 'v pointer_fifo) option" where
  "itq_clear q = itq_clear_loop (pf_size q) q"

definition itq_flushNoDelete :: "'v pointer_fifo \<Rightarrow> 'v pointer_fifo option" where
  "itq_flushNoDelete q = map_option snd (itq_clear_loop (pf_size q) q)"

definition itq_size :: "'v pointer_fifo \<Rightarrow> nat" where
  "itq_size q = pf_size q"

definition itq_totalSize :: "'v pointer_fifo \<Rightarrow> nat" where
  "itq_totalSize q = pf_totalSize q"

fun itq_read :: "('v pointer_fifo \<Rightarrow> 'v pointer_fifo) list \<Rightarrow> 'v pointer_fifo \<Rightarrow> ('v \<times> 'v pointer_fifo) option" where
  "itq_read wakes q =
    (case pf_get q of
       (Some v, q1) \<Rightarrow> Some (v, q1)
     | (None, q1) \<Rightarrow>
         (case wakes of [] \<Rightarrow> None | env # ws \<Rightarrow> itq_read ws (env q1)))"

declare itq_read.simps [simp del]

definition itq_front :: "'v pointer_fifo \<Rightarrow> 'v option" where
  "itq_front q = pf_front q"

definition itq_readNoBlock :: "'v pointer_fifo \<Rightarrow> 'v option \<times> 'v pointer_fifo" where
  "itq_readNoBlock q = pf_get q"

fun itq_wait :: "(bool \<times> ('v pointer_fifo \<Rightarrow> 'v pointer_fifo)) list \<Rightarrow> 'v pointer_fifo \<Rightarrow> 'v pointer_fifo option" where
  "itq_wait [] q = (if pf_size q = 0 then None else Some q)"
| "itq_wait ((passed, env) # ws) q =
    (if pf_size q = 0 \<and> \<not> passed then itq_wait ws (env q) else Some q)"

definition itq_read_timeout ::
    "nat \<Rightarrow> (bool \<times> ('v pointer_fifo \<Rightarrow> 'v pointer_fifo)) list \<Rightarrow> 'v pointer_fifo \<Rightarrow>
      ('v option \<times> 'v pointer_fifo) option" where
  "itq_read_timeout timeout wakes q =
    (if timeout = 0 then Some (itq_readNoBlock q) else map_option pf_get (itq_wait wakes q))"

definition itq_write :: "'v option \<Rightarrow> 'v pointer_fifo \<Rightarrow> 'v pointer_fifo" where
  "itq_write val q = pf_put val q"

definition itq_write_front :: "'v option \<Rightarrow> 'v pointer_fifo \<Rightarrow> 'v pointer_fifo" where
  "itq_write_front val q = pf_push_front val q"

lemma itq_clear_ok:
  "pf_ok q \<Longrightarrow> \<exists>q'. itq_clear_loop (pf_size q) q = Some (pf_list q, q') \<and> pf_ok q' \<and> pf_list q' = []"
proof (induction "pf_size q" arbitrary: q)
  case 0
  then have "pf_list q = []" using pfq.size_contents [of q] by simp
  then show ?case using 0 by (subst itq_clear_loop.simps) simp
next
  case (Suc n)
  have sz: "pf_size q = length (pf_list q)" by (rule pfq.size_contents [OF Suc.prems])
  with Suc.hyps(2) obtain v vs where l: "pf_list q = v # vs" by (cases "pf_list q") auto
  obtain r q1 where g: "pf_get q = (r, q1)" by force
  have r: "r = Some v" and q1: "pf_ok q1" "pf_list q1 = vs"
    using pfq.get_Cons [OF Suc.prems l] pfq.invar_get [OF Suc.prems] g by simp_all
  have n: "n = pf_size q1" using sz l Suc.hyps(2) q1 pfq.size_contents [OF q1(1)] by simp
  obtain q' where "itq_clear_loop (pf_size q1) q1 = Some (vs, q')" "pf_ok q'" "pf_list q' = []"
    using Suc.hyps(1) [OF n q1(1)] q1(2) by auto
  then show ?case
    using Suc.hyps(2) [symmetric] n g r l by (subst itq_clear_loop.simps) auto
qed

text \<open>\<open>clear\<close> of a queue of non-null pointers returns, deletes exactly the queued elements, each
  once and in queue order, and leaves an empty queue.\<close>

theorem InterthreadQueue_clear:
  assumes "pf_ok q"
  shows "\<exists>q'. itq_clear q = Some (pf_list q, q') \<and> pf_ok q' \<and> pf_list q' = [] \<and> itq_size q' = 0"
proof -
  obtain q' where q': "itq_clear_loop (pf_size q) q = Some (pf_list q, q')" "pf_ok q'" "pf_list q' = []"
    using itq_clear_ok [OF assms] by blast
  then show ?thesis
    using pfq.size_contents [of q'] by (intro exI [of _ q']) (simp add: itq_clear_def itq_size_def)
qed

theorem InterthreadQueue_clear_witness:
  "\<exists>q'. itq_clear (pf_put (Some 5) (pf_put (Some (4::nat)) pf_new)) = Some ([4, 5], q') \<and> itq_size q' = 0"
proof -
  let ?q1 = "pf_put (Some (4::nat)) pf_new"
  note q1 = pf_ok_put [OF pf_ok_new, of "4::nat"]
  note q2 = pf_ok_put [OF conjunct1 [OF q1], of 5]
  have "pf_list (pf_put (Some 5) ?q1) = [4, 5]"
    using q1 q2 by (simp add: pf_list_def pf_contents_def pf_new_def)
  with InterthreadQueue_clear [OF conjunct1 [OF q2]] show ?thesis by (simp only:) blast
qed

subsection \<open>Producers and consumers\<close>

text \<open>
  The queue between threads: any number of writers, of readers in one of the reading methods, and of
  callers of \<open>clear\<close>, interleaved in any order. \<open>q_sent\<close> is what was written so far and \<open>q_taken\<close> what
  left the queue (to a reader or to \<open>clear\<close>), in order. A reader whose \<open>get\<close> finds nothing goes back to
  its wait with the queue unchanged.
\<close>

record 'v queue_sys =
  q_fifo :: "'v pointer_fifo"
  q_sent :: "'v list"
  q_taken :: "'v list"

inductive queue_step :: "'v queue_sys \<Rightarrow> 'v queue_sys \<Rightarrow> bool" where
  write_step: "queue_step s (s\<lparr>q_fifo := itq_write (Some v) (q_fifo s), q_sent := q_sent s @ [v]\<rparr>)"
| read_step: "itq_readNoBlock (q_fifo s) = (Some v, q') \<Longrightarrow>
    queue_step s (s\<lparr>q_fifo := q', q_taken := q_taken s @ [v]\<rparr>)"
| read_wait_step: "itq_readNoBlock (q_fifo s) = (None, q') \<Longrightarrow> queue_step s (s\<lparr>q_fifo := q'\<rparr>)"
| clear_step: "itq_clear (q_fifo s) = Some (vs, q') \<Longrightarrow>
    queue_step s (s\<lparr>q_fifo := q', q_taken := q_taken s @ vs\<rparr>)"

inductive queue_reachable :: "'v queue_sys \<Rightarrow> bool" where
  queue_start: "queue_reachable \<lparr>q_fifo = pf_new, q_sent = [], q_taken = []\<rparr>"
| queue_next: "queue_reachable s \<Longrightarrow> queue_step s t \<Longrightarrow> queue_reachable t"

definition queue_sys_inv :: "'v queue_sys \<Rightarrow> bool" where
  "queue_sys_inv s \<longleftrightarrow> pf_ok (q_fifo s) \<and> q_sent s = q_taken s @ pf_list (q_fifo s)"

lemma queue_step_inv:
  assumes "queue_step s t" and "queue_sys_inv s"
  shows "queue_sys_inv t"
  using assms
proof (induction rule: queue_step.induct)
  case (write_step s v)
  then show ?case using pf_ok_put [of "q_fifo s" v] by (simp add: queue_sys_inv_def itq_write_def)
next
  case (read_step s v q')
  then show ?case using pf_ok_get [of "q_fifo s"]
    by (cases "pf_list (q_fifo s)") (auto simp: queue_sys_inv_def itq_readNoBlock_def)
next
  case (read_wait_step s q')
  then show ?case using pf_ok_get [of "q_fifo s"]
    by (cases "pf_list (q_fifo s)") (auto simp: queue_sys_inv_def itq_readNoBlock_def)
next
  case (clear_step s vs q')
  then show ?case using itq_clear_ok [of "q_fifo s"] by (auto simp: queue_sys_inv_def itq_clear_def)
qed

text \<open>C34. In every reachable state of the writers, readers and clearers, what was taken from the queue
  is a prefix of what was written, and the rest is in the queue: nothing is lost, duplicated or
  reordered.\<close>

theorem InterthreadQueue_order:
  assumes "queue_reachable s"
  shows "q_sent s = q_taken s @ pf_list (q_fifo s) \<and>
    itq_size (q_fifo s) = length (q_sent s) - length (q_taken s)"
proof -
  have inv: "queue_sys_inv s"
    using assms
  proof (induction rule: queue_reachable.induct)
    case queue_start
    then show ?case by (simp add: queue_sys_inv_def pf_ok_new pfq.contents_empty)
  next
    case (queue_next s t)
    then show ?case by (blast intro: queue_step_inv)
  qed
  then show ?thesis
    using pfq.size_contents [of "q_fifo s"] by (auto simp: queue_sys_inv_def itq_size_def)
qed

theorem InterthreadQueue_order_witness:
  "\<exists>s. queue_reachable s \<and> q_sent s = [3 :: nat] \<and> pf_list (q_fifo s) = [3]"
proof -
  let ?s0 = "\<lparr>q_fifo = pf_new, q_sent = [], q_taken = []\<rparr> :: nat queue_sys"
  let ?s = "?s0\<lparr>q_fifo := itq_write (Some 3) (q_fifo ?s0), q_sent := q_sent ?s0 @ [3]\<rparr>"
  have r: "queue_reachable ?s" by (rule queue_next [OF queue_start write_step])
  show ?thesis using r InterthreadQueue_order [OF r] by (intro exI [of _ ?s]) simp
qed

text \<open>A blocking \<open>read\<close> that returns after some wake-ups returns the first element of the queue it
  finds non-empty, removes it, and never returns a null pointer; as long as every wake-up leaves the
  queue empty it keeps waiting.\<close>

theorem InterthreadQueue_read:
  assumes "pf_ok q" and "\<And>env q. env \<in> set wakes \<Longrightarrow> pf_ok q \<Longrightarrow> pf_ok (env q)"
  shows "case itq_read wakes q of
      Some (v, q') \<Rightarrow> pf_ok q' \<and> (pf_list q \<noteq> [] \<longrightarrow> pf_list q = v # pf_list q')
    | None \<Rightarrow> pf_list q = []"
  using assms
proof (induction wakes arbitrary: q)
  case Nil
  then show ?case using pf_ok_get [OF Nil.prems(1)]
    by (subst itq_read.simps) (auto split: list.splits option.splits prod.splits)
next
  case (Cons env ws)
  have wk: "\<And>e q. e \<in> set ws \<Longrightarrow> pf_ok q \<Longrightarrow> pf_ok (e q)" using Cons.prems(2) by simp
  show ?case
  proof (cases "pf_list q")
    case Nil
    then have g: "pf_get q = (None, q)" using pfq.get_Nil [OF Cons.prems(1)] by simp
    have "pf_ok (env q)" using Cons.prems by simp
    then have IH: "case itq_read ws (env q) of
        Some (v, q') \<Rightarrow> pf_ok q' \<and> (pf_list (env q) \<noteq> [] \<longrightarrow> pf_list (env q) = v # pf_list q')
      | None \<Rightarrow> pf_list (env q) = []"
      using Cons.IH [of "env q"] wk by blast
    have "itq_read (env # ws) q = itq_read ws (env q)" using g by (subst itq_read.simps) simp
    then show ?thesis using IH Nil by (auto split: option.splits)
  next
    case (Cons v vs)
    obtain q1 where "pf_get q = (Some v, q1)" "pf_list q1 = vs" "pf_ok q1"
      using pfq.get_Cons [OF Cons.prems(1) Cons] pfq.invar_get [OF Cons.prems(1)] by (metis prod.collapse)
    then show ?thesis using Cons by (subst itq_read.simps) simp
  qed
qed


theorem InterthreadQueue_read_witness:
  "\<exists>v q'. itq_read [\<lambda>q. q, pf_put (Some (9::nat))] (pf_put (Some 8) pf_new) = Some (v, q') \<and>
    pf_list (pf_put (Some (8::nat)) pf_new) = v # pf_list q'"
proof -
  note ok = pf_ok_put [OF pf_ok_new, of "8::nat"]
  have l: "pf_list (pf_put (Some (8::nat)) pf_new) = [8]"
    using ok by (simp add: pf_list_def pf_contents_def pf_new_def)
  have "pf_ok (env q)" if "env \<in> set [\<lambda>q. q, pf_put (Some (9::nat))]" "pf_ok q" for env q
    using that pf_ok_put [of q 9] by auto
  then have "case itq_read [\<lambda>q. q, pf_put (Some 9)] (pf_put (Some (8::nat)) pf_new) of
      Some (v, q') \<Rightarrow> pf_ok q' \<and> (pf_list (pf_put (Some (8::nat)) pf_new) \<noteq> [] \<longrightarrow>
        pf_list (pf_put (Some (8::nat)) pf_new) = v # pf_list q')
    | None \<Rightarrow> pf_list (pf_put (Some (8::nat)) pf_new) = []"
    by (rule InterthreadQueue_read [OF conjunct1 [OF ok]])
  then show ?thesis using l by (auto split: option.splits)
qed

section \<open>InterthreadQueueWithWait\<close>

text \<open>\<open>read\<close>, \<open>readNoBlock\<close> and \<open>write\<close> are those of \<open>InterthreadQueue\<close>, and signal the waiters of
  \<open>wait\<close> when they take an element out. Each operation returns whether it signals \<open>mReadSignal\<close>.\<close>

definition itqw_clear :: "'v pointer_fifo \<Rightarrow> ('v list \<times> 'v pointer_fifo \<times> bool) option" where
  "itqw_clear q = map_option (\<lambda>(vs, q'). (vs, q', True)) (itq_clear_loop (pf_size q) q)"

definition itqw_read ::
    "('v pointer_fifo \<Rightarrow> 'v pointer_fifo) list \<Rightarrow> 'v pointer_fifo \<Rightarrow> ('v \<times> 'v pointer_fifo \<times> bool) option" where
  "itqw_read wakes q = map_option (\<lambda>(v, q'). (v, q', True)) (itq_read wakes q)"

definition itqw_readNoBlock :: "'v pointer_fifo \<Rightarrow> 'v option \<times> 'v pointer_fifo \<times> bool" where
  "itqw_readNoBlock q = (let (r, q') = pf_get q in (r, q', r \<noteq> None))"

definition itqw_read_timeout ::
    "nat \<Rightarrow> (bool \<times> ('v pointer_fifo \<Rightarrow> 'v pointer_fifo)) list \<Rightarrow> 'v pointer_fifo \<Rightarrow>
      ('v option \<times> 'v pointer_fifo \<times> bool) option" where
  "itqw_read_timeout timeout wakes q =
    (if timeout = 0 then Some (itqw_readNoBlock q)
     else map_option (\<lambda>q1. let (r, q') = pf_get q1 in (r, q', r \<noteq> None)) (itq_wait wakes q))"

fun itqw_wait :: "nat \<Rightarrow> ('v pointer_fifo \<Rightarrow> 'v pointer_fifo) list \<Rightarrow> 'v pointer_fifo \<Rightarrow> 'v pointer_fifo option" where
  "itqw_wait sz wakes q =
    (if pf_size q > sz then (case wakes of [] \<Rightarrow> None | env # ws \<Rightarrow> itqw_wait sz ws (env q))
     else Some q)"

declare itqw_wait.simps [simp del]

lemma itqw_wait_low: "itqw_wait sz wakes q = Some q' \<Longrightarrow> pf_size q' \<le> sz"
proof (induction wakes arbitrary: q)
  case Nil
  then show ?case by (subst (asm) itqw_wait.simps) (simp split: if_splits)
next
  case (Cons env ws)
  then show ?case by (subst (asm) itqw_wait.simps) (auto split: if_splits)
qed

section \<open>InterthreadMap\<close>

text \<open>\<open>std::map<K, D*>\<close> as the list of its entries in key order; a stored pointer may be null.\<close>

type_synonym ('k, 'd) imap = "('k \<times> 'd option) list"

definition im_find :: "'k \<Rightarrow> ('k, 'd) imap \<Rightarrow> 'd option option" where
  "im_find k m = map_of m k"

fun im_set :: "'k::linorder \<Rightarrow> 'd option \<Rightarrow> ('k, 'd) imap \<Rightarrow> ('k, 'd) imap" where
  "im_set k d [] = [(k, d)]"
| "im_set k d ((k', d') # m) =
    (if k < k' then (k, d) # (k', d') # m
     else if k = k' then (k, d) # m
     else (k', d') # im_set k d m)"

definition im_erase :: "'k \<Rightarrow> ('k, 'd) imap \<Rightarrow> ('k, 'd) imap" where
  "im_erase k m = filter (\<lambda>e. fst e \<noteq> k) m"

definition ptrs :: "'d option list \<Rightarrow> 'd list" where
  "ptrs xs = map the (filter (\<lambda>x. x \<noteq> None) xs)"

definition im_clear :: "('k, 'd) imap \<Rightarrow> 'd list \<times> ('k, 'd) imap" where
  "im_clear m = (ptrs (map snd m), [])"

definition im_write :: "'k::linorder \<Rightarrow> 'd option \<Rightarrow> ('k, 'd) imap \<Rightarrow> 'd list \<times> ('k, 'd) imap" where
  "im_write k wData m =
    (case im_find k m of
       Some old \<Rightarrow> (ptrs [old], im_set k wData m)
     | None \<Rightarrow> ([], im_set k wData m))"

definition im_getNoBlock :: "'k \<Rightarrow> ('k, 'd) imap \<Rightarrow> 'd option \<times> ('k, 'd) imap" where
  "im_getNoBlock k m =
    (case im_find k m of None \<Rightarrow> (None, m) | Some d \<Rightarrow> (d, im_erase k m))"

fun im_wait_timeout ::
    "'k \<Rightarrow> (bool \<times> (('k, 'd) imap \<Rightarrow> ('k, 'd) imap)) list \<Rightarrow> ('k, 'd) imap \<Rightarrow> ('k, 'd) imap option" where
  "im_wait_timeout k [] m = (if im_find k m = None then None else Some m)"
| "im_wait_timeout k ((passed, env) # ws) m =
    (if im_find k m = None \<and> \<not> passed then im_wait_timeout k ws (env m) else Some m)"

definition im_get_timeout ::
    "'k \<Rightarrow> nat \<Rightarrow> (bool \<times> (('k, 'd) imap \<Rightarrow> ('k, 'd) imap)) list \<Rightarrow> ('k, 'd) imap \<Rightarrow>
      ('d option \<times> ('k, 'd) imap) option" where
  "im_get_timeout k timeout wakes m =
    (if timeout = 0 then Some (im_getNoBlock k m)
     else map_option (im_getNoBlock k) (im_wait_timeout k wakes m))"

fun im_wait :: "'k \<Rightarrow> (('k, 'd) imap \<Rightarrow> ('k, 'd) imap) list \<Rightarrow> ('k, 'd) imap \<Rightarrow> ('k, 'd) imap option" where
  "im_wait k wakes m =
    (if im_find k m = None then (case wakes of [] \<Rightarrow> None | env # ws \<Rightarrow> im_wait k ws (env m))
     else Some m)"

declare im_wait.simps [simp del]

definition im_get :: "'k \<Rightarrow> (('k, 'd) imap \<Rightarrow> ('k, 'd) imap) list \<Rightarrow> ('k, 'd) imap \<Rightarrow>
    ('d option \<times> ('k, 'd) imap) option" where
  "im_get k wakes m = map_option (im_getNoBlock k) (im_wait k wakes m)"

definition im_remove :: "'k \<Rightarrow> ('k, 'd) imap \<Rightarrow> bool \<times> 'd list \<times> ('k, 'd) imap" where
  "im_remove k m =
    (let (val, m') = im_getNoBlock k m
     in case val of None \<Rightarrow> (False, [], m') | Some d \<Rightarrow> (True, [d], m'))"

definition im_readNoBlock :: "'k \<Rightarrow> ('k, 'd) imap \<Rightarrow> 'd option" where
  "im_readNoBlock k m = (case im_find k m of None \<Rightarrow> None | Some d \<Rightarrow> d)"

definition im_read_timeout ::
    "'k \<Rightarrow> nat \<Rightarrow> (bool \<times> (('k, 'd) imap \<Rightarrow> ('k, 'd) imap)) list \<Rightarrow> ('k, 'd) imap \<Rightarrow>
      ('d option \<times> ('k, 'd) imap) option" where
  "im_read_timeout k timeout wakes m =
    (if timeout = 0 then Some (im_readNoBlock k m, m)
     else map_option (\<lambda>m'. (im_readNoBlock k m', m')) (im_wait_timeout k wakes m))"

definition im_read :: "'k \<Rightarrow> (('k, 'd) imap \<Rightarrow> ('k, 'd) imap) list \<Rightarrow> ('k, 'd) imap \<Rightarrow>
    ('d option \<times> ('k, 'd) imap) option" where
  "im_read k wakes m = map_option (\<lambda>m'. (im_readNoBlock k m', m')) (im_wait k wakes m)"


subsection \<open>Ownership of the mapped objects\<close>

text \<open>A history of operations on one map. \<open>im_hist\<close> collects what the calls returned to their callers
  and what they deleted.\<close>

datatype ('k, 'd) imap_op = MWrite 'k 'd | MGet 'k | MRemove 'k | MClear

record ('k, 'd) imap_hist =
  mh_map :: "('k, 'd) imap"
  mh_returned :: "'d list"
  mh_deleted :: "'d list"

fun im_do :: "('k::linorder, 'd) imap_op \<Rightarrow> ('k, 'd) imap_hist \<Rightarrow> ('k, 'd) imap_hist" where
  "im_do (MWrite k d) h =
    (let (del, m) = im_write k (Some d) (mh_map h) in h\<lparr>mh_map := m, mh_deleted := del @ mh_deleted h\<rparr>)"
| "im_do (MGet k) h =
    (let (r, m) = im_getNoBlock k (mh_map h) in h\<lparr>mh_map := m, mh_returned := ptrs [r] @ mh_returned h\<rparr>)"
| "im_do (MRemove k) h =
    (let (_, del, m) = im_remove k (mh_map h) in h\<lparr>mh_map := m, mh_deleted := del @ mh_deleted h\<rparr>)"
| "im_do MClear h =
    (let (del, m) = im_clear (mh_map h) in h\<lparr>mh_map := m, mh_deleted := del @ mh_deleted h\<rparr>)"

fun im_written :: "('k, 'd) imap_op list \<Rightarrow> 'd list" where
  "im_written [] = []"
| "im_written (MWrite k d # ops) = d # im_written ops"
| "im_written (_ # ops) = im_written ops"

definition im_inv :: "('k::linorder, 'd) imap \<Rightarrow> bool" where
  "im_inv m \<longleftrightarrow> sorted (map fst m) \<and> distinct (map fst m)"

definition ptr_mset :: "'d option \<Rightarrow> 'd multiset" where
  "ptr_mset p = (case p of None \<Rightarrow> {#} | Some d \<Rightarrow> {#d#})"

fun im_owned :: "('k, 'd) imap \<Rightarrow> 'd multiset" where
  "im_owned [] = {#}"
| "im_owned ((k, p) # m) = ptr_mset p + im_owned m"

lemma ptrs_simps [simp]:
  "ptrs [] = []" "ptrs (None # xs) = ptrs xs" "ptrs (Some x # xs) = x # ptrs xs"
  by (simp_all add: ptrs_def)

lemma mset_ptrs [simp]: "mset (ptrs [x]) = ptr_mset x"
  by (cases x) (simp_all add: ptr_mset_def)

lemma mset_ptrs_map: "mset (ptrs (map snd m)) = im_owned m"
proof (induction m rule: im_owned.induct)
  case 1
  then show ?case by simp
next
  case (2 k p m)
  then show ?case by (cases p) (simp_all add: ptr_mset_def)
qed

lemma im_set_keys: "set (map fst (im_set k d m)) = insert k (set (map fst m))"
  by (induction k d m rule: im_set.induct) auto

lemma im_set_inv: "im_inv m \<Longrightarrow> im_inv (im_set k d m)"
proof (induction k d m rule: im_set.induct)
  case (1 k d)
  then show ?case by (simp add: im_inv_def)
next
  case (2 k d k' d' m)
  have m: "im_inv m" and le: "\<And>x. x \<in> set (map fst m) \<Longrightarrow> k' \<le> x" and ni: "k' \<notin> set (map fst m)"
    using 2 by (auto simp: im_inv_def)
  show ?case
  proof (cases "k < k' \<or> k = k'")
    case True
    then show ?thesis using m le ni 2 unfolding im_inv_def by fastforce
  next
    case False
    then have s: "im_inv (im_set k d m)" using 2 m by auto
    have "\<And>x. x \<in> set (map fst (im_set k d m)) \<Longrightarrow> k' \<le> x" and "k' \<notin> set (map fst (im_set k d m))"
      unfolding im_set_keys using False le ni by auto
    then show ?thesis using s False by (simp add: im_inv_def)
  qed
qed

lemma im_set_find: "im_inv m \<Longrightarrow> im_find j (im_set k d m) = (if j = k then Some d else im_find j m)"
  unfolding im_find_def
  by (induction k d m rule: im_set.induct) (auto simp: im_inv_def)

lemma im_find_less: "im_inv ((k', d') # m) \<Longrightarrow> k < k' \<Longrightarrow> im_find k ((k', d') # m) = None"
  unfolding im_find_def im_inv_def map_of_eq_None_iff by auto

lemma im_set_owned:
  "im_inv m \<Longrightarrow> im_owned (im_set k d m) + (case im_find k m of None \<Rightarrow> {#} | Some old \<Rightarrow> ptr_mset old)
    = im_owned m + ptr_mset d"
proof (induction k d m rule: im_set.induct)
  case (1 k d)
  then show ?case by (simp add: im_find_def)
next
  case (2 k d k' d' m)
  consider "k < k'" | "k = k'" | "k' < k" by (rule linorder_cases)
  then show ?case
  proof cases
    case 1
    then show ?thesis using im_find_less [OF 2(2) 1] by simp
  next
    case c: 2
    then show ?thesis by (simp add: im_find_def)
  next
    case 3
    then have f: "im_find k ((k', d') # m) = im_find k m" and m: "im_inv m"
      using 2(2) by (auto simp: im_find_def im_inv_def)
    have "im_owned (im_set k d m) + (case im_find k m of None \<Rightarrow> {#} | Some old \<Rightarrow> ptr_mset old)
      = im_owned m + ptr_mset d" using 2(1) 3 m by auto
    moreover have "im_owned (im_set k d ((k', d') # m)) = ptr_mset d' + im_owned (im_set k d m)"
      using 3 by auto
    ultimately show ?thesis using f by (simp add: add.assoc)
  qed
qed

lemma im_erase_inv: "im_inv m \<Longrightarrow> im_inv (im_erase k m)"
  unfolding im_inv_def im_erase_def by (induction m) auto

lemma im_erase_id: "k \<notin> set (map fst m) \<Longrightarrow> im_erase k m = m"
  unfolding im_erase_def by (induction m) auto

lemma im_erase_owned:
  "im_inv m \<Longrightarrow> im_find k m = Some d \<Longrightarrow> im_owned m = im_owned (im_erase k m) + ptr_mset d"
proof (induction m)
  case Nil
  then show ?case by (simp add: im_find_def)
next
  case (Cons e m)
  obtain k' d' where e: "e = (k', d')" by force
  have m: "im_inv m" and ni: "k' \<notin> set (map fst m)" using Cons.prems e by (auto simp: im_inv_def)
  show ?case
  proof (cases "k' = k")
    case True
    then show ?thesis using Cons.prems e im_erase_id [of k m] ni
      by (auto simp: im_find_def im_erase_def)
  next
    case False
    then have "im_owned m = im_owned (im_erase k m) + ptr_mset d"
      using Cons.IH Cons.prems e m by (simp add: im_find_def)
    then show ?thesis using False e
      by (simp add: im_erase_def)
  qed
qed

lemma im_erase_find: "im_find j (im_erase k m) = (if j = k then None else im_find j m)"
  unfolding im_find_def im_erase_def by (induction m) auto

definition im_hist_ok :: "'d list \<Rightarrow> ('k::linorder, 'd) imap_hist \<Rightarrow> bool" where
  "im_hist_ok ds h \<longleftrightarrow> im_inv (mh_map h) \<and>
    mset ds = im_owned (mh_map h) + mset (mh_returned h) + mset (mh_deleted h)"

lemma im_getNoBlock_owned:
  assumes "im_inv m" and "im_getNoBlock k m = (r, m')"
  shows "im_inv m' \<and> im_owned m = im_owned m' + ptr_mset r"
  using assms im_erase_owned [OF assms(1)] im_erase_inv [OF assms(1)]
  by (auto simp: im_getNoBlock_def ptr_mset_def split: option.splits)

lemma im_do_ok:
  assumes "im_hist_ok ds h"
  shows "im_hist_ok (im_written [op] @ ds) (im_do op h)"
proof (cases op)
  case (MWrite k d)
  have inv: "im_inv (mh_map h)" using assms by (simp add: im_hist_ok_def)
  have m: "mset ds = im_owned (mh_map h) + mset (mh_returned h) + mset (mh_deleted h)"
    using assms by (simp add: im_hist_ok_def)
  show ?thesis
    using MWrite m im_set_inv [OF inv, of k "Some d"] im_set_owned [OF inv, of k "Some d"]
    by (cases "im_find k (mh_map h)") (simp_all add: im_hist_ok_def im_write_def ptr_mset_def ac_simps)
next
  case (MGet k)
  obtain r m' where g: "im_getNoBlock k (mh_map h) = (r, m')" by force
  then show ?thesis using assms MGet im_getNoBlock_owned [of "mh_map h" k r m']
    by (simp add: im_hist_ok_def ac_simps)
next
  case (MRemove k)
  obtain r m' where g: "im_getNoBlock k (mh_map h) = (r, m')" by force
  then show ?thesis using assms MRemove im_getNoBlock_owned [of "mh_map h" k r m']
    by (cases r) (simp_all add: im_hist_ok_def im_remove_def ptr_mset_def ac_simps)
next
  case MClear
  then show ?thesis using assms
    by (simp add: im_hist_ok_def im_clear_def mset_ptrs_map im_inv_def ac_simps)
qed


text \<open>C37. Over any history of an InterthreadMap, every object written is at each moment either still
  in the map, or was handed to a caller, or was deleted, and only one of the three: no object leaks and
  none is deleted twice or while a caller owns it. The keys stay distinct and in order.\<close>

theorem InterthreadMap_ownership:
  assumes "h = fold im_do ops \<lparr>mh_map = [], mh_returned = [], mh_deleted = []\<rparr>"
  shows "mset (im_written ops) = im_owned (mh_map h) + mset (mh_returned h) + mset (mh_deleted h) \<and>
    im_inv (mh_map h)"
proof -
  have run: "im_hist_ok (rev (im_written ops) @ ds) (fold im_do ops h0)" if "im_hist_ok ds h0" for ds h0
    using that
  proof (induction ops arbitrary: ds h0)
    case Nil
    then show ?case by simp
  next
    case (Cons op ops)
    have "im_hist_ok (rev (im_written ops) @ im_written [op] @ ds) (fold im_do ops (im_do op h0))"
      by (rule Cons.IH [OF im_do_ok [OF Cons.prems]])
    then show ?case by (cases op) simp_all
  qed
  have "im_hist_ok [] \<lparr>mh_map = [] :: ('a, 'b) imap, mh_returned = [], mh_deleted = []\<rparr>"
    by (simp add: im_hist_ok_def im_inv_def)
  from run [OF this] show ?thesis using assms by (simp add: im_hist_ok_def)
qed

theorem InterthreadMap_ownership_witness:
  "im_inv (mh_map (fold im_do [MWrite (2::nat) ''b'', MWrite 1 ''a'', MWrite 2 ''c'', MGet 1, MRemove 7]
     \<lparr>mh_map = [], mh_returned = [], mh_deleted = []\<rparr>)) \<and>
   mh_deleted (fold im_do [MWrite (2::nat) ''b'', MWrite 1 ''a'', MWrite 2 ''c'', MGet 1, MRemove 7]
     \<lparr>mh_map = [], mh_returned = [], mh_deleted = []\<rparr>) = [''b'']"
  using InterthreadMap_ownership [OF refl, of "[MWrite (2::nat) ''b'', MWrite 1 ''a'', MWrite 2 ''c'', MGet 1, MRemove 7]"]
  by (simp add: im_write_def im_find_def im_getNoBlock_def im_remove_def im_erase_def)

section \<open>InterthreadPriorityQueue\<close>

text \<open>
  \<open>std::priority_queue\<close> with \<open>PointerCompare\<close>, over the objects pointed to: the queue is the list of
  its elements, the oldest first, and its top is an element that no other is behind in the order
  \<open>gt\<close> (the objects' \<open>operator>\<close>). Which of several equal elements is the top is not fixed by the
  library; the model takes the oldest, and no theorem depends on it.
\<close>

fun pq_best :: "('a \<Rightarrow> 'a \<Rightarrow> bool) \<Rightarrow> 'a \<Rightarrow> 'a list \<Rightarrow> 'a" where
  "pq_best gt b [] = b"
| "pq_best gt b (x # xs) = pq_best gt (if gt b x then x else b) xs"

definition pq_top :: "('a \<Rightarrow> 'a \<Rightarrow> bool) \<Rightarrow> 'a list \<Rightarrow> 'a" where
  "pq_top gt q = pq_best gt (hd q) (tl q)"

definition pq_pop :: "('a \<Rightarrow> 'a \<Rightarrow> bool) \<Rightarrow> 'a list \<Rightarrow> 'a list" where
  "pq_pop gt q = remove1 (pq_top gt q) q"

definition pq_size :: "'a list \<Rightarrow> nat" where
  "pq_size q = length q"

definition pq_write :: "'a \<Rightarrow> 'a list \<Rightarrow> 'a list" where
  "pq_write v q = q @ [v]"

definition pq_readNoBlock :: "('a \<Rightarrow> 'a \<Rightarrow> bool) \<Rightarrow> 'a list \<Rightarrow> 'a option \<times> 'a list" where
  "pq_readNoBlock gt q = (if pq_size q \<noteq> 0 then (Some (pq_top gt q), pq_pop gt q) else (None, q))"

fun pq_read :: "('a \<Rightarrow> 'a \<Rightarrow> bool) \<Rightarrow> ('a list \<Rightarrow> 'a list) list \<Rightarrow> 'a list \<Rightarrow> ('a \<times> 'a list) option" where
  "pq_read gt wakes q =
    (if pq_size q = 0 then (case wakes of [] \<Rightarrow> None | env # ws \<Rightarrow> pq_read gt ws (env q))
     else Some (pq_top gt q, pq_pop gt q))"

declare pq_read.simps [simp del]

lemma pq_best_in: "pq_best gt b xs \<in> set (b # xs)"
  by (induction xs arbitrary: b) auto

lemma pq_top_in: "q \<noteq> [] \<Longrightarrow> pq_top gt q \<in> set q"
  using pq_best_in [of gt "hd q" "tl q"] by (simp add: pq_top_def)

lemma length_pq_pop: "q \<noteq> [] \<Longrightarrow> length (pq_pop gt q) = length q - 1"
  using pq_top_in [of q gt] by (simp add: pq_pop_def length_remove1)

function pq_drain :: "('a \<Rightarrow> 'a \<Rightarrow> bool) \<Rightarrow> 'a list \<Rightarrow> 'a list" where
  "pq_drain gt q = (if pq_size q > 0 then pq_top gt q # pq_drain gt (pq_pop gt q) else [])"
  by pat_completeness auto
termination
proof (relation "measure (length \<circ> snd)")
  show "((gt, pq_pop gt q), gt, q) \<in> measure (length \<circ> snd)" if "0 < pq_size q"
    for gt :: "'a \<Rightarrow> 'a \<Rightarrow> bool" and q
    using that length_pq_pop [of q gt] by (cases q) (simp_all add: pq_size_def)
qed simp

declare pq_drain.simps [simp del]

definition pq_clear :: "('a \<Rightarrow> 'a \<Rightarrow> bool) \<Rightarrow> 'a list \<Rightarrow> 'a list \<times> 'a list" where
  "pq_clear gt q = (pq_drain gt q, [])"

text \<open>The law the order must obey on the elements in the queue: a strict weak order there.\<close>

locale weak_order_on =
  fixes gt :: "'a \<Rightarrow> 'a \<Rightarrow> bool" and D :: "'a set"
  assumes asym: "x \<in> D \<Longrightarrow> y \<in> D \<Longrightarrow> gt x y \<Longrightarrow> \<not> gt y x"
    and not_trans: "x \<in> D \<Longrightarrow> y \<in> D \<Longrightarrow> z \<in> D \<Longrightarrow> \<not> gt x y \<Longrightarrow> \<not> gt y z \<Longrightarrow> \<not> gt x z"
begin

lemma best_least: "set (b # xs) \<subseteq> D \<Longrightarrow> y \<in> set (b # xs) \<Longrightarrow> \<not> gt (pq_best gt b xs) y"
proof (induction xs arbitrary: b y)
  case Nil
  then show ?case using asym by auto
next
  case (Cons x xs)
  let ?c = "if gt b x then x else b"
  have D: "b \<in> D" "x \<in> D" "set xs \<subseteq> D" using Cons.prems by auto
  have c: "\<not> gt (pq_best gt ?c xs) ?c" by (rule Cons.IH) (use D in auto)
  have best: "pq_best gt ?c xs \<in> D" using pq_best_in [of gt ?c xs] D by auto
  have cb: "\<not> gt ?c b" "\<not> gt ?c x" using asym D by auto
  have cD: "?c \<in> D" using D by auto
  have "\<not> gt (pq_best gt ?c xs) y" if "y \<in> {b, x}"
    using that cb not_trans [OF best cD _ c] D by blast
  moreover have "\<not> gt (pq_best gt ?c xs) y" if "y \<in> set xs"
    by (rule Cons.IH) (use D that in auto)
  ultimately show ?case using Cons.prems by auto
qed

lemma top_least: "set q \<subseteq> D \<Longrightarrow> y \<in> set q \<Longrightarrow> \<not> gt (pq_top gt q) y"
  using best_least [of "hd q" "tl q" y] by (cases q) (auto simp: pq_top_def)

lemma drain_mset: "mset (pq_drain gt q) = mset q"
proof (induction "length q" arbitrary: q rule: less_induct)
  case less
  show ?case
  proof (cases q)
    case Nil
    then show ?thesis by (subst pq_drain.simps) (simp add: pq_size_def)
  next
    case (Cons a as)
    then have "mset (pq_drain gt (pq_pop gt q)) = mset (pq_pop gt q)"
      using less length_pq_pop [of q gt] by simp
    moreover have "pq_top gt q \<in> set q" using Cons by (intro pq_top_in) simp
    then have "mset q = add_mset (pq_top gt q) (mset (pq_pop gt q))" by (simp add: pq_pop_def)
    moreover have "pq_drain gt q = pq_top gt q # pq_drain gt (pq_pop gt q)"
      using Cons by (subst pq_drain.simps) (simp add: pq_size_def)
    ultimately show ?thesis by simp
  qed
qed

lemma drain_sorted: "set q \<subseteq> D \<Longrightarrow> sorted_wrt (\<lambda>x y. \<not> gt x y) (pq_drain gt q)"
proof (induction "length q" arbitrary: q rule: less_induct)
  case less
  show ?case
  proof (cases q)
    case Nil
    then show ?thesis by (subst pq_drain.simps) (simp add: pq_size_def)
  next
    case (Cons a as)
    have sub: "set (pq_pop gt q) \<subseteq> set q" by (simp add: pq_pop_def set_remove1_subset)
    have IH: "sorted_wrt (\<lambda>x y. \<not> gt x y) (pq_drain gt (pq_pop gt q))"
      by (rule less.hyps) (use less.prems sub length_pq_pop [of q gt] Cons in auto)
    have "set (pq_drain gt (pq_pop gt q)) = set (pq_pop gt q)"
      using drain_mset [of "pq_pop gt q"] by (rule mset_eq_setD)
    then have "\<forall>y \<in> set (pq_drain gt (pq_pop gt q)). \<not> gt (pq_top gt q) y"
      using top_least [OF less.prems] sub by blast
    then show ?thesis using IH Cons by (subst pq_drain.simps) (simp add: pq_size_def)
  qed
qed

end

section \<open>Semaphore\<close>

definition sem_new :: bool where
  "sem_new = False"

definition sem_post :: "bool \<Rightarrow> bool" where
  "sem_post flag = True"

fun sem_get :: "(bool \<Rightarrow> bool) list \<Rightarrow> bool \<Rightarrow> bool option" where
  "sem_get wakes flag =
    (if \<not> flag then (case wakes of [] \<Rightarrow> None | env # ws \<Rightarrow> sem_get ws (env flag)) else Some False)"

declare sem_get.simps [simp del]

definition sem_semtry :: "bool \<Rightarrow> bool \<times> bool" where
  "sem_semtry flag = (flag, False)"

end
