(* ===== verification/SingleList.thy ===== *)
theory SingleList
  imports Interthread
begin

text \<open>
  The list with links inside its elements, \<open>SingleLinkList\<close> of \<^verbatim>\<open>CommonLibs/LinkedLists.h\<close>, and \<open>InterthreadQueue2\<close> of
  \<^verbatim>\<open>CommonLibs/Interthread.h\<close> over any FIFO with the operations that it calls. The locale \<open>thread_fifo\<close> is what the queue
  expects of them. It is interpreted on the PointerFIFO, where the queue does what \<open>InterthreadQueue\<close> does, and on the
  SingleLinkList, which takes an element only while it is in no list.
\<close>

section \<open>SingleLinkList\<close>

text \<open>The elements are in a heap, with addresses as in the PointerFIFO; \<open>sn_size\<close> is what their virtual \<open>size()\<close> returns.
  \<open>sl_aborted\<close> says that an assertion failed or a null pointer was used. The counters are natural numbers: fewer than
  \<open>2 ^ 32\<close> elements and units of size.\<close>

record sl_node =
  sn_next :: "nat option"
  sn_size :: nat

record single_list =
  sl_heap :: "sl_node list"
  sl_mHead :: "nat option"
  sl_mTail :: "nat option"
  sl_mSize :: nat
  sl_mTotalSize :: nat
  sl_aborted :: bool

definition sl_new :: "sl_node list \<Rightarrow> single_list" where
  "sl_new h = \<lparr>sl_heap = h, sl_mHead = None, sl_mTail = None, sl_mSize = 0, sl_mTotalSize = 0, sl_aborted = False\<rparr>"

definition sl_next :: "nat \<Rightarrow> single_list \<Rightarrow> nat option" where
  "sl_next a s = sn_next (sl_heap s ! a)"

definition sl_setNext :: "nat \<Rightarrow> nat option \<Rightarrow> single_list \<Rightarrow> single_list" where
  "sl_setNext a p s = s\<lparr>sl_heap := (sl_heap s)[a := (sl_heap s ! a)\<lparr>sn_next := p\<rparr>]\<rparr>"

definition sl_size_of :: "nat \<Rightarrow> single_list \<Rightarrow> nat" where
  "sl_size_of a s = sn_size (sl_heap s ! a)"

definition sl_size :: "single_list \<Rightarrow> nat" where
  "sl_size s = sl_mSize s"

definition sl_totalSize :: "single_list \<Rightarrow> nat" where
  "sl_totalSize s = sl_mTotalSize s"

definition sl_pop_back :: "single_list \<Rightarrow> nat option \<times> single_list" where
  "sl_pop_back s = (None, s\<lparr>sl_aborted := True\<rparr>)"

definition sl_pop_front :: "single_list \<Rightarrow> nat option \<times> single_list" where
  "sl_pop_front s =
    (case sl_mHead s of
       None \<Rightarrow> (None, s)
     | Some result \<Rightarrow>
         (let s = s\<lparr>sl_mHead := sl_next result s\<rparr>;
              s = (if sl_mTail s = Some result
                   then s\<lparr>sl_mTail := None, sl_aborted := (sl_aborted s \<or> sl_mHead s \<noteq> None)\<rparr> else s);
              s = sl_setNext result None s
          in (Some result, s\<lparr>sl_mSize := sl_mSize s - 1, sl_mTotalSize := sl_mTotalSize s - sl_size_of result s\<rparr>)))"

definition sl_push_front :: "nat \<Rightarrow> single_list \<Rightarrow> single_list" where
  "sl_push_front item s =
    (let s = sl_setNext item (sl_mHead s) s;
         s = s\<lparr>sl_mHead := Some item\<rparr>;
         s = (if sl_mTail s = None then s\<lparr>sl_mTail := Some item\<rparr> else s)
     in s\<lparr>sl_mSize := sl_mSize s + 1, sl_mTotalSize := sl_mTotalSize s + sl_size_of item s\<rparr>)"

definition sl_push_back :: "nat \<Rightarrow> single_list \<Rightarrow> single_list" where
  "sl_push_back item s =
    (let s = sl_setNext item None s;
         s = (case sl_mTail s of Some t \<Rightarrow> sl_setNext t (Some item) s | None \<Rightarrow> s);
         s = s\<lparr>sl_mTail := Some item\<rparr>;
         s = (if sl_mHead s = None then s\<lparr>sl_mHead := Some item\<rparr> else s)
     in s\<lparr>sl_mSize := sl_mSize s + 1, sl_mTotalSize := sl_mTotalSize s + sl_size_of item s\<rparr>)"

definition sl_front :: "single_list \<Rightarrow> nat option" where
  "sl_front s = sl_mHead s"

definition sl_back :: "single_list \<Rightarrow> nat option" where
  "sl_back s = sl_mTail s"

definition sl_put :: "nat option \<Rightarrow> single_list \<Rightarrow> single_list" where
  "sl_put val s = (case val of None \<Rightarrow> s\<lparr>sl_aborted := True\<rparr> | Some item \<Rightarrow> sl_push_back item s)"

definition sl_get :: "single_list \<Rightarrow> nat option \<times> single_list" where
  "sl_get s = sl_pop_front s"

section \<open>Its invariant\<close>

fun sl_chain :: "sl_node list \<Rightarrow> nat option \<Rightarrow> nat list \<Rightarrow> bool" where
  "sl_chain h p [] \<longleftrightarrow> p = None"
| "sl_chain h p (a # as) \<longleftrightarrow> p = Some a \<and> a < length h \<and> sl_chain h (sn_next (h ! a)) as"

definition sl_rep :: "single_list \<Rightarrow> nat list \<Rightarrow> bool" where
  "sl_rep s as \<longleftrightarrow>
    sl_chain (sl_heap s) (sl_mHead s) as \<and> distinct as \<and> \<not> sl_aborted s \<and>
    sl_mTail s = (if as = [] then None else Some (last as)) \<and>
    sl_mSize s = length as \<and> sl_mTotalSize s = sum_list (map (\<lambda>a. sn_size (sl_heap s ! a)) as)"

lemma sl_chain_bound: "sl_chain h p as \<Longrightarrow> a \<in> set as \<Longrightarrow> a < length h"
  by (induction as arbitrary: p) auto

lemma sl_chain_update: "sl_chain h p as \<Longrightarrow> a \<notin> set as \<Longrightarrow> sl_chain (h[a := n]) p as"
  by (induction as arbitrary: p) auto

lemma sl_chain_unique: "sl_chain h p as \<Longrightarrow> sl_chain h p bs \<Longrightarrow> as = bs"
proof (induction as arbitrary: p bs)
  case Nil
  then show ?case by (cases bs) auto
next
  case (Cons a as)
  then show ?case by (cases bs) auto
qed

lemma sl_chain_snoc:
  "sl_chain h p (as @ [t]) \<Longrightarrow> distinct (as @ [t, a]) \<Longrightarrow> a < length h \<Longrightarrow> sn_next (h ! a) = None \<Longrightarrow>
    sl_chain (h[t := (h ! t)\<lparr>sn_next := Some a\<rparr>]) p (as @ [t, a])"
  by (induction as arbitrary: p) (auto simp: nth_list_update)

lemma setNext_heap:
  "sl_heap (sl_setNext a p s) = (sl_heap s)[a := (sl_heap s ! a)\<lparr>sn_next := p\<rparr>]"
  "sl_mHead (sl_setNext a p s) = sl_mHead s" "sl_mTail (sl_setNext a p s) = sl_mTail s"
  "sl_mSize (sl_setNext a p s) = sl_mSize s" "sl_mTotalSize (sl_setNext a p s) = sl_mTotalSize s"
  "sl_aborted (sl_setNext a p s) = sl_aborted s"
  by (simp_all add: sl_setNext_def)

lemma heap_same_size: "a < length h \<Longrightarrow> sn_size (h[a := (h ! a)\<lparr>sn_next := p\<rparr>] ! b) = sn_size (h ! b)"
  by (cases "a = b") simp_all

lemma sl_rep_new: "sl_rep (sl_new h) []"
  by (simp add: sl_rep_def sl_new_def)

text \<open>Taking out leaves the element in no list: its link is null.\<close>

lemma sl_rep_pop:
  assumes "sl_rep s (a # as)"
  shows "fst (sl_pop_front s) = Some a" and "sl_rep (snd (sl_pop_front s)) as" and "sl_next a (snd (sl_pop_front s)) = None"
    and "length (sl_heap (snd (sl_pop_front s))) = length (sl_heap s)"
proof -
  have r: "sl_mHead s = Some a" "a < length (sl_heap s)" "sl_chain (sl_heap s) (sn_next (sl_heap s ! a)) as" "a \<notin> set as" "distinct as"
    using assms by (simp_all add: sl_rep_def)
  define h where "h = (sl_heap s)[a := (sl_heap s ! a)\<lparr>sn_next := None\<rparr>]"
  have c: "sl_chain h (sn_next (sl_heap s ! a)) as" and len: "length h = length (sl_heap s)"
    using sl_chain_update [OF r(3,4)] by (simp_all add: h_def)
  have nil: "sn_next (sl_heap s ! a) = None \<longleftrightarrow> as = []" using r(3) by (cases as) auto
  have tl: "sl_mTail s = Some a \<longleftrightarrow> as = []" using assms r(4) by (auto simp: sl_rep_def)
  have size: "sn_size (h ! b) = sn_size (sl_heap s ! b)" for b using heap_same_size [OF r(2)] by (simp add: h_def)
  have e: "sl_pop_front s = (Some a, s\<lparr>sl_heap := h, sl_mHead := sn_next (sl_heap s ! a),
      sl_mTail := (if as = [] then None else sl_mTail s), sl_mSize := sl_mSize s - 1,
      sl_mTotalSize := sl_mTotalSize s - sn_size (sl_heap s ! a)\<rparr>)"
    using nil tl size by (simp add: sl_pop_front_def r(1) sl_next_def sl_setNext_def sl_size_of_def Let_def flip: h_def)
  show "fst (sl_pop_front s) = Some a" "length (sl_heap (snd (sl_pop_front s))) = length (sl_heap s)" using e len by simp_all
  show "sl_next a (snd (sl_pop_front s)) = None" using e r(2) by (simp add: sl_next_def h_def)
  show "sl_rep (snd (sl_pop_front s)) as" using assms c r(4,5) e size by (simp add: sl_rep_def)
qed

lemma sl_pop_empty: "sl_rep s [] \<Longrightarrow> sl_pop_front s = (None, s)"
  by (simp add: sl_rep_def sl_pop_front_def)

text \<open>Putting in takes an element of the heap that is not in the list.\<close>

lemma sl_rep_push_front:
  assumes "sl_rep s as" and "a < length (sl_heap s)" and "a \<notin> set as"
  shows "sl_rep (sl_push_front a s) (a # as)" and "length (sl_heap (sl_push_front a s)) = length (sl_heap s)"
proof -
  define h where "h = (sl_heap s)[a := (sl_heap s ! a)\<lparr>sn_next := sl_mHead s\<rparr>]"
  have c: "sl_chain h (sl_mHead s) as" and len: "length h = length (sl_heap s)"
    using sl_chain_update [of "sl_heap s" "sl_mHead s" as a] assms by (simp_all add: h_def sl_rep_def)
  have size: "sn_size (h ! b) = sn_size (sl_heap s ! b)" for b using heap_same_size [OF assms(2)] by (simp add: h_def)
  have e: "sl_push_front a s = s\<lparr>sl_heap := h, sl_mHead := Some a, sl_mTail := (if sl_mTail s = None then Some a else sl_mTail s),
      sl_mSize := sl_mSize s + 1, sl_mTotalSize := sl_mTotalSize s + sn_size (h ! a)\<rparr>"
    by (simp add: sl_push_front_def sl_setNext_def sl_size_of_def Let_def flip: h_def)
  have "sn_next (h ! a) = sl_mHead s" using assms(2) by (simp add: h_def)
  then show "sl_rep (sl_push_front a s) (a # as)" using assms c len e size by (simp add: sl_rep_def)
  show "length (sl_heap (sl_push_front a s)) = length (sl_heap s)" by (simp add: e len)
qed

lemma sl_rep_push_back:
  assumes "sl_rep s as" and "a < length (sl_heap s)" and "a \<notin> set as"
  shows "sl_rep (sl_push_back a s) (as @ [a])" and "length (sl_heap (sl_push_back a s)) = length (sl_heap s)"
proof -
  define h where "h = (sl_heap s)[a := (sl_heap s ! a)\<lparr>sn_next := None\<rparr>]"
  define h' where "h' = (case sl_mTail s of Some t \<Rightarrow> h[t := (h ! t)\<lparr>sn_next := Some a\<rparr>] | None \<Rightarrow> h)"
  have c: "sl_chain h (sl_mHead s) as" and len: "length h = length (sl_heap s)" "length h' = length (sl_heap s)"
    using sl_chain_update [of "sl_heap s" "sl_mHead s" as a] assms by (simp_all add: h_def h'_def sl_rep_def split: option.split)
  have a: "sn_next (h ! a) = None" using assms(2) by (simp add: h_def)
  have e: "sl_push_back a s = s\<lparr>sl_heap := h', sl_mTail := Some a, sl_mHead := (if sl_mHead s = None then Some a else sl_mHead s),
      sl_mSize := sl_mSize s + 1, sl_mTotalSize := sl_mTotalSize s + sn_size (h' ! a)\<rparr>"
    by (simp add: sl_push_back_def sl_setNext_def sl_size_of_def Let_def h'_def flip: h_def split: option.split)
  have size: "sn_size (h' ! b) = sn_size (sl_heap s ! b)" for b
  proof (cases "sl_mTail s")
    case (Some t)
    then have "t < length h" using assms len sl_chain_bound [OF c, of t] by (auto simp: sl_rep_def split: if_splits)
    then show ?thesis using heap_same_size [OF assms(2)] Some by (simp add: h'_def heap_same_size) (simp add: h_def)
  qed (use heap_same_size [OF assms(2)] in \<open>simp add: h'_def h_def\<close>)
  have ch: "sl_chain h' (if sl_mHead s = None then Some a else sl_mHead s) (as @ [a])"
  proof (cases as rule: rev_cases)
    case Nil
    then show ?thesis using assms(1,2) len(2) a by (simp add: sl_rep_def h'_def)
  next
    case (snoc bs t)
    then have t: "sl_mTail s = Some t" "sl_mHead s \<noteq> None" using assms(1) by (cases bs; auto simp: sl_rep_def)+
    have "distinct (bs @ [t, a])" using assms(1,3) snoc by (auto simp: sl_rep_def)
    from sl_chain_snoc [OF c [unfolded snoc] this] show ?thesis using t a assms(2) len snoc by (auto simp: h'_def)
  qed
  show "sl_rep (sl_push_back a s) (as @ [a])" using assms ch e size by (auto simp: sl_rep_def)
  show "length (sl_heap (sl_push_back a s)) = length (sl_heap s)" by (simp add: e len)
qed

text \<open>The elements from the head on; the number of elements is the fuel of the walk, which the invariant makes enough.\<close>

fun sl_walk :: "nat \<Rightarrow> sl_node list \<Rightarrow> nat option \<Rightarrow> nat list" where
  "sl_walk 0 h p = []"
| "sl_walk (Suc n) h None = []"
| "sl_walk (Suc n) h (Some a) = a # sl_walk n h (sn_next (h ! a))"

definition sl_list :: "single_list \<Rightarrow> nat list" where
  "sl_list s = sl_walk (sl_mSize s) (sl_heap s) (sl_mHead s)"

definition sl_ok :: "single_list \<Rightarrow> bool" where
  "sl_ok s \<longleftrightarrow> sl_rep s (sl_list s)"

definition sl_addable :: "nat \<Rightarrow> single_list \<Rightarrow> bool" where
  "sl_addable a s \<longleftrightarrow> a < length (sl_heap s) \<and> a \<notin> set (sl_list s)"

lemma sl_walk_chain: "sl_chain h p as \<Longrightarrow> sl_walk (length as) h p = as"
  by (induction as arbitrary: p) auto

lemma sl_rep_list: "sl_rep s as \<Longrightarrow> sl_list s = as \<and> sl_ok s"
  using sl_walk_chain [of "sl_heap s" "sl_mHead s" as] by (simp add: sl_ok_def sl_list_def sl_rep_def)

text \<open>What the check of \<open>put\<close> does not cover: an element that is in the list already is linked to itself.\<close>

lemma put_twice:
  assumes "s = sl_push_back 0 (sl_push_back 0 (sl_new [\<lparr>sn_next = None, sn_size = 1\<rparr>]))"
  shows "sl_next 0 s = Some 0 \<and> sl_size s = 2"
  by (simp add: assms sl_push_back_def sl_new_def sl_setNext_def sl_next_def sl_size_def)

section \<open>InterthreadQueue2\<close>

text \<open>The operations of a FIFO, as the queue calls them.\<close>

record ('v, 'q) fifo_ops =
  fo_put :: "'v option \<Rightarrow> 'q \<Rightarrow> 'q"
  fo_push_front :: "'v option \<Rightarrow> 'q \<Rightarrow> 'q"
  fo_get :: "'q \<Rightarrow> 'v option \<times> 'q"
  fo_front :: "'q \<Rightarrow> 'v option"
  fo_size :: "'q \<Rightarrow> nat"
  fo_totalSize :: "'q \<Rightarrow> nat"

fun it2_clear_loop :: "('v, 'q) fifo_ops \<Rightarrow> nat \<Rightarrow> 'q \<Rightarrow> ('v list \<times> 'q) option" where
  "it2_clear_loop mQ fuel q =
    (if fo_size mQ q > 0 then
       (case fuel of
          0 \<Rightarrow> None
        | Suc n \<Rightarrow>
            (let (v, q1) = fo_get mQ q
             in map_option (\<lambda>(vs, q2). (case v of None \<Rightarrow> vs | Some x \<Rightarrow> x # vs, q2)) (it2_clear_loop mQ n q1)))
     else Some ([], q))"

declare it2_clear_loop.simps [simp del]

definition it2_clear :: "('v, 'q) fifo_ops \<Rightarrow> 'q \<Rightarrow> ('v list \<times> 'q) option" where
  "it2_clear mQ q = it2_clear_loop mQ (fo_size mQ q) q"

definition it2_flushNoDelete :: "('v, 'q) fifo_ops \<Rightarrow> 'q \<Rightarrow> 'q option" where
  "it2_flushNoDelete mQ q = map_option snd (it2_clear_loop mQ (fo_size mQ q) q)"

definition it2_destroy :: "('v, 'q) fifo_ops \<Rightarrow> 'q \<Rightarrow> ('v list \<times> 'q) option" where
  "it2_destroy mQ q = it2_clear mQ q"

definition it2_size :: "('v, 'q) fifo_ops \<Rightarrow> 'q \<Rightarrow> nat" where
  "it2_size mQ q = fo_size mQ q"

definition it2_totalSize :: "('v, 'q) fifo_ops \<Rightarrow> 'q \<Rightarrow> nat" where
  "it2_totalSize mQ q = fo_totalSize mQ q"

fun it2_read :: "('v, 'q) fifo_ops \<Rightarrow> ('q \<Rightarrow> 'q) list \<Rightarrow> 'q \<Rightarrow> ('v \<times> 'q) option" where
  "it2_read mQ wakes q =
    (case fo_get mQ q of
       (Some v, q1) \<Rightarrow> Some (v, q1)
     | (None, q1) \<Rightarrow> (case wakes of [] \<Rightarrow> None | env # ws \<Rightarrow> it2_read mQ ws (env q1)))"

declare it2_read.simps [simp del]

definition it2_front :: "('v, 'q) fifo_ops \<Rightarrow> 'q \<Rightarrow> 'v option" where
  "it2_front mQ q = fo_front mQ q"

definition it2_readNoBlock :: "('v, 'q) fifo_ops \<Rightarrow> 'q \<Rightarrow> 'v option \<times> 'q" where
  "it2_readNoBlock mQ q = fo_get mQ q"

fun it2_wait :: "('v, 'q) fifo_ops \<Rightarrow> (bool \<times> ('q \<Rightarrow> 'q)) list \<Rightarrow> 'q \<Rightarrow> 'q option" where
  "it2_wait mQ [] q = (if fo_size mQ q = 0 then None else Some q)"
| "it2_wait mQ ((passed, env) # ws) q = (if fo_size mQ q = 0 \<and> \<not> passed then it2_wait mQ ws (env q) else Some q)"

definition it2_read_timeout :: "('v, 'q) fifo_ops \<Rightarrow> nat \<Rightarrow> (bool \<times> ('q \<Rightarrow> 'q)) list \<Rightarrow> 'q \<Rightarrow> ('v option \<times> 'q) option" where
  "it2_read_timeout mQ timeout wakes q =
    (if timeout = 0 then Some (it2_readNoBlock mQ q) else map_option (fo_get mQ) (it2_wait mQ wakes q))"

text \<open>A write lets the mutex go and then signals; what it does after the \<open>put\<close> is part of its result.\<close>

datatype lock_event = Unlocked | Signalled

definition it2_write :: "('v, 'q) fifo_ops \<Rightarrow> 'v option \<Rightarrow> 'q \<Rightarrow> 'q \<times> lock_event list" where
  "it2_write mQ val q = (fo_put mQ val q, [Unlocked, Signalled])"

definition it2_write_front :: "('v, 'q) fifo_ops \<Rightarrow> 'v option \<Rightarrow> 'q \<Rightarrow> 'q \<times> lock_event list" where
  "it2_write_front mQ val q = (fo_push_front mQ val q, [Unlocked, Signalled])"

section \<open>What the queue expects of a FIFO\<close>

locale thread_fifo =
  fixes mQ :: "('v, 'q) fifo_ops"
    and contents :: "'q \<Rightarrow> 'v list"
    and invar :: "'q \<Rightarrow> bool"
    and addable :: "'v \<Rightarrow> 'q \<Rightarrow> bool"
  assumes put: "invar q \<Longrightarrow> addable v q \<Longrightarrow> invar (fo_put mQ (Some v) q) \<and> contents (fo_put mQ (Some v) q) = contents q @ [v]"
    and push_front: "invar q \<Longrightarrow> addable v q \<Longrightarrow>
      invar (fo_push_front mQ (Some v) q) \<and> contents (fo_push_front mQ (Some v) q) = v # contents q"
    and get_empty: "invar q \<Longrightarrow> contents q = [] \<Longrightarrow> fo_get mQ q = (None, q)"
    and get_first: "invar q \<Longrightarrow> contents q = v # vs \<Longrightarrow> \<exists>q'. fo_get mQ q = (Some v, q') \<and> invar q' \<and> contents q' = vs"
    and front_contents: "invar q \<Longrightarrow> fo_front mQ q = (case contents q of [] \<Rightarrow> None | v # _ \<Rightarrow> Some v)"
    and size_contents: "invar q \<Longrightarrow> fo_size mQ q = length (contents q)"
begin

text \<open>\<open>clear\<close> ends, deletes every element once and in order, and leaves an empty queue.\<close>

lemma clear_all:
  "invar q \<Longrightarrow> \<exists>q'. it2_clear mQ q = Some (contents q, q') \<and> invar q' \<and> contents q' = []"
  unfolding it2_clear_def
proof (induction "fo_size mQ q" arbitrary: q)
  case 0
  then show ?case using size_contents [of q] by (subst it2_clear_loop.simps) simp
next
  case (Suc n)
  obtain v vs where l: "contents q = v # vs"
    using Suc.hyps(2) size_contents [OF Suc.prems] by (cases "contents q") auto
  obtain q1 where g: "fo_get mQ q = (Some v, q1)" "invar q1" "contents q1 = vs" using get_first [OF Suc.prems l] by blast
  have n: "n = fo_size mQ q1" using Suc.hyps(2) size_contents [OF Suc.prems] size_contents [OF g(2)] l g(3) by simp
  obtain q' where "it2_clear_loop mQ (fo_size mQ q1) q1 = Some (vs, q')" "invar q'" "contents q' = []"
    using Suc.hyps(1) [OF n g(2)] g(3) by auto
  then show ?case using Suc.hyps(2) [symmetric] n g(1) l by (subst it2_clear_loop.simps) auto
qed

text \<open>A blocking read returns the first element of the queue that it finds with elements, and waits while there is none.\<close>

lemma read_first:
  assumes "invar q" and "\<And>env q. env \<in> set wakes \<Longrightarrow> invar q \<Longrightarrow> invar (env q)"
  shows "case it2_read mQ wakes q of
      Some (v, q') \<Rightarrow> invar q' \<and> (contents q \<noteq> [] \<longrightarrow> contents q = v # contents q')
    | None \<Rightarrow> contents q = []"
  using assms
proof (induction wakes arbitrary: q)
  case Nil
  then show ?case using get_empty [of q] get_first [of q]
    by (cases "contents q"; subst it2_read.simps) (fastforce split: option.split prod.split)+
next
  case (Cons env ws)
  show ?case
  proof (cases "contents q")
    case Nil
    have "invar (env q)" using Cons.prems by simp
    then have "case it2_read mQ ws (env q) of
        Some (v, q') \<Rightarrow> invar q' \<and> (contents (env q) \<noteq> [] \<longrightarrow> contents (env q) = v # contents q')
      | None \<Rightarrow> contents (env q) = []"
      using Cons.IH [of "env q"] Cons.prems(2) by (meson list.set_intros(2))
    moreover have "it2_read mQ (env # ws) q = it2_read mQ ws (env q)"
      using get_empty [OF Cons.prems(1) Nil] by (subst it2_read.simps) simp
    ultimately show ?thesis using Nil by (auto split: option.splits)
  next
    case (Cons v vs)
    obtain q1 where "fo_get mQ q = (Some v, q1)" "invar q1" "contents q1 = vs"
      using get_first [OF Cons.prems(1) Cons] by blast
    then show ?thesis using Cons by (subst it2_read.simps) simp
  qed
qed

text \<open>A read with a timeout that returns nothing found the queue empty, with its time over.\<close>

lemma wait_result:
  "it2_wait mQ wakes q = Some q' \<Longrightarrow> invar q \<Longrightarrow> (\<And>env q. env \<in> snd ` set wakes \<Longrightarrow> invar q \<Longrightarrow> invar (env q)) \<Longrightarrow>
    invar q' \<and> (contents q' = [] \<longrightarrow> True \<in> fst ` set wakes)"
proof (induction wakes arbitrary: q)
  case Nil
  then show ?case using size_contents [of q] by (auto split: if_splits)
next
  case (Cons w ws)
  obtain passed env where w: "w = (passed, env)" by (cases w)
  show ?case
  proof (cases "fo_size mQ q = 0 \<and> \<not> passed")
    case True
    then have "it2_wait mQ ws (env q) = Some q'" "invar (env q)" using Cons.prems w by simp_all
    then show ?thesis using Cons.IH [of "env q"] Cons.prems(3) by auto
  next
    case False
    then have "q' = q" using Cons.prems(1) by (auto simp: w split: if_splits)
    then show ?thesis using False size_contents [OF Cons.prems(2)] Cons.prems(2) by (auto simp: w)
  qed
qed

lemma write_then_read:
  assumes "invar q" and "addable v q" and "contents q = []"
  shows "fst (it2_readNoBlock mQ (fst (it2_write mQ (Some v) q))) = Some v"
    and "fst (it2_readNoBlock mQ (fst (it2_write_front mQ (Some v) q))) = Some v"
  using put [OF assms(1,2)] push_front [OF assms(1,2)] assms(3)
    get_first [of "fo_put mQ (Some v) q" v "[]"] get_first [of "fo_push_front mQ (Some v) q" v "[]"]
  by (auto simp: it2_write_def it2_write_front_def it2_readNoBlock_def)

end

section \<open>Over the PointerFIFO\<close>

definition pf_ops :: "('v, 'v pointer_fifo) fifo_ops" where
  "pf_ops = \<lparr>fo_put = pf_put, fo_push_front = pf_push_front, fo_get = pf_get, fo_front = pf_front, fo_size = pf_size,
     fo_totalSize = pf_totalSize\<rparr>"

text \<open>The two queues do the same to their elements, as the comment in the code says.\<close>

lemma it2_clear_loop_same: "it2_clear_loop pf_ops n q = itq_clear_loop n q"
  by (induction n arbitrary: q; subst it2_clear_loop.simps; subst itq_clear_loop.simps) (simp_all add: pf_ops_def)

lemma it2_read_same: "it2_read pf_ops wakes q = itq_read wakes q"
  by (induction wakes arbitrary: q; subst it2_read.simps; subst itq_read.simps)
    (simp_all add: pf_ops_def split: prod.split option.split)

lemma it2_wait_same: "it2_wait pf_ops wakes q = itq_wait wakes q"
  by (induction wakes q rule: itq_wait.induct) (simp_all add: pf_ops_def)

lemma it2_same:
  "it2_clear pf_ops q = itq_clear q" "it2_flushNoDelete pf_ops q = itq_flushNoDelete q" "it2_size pf_ops q = itq_size q"
  "it2_totalSize pf_ops q = itq_totalSize q" "it2_front pf_ops q = itq_front q" "it2_readNoBlock pf_ops q = itq_readNoBlock q"
  "it2_read_timeout pf_ops timeout wakes q = itq_read_timeout timeout wakes q" "fst (it2_write pf_ops val q) = itq_write val q"
  "fst (it2_write_front pf_ops val q) = itq_write_front val q"
  unfolding it2_clear_def it2_flushNoDelete_def it2_size_def it2_totalSize_def it2_front_def it2_readNoBlock_def
    it2_read_timeout_def it2_write_def it2_write_front_def it2_clear_loop_same it2_wait_same itq_clear_def itq_flushNoDelete_def
    itq_size_def itq_totalSize_def itq_front_def itq_readNoBlock_def itq_read_timeout_def itq_write_def itq_write_front_def
  by (simp_all add: pf_ops_def)

lemma pf_ok_push_front: "pf_ok q \<Longrightarrow> pf_ok (pf_push_front (Some v) q) \<and> pf_list (pf_push_front (Some v) q) = v # pf_list q"
  using pf_inv_push_front [of q "Some v"] by (auto simp: pf_ok_def pf_list_def)

lemma pf_ok_front: "pf_ok q \<Longrightarrow> pf_front q = (case pf_list q of [] \<Rightarrow> None | v # _ \<Rightarrow> Some v)"
  using pf_front_contents [of q] by (cases "pf_contents q") (auto simp: pf_ok_def pf_list_def)

interpretation pf2: thread_fifo pf_ops pf_list pf_ok "\<lambda>_ _. True"
proof unfold_locales
  show "\<exists>q'. fo_get pf_ops q = (Some v, q') \<and> pf_ok q' \<and> pf_list q' = vs" if "pf_ok q" "pf_list q = v # vs" for q :: "'v pointer_fifo" and v vs
    using pf_ok_get [OF that(1)] that(2) by (cases "pf_get q") (simp add: pf_ops_def)
qed (simp_all add: pf_ops_def pf_ok_put pf_ok_push_front pf_ok_front pfq.get_Nil pfq.size_contents)

section \<open>Over the SingleLinkList\<close>

text \<open>\<open>front\<close> and \<open>push_front\<close> of the list are called with elements.\<close>

definition sl_ops :: "(nat, single_list) fifo_ops" where
  "sl_ops = \<lparr>fo_put = sl_put, fo_push_front = (\<lambda>val s. case val of None \<Rightarrow> s\<lparr>sl_aborted := True\<rparr> | Some item \<Rightarrow> sl_push_front item s),
     fo_get = sl_get, fo_front = sl_front, fo_size = sl_size, fo_totalSize = sl_totalSize\<rparr>"

lemma sl_front_list: "sl_ok s \<Longrightarrow> sl_front s = (case sl_list s of [] \<Rightarrow> None | a # _ \<Rightarrow> Some a)"
  by (cases "sl_list s") (simp_all add: sl_ok_def sl_rep_def sl_front_def)

interpretation sl2: thread_fifo sl_ops sl_list sl_ok sl_addable
proof unfold_locales
  fix q v vs
  assume q: "sl_ok q"
  show "fo_get sl_ops q = (None, q)" if "sl_list q = []"
    using q that sl_pop_empty [of q] by (simp add: sl_ok_def sl_ops_def sl_get_def)
  show "\<exists>q'. fo_get sl_ops q = (Some v, q') \<and> sl_ok q' \<and> sl_list q' = vs" if "sl_list q = v # vs"
  proof -
    show ?thesis using sl_rep_pop(1,2) [of q v vs] q that sl_rep_list [of "snd (sl_pop_front q)" vs]
      by (cases "sl_pop_front q") (simp add: sl_ok_def sl_ops_def sl_get_def)
  qed
  show "fo_size sl_ops q = length (sl_list q)" using q by (simp add: sl_ok_def sl_rep_def sl_ops_def sl_size_def)
  show "fo_front sl_ops q = (case sl_list q of [] \<Rightarrow> None | v # _ \<Rightarrow> Some v)" using sl_front_list [OF q] by (simp add: sl_ops_def)
  assume a: "sl_addable v q"
  have b: "sl_rep q (sl_list q)" "v < length (sl_heap q)" "v \<notin> set (sl_list q)" using q a by (simp_all add: sl_ok_def sl_addable_def)
  show "sl_ok (fo_put sl_ops (Some v) q) \<and> sl_list (fo_put sl_ops (Some v) q) = sl_list q @ [v]"
    using sl_rep_list [OF sl_rep_push_back(1) [OF b]] by (simp add: sl_ops_def sl_put_def)
  show "sl_ok (fo_push_front sl_ops (Some v) q) \<and> sl_list (fo_push_front sl_ops (Some v) q) = v # sl_list q"
    using sl_rep_list [OF sl_rep_push_front(1) [OF b]] by (simp add: sl_ops_def)
qed

text \<open>In a list that takes elements only while they are in no list, no assertion fails, and the total size is that of the elements.\<close>

lemma sl_ok_total: "sl_ok s \<Longrightarrow> \<not> sl_aborted s \<and> sl_totalSize s = sum_list (map (\<lambda>a. sl_size_of a s) (sl_list s))"
  by (simp add: sl_ok_def sl_rep_def sl_totalSize_def sl_size_of_def)

end
