(* ===== verification/RadioVector.thy ===== *)
theory RadioVector
  imports Complex_Main GSMTime Interthread
begin

text \<open>
  \<^verbatim>\<open>Transceiver52M/radioVector.h\<close>, \<^verbatim>\<open>radioVector.cpp\<close> and \<^verbatim>\<open>radioClock.cpp\<close>: the timestamped
  bursts that travel between the transceiver and the radio interface, the noise average, the transmit
  priority queue and the shared radio clock.

  A \<open>signalVector *\<close> is a value of a type parameter, \<open>None\<close> for the null pointer. A \<open>float\<close> of the
  noise average is a real: the model does not round.
\<close>

section \<open>radioVector\<close>

record 'v radio_vector =
  rv_vectors :: "'v option list"
  rv_time :: gsm_time

text \<open>The constructor that allocates \<open>chans\<close> vectors takes what \<open>new signalVector(size, start)\<close> makes.\<close>

definition rv_alloc :: "(nat \<Rightarrow> nat \<Rightarrow> 'v) \<Rightarrow> gsm_time \<Rightarrow> nat \<Rightarrow> nat \<Rightarrow> nat \<Rightarrow> 'v radio_vector" where
  "rv_alloc newVector t sz start chans =
    \<lparr>rv_vectors = map (\<lambda>i. Some (newVector sz start)) [0..<chans], rv_time = t\<rparr>"

definition rv_single :: "gsm_time \<Rightarrow> 'v option \<Rightarrow> 'v radio_vector" where
  "rv_single t v = \<lparr>rv_vectors = [v], rv_time = t\<rparr>"

definition rv_delete :: "'v radio_vector \<Rightarrow> 'v list" where
  "rv_delete rv = ptrs (rv_vectors rv)"

definition rv_getTime :: "'v radio_vector \<Rightarrow> gsm_time" where
  "rv_getTime rv = rv_time rv"

definition rv_setTime :: "gsm_time \<Rightarrow> 'v radio_vector \<Rightarrow> 'v radio_vector" where
  "rv_setTime t rv = rv\<lparr>rv_time := t\<rparr>"

definition rv_greater :: "'v radio_vector \<Rightarrow> 'v radio_vector \<Rightarrow> bool" where
  "rv_greater a b = time_greater (rv_time a) (rv_time b)"

definition rv_getVector :: "nat \<Rightarrow> 'v radio_vector \<Rightarrow> 'v option" where
  "rv_getVector chan rv =
    (if chan \<ge> length (rv_vectors rv) then None else rv_vectors rv ! chan)"

definition rv_setVector :: "'v option \<Rightarrow> nat \<Rightarrow> 'v radio_vector \<Rightarrow> bool \<times> 'v radio_vector" where
  "rv_setVector v chan rv =
    (if chan \<ge> length (rv_vectors rv) then (False, rv)
     else (True, rv\<lparr>rv_vectors := (rv_vectors rv)[chan := v]\<rparr>))"

definition rv_chans :: "'v radio_vector \<Rightarrow> nat" where
  "rv_chans rv = length (rv_vectors rv)"

text \<open>\<open>setVector\<close> replaces one channel's pointer and no other, and a channel past the end neither
  reads nor writes.\<close>

lemma rv_get_set:
  "rv_getVector j (snd (rv_setVector v i rv)) =
    (if i = j \<and> fst (rv_setVector v i rv) then v else rv_getVector j rv)"
  by (auto simp: rv_getVector_def rv_setVector_def nth_list_update)

lemma rv_set_chans: "rv_chans (snd (rv_setVector v i rv)) = rv_chans rv"
  by (simp add: rv_chans_def rv_setVector_def)

section \<open>noiseVector\<close>

record noise_vector =
  nv_vals :: "real list"
  nv_itr :: nat

definition nv_new :: "nat \<Rightarrow> noise_vector" where
  "nv_new sz = \<lparr>nv_vals = replicate sz 0, nv_itr = 0\<rparr>"

text \<open>The average of an empty vector is not a number in the code and 0 here; the code makes its only
  noise vectors with \<open>NOISE_CNT\<close> elements.\<close>

definition nv_avg :: "noise_vector \<Rightarrow> real" where
  "nv_avg n = fold (\<lambda>x val. val + x) (nv_vals n) 0 / real (length (nv_vals n))"

definition nv_insert :: "real \<Rightarrow> noise_vector \<Rightarrow> bool \<times> noise_vector" where
  "nv_insert val n =
    (if length (nv_vals n) = 0 then (False, n)
     else let itr = (if nv_itr n \<ge> length (nv_vals n) then 0 else nv_itr n)
          in (True, \<lparr>nv_vals = (nv_vals n)[itr := val], nv_itr = itr + 1\<rparr>))"

lemma fold_sum: "fold (\<lambda>x val. val + x) xs (a::real) = a + sum_list xs"
  by (induction xs arbitrary: a) (simp_all add: algebra_simps)

text \<open>The vector as a window on the history of insertions: the cells before \<open>nv_itr\<close> hold the latest
  values and those from \<open>nv_itr\<close> on the ones before.\<close>

definition nv_history :: "noise_vector \<Rightarrow> real list" where
  "nv_history n = drop (nv_itr n) (nv_vals n) @ take (nv_itr n) (nv_vals n)"

definition nv_ok :: "noise_vector \<Rightarrow> bool" where
  "nv_ok n \<longleftrightarrow> nv_vals n \<noteq> [] \<and> nv_itr n \<le> length (nv_vals n)"

lemma nv_insert_history:
  assumes "nv_ok n"
  shows "fst (nv_insert v n) \<and> nv_ok (snd (nv_insert v n)) \<and>
    nv_history (snd (nv_insert v n)) = tl (nv_history n) @ [v]"
proof (cases "nv_itr n = length (nv_vals n)")
  case True
  then have "nv_vals n \<noteq> []" and "nv_itr n \<ge> length (nv_vals n)" using assms by (auto simp: nv_ok_def)
  then show ?thesis using True
    by (cases "nv_vals n") (simp_all add: nv_insert_def nv_history_def nv_ok_def)
next
  case False
  then have lt: "nv_itr n < length (nv_vals n)" using assms by (simp add: nv_ok_def)
  then have "drop (nv_itr n) (nv_vals n) = nv_vals n ! nv_itr n # drop (Suc (nv_itr n)) (nv_vals n)"
    by (simp add: Cons_nth_drop_Suc)
  then show ?thesis using lt
    by (auto simp: nv_insert_def Let_def nv_history_def nv_ok_def take_Suc_conv_app_nth drop_update_cancel)
qed

lemma nv_avg_history: "nv_ok n \<Longrightarrow> nv_avg n = sum_list (nv_history n) / real (length (nv_vals n))"
proof -
  have "sum_list (nv_vals n) = sum_list (take (nv_itr n) (nv_vals n)) + sum_list (drop (nv_itr n) (nv_vals n))"
    by (metis append_take_drop_id sum_list_append)
  also have "\<dots> = sum_list (nv_history n)" by (simp add: nv_history_def)
  finally have "sum_list (nv_vals n) = sum_list (nv_history n)" .
  then show ?thesis by (simp only: nv_avg_def fold_sum add_0)
qed

lemma length_nv_insert: "length (nv_vals (snd (nv_insert v n))) = length (nv_vals n)"
  by (simp add: nv_insert_def Let_def)

lemma nv_inserts_history:
  "nv_ok n \<Longrightarrow> nv_ok (fold (\<lambda>v n. snd (nv_insert v n)) vs n) \<and>
    nv_history (fold (\<lambda>v n. snd (nv_insert v n)) vs n) = drop (length vs) (nv_history n @ vs) \<and>
    length (nv_vals (fold (\<lambda>v n. snd (nv_insert v n)) vs n)) = length (nv_vals n)"
proof (induction vs arbitrary: n)
  case Nil
  then show ?case by simp
next
  case (Cons v vs)
  have "nv_history n \<noteq> []" using Cons.prems by (auto simp: nv_history_def nv_ok_def)
  then obtain h hs where "nv_history n = h # hs" by (cases "nv_history n") auto
  then show ?case
    using Cons.IH [of "snd (nv_insert v n)"] nv_insert_history [OF Cons.prems, of v]
    by (simp add: length_nv_insert)
qed

text \<open>After any number of insertions into a fresh noise vector of a positive size the average is
  the mean of the last \<open>size\<close> values inserted, the vector counting as filled with zeros at first.\<close>

theorem noiseVector_moving_average:
  assumes "sz > 0"
  shows "nv_avg (fold (\<lambda>v n. snd (nv_insert v n)) vs (nv_new sz)) =
    sum_list (drop (length vs) (replicate sz 0 @ vs)) / real sz"
proof -
  have ok: "nv_ok (nv_new sz)" and h: "nv_history (nv_new sz) = replicate sz 0"
    using assms by (simp_all add: nv_ok_def nv_new_def nv_history_def)
  note f = nv_inserts_history [OF ok, of vs]
  show ?thesis using nv_avg_history [OF conjunct1 [OF f]] f h by (simp add: nv_new_def)
qed

theorem noiseVector_moving_average_witness:
  "nv_avg (fold (\<lambda>v n. snd (nv_insert v n)) [1, 2, 3, 4, 8] (nv_new 4)) = (2 + 3 + 4 + 8) / 4"
  by (subst noiseVector_moving_average) (simp_all add: numeral_eq_Suc)

section \<open>VectorQueue\<close>

text \<open>The transmit queue: a priority queue of radio vectors, the earliest on top.\<close>

fun vq_nextTime :: "('v radio_vector list \<Rightarrow> 'v radio_vector list) list \<Rightarrow> 'v radio_vector list \<Rightarrow>
    (gsm_time \<times> 'v radio_vector list) option" where
  "vq_nextTime wakes q =
    (if pq_size q = 0 then (case wakes of [] \<Rightarrow> None | env # ws \<Rightarrow> vq_nextTime ws (env q))
     else Some (rv_getTime (pq_top rv_greater q), q))"

declare vq_nextTime.simps [simp del]

definition vq_getStaleBurst :: "gsm_time \<Rightarrow> 'v radio_vector list \<Rightarrow> 'v radio_vector option \<times> 'v radio_vector list" where
  "vq_getStaleBurst targTime q =
    (if pq_size q = 0 then (None, q)
     else if time_less (rv_getTime (pq_top rv_greater q)) targTime
     then (Some (pq_top rv_greater q), pq_pop rv_greater q)
     else (None, q))"

definition vq_getCurrentBurst :: "gsm_time \<Rightarrow> 'v radio_vector list \<Rightarrow> 'v radio_vector option \<times> 'v radio_vector list" where
  "vq_getCurrentBurst targTime q =
    (if pq_size q = 0 then (None, q)
     else if time_eq (rv_getTime (pq_top rv_greater q)) targTime
     then (Some (pq_top rv_greater q), pq_pop rv_greater q)
     else (None, q))"

subsection \<open>The queue on a window of times\<close>

text \<open>
  The circular order of the times is an order on the bursts of one window: frames less than half a
  hyperframe after a base frame. \<open>window_pos\<close> is the number of slots from the base.
\<close>

definition in_window :: "int \<Rightarrow> gsm_time \<Rightarrow> bool" where
  "in_window base t \<longleftrightarrow> valid_FN base \<and> valid_time t \<and> (mFN t - base) mod gHyperframe < gHyperframe div 2"

definition window_pos :: "int \<Rightarrow> gsm_time \<Rightarrow> int" where
  "window_pos base t = 8 * ((mFN t - base) mod gHyperframe) + mTN t"

lemma window_pos_order:
  assumes "in_window base t" and "in_window base u"
  shows "time_less t u \<longleftrightarrow> window_pos base t < window_pos base u"
    and "time_greater t u \<longleftrightarrow> window_pos base u < window_pos base t"
    and "time_eq t u \<longleftrightarrow> window_pos base t = window_pos base u"
proof -
  have v: "valid_time t" "valid_time u" using assms by (simp_all add: in_window_def)
  have b: "0 \<le> mFN t" "mFN t < 2715648" "0 \<le> mFN u" "mFN u < 2715648"
      "0 \<le> mTN t" "mTN t < 8" "0 \<le> mTN u" "mTN u < 8"
    using valid_timeD [OF v(1)] valid_timeD [OF v(2)] by blast+
  have c: "0 \<le> base" "base < 2715648"
    using assms(1) by (simp_all add: in_window_def valid_FN_def gHyperframe_eq)
  let ?a = "(mFN t - base) mod 2715648" and ?b = "(mFN u - base) mod 2715648"
  have h: "?a < 1357824" "?b < 1357824" using assms by (simp_all add: in_window_def gHyperframe_eq)
  have d: "(mFN u - mFN t) mod 2715648 = (?b - ?a) mod 2715648"
    "(mFN t - mFN u) mod 2715648 = (?a - ?b) mod 2715648" by (simp_all add: mod_simps)
  have ab: "0 \<le> ?a" "?a < 2715648" "0 \<le> ?b" "?b < 2715648" by simp_all
  have e: "mFN t = mFN u \<longleftrightarrow> ?a = ?b"
    unfolding mod_diff_cases [OF b(1,2) c] mod_diff_cases [OF b(3,4) c] using b c by auto
  note D = mod_diff_cases [OF ab(3,4,1,2)] mod_diff_cases [OF ab]
  have P: "window_pos base t = 8 * ?a + mTN t" "window_pos base u = 8 * ?b + mTN u"
    by (simp_all add: window_pos_def gHyperframe_eq)
  have "time_less t u \<longleftrightarrow> 8 * ?a + mTN t < 8 * ?b + mTN u"
    unfolding time_less_iff [OF v] d D e using ab h b by (cases "?a = ?b"; cases "?a < ?b") (simp_all, linarith?)
  then show "time_less t u \<longleftrightarrow> window_pos base t < window_pos base u" unfolding P .
  have "time_greater t u \<longleftrightarrow> 8 * ?b + mTN u < 8 * ?a + mTN t"
    unfolding time_greater_iff [OF v] d D e using ab h b by (cases "?a = ?b"; cases "?a < ?b") (simp_all, linarith?)
  then show "time_greater t u \<longleftrightarrow> window_pos base u < window_pos base t" unfolding P .
  have "time_eq t u \<longleftrightarrow> 8 * ?a + mTN t = 8 * ?b + mTN u"
    unfolding time_eq_def e using ab h b by (cases "?a = ?b"; cases "?a < ?b") auto
  then show "time_eq t u \<longleftrightarrow> window_pos base t = window_pos base u" unfolding P .
qed

definition rv_window :: "int \<Rightarrow> 'v radio_vector set" where
  "rv_window base = {rv. in_window base (rv_time rv)}"

definition rv_pos :: "int \<Rightarrow> 'v radio_vector \<Rightarrow> int" where
  "rv_pos base rv = window_pos base (rv_time rv)"

lemma rv_greater_pos:
  "a \<in> rv_window base \<Longrightarrow> b \<in> rv_window base \<Longrightarrow> rv_greater a b \<longleftrightarrow> rv_pos base b < rv_pos base a"
  by (simp add: rv_window_def rv_pos_def rv_greater_def window_pos_order(2))

interpretation vq: weak_order_on rv_greater "rv_window base" for base
  by unfold_locales (auto simp: rv_greater_pos)

lemma vq_top_pos:
  assumes "q \<noteq> []" and "set q \<subseteq> rv_window base"
  shows "pq_top rv_greater q \<in> set q"
    and "\<And>y. y \<in> set q \<Longrightarrow> rv_pos base (pq_top rv_greater q) \<le> rv_pos base y"
proof -
  show i: "pq_top rv_greater q \<in> set q" by (rule pq_top_in [OF assms(1)])
  fix y assume y: "y \<in> set q"
  have "\<not> rv_greater (pq_top rv_greater q) y" by (rule vq.top_least [OF assms(2) y])
  then show "rv_pos base (pq_top rv_greater q) \<le> rv_pos base y"
    using rv_greater_pos [of "pq_top rv_greater q" base y] i y assms(2) by (simp add: subset_iff not_less)
qed

lemma vq_getStaleBurst_spec:
  assumes "set q \<subseteq> rv_window base" and "in_window base now"
  shows "case vq_getStaleBurst now q of
      (Some b, q') \<Rightarrow> mset q = add_mset b (mset q') \<and> rv_pos base b < window_pos base now \<and>
        (\<forall>y \<in> set q. rv_pos base b \<le> rv_pos base y)
    | (None, q') \<Rightarrow> q' = q \<and> (\<forall>y \<in> set q. window_pos base now \<le> rv_pos base y)"
proof (cases "q = []")
  case True
  then show ?thesis by (simp add: vq_getStaleBurst_def pq_size_def)
next
  case False
  note top = vq_top_pos [OF False assms(1)]
  have "in_window base (rv_time (pq_top rv_greater q))" using top(1) assms(1) by (auto simp: rv_window_def)
  then have l: "time_less (rv_getTime (pq_top rv_greater q)) now \<longleftrightarrow>
      rv_pos base (pq_top rv_greater q) < window_pos base now"
    using window_pos_order(1) [OF _ assms(2)] by (simp add: rv_getTime_def rv_pos_def)
  have m: "mset q = add_mset (pq_top rv_greater q) (mset (pq_pop rv_greater q))"
    using top(1) by (simp add: pq_pop_def)
  show ?thesis
    using False l m top(2) by (fastforce simp: vq_getStaleBurst_def pq_size_def)
qed

text \<open>The transmit queue as a deadline queue, for bursts and a target time in one window of less
  than half a hyperframe: \<open>getStaleBurst\<close> finds a burst exactly if one is due before the target, it
  returns one that is the earliest of all, and takes that one out of the queue.\<close>

theorem VectorQueue_getStaleBurst:
  assumes "set q \<subseteq> rv_window base" and "in_window base now"
  shows "case vq_getStaleBurst now q of
      (Some b, q') \<Rightarrow> mset q = add_mset b (mset q') \<and> rv_pos base b < window_pos base now \<and>
        (\<forall>y \<in> set q. rv_pos base b \<le> rv_pos base y)
    | (None, q') \<Rightarrow> q' = q \<and> (\<forall>y \<in> set q. window_pos base now \<le> rv_pos base y)"
  by (rule vq_getStaleBurst_spec [OF assms])

theorem VectorQueue_getStaleBurst_witness:
  "fst (vq_getStaleBurst (Time 3 0) [rv_single (Time 4 1) (Some ''a''), rv_single (Time 2715640 7) None]) =
     Some (rv_single (Time 2715640 7) None) \<and>
   rv_pos 2715640 (rv_single (Time 2715640 7) (None :: string option)) < window_pos 2715640 (Time 3 0)"
proof -
  let ?q = "[rv_single (Time 4 1) (Some ''a''), rv_single (Time 2715640 7) None]"
  have w: "set ?q \<subseteq> rv_window 2715640" "in_window 2715640 (Time 3 0)"
    by (simp_all add: rv_window_def rv_single_def in_window_def valid_FN_def valid_time_def gHyperframe_eq)
  have "fst (vq_getStaleBurst (Time 3 0) ?q) = Some (rv_single (Time 2715640 7) None)"
    by (simp add: vq_getStaleBurst_def pq_size_def pq_top_def rv_greater_def time_greater_def rv_single_def
        time_less_def FNCompare_def FNDelta_def gHyperframe_eq Let_def s32_def rv_getTime_def)
  then show ?thesis using VectorQueue_getStaleBurst [OF w] by (auto split: prod.splits option.splits)
qed

lemma vq_getCurrentBurst_spec:
  assumes "set q \<subseteq> rv_window base" and "in_window base now"
    and "\<forall>y \<in> set q. window_pos base now \<le> rv_pos base y"
  shows "case vq_getCurrentBurst now q of
      (Some b, q') \<Rightarrow> mset q = add_mset b (mset q') \<and> time_eq (rv_time b) now
    | (None, q') \<Rightarrow> q' = q \<and> (\<forall>y \<in> set q. \<not> time_eq (rv_time y) now)"
proof (cases "q = []")
  case True
  then show ?thesis by (simp add: vq_getCurrentBurst_def pq_size_def)
next
  case False
  note top = vq_top_pos [OF False assms(1)]
  have w: "in_window base (rv_time y)" if "y \<in> set q" for y
    using that assms(1) by (auto simp: rv_window_def)
  have e: "time_eq (rv_time y) now \<longleftrightarrow> rv_pos base y = window_pos base now" if "y \<in> set q" for y
    using window_pos_order(3) [OF w [OF that] assms(2)] by (simp add: rv_pos_def)
  have m: "mset q = add_mset (pq_top rv_greater q) (mset (pq_pop rv_greater q))"
    using top(1) by (simp add: pq_pop_def)
  show ?thesis
  proof (cases "time_eq (rv_time (pq_top rv_greater q)) now")
    case True
    then show ?thesis using False m by (simp add: vq_getCurrentBurst_def pq_size_def rv_getTime_def)
  next
    case ne: False
    have "\<not> time_eq (rv_time y) now" if "y \<in> set q" for y
      using e [OF that] e [OF top(1)] ne top(2) [OF that] assms(3) top(1) by fastforce
    then show ?thesis using False ne by (simp add: vq_getCurrentBurst_def pq_size_def rv_getTime_def)
  qed
qed

text \<open>Once no burst before the target is left in the queue, \<open>getCurrentBurst\<close> finds a burst exactly
  if one is due at the target time, and takes it out of the queue.\<close>

theorem VectorQueue_getCurrentBurst:
  assumes "set q \<subseteq> rv_window base" and "in_window base now"
    and "\<forall>y \<in> set q. window_pos base now \<le> rv_pos base y"
  shows "case vq_getCurrentBurst now q of
      (Some b, q') \<Rightarrow> mset q = add_mset b (mset q') \<and> time_eq (rv_time b) now
    | (None, q') \<Rightarrow> q' = q \<and> (\<forall>y \<in> set q. \<not> time_eq (rv_time y) now)"
  by (rule vq_getCurrentBurst_spec [OF assms])

theorem VectorQueue_getCurrentBurst_witness:
  "case vq_getCurrentBurst (Time 4 1) [rv_single (Time 4 2) None, rv_single (Time 4 1) (Some ''a'')] of
      (Some b, q') \<Rightarrow> mset [rv_single (Time 4 2) None, rv_single (Time 4 1) (Some ''a'')] = add_mset b (mset q') \<and>
        time_eq (rv_time b) (Time 4 1)
    | (None, q') \<Rightarrow> q' = [rv_single (Time 4 2) None, rv_single (Time 4 1) (Some ''a'')] \<and>
        (\<forall>y \<in> set [rv_single (Time 4 2) None, rv_single (Time 4 1) (Some ''a'')]. \<not> time_eq (rv_time y) (Time 4 1))"
  by (rule VectorQueue_getCurrentBurst [where base = 4])
     (simp_all add: rv_window_def rv_single_def in_window_def valid_FN_def valid_time_def gHyperframe_eq
        rv_pos_def window_pos_def)

section \<open>RadioClock\<close>

text \<open>The clock the two radio threads share. Each method is one critical section; \<open>wait\<close> returns after
  a signal or a millisecond and changes nothing. The result of \<open>set\<close> and \<open>incTN\<close> carries that they
  signal; \<open>incTN\<close> advances by one slot.\<close>

definition rc_set :: "gsm_time \<Rightarrow> gsm_time \<Rightarrow> gsm_time \<times> bool" where
  "rc_set t clock = (t, True)"

definition rc_incTN :: "gsm_time \<Rightarrow> (gsm_time \<times> bool) option" where
  "rc_incTN clock = map_option (\<lambda>t. (t, True)) (incTN 1 clock)"

definition rc_get :: "gsm_time \<Rightarrow> gsm_time" where
  "rc_get clock = clock"

definition rc_wait :: "gsm_time \<Rightarrow> gsm_time" where
  "rc_wait clock = clock"

end
