(* ===== verification/RadioBuffer.thy ===== *)
theory RadioBuffer
  imports Prelude
begin

text \<open>
  The sample ring of \<^verbatim>\<open>Transceiver52M/radioBuffer.h\<close> and \<^verbatim>\<open>radioBuffer.cpp\<close>, between the bursts of
  the transceiver and the chunks of the device, and the contract of a bounded sample stream.

  The \<open>float\<close> array is a list of samples, two floats each, so every index of the code is half of what
  it is there; a pointer into the array is the index it points to. In output direction the array
  has \<open>hLen\<close> samples of filter history in front of the ring. The lengths are \<open>size_t\<close> values: the
  sums that involve a caller's length are taken modulo \<open>2 ^ 64\<close>.
\<close>

section \<open>The contract of a sample stream\<close>

datatype 'a ring_op = RPut "'a list" | RGet nat

text \<open>A client's run of writes and reads: the samples accepted, the samples returned, and the final
  state. A rejected operation leaves the state as it is.\<close>

fun ring_run :: "('a list \<Rightarrow> 'b \<Rightarrow> 'b option) \<Rightarrow> (nat \<Rightarrow> 'b \<Rightarrow> ('a list \<times> 'b) option) \<Rightarrow>
    'a ring_op list \<Rightarrow> 'b \<Rightarrow> 'a list \<times> 'a list \<times> 'b" where
  "ring_run put get [] b = ([], [], b)"
| "ring_run put get (RPut xs # ops) b =
    (case put xs b of
       None \<Rightarrow> ring_run put get ops b
     | Some b1 \<Rightarrow> (let (w, r, b2) = ring_run put get ops b1 in (xs @ w, r, b2)))"
| "ring_run put get (RGet n # ops) b =
    (case get n b of
       None \<Rightarrow> ring_run put get ops b
     | Some (ys, b1) \<Rightarrow> (let (w, r, b2) = ring_run put get ops b1 in (w, ys @ r, b2)))"

text \<open>No array of the program has \<open>2 ^ 62\<close> samples: they would take more than the address space.\<close>

abbreviation max_samples :: nat where
  "max_samples \<equiv> 4611686018427387904"

definition ring_ops_fit :: "'a ring_op list \<Rightarrow> bool" where
  "ring_ops_fit ops = list_all (\<lambda>op. case op of RPut xs \<Rightarrow> length xs \<le> max_samples | RGet n \<Rightarrow> True) ops"

locale sample_stream =
  fixes put :: "'a list \<Rightarrow> 'b \<Rightarrow> 'b option"
    and get :: "nat \<Rightarrow> 'b \<Rightarrow> ('a list \<times> 'b) option"
    and stored :: "'b \<Rightarrow> 'a list"
    and invar :: "'b \<Rightarrow> bool"
  assumes put_stored: "invar b \<Longrightarrow> length xs \<le> max_samples \<Longrightarrow> put xs b = Some b' \<Longrightarrow>
      invar b' \<and> stored b' = stored b @ xs"
    and get_stored: "invar b \<Longrightarrow> get n b = Some (ys, b') \<Longrightarrow>
      invar b' \<and> length ys = n \<and> stored b = ys @ stored b'"
begin

lemma run_stream:
  "invar b \<Longrightarrow> ring_ops_fit ops \<Longrightarrow> ring_run put get ops b = (w, r, b') \<Longrightarrow>
    invar b' \<and> stored b @ w = r @ stored b'"
proof (induction ops arbitrary: b w r)
  case Nil
  then show ?case by simp
next
  case (Cons op ops)
  have fit: "ring_ops_fit ops" using Cons.prems(2) by (simp add: ring_ops_fit_def)
  show ?case
  proof (cases op)
    case (RPut xs)
    have len: "length xs \<le> max_samples" using Cons.prems(2) RPut by (simp add: ring_ops_fit_def)
    show ?thesis
    proof (cases "put xs b")
      case None
      then show ?thesis using Cons fit RPut by simp
    next
      case (Some b1)
      obtain w1 where "ring_run put get ops b1 = (w1, r, b')" and w: "w = xs @ w1"
        using Cons.prems(3) RPut Some by (auto split: prod.splits)
      then have "invar b' \<and> stored b1 @ w1 = r @ stored b'"
        using Cons.IH fit put_stored [OF Cons.prems(1) len Some] by blast
      then show ?thesis using put_stored [OF Cons.prems(1) len Some] w by simp
    qed
  next
    case (RGet n)
    show ?thesis
    proof (cases "get n b")
      case None
      then show ?thesis using Cons fit RGet by simp
    next
      case (Some res)
      obtain ys b1 where res: "res = (ys, b1)" by force
      note g = get_stored [OF Cons.prems(1) Some [unfolded res]]
      obtain r1 where "ring_run put get ops b1 = (w, r1, b')" and r: "r = ys @ r1"
        using Cons.prems(3) RGet Some res by (auto split: prod.splits)
      then have "invar b' \<and> stored b1 @ w = r1 @ stored b'" using Cons.IH fit g by blast
      then show ?thesis using g r by simp
    qed
  qed
qed

end

section \<open>RadioBuffer\<close>

record 'a radio_buffer =
  rb_writeIndex :: nat
  rb_readIndex :: nat
  rb_availSamples :: nat
  rb_bufferLen :: nat
  rb_numSegments :: nat
  rb_segmentLen :: nat
  rb_hLen :: nat
  rb_buffer :: "'a list"
  rb_segments :: "nat list"
  rb_outDirection :: bool

text \<open>\<open>new float[]\<close> does not initialise the array: \<open>junk\<close> is what the memory holds.\<close>

definition rb_new :: "(nat \<Rightarrow> 'a) \<Rightarrow> nat \<Rightarrow> nat \<Rightarrow> nat \<Rightarrow> bool \<Rightarrow> 'a radio_buffer" where
  "rb_new junk numSegments segmentLen hLen outDirection =
    (let h = (if \<not> outDirection then 0 else hLen)
     in \<lparr>rb_writeIndex = 0, rb_readIndex = 0, rb_availSamples = 0,
         rb_bufferLen = numSegments * segmentLen, rb_numSegments = numSegments,
         rb_segmentLen = segmentLen, rb_hLen = h,
         rb_buffer = map junk [0..<h + numSegments * segmentLen],
         rb_segments = map (\<lambda>i. h + i * segmentLen) [0..<numSegments],
         rb_outDirection = outDirection\<rparr>)"

definition rb_reset :: "'a radio_buffer \<Rightarrow> 'a radio_buffer" where
  "rb_reset b = b\<lparr>rb_writeIndex := 0, rb_readIndex := 0, rb_availSamples := 0\<rparr>"

definition rb_getSegmentLen :: "'a radio_buffer \<Rightarrow> nat" where
  "rb_getSegmentLen b = rb_segmentLen b"

definition rb_getNumSegments :: "'a radio_buffer \<Rightarrow> nat" where
  "rb_getNumSegments b = rb_numSegments b"

definition rb_getAvailSamples :: "'a radio_buffer \<Rightarrow> nat" where
  "rb_getAvailSamples b = rb_availSamples b"

definition rb_getAvailSegments :: "'a radio_buffer \<Rightarrow> nat" where
  "rb_getAvailSegments b = rb_availSamples b div rb_segmentLen b"

definition rb_getFreeSamples :: "'a radio_buffer \<Rightarrow> nat" where
  "rb_getFreeSamples b = u64_sub (rb_bufferLen b) (rb_availSamples b)"

definition rb_getFreeSegments :: "'a radio_buffer \<Rightarrow> nat" where
  "rb_getFreeSegments b = rb_getFreeSamples b div rb_segmentLen b"

definition rb_getReadSegment :: "'a radio_buffer \<Rightarrow> (nat \<times> 'a radio_buffer) option" where
  "rb_getReadSegment b =
    (if \<not> rb_outDirection b then None
     else if rb_availSamples b < rb_segmentLen b then None
     else
       let num = rb_readIndex b div rb_segmentLen b
       in if num \<ge> rb_numSegments b then None
          else
            let buf = (if num = 0
                       then blit (rb_buffer b) 0 (slice (rb_buffer b) (rb_bufferLen b) (rb_hLen b))
                       else rb_buffer b)
            in Some (rb_segments b ! num,
                 b\<lparr>rb_buffer := buf,
                   rb_availSamples := rb_availSamples b - rb_segmentLen b,
                   rb_readIndex := (rb_readIndex b + rb_segmentLen b) mod rb_bufferLen b\<rparr>))"

text \<open>\<open>write\<close> and \<open>zero\<close> differ only in the samples they store.\<close>

definition rb_write :: "'a list \<Rightarrow> 'a radio_buffer \<Rightarrow> bool \<times> 'a radio_buffer" where
  "rb_write wr b =
    (let len = length wr
     in if \<not> rb_outDirection b then (False, b)
        else if u64_add (rb_availSamples b) len > rb_bufferLen b then (False, b)
        else
          let w = rb_writeIndex b; h = rb_hLen b;
              buf = (if u64_add w len \<le> rb_bufferLen b then blit (rb_buffer b) (w + h) wr
                     else let len0 = rb_bufferLen b - w
                          in blit (blit (rb_buffer b) (w + h) (take len0 wr)) h (drop len0 wr))
          in (True, b\<lparr>rb_buffer := buf,
                      rb_availSamples := u64_add (rb_availSamples b) len,
                      rb_writeIndex := u64_add w len mod rb_bufferLen b\<rparr>))"

definition rb_zero :: "nat \<Rightarrow> 'a::zero radio_buffer \<Rightarrow> bool \<times> 'a radio_buffer" where
  "rb_zero len b =
    (if \<not> rb_outDirection b then (False, b)
     else if u64_add (rb_availSamples b) len > rb_bufferLen b then (False, b)
     else
       let w = rb_writeIndex b; h = rb_hLen b;
           buf = (if u64_add w len \<le> rb_bufferLen b then blit (rb_buffer b) (w + h) (replicate len 0)
                  else let len0 = rb_bufferLen b - w; len1 = len - len0
                       in blit (blit (rb_buffer b) (w + h) (replicate len0 0)) h (replicate len1 0))
       in (True, b\<lparr>rb_buffer := buf,
                   rb_availSamples := u64_add (rb_availSamples b) len,
                   rb_writeIndex := u64_add w len mod rb_bufferLen b\<rparr>))"

definition rb_getWriteSegment :: "'a radio_buffer \<Rightarrow> (nat \<times> 'a radio_buffer) option" where
  "rb_getWriteSegment b =
    (if rb_outDirection b then None
     else if u64_sub (rb_bufferLen b) (rb_availSamples b) < rb_segmentLen b then None
     else if rb_writeIndex b mod rb_segmentLen b \<noteq> 0 then None
     else
       let num = rb_writeIndex b div rb_segmentLen b
       in if num \<ge> rb_numSegments b then None
          else Some (rb_segments b ! num,
                 b\<lparr>rb_availSamples := rb_availSamples b + rb_segmentLen b,
                   rb_writeIndex := (rb_writeIndex b + rb_segmentLen b) mod rb_bufferLen b\<rparr>))"

definition rb_zeroWriteSegment :: "'a::zero radio_buffer \<Rightarrow> bool \<times> 'a radio_buffer" where
  "rb_zeroWriteSegment b =
    (case rb_getWriteSegment b of
       None \<Rightarrow> (False, b)
     | Some (segment, b1) \<Rightarrow>
         (True, b1\<lparr>rb_buffer := blit (rb_buffer b1) segment (replicate (rb_segmentLen b1) 0)\<rparr>))"

definition rb_read :: "nat \<Rightarrow> 'a radio_buffer \<Rightarrow> ('a list \<times> 'a radio_buffer) option" where
  "rb_read len b =
    (if rb_outDirection b then None
     else if rb_availSamples b < len then None
     else
       let r = rb_readIndex b;
           rd = (if u64_add r len \<le> rb_bufferLen b then slice (rb_buffer b) r len
                 else let len0 = rb_bufferLen b - r; len1 = len - len0
                      in slice (rb_buffer b) r len0 @ slice (rb_buffer b) 0 len1)
       in Some (rd, b\<lparr>rb_availSamples := rb_availSamples b - len,
                      rb_readIndex := u64_add r len mod rb_bufferLen b\<rparr>))"

section \<open>Invariant and the stored stream\<close>

definition rb_inv :: "'a radio_buffer \<Rightarrow> bool" where
  "rb_inv b \<longleftrightarrow>
    0 < rb_segmentLen b \<and> 0 < rb_bufferLen b \<and> rb_numSegments b * rb_segmentLen b = rb_bufferLen b \<and>
    rb_bufferLen b \<le> max_samples \<and>
    length (rb_buffer b) = rb_hLen b + rb_bufferLen b \<and>
    rb_segments b = map (\<lambda>i. rb_hLen b + i * rb_segmentLen b) [0..<rb_numSegments b] \<and>
    rb_readIndex b < rb_bufferLen b \<and> rb_availSamples b \<le> rb_bufferLen b \<and>
    rb_writeIndex b = (rb_readIndex b + rb_availSamples b) mod rb_bufferLen b \<and>
    (if rb_outDirection b then rb_segmentLen b dvd rb_readIndex b
     else rb_hLen b = 0 \<and> rb_segmentLen b dvd rb_writeIndex b)"

definition rb_stored :: "'a radio_buffer \<Rightarrow> 'a list" where
  "rb_stored b = map (\<lambda>i. rb_buffer b ! (rb_hLen b + (rb_readIndex b + i) mod rb_bufferLen b))
    [0..<rb_availSamples b]"

section \<open>Storing into the ring\<close>

definition ring_store :: "'a list \<Rightarrow> nat \<Rightarrow> nat \<Rightarrow> nat \<Rightarrow> 'a list \<Rightarrow> 'a list" where
  "ring_store buf h L w xs =
    (if w + length xs \<le> L then blit buf (w + h) xs
     else blit (blit buf (w + h) (take (L - w) xs)) h (drop (L - w) xs))"

lemma ring_store_length:
  "length buf = h + L \<Longrightarrow> w < L \<Longrightarrow> length xs \<le> L \<Longrightarrow> length (ring_store buf h L w xs) = h + L"
  by (auto simp: ring_store_def blit)

lemma ring_store_hist:
  "length buf = h + L \<Longrightarrow> w < L \<Longrightarrow> length xs \<le> L \<Longrightarrow> k < h \<Longrightarrow> ring_store buf h L w xs ! k = buf ! k"
  by (auto simp: ring_store_def blit)

lemma ring_store_nth:
  assumes "length buf = h + L" and "w < L" and "length xs \<le> L" and "p < L"
  shows "ring_store buf h L w xs ! (h + p) =
    (if w \<le> p \<and> p < w + length xs then xs ! (p - w)
     else if p + L < w + length xs then xs ! (p + L - w) else buf ! (h + p))"
  using assms by (auto simp: ring_store_def blit add.commute)

lemma ring_store_new:
  assumes "length buf = h + L" and "w < L" and "length xs \<le> L" and "i < length xs"
  shows "ring_store buf h L w xs ! (h + (w + i) mod L) = xs ! i"
proof (cases "w + i < L")
  case True
  then show ?thesis using assms ring_store_nth [OF assms(1-3), of "w + i"] by simp
next
  case False
  then have m: "(w + i) mod L = w + i - L" using assms by (intro mod_wrap_once) auto
  have "w + i - L < L" using assms by linarith
  from ring_store_nth [OF assms(1-3) this] show ?thesis unfolding m using assms False by auto
qed

lemma ring_store_old:
  assumes "length buf = h + L" and "w < L" and "length xs \<le> i" and "i < L"
  shows "ring_store buf h L w xs ! (h + (w + i) mod L) = buf ! (h + (w + i) mod L)"
proof (cases "w + i < L")
  case True
  have "length xs \<le> L" using assms by simp
  from ring_store_nth [OF assms(1,2) this, of "w + i"] True show ?thesis using assms by simp
next
  case False
  then have m: "(w + i) mod L = w + i - L" using assms by (intro mod_wrap_once) auto
  have "length xs \<le> L" and "w + i - L < L" using assms by linarith+
  from ring_store_nth [OF assms(1,2) this] show ?thesis unfolding m using assms False by auto
qed

text \<open>The cells of the stored samples, seen from the write position.\<close>

lemma ring_pos_from_write:
  assumes "w = (r + a) mod L" and "a \<le> L" and "i < a"
  shows "(r + i) mod L = (w + (L - a + i)) mod (L::nat)"
proof -
  have "(w + (L - a + i)) mod L = (r + a + (L - a + i)) mod L" by (simp add: assms(1) mod_simps)
  also have "r + a + (L - a + i) = r + i + L" using assms(2) by simp
  finally show ?thesis by simp
qed

lemma ring_advance: "n \<le> a \<Longrightarrow> ((r + n) mod L + (a - n)) mod L = (r + a) mod (L::nat)"
  by (simp only: mod_add_left_eq) simp

lemma rb_write_small:
  assumes "rb_inv b" and "length wr \<le> max_samples"
  shows "rb_write wr b =
    (if \<not> rb_outDirection b \<or> rb_availSamples b + length wr > rb_bufferLen b then (False, b)
     else (True, b\<lparr>rb_buffer := ring_store (rb_buffer b) (rb_hLen b) (rb_bufferLen b) (rb_writeIndex b) wr,
                  rb_availSamples := rb_availSamples b + length wr,
                  rb_writeIndex := (rb_writeIndex b + length wr) mod rb_bufferLen b\<rparr>))"
proof -
  have w: "rb_writeIndex b < rb_bufferLen b"
    using assms(1) unfolding rb_inv_def by (metis mod_less_divisor)
  have L: "rb_bufferLen b \<le> max_samples" "rb_availSamples b \<le> rb_bufferLen b"
    using assms(1) unfolding rb_inv_def by blast+
  have "rb_availSamples b \<le> max_samples" "rb_writeIndex b \<le> max_samples"
    using L w by linarith+
  then have "u64_add (rb_availSamples b) (length wr) = rb_availSamples b + length wr"
    and "u64_add (rb_writeIndex b) (length wr) = rb_writeIndex b + length wr"
    using assms(2) by (simp_all add: u64_add_id)
  then show ?thesis by (simp add: rb_write_def ring_store_def Let_def)
qed

lemma rb_store_stored:
  assumes inv: "rb_inv b" and fit: "rb_availSamples b + length wr \<le> rb_bufferLen b"
    and dir: "rb_outDirection b \<or> length wr = rb_segmentLen b"
    and b': "b' = b\<lparr>rb_buffer := ring_store (rb_buffer b) (rb_hLen b) (rb_bufferLen b) (rb_writeIndex b) wr,
                  rb_availSamples := rb_availSamples b + length wr,
                  rb_writeIndex := (rb_writeIndex b + length wr) mod rb_bufferLen b\<rparr>"
  shows "rb_inv b' \<and> rb_stored b' = rb_stored b @ wr"
proof -
  let ?L = "rb_bufferLen b" and ?h = "rb_hLen b" and ?w = "rb_writeIndex b" and ?r = "rb_readIndex b"
    and ?a = "rb_availSamples b"
  have L: "length (rb_buffer b) = ?h + ?L" "?w < ?L" "length wr \<le> ?L" "?a \<le> ?L"
    and w: "?w = (?r + ?a) mod ?L"
    using inv fit by (auto simp: rb_inv_def)
  note len = ring_store_length [OF L(1-3)]
  have old: "rb_buffer b' ! (?h + (?r + i) mod ?L) = rb_buffer b ! (?h + (?r + i) mod ?L)" if "i < ?a" for i
  proof -
    have "length wr \<le> ?L - ?a + i" "?L - ?a + i < ?L" using that fit by auto
    from ring_store_old [OF L(1,2) this] show ?thesis
      by (simp add: b' ring_pos_from_write [OF w L(4) that])
  qed
  have new: "rb_buffer b' ! (?h + (?r + (?a + i)) mod ?L) = wr ! i" if "i < length wr" for i
  proof -
    have "(?r + (?a + i)) mod ?L = (?w + i) mod ?L" by (simp add: w mod_simps add.assoc)
    then show ?thesis using ring_store_new [OF L(1,2,3) that] by (simp add: b')
  qed
  have "rb_numSegments b * rb_segmentLen b = ?L" using inv by (simp add: rb_inv_def)
  then have "rb_segmentLen b dvd ?L" by (metis dvd_triv_right)
  then have d: "rb_segmentLen b dvd ?w \<Longrightarrow> rb_segmentLen b dvd (?w + rb_segmentLen b) mod ?L"
    by (simp add: dvd_mod)
  have e: "(?w + length wr) mod ?L = (?r + (?a + length wr)) mod ?L" by (simp add: w mod_simps add.assoc)
  have "rb_inv b'"
    using inv fit dir len d e unfolding rb_inv_def b' by auto
  moreover have "rb_stored b' = rb_stored b @ wr"
  proof (rule nth_equalityI)
    show "length (rb_stored b') = length (rb_stored b @ wr)" by (simp add: rb_stored_def b')
    fix i assume "i < length (rb_stored b')"
    then have i: "i < ?a + length wr" by (simp add: rb_stored_def b')
    show "rb_stored b' ! i = (rb_stored b @ wr) ! i"
    proof (cases "i < ?a")
      case True
      then show ?thesis using i old by (simp add: rb_stored_def nth_append b')
    next
      case False
      then have "i - ?a < length wr" "?r + (?a + (i - ?a)) = ?r + i" using i by auto
      then show ?thesis using new [of "i - ?a"] False i by (simp add: rb_stored_def nth_append b')
    qed
  qed
  ultimately show ?thesis by simp
qed

section \<open>The output direction as a sample stream\<close>

text \<open>The reader of the output direction takes the samples of the segment it gets before the next
  call, which is what \<open>pushBuffer\<close> does.\<close>

definition rb_out_put :: "'a list \<Rightarrow> 'a radio_buffer \<Rightarrow> 'a radio_buffer option" where
  "rb_out_put xs b = (let (ok, b') = rb_write xs b in if ok then Some b' else None)"

definition rb_out_get :: "nat \<Rightarrow> 'a radio_buffer \<Rightarrow> ('a list \<times> 'a radio_buffer) option" where
  "rb_out_get n b =
    (if n \<noteq> rb_segmentLen b then None
     else map_option (\<lambda>(off, b'). (slice (rb_buffer b') off n, b')) (rb_getReadSegment b))"

definition rb_out_inv :: "'a radio_buffer \<Rightarrow> bool" where
  "rb_out_inv b \<longleftrightarrow> rb_inv b \<and> rb_outDirection b \<and> rb_hLen b \<le> rb_bufferLen b"

lemma rb_segment_num:
  assumes "rb_inv b" and "rb_segmentLen b dvd k" and "k < rb_bufferLen b"
  shows "k div rb_segmentLen b < rb_numSegments b"
    and "rb_segments b ! (k div rb_segmentLen b) = rb_hLen b + k"
    and "k + rb_segmentLen b \<le> rb_bufferLen b"
proof -
  let ?s = "rb_segmentLen b"
  have n: "rb_numSegments b * ?s = rb_bufferLen b" and s0: "0 < ?s"
    and segs: "rb_segments b = map (\<lambda>i. rb_hLen b + i * ?s) [0..<rb_numSegments b]"
    using assms(1) by (auto simp: rb_inv_def)
  show num: "k div ?s < rb_numSegments b" using assms(3) n s0 by (simp add: div_less_iff_less_mult)
  then show "rb_segments b ! (k div ?s) = rb_hLen b + k" using segs assms(2) by simp
  have "Suc (k div ?s) * ?s \<le> rb_numSegments b * ?s" using num by (intro mult_le_mono1) simp
  then show "k + ?s \<le> rb_bufferLen b" using assms(2) n by simp
qed

lemma rb_getReadSegment_ok:
  assumes inv: "rb_out_inv b" and avail: "rb_segmentLen b \<le> rb_availSamples b"
  shows "rb_getReadSegment b = Some (rb_hLen b + rb_readIndex b,
    b\<lparr>rb_buffer := (if rb_readIndex b = 0
        then blit (rb_buffer b) 0 (slice (rb_buffer b) (rb_bufferLen b) (rb_hLen b)) else rb_buffer b),
      rb_availSamples := rb_availSamples b - rb_segmentLen b,
      rb_readIndex := (rb_readIndex b + rb_segmentLen b) mod rb_bufferLen b\<rparr>)"
proof -
  have i: "rb_inv b" "rb_outDirection b" using inv by (simp_all add: rb_out_inv_def)
  have d: "rb_segmentLen b dvd rb_readIndex b" "rb_readIndex b < rb_bufferLen b" "0 < rb_segmentLen b"
    using i by (auto simp: rb_inv_def)
  note num = rb_segment_num [OF i(1) d(1,2)]
  have "rb_readIndex b div rb_segmentLen b = 0 \<longleftrightarrow> rb_readIndex b = 0"
    using d by (auto simp: dvd_def)
  then show ?thesis using i avail num by (simp add: rb_getReadSegment_def Let_def)
qed

lemma rb_hist_copy_length:
  assumes "rb_out_inv b"
  shows "length (blit (rb_buffer b) 0 (slice (rb_buffer b) (rb_bufferLen b) (rb_hLen b))) = length (rb_buffer b)"
    and "rb_hLen b \<le> k \<Longrightarrow> k < rb_hLen b + rb_bufferLen b \<Longrightarrow>
      blit (rb_buffer b) 0 (slice (rb_buffer b) (rb_bufferLen b) (rb_hLen b)) ! k = rb_buffer b ! k"
    and "k < rb_hLen b \<Longrightarrow>
      blit (rb_buffer b) 0 (slice (rb_buffer b) (rb_bufferLen b) (rb_hLen b)) ! k =
      rb_buffer b ! (rb_bufferLen b + k)"
  using assms by (auto simp: rb_out_inv_def rb_inv_def blit)

lemma stored_split:
  assumes "n \<le> rb_availSamples b" and "0 < rb_bufferLen b"
    and "rb_availSamples b' = rb_availSamples b - n" and "rb_bufferLen b' = rb_bufferLen b"
    and "rb_readIndex b' = (rb_readIndex b + n) mod rb_bufferLen b" and "rb_hLen b' = rb_hLen b"
    and "\<And>p. p < rb_bufferLen b \<Longrightarrow> rb_buffer b' ! (rb_hLen b + p) = rb_buffer b ! (rb_hLen b + p)"
    and "length ys = n"
    and "\<And>i. i < n \<Longrightarrow> ys ! i = rb_buffer b ! (rb_hLen b + (rb_readIndex b + i) mod rb_bufferLen b)"
  shows "rb_stored b = ys @ rb_stored b'"
proof (rule nth_equalityI)
  show "length (rb_stored b) = length (ys @ rb_stored b')"
    using assms(1,3,8) by (simp add: rb_stored_def)
  fix i assume "i < length (rb_stored b)"
  then have i: "i < rb_availSamples b" by (simp add: rb_stored_def)
  show "rb_stored b ! i = (ys @ rb_stored b') ! i"
  proof (cases "i < n")
    case True
    then show ?thesis using i assms(8,9) by (simp add: rb_stored_def nth_append)
  next
    case False
    have "(rb_readIndex b' + (i - n)) mod rb_bufferLen b = (rb_readIndex b + (n + (i - n))) mod rb_bufferLen b"
      by (simp only: assms(5) mod_add_left_eq add.assoc)
    also have "n + (i - n) = i" using False by simp
    finally have p: "(rb_readIndex b' + (i - n)) mod rb_bufferLen b = (rb_readIndex b + i) mod rb_bufferLen b" .
    have "(ys @ rb_stored b') ! i = rb_stored b' ! (i - n)" using False assms(8) by (simp add: nth_append)
    also have "\<dots> = rb_buffer b' ! (rb_hLen b + (rb_readIndex b + i) mod rb_bufferLen b)"
    proof -
      have "i - n < rb_availSamples b'" using False i assms(3) by simp
      then have "rb_stored b' ! (i - n) = rb_buffer b' ! (rb_hLen b' + (rb_readIndex b' + (i - n)) mod rb_bufferLen b')"
        by (simp add: rb_stored_def)
      then show ?thesis by (simp only: assms(4,6) p)
    qed
    also have "\<dots> = rb_stored b ! i" using i assms(2,7) by (simp add: rb_stored_def)
    finally show ?thesis by simp
  qed
qed

lemma rb_inv_read:
  assumes inv: "rb_inv b" and n: "n \<le> rb_availSamples b" and "rb_outDirection b \<Longrightarrow> n = rb_segmentLen b"
    and "length buf = length (rb_buffer b)"
  shows "rb_inv (b\<lparr>rb_buffer := buf, rb_availSamples := rb_availSamples b - n,
      rb_readIndex := (rb_readIndex b + n) mod rb_bufferLen b\<rparr>)"
proof -
  let ?L = "rb_bufferLen b" and ?r = "rb_readIndex b" and ?s = "rb_segmentLen b"
  have "rb_numSegments b * ?s = ?L" using inv by (simp add: rb_inv_def)
  then have "?s dvd ?L" by (metis dvd_triv_right)
  then have d: "?s dvd ?r \<Longrightarrow> ?s dvd (?r + ?s) mod ?L" by (simp add: dvd_mod)
  have e: "rb_writeIndex b = ((?r + n) mod ?L + (rb_availSamples b - n)) mod ?L"
    using inv ring_advance [OF n, of ?r ?L] by (simp only: rb_inv_def)
  show ?thesis using inv assms(3,4) d
    by (auto simp: rb_inv_def e [symmetric] simp del: Nat.add_diff_assoc Nat.add_diff_assoc2)
qed

lemma rb_out_get_stored:
  assumes inv: "rb_out_inv b" and g: "rb_out_get n b = Some (ys, b')"
  shows "rb_out_inv b' \<and> length ys = n \<and> rb_stored b = ys @ rb_stored b'"
proof -
  let ?s = "rb_segmentLen b" and ?L = "rb_bufferLen b" and ?h = "rb_hLen b" and ?r = "rb_readIndex b"
  have i: "rb_inv b" "rb_outDirection b" "?h \<le> ?L" using inv by (simp_all add: rb_out_inv_def)
  have n: "n = ?s" using g by (auto simp: rb_out_get_def split: if_splits)
  have avail: "?s \<le> rb_availSamples b"
    using g i by (rule_tac ccontr) (simp add: rb_out_get_def rb_getReadSegment_def split: if_splits)
  have f: "0 < ?L" "0 < ?s" "?s dvd ?r" "?r < ?L" "length (rb_buffer b) = ?h + ?L"
    using i by (auto simp: rb_inv_def)
  note num = rb_segment_num [OF i(1) f(3,4)]
  define buf where "buf = (if ?r = 0 then blit (rb_buffer b) 0 (slice (rb_buffer b) ?L ?h) else rb_buffer b)"
  have buf: "length buf = ?h + ?L" "\<And>p. p < ?L \<Longrightarrow> buf ! (?h + p) = rb_buffer b ! (?h + p)"
    using rb_hist_copy_length [OF inv] f by (auto simp: buf_def)
  have b': "b' = b\<lparr>rb_buffer := buf, rb_availSamples := rb_availSamples b - ?s,
      rb_readIndex := (?r + ?s) mod ?L\<rparr>" and ys: "ys = slice buf (?h + ?r) ?s"
    using g rb_getReadSegment_ok [OF inv avail] n by (simp_all add: rb_out_get_def buf_def)
  have len: "length ys = n" using buf(1) num(3) n by (simp add: ys blit)
  have "ys ! j = rb_buffer b ! (?h + (?r + j) mod ?L)" if "j < n" for j
  proof -
    have j: "?r + j < ?L" using that num(3) n by simp
    have "ys ! j = buf ! (?h + (?r + j))" using that buf(1) num(3) n by (simp add: ys blit add.assoc)
    then show ?thesis using buf(2) [OF j] j by simp
  qed
  then have "rb_stored b = ys @ rb_stored b'"
    by (intro stored_split [where n = n]) (use avail n f buf len in \<open>simp_all add: b'\<close>)
  moreover have "rb_inv b'"
    unfolding b' by (rule rb_inv_read [OF i(1) avail]) (use buf(1) f in simp_all)
  ultimately show ?thesis using i len by (simp add: b' rb_out_inv_def)
qed

lemma rb_out_put_stored:
  assumes "rb_out_inv b" and "length xs \<le> max_samples" and "rb_out_put xs b = Some b'"
  shows "rb_out_inv b' \<and> rb_stored b' = rb_stored b @ xs"
proof -
  have i: "rb_inv b" "rb_outDirection b" using assms(1) by (simp_all add: rb_out_inv_def)
  note w = rb_write_small [OF i(1) assms(2)]
  have fit: "rb_availSamples b + length xs \<le> rb_bufferLen b"
    using assms(3) w by (auto simp: rb_out_put_def split: if_splits)
  have b': "b' = b\<lparr>rb_buffer := ring_store (rb_buffer b) (rb_hLen b) (rb_bufferLen b) (rb_writeIndex b) xs,
      rb_availSamples := rb_availSamples b + length xs,
      rb_writeIndex := (rb_writeIndex b + length xs) mod rb_bufferLen b\<rparr>"
    using assms(3) w fit i by (simp add: rb_out_put_def split: if_splits)
  from rb_store_stored [OF i(1) fit disjI1 [OF i(2)] b'] show ?thesis
    using assms(1) by (simp add: b' rb_out_inv_def)
qed

interpretation rb_out: sample_stream rb_out_put rb_out_get rb_stored rb_out_inv
proof (unfold_locales, goal_cases)
  case (1 b xs b')
  then show ?case by (intro rb_out_put_stored)
next
  case (2 b n ys b')
  then show ?case by (rule rb_out_get_stored)
qed

section \<open>The input direction as a sample stream\<close>

text \<open>The writer of the input direction gets a segment and fills it, as \<open>pullBuffer\<close> does.\<close>

definition rb_in_put :: "'a list \<Rightarrow> 'a radio_buffer \<Rightarrow> 'a radio_buffer option" where
  "rb_in_put xs b =
    (if length xs \<noteq> rb_segmentLen b then None
     else map_option (\<lambda>(off, b'). b'\<lparr>rb_buffer := blit (rb_buffer b') off xs\<rparr>) (rb_getWriteSegment b))"

definition rb_in_inv :: "'a radio_buffer \<Rightarrow> bool" where
  "rb_in_inv b \<longleftrightarrow> rb_inv b \<and> \<not> rb_outDirection b"

lemma rb_getWriteSegment_ok:
  assumes "rb_in_inv b"
  shows "rb_getWriteSegment b =
    (if rb_availSamples b + rb_segmentLen b \<le> rb_bufferLen b
     then Some (rb_writeIndex b, b\<lparr>rb_availSamples := rb_availSamples b + rb_segmentLen b,
                   rb_writeIndex := (rb_writeIndex b + rb_segmentLen b) mod rb_bufferLen b\<rparr>)
     else None)"
proof -
  have i: "rb_inv b" "\<not> rb_outDirection b" using assms by (simp_all add: rb_in_inv_def)
  have f: "rb_hLen b = 0" "rb_segmentLen b dvd rb_writeIndex b" "rb_bufferLen b \<le> max_samples"
    "rb_availSamples b \<le> rb_bufferLen b" using i unfolding rb_inv_def by auto
  have w: "rb_writeIndex b < rb_bufferLen b" using i(1) unfolding rb_inv_def by (metis mod_less_divisor)
  have "u64_sub (rb_bufferLen b) (rb_availSamples b) = rb_bufferLen b - rb_availSamples b"
    using f by (intro u64_sub_id) auto
  then show ?thesis using rb_segment_num [OF i(1) f(2) w] f i by (auto simp: rb_getWriteSegment_def)
qed

lemma rb_in_put_stored:
  assumes inv: "rb_in_inv b" and p: "rb_in_put xs b = Some b'"
  shows "rb_in_inv b' \<and> rb_stored b' = rb_stored b @ xs"
proof -
  have i: "rb_inv b" "\<not> rb_outDirection b" using inv by (simp_all add: rb_in_inv_def)
  have f: "rb_hLen b = 0" "rb_segmentLen b dvd rb_writeIndex b" using i unfolding rb_inv_def by auto
  have w: "rb_writeIndex b < rb_bufferLen b" using i(1) unfolding rb_inv_def by (metis mod_less_divisor)
  have len: "length xs = rb_segmentLen b" using p by (auto simp: rb_in_put_def split: if_splits)
  have fit: "rb_availSamples b + length xs \<le> rb_bufferLen b"
    using p rb_getWriteSegment_ok [OF inv] len by (auto simp: rb_in_put_def split: if_splits)
  have b': "b' = b\<lparr>rb_buffer := ring_store (rb_buffer b) (rb_hLen b) (rb_bufferLen b) (rb_writeIndex b) xs,
      rb_availSamples := rb_availSamples b + length xs,
      rb_writeIndex := (rb_writeIndex b + length xs) mod rb_bufferLen b\<rparr>"
    (is "b' = ?b")
  proof -
    have "rb_in_put xs b = Some ?b"
      using rb_getWriteSegment_ok [OF inv] len fit rb_segment_num(3) [OF i(1) f(2) w] f(1)
      by (simp add: rb_in_put_def ring_store_def)
    then show ?thesis using p by simp
  qed
  from rb_store_stored [OF i(1) fit disjI2 [OF len] b'] show ?thesis
    using i by (simp add: b' rb_in_inv_def)
qed

lemma rb_read_ok:
  assumes inv: "rb_in_inv b" and g: "rb_read n b = Some (ys, b')"
  shows "rb_in_inv b' \<and> length ys = n \<and> rb_stored b = ys @ rb_stored b'"
proof -
  let ?L = "rb_bufferLen b" and ?r = "rb_readIndex b" and ?buf = "rb_buffer b"
  have i: "rb_inv b" "\<not> rb_outDirection b" using inv by (simp_all add: rb_in_inv_def)
  have f: "rb_hLen b = 0" "?L \<le> max_samples" "rb_availSamples b \<le> ?L" "?r < ?L" "0 < ?L" "length ?buf = ?L"
    using i unfolding rb_inv_def by auto
  have n: "n \<le> rb_availSamples b" using g i by (auto simp: rb_read_def split: if_splits)
  have "?r + n < two64" using f n by linarith
  then have u: "u64_add ?r n = ?r + n" by (rule u64_add_id)
  have b': "b' = b\<lparr>rb_availSamples := rb_availSamples b - n, rb_readIndex := (?r + n) mod ?L\<rparr>"
    and ys: "ys = (if ?r + n \<le> ?L then slice ?buf ?r n
        else slice ?buf ?r (?L - ?r) @ slice ?buf 0 (n - (?L - ?r)))"
    using g i n u by (auto simp: rb_read_def Let_def split: if_splits)
  have len: "length ys = n" using f n by (auto simp: ys blit)
  have "ys ! j = ?buf ! ((?r + j) mod ?L)" if j: "j < n" for j
  proof (cases "?r + j < ?L")
    case True
    then show ?thesis using j f by (auto simp: ys blit nth_append)
  next
    case False
    then have "(?r + j) mod ?L = ?r + j - ?L" using f n j by (intro mod_wrap_once) auto
    then show ?thesis using False j f n by (auto simp: ys blit nth_append add.commute)
  qed
  then have "rb_stored b = ys @ rb_stored b'"
    by (intro stored_split [where n = n]) (use n f len in \<open>simp_all add: b'\<close>)
  moreover have "rb_inv b'" using rb_inv_read [OF i(1) n, of "rb_buffer b"] i(2) by (simp add: b')
  ultimately show ?thesis using i len by (simp add: b' rb_in_inv_def)
qed

interpretation rb_in: sample_stream rb_in_put rb_read rb_stored rb_in_inv
proof (unfold_locales, goal_cases)
  case (1 b xs b')
  then show ?case by (intro rb_in_put_stored)
next
  case (2 b n ys b')
  then show ?case by (rule rb_read_ok)
qed

section \<open>Properties\<close>

lemma rb_new_inv:
  assumes "0 < n" and "0 < seg" and "n * seg \<le> max_samples"
  shows "rb_inv (rb_new junk n seg h out)" and "rb_stored (rb_new junk n seg h out) = []"
  using assms by (simp_all add: rb_inv_def rb_new_def rb_stored_def Let_def)

lemma rb_stored_bound: "rb_inv b \<Longrightarrow> length (rb_stored b) \<le> rb_bufferLen b"
  by (simp add: rb_stored_def rb_inv_def)

text \<open>The output ring is a lossless stream: whatever writes and segment reads are made on a fresh
  buffer, in any order, the samples of the accepted writes are those of the segments read, in order,
  followed by those still stored, which are never more than the ring holds.\<close>

theorem RadioBuffer_out_stream:
  assumes "0 < n" and "0 < seg" and "h \<le> n * seg" and "n * seg \<le> max_samples" and "ring_ops_fit ops"
    and "ring_run rb_out_put rb_out_get ops (rb_new junk n seg h True) = (written, returned, b)"
  shows "written = returned @ rb_stored b \<and> length (rb_stored b) \<le> rb_bufferLen b"
proof -
  have "rb_out_inv (rb_new junk n seg h True)"
    using assms(3) rb_new_inv(1) [OF assms(1,2,4), of junk h True]
    by (simp add: rb_out_inv_def) (simp add: rb_new_def Let_def)
  from rb_out.run_stream [OF this assms(5,6)] have "rb_out_inv b" "written = returned @ rb_stored b"
    using rb_new_inv(2) [OF assms(1,2,4), of junk h True] by simp_all
  then show ?thesis using rb_stored_bound [of b] by (simp add: rb_out_inv_def)
qed

theorem RadioBuffer_out_stream_witness:
  "\<exists>w r b. ring_run rb_out_put rb_out_get [RPut [1, 2, 3], RGet 2, RPut [4, 5, 6], RGet 2]
      (rb_new (\<lambda>i. 0) 2 2 1 True) = (w, r, b :: nat radio_buffer) \<and> w = r @ rb_stored b \<and> r = [1, 2, 3, 4]"
proof -
  obtain w r b where run: "ring_run rb_out_put rb_out_get [RPut [1, 2, 3], RGet 2, RPut [4, 5, 6], RGet 2]
      (rb_new (\<lambda>i. 0) 2 2 1 True) = (w, r, b :: nat radio_buffer)" by (rule prod_cases3)
  have fit: "ring_ops_fit [RPut [1 :: nat, 2, 3], RGet 2, RPut [4, 5, 6], RGet 2]" by (simp add: ring_ops_fit_def)
  have "w = r @ rb_stored b"
    using RadioBuffer_out_stream [OF _ _ _ _ fit run] by simp
  moreover have "fst (snd (ring_run rb_out_put rb_out_get [RPut [1, 2, 3], RGet 2, RPut [4, 5, 6], RGet 2]
      (rb_new (\<lambda>i. 0 :: nat) 2 2 1 True))) = ([1, 2, 3, 4] :: nat list)"
    by (simp add: rb_new_def rb_out_put_def rb_out_get_def rb_write_def rb_getReadSegment_def u64_add_def
        blit_def slice_def Let_def)
  ultimately show ?thesis using run by (simp only: fst_conv snd_conv) blast
qed

text \<open>C35. The input ring is a lossless stream of the segments filled and the blocks read.\<close>

theorem RadioBuffer_in_stream:
  assumes "0 < n" and "0 < seg" and "n * seg \<le> max_samples" and "ring_ops_fit ops"
    and "ring_run rb_in_put rb_read ops (rb_new junk n seg h False) = (written, returned, b)"
  shows "written = returned @ rb_stored b \<and> length (rb_stored b) \<le> rb_bufferLen b"
proof -
  have "rb_in_inv (rb_new junk n seg h False)"
    using rb_new_inv(1) [OF assms(1,2,3), of junk h False]
    by (simp add: rb_in_inv_def) (simp add: rb_new_def Let_def)
  from rb_in.run_stream [OF this assms(4,5)] have "rb_in_inv b" "written = returned @ rb_stored b"
    using rb_new_inv(2) [OF assms(1,2,3), of junk h False] by simp_all
  then show ?thesis using rb_stored_bound [of b] by (simp add: rb_in_inv_def)
qed

theorem RadioBuffer_in_stream_witness:
  "\<exists>w r b. ring_run rb_in_put rb_read [RPut [1, 2], RPut [3, 4], RGet 3, RPut [5, 6], RGet 2]
      (rb_new (\<lambda>i. 0) 2 2 9 False) = (w, r, b :: nat radio_buffer) \<and> w = r @ rb_stored b \<and> r = [1, 2, 3, 4, 5]"
proof -
  obtain w r b where run: "ring_run rb_in_put rb_read [RPut [1, 2], RPut [3, 4], RGet 3, RPut [5, 6], RGet 2]
      (rb_new (\<lambda>i. 0) 2 2 9 False) = (w, r, b :: nat radio_buffer)" by (rule prod_cases3)
  have fit: "ring_ops_fit [RPut [1 :: nat, 2], RPut [3, 4], RGet 3, RPut [5, 6], RGet 2]" by (simp add: ring_ops_fit_def)
  have "w = r @ rb_stored b"
    using RadioBuffer_in_stream [OF _ _ _ fit run] by simp
  moreover have "fst (snd (ring_run rb_in_put rb_read [RPut [1, 2], RPut [3, 4], RGet 3, RPut [5, 6], RGet 2]
      (rb_new (\<lambda>i. 0 :: nat) 2 2 9 False))) = ([1, 2, 3, 4, 5] :: nat list)"
    by (simp add: rb_new_def rb_in_put_def rb_read_def rb_getWriteSegment_def u64_add_def u64_sub_def
        blit_def slice_def Let_def)
  ultimately show ?thesis using run by (simp only: fst_conv snd_conv) blast
qed

subsection \<open>The filter history in front of a segment\<close>

text \<open>
  The reader of a segment at \<open>off\<close> also reads the \<open>hLen\<close> samples in front of it. \<open>rb_history_run\<close> is a
  client that keeps \<open>hLen\<close> cells of the ring free when it writes; for each segment it gets it records the
  samples in front of it, with all the samples read before. \<open>rb_recent\<close> says that the ring still holds
  the last \<open>hLen\<close> of these.
\<close>

fun rb_history_run :: "'a ring_op list \<Rightarrow> 'a radio_buffer \<Rightarrow> 'a list \<Rightarrow> ('a list \<times> 'a list) list" where
  "rb_history_run [] b past = []"
| "rb_history_run (RPut xs # ops) b past =
    (if rb_getAvailSamples b + length xs + rb_hLen b \<le> rb_bufferLen b
     then rb_history_run ops (snd (rb_write xs b)) past
     else rb_history_run ops b past)"
| "rb_history_run (RGet n # ops) b past =
    (case rb_getReadSegment b of
       None \<Rightarrow> rb_history_run ops b past
     | Some (off, b') \<Rightarrow>
         (slice (rb_buffer b') (off - rb_hLen b) (rb_hLen b), past) #
         rb_history_run ops b' (past @ slice (rb_buffer b') off (rb_segmentLen b)))"

definition rb_recent :: "'a radio_buffer \<Rightarrow> 'a list \<Rightarrow> bool" where
  "rb_recent b past \<longleftrightarrow> (\<forall>i. i < rb_hLen b \<longrightarrow> i < length past \<longrightarrow>
    rb_buffer b ! (rb_hLen b + (rb_readIndex b + (rb_bufferLen b - 1 - i)) mod rb_bufferLen b) =
    past ! (length past - 1 - i))"

lemma rb_write_recent:
  assumes inv: "rb_inv b" and rec: "rb_recent b past" and len: "length xs \<le> max_samples"
    and fit: "rb_availSamples b + length xs + rb_hLen b \<le> rb_bufferLen b"
  shows "rb_recent (snd (rb_write xs b)) past"
proof (cases "rb_outDirection b")
  case False
  then show ?thesis using rec rb_write_small [OF inv len] by simp
next
  case True
  let ?L = "rb_bufferLen b" and ?h = "rb_hLen b" and ?w = "rb_writeIndex b" and ?r = "rb_readIndex b"
    and ?a = "rb_availSamples b"
  have L: "length (rb_buffer b) = ?h + ?L" "?w < ?L" "?a \<le> ?L" "0 < ?L"
    and w: "?w = (?r + ?a) mod ?L"
    using inv by (auto simp: rb_inv_def)
  have "ring_store (rb_buffer b) ?h ?L ?w xs ! (?h + (?r + (?L - 1 - i)) mod ?L) =
      rb_buffer b ! (?h + (?r + (?L - 1 - i)) mod ?L)" if i: "i < ?h" for i
  proof -
    have "?r + ?a + (?L - ?a - 1 - i) = ?r + (?L - 1 - i)" using i fit by linarith
    then have p: "(?w + (?L - ?a - 1 - i)) mod ?L = (?r + (?L - 1 - i)) mod ?L"
      by (simp only: w mod_add_left_eq)
    have "length xs \<le> ?L - ?a - 1 - i" "?L - ?a - 1 - i < ?L" using i fit L(4) by linarith+
    from ring_store_old [OF L(1,2) this] show ?thesis unfolding p .
  qed
  then show ?thesis using rec True fit rb_write_small [OF inv len] by (simp add: rb_recent_def)
qed

lemma rb_getReadSegment_history:
  assumes inv: "rb_out_inv b" and rec: "rb_recent b past" and seg: "rb_hLen b \<le> rb_segmentLen b"
    and g: "rb_getReadSegment b = Some (off, b')"
  shows "rb_out_inv b'"
    and "rb_hLen b \<le> length past \<Longrightarrow>
      slice (rb_buffer b') (off - rb_hLen b) (rb_hLen b) = drop (length past - rb_hLen b) past"
    and "rb_recent b' (past @ slice (rb_buffer b') off (rb_segmentLen b))"
proof -
  let ?s = "rb_segmentLen b" and ?L = "rb_bufferLen b" and ?h = "rb_hLen b" and ?r = "rb_readIndex b"
  have i: "rb_inv b" "rb_outDirection b" "?h \<le> ?L" using inv by (simp_all add: rb_out_inv_def)
  have avail: "?s \<le> rb_availSamples b"
    using g i by (rule_tac ccontr) (simp add: rb_getReadSegment_def)
  have f: "0 < ?L" "0 < ?s" "?s dvd ?r" "?r < ?L" "length (rb_buffer b) = ?h + ?L"
    using i by (auto simp: rb_inv_def)
  note num = rb_segment_num [OF i(1) f(3,4)]
  define buf where "buf = (if ?r = 0 then blit (rb_buffer b) 0 (slice (rb_buffer b) ?L ?h) else rb_buffer b)"
  have buf: "length buf = ?h + ?L" "\<And>k. ?h \<le> k \<Longrightarrow> k < ?h + ?L \<Longrightarrow> buf ! k = rb_buffer b ! k"
    "\<And>k. ?r = 0 \<Longrightarrow> k < ?h \<Longrightarrow> buf ! k = rb_buffer b ! (?L + k)"
    using rb_hist_copy_length [OF inv] f by (auto simp: buf_def)
  have b': "off = ?h + ?r" "b' = b\<lparr>rb_buffer := buf, rb_availSamples := rb_availSamples b - ?s,
      rb_readIndex := (?r + ?s) mod ?L\<rparr>"
    using g rb_getReadSegment_ok [OF inv avail] by (simp_all add: buf_def)
  have "rb_out_get ?s b = Some (slice (rb_buffer b') off ?s, b')" using g by (simp add: rb_out_get_def)
  from rb_out_get_stored [OF inv this] show "rb_out_inv b'" by blast
  show "slice (rb_buffer b') (off - ?h) ?h = drop (length past - ?h) past" if past: "?h \<le> length past"
  proof (rule nth_equalityI)
    show "length (slice (rb_buffer b') (off - ?h) ?h) = length (drop (length past - ?h) past)"
      using buf(1) f past by (simp add: b' blit)
    fix k assume "k < length (slice (rb_buffer b') (off - ?h) ?h)"
    then have k: "k < ?h" using buf(1) f by (simp add: b' blit)
    have "buf ! (?r + k) = rb_buffer b ! (?h + (?r + (?L - 1 - (?h - 1 - k))) mod ?L)"
    proof (cases "?r = 0")
      case True
      have "?L - 1 - (?h - 1 - k) < ?L" "?h + (?L - 1 - (?h - 1 - k)) = ?L + k" using k i(3) f(1) by linarith+
      then show ?thesis using True buf(3) [OF True k] by simp
    next
      case False
      then have "?h \<le> ?r" using f(3) seg by (auto dest: dvd_imp_le)
      then have e: "?r + (?L - 1 - (?h - 1 - k)) = ?L + (?r - ?h + k)" "?r - ?h + k < ?L"
        and e2: "?h + (?r - ?h + k) = ?r + k" "?h \<le> ?r + k" "?r + k < ?h + ?L"
        using k i(3) f(1,4) by linarith+
      have "(?r + (?L - 1 - (?h - 1 - k))) mod ?L = ?r - ?h + k" unfolding e(1) using e(2) by simp
      then show ?thesis using buf(2) [OF e2(2,3)] e2(1) by simp
    qed
    also have "\<dots> = past ! (length past - 1 - (?h - 1 - k))"
      using rec [unfolded rb_recent_def, rule_format, of "?h - 1 - k"] k past by linarith
    also have "length past - 1 - (?h - 1 - k) = length past - ?h + k" using k past by linarith
    finally have "buf ! (?r + k) = past ! (length past - ?h + k)" .
    then show "slice (rb_buffer b') (off - ?h) ?h ! k = drop (length past - ?h) past ! k"
      using k buf(1) f past by (simp add: b' blit)
  qed
  show "rb_recent b' (past @ slice (rb_buffer b') off ?s)"
    unfolding rb_recent_def
  proof (intro allI impI)
    fix j assume j: "j < rb_hLen b'" "j < length (past @ slice (rb_buffer b') off ?s)"
    have len: "length (slice (rb_buffer b') off ?s) = ?s" using buf(1) num(3) by (simp add: b' blit)
    have jh: "j < ?h" using j by (simp add: b')
    then have q: "?r + ?s + (?L - 1 - j) = ?L + (?r + (?s - 1 - j))" "?r + (?s - 1 - j) < ?L"
      using seg num(3) i(3) by linarith+
    have "((?r + ?s) mod ?L + (?L - 1 - j)) mod ?L = (?r + ?s + (?L - 1 - j)) mod ?L" by (simp only: mod_add_left_eq)
    also have "\<dots> = ?r + (?s - 1 - j)" unfolding q(1) using q(2) by simp
    finally have pos: "((?r + ?s) mod ?L + (?L - 1 - j)) mod ?L = ?r + (?s - 1 - j)" .
    have "length past + ?s - 1 - j - length past = ?s - 1 - j" "\<not> length past + ?s - 1 - j < length past"
      "?s - 1 - j < ?s" using jh seg by linarith+
    then have "(past @ slice (rb_buffer b') off ?s) ! (length (past @ slice (rb_buffer b') off ?s) - 1 - j)
        = buf ! (?h + ?r + (?s - 1 - j))"
      using len buf(1) num(3) by (simp add: nth_append b' blit)
    then show "rb_buffer b' ! (rb_hLen b' + (rb_readIndex b' + (rb_bufferLen b' - 1 - j)) mod rb_bufferLen b') =
        (past @ slice (rb_buffer b') off ?s) ! (length (past @ slice (rb_buffer b') off ?s) - 1 - j)"
      using pos by (simp add: b' add.assoc)
  qed
qed

lemma rb_history_run_ok:
  assumes "rb_out_inv b" and "rb_recent b past" and "rb_hLen b \<le> rb_segmentLen b" and "ring_ops_fit ops"
    and "(hist, before) \<in> set (rb_history_run ops b past)" and "rb_hLen b \<le> length before"
  shows "hist = drop (length before - rb_hLen b) before"
  using assms
proof (induction ops arbitrary: b past)
  case Nil
  then show ?case by simp
next
  case (Cons op ops)
  have fit: "ring_ops_fit ops" using Cons.prems(4) by (simp add: ring_ops_fit_def)
  show ?case
  proof (cases op)
    case (RPut xs)
    have len: "length xs \<le> max_samples" using Cons.prems(4) RPut by (simp add: ring_ops_fit_def)
    show ?thesis
    proof (cases "rb_availSamples b + length xs + rb_hLen b \<le> rb_bufferLen b")
      case True
      let ?b = "snd (rb_write xs b)"
      have i: "rb_inv b" "rb_outDirection b" using Cons.prems(1) by (simp_all add: rb_out_inv_def)
      have w: "rb_out_put xs b = Some ?b" "rb_hLen ?b = rb_hLen b" "rb_segmentLen ?b = rb_segmentLen b"
        using rb_write_small [OF i(1) len] i(2) True by (simp_all add: rb_out_put_def)
      have "(hist, before) \<in> set (rb_history_run ops ?b past)"
        using Cons.prems(5) RPut True by (simp add: rb_getAvailSamples_def)
      then show ?thesis
        using Cons.IH [of ?b past] rb_out_put_stored [OF Cons.prems(1) len w(1)]
          rb_write_recent [OF i(1) Cons.prems(2) len True] Cons.prems(3,6) fit w(2,3) by simp
    next
      case False
      then show ?thesis using Cons fit RPut by (simp add: rb_getAvailSamples_def)
    qed
  next
    case (RGet n)
    show ?thesis
    proof (cases "rb_getReadSegment b")
      case None
      then show ?thesis using Cons fit RGet by simp
    next
      case (Some p)
      obtain off b' where g: "rb_getReadSegment b = Some (off, b')" using Some by (cases p) simp
      note h = rb_getReadSegment_history [OF Cons.prems(1-3) g]
      have e: "rb_hLen b' = rb_hLen b" "rb_segmentLen b' = rb_segmentLen b"
        using g by (auto simp: rb_getReadSegment_def Let_def split: if_splits)
      show ?thesis
      proof (cases "before = past \<and> hist = slice (rb_buffer b') (off - rb_hLen b) (rb_hLen b)")
        case True
        then show ?thesis using h(2) Cons.prems(6) by simp
      next
        case False
        then have "(hist, before) \<in> set (rb_history_run ops b' (past @ slice (rb_buffer b') off (rb_segmentLen b)))"
          using Cons.prems(5) RGet g by auto
        then show ?thesis using Cons.IH [OF h(1,3)] Cons.prems(3,6) fit e by simp
      qed
    qed
  qed
qed

text \<open>C33. The history in front of a segment of the output ring is the last \<open>hLen\<close> samples of the
  stream that were read before it, wherever the ring wraps, once that many were read and as long as
  the writers leave \<open>hLen\<close> cells of the ring free. A fuller ring overwrites the history.\<close>

theorem RadioBuffer_history:
  assumes "0 < n" and "h \<le> seg" and "0 < seg" and "n * seg \<le> max_samples" and "ring_ops_fit ops"
    and "(hist, before) \<in> set (rb_history_run ops (rb_new junk n seg h True) [])" and "h \<le> length before"
  shows "hist = drop (length before - h) before"
proof -
  let ?b = "rb_new junk n seg h True"
  have b: "rb_hLen ?b = h" "rb_segmentLen ?b = seg" "rb_bufferLen ?b = n * seg" "rb_outDirection ?b"
    by (simp_all add: rb_new_def Let_def)
  have "h \<le> n * seg" using assms(1,2) by (metis One_nat_def Suc_leI le_trans mult_le_mono1 nat_mult_1)
  then have "rb_out_inv ?b" "rb_recent ?b []"
    using rb_new_inv(1) [OF assms(1,3,4), of junk h True] b by (simp_all add: rb_out_inv_def rb_recent_def)
  from rb_history_run_ok [OF this _ assms(5,6)] show ?thesis using assms(2,7) b by simp
qed

theorem RadioBuffer_history_witness:
  "([3, 4], [1, 2, 3, 4]) \<in> set (rb_history_run [RPut [1, 2, 3, 4 :: nat], RGet 2, RGet 2, RPut [5, 6, 7], RGet 2]
      (rb_new (\<lambda>i. 0) 3 2 2 True) []) \<and>
   drop (length [1 :: nat, 2, 3, 4] - 2) [1, 2, 3, 4 :: nat] = [3, 4]"
proof -
  let ?ops = "[RPut [1, 2, 3, 4 :: nat], RGet 2, RGet 2, RPut [5, 6, 7], RGet 2]"
  have run: "([3, 4], [1, 2, 3, 4]) \<in> set (rb_history_run ?ops (rb_new (\<lambda>i. 0) 3 2 2 True) [])"
    by (simp add: rb_new_def rb_getAvailSamples_def rb_write_def rb_getReadSegment_def u64_add_def
        blit_def slice_def Let_def)
  have fit: "ring_ops_fit ?ops" by (simp add: ring_ops_fit_def)
  have "[3, 4] = drop (length [1 :: nat, 2, 3, 4] - 2) [1, 2, 3, 4 :: nat]"
    by (rule RadioBuffer_history [OF _ _ _ _ fit run]) simp_all
  with run show ?thesis by (simp only: simp_thms)
qed

lemma rb_zero_eq_write:
  assumes "rb_out_inv b" and "len \<le> max_samples"
  shows "rb_zero len b = rb_write (replicate len 0) b"
proof -
  have i: "rb_inv b" "rb_outDirection b" using assms(1) by (simp_all add: rb_out_inv_def)
  have L: "rb_availSamples b \<le> rb_bufferLen b" "rb_bufferLen b \<le> max_samples"
    using i(1) unfolding rb_inv_def by blast+
  have "rb_writeIndex b < rb_bufferLen b" using i(1) unfolding rb_inv_def by (metis mod_less_divisor)
  then have u: "u64_add (rb_writeIndex b) len = rb_writeIndex b + len"
    using L assms(2) by (intro u64_add_id) linarith
  show ?thesis by (simp add: rb_zero_def rb_write_def u Let_def min_def)
qed

text \<open>Clearing and writing agree: \<open>zero\<close> stores zeros exactly as \<open>write\<close> stores samples, with the same
  test for space; both refuse and change nothing when the samples do not fit.\<close>

theorem RadioBuffer_zero_write:
  assumes "rb_out_inv b" and "len \<le> max_samples"
  shows "rb_zero len b = rb_write (replicate len 0) b \<and>
    (fst (rb_zero len b) \<longleftrightarrow> len \<le> rb_getFreeSamples b) \<and>
    (\<not> fst (rb_zero len b) \<longrightarrow> snd (rb_zero len b) = b)"
proof -
  have i: "rb_inv b" "rb_outDirection b" using assms(1) by (simp_all add: rb_out_inv_def)
  have L: "rb_availSamples b \<le> rb_bufferLen b" "rb_bufferLen b \<le> max_samples"
    using i(1) unfolding rb_inv_def by blast+
  note e = rb_zero_eq_write [OF assms]
  have "u64_sub (rb_bufferLen b) (rb_availSamples b) = rb_bufferLen b - rb_availSamples b"
    using L by (intro u64_sub_id) auto
  moreover have "length (replicate len (0::'a)) \<le> max_samples" using assms(2) by simp
  note rb_write_small [OF i(1) this]
  ultimately show ?thesis using i(2) L(1) unfolding e by (auto simp: rb_getFreeSamples_def)
qed

theorem RadioBuffer_zero_write_witness:
  "rb_zero 3 (rb_new (\<lambda>i. 7 :: int) 2 2 0 True) = rb_write [0, 0, 0] (rb_new (\<lambda>i. 7) 2 2 0 True) \<and>
   fst (rb_zero 3 (rb_new (\<lambda>i. 7 :: int) 2 2 0 True))"
proof -
  let ?b = "rb_new (\<lambda>i. 7 :: int) 2 2 0 True"
  have "rb_inv ?b" by (rule rb_new_inv) simp_all
  then have inv: "rb_out_inv ?b" by (simp add: rb_out_inv_def) (simp add: rb_new_def)
  have z: "replicate 3 0 = [0, 0, 0 :: int]" by (simp add: numeral_eq_Suc)
  have "3 \<le> rb_getFreeSamples ?b" by (simp add: rb_getFreeSamples_def rb_new_def u64_sub_def)
  then show ?thesis using RadioBuffer_zero_write [OF inv, of 3] unfolding z by auto
qed

end
