(* ===== verification/SmplBuf.thy ===== *)
theory SmplBuf
  imports RadioBuffer
begin

text \<open>
  The timestamped receive buffer \<open>smpl_buf\<close> of \<^verbatim>\<open>Transceiver52M/device/uhd/UHDDevice.cpp\<close>: a ring of
  samples addressed by sample time. A \<open>TIMESTAMP\<close> and a \<open>size_t\<close> are naturals below \<open>2 ^ 64\<close>, their
  differences wrap; an \<open>ssize_t\<close> result is an integer, negative for the error codes. The overloads that
  take a UHD time convert it to ticks and call these. Log output is left out.

  A copy out of the ring returns what the array holds: a copy that runs past the end of the array gives
  fewer samples than asked for, which is where the code reads beyond its memory.
\<close>

section \<open>Data\<close>

datatype sb_err = ERROR_TIMESTAMP | ERROR_READ | ERROR_WRITE | ERROR_OVERFLOW

definition sb_err_code :: "sb_err \<Rightarrow> int" where
  "sb_err_code e =
    (case e of ERROR_TIMESTAMP \<Rightarrow> -1 | ERROR_READ \<Rightarrow> -2 | ERROR_WRITE \<Rightarrow> -3 | ERROR_OVERFLOW \<Rightarrow> -4)"

record 'a smpl_buf =
  sb_data :: "'a list"
  sb_buf_len :: nat
  sb_time_start :: nat
  sb_time_end :: nat
  sb_data_start :: nat
  sb_data_end :: nat

definition sb_new :: "(nat \<Rightarrow> 'a) \<Rightarrow> nat \<Rightarrow> 'a smpl_buf" where
  "sb_new junk len =
    \<lparr>sb_data = map junk [0..<len], sb_buf_len = len, sb_time_start = 0, sb_time_end = 0,
     sb_data_start = 0, sb_data_end = 0\<rparr>"

section \<open>Operations\<close>

definition sb_avail_smpls :: "nat \<Rightarrow> 'a smpl_buf \<Rightarrow> int" where
  "sb_avail_smpls timestamp b =
    (if timestamp < sb_time_start b then sb_err_code ERROR_TIMESTAMP
     else if timestamp \<ge> sb_time_end b then 0
     else int (sb_time_end b - timestamp))"

text \<open>The position of a time in the ring.\<close>

definition sb_index :: "nat \<Rightarrow> 'a smpl_buf \<Rightarrow> nat" where
  "sb_index timestamp b =
    u64_add (sb_data_start b) (u64_sub timestamp (sb_time_start b)) mod sb_buf_len b"

definition sb_read :: "nat \<Rightarrow> nat \<Rightarrow> 'a smpl_buf \<Rightarrow> int \<times> 'a list \<times> 'a smpl_buf" where
  "sb_read len timestamp b =
    (if timestamp < sb_time_start b then (sb_err_code ERROR_TIMESTAMP, [], b)
     else if timestamp \<ge> sb_time_end b then (0, [], b)
     else if len \<ge> sb_buf_len b then (sb_err_code ERROR_READ, [], b)
     else
       let num_smpls = min (sb_time_end b - timestamp) len;
           read_start = sb_index timestamp b;
           buf = (if u64_add read_start num_smpls < sb_buf_len b then slice (sb_data b) read_start len
                  else let first_cp = sb_buf_len b - read_start
                       in slice (sb_data b) read_start first_cp @ slice (sb_data b) 0 (len - first_cp));
           b' = b\<lparr>sb_data_start := u64_add read_start len mod sb_buf_len b,
                  sb_time_start := u64_add timestamp len\<rparr>
       in (if sb_time_start b' > sb_time_end b' then sb_err_code ERROR_READ else int num_smpls, buf, b'))"

definition sb_write :: "'a list \<Rightarrow> nat \<Rightarrow> 'a smpl_buf \<Rightarrow> int \<times> 'a smpl_buf" where
  "sb_write buf timestamp b =
    (let len = length buf; n = sb_buf_len b
     in if len = 0 \<or> len \<ge> n then (sb_err_code ERROR_WRITE, b)
        else if u64_add timestamp len \<le> sb_time_end b then (sb_err_code ERROR_TIMESTAMP, b)
        else
          let write_start = sb_index timestamp b;
              dat = (if u64_add write_start len < n then blit (sb_data b) write_start buf
                     else let first_cp = n - write_start
                          in blit (blit (sb_data b) write_start (take first_cp buf)) 0 (drop first_cp buf));
              b' = b\<lparr>sb_data := dat,
                     sb_data_end := u64_add write_start len mod n,
                     sb_time_end := u64_add timestamp len,
                     sb_data_start := (if sb_data_start b = 0 then write_start else sb_data_start b)\<rparr>
          in (if u64_add write_start len > n \<and> sb_data_end b' > sb_data_start b' then sb_err_code ERROR_OVERFLOW
              else if sb_time_end b' \<le> sb_time_start b' then sb_err_code ERROR_WRITE
              else int len, b'))"

definition sb_str_code :: "int \<Rightarrow> string" where
  "sb_str_code code =
    (if code = sb_err_code ERROR_TIMESTAMP then ''Sample buffer: Requested timestamp is not valid''
     else if code = sb_err_code ERROR_READ then ''Sample buffer: Read error''
     else if code = sb_err_code ERROR_WRITE then ''Sample buffer: Write error''
     else if code = sb_err_code ERROR_OVERFLOW then ''Sample buffer: Overrun''
     else ''Sample buffer: Unknown error'')"

section \<open>The samples by their time\<close>

text \<open>\<open>sb_ok\<close> holds of a buffer of a sane size at times that do not wrap (a 64-bit sample counter does not
  for centuries), whose unread samples fit the ring; \<open>sb_at b t\<close> is the sample the buffer has for time \<open>t\<close>.\<close>

definition sb_ok :: "'a smpl_buf \<Rightarrow> bool" where
  "sb_ok b \<longleftrightarrow>
    0 < sb_buf_len b \<and> sb_buf_len b \<le> max_samples \<and> length (sb_data b) = sb_buf_len b \<and>
    sb_data_start b < sb_buf_len b \<and> sb_time_start b \<le> sb_time_end b \<and> sb_time_end b \<le> max_samples \<and>
    sb_time_end b - sb_time_start b \<le> sb_buf_len b"

definition sb_at :: "'a smpl_buf \<Rightarrow> nat \<Rightarrow> 'a" where
  "sb_at b t = sb_data b ! ((sb_data_start b + (t - sb_time_start b)) mod sb_buf_len b)"

lemma sb_index_ok:
  assumes "sb_ok b" and "sb_time_start b \<le> t" and "t \<le> max_samples"
  shows "sb_index t b = (sb_data_start b + (t - sb_time_start b)) mod sb_buf_len b"
    and "sb_index t b < sb_buf_len b"
proof -
  have b: "sb_data_start b < sb_buf_len b" "sb_buf_len b \<le> max_samples" using assms(1) by (simp_all add: sb_ok_def)
  have "u64_sub t (sb_time_start b) = t - sb_time_start b" using assms by (intro u64_sub_id) auto
  moreover have "u64_add (sb_data_start b) (t - sb_time_start b) = sb_data_start b + (t - sb_time_start b)"
    using b assms by (intro u64_add_id) linarith
  ultimately show e: "sb_index t b = (sb_data_start b + (t - sb_time_start b)) mod sb_buf_len b"
    by (simp add: sb_index_def)
  show "sb_index t b < sb_buf_len b" using b unfolding e by (intro mod_less_divisor) linarith
qed

lemma sb_write_ok:
  assumes ok: "sb_ok b" and len: "buf \<noteq> []" "length buf < sb_buf_len b"
    and ts: "sb_time_start b \<le> ts" "ts + length buf \<le> max_samples" "sb_time_end b < ts + length buf"
  shows "snd (sb_write buf ts b) = b\<lparr>
      sb_data := ring_store (sb_data b) 0 (sb_buf_len b) (sb_index ts b) buf,
      sb_data_end := (sb_index ts b + length buf) mod sb_buf_len b,
      sb_time_end := ts + length buf,
      sb_data_start := (if sb_data_start b = 0 then sb_index ts b else sb_data_start b)\<rparr>"
proof -
  have w: "sb_index ts b < sb_buf_len b" using sb_index_ok(2) [OF ok ts(1)] ts(2) by simp
  have "sb_buf_len b \<le> max_samples" using ok by (simp add: sb_ok_def)
  then have u: "u64_add (sb_index ts b) (length buf) = sb_index ts b + length buf"
    "u64_add ts (length buf) = ts + length buf"
    using w len(2) ts(2) by (intro u64_add_id; linarith)+
  have st: "(if sb_index ts b + length buf < sb_buf_len b then blit (sb_data b) (sb_index ts b) buf
      else blit (blit (sb_data b) (sb_index ts b) (take (sb_buf_len b - sb_index ts b) buf)) 0
             (drop (sb_buf_len b - sb_index ts b) buf)) =
    ring_store (sb_data b) 0 (sb_buf_len b) (sb_index ts b) buf"
    using w by (auto simp: ring_store_def)
  show ?thesis unfolding sb_write_def Let_def u st using len ts(3) by simp
qed

lemma sb_pos_shift:
  assumes "ts' = (ds + (ts - t0)) mod n" and "t0 \<le> ts" and "ts \<le> t"
  shows "(ds + (t - t0)) mod n = (ts' + (t - ts)) mod (n::nat)"
proof -
  have "(ts' + (t - ts)) mod n = (ds + (ts - t0) + (t - ts)) mod n" by (simp only: assms(1) mod_add_left_eq)
  also have "ds + (ts - t0) + (t - ts) = ds + (t - t0)" using assms(2,3) by simp
  finally show ?thesis by simp
qed

text \<open>A write into the receive buffer, when the position of the oldest unread sample is not 0 and the
  samples from there on fit the ring: afterwards the buffer has the written samples at their times,
  and every older unread sample that was not overwritten at its own time is still there.\<close>

theorem smpl_buf_write:
  assumes ok: "sb_ok b" and ds: "sb_data_start b \<noteq> 0" and len: "buf \<noteq> []" "length buf < sb_buf_len b"
    and ts: "sb_time_start b \<le> ts" "ts + length buf \<le> max_samples" "sb_time_end b < ts + length buf"
    and fit: "ts + length buf - sb_time_start b \<le> sb_buf_len b"
  shows "sb_ok (snd (sb_write buf ts b)) \<and>
    (\<forall>t. sb_time_start b \<le> t \<and> t < ts + length buf \<longrightarrow>
      sb_at (snd (sb_write buf ts b)) t = (if ts \<le> t then buf ! (t - ts) else sb_at b t))"
proof -
  let ?b = "snd (sb_write buf ts b)" and ?n = "sb_buf_len b" and ?w = "sb_index ts b"
  note b' = sb_write_ok [OF ok len ts]
  have L: "length (sb_data b) = 0 + ?n" "?w < ?n" "length buf \<le> ?n"
    using ok sb_index_ok(2) [OF ok ts(1)] ts(2) len by (simp_all add: sb_ok_def)
  have w: "?w = (sb_data_start b + (ts - sb_time_start b)) mod ?n"
    using sb_index_ok(1) [OF ok ts(1)] ts(2) by simp
  have n: "0 < ?n" using ok by (simp add: sb_ok_def)
  have "sb_ok ?b" using ok ts fit ds ring_store_length [OF L] by (simp add: b' sb_ok_def)
  moreover have "sb_at ?b t = (if ts \<le> t then buf ! (t - ts) else sb_at b t)"
    if t: "sb_time_start b \<le> t" "t < ts + length buf" for t
  proof (cases "ts \<le> t")
    case True
    then have "t - ts < length buf" using t by simp
    from ring_store_new [OF L this] show ?thesis
      using True ds sb_pos_shift [OF w ts(1) True] by (simp add: b' sb_at_def)
  next
    case False
    let ?i = "?n - (ts - t)"
    have i: "length buf \<le> ?i" "?i < ?n" using False t fit by linarith+
    have "ts - sb_time_start b + ?i = (t - sb_time_start b) + ?n" using False t fit ts by linarith
    then have e: "sb_data_start b + (ts - sb_time_start b) + ?i = sb_data_start b + (t - sb_time_start b) + ?n" by simp
    have "(?w + ?i) mod ?n = (sb_data_start b + (ts - sb_time_start b) + ?i) mod ?n"
      by (simp only: w mod_add_left_eq)
    also have "\<dots> = (sb_data_start b + (t - sb_time_start b)) mod ?n" unfolding e by (rule mod_add_self2)
    finally have "(?w + ?i) mod ?n = (sb_data_start b + (t - sb_time_start b)) mod ?n" .
    then show ?thesis using ring_store_old [OF L(1,2) i] False ds by (simp add: b' sb_at_def)
  qed
  ultimately show ?thesis by blast
qed

theorem smpl_buf_write_witness:
  "sb_at (snd (sb_write [5, 6] 13 \<lparr>sb_data = [1, 2, 3, 4 :: nat], sb_buf_len = 4, sb_time_start = 11,
     sb_time_end = 13, sb_data_start = 2, sb_data_end = 0\<rparr>)) 14 = 6"
proof -
  let ?b = "\<lparr>sb_data = [1, 2, 3, 4 :: nat], sb_buf_len = 4, sb_time_start = 11,
     sb_time_end = 13, sb_data_start = 2, sb_data_end = 0\<rparr>"
  have "sb_ok ?b" by (simp add: sb_ok_def)
  from smpl_buf_write [OF this, of "[5, 6]" 13] show ?thesis by (simp add: all_conj_distrib)
qed

text \<open>A read of no more samples than are available from its first one returns as many, the samples
  the buffer has for these times, and keeps the later ones at their times.\<close>

theorem smpl_buf_read:
  assumes ok: "sb_ok b" and ts: "sb_time_start b \<le> ts" "ts < sb_time_end b"
    and len: "ts + len \<le> sb_time_end b" "len < sb_buf_len b"
  shows "case sb_read len ts b of (rc, buf, b') \<Rightarrow>
    rc = int len \<and> buf = map (sb_at b) [ts..<ts + len] \<and> sb_ok b' \<and>
    (\<forall>t. ts + len \<le> t \<longrightarrow> sb_at b' t = sb_at b t)"
proof -
  let ?n = "sb_buf_len b" and ?r = "sb_index ts b"
  have n: "0 < ?n" "?n \<le> max_samples" "length (sb_data b) = ?n" "sb_time_end b \<le> max_samples"
    using ok by (simp_all add: sb_ok_def)
  have r: "?r = (sb_data_start b + (ts - sb_time_start b)) mod ?n" "?r < ?n"
    using sb_index_ok [OF ok ts(1)] ts(2) n by simp_all
  have u: "u64_add ?r len = ?r + len" "u64_add ts len = ts + len" using r(2) len n by (intro u64_add_id; linarith)+
  have num: "min (sb_time_end b - ts) len = len" using len ts by simp
  define buf where "buf = (if ?r + len < ?n then slice (sb_data b) ?r len
    else slice (sb_data b) ?r (?n - ?r) @ slice (sb_data b) 0 (len - (?n - ?r)))"
  define b' where "b' = b\<lparr>sb_data_start := (?r + len) mod ?n, sb_time_start := ts + len\<rparr>"
  have e: "sb_read len ts b = (int len, buf, b')"
    unfolding sb_read_def Let_def num u buf_def b'_def using ts len by auto
  have "buf = map (sb_at b) [ts..<ts + len]"
  proof (rule nth_equalityI)
    show len': "length buf = length (map (sb_at b) [ts..<ts + len])"
      using r(2) len n by (auto simp: buf_def blit)
    fix k assume "k < length buf"
    then have k: "k < len" using len' by simp
    have "buf ! k = sb_data b ! ((?r + k) mod ?n)"
    proof (cases "?r + k < ?n")
      case True
      then show ?thesis using k r(2) n len by (auto simp: buf_def blit nth_append)
    next
      case False
      then have "(?r + k) mod ?n = ?r + k - ?n" using r(2) k len by (intro mod_wrap_once) auto
      then show ?thesis using False k r(2) n len by (auto simp: buf_def blit nth_append add.commute)
    qed
    also have "(?r + k) mod ?n = (sb_data_start b + (ts + k - sb_time_start b)) mod ?n"
      using sb_pos_shift [OF r(1) ts(1), of "ts + k"] by simp
    finally show "buf ! k = map (sb_at b) [ts..<ts + len] ! k" using k by (simp add: sb_at_def)
  qed
  moreover have "sb_ok b'" using ok ts len n by (auto simp: b'_def sb_ok_def)
  moreover have "sb_at b' t = sb_at b t" if "ts + len \<le> t" for t
  proof -
    have "((?r + len) mod ?n + (t - (ts + len))) mod ?n = (?r + len + (t - (ts + len))) mod ?n"
      by (rule mod_add_left_eq)
    also have "?r + len + (t - (ts + len)) = ?r + (t - ts)" using that by simp
    also have "(?r + (t - ts)) mod ?n = (sb_data_start b + (t - sb_time_start b)) mod ?n"
      using sb_pos_shift [OF r(1) ts(1), of t] that by simp
    finally show ?thesis by (simp add: b'_def sb_at_def)
  qed
  ultimately show ?thesis by (simp add: e)
qed

theorem smpl_buf_read_witness:
  "case sb_read 3 12 \<lparr>sb_data = [1, 2, 3, 4 :: nat], sb_buf_len = 4, sb_time_start = 11,
     sb_time_end = 15, sb_data_start = 2, sb_data_end = 0\<rparr> of (rc, buf, b') \<Rightarrow> rc = 3 \<and> buf = [4, 1, 2]"
proof -
  let ?b = "\<lparr>sb_data = [1, 2, 3, 4 :: nat], sb_buf_len = 4, sb_time_start = 11,
     sb_time_end = 15, sb_data_start = 2, sb_data_end = 0\<rparr>"
  have "sb_ok ?b" by (simp add: sb_ok_def)
  from smpl_buf_read [OF this, of 12 3] show ?thesis by (auto simp: sb_at_def upt_rec)
qed

text \<open>What the two operations report. A read before the oldest unread sample and a write of times that
  are all old are time errors; a read past the newest sample returns 0; a block that does not fit the
  ring is a read or write error. In all of these the buffer is unchanged.\<close>

theorem smpl_buf_errors:
  "(ts < sb_time_start b \<longrightarrow> sb_read len ts b = (-1, [], b) \<and> sb_avail_smpls ts b = -1) \<and>
   (sb_time_start b \<le> ts \<and> sb_time_end b \<le> ts \<longrightarrow> sb_read len ts b = (0, [], b) \<and> sb_avail_smpls ts b = 0) \<and>
   (sb_time_start b \<le> ts \<and> ts < sb_time_end b \<and> sb_buf_len b \<le> len \<longrightarrow> sb_read len ts b = (-2, [], b)) \<and>
   (buf = [] \<or> sb_buf_len b \<le> length buf \<longrightarrow> sb_write buf ts b = (-3, b)) \<and>
   (buf \<noteq> [] \<and> length buf < sb_buf_len b \<and> u64_add ts (length buf) \<le> sb_time_end b \<longrightarrow>
     sb_write buf ts b = (-1, b))"
  by (auto simp: sb_read_def sb_write_def sb_avail_smpls_def sb_err_code_def)

theorem smpl_buf_errors_witness:
  "sb_read 2 3 (sb_new (\<lambda>i. 0 :: nat) 8) = (0, [], sb_new (\<lambda>i. 0) 8)"
  using smpl_buf_errors [of 3 "sb_new (\<lambda>i. 0 :: nat) 8" 2 "[]"] by (simp add: sb_new_def)

section \<open>The position 0\<close>

text \<open>
  \<open>write\<close> takes \<open>data_start = 0\<close> for a buffer that was never written, and moves \<open>data_start\<close> to where it
  writes. The first write of a fresh buffer, at time 6 into a ring of 8, stores at position 6; the
  read of the same time looks at position 4.
\<close>

lemma smpl_buf_first_write_lost:
  "let b = snd (sb_write [1, 2] 6 (sb_new (\<lambda>i. 0 :: nat) 8))
   in sb_data b = [0, 0, 0, 0, 0, 0, 1, 2] \<and> fst (sb_read 2 6 b) = 2 \<and> fst (snd (sb_read 2 6 b)) = [0, 0]"
  by (simp add: sb_new_def sb_write_def sb_read_def sb_index_def u64_add_def u64_sub_def blit_def slice_def
      Let_def sb_err_code_def upt_conv_Cons)

text \<open>The same happens to unread samples when a read has brought \<open>data_start\<close> back to 0.\<close>

lemma smpl_buf_wrap_shift:
  "let b = \<lparr>sb_data = [7, 8, 9, 10], sb_buf_len = 4, sb_time_start = 20, sb_time_end = 22,
            sb_data_start = 0, sb_data_end = 2\<rparr>;
       b' = snd (sb_write [11 :: nat] 22 b)
   in fst (snd (sb_read 2 20 b)) = [7, 8] \<and> fst (snd (sb_read 2 20 b')) = [11, 10]"
  by (simp add: sb_write_def sb_read_def sb_index_def u64_add_def u64_sub_def blit_def slice_def
      Let_def sb_err_code_def)

end
