(* ===== verification/RadioInterface.thy ===== *)
theory RadioInterface
  imports RadioVector RadioBuffer
begin

text \<open>
  The radio interface of \<^verbatim>\<open>Transceiver52M/radioInterface.h\<close> and \<^verbatim>\<open>radioInterface.cpp\<close>: it cuts the
  device's sample stream into bursts for the receive FIFOs and lays the transmit bursts into chunks
  for the device.

  The device is the abstract class \<open>RadioDevice\<close>: a record of functions on a device state of a type
  parameter, one per method the interface calls. A device sample (two shorts) has type \<open>'h\<close> and a
  complex sample type \<open>'a\<close>; the conversions between them (\<^verbatim>\<open>arch/common/convert\<close>, in C) work sample
  by sample and are parameters, as is what \<open>new\<close> leaves in an array. Gains are reals.
\<close>

section \<open>Device and state\<close>

record ('a, 'h, 'd) radio_env =
  dev_start :: "'d \<Rightarrow> bool \<times> 'd"
  dev_stop :: "'d \<Rightarrow> bool \<times> 'd"
  dev_requiresRadioAlign :: "'d \<Rightarrow> bool"
  dev_updateAlignment :: "nat \<Rightarrow> 'd \<Rightarrow> bool \<times> 'd"
  dev_initialWriteTimestamp :: "'d \<Rightarrow> nat"
  dev_initialReadTimestamp :: "'d \<Rightarrow> nat"
  dev_readSamples :: "nat \<Rightarrow> bool \<Rightarrow> nat \<Rightarrow> 'd \<Rightarrow> int \<times> 'h list list \<times> bool \<times> bool \<times> 'd"
  dev_writeSamples :: "'h list list \<Rightarrow> nat \<Rightarrow> bool \<Rightarrow> nat \<Rightarrow> 'd \<Rightarrow> int \<times> bool \<times> 'd"
  dev_setTxFreq :: "real \<Rightarrow> nat \<Rightarrow> 'd \<Rightarrow> bool \<times> 'd"
  dev_setRxFreq :: "real \<Rightarrow> nat \<Rightarrow> 'd \<Rightarrow> bool \<times> 'd"
  dev_getTxFreq :: "nat \<Rightarrow> 'd \<Rightarrow> real"
  dev_getRxFreq :: "nat \<Rightarrow> 'd \<Rightarrow> real"
  dev_setTxGain :: "real \<Rightarrow> nat \<Rightarrow> 'd \<Rightarrow> real \<times> 'd"
  dev_setRxGain :: "real \<Rightarrow> nat \<Rightarrow> 'd \<Rightarrow> real \<times> 'd"
  dev_getRxGain :: "nat \<Rightarrow> 'd \<Rightarrow> real"
  dev_maxTxGain :: "'d \<Rightarrow> real"
  dev_fullScaleInputValue :: "'d \<Rightarrow> real"
  dev_fullScaleOutputValue :: "'d \<Rightarrow> real"
  convert_short_float :: "'h \<Rightarrow> 'a"
  convert_float_short :: "real \<Rightarrow> 'a \<Rightarrow> 'h"
  new_vector :: "nat \<Rightarrow> nat \<Rightarrow> 'a list"
  new_floats :: "nat \<Rightarrow> 'a"

datatype interface_type = NORMAL | RESAMP_64M | RESAMP_100M | MULTI_ARFCN

text \<open>\<open>ri_align_threads\<close> counts the starts of the alignment thread.\<close>

record ('a, 'd) radio_interface =
  ri_receiveFIFO :: "'a list radio_vector pointer_fifo list"
  ri_radio :: 'd
  ri_SPSTx :: nat
  ri_SPSRx :: nat
  ri_chans :: nat
  ri_sendBuffer :: "'a radio_buffer list"
  ri_recvBuffer :: "'a radio_buffer list"
  ri_powerScaling :: "real list"
  ri_underrun :: bool
  ri_overrun :: bool
  ri_writeTimestamp :: nat
  ri_readTimestamp :: nat
  ri_clock :: gsm_time
  ri_receiveOffset :: int
  ri_on :: bool
  ri_align_threads :: nat

definition CHUNK :: nat where "CHUNK = 625"
definition NUMCHUNKS :: nat where "NUMCHUNKS = 4"
definition gSlotLen :: int where "gSlotLen = 148"

text \<open>The constructor does not initialise the two timestamps: \<open>ts0\<close> is what they hold until \<open>start\<close>.\<close>

definition ri_new :: "'d \<Rightarrow> nat \<Rightarrow> nat \<Rightarrow> nat \<Rightarrow> int \<Rightarrow> gsm_time \<Rightarrow> nat \<Rightarrow> ('a, 'd) radio_interface" where
  "ri_new wRadio tx_sps rx_sps chans wReceiveOffset wStartTime ts0 =
    \<lparr>ri_receiveFIFO = [], ri_radio = wRadio, ri_SPSTx = tx_sps, ri_SPSRx = rx_sps, ri_chans = chans,
     ri_sendBuffer = [], ri_recvBuffer = [], ri_powerScaling = [], ri_underrun = False, ri_overrun = False,
     ri_writeTimestamp = ts0, ri_readTimestamp = ts0, ri_clock = fst (rc_set wStartTime (Time 0 0)),
     ri_receiveOffset = wReceiveOffset, ri_on = False, ri_align_threads = 0\<rparr>"

definition ri_close :: "('a, 'd) radio_interface \<Rightarrow> ('a, 'd) radio_interface" where
  "ri_close r = r\<lparr>ri_sendBuffer := [], ri_recvBuffer := []\<rparr>"

text \<open>\<open>resize\<close> of a vector keeps the elements it has room for and fills up with new ones.\<close>

definition vec_resize :: "nat \<Rightarrow> 'x \<Rightarrow> 'x list \<Rightarrow> 'x list" where
  "vec_resize n x xs = take n xs @ replicate (n - length xs) x"

definition ri_init :: "('a, 'h, 'd) radio_env \<Rightarrow> interface_type \<Rightarrow> ('a, 'd) radio_interface \<Rightarrow>
    bool \<times> ('a, 'd) radio_interface" where
  "ri_init E type r =
    (if type \<noteq> NORMAL \<or> ri_chans r = 0 then (False, r)
     else
       let r1 = ri_close r; n = ri_chans r1
       in (True, r1\<lparr>
            ri_sendBuffer := replicate n (rb_new (new_floats E) NUMCHUNKS (CHUNK * ri_SPSTx r1) 0 True),
            ri_recvBuffer := replicate n (rb_new (new_floats E) NUMCHUNKS (CHUNK * ri_SPSRx r1) 0 False),
            ri_receiveFIFO := vec_resize n pf_new (ri_receiveFIFO r1),
            ri_powerScaling := replicate n 1\<rparr>))"

section \<open>Gains, tuning, start and stop\<close>

definition ri_setPowerAttenuation :: "('a, 'h, 'd) radio_env \<Rightarrow> int \<Rightarrow> nat \<Rightarrow> ('a, 'd) radio_interface \<Rightarrow>
    int \<times> ('a, 'd) radio_interface" where
  "ri_setPowerAttenuation E atten0 chan r =
    (if chan \<ge> ri_chans r then (-1, r)
     else
       let atten = (if atten0 < 0 then 0 else atten0);
           maxGain = dev_maxTxGain E (ri_radio r);
           (rfGain, d) = dev_setTxGain E (maxGain - real_of_int atten) chan (ri_radio r);
           digAtten = real_of_int atten - dev_maxTxGain E d + rfGain;
           scaling = (if digAtten < 1 then 1 else 1 / sqrt (10 powr (digAtten / 10)))
       in (atten, r\<lparr>ri_radio := d, ri_powerScaling := (ri_powerScaling r)[chan := scaling]\<rparr>))"

definition ri_tuneTx :: "('a, 'h, 'd) radio_env \<Rightarrow> real \<Rightarrow> nat \<Rightarrow> ('a, 'd) radio_interface \<Rightarrow>
    bool \<times> ('a, 'd) radio_interface" where
  "ri_tuneTx E freq chan r = (let (ok, d) = dev_setTxFreq E freq chan (ri_radio r) in (ok, r\<lparr>ri_radio := d\<rparr>))"

definition ri_tuneRx :: "('a, 'h, 'd) radio_env \<Rightarrow> real \<Rightarrow> nat \<Rightarrow> ('a, 'd) radio_interface \<Rightarrow>
    bool \<times> ('a, 'd) radio_interface" where
  "ri_tuneRx E freq chan r = (let (ok, d) = dev_setRxFreq E freq chan (ri_radio r) in (ok, r\<lparr>ri_radio := d\<rparr>))"

definition ri_setRxGain :: "('a, 'h, 'd) radio_env \<Rightarrow> real \<Rightarrow> nat \<Rightarrow> ('a, 'd) radio_interface \<Rightarrow>
    real \<times> ('a, 'd) radio_interface" where
  "ri_setRxGain E dB chan r = (let (g, d) = dev_setRxGain E dB chan (ri_radio r) in (g, r\<lparr>ri_radio := d\<rparr>))"

definition ri_getRxGain :: "('a, 'h, 'd) radio_env \<Rightarrow> nat \<Rightarrow> ('a, 'd) radio_interface \<Rightarrow> real" where
  "ri_getRxGain E chan r = dev_getRxGain E chan (ri_radio r)"

definition ri_fullScaleInputValue :: "('a, 'h, 'd) radio_env \<Rightarrow> ('a, 'd) radio_interface \<Rightarrow> real" where
  "ri_fullScaleInputValue E r = dev_fullScaleInputValue E (ri_radio r)"

definition ri_fullScaleOutputValue :: "('a, 'h, 'd) radio_env \<Rightarrow> ('a, 'd) radio_interface \<Rightarrow> real" where
  "ri_fullScaleOutputValue E r = dev_fullScaleOutputValue E (ri_radio r)"

definition ri_alignRadio :: "('a, 'h, 'd) radio_env \<Rightarrow> ('a, 'd) radio_interface \<Rightarrow> ('a, 'd) radio_interface" where
  "ri_alignRadio E r =
    r\<lparr>ri_radio := snd (dev_updateAlignment E (u64_add (ri_writeTimestamp r) 10000) (ri_radio r))\<rparr>"

text \<open>\<open>Thread::start\<close> asserts that the thread was not started before: \<open>None\<close>.\<close>

definition ri_start :: "('a, 'h, 'd) radio_env \<Rightarrow> ('a, 'd) radio_interface \<Rightarrow>
    (bool \<times> ('a, 'd) radio_interface) option" where
  "ri_start E r =
    (if ri_on r then Some (True, r)
     else if dev_requiresRadioAlign E (ri_radio r) \<and> ri_align_threads r \<noteq> 0 then None
     else
       let r1 = (if dev_requiresRadioAlign E (ri_radio r) then r\<lparr>ri_align_threads := ri_align_threads r + 1\<rparr> else r);
           (ok, d) = dev_start E (ri_radio r1)
       in if \<not> ok then Some (False, r1\<lparr>ri_radio := d\<rparr>)
          else
            let wts = dev_initialWriteTimestamp E d;
                rts = dev_initialReadTimestamp E d;
                d1 = snd (dev_updateAlignment E (u64_sub wts 10000) d);
                d2 = snd (dev_updateAlignment E (u64_sub wts 10000) d1)
            in Some (True, r1\<lparr>
                 ri_radio := d2,
                 ri_sendBuffer := map rb_reset (take (ri_chans r1) (ri_sendBuffer r1)) @ drop (ri_chans r1) (ri_sendBuffer r1),
                 ri_recvBuffer := map rb_reset (take (ri_chans r1) (ri_recvBuffer r1)) @ drop (ri_chans r1) (ri_recvBuffer r1),
                 ri_writeTimestamp := wts, ri_readTimestamp := rts, ri_on := True\<rparr>))"

definition ri_stop :: "('a, 'h, 'd) radio_env \<Rightarrow> ('a, 'd) radio_interface \<Rightarrow> bool \<times> ('a, 'd) radio_interface" where
  "ri_stop E r =
    (if \<not> ri_on r then (False, r)
     else let (ok, d) = dev_stop E (ri_radio r)
          in if \<not> ok then (False, r\<lparr>ri_radio := d\<rparr>) else (True, r\<lparr>ri_radio := d, ri_on := False\<rparr>))"

definition ri_isUnderrun :: "('a, 'd) radio_interface \<Rightarrow> bool \<times> ('a, 'd) radio_interface" where
  "ri_isUnderrun r = (ri_underrun r, r\<lparr>ri_underrun := False\<rparr>)"

definition ri_fifo :: "nat \<Rightarrow> ('a, 'd) radio_interface \<Rightarrow> 'a list radio_vector pointer_fifo option" where
  "ri_fifo chan r = (if chan \<ge> length (ri_receiveFIFO r) then None else Some (ri_receiveFIFO r ! chan))"

section \<open>Bursts to and from the buffers\<close>

definition ri_radioifyVector :: "'a::zero list \<Rightarrow> nat \<Rightarrow> bool \<Rightarrow> ('a, 'd) radio_interface \<Rightarrow>
    nat \<times> ('a, 'd) radio_interface" where
  "ri_radioifyVector wVector chan zero r =
    (let b = ri_sendBuffer r ! chan;
         b' = (if zero then snd (rb_zero (length wVector) b) else snd (rb_write wVector b))
     in (length wVector, r\<lparr>ri_sendBuffer := (ri_sendBuffer r)[chan := b']\<rparr>))"

text \<open>The vector is overwritten by the samples read; it keeps its contents when there are too few.\<close>

definition ri_unRadioifyVector :: "'a list \<Rightarrow> nat \<Rightarrow> ('a, 'd) radio_interface \<Rightarrow>
    int \<times> 'a list \<times> ('a, 'd) radio_interface" where
  "ri_unRadioifyVector newVector chan r =
    (let b = ri_recvBuffer r ! chan
     in if length newVector > rb_getAvailSamples b then (-1, newVector, r)
        else case rb_read (length newVector) b of
            None \<Rightarrow> (int (length newVector), newVector, r)
          | Some (rd, b') \<Rightarrow> (int (length newVector), rd, r\<lparr>ri_recvBuffer := (ri_recvBuffer r)[chan := b']\<rparr>))"

section \<open>Chunks to and from the device\<close>

text \<open>A null segment of a channel is dereferenced by the conversion: \<open>None\<close>.\<close>

fun ri_fill_segments :: "'a list list \<Rightarrow> 'a radio_buffer list \<Rightarrow> 'a radio_buffer list option" where
  "ri_fill_segments (xs # xss) (b # bs) =
    (case rb_getWriteSegment b of
       None \<Rightarrow> None
     | Some (segment, b') \<Rightarrow>
         map_option ((#) (b'\<lparr>rb_buffer := blit (rb_buffer b') segment xs\<rparr>)) (ri_fill_segments xss bs))"
| "ri_fill_segments _ bs = Some bs"

definition ri_pullBuffer :: "('a, 'h, 'd) radio_env \<Rightarrow> ('a, 'd) radio_interface \<Rightarrow>
    (int \<times> ('a, 'd) radio_interface) option" where
  "ri_pullBuffer E r =
    (let segmentLen = rb_getSegmentLen (ri_recvBuffer r ! 0)
     in if rb_getFreeSegments (ri_recvBuffer r ! 0) \<le> 0 then Some (-1, r)
        else
          let (numRecv, bufs, overrun, local_underrun, d) =
                dev_readSamples E segmentLen (ri_overrun r) (ri_readTimestamp r) (ri_radio r);
              r1 = r\<lparr>ri_radio := d, ri_overrun := overrun\<rparr>
          in if numRecv \<noteq> int segmentLen then Some (-1, r1)
             else
               map_option (\<lambda>bs. (0, r1\<lparr>
                   ri_recvBuffer := bs @ drop (ri_chans r1) (ri_recvBuffer r1),
                   ri_underrun := ri_underrun r1 \<or> local_underrun,
                   ri_readTimestamp := u64_add (ri_readTimestamp r1) segmentLen\<rparr>))
                 (ri_fill_segments (map (map (convert_short_float E)) (take (ri_chans r1) bufs))
                    (take (ri_chans r1) (ri_recvBuffer r1))))"

fun ri_take_segments :: "nat \<Rightarrow> 'a radio_buffer list \<Rightarrow> ('a list list \<times> 'a radio_buffer list) option" where
  "ri_take_segments len [] = Some ([], [])"
| "ri_take_segments len (b # bs) =
    (case rb_getReadSegment b of
       None \<Rightarrow> None
     | Some (segment, b') \<Rightarrow>
         map_option (\<lambda>(xss, bs'). (slice (rb_buffer b') segment len # xss, b' # bs')) (ri_take_segments len bs))"

definition ri_pushBuffer :: "('a, 'h, 'd) radio_env \<Rightarrow> ('a, 'd) radio_interface \<Rightarrow>
    (bool \<times> ('a, 'd) radio_interface) option" where
  "ri_pushBuffer E r =
    (let segmentLen = rb_getSegmentLen (ri_sendBuffer r ! 0); n = ri_chans r
     in if rb_getAvailSegments (ri_sendBuffer r ! 0) < 1 then Some (False, r)
        else
          map_option (\<lambda>(xss, bs).
            (let bufs = map2 (\<lambda>scale xs. map (convert_float_short E scale) xs) (take n (ri_powerScaling r)) xss;
                 (numSent, underrun, d) =
                   dev_writeSamples E bufs segmentLen (ri_underrun r) (ri_writeTimestamp r) (ri_radio r)
             in (True, r\<lparr>ri_radio := d, ri_sendBuffer := bs @ drop n (ri_sendBuffer r), ri_underrun := underrun,
                         ri_writeTimestamp := (ri_writeTimestamp r + nat (numSent mod int two64)) mod two64\<rparr>)))
            (ri_take_segments segmentLen (take n (ri_sendBuffer r))))"

section \<open>Driving the radio\<close>

text \<open>
  The two drivers call the virtual \<open>pushBuffer\<close> and \<open>pullBuffer\<close> of the object: \<open>push\<close> and \<open>pull\<close>. The
  loops take fuel: the transmit loop one more than the samples in the first channel's buffer, of which
  each push takes some, the receive loop the number of samples to cut. A failed assertion, a null
  pointer and lack of fuel give \<open>None\<close>.
\<close>

fun ri_push_loop :: "nat \<Rightarrow> (('a, 'd) radio_interface \<Rightarrow> (bool \<times> ('a, 'd) radio_interface) option) \<Rightarrow>
    ('a, 'd) radio_interface \<Rightarrow> ('a, 'd) radio_interface option" where
  "ri_push_loop 0 push r = None"
| "ri_push_loop (Suc n) push r =
    (case push r of
       None \<Rightarrow> None
     | Some (again, r') \<Rightarrow> if again then ri_push_loop n push r' else Some r')"

definition ri_radioify_all :: "('a::zero list \<times> bool) list \<Rightarrow> ('a, 'd) radio_interface \<Rightarrow> ('a, 'd) radio_interface" where
  "ri_radioify_all bursts r =
    fold (\<lambda>i r. snd (ri_radioifyVector (fst (bursts ! i)) i (snd (bursts ! i)) r)) [0..<ri_chans r] r"

definition ri_driveTransmitRadio ::
    "(('a, 'd) radio_interface \<Rightarrow> (bool \<times> ('a, 'd) radio_interface) option) \<Rightarrow>
      ('a::zero list \<times> bool) list \<Rightarrow> ('a, 'd) radio_interface \<Rightarrow> ('a, 'd) radio_interface option" where
  "ri_driveTransmitRadio push bursts r =
    (if \<not> ri_on r then Some r
     else let r1 = ri_radioify_all bursts r
          in ri_push_loop (Suc (rb_getAvailSamples (ri_sendBuffer r1 ! 0))) push r1)"

text \<open>The receive burst of one channel: a full FIFO of 32 bursts drops it.\<close>

definition ri_receive_burst :: "('a, 'h, 'd) radio_env \<Rightarrow> gsm_time \<Rightarrow> nat \<Rightarrow> nat \<Rightarrow> nat \<Rightarrow>
    ('a, 'd) radio_interface \<Rightarrow> ('a, 'd) radio_interface" where
  "ri_receive_burst E rcvClock burstSize head i r =
    (let burst = rv_alloc (new_vector E) rcvClock burstSize head 1;
         (_, v, r1) = ri_unRadioifyVector (the (rv_getVector 0 burst)) i r;
         burst' = snd (rv_setVector (Some v) 0 burst);
         q = ri_receiveFIFO r1 ! i
     in if itq_size q < 32 then r1\<lparr>ri_receiveFIFO := (ri_receiveFIFO r1)[i := itq_write (Some burst') q]\<rparr>
        else r1)"

definition ri_burst_size :: "int \<Rightarrow> int" where
  "ri_burst_size tN = gSlotLen + 8 + (if tN mod 4 = 0 then 1 else 0)"

fun ri_cut_bursts :: "nat \<Rightarrow> ('a, 'h, 'd) radio_env \<Rightarrow> nat \<Rightarrow> gsm_time \<Rightarrow> int \<Rightarrow> int \<Rightarrow>
    ('a, 'd) radio_interface \<Rightarrow> ('a, 'd) radio_interface option" where
  "ri_cut_bursts fuel E head rcvClock recvSz burstSize r =
    (if recvSz > burstSize then
       (case fuel of
          0 \<Rightarrow> None
        | Suc n \<Rightarrow>
            let r1 = fold (\<lambda>i r. ri_receive_burst E rcvClock (nat burstSize) head i r) [0..<ri_chans r] r
            in case (rc_incTN (ri_clock r1), incTN 1 rcvClock) of
                 (Some (clock, _), Some rcvClock') \<Rightarrow>
                   let tN = time_TN rcvClock'
                   in ri_cut_bursts n E head rcvClock' (recvSz - burstSize)
                        (if ri_SPSRx r1 \<noteq> 4 then ri_burst_size tN * int (ri_SPSRx r1) else burstSize)
                        (r1\<lparr>ri_clock := clock\<rparr>)
               | _ \<Rightarrow> None)
     else Some r)"

declare ri_cut_bursts.simps [simp del]

definition ri_driveReceiveRadio :: "('a, 'h, 'd) radio_env \<Rightarrow>
    (('a, 'd) radio_interface \<Rightarrow> (int \<times> ('a, 'd) radio_interface) option) \<Rightarrow> nat \<Rightarrow>
      ('a, 'd) radio_interface \<Rightarrow> (int \<times> ('a, 'd) radio_interface) option" where
  "ri_driveReceiveRadio E pull head r =
    (if \<not> ri_on r then Some (0, r)
     else
       case pull r of
         None \<Rightarrow> None
       | Some (rc, r1) \<Rightarrow>
           if rc < 0 then Some (-1, r1)
           else
             case decTN (u32 (ri_receiveOffset r1)) (rc_get (ri_clock r1)) of
               None \<Rightarrow> None
             | Some rcvClock \<Rightarrow>
                 let tN = time_TN rcvClock;
                     recvSz = int (rb_getAvailSamples (ri_recvBuffer r1 ! 0));
                     burstSize = (if ri_SPSRx r1 = 4 then 625 else ri_burst_size tN)
                 in map_option (\<lambda>r2. (1, r2)) (ri_cut_bursts (nat recvSz) E head rcvClock recvSz burstSize r1))"

section \<open>Reception as a cut of the sample stream\<close>

text \<open>What the receive loop is meant to do with the samples of one channel: cut them into bursts of
  consecutive slots, of 625 samples at 4 samples per symbol and otherwise of 157, 156, 156, 156 symbols,
  while more than a burst is left.\<close>

definition rx_size :: "nat \<Rightarrow> gsm_time \<Rightarrow> nat" where
  "rx_size sps t = (if sps = 4 then 625 else nat (ri_burst_size (time_TN t)) * sps)"

definition next_slot :: "gsm_time \<Rightarrow> gsm_time" where
  "next_slot t = the (incTN 1 t)"

function rx_cut :: "nat \<Rightarrow> gsm_time \<Rightarrow> 'a list \<Rightarrow> (gsm_time \<times> 'a list) list" where
  "rx_cut sps t xs =
    (if 0 < rx_size sps t \<and> rx_size sps t < length xs
     then (t, take (rx_size sps t) xs) # rx_cut sps (next_slot t) (drop (rx_size sps t) xs) else [])"
  by pat_completeness auto
termination
  by (relation "measure (\<lambda>(sps, t, xs). length xs)") auto

declare rx_cut.simps [simp del]

definition rx_rest :: "nat \<Rightarrow> gsm_time \<Rightarrow> 'a list \<Rightarrow> 'a list" where
  "rx_rest sps t xs = drop (length (concat (map snd (rx_cut sps t xs)))) xs"

lemma rx_size_pos: "sps > 0 \<Longrightarrow> 156 \<le> rx_size sps t"
proof -
  assume "sps > 0"
  then have "156 * 1 \<le> nat (ri_burst_size (time_TN t)) * sps"
    by (intro mult_le_mono) (auto simp: ri_burst_size_def gSlotLen_def)
  then show ?thesis by (simp add: rx_size_def)
qed

lemma rx_cut_step:
  assumes "sps > 0"
  shows "rx_cut sps t xs = (if rx_size sps t < length xs
    then (t, take (rx_size sps t) xs) # rx_cut sps (next_slot t) (drop (rx_size sps t) xs) else [])"
  using rx_size_pos [OF assms, of t] by (subst rx_cut.simps) auto

lemma rx_rest_step:
  assumes "sps > 0"
  shows "rx_rest sps t xs = (if rx_size sps t < length xs
    then rx_rest sps (next_slot t) (drop (rx_size sps t) xs) else xs)"
  unfolding rx_rest_def by (subst rx_cut_step [OF assms]) (simp add: add.commute)

lemma rx_cut_concat: "sps > 0 \<Longrightarrow> concat (map snd (rx_cut sps t xs)) @ rx_rest sps t xs = xs"
proof (induction sps t xs rule: rx_cut.induct)
  case (1 sps t xs)
  show ?case
  proof (cases "rx_size sps t < length xs")
    case True
    then have IH: "concat (map snd (rx_cut sps (next_slot t) (drop (rx_size sps t) xs))) @
        rx_rest sps (next_slot t) (drop (rx_size sps t) xs) = drop (rx_size sps t) xs"
      using 1 rx_size_pos [of sps t] by simp
    show ?thesis using True IH
      by (subst rx_cut_step [OF 1(2)], subst rx_rest_step [OF 1(2)]) (simp add: append_take_drop_id)
  next
    case False
    then show ?thesis by (subst rx_cut_step [OF 1(2)], subst rx_rest_step [OF 1(2)]) simp
  qed
qed

lemma next_slot_valid:
  assumes "valid_time t"
  shows "incTN 1 t = Some (next_slot t) \<and> valid_time (next_slot t)"
  using incTN_1_valid [OF assms] by (auto simp: next_slot_def)

lemma rb_read_Some:
  assumes "rb_in_inv b" and "n \<le> rb_availSamples b"
  shows "\<exists>b'. rb_read n b = Some (take n (rb_stored b), b') \<and> rb_in_inv b' \<and> rb_stored b' = drop n (rb_stored b)"
proof -
  have "\<not> rb_outDirection b" using assms(1) by (simp add: rb_in_inv_def)
  then obtain ys b' where r: "rb_read n b = Some (ys, b')" using assms(2) by (simp add: rb_read_def Let_def)
  then show ?thesis using rb_read_ok [OF assms(1) r] by auto
qed

lemma rb_stored_length: "length (rb_stored b) = rb_availSamples b"
  by (simp add: rb_stored_def)

text \<open>One channel of one round of the loop.\<close>

definition rx_chan :: "'a list \<Rightarrow> gsm_time \<Rightarrow> 'a list radio_vector pointer_fifo \<Rightarrow> 'a radio_buffer \<Rightarrow>
    'a list radio_vector pointer_fifo \<times> 'a radio_buffer" where
  "rx_chan v0 t q b =
    (let (v, b') = (if length v0 > rb_getAvailSamples b then (v0, b)
                    else case rb_read (length v0) b of None \<Rightarrow> (v0, b) | Some (rd, b') \<Rightarrow> (rd, b'))
     in (if itq_size q < 32 then itq_write (Some (rv_single t (Some v))) q else q, b'))"

lemma ri_receive_burst_chan:
  assumes "rx_chan (new_vector E n head) t (ri_receiveFIFO r ! i) (ri_recvBuffer r ! i) = (q, b)"
  shows "ri_receive_burst E t n head i r =
    r\<lparr>ri_receiveFIFO := (ri_receiveFIFO r)[i := q], ri_recvBuffer := (ri_recvBuffer r)[i := b]\<rparr>"
  using assms
  by (auto simp: ri_receive_burst_def rx_chan_def ri_unRadioifyVector_def rv_alloc_def rv_getVector_def
      rv_setVector_def rv_single_def Let_def split: option.splits prod.splits if_splits)

lemma ri_receive_round:
  assumes "k \<le> length (ri_receiveFIFO r)" and "k \<le> length (ri_recvBuffer r)"
  shows "fold (\<lambda>i r. ri_receive_burst E t n head i r) [0..<k] r = r\<lparr>
    ri_receiveFIFO := map (\<lambda>i. fst (rx_chan (new_vector E n head) t (ri_receiveFIFO r ! i) (ri_recvBuffer r ! i))) [0..<k]
      @ drop k (ri_receiveFIFO r),
    ri_recvBuffer := map (\<lambda>i. snd (rx_chan (new_vector E n head) t (ri_receiveFIFO r ! i) (ri_recvBuffer r ! i))) [0..<k]
      @ drop k (ri_recvBuffer r)\<rparr>"
  using assms
proof (induction k)
  case 0
  then show ?case by simp
next
  case (Suc k)
  let ?c = "\<lambda>i. rx_chan (new_vector E n head) t (ri_receiveFIFO r ! i) (ri_recvBuffer r ! i)"
  let ?r = "r\<lparr>ri_receiveFIFO := map (\<lambda>i. fst (?c i)) [0..<k] @ drop k (ri_receiveFIFO r),
      ri_recvBuffer := map (\<lambda>i. snd (?c i)) [0..<k] @ drop k (ri_recvBuffer r)\<rparr>"
  have IH: "fold (\<lambda>i r. ri_receive_burst E t n head i r) [0..<k] r = ?r" using Suc by simp
  have d: "drop k (ri_receiveFIFO r) = ri_receiveFIFO r ! k # drop (Suc k) (ri_receiveFIFO r)"
    "drop k (ri_recvBuffer r) = ri_recvBuffer r ! k # drop (Suc k) (ri_recvBuffer r)"
    using Suc.prems by (simp_all add: Cons_nth_drop_Suc)
  have "ri_receive_burst E t n head k ?r = ?r\<lparr>
      ri_receiveFIFO := (ri_receiveFIFO ?r)[k := fst (?c k)], ri_recvBuffer := (ri_recvBuffer ?r)[k := snd (?c k)]\<rparr>"
    by (rule ri_receive_burst_chan) (simp add: d nth_append)
  then show ?case by (simp add: IH d list_update_append)
qed

lemma rx_chan_ok:
  assumes q: "pf_ok q" and b: "rb_in_inv b" and n: "length v0 \<le> rb_availSamples b"
  shows "pf_ok (fst (rx_chan v0 t q b)) \<and> rb_in_inv (snd (rx_chan v0 t q b)) \<and>
    pf_list (fst (rx_chan v0 t q b)) =
      pf_list q @ take (32 - length (pf_list q)) [rv_single t (Some (take (length v0) (rb_stored b)))] \<and>
    rb_stored (snd (rx_chan v0 t q b)) = drop (length v0) (rb_stored b)"
proof -
  obtain b' where rd: "rb_read (length v0) b = Some (take (length v0) (rb_stored b), b')"
    and b': "rb_in_inv b'" "rb_stored b' = drop (length v0) (rb_stored b)"
    using rb_read_Some [OF b n] by blast
  have c: "rx_chan v0 t q b =
      (if itq_size q < 32 then itq_write (Some (rv_single t (Some (take (length v0) (rb_stored b))))) q else q, b')"
    using n rd by (simp add: rx_chan_def rb_getAvailSamples_def)
  show ?thesis using b' q pf_ok_put [OF q] pfq.size_contents [OF q]
    by (cases "length (pf_list q) < 32") (simp_all add: c itq_size_def itq_write_def)
qed

text \<open>The channels' buffers are filled alike.\<close>

definition same_avail :: "nat \<Rightarrow> 'a radio_buffer list \<Rightarrow> bool" where
  "same_avail n bs \<longleftrightarrow> (\<exists>a. \<forall>i < n. rb_availSamples (bs ! i) = a)"

lemma same_availD: "same_avail n bs \<Longrightarrow> i < n \<Longrightarrow> rb_availSamples (bs ! i) = rb_availSamples (bs ! 0)"
proof -
  assume s: "same_avail n bs" and i: "i < n"
  obtain a where a: "\<forall>i < n. rb_availSamples (bs ! i) = a" using s unfolding same_avail_def by blast
  have "0 < n" using i by simp
  then show "rb_availSamples (bs ! i) = rb_availSamples (bs ! 0)" using a i by metis
qed

lemma same_availI: "(\<And>i. i < n \<Longrightarrow> rb_availSamples (bs ! i) = a) \<Longrightarrow> same_avail n bs"
  unfolding same_avail_def by blast

definition rx_inv :: "('a, 'd) radio_interface \<Rightarrow> bool" where
  "rx_inv r \<longleftrightarrow> 0 < ri_chans r \<and> length (ri_receiveFIFO r) = ri_chans r \<and>
    length (ri_recvBuffer r) = ri_chans r \<and> valid_time (ri_clock r) \<and> (ri_SPSRx r = 1 \<or> ri_SPSRx r = 4) \<and>
    same_avail (ri_chans r) (ri_recvBuffer r) \<and>
    (\<forall>i < ri_chans r. pf_ok (ri_receiveFIFO r ! i) \<and> rb_in_inv (ri_recvBuffer r ! i))"

lemma rx_inv_avail:
  "rx_inv r \<Longrightarrow> i < ri_chans r \<Longrightarrow> rb_availSamples (ri_recvBuffer r ! i) = rb_availSamples (ri_recvBuffer r ! 0)"
  by (rule same_availD) (simp_all add: rx_inv_def)

text \<open>The bursts that the FIFO of a channel gets, and the samples it keeps.\<close>

definition rx_bursts :: "nat \<Rightarrow> gsm_time \<Rightarrow> 'a list \<Rightarrow> 'a list radio_vector list" where
  "rx_bursts sps t xs = map (\<lambda>(t, v). rv_single t (Some v)) (rx_cut sps t xs)"

definition rx_result :: "gsm_time \<Rightarrow> ('a, 'd) radio_interface \<Rightarrow> ('a, 'd) radio_interface \<Rightarrow> bool" where
  "rx_result t r r' \<longleftrightarrow> rx_inv r' \<and> ri_chans r' = ri_chans r \<and> ri_SPSRx r' = ri_SPSRx r \<and>
    (\<forall>i < ri_chans r.
      rb_stored (ri_recvBuffer r' ! i) = rx_rest (ri_SPSRx r) t (rb_stored (ri_recvBuffer r ! i)) \<and>
      pf_list (ri_receiveFIFO r' ! i) = pf_list (ri_receiveFIFO r ! i) @
        take (32 - length (pf_list (ri_receiveFIFO r ! i)))
          (rx_bursts (ri_SPSRx r) t (rb_stored (ri_recvBuffer r ! i)))) \<and>
    ri_clock r' = (next_slot ^^ length (rx_cut (ri_SPSRx r) t (rb_stored (ri_recvBuffer r ! 0)))) (ri_clock r)"

lemma rx_result_refl:
  assumes inv: "rx_inv r" and le: "rb_availSamples (ri_recvBuffer r ! 0) \<le> rx_size (ri_SPSRx r) t"
  shows "rx_result t r r"
proof -
  have sps: "ri_SPSRx r > 0" using inv by (auto simp: rx_inv_def)
  have l: "length (rb_stored (ri_recvBuffer r ! i)) \<le> rx_size (ri_SPSRx r) t" if "i < ri_chans r" for i
    using le rx_inv_avail [OF inv that] by (simp add: rb_stored_length)
  have e: "rx_cut (ri_SPSRx r) t (rb_stored (ri_recvBuffer r ! i)) = []"
    "rx_rest (ri_SPSRx r) t (rb_stored (ri_recvBuffer r ! i)) = rb_stored (ri_recvBuffer r ! i)"
    if "i < ri_chans r" for i
    using l [OF that] rx_cut_step [OF sps, of t "rb_stored (ri_recvBuffer r ! i)"]
      rx_rest_step [OF sps, of t "rb_stored (ri_recvBuffer r ! i)"] by simp_all
  have "0 < ri_chans r" using inv by (simp add: rx_inv_def)
  then show ?thesis using inv e by (simp add: rx_result_def rx_bursts_def)
qed

lemma take_chain: "take (k - length xs) (y # ys) =
    take (k - length xs) [y] @ take (k - length (xs @ take (k - length xs) [y])) (ys :: 'x list)"
proof (cases "k - length xs")
  case (Suc m)
  then have "k - length (xs @ [y]) = m" by simp
  then show ?thesis using Suc by simp
qed simp

text \<open>One round leaves every channel one burst ahead.\<close>

definition rx_round :: "('a, 'h, 'd) radio_env \<Rightarrow> nat \<Rightarrow> gsm_time \<Rightarrow> ('a, 'd) radio_interface \<Rightarrow> ('a, 'd) radio_interface" where
  "rx_round E head t r =
    (fold (\<lambda>i r. ri_receive_burst E t (rx_size (ri_SPSRx r) t) head i r) [0..<ri_chans r] r)"

lemma rx_round_ok:
  assumes inv: "rx_inv r" and t: "rx_size (ri_SPSRx r) t \<le> rb_availSamples (ri_recvBuffer r ! 0)"
    and E: "\<And>n h. length (new_vector E n h) = n"
    and r1: "r1 = fold (\<lambda>i r. ri_receive_burst E t n head i r) [0..<ri_chans r] r" and n: "n = rx_size (ri_SPSRx r) t"
  shows "rx_inv r1 \<and> ri_chans r1 = ri_chans r \<and> ri_SPSRx r1 = ri_SPSRx r \<and> ri_clock r1 = ri_clock r \<and>
    (\<forall>i < ri_chans r.
      rb_stored (ri_recvBuffer r1 ! i) = drop n (rb_stored (ri_recvBuffer r ! i)) \<and>
      pf_list (ri_receiveFIFO r1 ! i) = pf_list (ri_receiveFIFO r ! i) @
        take (32 - length (pf_list (ri_receiveFIFO r ! i))) [rv_single t (Some (take n (rb_stored (ri_recvBuffer r ! i))))])"
proof -
  let ?c = "\<lambda>i. rx_chan (new_vector E n head) t (ri_receiveFIFO r ! i) (ri_recvBuffer r ! i)"
  have len: "ri_chans r \<le> length (ri_receiveFIFO r)" "ri_chans r \<le> length (ri_recvBuffer r)"
    using inv by (simp_all add: rx_inv_def)
  have e: "r1 = r\<lparr>ri_receiveFIFO := map (\<lambda>i. fst (?c i)) [0..<ri_chans r],
      ri_recvBuffer := map (\<lambda>i. snd (?c i)) [0..<ri_chans r]\<rparr>"
    using ri_receive_round [OF len] inv unfolding r1 by (simp add: rx_inv_def)
  have c: "pf_ok (fst (?c i)) \<and> rb_in_inv (snd (?c i)) \<and>
      pf_list (fst (?c i)) = pf_list (ri_receiveFIFO r ! i) @
        take (32 - length (pf_list (ri_receiveFIFO r ! i))) [rv_single t (Some (take n (rb_stored (ri_recvBuffer r ! i))))] \<and>
      rb_stored (snd (?c i)) = drop n (rb_stored (ri_recvBuffer r ! i))" if "i < ri_chans r" for i
  proof -
    have i: "pf_ok (ri_receiveFIFO r ! i)" "rb_in_inv (ri_recvBuffer r ! i)"
      "length (new_vector E n head) \<le> rb_availSamples (ri_recvBuffer r ! i)"
      using inv that t n E rx_inv_avail [OF inv that] by (simp_all add: rx_inv_def)
    from rx_chan_ok [OF i, of t] show ?thesis by (simp only: E)
  qed
  have "rb_availSamples (snd (?c i)) = rb_availSamples (ri_recvBuffer r ! 0) - n" if "i < ri_chans r" for i
    using arg_cong [OF c [OF that, THEN conjunct2, THEN conjunct2, THEN conjunct2], of length] rx_inv_avail [OF inv that]
    by (simp add: rb_stored_length)
  then have "same_avail (ri_chans r) (map (\<lambda>i. snd (?c i)) [0..<ri_chans r])"
    by (intro same_availI) simp
  then have "rx_inv r1" using inv c by (simp add: e rx_inv_def)
  then show ?thesis using c by (simp add: e)
qed

lemma ri_cut_bursts_step:
  assumes "n < a" and "fold (\<lambda>i r. ri_receive_burst E t n head i r) [0..<ri_chans r] r = r1"
    and "incTN 1 (ri_clock r1) = Some c" and "incTN 1 t = Some t'"
  shows "ri_cut_bursts (Suc k) E head t (int a) (int n) r = ri_cut_bursts k E head t' (int (a - n))
    (if ri_SPSRx r1 \<noteq> 4 then ri_burst_size (time_TN t') * int (ri_SPSRx r1) else int n) (r1\<lparr>ri_clock := c\<rparr>)"
proof -
  have "int a - int n = int (a - n)" using assms(1) by (simp add: of_nat_diff)
  then show ?thesis using assms by (subst ri_cut_bursts.simps) (simp add: rc_incTN_def Let_def)
qed

lemma ri_cut_bursts_ok:
  assumes inv: "rx_inv r" and t: "valid_time t" and E: "\<And>n h. length (new_vector E n h) = n"
    and f: "rb_availSamples (ri_recvBuffer r ! 0) \<le> fuel"
  shows "\<exists>r'. ri_cut_bursts fuel E head t (int (rb_availSamples (ri_recvBuffer r ! 0)))
      (int (rx_size (ri_SPSRx r) t)) r = Some r' \<and> rx_result t r r'"
  using inv t f
proof (induction fuel arbitrary: r t)
  case 0
  then show ?case using rx_result_refl [OF 0(1), of t] by (subst ri_cut_bursts.simps) simp
next
  case (Suc k)
  let ?a = "rb_availSamples (ri_recvBuffer r ! 0)" and ?n = "rx_size (ri_SPSRx r) t"
  have sps: "ri_SPSRx r > 0" using Suc.prems(1) by (auto simp: rx_inv_def)
  show ?case
  proof (cases "?n < ?a")
    case False
    then show ?thesis using rx_result_refl [OF Suc.prems(1), of t] by (subst ri_cut_bursts.simps) simp
  next
    case True
    define r1 where "r1 = fold (\<lambda>i r. ri_receive_burst E t ?n head i r) [0..<ri_chans r] r"
    note rd = rx_round_ok [OF Suc.prems(1) less_imp_le [OF True] E r1_def refl]
    define r2 where "r2 = r1\<lparr>ri_clock := next_slot (ri_clock r)\<rparr>"
    have clk: "incTN 1 (ri_clock r1) = Some (next_slot (ri_clock r))" "valid_time (next_slot (ri_clock r))"
    proof -
      have v: "valid_time (ri_clock r)" using Suc.prems(1) by (simp add: rx_inv_def)
      have "ri_clock r1 = ri_clock r" using rd by blast
      then show "incTN 1 (ri_clock r1) = Some (next_slot (ri_clock r))" "valid_time (next_slot (ri_clock r))"
        using next_slot_valid [OF v] by simp_all
    qed
    have t': "incTN 1 t = Some (next_slot t)" "valid_time (next_slot t)"
      using next_slot_valid [OF Suc.prems(2)] by simp_all
    have "rx_inv r1" using rd by blast
    then have inv2: "rx_inv r2" using clk(2) by (simp add: r2_def rx_inv_def)
    have chans: "ri_chans r2 = ri_chans r" "ri_SPSRx r2 = ri_SPSRx r" "0 < ri_chans r"
      using rd Suc.prems(1) by (simp_all add: r2_def rx_inv_def)
    have st: "rb_stored (ri_recvBuffer r2 ! i) = drop ?n (rb_stored (ri_recvBuffer r ! i))"
      and fl: "pf_list (ri_receiveFIFO r2 ! i) = pf_list (ri_receiveFIFO r ! i) @
        take (32 - length (pf_list (ri_receiveFIFO r ! i))) [rv_single t (Some (take ?n (rb_stored (ri_recvBuffer r ! i))))]"
      if "i < ri_chans r" for i using rd that by (simp_all add: r2_def)
    have a2: "rb_availSamples (ri_recvBuffer r2 ! 0) = ?a - ?n"
      using st [OF chans(3)] rb_stored_length [of "ri_recvBuffer r2 ! 0"] rb_stored_length [of "ri_recvBuffer r ! 0"]
      by simp
    have sz: "(if ri_SPSRx r \<noteq> 4 then ri_burst_size (time_TN (next_slot t)) * int (ri_SPSRx r) else int ?n) =
        int (rx_size (ri_SPSRx r) (next_slot t))"
      using Suc.prems(1) by (auto simp: rx_size_def rx_inv_def ri_burst_size_def gSlotLen_def)
    have "rb_availSamples (ri_recvBuffer r2 ! 0) \<le> k"
      using Suc.prems(3) rx_size_pos [OF sps, of t] unfolding a2 by linarith
    from Suc.IH [OF inv2 t'(2) this] obtain r' where
      run: "ri_cut_bursts k E head (next_slot t) (int (?a - ?n)) (int (rx_size (ri_SPSRx r) (next_slot t))) r2 = Some r'"
      and res: "rx_result (next_slot t) r2 r'" unfolding a2 chans by blast
    have sps1: "ri_SPSRx r1 = ri_SPSRx r" using rd by blast
    have "ri_cut_bursts (Suc k) E head t (int ?a) (int ?n) r = Some r'"
      unfolding ri_cut_bursts_step [OF True r1_def [symmetric] clk(1) t'(1)] sps1 sz r2_def [symmetric]
      by (rule run)
    moreover have "rx_result t r r'"
    proof -
      have cut: "rx_cut (ri_SPSRx r) t (rb_stored (ri_recvBuffer r ! i)) =
          (t, take ?n (rb_stored (ri_recvBuffer r ! i))) #
            rx_cut (ri_SPSRx r) (next_slot t) (rb_stored (ri_recvBuffer r2 ! i))"
        and rest: "rx_rest (ri_SPSRx r) t (rb_stored (ri_recvBuffer r ! i)) =
          rx_rest (ri_SPSRx r) (next_slot t) (rb_stored (ri_recvBuffer r2 ! i))" if "i < ri_chans r" for i
      proof -
        have "?n < length (rb_stored (ri_recvBuffer r ! i))"
          using True rx_inv_avail [OF Suc.prems(1) that] by (simp add: rb_stored_length)
        then show "rx_cut (ri_SPSRx r) t (rb_stored (ri_recvBuffer r ! i)) =
            (t, take ?n (rb_stored (ri_recvBuffer r ! i))) #
              rx_cut (ri_SPSRx r) (next_slot t) (rb_stored (ri_recvBuffer r2 ! i))"
          and "rx_rest (ri_SPSRx r) t (rb_stored (ri_recvBuffer r ! i)) =
            rx_rest (ri_SPSRx r) (next_slot t) (rb_stored (ri_recvBuffer r2 ! i))"
          using st [OF that] rx_cut_step [OF sps, of t "rb_stored (ri_recvBuffer r ! i)"]
            rx_rest_step [OF sps, of t "rb_stored (ri_recvBuffer r ! i)"] by simp_all
      qed
      have clk2: "ri_clock r2 = next_slot (ri_clock r)" by (simp add: r2_def)
      have fifo: "pf_list (ri_receiveFIFO r2 ! i) @ take (32 - length (pf_list (ri_receiveFIFO r2 ! i)))
          (rx_bursts (ri_SPSRx r) (next_slot t) (rb_stored (ri_recvBuffer r2 ! i))) =
        pf_list (ri_receiveFIFO r ! i) @ take (32 - length (pf_list (ri_receiveFIFO r ! i)))
          (rx_bursts (ri_SPSRx r) t (rb_stored (ri_recvBuffer r ! i)))" if "i < ri_chans r" for i
        unfolding fl [OF that] rx_bursts_def cut [OF that] list.map prod.case append_assoc
        by (rule arg_cong [where f = "(@) (pf_list (ri_receiveFIFO r ! i))"]) (rule take_chain [symmetric])
      have clock: "(next_slot ^^ length (rx_cut (ri_SPSRx r) t (rb_stored (ri_recvBuffer r ! 0)))) (ri_clock r) =
          (next_slot ^^ length (rx_cut (ri_SPSRx r) (next_slot t) (rb_stored (ri_recvBuffer r2 ! 0)))) (ri_clock r2)"
        unfolding cut [OF chans(3)] by (simp only: list.size(4) add_Suc_right add_0_right funpow_Suc_right o_apply clk2)
      note res' = res [unfolded rx_result_def chans(1,2)]
      have chan: "rb_stored (ri_recvBuffer r' ! i) = rx_rest (ri_SPSRx r) t (rb_stored (ri_recvBuffer r ! i)) \<and>
          pf_list (ri_receiveFIFO r' ! i) = pf_list (ri_receiveFIFO r ! i) @
            take (32 - length (pf_list (ri_receiveFIFO r ! i)))
              (rx_bursts (ri_SPSRx r) t (rb_stored (ri_recvBuffer r ! i)))" if i: "i < ri_chans r" for i
        unfolding rest [OF i] fifo [OF i, symmetric] using res' i by blast
      have "ri_clock r' =
          (next_slot ^^ length (rx_cut (ri_SPSRx r) t (rb_stored (ri_recvBuffer r ! 0)))) (ri_clock r)"
        unfolding clock using res' by blast
      with chan res' show ?thesis unfolding rx_result_def by blast
    qed
    ultimately show ?thesis by blast
  qed
qed

section \<open>Properties of the receive side\<close>

lemma decTN_Some:
  assumes "valid_time t" and "0 \<le> step" and "step \<le> 8"
  shows "\<exists>u. decTN step t = Some u \<and> valid_time u"
  using valid_timeD [OF assms(1)] decTN_valid [OF assms] assms(2,3)
  by (auto simp: valid_time_def valid_FN_def gHyperframe_eq)

text \<open>A radio that never delivers, for the examples.\<close>

definition idle_env :: "(int, int, nat) radio_env" where
  "idle_env = \<lparr>dev_start = \<lambda>d. (True, d), dev_stop = \<lambda>d. (True, d), dev_requiresRadioAlign = \<lambda>d. False,
     dev_updateAlignment = \<lambda>ts d. (True, d), dev_initialWriteTimestamp = \<lambda>d. 100,
     dev_initialReadTimestamp = \<lambda>d. 0, dev_readSamples = \<lambda>len ov ts d. (int len, [replicate len 5], ov, False, d),
     dev_writeSamples = \<lambda>bufs len un ts d. (int len, un, d + len), dev_setTxFreq = \<lambda>f ch d. (True, d),
     dev_setRxFreq = \<lambda>f ch d. (True, d), dev_getTxFreq = \<lambda>ch d. 0, dev_getRxFreq = \<lambda>ch d. 0,
     dev_setTxGain = \<lambda>g ch d. (g, d), dev_setRxGain = \<lambda>g ch d. (g, d), dev_getRxGain = \<lambda>ch d. 0,
     dev_maxTxGain = \<lambda>d. 0, dev_fullScaleInputValue = \<lambda>d. 1, dev_fullScaleOutputValue = \<lambda>d. 1,
     convert_short_float = id, convert_float_short = \<lambda>g x. x, new_vector = \<lambda>n h. replicate n 0,
     new_floats = \<lambda>i. 0\<rparr>"

definition idle_radio :: "(int, nat) radio_interface" where
  "idle_radio = (snd (ri_init idle_env NORMAL (ri_new 0 1 1 1 3 (Time 10 0) 0)))\<lparr>ri_on := True\<rparr>"

lemma idle_radio_inv: "rx_inv idle_radio"
proof -
  have "rb_in_inv (rb_new (\<lambda>i. 0 :: int) 4 625 0 False)"
    unfolding rb_in_inv_def by (rule conjI, rule rb_new_inv) (simp_all add: rb_new_def)
  then show ?thesis
    by (simp add: rx_inv_def idle_radio_def ri_init_def ri_new_def ri_close_def idle_env_def vec_resize_def
        rc_set_def valid_timeI pf_ok_new same_avail_def Let_def NUMCHUNKS_def CHUNK_def)
qed

text \<open>C4. A successful receive call cuts the samples in the receive buffers into the bursts of consecutive
  slots: each channel's FIFO gets its bursts in order, stamped with their times, up to its limit of 32,
  and the buffers keep what is left, less than the next burst needs or just as much; the clock moves on by
  the number of slots. The call returns for every state in which the channels' buffers are filled
  alike, for any number of channels.\<close>

theorem driveReceiveRadio_cuts:
  assumes "ri_on r" and "pull r = Some (rc, r1)" and "0 \<le> rc" and "rx_inv r1"
    and "\<And>n h. length (new_vector E n h) = n"
    and "0 \<le> ri_receiveOffset r1" and "ri_receiveOffset r1 \<le> 8"
  shows "\<exists>t r'. decTN (ri_receiveOffset r1) (ri_clock r1) = Some t \<and>
    ri_driveReceiveRadio E pull head r = Some (1, r') \<and> rx_result t r1 r'"
proof -
  have "valid_time (ri_clock r1)" using assms(4) by (simp add: rx_inv_def)
  from decTN_Some [OF this assms(6,7)] obtain t where
    t: "decTN (ri_receiveOffset r1) (ri_clock r1) = Some t" "valid_time t" by blast
  have u: "u32 (ri_receiveOffset r1) = ri_receiveOffset r1" using assms(6,7) by (intro u32_id) auto
  have sz: "(if ri_SPSRx r1 = 4 then 625 else ri_burst_size (time_TN t)) = int (rx_size (ri_SPSRx r1) t)"
    using assms(4) by (auto simp: rx_size_def rx_inv_def ri_burst_size_def gSlotLen_def)
  obtain r' where r': "ri_cut_bursts (rb_availSamples (ri_recvBuffer r1 ! 0)) E head t
      (int (rb_availSamples (ri_recvBuffer r1 ! 0))) (int (rx_size (ri_SPSRx r1) t)) r1 = Some r'"
    "rx_result t r1 r'"
    using ri_cut_bursts_ok [OF assms(4) t(2) assms(5) order_refl] by blast
  have "ri_driveReceiveRadio E pull head r = Some (1, r')"
    using assms(1-3) t(1) r'(1)
    by (simp add: ri_driveReceiveRadio_def Let_def u rc_get_def sz rb_getAvailSamples_def)
  then show ?thesis using t(1) r'(2) by blast
qed

theorem driveReceiveRadio_cuts_witness:
  "\<exists>t r'. decTN 3 (Time 10 0) = Some t \<and>
    ri_driveReceiveRadio idle_env (\<lambda>r. Some (0, r)) 40 idle_radio = Some (1, r') \<and> rx_result t idle_radio r'"
proof -
  have "ri_receiveOffset idle_radio = 3" "ri_clock idle_radio = Time 10 0" "ri_on idle_radio"
    by (simp_all add: idle_radio_def ri_init_def ri_new_def ri_close_def rc_set_def Let_def)
  moreover have "length (new_vector idle_env n h) = n" for n h by (simp add: idle_env_def)
  ultimately show ?thesis
    using driveReceiveRadio_cuts [of idle_radio "\<lambda>r. Some (0, r)" 0 idle_radio idle_env 40] idle_radio_inv by simp
qed

text \<open>The cut in terms of the stream: the bursts of a channel and the samples left are the samples
  there were, in order; every burst has the length of its slot; and what is left does not exceed one
  burst.\<close>

theorem receive_cut_stream:
  assumes "sps > 0"
  shows "concat (map snd (rx_cut sps t xs)) @ rx_rest sps t xs = xs \<and>
    list_all (\<lambda>(u, v). length v = rx_size sps u) (rx_cut sps t xs) \<and>
    length (rx_rest sps t xs) \<le> rx_size sps ((next_slot ^^ length (rx_cut sps t xs)) t)"
proof -
  have "list_all (\<lambda>(u, v). length v = rx_size sps u) (rx_cut sps t xs) \<and>
    length (rx_rest sps t xs) \<le> rx_size sps ((next_slot ^^ length (rx_cut sps t xs)) t)"
    using assms
  proof (induction sps t xs rule: rx_cut.induct)
    case (1 sps t xs)
    show ?case
    proof (cases "rx_size sps t < length xs")
      case True
      then have "rx_cut sps t xs =
          (t, take (rx_size sps t) xs) # rx_cut sps (next_slot t) (drop (rx_size sps t) xs)"
        and "rx_rest sps t xs = rx_rest sps (next_slot t) (drop (rx_size sps t) xs)"
        using rx_cut_step [OF 1(2), of t xs] rx_rest_step [OF 1(2), of t xs] by simp_all
      then show ?thesis using 1 True rx_size_pos [OF 1(2), of t] by (simp add: funpow_swap1)
    next
      case False
      then show ?thesis using rx_cut_step [OF 1(2), of t xs] rx_rest_step [OF 1(2), of t xs] by simp
    qed
  qed
  then show ?thesis using rx_cut_concat [OF assms] by blast
qed

theorem receive_cut_stream_witness:
  "concat (map snd (rx_cut 1 (Time 5 6) (replicate 400 ()))) @ rx_rest 1 (Time 5 6) (replicate 400 ()) = replicate 400 ()"
  using receive_cut_stream [of 1 "Time 5 6" "replicate 400 ()"] by simp

lemma ri_fill_segments_ok:
  assumes "length xss = length bs" and "\<And>i. i < length bs \<Longrightarrow> rb_in_inv (bs ! i) \<and>
      length (xss ! i) = rb_segmentLen (bs ! i) \<and> rb_availSamples (bs ! i) + rb_segmentLen (bs ! i) \<le> rb_bufferLen (bs ! i)"
  shows "\<exists>bs'. ri_fill_segments xss bs = Some bs' \<and> length bs' = length bs \<and>
    (\<forall>i < length bs. rb_in_inv (bs' ! i) \<and> rb_stored (bs' ! i) = rb_stored (bs ! i) @ xss ! i)"
  using assms
proof (induction xss bs rule: ri_fill_segments.induct)
  case (1 xs xss b bs)
  have b: "rb_in_inv b" "length xs = rb_segmentLen b" "rb_availSamples b + rb_segmentLen b \<le> rb_bufferLen b"
    using "1.prems"(2) [of 0] by simp_all
  obtain off b1 where w: "rb_getWriteSegment b = Some (off, b1)" using rb_getWriteSegment_ok [OF b(1)] b(3) by simp
  let ?b = "b1\<lparr>rb_buffer := blit (rb_buffer b1) off xs\<rparr>"
  have p: "rb_in_put xs b = Some ?b" using w b(2) by (simp add: rb_in_put_def)
  have "rb_in_inv (bs ! i) \<and> length (xss ! i) = rb_segmentLen (bs ! i) \<and>
      rb_availSamples (bs ! i) + rb_segmentLen (bs ! i) \<le> rb_bufferLen (bs ! i)" if "i < length bs" for i
    using "1.prems"(2) [of "Suc i"] that by simp
  then obtain bs' where bs': "ri_fill_segments xss bs = Some bs'" "length bs' = length bs"
    "\<forall>i < length bs. rb_in_inv (bs' ! i) \<and> rb_stored (bs' ! i) = rb_stored (bs ! i) @ xss ! i"
    using "1.IH" [OF w refl] "1.prems"(1) by auto
  have "rb_in_inv ((?b # bs') ! i) \<and> rb_stored ((?b # bs') ! i) = rb_stored ((b # bs) ! i) @ (xs # xss) ! i"
    if "i < length (b # bs)" for i
    using that rb_in_put_stored [OF b(1) p] bs'(3) by (cases i) simp_all
  then show ?case using w bs'(1,2) by simp
qed simp_all

text \<open>A pull from the device that delivers a whole segment for every channel appends it, converted,
  to each channel's buffer, moves the read time on by a segment and remembers an underrun.\<close>

theorem pullBuffer_appends:
  assumes inv: "rx_inv r" and seg: "\<forall>i < ri_chans r. rb_segmentLen (ri_recvBuffer r ! i) = n \<and>
      rb_availSamples (ri_recvBuffer r ! i) + n \<le> rb_bufferLen (ri_recvBuffer r ! i)"
    and dev: "dev_readSamples E n (ri_overrun r) (ri_readTimestamp r) (ri_radio r) = (int n, bufs, ov, un, d)"
    and bufs: "length bufs = ri_chans r" "list_all (\<lambda>xs. length xs = n) bufs"
  shows "\<exists>r'. ri_pullBuffer E r = Some (0, r') \<and> rx_inv r' \<and>
    (\<forall>i < ri_chans r. rb_stored (ri_recvBuffer r' ! i) =
      rb_stored (ri_recvBuffer r ! i) @ map (convert_short_float E) (bufs ! i)) \<and>
    ri_readTimestamp r' = u64_add (ri_readTimestamp r) n \<and> ri_underrun r' = (ri_underrun r \<or> un) \<and>
    ri_receiveFIFO r' = ri_receiveFIFO r \<and> ri_clock r' = ri_clock r"
proof -
  have c: "0 < ri_chans r" "length (ri_recvBuffer r) = ri_chans r" using inv by (simp_all add: rx_inv_def)
  let ?b0 = "ri_recvBuffer r ! 0"
  have b0: "rb_in_inv ?b0" "rb_segmentLen ?b0 = n" "rb_availSamples ?b0 + n \<le> rb_bufferLen ?b0"
    using inv seg c by (simp_all add: rx_inv_def)
  have L: "rb_bufferLen ?b0 \<le> max_samples" "0 < n" using b0(1,2) by (auto simp: rb_in_inv_def rb_inv_def)
  have "rb_getFreeSamples ?b0 = rb_bufferLen ?b0 - rb_availSamples ?b0"
    unfolding rb_getFreeSamples_def using b0(3) L by (intro u64_sub_id) auto
  then have free: "\<not> rb_getFreeSegments ?b0 \<le> 0" using b0 L by (simp add: rb_getFreeSegments_def div_eq_0_iff)
  have "rb_in_inv (ri_recvBuffer r ! i) \<and>
      length (map (map (convert_short_float E)) bufs ! i) = rb_segmentLen (ri_recvBuffer r ! i) \<and>
      rb_availSamples (ri_recvBuffer r ! i) + rb_segmentLen (ri_recvBuffer r ! i) \<le> rb_bufferLen (ri_recvBuffer r ! i)"
    if "i < length (ri_recvBuffer r)" for i
    using that inv seg bufs c by (simp add: rx_inv_def list_all_length)
  from ri_fill_segments_ok [OF _ this] obtain bs where
    bs: "ri_fill_segments (map (map (convert_short_float E)) bufs) (ri_recvBuffer r) = Some bs"
      "length bs = ri_chans r"
    and st: "\<forall>i < ri_chans r. rb_in_inv (bs ! i) \<and>
      rb_stored (bs ! i) = rb_stored (ri_recvBuffer r ! i) @ map (convert_short_float E) (bufs ! i)"
    using bufs c by auto
  have "rb_availSamples (bs ! i) = rb_availSamples ?b0 + n" if "i < ri_chans r" for i
    using arg_cong [OF st [rule_format, OF that, THEN conjunct2], of length] rx_inv_avail [OF inv that] bufs that
    by (simp add: rb_stored_length list_all_length)
  then have "same_avail (ri_chans r) bs" by (rule same_availI)
  then have inv': "rx_inv (r\<lparr>ri_radio := d, ri_overrun := ov, ri_recvBuffer := bs, ri_underrun := ri_underrun r \<or> un,
      ri_readTimestamp := u64_add (ri_readTimestamp r) n\<rparr>)"
    using inv bs(2) st by (simp add: rx_inv_def)
  have "ri_pullBuffer E r = Some (0, r\<lparr>ri_radio := d, ri_overrun := ov, ri_recvBuffer := bs,
      ri_underrun := ri_underrun r \<or> un, ri_readTimestamp := u64_add (ri_readTimestamp r) n\<rparr>)"
    using free b0(2) dev bs bufs c by (simp add: ri_pullBuffer_def rb_getSegmentLen_def Let_def)
  then show ?thesis using inv' st by auto
qed

theorem pullBuffer_appends_witness:
  "\<exists>r'. ri_pullBuffer idle_env idle_radio = Some (0, r') \<and> rb_stored (ri_recvBuffer r' ! 0) = replicate 625 5 \<and>
    ri_readTimestamp r' = 625"
proof -
  have f: "ri_chans idle_radio = 1" "ri_recvBuffer idle_radio ! 0 = rb_new (\<lambda>i. 0) 4 625 0 False"
    "ri_readTimestamp idle_radio = 0"
    by (simp_all add: idle_radio_def ri_init_def ri_new_def ri_close_def idle_env_def Let_def NUMCHUNKS_def CHUNK_def)
  have b: "rb_segmentLen (rb_new (\<lambda>i. 0 :: int) 4 625 0 False) = 625" "rb_availSamples (rb_new (\<lambda>i. 0 :: int) 4 625 0 False) = 0"
    "rb_bufferLen (rb_new (\<lambda>i. 0 :: int) 4 625 0 False) = 2500" "rb_stored (rb_new (\<lambda>i. 0 :: int) 4 625 0 False) = []"
    by (simp_all add: rb_new_def Let_def rb_stored_def)
  have seg: "\<forall>i < ri_chans idle_radio. rb_segmentLen (ri_recvBuffer idle_radio ! i) = 625 \<and>
      rb_availSamples (ri_recvBuffer idle_radio ! i) + 625 \<le> rb_bufferLen (ri_recvBuffer idle_radio ! i)"
    using f b by simp
  have dev: "dev_readSamples idle_env 625 (ri_overrun idle_radio) (ri_readTimestamp idle_radio) (ri_radio idle_radio) =
      (int 625, [replicate 625 5], ri_overrun idle_radio, False, ri_radio idle_radio)" by (simp add: idle_env_def)
  have len: "length [replicate 625 (5 :: int)] = ri_chans idle_radio" "list_all (\<lambda>xs. length xs = 625) [replicate 625 (5 :: int)]"
    by (simp_all add: f)
  have "map (convert_short_float idle_env) (replicate 625 5) = replicate 625 5" by (simp add: idle_env_def)
  then show ?thesis
    using pullBuffer_appends [OF idle_radio_inv seg dev len] f b by (auto simp: u64_add_def)
qed

section \<open>Transmission as a stream of chunks\<close>

text \<open>The device calls of a transmission: one write per chunk, a chunk being a block of samples for every
  channel, at consecutive times.\<close>

fun tx_send :: "('a, 'h, 'd) radio_env \<Rightarrow> real list \<Rightarrow> nat \<Rightarrow> 'a list list list \<Rightarrow> 'd \<times> bool \<times> nat \<Rightarrow> 'd \<times> bool \<times> nat" where
  "tx_send E scaling n [] s = s"
| "tx_send E scaling n (xss # cs) (d, un, ts) =
    (let (num, un', d') = dev_writeSamples E (map2 (\<lambda>g xs. map (convert_float_short E g) xs) scaling xss) n un ts d
     in tx_send E scaling n cs (d', un', (ts + nat (num mod int two64)) mod two64))"

definition tx_inv :: "nat \<Rightarrow> nat \<Rightarrow> ('a, 'd) radio_interface \<Rightarrow> bool" where
  "tx_inv n L r \<longleftrightarrow> 0 < ri_chans r \<and> length (ri_sendBuffer r) = ri_chans r \<and> length (ri_powerScaling r) = ri_chans r \<and>
    same_avail (ri_chans r) (ri_sendBuffer r) \<and>
    (\<forall>i < ri_chans r. rb_out_inv (ri_sendBuffer r ! i) \<and> rb_segmentLen (ri_sendBuffer r ! i) = n \<and>
       rb_bufferLen (ri_sendBuffer r ! i) = L)"

definition tx_dev :: "('a, 'd) radio_interface \<Rightarrow> 'd \<times> bool \<times> nat" where
  "tx_dev r = (ri_radio r, ri_underrun r, ri_writeTimestamp r)"

lemma tx_inv_avail:
  "tx_inv n L r \<Longrightarrow> i < ri_chans r \<Longrightarrow> rb_availSamples (ri_sendBuffer r ! i) = rb_availSamples (ri_sendBuffer r ! 0)"
  by (rule same_availD) (simp_all add: tx_inv_def)

lemma tx_inv_pos: "tx_inv n L r \<Longrightarrow> 0 < n"
  unfolding tx_inv_def rb_out_inv_def rb_inv_def by auto

lemma rb_out_get_Some:
  assumes "rb_out_inv b" and "rb_segmentLen b = n" and "n \<le> rb_availSamples b"
  shows "\<exists>off b'. rb_getReadSegment b = Some (off, b') \<and> slice (rb_buffer b') off n = take n (rb_stored b) \<and>
    rb_out_inv b' \<and> rb_stored b' = drop n (rb_stored b) \<and> rb_segmentLen b' = n \<and> rb_bufferLen b' = rb_bufferLen b"
proof -
  obtain off b' where g: "rb_getReadSegment b = Some (off, b')"
    using rb_getReadSegment_ok [OF assms(1)] assms(2,3) by blast
  then have "rb_out_get n b = Some (slice (rb_buffer b') off n, b')" using assms(2) by (simp add: rb_out_get_def)
  from rb_out_get_stored [OF assms(1) this]
  have r: "rb_out_inv b'" "length (slice (rb_buffer b') off n) = n"
    "rb_stored b = slice (rb_buffer b') off n @ rb_stored b'" by blast+
  have "rb_segmentLen b' = n \<and> rb_bufferLen b' = rb_bufferLen b"
    using g assms(2) by (auto simp: rb_getReadSegment_def Let_def split: if_splits)
  then show ?thesis using g r by (metis append_eq_conv_conj)
qed

lemma ri_take_segments_ok:
  assumes "\<And>i. i < length bs \<Longrightarrow> rb_out_inv (bs ! i) \<and> rb_segmentLen (bs ! i) = n \<and> n \<le> rb_availSamples (bs ! i)"
  shows "\<exists>xss bs'. ri_take_segments n bs = Some (xss, bs') \<and> length xss = length bs \<and> length bs' = length bs \<and>
    (\<forall>i < length bs. xss ! i = take n (rb_stored (bs ! i)) \<and> rb_out_inv (bs' ! i) \<and>
      rb_stored (bs' ! i) = drop n (rb_stored (bs ! i)) \<and> rb_segmentLen (bs' ! i) = n \<and>
      rb_bufferLen (bs' ! i) = rb_bufferLen (bs ! i))"
  using assms
proof (induction bs)
  case Nil
  then show ?case by simp
next
  case (Cons b bs)
  obtain off b' where g: "rb_getReadSegment b = Some (off, b')" "slice (rb_buffer b') off n = take n (rb_stored b)"
    "rb_out_inv b'" "rb_stored b' = drop n (rb_stored b)" "rb_segmentLen b' = n" "rb_bufferLen b' = rb_bufferLen b"
    using rb_out_get_Some [of b n] Cons.prems [of 0] by auto
  have "rb_out_inv (bs ! i) \<and> rb_segmentLen (bs ! i) = n \<and> n \<le> rb_availSamples (bs ! i)" if "i < length bs" for i
    using Cons.prems [of "Suc i"] that by simp
  from Cons.IH [OF this] obtain xss bs' where IH: "ri_take_segments n bs = Some (xss, bs')"
    "length xss = length bs" "length bs' = length bs"
    "\<forall>i < length bs. xss ! i = take n (rb_stored (bs ! i)) \<and> rb_out_inv (bs' ! i) \<and>
      rb_stored (bs' ! i) = drop n (rb_stored (bs ! i)) \<and> rb_segmentLen (bs' ! i) = n \<and>
      rb_bufferLen (bs' ! i) = rb_bufferLen (bs ! i)" by blast
  then have "\<forall>i < length (b # bs). (take n (rb_stored b) # xss) ! i = take n (rb_stored ((b # bs) ! i)) \<and>
      rb_out_inv ((b' # bs') ! i) \<and> rb_stored ((b' # bs') ! i) = drop n (rb_stored ((b # bs) ! i)) \<and>
      rb_segmentLen ((b' # bs') ! i) = n \<and> rb_bufferLen ((b' # bs') ! i) = rb_bufferLen ((b # bs) ! i)"
    using g by (auto simp: nth_Cons split: nat.split)
  then show ?case using g IH(1-3) by auto
qed

lemma ri_pushBuffer_ok:
  assumes inv: "tx_inv n L r"
  shows "if rb_availSamples (ri_sendBuffer r ! 0) < n then ri_pushBuffer E r = Some (False, r)
    else \<exists>r' xss. ri_pushBuffer E r = Some (True, r') \<and> tx_inv n L r' \<and> ri_chans r' = ri_chans r \<and>
      ri_powerScaling r' = ri_powerScaling r \<and> tx_dev r' = tx_send E (ri_powerScaling r) n [xss] (tx_dev r) \<and>
      (\<forall>i < ri_chans r. xss ! i @ rb_stored (ri_sendBuffer r' ! i) = rb_stored (ri_sendBuffer r ! i)) \<and>
      rb_availSamples (ri_sendBuffer r' ! 0) = rb_availSamples (ri_sendBuffer r ! 0) - n"
proof -
  let ?b0 = "ri_sendBuffer r ! 0" and ?c = "ri_chans r"
  have c: "0 < ?c" "length (ri_sendBuffer r) = ?c" "length (ri_powerScaling r) = ?c"
    and seg: "rb_segmentLen ?b0 = n" using inv by (simp_all add: tx_inv_def)
  have n: "0 < n" by (rule tx_inv_pos [OF inv])
  show ?thesis
  proof (cases "rb_availSamples ?b0 < n")
    case True
    then show ?thesis using seg by (simp add: ri_pushBuffer_def rb_getSegmentLen_def rb_getAvailSegments_def)
  next
    case False
    have "rb_out_inv (ri_sendBuffer r ! i) \<and> rb_segmentLen (ri_sendBuffer r ! i) = n \<and>
        n \<le> rb_availSamples (ri_sendBuffer r ! i)" if "i < length (ri_sendBuffer r)" for i
      using that inv c False tx_inv_avail [OF inv, of i] by (simp add: tx_inv_def)
    from ri_take_segments_ok [OF this] obtain xss bs where
      t: "ri_take_segments n (ri_sendBuffer r) = Some (xss, bs)" "length xss = ?c" "length bs = ?c"
      and ti: "\<forall>i < ?c. xss ! i = take n (rb_stored (ri_sendBuffer r ! i)) \<and> rb_out_inv (bs ! i) \<and>
        rb_stored (bs ! i) = drop n (rb_stored (ri_sendBuffer r ! i)) \<and> rb_segmentLen (bs ! i) = n \<and>
        rb_bufferLen (bs ! i) = rb_bufferLen (ri_sendBuffer r ! i)" unfolding c(2) by blast
    obtain num un d where w: "dev_writeSamples E
        (map2 (\<lambda>g xs. map (convert_float_short E g) xs) (ri_powerScaling r) xss) n (ri_underrun r)
        (ri_writeTimestamp r) (ri_radio r) = (num, un, d)" by (rule prod_cases3)
    define r' where "r' = r\<lparr>ri_radio := d, ri_sendBuffer := bs, ri_underrun := un,
        ri_writeTimestamp := (ri_writeTimestamp r + nat (num mod int two64)) mod two64\<rparr>"
    have "1 \<le> rb_availSamples ?b0 div n" using False n by (simp add: div_greater_zero_iff Suc_le_eq)
    then have push: "ri_pushBuffer E r = Some (True, r')"
      using t w c seg by (simp add: ri_pushBuffer_def rb_getSegmentLen_def rb_getAvailSegments_def Let_def r'_def)
    have av: "rb_availSamples (bs ! i) = rb_availSamples ?b0 - n" if "i < ?c" for i
      using arg_cong [OF ti [rule_format, OF that, THEN conjunct2, THEN conjunct2, THEN conjunct1], of length]
        tx_inv_avail [OF inv that] by (simp add: rb_stored_length)
    then have "same_avail ?c bs" by (rule same_availI)
    then have "tx_inv n L r'" using inv t ti by (simp add: tx_inv_def r'_def)
    moreover have "tx_dev r' = tx_send E (ri_powerScaling r) n [xss] (tx_dev r)"
      by (simp add: tx_dev_def r'_def w)
    moreover have "xss ! i @ rb_stored (ri_sendBuffer r' ! i) = rb_stored (ri_sendBuffer r ! i)" if "i < ?c" for i
      using ti that by (simp add: r'_def)
    moreover have "ri_chans r' = ?c" "ri_powerScaling r' = ri_powerScaling r"
      "rb_availSamples (ri_sendBuffer r' ! 0) = rb_availSamples ?b0 - n"
      using av [OF c(1)] by (simp_all add: r'_def)
    ultimately show ?thesis using push False by auto
  qed
qed

lemma ri_push_loop_ok:
  assumes "tx_inv n L r" and "rb_availSamples (ri_sendBuffer r ! 0) < fuel"
  shows "\<exists>r' cs. ri_push_loop fuel (ri_pushBuffer E) r = Some r' \<and> tx_inv n L r' \<and> ri_chans r' = ri_chans r \<and>
    tx_dev r' = tx_send E (ri_powerScaling r) n cs (tx_dev r) \<and>
    (\<forall>i < ri_chans r. concat (map (\<lambda>xss. xss ! i) cs) @ rb_stored (ri_sendBuffer r' ! i) = rb_stored (ri_sendBuffer r ! i)) \<and>
    rb_availSamples (ri_sendBuffer r' ! 0) < n"
  using assms
proof (induction fuel arbitrary: r)
  case 0
  then show ?case by simp
next
  case (Suc k)
  note push = ri_pushBuffer_ok [OF Suc.prems(1), of E]
  show ?case
  proof (cases "rb_availSamples (ri_sendBuffer r ! 0) < n")
    case True
    then have "ri_push_loop (Suc k) (ri_pushBuffer E) r = Some r" using push by simp
    then show ?thesis using Suc.prems(1) True by (intro exI [of _ r] exI [of _ "[]"]) simp
  next
    case False
    then obtain r1 xss where p: "ri_pushBuffer E r = Some (True, r1)" "tx_inv n L r1" "ri_chans r1 = ri_chans r"
      "ri_powerScaling r1 = ri_powerScaling r" "tx_dev r1 = tx_send E (ri_powerScaling r) n [xss] (tx_dev r)"
      "\<forall>i < ri_chans r. xss ! i @ rb_stored (ri_sendBuffer r1 ! i) = rb_stored (ri_sendBuffer r ! i)"
      "rb_availSamples (ri_sendBuffer r1 ! 0) = rb_availSamples (ri_sendBuffer r ! 0) - n"
      using push by auto
    have "rb_availSamples (ri_sendBuffer r1 ! 0) < k"
      using p(7) Suc.prems(2) False tx_inv_pos [OF Suc.prems(1)] by simp
    from Suc.IH [OF p(2) this] obtain r' cs where
      IH: "ri_push_loop k (ri_pushBuffer E) r1 = Some r'" "tx_inv n L r'" "ri_chans r' = ri_chans r1"
        "tx_dev r' = tx_send E (ri_powerScaling r1) n cs (tx_dev r1)"
        "rb_availSamples (ri_sendBuffer r' ! 0) < n"
      and st: "\<forall>i < ri_chans r1. concat (map (\<lambda>xss. xss ! i) cs) @ rb_stored (ri_sendBuffer r' ! i) =
        rb_stored (ri_sendBuffer r1 ! i)" by blast
    have "tx_dev r' = tx_send E (ri_powerScaling r) n (xss # cs) (tx_dev r)"
      using IH(4) p(4,5) by (cases "tx_dev r") (simp split: prod.splits)
    moreover have "concat (map (\<lambda>xss. xss ! i) (xss # cs)) @ rb_stored (ri_sendBuffer r' ! i) =
        rb_stored (ri_sendBuffer r ! i)" if "i < ri_chans r" for i
      using st p(3,6) that by simp
    moreover have "ri_push_loop (Suc k) (ri_pushBuffer E) r = Some r'" using p(1) IH(1) by simp
    ultimately show ?thesis using IH(2,3,5) p(3) by metis
  qed
qed

text \<open>The samples that a burst of a channel puts into its buffer.\<close>

definition tx_samples :: "'a::zero list \<times> bool \<Rightarrow> 'a list" where
  "tx_samples burst = (if snd burst then replicate (length (fst burst)) 0 else fst burst)"

lemma ri_radioify_round:
  assumes "k \<le> length (ri_sendBuffer r)"
    and "\<And>i. i < k \<Longrightarrow> rb_out_inv (ri_sendBuffer r ! i) \<and> length (fst (bursts ! i)) \<le> max_samples"
  shows "fold (\<lambda>i r. snd (ri_radioifyVector (fst (bursts ! i)) i (snd (bursts ! i)) r)) [0..<k] r =
    r\<lparr>ri_sendBuffer := map (\<lambda>i. snd (rb_write (tx_samples (bursts ! i)) (ri_sendBuffer r ! i))) [0..<k]
      @ drop k (ri_sendBuffer r)\<rparr>"
  using assms
proof (induction k)
  case 0
  then show ?case by simp
next
  case (Suc k)
  let ?w = "\<lambda>i. snd (rb_write (tx_samples (bursts ! i)) (ri_sendBuffer r ! i))"
  have d: "drop k (ri_sendBuffer r) = ri_sendBuffer r ! k # drop (Suc k) (ri_sendBuffer r)"
    using Suc.prems by (simp add: Cons_nth_drop_Suc)
  have "rb_out_inv (ri_sendBuffer r ! k)" "length (fst (bursts ! k)) \<le> max_samples" using Suc.prems(2) [of k] by simp_all
  from rb_zero_eq_write [OF this]
  have z: "(if snd (bursts ! k) then snd (rb_zero (length (fst (bursts ! k))) (ri_sendBuffer r ! k))
      else snd (rb_write (fst (bursts ! k)) (ri_sendBuffer r ! k))) = ?w k" by (simp add: tx_samples_def)
  have "fold (\<lambda>i r. snd (ri_radioifyVector (fst (bursts ! i)) i (snd (bursts ! i)) r)) [0..<k] r =
      r\<lparr>ri_sendBuffer := map ?w [0..<k] @ drop k (ri_sendBuffer r)\<rparr>" using Suc by simp
  then show ?case using z
    by (cases "snd (bursts ! k)") (simp_all add: ri_radioifyVector_def Let_def d nth_append list_update_append)
qed

text \<open>C3. A transmit call with bursts of one length that fit the send buffers writes to the device, for
  every channel, the samples that were waiting followed by those of its burst (zeros for a burst
  flagged as such), in whole chunks at consecutive times, and keeps less than a chunk; it does not
  drop, repeat or reorder a sample, and it returns.\<close>

theorem driveTransmitRadio_stream:
  assumes on: "ri_on r" and inv: "tx_inv n L r" and bursts: "\<forall>i < ri_chans r. length (fst (bursts ! i)) = m"
    and fit: "rb_availSamples (ri_sendBuffer r ! 0) + m \<le> L"
  shows "\<exists>r' cs. ri_driveTransmitRadio (ri_pushBuffer E) bursts r = Some r' \<and> tx_inv n L r' \<and>
    tx_dev r' = tx_send E (ri_powerScaling r) n cs (tx_dev r) \<and>
    (\<forall>i < ri_chans r. concat (map (\<lambda>xss. xss ! i) cs) @ rb_stored (ri_sendBuffer r' ! i) =
      rb_stored (ri_sendBuffer r ! i) @ tx_samples (bursts ! i)) \<and>
    rb_availSamples (ri_sendBuffer r' ! 0) < n"
proof -
  let ?c = "ri_chans r"
  have c: "0 < ?c" "length (ri_sendBuffer r) = ?c" using inv by (simp_all add: tx_inv_def)
  have b: "rb_out_inv (ri_sendBuffer r ! i)" "rb_segmentLen (ri_sendBuffer r ! i) = n" "rb_bufferLen (ri_sendBuffer r ! i) = L"
    if "i < ?c" for i using inv that by (simp_all add: tx_inv_def)
  have "L \<le> max_samples" using b [OF c(1)] by (auto simp: rb_out_inv_def rb_inv_def)
  then have m: "m \<le> max_samples" using fit by linarith
  let ?w = "\<lambda>i. snd (rb_write (tx_samples (bursts ! i)) (ri_sendBuffer r ! i))"
  have w: "rb_out_inv (?w i) \<and> rb_stored (?w i) = rb_stored (ri_sendBuffer r ! i) @ tx_samples (bursts ! i) \<and>
      rb_segmentLen (?w i) = n \<and> rb_bufferLen (?w i) = L" if i: "i < ?c" for i
  proof -
    have len: "length (tx_samples (bursts ! i)) = m" using bursts i by (simp add: tx_samples_def)
    have inv': "rb_inv (ri_sendBuffer r ! i)" "rb_outDirection (ri_sendBuffer r ! i)"
      using b(1) [OF i] by (simp_all add: rb_out_inv_def)
    have l: "length (tx_samples (bursts ! i)) \<le> max_samples" using len m by simp
    note wr = rb_write_small [OF inv'(1) l]
    have p: "rb_out_put (tx_samples (bursts ! i)) (ri_sendBuffer r ! i) = Some (?w i)"
      using wr inv'(2) len fit b(3) [OF i] tx_inv_avail [OF inv i] by (simp add: rb_out_put_def)
    show ?thesis using rb_out_put_stored [OF b(1) [OF i] l p] wr b [OF i] by simp
  qed
  define r1 where "r1 = r\<lparr>ri_sendBuffer := map ?w [0..<?c]\<rparr>"
  have r1: "ri_radioify_all bursts r = r1"
    using ri_radioify_round [of ?c r bursts] c b bursts m by (simp add: ri_radioify_all_def r1_def)
  have "rb_availSamples (?w i) = rb_availSamples (ri_sendBuffer r ! 0) + m" if "i < ?c" for i
    using arg_cong [OF w [OF that, THEN conjunct2, THEN conjunct1], of length] tx_inv_avail [OF inv that] bursts that
    by (simp add: rb_stored_length tx_samples_def)
  then have "same_avail ?c (map ?w [0..<?c])" by (intro same_availI) simp
  then have inv1: "tx_inv n L r1" using inv w by (simp add: tx_inv_def r1_def)
  from ri_push_loop_ok [OF inv1 lessI, of E] obtain r' cs where
    l: "ri_push_loop (Suc (rb_availSamples (ri_sendBuffer r1 ! 0))) (ri_pushBuffer E) r1 = Some r'"
      "tx_inv n L r'" "tx_dev r' = tx_send E (ri_powerScaling r1) n cs (tx_dev r1)"
      "rb_availSamples (ri_sendBuffer r' ! 0) < n"
    and st: "\<forall>i < ri_chans r1. concat (map (\<lambda>xss. xss ! i) cs) @ rb_stored (ri_sendBuffer r' ! i) =
      rb_stored (ri_sendBuffer r1 ! i)" by blast
  have "ri_driveTransmitRadio (ri_pushBuffer E) bursts r = Some r'"
    using on l(1) by (simp add: ri_driveTransmitRadio_def r1 Let_def rb_getAvailSamples_def)
  moreover have "tx_dev r1 = tx_dev r" "ri_powerScaling r1 = ri_powerScaling r" by (simp_all add: r1_def tx_dev_def)
  moreover have "concat (map (\<lambda>xss. xss ! i) cs) @ rb_stored (ri_sendBuffer r' ! i) =
      rb_stored (ri_sendBuffer r ! i) @ tx_samples (bursts ! i)" if "i < ?c" for i
    using st that w [OF that] by (simp add: r1_def)
  ultimately show ?thesis using l(2-4) by metis
qed

theorem driveTransmitRadio_stream_witness:
  "\<exists>r'. ri_driveTransmitRadio (ri_pushBuffer idle_env) [(replicate 700 3, False)] idle_radio = Some r' \<and>
    rb_availSamples (ri_sendBuffer r' ! 0) < 625"
proof -
  have "rb_inv (rb_new (\<lambda>i. 0 :: int) 4 625 0 True)" by (rule rb_new_inv) simp_all
  then have "rb_out_inv (rb_new (\<lambda>i. 0 :: int) 4 625 0 True)"
    by (simp add: rb_out_inv_def) (simp add: rb_new_def Let_def)
  then have inv: "tx_inv 625 2500 idle_radio"
    by (simp add: tx_inv_def idle_radio_def ri_init_def ri_new_def ri_close_def idle_env_def same_avail_def
        Let_def NUMCHUNKS_def CHUNK_def) (simp add: rb_new_def Let_def)
  have "rb_availSamples (ri_sendBuffer idle_radio ! 0) = 0" "ri_on idle_radio" "ri_chans idle_radio = 1"
    by (simp_all add: idle_radio_def ri_init_def ri_new_def ri_close_def Let_def rb_new_def)
  then show ?thesis
    using driveTransmitRadio_stream [OF _ inv, of "[(replicate 700 3, False)]" 700 idle_env] by auto
qed

end
