(* ===== verification/RadioMulti.thy ===== *)
theory RadioMulti
  imports RadioInterface
begin

text \<open>
  The multi-carrier radio interface of \<^verbatim>\<open>Transceiver52M/radioInterfaceMulti.cpp\<close>: up to three logical
  channels on a bank of four physical ones. It overrides \<open>init\<close>, \<open>close\<close>, \<open>pullBuffer\<close>, \<open>pushBuffer\<close>, the
  tuning and the receive gain; \<open>rm_base\<close> is the part it inherits.

  The resamplers, the channelizer and the synthesis filter are parameters: their sizes, whether they
  initialise, and what their \<open>rotate\<close> computes. The channelizer's output buffer of a channel has room for
  the history in front of it: \<open>chz_output\<close> gives the samples themselves, and the resampler takes the
  history and the samples as two arguments. A C++ call on a null object or segment is \<open>None\<close>.
\<close>

section \<open>State\<close>

record ('a, 'c, 's) multi_env =
  dn_init :: bool
  up_init :: bool
  chz_init :: bool
  syn_init :: bool
  dn_len :: nat
  up_len :: nat
  dn_rotate :: "'a list \<Rightarrow> 'a list \<Rightarrow> nat \<Rightarrow> int \<times> 'a list"
  up_rotate :: "'a list \<Rightarrow> 'a list \<Rightarrow> nat \<Rightarrow> int \<times> 'a list"
  chz_new :: 'c
  chz_inputLen :: nat
  chz_rotate :: "'a list \<Rightarrow> 'c \<Rightarrow> 'c"
  chz_output :: "nat \<Rightarrow> 'c \<Rightarrow> 'a list"
  syn_new :: 's
  syn_inputLen :: nat
  syn_outputLen :: nat
  syn_resetBuffer :: "nat \<Rightarrow> 's \<Rightarrow> 's"
  syn_setInput :: "nat \<Rightarrow> 'a list \<Rightarrow> 's \<Rightarrow> 's"
  syn_rotate :: "'s \<Rightarrow> 'a list \<times> 's"

record ('a, 'd, 'c, 's) radio_multi =
  rm_base :: "('a, 'd) radio_interface"
  rm_history :: "'a list list"
  rm_active :: "bool list"
  rm_filters :: "('c \<times> 's) option"

definition RESAMP_INRATE :: nat where "RESAMP_INRATE = 65"
definition RESAMP_OUTRATE :: nat where "RESAMP_OUTRATE = 96 div 2"
definition MULTI_NUMCHUNKS :: nat where "MULTI_NUMCHUNKS = 24"
definition MCHANS :: nat where "MCHANS = 4"
definition MCBTS_SPACING :: real where "MCBTS_SPACING = 800000"

definition rm_close :: "('a, 'd, 'c, 's) radio_multi \<Rightarrow> ('a, 'd, 'c, 's) radio_multi" where
  "rm_close m = m\<lparr>rm_filters := None, rm_history := [], rm_active := [],
     rm_base := ri_close ((rm_base m)\<lparr>ri_receiveFIFO := [], ri_powerScaling := []\<rparr>)\<rparr>"

definition getLogicalChan :: "nat \<Rightarrow> nat \<Rightarrow> int" where
  "getLogicalChan pchan chans =
    (if chans = 1 then (if pchan = 0 then 0 else -1)
     else if chans = 2 then (if pchan = 0 then 0 else if pchan = 3 then 1 else -1)
     else if chans = 3 then
       (if pchan = 1 then 0 else if pchan = 0 then 1 else if pchan = 3 then 2 else -1)
     else -1)"

definition getFreqShift :: "nat \<Rightarrow> int" where
  "getFreqShift chans = (if chans = 1 then 0 else if chans = 2 then 0 else if chans = 3 then 1 else -1)"

definition rm_active_map :: "nat \<Rightarrow> bool list option" where
  "rm_active_map chans =
    (let a = replicate MCHANS False
     in if chans = 1 then Some (a[0 := True])
        else if chans = 2 then Some (a[0 := True, 3 := True])
        else if chans = 3 then Some (a[0 := True, 1 := True, 3 := True])
        else None)"

definition rm_init :: "('a, 'h, 'd) radio_env \<Rightarrow> ('a, 'c, 's) multi_env \<Rightarrow> ('a, 'd, 'c, 's) radio_multi \<Rightarrow>
    bool \<times> ('a, 'd, 'c, 's) radio_multi" where
  "rm_init E M m0 =
    (let chans = ri_chans (rm_base m0)
     in if chans > MCHANS - 1 then (False, m0)
        else
          let m = rm_close m0;
              inchunk = RESAMP_INRATE * 4;
              m1 = m\<lparr>rm_base := (rm_base m)\<lparr>ri_receiveFIFO := replicate chans pf_new, ri_powerScaling := replicate chans 0\<rparr>,
                     rm_active := replicate MCHANS False, rm_history := replicate chans []\<rparr>
          in if inchunk * MULTI_NUMCHUNKS < 625 * 2 then (False, m1)
             else if \<not> dn_init M \<or> \<not> up_init M \<or> \<not> chz_init M \<or> \<not> syn_init M then (False, m1)
             else
               let m2 = m1\<lparr>
                 rm_base := (rm_base m1)\<lparr>
                   ri_sendBuffer := replicate chans (rb_new (new_floats E) MULTI_NUMCHUNKS inchunk (up_len M) True),
                   ri_recvBuffer := replicate chans (rb_new (new_floats E) MULTI_NUMCHUNKS inchunk 0 False)\<rparr>,
                 rm_history := replicate chans (new_vector E (dn_len M) 0),
                 rm_filters := Some (chz_new M, fold (syn_resetBuffer M) [0..<chans] (syn_new M))\<rparr>
               in case rm_active_map chans of
                    None \<Rightarrow> (False, m2)
                  | Some act \<Rightarrow> (True, m2\<lparr>rm_active := act\<rparr>))"

section \<open>Receiving\<close>

text \<open>
  The samples of one physical channel go through the resampler with the channel's history in front.
  After the copy of the history to the front of the buffer \<open>fdst\<close> points at the first output sample,
  and the loop that stores the new history copies from \<open>fdst\<close>, which does not move, and not from
  \<open>fsrc\<close>, which does.
\<close>

definition rm_new_history :: "nat \<Rightarrow> 'a list \<Rightarrow> 'a list" where
  "rm_new_history hLen out = map (\<lambda>i. out ! 0) [0..<hLen]"

definition rm_pull_chan :: "('a, 'c, 's) multi_env \<Rightarrow> 'c \<Rightarrow> nat \<Rightarrow> ('a, 'd, 'c, 's) radio_multi \<Rightarrow>
    ('a, 'd, 'c, 's) radio_multi option" where
  "rm_pull_chan M ch pchan m =
    (if \<not> rm_active m ! pchan then Some m
     else
       let lchan = getLogicalChan pchan (ri_chans (rm_base m))
       in if lchan < 0 then Some m
          else
            let l = nat lchan;
                out = chz_output M pchan ch;
                hist = rm_history m ! l;
                b = ri_recvBuffer (rm_base m) ! l
            in case rb_getWriteSegment b of
                 None \<Rightarrow> None
               | Some (segment, b1) \<Rightarrow>
                   let (rc, ys) = dn_rotate M hist out (rb_getSegmentLen b1);
                       b2 = b1\<lparr>rb_buffer := blit (rb_buffer b1) segment ys\<rparr>
                   in Some (m\<lparr>rm_history := (rm_history m)[l := rm_new_history (dn_len M) out],
                              rm_base := (rm_base m)\<lparr>ri_recvBuffer := (ri_recvBuffer (rm_base m))[l := b2]\<rparr>\<rparr>))"

fun rm_pull_chans :: "('a, 'c, 's) multi_env \<Rightarrow> 'c \<Rightarrow> nat list \<Rightarrow> ('a, 'd, 'c, 's) radio_multi \<Rightarrow>
    ('a, 'd, 'c, 's) radio_multi option" where
  "rm_pull_chans M ch [] m = Some m"
| "rm_pull_chans M ch (p # ps) m =
    (case rm_pull_chan M ch p m of None \<Rightarrow> None | Some m' \<Rightarrow> rm_pull_chans M ch ps m')"

definition rm_pullBuffer :: "('a, 'h, 'd) radio_env \<Rightarrow> ('a, 'c, 's) multi_env \<Rightarrow> ('a, 'd, 'c, 's) radio_multi \<Rightarrow>
    (int \<times> ('a, 'd, 'c, 's) radio_multi) option" where
  "rm_pullBuffer E M m =
    (let r = rm_base m
     in if rb_getFreeSegments (ri_recvBuffer r ! 0) \<le> 0 then Some (-1, m)
        else
          case rm_filters m of
            None \<Rightarrow> None
          | Some (ch, sy) \<Rightarrow>
              let (num, bufs, overrun, local_underrun, d) =
                    dev_readSamples E (chz_inputLen M) (ri_overrun r) (ri_readTimestamp r) (ri_radio r);
                  r1 = r\<lparr>ri_radio := d, ri_overrun := overrun\<rparr>
              in if num \<noteq> int (chz_inputLen M) then Some (-1, m\<lparr>rm_base := r1\<rparr>)
                 else
                   let outer = map (convert_short_float E) (bufs ! 0);
                       r2 = r1\<lparr>ri_underrun := ri_underrun r1 \<or> local_underrun,
                               ri_readTimestamp := u64_add (ri_readTimestamp r1) (chz_inputLen M)\<rparr>;
                       ch' = chz_rotate M outer ch
                   in map_option (\<lambda>m'. (0, m'))
                        (rm_pull_chans M ch' [0..<MCHANS] (m\<lparr>rm_base := r2, rm_filters := Some (ch', sy)\<rparr>)))"

section \<open>Transmitting\<close>

fun rm_push_chans :: "('a, 'c, 's) multi_env \<Rightarrow> nat list \<Rightarrow> 's \<Rightarrow> ('a, 'd, 'c, 's) radio_multi \<Rightarrow>
    ('s \<times> ('a, 'd, 'c, 's) radio_multi) option" where
  "rm_push_chans M [] sy m = Some (sy, m)"
| "rm_push_chans M (p # ps) sy m =
    (if \<not> rm_active m ! p then rm_push_chans M ps (syn_resetBuffer M p sy) m
     else
       let lchan = getLogicalChan p (ri_chans (rm_base m))
       in if lchan < 0 then rm_push_chans M ps sy m
          else
            let l = nat lchan; b = ri_sendBuffer (rm_base m) ! l
            in case rb_getReadSegment b of
                 None \<Rightarrow> None
               | Some (segment, b1) \<Rightarrow>
                   let (rc, ys) = up_rotate M (slice (rb_buffer b1) (segment - rb_hLen b1) (rb_hLen b1))
                                    (slice (rb_buffer b1) segment (rb_getSegmentLen b1)) (syn_inputLen M)
                   in rm_push_chans M ps (syn_setInput M p ys sy)
                        (m\<lparr>rm_base := (rm_base m)\<lparr>ri_sendBuffer := (ri_sendBuffer (rm_base m))[l := b1]\<rparr>\<rparr>))"

definition rm_pushBuffer :: "('a, 'h, 'd) radio_env \<Rightarrow> ('a, 'c, 's) multi_env \<Rightarrow> ('a, 'd, 'c, 's) radio_multi \<Rightarrow>
    (bool \<times> ('a, 'd, 'c, 's) radio_multi) option" where
  "rm_pushBuffer E M m =
    (if rb_getAvailSegments (ri_sendBuffer (rm_base m) ! 0) \<le> 0 then Some (False, m)
     else
       case rm_filters m of
         None \<Rightarrow> None
       | Some (ch, sy) \<Rightarrow>
           (case rm_push_chans M [0..<MCHANS] sy m of
              None \<Rightarrow> None
            | Some (sy1, m1) \<Rightarrow>
                let (outer, sy2) = syn_rotate M sy1;
                    r = rm_base m1;
                    buf = map (convert_float_short E (1 / real (ri_chans r))) outer;
                    (num, underrun, d) = dev_writeSamples E [buf] (syn_outputLen M) (ri_underrun r) (ri_writeTimestamp r) (ri_radio r)
                in Some (True, m1\<lparr>rm_filters := Some (ch, sy2),
                     rm_base := r\<lparr>ri_radio := d, ri_underrun := underrun,
                       ri_writeTimestamp := (ri_writeTimestamp r + nat (num mod int two64)) mod two64\<rparr>\<rparr>)))"

section \<open>Tuning\<close>

definition rm_fltcmp :: "real \<Rightarrow> real \<Rightarrow> bool" where
  "rm_fltcmp a b \<longleftrightarrow> \<bar>a - b\<bar> < 10"

text \<open>Channel 0 tunes the device, the others only compare and log; the log line is the second result.\<close>

definition rm_tuneTx :: "('a, 'h, 'd) radio_env \<Rightarrow> real \<Rightarrow> nat \<Rightarrow> ('a, 'd, 'c, 's) radio_multi \<Rightarrow>
    bool \<times> bool \<times> ('a, 'd, 'c, 's) radio_multi" where
  "rm_tuneTx E freq chan m =
    (let r = rm_base m; shift = real_of_int (getFreqShift (ri_chans r))
     in if chan \<ge> ri_chans r then (False, False, m)
        else if chan = 0 then
          let (ok, d) = dev_setTxFreq E (freq + shift * MCBTS_SPACING) 0 (ri_radio r)
          in (ok, False, m\<lparr>rm_base := r\<lparr>ri_radio := d\<rparr>\<rparr>)
        else (True, \<not> rm_fltcmp freq (dev_getTxFreq E 0 (ri_radio r) + (real chan - shift) * MCBTS_SPACING), m))"

definition rm_tuneRx :: "('a, 'h, 'd) radio_env \<Rightarrow> real \<Rightarrow> nat \<Rightarrow> ('a, 'd, 'c, 's) radio_multi \<Rightarrow>
    bool \<times> bool \<times> ('a, 'd, 'c, 's) radio_multi" where
  "rm_tuneRx E freq chan m =
    (let r = rm_base m; shift = real_of_int (getFreqShift (ri_chans r))
     in if chan \<ge> ri_chans r then (False, False, m)
        else if chan = 0 then
          let (ok, d) = dev_setRxFreq E (freq + shift * MCBTS_SPACING) 0 (ri_radio r)
          in (ok, False, m\<lparr>rm_base := r\<lparr>ri_radio := d\<rparr>\<rparr>)
        else (True, \<not> rm_fltcmp freq (dev_getRxFreq E 0 (ri_radio r) + (real chan - shift) * MCBTS_SPACING), m))"

definition rm_setRxGain :: "('a, 'h, 'd) radio_env \<Rightarrow> real \<Rightarrow> nat \<Rightarrow> ('a, 'd, 'c, 's) radio_multi \<Rightarrow>
    real \<times> ('a, 'd, 'c, 's) radio_multi" where
  "rm_setRxGain E db chan m =
    (let r = rm_base m
     in if chan = 0 then
          let (g, d) = dev_setRxGain E db 0 (ri_radio r) in (g, m\<lparr>rm_base := r\<lparr>ri_radio := d\<rparr>\<rparr>)
        else (dev_getRxGain E 0 (ri_radio r), m))"

section \<open>Properties\<close>

lemma less_4_cases: "(p::nat) < 4 \<longleftrightarrow> p = 0 \<or> p = 1 \<or> p = 2 \<or> p = 3"
  by auto

text \<open>For each supported number of channels the active physical channels that \<open>init\<close> sets are exactly
  those with a logical channel, and each logical channel has exactly one physical channel, so no two
  carriers share a buffer and none is left out; any other number of channels is refused.\<close>

theorem multi_channel_map:
  "case rm_active_map chans of
     None \<Rightarrow> chans \<notin> {1, 2, 3}
   | Some act \<Rightarrow> chans \<in> {1, 2, 3} \<and> length act = MCHANS \<and>
       (\<forall>p \<in> {..<MCHANS}. act ! p \<longleftrightarrow> 0 \<le> getLogicalChan p chans) \<and>
       bij_betw (\<lambda>p. nat (getLogicalChan p chans)) {p. p < MCHANS \<and> act ! p} {..<chans}"
proof -
  have tgt: "{..<1::nat} = {0}" "{..<2::nat} = {0, 1}" "{..<3::nat} = {0, 1, 2}" by auto
  have e4: "replicate 4 False = [False, False, False, False]" by (simp add: numeral_eq_Suc)
  have all: "(\<forall>p \<in> {..<4::nat}. Q p) \<longleftrightarrow> Q 0 \<and> Q 1 \<and> Q 2 \<and> Q 3" for Q by (auto simp: less_4_cases)
  consider "chans = 1" | "chans = 2" | "chans = 3" | "chans \<notin> {1, 2, 3}" by auto
  then show ?thesis
  proof cases
    case 1
    have s: "{p. p < (4::nat) \<and> [True, False, False, False] ! p} = {0}" by (auto simp: less_4_cases)
    have "bij_betw (\<lambda>p. nat (getLogicalChan p 1)) {0} {..<1}"
      by (auto simp: bij_betw_def getLogicalChan_def)
    then show ?thesis using 1 by (simp add: rm_active_map_def MCHANS_def e4 s all getLogicalChan_def del: lessThan_iff)
  next
    case 2
    have s: "{p. p < (4::nat) \<and> [True, False, False, True] ! p} = {0, 3}" by (auto simp: less_4_cases)
    have "bij_betw (\<lambda>p. nat (getLogicalChan p 2)) {0, 3} {..<2}"
      by (simp add: bij_betw_def getLogicalChan_def tgt insert_commute)
    then show ?thesis using 2 by (simp add: rm_active_map_def MCHANS_def e4 s all getLogicalChan_def del: lessThan_iff)
  next
    case 3
    have s: "{p. p < (4::nat) \<and> [True, True, False, True] ! p} = {0, 1, 3}" by (auto simp: less_4_cases)
    have "bij_betw (\<lambda>p. nat (getLogicalChan p 3)) {0, 1, 3} {..<3}"
      by (simp add: bij_betw_def getLogicalChan_def tgt insert_commute)
    then show ?thesis using 3 by (simp add: rm_active_map_def MCHANS_def e4 s all getLogicalChan_def del: lessThan_iff)
  next
    case 4
    then show ?thesis by (simp add: rm_active_map_def)
  qed
qed

theorem multi_channel_map_witness:
  "0 \<le> getLogicalChan 3 3 \<and> \<not> 0 \<le> getLogicalChan 2 3"
proof -
  have "\<forall>p \<in> {..<MCHANS}. [True, True, False, True] ! p \<longleftrightarrow> 0 \<le> getLogicalChan p 3"
    using multi_channel_map [of 3] by (simp add: rm_active_map_def MCHANS_def numeral_eq_Suc)
  from bspec [OF this, of 3] bspec [OF this, of 2] show ?thesis by (simp add: MCHANS_def numeral_eq_Suc)
qed

text \<open>On a device that reports the frequency it was tuned to, tuning channel 0 to a frequency and then
  another channel to its place in the 800 kHz raster above it succeeds and reports no offset; a
  frequency 10 Hz or more away from the raster is reported, and tunes nothing.\<close>

theorem multi_tune_raster:
  assumes "0 < chan" and "chan < ri_chans (rm_base m)"
    and set: "dev_setTxFreq E (f + real_of_int (getFreqShift (ri_chans (rm_base m))) * MCBTS_SPACING) 0 (ri_radio (rm_base m)) = (True, d)"
    and get: "dev_getTxFreq E 0 d = f + real_of_int (getFreqShift (ri_chans (rm_base m))) * MCBTS_SPACING"
  shows "case rm_tuneTx E f 0 m of (ok, off, m') \<Rightarrow> ok \<and> \<not> off \<and>
    (\<exists>off'. rm_tuneTx E g chan m' = (True, off', m') \<and> (off' \<longleftrightarrow> 10 \<le> \<bar>g - (f + real chan * MCBTS_SPACING)\<bar>))"
proof -
  let ?s = "real_of_int (getFreqShift (ri_chans (rm_base m)))"
  have e: "f + ?s * MCBTS_SPACING + (real chan - ?s) * MCBTS_SPACING = f + real chan * MCBTS_SPACING"
    by (simp add: algebra_simps)
  show ?thesis using assms
    by (simp add: rm_tuneTx_def Let_def rm_fltcmp_def not_less e)
qed

definition raster_env :: "(int, int, real) radio_env" where
  "raster_env = \<lparr>dev_start = \<lambda>d. (True, d), dev_stop = \<lambda>d. (True, d), dev_requiresRadioAlign = \<lambda>d. False,
     dev_updateAlignment = \<lambda>ts d. (True, d), dev_initialWriteTimestamp = \<lambda>d. 0, dev_initialReadTimestamp = \<lambda>d. 0,
     dev_readSamples = \<lambda>len ov ts d. (0, [], ov, False, d), dev_writeSamples = \<lambda>bufs len un ts d. (int len, un, d),
     dev_setTxFreq = \<lambda>f ch d. (True, f), dev_setRxFreq = \<lambda>f ch d. (True, f), dev_getTxFreq = \<lambda>ch d. d,
     dev_getRxFreq = \<lambda>ch d. d, dev_setTxGain = \<lambda>g ch d. (g, d), dev_setRxGain = \<lambda>g ch d. (g, d),
     dev_getRxGain = \<lambda>ch d. 0, dev_maxTxGain = \<lambda>d. 0, dev_fullScaleInputValue = \<lambda>d. 1,
     dev_fullScaleOutputValue = \<lambda>d. 1, convert_short_float = id, convert_float_short = \<lambda>g x. x,
     new_vector = \<lambda>n h. replicate n 0, new_floats = \<lambda>i. 0\<rparr>"

theorem multi_tune_raster_witness:
  "\<exists>m' :: (int, real, unit, unit) radio_multi. \<exists>off.
     rm_tuneTx raster_env (945000000 + 2 * 800000) 2 m' = (True, off, m') \<and> \<not> off"
proof -
  let ?m = "\<lparr>rm_base = ri_new 0 4 4 3 3 (Time 0 0) 0, rm_history = [], rm_active = [], rm_filters = None\<rparr>
    :: (int, real, unit, unit) radio_multi"
  have "ri_chans (rm_base ?m) = 3" by (simp add: ri_new_def)
  then show ?thesis
    using multi_tune_raster [of 2 ?m raster_env 945000000 "945000000 + 800000" "945000000 + 2 * 800000"]
    by (auto simp: raster_env_def getFreqShift_def MCBTS_SPACING_def split: prod.splits)
qed

text \<open>The history that the resampler is given for the next chunk of a channel is the first sample of this
  chunk, over and over, and not its last \<open>hLen\<close> samples.\<close>

lemma multi_history_constant:
  assumes "rm_pull_chan M ch p m = Some m'" and "rm_active m ! p" and "0 \<le> getLogicalChan p (ri_chans (rm_base m))"
    and "nat (getLogicalChan p (ri_chans (rm_base m))) < length (rm_history m)"
  shows "rm_history m' ! nat (getLogicalChan p (ri_chans (rm_base m))) =
    replicate (dn_len M) (chz_output M p ch ! 0)"
  using assms
  by (auto simp: rm_pull_chan_def rm_new_history_def Let_def map_replicate_const split: option.splits prod.splits)

end
