(* ===== verification/RadioResamp.thy ===== *)
theory RadioResamp
  imports RadioInterface
begin

text \<open>
  The resampling radio interface of \<^verbatim>\<open>Transceiver52M/radioInterfaceResamp.cpp\<close>, for devices whose
  clock is not a multiple of the GSM symbol rate: one channel, with \<open>init\<close>, \<open>close\<close>, \<open>pullBuffer\<close> and
  \<open>pushBuffer\<close> of its own. The resamplers are parameters: their lengths, whether they initialise, and
  what \<open>rotate\<close> computes from a history and a chunk. The file's static variables are part of the state.
\<close>

record 'a resamp_env =
  rs_dn_init :: bool
  rs_up_init :: "real \<Rightarrow> bool"
  rs_dn_len :: nat
  rs_up_len :: nat
  rs_dn_rotate :: "'a list \<Rightarrow> 'a list \<Rightarrow> nat \<Rightarrow> int \<times> 'a list"
  rs_up_rotate :: "'a list \<Rightarrow> 'a list \<Rightarrow> nat \<Rightarrow> int \<times> 'a list"

text \<open>\<open>rr_outer\<close> is the receive vector with its history in front; \<open>None\<close> while the objects are not there.
  \<open>rr_leaked\<close> counts the sample buffers that \<open>close\<close> forgets.\<close>

record ('a, 'd) radio_resamp =
  rr_base :: "('a, 'd) radio_interface"
  rr_inchunk :: nat
  rr_outchunk :: nat
  rr_outer :: "('a list \<times> 'a list) option"
  rr_leaked :: nat

definition RESAMP_NUMCHUNKS :: nat where "RESAMP_NUMCHUNKS = 24"

text \<open>\<open>close\<close> sets the first pointer of each buffer vector to null before the base class deletes what the
  vectors hold.\<close>

definition rr_close :: "('a, 'd) radio_resamp \<Rightarrow> ('a, 'd) radio_resamp" where
  "rr_close m = m\<lparr>rr_outer := None,
     rr_leaked := rr_leaked m + min 1 (length (ri_sendBuffer (rr_base m))) + min 1 (length (ri_recvBuffer (rr_base m))),
     rr_base := ri_close (rr_base m)\<rparr>"

definition rr_rates :: "interface_type \<Rightarrow> (nat \<times> nat) option" where
  "rr_rates type =
    (case type of RESAMP_64M \<Rightarrow> Some (65, 96) | RESAMP_100M \<Rightarrow> Some (52, 75) | _ \<Rightarrow> None)"

definition rr_init :: "('a, 'h, 'd) radio_env \<Rightarrow> 'a resamp_env \<Rightarrow> interface_type \<Rightarrow> ('a, 'd) radio_resamp \<Rightarrow>
    bool \<times> ('a, 'd) radio_resamp" where
  "rr_init E M type m0 =
    (let m = rr_close m0; b = rr_base m;
         m1 = m\<lparr>rr_base := b\<lparr>ri_receiveFIFO := vec_resize 1 pf_new (ri_receiveFIFO b),
                               ri_powerScaling := vec_resize 1 0 (ri_powerScaling b)\<rparr>\<rparr>
     in case rr_rates type of
          None \<Rightarrow> (False, m1)
        | Some (inrate, outrate) \<Rightarrow>
            let inchunk = inrate * 4 * ri_SPSRx b; outchunk = outrate * 4 * ri_SPSRx b;
                cutoff = (if ri_SPSTx b = 4 then 0.45 else 1);
                m2 = m1\<lparr>rr_inchunk := inchunk, rr_outchunk := outchunk\<rparr>
            in if \<not> rs_dn_init M \<or> \<not> rs_up_init M cutoff then (False, m2)
               else (True, m2\<lparr>
                 rr_base := (rr_base m2)\<lparr>
                   ri_sendBuffer := [rb_new (new_floats E) RESAMP_NUMCHUNKS inchunk (rs_up_len M) True],
                   ri_recvBuffer := [rb_new (new_floats E) (RESAMP_NUMCHUNKS * 20) inchunk 0 False]\<rparr>,
                 rr_outer := Some (new_vector E (rs_dn_len M) 0, new_vector E outchunk (rs_dn_len M))\<rparr>))"

text \<open>\<open>updateHistory\<close> copies the last samples of the vector to the history in front of it.\<close>

definition rr_updateHistory :: "'a list \<times> 'a list \<Rightarrow> 'a list \<times> 'a list" where
  "rr_updateHistory v = (let (h, xs) = v in (drop (length xs - length h) xs, xs))"

definition rr_pullBuffer :: "('a, 'h, 'd) radio_env \<Rightarrow> 'a resamp_env \<Rightarrow> ('a, 'd) radio_resamp \<Rightarrow>
    (int \<times> ('a, 'd) radio_resamp) option" where
  "rr_pullBuffer E M m =
    (let r = rr_base m
     in if rb_getFreeSegments (ri_recvBuffer r ! 0) \<le> 0 then Some (-1, m)
        else
          let (num, bufs, overrun, local_underrun, d) =
                dev_readSamples E (rr_outchunk m) (ri_overrun r) (ri_readTimestamp r) (ri_radio r);
              r1 = r\<lparr>ri_radio := d, ri_overrun := overrun\<rparr>
          in if num \<noteq> int (rr_outchunk m) then Some (-1, m\<lparr>rr_base := r1\<rparr>)
             else
               case (rr_outer m, rb_getWriteSegment (ri_recvBuffer r1 ! 0)) of
                 (Some (hist, _), Some (segment, b1)) \<Rightarrow>
                   let outer = map (convert_short_float E) (bufs ! 0);
                       (rc, ys) = rs_dn_rotate M hist outer (rr_inchunk m);
                       b2 = b1\<lparr>rb_buffer := blit (rb_buffer b1) segment ys\<rparr>
                   in Some (0, m\<lparr>
                        rr_base := r1\<lparr>ri_recvBuffer := (ri_recvBuffer r1)[0 := b2],
                                      ri_underrun := ri_underrun r1 \<or> local_underrun,
                                      ri_readTimestamp := u64_add (ri_readTimestamp r1) (rr_outchunk m)\<rparr>,
                        rr_outer := Some (rr_updateHistory (hist, outer))\<rparr>)
               | _ \<Rightarrow> None)"

definition rr_pushBuffer :: "('a, 'h, 'd) radio_env \<Rightarrow> 'a resamp_env \<Rightarrow> ('a, 'd) radio_resamp \<Rightarrow>
    (bool \<times> ('a, 'd) radio_resamp) option" where
  "rr_pushBuffer E M m =
    (let r = rr_base m
     in if rb_getAvailSegments (ri_sendBuffer r ! 0) \<le> 0 then Some (False, m)
        else
          case rb_getReadSegment (ri_sendBuffer r ! 0) of
            None \<Rightarrow> None
          | Some (segment, b1) \<Rightarrow>
              let (rc, outer) = rs_up_rotate M (slice (rb_buffer b1) (segment - rb_hLen b1) (rb_hLen b1))
                                  (slice (rb_buffer b1) segment (rr_inchunk m)) (rr_outchunk m);
                  buf = map (convert_float_short E (ri_powerScaling r ! 0)) outer;
                  (num, underrun, d) = dev_writeSamples E [buf] (rr_outchunk m) (ri_underrun r) (ri_writeTimestamp r) (ri_radio r)
              in Some (True, m\<lparr>rr_base := r\<lparr>ri_radio := d, ri_underrun := underrun,
                   ri_sendBuffer := (ri_sendBuffer r)[0 := b1],
                   ri_writeTimestamp := u64_add (ri_writeTimestamp r) (rr_outchunk m)\<rparr>\<rparr>))"

section \<open>Properties\<close>

text \<open>The resampler sees one gapless stream: in a run of successful pulls each chunk from the device is
  resampled with the last samples of the chunk before it as its history.\<close>

theorem resamp_history:
  assumes "rr_pullBuffer E M m = Some (0, m1)" and "rr_outer m1 = Some (h1, xs1)"
    and "rr_outer m = Some (h0, xs0)"
    and "dev_readSamples E (rr_outchunk m) (ri_overrun (rr_base m)) (ri_readTimestamp (rr_base m)) (ri_radio (rr_base m))
      = (num, bufs, ov, un, d)"
  shows "num = int (rr_outchunk m) \<and>
    h1 = drop (length (bufs ! 0) - length h0) (map (convert_short_float E) (bufs ! 0)) \<and>
    (length h0 \<le> length (bufs ! 0) \<longrightarrow> length h1 = length h0) \<and>
    ri_readTimestamp (rr_base m1) = u64_add (ri_readTimestamp (rr_base m)) (rr_outchunk m)"
  using assms
  by (auto simp: rr_pullBuffer_def rr_updateHistory_def Let_def split: if_splits option.splits prod.splits)

text \<open>The transmit gain of a fresh interface is 0, so nothing is sent until the first power setting.\<close>

lemma resamp_initial_gain:
  assumes "fst (rr_init E M type m)" and "ri_powerScaling (rr_base m) = []"
  shows "ri_powerScaling (rr_base (snd (rr_init E M type m))) = [0]"
  using assms
  by (auto simp: rr_init_def rr_close_def ri_close_def vec_resize_def Let_def split: option.splits if_splits prod.splits)

text \<open>A second \<open>init\<close> loses the two sample buffers of the first.\<close>

lemma rr_init_result:
  assumes "fst (rr_init E M type m)"
  shows "length (ri_sendBuffer (rr_base (snd (rr_init E M type m)))) = 1 \<and>
    length (ri_recvBuffer (rr_base (snd (rr_init E M type m)))) = 1"
  using assms by (auto simp: rr_init_def Let_def split: option.splits if_splits prod.splits)

lemma rr_init_leaked: "rr_leaked (snd (rr_init E M type m)) = rr_leaked (rr_close m)"
  by (simp add: rr_init_def Let_def split: option.split prod.split)

lemma resamp_reinit_leaks:
  assumes "fst (rr_init E M type m)"
  shows "rr_leaked (snd (rr_init E M type (snd (rr_init E M type m)))) = rr_leaked (snd (rr_init E M type m)) + 2"
  using rr_init_result [OF assms] unfolding rr_init_leaked [of E M type "snd (rr_init E M type m)"]
  by (simp add: rr_close_def)

theorem resamp_history_witness:
  "\<exists>m1 h1 xs1. rr_pullBuffer (idle_env :: (int, int, nat) radio_env)
      \<lparr>rs_dn_init = True, rs_up_init = \<lambda>c. True, rs_dn_len = 1, rs_up_len = 1,
       rs_dn_rotate = \<lambda>h x n. (0, replicate n 1), rs_up_rotate = \<lambda>h x n. (0, replicate n 1)\<rparr>
      \<lparr>rr_base = (ri_new 0 1 1 1 3 (Time 0 0) 0)\<lparr>ri_recvBuffer := [rb_new (\<lambda>i. 0) 2 2 0 False]\<rparr>,
       rr_inchunk = 2, rr_outchunk = 3, rr_outer = Some ([0], []), rr_leaked = 0\<rparr> = Some (0, m1) \<and>
    rr_outer m1 = Some (h1, xs1) \<and> h1 = [5]"
proof -
  let ?E = "idle_env :: (int, int, nat) radio_env"
  let ?M = "\<lparr>rs_dn_init = True, rs_up_init = \<lambda>c. True, rs_dn_len = 1, rs_up_len = 1,
       rs_dn_rotate = \<lambda>h x n. (0, replicate n 1), rs_up_rotate = \<lambda>h x n. (0, replicate n 1)\<rparr>"
  let ?m = "\<lparr>rr_base = (ri_new 0 1 1 1 3 (Time 0 0) 0)\<lparr>ri_recvBuffer := [rb_new (\<lambda>i. 0) 2 2 0 False]\<rparr>,
       rr_inchunk = 2, rr_outchunk = 3, rr_outer = Some ([0], []), rr_leaked = 0\<rparr> :: (int, nat) radio_resamp"
  have dev: "dev_readSamples ?E (rr_outchunk ?m) (ri_overrun (rr_base ?m)) (ri_readTimestamp (rr_base ?m))
      (ri_radio (rr_base ?m)) = (3, [replicate 3 5], ri_overrun (rr_base ?m), False, ri_radio (rr_base ?m))"
    by (simp add: idle_env_def)
  obtain m1 where m1: "rr_pullBuffer ?E ?M ?m = Some (0, m1)"
    by (simp add: rr_pullBuffer_def dev idle_env_def rb_getFreeSegments_def rb_getFreeSamples_def rb_new_def ri_new_def
        rb_getWriteSegment_def u64_sub_def Let_def)
  obtain h1 xs1 where o: "rr_outer m1 = Some (h1, xs1)"
    using m1 by (auto simp: rr_pullBuffer_def rr_updateHistory_def Let_def split: if_splits option.splits prod.splits)
  have "rr_outer ?m = Some ([0], [])" by simp
  from resamp_history [OF m1 o this dev] have "h1 = drop 2 (map (convert_short_float ?E) (replicate 3 5))" by simp
  then have "h1 = [5]" by (simp add: idle_env_def numeral_eq_Suc)
  then show ?thesis using m1 o by blast
qed

end
