(* ===== verification/TrxState.thy ===== *)
theory TrxState
  imports RadioVector
begin

text \<open>
  The slot state of \<^verbatim>\<open>Transceiver52M/Transceiver.h\<close> and \<^verbatim>\<open>Transceiver.cpp\<close>: channel
  combinations, the filler table, its multiframe moduli, the expected burst types, and the choice of
  the burst that each channel transmits in a slot.

  A signal vector is a value of a type parameter, \<open>None\<close> the null pointer. What the code deletes is
  collected in order. An access outside an array and a call through a null pointer are \<open>None\<close>. The
  burst generators of the signal processing library are parameters.
\<close>

section \<open>Channel combinations and burst types\<close>

datatype chan_comb =
  CC_FILL | CC_I | CC_II | CC_III | CC_IV | CC_V | CC_VI | CC_VII | CC_VIII | CC_IX | CC_X | CC_XI
| CC_XII | CC_XIII | CC_NONE | CC_LOOPBACK

definition all_combs :: "chan_comb list" where
  "all_combs = [CC_FILL, CC_I, CC_II, CC_III, CC_IV, CC_V, CC_VI, CC_VII, CC_VIII, CC_IX, CC_X, CC_XI,
     CC_XII, CC_XIII, CC_NONE, CC_LOOPBACK]"

text \<open>\<open>chanType\<close> is an \<open>int\<close>: a SETSLOT command stores any number there. A number that is no enumerator
  takes the default branch of every switch.\<close>

definition comb_of_int :: "int \<Rightarrow> chan_comb option" where
  "comb_of_int n = (if 0 \<le> n \<and> n < 16 then Some (all_combs ! nat n) else None)"

definition comb_code :: "chan_comb \<Rightarrow> int" where
  "comb_code c =
    (case c of CC_FILL \<Rightarrow> 0 | CC_I \<Rightarrow> 1 | CC_II \<Rightarrow> 2 | CC_III \<Rightarrow> 3 | CC_IV \<Rightarrow> 4 | CC_V \<Rightarrow> 5 | CC_VI \<Rightarrow> 6
     | CC_VII \<Rightarrow> 7 | CC_VIII \<Rightarrow> 8 | CC_IX \<Rightarrow> 9 | CC_X \<Rightarrow> 10 | CC_XI \<Rightarrow> 11 | CC_XII \<Rightarrow> 12 | CC_XIII \<Rightarrow> 13
     | CC_NONE \<Rightarrow> 14 | CC_LOOPBACK \<Rightarrow> 15)"

datatype corr_type = OFF | TSC | EXT_RACH | RACH | EDGE | IDLE

definition corr_code :: "corr_type \<Rightarrow> int" where
  "corr_code c = (case c of OFF \<Rightarrow> 0 | TSC \<Rightarrow> 1 | EXT_RACH \<Rightarrow> 2 | RACH \<Rightarrow> 3 | EDGE \<Rightarrow> 4 | IDLE \<Rightarrow> 5)"

datatype filler_type = FILLER_DUMMY | FILLER_ZERO | FILLER_NORM_RAND | FILLER_EDGE_RAND | FILLER_ACCESS_RAND

section \<open>TransceiverState\<close>

record 'v dsp_env =
  generateDummyBurst :: "nat \<Rightarrow> nat \<Rightarrow> 'v option"
  genRandNormalBurst :: "nat \<Rightarrow> nat \<Rightarrow> nat \<Rightarrow> nat \<Rightarrow> 'v option"
  generateEdgeBurst :: "nat \<Rightarrow> nat \<Rightarrow> 'v option"
  genRandAccessBurst :: "nat \<Rightarrow> nat \<Rightarrow> nat \<Rightarrow> nat \<Rightarrow> 'v option"
  generateEmptyBurst :: "nat \<Rightarrow> nat \<Rightarrow> 'v option"
  modulateEdgeBurst :: "int list \<Rightarrow> nat \<Rightarrow> 'v option"
  modulateBurst :: "int list \<Rightarrow> nat \<Rightarrow> nat \<Rightarrow> 'v option"
  scaleVector :: "real \<Rightarrow> 'v \<Rightarrow> 'v"

text \<open>The channel estimates and equaliser filters of the struct are never written and stay null; they have
  no field. \<open>ts_fillerTable ! n ! i\<close> is \<open>fillerTable[n][i]\<close>.\<close>

record 'v trx_state =
  ts_chanType :: "int list"
  ts_fillerTable :: "'v option list list"
  ts_fillerModulus :: "int list"
  ts_mRetrans :: bool
  ts_mNoiseLev :: real
  ts_mNoises :: noise_vector
  ts_mPower :: int

definition NOISE_CNT :: nat where "NOISE_CNT = 20"

definition ts_new :: "'v trx_state" where
  "ts_new = \<lparr>ts_chanType = replicate 8 (comb_code CC_NONE), ts_fillerTable = replicate 102 (replicate 8 None),
     ts_fillerModulus = replicate 8 26, ts_mRetrans = False, ts_mNoiseLev = 0, ts_mNoises = nv_new NOISE_CNT,
     ts_mPower = 0\<rparr>"

definition ts_delete :: "'v trx_state \<Rightarrow> 'v list" where
  "ts_delete st = ptrs (concat (map (\<lambda>i. map (\<lambda>n. ts_fillerTable st ! n ! i) [0..<102]) [0..<8]))"

text \<open>The generators with random contents also take the number of the table entry they are called for, so
  that the entries may differ.\<close>

definition ts_filler_burst :: "'v dsp_env \<Rightarrow> filler_type \<Rightarrow> nat \<Rightarrow> nat \<Rightarrow> nat \<Rightarrow> nat \<Rightarrow> nat \<Rightarrow> 'v option" where
  "ts_filler_burst D filler sps rtsc rach_delay i n =
    (case filler of
       FILLER_DUMMY \<Rightarrow> generateDummyBurst D sps n
     | FILLER_NORM_RAND \<Rightarrow> genRandNormalBurst D i rtsc sps n
     | FILLER_EDGE_RAND \<Rightarrow> generateEdgeBurst D i rtsc
     | FILLER_ACCESS_RAND \<Rightarrow> genRandAccessBurst D i rach_delay sps n
     | FILLER_ZERO \<Rightarrow> generateEmptyBurst D sps n)"

text \<open>\<open>init\<close> fills the table and reports \<open>false\<close> on every path; its caller ignores that. A generator
  that returns null is dereferenced by \<open>scaleVector\<close>.\<close>

definition ts_init :: "'v dsp_env \<Rightarrow> filler_type \<Rightarrow> nat \<Rightarrow> real \<Rightarrow> nat \<Rightarrow> nat \<Rightarrow> 'v trx_state \<Rightarrow>
    (bool \<times> 'v trx_state) option" where
  "ts_init D filler sps scale rtsc rach_delay st =
    (let table = map (\<lambda>i. map (\<lambda>n. ts_filler_burst D filler sps rtsc rach_delay i n) [0..<8]) [0..<102]
     in if sps \<noteq> 1 \<and> sps \<noteq> 4 then Some (False, st)
        else if None \<in> set (concat table) then None
        else Some (False, st\<lparr>
          ts_fillerTable := map (map (map_option (scaleVector D scale))) table,
          ts_chanType := (if filler = FILLER_NORM_RAND \<or> filler = FILLER_EDGE_RAND
                          then replicate 8 (corr_code TSC) else ts_chanType st)\<rparr>))"

section \<open>Multiframe moduli and expected bursts\<close>

definition comb_modulus :: "chan_comb option \<Rightarrow> int option" where
  "comb_modulus c =
    (case c of
       Some CC_NONE \<Rightarrow> Some 26 | Some CC_I \<Rightarrow> Some 26 | Some CC_II \<Rightarrow> Some 26 | Some CC_III \<Rightarrow> Some 26
     | Some CC_FILL \<Rightarrow> Some 26
     | Some CC_IV \<Rightarrow> Some 51 | Some CC_VI \<Rightarrow> Some 51 | Some CC_V \<Rightarrow> Some 51
     | Some CC_VII \<Rightarrow> Some 102
     | Some CC_XIII \<Rightarrow> Some 52
     | _ \<Rightarrow> None)"

definition ts_setModulus :: "nat \<Rightarrow> 'v trx_state \<Rightarrow> 'v trx_state" where
  "ts_setModulus timeslot st =
    (case comb_modulus (comb_of_int (ts_chanType st ! timeslot)) of
       None \<Rightarrow> st
     | Some m \<Rightarrow> st\<lparr>ts_fillerModulus := (ts_fillerModulus st)[timeslot := m]\<rparr>)"

definition tchh_subslot :: "nat list" where
  "tchh_subslot = [0,1,0,1,0,1,0,1,0,1,0,1,0,0,1,0,1,0,1,0,1,0,1,0,1,1]"

definition sdcch4_subslot :: "nat list" where
  "sdcch4_subslot =
    [3,3,3,3,0,0,2,2,2,2,3,3,3,3,0,0,0,0,0,0,0,0,0,0,0,0,0,0,0,0,0,0,0,0,0,0,0,0,0,0,0,1,1,1,1,0,0,2,2,2,2,
     3,3,3,3,0,0,0,0,0,0,1,1,1,1,0,0,0,0,0,0,0,0,0,0,0,0,0,0,0,0,0,0,0,0,0,0,0,0,0,0,0,1,1,1,1,0,0,2,2,2,2]"

definition sdcch8_subslot :: "nat list" where
  "sdcch8_subslot =
    [5,5,5,5,6,6,6,6,7,7,7,7,0,0,0,0,0,0,0,1,1,1,1,2,2,2,2,3,3,3,3,4,4,4,4,5,5,5,5,6,6,6,6,7,7,7,7,0,0,0,0,
     1,1,1,1,2,2,2,2,3,3,3,3,0,0,0,0,0,0,0,1,1,1,1,2,2,2,2,3,3,3,3,4,4,4,4,5,5,5,5,6,6,6,6,7,7,7,7,4,4,4,4]"

text \<open>The arguments are the slot's channel type, its handover flags, the option for extended access bursts,
  and the slot's frame number, which the code reads as an unsigned.\<close>

definition expected_corr :: "chan_comb option \<Rightarrow> bool list \<Rightarrow> bool \<Rightarrow> int \<Rightarrow> corr_type" where
  "expected_corr comb handover extRACH burstFN =
    (let rach = (if extRACH then EXT_RACH else RACH); mod51 = burstFN mod 51; mod52 = burstFN mod 52
     in case comb of
          Some CC_NONE \<Rightarrow> OFF
        | Some CC_FILL \<Rightarrow> IDLE
        | Some CC_I \<Rightarrow> if handover ! 0 then RACH else TSC
        | Some CC_II \<Rightarrow>
            if tchh_subslot ! nat (burstFN mod 26) = 1 then IDLE else if handover ! 0 then RACH else TSC
        | Some CC_III \<Rightarrow> if handover ! (tchh_subslot ! nat (burstFN mod 26)) then RACH else TSC
        | Some CC_IV \<Rightarrow> rach
        | Some CC_VI \<Rightarrow> rach
        | Some CC_V \<Rightarrow>
            if mod51 \<le> 36 \<and> mod51 \<ge> 14 then rach
            else if mod51 = 4 \<or> mod51 = 5 then rach
            else if mod51 = 45 \<or> mod51 = 46 then rach
            else if handover ! (sdcch4_subslot ! nat (burstFN mod 102)) then RACH
            else TSC
        | Some CC_VII \<Rightarrow>
            if mod51 \<le> 14 \<and> mod51 \<ge> 12 then IDLE
            else if handover ! (sdcch8_subslot ! nat (burstFN mod 102)) then RACH
            else TSC
        | Some CC_XIII \<Rightarrow>
            if mod52 = 12 \<or> mod52 = 38 then rach
            else if mod52 = 25 \<or> mod52 = 51 then IDLE
            else TSC
        | Some CC_LOOPBACK \<Rightarrow> if mod51 \<le> 50 \<and> mod51 \<ge> 48 then IDLE else TSC
        | _ \<Rightarrow> OFF)"

definition ts_expectedCorrType :: "gsm_time \<Rightarrow> bool list list \<Rightarrow> bool \<Rightarrow> 'v trx_state \<Rightarrow> corr_type" where
  "ts_expectedCorrType currTime handover extRACH st =
    (let burstTN = nat (time_TN currTime)
     in expected_corr (comb_of_int (ts_chanType st ! burstTN)) (handover ! burstTN) extRACH (u32 (time_FN currTime)))"

section \<open>Choosing the burst of a slot\<close>

text \<open>The index of a frame in the filler table; a negative frame number gives a negative remainder, which
  is outside the table.\<close>

definition ts_filler_index :: "gsm_time \<Rightarrow> 'v trx_state \<Rightarrow> (nat \<times> nat) option" where
  "ts_filler_index t st =
    (let TN = time_TN t
     in if TN \<ge> 8 then None
        else let modFN = cmod (time_FN t) (ts_fillerModulus st ! nat TN)
             in if modFN < 0 \<or> modFN \<ge> 102 then None else Some (nat modFN, nat TN))"

definition ts_set_filler :: "nat \<Rightarrow> nat \<Rightarrow> 'v option \<Rightarrow> 'v trx_state \<Rightarrow> 'v trx_state" where
  "ts_set_filler modFN TN v st =
    st\<lparr>ts_fillerTable := (ts_fillerTable st)[modFN := (ts_fillerTable st ! modFN)[TN := v]]\<rparr>"

text \<open>Both functions below return, in front of the new state, what was deleted.\<close>

definition ts_updateFillerTable :: "'v radio_vector \<Rightarrow> 'v trx_state \<Rightarrow>
    ('v list \<times> 'v radio_vector \<times> 'v trx_state) option" where
  "ts_updateFillerTable burst st =
    (case ts_filler_index (rv_getTime burst) st of
       None \<Rightarrow> None
     | Some (modFN, TN) \<Rightarrow>
         Some (ptrs [ts_fillerTable st ! modFN ! TN],
               snd (rv_setVector None 0 burst),
               ts_set_filler modFN TN (rv_getVector 0 burst) st))"

fun ts_dump_stale :: "nat \<Rightarrow> gsm_time \<Rightarrow> 'v radio_vector list \<Rightarrow> 'v trx_state \<Rightarrow>
    ('v list \<times> 'v radio_vector list \<times> 'v trx_state) option" where
  "ts_dump_stale fuel now q st =
    (case vq_getStaleBurst now q of
       (None, q') \<Rightarrow> Some ([], q', st)
     | (Some burst, q') \<Rightarrow>
         (case fuel of
            0 \<Rightarrow> None
          | Suc n \<Rightarrow>
              if ts_mRetrans st then
                (case ts_updateFillerTable burst st of
                   None \<Rightarrow> None
                 | Some (del, burst', st') \<Rightarrow>
                     map_option (\<lambda>(del', r). (del @ rv_delete burst' @ del', r)) (ts_dump_stale n now q' st'))
              else map_option (\<lambda>(del', r). (rv_delete burst @ del', r)) (ts_dump_stale n now q' st)))"

declare ts_dump_stale.simps [simp del]

text \<open>What one channel transmits at \<open>now\<close>: its vector, whether to send zeros instead, and whether the
  vector stays with the filler table (\<open>filler\<close>) or is deleted after it was sent.\<close>

record 'v slot_choice =
  sc_vector :: "'v option"
  sc_zero :: bool
  sc_filler :: bool

definition ts_push_chan :: "gsm_time \<Rightarrow> 'v radio_vector list \<Rightarrow> 'v trx_state \<Rightarrow>
    ('v slot_choice \<times> 'v list \<times> 'v radio_vector list \<times> 'v trx_state) option" where
  "ts_push_chan now q0 st0 =
    (case ts_dump_stale (length q0) now q0 st0 of
       None \<Rightarrow> None
     | Some (del, q, st) \<Rightarrow>
         (case ts_filler_index now st of
            None \<Rightarrow> None
          | Some (modFN, TN) \<Rightarrow>
              let filler = ts_fillerTable st ! modFN ! TN;
                  zero = (ts_chanType st ! TN = comb_code CC_NONE)
              in case vq_getCurrentBurst now q of
                   (None, q') \<Rightarrow> Some (\<lparr>sc_vector = filler, sc_zero = zero, sc_filler = True\<rparr>, del, q', st)
                 | (Some burst, q') \<Rightarrow>
                     let v = rv_getVector 0 burst
                     in if ts_mRetrans st then
                          (case ts_updateFillerTable burst st of
                             None \<Rightarrow> None
                           | Some (del', burst', st') \<Rightarrow>
                               Some (\<lparr>sc_vector = v, sc_zero = zero, sc_filler = True\<rparr>,
                                     del @ del' @ rv_delete burst', q', st'))
                        else
                          Some (\<lparr>sc_vector = v, sc_zero = zero, sc_filler = False\<rparr>,
                                del @ rv_delete (snd (rv_setVector None 0 burst)), q', st)))"

text \<open>After the transmission the vectors that are not fillers are deleted.\<close>

definition sc_delete :: "'v slot_choice \<Rightarrow> 'v list" where
  "sc_delete c = (if sc_filler c then [] else ptrs [sc_vector c])"

section \<open>Expected bursts: the uplink multiframes of GSM 05.02\<close>

text \<open>The reference: what the uplink of a channel combination carries in a frame.\<close>

datatype uplink_use = Unassigned | Unused | Access | Traffic | Dedicated nat

definition half_rate_sub :: "int \<Rightarrow> nat" where
  "half_rate_sub f =
    (let m = f mod 26
     in if m < 12 then nat (m mod 2) else if m = 12 then 0 else if m < 25 then nat ((m - 13) mod 2) else 1)"

definition sdcch4_use :: "int \<Rightarrow> uplink_use" where
  "sdcch4_use f =
    (let m = f mod 51; second = 51 \<le> f mod 102
     in if m \<le> 3 then Dedicated 3
        else if m \<le> 5 then Access
        else if m \<le> 9 then Dedicated (if second then 0 else 2)
        else if m \<le> 13 then Dedicated (if second then 1 else 3)
        else if m \<le> 36 then Access
        else if m \<le> 40 then Dedicated 0
        else if m \<le> 44 then Dedicated 1
        else if m \<le> 46 then Access
        else Dedicated 2)"

definition sdcch8_use :: "int \<Rightarrow> uplink_use" where
  "sdcch8_use f =
    (let m = f mod 51; second = 51 \<le> f mod 102
     in if m < 12 then Dedicated (nat (m div 4) + (if second then 1 else 5))
        else if m < 15 then Unused
        else if m < 47 then Dedicated (nat ((m - 15) div 4))
        else Dedicated (if second then 4 else 0))"

definition uplink_use :: "chan_comb option \<Rightarrow> int \<Rightarrow> uplink_use" where
  "uplink_use comb f =
    (case comb of
       Some CC_FILL \<Rightarrow> Unused
     | Some CC_I \<Rightarrow> Dedicated 0
     | Some CC_II \<Rightarrow> if half_rate_sub f = 1 then Unused else Dedicated 0
     | Some CC_III \<Rightarrow> Dedicated (half_rate_sub f)
     | Some CC_IV \<Rightarrow> Access
     | Some CC_VI \<Rightarrow> Access
     | Some CC_V \<Rightarrow> sdcch4_use f
     | Some CC_VII \<Rightarrow> sdcch8_use f
     | Some CC_XIII \<Rightarrow> if f mod 26 = 25 then Unused else if f mod 26 = 12 then Access else Traffic
     | Some CC_LOOPBACK \<Rightarrow> if 48 \<le> f mod 51 then Unused else Traffic
     | _ \<Rightarrow> Unassigned)"

definition use_corr :: "uplink_use \<Rightarrow> bool list \<Rightarrow> bool \<Rightarrow> corr_type" where
  "use_corr u handover ext =
    (case u of
       Unassigned \<Rightarrow> OFF
     | Unused \<Rightarrow> IDLE
     | Access \<Rightarrow> if ext then EXT_RACH else RACH
     | Traffic \<Rightarrow> TSC
     | Dedicated k \<Rightarrow> if handover ! k then RACH else TSC)"

text \<open>The three tables of the code agree with the layouts, by evaluation of one multiframe.\<close>

lemma tchh_table: "list_all (\<lambda>k. tchh_subslot ! k = half_rate_sub (int k)) [0..<26]"
  by code_simp

definition sdcch4_entry :: "int \<Rightarrow> uplink_use" where
  "sdcch4_entry f =
    (let m = f mod 51
     in if (m \<le> 36 \<and> m \<ge> 14) \<or> m = 4 \<or> m = 5 \<or> m = 45 \<or> m = 46 then Access
        else Dedicated (sdcch4_subslot ! nat (f mod 102)))"

definition sdcch8_entry :: "int \<Rightarrow> uplink_use" where
  "sdcch8_entry f =
    (let m = f mod 51
     in if m \<le> 14 \<and> m \<ge> 12 then Unused else Dedicated (sdcch8_subslot ! nat (f mod 102)))"

lemma sdcch4_table: "list_all (\<lambda>k. sdcch4_entry (int k) = sdcch4_use (int k)) [0..<102]"
  by code_simp

lemma sdcch8_table: "list_all (\<lambda>k. sdcch8_entry (int k) = sdcch8_use (int k)) [0..<102]"
  by code_simp

lemma table_lift:
  assumes "list_all (\<lambda>k. F (int k) = G (int k)) [0..<n]" and "n > 0"
    and "\<And>f. F f = F (f mod int n)" and "\<And>f. G f = G (f mod int n)"
  shows "F f = G f"
proof -
  have k: "nat (f mod int n) < n" using assms(2) by (simp add: nat_less_iff)
  have i: "int (nat (f mod int n)) = f mod int n" using assms(2) by simp
  have "\<forall>k \<in> set [0..<n]. F (int k) = G (int k)" using assms(1) by (simp only: list_all_iff)
  moreover have "nat (f mod int n) \<in> set [0..<n]" using k by simp
  ultimately have "F (int (nat (f mod int n))) = G (int (nat (f mod int n)))" by (rule bspec)
  then have "F (f mod int n) = G (f mod int n)" unfolding i .
  then show ?thesis using assms(3) [of f] assms(4) [of f] by metis
qed

lemma mod_102_51: "(f mod 102) mod 51 = f mod (51::int)"
  by (rule mod_mod_cancel) simp

lemma half_rate_table: "tchh_subslot ! nat (f mod 26) = half_rate_sub f"
proof -
  have "(\<lambda>f. tchh_subslot ! nat (f mod 26)) f = half_rate_sub f"
  proof (rule table_lift [where n = 26])
    show "list_all (\<lambda>k. tchh_subslot ! nat (int k mod 26) = half_rate_sub (int k)) [0..<26]"
      using tchh_table by (auto simp: list_all_iff nat_mod_distrib)
  qed (simp_all add: half_rate_sub_def)
  then show ?thesis .
qed

lemma sdcch4_layout: "sdcch4_entry f = sdcch4_use f"
  by (rule table_lift [OF sdcch4_table]) (simp_all add: sdcch4_entry_def sdcch4_use_def mod_102_51 Let_def)

lemma sdcch8_layout: "sdcch8_entry f = sdcch8_use f"
  by (rule table_lift [OF sdcch8_table]) (simp_all add: sdcch8_entry_def sdcch8_use_def mod_102_51 Let_def)

lemma mod_52_26:
  fixes f :: int
  shows "(f mod 52 = 12 \<or> f mod 52 = 38) \<longleftrightarrow> f mod 26 = 12"
    and "(f mod 52 = 25 \<or> f mod 52 = 51) \<longleftrightarrow> f mod 26 = 25"
proof -
  have e: "f mod 26 = (f mod 52) mod 26" by (simp add: mod_mod_cancel)
  have b: "0 \<le> f mod 52" "f mod 52 < 52" by simp_all
  have "x mod 26 = (if x < 26 then x else x - 26)" if "0 \<le> x" "x < 52" for x :: int
    using that minus_mod_self2 [of x 26] mod_pos_pos_trivial [of "x - 26" 26] mod_pos_pos_trivial [of x 26]
    by auto
  note r = this [OF b]
  show "(f mod 52 = 12 \<or> f mod 52 = 38) \<longleftrightarrow> f mod 26 = 12"
    and "(f mod 52 = 25 \<or> f mod 52 = 51) \<longleftrightarrow> f mod 26 = 25"
    unfolding e r using b by auto
qed

lemma expected_corr_sdcch:
  "expected_corr (Some CC_V) handover ext f = use_corr (sdcch4_entry f) handover ext"
  "expected_corr (Some CC_VII) handover ext f = use_corr (sdcch8_entry f) handover ext"
  by (simp_all add: expected_corr_def use_corr_def sdcch4_entry_def sdcch8_entry_def Let_def)

lemma expected_corr_use: "expected_corr comb handover ext f = use_corr (uplink_use comb f) handover ext"
proof (cases comb)
  case None
  then show ?thesis by (simp add: expected_corr_def uplink_use_def use_corr_def)
next
  case (Some c)
  have m: "f mod 51 \<le> 50" using pos_mod_bound [of 51 f] by simp
  show ?thesis
  proof (cases c)
    case CC_V
    show ?thesis unfolding Some CC_V expected_corr_sdcch sdcch4_layout by (simp add: uplink_use_def)
  next
    case CC_VII
    show ?thesis unfolding Some CC_VII expected_corr_sdcch sdcch8_layout by (simp add: uplink_use_def)
  next
    case CC_XIII
    show ?thesis unfolding Some CC_XIII
      using mod_52_26 [of f] by (simp add: expected_corr_def uplink_use_def use_corr_def Let_def)
  next
    case CC_LOOPBACK
    show ?thesis unfolding Some CC_LOOPBACK using m
      by (simp add: expected_corr_def uplink_use_def use_corr_def)
  qed (simp_all add: Some expected_corr_def uplink_use_def use_corr_def half_rate_table Let_def)
qed

text \<open>C10. In every frame of the hyperframe the burst type that the receiver looks for is the one the
  uplink multiframe of the slot's channel combination prescribes: nothing on an unassigned slot, noise
  on an unused frame, access bursts on a random access frame, and on a frame of a dedicated subchannel
  an access burst if a handover to that very subchannel is awaited, else a normal burst.\<close>

theorem expectedCorr_layout:
  assumes "valid_time t"
  shows "ts_expectedCorrType t handover ext st =
    use_corr (uplink_use (comb_of_int (ts_chanType st ! nat (mTN t))) (mFN t)) (handover ! nat (mTN t)) ext"
proof -
  have "u32 (mFN t) = mFN t" using valid_timeD [OF assms] by (simp add: u32_id)
  then show ?thesis
    by (simp add: ts_expectedCorrType_def expected_corr_use time_TN_valid [OF assms] time_FN_def Let_def)
qed

theorem expectedCorr_layout_witness:
  "ts_expectedCorrType (Time 66 1) (replicate 8 [False, False, True]) True
     (ts_new\<lparr>ts_chanType := [4, 7, 14, 14, 14, 14, 14, 14]\<rparr>) = TSC \<and>
   ts_expectedCorrType (Time 53 1) (replicate 8 [False, True, False]) True
     (ts_new\<lparr>ts_chanType := [4, 7, 14, 14, 14, 14, 14, 14]\<rparr>) = RACH"
proof -
  have v: "valid_time (Time 66 1)" "valid_time (Time 53 1)" by (simp_all add: valid_timeI)
  show ?thesis
    by (simp only: expectedCorr_layout [OF v(1)] expectedCorr_layout [OF v(2)])
      (simp add: comb_of_int_def all_combs_def uplink_use_def sdcch8_use_def use_corr_def numeral_eq_Suc)
qed

section \<open>The table and its moduli\<close>

definition ts_ok :: "'v trx_state \<Rightarrow> bool" where
  "ts_ok st \<longleftrightarrow> length (ts_chanType st) = 8 \<and> length (ts_fillerModulus st) = 8 \<and>
     set (ts_fillerModulus st) \<subseteq> {26, 51, 52, 102} \<and>
     length (ts_fillerTable st) = 102 \<and> (\<forall>row \<in> set (ts_fillerTable st). length row = 8)"

lemma ts_ok_new: "ts_ok ts_new"
  by (simp add: ts_ok_def ts_new_def)

lemma comb_modulus_cases: "comb_modulus c = Some m \<Longrightarrow> m \<in> {26, 51, 52, 102}"
  by (auto simp: comb_modulus_def split: option.splits chan_comb.splits)

lemma ts_ok_setModulus: "ts_ok st \<Longrightarrow> ts_ok (ts_setModulus slot st)"
  using set_update_subset_insert [of "ts_fillerModulus st" slot]
  by (auto simp: ts_ok_def ts_setModulus_def split: option.splits dest!: comb_modulus_cases)

lemma ts_ok_chanType: "ts_ok st \<Longrightarrow> length cs = 8 \<Longrightarrow> ts_ok (st\<lparr>ts_chanType := cs\<rparr>)"
  by (simp add: ts_ok_def)

lemma ts_row: "ts_ok st \<Longrightarrow> n < 102 \<Longrightarrow> length (ts_fillerTable st ! n) = 8"
  by (simp add: ts_ok_def)

lemma ts_ok_set_filler: "ts_ok st \<Longrightarrow> n < 102 \<Longrightarrow> ts_ok (ts_set_filler n TN v st)"
  using set_update_subset_insert [of "ts_fillerTable st" n "(ts_fillerTable st ! n)[TN := v]"] ts_row [of st n]
  by (auto simp: ts_ok_def ts_set_filler_def)

lemma ts_modulus:
  assumes "ts_ok st" and "k < 8"
  shows "ts_fillerModulus st ! k \<in> {26, 51, 52, 102}"
proof -
  have "ts_fillerModulus st ! k \<in> set (ts_fillerModulus st)" using assms by (simp add: ts_ok_def)
  then show ?thesis using assms(1) by (auto simp: ts_ok_def)
qed

lemma ts_filler_index_ok:
  assumes "ts_ok st" and "valid_time t"
  shows "ts_filler_index t st = Some (nat (mFN t mod ts_fillerModulus st ! nat (mTN t)), nat (mTN t))"
    and "nat (mFN t mod ts_fillerModulus st ! nat (mTN t)) < 102" and "nat (mTN t) < 8"
proof -
  note v = valid_timeD [OF assms(2)]
  show tn: "nat (mTN t) < 8" using v by linarith
  have m: "0 < ts_fillerModulus st ! nat (mTN t)" "ts_fillerModulus st ! nat (mTN t) \<le> 102"
    using ts_modulus [OF assms(1) tn] by auto
  then have b: "0 \<le> mFN t mod ts_fillerModulus st ! nat (mTN t)"
    "mFN t mod ts_fillerModulus st ! nat (mTN t) < 102"
    using m(1) by simp (rule order_less_le_trans [OF pos_mod_bound [OF m(1)] m(2)])
  then show "nat (mFN t mod ts_fillerModulus st ! nat (mTN t)) < 102" by simp
  show "ts_filler_index t st = Some (nat (mFN t mod ts_fillerModulus st ! nat (mTN t)), nat (mTN t))"
    using v b by (simp add: ts_filler_index_def time_TN_valid [OF assms(2)] time_FN_def Let_def
        cmod_nonneg [OF _ m(1)])
qed

text \<open>C40. Whatever channel combination is set on a slot, a known one or not, the state keeps its shape
  and every slot's filler modulus is 26, 51, 52 or 102, so that every time of the hyperframe indexes a
  row and a column inside the filler table.\<close>

theorem filler_index_in_table:
  fixes code :: int and st :: "'v trx_state"
  assumes "ts_ok st" and "slot < 8" and "valid_time t"
  defines "st' \<equiv> ts_setModulus slot (st\<lparr>ts_chanType := (ts_chanType st)[slot := code]\<rparr>)"
  shows "ts_ok st' \<and> (\<exists>n k. ts_filler_index t st' = Some (n, k) \<and> n < 102 \<and> k < 8 \<and>
    int n = mFN t mod ts_fillerModulus st' ! k \<and> int k = mTN t)"
proof -
  have ok: "ts_ok st'" unfolding st'_def
    by (intro ts_ok_setModulus ts_ok_chanType assms(1)) (use assms(1) in \<open>simp add: ts_ok_def\<close>)
  have "0 < ts_fillerModulus st' ! nat (mTN t)"
    using ts_modulus [OF ok ts_filler_index_ok(3) [OF ok assms(3)]] by auto
  then show ?thesis
    using ok ts_filler_index_ok [OF ok assms(3)] valid_timeD [OF assms(3)] by simp
qed

theorem filler_index_in_table_witness:
  "ts_filler_index (Time 1000 2) (ts_setModulus 2 ((ts_new :: int trx_state)\<lparr>ts_chanType :=
     (replicate 8 14)[2 := 7]\<rparr>)) = Some (82, 2)"
proof -
  let ?st = "ts_setModulus 2 ((ts_new :: int trx_state)\<lparr>ts_chanType := (replicate 8 14)[2 := 7]\<rparr>)"
  have c: "ts_chanType (ts_new :: int trx_state) = replicate 8 14" by (simp add: ts_new_def comb_code_def)
  have v: "valid_time (Time 1000 2)" by (simp add: valid_timeI)
  have "ts_fillerModulus ?st ! 2 = 102"
    by (simp add: ts_setModulus_def ts_new_def comb_of_int_def all_combs_def comb_modulus_def numeral_eq_Suc)
  then show ?thesis
    using filler_index_in_table [where st = "ts_new :: int trx_state" and slot = 2 and code = 7, OF ts_ok_new _ v]
    unfolding c by auto
qed

section \<open>Who owns a vector\<close>

definition ts_owned :: "'v trx_state \<Rightarrow> 'v multiset" where
  "ts_owned st = mset (ptrs (concat (ts_fillerTable st)))"

definition rv_owned :: "'v radio_vector \<Rightarrow> 'v multiset" where
  "rv_owned b = mset (rv_delete b)"

definition q_owned :: "'v radio_vector list \<Rightarrow> 'v multiset" where
  "q_owned q = sum_mset (image_mset rv_owned (mset q))"

lemma q_owned_add: "mset q = add_mset b (mset q') \<Longrightarrow> q_owned q = rv_owned b + q_owned q'"
  by (simp add: q_owned_def)

lemma ptrs_append [simp]: "ptrs (xs @ ys) = ptrs xs @ ptrs ys"
  by (simp add: ptrs_def)

lemma mset_ptrs_Cons: "mset (ptrs (x # xs)) = ptr_mset x + mset (ptrs xs)"
  by (cases x) (simp_all add: ptr_mset_def)

lemma mset_ptrs_update:
  assumes "k < length xs"
  shows "mset (ptrs (xs[k := v])) + ptr_mset (xs ! k) = mset (ptrs xs) + ptr_mset v"
proof -
  have "mset (ptrs xs) = mset (ptrs (take k xs @ xs ! k # drop (Suc k) xs))"
    using id_take_nth_drop [OF assms] by simp
  then show ?thesis using assms
    by (simp add: upd_conv_take_nth_drop mset_ptrs_Cons ac_simps)
qed

lemma mset_ptrs_concat_update:
  assumes "n < length T"
  shows "mset (ptrs (concat (T[n := r]))) + mset (ptrs (T ! n)) = mset (ptrs (concat T)) + mset (ptrs r)"
proof -
  have "mset (ptrs (concat T)) = mset (ptrs (concat (take n T @ T ! n # drop (Suc n) T)))"
    using id_take_nth_drop [OF assms] by simp
  then show ?thesis using assms by (simp add: upd_conv_take_nth_drop ac_simps)
qed

lemma ts_owned_set_filler:
  assumes "ts_ok st" and "n < 102" and "k < 8"
  shows "ts_owned (ts_set_filler n k v st) + ptr_mset (ts_fillerTable st ! n ! k) = ts_owned st + ptr_mset v"
proof -
  let ?T = "ts_fillerTable st"
  have n: "n < length ?T" and k: "k < length (?T ! n)" using assms ts_row [OF assms(1,2)] by (simp_all add: ts_ok_def)
  have a: "ts_owned (ts_set_filler n k v st) + mset (ptrs (?T ! n)) = ts_owned st + mset (ptrs ((?T ! n)[k := v]))"
    using mset_ptrs_concat_update [OF n] by (simp add: ts_owned_def ts_set_filler_def)
  have "ts_owned (ts_set_filler n k v st) + ptr_mset (?T ! n ! k) + mset (ptrs (?T ! n)) =
      ts_owned st + (mset (ptrs ((?T ! n)[k := v])) + ptr_mset (?T ! n ! k))"
    using a by (simp add: ac_simps)
  also have "\<dots> = ts_owned st + ptr_mset v + mset (ptrs (?T ! n))"
    unfolding mset_ptrs_update [OF k] by (simp add: ac_simps)
  finally show ?thesis by simp
qed

lemma rv_owned_cleared: "rv_owned (snd (rv_setVector None 0 b)) + ptr_mset (rv_getVector 0 b) = rv_owned b"
proof (cases "rv_vectors b")
  case Nil
  then show ?thesis by (simp add: rv_setVector_def rv_getVector_def ptr_mset_def)
next
  case (Cons x xs)
  then show ?thesis
    by (simp add: rv_setVector_def rv_getVector_def rv_owned_def rv_delete_def mset_ptrs_Cons ac_simps)
qed

lemma ts_updateFillerTable_ok:
  assumes "ts_ok st" and "valid_time (rv_time b)"
  obtains del b' st' where "ts_updateFillerTable b st = Some (del, b', st')" and "ts_ok st'"
    and "mset del + rv_owned b' + ts_owned st' = rv_owned b + ts_owned st"
    and "ts_chanType st' = ts_chanType st" and "ts_mRetrans st' = ts_mRetrans st"
    and "ts_fillerModulus st' = ts_fillerModulus st"
    and "\<And>n k. ts_filler_index (rv_time b) st = Some (n, k) \<Longrightarrow> ts_fillerTable st' ! n ! k = rv_getVector 0 b"
proof -
  define n k where "n = nat (mFN (rv_time b) mod ts_fillerModulus st ! nat (mTN (rv_time b)))"
    and "k = nat (mTN (rv_time b))"
  note f = ts_filler_index_ok [OF assms, folded n_def k_def]
  have len: "n < length (ts_fillerTable st)" "k < length (ts_fillerTable st ! n)"
    using assms(1) f ts_row [OF assms(1) f(2)] by (simp_all add: ts_ok_def)
  let ?st = "ts_set_filler n k (rv_getVector 0 b) st"
  have u: "ts_updateFillerTable b st =
      Some (ptrs [ts_fillerTable st ! n ! k], snd (rv_setVector None 0 b), ?st)"
    using f(1) by (simp add: ts_updateFillerTable_def rv_getTime_def)
  have o1: "ts_owned ?st + ptr_mset (ts_fillerTable st ! n ! k) = ts_owned st + ptr_mset (rv_getVector 0 b)"
    by (rule ts_owned_set_filler [OF assms(1) f(2,3)])
  have "mset (ptrs [ts_fillerTable st ! n ! k]) + rv_owned (snd (rv_setVector None 0 b)) + ts_owned ?st =
      (ts_owned ?st + ptr_mset (ts_fillerTable st ! n ! k)) + rv_owned (snd (rv_setVector None 0 b))"
    by (simp add: ac_simps)
  also have "\<dots> = (rv_owned (snd (rv_setVector None 0 b)) + ptr_mset (rv_getVector 0 b)) + ts_owned st"
    unfolding o1 by (simp add: ac_simps)
  finally have o: "mset (ptrs [ts_fillerTable st ! n ! k]) + rv_owned (snd (rv_setVector None 0 b)) + ts_owned ?st =
      rv_owned b + ts_owned st" unfolding rv_owned_cleared .
  show thesis
    by (rule that [OF u ts_ok_set_filler [OF assms(1) f(2)] o]) (use f(1) len in \<open>simp_all add: ts_set_filler_def\<close>)
qed

section \<open>The choice of a slot's burst\<close>

definition due :: "int \<Rightarrow> gsm_time \<Rightarrow> 'v radio_vector list \<Rightarrow> 'v radio_vector multiset" where
  "due base now q = filter_mset (\<lambda>b. window_pos base now \<le> rv_pos base b) (mset q)"

definition dump_ok :: "gsm_time \<Rightarrow> 'v radio_vector list \<Rightarrow> 'v trx_state \<Rightarrow>
    'v list \<Rightarrow> 'v radio_vector list \<Rightarrow> 'v trx_state \<Rightarrow> bool" where
  "dump_ok now q st del q' st' \<longleftrightarrow>
     ts_ok st' \<and> mset del + q_owned q' + ts_owned st' = q_owned q + ts_owned st \<and> set q' \<subseteq> set q \<and>
     ts_chanType st' = ts_chanType st \<and> ts_fillerModulus st' = ts_fillerModulus st \<and>
     ts_mRetrans st' = ts_mRetrans st \<and> (\<not> ts_mRetrans st \<longrightarrow> st' = st) \<and>
     (\<forall>base. set q \<subseteq> rv_window base \<and> in_window base now \<longrightarrow> mset q' = due base now q)"

lemma vq_stale_some:
  assumes "vq_getStaleBurst now q = (Some b, q1)"
  shows "mset q = add_mset b (mset q1)" and "b \<in> set q" and "set q1 \<subseteq> set q" and "length q = Suc (length q1)"
proof -
  have ne: "q \<noteq> []" using assms by (auto simp: vq_getStaleBurst_def pq_size_def)
  have e: "b = pq_top rv_greater q" "q1 = pq_pop rv_greater q"
    using assms by (auto simp: vq_getStaleBurst_def split: if_splits)
  show m: "mset q = add_mset b (mset q1)" unfolding e using pq_top_in [OF ne, of rv_greater] by (simp add: pq_pop_def)
  show "b \<in> set q" "set q1 \<subseteq> set q" using arg_cong [OF m, of set_mset] by auto
  show "length q = Suc (length q1)" using arg_cong [OF m, of size] by simp
qed

lemma vq_stale_due:
  assumes "set q \<subseteq> rv_window base" and "in_window base now"
  shows "vq_getStaleBurst now q = (Some b, q1) \<Longrightarrow> due base now q = due base now q1"
    and "vq_getStaleBurst now q = (None, q1) \<Longrightarrow> q1 = q \<and> due base now q = mset q"
proof -
  note spec = vq_getStaleBurst_spec [OF assms]
  show "due base now q = due base now q1" if "vq_getStaleBurst now q = (Some b, q1)"
    using spec unfolding that by (simp add: due_def)
  show "q1 = q \<and> due base now q = mset q" if "vq_getStaleBurst now q = (None, q1)"
    using spec unfolding that by (auto simp: due_def filter_mset_eq_conv)
qed

lemma vq_stale_none: "vq_getStaleBurst now q = (None, q1) \<Longrightarrow> q1 = q"
  by (auto simp: vq_getStaleBurst_def split: if_splits)

lemma dump_ok_step:
  assumes b: "vq_getStaleBurst now q = (Some b, q1)"
    and del: "mset d1 + ts_owned st1 = rv_owned b + ts_owned st"
    and same: "ts_chanType st1 = ts_chanType st" "ts_fillerModulus st1 = ts_fillerModulus st"
      "ts_mRetrans st1 = ts_mRetrans st" "\<not> ts_mRetrans st \<longrightarrow> st1 = st"
    and r: "dump_ok now q1 st1 del q' st'"
  shows "dump_ok now q st (d1 @ del) q' st'"
proof -
  note s = vq_stale_some [OF b]
  have r1: "mset del + q_owned q' + ts_owned st' = q_owned q1 + ts_owned st1"
    using r unfolding dump_ok_def by blast
  have "mset (d1 @ del) + q_owned q' + ts_owned st' = mset d1 + (mset del + q_owned q' + ts_owned st')"
    by (simp add: ac_simps)
  also have "\<dots> = q_owned q1 + (mset d1 + ts_owned st1)" unfolding r1 by (simp add: ac_simps)
  also have "\<dots> = q_owned q + ts_owned st" unfolding del q_owned_add [OF s(1)] by (simp add: ac_simps)
  finally have o: "mset (d1 @ del) + q_owned q' + ts_owned st' = q_owned q + ts_owned st" .
  have w: "mset q' = due base now q" if "set q \<subseteq> rv_window base" "in_window base now" for base
    using r s(3) that vq_stale_due(1) [OF that b] unfolding dump_ok_def by auto
  have r2: "ts_ok st'" "set q' \<subseteq> set q1" "ts_chanType st' = ts_chanType st1"
    "ts_fillerModulus st' = ts_fillerModulus st1" "ts_mRetrans st' = ts_mRetrans st1"
    "\<not> ts_mRetrans st1 \<longrightarrow> st' = st1"
    using r unfolding dump_ok_def by blast+
  show ?thesis unfolding dump_ok_def
    using o w r2 same s(3) by (intro conjI) auto
qed

lemma ts_dump_stale_ok:
  assumes "ts_ok st" and "\<forall>b \<in> set q. valid_time (rv_time b)" and "length q \<le> fuel"
  shows "\<exists>del q' st'. ts_dump_stale fuel now q st = Some (del, q', st') \<and> dump_ok now q st del q' st'"
  using assms
proof (induction fuel arbitrary: q st)
  case 0
  then have "vq_getStaleBurst now q = (None, q)" "q = []" by (simp_all add: vq_getStaleBurst_def pq_size_def)
  then show ?case using 0 by (simp add: ts_dump_stale.simps dump_ok_def due_def)
next
  case (Suc fuel)
  show ?case
  proof (cases "vq_getStaleBurst now q")
    case (Pair r q1)
    show ?thesis
    proof (cases r)
      case None
      note n = Pair [unfolded None]
      have "dump_ok now q st [] q st"
        using Suc.prems(1) vq_stale_due(2) [OF _ _ n] by (auto simp: dump_ok_def)
      then show ?thesis using n vq_stale_none [OF n] by (simp add: ts_dump_stale.simps)
    next
      case (Some b)
      note b = Pair [unfolded Some]
      note s = vq_stale_some [OF b]
      have v1: "\<forall>b \<in> set q1. valid_time (rv_time b)" and l1: "length q1 \<le> fuel"
        using s Suc.prems by auto
      show ?thesis
      proof (cases "ts_mRetrans st")
        case True
        have vb: "valid_time (rv_time b)" using s(2) Suc.prems(2) by blast
        obtain d1 b1 st1 where u: "ts_updateFillerTable b st = Some (d1, b1, st1)" "ts_ok st1"
            "mset d1 + rv_owned b1 + ts_owned st1 = rv_owned b + ts_owned st"
            "ts_chanType st1 = ts_chanType st" "ts_mRetrans st1 = ts_mRetrans st"
            "ts_fillerModulus st1 = ts_fillerModulus st"
          by (rule ts_updateFillerTable_ok [OF Suc.prems(1) vb]) blast
        obtain del q' st' where r: "ts_dump_stale fuel now q1 st1 = Some (del, q', st')" "dump_ok now q1 st1 del q' st'"
          using Suc.IH [OF u(2) v1 l1] by blast
        have "dump_ok now q st ((d1 @ rv_delete b1) @ del) q' st'"
          by (rule dump_ok_step [OF b _ u(4,6,5) _ r(2)]) (use u(3) True in \<open>simp_all add: rv_owned_def\<close>)
        then show ?thesis using b True u(1) r(1) by (simp add: ts_dump_stale.simps)
      next
        case False
        obtain del q' st' where r: "ts_dump_stale fuel now q1 st = Some (del, q', st')" "dump_ok now q1 st del q' st'"
          using Suc.IH [OF Suc.prems(1) v1 l1] by blast
        have "dump_ok now q st (rv_delete b @ del) q' st'"
          by (rule dump_ok_step [OF b _ _ _ _ _ r(2)]) (simp_all add: rv_owned_def)
        then show ?thesis using b False r(1) by (simp add: ts_dump_stale.simps)
      qed
    qed
  qed
qed

definition filler_at :: "gsm_time \<Rightarrow> 'v trx_state \<Rightarrow> 'v option" where
  "filler_at now st = ts_fillerTable st ! nat (mFN now mod ts_fillerModulus st ! nat (mTN now)) ! nat (mTN now)"

lemma set_ptrs: "v \<in> set (ptrs xs) \<longleftrightarrow> Some v \<in> set xs"
  by (force simp: ptrs_def)

lemma filler_at_owned:
  assumes "ts_ok st" and "valid_time now" and "filler_at now st = Some v"
  shows "v \<in># ts_owned st"
proof -
  note f = ts_filler_index_ok [OF assms(1,2)]
  let ?n = "nat (mFN now mod ts_fillerModulus st ! nat (mTN now))"
  have n: "ts_fillerTable st ! ?n \<in> set (ts_fillerTable st)"
    by (rule nth_mem) (use assms(1) f(2) in \<open>simp add: ts_ok_def\<close>)
  have "ts_fillerTable st ! ?n ! nat (mTN now) \<in> set (ts_fillerTable st ! ?n)"
    by (rule nth_mem) (simp add: ts_row [OF assms(1) f(2)] f(3))
  then show ?thesis using n assms(3) by (auto simp: ts_owned_def set_ptrs filler_at_def)
qed

lemma vq_current_some:
  assumes "vq_getCurrentBurst now q = (Some b, q1)"
  shows "mset q = add_mset b (mset q1)" and "b \<in> set q" and "time_eq (rv_time b) now"
proof -
  have ne: "q \<noteq> []" using assms by (auto simp: vq_getCurrentBurst_def pq_size_def)
  have e: "b = pq_top rv_greater q" "q1 = pq_pop rv_greater q" and t: "time_eq (rv_time b) now"
    using assms by (auto simp: vq_getCurrentBurst_def rv_getTime_def split: if_splits)
  show "mset q = add_mset b (mset q1)" unfolding e using pq_top_in [OF ne, of rv_greater] by (simp add: pq_pop_def)
  show "b \<in> set q" unfolding e by (rule pq_top_in [OF ne])
  show "time_eq (rv_time b) now" by (rule t)
qed

lemma vq_current_none: "vq_getCurrentBurst now q = (None, q1) \<Longrightarrow> q1 = q"
  by (auto simp: vq_getCurrentBurst_def split: if_splits)

lemma time_eq_valid: "time_eq t u \<longleftrightarrow> t = u"
  by (cases t; cases u) (auto simp: time_eq_def)

definition push_owned :: "'v radio_vector list \<Rightarrow> 'v trx_state \<Rightarrow> 'v slot_choice \<Rightarrow> 'v list \<Rightarrow>
    'v radio_vector list \<Rightarrow> 'v trx_state \<Rightarrow> bool" where
  "push_owned q0 st0 c del q' st' \<longleftrightarrow>
     ts_ok st' \<and> set q' \<subseteq> set q0 \<and>
     mset del + mset (sc_delete c) + q_owned q' + ts_owned st' = q_owned q0 + ts_owned st0 \<and>
     (\<forall>v. sc_vector c = Some v \<longrightarrow> v \<in># ts_owned st' + mset (sc_delete c))"

definition push_sched :: "int \<Rightarrow> gsm_time \<Rightarrow> 'v radio_vector list \<Rightarrow> 'v trx_state \<Rightarrow> 'v slot_choice \<Rightarrow>
    'v radio_vector list \<Rightarrow> 'v trx_state \<Rightarrow> bool" where
  "push_sched base now q0 st0 c q' st' \<longleftrightarrow>
     sc_zero c = (ts_chanType st0 ! nat (mTN now) = comb_code CC_NONE) \<and>
     (if ts_mRetrans st0 then sc_filler c \<and> filler_at now st' = sc_vector c else st' = st0) \<and>
     (if \<exists>b \<in> set q0. rv_time b = now
      then \<exists>b \<in> set q0. rv_time b = now \<and> sc_vector c = rv_getVector 0 b \<and> mset q' = due base now q0 - {#b#}
      else sc_vector c = filler_at now st' \<and> mset q' = due base now q0)"

lemma due_current:
  assumes "set q0 \<subseteq> rv_window base" and "in_window base now" and "mset q = due base now q0"
  shows "set q \<subseteq> rv_window base" and "\<forall>y \<in> set q. window_pos base now \<le> rv_pos base y"
    and "(\<exists>b \<in> set q0. rv_time b = now) \<longleftrightarrow> (\<exists>b \<in> set q. rv_time b = now)"
proof -
  have s: "set q = {b \<in> set q0. window_pos base now \<le> rv_pos base b}"
    using arg_cong [OF assms(3), of set_mset] by (simp add: due_def)
  show "set q \<subseteq> rv_window base" "\<forall>y \<in> set q. window_pos base now \<le> rv_pos base y" using s assms(1) by auto
  show "(\<exists>b \<in> set q0. rv_time b = now) \<longleftrightarrow> (\<exists>b \<in> set q. rv_time b = now)"
    unfolding s by (auto simp: rv_pos_def)
qed

text \<open>The three ways the choice goes after the stale bursts were dumped.\<close>

lemma push_filler_ok:
  assumes d: "dump_ok now q0 st0 del q st" and now: "valid_time now"
    and cur: "vq_getCurrentBurst now q = (None, q')"
  defines "c \<equiv> \<lparr>sc_vector = filler_at now st,
      sc_zero = (ts_chanType st ! nat (mTN now) = comb_code CC_NONE), sc_filler = True\<rparr>"
  shows "push_owned q0 st0 c del q' st"
    and "set q0 \<subseteq> rv_window base \<Longrightarrow> in_window base now \<Longrightarrow> push_sched base now q0 st0 c q' st"
proof -
  note q' = vq_current_none [OF cur]
  have D: "ts_ok st" "mset del + q_owned q + ts_owned st = q_owned q0 + ts_owned st0" "set q \<subseteq> set q0"
      "ts_chanType st = ts_chanType st0" "ts_mRetrans st = ts_mRetrans st0" "\<not> ts_mRetrans st0 \<longrightarrow> st = st0"
    using d unfolding dump_ok_def by blast+
  show "push_owned q0 st0 c del q' st"
    using D(1-3) filler_at_owned [OF D(1) now] by (simp add: push_owned_def c_def q' sc_delete_def)
  show "push_sched base now q0 st0 c q' st" if w: "set q0 \<subseteq> rv_window base" "in_window base now"
  proof -
    have m: "mset q = due base now q0" using d w unfolding dump_ok_def by blast
    note dc = due_current [OF w m]
    have "\<forall>y \<in> set q. \<not> time_eq (rv_time y) now"
      using vq_getCurrentBurst_spec [OF dc(1) w(2) dc(2)] cur by simp
    then have "\<not> (\<exists>b \<in> set q0. rv_time b = now)" unfolding dc(3) by (auto simp: time_eq_valid)
    then show ?thesis using D(4-6) m by (simp add: push_sched_def c_def q')
  qed
qed

lemma push_burst_ok:
  assumes d: "dump_ok now q0 st0 del q st" and now: "valid_time now" and nr: "\<not> ts_mRetrans st"
    and cur: "vq_getCurrentBurst now q = (Some b, q')"
  defines "c \<equiv> \<lparr>sc_vector = rv_getVector 0 b,
      sc_zero = (ts_chanType st ! nat (mTN now) = comb_code CC_NONE), sc_filler = False\<rparr>"
  shows "push_owned q0 st0 c (del @ rv_delete (snd (rv_setVector None 0 b))) q' st"
    and "set q0 \<subseteq> rv_window base \<Longrightarrow> in_window base now \<Longrightarrow> push_sched base now q0 st0 c q' st"
proof -
  note C = vq_current_some [OF cur]
  have D: "ts_ok st" "mset del + q_owned q + ts_owned st = q_owned q0 + ts_owned st0" "set q \<subseteq> set q0"
      "ts_chanType st = ts_chanType st0" "ts_mRetrans st = ts_mRetrans st0" "\<not> ts_mRetrans st0 \<longrightarrow> st = st0"
    using d unfolding dump_ok_def by blast+
  have sub: "set q' \<subseteq> set q" using arg_cong [OF C(1), of set_mset] by auto
  have "mset (del @ rv_delete (snd (rv_setVector None 0 b))) + mset (sc_delete c) + q_owned q' + ts_owned st =
      mset del + (rv_owned (snd (rv_setVector None 0 b)) + ptr_mset (rv_getVector 0 b)) + q_owned q' + ts_owned st"
    by (simp add: c_def sc_delete_def rv_owned_def ac_simps)
  also have "\<dots> = mset del + q_owned q + ts_owned st"
    unfolding rv_owned_cleared q_owned_add [OF C(1)] by (simp add: ac_simps)
  finally have o: "mset (del @ rv_delete (snd (rv_setVector None 0 b))) + mset (sc_delete c) + q_owned q' +
      ts_owned st = q_owned q0 + ts_owned st0" unfolding D(2) .
  have l: "v \<in># ts_owned st + mset (sc_delete c)" if "sc_vector c = Some v" for v
    using that by (simp add: c_def sc_delete_def)
  show "push_owned q0 st0 c (del @ rv_delete (snd (rv_setVector None 0 b))) q' st"
    unfolding push_owned_def using D(1,3) sub o l by blast
  show "push_sched base now q0 st0 c q' st" if w: "set q0 \<subseteq> rv_window base" "in_window base now"
  proof -
    have m: "mset q = due base now q0" using d w unfolding dump_ok_def by blast
    have b: "b \<in> set q0" "rv_time b = now" using C D(3) by (auto simp: time_eq_valid)
    then have e: "\<exists>b \<in> set q0. rv_time b = now" by blast
    have "mset q' = due base now q0 - {#b#}" using C(1) m by simp
    then have "\<exists>b \<in> set q0. rv_time b = now \<and> sc_vector c = rv_getVector 0 b \<and> mset q' = due base now q0 - {#b#}"
      using b by (auto simp: c_def)
    then show ?thesis using e nr D(4-6) by (simp add: push_sched_def c_def)
  qed
qed

lemma push_retrans_ok:
  assumes d: "dump_ok now q0 st0 del q st" and now: "valid_time now" and re: "ts_mRetrans st"
    and cur: "vq_getCurrentBurst now q = (Some b, q')"
    and u: "ts_ok st'" "mset d1 + rv_owned b' + ts_owned st' = rv_owned b + ts_owned st"
      "filler_at now st' = rv_getVector 0 b"
  defines "c \<equiv> \<lparr>sc_vector = rv_getVector 0 b,
      sc_zero = (ts_chanType st ! nat (mTN now) = comb_code CC_NONE), sc_filler = True\<rparr>"
  shows "push_owned q0 st0 c (del @ d1 @ rv_delete b') q' st'"
    and "set q0 \<subseteq> rv_window base \<Longrightarrow> in_window base now \<Longrightarrow> push_sched base now q0 st0 c q' st'"
proof -
  note C = vq_current_some [OF cur]
  have D: "ts_ok st" "mset del + q_owned q + ts_owned st = q_owned q0 + ts_owned st0" "set q \<subseteq> set q0"
      "ts_chanType st = ts_chanType st0" "ts_mRetrans st = ts_mRetrans st0"
    using d unfolding dump_ok_def by blast+
  have sub: "set q' \<subseteq> set q" using arg_cong [OF C(1), of set_mset] by auto
  have "mset (del @ d1 @ rv_delete b') + mset (sc_delete c) + q_owned q' + ts_owned st' =
      mset del + q_owned q' + (mset d1 + rv_owned b' + ts_owned st')"
    by (simp add: c_def sc_delete_def rv_owned_def ac_simps)
  also have "\<dots> = mset del + q_owned q + ts_owned st"
    unfolding u(2) q_owned_add [OF C(1)] by (simp add: ac_simps)
  finally have o: "mset (del @ d1 @ rv_delete b') + mset (sc_delete c) + q_owned q' + ts_owned st' =
      q_owned q0 + ts_owned st0" unfolding D(2) .
  have l: "v \<in># ts_owned st' + mset (sc_delete c)" if "sc_vector c = Some v" for v
    using that filler_at_owned [OF u(1) now, of v] u(3) by (simp add: c_def)
  show "push_owned q0 st0 c (del @ d1 @ rv_delete b') q' st'"
    unfolding push_owned_def using D(1,3) u(1) sub o l by blast
  show "push_sched base now q0 st0 c q' st'" if w: "set q0 \<subseteq> rv_window base" "in_window base now"
  proof -
    have m: "mset q = due base now q0" using d w unfolding dump_ok_def by blast
    have b: "b \<in> set q0" "rv_time b = now" using C D(3) by (auto simp: time_eq_valid)
    then have e: "\<exists>b \<in> set q0. rv_time b = now" by blast
    have "mset q' = due base now q0 - {#b#}" using C(1) m by simp
    then have "\<exists>b \<in> set q0. rv_time b = now \<and> sc_vector c = rv_getVector 0 b \<and> mset q' = due base now q0 - {#b#}"
      using b by (auto simp: c_def)
    then show ?thesis using e re D(4,5) u(3) by (simp add: push_sched_def c_def)
  qed
qed

lemma ts_push_chan_ok:
  assumes st0: "ts_ok st0" and q0: "\<forall>b \<in> set q0. valid_time (rv_time b)" and now: "valid_time now"
  obtains c del q' st' where "ts_push_chan now q0 st0 = Some (c, del, q', st')"
    and "push_owned q0 st0 c del q' st'"
    and "\<And>base. set q0 \<subseteq> rv_window base \<Longrightarrow> in_window base now \<Longrightarrow> push_sched base now q0 st0 c q' st'"
proof -
  obtain del q st where d: "ts_dump_stale (length q0) now q0 st0 = Some (del, q, st)"
      and ok: "dump_ok now q0 st0 del q st"
    using ts_dump_stale_ok [OF st0 q0 order_refl] by blast
  have D: "ts_ok st" "set q \<subseteq> set q0" using ok unfolding dump_ok_def by blast+
  note f = ts_filler_index_ok(1) [OF D(1) now]
  show thesis
  proof (cases "vq_getCurrentBurst now q")
    case (Pair r q')
    show thesis
    proof (cases r)
      case None
      note cur = Pair [unfolded None]
      show thesis
        by (rule that [OF _ push_filler_ok [OF ok now cur]])
          (simp add: ts_push_chan_def d f cur filler_at_def Let_def)
    next
      case (Some b)
      note cur = Pair [unfolded Some]
      show thesis
      proof (cases "ts_mRetrans st")
        case False
        show thesis
          by (rule that [OF _ push_burst_ok [OF ok now False cur]])
            (simp add: ts_push_chan_def d f cur False Let_def)
      next
        case True
        have b: "rv_time b = now" and vb: "valid_time (rv_time b)"
          using vq_current_some [OF cur] q0 D(2) by (auto simp: time_eq_valid)
        obtain d1 b' st' where u: "ts_updateFillerTable b st = Some (d1, b', st')" "ts_ok st'"
            "mset d1 + rv_owned b' + ts_owned st' = rv_owned b + ts_owned st"
            "ts_fillerModulus st' = ts_fillerModulus st"
            "\<And>n k. ts_filler_index (rv_time b) st = Some (n, k) \<Longrightarrow> ts_fillerTable st' ! n ! k = rv_getVector 0 b"
          by (rule ts_updateFillerTable_ok [OF D(1) vb]) blast
        have fa: "filler_at now st' = rv_getVector 0 b"
          unfolding filler_at_def u(4) by (rule u(5)) (simp add: b f)
        show thesis
          by (rule that [OF _ push_retrans_ok [OF ok now True cur u(2,3) fa]])
            (simp add: ts_push_chan_def d f cur True u(1) Let_def)
      qed
    qed
  qed
qed

text \<open>C1. Memory safety of the transmit path of a channel, for any queue of bursts with valid times:
  choosing the burst of a slot always returns, and every vector that the queue and the filler table owned
  is afterwards deleted, or handed to the transmitter to be deleted after it was sent, or still owned,
  and exactly once. If no vector was owned twice, the one that is sent was not deleted before.\<close>

theorem slot_burst_ownership:
  assumes "ts_ok st" and "\<forall>b \<in> set q. valid_time (rv_time b)" and "valid_time now"
  shows "\<exists>c del q' st'. ts_push_chan now q st = Some (c, del, q', st') \<and> ts_ok st' \<and>
    mset del + mset (sc_delete c) + q_owned q' + ts_owned st' = q_owned q + ts_owned st \<and>
    ((\<forall>v. count (q_owned q + ts_owned st) v \<le> 1) \<longrightarrow> (\<forall>v. sc_vector c = Some v \<longrightarrow> v \<notin> set del))"
proof -
  obtain c del q' st' where p: "ts_push_chan now q st = Some (c, del, q', st')" "push_owned q st c del q' st'"
    by (rule ts_push_chan_ok [OF assms]) blast
  have o: "mset del + mset (sc_delete c) + q_owned q' + ts_owned st' = q_owned q + ts_owned st"
    and ok: "ts_ok st'" and l: "\<forall>v. sc_vector c = Some v \<longrightarrow> v \<in># ts_owned st' + mset (sc_delete c)"
    using p(2) unfolding push_owned_def by blast+
  have "v \<notin> set del" if once: "\<forall>v. count (q_owned q + ts_owned st) v \<le> 1" and v: "sc_vector c = Some v" for v
  proof
    assume "v \<in> set del"
    then have "1 \<le> count (mset del) v" by (simp add: Suc_le_eq)
    moreover have "1 \<le> count (mset (sc_delete c)) v + count (ts_owned st') v"
      using l v by (simp add: Suc_le_eq) (metis add_gr_0 not_in_iff set_mset_mset zero_less_iff_neq_zero)
    moreover have "count (mset del) v + count (mset (sc_delete c)) v + count (q_owned q') v + count (ts_owned st') v \<le> 1"
      using spec [OF once, of v] unfolding o [symmetric] by simp
    ultimately show False by linarith
  qed
  then show ?thesis using p(1) o ok by blast
qed

definition demo_state :: "string trx_state" where
  "demo_state = ts_new\<lparr>ts_mRetrans := True, ts_chanType := replicate 8 4\<rparr>"

definition demo_queue :: "string radio_vector list" where
  "demo_queue = [rv_single (Time 7 2) (Some ''now''), rv_single (Time 6 5) (Some ''late''),
     rv_single (Time 8 0) (Some ''next'')]"

lemma demo_ok: "ts_ok demo_state" "\<forall>b \<in> set demo_queue. valid_time (rv_time b)" "valid_time (Time 7 2)"
    "set demo_queue \<subseteq> rv_window 0" "in_window 0 (Time 7 2)"
  using ts_ok_new [where 'a = string]
  by (simp_all add: demo_state_def demo_queue_def rv_single_def valid_timeI ts_ok_def rv_window_def
      in_window_def valid_FN_def gHyperframe_eq)

theorem slot_burst_ownership_witness:
  "\<exists>c del q' st'. ts_push_chan (Time 7 2) demo_queue demo_state = Some (c, del, q', st') \<and>
    mset del + mset (sc_delete c) + q_owned q' + ts_owned st' = q_owned demo_queue + ts_owned demo_state"
  using slot_burst_ownership [OF demo_ok(1-3)] by blast

text \<open>C2. What a channel transmits in a slot, for bursts of one window of less than half a hyperframe:
  a burst of the queue due exactly now if there is one, else the entry of the filler table; zeros if the
  slot is inactive. Afterwards the queue holds what is due now or later without the burst sent. A
  channel that retransmits keeps the vector sent as the filler of this frame of the multiframe, and one
  that does not leaves its state as it was.\<close>

theorem slot_burst_schedule:
  assumes "ts_ok st" and "set q \<subseteq> rv_window base" and "in_window base now"
  shows "\<exists>c del q' st'. ts_push_chan now q st = Some (c, del, q', st') \<and>
    sc_zero c = (ts_chanType st ! nat (mTN now) = comb_code CC_NONE) \<and>
    (if ts_mRetrans st then sc_filler c \<and> filler_at now st' = sc_vector c else st' = st) \<and>
    (if \<exists>b \<in> set q. rv_time b = now
     then \<exists>b \<in> set q. rv_time b = now \<and> sc_vector c = rv_getVector 0 b \<and> mset q' = due base now q - {#b#}
     else sc_vector c = filler_at now st' \<and> mset q' = due base now q)"
proof -
  have v: "\<forall>b \<in> set q. valid_time (rv_time b)" "valid_time now"
    using assms by (auto simp: rv_window_def in_window_def)
  obtain c del q' st' where p: "ts_push_chan now q st = Some (c, del, q', st')" "push_sched base now q st c q' st'"
    by (rule ts_push_chan_ok [OF assms(1) v]) (use assms in blast)
  then show ?thesis unfolding push_sched_def by blast
qed

theorem slot_burst_schedule_witness:
  "\<exists>c del q' st'. ts_push_chan (Time 7 2) demo_queue demo_state = Some (c, del, q', st') \<and>
    sc_vector c = Some ''now'' \<and> filler_at (Time 7 2) st' = Some ''now'' \<and>
    mset q' = {#rv_single (Time 8 0) (Some ''next'')#}"
proof -
  have d: "due 0 (Time 7 2) demo_queue =
      {#rv_single (Time 7 2) (Some ''now''), rv_single (Time 8 0) (Some ''next'')#}"
    by (simp add: due_def demo_queue_def rv_pos_def rv_single_def window_pos_def gHyperframe_eq)
  have e: "\<exists>b \<in> set demo_queue. rv_time b = Time 7 2" by (simp add: demo_queue_def rv_single_def)
  have b: "rv_getVector 0 b = Some ''now'' \<and> b = rv_single (Time 7 2) (Some ''now'')"
    if "b \<in> set demo_queue" "rv_time b = Time 7 2" for b
    using that by (auto simp: demo_queue_def rv_single_def rv_getVector_def)
  have r: "ts_mRetrans demo_state" by (simp add: demo_state_def)
  obtain c del q' st' b where "ts_push_chan (Time 7 2) demo_queue demo_state = Some (c, del, q', st')"
      "filler_at (Time 7 2) st' = sc_vector c" "b \<in> set demo_queue" "rv_time b = Time 7 2"
      "sc_vector c = rv_getVector 0 b" "mset q' = due 0 (Time 7 2) demo_queue - {#b#}"
    using slot_burst_schedule [OF demo_ok(1,4,5)] e r by auto
  then show ?thesis using b d by fastforce
qed

end
