(* ===== verification/Scanf.thy ===== *)
theory Scanf
  imports Prelude
begin

text \<open>
  Decimal numbers in strings, as the C library reads them: the conversions \<open>%d\<close> and \<open>%u\<close> of \<open>sscanf\<close>, and \<open>atoi\<close>.
\<close>

definition is_digit :: "char \<Rightarrow> bool" where
  "is_digit c \<longleftrightarrow> 48 \<le> (of_char c :: nat) \<and> (of_char c :: nat) \<le> 57"

definition digit_val :: "char \<Rightarrow> nat" where
  "digit_val c = of_char c - 48"

fun scan_digits :: "nat \<Rightarrow> string \<Rightarrow> nat \<times> string" where
  "scan_digits acc [] = (acc, [])"
| "scan_digits acc (c # cs) =
    (if is_digit c then scan_digits (acc * 10 + digit_val c) cs else (acc, c # cs))"

text \<open>What \<open>%d\<close> and \<open>%u\<close> match: white space, a sign, decimal digits. The result is whether the sign is a
  minus, the number and the rest.\<close>

definition scan_number :: "string \<Rightarrow> (bool \<times> nat \<times> string) option" where
  "scan_number cs0 =
    (let cs = dropWhile is_space cs0;
         negative = (cs \<noteq> [] \<and> hd cs = CHR ''-'');
         ds = (if cs \<noteq> [] \<and> (hd cs = CHR ''-'' \<or> hd cs = CHR ''+'') then tl cs else cs)
     in if ds \<noteq> [] \<and> is_digit (hd ds) then (let (n, rest) = scan_digits 0 ds in Some (negative, n, rest)) else None)"

text \<open>\<open>%d\<close> is a \<open>long\<close>, cut off at its bounds, and \<open>%u\<close> an \<open>unsigned long\<close>; either is then stored in 32
  bits.\<close>

definition scan_d :: "string \<Rightarrow> (int \<times> string) option" where
  "scan_d cs =
    (case scan_number cs of
       None \<Rightarrow> None
     | Some (negative, n, rest) \<Rightarrow>
         Some (s32 (if negative then max (- 9223372036854775808) (- int n) else min 9223372036854775807 (int n)), rest))"

definition scan_u :: "string \<Rightarrow> (int \<times> string) option" where
  "scan_u cs =
    (case scan_number cs of
       None \<Rightarrow> None
     | Some (negative, n, rest) \<Rightarrow>
         Some (u32 (if int n > 18446744073709551615 then 18446744073709551615 else if negative then - int n else int n), rest))"

text \<open>\<open>atoi\<close> gives 0 where there is no number.\<close>

definition c_atoi :: "string \<Rightarrow> int" where
  "c_atoi cs = (case scan_d cs of None \<Rightarrow> 0 | Some (n, _) \<Rightarrow> n)"

end
