(* ===== verification/TrxControl.thy ===== *)
theory TrxControl
  imports RadioInterface TrxState Scanf
begin

text \<open>
  The \<open>Transceiver\<close> object of \<^verbatim>\<open>Transceiver52M/Transceiver.h\<close> and \<^verbatim>\<open>Transceiver.cpp\<close>: construction,
  \<open>init\<close>, \<open>start\<close>, \<open>stop\<close>, the destructor, and the text protocol of the control socket
  (\<open>driveControl\<close>, \<open>match_cmd\<close>).

  The radio is a record of functions, since \<open>RadioInterface\<close> has virtual operations; \<open>ri_ops\<close> is the
  record that the plain interface provides. The receive FIFOs belong to the radio. A message is the list of its characters. The numbers of a
  command are read as \<open>sscanf\<close> of the C library does: a conversion that fails leaves its variable, which
  for most commands was never initialised, so \<open>driveControl\<close> takes the initial values of two such
  variables, cut to 32 bits. An action without a defined result is \<open>None\<close>.
\<close>

section \<open>The radio behind the transceiver\<close>

record ('v, 'r) radio_ops =
  ro_start :: "'r \<Rightarrow> (bool \<times> 'r) option"
  ro_stop :: "'r \<Rightarrow> bool \<times> 'r"
  ro_setPowerAttenuation :: "int \<Rightarrow> nat \<Rightarrow> 'r \<Rightarrow> int \<times> 'r"
  ro_setRxGain :: "real \<Rightarrow> nat \<Rightarrow> 'r \<Rightarrow> real \<times> 'r"
  ro_tuneTx :: "real \<Rightarrow> nat \<Rightarrow> 'r \<Rightarrow> bool \<times> 'r"
  ro_tuneRx :: "real \<Rightarrow> nat \<Rightarrow> 'r \<Rightarrow> bool \<times> 'r"
  ro_fullScaleInputValue :: "'r \<Rightarrow> real"
  ro_fullScaleOutputValue :: "'r \<Rightarrow> real"
  ro_getClock :: "'r \<Rightarrow> gsm_time"
  ro_setClock :: "gsm_time \<Rightarrow> 'r \<Rightarrow> 'r"
  ro_isUnderrun :: "'r \<Rightarrow> bool \<times> 'r"
  ro_window_usrp1 :: "'r \<Rightarrow> bool"
  ro_minLatency :: "'r \<Rightarrow> gsm_time"
  ro_driveTransmitRadio :: "('v option \<times> bool) list \<Rightarrow> 'r \<Rightarrow> 'r option"
  ro_driveReceiveRadio :: "'r \<Rightarrow> (int \<times> 'r) option"
  ro_fifo :: "nat \<Rightarrow> 'r \<Rightarrow> 'v radio_vector pointer_fifo"
  ro_set_fifo :: "nat \<Rightarrow> 'v radio_vector pointer_fifo \<Rightarrow> 'r \<Rightarrow> 'r"

definition ri_ops :: "('a::zero, 'h, 'd) radio_env \<Rightarrow> nat \<Rightarrow> bool \<Rightarrow> gsm_time \<Rightarrow>
    ('a list, ('a, 'd) radio_interface) radio_ops" where
  "ri_ops E head usrp1 latency =
    \<lparr>ro_start = ri_start E, ro_stop = ri_stop E, ro_setPowerAttenuation = ri_setPowerAttenuation E,
     ro_setRxGain = ri_setRxGain E, ro_tuneTx = ri_tuneTx E, ro_tuneRx = ri_tuneRx E,
     ro_fullScaleInputValue = ri_fullScaleInputValue E, ro_fullScaleOutputValue = ri_fullScaleOutputValue E,
     ro_getClock = (\<lambda>r. rc_get (ri_clock r)), ro_setClock = (\<lambda>t r. r\<lparr>ri_clock := fst (rc_set t (ri_clock r))\<rparr>),
     ro_isUnderrun = ri_isUnderrun, ro_window_usrp1 = (\<lambda>r. usrp1), ro_minLatency = (\<lambda>r. latency),
     ro_driveTransmitRadio = (\<lambda>bursts r.
       if None \<in> set (map fst bursts) then None
       else ri_driveTransmitRadio (ri_pushBuffer E) (map (\<lambda>(v, z). (the v, z)) bursts) r),
     ro_driveReceiveRadio = ri_driveReceiveRadio E (ri_pullBuffer E) head,
     ro_fifo = (\<lambda>i r. ri_receiveFIFO r ! i),
     ro_set_fifo = (\<lambda>i q r. r\<lparr>ri_receiveFIFO := (ri_receiveFIFO r)[i := q]\<rparr>)\<rparr>"

section \<open>The transceiver\<close>

text \<open>The threads that run; a cancelled and joined thread is taken out.\<close>

datatype trx_thread = RxLower | TxLower | RxUpper nat | TxUpper nat | CtrlService nat

text \<open>\<open>tr_ctrlSockets\<close> and \<open>tr_dataSockets\<close> hold the local and the remote port of each channel's
  sockets, and \<open>tr_receiveFIFO\<close> the number of the radio's FIFO that a channel's pointer refers to.
  \<open>tr_sig_cbfn\<close> is the signal handler that the object holds and \<open>tr_registered\<close> the list of those that
  are registered.\<close>

record ('v, 'r) transceiver =
  tr_mBasePort :: int
  tr_mRadioInterface :: 'r
  tr_mSPSTx :: nat
  tr_mSPSRx :: nat
  tr_mChans :: nat
  tr_txFullScale :: real
  tr_rxFullScale :: real
  tr_rssiOffset :: real
  tr_mExtRACH :: bool
  tr_mEdge :: bool
  tr_mOn :: bool
  tr_mForceClockInterface :: bool
  tr_mHandover :: "bool list list"
  tr_mTxFreq :: real
  tr_mRxFreq :: real
  tr_mTSC :: int
  tr_mMaxExpectedDelayAB :: int
  tr_mMaxExpectedDelayNB :: int
  tr_mWriteBurstToDiskMask :: int
  tr_mTransmitLatency :: gsm_time
  tr_mLatencyUpdateTime :: gsm_time
  tr_mTransmitDeadlineClock :: gsm_time
  tr_mLastClockUpdateTime :: gsm_time
  tr_mStates :: "'v trx_state list"
  tr_mTxPriorityQueues :: "'v radio_vector list list"
  tr_mReceiveFIFO :: "nat option list"
  tr_ctrlSockets :: "(int \<times> int) list"
  tr_dataSockets :: "(int \<times> int) list"
  tr_threads :: "trx_thread list"
  tr_sig_cbfn :: "nat option"
  tr_registered :: "nat list"

definition no_handover :: "bool list list" where
  "no_handover = replicate 8 (replicate 8 False)"

text \<open>The constructor leaves \<open>mExtRACH\<close> and the two times of the clock messages unset; \<open>init\<close> sets
  them.\<close>

definition trx_new :: "('v, 'r) radio_ops \<Rightarrow> int \<Rightarrow> nat \<Rightarrow> nat \<Rightarrow> nat \<Rightarrow> gsm_time \<Rightarrow> 'r \<Rightarrow> real \<Rightarrow>
    ('v, 'r) transceiver" where
  "trx_new R wBasePort tx_sps rx_sps chans wTransmitLatency radio wRssiOffset =
    \<lparr>tr_mBasePort = wBasePort, tr_mRadioInterface = radio, tr_mSPSTx = tx_sps, tr_mSPSRx = rx_sps,
     tr_mChans = chans, tr_txFullScale = ro_fullScaleInputValue R radio,
     tr_rxFullScale = ro_fullScaleOutputValue R radio, tr_rssiOffset = wRssiOffset, tr_mExtRACH = False,
     tr_mEdge = False, tr_mOn = False, tr_mForceClockInterface = False, tr_mHandover = no_handover,
     tr_mTxFreq = 0, tr_mRxFreq = 0, tr_mTSC = 0, tr_mMaxExpectedDelayAB = 0, tr_mMaxExpectedDelayNB = 0,
     tr_mWriteBurstToDiskMask = 0, tr_mTransmitLatency = wTransmitLatency, tr_mLatencyUpdateTime = Time 0 0,
     tr_mTransmitDeadlineClock = Time 0 0, tr_mLastClockUpdateTime = Time 0 0, tr_mStates = [],
     tr_mTxPriorityQueues = [], tr_mReceiveFIFO = [], tr_ctrlSockets = [], tr_dataSockets = [],
     tr_threads = [], tr_sig_cbfn = None, tr_registered = []\<rparr>"

definition trx_receiveFIFO :: "nat option \<Rightarrow> nat \<Rightarrow> ('v, 'r) transceiver \<Rightarrow> bool \<times> ('v, 'r) transceiver" where
  "trx_receiveFIFO wFIFO chan t =
    (if chan \<ge> length (tr_mReceiveFIFO t) then (False, t)
     else (True, t\<lparr>tr_mReceiveFIFO := (tr_mReceiveFIFO t)[chan := wFIFO]\<rparr>))"

definition trx_setSignalHandler :: "nat option \<Rightarrow> ('v, 'r) transceiver \<Rightarrow> ('v, 'r) transceiver" where
  "trx_setSignalHandler cbfn t =
    (let t1 = (case tr_sig_cbfn t of None \<Rightarrow> t | Some f \<Rightarrow> t\<lparr>tr_registered := remove1 f (tr_registered t)\<rparr>)
     in case cbfn of
          None \<Rightarrow> t1
        | Some f \<Rightarrow> t1\<lparr>tr_sig_cbfn := Some f, tr_registered := f # tr_registered t1\<rparr>)"

text \<open>\<open>init\<close> takes the result of \<open>sigProcLibSetup\<close> and the number that \<open>random\<close> returns. The filler of
  channel 0 is only retransmitted if it is the dummy burst, and later channels are filled with zeros
  then.\<close>

definition chan_filler :: "filler_type \<Rightarrow> nat \<Rightarrow> filler_type" where
  "chan_filler filler i = (if i \<noteq> 0 \<and> filler = FILLER_DUMMY then FILLER_ZERO else filler)"

definition trx_init :: "'v dsp_env \<Rightarrow> ('v, 'r) radio_ops \<Rightarrow> bool \<Rightarrow> nat \<Rightarrow> filler_type \<Rightarrow> nat \<Rightarrow> nat \<Rightarrow> bool \<Rightarrow> bool \<Rightarrow>
    ('v, 'r) transceiver \<Rightarrow> (bool \<times> ('v, 'r) transceiver) option" where
  "trx_init D R setup rnd filler rtsc rach_delay edge ext_rach t =
    (if tr_mChans t = 0 \<or> \<not> setup then Some (False, t)
     else
       let n = tr_mChans t;
           states0 = vec_resize n ts_new (tr_mStates t);
           states = (if filler = FILLER_DUMMY then states0[0 := (states0 ! 0)\<lparr>ts_mRetrans := True\<rparr>] else states0);
           startTime = Time (int rnd mod gHyperframe) 0
       in case those (map (\<lambda>i. ts_init D (chan_filler filler i) (tr_mSPSTx t) (tr_txFullScale t) rtsc rach_delay
                          (states ! i)) [0..<n]) of
            None \<Rightarrow> None
          | Some inits \<Rightarrow> Some (True, t\<lparr>
              tr_mExtRACH := ext_rach, tr_mEdge := edge,
              tr_mTxPriorityQueues := vec_resize n [] (tr_mTxPriorityQueues t),
              tr_mReceiveFIFO := vec_resize n None (tr_mReceiveFIFO t),
              tr_mStates := map snd inits,
              tr_ctrlSockets := map (\<lambda>i. (tr_mBasePort t + 2 * int i + 1, tr_mBasePort t + 2 * int i + 101)) [0..<n],
              tr_dataSockets := map (\<lambda>i. (tr_mBasePort t + 2 * int i + 2, tr_mBasePort t + 2 * int i + 102)) [0..<n],
              tr_mRadioInterface := ro_setClock R startTime (tr_mRadioInterface t),
              tr_mTransmitDeadlineClock := startTime, tr_mLastClockUpdateTime := startTime,
              tr_mLatencyUpdateTime := startTime,
              tr_threads := tr_threads t @ map CtrlService [0..<n]\<rparr>))"

definition io_threads :: "nat \<Rightarrow> trx_thread list" where
  "io_threads n = [TxLower, RxLower] @ concat (map (\<lambda>i. [RxUpper i, TxUpper i]) [0..<n])"

definition trx_start :: "('v, 'r) radio_ops \<Rightarrow> ('v, 'r) transceiver \<Rightarrow> (bool \<times> ('v, 'r) transceiver) option" where
  "trx_start R t =
    (if tr_mOn t then Some (True, t)
     else
       let time = ro_getClock R (tr_mRadioInterface t);
           t1 = t\<lparr>tr_mTransmitDeadlineClock := time, tr_mLastClockUpdateTime := time, tr_mLatencyUpdateTime := time\<rparr>
       in case ro_start R (tr_mRadioInterface t1) of
            None \<Rightarrow> None
          | Some (ok, radio) \<Rightarrow>
              let t2 = t1\<lparr>tr_mRadioInterface := radio\<rparr>
              in if \<not> ok then Some (False, t2)
                 else Some (True, t2\<lparr>tr_threads := tr_threads t2 @ io_threads (tr_mChans t2),
                                     tr_mForceClockInterface := True, tr_mOn := True\<rparr>))"

text \<open>The queues of the first \<open>n\<close> channels are cleared; the bursts are deleted with their vectors.\<close>

definition clear_queues :: "nat \<Rightarrow> 'v radio_vector list list \<Rightarrow> 'v list \<times> 'v radio_vector list list" where
  "clear_queues n qs =
    (concat (map (\<lambda>q. concat (map rv_delete (fst (pq_clear rv_greater q)))) (take n qs)),
     map (\<lambda>q. snd (pq_clear rv_greater q)) (take n qs) @ drop n qs)"

definition trx_stop :: "('v, 'r) radio_ops \<Rightarrow> ('v, 'r) transceiver \<Rightarrow> 'v list \<times> ('v, 'r) transceiver" where
  "trx_stop R t =
    (if \<not> tr_mOn t then ([], t)
     else
       let n = tr_mChans t;
           (del, qs) = clear_queues n (tr_mTxPriorityQueues t);
           (_, radio) = ro_stop R (tr_mRadioInterface t)
       in (del, t\<lparr>tr_threads := fold remove1 (io_threads n) (tr_threads t), tr_mRadioInterface := radio,
                  tr_mTxPriorityQueues := qs, tr_mOn := False\<rparr>))"

definition trx_reset :: "('v, 'r) transceiver \<Rightarrow> 'v list \<times> ('v, 'r) transceiver" where
  "trx_reset t =
    (let (del, qs) = clear_queues (length (tr_mTxPriorityQueues t)) (tr_mTxPriorityQueues t)
     in (del, t\<lparr>tr_mTxPriorityQueues := qs\<rparr>))"

text \<open>The destructor stops, ends the control threads, clears the queues, and deletes the sockets; then the
  members go, and with the states their filler tables.\<close>

definition trx_delete :: "('v, 'r) radio_ops \<Rightarrow> ('v, 'r) transceiver \<Rightarrow> 'v list \<times> ('v, 'r) transceiver" where
  "trx_delete R t =
    (let (del1, t1) = trx_stop R t;
         (del2, qs) = clear_queues (tr_mChans t1) (tr_mTxPriorityQueues t1)
     in (del1 @ del2 @ concat (map ts_delete (tr_mStates t1)),
         t1\<lparr>tr_threads := fold remove1 (map CtrlService [0..<tr_mChans t1]) (tr_threads t1),
            tr_mTxPriorityQueues := qs, tr_mStates := [], tr_ctrlSockets := [], tr_dataSockets := []\<rparr>))"

section \<open>Numbers of the protocol\<close>

text \<open>\<open>sscanf\<close> with one or two conversions on variables that held \<open>j\<close> or \<open>j1\<close> and \<open>j2\<close>.\<close>

definition sscanf1 :: "(string \<Rightarrow> (int \<times> string) option) \<Rightarrow> string \<Rightarrow> int \<Rightarrow> int" where
  "sscanf1 conv params j = (case conv params of None \<Rightarrow> j | Some (v, _) \<Rightarrow> v)"

definition sscanf2 :: "(string \<Rightarrow> (int \<times> string) option) \<Rightarrow> string \<Rightarrow> int \<Rightarrow> int \<Rightarrow> int \<times> int" where
  "sscanf2 conv params j1 j2 =
    (case conv params of
       None \<Rightarrow> (j1, j2)
     | Some (v1, rest) \<Rightarrow> (case conv (dropWhile is_space rest) of None \<Rightarrow> (v1, j2) | Some (v2, _) \<Rightarrow> (v1, v2)))"

fun dec :: "nat \<Rightarrow> string" where
  "dec n = (if n < 10 then [char_of (48 + n)] else dec (n div 10) @ [char_of (48 + n mod 10)])"

declare dec.simps [simp del]

definition print_d :: "int \<Rightarrow> string" where
  "print_d v = (if v < 0 then CHR ''-'' # dec (nat (- v)) else dec (nat v))"

section \<open>The control socket\<close>

definition MAX_PACKET_LENGTH :: nat where "MAX_PACKET_LENGTH = 100"

text \<open>\<open>match_cmd\<close> compares the start of the buffer with a command; with arguments a space must follow,
  and the result is the text behind it.\<close>

definition match_cmd :: "string \<Rightarrow> string \<Rightarrow> bool \<Rightarrow> string option" where
  "match_cmd buf cmd params =
    (if take (length cmd) buf \<noteq> cmd then None
     else if \<not> params then Some []
     else case drop (length cmd) buf of c # rest \<Rightarrow> if c = CHR '' '' then Some rest else None | [] \<Rightarrow> None)"

definition answer :: "string \<Rightarrow> ('v, 'r) transceiver \<Rightarrow> (string option \<times> ('v, 'r) transceiver) option" where
  "answer response t = Some (Some response, t)"

definition upd_state :: "nat \<Rightarrow> ('v trx_state \<Rightarrow> 'v trx_state) \<Rightarrow> ('v, 'r) transceiver \<Rightarrow> ('v, 'r) transceiver" where
  "upd_state chan f t = t\<lparr>tr_mStates := (tr_mStates t)[chan := f (tr_mStates t ! chan)]\<rparr>"

definition ctl_powerOff :: "('v, 'r) radio_ops \<Rightarrow> ('v, 'r) transceiver \<Rightarrow> (string option \<times> ('v, 'r) transceiver) option" where
  "ctl_powerOff R t = answer ''RSP POWEROFF 0'' (snd (trx_stop R t))"

definition ctl_powerOn :: "('v, 'r) radio_ops \<Rightarrow> ('v, 'r) transceiver \<Rightarrow> (string option \<times> ('v, 'r) transceiver) option" where
  "ctl_powerOn R t =
    (case trx_start R t of
       None \<Rightarrow> None
     | Some (ok, t') \<Rightarrow>
         if \<not> ok then answer ''RSP POWERON 1'' t'
         else answer ''RSP POWERON 0'' (t'\<lparr>tr_mHandover := no_handover\<rparr>))"

definition set_handover :: "int \<Rightarrow> int \<Rightarrow> bool \<Rightarrow> ('v, 'r) transceiver \<Rightarrow> ('v, 'r) transceiver" where
  "set_handover ts ss b t =
    t\<lparr>tr_mHandover := (tr_mHandover t)[nat ts := (tr_mHandover t ! nat ts)[nat ss := b]]\<rparr>"

definition ctl_handover :: "string \<Rightarrow> ('v, 'r) transceiver \<Rightarrow> (string option \<times> ('v, 'r) transceiver) option" where
  "ctl_handover params t =
    (let (ts, ss) = sscanf2 scan_u params 0 0
     in if ts > 7 \<or> ss > 7 then answer (''RSP NOHANDOVER 1 '' @ print_d ts @ '' '' @ print_d ss) t
        else answer (''RSP HANDOVER 0 '' @ print_d ts @ '' '' @ print_d ss) (set_handover ts ss True t))"

definition ctl_noHandover :: "string \<Rightarrow> ('v, 'r) transceiver \<Rightarrow> (string option \<times> ('v, 'r) transceiver) option" where
  "ctl_noHandover params t =
    (let (ts, ss) = sscanf2 scan_u params 0 0
     in if ts > 7 \<or> ss > 7 then answer (''RSP NOHANDOVER 1 '' @ print_d ts @ '' '' @ print_d ss) t
        else answer (''RSP NOHANDOVER 0 '' @ print_d ts @ '' '' @ print_d ss) (set_handover ts ss False t))"

definition ctl_setMaxDly :: "string \<Rightarrow> int \<Rightarrow> ('v, 'r) transceiver \<Rightarrow> (string option \<times> ('v, 'r) transceiver) option" where
  "ctl_setMaxDly params j t =
    (let maxDelay = sscanf1 scan_d params j
     in answer (''RSP SETMAXDLY 0 '' @ print_d maxDelay) (t\<lparr>tr_mMaxExpectedDelayAB := u32 maxDelay\<rparr>))"

definition ctl_setMaxDlyNB :: "string \<Rightarrow> int \<Rightarrow> ('v, 'r) transceiver \<Rightarrow> (string option \<times> ('v, 'r) transceiver) option" where
  "ctl_setMaxDlyNB params j t =
    (let maxDelay = sscanf1 scan_d params j
     in answer (''RSP SETMAXDLYNB 0 '' @ print_d maxDelay) (t\<lparr>tr_mMaxExpectedDelayNB := u32 maxDelay\<rparr>))"

text \<open>A gain that is set comes back as a \<open>double\<close> and is cut to an \<open>int\<close>; out of its range the
  conversion is undefined.\<close>

definition real_to_int :: "real \<Rightarrow> int option" where
  "real_to_int x =
    (let v = (if x < 0 then \<lceil>x\<rceil> else \<lfloor>x\<rfloor>) in if -2147483648 \<le> v \<and> v < 2147483648 then Some v else None)"

definition ctl_setRxGain :: "('v, 'r) radio_ops \<Rightarrow> nat \<Rightarrow> string \<Rightarrow> int \<Rightarrow> ('v, 'r) transceiver \<Rightarrow>
    (string option \<times> ('v, 'r) transceiver) option" where
  "ctl_setRxGain R chan params j t =
    (let newGain = sscanf1 scan_d params j;
         (gain, radio) = ro_setRxGain R (of_int newGain) chan (tr_mRadioInterface t)
     in case real_to_int gain of
          None \<Rightarrow> None
        | Some g \<Rightarrow> answer (''RSP SETRXGAIN 0 '' @ print_d g) (t\<lparr>tr_mRadioInterface := radio\<rparr>))"

text \<open>The noise level in dB; the logarithm of a division by the level 0, which holds until the first idle
  burst, has no integer value.\<close>

definition noise_dB :: "real \<Rightarrow> real \<Rightarrow> int option" where
  "noise_dB rxFullScale lev =
    (if lev \<le> 0 \<or> rxFullScale \<le> 0 then None
     else let x = 20 * log 10 (rxFullScale / lev)
          in real_to_int (if x < 0 then \<lceil>x - 1 / 2\<rceil> else \<lfloor>x + 1 / 2\<rfloor>))"

definition ctl_noiseLev :: "nat \<Rightarrow> ('v, 'r) transceiver \<Rightarrow> (string option \<times> ('v, 'r) transceiver) option" where
  "ctl_noiseLev chan t =
    (if tr_mOn t then
       (case noise_dB (tr_rxFullScale t) (ts_mNoiseLev (tr_mStates t ! chan)) of
          None \<Rightarrow> None
        | Some lev \<Rightarrow> answer (''RSP NOISELEV 0 '' @ print_d lev) t)
     else answer ''RSP NOISELEV 1  0'' t)"

definition apply_power :: "('v, 'r) radio_ops \<Rightarrow> nat \<Rightarrow> int \<Rightarrow> ('v, 'r) transceiver \<Rightarrow> int \<times> ('v, 'r) transceiver" where
  "apply_power R chan power0 t =
    (let (att, radio) = ro_setPowerAttenuation R power0 chan (tr_mRadioInterface t)
     in (att, upd_state chan (ts_mPower_update (\<lambda>_. att)) (t\<lparr>tr_mRadioInterface := radio\<rparr>)))"

definition ctl_setPower :: "('v, 'r) radio_ops \<Rightarrow> nat \<Rightarrow> string \<Rightarrow> int \<Rightarrow> ('v, 'r) transceiver \<Rightarrow>
    (string option \<times> ('v, 'r) transceiver) option" where
  "ctl_setPower R chan params j t =
    (let (att, t') = apply_power R chan (sscanf1 scan_d params j) t
     in answer (''RSP SETPOWER 0 '' @ print_d att) t')"

definition ctl_adjPower :: "('v, 'r) radio_ops \<Rightarrow> nat \<Rightarrow> string \<Rightarrow> int \<Rightarrow> ('v, 'r) transceiver \<Rightarrow>
    (string option \<times> ('v, 'r) transceiver) option" where
  "ctl_adjPower R chan params j t =
    (let step = sscanf1 scan_d params j;
         (att, t') = apply_power R chan (s32 (ts_mPower (tr_mStates t ! chan) + step)) t
     in answer (''RSP ADJPOWER 0 '' @ print_d att) t')"

definition ctl_rxTune :: "('v, 'r) radio_ops \<Rightarrow> nat \<Rightarrow> string \<Rightarrow> int \<Rightarrow> ('v, 'r) transceiver \<Rightarrow>
    (string option \<times> ('v, 'r) transceiver) option" where
  "ctl_rxTune R chan params j t =
    (let freqKhz = sscanf1 scan_d params j;
         freq = of_int freqKhz * 1000;
         (ok, radio) = ro_tuneRx R freq chan (tr_mRadioInterface t)
     in answer ((if ok then ''RSP RXTUNE 0 '' else ''RSP RXTUNE 1 '') @ print_d freqKhz)
          (t\<lparr>tr_mRxFreq := freq, tr_mRadioInterface := radio\<rparr>))"

definition ctl_txTune :: "('v, 'r) radio_ops \<Rightarrow> nat \<Rightarrow> string \<Rightarrow> int \<Rightarrow> ('v, 'r) transceiver \<Rightarrow>
    (string option \<times> ('v, 'r) transceiver) option" where
  "ctl_txTune R chan params j t =
    (let freqKhz = sscanf1 scan_d params j;
         freq = of_int freqKhz * 1000;
         (ok, radio) = ro_tuneTx R freq chan (tr_mRadioInterface t)
     in answer ((if ok then ''RSP TXTUNE 0 '' else ''RSP TXTUNE 1 '') @ print_d freqKhz)
          (t\<lparr>tr_mTxFreq := freq, tr_mRadioInterface := radio\<rparr>))"

text \<open>\<open>TSC\<close> is unsigned, but printed with \<open>%d\<close>.\<close>

definition ctl_setTSC :: "string \<Rightarrow> int \<Rightarrow> ('v, 'r) transceiver \<Rightarrow> (string option \<times> ('v, 'r) transceiver) option" where
  "ctl_setTSC params j t =
    (let TSC = sscanf1 scan_u params (u32 j)
     in if TSC > 7 then answer (''RSP SETTSC 1 '' @ print_d (s32 TSC)) t
        else answer (''RSP SETTSC 0 '' @ print_d (s32 TSC)) (t\<lparr>tr_mTSC := TSC\<rparr>))"

text \<open>A slot that is out of range is the one error that gets no answer.\<close>

definition ctl_setSlot :: "nat \<Rightarrow> string \<Rightarrow> int \<Rightarrow> int \<Rightarrow> ('v, 'r) transceiver \<Rightarrow>
    (string option \<times> ('v, 'r) transceiver) option" where
  "ctl_setSlot chan params j1 j2 t =
    (let (timeslot, corrCode) = sscanf2 scan_d params j1 j2
     in if timeslot < 0 \<or> timeslot > 7 then Some (None, t)
        else answer (''RSP SETSLOT 0 '' @ print_d timeslot @ '' '' @ print_d corrCode)
               (upd_state chan (\<lambda>st. ts_setModulus (nat timeslot)
                  (st\<lparr>ts_chanType := (ts_chanType st)[nat timeslot := corrCode]\<rparr>)) t))"

definition ctl_setBurstToDiskMask :: "string \<Rightarrow> int \<Rightarrow> ('v, 'r) transceiver \<Rightarrow>
    (string option \<times> ('v, 'r) transceiver) option" where
  "ctl_setBurstToDiskMask params j t =
    (let mask = sscanf1 scan_d params j
     in answer (''RSP _SETBURSTTODISKMASK 0 '' @ print_d mask) (t\<lparr>tr_mWriteBurstToDiskMask := u32 mask\<rparr>))"

text \<open>The commands, whether they have arguments, and their actions, in the order of the tests.\<close>

type_synonym ('v, 'r) ctl_entry =
  "string \<times> bool \<times> (string \<Rightarrow> (string option \<times> ('v, 'r) transceiver) option)"

definition ctl_table :: "('v, 'r) radio_ops \<Rightarrow> nat \<Rightarrow> int \<times> int \<Rightarrow> ('v, 'r) transceiver \<Rightarrow> ('v, 'r) ctl_entry list" where
  "ctl_table R chan junk t =
    [(''POWEROFF'', False, \<lambda>p. ctl_powerOff R t),
     (''POWERON'', False, \<lambda>p. ctl_powerOn R t),
     (''HANDOVER'', True, \<lambda>p. ctl_handover p t),
     (''NOHANDOVER'', True, \<lambda>p. ctl_noHandover p t),
     (''SETMAXDLY'', True, \<lambda>p. ctl_setMaxDly p (fst junk) t),
     (''SETMAXDLYNB'', True, \<lambda>p. ctl_setMaxDlyNB p (fst junk) t),
     (''SETRXGAIN'', True, \<lambda>p. ctl_setRxGain R chan p (fst junk) t),
     (''NOISELEV'', False, \<lambda>p. ctl_noiseLev chan t),
     (''SETPOWER'', True, \<lambda>p. ctl_setPower R chan p (fst junk) t),
     (''ADJPOWER'', True, \<lambda>p. ctl_adjPower R chan p (fst junk) t),
     (''RXTUNE'', True, \<lambda>p. ctl_rxTune R chan p (fst junk) t),
     (''TXTUNE'', True, \<lambda>p. ctl_txTune R chan p (fst junk) t),
     (''SETTSC'', True, \<lambda>p. ctl_setTSC p (fst junk) t),
     (''SETSLOT'', True, \<lambda>p. ctl_setSlot chan p (fst junk) (snd junk) t),
     (''_SETBURSTTODISKMASK'', True, \<lambda>p. ctl_setBurstToDiskMask p (fst junk) t)]"

fun ctl_first :: "('v, 'r) ctl_entry list \<Rightarrow> string \<Rightarrow> ('v, 'r) transceiver \<Rightarrow>
    (string option \<times> ('v, 'r) transceiver) option" where
  "ctl_first [] command t = answer ''RSP ERR 1'' t"
| "ctl_first ((cmd, params, action) # entries) command t =
    (case match_cmd command cmd params of
       Some p \<Rightarrow> action p
     | None \<Rightarrow> ctl_first entries command t)"

definition ctl_command :: "('v, 'r) radio_ops \<Rightarrow> nat \<Rightarrow> string \<Rightarrow> int \<times> int \<Rightarrow> ('v, 'r) transceiver \<Rightarrow>
    (string option \<times> ('v, 'r) transceiver) option" where
  "ctl_command R chan command junk t = ctl_first (ctl_table R chan junk t) command t"

text \<open>The socket delivers at most \<open>MAX_PACKET_LENGTH\<close> bytes of a message; the buffer ends at its first
  zero byte. The result is the answer, if one is sent, and the state.\<close>

definition driveControl :: "('v, 'r) radio_ops \<Rightarrow> nat \<Rightarrow> string \<Rightarrow> int \<times> int \<Rightarrow> ('v, 'r) transceiver \<Rightarrow>
    (string option \<times> ('v, 'r) transceiver) option" where
  "driveControl R chan msg junk t =
    (let buffer = takeWhile (\<lambda>c. c \<noteq> char_of (0::nat)) (take MAX_PACKET_LENGTH msg)
     in if msg = [] then Some (None, t)
        else if take 4 buffer \<noteq> ''CMD '' then Some (None, t)
        else ctl_command R chan (drop 4 buffer) (s32 (fst junk), s32 (snd junk)) t)"

section \<open>Numbers: printing and reading\<close>

lemma is_digit_char: "k < 10 \<Longrightarrow> is_digit (char_of (48 + k))" "k < 10 \<Longrightarrow> digit_val (char_of (48 + k)) = k"
  by (simp_all add: is_digit_def digit_val_def)

definition digits_val :: "nat \<Rightarrow> string \<Rightarrow> nat" where
  "digits_val acc cs = fold (\<lambda>c a. a * 10 + digit_val c) cs acc"

lemma dec_digits: "\<forall>c \<in> set (dec n). is_digit c"
proof (induction n rule: dec.induct)
  case (1 n)
  then show ?case by (subst dec.simps) (simp add: is_digit_char)
qed

lemma dec_not_Nil [simp]: "dec n \<noteq> []"
  by (subst dec.simps) simp

lemma dec_val: "digits_val acc (dec n) = acc * 10 ^ length (dec n) + n"
proof (induction n arbitrary: acc rule: dec.induct)
  case (1 n)
  show ?case
  proof (cases "n < 10")
    case True
    then show ?thesis by (simp add: dec.simps [of n] digits_val_def is_digit_char)
  next
    case False
    have "digits_val acc (dec n) = digits_val acc (dec (n div 10)) * 10 + n mod 10"
      using False by (simp add: dec.simps [of n] digits_val_def is_digit_char)
    also have "\<dots> = (acc * 10 ^ length (dec (n div 10)) + n div 10) * 10 + n mod 10"
      using 1 [OF False] by simp
    also have "\<dots> = acc * 10 ^ length (dec n) + n"
      using False by (simp add: dec.simps [of n] algebra_simps)
    finally show ?thesis .
  qed
qed

lemma scan_digits_append:
  assumes "\<forall>c \<in> set cs. is_digit c" and "rest = [] \<or> \<not> is_digit (hd rest)"
  shows "scan_digits acc (cs @ rest) = (digits_val acc cs, rest)"
  using assms
proof (induction cs arbitrary: acc)
  case Nil
  then show ?case by (cases rest) (simp_all add: digits_val_def)
next
  case (Cons c cs)
  then show ?case by (simp add: digits_val_def)
qed

lemma digit_not_space: "is_digit c \<Longrightarrow> \<not> is_space c \<and> c \<noteq> CHR ''-'' \<and> c \<noteq> CHR ''+'' \<and> c \<noteq> CHR '' ''"
  by (auto simp: is_digit_def is_space_def)

lemma scan_number_print:
  assumes "rest = [] \<or> \<not> is_digit (hd rest)"
  shows "scan_number (print_d v @ rest) = Some (v < 0, nat \<bar>v\<bar>, rest)"
proof -
  have d: "\<forall>c \<in> set (dec n). is_digit c" "is_digit (hd (dec n))" for n
    using dec_digits [of n] by simp_all
  have drop: "dropWhile is_space (dec n @ rest) = dec n @ rest" for n
    using d(2) [of n] digit_not_space [of "hd (dec n)"] by (cases "dec n") auto
  have sc: "scan_digits 0 (dec n @ rest) = (n, rest)" for n
    using scan_digits_append [OF d(1) assms, of 0 n] by (simp add: dec_val)
  have m: "\<not> is_space (CHR ''-'')" by (simp add: is_space_def)
  show ?thesis
  proof (cases "v < 0")
    case True
    then show ?thesis using m d(2) [of "nat (- v)"] sc [of "nat (- v)"]
      by (simp add: scan_number_def print_d_def Let_def)
  next
    case False
    then show ?thesis
      using d(2) [of "nat v"] digit_not_space [OF d(2) [of "nat v"]] sc [of "nat v"] drop [of "nat v"]
      by (simp add: scan_number_def print_d_def Let_def)
  qed
qed

definition in_s32 :: "int \<Rightarrow> bool" where
  "in_s32 v \<longleftrightarrow> -2147483648 \<le> v \<and> v < 2147483648"

definition in_u32 :: "int \<Rightarrow> bool" where
  "in_u32 v \<longleftrightarrow> 0 \<le> v \<and> v < 4294967296"

lemma in_s32_s32 [simp]: "in_s32 (s32 x)"
  using s32_range by (simp add: in_s32_def)

lemma in_u32_u32 [simp]: "in_u32 (u32 x)"
  using u32_range by (simp add: in_u32_def)

lemma scan_d_print: "in_s32 v \<Longrightarrow> rest = [] \<or> \<not> is_digit (hd rest) \<Longrightarrow> scan_d (print_d v @ rest) = Some (v, rest)"
  by (auto simp: scan_d_def scan_number_print in_s32_def s32_id)

lemma scan_u_print: "in_u32 v \<Longrightarrow> rest = [] \<or> \<not> is_digit (hd rest) \<Longrightarrow> scan_u (print_d v @ rest) = Some (v, rest)"
  by (auto simp: scan_u_def scan_number_print in_u32_def u32_id)

lemma scan_range:
  "scan_d cs = Some (v, rest) \<Longrightarrow> in_s32 v" "scan_u cs = Some (v, rest) \<Longrightarrow> in_u32 v"
  by (auto simp: scan_d_def scan_u_def split: option.splits prod.splits)

lemma sscanf1_range:
  "in_s32 j \<Longrightarrow> in_s32 (sscanf1 scan_d p j)" "in_u32 j \<Longrightarrow> in_u32 (sscanf1 scan_u p j)"
  by (auto simp: sscanf1_def split: option.splits dest: scan_range)

lemma sscanf2_range:
  "in_s32 j1 \<Longrightarrow> in_s32 j2 \<Longrightarrow> sscanf2 scan_d p j1 j2 = (v1, v2) \<Longrightarrow> in_s32 v1 \<and> in_s32 v2"
  "in_u32 j1 \<Longrightarrow> in_u32 j2 \<Longrightarrow> sscanf2 scan_u p j1 j2 = (v1, v2) \<Longrightarrow> in_u32 v1 \<and> in_u32 v2"
  by (auto simp: sscanf2_def split: option.splits prod.splits dest: scan_range)

lemma length_dec: "n < 10 ^ Suc k \<Longrightarrow> length (dec n) \<le> Suc k"
proof (induction k arbitrary: n)
  case 0
  then show ?case by (simp add: dec.simps [of n])
next
  case (Suc k)
  have "n div 10 < 10 ^ Suc k" using Suc.prems by (simp add: less_mult_imp_div_less)
  then show ?case using Suc.IH [of "n div 10"] by (simp add: dec.simps [of n])
qed

lemma length_print_d: "in_s32 v \<or> in_u32 v \<Longrightarrow> length (print_d v) \<le> 11"
  using length_dec [of "nat v" 9] length_dec [of "nat (- v)" 9]
  by (auto simp: print_d_def in_s32_def in_u32_def nat_less_iff)

section \<open>The contract of the radio and the invariant of the transceiver\<close>

text \<open>What the control socket relies on: in a good state the operations are defined, keep the state good,
  and return numbers that fit an \<open>int\<close>.\<close>

locale radio_contract =
  fixes R :: "('v, 'r) radio_ops" and good :: "'r \<Rightarrow> bool"
  assumes good_start: "good r \<Longrightarrow> \<exists>ok r'. ro_start R r = Some (ok, r') \<and> good r'"
    and good_stop: "good r \<Longrightarrow> good (snd (ro_stop R r))"
    and good_power: "good r \<Longrightarrow> in_s32 p \<Longrightarrow>
      in_s32 (fst (ro_setPowerAttenuation R p c r)) \<and> good (snd (ro_setPowerAttenuation R p c r))"
    and good_gain: "good r \<Longrightarrow> \<bar>fst (ro_setRxGain R g c r)\<bar> \<le> 2147483647 \<and> good (snd (ro_setRxGain R g c r))"
    and good_tuneTx: "good r \<Longrightarrow> good (snd (ro_tuneTx R f c r))"
    and good_tuneRx: "good r \<Longrightarrow> good (snd (ro_tuneRx R f c r))"

definition trx_inv :: "('r \<Rightarrow> bool) \<Rightarrow> ('v, 'r) transceiver \<Rightarrow> bool" where
  "trx_inv good t \<longleftrightarrow>
     good (tr_mRadioInterface t) \<and> tr_mChans t > 0 \<and> length (tr_mStates t) = tr_mChans t \<and>
     length (tr_mTxPriorityQueues t) = tr_mChans t \<and> (\<forall>st \<in> set (tr_mStates t). ts_ok st) \<and>
     length (tr_mHandover t) = 8 \<and> (\<forall>row \<in> set (tr_mHandover t). length row = 8) \<and>
     0 \<le> tr_mTSC t \<and> tr_mTSC t \<le> 7 \<and>
     mset (tr_threads t) = mset (map CtrlService [0..<tr_mChans t]) +
       (if tr_mOn t then mset (io_threads (tr_mChans t)) else {#})"

text \<open>With \<open>nz\<close> the noise levels of all channels are measured; without it nothing is said of them.\<close>

definition noise_ok :: "bool \<Rightarrow> ('v, 'r) transceiver \<Rightarrow> bool" where
  "noise_ok nz t \<longleftrightarrow> nz \<longrightarrow> (\<forall>st \<in> set (tr_mStates t). noise_dB (tr_rxFullScale t) (ts_mNoiseLev st) \<noteq> None)"

definition resp_ok :: "string \<Rightarrow> bool" where
  "resp_ok r \<longleftrightarrow> length r \<le> 100 \<and> take 4 r = ''RSP ''"

definition ctl_ok :: "bool \<Rightarrow> ('r \<Rightarrow> bool) \<Rightarrow> ('v, 'r) transceiver \<Rightarrow> (string option \<times> ('v, 'r) transceiver) option \<Rightarrow> bool" where
  "ctl_ok nz good t res \<longleftrightarrow>
     (\<not> nz \<and> res = None) \<or>
     (\<exists>resp t'. res = Some (resp, t') \<and> trx_inv good t' \<and> noise_ok nz t' \<and> tr_mChans t' = tr_mChans t \<and>
       (case resp of None \<Rightarrow> t' = t | Some r \<Rightarrow> resp_ok r))"

lemma ctl_ok_answer:
  "trx_inv good t' \<Longrightarrow> noise_ok nz t' \<Longrightarrow> tr_mChans t' = tr_mChans t \<Longrightarrow> resp_ok r \<Longrightarrow> ctl_ok nz good t (answer r t')"
  by (simp add: ctl_ok_def answer_def)

lemma ctl_first_ok:
  "\<forall>e \<in> set tab. \<forall>p. ctl_ok nz good t (snd (snd e) p) \<Longrightarrow> ctl_ok nz good t (answer ''RSP ERR 1'' t) \<Longrightarrow>
    ctl_ok nz good t (ctl_first tab command t)"
  by (induction tab command t rule: ctl_first.induct) (auto split: option.splits)

lemma resp_number:
  "in_s32 v \<or> in_u32 v \<Longrightarrow> length s \<le> 80 \<Longrightarrow> take 4 s = ''RSP '' \<Longrightarrow> 4 \<le> length s \<Longrightarrow> resp_ok (s @ print_d v)"
  using length_print_d [of v] by (simp add: resp_ok_def)

lemma clear_queues_length: "n \<le> length qs \<Longrightarrow> length (snd (clear_queues n qs)) = length qs"
  by (simp add: clear_queues_def)

lemma mset_fold_remove1: "mset (fold remove1 xs ys) = mset ys - mset xs"
  by (induction xs arbitrary: ys) simp_all

lemma trx_stop_inv:
  assumes "radio_contract R good" and "trx_inv good t"
  shows "trx_inv good (snd (trx_stop R t)) \<and> \<not> tr_mOn (snd (trx_stop R t)) \<and>
    tr_mChans (snd (trx_stop R t)) = tr_mChans t \<and> tr_mStates (snd (trx_stop R t)) = tr_mStates t \<and>
    tr_rxFullScale (snd (trx_stop R t)) = tr_rxFullScale t"
proof (cases "tr_mOn t")
  case False
  then show ?thesis using assms(2) by (simp add: trx_stop_def)
next
  case True
  have "good (snd (ro_stop R (tr_mRadioInterface t)))"
    using radio_contract.good_stop [OF assms(1)] assms(2) by (simp add: trx_inv_def)
  moreover have "length (snd (clear_queues (tr_mChans t) (tr_mTxPriorityQueues t))) = tr_mChans t"
    using assms(2) clear_queues_length [of "tr_mChans t" "tr_mTxPriorityQueues t"] by (simp add: trx_inv_def)
  ultimately show ?thesis using True assms(2)
    by (simp add: trx_stop_def trx_inv_def split_beta mset_fold_remove1 Let_def)
qed

lemma trx_start_inv:
  assumes "radio_contract R good" and "trx_inv good t"
  shows "\<exists>ok t'. trx_start R t = Some (ok, t') \<and> trx_inv good t' \<and> tr_mOn t' = (ok \<or> tr_mOn t) \<and>
    tr_mChans t' = tr_mChans t \<and> tr_mStates t' = tr_mStates t \<and> tr_rxFullScale t' = tr_rxFullScale t"
proof (cases "tr_mOn t")
  case True
  then show ?thesis using assms(2) by (auto simp: trx_start_def)
next
  case False
  have "good (tr_mRadioInterface t)" using assms(2) by (simp add: trx_inv_def)
  then obtain ok r where r: "ro_start R (tr_mRadioInterface t) = Some (ok, r)" "good r"
    using radio_contract.good_start [OF assms(1)] by blast
  then show ?thesis using False assms(2)
    by (cases ok) (auto simp: trx_start_def Let_def trx_inv_def)
qed

lemma ts_ok_set_power: "ts_ok st \<Longrightarrow> ts_ok (st\<lparr>ts_mPower := p\<rparr>)"
  by (simp add: ts_ok_def)

lemma noise_same_setModulus [simp]: "ts_mNoiseLev (ts_setModulus slot st) = ts_mNoiseLev st"
  by (simp add: ts_setModulus_def split: option.splits)

lemma ts_ok_slot: "ts_ok st \<Longrightarrow> ts_ok (ts_setModulus k (st\<lparr>ts_chanType := (ts_chanType st)[i := c]\<rparr>))"
  by (intro ts_ok_setModulus ts_ok_chanType) (simp_all add: ts_ok_def)

text \<open>A change of one channel's state that keeps its shape and noise level.\<close>

lemma upd_state_ok:
  assumes "trx_inv good t" and "noise_ok nz t" and "chan < tr_mChans t"
    and "\<And>st. ts_ok st \<Longrightarrow> ts_ok (f st)" and "\<And>st. ts_mNoiseLev (f st) = ts_mNoiseLev st"
  shows "trx_inv good (upd_state chan f t) \<and> noise_ok nz (upd_state chan f t) \<and>
    tr_mChans (upd_state chan f t) = tr_mChans t"
proof -
  have m: "tr_mStates t ! chan \<in> set (tr_mStates t)" using assms(1,3) by (simp add: trx_inv_def)
  have sub: "set ((tr_mStates t)[chan := f (tr_mStates t ! chan)]) \<subseteq> insert (f (tr_mStates t ! chan)) (set (tr_mStates t))"
    by (rule set_update_subset_insert)
  have "\<forall>st \<in> set ((tr_mStates t)[chan := f (tr_mStates t ! chan)]). ts_ok st"
    using sub assms(1,4) m unfolding trx_inv_def by blast
  moreover have "nz \<longrightarrow> (\<forall>st \<in> set ((tr_mStates t)[chan := f (tr_mStates t ! chan)]).
      noise_dB (tr_rxFullScale t) (ts_mNoiseLev st) \<noteq> None)"
  proof (intro impI ballI)
    fix st assume nz and "st \<in> set ((tr_mStates t)[chan := f (tr_mStates t ! chan)])"
    then have "\<exists>st0 \<in> set (tr_mStates t). ts_mNoiseLev st = ts_mNoiseLev st0"
      using sub m assms(5) by blast
    then show "noise_dB (tr_rxFullScale t) (ts_mNoiseLev st) \<noteq> None"
      using assms(2) \<open>nz\<close> by (auto simp: noise_ok_def)
  qed
  ultimately show ?thesis using assms(1) by (simp add: trx_inv_def noise_ok_def upd_state_def)
qed

lemma handover_ok:
  assumes "trx_inv good t"
  shows "trx_inv good (set_handover ts ss b t)"
proof (cases "nat ts < 8")
  case True
  have sub: "set ((tr_mHandover t)[nat ts := (tr_mHandover t ! nat ts)[nat ss := b]]) \<subseteq>
      insert ((tr_mHandover t ! nat ts)[nat ss := b]) (set (tr_mHandover t))"
    by (rule set_update_subset_insert)
  have "length (tr_mHandover t ! nat ts) = 8" using assms True by (simp add: trx_inv_def)
  then have "\<forall>row \<in> set ((tr_mHandover t)[nat ts := (tr_mHandover t ! nat ts)[nat ss := b]]). length row = 8"
    using sub assms unfolding trx_inv_def by (metis insert_iff length_list_update subsetD)
  then show ?thesis using assms by (simp add: trx_inv_def set_handover_def)
next
  case False
  then have "(tr_mHandover t)[nat ts := r] = tr_mHandover t" for r
    using assms by (simp add: trx_inv_def list_update_beyond)
  then show ?thesis using assms by (simp add: trx_inv_def set_handover_def)
qed

text \<open>Every command keeps the invariant and answers within the packet; proved over the contract.\<close>

context radio_contract
begin

lemma powerOff_ok: "trx_inv good t \<Longrightarrow> noise_ok nz t \<Longrightarrow> ctl_ok nz good t (ctl_powerOff R t)"
  unfolding ctl_powerOff_def
  by (rule ctl_ok_answer)
    (use trx_stop_inv [OF radio_contract_axioms, of t] in \<open>simp_all add: noise_ok_def resp_ok_def\<close>)

lemma powerOn_ok:
  assumes "trx_inv good t" and "noise_ok nz t"
  shows "ctl_ok nz good t (ctl_powerOn R t)"
proof -
  obtain ok t' where s: "trx_start R t = Some (ok, t')" "trx_inv good t'" "tr_mChans t' = tr_mChans t"
      "tr_mStates t' = tr_mStates t" "tr_rxFullScale t' = tr_rxFullScale t"
    using trx_start_inv [OF radio_contract_axioms assms(1)] by blast
  have n: "noise_ok nz t'" using assms(2) s by (simp add: noise_ok_def)
  have h: "trx_inv good (t'\<lparr>tr_mHandover := no_handover\<rparr>)" using s(2) by (simp add: trx_inv_def no_handover_def)
  show ?thesis using s n h
    by (auto simp: ctl_powerOn_def noise_ok_def resp_ok_def intro!: ctl_ok_answer)
qed

lemma handovers_ok:
  assumes "trx_inv good t" and "noise_ok nz t"
  shows "ctl_ok nz good t (ctl_handover p t)" and "ctl_ok nz good t (ctl_noHandover p t)"
proof -
  obtain ts ss where p: "sscanf2 scan_u p 0 0 = (ts, ss)" by fastforce
  then have r: "in_u32 ts" "in_u32 ss" using sscanf2_range(2) [of 0 0 p ts ss] by (simp_all add: in_u32_def)
  have n: "noise_ok nz (set_handover ts ss b t)" "tr_mChans (set_handover ts ss b t) = tr_mChans t" for b
    using assms(2) by (simp_all add: noise_ok_def set_handover_def)
  show "ctl_ok nz good t (ctl_handover p t)" "ctl_ok nz good t (ctl_noHandover p t)"
    using assms handover_ok [OF assms(1)] n length_print_d [OF disjI2 [OF r(1)]] length_print_d [OF disjI2 [OF r(2)]]
    by (auto simp: ctl_handover_def ctl_noHandover_def p resp_ok_def intro!: ctl_ok_answer)
qed

lemma numbers_ok:
  assumes "trx_inv good t" and "noise_ok nz t" and "in_s32 j"
  shows "ctl_ok nz good t (ctl_setMaxDly p j t)" and "ctl_ok nz good t (ctl_setMaxDlyNB p j t)"
    and "ctl_ok nz good t (ctl_setBurstToDiskMask p j t)"
  using assms length_print_d [OF disjI1 [OF sscanf1_range(1) [OF assms(3), of p]]]
  by (auto simp: ctl_setMaxDly_def ctl_setMaxDlyNB_def ctl_setBurstToDiskMask_def Let_def trx_inv_def
      noise_ok_def resp_ok_def intro!: ctl_ok_answer)

lemma setTSC_ok:
  assumes "trx_inv good t" and "noise_ok nz t"
  shows "ctl_ok nz good t (ctl_setTSC p j t)"
proof -
  have "in_u32 (sscanf1 scan_u p (u32 j))" by (rule sscanf1_range) simp
  then have "0 \<le> sscanf1 scan_u p (u32 j)" by (simp add: in_u32_def)
  then show ?thesis using assms length_print_d [of "s32 (sscanf1 scan_u p (u32 j))"]
    by (auto simp: ctl_setTSC_def Let_def trx_inv_def noise_ok_def resp_ok_def intro!: ctl_ok_answer)
qed

lemma setRxGain_ok:
  assumes "trx_inv good t" and "noise_ok nz t" and "in_s32 j"
  shows "ctl_ok nz good t (ctl_setRxGain R chan p j t)"
proof -
  have gr: "good (tr_mRadioInterface t)" using assms(1) by (simp add: trx_inv_def)
  obtain gain r where g: "ro_setRxGain R (of_int (sscanf1 scan_d p j)) chan (tr_mRadioInterface t) = (gain, r)"
    by fastforce
  then have b: "\<bar>gain\<bar> \<le> 2147483647" and r: "good r" using good_gain [OF gr, of "of_int (sscanf1 scan_d p j)" chan] by auto
  have "-2147483647 \<le> (if gain < 0 then \<lceil>gain\<rceil> else \<lfloor>gain\<rfloor>) \<and> (if gain < 0 then \<lceil>gain\<rceil> else \<lfloor>gain\<rfloor>) \<le> 2147483647"
    using b by (auto simp: le_floor_iff floor_le_iff le_ceiling_iff ceiling_le_iff)
  then obtain v where v: "real_to_int gain = Some v" "in_s32 v"
    by (simp add: real_to_int_def Let_def in_s32_def)
  show ?thesis using assms v(1) r length_print_d [OF disjI1 [OF v(2)]]
    by (auto simp: ctl_setRxGain_def Let_def g trx_inv_def noise_ok_def resp_ok_def intro!: ctl_ok_answer)
qed

lemma noiseLev_ok:
  assumes "trx_inv good t" and "noise_ok nz t" and "chan < tr_mChans t"
  shows "ctl_ok nz good t (ctl_noiseLev chan t)"
proof (cases "noise_dB (tr_rxFullScale t) (ts_mNoiseLev (tr_mStates t ! chan))")
  case None
  have "tr_mStates t ! chan \<in> set (tr_mStates t)" using assms by (simp add: trx_inv_def)
  then have "\<not> nz" using assms(2) None by (auto simp: noise_ok_def)
  then show ?thesis using assms(1,2) None
    by (cases "tr_mOn t") (simp_all add: ctl_noiseLev_def ctl_ok_def answer_def resp_ok_def)
next
  case (Some v)
  then have "in_s32 v" by (auto simp: noise_dB_def real_to_int_def in_s32_def Let_def split: if_splits)
  note l = length_print_d [OF disjI1 [OF this]]
  show ?thesis using assms(1,2) Some l
    by (auto simp: ctl_noiseLev_def resp_ok_def intro!: ctl_ok_answer)
qed

lemma apply_power_ok:
  assumes "trx_inv good t" and "noise_ok nz t" and "chan < tr_mChans t" and "in_s32 q"
    and "length s \<le> 80" and "take 4 s = ''RSP ''" and "4 \<le> length s"
  shows "ctl_ok nz good t (let (att, t') = apply_power R chan q t in answer (s @ print_d att) t')"
proof -
  have gr: "good (tr_mRadioInterface t)" using assms(1) by (simp add: trx_inv_def)
  obtain att r where g: "ro_setPowerAttenuation R q chan (tr_mRadioInterface t) = (att, r)" by fastforce
  then have a: "in_s32 att" "good r" using good_power [OF gr assms(4), of chan] by auto
  let ?t = "t\<lparr>tr_mRadioInterface := r\<rparr>"
  have i: "trx_inv good ?t" "noise_ok nz ?t" "chan < tr_mChans ?t"
    using assms(1-3) a(2) by (simp_all add: trx_inv_def noise_ok_def)
  have u: "trx_inv good (upd_state chan (ts_mPower_update (\<lambda>_. att)) ?t) \<and>
      noise_ok nz (upd_state chan (ts_mPower_update (\<lambda>_. att)) ?t) \<and>
      tr_mChans (upd_state chan (ts_mPower_update (\<lambda>_. att)) ?t) = tr_mChans ?t"
    by (rule upd_state_ok [OF i]) (simp_all add: ts_ok_set_power)
  have rs: "resp_ok (s @ print_d att)" by (rule resp_number [OF _ assms(5-7)]) (simp add: a(1))
  have c: "ctl_ok nz good t (answer (s @ print_d att) (upd_state chan (ts_mPower_update (\<lambda>_. att)) ?t))"
    using u rs by (intro ctl_ok_answer) simp_all
  show ?thesis unfolding apply_power_def g Let_def prod.case by (rule c)
qed

lemma power_ok:
  assumes "trx_inv good t" and "noise_ok nz t" and "chan < tr_mChans t" and "in_s32 j"
  shows "ctl_ok nz good t (ctl_setPower R chan p j t)" and "ctl_ok nz good t (ctl_adjPower R chan p j t)"
  unfolding ctl_setPower_def ctl_adjPower_def Let_def [of "sscanf1 scan_d p j"]
  by (rule apply_power_ok [OF assms(1-3)]; simp add: sscanf1_range assms(4))+

lemma tune_ok:
  assumes "trx_inv good t" and "noise_ok nz t" and "in_s32 j"
  shows "ctl_ok nz good t (ctl_rxTune R chan p j t)" and "ctl_ok nz good t (ctl_txTune R chan p j t)"
proof -
  let ?f = "of_int (sscanf1 scan_d p j) * 1000 :: real"
  have gr: "good (tr_mRadioInterface t)" using assms(1) by (simp add: trx_inv_def)
  obtain ok r where g: "ro_tuneRx R ?f chan (tr_mRadioInterface t) = (ok, r)" by fastforce
  obtain ok' r' where g': "ro_tuneTx R ?f chan (tr_mRadioInterface t) = (ok', r')" by fastforce
  have r: "good r" "good r'"
    using good_tuneRx [OF gr, of ?f chan] good_tuneTx [OF gr, of ?f chan] g g' by simp_all
  show "ctl_ok nz good t (ctl_rxTune R chan p j t)" "ctl_ok nz good t (ctl_txTune R chan p j t)"
    using assms r length_print_d [OF disjI1 [OF sscanf1_range(1) [OF assms(3), of p]]]
    by (auto simp: ctl_rxTune_def ctl_txTune_def Let_def g g' trx_inv_def noise_ok_def resp_ok_def
        intro!: ctl_ok_answer)
qed

lemma setSlot_ok:
  assumes "trx_inv good t" and "noise_ok nz t" and "chan < tr_mChans t" and "in_s32 j1" and "in_s32 j2"
  shows "ctl_ok nz good t (ctl_setSlot chan p j1 j2 t)"
proof -
  obtain slot code where p: "sscanf2 scan_d p j1 j2 = (slot, code)" by fastforce
  then have r: "in_s32 slot" "in_s32 code" using sscanf2_range(1) [OF assms(4,5)] by auto
  let ?f = "\<lambda>st. ts_setModulus (nat slot) (st\<lparr>ts_chanType := (ts_chanType st)[nat slot := code]\<rparr>)"
  have u: "trx_inv good (upd_state chan ?f t) \<and> noise_ok nz (upd_state chan ?f t) \<and>
      tr_mChans (upd_state chan ?f t) = tr_mChans t"
    by (rule upd_state_ok [OF assms(1-3)])
      (use ts_ok_slot in simp_all)
  show ?thesis
  proof (cases "slot < 0 \<or> slot > 7")
    case True
    then show ?thesis using assms(1,2) by (simp add: ctl_setSlot_def p ctl_ok_def)
  next
    case False
    have "resp_ok (''RSP SETSLOT 0 '' @ print_d slot @ '' '' @ print_d code)"
      using length_print_d [OF disjI1 [OF r(1)]] length_print_d [OF disjI1 [OF r(2)]] by (simp add: resp_ok_def)
    then have "ctl_ok nz good t (answer (''RSP SETSLOT 0 '' @ print_d slot @ '' '' @ print_d code) (upd_state chan ?f t))"
      using u by (intro ctl_ok_answer) simp_all
    moreover have "ctl_setSlot chan p j1 j2 t =
        answer (''RSP SETSLOT 0 '' @ print_d slot @ '' '' @ print_d code) (upd_state chan ?f t)"
      using False by (simp only: ctl_setSlot_def p Let_def prod.case if_False)
    ultimately show ?thesis by (simp only:)
  qed
qed

lemma driveControl_ok:
  assumes "trx_inv good t" and "noise_ok nz t" and "chan < tr_mChans t"
  shows "ctl_ok nz good t (driveControl R chan msg junk t)"
proof -
  have err: "ctl_ok nz good t (answer ''RSP ERR 1'' t)"
    by (rule ctl_ok_answer) (use assms in \<open>simp_all add: resp_ok_def\<close>)
  have none: "ctl_ok nz good t (Some (None, t))" using assms by (simp add: ctl_ok_def)
  have "ctl_ok nz good t (ctl_command R chan command (s32 (fst junk), s32 (snd junk)) t)" for command
    unfolding ctl_command_def
  proof (rule ctl_first_ok [OF _ err])
    show "\<forall>e \<in> set (ctl_table R chan (s32 (fst junk), s32 (snd junk)) t). \<forall>p. ctl_ok nz good t (snd (snd e) p)"
      unfolding ctl_table_def
      using powerOff_ok [OF assms(1,2)] powerOn_ok [OF assms(1,2)] handovers_ok [OF assms(1,2)]
        numbers_ok [OF assms(1,2)] setTSC_ok [OF assms(1,2)] setRxGain_ok [OF assms(1,2)]
        noiseLev_ok [OF assms] power_ok [OF assms] tune_ok [OF assms(1,2)] setSlot_ok [OF assms]
      by (simp del: s32_s32)
  qed
  then show ?thesis using none by (simp add: driveControl_def Let_def)
qed

end

text \<open>A sequence of messages, each with the channel it comes in on.\<close>

fun control_run :: "('v, 'r) radio_ops \<Rightarrow> (nat \<times> string \<times> int \<times> int) list \<Rightarrow> ('v, 'r) transceiver \<Rightarrow>
    (string option list \<times> ('v, 'r) transceiver) option" where
  "control_run R [] t = Some ([], t)"
| "control_run R ((chan, msg, junk) # msgs) t =
    (case driveControl R chan msg junk t of
       None \<Rightarrow> None
     | Some (resp, t1) \<Rightarrow>
         map_option (\<lambda>(resps, t'). (resp # resps, t')) (control_run R msgs t1))"

context radio_contract
begin

lemma control_run_ok:
  assumes "trx_inv good t" and "noise_ok True t" and "\<forall>m \<in> set msgs. fst m < tr_mChans t"
  shows "\<exists>resps t'. control_run R msgs t = Some (resps, t') \<and> trx_inv good t' \<and> tr_mChans t' = tr_mChans t \<and>
    length resps = length msgs \<and> (\<forall>r. Some r \<in> set resps \<longrightarrow> resp_ok r)"
  using assms
proof (induction msgs arbitrary: t)
  case Nil
  then show ?case by simp
next
  case (Cons m msgs)
  obtain chan msg junk where m: "m = (chan, msg, junk)" by (cases m) auto
  have "ctl_ok True good t (driveControl R chan msg junk t)"
    using driveControl_ok Cons.prems m by simp
  then obtain resp t1 where d: "driveControl R chan msg junk t = Some (resp, t1)" "trx_inv good t1" "noise_ok True t1"
      "tr_mChans t1 = tr_mChans t" "\<forall>r. resp = Some r \<longrightarrow> resp_ok r"
    unfolding ctl_ok_def by (auto split: option.splits)
  obtain resps t' where r: "control_run R msgs t1 = Some (resps, t')" "trx_inv good t'" "tr_mChans t' = tr_mChans t1"
      "length resps = length msgs" "\<forall>r. Some r \<in> set resps \<longrightarrow> resp_ok r"
    using Cons.IH [OF d(2,3)] Cons.prems(3) d(4) by auto
  then show ?case using d by (auto simp: m)
qed

end

section \<open>The plain radio interface fulfils the contract\<close>

definition ri_good :: "('a, 'h, 'd) radio_env \<Rightarrow> ('a, 'd) radio_interface \<Rightarrow> bool" where
  "ri_good E r \<longleftrightarrow> (\<forall>d. \<not> dev_requiresRadioAlign E d) \<and> (\<forall>g c d. \<bar>fst (dev_setRxGain E g c d)\<bar> \<le> 2147483647)"

lemma ri_power_range: "in_s32 p \<Longrightarrow> in_s32 (fst (ri_setPowerAttenuation E p c r))"
  by (simp add: ri_setPowerAttenuation_def in_s32_def Let_def split_beta)

lemma ri_gain_range:
  "\<forall>g c d. \<bar>fst (dev_setRxGain E g c d)\<bar> \<le> 2147483647 \<Longrightarrow> \<bar>fst (ri_setRxGain E g c r)\<bar> \<le> 2147483647"
  by (simp add: ri_setRxGain_def split_beta)

lemma ri_start_defined: "\<forall>d. \<not> dev_requiresRadioAlign E d \<Longrightarrow> \<exists>ok r'. ri_start E r = Some (ok, r')"
  by (auto simp: ri_start_def Let_def split_beta)

interpretation ri_ctl: radio_contract "ri_ops E head usrp1 latency" "ri_good E" for E head usrp1 latency
  by unfold_locales
    (use ri_start_defined in \<open>auto simp: ri_ops_def ri_good_def ri_power_range ri_gain_range\<close>)

section \<open>Properties of the control socket\<close>

definition demo_env :: "(int, int, nat) radio_env" where
  "demo_env = idle_env\<lparr>dev_requiresRadioAlign := (\<lambda>d. False), dev_setRxGain := (\<lambda>g c d. (0, d))\<rparr>"

definition demo_ops :: "(int list, (int, nat) radio_interface) radio_ops" where
  "demo_ops = ri_ops demo_env 0 False (Time 0 0)"

definition demo_trx :: "(int list, (int, nat) radio_interface) transceiver" where
  "demo_trx = (trx_new demo_ops 5700 4 4 1 (Time 3 0) idle_radio 0)\<lparr>tr_mStates := [ts_new\<lparr>ts_mNoiseLev := 1\<rparr>],
     tr_mTxPriorityQueues := [[]], tr_threads := [CtrlService 0], tr_rxFullScale := 1\<rparr>"

lemma demo_trx_ok: "trx_inv (ri_good demo_env) demo_trx" "noise_ok True demo_trx" "tr_mChans demo_trx = 1"
  using ts_ok_new [where 'a = "int list"]
  by (simp_all add: demo_trx_def trx_new_def trx_inv_def ri_good_def demo_env_def ts_ok_def no_handover_def
      noise_ok_def noise_dB_def real_to_int_def)





section \<open>Initialisation\<close>

definition dsp_total :: "'v dsp_env \<Rightarrow> bool" where
  "dsp_total D \<longleftrightarrow> (\<forall>filler sps rtsc rach i n. ts_filler_burst D filler sps rtsc rach i n \<noteq> None)"

lemma table_total: "\<forall>i n. f i n \<noteq> None \<Longrightarrow> None \<notin> set (concat (map (\<lambda>i. map (f i) xs) ys))"
  by (auto simp: image_iff) (metis option.distinct(1))

lemma table_shape:
  "length (map (map h) (map (\<lambda>i. map (f i) xs) ys)) = length ys"
  "\<forall>row \<in> set (map (map h) (map (\<lambda>i. map (f i) xs) ys)). length row = length xs"
  by auto

lemma vec_resize_Nil: "vec_resize n x [] = replicate n x"
  by (simp add: vec_resize_def)

lemma ts_init_ok:
  assumes "ts_ok st" and "dsp_total D"
  shows "\<exists>st'. ts_init D filler sps scale rtsc rach st = Some (False, st') \<and> ts_ok st' \<and> ts_mRetrans st' = ts_mRetrans st"
proof -
  let ?f = "\<lambda>i n. ts_filler_burst D filler sps rtsc rach i n"
  let ?T = "map (map (map_option (scaleVector D scale))) (map (\<lambda>i. map (?f i) [0..<8]) [0..<102])"
  have none: "None \<notin> set (concat (map (\<lambda>i. map (?f i) [0..<8]) [0..<102]))"
    by (rule table_total) (use assms(2) in \<open>simp add: dsp_total_def\<close>)
  have shape: "length ?T = 102" "\<forall>row \<in> set ?T. length row = 8"
    unfolding table_shape(1) using table_shape(2) [of "map_option (scaleVector D scale)" ?f "[0..<8]" "[0..<102]"]
    by (simp_all only: length_upt) simp_all
  have ok: "ts_ok (st\<lparr>ts_fillerTable := T, ts_chanType := cs\<rparr>)"
    if "length T = 102" "\<forall>row \<in> set T. length row = 8" "length cs = 8" for T and cs :: "int list"
    using assms(1) that by (simp add: ts_ok_def)
  have cs: "length (if filler = FILLER_NORM_RAND \<or> filler = FILLER_EDGE_RAND then replicate 8 (corr_code TSC)
      else ts_chanType st) = 8" using assms(1) by (simp add: ts_ok_def)
  show ?thesis
  proof (cases "sps \<noteq> 1 \<and> sps \<noteq> 4")
    case True
    then show ?thesis using assms(1) by (simp add: ts_init_def)
  next
    case False
    show ?thesis unfolding ts_init_def Let_def if_not_P [OF False] if_not_P [OF none]
      by (intro exI conjI, rule refl, rule ok [OF shape cs]) simp
  qed
qed

lemma those_map_Some: "\<forall>x \<in> set xs. f x = Some (g x) \<Longrightarrow> those (map f xs) = Some (map g xs)"
  by (induction xs) auto

lemma trx_init_ok:
  assumes "dsp_total D" and "chans > 0" and "\<forall>t. good (ro_setClock R t radio)"
  shows "\<exists>t'. trx_init D R True rnd filler rtsc rach edge ext
      (trx_new R port tx_sps rx_sps chans latency radio offset) = Some (True, t') \<and> trx_inv good t' \<and>
    distinct (map fst (tr_ctrlSockets t' @ tr_dataSockets t')) \<and>
    (\<forall>i < chans. ts_mRetrans (tr_mStates t' ! i) = (i = 0 \<and> filler = FILLER_DUMMY)) \<and>
    valid_time (tr_mTransmitDeadlineClock t') \<and> tr_mLastClockUpdateTime t' = tr_mTransmitDeadlineClock t' \<and>
    tr_mChans t' = chans \<and> \<not> tr_mOn t' \<and> tr_mReceiveFIFO t' = replicate chans None \<and> tr_mBasePort t' = port \<and>
    tr_mSPSTx t' = tx_sps \<and> tr_mSPSRx t' = rx_sps \<and> (\<exists>time. tr_mRadioInterface t' = ro_setClock R time radio)"
proof -
  let ?states = "if filler = FILLER_DUMMY then (replicate chans (ts_new :: 'a trx_state))[0 := (replicate chans ts_new ! 0)\<lparr>ts_mRetrans := True\<rparr>]
    else replicate chans ts_new"
  let ?init = "\<lambda>i. ts_init D (chan_filler filler i) tx_sps (ro_fullScaleInputValue R radio) rtsc rach (?states ! i)"
  have st: "ts_ok (?states ! i)" "ts_mRetrans (?states ! i) = (i = 0 \<and> filler = FILLER_DUMMY)" if "i < chans" for i
    using that ts_ok_new [where 'a = 'a] by (auto simp: nth_list_update ts_ok_def) (simp_all add: ts_new_def)
  have "\<exists>st'. ?init i = Some (False, st') \<and> ts_ok st' \<and> ts_mRetrans st' = (i = 0 \<and> filler = FILLER_DUMMY)"
    if "i < chans" for i
    using ts_init_ok [OF st(1) [OF that] assms(1)] st(2) [OF that] by metis
  then obtain g where g: "\<And>i. i < chans \<Longrightarrow> ?init i = Some (False, g i) \<and> ts_ok (g i) \<and>
      ts_mRetrans (g i) = (i = 0 \<and> filler = FILLER_DUMMY)" by metis
  then have those: "those (map ?init [0..<chans]) = Some (map (\<lambda>i. (False, g i)) [0..<chans])"
    by (intro those_map_Some) simp
  have v: "valid_time (Time (int rnd mod gHyperframe) 0)"
    by (intro valid_timeI) (simp_all add: gHyperframe_eq)
  have d: "distinct (map fst (map (\<lambda>i. (port + 2 * int i + 1, port + 2 * int i + 101)) [0..<chans] @
      map (\<lambda>i. (port + 2 * int i + 2, port + 2 * int i + 102)) [0..<chans]))"
    by (auto simp: distinct_map inj_on_def) presburger
  let ?t = "trx_new R port tx_sps rx_sps chans latency radio offset"
  obtain t' where t': "trx_init D R True rnd filler rtsc rach edge ext ?t = Some (True, t')"
      "tr_mStates t' = map g [0..<chans]" "tr_mChans t' = chans" "tr_mTxPriorityQueues t' = replicate chans []"
      "tr_mHandover t' = no_handover" "tr_mTSC t' = 0" "tr_threads t' = map CtrlService [0..<chans]"
      "\<not> tr_mOn t'" "tr_mRadioInterface t' = ro_setClock R (Time (int rnd mod gHyperframe) 0) radio"
      "tr_mTransmitDeadlineClock t' = Time (int rnd mod gHyperframe) 0"
      "tr_mLastClockUpdateTime t' = tr_mTransmitDeadlineClock t'"
      "tr_ctrlSockets t' = map (\<lambda>i. (port + 2 * int i + 1, port + 2 * int i + 101)) [0..<chans]"
      "tr_mReceiveFIFO t' = replicate chans None" "tr_mBasePort t' = port" "tr_mSPSTx t' = tx_sps" "tr_mSPSRx t' = rx_sps"
      "tr_dataSockets t' = map (\<lambda>i. (port + 2 * int i + 2, port + 2 * int i + 102)) [0..<chans]"
    using assms(2) those by (simp add: trx_init_def trx_new_def vec_resize_Nil Let_def comp_def)
  have inv: "trx_inv good t'"
    using assms(2,3) g by (simp add: trx_inv_def t'(2-9) no_handover_def)
  have "\<exists>time. ro_setClock R (Time (int rnd mod gHyperframe) 0) radio = ro_setClock R time radio" by blast
  then show ?thesis
    by (intro exI [of _ t']) (use t'(1,10,11) inv v d g in \<open>simp add: t'(2-9,12-17)\<close>)
qed


definition demo_dsp :: "int list dsp_env" where
  "demo_dsp = \<lparr>generateDummyBurst = (\<lambda>sps n. Some [1]), genRandNormalBurst = (\<lambda>i tsc sps n. Some [int i]),
     generateEdgeBurst = (\<lambda>i tsc. Some [int i]), genRandAccessBurst = (\<lambda>i delay sps n. Some [int i]),
     generateEmptyBurst = (\<lambda>sps n. Some [0]), modulateEdgeBurst = (\<lambda>bits sps. Some bits),
     modulateBurst = (\<lambda>bits guard sps. Some bits), scaleVector = (\<lambda>x v. v)\<rparr>"

lemma demo_dsp_total: "dsp_total demo_dsp"
  by (simp add: dsp_total_def ts_filler_burst_def demo_dsp_def split: filler_type.splits)


section \<open>Handover commands\<close>

lemma match_self: "match_cmd (cmd @ CHR '' '' # p) cmd True = Some p"
  by (simp add: match_cmd_def)

lemma match_differs: "take (length cmd) buf \<noteq> cmd \<Longrightarrow> match_cmd buf cmd params = None"
  by (simp add: match_cmd_def)

lemma print_small:
  assumes "0 \<le> v" and "v \<le> 7"
  shows "print_d v = [char_of (48 + nat v)]"
  using assms by (simp add: print_d_def dec.simps [of "nat v"])

lemma print_chars: "c \<in> set (print_d v) \<Longrightarrow> c = CHR ''-'' \<or> is_digit c"
  using dec_digits by (auto simp: print_d_def split: if_splits)

lemma sscanf2_print:
  assumes "in_u32 v" and "in_u32 w"
  shows "sscanf2 scan_u (print_d v @ '' '' @ print_d w) j1 j2 = (v, w)"
proof -
  have sp: "\<not> is_digit (CHR '' '')" by (simp add: is_digit_def)
  have v: "scan_u (print_d v @ '' '' @ print_d w) = Some (v, '' '' @ print_d w)"
    by (rule scan_u_print [OF assms(1)]) (simp add: sp)
  have "\<not> is_space (hd (print_d w))"
    using assms(2) dec_digits [of "nat w"] digit_not_space [of "hd (dec (nat w))"]
    by (simp add: print_d_def in_u32_def)
  moreover have "print_d w \<noteq> []" by (simp add: print_d_def)
  moreover have "is_space (CHR '' '')" by (simp add: is_space_def)
  ultimately have d: "dropWhile is_space ('' '' @ print_d w) = print_d w"
    by (cases "print_d w") simp_all
  have w: "scan_u (print_d w) = Some (w, [])" using scan_u_print [OF assms(2), of "[]"] by simp
  show ?thesis unfolding sscanf2_def v by (simp add: d [simplified] w)
qed

definition NUL :: char where "NUL = char_of (0::nat)"

lemma NUL_neq: "(of_char c :: nat) \<noteq> 0 \<Longrightarrow> c \<noteq> NUL"
  by (auto simp: NUL_def)

lemma print_no_NUL: "NUL \<notin> set (print_d v)"
  using print_chars [of NUL v] NUL_neq [of "CHR ''-''"] NUL_neq [of NUL] by (auto simp: is_digit_def NUL_def)

lemma driveControl_command:
  assumes "length cmd \<le> 96" and "NUL \<notin> set cmd"
  shows "driveControl R chan (''CMD '' @ cmd) junk t = ctl_command R chan cmd (s32 (fst junk), s32 (snd junk)) t"
proof -
  have "NUL \<notin> set (''CMD '' @ cmd)" using assms(2) NUL_neq [of "CHR ''C''"] NUL_neq [of "CHR ''M''"]
      NUL_neq [of "CHR ''D''"] NUL_neq [of "CHR '' ''"] by auto
  then have "takeWhile (\<lambda>c. c \<noteq> NUL) (''CMD '' @ cmd) = ''CMD '' @ cmd"
    by (auto simp only: takeWhile_eq_all_conv)
  moreover have "take MAX_PACKET_LENGTH (''CMD '' @ cmd) = ''CMD '' @ cmd"
    using assms(1) by (simp add: MAX_PACKET_LENGTH_def)
  ultimately have "takeWhile (\<lambda>c. c \<noteq> char_of (0::nat)) (take MAX_PACKET_LENGTH (''CMD '' @ cmd)) = ''CMD '' @ cmd"
    by (simp only: NUL_def)
  then show ?thesis by (simp add: driveControl_def Let_def)
qed

definition handover_cmd :: "bool \<Rightarrow> int \<Rightarrow> int \<Rightarrow> string" where
  "handover_cmd on ts ss =
    (if on then ''HANDOVER '' else ''NOHANDOVER '') @ print_d ts @ '' '' @ print_d ss"

lemma handover_dispatch:
  "ctl_command R chan (''HANDOVER '' @ p) junk t = ctl_handover p t"
  "ctl_command R chan (''NOHANDOVER '' @ p) junk t = ctl_noHandover p t"
  by (simp_all add: ctl_command_def ctl_table_def match_cmd_def)

lemma handover_driven:
  assumes "0 \<le> ts" "ts \<le> 7" "0 \<le> ss" "ss \<le> 7"
  shows "driveControl R chan (''CMD '' @ handover_cmd on ts ss) junk t =
    Some (Some (''RSP '' @ (if on then ''HANDOVER 0 '' else ''NOHANDOVER 0 '') @ print_d ts @ '' '' @ print_d ss),
      set_handover ts ss on t)"
proof -
  have u: "in_u32 ts" "in_u32 ss" using assms by (simp_all add: in_u32_def)
  note sc = sscanf2_print [OF u, of 0 0]
  have len: "length (handover_cmd on ts ss) \<le> 96"
    using print_small [OF assms(1,2)] print_small [OF assms(3,4)] by (simp add: handover_cmd_def)
  have z: "NUL \<notin> set (''HANDOVER '' @ '' '')" "NUL \<notin> set (''NOHANDOVER '' @ '' '')"
    by (auto simp: NUL_def dest!: arg_cong [where f = "of_char :: char \<Rightarrow> nat"])
  then have nul: "NUL \<notin> set (handover_cmd on ts ss)"
    using print_no_NUL [of ts] print_no_NUL [of ss] by (auto simp: handover_cmd_def)
  show ?thesis
  proof (cases on)
    case True
    show ?thesis unfolding driveControl_command [OF len nul] unfolding handover_cmd_def if_P [OF True] append_assoc
        handover_dispatch ctl_handover_def sc
      using assms True by (simp add: answer_def)
  next
    case False
    show ?thesis unfolding driveControl_command [OF len nul] unfolding handover_cmd_def if_not_P [OF False]
        append_assoc handover_dispatch ctl_noHandover_def sc
      using assms False by (simp add: answer_def)
  qed
qed

text \<open>C11. The handover commands end to end: a HANDOVER (or NOHANDOVER) message for a slot and a
  subchannel is acknowledged with the same numbers, and from then on the receiver looks for an access burst
  in the frames of exactly that subchannel of the slot (or for a normal burst), on every channel, while the
  frames of the other subchannels are treated as before.\<close>

theorem handover_opens_subchannel:
  assumes "trx_inv good t" and "valid_time now" and "0 \<le> ss" "ss \<le> 7"
    and "uplink_use (comb_of_int (ts_chanType (tr_mStates t ! c) ! nat (mTN now))) (mFN now) = Dedicated k"
  shows "\<exists>resp t'. driveControl R chan (''CMD '' @ handover_cmd on (mTN now) ss) junk t = Some (Some resp, t') \<and>
    resp = ''RSP '' @ (if on then ''HANDOVER 0 '' else ''NOHANDOVER 0 '') @ print_d (mTN now) @ '' '' @ print_d ss \<and>
    ts_expectedCorrType now (tr_mHandover t') ext (tr_mStates t' ! c) =
      (if (if int k = ss then on else tr_mHandover t ! nat (mTN now) ! k) then RACH else TSC)"
proof -
  have tn: "0 \<le> mTN now" "mTN now \<le> 7" using valid_timeD [OF assms(2)] by auto
  let ?t = "set_handover (mTN now) ss on t"
  note d = handover_driven [OF tn assms(3,4), of R chan on junk t]
  have l: "length (tr_mHandover t) = 8" "length (tr_mHandover t ! nat (mTN now)) = 8"
    using assms(1) tn by (simp_all add: trx_inv_def nat_less_iff)
  have h: "tr_mHandover ?t ! nat (mTN now) ! k = (if int k = ss then on else tr_mHandover t ! nat (mTN now) ! k)"
    using l tn assms(3,4) by (auto simp: set_handover_def nth_list_update nat_less_iff)
  have s: "tr_mStates ?t = tr_mStates t" by (simp add: set_handover_def)
  have fn: "u32 (mFN now) = mFN now" using valid_timeD [OF assms(2)] by (simp add: u32_id)
  have "ts_expectedCorrType now (tr_mHandover ?t) ext (tr_mStates ?t ! c) =
      use_corr (uplink_use (comb_of_int (ts_chanType (tr_mStates t ! c) ! nat (mTN now))) (mFN now))
        (tr_mHandover ?t ! nat (mTN now)) ext"
    by (simp add: ts_expectedCorrType_def expected_corr_use time_TN_valid [OF assms(2)] time_FN_def Let_def fn s)
  also have "\<dots> = (if (if int k = ss then on else tr_mHandover t ! nat (mTN now) ! k) then RACH else TSC)"
    unfolding assms(5) use_corr_def by (simp add: h)
  finally show ?thesis unfolding d by blast
qed

theorem handover_opens_subchannel_witness:
  "\<exists>resp t'. driveControl demo_ops 0 ''CMD HANDOVER 2 0'' (0, 0)
      (demo_trx\<lparr>tr_mStates := [ts_new\<lparr>ts_chanType := replicate 8 1\<rparr>]\<rparr>) = Some (Some resp, t') \<and>
    ts_expectedCorrType (Time 9 2) (tr_mHandover t') False (tr_mStates t' ! 0) = RACH"
proof -
  let ?t = "demo_trx\<lparr>tr_mStates := [ts_new\<lparr>ts_chanType := replicate 8 1\<rparr>]\<rparr>"
  have inv: "trx_inv (ri_good demo_env) ?t"
    using demo_trx_ok(1,3) ts_ok_chanType [OF ts_ok_new, of "replicate 8 1"] by (simp add: trx_inv_def)
  have v: "valid_time (Time 9 2)" by (simp add: valid_timeI)
  have u: "uplink_use (comb_of_int (ts_chanType (tr_mStates ?t ! 0) ! nat (mTN (Time 9 2)))) (mFN (Time 9 2)) =
      Dedicated 0"
    by (simp add: comb_of_int_def all_combs_def uplink_use_def)
  have c: "''CMD '' @ handover_cmd True (mTN (Time 9 2)) 0 = ''CMD HANDOVER 2 0''"
  proof -
    have p: "print_d 2 = ''2''" "print_d 0 = ''0''"
      using char_of_char [of "CHR ''2''", where 'a = nat] char_of_char [of "CHR ''0''", where 'a = nat]
      by (simp_all add: print_small)
    show ?thesis by (simp add: handover_cmd_def p)
  qed
  show ?thesis
    using handover_opens_subchannel [OF inv v _ _ u, of 0 demo_ops 0 True "(0, 0)" False]
    unfolding c by auto
qed

end
