(* ===== verification/TrxBurst.thy ===== *)
theory TrxBurst
  imports TrxControl
begin

text \<open>
  The burst path of \<^verbatim>\<open>Transceiver52M/Transceiver.cpp\<close>: packets of downlink bursts from the core into
  the transmit queues (\<open>driveTxPriorityQueue\<close>, \<open>addRadioVector\<close>), the transmit loop with its deadline
  clock (\<open>driveTxFIFO\<close>, \<open>pushRadioVector\<close>), uplink bursts from the receive FIFO to packets
  (\<open>pullRadioVector\<close>, \<open>driveReceiveFIFO\<close>), and the clock messages.

  A packet is the list of its bytes, numbers from 0 to 255. A \<open>float\<close> or \<open>double\<close> is a real; a
  logarithm or a quotient by 0 is not a number there, and some number here.
\<close>

section \<open>Downlink bursts\<close>

definition EDGE_BURST_NBITS :: nat where "EDGE_BURST_NBITS = 444"

definition addRadioVector :: "'v dsp_env \<Rightarrow> nat \<Rightarrow> int list \<Rightarrow> int \<Rightarrow> gsm_time \<Rightarrow> ('v, 'r) transceiver \<Rightarrow>
    ('v, 'r) transceiver option" where
  "addRadioVector D chan bits RSSI wTime t =
    (if chan \<ge> length (tr_mTxPriorityQueues t) then Some t
     else if time_TN wTime > 7 then Some t
     else
       let modulated = (if length bits = EDGE_BURST_NBITS then modulateEdgeBurst D bits (tr_mSPSTx t)
                        else modulateBurst D bits (8 + (if time_TN wTime mod 4 = 0 then 1 else 0)) (tr_mSPSTx t))
       in case modulated of
            None \<Rightarrow> None
          | Some v \<Rightarrow>
              let burst = scaleVector D (tr_txFullScale t * 10 powr of_int (cdiv (- RSSI) 10)) v;
                  radio_burst = rv_single wTime (Some burst)
              in Some (t\<lparr>tr_mTxPriorityQueues :=
                   (tr_mTxPriorityQueues t)[chan := pq_write radio_burst (tr_mTxPriorityQueues t ! chan)]\<rparr>))"

text \<open>The socket delivers at most as many bytes as the buffer holds. A \<open>char\<close> is signed.\<close>

definition driveTxPriorityQueue :: "'v dsp_env \<Rightarrow> nat \<Rightarrow> int list \<Rightarrow> ('v, 'r) transceiver \<Rightarrow>
    (bool \<times> ('v, 'r) transceiver) option" where
  "driveTxPriorityQueue D chan msg t =
    (let buffer = take (EDGE_BURST_NBITS + 50) msg; msgLen = length buffer;
         proceed = (\<lambda>burstLen.
           let timeSlot = s8 (buffer ! 0);
               frameNum = fold (\<lambda>i n. n * 256 + buffer ! (i + 1) mod 256) [0..<4] 0;
               RSSI = s8 (buffer ! 5);
               newBurst = map s8 (take burstLen (drop 6 buffer))
           in map_option (\<lambda>t'. (True, t')) (addRadioVector D chan newBurst RSSI (Time (s32 frameNum) timeSlot) t))
     in if int msgLen = gSlotLen + 1 + 4 + 1 then proceed (nat gSlotLen)
        else if msgLen = EDGE_BURST_NBITS + 1 + 4 + 1 then
          (if tr_mSPSTx t \<noteq> 4 then Some (False, t) else proceed EDGE_BURST_NBITS)
        else Some (False, t))"

section \<open>The transmit loop\<close>

text \<open>The choice of each channel in turn, for the first \<open>mChans\<close> channels.\<close>

fun push_chans :: "gsm_time \<Rightarrow> ('v radio_vector list \<times> 'v trx_state) list \<Rightarrow>
    ('v slot_choice list \<times> 'v list \<times> ('v radio_vector list \<times> 'v trx_state) list) option" where
  "push_chans now [] = Some ([], [], [])"
| "push_chans now ((q, st) # chans) =
    (case ts_push_chan now q st of
       None \<Rightarrow> None
     | Some (c, del, q', st') \<Rightarrow>
         map_option (\<lambda>(cs, dels, rest). (c # cs, del @ dels, (q', st') # rest)) (push_chans now chans))"

text \<open>The result starts with the vectors that were deleted.\<close>

definition pushRadioVector :: "('v, 'r) radio_ops \<Rightarrow> gsm_time \<Rightarrow> ('v, 'r) transceiver \<Rightarrow>
    ('v list \<times> ('v, 'r) transceiver) option" where
  "pushRadioVector R nowTime t =
    (let n = tr_mChans t
     in case push_chans nowTime (take n (zip (tr_mTxPriorityQueues t) (tr_mStates t))) of
          None \<Rightarrow> None
        | Some (cs, del, chans) \<Rightarrow>
            (case ro_driveTransmitRadio R (map (\<lambda>c. (sc_vector c, sc_zero c)) cs) (tr_mRadioInterface t) of
               None \<Rightarrow> None
             | Some radio \<Rightarrow> Some (del @ concat (map sc_delete cs),
                 t\<lparr>tr_mRadioInterface := radio,
                   tr_mTxPriorityQueues := map fst chans @ drop n (tr_mTxPriorityQueues t),
                   tr_mStates := map snd chans @ drop n (tr_mStates t)\<rparr>)))"

definition USB_LATENCY_INTRVL :: gsm_time where "USB_LATENCY_INTRVL = Time 10 0"

text \<open>The latency of a USRP1: a frame more after an underrun, a slot less after a second without one.\<close>

definition adapt_latency :: "('v, 'r) radio_ops \<Rightarrow> ('v, 'r) transceiver \<Rightarrow> ('v, 'r) transceiver option" where
  "adapt_latency R t =
    (if \<not> ro_window_usrp1 R (tr_mRadioInterface t) then Some t
     else
       let (underrun, radio) = ro_isUnderrun R (tr_mRadioInterface t);
           t1 = t\<lparr>tr_mRadioInterface := radio\<rparr>;
           now = ro_getClock R radio
       in if underrun then
            Some (if time_greater now (add_time (tr_mLatencyUpdateTime t1) USB_LATENCY_INTRVL)
                  then t1\<lparr>tr_mTransmitLatency := add_time (tr_mTransmitLatency t1) (Time 1 0),
                          tr_mLatencyUpdateTime := now\<rparr>
                  else t1)
          else if time_greater (tr_mTransmitLatency t1) (ro_minLatency R radio) \<and>
                  time_greater now (add_time (tr_mLatencyUpdateTime t1) (Time 216 0)) then
            map_option (\<lambda>l. t1\<lparr>tr_mTransmitLatency := l, tr_mLatencyUpdateTime := now\<rparr>)
              (decTN 1 (tr_mTransmitLatency t1))
          else Some t1)"

text \<open>One round of the loop: adapt the latency, push the slot that is due, advance the deadline.\<close>

definition tx_round :: "('v, 'r) radio_ops \<Rightarrow> ('v, 'r) transceiver \<Rightarrow> ('v, 'r) transceiver option" where
  "tx_round R t =
    (case adapt_latency R t of
       None \<Rightarrow> None
     | Some t1 \<Rightarrow>
         (case pushRadioVector R (tr_mTransmitDeadlineClock t1) t1 of
            None \<Rightarrow> None
          | Some (_, t2) \<Rightarrow>
              map_option (\<lambda>d. t2\<lparr>tr_mTransmitDeadlineClock := d\<rparr>) (incTN 1 (tr_mTransmitDeadlineClock t2))))"

fun tx_loop :: "nat \<Rightarrow> ('v, 'r) radio_ops \<Rightarrow> ('v, 'r) transceiver \<Rightarrow> ('v, 'r) transceiver option" where
  "tx_loop fuel R t =
    (if time_greater (add_time (ro_getClock R (tr_mRadioInterface t)) (tr_mTransmitLatency t))
          (tr_mTransmitDeadlineClock t)
     then (case fuel of
             0 \<Rightarrow> None
           | Suc n \<Rightarrow> (case tx_round R t of None \<Rightarrow> None | Some t' \<Rightarrow> tx_loop n R t'))
     else Some t)"

declare tx_loop.simps [simp del]

text \<open>The wait for the clock at the end changes nothing. The fuel bounds the slots pushed in one call.\<close>

definition driveTxFIFO :: "nat \<Rightarrow> ('v, 'r) radio_ops \<Rightarrow> ('v, 'r) transceiver \<Rightarrow> ('v, 'r) transceiver option" where
  "driveTxFIFO fuel R t = (if tr_mOn t then tx_loop fuel R t else Some t)"

section \<open>Clock messages and the lower receive loop\<close>

definition writeClockInterface :: "('v, 'r) transceiver \<Rightarrow> string \<times> ('v, 'r) transceiver" where
  "writeClockInterface t =
    (''IND CLOCK '' @ dec (nat ((time_FN (tr_mTransmitDeadlineClock t) + 2) mod int two64)),
     t\<lparr>tr_mLastClockUpdateTime := tr_mTransmitDeadlineClock t\<rparr>)"

datatype rx_event = Slept | StopRequired | ClockIndication string | Received

definition trx_driveReceiveRadio :: "('v, 'r) radio_ops \<Rightarrow> ('v, 'r) transceiver \<Rightarrow>
    (rx_event \<times> ('v, 'r) transceiver) option" where
  "trx_driveReceiveRadio R t =
    (case ro_driveReceiveRadio R (tr_mRadioInterface t) of
       None \<Rightarrow> None
     | Some (rc, radio) \<Rightarrow>
         let t1 = t\<lparr>tr_mRadioInterface := radio\<rparr>
         in if rc = 0 then Some (Slept, t1)
            else if rc < 0 then Some (StopRequired, t1)
            else if tr_mForceClockInterface t1 \<or>
                time_greater (tr_mTransmitDeadlineClock t1) (add_time (tr_mLastClockUpdateTime t1) (Time 216 0)) then
              (let (msg, t2) = writeClockInterface (t1\<lparr>tr_mForceClockInterface := False\<rparr>)
               in Some (ClockIndication msg, t2))
            else Some (Received, t1))"

section \<open>Uplink bursts\<close>

text \<open>The burst type that \<open>demodAnyBurst\<close> gets is the positive result of the detector.\<close>

record ('v, 'c) rx_dsp =
  energyDetect :: "'v \<Rightarrow> nat \<Rightarrow> real"
  detectAnyBurst :: "'v \<Rightarrow> int \<Rightarrow> real \<Rightarrow> nat \<Rightarrow> corr_type \<Rightarrow> int \<Rightarrow> int \<times> 'c \<times> real"
  demodAnyBurst :: "'v \<Rightarrow> nat \<Rightarrow> 'c \<Rightarrow> real \<Rightarrow> int \<Rightarrow> real list option"

definition BURST_THRESH :: real where "BURST_THRESH = 4"

text \<open>The diversity path with the highest energy, and the sum of the energies.\<close>

definition best_path :: "real list \<Rightarrow> real \<times> int \<times> real" where
  "best_path pows =
    fold (\<lambda>i (mx, max_i, avg). if pows ! i > mx then (pows ! i, int i, avg + pows ! i) else (mx, max_i, avg + pows ! i))
      [0..<length pows] (-1, -1, 0)"

text \<open>What \<open>pullRadioVector\<close> gives back; \<open>pl_valid\<close> tells whether the time and the levels are set, and
  \<open>pl_dump\<close> whether the burst is written to a file.\<close>

record 'v pulled =
  pl_bits :: "real list option"
  pl_time :: gsm_time
  pl_RSSI :: real
  pl_valid :: bool
  pl_toa :: real
  pl_noise :: real
  pl_dump :: bool
  pl_deleted :: "'v list"

definition rssi_dB :: "real \<Rightarrow> real \<Rightarrow> real" where
  "rssi_dB full x = 20 * log 10 (full / x)"

definition burst_dumped :: "int \<Rightarrow> int \<Rightarrow> nat \<Rightarrow> bool" where
  "burst_dumped msk tn chan \<longleftrightarrow> odd (msk div 2 ^ (nat tn + 8 * chan))"

definition pull_burst :: "('v, 'c) rx_dsp \<Rightarrow> nat \<Rightarrow> 'v radio_vector \<Rightarrow> ('v, 'r) transceiver \<Rightarrow>
    ('v pulled \<times> ('v, 'r) transceiver) option" where
  "pull_burst X chan radio_burst t =
    (let time = rv_getTime radio_burst;
         st = tr_mStates t ! chan;
         type0 = ts_expectedCorrType time (tr_mHandover t) (tr_mExtRACH t) st;
         type = (if tr_mEdge t \<and> type0 = TSC then EDGE else type0);
         out0 = \<lparr>pl_bits = None, pl_time = Time 0 0, pl_RSSI = 0, pl_valid = False, pl_toa = 0, pl_noise = 0,
                 pl_dump = burst_dumped (tr_mWriteBurstToDiskMask t) (time_TN time) chan,
                 pl_deleted = rv_delete radio_burst\<rparr>
     in if type = OFF then Some (out0, t)
        else if None \<in> set (rv_vectors radio_burst) then None
        else
          let pows = map (\<lambda>v. energyDetect X (the v) (20 * tr_mSPSRx t)) (rv_vectors radio_burst);
              (_, max_i, total) = best_path pows
          in if max_i < 0 then Some (out0, t)
             else
               let burst = the (rv_getVector (nat max_i) radio_burst);
                   avg = sqrt (total / real (rv_chans radio_burst));
                   out1 = out0\<lparr>pl_time := time, pl_RSSI := rssi_dB (tr_rxFullScale t) avg, pl_valid := True\<rparr>
               in if type = IDLE then
                    let noises = snd (nv_insert avg (ts_mNoises st));
                        lev = nv_avg noises
                    in Some (out1\<lparr>pl_noise := rssi_dB (tr_rxFullScale t) lev\<rparr>,
                         upd_state chan (\<lambda>st. st\<lparr>ts_mNoises := noises, ts_mNoiseLev := lev\<rparr>) t)
                  else
                    let out2 = out1\<lparr>pl_noise := rssi_dB (tr_rxFullScale t) (ts_mNoiseLev st)\<rparr>;
                        max_toa = (if type = RACH \<or> type = EXT_RACH then tr_mMaxExpectedDelayAB t
                                   else tr_mMaxExpectedDelayNB t);
                        (rc, amp, toa) = detectAnyBurst X burst (tr_mTSC t) BURST_THRESH (tr_mSPSRx t) type max_toa
                    in if rc > 0 then
                         Some (out2\<lparr>pl_toa := toa, pl_bits := demodAnyBurst X burst (tr_mSPSRx t) amp toa rc\<rparr>, t)
                       else Some (out2, t))"

definition pullRadioVector :: "('v, 'c) rx_dsp \<Rightarrow> ('v, 'r) radio_ops \<Rightarrow>
    ('v radio_vector pointer_fifo \<Rightarrow> 'v radio_vector pointer_fifo) list \<Rightarrow> nat \<Rightarrow> ('v, 'r) transceiver \<Rightarrow>
    ('v pulled \<times> ('v, 'r) transceiver) option" where
  "pullRadioVector X R wakes chan t =
    (case tr_mReceiveFIFO t ! chan of
       None \<Rightarrow> None
     | Some f \<Rightarrow>
         (case itq_read wakes (ro_fifo R f (tr_mRadioInterface t)) of
            None \<Rightarrow> None
          | Some (radio_burst, q) \<Rightarrow>
              pull_burst X chan radio_burst
                (t\<lparr>tr_mRadioInterface := ro_set_fifo R f q (tr_mRadioInterface t)\<rparr>)))"

definition vectorSlicer :: "real list \<Rightarrow> real list" where
  "vectorSlicer = map (\<lambda>x. let y = (x + 1) / 2; y1 = (if y > 1 then 1 else y) in if y1 < 0 then 0 else y1)"

text \<open>The packet of an uplink burst. The byte before the last is never written: \<open>junk\<close>.\<close>

definition burst_packet :: "gsm_time \<Rightarrow> int \<Rightarrow> int \<Rightarrow> nat \<Rightarrow> real list \<Rightarrow> int \<Rightarrow> int list" where
  "burst_packet burstTime dBm TOAint nbits bits junk =
    [time_TN burstTime mod 256] @
    map (\<lambda>i. time_FN burstTime div 2 ^ ((3 - i) * 8) mod 256) [0..<4] @
    [dBm mod 256, TOAint div 256 mod 256, TOAint mod 256] @
    map (\<lambda>x. \<lfloor>x * 255 + 1 / 2\<rfloor> mod 256) (take nbits bits) @ [junk mod 256, 0]"

text \<open>The result is the packet sent, if any. Fewer soft bits than the packet holds are read past their
  end: \<open>None\<close>.\<close>

definition driveReceiveFIFO :: "('v, 'c) rx_dsp \<Rightarrow> ('v, 'r) radio_ops \<Rightarrow>
    ('v radio_vector pointer_fifo \<Rightarrow> 'v radio_vector pointer_fifo) list \<Rightarrow> int \<Rightarrow> nat \<Rightarrow> ('v, 'r) transceiver \<Rightarrow>
    (int list option \<times> ('v, 'r) transceiver) option" where
  "driveReceiveFIFO X R wakes junk chan t =
    (case pullRadioVector X R wakes chan t of
       None \<Rightarrow> None
     | Some (out, t') \<Rightarrow>
         (case pl_bits out of
            None \<Rightarrow> Some (None, t')
          | Some raw \<Rightarrow>
              let bits = vectorSlicer raw;
                  nbits = (if length bits = nat (gSlotLen * 3) then nat (gSlotLen * 3) else nat gSlotLen);
                  dBm = pl_RSSI out + tr_rssiOffset t'
              in case (real_to_int dBm, real_to_int (pl_toa out * 256 + 1 / 2)) of
                   (Some dB, Some TOAint) \<Rightarrow>
                     if length bits < nbits then None
                     else Some (Some (burst_packet (pl_time out) dB TOAint nbits bits junk), t')
                 | _ \<Rightarrow> None))"

section \<open>Packets from the core\<close>

text \<open>The downlink packet of the protocol: slot, frame number, attenuation, bits.\<close>

definition tx_packet :: "gsm_time \<Rightarrow> int \<Rightarrow> int list \<Rightarrow> int list" where
  "tx_packet time RSSI bits =
    [mTN time, mFN time div 16777216 mod 256, mFN time div 65536 mod 256, mFN time div 256 mod 256,
     mFN time mod 256, RSSI mod 256] @ bits"

lemma bytes_32:
  assumes "0 \<le> n" and "n < 4294967296"
  shows "((n div 16777216 mod 256 * 256 + n div 65536 mod 256) * 256 + n div 256 mod 256) * 256 + n mod 256 = (n :: int)"
proof -
  have d: "n div 65536 div 256 = n div 16777216" "n div 256 div 256 = n div 65536"
    using zdiv_zmult2_eq [of 256 n 65536] zdiv_zmult2_eq [of 256 n 256] by simp_all
  have "n div 16777216 mod 256 = n div 16777216"
    using assms by (intro mod_pos_pos_trivial) (simp_all add: div_less_iff_less_mult pos_imp_zdiv_nonneg_iff)
  moreover note div_mult_mod_eq [of "n div 65536" 256, unfolded d] div_mult_mod_eq [of "n div 256" 256, unfolded d]
    div_mult_mod_eq [of n 256]
  ultimately show ?thesis by (simp only:)
qed

lemma s8_mod: "-128 \<le> x \<Longrightarrow> x < 128 \<Longrightarrow> s8 (x mod 256) = x"
  by (simp add: s8_def mod_simps)

lemma upt_4: "[0..<4] = [0, 1, 2, 3 :: nat]"
  by (simp add: upt_rec numeral_eq_Suc)

definition queued :: "'v dsp_env \<Rightarrow> nat \<Rightarrow> gsm_time \<Rightarrow> int \<Rightarrow> 'v \<Rightarrow> ('v, 'r) transceiver \<Rightarrow> ('v, 'r) transceiver" where
  "queued D chan time RSSI v t =
    t\<lparr>tr_mTxPriorityQueues := (tr_mTxPriorityQueues t)[chan := tr_mTxPriorityQueues t ! chan @
       [rv_single time (Some (scaleVector D (tr_txFullScale t * 10 powr of_int (cdiv (- RSSI) 10)) v))]]\<rparr>"

text \<open>C7. A downlink packet, a normal burst of 148 bits or with 4 samples per symbol an EDGE burst of
  444, puts exactly one burst into its channel's transmit queue, with the time of the packet, made from
  its bits and scaled by its attenuation, and changes nothing else; a packet of any other size is refused
  and changes nothing.\<close>

theorem tx_packet_queued:
  assumes "valid_time time" and "-128 \<le> RSSI" "RSSI < 128" and "set bits \<subseteq> {0, 1}"
    and "chan < length (tr_mTxPriorityQueues t)"
    and "(if length bits = 444 then modulateEdgeBurst D bits (tr_mSPSTx t)
          else modulateBurst D bits (if mTN time mod 4 = 0 then 9 else 8) (tr_mSPSTx t)) = Some v"
    and "length bits = 148 \<or> length bits = 444 \<and> tr_mSPSTx t = 4"
  shows "driveTxPriorityQueue D chan (tx_packet time RSSI bits) t = Some (True, queued D chan time RSSI v t) \<and>
    (\<forall>msg. length msg \<noteq> 154 \<and> length msg \<noteq> 450 \<longrightarrow> driveTxPriorityQueue D chan msg t = Some (False, t))"
proof
  note b = valid_timeD [OF assms(1)]
  let ?p = "tx_packet time RSSI bits"
  have len: "length ?p = length bits + 6" by (simp add: tx_packet_def)
  have tk: "take (EDGE_BURST_NBITS + 50) ?p = ?p" using assms(7) len by (auto simp: EDGE_BURST_NBITS_def)
  have tn: "s8 (?p ! 0) = mTN time" using b by (simp add: tx_packet_def s8_id)
  have "fold (\<lambda>i n. n * 256 + ?p ! (i + 1) mod 256) [0..<4] 0 =
      ((mFN time div 16777216 mod 256 * 256 + mFN time div 65536 mod 256) * 256 + mFN time div 256 mod 256) * 256
        + mFN time mod 256"
    unfolding upt_4 by (simp add: tx_packet_def numeral_eq_Suc)
  also have "\<dots> = mFN time" using b by (intro bytes_32) auto
  finally have fn: "s32 (fold (\<lambda>i n. n * 256 + ?p ! (i + 1) mod 256) [0..<4] 0) = mFN time" using b by (simp add: s32_id)
  have rssi: "s8 (?p ! 5) = RSSI" using s8_mod [OF assms(2,3)] by (simp add: tx_packet_def numeral_eq_Suc)
  have "map s8 bits = bits" using assms(4) by (intro map_idI) (auto simp: s8_id)
  then have bits: "map s8 (take (length bits) (drop 6 ?p)) = bits" by (simp add: tx_packet_def numeral_eq_Suc)
  have time: "Time (mFN time) (mTN time) = time" by simp
  have add: "addRadioVector D chan bits RSSI time t = Some (queued D chan time RSSI v t)"
    using assms(5,6) b
    by (auto simp: addRadioVector_def time_TN_valid [OF assms(1)] EDGE_BURST_NBITS_def queued_def pq_write_def Let_def
        split: if_splits)
  show "driveTxPriorityQueue D chan ?p t = Some (True, queued D chan time RSSI v t)"
    unfolding driveTxPriorityQueue_def Let_def tk tn fn rssi time
    using assms(7) len bits add by (auto simp: EDGE_BURST_NBITS_def gSlotLen_def)
  show "\<forall>msg. length msg \<noteq> 154 \<and> length msg \<noteq> 450 \<longrightarrow> driveTxPriorityQueue D chan msg t = Some (False, t)"
    by (auto simp: driveTxPriorityQueue_def Let_def EDGE_BURST_NBITS_def gSlotLen_def)
qed

theorem tx_packet_queued_witness:
  "driveTxPriorityQueue demo_dsp 0 (tx_packet (Time 77 3) 20 (replicate 148 1)) demo_trx =
    Some (True, queued demo_dsp 0 (Time 77 3) 20 (replicate 148 1) demo_trx)"
proof -
  have v: "valid_time (Time 77 3)" by (simp add: valid_timeI)
  have q: "0 < length (tr_mTxPriorityQueues demo_trx)" by (simp add: demo_trx_def)
  have m: "(if length (replicate 148 (1::int)) = 444 then modulateEdgeBurst demo_dsp (replicate 148 1) (tr_mSPSTx demo_trx)
      else modulateBurst demo_dsp (replicate 148 1) (if mTN (Time 77 3) mod 4 = 0 then 9 else 8) (tr_mSPSTx demo_trx)) =
      Some (replicate 148 1)" by (simp add: demo_dsp_def)
  show ?thesis using tx_packet_queued [OF v _ _ _ q m, of 20] by auto
qed

section \<open>The deadline clock\<close>

lemma window_step:
  assumes "in_window base t" and "in_window base u" and "window_pos base t < window_pos base u"
  shows "incTN 1 t = Some (next_slot t) \<and> in_window base (next_slot t) \<and>
    window_pos base (next_slot t) = window_pos base t + 1"
proof -
  have v: "valid_time t" "valid_time u" using assms by (simp_all add: in_window_def)
  note b = valid_timeD [OF v(1)] valid_timeD [OF v(2)]
  let ?a = "(mFN t - base) mod 2715648" and ?b = "(mFN u - base) mod 2715648"
  have h: "?b < 1357824" using assms(2) by (simp add: in_window_def gHyperframe_eq)
  have lt: "8 * ?a + mTN t < 8 * ?b + mTN u" using assms(3) by (simp add: window_pos_def gHyperframe_eq)
  obtain t' where t': "incTN 1 t = Some t'" "valid_time t'" using incTN_1_valid [OF v(1)] by blast
  then have n: "next_slot t = t'" by (simp add: next_slot_def)
  have e: "t' = (if mTN t + 1 > 7 then Time (if mFN t = 2715647 then 0 else mFN t + 1) (mTN t + 1 - 8)
      else Time (mFN t) (mTN t + 1))" using incTN_valid [OF v(1), of 1] t'(1) by auto
  have p: "(mFN t' - base) mod 2715648 < 1357824 \<and> 8 * ((mFN t' - base) mod 2715648) + mTN t' = 8 * ?a + mTN t + 1"
  proof (cases "mTN t = 7")
    case False
    then have "mFN t' = mFN t" "mTN t' = mTN t + 1" using e b by auto
    moreover have "?a < 1357824" using assms(1) by (simp add: in_window_def gHyperframe_eq)
    ultimately show ?thesis by simp
  next
    case True
    have ab: "?a < ?b" using lt True b by linarith
    have "mFN t' mod 2715648 = (mFN t + 1) mod 2715648" using e True b by auto
    then have "(mFN t' - base) mod 2715648 = (mFN t + 1 - base) mod 2715648" by (metis mod_diff_left_eq)
    also have "\<dots> = (?a + 1) mod 2715648" by (simp add: mod_simps algebra_simps)
    also have "\<dots> = ?a + 1" using ab h by (intro mod_pos_pos_trivial) auto
    finally show ?thesis using e True ab h by simp
  qed
  show ?thesis using t' n p assms(1) by (simp add: in_window_def window_pos_def gHyperframe_eq)
qed

lemma ri_push_loop_clock:
  assumes push: "\<And>r b r'. push r = Some (b, r') \<Longrightarrow> ri_clock r' = ri_clock r"
  shows "ri_push_loop n push r = Some r' \<Longrightarrow> ri_clock r' = ri_clock r"
proof (induction n arbitrary: r)
  case 0
  then show ?case by simp
next
  case (Suc n)
  obtain again r1 where p: "push r = Some (again, r1)" using Suc.prems by (auto split: option.splits)
  show ?case using Suc.prems Suc.IH [of r1] push [OF p] p by (cases again) auto
qed

lemma ri_pushBuffer_clock: "ri_pushBuffer E r = Some (b, r') \<Longrightarrow> ri_clock r' = ri_clock r"
  by (auto simp: ri_pushBuffer_def Let_def split_beta split: if_splits)

lemma ri_radioify_clock: "ri_clock (ri_radioify_all bursts r) = ri_clock r"
proof -
  have "ri_clock (fold (\<lambda>i r. snd (ri_radioifyVector (fst (bursts ! i)) i (snd (bursts ! i)) r)) is r) = ri_clock r" for "is"
    by (induction "is" arbitrary: r) (simp_all add: ri_radioifyVector_def Let_def)
  then show ?thesis by (simp add: ri_radioify_all_def)
qed

text \<open>What the loop relies on: the transmission does not set the clock, and the window is not a USRP1's,
  for which the loop also adapts the latency.\<close>

locale tx_contract =
  fixes R :: "('v, 'r) radio_ops"
  assumes tx_clock: "ro_driveTransmitRadio R bursts r = Some r' \<Longrightarrow> ro_getClock R r' = ro_getClock R r"
    and fixed_window: "\<not> ro_window_usrp1 R r"

text \<open>The loop unrolled: so many slots pushed, one after the other.\<close>

fun push_slots :: "nat \<Rightarrow> ('v, 'r) radio_ops \<Rightarrow> ('v, 'r) transceiver \<Rightarrow> ('v, 'r) transceiver option" where
  "push_slots 0 R t = Some t"
| "push_slots (Suc n) R t =
    (case pushRadioVector R (tr_mTransmitDeadlineClock t) t of
       None \<Rightarrow> None
     | Some (_, t') \<Rightarrow>
         push_slots n R (t'\<lparr>tr_mTransmitDeadlineClock := next_slot (tr_mTransmitDeadlineClock t)\<rparr>))"

definition tx_target :: "('v, 'r) radio_ops \<Rightarrow> ('v, 'r) transceiver \<Rightarrow> gsm_time" where
  "tx_target R t = add_time (ro_getClock R (tr_mRadioInterface t)) (tr_mTransmitLatency t)"

context tx_contract
begin

lemma push_keeps:
  assumes "pushRadioVector R now t = Some (del, t')"
  shows "tx_target R t' = tx_target R t" and "tr_mTransmitDeadlineClock t' = tr_mTransmitDeadlineClock t"
  using assms tx_clock by (auto simp: pushRadioVector_def tx_target_def Let_def split: option.splits prod.splits)

lemma tx_round_eq:
  assumes "incTN 1 (tr_mTransmitDeadlineClock t) = Some (next_slot (tr_mTransmitDeadlineClock t))"
  shows "tx_round R t =
    map_option (\<lambda>(_, t'). t'\<lparr>tr_mTransmitDeadlineClock := next_slot (tr_mTransmitDeadlineClock t)\<rparr>)
      (pushRadioVector R (tr_mTransmitDeadlineClock t) t)"
  using assms push_keeps(2) by (auto simp: tx_round_def adapt_latency_def fixed_window split: option.splits)

lemma tx_loop_slots:
  assumes "in_window base (tr_mTransmitDeadlineClock t)" and "in_window base (tx_target R t)"
    and "nat (window_pos base (tx_target R t) - window_pos base (tr_mTransmitDeadlineClock t)) = k" and "k \<le> fuel"
  shows "tx_loop fuel R t = push_slots k R t \<and>
    (\<forall>t'. push_slots k R t = Some t' \<longrightarrow> tx_target R t' = tx_target R t \<and>
      in_window base (tr_mTransmitDeadlineClock t') \<and>
      window_pos base (tr_mTransmitDeadlineClock t') = window_pos base (tr_mTransmitDeadlineClock t) + int k)"
  using assms
proof (induction k arbitrary: t fuel)
  case 0
  then have "\<not> time_greater (tx_target R t) (tr_mTransmitDeadlineClock t)"
    using window_pos_order(2) [OF 0(2,1)] by simp
  then show ?case using 0(1) by (simp add: tx_loop.simps [of fuel] tx_target_def)
next
  case (Suc k)
  let ?d = "tr_mTransmitDeadlineClock t"
  obtain f where f: "fuel = Suc f" "k \<le> f" using Suc.prems(4) by (cases fuel) auto
  have lt: "window_pos base ?d < window_pos base (tx_target R t)" using Suc.prems(3) by linarith
  then have g: "time_greater (tx_target R t) ?d" using window_pos_order(2) [OF Suc.prems(2,1)] by simp
  note s = window_step [OF Suc.prems(1,2) lt]
  note r = tx_round_eq [OF conjunct1 [OF s]]
  show ?case
  proof (cases "pushRadioVector R ?d t")
    case None
    then show ?thesis using g r f by (simp add: tx_loop.simps [of "Suc f"] tx_target_def)
  next
    case (Some p)
    obtain del t1 where p: "p = (del, t1)" by fastforce
    let ?t = "t1\<lparr>tr_mTransmitDeadlineClock := next_slot ?d\<rparr>"
    have T: "tx_target R ?t = tx_target R t"
      using push_keeps(1) [OF Some [unfolded p]] by (simp add: tx_target_def)
    have "tx_loop f R ?t = push_slots k R ?t \<and>
      (\<forall>t'. push_slots k R ?t = Some t' \<longrightarrow> tx_target R t' = tx_target R ?t \<and>
        in_window base (tr_mTransmitDeadlineClock t') \<and>
        window_pos base (tr_mTransmitDeadlineClock t') = window_pos base (tr_mTransmitDeadlineClock ?t) + int k)"
      by (rule Suc.IH [OF _ _ _ f(2)]) (use s T Suc.prems in auto)
    moreover have "tx_loop fuel R t = tx_loop f R ?t"
      using g r f Some p by (simp add: tx_loop.simps [of "Suc f"] tx_target_def)
    ultimately show ?thesis using Some p T s by auto
  qed
qed

end

lemma ri_driveTransmit_clock:
  assumes "ri_driveTransmitRadio (ri_pushBuffer E) bursts r = Some r'"
  shows "ri_clock r' = ri_clock r"
proof (cases "ri_on r")
  case False
  then show ?thesis using assms by (simp add: ri_driveTransmitRadio_def)
next
  case True
  let ?r = "ri_radioify_all bursts r"
  have "ri_push_loop (Suc (rb_getAvailSamples (ri_sendBuffer ?r ! 0))) (ri_pushBuffer E) ?r = Some r'"
    using assms True by (simp only: ri_driveTransmitRadio_def Let_def simp_thms if_False)
  from ri_push_loop_clock [of "ri_pushBuffer E", OF ri_pushBuffer_clock this]
  have "ri_clock r' = ri_clock ?r" .
  then show ?thesis by (simp only: ri_radioify_clock)
qed

interpretation ri_tx: tx_contract "ri_ops E head False latency" for E head latency
proof unfold_locales
  fix bursts r r'
  assume "ro_driveTransmitRadio (ri_ops E head False latency) bursts r = Some r'"
  then have "ri_driveTransmitRadio (ri_pushBuffer E) (map (\<lambda>(v, z). (the v, z)) bursts) r = Some r'"
    by (simp add: ri_ops_def split: if_splits)
  then show "ro_getClock (ri_ops E head False latency) r' = ro_getClock (ri_ops E head False latency) r"
    by (simp add: ri_ops_def rc_get_def ri_driveTransmit_clock)
qed (simp add: ri_ops_def)



section \<open>Packets to the core\<close>

lemma slicer_range: "x \<in> set (vectorSlicer bits) \<Longrightarrow> 0 \<le> x \<and> x \<le> 1"
  by (auto simp: vectorSlicer_def Let_def)

lemma length_vectorSlicer [simp]: "length (vectorSlicer bits) = length bits"
  by (simp add: vectorSlicer_def)

text \<open>How the core reads a packet.\<close>

definition packet_FN :: "int list \<Rightarrow> int" where
  "packet_FN p = ((p ! 1 * 256 + p ! 2) * 256 + p ! 3) * 256 + p ! 4"

definition packet_TOA :: "int list \<Rightarrow> int" where
  "packet_TOA p = (let v = p ! 6 * 256 + p ! 7 in if v < 32768 then v else v - 65536)"

lemma soft_byte:
  fixes x :: real
  assumes "0 \<le> x" and "x \<le> 1"
  shows "\<bar>of_int (\<lfloor>x * 255 + 1 / 2\<rfloor> mod 256) / 255 - x\<bar> \<le> 1 / 510"
proof -
  let ?b = "\<lfloor>x * 255 + 1 / 2\<rfloor>"
  have "0 \<le> ?b" "?b < 256" using assms by (auto simp: floor_less_iff)
  then have m: "?b mod 256 = ?b" by simp
  have "of_int ?b \<le> x * 255 + 1 / 2" "x * 255 + 1 / 2 < of_int ?b + 1"
    using of_int_floor_le [of "x * 255 + 1 / 2"] floor_less_cancel by linarith+
  then have "\<bar>of_int ?b - x * 255\<bar> \<le> 1 / 2" by linarith
  then show ?thesis unfolding m by (simp add: abs_le_iff field_simps)
qed

lemma toa_bytes:
  fixes v :: int
  assumes "-32768 \<le> v" and "v < 32768"
  shows "(let u = v div 256 mod 256 * 256 + v mod 256 in if u < 32768 then u else u - 65536) = v"
proof -
  have "v div 256 mod 256 * 256 + v mod 256 = v mod 65536"
    using zmod_zmult2_eq [of 256 v 256] by (simp add: algebra_simps)
  moreover have "v mod 65536 = (if v < 0 then v + 65536 else v)"
    using assms mod_pos_pos_trivial [of "v + 65536" 65536] by (auto simp: mod_pos_pos_trivial)
  ultimately show ?thesis using assms by (simp add: Let_def)
qed

lemma nth_burst_packet:
  assumes "length bits \<ge> nbits" and p_def: "p = burst_packet time dBm TOAint nbits bits junk"
  shows "length p = nbits + 10" and "p ! 0 = time_TN time mod 256"
    and "p ! 1 = time_FN time div 16777216 mod 256" and "p ! 2 = time_FN time div 65536 mod 256"
    and "p ! 3 = time_FN time div 256 mod 256" and "p ! 4 = time_FN time mod 256"
    and "p ! 5 = dBm mod 256" and "p ! 6 = TOAint div 256 mod 256" and "p ! 7 = TOAint mod 256"
    and "\<And>i. i < nbits \<Longrightarrow> p ! (8 + i) = \<lfloor>bits ! i * 255 + 1 / 2\<rfloor> mod 256"
proof -
  let ?soft = "map (\<lambda>x. \<lfloor>x * 255 + 1 / 2\<rfloor> mod 256) (take nbits bits)"
  have e: "p = time_TN time mod 256 # time_FN time div 16777216 mod 256 # time_FN time div 65536 mod 256 #
      time_FN time div 256 mod 256 # time_FN time mod 256 # dBm mod 256 # TOAint div 256 mod 256 # TOAint mod 256 #
      ?soft @ [junk mod 256, 0]"
    by (simp add: p_def burst_packet_def upt_4)
  show "length p = nbits + 10" unfolding e using assms(1) by simp
  show "p ! 0 = time_TN time mod 256" "p ! 1 = time_FN time div 16777216 mod 256"
    "p ! 2 = time_FN time div 65536 mod 256" "p ! 3 = time_FN time div 256 mod 256" "p ! 4 = time_FN time mod 256"
    "p ! 5 = dBm mod 256" "p ! 6 = TOAint div 256 mod 256" "p ! 7 = TOAint mod 256"
    unfolding e by (simp_all add: numeral_eq_Suc)
  show "p ! (8 + i) = \<lfloor>bits ! i * 255 + 1 / 2\<rfloor> mod 256" if "i < nbits" for i
    unfolding e using that assms(1) by (simp add: nth_append numeral_eq_Suc)
qed

lemma real_to_int_some:
  assumes "\<bar>x\<bar> < 2147483647"
  shows "\<exists>v. real_to_int x = Some v \<and> (if x < 0 then x \<le> of_int v \<and> of_int v < x + 1 \<and> v \<le> 0
    else of_int v \<le> x \<and> x < of_int v + 1 \<and> 0 \<le> v)"
proof (cases "x < 0")
  case True
  have c: "x \<le> of_int \<lceil>x\<rceil>" "of_int \<lceil>x\<rceil> < x + 1" using ceiling_correct [of x] by linarith+
  then have "-2147483648 \<le> \<lceil>x\<rceil>" "\<lceil>x\<rceil> \<le> 0" using True assms by linarith+
  then show ?thesis using True c by (simp add: real_to_int_def)
next
  case False
  have c: "of_int \<lfloor>x\<rfloor> \<le> x" "x < of_int \<lfloor>x\<rfloor> + 1" by linarith+
  then have "0 \<le> \<lfloor>x\<rfloor>" "\<lfloor>x\<rfloor> < 2147483648" using False assms by linarith+
  then show ?thesis using False c by (simp add: real_to_int_def)
qed

text \<open>The rounding of the time of arrival: to the closest integer only if it is not negative.\<close>

lemma toa_negative_rounding: "real_to_int (- 2 + 1 / 2) = Some (-1)"
  by (simp add: real_to_int_def)

lemma rx_packet_decodes_aux:
  assumes "pullRadioVector X R wakes chan t = Some (out, t')" and "pl_bits out = Some raw"
    and "valid_time (pl_time out)" and "n \<le> length raw" and "n = (if length raw = 444 then 444 else 148)"
    and "\<bar>pl_RSSI out + tr_rssiOffset t'\<bar> < 128" and "\<bar>pl_toa out\<bar> < 127"
  shows "\<exists>p dB. driveReceiveFIFO X R wakes junk chan t = Some (Some p, t') \<and> length p = n + 10 \<and>
    p ! 0 = mTN (pl_time out) \<and> packet_FN p = mFN (pl_time out) \<and>
    real_to_int (pl_RSSI out + tr_rssiOffset t') = Some dB \<and> s8 (p ! 5) = dB \<and>
    - 1 / 2 \<le> of_int (packet_TOA p) - 256 * pl_toa out \<and>
    (if pl_toa out < 0 then of_int (packet_TOA p) - 256 * pl_toa out < 3 / 2
     else of_int (packet_TOA p) - 256 * pl_toa out \<le> 1 / 2) \<and>
    (\<forall>i < n. \<bar>of_int (p ! (8 + i)) / 255 - vectorSlicer raw ! i\<bar> \<le> 1 / 510)"
proof -
  let ?bits = "vectorSlicer raw" and ?time = "pl_time out"
  let ?x = "pl_toa out * 256 + 1 / 2"
  note b = valid_timeD [OF assms(3)]
  obtain dB where dB: "real_to_int (pl_RSSI out + tr_rssiOffset t') = Some dB" "-128 \<le> dB" "dB < 128"
    using real_to_int_some [of "pl_RSSI out + tr_rssiOffset t'"] assms(6) by (auto split: if_splits)
  obtain TOA where TOA: "real_to_int ?x = Some TOA"
      "if ?x < 0 then ?x \<le> of_int TOA \<and> of_int TOA < ?x + 1 \<and> TOA \<le> 0
       else of_int TOA \<le> ?x \<and> ?x < of_int TOA + 1 \<and> 0 \<le> TOA"
  proof -
    have "\<bar>?x\<bar> < 2147483647" using assms(7) by linarith
    from real_to_int_some [OF this] show thesis using that by blast
  qed
  have TOAb: "-32768 \<le> TOA" "TOA < 32768" using TOA(2) assms(7) by (cases "?x < 0"; simp; linarith)+
  define p where "p = burst_packet ?time dB TOA n ?bits junk"
  have len: "length ?bits \<ge> n" using assms(4) by simp
  note P = nth_burst_packet [OF len p_def]
  have d: "driveReceiveFIFO X R wakes junk chan t = Some (Some p, t')"
    using assms(1,2,4,5) dB(1) TOA(1) by (auto simp: driveReceiveFIFO_def Let_def gSlotLen_def p_def)
  have tn: "p ! 0 = mTN ?time" using P(2) b by (simp add: time_TN_valid [OF assms(3)])
  have fn: "packet_FN p = mFN ?time"
    unfolding packet_FN_def P(3-6) time_FN_def using b by (intro bytes_32) auto
  have db: "s8 (p ! 5) = dB" using P(7) s8_mod [OF dB(2,3)] by simp
  have toa: "packet_TOA p = TOA"
    using toa_bytes [OF TOAb] unfolding packet_TOA_def P(8,9) .
  have soft: "\<forall>i < n. \<bar>of_int (p ! (8 + i)) / 255 - ?bits ! i\<bar> \<le> 1 / 510"
  proof (intro allI impI)
    fix i assume i: "i < n"
    show "\<bar>of_int (p ! (8 + i)) / 255 - ?bits ! i\<bar> \<le> 1 / 510"
      unfolding P(10) [OF i] using slicer_range [of "?bits ! i" raw] i len by (intro soft_byte) auto
  qed
  have lo: "- 1 / 2 \<le> of_int TOA - 256 * pl_toa out"
    and hi: "if pl_toa out < 0 then of_int TOA - 256 * pl_toa out < 3 / 2 else of_int TOA - 256 * pl_toa out \<le> 1 / 2"
    using TOA(2) by (auto split: if_splits)
  show ?thesis
    by (rule exI [of _ p], rule exI [of _ dB], unfold toa)
      (intro conjI d P(1) tn fn dB(1) db lo hi soft)
qed

text \<open>C8. An uplink burst of 444 soft bits, or of any other number from 148 on, becomes one packet of 454 or 158 bytes from which the
  core reads the slot and the frame number of the burst, its level in dBm cut to an integer, the time of
  arrival in 1/256 symbols to within half a unit (one and a half if it is negative), and each soft bit, mapped
  to the interval from 0 to 1, to within half a step of 1/255.\<close>

theorem rx_packet_decodes:
  assumes "pullRadioVector X R wakes chan t = Some (out, t')" and "pl_bits out = Some raw"
    and "valid_time (pl_time out)" and "n \<le> length raw" and "n = (if length raw = 444 then 444 else 148)"
    and "\<bar>pl_RSSI out + tr_rssiOffset t'\<bar> < 128" and "\<bar>pl_toa out\<bar> < 127"
  shows "\<exists>p dB. driveReceiveFIFO X R wakes junk chan t = Some (Some p, t') \<and> length p = n + 10 \<and>
    p ! 0 = mTN (pl_time out) \<and> packet_FN p = mFN (pl_time out) \<and>
    real_to_int (pl_RSSI out + tr_rssiOffset t') = Some dB \<and> s8 (p ! 5) = dB \<and>
    - 1 / 2 \<le> of_int (packet_TOA p) - 256 * pl_toa out \<and>
    (if pl_toa out < 0 then of_int (packet_TOA p) - 256 * pl_toa out < 3 / 2
     else of_int (packet_TOA p) - 256 * pl_toa out \<le> 1 / 2) \<and>
    (\<forall>i < n. \<bar>of_int (p ! (8 + i)) / 255 - vectorSlicer raw ! i\<bar> \<le> 1 / 510)"
  using assms by (rule rx_packet_decodes_aux)

definition demo_rx :: "(int list, unit) rx_dsp" where
  "demo_rx = \<lparr>energyDetect = (\<lambda>v n. 1), detectAnyBurst = (\<lambda>v tsc th sps type m. (3, (), 1 / 2)),
     demodAnyBurst = (\<lambda>v sps a toa rc. Some (replicate 148 1))\<rparr>"

definition demo_burst :: "int list radio_vector" where
  "demo_burst = rv_single (Time 5 1) (Some [1, 2])"

definition demo_rx_trx :: "(int list, (int, nat) radio_interface) transceiver" where
  "demo_rx_trx = demo_trx\<lparr>tr_mStates := [ts_new\<lparr>ts_chanType := replicate 8 4, ts_mNoiseLev := 1\<rparr>],
     tr_mReceiveFIFO := [Some 0],
     tr_mRadioInterface := idle_radio\<lparr>ri_receiveFIFO := [itq_write (Some demo_burst) pf_new]\<rparr>\<rparr>"

theorem rx_packet_decodes_witness:
  "\<exists>p t'. driveReceiveFIFO demo_rx demo_ops [] 0 0 demo_rx_trx = Some (Some p, t') \<and> length p = 158 \<and>
    p ! 0 = 1 \<and> packet_FN p = 5 \<and> s8 (p ! 5) = 0"
proof -
  have q: "itq_read [] (itq_write (Some demo_burst) pf_new) = Some (demo_burst, snd (pf_get (itq_write (Some demo_burst) pf_new)))"
    by (simp add: itq_read.simps itq_write_def pf_put_def pf_get_def pf_new_def pf_allocate_def
        node_set_next_def node_set_data_def Let_def)
  have ty: "ts_expectedCorrType (Time 5 1) h False ((ts_new :: int list trx_state)\<lparr>ts_chanType := replicate 8 4, ts_mNoiseLev := 1\<rparr>) = RACH" for h
    by (simp add: ts_expectedCorrType_def expected_corr_def comb_of_int_def all_combs_def time_TN_def u32_def)
  have "best_path [1] = (1, 0, 1)" by (simp add: best_path_def)
  then obtain out t' where pull: "pullRadioVector demo_rx demo_ops [] 0 demo_rx_trx = Some (out, t')"
      "pl_bits out = Some (replicate 148 1)" "pl_time out = Time 5 1" "pl_RSSI out + tr_rssiOffset t' = 0" "pl_toa out = 1 / 2"
    using q ty
    by (simp add: pullRadioVector_def demo_rx_trx_def demo_ops_def ri_ops_def pull_burst_def demo_burst_def
        rv_getTime_def rv_single_def demo_trx_def trx_new_def demo_rx_def Let_def rssi_dB_def rv_chans_def)
  have v: "valid_time (pl_time out)" unfolding pull(3) by (simp add: valid_timeI)
  have z: "real_to_int 0 = Some 0" by (simp add: real_to_int_def)
  show ?thesis
    using rx_packet_decodes [OF pull(1,2) v, of 148 0] unfolding pull(3-5) z by auto
qed

end
