(* ===== verification/Vectors.thy ===== *)
theory Vectors
  imports Prelude "HOL-Library.Multiset"
begin

text \<open>
  The template \<open>Vector\<close> of \<^verbatim>\<open>CommonLibs/Vector.h\<close> with its aliases: a heap of allocated blocks, and
  vectors that point into it. A vector that owns its block (\<open>mData\<close>) deletes it; an alias only refers
  to it (\<open>mStart\<close>, \<open>mEnd\<close>).

  A failed assertion, an access outside a live block and a block that is deleted twice are \<open>None\<close>. The
  allocation and release functions that a vector may carry behave as \<open>new\<close> and \<open>delete\<close>. The contents
  of a new block are arbitrary: the operations that allocate take them as \<open>junk\<close>.
\<close>

section \<open>Heap and vectors\<close>

record 'a vec_heap =
  vh_blocks :: "nat \<Rightarrow> 'a list option"
  vh_next :: nat

text \<open>\<open>v_block\<close>, \<open>v_off\<close> and \<open>v_len\<close> stand for \<open>mStart\<close> and \<open>mEnd\<close>; without a block both are null.\<close>

record vec =
  v_data :: "nat option"
  v_block :: "nat option"
  v_off :: nat
  v_len :: nat

definition heap_new :: "'a vec_heap" where
  "heap_new = \<lparr>vh_blocks = (\<lambda>_. None), vh_next = 0\<rparr>"

definition heap_alloc :: "'a list \<Rightarrow> 'a vec_heap \<Rightarrow> nat \<times> 'a vec_heap" where
  "heap_alloc xs h = (vh_next h, h\<lparr>vh_blocks := (vh_blocks h)(vh_next h := Some xs), vh_next := vh_next h + 1\<rparr>)"

definition heap_free :: "nat option \<Rightarrow> 'a vec_heap \<Rightarrow> 'a vec_heap option" where
  "heap_free p h =
    (case p of
       None \<Rightarrow> Some h
     | Some b \<Rightarrow> if vh_blocks h b = None then None else Some (h\<lparr>vh_blocks := (vh_blocks h)(b := None)\<rparr>))"

text \<open>What a vector shows, and an update of what it shows.\<close>

definition v_read :: "'a vec_heap \<Rightarrow> vec \<Rightarrow> 'a list option" where
  "v_read h v =
    (case v_block v of
       None \<Rightarrow> if v_len v = 0 then Some [] else None
     | Some b \<Rightarrow>
         (case vh_blocks h b of
            None \<Rightarrow> None
          | Some xs \<Rightarrow> if v_off v + v_len v \<le> length xs then Some (slice xs (v_off v) (v_len v)) else None))"

definition v_write :: "vec \<Rightarrow> nat \<Rightarrow> 'a list \<Rightarrow> 'a vec_heap \<Rightarrow> 'a vec_heap option" where
  "v_write v i ys h =
    (if i + length ys > v_len v then None
     else if ys = [] then Some h
     else
       case v_block v of
         None \<Rightarrow> None
       | Some b \<Rightarrow>
           (case vh_blocks h b of
              None \<Rightarrow> None
            | Some xs \<Rightarrow>
                if v_off v + v_len v \<le> length xs
                then Some (h\<lparr>vh_blocks := (vh_blocks h)(b := Some (blit xs (v_off v + i) ys))\<rparr>) else None))"

section \<open>Operations\<close>

definition v_null :: vec where
  "v_null = \<lparr>v_data = None, v_block = None, v_off = 0, v_len = 0\<rparr>"

definition v_size :: "vec \<Rightarrow> nat" where
  "v_size v = v_len v"

definition v_isOwner :: "vec \<Rightarrow> bool" where
  "v_isOwner v \<longleftrightarrow> v_data v \<noteq> None"

definition v_resize :: "'a list \<Rightarrow> vec \<Rightarrow> 'a vec_heap \<Rightarrow> (vec \<times> 'a vec_heap) option" where
  "v_resize junk v h =
    (case heap_free (v_data v) h of
       None \<Rightarrow> None
     | Some h1 \<Rightarrow>
         if junk = [] then Some (v_null, h1)
         else let (b, h2) = heap_alloc junk h1
              in Some (\<lparr>v_data = Some b, v_block = Some b, v_off = 0, v_len = length junk\<rparr>, h2))"

definition v_shrink :: "nat \<Rightarrow> vec \<Rightarrow> vec option" where
  "v_shrink newSize v = (if newSize > v_len v then None else Some (v\<lparr>v_len := newSize\<rparr>))"

definition v_clear :: "vec \<Rightarrow> 'a vec_heap \<Rightarrow> (vec \<times> 'a vec_heap) option" where
  "v_clear v h = v_resize [] v h"

definition v_destroy :: "vec \<Rightarrow> 'a vec_heap \<Rightarrow> 'a vec_heap option" where
  "v_destroy v h = map_option snd (v_clear v h)"

definition v_new :: "'a list \<Rightarrow> 'a vec_heap \<Rightarrow> (vec \<times> 'a vec_heap) option" where
  "v_new junk h = v_resize junk v_null h"

text \<open>The loop of \<open>copyToSegment\<close> copies element by element, which matters when the source and the
  target are aliases of one block; \<open>memcpy\<close> must not be given areas that overlap.\<close>

fun v_copy_loop :: "nat \<Rightarrow> nat \<Rightarrow> vec \<Rightarrow> vec \<Rightarrow> nat \<Rightarrow> 'a vec_heap \<Rightarrow> 'a vec_heap option" where
  "v_copy_loop 0 i v other start h = Some h"
| "v_copy_loop (Suc n) i v other start h =
     (case v_read h v of
        None \<Rightarrow> None
      | Some xs \<Rightarrow>
          if i < length xs
          then (case v_write other (start + i) [xs ! i] h of
                  None \<Rightarrow> None
                | Some h1 \<Rightarrow> v_copy_loop n (i + 1) v other start h1)
          else None)"

definition v_copyToSegment :: "vec \<Rightarrow> vec \<Rightarrow> nat \<Rightarrow> nat \<Rightarrow> 'a vec_heap \<Rightarrow> 'a vec_heap option" where
  "v_copyToSegment v other start span h =
    (if start + span > v_len other \<or> span > v_len v then None else v_copy_loop span 0 v other start h)"

definition v_overlap :: "vec \<Rightarrow> nat \<Rightarrow> vec \<Rightarrow> nat \<Rightarrow> nat \<Rightarrow> bool" where
  "v_overlap v i w j n \<longleftrightarrow>
    v_block v = v_block w \<and> v_off v + i < v_off w + j + n \<and> v_off w + j < v_off v + i + n"

definition v_copyTo :: "vec \<Rightarrow> vec \<Rightarrow> 'a vec_heap \<Rightarrow> 'a vec_heap option" where
  "v_copyTo v other h = v_copyToSegment v other 0 (v_size v) h"

definition v_segmentCopyTo :: "vec \<Rightarrow> vec \<Rightarrow> nat \<Rightarrow> nat \<Rightarrow> 'a vec_heap \<Rightarrow> 'a vec_heap option" where
  "v_segmentCopyTo v other start span h =
    (if start + span > v_len v \<or> span > v_len other \<or> v_overlap v start other 0 span then None
     else case v_read h v of None \<Rightarrow> None | Some xs \<Rightarrow> v_write other 0 (take span (drop start xs)) h)"

definition v_segmentMove :: "vec \<Rightarrow> nat \<Rightarrow> nat \<Rightarrow> nat \<Rightarrow> 'a vec_heap \<Rightarrow> 'a vec_heap option" where
  "v_segmentMove v from_pos to_pos span h =
    (if from_pos + span > v_len v \<or> to_pos + span > v_len v then None
     else case v_read h v of None \<Rightarrow> None | Some xs \<Rightarrow> v_write v to_pos (take span (drop from_pos xs)) h)"

text \<open>\<open>clone\<close> and the copying constructor; the source of a clone may be the vector itself.\<close>

definition v_clone :: "'a list \<Rightarrow> vec \<Rightarrow> vec \<Rightarrow> 'a vec_heap \<Rightarrow> (vec \<times> 'a vec_heap) option" where
  "v_clone junk v other h =
    (if length junk \<noteq> v_size other then None
     else case v_resize junk v h of
            None \<Rightarrow> None
          | Some (v', h1) \<Rightarrow> map_option (\<lambda>h2. (v', h2)) (v_copyTo other v' h1))"

definition v_copy :: "'a list \<Rightarrow> vec \<Rightarrow> 'a vec_heap \<Rightarrow> (vec \<times> 'a vec_heap) option" where
  "v_copy junk other h = v_clone junk v_null other h"

text \<open>The moving constructor takes over the block; the source keeps its pointers to it as an alias.\<close>

definition v_move :: "vec \<Rightarrow> vec \<times> vec" where
  "v_move other = (other, other\<lparr>v_data := None\<rparr>)"

definition v_explicit :: "nat option \<Rightarrow> nat option \<Rightarrow> nat \<Rightarrow> nat \<Rightarrow> vec" where
  "v_explicit data block start len = \<lparr>v_data = data, v_block = block, v_off = start, v_len = len\<rparr>"

definition v_concat :: "'a list \<Rightarrow> vec \<Rightarrow> vec \<Rightarrow> 'a vec_heap \<Rightarrow> (vec \<times> 'a vec_heap) option" where
  "v_concat junk other1 other2 h =
    (if length junk \<noteq> v_size other1 + v_size other2 then None
     else case v_new junk h of
            None \<Rightarrow> None
          | Some (v, h1) \<Rightarrow>
              (case (v_read h1 other1, v_read h1 other2) of
                 (Some xs, Some ys) \<Rightarrow>
                   (case v_write v 0 xs h1 of
                      None \<Rightarrow> None
                    | Some h2 \<Rightarrow> map_option (\<lambda>h3. (v, h3)) (v_write v (length xs) ys h2))
               | _ \<Rightarrow> None))"

text \<open>Assignment from a vector that is not constant shifts the ownership; a vector may be assigned to
  itself, and is empty then. The result is the target, the source and the heap.\<close>

definition v_assign :: "vec \<Rightarrow> vec \<Rightarrow> 'a vec_heap \<Rightarrow> (vec \<times> vec \<times> 'a vec_heap) option" where
  "v_assign v other h =
    (case v_clear v h of None \<Rightarrow> None | Some (_, h1) \<Rightarrow> Some (other, other\<lparr>v_data := None\<rparr>, h1))"

definition v_segment :: "vec \<Rightarrow> nat \<Rightarrow> nat \<Rightarrow> vec option" where
  "v_segment v start span =
    (if start + span > v_len v then None
     else Some (v_explicit None (v_block v) (v_off v + start) span))"

definition v_head :: "vec \<Rightarrow> nat \<Rightarrow> vec option" where
  "v_head v span = v_segment v 0 span"

definition v_tail :: "vec \<Rightarrow> nat \<Rightarrow> vec option" where
  "v_tail v start = (if start > v_size v then None else v_segment v start (v_size v - start))"

definition v_fill :: "'a \<Rightarrow> vec \<Rightarrow> 'a vec_heap \<Rightarrow> 'a vec_heap option" where
  "v_fill x v h = v_write v 0 (replicate (v_len v) x) h"

definition v_fill_range :: "'a \<Rightarrow> nat \<Rightarrow> nat \<Rightarrow> vec \<Rightarrow> 'a vec_heap \<Rightarrow> 'a vec_heap option" where
  "v_fill_range x start len v h = v_write v start (replicate len x) h"

definition v_index :: "vec \<Rightarrow> nat \<Rightarrow> 'a vec_heap \<Rightarrow> 'a option" where
  "v_index v i h =
    (if i \<ge> v_len v then None else case v_read h v of None \<Rightarrow> None | Some xs \<Rightarrow> Some (xs ! i))"

section \<open>Reading and writing\<close>

definition v_fits :: "'a vec_heap \<Rightarrow> vec \<Rightarrow> bool" where
  "v_fits h v \<longleftrightarrow> v_read h v \<noteq> None"

lemma v_read_length: "v_read h v = Some xs \<Longrightarrow> length xs = v_len v"
  by (auto simp: v_read_def length_slice split: option.splits if_splits)

lemma slice_blit:
  assumes "off + len \<le> length a" and "i + length ys \<le> len"
  shows "slice (blit a (off + i) ys) off len = blit (slice a off len) i ys"
proof (rule nth_equalityI)
  have l: "length (blit a (off + i) ys) = length a" using assms by (intro length_blit) simp
  have s: "length (slice a off len) = len" using assms by (simp add: length_slice)
  show e: "length (slice (blit a (off + i) ys) off len) = length (blit (slice a off len) i ys)"
    using assms l s by (simp add: length_slice length_blit)
  fix k assume "k < length (slice (blit a (off + i) ys) off len)"
  then have k: "k < len" using e s assms by (simp add: length_blit)
  show "slice (blit a (off + i) ys) off len ! k = blit (slice a off len) i ys ! k"
    using assms k l s by (simp add: nth_slice nth_blit)
qed

lemma v_write_read:
  assumes "v_read h v = Some xs" and "i + length ys \<le> length xs"
  shows "\<exists>h'. v_write v i ys h = Some h' \<and> v_read h' v = Some (blit xs i ys) \<and>
    dom (vh_blocks h') = dom (vh_blocks h) \<and> vh_next h' = vh_next h"
proof (cases "ys = []")
  case True
  then show ?thesis using assms v_read_length [OF assms(1)] by (simp add: v_write_def)
next
  case False
  have l: "v_len v = length xs" using v_read_length [OF assms(1)] by simp
  obtain b where b: "v_block v = Some b"
    using assms False l by (auto simp: v_read_def split: option.splits if_splits)
  obtain a where a: "vh_blocks h b = Some a" "v_off v + v_len v \<le> length a" "xs = slice a (v_off v) (v_len v)"
    using assms(1) b by (auto simp: v_read_def split: option.splits if_splits)
  have i: "i + length ys \<le> v_len v" using assms(2) l by simp
  have "length (blit a (v_off v + i) ys) = length a" using a(2) i by (intro length_blit) simp
  then show ?thesis
    using a b i False slice_blit [OF a(2) i] by (auto simp: v_write_def v_read_def)
qed

section \<open>Sequences of operations\<close>

text \<open>
  The vectors of a program are the entries of a list; an entry whose vector has been destroyed is
  \<open>None\<close>. Each operation names its vectors by their index, so that an operation may name the same
  vector twice.
\<close>

datatype 'a vec_op =
    VNew "'a list"
  | VCopy "'a list" nat
  | VMove nat
  | VSegment nat nat nat
  | VConcat "'a list" nat nat
  | VAssign nat nat
  | VClone "'a list" nat nat
  | VResize "'a list" nat
  | VShrink nat nat
  | VFill 'a nat
  | VCopyTo nat nat nat nat
  | VSegmentMove nat nat nat nat
  | VDestroy nat

type_synonym 'a vec_sys = "vec option list \<times> 'a vec_heap"

definition vs_get :: "vec option list \<Rightarrow> nat \<Rightarrow> vec option" where
  "vs_get vs i = (if i < length vs then vs ! i else None)"

definition vs_push :: "vec option list \<Rightarrow> (vec \<times> 'a vec_heap) option \<Rightarrow> 'a vec_sys option" where
  "vs_push vs r = map_option (\<lambda>(v, h). (vs @ [Some v], h)) r"

definition vs_put :: "vec option list \<Rightarrow> nat \<Rightarrow> (vec \<times> 'a vec_heap) option \<Rightarrow> 'a vec_sys option" where
  "vs_put vs i r = map_option (\<lambda>(v, h). (vs[i := Some v], h)) r"

fun vec_step :: "'a vec_op \<Rightarrow> 'a vec_sys \<Rightarrow> 'a vec_sys option" where
  "vec_step (VNew junk) (vs, h) = vs_push vs (v_new junk h)"
| "vec_step (VCopy junk i) (vs, h) =
     (case vs_get vs i of None \<Rightarrow> None | Some v \<Rightarrow> vs_push vs (v_copy junk v h))"
| "vec_step (VMove i) (vs, h) =
     (case vs_get vs i of
        None \<Rightarrow> None
      | Some v \<Rightarrow> Some (vs[i := Some (snd (v_move v))] @ [Some (fst (v_move v))], h))"
| "vec_step (VSegment i start span) (vs, h) =
     (case vs_get vs i of
        None \<Rightarrow> None
      | Some v \<Rightarrow> map_option (\<lambda>w. (vs @ [Some w], h)) (v_segment v start span))"
| "vec_step (VConcat junk i j) (vs, h) =
     (case (vs_get vs i, vs_get vs j) of
        (Some v, Some w) \<Rightarrow> vs_push vs (v_concat junk v w h) | _ \<Rightarrow> None)"
| "vec_step (VAssign i j) (vs, h) =
     (case (vs_get vs i, vs_get vs j) of
        (Some v, Some w) \<Rightarrow>
          if i = j then vs_put vs i (v_clear v h)
          else map_option (\<lambda>(v', w', h'). (vs[i := Some v', j := Some w'], h')) (v_assign v w h)
      | _ \<Rightarrow> None)"
| "vec_step (VClone junk i j) (vs, h) =
     (case (vs_get vs i, vs_get vs j) of
        (Some v, Some w) \<Rightarrow>
          if i = j
          then vs_put vs i (if length junk = v_size v then v_resize junk v h else None)
          else vs_put vs i (v_clone junk v w h)
      | _ \<Rightarrow> None)"
| "vec_step (VResize junk i) (vs, h) =
     (case vs_get vs i of None \<Rightarrow> None | Some v \<Rightarrow> vs_put vs i (v_resize junk v h))"
| "vec_step (VShrink n i) (vs, h) =
     (case vs_get vs i of None \<Rightarrow> None | Some v \<Rightarrow> map_option (\<lambda>w. (vs[i := Some w], h)) (v_shrink n v))"
| "vec_step (VFill x i) (vs, h) =
     (case vs_get vs i of None \<Rightarrow> None | Some v \<Rightarrow> map_option (\<lambda>h'. (vs, h')) (v_fill x v h))"
| "vec_step (VCopyTo i j start span) (vs, h) =
     (case (vs_get vs i, vs_get vs j) of
        (Some v, Some w) \<Rightarrow> map_option (\<lambda>h'. (vs, h')) (v_copyToSegment v w start span h) | _ \<Rightarrow> None)"
| "vec_step (VSegmentMove i from_pos to_pos span) (vs, h) =
     (case vs_get vs i of
        None \<Rightarrow> None | Some v \<Rightarrow> map_option (\<lambda>h'. (vs, h')) (v_segmentMove v from_pos to_pos span h))"
| "vec_step (VDestroy i) (vs, h) =
     (case vs_get vs i of None \<Rightarrow> None | Some v \<Rightarrow> map_option (\<lambda>h'. (vs[i := None], h')) (v_destroy v h))"

fun vec_run :: "'a vec_op list \<Rightarrow> 'a vec_sys \<Rightarrow> 'a vec_sys option" where
  "vec_run [] st = Some st"
| "vec_run (p # ps) st = (case vec_step p st of None \<Rightarrow> None | Some st' \<Rightarrow> vec_run ps st')"

text \<open>The operations that release a block.\<close>

fun vec_releases :: "'a vec_op \<Rightarrow> bool" where
  "vec_releases (VAssign _ _) = True"
| "vec_releases (VResize _ _) = True"
| "vec_releases (VDestroy _) = True"
| "vec_releases _ = False"

fun vec_names :: "'a vec_op \<Rightarrow> nat list" where
  "vec_names (VNew _) = []"
| "vec_names (VCopy _ i) = [i]"
| "vec_names (VMove i) = [i]"
| "vec_names (VSegment i _ _) = [i]"
| "vec_names (VConcat _ i j) = [i, j]"
| "vec_names (VAssign i j) = [i, j]"
| "vec_names (VClone _ i j) = [i, j]"
| "vec_names (VResize _ i) = [i]"
| "vec_names (VShrink _ i) = [i]"
| "vec_names (VFill _ i) = [i]"
| "vec_names (VCopyTo i j _ _) = [i, j]"
| "vec_names (VSegmentMove i _ _ _) = [i]"
| "vec_names (VDestroy i) = [i]"

section \<open>Ownership\<close>

text \<open>The blocks the vectors own, each as often as it is owned.\<close>

definition owned1 :: "vec option \<Rightarrow> nat multiset" where
  "owned1 e = (case e of None \<Rightarrow> {#} | Some v \<Rightarrow> (case v_data v of None \<Rightarrow> {#} | Some b \<Rightarrow> {#b#}))"

definition owned :: "vec option list \<Rightarrow> nat multiset" where
  "owned vs = (\<Sum>e\<leftarrow>vs. owned1 e)"

definition own :: "nat multiset \<Rightarrow> 'a vec_heap \<Rightarrow> bool" where
  "own M h \<longleftrightarrow>
    finite (dom (vh_blocks h)) \<and> (\<forall>b \<in> dom (vh_blocks h). b < vh_next h) \<and> M = mset_set (dom (vh_blocks h))"

definition vec_owned :: "'a vec_sys \<Rightarrow> bool" where
  "vec_owned st \<longleftrightarrow> own (owned (fst st)) (snd st)"

lemma owned_simps [simp]:
  "owned [] = {#}" "owned (e # vs) = owned1 e + owned vs" "owned (vs @ ws) = owned vs + owned ws"
  by (simp_all add: owned_def)

lemma owned_update: "i < length vs \<Longrightarrow> owned (vs[i := e]) + owned1 (vs ! i) = owned vs + owned1 e"
  by (induction vs arbitrary: i) (auto simp: ac_simps split: nat.splits)

lemma owned_update_same: "i < length vs \<Longrightarrow> owned1 e = owned1 (vs ! i) \<Longrightarrow> owned (vs[i := e]) = owned vs"
  using owned_update [of i vs e] by simp

named_theorems own_intros \<open>operations that keep the ownership\<close>

lemma own_alloc: "own M h \<Longrightarrow> heap_alloc xs h = (b, h') \<Longrightarrow> own (add_mset b M) h'"
proof -
  assume o: "own M h" and a: "heap_alloc xs h = (b, h')"
  have "vh_next h \<notin> dom (vh_blocks h)" using o by (auto simp: own_def simp del: domIff)
  then have "mset_set (insert (vh_next h) (dom (vh_blocks h))) = add_mset b M"
    using o a by (simp add: own_def heap_alloc_def del: domIff)
  then show ?thesis using o a by (auto simp: own_def heap_alloc_def less_Suc_eq)
qed

lemma own_free: "own (add_mset b M) h \<Longrightarrow> \<exists>h'. heap_free (Some b) h = Some h' \<and> own M h'"
proof -
  assume o: "own (add_mset b M) h"
  then have f: "finite (dom (vh_blocks h))" and e: "add_mset b M = mset_set (dom (vh_blocks h))"
    by (simp_all add: own_def)
  have "b \<in># mset_set (dom (vh_blocks h))" by (simp flip: e)
  then have b: "b \<in> dom (vh_blocks h)" using f by simp
  have "M = mset_set (dom (vh_blocks h)) - {#b#}" by (simp flip: e)
  then have "M = mset_set (dom (vh_blocks h) - {b})" using f b by (simp add: mset_set_Diff)
  then show ?thesis using b o by (auto simp: own_def heap_free_def domIff dom_fun_upd)
qed

lemma own_blocks: "dom (vh_blocks h') = dom (vh_blocks h) \<Longrightarrow> vh_next h' = vh_next h \<Longrightarrow> own M h \<Longrightarrow> own M h'"
  by (simp add: own_def)

lemma own_write [own_intros]: "own M h \<Longrightarrow> v_write v i ys h = Some h' \<Longrightarrow> own M h'"
  by (rule own_blocks) (auto simp: v_write_def split: if_splits option.splits)

lemma own_copy_loop [own_intros]: "own M h \<Longrightarrow> v_copy_loop n i v w k h = Some h' \<Longrightarrow> own M h'"
  by (induction n i v w k h rule: v_copy_loop.induct) (auto split: option.splits if_splits intro: own_intros)

lemma own_copyToSegment [own_intros]: "own M h \<Longrightarrow> v_copyToSegment v w k n h = Some h' \<Longrightarrow> own M h'"
  by (auto simp: v_copyToSegment_def split: if_splits intro: own_intros)

lemma own_segmentMove [own_intros]: "own M h \<Longrightarrow> v_segmentMove v i j n h = Some h' \<Longrightarrow> own M h'"
  by (auto simp: v_segmentMove_def split: if_splits option.splits intro: own_intros)

lemma own_fill [own_intros]: "own M h \<Longrightarrow> v_fill x v h = Some h' \<Longrightarrow> own M h'"
  by (auto simp: v_fill_def intro: own_intros)

lemma owned1_simps [simp]:
  "owned1 None = {#}" "v_data v = None \<Longrightarrow> owned1 (Some v) = {#}" "v_data v = Some b \<Longrightarrow> owned1 (Some v) = {#b#}"
  by (simp_all add: owned1_def)

lemma own_resize:
  assumes "own (owned1 (Some v) + M) h"
  shows "\<exists>v' h'. v_resize junk v h = Some (v', h') \<and> own (owned1 (Some v') + M) h' \<and>
    (junk = [] \<longrightarrow> v_data v' = None)"
proof -
  obtain h1 where h1: "heap_free (v_data v) h = Some h1" "own M h1"
  proof (cases "v_data v")
    case None
    then show ?thesis using assms that [of h] by (simp add: heap_free_def)
  next
    case (Some b)
    then show ?thesis using assms own_free [of b M h] that by auto
  qed
  show ?thesis
    using h1 own_alloc [OF h1(2)]
    by (cases "heap_alloc junk h1") (auto simp: v_resize_def v_null_def)
qed

lemma own_new: "own M h \<Longrightarrow> \<exists>v h'. v_new junk h = Some (v, h') \<and> own (owned1 (Some v) + M) h'"
  using own_resize [of v_null M h junk] by (auto simp: v_new_def v_null_def)

lemma own_clone:
  assumes "own (owned1 (Some v) + M) h" and "v_clone junk v w h = Some (v', h')"
  shows "own (owned1 (Some v') + M) h'"
  using assms own_resize [OF assms(1), of junk]
  by (auto simp: v_clone_def v_copyTo_def split: if_splits option.splits prod.splits intro: own_intros)

lemma own_concat:
  assumes "own M h" and "v_concat junk w1 w2 h = Some (v, h')"
  shows "own (owned1 (Some v) + M) h'"
  using assms own_new [OF assms(1), of junk]
  by (auto simp: v_concat_def split: if_splits option.splits prod.splits intro: own_intros)

text \<open>The other owners, when the entry at one index changes.\<close>

lemma owned_others:
  assumes "vs_get vs i = Some v"
  shows "owned vs = owned1 (Some v) + owned (vs[i := None])"
    and "owned (vs[i := e]) = owned1 e + owned (vs[i := None])"
proof -
  have i: "i < length vs" "vs ! i = Some v" using assms by (auto simp: vs_get_def split: if_splits)
  show "owned vs = owned1 (Some v) + owned (vs[i := None])"
    using owned_update [OF i(1), of None] i(2) by (simp add: add.commute)
  show "owned (vs[i := e]) = owned1 e + owned (vs[i := None])"
    using owned_update [of i "vs[i := None]" e] i by simp
qed

lemma vs_get_owned_same:
  "vs_get vs i = Some v \<Longrightarrow> v_data w = v_data v \<Longrightarrow> owned (vs[i := Some w]) = owned vs"
  by (intro owned_update_same) (auto simp: vs_get_def owned1_def split: if_splits)

lemma own_put_resize:
  assumes "own (owned vs) h" and "vs_get vs i = Some v"
  shows "\<exists>v' h'. v_resize junk v h = Some (v', h') \<and> own (owned (vs[i := Some v'])) h' \<and>
    (junk = [] \<longrightarrow> v_data v' = None)"
  using own_resize [of v "owned (vs[i := None])" h junk] assms(1)
  by (metis owned_others [OF assms(2)])

lemma own_assign:
  assumes o: "own (owned vs) h" and i: "vs_get vs i = Some v" and j: "vs_get vs j = Some w" and "i \<noteq> j"
  shows "\<exists>v' w' h'. v_assign v w h = Some (v', w', h') \<and> own (owned (vs[i := Some v', j := Some w'])) h'"
proof -
  obtain v' h' where r: "v_resize [] v h = Some (v', h')" "own (owned (vs[i := Some v'])) h'" "v_data v' = None"
    using own_put_resize [OF o i, of "[]"] by auto
  let ?N = "vs[i := None]"
  have j': "vs_get ?N j = Some w" using j \<open>i \<noteq> j\<close> by (auto simp: vs_get_def split: if_splits)
  have ji: "vs_get (?N[j := Some (w\<lparr>v_data := None\<rparr>)]) j = Some (w\<lparr>v_data := None\<rparr>)"
    using j by (auto simp: vs_get_def split: if_splits)
  have l: "i < length vs" using i by (simp add: vs_get_def split: if_splits)
  have "owned (vs[i := Some w, j := Some (w\<lparr>v_data := None\<rparr>)]) = owned1 (Some w) + owned (?N[j := None])"
  proof -
    have "owned (vs[i := Some w, j := Some (w\<lparr>v_data := None\<rparr>)]) =
      owned (vs[j := Some (w\<lparr>v_data := None\<rparr>), i := Some w])" using \<open>i \<noteq> j\<close> by (simp add: list_update_swap)
    also have "\<dots> = owned1 (Some w) + owned (vs[j := Some (w\<lparr>v_data := None\<rparr>), i := None])"
      using i \<open>i \<noteq> j\<close> by (intro owned_others(2) [where v = v]) (auto simp: vs_get_def split: if_splits)
    also have "vs[j := Some (w\<lparr>v_data := None\<rparr>), i := None] = ?N[j := Some (w\<lparr>v_data := None\<rparr>)]"
      using \<open>i \<noteq> j\<close> by (simp add: list_update_swap)
    also have "owned (?N[j := Some (w\<lparr>v_data := None\<rparr>)]) = owned (?N[j := None])"
      using owned_others(2) [OF j', of "Some (w\<lparr>v_data := None\<rparr>)"] by simp
    finally show ?thesis .
  qed
  also have "\<dots> = owned ?N" using owned_others(1) [OF j'] by simp
  also have "\<dots> = owned (vs[i := Some v'])" using owned_others(2) [OF i, of "Some v'"] r(3) by simp
  finally show ?thesis using r by (simp add: v_assign_def v_clear_def)
qed

lemma vec_step_owned:
  assumes "own (owned vs) h" and "vec_step p (vs, h) = Some (vs', h')"
  shows "own (owned vs') h'"
proof (cases p)
  case (VNew junk)
  with assms show ?thesis using own_new [of "owned vs" h junk] by (auto simp: vs_push_def add.commute)
next
  case (VCopy junk i)
  with assms show ?thesis
    using own_clone [of v_null "owned vs" h junk]
    by (auto simp: vs_push_def v_copy_def v_null_def add.commute split: option.splits)
next
  case (VMove i)
  then obtain v where v: "vs_get vs i = Some v" and r: "vs' = vs[i := Some (v\<lparr>v_data := None\<rparr>)] @ [Some v]" "h' = h"
    using assms by (auto simp: v_move_def split: option.splits)
  have "owned vs' = owned vs"
    using owned_others(1) [OF v] owned_others(2) [OF v, of "Some (v\<lparr>v_data := None\<rparr>)"] r
    by (simp add: add.commute)
  then show ?thesis using assms r by simp
next
  case (VSegment i start span)
  with assms show ?thesis
    by (auto simp: v_segment_def v_explicit_def split: option.splits if_splits)
next
  case (VConcat junk i j)
  with assms show ?thesis
    using own_concat [of "owned vs" h junk] by (auto simp: vs_push_def add.commute split: option.splits)
next
  case (VAssign i j)
  with assms show ?thesis
    using own_put_resize [of vs h i _ "[]"] own_assign [of vs h i _ j]
    by (fastforce simp: vs_put_def v_clear_def split: option.splits if_splits)
next
  case (VClone junk i j)
  with assms show ?thesis
  proof (cases "i = j")
    case True
    with assms VClone show ?thesis
      using own_put_resize [of vs h i _ junk] by (fastforce simp: vs_put_def split: option.splits if_splits)
  next
    case False
    with assms VClone obtain v w v' where v: "vs_get vs i = Some v" "v_clone junk v w h = Some (v', h')"
      "vs' = vs[i := Some v']" by (auto simp: vs_put_def split: option.splits)
    then show ?thesis
      using own_clone [of v "owned (vs[i := None])" h junk w v' h'] assms(1)
        owned_others(1) [OF v(1)] owned_others(2) [OF v(1), of "Some v'"] by simp
  qed
next
  case (VResize junk i)
  with assms show ?thesis
    using own_put_resize [of vs h i _ junk] by (fastforce simp: vs_put_def split: option.splits)
next
  case (VShrink n i)
  with assms show ?thesis by (auto simp: v_shrink_def vs_get_owned_same split: option.splits if_splits)
next
  case (VDestroy i)
  with assms show ?thesis
  proof -
    obtain v v' where v: "vs_get vs i = Some v" "v_resize [] v h = Some (v', h')" "vs' = vs[i := None]"
      using assms VDestroy by (auto simp: v_destroy_def v_clear_def split: option.splits)
    then show ?thesis
      using own_put_resize [OF assms(1) v(1), of "[]"] owned_others(2) [OF v(1), of "Some v'"] by auto
  qed
qed (use assms in \<open>auto split: option.splits intro: own_intros\<close>)

lemma vec_run_owned: "own (owned (fst st)) (snd st) \<Longrightarrow> vec_run ps st = Some st' \<Longrightarrow> own (owned (fst st')) (snd st')"
proof (induction ps arbitrary: st)
  case (Cons p ps)
  obtain vs h where st: "st = (vs, h)" by (cases st)
  obtain st1 where st1: "vec_step p (vs, h) = Some st1" "vec_run ps st1 = Some st'"
    using Cons.prems(2) st by (auto split: option.splits)
  have "own (owned (fst st1)) (snd st1)"
    using vec_step_owned [of vs h p "fst st1" "snd st1"] Cons.prems(1) st st1(1) by simp
  then show ?case using Cons.IH st1(2) by blast
qed simp

lemma vec_run_heap_new: "vec_run ps ([], heap_new) = Some st \<Longrightarrow> own (owned (fst st)) (snd st)"
  by (rule vec_run_owned) (simp_all add: own_def heap_new_def)

lemma own_count: "own M h \<Longrightarrow> count M b = (if vh_blocks h b = None then 0 else 1)"
  by (auto simp: own_def count_mset_set')

lemma owned_all_destroyed: "\<forall>i < length vs. vs ! i = None \<Longrightarrow> owned vs = {#}"
proof (induction vs)
  case (Cons e vs)
  from Cons.prems have "e = None" "\<forall>i < length vs. vs ! i = None" by (force dest: spec [of _ 0], fastforce)
  then show ?case using Cons.IH by simp
qed simp

lemma vec_release_total:
  assumes o: "own (owned vs) h" and r: "vec_releases p" and n: "\<forall>i \<in> set (vec_names p). vs_get vs i \<noteq> None"
  shows "vec_step p (vs, h) \<noteq> None"
proof (cases p)
  case (VAssign i j)
  obtain v w where v: "vs_get vs i = Some v" "vs_get vs j = Some w" using n VAssign by auto
  show ?thesis
    using own_put_resize [OF o v(1), of "[]"] own_assign [OF o v] v VAssign
    by (cases "i = j") (auto simp: vs_put_def v_clear_def)
next
  case (VResize junk i)
  obtain v where v: "vs_get vs i = Some v" using n VResize by auto
  show ?thesis using own_put_resize [OF o v, of junk] v VResize by (auto simp: vs_put_def)
next
  case (VDestroy i)
  obtain v where v: "vs_get vs i = Some v" using n VDestroy by auto
  show ?thesis using own_put_resize [OF o v, of "[]"] v VDestroy by (auto simp: v_destroy_def v_clear_def)
qed (use r in simp_all)

text \<open>C32. After every sequence of operations that ran from an empty program, each live block has exactly
  one owner among the vectors and each owner a live block. So whatever the aliases, resizing,
  assigning to and destroying a vector never deletes a block twice, and when all vectors are
  destroyed no block is left.\<close>

theorem vec_ownership:
  assumes "vec_run ps ([], heap_new) = Some (vs, h)"
  shows "(\<forall>b. count (owned vs) b = (if vh_blocks h b = None then 0 else 1)) \<and>
    (\<forall>p. vec_releases p \<longrightarrow> list_all (\<lambda>i. vs_get vs i \<noteq> None) (vec_names p) \<longrightarrow>
      vec_step p (vs, h) \<noteq> None) \<and>
    (list_all (\<lambda>e. e = None) vs \<longrightarrow> vh_blocks h = (\<lambda>_. None))"
proof (intro conjI allI impI)
  have o: "own (owned vs) h" using vec_run_heap_new [OF assms] by simp
  show "count (owned vs) b = (if vh_blocks h b = None then 0 else 1)" for b using o by (rule own_count)
  show "vec_step p (vs, h) \<noteq> None"
    if "vec_releases p" "list_all (\<lambda>i. vs_get vs i \<noteq> None) (vec_names p)" for p
    using vec_release_total [OF o that(1)] that(2) by (simp add: list_all_iff)
  show "vh_blocks h = (\<lambda>_. None)" if "list_all (\<lambda>e. e = None) vs"
  proof
    fix b
    have "owned vs = {#}" using that by (intro owned_all_destroyed) (simp add: list_all_length)
    then show "vh_blocks h b = None" using own_count [OF o, of b] by (simp split: if_splits)
  qed
qed

theorem vec_ownership_witness:
  "vec_run [VNew [7 :: int, 8], VSegment 0 1 1, VMove 0] ([], heap_new) =
    Some ([Some \<lparr>v_data = None, v_block = Some 0, v_off = 0, v_len = 2\<rparr>,
       Some \<lparr>v_data = None, v_block = Some 0, v_off = 1, v_len = 1\<rparr>,
       Some \<lparr>v_data = Some 0, v_block = Some 0, v_off = 0, v_len = 2\<rparr>],
      \<lparr>vh_blocks = [0 \<mapsto> [7, 8]], vh_next = 1\<rparr>) \<and>
   vec_step (VDestroy 2)
     ([Some \<lparr>v_data = None, v_block = Some 0, v_off = 0, v_len = 2\<rparr>,
       Some \<lparr>v_data = None, v_block = Some 0, v_off = 1, v_len = 1\<rparr>,
       Some \<lparr>v_data = Some 0, v_block = Some 0, v_off = 0, v_len = 2\<rparr>],
      \<lparr>vh_blocks = [0 \<mapsto> [7 :: int, 8]], vh_next = 1\<rparr>) \<noteq> None"
proof -
  have r: "vec_run [VNew [7 :: int, 8], VSegment 0 1 1, VMove 0] ([], heap_new) =
    Some ([Some \<lparr>v_data = None, v_block = Some 0, v_off = 0, v_len = 2\<rparr>,
       Some \<lparr>v_data = None, v_block = Some 0, v_off = 1, v_len = 1\<rparr>,
       Some \<lparr>v_data = Some 0, v_block = Some 0, v_off = 0, v_len = 2\<rparr>],
      \<lparr>vh_blocks = [0 \<mapsto> [7, 8]], vh_next = 1\<rparr>)"
    by (simp add: v_new_def v_resize_def v_null_def heap_free_def heap_alloc_def heap_new_def vs_push_def
        vs_get_def v_segment_def v_explicit_def v_move_def)
  show ?thesis
    using r vec_ownership [OF r, THEN conjunct2, THEN conjunct1, rule_format, of "VDestroy 2"]
    by (simp add: vs_get_def)
qed

text \<open>A copy shows what its source shows, in a block of its own: what is written to the copy later
  leaves the source as it is.\<close>

lemma v_read_other_block: "v_block v \<noteq> v_block w \<Longrightarrow> v_write v i ys h = Some h' \<Longrightarrow> v_read h' w = v_read h w"
  by (auto simp: v_write_def v_read_def split: if_splits option.splits)

lemma blit_snoc: "n < length a \<Longrightarrow> n < length xs \<Longrightarrow>
  blit (blit a 0 (take n xs)) n [xs ! n] = blit a 0 (take (Suc n) xs)"
  by (rule nth_equalityI) (auto simp: length_blit nth_blit less_Suc_eq nth_append take_Suc_conv_app_nth)

lemma v_copy_loop_disjoint:
  assumes "v_read h v = Some xs" and "v_read h w = Some ys" and "v_block v \<noteq> v_block w"
    and "k + i + n \<le> length ys" and "i + n \<le> length xs"
  shows "\<exists>h'. v_copy_loop n i v w k h = Some h' \<and> v_read h' v = Some xs \<and>
    v_read h' w = Some (blit ys (k + i) (slice xs i n))"
  using assms
proof (induction n arbitrary: i h ys)
  case (Suc n)
  obtain h1 where h1: "v_write w (k + i) [xs ! i] h = Some h1" "v_read h1 w = Some (blit ys (k + i) [xs ! i])"
    using v_write_read [OF Suc.prems(2), of "k + i" "[xs ! i]"] Suc.prems(4) by auto
  have x: "v_read h1 v = Some xs" using v_read_other_block [OF _ h1(1)] Suc.prems by metis
  have e: "blit (blit ys (k + i) [xs ! i]) (k + (i + 1)) (slice xs (i + 1) n) = blit ys (k + i) (slice xs i (Suc n))"
    using Suc.prems(4,5)
    by (intro nth_equalityI) (auto simp: blit nth_Cons' Suc_diff_Suc)
  show ?case
    using Suc.IH [OF x h1(2) Suc.prems(3), of "i + 1"] Suc.prems h1(1) e by (auto simp: length_blit)
qed (auto simp: slice_def)

lemma v_copy_contents:
  assumes "v_read h w = Some xs" and "length junk = length xs" and "own M h"
  shows "\<exists>v h'. v_copy junk w h = Some (v, h') \<and> v_read h' v = Some xs \<and> v_read h' w = Some xs \<and>
    (xs \<noteq> [] \<longrightarrow> v_block v \<noteq> v_block w)"
proof (cases "junk = []")
  case True
  then show ?thesis
    using assms v_read_length [OF assms(1)]
    by (auto simp: v_copy_def v_clone_def v_resize_def v_null_def heap_free_def v_size_def v_copyTo_def
        v_copyToSegment_def v_read_def)
next
  case False
  let ?v = "\<lparr>v_data = Some (vh_next h), v_block = Some (vh_next h), v_off = 0, v_len = length junk\<rparr>"
  let ?h = "h\<lparr>vh_blocks := (vh_blocks h)(vh_next h \<mapsto> junk), vh_next := vh_next h + 1\<rparr>"
  have l: "v_len w = length junk" using v_read_length [OF assms(1)] assms(2) by simp
  have b: "v_block w \<noteq> Some (vh_next h)" "v_read ?h w = Some xs"
    using assms(1,3) False l
    by (auto simp: v_read_def own_def split: option.splits if_splits)
  have v: "v_read ?h ?v = Some junk" by (simp add: v_read_def slice_def)
  have "slice xs 0 (length xs) = xs" "blit junk 0 xs = xs" using assms(2) by (simp_all add: slice_def blit_def)
  then show ?thesis
    using v_copy_loop_disjoint [OF b(2) v, of 0 0 "length junk"] b(1) assms(2) False l
    by (auto simp: v_copy_def v_clone_def v_resize_def v_null_def heap_free_def heap_alloc_def v_size_def
        v_copyTo_def v_copyToSegment_def)
qed

text \<open>A copy of a readable vector shows the same elements, and writing to the copy leaves the source
  as it is, although aliases of the source would show a write to it.\<close>

theorem v_copy_independent:
  assumes "vec_run ps ([], heap_new) = Some (vs, h)" and "vs_get vs i = Some w" and "v_read h w = Some xs"
    and "length junk = length xs" and "k + length ys \<le> length xs"
  shows "\<exists>v h1 h2. v_copy junk w h = Some (v, h1) \<and> v_read h1 v = Some xs \<and>
    v_write v k ys h1 = Some h2 \<and> v_read h2 v = Some (blit xs k ys) \<and> v_read h2 w = Some xs"
proof -
  have o: "own (owned vs) h" using vec_run_heap_new [OF assms(1)] by simp
  obtain v h1 where v: "v_copy junk w h = Some (v, h1)" "v_read h1 v = Some xs" "v_read h1 w = Some xs"
    "xs \<noteq> [] \<longrightarrow> v_block v \<noteq> v_block w" using v_copy_contents [OF assms(3,4) o] by blast
  obtain h2 where h2: "v_write v k ys h1 = Some h2" "v_read h2 v = Some (blit xs k ys)"
    using v_write_read [OF v(2) assms(5)] by blast
  have "v_read h2 w = Some xs"
  proof (cases "xs = []")
    case True
    then show ?thesis using h2(1) v(2,3) assms(5) by (simp add: v_write_def split: if_splits)
  next
    case False
    then show ?thesis using v_read_other_block [OF _ h2(1)] v by metis
  qed
  then show ?thesis using v h2 by blast
qed

theorem v_copy_independent_witness:
  "\<exists>v h1 h2. v_copy [0, 0 :: int] \<lparr>v_data = Some 0, v_block = Some 0, v_off = 0, v_len = 2\<rparr>
       \<lparr>vh_blocks = [0 \<mapsto> [7, 8]], vh_next = 1\<rparr> = Some (v, h1) \<and> v_read h1 v = Some [7, 8] \<and>
     v_write v 1 [5] h1 = Some h2 \<and> v_read h2 v = Some [7, 5] \<and>
     v_read h2 \<lparr>v_data = Some 0, v_block = Some 0, v_off = 0, v_len = 2\<rparr> = Some [7, 8]"
proof -
  let ?w = "\<lparr>v_data = Some 0, v_block = Some 0, v_off = 0, v_len = 2\<rparr>"
  have r: "vec_run [VNew [7 :: int, 8]] ([], heap_new) = Some ([Some ?w], \<lparr>vh_blocks = [0 \<mapsto> [7, 8]], vh_next = 1\<rparr>)"
    by (simp add: v_new_def v_resize_def v_null_def heap_free_def heap_alloc_def heap_new_def vs_push_def)
  have b: "blit [7 :: int, 8] 1 [5] = [7, 5]" by (simp add: blit_def)
  have w: "vs_get [Some ?w] 0 = Some ?w" "v_read \<lparr>vh_blocks = [0 \<mapsto> [7 :: int, 8]], vh_next = 1\<rparr> ?w = Some [7, 8]"
    by (simp_all add: vs_get_def v_read_def slice_def)
  show ?thesis
    using v_copy_independent [OF r w, of "[0, 0]" 1 "[5]"] by (simp add: b del: One_nat_def)
qed

end
