(* ===== verification/BitVector.thy ===== *)
theory BitVector
  imports Complex_Main Prelude "HOL-Library.Word"
begin

unbundle bit_operations_syntax

text \<open>
  Bit vectors and soft bit vectors (\<^verbatim>\<open>CommonLibs/BitVector.h\<close>, \<^verbatim>\<open>BitVector.cpp\<close>): fields of up to 64 bits,
  packing into bytes, hexadecimal dumps, polynomials over GF(2), slicing of soft bits.

  A bit vector shows a list of characters (\<open>int\<close>, -128 to 127), of which only the lowest bit counts;
  the ownership of the storage is the subject of \<open>Vectors\<close>. A failed assertion and an access outside
  the vector are \<open>None\<close>. Floats are real numbers.
\<close>

type_synonym bitvec = "int list"

section \<open>Operations\<close>

definition applyPoly :: "64 word \<Rightarrow> 64 word \<Rightarrow> nat \<Rightarrow> 32 word" where
  "applyPoly val poly order =
    (let prod = val AND poly
     in fold (\<lambda>i s. s XOR ucast (drop_bit i prod)) [1..<order] (ucast prod) AND 1)"

text \<open>The constructor from a string stores the accumulated value, not the bit.\<close>

definition char_of_u32 :: "32 word \<Rightarrow> int" where
  "char_of_u32 w = sint (ucast w :: 8 word)"

fun bv_string_loop :: "32 word \<Rightarrow> string \<Rightarrow> bitvec" where
  "bv_string_loop accum [] = []"
| "bv_string_loop accum (c # cs) =
     (let a = push_bit 1 accum; a' = (if c = CHR ''1'' then a OR 1 else a)
      in char_of_u32 a' # bv_string_loop a' cs)"

definition bv_of_string :: "string \<Rightarrow> bitvec" where
  "bv_of_string s = bv_string_loop 0 s"

definition bv_bit :: "bitvec \<Rightarrow> nat \<Rightarrow> bool option" where
  "bv_bit bs i = (if i < length bs then Some (odd (bs ! i)) else None)"

definition bv_segment :: "bitvec \<Rightarrow> nat \<Rightarrow> nat \<Rightarrow> bitvec option" where
  "bv_segment bs start len = (if start + len \<le> length bs then Some (slice bs start len) else None)"

definition bv_zero :: "bitvec \<Rightarrow> bitvec" where
  "bv_zero bs = replicate (length bs) 0"

definition peek_step :: "64 word \<Rightarrow> int \<Rightarrow> 64 word" where
  "peek_step accum c = push_bit 1 accum OR word_of_int (c mod 2)"

definition peekField :: "nat \<Rightarrow> nat \<Rightarrow> bitvec \<Rightarrow> 64 word option" where
  "peekField readIndex len bs =
    (if readIndex + len \<le> length bs then Some (foldl peek_step 0 (slice bs readIndex len)) else None)"

definition peekFieldReversed :: "nat \<Rightarrow> nat \<Rightarrow> bitvec \<Rightarrow> 64 word option" where
  "peekFieldReversed readIndex len bs =
    (if readIndex + len \<le> length bs then Some (foldl peek_step 0 (rev (slice bs readIndex len))) else None)"

definition readField :: "nat \<Rightarrow> nat \<Rightarrow> bitvec \<Rightarrow> (64 word \<times> nat) option" where
  "readField readIndex len bs = map_option (\<lambda>v. (v, readIndex + len)) (peekField readIndex len bs)"

definition readFieldReversed :: "nat \<Rightarrow> nat \<Rightarrow> bitvec \<Rightarrow> (64 word \<times> nat) option" where
  "readFieldReversed readIndex len bs =
    map_option (\<lambda>v. (v, readIndex + len)) (peekFieldReversed readIndex len bs)"

fun fill_loop :: "nat \<Rightarrow> nat \<Rightarrow> 64 word \<Rightarrow> bitvec \<Rightarrow> bitvec" where
  "fill_loop base 0 v bs = bs"
| "fill_loop base (Suc n) v bs = fill_loop base n (drop_bit 1 v) (bs[base + n := uint (v AND 1)])"

definition fillField :: "nat \<Rightarrow> 64 word \<Rightarrow> nat \<Rightarrow> bitvec \<Rightarrow> bitvec option" where
  "fillField writeIndex v len bs =
    (if writeIndex + len \<le> length bs then Some (fill_loop writeIndex len v bs) else None)"

fun fill_loop_rev :: "nat \<Rightarrow> nat \<Rightarrow> 64 word \<Rightarrow> bitvec \<Rightarrow> bitvec" where
  "fill_loop_rev p 0 v bs = bs"
| "fill_loop_rev p (Suc n) v bs = fill_loop_rev (p + 1) n (drop_bit 1 v) (bs[p := uint (v AND 1)])"

definition fillFieldReversed :: "nat \<Rightarrow> 64 word \<Rightarrow> nat \<Rightarrow> bitvec \<Rightarrow> bitvec option" where
  "fillFieldReversed writeIndex v len bs =
    (if writeIndex + len \<le> length bs then Some (fill_loop_rev writeIndex len v bs) else None)"

definition writeField :: "nat \<Rightarrow> 64 word \<Rightarrow> nat \<Rightarrow> bitvec \<Rightarrow> (bitvec \<times> nat) option" where
  "writeField writeIndex v len bs = map_option (\<lambda>bs'. (bs', writeIndex + len)) (fillField writeIndex v len bs)"

definition writeFieldReversed :: "nat \<Rightarrow> 64 word \<Rightarrow> nat \<Rightarrow> bitvec \<Rightarrow> (bitvec \<times> nat) option" where
  "writeFieldReversed writeIndex v len bs =
    map_option (\<lambda>bs'. (bs', writeIndex + len)) (fillFieldReversed writeIndex v len bs)"

definition write0 :: "nat \<Rightarrow> bitvec \<Rightarrow> (bitvec \<times> nat) option" where
  "write0 writeIndex bs = writeField writeIndex 0 1 bs"

definition write1 :: "nat \<Rightarrow> bitvec \<Rightarrow> (bitvec \<times> nat) option" where
  "write1 writeIndex bs = writeField writeIndex 1 1 bs"

definition bv_invert :: "bitvec \<Rightarrow> bitvec" where
  "bv_invert bs = map (\<lambda>c. - c - 1) bs"

definition reverse8 :: "bitvec \<Rightarrow> bitvec option" where
  "reverse8 bs =
    (if length bs < 8 then None
     else Some ([bs ! 7, bs ! 6, bs ! 5, bs ! 4, bs ! 3, bs ! 2, bs ! 1, bs ! 0] @ drop 8 bs))"

fun lsb8msb_loop :: "nat \<Rightarrow> nat \<Rightarrow> bitvec \<Rightarrow> bitvec option" where
  "lsb8msb_loop 0 i bs = Some bs"
| "lsb8msb_loop (Suc n) i bs =
     (case bv_segment bs i 8 of
        None \<Rightarrow> None
      | Some seg \<Rightarrow>
          (case reverse8 seg of None \<Rightarrow> None | Some seg' \<Rightarrow> lsb8msb_loop n (i + 8) (blit bs i seg')))"

definition LSB8MSB :: "bitvec \<Rightarrow> bitvec option" where
  "LSB8MSB bs = (if length bs < 8 then Some bs else lsb8msb_loop (length bs div 8) 0 bs)"

definition bv_sum :: "bitvec \<Rightarrow> int" where
  "bv_sum bs = foldl (\<lambda>s c. (s + c mod 2) mod 2 ^ 32) 0 bs"

fun bv_map :: "nat list \<Rightarrow> nat \<Rightarrow> bitvec \<Rightarrow> bitvec \<Rightarrow> bitvec option" where
  "bv_map [] i src dest = Some dest"
| "bv_map (m # ms) i src dest =
     (if i < length dest \<and> m < length src then bv_map ms (i + 1) src (dest[i := src ! m]) else None)"

fun bv_unmap :: "nat list \<Rightarrow> nat \<Rightarrow> bitvec \<Rightarrow> bitvec \<Rightarrow> bitvec option" where
  "bv_unmap [] i src dest = Some dest"
| "bv_unmap (m # ms) i src dest =
     (if i < length src \<and> m < length dest then bv_unmap ms (i + 1) src (dest[m := src ! i]) else None)"

definition bv_print :: "bitvec \<Rightarrow> string" where
  "bv_print bs = map (\<lambda>c. if odd c then CHR ''1'' else CHR ''0'') bs"

text \<open>\<open>pack\<close> and \<open>unpack\<close>, most significant bit first; a byte is an \<open>8 word\<close>.\<close>

fun pack_loop :: "nat \<Rightarrow> nat \<Rightarrow> bitvec \<Rightarrow> 8 word list \<Rightarrow> 8 word list option" where
  "pack_loop i 0 bs targ = Some targ"
| "pack_loop i (Suc n) bs targ =
     (case peekField (i * 8) 8 bs of
        None \<Rightarrow> None
      | Some v \<Rightarrow> if i < length targ then pack_loop (i + 1) n bs (targ[i := ucast v]) else None)"

definition bv_pack :: "bitvec \<Rightarrow> 8 word list \<Rightarrow> 8 word list option" where
  "bv_pack bs targ =
    (let nbytes = length bs div 8; whole = nbytes * 8; rest = length bs - whole
     in case pack_loop 0 nbytes bs targ of
          None \<Rightarrow> None
        | Some targ1 \<Rightarrow>
            if rest = 0 then Some targ1
            else case peekField whole rest bs of
                   None \<Rightarrow> None
                 | Some v \<Rightarrow>
                     if nbytes < length targ1 then Some (targ1[nbytes := ucast (push_bit (8 - rest) v)])
                     else None)"

fun unpack_loop :: "nat \<Rightarrow> nat \<Rightarrow> 8 word list \<Rightarrow> bitvec \<Rightarrow> bitvec option" where
  "unpack_loop i 0 src bs = Some bs"
| "unpack_loop i (Suc n) src bs =
     (if i < length src
      then (case fillField (i * 8) (ucast (src ! i)) 8 bs of
              None \<Rightarrow> None | Some bs' \<Rightarrow> unpack_loop (i + 1) n src bs')
      else None)"

definition bv_unpack :: "8 word list \<Rightarrow> bitvec \<Rightarrow> bitvec option" where
  "bv_unpack src bs =
    (let nbytes = length bs div 8; whole = nbytes * 8; rest = length bs - whole
     in case unpack_loop 0 nbytes src bs of
          None \<Rightarrow> None
        | Some bs1 \<Rightarrow>
            if rest = 0 then Some bs1
            else if nbytes < length src
            then fillField whole (ucast (drop_bit (8 - rest) (src ! nbytes))) rest bs1
            else None)"

text \<open>\<open>hex\<close> prints the whole groups of four bits; \<open>unhex\<close> reads with \<open>sscanf(src + i, "%1x")\<close>, which
  skips white space, and tells whether it succeeded. The vector keeps what was written before an
  error.\<close>

definition hex_digit :: "nat \<Rightarrow> char" where
  "hex_digit n = ''0123456789abcdef'' ! n"

fun hex_loop :: "nat \<Rightarrow> nat \<Rightarrow> bitvec \<Rightarrow> string option" where
  "hex_loop 0 wp bs = Some []"
| "hex_loop (Suc n) wp bs =
     (case readField wp 4 bs of
        None \<Rightarrow> None
      | Some (v, wp') \<Rightarrow> map_option ((#) (hex_digit (unat v))) (hex_loop n wp' bs))"

definition hexstr :: "bitvec \<Rightarrow> string option" where
  "hexstr bs = hex_loop (length bs div 4) 0 bs"

definition hex_value :: "char \<Rightarrow> nat option" where
  "hex_value c =
    (let n = (of_char c :: nat)
     in if 48 \<le> n \<and> n \<le> 57 then Some (n - 48)
        else if 97 \<le> n \<and> n \<le> 102 then Some (n - 87)
        else if 65 \<le> n \<and> n \<le> 70 then Some (n - 55) else None)"

definition scan_1x :: "string \<Rightarrow> nat option" where
  "scan_1x s = (case dropWhile is_space s of [] \<Rightarrow> None | c # _ \<Rightarrow> hex_value c)"

fun unhex_loop :: "nat \<Rightarrow> nat \<Rightarrow> string \<Rightarrow> bitvec \<Rightarrow> (bool \<times> bitvec) option" where
  "unhex_loop i 0 src bs = Some (True, bs)"
| "unhex_loop i (Suc n) src bs =
     (case scan_1x (drop i src) of
        None \<Rightarrow> Some (False, bs)
      | Some v \<Rightarrow>
          (case fillField (i * 4) (of_nat v) 4 bs of
             None \<Rightarrow> None | Some bs' \<Rightarrow> unhex_loop (i + 1) n src bs'))"

definition unhex :: "string \<Rightarrow> bitvec \<Rightarrow> (bool \<times> bitvec) option" where
  "unhex src bs =
    (let digits = length bs div 4; whole = digits * 4; rest = length bs - whole
     in case unhex_loop 0 digits src bs of
          None \<Rightarrow> None
        | Some (ok, bs1) \<Rightarrow>
            if \<not> ok then Some (False, bs1)
            else if rest > 0
            then (case scan_1x (drop digits src) of
                    None \<Rightarrow> Some (False, bs1)
                  | Some v \<Rightarrow> map_option (\<lambda>bs2. (True, bs2)) (fillField whole (of_nat v) rest bs1))
            else Some (True, bs1))"

text \<open>Soft vectors.\<close>

definition soft_of_bits :: "bitvec \<Rightarrow> real list" where
  "soft_of_bits bs = map (\<lambda>c. if odd c then 1 else -1) bs"

definition soft_bit :: "real list \<Rightarrow> nat \<Rightarrow> bool option" where
  "soft_bit xs i = (if i < length xs then Some (xs ! i > 0) else None)"

definition sliced :: "real list \<Rightarrow> bitvec" where
  "sliced xs = map (\<lambda>x. if x > 0 then 1 else 0) xs"

definition soft_unknown :: "real list \<Rightarrow> real list" where
  "soft_unknown xs = replicate (length xs) 0"

definition getEnergy :: "real list \<Rightarrow> real \<times> real" where
  "getEnergy xs =
    foldl (\<lambda>(avg, low) x. (avg + \<bar>x\<bar> / real (length xs), if \<bar>x\<bar> < low then \<bar>x\<bar> else low)) (0, 1) xs"

definition soft_print :: "real list \<Rightarrow> string" where
  "soft_print xs =
    map (\<lambda>x. if x < -0.5 then CHR ''0'' else if x < -0.25 then CHR ''o'' else if x < 0 then CHR ''.''
             else if x > 0.5 then CHR ''1'' else if x > 0.25 then CHR ''|'' else if x > 0 then CHR 0x27
             else CHR ''-'') xs"

section \<open>Fields\<close>

text \<open>The bits of a value as a field holds them, most significant first.\<close>

definition field_bits :: "nat \<Rightarrow> 64 word \<Rightarrow> bitvec" where
  "field_bits n v = rev (map (\<lambda>k. of_bool (bit v k)) [0..<n])"

definition low_bits :: "bitvec \<Rightarrow> bitvec" where
  "low_bits bs = map (\<lambda>c. c mod 2) bs"

lemma length_field_bits [simp]: "length (field_bits n v) = n"
  by (simp add: field_bits_def)

lemma length_low_bits [simp]: "length (low_bits bs) = length bs"
  by (simp add: low_bits_def)

lemma uint_and_1: "uint (v AND 1 :: 64 word) = of_bool (bit v 0)"
  by (simp add: and_one_eq odd_iff_mod_2_eq_one bit_0)

lemma field_bits_Suc: "field_bits (Suc n) v = field_bits n (drop_bit 1 v) @ [of_bool (bit v 0)]"
  by (simp add: field_bits_def upt_conv_Cons bit_drop_bit_eq del: upt_Suc flip: map_Suc_upt)

lemma fill_loop_blit: "base + n \<le> length bs \<Longrightarrow> fill_loop base n v bs = blit bs base (field_bits n v)"
proof (induction n arbitrary: v bs)
  case (Suc n)
  then show ?case
    by (simp add: uint_and_1 field_bits_Suc blit_def list_update_append upd_conv_take_nth_drop)
qed (simp add: field_bits_def)

lemma fill_loop_rev_blit: "p + n \<le> length bs \<Longrightarrow> fill_loop_rev p n v bs = blit bs p (rev (field_bits n v))"
proof (induction n arbitrary: v bs p)
  case (Suc n)
  then show ?case
    by (simp add: uint_and_1 field_bits_Suc blit_def list_update_append upd_conv_take_nth_drop take_Suc_conv_app_nth add.commute)
qed (simp add: field_bits_def)

lemma bit_peek_step: "bit (peek_step a c) k \<longleftrightarrow> k < 64 \<and> (if k = 0 then odd c else bit a (k - 1))"
proof -
  have "bit (word_of_int (c mod 2) :: 64 word) k \<longleftrightarrow> k = 0 \<and> odd c"
    by (cases "even c") (auto simp: bit_1_iff even_iff_mod_2_eq_zero odd_iff_mod_2_eq_one)
  moreover have "bit (push_bit 1 a) k \<longleftrightarrow> k < 64 \<and> k \<noteq> 0 \<and> bit a (k - 1)"
    by (auto simp only: bit_push_bit_iff possible_bit_word len_of_numeral_defs)
  ultimately show ?thesis unfolding peek_step_def bit_or_iff by auto
qed

lemma bit_peek_steps:
  "bit (foldl peek_step a cs) k \<longleftrightarrow>
    k < 64 \<and> (if k < length cs then odd (rev cs ! k) else bit a (k - length cs))"
proof (induction cs arbitrary: k rule: rev_induct)
  case Nil
  have "bit a k \<Longrightarrow> k < 64" using bit_imp_le_length [of a k] by simp
  then show ?case by auto
next
  case (snoc c cs)
  have e: "bit (foldl peek_step a (cs @ [c])) k \<longleftrightarrow>
    k < 64 \<and> (if k = 0 then odd c else bit (foldl peek_step a cs) (k - 1))"
    by (simp only: foldl_append foldl_Cons foldl_Nil bit_peek_step)
  show ?case unfolding e snoc.IH by (cases k) auto
qed

lemma peek_field_bits: "n \<le> 64 \<Longrightarrow> foldl peek_step 0 (field_bits n v) = take_bit n v"
  by (rule bit_word_eqI) (auto simp: bit_peek_steps bit_take_bit_iff field_bits_def)

lemma field_bits_peek: "length cs \<le> 64 \<Longrightarrow> field_bits (length cs) (foldl peek_step 0 cs) = low_bits cs"
  by (rule nth_equalityI)
    (auto simp: field_bits_def low_bits_def bit_peek_steps rev_nth odd_iff_mod_2_eq_one even_iff_mod_2_eq_zero)

lemma slice_blit_same: "i + length xs \<le> length a \<Longrightarrow> slice (blit a i xs) i (length xs) = xs"
  by (simp add: slice_def blit_def)

lemma fillField_blit: "i + n \<le> length bs \<Longrightarrow> fillField i v n bs = Some (blit bs i (field_bits n v))"
  by (simp add: fillField_def fill_loop_blit)

lemma fillFieldReversed_blit:
  "i + n \<le> length bs \<Longrightarrow> fillFieldReversed i v n bs = Some (blit bs i (rev (field_bits n v)))"
  by (simp add: fillFieldReversed_def fill_loop_rev_blit)

lemma blit_outside: "i + length xs \<le> length a \<Longrightarrow>
  take i (blit a i xs) = take i a \<and> drop (i + length xs) (blit a i xs) = drop (i + length xs) a"
  by (simp add: blit_def)

text \<open>A field that is written reads back as the value modulo \<open>2 ^ n\<close>, in either bit order, and the
  rest of the vector is as it was; a field that is read and written again stands there as bits.\<close>

theorem field_roundtrip:
  assumes "i + n \<le> length bs" and "n \<le> 64"
  shows "\<exists>bs1 bs2 v1 v2.
    fillField i v n bs = Some bs1 \<and> peekField i n bs1 = Some (take_bit n v) \<and>
    take i bs1 = take i bs \<and> drop (i + n) bs1 = drop (i + n) bs \<and>
    fillFieldReversed i v n bs = Some bs2 \<and> peekFieldReversed i n bs2 = Some (take_bit n v) \<and>
    take i bs2 = take i bs \<and> drop (i + n) bs2 = drop (i + n) bs \<and>
    peekField i n bs = Some v1 \<and> fillField i v1 n bs = Some (blit bs i (low_bits (slice bs i n))) \<and>
    peekFieldReversed i n bs = Some v2 \<and>
    fillFieldReversed i v2 n bs = Some (blit bs i (low_bits (slice bs i n)))"
proof -
  let ?f = "field_bits n v"
  have sl: "length (slice bs i n) = n" using assms(1) by (rule length_slice)
  have s: "slice (blit bs i ?f) i n = ?f" "slice (blit bs i (rev ?f)) i n = rev ?f"
    using slice_blit_same [of i ?f bs] slice_blit_same [of i "rev ?f" bs] assms(1) by simp_all
  have o: "take i (blit bs i ?f) = take i bs \<and> drop (i + n) (blit bs i ?f) = drop (i + n) bs"
    "take i (blit bs i (rev ?f)) = take i bs \<and> drop (i + n) (blit bs i (rev ?f)) = drop (i + n) bs"
    using blit_outside [of i ?f bs] blit_outside [of i "rev ?f" bs] assms(1) by simp_all
  have p: "peekField i n (blit bs i ?f) = Some (take_bit n v)"
    "peekFieldReversed i n (blit bs i (rev ?f)) = Some (take_bit n v)"
    using assms s by (simp_all add: peekField_def peekFieldReversed_def peek_field_bits length_blit)
  have b: "field_bits n (foldl peek_step 0 (slice bs i n)) = low_bits (slice bs i n)"
    "field_bits n (foldl peek_step 0 (rev (slice bs i n))) = rev (low_bits (slice bs i n))"
    using field_bits_peek [of "slice bs i n"] field_bits_peek [of "rev (slice bs i n)"] sl assms(2)
    by (simp_all add: low_bits_def rev_map)
  show ?thesis
    using assms o p b fillField_blit [OF assms(1)] fillFieldReversed_blit [OF assms(1)]
    by (simp add: peekField_def peekFieldReversed_def)
qed

theorem field_roundtrip_witness:
  "\<exists>bs1 bs2 v1 v2.
    fillField 1 0x1D 3 [0, 1, 1, 0, 7] = Some bs1 \<and> peekField 1 3 bs1 = Some 5 \<and>
    take 1 bs1 = [0] \<and> drop 4 bs1 = [7] \<and>
    fillFieldReversed 1 0x1D 3 [0, 1, 1, 0, 7] = Some bs2 \<and> peekFieldReversed 1 3 bs2 = Some 5 \<and>
    take 1 bs2 = [0] \<and> drop 4 bs2 = [7] \<and>
    peekField 1 3 [0, 1, 1, 0, 7] = Some v1 \<and> fillField 1 v1 3 [0, 1, 1, 0, 7] = Some [0, 1, 1, 0, 7] \<and>
    peekFieldReversed 1 3 [0, 1, 1, 0, 7] = Some v2 \<and>
    fillFieldReversed 1 v2 3 [0, 1, 1, 0, 7] = Some [0, 1, 1, 0, 7]"
proof -
  have t: "take_bit 3 (0x1D :: 64 word) = 5" by (simp add: take_bit_eq_mod)
  have b: "blit [0, 1, 1, 0, 7] 1 (low_bits (slice [0, 1, 1, 0, 7] 1 3)) = [0, 1, 1, 0, 7 :: int]"
    by (simp add: blit_def slice_def low_bits_def)
  show ?thesis using field_roundtrip [of 1 3 "[0, 1, 1, 0, 7]" "0x1D"] unfolding t b by simp
qed

section \<open>Strings, parities, reordering, soft bits\<close>

lemma odd_char_of_u32: "odd (char_of_u32 w) \<longleftrightarrow> bit w 0"
proof -
  have "odd (char_of_u32 w) \<longleftrightarrow> bit (sint (ucast w :: 8 word)) 0" by (simp add: char_of_u32_def bit_0)
  also have "\<dots> \<longleftrightarrow> bit (ucast w :: 8 word) 0" by (simp add: bit_sint_iff)
  also have "\<dots> \<longleftrightarrow> bit w 0" by (simp add: bit_ucast_iff)
  finally show ?thesis .
qed

lemma bv_print_string: "bv_print (bv_of_string s) = map (\<lambda>c. if c = CHR ''1'' then CHR ''1'' else CHR ''0'') s"
proof -
  have "bv_print (bv_string_loop a s) = map (\<lambda>c. if c = CHR ''1'' then CHR ''1'' else CHR ''0'') s" for a
  proof (induction s arbitrary: a)
    case (Cons c s)
    have "\<not> bit (push_bit 1 a) 0" "bit (push_bit 1 a OR 1) 0" by (simp_all only: bit_or_iff bit_1_iff bit_push_bit_iff) simp_all
    then show ?case using Cons.IH by (simp add: bv_print_def odd_char_of_u32 Let_def del: push_bit_Suc push_bit_of_1)
  qed (simp add: bv_print_def)
  then show ?thesis by (simp add: bv_of_string_def)
qed

lemma applyPoly_parity:
  assumes "order \<le> 64"
  shows "applyPoly val poly order = of_bool (odd (\<Sum>i<max 1 order. of_bool (bit val i \<and> bit poly i) :: nat))"
proof -
  let ?p = "val AND poly"
  let ?x = "\<lambda>n. fold (\<lambda>i s. s XOR ucast (drop_bit i ?p)) [1..<n] (ucast ?p) :: 32 word"
  have x: "bit (?x n) 0 \<longleftrightarrow> odd (\<Sum>i<max 1 n. of_bool (bit ?p i) :: nat)" for n
  proof (induction n)
    case (Suc n)
    show ?case
    proof (cases n)
      case 0
      then show ?thesis by (simp add: bit_ucast_iff)
    next
      case (Suc m)
      then have m: "max 1 (Suc n) = Suc n" "max 1 n = n" by simp_all
      have "?x (Suc n) = ?x n XOR ucast (drop_bit n ?p)" using Suc by simp
      then have "bit (?x (Suc n)) 0 \<longleftrightarrow> bit (?x n) 0 \<noteq> bit ?p n"
        by (simp only: bit_xor_iff bit_ucast_iff bit_drop_bit_eq) simp
      then show ?thesis using Suc.IH unfolding m by (simp only: sum.lessThan_Suc odd_add) simp
    qed
  qed (simp add: bit_ucast_iff)
  have "applyPoly val poly order = of_bool (bit (?x order) 0)"
    by (rule bit_word_eqI) (auto simp: applyPoly_def Let_def bit_and_iff bit_1_iff bit_of_bool_iff simp del: and_one_eq)
  then show ?thesis unfolding x by (simp add: bit_and_iff)
qed

lemma sliced_soft_of_bits: "sliced (soft_of_bits bs) = low_bits bs"
  by (auto simp: sliced_def soft_of_bits_def low_bits_def odd_iff_mod_2_eq_one even_iff_mod_2_eq_zero)

lemma bv_map_nth:
  assumes "\<forall>m \<in> set ms. m < length src" and "i + length ms \<le> length dest"
  shows "\<exists>d. bv_map ms i src dest = Some d \<and> length d = length dest \<and>
    (\<forall>j < length dest. d ! j = (if i \<le> j \<and> j < i + length ms then src ! (ms ! (j - i)) else dest ! j))"
  using assms
proof (induction ms arbitrary: i dest)
  case (Cons m ms)
  obtain d where d: "bv_map ms (i + 1) src (dest[i := src ! m]) = Some d" "length d = length dest"
    "\<forall>j < length dest. d ! j =
      (if i + 1 \<le> j \<and> j < i + 1 + length ms then src ! (ms ! (j - (i + 1))) else dest[i := src ! m] ! j)"
    using Cons.IH [of "i + 1" "dest[i := src ! m]"] Cons.prems by auto
  then show ?case
    using Cons.prems by (auto simp: nth_list_update_if nth_Cons' Suc_diff_Suc)
qed auto

lemma bv_unmap_nth:
  assumes "\<forall>m \<in> set ms. m < length dest" and "i + length ms \<le> length src" and "distinct ms"
  shows "\<exists>d. bv_unmap ms i src dest = Some d \<and> length d = length dest \<and>
    (\<forall>j < length ms. d ! (ms ! j) = src ! (i + j)) \<and> (\<forall>m < length dest. m \<notin> set ms \<longrightarrow> d ! m = dest ! m)"
  using assms
proof (induction ms arbitrary: i dest)
  case (Cons m ms)
  obtain d where d: "bv_unmap ms (i + 1) src (dest[m := src ! i]) = Some d" "length d = length dest"
    "\<forall>j < length ms. d ! (ms ! j) = src ! (i + 1 + j)"
    "\<forall>k < length dest. k \<notin> set ms \<longrightarrow> d ! k = dest[m := src ! i] ! k"
    using Cons.IH [of "dest[m := src ! i]" "i + 1"] Cons.prems by auto
  then show ?case
    using Cons.prems by (auto simp: nth_Cons' split: nat.splits)
qed auto

text \<open>Reordering with a map that hits no index twice is undone by \<open>unmap\<close>.\<close>

lemma reorder_roundtrip:
  assumes "\<forall>m \<in> set ms. m < length src" and "length ms \<le> length dest" and "distinct ms"
    and "length src = length dest2"
  shows "\<exists>d d2. bv_map ms 0 src dest = Some d \<and> bv_unmap ms 0 d dest2 = Some d2 \<and> (\<forall>m \<in> set ms. d2 ! m = src ! m)"
proof -
  obtain d where d: "bv_map ms 0 src dest = Some d" "length d = length dest"
    "\<forall>j < length dest. d ! j = (if 0 \<le> j \<and> j < 0 + length ms then src ! (ms ! (j - 0)) else dest ! j)"
    using bv_map_nth [of ms src 0 dest] assms by auto
  obtain d2 where d2: "bv_unmap ms 0 d dest2 = Some d2" "\<forall>j < length ms. d2 ! (ms ! j) = d ! (0 + j)"
    using bv_unmap_nth [of ms dest2 0 d] assms d(2) by auto
  have "d2 ! m = src ! m" if "m \<in> set ms" for m
    using that d(3) d2(2) assms(2) by (auto simp: in_set_conv_nth)
  then show ?thesis using d d2 by blast
qed

lemma lsb8msb_loop_nth:
  assumes "i + n * 8 \<le> length bs"
  shows "\<exists>r. lsb8msb_loop n i bs = Some r \<and> length r = length bs \<and>
    (\<forall>k < length bs. r ! k = (if i \<le> k \<and> k < i + n * 8 then bs ! (i + 8 * ((k - i) div 8) + (7 - (k - i) mod 8)) else bs ! k))"
  using assms
proof (induction n arbitrary: i bs)
  case (Suc n)
  let ?s = "slice bs i 8"
  let ?r8 = "[?s ! 7, ?s ! 6, ?s ! 5, ?s ! 4, ?s ! 3, ?s ! 2, ?s ! 1, ?s ! 0]"
  have ls: "length ?s = 8" using Suc.prems by (simp add: length_slice)
  have seg: "bv_segment bs i 8 = Some ?s" using Suc.prems by (simp add: bv_segment_def)
  have rev8: "reverse8 ?s = Some ?r8" using ls by (simp add: reverse8_def)
  let ?b = "blit bs i ?r8"
  have lb: "length ?b = length bs" using Suc.prems by (intro length_blit) simp
  obtain r where r: "lsb8msb_loop n (i + 8) ?b = Some r" "length r = length bs"
    "\<forall>k < length bs. r ! k = (if i + 8 \<le> k \<and> k < i + 8 + n * 8 then ?b ! (i + 8 + 8 * ((k - (i + 8)) div 8) + (7 - (k - (i + 8)) mod 8)) else ?b ! k)"
    using Suc.IH [of "i + 8" ?b] Suc.prems lb by auto
  have "r ! k = (if i \<le> k \<and> k < i + Suc n * 8 then bs ! (i + 8 * ((k - i) div 8) + (7 - (k - i) mod 8)) else bs ! k)"
    if k: "k < length bs" for k
  proof (cases "i + 8 \<le> k \<and> k < i + 8 + n * 8")
    case True
    let ?j = "i + 8 + 8 * ((k - (i + 8)) div 8) + (7 - (k - (i + 8)) mod 8)"
    have e: "k - i = (k - (i + 8)) + 8" using True by simp
    have dm: "(k - i) div 8 = (k - (i + 8)) div 8 + 1" "(k - i) mod 8 = (k - (i + 8)) mod 8" unfolding e by simp_all
    have "(k - (i + 8)) div 8 < n" using True by linarith
    then have j: "?j < length bs" "i + 8 \<le> ?j" using Suc.prems by simp_all
    have "?b ! j = bs ! j" if "i + 8 \<le> j" "j < length bs" for j
      using that Suc.prems by (simp add: nth_blit)
    from this [OF j(2,1)] have "?b ! ?j = bs ! ?j" .
    then show ?thesis using r(3) k True dm by (simp add: ac_simps)
  next
    case False
    show ?thesis
    proof (cases "i \<le> k \<and> k < i + 8")
      case True
      then have "k - i \<in> {0, 1, 2, 3, 4, 5, 6, 7}" by auto
      moreover have "r ! k = ?r8 ! (k - i)" using r(3) k False True Suc.prems by (simp add: nth_blit)
      ultimately show ?thesis using True Suc.prems
        by (elim insertE) (auto simp: nth_slice)
    next
      case f2: False
      then show ?thesis using r(3) k False Suc.prems by (auto simp: nth_blit)
    qed
  qed
  then show ?case using r seg rev8 by auto
qed auto

section \<open>Packing\<close>

lemma blit_append: "i + length xs + length ys \<le> length a \<Longrightarrow>
  blit (blit a i xs) (i + length xs) ys = blit a i (xs @ ys)"
  by (simp add: blit_def ac_simps)

lemma slice_append: "i + m + n \<le> length a \<Longrightarrow> slice a i (m + n) = slice a i m @ slice a (i + m) n"
  by (simp add: slice_def take_add add.commute)

lemma low_bits_append [simp]: "low_bits (xs @ ys) = low_bits xs @ low_bits ys"
  by (simp add: low_bits_def)

definition field_value :: "nat \<Rightarrow> nat \<Rightarrow> bitvec \<Rightarrow> 64 word" where
  "field_value i n bs = foldl peek_step 0 (slice bs i n)"

lemma peekField_value: "i + n \<le> length bs \<Longrightarrow> peekField i n bs = Some (field_value i n bs)"
  by (simp add: peekField_def field_value_def)

lemma field_bits_value: "i + n \<le> length bs \<Longrightarrow> n \<le> 64 \<Longrightarrow> field_bits n (field_value i n bs) = low_bits (slice bs i n)"
  using field_bits_peek [of "slice bs i n"] by (simp add: field_value_def length_slice)

lemma field_bits_eqI: "(\<And>k. k < n \<Longrightarrow> bit v k = bit w k) \<Longrightarrow> field_bits n v = field_bits n w"
  by (simp add: field_bits_def)

lemma pack_loop_bytes:
  assumes "(i + n) * 8 \<le> length bs" and "i + n \<le> length targ"
  shows "\<exists>t. pack_loop i n bs targ = Some t \<and> length t = length targ \<and>
    (\<forall>j < length targ. t ! j = (if i \<le> j \<and> j < i + n then ucast (field_value (j * 8) 8 bs) else targ ! j))"
  using assms
proof (induction n arbitrary: i targ)
  case (Suc n)
  let ?t = "targ[i := ucast (field_value (i * 8) 8 bs)]"
  obtain t where t: "pack_loop (i + 1) n bs ?t = Some t" "length t = length targ"
    "\<forall>j < length targ. t ! j = (if i + 1 \<le> j \<and> j < i + 1 + n then ucast (field_value (j * 8) 8 bs) else ?t ! j)"
    using Suc.IH [of "i + 1" ?t] Suc.prems by auto
  show ?case
    using Suc.prems t peekField_value [of "i * 8" 8 bs]
    by (auto simp: nth_list_update_if dest: le_antisym [OF _ Suc_leI] simp: not_less_eq_eq)
qed auto

lemma unpack_loop_bytes:
  assumes "(i + n) * 8 \<le> length bs" and "i + n \<le> length src" and "length out = length bs"
    and "\<forall>j. i \<le> j \<and> j < i + n \<longrightarrow> src ! j = ucast (field_value (j * 8) 8 bs)"
  shows "unpack_loop i n src out = Some (blit out (i * 8) (low_bits (slice bs (i * 8) (n * 8))))"
  using assms
proof (induction n arbitrary: i out)
  case (Suc n)
  have v: "field_bits 8 (ucast (src ! i)) = low_bits (slice bs (i * 8) 8)"
  proof -
    have "field_bits 8 (ucast (src ! i)) = field_bits 8 (field_value (i * 8) 8 bs)"
      using Suc.prems by (intro field_bits_eqI) (simp add: bit_ucast_iff)
    then show ?thesis using Suc.prems(1) by (simp add: field_bits_value)
  qed
  let ?out = "blit out (i * 8) (low_bits (slice bs (i * 8) 8))"
  have l: "length (slice bs (i * 8) 8) = 8" "length (slice bs (i * 8 + 8) (n * 8)) = n * 8"
    using Suc.prems(1) by (simp_all add: length_slice)
  have f: "fillField (i * 8) (ucast (src ! i)) 8 out = Some ?out"
    using Suc.prems v by (simp add: fillField_blit)
  have r: "unpack_loop (i + 1) n src ?out = Some (blit ?out ((i + 1) * 8) (low_bits (slice bs ((i + 1) * 8) (n * 8))))"
    using Suc.prems l by (intro Suc.IH) (simp_all add: length_blit)
  have "blit ?out ((i + 1) * 8) (low_bits (slice bs ((i + 1) * 8) (n * 8))) =
    blit out (i * 8) (low_bits (slice bs (i * 8) (Suc n * 8)))"
    using blit_append [of "i * 8" "low_bits (slice bs (i * 8) 8)" "low_bits (slice bs (i * 8 + 8) (n * 8))" out]
      slice_append [of "i * 8" 8 "n * 8" bs] Suc.prems l by (simp add: add.commute)
  then show ?case using f r Suc.prems by simp
qed (simp add: slice_def low_bits_def)

lemma drop_blit_end: "length xs + length ys = length a \<Longrightarrow> blit (blit a 0 xs) (length xs) ys = xs @ ys"
  by (simp add: blit_def)

lemma last_byte_bits:
  "r < 8 \<Longrightarrow> field_bits r (ucast (drop_bit (8 - r) (ucast (push_bit (8 - r) v) :: 8 word))) = field_bits r v"
  by (intro field_bits_eqI) (auto simp: bit_ucast_iff bit_drop_bit_eq bit_push_bit_iff)

text \<open>Packing a vector into bytes and unpacking these into any vector of the same size restores
  the bits; \<open>pack\<close> uses exactly the bytes that hold bits and sets unused low bits of the last to 0.\<close>

theorem pack_roundtrip:
  assumes "(length bs + 7) div 8 \<le> length targ" and "length out = length bs"
  shows "\<exists>t. bv_pack bs targ = Some t \<and> length t = length targ \<and>
    drop ((length bs + 7) div 8) t = drop ((length bs + 7) div 8) targ \<and>
    bv_unpack t out = Some (low_bits bs)"
proof -
  let ?n = "length bs div 8"
  let ?w = "?n * 8"
  let ?r = "length bs - ?w"
  let ?hi = "field_value ?w ?r bs"
  have n: "(0 + ?n) * 8 \<le> length bs" "0 + ?n \<le> length targ" using assms(1) by simp_all
  obtain t1 where t1: "pack_loop 0 ?n bs targ = Some t1" "length t1 = length targ"
    "\<forall>j < length targ. t1 ! j = (if 0 \<le> j \<and> j < 0 + ?n then ucast (field_value (j * 8) 8 bs) else targ ! j)"
    using pack_loop_bytes [OF n] by blast
  have un: "unpack_loop 0 ?n t out = Some (blit out 0 (low_bits (slice bs 0 ?w)))"
    if "length t = length targ" "\<forall>j < ?n. t ! j = t1 ! j" for t
    using unpack_loop_bytes [of 0 ?n bs t out] n assms(2) that t1(3) by simp
  have lw: "length (low_bits (slice bs 0 ?w)) = ?w" using n by (simp add: length_slice)
  have whole: "low_bits (slice bs 0 ?w) @ low_bits (slice bs ?w ?r) = low_bits bs"
    using slice_append [of 0 ?w ?r bs] n by (simp add: slice_def flip: low_bits_append)
  have r8: "?r < 8" by (simp add: minus_div_mult_eq_mod)
  have d: "drop m t1 = drop m targ" if "?n \<le> m" for m
    using t1(2,3) that by (intro nth_equalityI) auto
  show ?thesis
  proof (cases "?r = 0")
    case True
    have m: "(length bs + 7) div 8 = ?n" using True by linarith
    have "bv_unpack t1 out = Some (blit out 0 (low_bits (slice bs 0 ?w)))"
      using un [OF t1(2)] assms(2) True by (simp add: bv_unpack_def Let_def)
    moreover have "blit out 0 (low_bits (slice bs 0 ?w)) = low_bits bs"
      using True lw assms(2) whole by (simp add: blit_def slice_def low_bits_def)
    moreover have "bv_pack bs targ = Some t1" using t1(1) True by (simp add: bv_pack_def Let_def)
    ultimately show ?thesis using t1(2) d m by auto
  next
    case False
    have m: "(length bs + 7) div 8 = ?n + 1" using False r8 by linarith
    let ?b = "ucast (push_bit (8 - ?r) ?hi) :: 8 word"
    let ?t = "t1[?n := ?b]"
    have nl: "?n < length targ" using m assms(1) by simp
    have p: "bv_pack bs targ = Some ?t"
      using t1(1,2) False nl peekField_value [of ?w ?r bs] by (simp add: bv_pack_def Let_def)
    have u: "unpack_loop 0 ?n ?t out = Some (blit out 0 (low_bits (slice bs 0 ?w)))"
      using t1(2) by (intro un) simp_all
    have f: "field_bits ?r (ucast (drop_bit (8 - ?r) (?t ! ?n))) = low_bits (slice bs ?w ?r)"
      using field_bits_value [of ?w ?r bs] last_byte_bits [OF r8] r8 nl t1(2) by simp
    have "fillField ?w (ucast (drop_bit (8 - ?r) (?t ! ?n))) ?r (blit out 0 (low_bits (slice bs 0 ?w))) =
      Some (blit (blit out 0 (low_bits (slice bs 0 ?w))) ?w (low_bits (slice bs ?w ?r)))"
      using f assms(2) lw by (simp add: fillField_blit length_blit)
    also have "blit (blit out 0 (low_bits (slice bs 0 ?w))) ?w (low_bits (slice bs ?w ?r)) = low_bits bs"
      using drop_blit_end [of "low_bits (slice bs 0 ?w)" "low_bits (slice bs ?w ?r)" out] lw assms(2) whole
      by (simp add: length_slice)
    finally have "bv_unpack ?t out = Some (low_bits bs)"
      using u False nl t1(2) assms(2) by (simp add: bv_unpack_def Let_def)
    then show ?thesis using p t1(2) d [of "?n + 1"] m by auto
  qed
qed

theorem pack_roundtrip_witness:
  "\<exists>t. bv_pack [1, 0, 1, 1, 0, 0, 1, 0, 3, 2] [0xAA, 0xAA, 0xAA] = Some t \<and> length t = 3 \<and>
    drop 2 t = [0xAA] \<and> bv_unpack t [9, 9, 9, 9, 9, 9, 9, 9, 9, 9] = Some [1, 0, 1, 1, 0, 0, 1, 0, 1, 0]"
  using pack_roundtrip [of "[1, 0, 1, 1, 0, 0, 1, 0, 3, 2]" "[0xAA, 0xAA, 0xAA]" "[9, 9, 9, 9, 9, 9, 9, 9, 9, 9]"]
  by (simp add: low_bits_def numeral_3_eq_3)

section \<open>Hexadecimal dumps\<close>

lemma hex_digit_value: "n < 16 \<Longrightarrow> hex_value (hex_digit n) = Some n \<and> \<not> is_space (hex_digit n)"
proof -
  assume "n < 16"
  then have "n \<in> set [0..<16]" by simp
  moreover have "list_all (\<lambda>n. hex_value (hex_digit n) = Some n \<and> \<not> is_space (hex_digit n)) [0..<16]"
    by (simp add: upt_conv_Cons hex_digit_def hex_value_def is_space_def)
  ultimately show ?thesis by (simp add: list_all_iff)
qed

lemma field_value_16: "i + 4 \<le> length bs \<Longrightarrow> unat (field_value i 4 bs) < 16"
proof -
  assume i: "i + 4 \<le> length bs"
  have "k < 4" if "bit (field_value i 4 bs) k" for k
    using that i by (simp add: field_value_def bit_peek_steps length_slice split: if_splits)
  then have t: "take_bit 4 (field_value i 4 bs) = field_value i 4 bs"
    by (intro bit_word_eqI) (auto simp: bit_take_bit_iff)
  have "unat (field_value i 4 bs) = unat (take_bit 4 (field_value i 4 bs))" by (simp only: t)
  also have "\<dots> = take_bit 4 (unat (field_value i 4 bs))" by (simp only: unsigned_take_bit_eq)
  also have "\<dots> < 16" using take_bit_nat_less_exp [of 4] by simp
  finally show ?thesis .
qed

definition hex_of :: "nat \<Rightarrow> nat \<Rightarrow> bitvec \<Rightarrow> string" where
  "hex_of n wp bs = map (\<lambda>k. hex_digit (unat (field_value (wp + k * 4) 4 bs))) [0..<n]"

lemma hex_of_Suc: "hex_of (Suc n) wp bs = hex_digit (unat (field_value wp 4 bs)) # hex_of n (wp + 4) bs"
  by (simp add: hex_of_def upt_conv_Cons ac_simps del: upt_Suc flip: map_Suc_upt)

lemma hex_loop_of: "wp + n * 4 \<le> length bs \<Longrightarrow> hex_loop n wp bs = Some (hex_of n wp bs)"
proof (induction n arbitrary: wp)
  case (Suc n)
  then show ?case by (simp add: readField_def peekField_value hex_of_Suc)
qed (simp add: hex_of_def)

lemma hexstr_of: "hexstr bs = Some (hex_of (length bs div 4) 0 bs)"
  unfolding hexstr_def by (rule hex_loop_of) simp

lemma scan_1x_digit: "n < 16 \<Longrightarrow> scan_1x (hex_digit n # cs) = Some n"
  using hex_digit_value [of n] by (simp add: scan_1x_def)

lemma unhex_loop_of:
  assumes "(i + n) * 4 \<le> length bs" and "length out = length bs" and "drop i src = hex_of n (i * 4) bs @ rest"
  shows "unhex_loop i n src out = Some (True, blit out (i * 4) (low_bits (slice bs (i * 4) (n * 4))))"
  using assms
proof (induction n arbitrary: i out)
  case (Suc n)
  let ?v = "field_value (i * 4) 4 bs"
  let ?out = "blit out (i * 4) (low_bits (slice bs (i * 4) 4))"
  have l: "length (slice bs (i * 4) 4) = 4" "length (slice bs (i * 4 + 4) (n * 4)) = n * 4"
    using Suc.prems(1) by (simp_all add: length_slice)
  have d: "drop i src = hex_digit (unat ?v) # hex_of n (i * 4 + 4) bs @ rest"
    using Suc.prems(3) by (simp add: hex_of_Suc)
  have s: "scan_1x (drop i src) = Some (unat ?v)"
    using field_value_16 [of "i * 4" bs] Suc.prems(1) unfolding d by (simp add: scan_1x_digit)
  have "drop (i + 1) src = drop 1 (drop i src)" by simp
  then have d1: "drop (i + 1) src = hex_of n ((i + 1) * 4) bs @ rest" unfolding d by (simp add: add.commute)
  have f: "fillField (i * 4) (of_nat (unat ?v)) 4 out = Some ?out"
    using Suc.prems by (simp add: fillField_blit field_bits_value)
  have r: "unhex_loop (i + 1) n src ?out =
    Some (True, blit ?out ((i + 1) * 4) (low_bits (slice bs ((i + 1) * 4) (n * 4))))"
    using Suc.prems l d1 by (intro Suc.IH) (simp_all add: length_blit)
  have "blit ?out ((i + 1) * 4) (low_bits (slice bs ((i + 1) * 4) (n * 4))) =
    blit out (i * 4) (low_bits (slice bs (i * 4) (Suc n * 4)))"
    using blit_append [of "i * 4" "low_bits (slice bs (i * 4) 4)" "low_bits (slice bs (i * 4 + 4) (n * 4))" out]
      slice_append [of "i * 4" 4 "n * 4" bs] Suc.prems l by (simp add: add.commute)
  then show ?case using f r s by simp
qed (simp add: slice_def low_bits_def)

text \<open>A dump of a vector whose size is a multiple of four reads back as its bits. A dump of any other
  size lacks the last bits, and reading it back fails.\<close>

theorem hex_roundtrip:
  assumes "length out = length bs"
  shows "\<exists>s out'. hexstr bs = Some s \<and> length s = length bs div 4 \<and>
    unhex s out = Some (length bs mod 4 = 0, out') \<and>
    take (length bs div 4 * 4) out' = take (length bs div 4 * 4) (low_bits bs)"
proof -
  let ?n = "length bs div 4"
  let ?s = "hex_of ?n 0 bs"
  have l: "length ?s = ?n" by (simp add: hex_of_def)
  have loop: "unhex_loop 0 ?n ?s out = Some (True, blit out 0 (low_bits (slice bs 0 (?n * 4))))"
    using unhex_loop_of [of 0 ?n bs out ?s "[]"] assms by simp
  have lw: "length (low_bits (slice bs 0 (?n * 4))) = ?n * 4" by (simp add: length_slice)
  have t: "take (?n * 4) (blit out 0 (low_bits (slice bs 0 (?n * 4)))) = take (?n * 4) (low_bits bs)"
    using lw by (simp add: blit_def slice_def low_bits_def take_map)
  have z: "length bs - ?n * 4 = length bs mod 4" by (simp add: minus_div_mult_eq_mod)
  have "scan_1x (drop ?n ?s) = None" using l by (simp add: scan_1x_def)
  then have "unhex ?s out = Some (length bs mod 4 = 0, blit out 0 (low_bits (slice bs 0 (?n * 4))))"
    using loop assms z by (simp add: unhex_def Let_def)
  then show ?thesis using hexstr_of [of bs] l t by blast
qed

theorem hex_roundtrip_witness:
  "\<exists>s out'. hexstr [1, 0, 1, 1, 0, 1, 0, 0] = Some s \<and> length s = 2 \<and>
    unhex s [0, 0, 0, 0, 0, 0, 0, 0] = Some (True, out') \<and> take 8 out' = [1, 0, 1, 1, 0, 1, 0, 0]"
  using hex_roundtrip [of "[0, 0, 0, 0, 0, 0, 0, 0]" "[1, 0, 1, 1, 0, 1, 0, 0]"]
  by (simp add: low_bits_def numeral_2_eq_2)

end
