(* ===== verification/PRBS.thy ===== *)
theory PRBS
  imports Prelude "HOL-Library.Word"
begin

unbundle bit_operations_syntax

text \<open>
  The pseudo-random bit generators of \<^verbatim>\<open>CommonLibs/PRBS.h\<close>: linear feedback shift registers in Galois
  form, whose state is a 64-bit word. \<open>generateBit\<close> takes its own output as the input bit;
  \<open>processBit\<close> takes any bit, which is how a receiver synchronises to a sequence.
\<close>

section \<open>Generators\<close>

record prbs =
  pr_mCoeff :: "64 word"
  pr_mStartState :: "64 word"
  pr_mState :: "64 word"
  pr_mLen :: nat

definition prbs_new :: "nat \<Rightarrow> 64 word \<Rightarrow> 64 word \<Rightarrow> prbs option" where
  "prbs_new wLen wCoeff wState =
    (if wLen \<le> 64
     then Some \<lparr>pr_mCoeff = wCoeff, pr_mStartState = wState, pr_mState = wState, pr_mLen = wLen\<rparr> else None)"

definition prbs_coeff :: "prbs \<Rightarrow> 64 word" where
  "prbs_coeff g = pr_mCoeff g"

definition prbs_state :: "prbs \<Rightarrow> 64 word" where
  "prbs_state g = pr_mState g"

text \<open>The mask of a register shorter than 64 bits is computed as an \<open>int\<close>, so a size from 31 to 63
  overflows the shift, which is undefined; the generators of the file have 9, 15 and 64 bits.\<close>

definition prbs_mask :: "prbs \<Rightarrow> 64 word option" where
  "prbs_mask g =
    (if pr_mLen g = 64 then Some 0xFFFFFFFFFFFFFFFF
     else if pr_mLen g < 31 then Some (word_of_int (2 ^ pr_mLen g - 1)) else None)"

definition prbs_set_state :: "64 word \<Rightarrow> prbs \<Rightarrow> prbs option" where
  "prbs_set_state s g = map_option (\<lambda>m. g\<lparr>pr_mState := s AND m\<rparr>) (prbs_mask g)"

definition prbs_size :: "prbs \<Rightarrow> nat" where
  "prbs_size g = pr_mLen g"

definition processBit :: "32 word \<Rightarrow> prbs \<Rightarrow> prbs" where
  "processBit inBit g =
    (let s = drop_bit 1 (pr_mState g) in g\<lparr>pr_mState := (if inBit \<noteq> 0 then s XOR pr_mCoeff g else s)\<rparr>)"

definition generateBit :: "prbs \<Rightarrow> 32 word \<times> prbs" where
  "generateBit g = (let result = ucast (pr_mState g AND 1) in (result, processBit result g))"

definition prbs_isFinished :: "prbs \<Rightarrow> bool" where
  "prbs_isFinished g \<longleftrightarrow> pr_mStartState g = pr_mState g"

definition PRBS9 :: "64 word \<Rightarrow> prbs option" where
  "PRBS9 wState = prbs_new 9 0x0110 wState"

definition PRBS15 :: "64 word \<Rightarrow> prbs option" where
  "PRBS15 wState = prbs_new 15 0x6000 wState"

definition PRBS64 :: "64 word \<Rightarrow> prbs option" where
  "PRBS64 wState = prbs_new 64 0xD800000000000000 wState"

section \<open>Runs\<close>

text \<open>\<open>n\<close> bits of a generator, and a generator that processes a list of bits.\<close>

fun prbs_bits :: "nat \<Rightarrow> prbs \<Rightarrow> 32 word list \<times> prbs" where
  "prbs_bits 0 g = ([], g)"
| "prbs_bits (Suc n) g =
     (case generateBit g of (b, g1) \<Rightarrow> case prbs_bits n g1 of (bs, g2) \<Rightarrow> (b # bs, g2))"

definition prbs_feed :: "32 word list \<Rightarrow> prbs \<Rightarrow> prbs" where
  "prbs_feed bs g = fold processBit bs g"

lemma ucast_bit0_zero: "(ucast (s AND 1 :: 64 word) = (0 :: 32 word)) \<longleftrightarrow> \<not> bit s 0"
  by (cases "bit s 0") (simp_all add: and_one_eq bit_0 odd_iff_mod_2_eq_one even_iff_mod_2_eq_zero)

lemma processBit_keeps [simp]:
  "pr_mCoeff (processBit b g) = pr_mCoeff g" "pr_mLen (processBit b g) = pr_mLen g"
  "pr_mStartState (processBit b g) = pr_mStartState g"
  by (simp_all add: processBit_def Let_def)

text \<open>The difference of two generators with the same coefficients that process the same bit is shifted
  out.\<close>

lemma processBit_diff:
  assumes "pr_mCoeff g = pr_mCoeff h"
  shows "pr_mState (processBit b g) XOR pr_mState (processBit b h) = drop_bit 1 (pr_mState g XOR pr_mState h)"
  using assms
  by (intro bit_word_eqI) (auto simp: processBit_def Let_def bit_xor_iff bit_drop_bit_eq)

lemma prbs_feed_simps [simp]:
  "prbs_feed [] g = g" "prbs_feed (b # bs) g = prbs_feed bs (processBit b g)"
  by (simp_all add: prbs_feed_def)

lemma prbs_feed_keeps [simp]: "pr_mCoeff (prbs_feed bs g) = pr_mCoeff g" "pr_mLen (prbs_feed bs g) = pr_mLen g"
  by (induction bs arbitrary: g) simp_all

lemma prbs_feed_diff:
  "pr_mCoeff g = pr_mCoeff h \<Longrightarrow>
    pr_mState (prbs_feed bs g) XOR pr_mState (prbs_feed bs h) = drop_bit (length bs) (pr_mState g XOR pr_mState h)"
proof (induction bs arbitrary: g h)
  case (Cons b bs)
  have "pr_mState (prbs_feed bs (processBit b g)) XOR pr_mState (prbs_feed bs (processBit b h)) =
    drop_bit (length bs) (drop_bit 1 (pr_mState g XOR pr_mState h))"
    using Cons.IH [of "processBit b g" "processBit b h"] Cons.prems processBit_diff [OF Cons.prems, of b]
    by (simp only: processBit_keeps)
  also have "\<dots> = drop_bit (length (b # bs)) (pr_mState g XOR pr_mState h)"
    by (simp only: drop_bit_drop_bit) simp
  finally show ?case by (simp only: prbs_feed_simps)
qed simp

lemma prbs_bits_feed: "prbs_bits n g = (bs, g') \<Longrightarrow> length bs = n \<and> g' = prbs_feed bs g"
  by (induction n arbitrary: g bs) (auto simp: generateBit_def Let_def split: prod.splits)

lemma drop_bit_small: "unat w < 2 ^ n \<Longrightarrow> drop_bit n (w :: 64 word) = 0"
proof -
  assume "unat w < 2 ^ n"
  then have "drop_bit n (unat w) = 0" by (simp add: drop_bit_eq_div)
  then have "unat (drop_bit n w) = 0" by (simp only: unat_drop_bit_eq)
  then show ?thesis by (simp only: unat_eq_zero)
qed

lemma word_xor_zero: "(a :: 64 word) XOR b = 0 \<Longrightarrow> a = b"
proof -
  assume x: "a XOR b = 0"
  have "a = (a XOR b) XOR b" by (simp only: xor.assoc xor_self_eq xor.right_neutral)
  then show ?thesis unfolding x by simp
qed

text \<open>A generator in any state that processes \<open>size()\<close> bits of another generator of the same
  polynomial is synchronised: it is in the state of the other one and from then on produces the same
  bits.\<close>

theorem prbs_synchronise:
  assumes "pr_mCoeff g = pr_mCoeff h" and "unat (pr_mState g) < 2 ^ prbs_size g"
    and "unat (pr_mState h) < 2 ^ prbs_size g" and "prbs_bits (prbs_size g) g = (bs, g')"
  shows "prbs_state (prbs_feed bs h) = prbs_state g' \<and> fst (prbs_bits m (prbs_feed bs h)) = fst (prbs_bits m g')"
proof -
  let ?h = "prbs_feed bs h"
  have g': "g' = prbs_feed bs g" "length bs = prbs_size g" using prbs_bits_feed [OF assms(4)] by simp_all
  have "drop_bit (prbs_size g) (pr_mState g XOR pr_mState h) = 0"
    using drop_bit_small [OF assms(2)] drop_bit_small [OF assms(3)] by (simp add: drop_bit_xor)
  then have "pr_mState g' XOR pr_mState ?h = 0" using prbs_feed_diff [OF assms(1), of bs] g' by (simp only:)
  then have s: "pr_mState ?h = pr_mState g'" by (rule word_xor_zero [symmetric])
  have eq: "fst (prbs_bits m a) = fst (prbs_bits m b)"
    if "pr_mState a = pr_mState b" "pr_mCoeff a = pr_mCoeff b" for a b
    using that
  proof (induction m arbitrary: a b)
    case (Suc m)
    have "fst (prbs_bits m (snd (generateBit a))) = fst (prbs_bits m (snd (generateBit b)))"
      using Suc.prems by (intro Suc.IH) (simp_all add: generateBit_def processBit_def Let_def)
    moreover have "fst (generateBit a) = fst (generateBit b)"
      using Suc.prems by (simp add: generateBit_def Let_def)
    ultimately show ?case by (simp add: split_beta)
  qed simp
  have "pr_mCoeff ?h = pr_mCoeff g'" using assms(1) g'(1) by simp
  from eq [OF s this] show ?thesis using s by (simp only: prbs_state_def)
qed

theorem prbs_synchronise_witness:
  "prbs_state (prbs_feed [1, 0, 0] \<lparr>pr_mCoeff = 6, pr_mStartState = 7, pr_mState = 7, pr_mLen = 3\<rparr>) = 1 \<and>
   fst (prbs_bits 2 (prbs_feed [1, 0, 0] \<lparr>pr_mCoeff = 6, pr_mStartState = 7, pr_mState = 7, pr_mLen = 3\<rparr>)) =
   fst (prbs_bits 2 \<lparr>pr_mCoeff = 6, pr_mStartState = 5, pr_mState = 1, pr_mLen = 3\<rparr>)"
proof -
  have b: "prbs_bits (prbs_size \<lparr>pr_mCoeff = 6, pr_mStartState = 5, pr_mState = 5, pr_mLen = 3\<rparr>)
      \<lparr>pr_mCoeff = 6, pr_mStartState = 5, pr_mState = 5, pr_mLen = 3\<rparr> =
    ([1, 0, 0], \<lparr>pr_mCoeff = 6, pr_mStartState = 5, pr_mState = 1, pr_mLen = 3\<rparr>)"
    by (simp add: prbs_size_def numeral_3_eq_3 generateBit_def processBit_def Let_def drop_bit_eq_div)
  show ?thesis
    using prbs_synchronise [OF _ _ _ b, of "\<lparr>pr_mCoeff = 6, pr_mStartState = 7, pr_mState = 7, pr_mLen = 3\<rparr>" 2]
    by (simp add: prbs_size_def prbs_state_def)
qed

end
