(* ===== verification/Convolve.thy ===== *)
theory Convolve
  imports Main
begin

text \<open>
  Convolution of complex samples: the base routines (\<^verbatim>\<open>arch/common/convolve_base.c\<close>), the routines with
  SSE instructions (\<^verbatim>\<open>arch/x86/convolve_sse_3.c\<close>) and the choice between them
  (\<^verbatim>\<open>arch/x86/convolve.c\<close>).

  Arrays of floats hold real and imaginary parts in turn. The input and the taps are functions from the
  index of a float, which may be negative: the samples before the pointer are the history that the
  caller keeps there. The output is a list. Floats are elements of a commutative ring, so sums are
  exact; the real routines differ from each other by their rounding only. The alignment that the loads
  of the taps require is not modelled.
\<close>

section \<open>Base routines\<close>

type_synonym 'a conv = "(int \<Rightarrow> 'a) \<Rightarrow> int \<Rightarrow> (int \<Rightarrow> 'a) \<Rightarrow> int \<Rightarrow> 'a list \<Rightarrow> int \<Rightarrow> int \<Rightarrow> int \<Rightarrow> 'a list"

text \<open>The pointers \<open>&x[xi]\<close>, \<open>&h[hi]\<close> and \<open>&y[yi]\<close> are an array and an index.\<close>

definition mac_real :: "(int \<Rightarrow> 'a::comm_ring_1) \<Rightarrow> int \<Rightarrow> (int \<Rightarrow> 'a) \<Rightarrow> int \<Rightarrow> 'a list \<Rightarrow> nat \<Rightarrow> 'a list" where
  "mac_real x xi h hi y yi =
    (let y1 = y[yi := y ! yi + x xi * h hi] in y1[yi + 1 := y1 ! (yi + 1) + x (xi + 1) * h hi])"

definition mac_cmplx :: "(int \<Rightarrow> 'a::comm_ring_1) \<Rightarrow> int \<Rightarrow> (int \<Rightarrow> 'a) \<Rightarrow> int \<Rightarrow> 'a list \<Rightarrow> nat \<Rightarrow> 'a list" where
  "mac_cmplx x xi h hi y yi =
    (let y1 = y[yi := y ! yi + (x xi * h hi - x (xi + 1) * h (hi + 1))]
     in y1[yi + 1 := y1 ! (yi + 1) + (x xi * h (hi + 1) + x (xi + 1) * h hi)])"

definition mac_real_vec_n ::
  "(int \<Rightarrow> 'a::comm_ring_1) \<Rightarrow> int \<Rightarrow> (int \<Rightarrow> 'a) \<Rightarrow> 'a list \<Rightarrow> nat \<Rightarrow> int \<Rightarrow> 'a list" where
  "mac_real_vec_n x xi h y yi len = fold (\<lambda>i y. mac_real x (xi + 2 * int i) h (2 * int i) y yi) [0..<nat len] y"

definition mac_cmplx_vec_n ::
  "(int \<Rightarrow> 'a::comm_ring_1) \<Rightarrow> int \<Rightarrow> (int \<Rightarrow> 'a) \<Rightarrow> 'a list \<Rightarrow> nat \<Rightarrow> int \<Rightarrow> 'a list" where
  "mac_cmplx_vec_n x xi h y yi len = fold (\<lambda>i y. mac_cmplx x (xi + 2 * int i) h (2 * int i) y yi) [0..<nat len] y"

definition base_real :: "'a::comm_ring_1 conv" where
  "base_real x x_len h h_len y y_len start len =
    fold (\<lambda>i y. mac_real_vec_n x (2 * (int i - (h_len - 1) + start)) h y (2 * i) h_len) [0..<nat len] y"

definition base_complex :: "'a::comm_ring_1 conv" where
  "base_complex x x_len h h_len y y_len start len =
    fold (\<lambda>i y. mac_cmplx_vec_n x (2 * (int i - (h_len - 1) + start)) h y (2 * i) h_len) [0..<nat len] y"

definition bounds_check :: "int \<Rightarrow> int \<Rightarrow> int \<Rightarrow> int \<Rightarrow> int \<Rightarrow> int" where
  "bounds_check x_len h_len y_len start len =
    (if x_len < 1 \<or> h_len < 1 \<or> y_len < 1 \<or> len < 1 then -1
     else if start + len > x_len \<or> len > y_len \<or> x_len < h_len then -1
     else 0)"

definition memset0 :: "int \<Rightarrow> 'a::zero list \<Rightarrow> 'a list" where
  "memset0 n y = replicate (nat n) 0 @ drop (nat n) y"

definition base_convolve_real ::
  "(int \<Rightarrow> 'a::comm_ring_1) \<Rightarrow> int \<Rightarrow> (int \<Rightarrow> 'a) \<Rightarrow> int \<Rightarrow> 'a list \<Rightarrow> int \<Rightarrow> int \<Rightarrow> int \<Rightarrow> int \<times> 'a list" where
  "base_convolve_real x x_len h h_len y y_len start len =
    (if bounds_check x_len h_len y_len start len < 0 then (-1, y)
     else (len, base_real x x_len h h_len (memset0 (len * 2) y) y_len start len))"

definition base_convolve_complex ::
  "(int \<Rightarrow> 'a::comm_ring_1) \<Rightarrow> int \<Rightarrow> (int \<Rightarrow> 'a) \<Rightarrow> int \<Rightarrow> 'a list \<Rightarrow> int \<Rightarrow> int \<Rightarrow> int \<Rightarrow> int \<times> 'a list" where
  "base_convolve_complex x x_len h h_len y y_len start len =
    (if bounds_check x_len h_len y_len start len < 0 then (-1, y)
     else (len, base_complex x x_len h h_len (memset0 (len * 2) y) y_len start len))"

section \<open>Instructions on four floats\<close>

datatype 'a m128 = M128 'a 'a 'a 'a

fun mm_lane :: "'a m128 \<Rightarrow> nat \<Rightarrow> 'a" where
  "mm_lane (M128 a b c d) n = (if n = 0 then a else if n = 1 then b else if n = 2 then c else d)"

definition mm_loadu_ps :: "(int \<Rightarrow> 'a) \<Rightarrow> int \<Rightarrow> 'a m128" where
  "mm_loadu_ps p i = M128 (p i) (p (i + 1)) (p (i + 2)) (p (i + 3))"

definition mm_load_ps :: "(int \<Rightarrow> 'a) \<Rightarrow> int \<Rightarrow> 'a m128" where
  "mm_load_ps p i = mm_loadu_ps p i"

definition mm_setzero_ps :: "'a::zero m128" where
  "mm_setzero_ps = M128 0 0 0 0"

fun mm_shuffle_ps :: "'a m128 \<Rightarrow> 'a m128 \<Rightarrow> nat \<times> nat \<times> nat \<times> nat \<Rightarrow> 'a m128" where
  "mm_shuffle_ps a b (z, y, x, w) = M128 (mm_lane a w) (mm_lane a x) (mm_lane b y) (mm_lane b z)"

fun mm_map2 :: "('a \<Rightarrow> 'a \<Rightarrow> 'a) \<Rightarrow> 'a m128 \<Rightarrow> 'a m128 \<Rightarrow> 'a m128" where
  "mm_map2 f (M128 a b c d) (M128 a' b' c' d') = M128 (f a a') (f b b') (f c c') (f d d')"

definition mm_mul_ps :: "'a::times m128 \<Rightarrow> 'a m128 \<Rightarrow> 'a m128" where
  "mm_mul_ps = mm_map2 (*)"

definition mm_add_ps :: "'a::plus m128 \<Rightarrow> 'a m128 \<Rightarrow> 'a m128" where
  "mm_add_ps = mm_map2 (+)"

definition mm_sub_ps :: "'a::minus m128 \<Rightarrow> 'a m128 \<Rightarrow> 'a m128" where
  "mm_sub_ps = mm_map2 (-)"

fun mm_hadd_ps :: "'a::plus m128 \<Rightarrow> 'a m128 \<Rightarrow> 'a m128" where
  "mm_hadd_ps (M128 a b c d) (M128 a' b' c' d') = M128 (a + b) (c + d) (a' + b') (c' + d')"

definition mm_store_ss :: "'a m128 \<Rightarrow> 'a" where
  "mm_store_ss m = mm_lane m 0"

section \<open>SSE routines\<close>

text \<open>4-tap complex-real convolution.\<close>

definition sse_conv_real4 :: "'a::comm_ring_1 conv" where
  "sse_conv_real4 x x_len h h_len y y_len start len =
    (let xo = 2 * (- (h_len - 1) + start);
         m0 = mm_load_ps h 0;
         m1 = mm_load_ps h 4;
         m7 = mm_shuffle_ps m0 m1 (0, 2, 0, 2)
     in fold (\<lambda>i y.
          let m0 = mm_loadu_ps x (xo + 2 * int i);
              m1 = mm_loadu_ps x (xo + 2 * int i + 4);
              m2 = mm_shuffle_ps m0 m1 (0, 2, 0, 2);
              m3 = mm_shuffle_ps m0 m1 (1, 3, 1, 3);
              m4 = mm_mul_ps m2 m7;
              m5 = mm_mul_ps m3 m7;
              m6 = mm_hadd_ps m4 m5;
              m0 = mm_hadd_ps m6 m6;
              y = y[2 * i := mm_store_ss m0];
              m0 = mm_shuffle_ps m0 m0 (0, 3, 2, 1);
              y = y[2 * i + 1 := mm_store_ss m0]
          in y) [0..<nat len] y)"

text \<open>8-tap complex-real convolution.\<close>

definition sse_conv_real8 :: "'a::comm_ring_1 conv" where
  "sse_conv_real8 x x_len h h_len y y_len start len =
    (let xo = 2 * (- (h_len - 1) + start);
         m0 = mm_load_ps h 0;
         m1 = mm_load_ps h 4;
         m2 = mm_load_ps h 8;
         m3 = mm_load_ps h 12;
         m4 = mm_shuffle_ps m0 m1 (0, 2, 0, 2);
         m5 = mm_shuffle_ps m2 m3 (0, 2, 0, 2)
     in fold (\<lambda>i y.
          let m0 = mm_loadu_ps x (xo + 2 * int i);
              m1 = mm_loadu_ps x (xo + 2 * int i + 4);
              m2 = mm_loadu_ps x (xo + 2 * int i + 8);
              m3 = mm_loadu_ps x (xo + 2 * int i + 12);
              m6 = mm_shuffle_ps m0 m1 (0, 2, 0, 2);
              m7 = mm_shuffle_ps m0 m1 (1, 3, 1, 3);
              m8 = mm_shuffle_ps m2 m3 (0, 2, 0, 2);
              m9 = mm_shuffle_ps m2 m3 (1, 3, 1, 3);
              m6 = mm_mul_ps m6 m4;
              m7 = mm_mul_ps m7 m4;
              m8 = mm_mul_ps m8 m5;
              m9 = mm_mul_ps m9 m5;
              m6 = mm_add_ps m6 m8;
              m7 = mm_add_ps m7 m9;
              m6 = mm_hadd_ps m6 m7;
              m6 = mm_hadd_ps m6 m6;
              y = y[2 * i := mm_store_ss m6];
              m6 = mm_shuffle_ps m6 m6 (0, 3, 2, 1);
              y = y[2 * i + 1 := mm_store_ss m6]
          in y) [0..<nat len] y)"

text \<open>12-tap complex-real convolution.\<close>

definition sse_conv_real12 :: "'a::comm_ring_1 conv" where
  "sse_conv_real12 x x_len h h_len y y_len start len =
    (let xo = 2 * (- (h_len - 1) + start);
         m0 = mm_load_ps h 0;
         m1 = mm_load_ps h 4;
         m2 = mm_load_ps h 8;
         m3 = mm_load_ps h 12;
         m4 = mm_load_ps h 16;
         m5 = mm_load_ps h 20;
         m12 = mm_shuffle_ps m0 m1 (0, 2, 0, 2);
         m13 = mm_shuffle_ps m2 m3 (0, 2, 0, 2);
         m14 = mm_shuffle_ps m4 m5 (0, 2, 0, 2)
     in fold (\<lambda>i y.
          let m0 = mm_loadu_ps x (xo + 2 * int i);
              m1 = mm_loadu_ps x (xo + 2 * int i + 4);
              m2 = mm_loadu_ps x (xo + 2 * int i + 8);
              m3 = mm_loadu_ps x (xo + 2 * int i + 12);
              m4 = mm_shuffle_ps m0 m1 (0, 2, 0, 2);
              m5 = mm_shuffle_ps m0 m1 (1, 3, 1, 3);
              m6 = mm_shuffle_ps m2 m3 (0, 2, 0, 2);
              m7 = mm_shuffle_ps m2 m3 (1, 3, 1, 3);
              m0 = mm_loadu_ps x (xo + 2 * int i + 16);
              m1 = mm_loadu_ps x (xo + 2 * int i + 20);
              m8 = mm_shuffle_ps m0 m1 (0, 2, 0, 2);
              m9 = mm_shuffle_ps m0 m1 (1, 3, 1, 3);
              m0 = mm_mul_ps m4 m12;
              m1 = mm_mul_ps m5 m12;
              m2 = mm_mul_ps m6 m13;
              m3 = mm_mul_ps m7 m13;
              m4 = mm_mul_ps m8 m14;
              m5 = mm_mul_ps m9 m14;
              m8 = mm_add_ps m0 m2;
              m9 = mm_add_ps m1 m3;
              m10 = mm_add_ps m8 m4;
              m11 = mm_add_ps m9 m5;
              m2 = mm_hadd_ps m10 m11;
              m3 = mm_hadd_ps m2 m2;
              y = y[2 * i := mm_store_ss m3];
              m3 = mm_shuffle_ps m3 m3 (0, 3, 2, 1);
              y = y[2 * i + 1 := mm_store_ss m3]
          in y) [0..<nat len] y)"

text \<open>16-tap complex-real convolution.\<close>

definition sse_conv_real16 :: "'a::comm_ring_1 conv" where
  "sse_conv_real16 x x_len h h_len y y_len start len =
    (let xo = 2 * (- (h_len - 1) + start);
         m0 = mm_load_ps h 0;
         m1 = mm_load_ps h 4;
         m2 = mm_load_ps h 8;
         m3 = mm_load_ps h 12;
         m4 = mm_load_ps h 16;
         m5 = mm_load_ps h 20;
         m6 = mm_load_ps h 24;
         m7 = mm_load_ps h 28;
         m12 = mm_shuffle_ps m0 m1 (0, 2, 0, 2);
         m13 = mm_shuffle_ps m2 m3 (0, 2, 0, 2);
         m14 = mm_shuffle_ps m4 m5 (0, 2, 0, 2);
         m15 = mm_shuffle_ps m6 m7 (0, 2, 0, 2)
     in fold (\<lambda>i y.
          let m0 = mm_loadu_ps x (xo + 2 * int i);
              m1 = mm_loadu_ps x (xo + 2 * int i + 4);
              m2 = mm_loadu_ps x (xo + 2 * int i + 8);
              m3 = mm_loadu_ps x (xo + 2 * int i + 12);
              m4 = mm_shuffle_ps m0 m1 (0, 2, 0, 2);
              m5 = mm_shuffle_ps m0 m1 (1, 3, 1, 3);
              m6 = mm_shuffle_ps m2 m3 (0, 2, 0, 2);
              m7 = mm_shuffle_ps m2 m3 (1, 3, 1, 3);
              m0 = mm_loadu_ps x (xo + 2 * int i + 16);
              m1 = mm_loadu_ps x (xo + 2 * int i + 20);
              m2 = mm_loadu_ps x (xo + 2 * int i + 24);
              m3 = mm_loadu_ps x (xo + 2 * int i + 28);
              m8 = mm_shuffle_ps m0 m1 (0, 2, 0, 2);
              m9 = mm_shuffle_ps m0 m1 (1, 3, 1, 3);
              m10 = mm_shuffle_ps m2 m3 (0, 2, 0, 2);
              m11 = mm_shuffle_ps m2 m3 (1, 3, 1, 3);
              m0 = mm_mul_ps m4 m12;
              m1 = mm_mul_ps m5 m12;
              m2 = mm_mul_ps m6 m13;
              m3 = mm_mul_ps m7 m13;
              m4 = mm_mul_ps m8 m14;
              m5 = mm_mul_ps m9 m14;
              m6 = mm_mul_ps m10 m15;
              m7 = mm_mul_ps m11 m15;
              m8 = mm_add_ps m0 m2;
              m9 = mm_add_ps m1 m3;
              m10 = mm_add_ps m4 m6;
              m11 = mm_add_ps m5 m7;
              m0 = mm_add_ps m8 m10;
              m1 = mm_add_ps m9 m11;
              m2 = mm_hadd_ps m0 m1;
              m3 = mm_hadd_ps m2 m2;
              y = y[2 * i := mm_store_ss m3];
              m3 = mm_shuffle_ps m3 m3 (0, 3, 2, 1);
              y = y[2 * i + 1 := mm_store_ss m3]
          in y) [0..<nat len] y)"

text \<open>20-tap complex-real convolution.\<close>

definition sse_conv_real20 :: "'a::comm_ring_1 conv" where
  "sse_conv_real20 x x_len h h_len y y_len start len =
    (let xo = 2 * (- (h_len - 1) + start);
         m0 = mm_load_ps h 0;
         m1 = mm_load_ps h 4;
         m2 = mm_load_ps h 8;
         m3 = mm_load_ps h 12;
         m4 = mm_load_ps h 16;
         m5 = mm_load_ps h 20;
         m6 = mm_load_ps h 24;
         m7 = mm_load_ps h 28;
         m8 = mm_load_ps h 32;
         m9 = mm_load_ps h 36;
         m11 = mm_shuffle_ps m0 m1 (0, 2, 0, 2);
         m12 = mm_shuffle_ps m2 m3 (0, 2, 0, 2);
         m13 = mm_shuffle_ps m4 m5 (0, 2, 0, 2);
         m14 = mm_shuffle_ps m6 m7 (0, 2, 0, 2);
         m15 = mm_shuffle_ps m8 m9 (0, 2, 0, 2)
     in fold (\<lambda>i y.
          let m0 = mm_loadu_ps x (xo + 2 * int i);
              m1 = mm_loadu_ps x (xo + 2 * int i + 4);
              m2 = mm_loadu_ps x (xo + 2 * int i + 8);
              m3 = mm_loadu_ps x (xo + 2 * int i + 12);
              m4 = mm_loadu_ps x (xo + 2 * int i + 16);
              m5 = mm_loadu_ps x (xo + 2 * int i + 20);
              m6 = mm_shuffle_ps m0 m1 (0, 2, 0, 2);
              m7 = mm_shuffle_ps m0 m1 (1, 3, 1, 3);
              m8 = mm_shuffle_ps m2 m3 (0, 2, 0, 2);
              m9 = mm_shuffle_ps m2 m3 (1, 3, 1, 3);
              m0 = mm_shuffle_ps m4 m5 (0, 2, 0, 2);
              m1 = mm_shuffle_ps m4 m5 (1, 3, 1, 3);
              m2 = mm_mul_ps m6 m11;
              m3 = mm_mul_ps m7 m11;
              m4 = mm_mul_ps m8 m12;
              m5 = mm_mul_ps m9 m12;
              m6 = mm_mul_ps m0 m13;
              m7 = mm_mul_ps m1 m13;
              m0 = mm_add_ps m2 m4;
              m1 = mm_add_ps m3 m5;
              m8 = mm_add_ps m0 m6;
              m9 = mm_add_ps m1 m7;
              m0 = mm_loadu_ps x (xo + 2 * int i + 24);
              m1 = mm_loadu_ps x (xo + 2 * int i + 28);
              m2 = mm_loadu_ps x (xo + 2 * int i + 32);
              m3 = mm_loadu_ps x (xo + 2 * int i + 36);
              m4 = mm_shuffle_ps m0 m1 (0, 2, 0, 2);
              m5 = mm_shuffle_ps m0 m1 (1, 3, 1, 3);
              m6 = mm_shuffle_ps m2 m3 (0, 2, 0, 2);
              m7 = mm_shuffle_ps m2 m3 (1, 3, 1, 3);
              m0 = mm_mul_ps m4 m14;
              m1 = mm_mul_ps m5 m14;
              m2 = mm_mul_ps m6 m15;
              m3 = mm_mul_ps m7 m15;
              m4 = mm_add_ps m0 m2;
              m5 = mm_add_ps m1 m3;
              m0 = mm_add_ps m8 m4;
              m1 = mm_add_ps m9 m5;
              m2 = mm_hadd_ps m0 m1;
              m3 = mm_hadd_ps m2 m2;
              y = y[2 * i := mm_store_ss m3];
              m3 = mm_shuffle_ps m3 m3 (0, 3, 2, 1);
              y = y[2 * i + 1 := mm_store_ss m3]
          in y) [0..<nat len] y)"

text \<open>4*N-tap complex-real convolution; the taps of one round first.\<close>

definition sse_conv_real4n_taps ::
  "(int \<Rightarrow> 'a::comm_ring_1) \<Rightarrow> (int \<Rightarrow> 'a) \<Rightarrow> int \<Rightarrow> nat \<Rightarrow> 'a m128 \<times> 'a m128 \<Rightarrow> 'a m128 \<times> 'a m128" where
  "sse_conv_real4n_taps x h p n = (\<lambda>(m6, m7).
     (let m0 = mm_load_ps h (8 * int n);
          m1 = mm_load_ps h (8 * int n + 4);
          m2 = mm_shuffle_ps m0 m1 (0, 2, 0, 2);
          m0 = mm_loadu_ps x (p + 8 * int n);
          m1 = mm_loadu_ps x (p + 8 * int n + 4);
          m4 = mm_shuffle_ps m0 m1 (0, 2, 0, 2);
          m5 = mm_shuffle_ps m0 m1 (1, 3, 1, 3);
          m0 = mm_mul_ps m2 m4;
          m1 = mm_mul_ps m2 m5;
          m6 = mm_add_ps m6 m0;
          m7 = mm_add_ps m7 m1
      in (m6, m7)))"

definition sse_conv_real4n :: "'a::comm_ring_1 conv" where
  "sse_conv_real4n x x_len h h_len y y_len start len =
    (let xo = 2 * (- (h_len - 1) + start)
     in fold (\<lambda>i y.
          let m6 = mm_setzero_ps;
              m7 = mm_setzero_ps;
              (m6, m7) = fold (sse_conv_real4n_taps x h (xo + 2 * int i)) [0..<nat (h_len div 4)] (m6, m7);
              m0 = mm_hadd_ps m6 m7;
              m0 = mm_hadd_ps m0 m0;
              y = y[2 * i := mm_store_ss m0];
              m0 = mm_shuffle_ps m0 m0 (0, 3, 2, 1);
              y = y[2 * i + 1 := mm_store_ss m0]
          in y) [0..<nat len] y)"

text \<open>4*N-tap complex-complex convolution; the taps of one round first.\<close>

definition sse_conv_cmplx_4n_taps ::
  "(int \<Rightarrow> 'a::comm_ring_1) \<Rightarrow> (int \<Rightarrow> 'a) \<Rightarrow> int \<Rightarrow> nat \<Rightarrow> 'a m128 \<times> 'a m128 \<Rightarrow> 'a m128 \<times> 'a m128" where
  "sse_conv_cmplx_4n_taps x h p n = (\<lambda>(m6, m7).
     (let m0 = mm_load_ps h (8 * int n);
          m1 = mm_load_ps h (8 * int n + 4);
          m2 = mm_shuffle_ps m0 m1 (0, 2, 0, 2);
          m3 = mm_shuffle_ps m0 m1 (1, 3, 1, 3);
          m0 = mm_loadu_ps x (p + 8 * int n);
          m1 = mm_loadu_ps x (p + 8 * int n + 4);
          m4 = mm_shuffle_ps m0 m1 (0, 2, 0, 2);
          m5 = mm_shuffle_ps m0 m1 (1, 3, 1, 3);
          m0 = mm_mul_ps m2 m4;
          m1 = mm_mul_ps m3 m5;
          m2 = mm_mul_ps m2 m5;
          m3 = mm_mul_ps m3 m4;
          m0 = mm_sub_ps m0 m1;
          m2 = mm_add_ps m2 m3;
          m6 = mm_add_ps m6 m0;
          m7 = mm_add_ps m7 m2
      in (m6, m7)))"

definition sse_conv_cmplx_4n :: "'a::comm_ring_1 conv" where
  "sse_conv_cmplx_4n x x_len h h_len y y_len start len =
    (let xo = 2 * (- (h_len - 1) + start)
     in fold (\<lambda>i y.
          let m6 = mm_setzero_ps;
              m7 = mm_setzero_ps;
              (m6, m7) = fold (sse_conv_cmplx_4n_taps x h (xo + 2 * int i)) [0..<nat (h_len div 4)] (m6, m7);
              m0 = mm_hadd_ps m6 m7;
              m0 = mm_hadd_ps m0 m0;
              y = y[2 * i := mm_store_ss m0];
              m0 = mm_shuffle_ps m0 m0 (0, 3, 2, 1);
              y = y[2 * i + 1 := mm_store_ss m0]
          in y) [0..<nat len] y)"

text \<open>8*N-tap complex-complex convolution; the taps of one round first.\<close>

definition sse_conv_cmplx_8n_taps ::
  "(int \<Rightarrow> 'a::comm_ring_1) \<Rightarrow> (int \<Rightarrow> 'a) \<Rightarrow> int \<Rightarrow> nat \<Rightarrow> 'a m128 \<times> 'a m128 \<times> 'a m128 \<times> 'a m128 \<Rightarrow> 'a m128 \<times> 'a m128 \<times> 'a m128 \<times> 'a m128" where
  "sse_conv_cmplx_8n_taps x h p n = (\<lambda>(m12, m13, m14, m15).
     (let m0 = mm_load_ps h (16 * int n);
          m1 = mm_load_ps h (16 * int n + 4);
          m2 = mm_load_ps h (16 * int n + 8);
          m3 = mm_load_ps h (16 * int n + 12);
          m4 = mm_shuffle_ps m0 m1 (0, 2, 0, 2);
          m5 = mm_shuffle_ps m0 m1 (1, 3, 1, 3);
          m6 = mm_shuffle_ps m2 m3 (0, 2, 0, 2);
          m7 = mm_shuffle_ps m2 m3 (1, 3, 1, 3);
          m0 = mm_loadu_ps x (p + 16 * int n);
          m1 = mm_loadu_ps x (p + 16 * int n + 4);
          m2 = mm_loadu_ps x (p + 16 * int n + 8);
          m3 = mm_loadu_ps x (p + 16 * int n + 12);
          m8 = mm_shuffle_ps m0 m1 (0, 2, 0, 2);
          m9 = mm_shuffle_ps m0 m1 (1, 3, 1, 3);
          m10 = mm_shuffle_ps m2 m3 (0, 2, 0, 2);
          m11 = mm_shuffle_ps m2 m3 (1, 3, 1, 3);
          m0 = mm_mul_ps m4 m8;
          m1 = mm_mul_ps m5 m9;
          m2 = mm_mul_ps m6 m10;
          m3 = mm_mul_ps m7 m11;
          m4 = mm_mul_ps m4 m9;
          m5 = mm_mul_ps m5 m8;
          m6 = mm_mul_ps m6 m11;
          m7 = mm_mul_ps m7 m10;
          m0 = mm_sub_ps m0 m1;
          m2 = mm_sub_ps m2 m3;
          m4 = mm_add_ps m4 m5;
          m6 = mm_add_ps m6 m7;
          m12 = mm_add_ps m12 m0;
          m13 = mm_add_ps m13 m2;
          m14 = mm_add_ps m14 m4;
          m15 = mm_add_ps m15 m6
      in (m12, m13, m14, m15)))"

definition sse_conv_cmplx_8n :: "'a::comm_ring_1 conv" where
  "sse_conv_cmplx_8n x x_len h h_len y y_len start len =
    (let xo = 2 * (- (h_len - 1) + start)
     in fold (\<lambda>i y.
          let m12 = mm_setzero_ps;
              m13 = mm_setzero_ps;
              m14 = mm_setzero_ps;
              m15 = mm_setzero_ps;
              (m12, m13, m14, m15) = fold (sse_conv_cmplx_8n_taps x h (xo + 2 * int i)) [0..<nat (h_len div 8)] (m12, m13, m14, m15);
              m0 = mm_add_ps m12 m13;
              m1 = mm_add_ps m14 m15;
              m2 = mm_hadd_ps m0 m1;
              m2 = mm_hadd_ps m2 m2;
              y = y[2 * i := mm_store_ss m2];
              m2 = mm_shuffle_ps m2 m2 (0, 3, 2, 1);
              y = y[2 * i + 1 := mm_store_ss m2]
          in y) [0..<nat len] y)"

section \<open>Choice of the routine\<close>

record 'a convolve_cpu_context =
  conv_cmplx_4n :: "'a conv"
  conv_cmplx_8n :: "'a conv"
  conv_cmplx :: "'a conv"
  conv_real4 :: "'a conv"
  conv_real8 :: "'a conv"
  conv_real12 :: "'a conv"
  conv_real16 :: "'a conv"
  conv_real20 :: "'a conv"
  conv_real4n :: "'a conv"
  conv_real :: "'a conv"

text \<open>\<open>sse3\<close> tells whether the program was built with SSE3 and runs on a processor that has it.\<close>

definition convolve_init :: "bool \<Rightarrow> 'a::comm_ring_1 convolve_cpu_context" where
  "convolve_init sse3 =
    (let c = \<lparr>conv_cmplx_4n = base_complex, conv_cmplx_8n = base_complex, conv_cmplx = base_complex,
              conv_real4 = base_real, conv_real8 = base_real, conv_real12 = base_real, conv_real16 = base_real,
              conv_real20 = base_real, conv_real4n = base_real, conv_real = base_real\<rparr>
     in if sse3
        then c\<lparr>conv_cmplx_4n := sse_conv_cmplx_4n, conv_cmplx_8n := sse_conv_cmplx_8n, conv_real4 := sse_conv_real4,
               conv_real8 := sse_conv_real8, conv_real12 := sse_conv_real12, conv_real16 := sse_conv_real16,
               conv_real20 := sse_conv_real20, conv_real4n := sse_conv_real4n\<rparr>
        else c)"

definition convolve_real :: "'a::comm_ring_1 convolve_cpu_context \<Rightarrow>
  (int \<Rightarrow> 'a) \<Rightarrow> int \<Rightarrow> (int \<Rightarrow> 'a) \<Rightarrow> int \<Rightarrow> 'a list \<Rightarrow> int \<Rightarrow> int \<Rightarrow> int \<Rightarrow> int \<times> 'a list" where
  "convolve_real c x x_len h h_len y y_len start len =
    (if bounds_check x_len h_len y_len start len < 0 then (-1, y)
     else
       let y = memset0 (len * 2) y;
           f = (if h_len = 4 then conv_real4 c
                else if h_len = 8 then conv_real8 c
                else if h_len = 12 then conv_real12 c
                else if h_len = 16 then conv_real16 c
                else if h_len = 20 then conv_real20 c
                else if h_len mod 4 = 0 then conv_real4n c
                else conv_real c)
       in (len, f x x_len h h_len y y_len start len))"

definition convolve_complex :: "'a::comm_ring_1 convolve_cpu_context \<Rightarrow>
  (int \<Rightarrow> 'a) \<Rightarrow> int \<Rightarrow> (int \<Rightarrow> 'a) \<Rightarrow> int \<Rightarrow> 'a list \<Rightarrow> int \<Rightarrow> int \<Rightarrow> int \<Rightarrow> int \<times> 'a list" where
  "convolve_complex c x x_len h h_len y y_len start len =
    (if bounds_check x_len h_len y_len start len < 0 then (-1, y)
     else
       let y = memset0 (len * 2) y;
           f = (if h_len mod 8 = 0 then conv_cmplx_8n c
                else if h_len mod 4 = 0 then conv_cmplx_4n c
                else conv_cmplx c)
       in (len, f x x_len h h_len y y_len start len))"

section \<open>The output of a loop over pairs\<close>

definition put_pairs :: "(nat \<Rightarrow> 'a) \<Rightarrow> (nat \<Rightarrow> 'a) \<Rightarrow> nat \<Rightarrow> 'a list \<Rightarrow> 'a list" where
  "put_pairs A B n y = fold (\<lambda>i y. y[2 * i := A i, 2 * i + 1 := B i]) [0..<n] y"

lemma put_pairs_0 [simp]: "put_pairs A B 0 y = y"
  by (simp add: put_pairs_def)

lemma put_pairs_Suc: "put_pairs A B (Suc n) y = (put_pairs A B n y)[2 * n := A n, 2 * n + 1 := B n]"
  by (simp add: put_pairs_def)

lemma length_put_pairs [simp]: "length (put_pairs A B n y) = length y"
  by (induction n) (simp_all add: put_pairs_Suc)

lemma put_pairs_nth:
  "2 * n \<le> length y \<Longrightarrow> k < length y \<Longrightarrow>
    put_pairs A B n y ! k = (if k < 2 * n then if even k then A (k div 2) else B (k div 2) else y ! k)"
proof (induction n)
  case (Suc n)
  then show ?case by (auto simp: put_pairs_Suc nth_list_update elim: evenE oddE)
qed simp

lemma put_pairs_foldI:
  assumes "\<And>i y. i < n \<Longrightarrow> f i y = y[2 * i := A i, 2 * i + 1 := B i]"
  shows "fold f [0..<n] y = put_pairs A B n y"
  unfolding put_pairs_def using assms by (intro fold_cong) auto

text \<open>The sums that each output is.\<close>

definition tapr_re :: "(int \<Rightarrow> 'a::comm_ring_1) \<Rightarrow> (int \<Rightarrow> 'a) \<Rightarrow> int \<Rightarrow> int \<Rightarrow> 'a" where
  "tapr_re x h p k = x (p + k) * h k"

definition tapr_im :: "(int \<Rightarrow> 'a::comm_ring_1) \<Rightarrow> (int \<Rightarrow> 'a) \<Rightarrow> int \<Rightarrow> int \<Rightarrow> 'a" where
  "tapr_im x h p k = x (p + k + 1) * h k"

definition tapc_re :: "(int \<Rightarrow> 'a::comm_ring_1) \<Rightarrow> (int \<Rightarrow> 'a) \<Rightarrow> int \<Rightarrow> int \<Rightarrow> 'a" where
  "tapc_re x h p k = x (p + k) * h k - x (p + k + 1) * h (k + 1)"

definition tapc_im :: "(int \<Rightarrow> 'a::comm_ring_1) \<Rightarrow> (int \<Rightarrow> 'a) \<Rightarrow> int \<Rightarrow> int \<Rightarrow> 'a" where
  "tapc_im x h p k = x (p + k) * h (k + 1) + x (p + k + 1) * h k"

definition tap_sum :: "(int \<Rightarrow> int \<Rightarrow> 'a::comm_ring_1) \<Rightarrow> int \<Rightarrow> nat \<Rightarrow> nat \<Rightarrow> 'a" where
  "tap_sum T xo n i = (\<Sum>k<n. T (xo + 2 * int i) (2 * int k))"

lemmas mm_defs = mm_loadu_ps_def mm_load_ps_def mm_setzero_ps_def mm_mul_ps_def mm_add_ps_def mm_sub_ps_def
  mm_store_ss_def

lemma sum_Suc_numeral: "(\<Sum>k<numeral n. f k) = (\<Sum>k<pred_numeral n. f k) + (f (pred_numeral n) :: 'a::comm_monoid_add)"
  by (simp only: numeral_eq_Suc sum.lessThan_Suc)

lemma put_pairs_sseI:
  assumes "\<And>i y X. mm_loadu_ps x (xo + 2 * int i) = M128 (X 0) (X 1) (X 2) (X 3) \<Longrightarrow>
    (\<And>j. mm_loadu_ps x (xo + 2 * int i + j) = M128 (X j) (X (j + 1)) (X (j + 2)) (X (j + 3))) \<Longrightarrow>
    f i y = y[2 * i := \<Sum>k<n. X (2 * int k) * h (2 * int k), 2 * i + 1 := \<Sum>k<n. X (2 * int k + 1) * h (2 * int k)]"
  shows "fold f [0..<m] y = put_pairs (tap_sum (tapr_re x h) xo n) (tap_sum (tapr_im x h) xo n) m y"
proof (rule put_pairs_foldI)
  fix i :: nat and y :: "'a list"
  let ?X = "\<lambda>j. x (xo + 2 * int i + j)"
  have "mm_loadu_ps x (xo + 2 * int i) = M128 (?X 0) (?X 1) (?X 2) (?X 3)"
    "mm_loadu_ps x (xo + 2 * int i + j) = M128 (?X j) (?X (j + 1)) (?X (j + 2)) (?X (j + 3))" for j
    by (simp_all add: mm_loadu_ps_def add.assoc)
  from assms [OF this] show "f i y = y[2 * i := tap_sum (tapr_re x h) xo n i, 2 * i + 1 := tap_sum (tapr_im x h) xo n i]"
    by (simp add: tap_sum_def tapr_re_def tapr_im_def add.assoc)
qed

lemmas mm_arith = mm_setzero_ps_def mm_mul_ps_def mm_add_ps_def mm_sub_ps_def mm_store_ss_def

lemma mm_load_ps_lanes: "mm_load_ps h j = M128 (h j) (h (j + 1)) (h (j + 2)) (h (j + 3))"
  by (simp add: mm_load_ps_def mm_loadu_ps_def)

lemmas sse_simps = mm_arith mm_load_ps_lanes sum_Suc_numeral

lemmas sse_prologue = Let_def [of "mm_load_ps _ _"] Let_def [of "mm_shuffle_ps _ _ _"]

lemma sse_real4_pairs:
  assumes "xo = 2 * (- (h_len - 1) + start)"
  shows "sse_conv_real4 x xl h h_len y yl start len = put_pairs (tap_sum (tapr_re x h) xo 4) (tap_sum (tapr_im x h) xo 4) (nat len) y"
  unfolding sse_conv_real4_def assms [symmetric] Let_def [of xo] sse_prologue
  by (rule put_pairs_sseI) (simp add: sse_simps Let_def, simp add: ac_simps)

lemma sse_real8_pairs:
  assumes "xo = 2 * (- (h_len - 1) + start)"
  shows "sse_conv_real8 x xl h h_len y yl start len = put_pairs (tap_sum (tapr_re x h) xo 8) (tap_sum (tapr_im x h) xo 8) (nat len) y"
  unfolding sse_conv_real8_def assms [symmetric] Let_def [of xo] sse_prologue
  by (rule put_pairs_sseI) (simp add: sse_simps Let_def, simp add: ac_simps)

lemma sse_real12_pairs:
  assumes "xo = 2 * (- (h_len - 1) + start)"
  shows "sse_conv_real12 x xl h h_len y yl start len = put_pairs (tap_sum (tapr_re x h) xo 12) (tap_sum (tapr_im x h) xo 12) (nat len) y"
  unfolding sse_conv_real12_def assms [symmetric] Let_def [of xo] sse_prologue
  by (rule put_pairs_sseI) (simp add: sse_simps Let_def, simp add: ac_simps)

lemma sse_real16_pairs:
  assumes "xo = 2 * (- (h_len - 1) + start)"
  shows "sse_conv_real16 x xl h h_len y yl start len = put_pairs (tap_sum (tapr_re x h) xo 16) (tap_sum (tapr_im x h) xo 16) (nat len) y"
  unfolding sse_conv_real16_def assms [symmetric] Let_def [of xo] sse_prologue
  by (rule put_pairs_sseI) (simp add: sse_simps Let_def, simp add: ac_simps)

lemma sse_real20_pairs:
  assumes "xo = 2 * (- (h_len - 1) + start)"
  shows "sse_conv_real20 x xl h h_len y yl start len = put_pairs (tap_sum (tapr_re x h) xo 20) (tap_sum (tapr_im x h) xo 20) (nat len) y"
  unfolding sse_conv_real20_def assms [symmetric] Let_def [of xo] sse_prologue
  by (rule put_pairs_sseI) (simp add: sse_simps Let_def, simp add: ac_simps)

section \<open>Four taps at a time\<close>

fun mm_total :: "'a::comm_monoid_add m128 \<Rightarrow> 'a" where
  "mm_total (M128 a b c d) = a + b + c + d"

lemma mm_total_add: "mm_total (mm_add_ps v w) = mm_total v + (mm_total w :: 'a::comm_ring_1)"
  by (cases v; cases w) (simp add: mm_add_ps_def ac_simps)

lemma mm_total_sub: "mm_total (mm_sub_ps v w) = mm_total v - (mm_total w :: 'a::comm_ring_1)"
  by (cases v; cases w) (simp add: mm_sub_ps_def algebra_simps)

lemma hadd_totals:
  "mm_hadd_ps (mm_hadd_ps v w) (mm_hadd_ps v w) =
    M128 (mm_total v) (mm_total w) (mm_total v) (mm_total w :: 'a::comm_ring_1)"
  by (cases v; cases w) (simp add: ac_simps)

lemma fold_totals:
  assumes "\<And>n s. T (f n s) = T s + (F n :: 'a::comm_ring_1)"
  shows "T (fold f [0..<N] s) = T s + (\<Sum>n<N. F n)"
  by (induction N) (simp_all add: assms ac_simps)

lemma sum_by_4: "(\<Sum>k<4 * (N::nat). f k) =
  (\<Sum>n<N. f (4 * n) + f (4 * n + 1) + f (4 * n + 2) + (f (4 * n + 3) :: 'a::comm_monoid_add))"
proof (induction N)
  case (Suc N)
  have "{..<4 * Suc N} = insert (4 * N) (insert (4 * N + 1) (insert (4 * N + 2) (insert (4 * N + 3) {..<4 * N})))"
    by auto
  then show ?case using Suc by (simp add: ac_simps)
qed simp

lemma real4n_taps_totals:
  "mm_total (fst (sse_conv_real4n_taps x h p n s)) = mm_total (fst s) +
     (tapr_re x h p (8 * int n) + tapr_re x h p (8 * int n + 2) + tapr_re x h p (8 * int n + 4) + tapr_re x h p (8 * int n + 6))"
  "mm_total (snd (sse_conv_real4n_taps x h p n s)) = mm_total (snd s) +
     (tapr_im x h p (8 * int n) + tapr_im x h p (8 * int n + 2) + tapr_im x h p (8 * int n + 4) + tapr_im x h p (8 * int n + 6))"
  by (simp_all add: sse_conv_real4n_taps_def split_beta Let_def mm_total_add mm_load_ps_lanes mm_loadu_ps_def
      mm_mul_ps_def tapr_re_def tapr_im_def)
    (simp_all add: ac_simps)

lemma fold_zero_totals:
  fixes f :: "nat \<Rightarrow> 'a::comm_ring_1 m128 \<times> 'a m128 \<Rightarrow> 'a m128 \<times> 'a m128"
  assumes "\<And>n s. mm_total (fst (f n s)) = mm_total (fst s) + F n"
    and "\<And>n s. mm_total (snd (f n s)) = mm_total (snd s) + G n"
  shows "mm_total (fst (fold f [0..<N] (mm_setzero_ps, mm_setzero_ps))) = (\<Sum>n<N. F n)"
    and "mm_total (snd (fold f [0..<N] (mm_setzero_ps, mm_setzero_ps))) = (\<Sum>n<N. G n)"
  using fold_totals [where T = "\<lambda>s. mm_total (fst s)" and f = f and F = F and N = N and s = "(mm_setzero_ps, mm_setzero_ps)"]
    fold_totals [where T = "\<lambda>s. mm_total (snd s)" and f = f and F = G and N = N and s = "(mm_setzero_ps, mm_setzero_ps)"] assms
  by (simp_all add: mm_setzero_ps_def)

lemma tap_sum_by_4:
  "tap_sum T xo (4 * N) i = (\<Sum>n<N. T (xo + 2 * int i) (8 * int n) + T (xo + 2 * int i) (8 * int n + 2) +
     T (xo + 2 * int i) (8 * int n + 4) + T (xo + 2 * int i) (8 * int n + 6))"
  by (simp add: tap_sum_def sum_by_4 add.commute)

lemma sse_real4n_pairs:
  assumes "xo = 2 * (- (h_len - 1) + start)" and "h_len = 4 * int N"
  shows "sse_conv_real4n x xl h h_len y yl start len =
    put_pairs (tap_sum (tapr_re x h) xo (4 * N)) (tap_sum (tapr_im x h) xo (4 * N)) (nat len) y"
  unfolding sse_conv_real4n_def assms(1) [symmetric] Let_def [of xo]
proof (rule put_pairs_foldI, goal_cases)
  case (1 i y)
  have N: "nat (h_len div 4) = N" using assms(2) by simp
  show ?case unfolding N tap_sum_by_4 fold_zero_totals [OF real4n_taps_totals, symmetric]
    by (simp add: Let_def split_beta hadd_totals mm_store_ss_def)
qed

lemma cmplx_4n_taps_totals:
  "mm_total (fst (sse_conv_cmplx_4n_taps x h p n s)) = mm_total (fst s) +
     (tapc_re x h p (8 * int n) + tapc_re x h p (8 * int n + 2) + tapc_re x h p (8 * int n + 4) + tapc_re x h p (8 * int n + 6))"
  "mm_total (snd (sse_conv_cmplx_4n_taps x h p n s)) = mm_total (snd s) +
     (tapc_im x h p (8 * int n) + tapc_im x h p (8 * int n + 2) + tapc_im x h p (8 * int n + 4) + tapc_im x h p (8 * int n + 6))"
  by (simp_all add: sse_conv_cmplx_4n_taps_def split_beta Let_def mm_total_add mm_total_sub mm_load_ps_lanes
      mm_loadu_ps_def mm_mul_ps_def tapc_re_def tapc_im_def)
    (simp_all add: algebra_simps)

lemma sse_cmplx_4n_pairs:
  assumes "xo = 2 * (- (h_len - 1) + start)" and "h_len = 4 * int N"
  shows "sse_conv_cmplx_4n x xl h h_len y yl start len =
    put_pairs (tap_sum (tapc_re x h) xo (4 * N)) (tap_sum (tapc_im x h) xo (4 * N)) (nat len) y"
  unfolding sse_conv_cmplx_4n_def assms(1) [symmetric] Let_def [of xo]
proof (rule put_pairs_foldI, goal_cases)
  case (1 i y)
  have N: "nat (h_len div 4) = N" using assms(2) by simp
  show ?case unfolding N tap_sum_by_4 fold_zero_totals [OF cmplx_4n_taps_totals, symmetric]
    by (simp add: Let_def split_beta hadd_totals mm_store_ss_def)
qed

text \<open>The routine for multiples of eight keeps two accumulators for each part.\<close>

definition sum2_totals :: "'a::comm_ring_1 m128 \<times> 'a m128 \<times> 'a m128 \<times> 'a m128 \<Rightarrow> 'a \<times> 'a" where
  "sum2_totals s = (case s of (a, b, c, d) \<Rightarrow> (mm_total a + mm_total b, mm_total c + mm_total d))"

lemma cmplx_8n_taps_totals:
  "fst (sum2_totals (sse_conv_cmplx_8n_taps x h p n s)) = fst (sum2_totals s) +
     (tapc_re x h p (16 * int n) + tapc_re x h p (16 * int n + 2) + tapc_re x h p (16 * int n + 4) +
      tapc_re x h p (16 * int n + 6) + tapc_re x h p (16 * int n + 8) + tapc_re x h p (16 * int n + 10) +
      tapc_re x h p (16 * int n + 12) + tapc_re x h p (16 * int n + 14))"
  "snd (sum2_totals (sse_conv_cmplx_8n_taps x h p n s)) = snd (sum2_totals s) +
     (tapc_im x h p (16 * int n) + tapc_im x h p (16 * int n + 2) + tapc_im x h p (16 * int n + 4) +
      tapc_im x h p (16 * int n + 6) + tapc_im x h p (16 * int n + 8) + tapc_im x h p (16 * int n + 10) +
      tapc_im x h p (16 * int n + 12) + tapc_im x h p (16 * int n + 14))"
  by (simp_all add: sum2_totals_def sse_conv_cmplx_8n_taps_def split_beta Let_def mm_total_add mm_total_sub
      mm_load_ps_lanes mm_loadu_ps_def mm_mul_ps_def tapc_re_def tapc_im_def)
    (simp_all add: algebra_simps)

lemma sum_by_8: "(\<Sum>k<8 * (N::nat). f k) =
  (\<Sum>n<N. f (8 * n) + f (8 * n + 1) + f (8 * n + 2) + f (8 * n + 3) +
     f (8 * n + 4) + f (8 * n + 5) + f (8 * n + 6) + (f (8 * n + 7) :: 'a::comm_monoid_add))"
proof (induction N)
  case (Suc N)
  have "{..<8 * Suc N} = insert (8 * N) (insert (8 * N + 1) (insert (8 * N + 2) (insert (8 * N + 3)
    (insert (8 * N + 4) (insert (8 * N + 5) (insert (8 * N + 6) (insert (8 * N + 7) {..<8 * N})))))))" by auto
  then show ?case using Suc by (simp add: ac_simps)
qed simp

lemma sse_cmplx_8n_pairs:
  assumes "xo = 2 * (- (h_len - 1) + start)" and "h_len = 8 * int N"
  shows "sse_conv_cmplx_8n x xl h h_len y yl start len =
    put_pairs (tap_sum (tapc_re x h) xo (8 * N)) (tap_sum (tapc_im x h) xo (8 * N)) (nat len) y"
  unfolding sse_conv_cmplx_8n_def assms(1) [symmetric] Let_def [of xo]
proof (rule put_pairs_foldI, goal_cases)
  case (1 i y)
  have N: "nat (h_len div 8) = N" using assms(2) by simp
  let ?z = "(mm_setzero_ps, mm_setzero_ps, mm_setzero_ps, mm_setzero_ps)"
  obtain a b c d where s: "fold (sse_conv_cmplx_8n_taps x h (xo + 2 * int i)) [0..<N] ?z = (a, b, c, d)"
    by (rule prod_cases4)
  have "fst (sum2_totals (fold (sse_conv_cmplx_8n_taps x h (xo + 2 * int i)) [0..<N] ?z)) = tap_sum (tapc_re x h) xo (8 * N) i"
    by (subst fold_totals [where T = "\<lambda>s. fst (sum2_totals s)", OF cmplx_8n_taps_totals(1)])
      (simp add: tap_sum_def sum_by_8 sum2_totals_def mm_setzero_ps_def add.commute)
  moreover have "snd (sum2_totals (fold (sse_conv_cmplx_8n_taps x h (xo + 2 * int i)) [0..<N] ?z)) = tap_sum (tapc_im x h) xo (8 * N) i"
    by (subst fold_totals [where T = "\<lambda>s. snd (sum2_totals s)", OF cmplx_8n_taps_totals(2)])
      (simp add: tap_sum_def sum_by_8 sum2_totals_def mm_setzero_ps_def add.commute)
  ultimately show ?case unfolding N Let_def s
    by (simp add: hadd_totals mm_store_ss_def sum2_totals_def mm_total_add)
qed

section \<open>The base routines compute the sums\<close>

lemma mac_real_vec_sum:
  "yi + 1 < length y \<Longrightarrow> mac_real_vec_n x xi h y yi n =
    y[yi := y ! yi + (\<Sum>k<nat n. tapr_re x h xi (2 * int k)), yi + 1 := y ! (yi + 1) + (\<Sum>k<nat n. tapr_im x h xi (2 * int k))]"
  unfolding mac_real_vec_n_def
proof (induction "nat n" arbitrary: n)
  case (Suc m)
  from Suc.hyps(1) [of "int m"] Suc.prems
  have IH: "fold (\<lambda>i y. mac_real x (xi + 2 * int i) h (2 * int i) y yi) [0..<m] y =
    y[yi := y ! yi + (\<Sum>k<m. tapr_re x h xi (2 * int k)), yi + 1 := y ! (yi + 1) + (\<Sum>k<m. tapr_im x h xi (2 * int k))]"
    by simp
  show ?case
    unfolding Suc.hyps(2) [symmetric] upt_Suc_append [OF le0] fold_append comp_apply IH
    using Suc.prems
    by (simp add: mac_real_def Let_def tapr_re_def tapr_im_def list_update_swap [of "Suc yi"] add.assoc)
qed simp

lemma mac_cmplx_vec_sum:
  "yi + 1 < length y \<Longrightarrow> mac_cmplx_vec_n x xi h y yi n =
    y[yi := y ! yi + (\<Sum>k<nat n. tapc_re x h xi (2 * int k)), yi + 1 := y ! (yi + 1) + (\<Sum>k<nat n. tapc_im x h xi (2 * int k))]"
  unfolding mac_cmplx_vec_n_def
proof (induction "nat n" arbitrary: n)
  case (Suc m)
  from Suc.hyps(1) [of "int m"] Suc.prems
  have IH: "fold (\<lambda>i y. mac_cmplx x (xi + 2 * int i) h (2 * int i) y yi) [0..<m] y =
    y[yi := y ! yi + (\<Sum>k<m. tapc_re x h xi (2 * int k)), yi + 1 := y ! (yi + 1) + (\<Sum>k<m. tapc_im x h xi (2 * int k))]"
    by simp
  show ?case
    unfolding Suc.hyps(2) [symmetric] upt_Suc_append [OF le0] fold_append comp_apply IH
    using Suc.prems
    by (simp add: mac_cmplx_def Let_def tapc_re_def tapc_im_def list_update_swap [of "Suc yi"] add.assoc)
qed simp

text \<open>A loop that adds to each pair of an output of zeros.\<close>

lemma fold_add_pairs:
  assumes "\<And>i y. 2 * i + 1 < length y \<Longrightarrow> f i y = y[2 * i := y ! (2 * i) + A i, 2 * i + 1 := y ! (2 * i + 1) + (B i :: 'a::comm_ring_1)]"
    and "2 * n \<le> length y" and "\<forall>k < 2 * n. y ! k = 0"
  shows "fold f [0..<n] y = put_pairs A B n y"
  using assms(2,3)
proof (induction n)
  case (Suc n)
  have "put_pairs A B n y ! (2 * n) = 0" "put_pairs A B n y ! (2 * n + 1) = 0"
    using Suc.prems by (simp_all add: put_pairs_nth)
  then show ?case using Suc assms(1) [of n "put_pairs A B n y"] by (simp add: put_pairs_Suc)
qed simp

lemma memset0_props:
  "n \<le> int (length y) \<Longrightarrow> length (memset0 n y) = length y" "k < nat n \<Longrightarrow> memset0 n y ! k = 0"
  "nat n \<le> k \<Longrightarrow> n \<le> int (length y) \<Longrightarrow> memset0 n y ! k = y ! k"
  by (auto simp: memset0_def nth_append)

lemma base_real_pairs:
  assumes "2 * len \<le> int (length y)"
  shows "base_real x xl h h_len (memset0 (len * 2) y) yl start len =
    put_pairs (tap_sum (tapr_re x h) (2 * (- (h_len - 1) + start)) (nat h_len))
      (tap_sum (tapr_im x h) (2 * (- (h_len - 1) + start)) (nat h_len)) (nat len) (memset0 (len * 2) y)"
  unfolding base_real_def
proof (rule fold_add_pairs)
  show "2 * nat len \<le> length (memset0 (len * 2) y)" using assms by (simp add: memset0_props)
  show "\<forall>k<2 * nat len. memset0 (len * 2) y ! k = 0" by (simp add: memset0_props nat_mult_distrib)
qed (simp add: mac_real_vec_sum tap_sum_def algebra_simps)

lemma base_complex_pairs:
  assumes "2 * len \<le> int (length y)"
  shows "base_complex x xl h h_len (memset0 (len * 2) y) yl start len =
    put_pairs (tap_sum (tapc_re x h) (2 * (- (h_len - 1) + start)) (nat h_len))
      (tap_sum (tapc_im x h) (2 * (- (h_len - 1) + start)) (nat h_len)) (nat len) (memset0 (len * 2) y)"
  unfolding base_complex_def
proof (rule fold_add_pairs)
  show "2 * nat len \<le> length (memset0 (len * 2) y)" using assms by (simp add: memset0_props)
  show "\<forall>k<2 * nat len. memset0 (len * 2) y ! k = 0" by (simp add: memset0_props nat_mult_distrib)
qed (simp add: mac_cmplx_vec_sum tap_sum_def algebra_simps)

lemma bounds_check_ok:
  "\<not> bounds_check x_len h_len y_len start len < 0 \<longleftrightarrow>
    1 \<le> x_len \<and> 1 \<le> h_len \<and> 1 \<le> len \<and> start + len \<le> x_len \<and> len \<le> y_len \<and> h_len \<le> x_len"
  by (auto simp: bounds_check_def)

lemma taps_multiple:
  assumes "1 \<le> h_len" and "h_len mod d = 0" and "0 < (d::int)"
  shows "h_len = d * int (nat (h_len div d)) \<and> nat h_len = nat d * nat (h_len div d)"
proof -
  obtain m where m: "h_len = d * m" using assms(2) by (auto simp: mod_eq_0_iff_dvd elim: dvdE)
  then have "0 \<le> m" using assms(1,3) by (metis int_one_le_iff_zero_less less_imp_le zero_less_mult_pos)
  then show ?thesis using assms(3) by (simp add: m nat_mult_distrib)
qed

lemmas four_taps = taps_multiple [where d = 4, simplified]
lemmas eight_taps = taps_multiple [where d = 8, simplified]

lemma convolve_equals_base_aux:
  assumes "2 * y_len \<le> int (length y)"
  shows "convolve_real (convolve_init sse3) x x_len h h_len y y_len start len =
      base_convolve_real x x_len h h_len y y_len start len \<and>
    convolve_complex (convolve_init sse3) x x_len h h_len y y_len start len =
      base_convolve_complex x x_len h h_len y y_len start len"
proof (cases "bounds_check x_len h_len y_len start len < 0")
  case True
  then show ?thesis
    by (simp add: convolve_real_def convolve_complex_def base_convolve_real_def base_convolve_complex_def)
next
  case False
  then have l: "2 * len \<le> int (length y)" and h1: "1 \<le> h_len" using assms by (simp_all add: bounds_check_ok)
  let ?y = "memset0 (len * 2) y"
  note base = base_real_pairs [OF l] base_complex_pairs [OF l]
  have r4: "h_len mod 4 = 0 \<Longrightarrow> sse_conv_real4n x x_len h h_len ?y y_len start len = base_real x x_len h h_len ?y y_len start len"
    using sse_real4n_pairs [OF refl, of h_len "nat (h_len div 4)"] four_taps [OF h1] by (simp add: base)
  have c4: "h_len mod 4 = 0 \<Longrightarrow> sse_conv_cmplx_4n x x_len h h_len ?y y_len start len = base_complex x x_len h h_len ?y y_len start len"
    using sse_cmplx_4n_pairs [OF refl, of h_len "nat (h_len div 4)"] four_taps [OF h1] by (simp add: base)
  have c8: "h_len mod 8 = 0 \<Longrightarrow> sse_conv_cmplx_8n x x_len h h_len ?y y_len start len = base_complex x x_len h h_len ?y y_len start len"
    using sse_cmplx_8n_pairs [OF refl, of h_len "nat (h_len div 8)"] eight_taps [OF h1] by (simp add: base)
  show ?thesis
    using False r4 c4 c8
    by (auto simp: convolve_real_def convolve_complex_def base_convolve_real_def base_convolve_complex_def
        convolve_init_def Let_def base sse_real4_pairs [OF refl] sse_real8_pairs [OF refl] sse_real12_pairs [OF refl]
        sse_real16_pairs [OF refl] sse_real20_pairs [OF refl])
qed

text \<open>C15. On every processor the convolution returns what the base convolution returns, for all numbers of
  taps, real and complex.\<close>

theorem convolve_equals_base:
  assumes "2 * y_len \<le> int (length y)"
  shows "convolve_real (convolve_init sse3) x x_len h h_len y y_len start len =
      base_convolve_real x x_len h h_len y y_len start len \<and>
    convolve_complex (convolve_init sse3) x x_len h h_len y y_len start len =
      base_convolve_complex x x_len h h_len y y_len start len"
  using convolve_equals_base_aux [OF assms] .

text \<open>The real convolution as the loop over its outputs.\<close>

lemma convolve_real_pairs:
  assumes "2 * y_len \<le> int (length y)" and "1 \<le> x_len" and "1 \<le> h_len" and "1 \<le> len"
    and "start + len \<le> x_len" and "len \<le> y_len" and "h_len \<le> x_len"
  shows "convolve_real (convolve_init sse3) x x_len h h_len y y_len start len =
    (len, put_pairs (tap_sum (tapr_re x h) (2 * (- (h_len - 1) + start)) (nat h_len))
      (tap_sum (tapr_im x h) (2 * (- (h_len - 1) + start)) (nat h_len)) (nat len) (memset0 (len * 2) y))"
proof -
  have "\<not> bounds_check x_len h_len y_len start len < 0" using assms by (simp add: bounds_check_ok)
  moreover have "2 * len \<le> int (length y)" using assms by simp
  ultimately show ?thesis
    using convolve_equals_base_aux [OF assms(1), of sse3 x x_len h h_len start len]
    by (simp add: base_convolve_real_def base_real_pairs)
qed

text \<open>The base convolution refuses exactly the buffers that are too short. Otherwise output \<open>i\<close> is the sum
  over the taps of the input that ends at sample \<open>start + i\<close>, and what follows the outputs is kept.\<close>

theorem convolve_sums:
  assumes "2 * y_len \<le> int (length y)"
  shows "if 1 \<le> x_len \<and> 1 \<le> h_len \<and> 1 \<le> len \<and> start + len \<le> x_len \<and> len \<le> y_len \<and> h_len \<le> x_len
    then \<exists>y'. base_convolve_complex x x_len h h_len y y_len start len = (len, y') \<and> length y' = length y \<and>
      (\<forall>i < nat len.
        y' ! (2 * i) = (\<Sum>k < nat h_len.
          let s = 2 * (start + int i - (h_len - 1) + int k) in x s * h (2 * int k) - x (s + 1) * h (2 * int k + 1)) \<and>
        y' ! (2 * i + 1) = (\<Sum>k < nat h_len.
          let s = 2 * (start + int i - (h_len - 1) + int k) in x s * h (2 * int k + 1) + x (s + 1) * h (2 * int k))) \<and>
      (\<forall>k. nat (2 * len) \<le> k \<longrightarrow> k < length y \<longrightarrow> y' ! k = y ! k)
    else base_convolve_complex x x_len h h_len y y_len start len = (-1, y)"
proof (cases "bounds_check x_len h_len y_len start len < 0")
  case True
  then show ?thesis using bounds_check_ok [of x_len h_len y_len start len]
    by (auto simp: base_convolve_complex_def)
next
  case False
  note ok = False [unfolded bounds_check_ok]
  then have l: "2 * len \<le> int (length y)" using assms by simp
  let ?y = "memset0 (len * 2) y"
  let ?xo = "2 * (- (h_len - 1) + start)"
  let ?r = "put_pairs (tap_sum (tapc_re x h) ?xo (nat h_len)) (tap_sum (tapc_im x h) ?xo (nat h_len)) (nat len) ?y"
  have r: "base_convolve_complex x x_len h h_len y y_len start len = (len, ?r)"
    using False by (simp add: base_convolve_complex_def base_complex_pairs [OF l])
  have ly: "length ?y = length y" and n: "2 * nat len \<le> length ?y" using l ok by (simp_all add: memset0_props)
  have s: "?xo + 2 * int i + 2 * int k = 2 * (start + int i - (h_len - 1) + int k)" for i k by simp
  have "?r ! (2 * i) = tap_sum (tapc_re x h) ?xo (nat h_len) i" "?r ! (2 * i + 1) = tap_sum (tapc_im x h) ?xo (nat h_len) i"
    if "i < nat len" for i using that n by (simp_all add: put_pairs_nth)
  moreover have "?r ! k = y ! k" if "nat (2 * len) \<le> k" "k < length y" for k
    using that n ly ok l by (simp add: put_pairs_nth memset0_props nat_mult_distrib mult.commute)
  ultimately show ?thesis
    using ok r ly unfolding tap_sum_def tapc_re_def tapc_im_def s Let_def by auto
qed

theorem convolve_equals_base_witness:
  "convolve_real (convolve_init True) (\<lambda>i. i + 3 :: int) 4 (\<lambda>i. i * i) 4 [9, 9, 9, 9] 2 1 2 =
     base_convolve_real (\<lambda>i. i + 3) 4 (\<lambda>i. i * i) 4 [9, 9, 9, 9] 2 1 2 \<and>
   convolve_complex (convolve_init True) (\<lambda>i. i + 3 :: int) 4 (\<lambda>i. i * i) 4 [9, 9, 9, 9] 2 1 2 =
     base_convolve_complex (\<lambda>i. i + 3) 4 (\<lambda>i. i * i) 4 [9, 9, 9, 9] 2 1 2"
  by (rule convolve_equals_base) simp

theorem convolve_sums_witness:
  "\<exists>y'. base_convolve_complex (\<lambda>i. i + 3 :: int) 4 (\<lambda>i. i * i) 2 [9, 9, 9, 9] 2 1 1 = (1, y') \<and>
     length y' = 4 \<and> y' ! 0 = (0 + 3) * 0 - (1 + 3) * 1 + ((2 + 3) * 4 - (3 + 3) * 9) \<and> y' ! 3 = 9"
  using convolve_sums [where x = "\<lambda>i. i + 3 :: int" and x_len = 4 and h = "\<lambda>i. i * i" and h_len = 2 and
      y = "[9, 9, 9, 9]" and y_len = 2 and start = 1 and len = 1]
  by (auto simp: numeral_2_eq_2 numeral_3_eq_3)

end
