(* ===== verification/Convert.thy ===== *)
theory Convert
  imports Complex_Main Prelude
begin

text \<open>
  Conversion between floats and 16-bit samples: the base routines (\<^verbatim>\<open>arch/common/convert_base.c\<close>), the
  SSE routines (\<^verbatim>\<open>arch/x86/convert_sse_3.c\<close>, \<^verbatim>\<open>convert_sse_4_1.c\<close>) and the choice between them
  (\<^verbatim>\<open>arch/x86/convert.c\<close>).

  Floats are real numbers and shorts are integers. An input is a function from the index, an output a
  list that is updated; an update past its end, an overrun of the output buffer, has no effect here, and
  the theorems ask for a buffer that is long enough. The conversion of a float that no short can hold is
  undefined in C and is \<open>None\<close>; the instruction saturates.
\<close>

section \<open>Base routines\<close>

definition c_short :: "real \<Rightarrow> int option" where
  "c_short r =
    (let n = (if 0 \<le> r then \<lfloor>r\<rfloor> else \<lceil>r\<rceil>) in if -32768 \<le> n \<and> n \<le> 32767 then Some n else None)"

fun float_short_loop :: "nat \<Rightarrow> nat \<Rightarrow> int list \<Rightarrow> (nat \<Rightarrow> real) \<Rightarrow> real \<Rightarrow> int list option" where
  "float_short_loop i 0 out inp scale = Some out"
| "float_short_loop i (Suc n) out inp scale =
     (case c_short (inp i * scale) of
        None \<Rightarrow> None
      | Some v \<Rightarrow> float_short_loop (i + 1) n (out[i := v]) inp scale)"

definition base_convert_float_short :: "int list \<Rightarrow> (nat \<Rightarrow> real) \<Rightarrow> real \<Rightarrow> nat \<Rightarrow> int list option" where
  "base_convert_float_short out inp scale len = float_short_loop 0 len out inp scale"

definition short_float_loop :: "nat \<Rightarrow> nat \<Rightarrow> real list \<Rightarrow> (nat \<Rightarrow> int) \<Rightarrow> real list" where
  "short_float_loop i n out inp = fold (\<lambda>k out. out[k := real_of_int (inp k)]) [i..<i + n] out"

definition base_convert_short_float :: "real list \<Rightarrow> (nat \<Rightarrow> int) \<Rightarrow> nat \<Rightarrow> real list" where
  "base_convert_short_float out inp len = short_float_loop 0 len out inp"

section \<open>Instructions\<close>

text \<open>A register is the list of its lanes. The conversion to 32 bits rounds to the nearest integer, to an
  even one in the middle, and yields the least integer for what does not fit.\<close>

definition round_even :: "real \<Rightarrow> int" where
  "round_even r =
    (let f = \<lfloor>r\<rfloor>; d = r - of_int f
     in if d < 1 / 2 then f else if d > 1 / 2 then f + 1 else if even f then f else f + 1)"

definition cvt_epi32 :: "real \<Rightarrow> int" where
  "cvt_epi32 r = (let n = round_even r in if - (2 ^ 31) \<le> n \<and> n < 2 ^ 31 then n else - (2 ^ 31))"

definition sat16 :: "int \<Rightarrow> int" where
  "sat16 n = (if n < -32768 then -32768 else if n > 32767 then 32767 else n)"

definition mm_load4 :: "(nat \<Rightarrow> 'a) \<Rightarrow> nat \<Rightarrow> 'a list" where
  "mm_load4 p i = [p i, p (i + 1), p (i + 2), p (i + 3)]"

definition mm_load8 :: "(nat \<Rightarrow> 'a) \<Rightarrow> nat \<Rightarrow> 'a list" where
  "mm_load8 p i = mm_load4 p i @ mm_load4 p (i + 4)"

definition mm_load1_ps :: "real \<Rightarrow> real list" where
  "mm_load1_ps r = [r, r, r, r]"

definition mm_mul4 :: "real list \<Rightarrow> real list \<Rightarrow> real list" where
  "mm_mul4 a b = map2 (*) a b"

definition mm_cvtps_epi32 :: "real list \<Rightarrow> int list" where
  "mm_cvtps_epi32 a = map cvt_epi32 a"

definition mm_packs_epi32 :: "int list \<Rightarrow> int list \<Rightarrow> int list" where
  "mm_packs_epi32 a b = map sat16 (a @ b)"

definition mm_cvtepi16_epi32 :: "int list \<Rightarrow> int list" where
  "mm_cvtepi16_epi32 a = take 4 a"

text \<open>The shuffle with \<open>_MM_SHUFFLE(1, 0, 3, 2)\<close> of a register of eight shorts, by its 32-bit lanes.\<close>

definition mm_shuffle_1032 :: "int list \<Rightarrow> int list" where
  "mm_shuffle_1032 a = [a ! 4, a ! 5, a ! 6, a ! 7, a ! 0, a ! 1, a ! 2, a ! 3]"

definition mm_cvtepi32_ps :: "int list \<Rightarrow> real list" where
  "mm_cvtepi32_ps a = map of_int a"

fun mm_store :: "'a list \<Rightarrow> nat \<Rightarrow> 'a list \<Rightarrow> 'a list" where
  "mm_store out i [] = out"
| "mm_store out i (v # vs) = mm_store (out[i := v]) (i + 1) vs"

section \<open>SSE routines\<close>

definition sse_convert_scale_ps_si16_8n :: "int list \<Rightarrow> (nat \<Rightarrow> real) \<Rightarrow> real \<Rightarrow> nat \<Rightarrow> int list" where
  "sse_convert_scale_ps_si16_8n out inp scale len =
    fold (\<lambda>i out.
      let m0 = mm_load4 inp (8 * i);
          m1 = mm_load4 inp (8 * i + 4);
          m2 = mm_load1_ps scale;
          m0 = mm_mul4 m0 m2;
          m1 = mm_mul4 m1 m2;
          m4 = mm_cvtps_epi32 m0;
          m5 = mm_cvtps_epi32 m1;
          m5 = mm_packs_epi32 m4 m5
      in mm_store out (8 * i) m5) [0..<len div 8] out"

definition sse_convert_scale_ps_si16 :: "int list \<Rightarrow> (nat \<Rightarrow> real) \<Rightarrow> real \<Rightarrow> nat \<Rightarrow> int list option" where
  "sse_convert_scale_ps_si16 out inp scale len =
    (let start = len div 8 * 8
     in float_short_loop start (len mod 8) (sse_convert_scale_ps_si16_8n out inp scale len) inp scale)"

definition sse_convert_scale_ps_si16_16n :: "int list \<Rightarrow> (nat \<Rightarrow> real) \<Rightarrow> real \<Rightarrow> nat \<Rightarrow> int list" where
  "sse_convert_scale_ps_si16_16n out inp scale len =
    fold (\<lambda>i out.
      let m0 = mm_load4 inp (16 * i);
          m1 = mm_load4 inp (16 * i + 4);
          m2 = mm_load4 inp (16 * i + 8);
          m3 = mm_load4 inp (16 * i + 12);
          m4 = mm_load1_ps scale;
          m0 = mm_mul4 m0 m4;
          m1 = mm_mul4 m1 m4;
          m2 = mm_mul4 m2 m4;
          m3 = mm_mul4 m3 m4;
          m5 = mm_cvtps_epi32 m0;
          m6 = mm_cvtps_epi32 m1;
          m7 = mm_cvtps_epi32 m2;
          m8 = mm_cvtps_epi32 m3;
          m5 = mm_packs_epi32 m5 m6;
          m7 = mm_packs_epi32 m7 m8;
          out = mm_store out (16 * i) m5
      in mm_store out (16 * i + 8) m7) [0..<len div 16] out"

definition sse_convert_si16_ps_16n :: "real list \<Rightarrow> (nat \<Rightarrow> int) \<Rightarrow> nat \<Rightarrow> real list" where
  "sse_convert_si16_ps_16n out inp len =
    fold (\<lambda>i out.
      let m0 = mm_load8 inp (16 * i);
          m1 = mm_load8 inp (16 * i + 8);
          m2 = mm_cvtepi16_epi32 m0;
          m4 = mm_cvtepi16_epi32 m1;
          m0 = mm_shuffle_1032 m0;
          m1 = mm_shuffle_1032 m1;
          m3 = mm_cvtepi16_epi32 m0;
          m5 = mm_cvtepi16_epi32 m1;
          m6 = mm_cvtepi32_ps m2;
          m7 = mm_cvtepi32_ps m3;
          m8 = mm_cvtepi32_ps m4;
          m9 = mm_cvtepi32_ps m5;
          out = mm_store out (16 * i) m6;
          out = mm_store out (16 * i + 4) m7;
          out = mm_store out (16 * i + 8) m8
      in mm_store out (16 * i + 12) m9) [0..<len div 16] out"

definition sse_convert_si16_ps :: "real list \<Rightarrow> (nat \<Rightarrow> int) \<Rightarrow> nat \<Rightarrow> real list" where
  "sse_convert_si16_ps out inp len =
    (let start = len div 16 * 16
     in short_float_loop start (len mod 16) (sse_convert_si16_ps_16n out inp len) inp)"

section \<open>Choice of the routine\<close>

record convert_cpu_context =
  cv_si16_ps_16n :: "real list \<Rightarrow> (nat \<Rightarrow> int) \<Rightarrow> nat \<Rightarrow> real list"
  cv_si16_ps :: "real list \<Rightarrow> (nat \<Rightarrow> int) \<Rightarrow> nat \<Rightarrow> real list"
  cv_scale_ps_si16_16n :: "int list \<Rightarrow> (nat \<Rightarrow> real) \<Rightarrow> real \<Rightarrow> nat \<Rightarrow> int list option"
  cv_scale_ps_si16_8n :: "int list \<Rightarrow> (nat \<Rightarrow> real) \<Rightarrow> real \<Rightarrow> nat \<Rightarrow> int list option"
  cv_scale_ps_si16 :: "int list \<Rightarrow> (nat \<Rightarrow> real) \<Rightarrow> real \<Rightarrow> nat \<Rightarrow> int list option"

definition convert_init :: "bool \<Rightarrow> bool \<Rightarrow> convert_cpu_context" where
  "convert_init sse41 sse3 =
    (let c = \<lparr>cv_si16_ps_16n = base_convert_short_float, cv_si16_ps = base_convert_short_float,
              cv_scale_ps_si16_16n = base_convert_float_short, cv_scale_ps_si16_8n = base_convert_float_short,
              cv_scale_ps_si16 = base_convert_float_short\<rparr>;
         c = (if sse41 then c\<lparr>cv_si16_ps_16n := sse_convert_si16_ps_16n, cv_si16_ps := sse_convert_si16_ps\<rparr> else c)
     in if sse3
        then c\<lparr>cv_scale_ps_si16_16n := (\<lambda>out inp scale len. Some (sse_convert_scale_ps_si16_16n out inp scale len)),
               cv_scale_ps_si16_8n := (\<lambda>out inp scale len. Some (sse_convert_scale_ps_si16_8n out inp scale len)),
               cv_scale_ps_si16 := sse_convert_scale_ps_si16\<rparr>
        else c)"

definition convert_float_short :: "convert_cpu_context \<Rightarrow> int list \<Rightarrow> (nat \<Rightarrow> real) \<Rightarrow> real \<Rightarrow> nat \<Rightarrow> int list option" where
  "convert_float_short c out inp scale len =
    (if len mod 16 = 0 then cv_scale_ps_si16_16n c out inp scale len
     else if len mod 8 = 0 then cv_scale_ps_si16_8n c out inp scale len
     else cv_scale_ps_si16 c out inp scale len)"

definition convert_short_float :: "convert_cpu_context \<Rightarrow> real list \<Rightarrow> (nat \<Rightarrow> int) \<Rightarrow> nat \<Rightarrow> real list" where
  "convert_short_float c out inp len =
    (if len mod 16 = 0 then cv_si16_ps_16n c out inp len else cv_si16_ps c out inp len)"

section \<open>Stores and loops\<close>

text \<open>\<open>fill_from F i n out\<close> is \<open>out\<close> with the values of \<open>F\<close> at the indexes \<open>i\<close> to \<open>i + n - 1\<close>.\<close>

definition fill_from :: "(nat \<Rightarrow> 'a) \<Rightarrow> nat \<Rightarrow> nat \<Rightarrow> 'a list \<Rightarrow> 'a list" where
  "fill_from F i n out = fold (\<lambda>k out. out[k := F k]) [i..<i + n] out"

lemma fill_from_0 [simp]: "fill_from F i 0 out = out"
  by (simp add: fill_from_def)

lemma fill_from_Suc: "fill_from F i (Suc n) out = (fill_from F i n out)[i + n := F (i + n)]"
  by (simp add: fill_from_def)

lemma fill_from_add: "fill_from F i (m + n) out = fill_from F (i + m) n (fill_from F i m out)"
  by (induction n) (simp_all add: fill_from_Suc add.assoc)

lemma length_fill_from [simp]: "length (fill_from F i n out) = length out"
  by (induction n) (simp_all add: fill_from_Suc)

lemma fill_from_nth:
  "k < length out \<Longrightarrow> fill_from F i n out ! k = (if i \<le> k \<and> k < i + n then F k else out ! k)"
  by (induction n) (auto simp: fill_from_Suc nth_list_update less_Suc_eq)

lemma fill_from_8:
  "fill_from F i 8 out = out[i := F i, i + 1 := F (i + 1), i + 2 := F (i + 2), i + 3 := F (i + 3),
     i + 4 := F (i + 4), i + 5 := F (i + 5), i + 6 := F (i + 6), i + 7 := F (i + 7)]"
  by (simp add: eval_nat_numeral fill_from_Suc)

lemma fill_from_16: "fill_from F i 16 out = fill_from F (i + 8) 8 (fill_from F i 8 out)"
  using fill_from_add [of F i 8 8 out] by simp

lemma mm_store_4: "mm_store out i [a, b, c, d] = out[i := a, i + 1 := b, i + 2 := c, i + 3 := d]"
  by (simp add: eval_nat_numeral)

lemma mm_store_8:
  "mm_store out i [a, b, c, d, e, f, g, h] =
    out[i := a, i + 1 := b, i + 2 := c, i + 3 := d, i + 4 := e, i + 5 := f, i + 6 := g, i + 7 := h]"
  by (simp add: eval_nat_numeral)

lemma fold_blocks:
  assumes "\<And>i out. f i out = fill_from F (b * i) b out"
  shows "fold f [0..<n] out = fill_from F 0 (b * n) out"
proof (induction n)
  case (Suc n)
  then show ?case using fill_from_add [of F 0 "b * n" b out] assms by (simp add: add.commute)
qed simp

lemma short_float_loop_fill: "short_float_loop i n out inp = fill_from (\<lambda>k. real_of_int (inp k)) i n out"
  by (simp add: short_float_loop_def fill_from_def)

definition sse_short :: "(nat \<Rightarrow> real) \<Rightarrow> real \<Rightarrow> nat \<Rightarrow> int" where
  "sse_short inp scale k = sat16 (cvt_epi32 (inp k * scale))"

lemmas instr_defs = mm_load4_def mm_load8_def mm_load1_ps_def mm_mul4_def mm_cvtps_epi32_def mm_packs_epi32_def
  mm_cvtepi16_epi32_def mm_shuffle_1032_def mm_cvtepi32_ps_def

lemma sse_8n_fill: "sse_convert_scale_ps_si16_8n out inp scale len = fill_from (sse_short inp scale) 0 (8 * (len div 8)) out"
  unfolding sse_convert_scale_ps_si16_8n_def
  by (rule fold_blocks) (simp add: instr_defs Let_def fill_from_8 fill_from_16 mm_store_8 sse_short_def add.commute del: mm_store.simps)

lemma sse_16n_fill: "sse_convert_scale_ps_si16_16n out inp scale len = fill_from (sse_short inp scale) 0 (16 * (len div 16)) out"
  unfolding sse_convert_scale_ps_si16_16n_def
  by (rule fold_blocks) (simp add: instr_defs Let_def fill_from_8 fill_from_16 mm_store_8 sse_short_def add.commute del: mm_store.simps)

lemma sse_si16_16n_fill:
  "sse_convert_si16_ps_16n out inp len = fill_from (\<lambda>k. real_of_int (inp k)) 0 (16 * (len div 16)) out"
  unfolding sse_convert_si16_ps_16n_def
  by (rule fold_blocks) (simp add: instr_defs Let_def fill_from_8 fill_from_16 mm_store_4 add.commute del: mm_store.simps)

text \<open>Samples convert to floats exactly and in the same way on every processor: the first \<open>len\<close> floats of the
  output are the samples, the others are kept.\<close>

theorem convert_short_float_exact:
  assumes "len \<le> length out"
  shows "convert_short_float (convert_init sse41 sse3) out inp len =
    map (\<lambda>k. real_of_int (inp k)) [0..<len] @ drop len out"
proof -
  let ?F = "\<lambda>k. real_of_int (inp k)"
  have "convert_short_float (convert_init sse41 sse3) out inp len = fill_from ?F 0 len out"
  proof (cases sse41)
    case True
    have e: "16 * (len div 16) + len mod 16 = len" by simp
    show ?thesis
      using True fill_from_add [of ?F 0 "16 * (len div 16)" "len mod 16" out, symmetric]
      by (auto simp: convert_short_float_def convert_init_def Let_def sse_convert_si16_ps_def short_float_loop_fill
          sse_si16_16n_fill mult.commute)
  next
    case False
    then show ?thesis
      by (simp add: convert_short_float_def convert_init_def Let_def base_convert_short_float_def short_float_loop_fill)
  qed
  also have "\<dots> = map ?F [0..<len] @ drop len out"
    using assms by (intro nth_equalityI) (auto simp: fill_from_nth nth_append)
  finally show ?thesis .
qed

theorem convert_short_float_exact_witness:
  "convert_short_float (convert_init True True) [0, 0, 5] (\<lambda>k. int k - 1) 2 = [-1, 0, 5]"
  by (subst convert_short_float_exact) (simp_all add: numeral_2_eq_2)

section \<open>Rounding\<close>

lemma round_even_near: "\<bar>real_of_int (round_even r) - r\<bar> \<le> 1 / 2"
  unfolding round_even_def Let_def by (auto simp: abs_if; linarith)

lemma sse_short_near:
  assumes "\<bar>inp k * scale\<bar> \<le> 32767"
  shows "\<bar>real_of_int (sse_short inp scale k) - inp k * scale\<bar> \<le> 1 / 2"
proof -
  let ?r = "inp k * scale"
  have n: "\<bar>real_of_int (round_even ?r) - ?r\<bar> \<le> 1 / 2" by (rule round_even_near)
  then have "\<bar>real_of_int (round_even ?r)\<bar> < 32768" using assms by linarith
  then have "round_even ?r < 32768" "- 32768 < round_even ?r" by linarith+
  then have "sse_short inp scale k = round_even ?r" by (simp add: sse_short_def cvt_epi32_def sat16_def Let_def)
  then show ?thesis using n by simp
qed

lemma c_short_near:
  assumes "\<bar>r\<bar> \<le> 32767"
  shows "\<exists>n. c_short r = Some n \<and> \<bar>real_of_int n - r\<bar> < 1 \<and> \<bar>real_of_int n\<bar> \<le> \<bar>r\<bar>"
proof (cases "0 \<le> r")
  case True
  then have "0 \<le> \<lfloor>r\<rfloor>" "\<lfloor>r\<rfloor> \<le> 32767" using assms by linarith+
  then show ?thesis using True by (simp add: c_short_def) linarith
next
  case False
  then have "\<lceil>r\<rceil> \<le> 0" "- 32767 \<le> \<lceil>r\<rceil>" using assms by linarith+
  then show ?thesis using False by (simp add: c_short_def) linarith
qed

lemma float_short_loop_near:
  assumes "\<And>k. i \<le> k \<Longrightarrow> k < i + n \<Longrightarrow> \<bar>inp k * scale\<bar> \<le> 32767" and "i + n \<le> length out"
  shows "\<exists>r. float_short_loop i n out inp scale = Some r \<and> length r = length out \<and>
    (\<forall>k < length out. if i \<le> k \<and> k < i + n then \<bar>real_of_int (r ! k) - inp k * scale\<bar> < 1 else r ! k = out ! k)"
  using assms
proof (induction n arbitrary: i out)
  case (Suc n)
  obtain v where v: "c_short (inp i * scale) = Some v" "\<bar>real_of_int v - inp i * scale\<bar> < 1"
    using c_short_near [OF Suc.prems(1) [of i]] by auto
  obtain r where r: "float_short_loop (i + 1) n (out[i := v]) inp scale = Some r" "length r = length out"
    "\<forall>k < length out. if i + 1 \<le> k \<and> k < i + 1 + n then \<bar>real_of_int (r ! k) - inp k * scale\<bar> < 1 else r ! k = out[i := v] ! k"
    using Suc.IH [of "i + 1" "out[i := v]"] Suc.prems by auto
  have "if i \<le> k \<and> k < i + Suc n then \<bar>real_of_int (r ! k) - inp k * scale\<bar> < 1 else r ! k = out ! k"
    if k: "k < length out" for k
    using spec [OF r(3), of k] k v(2) Suc.prems(2) by (cases "k = i") (auto simp: nth_list_update split: if_splits)
  then show ?case using v(1) r(1,2) by auto
qed auto

lemma fill_short_near:
  assumes "\<And>k. k < n \<Longrightarrow> \<bar>inp k * scale\<bar> \<le> 32767" and "k < n" and "n \<le> length out"
  shows "\<bar>real_of_int (fill_from (sse_short inp scale) 0 n out ! k) - inp k * scale\<bar> < 1"
  using sse_short_near [of inp k scale, OF assms(1) [OF assms(2)]] assms(2,3) by (simp add: fill_from_nth)

text \<open>Floats that a short can hold convert on every processor, each within less than one unit; what
  follows the \<open>len\<close> samples is kept.\<close>

theorem convert_float_short_near:
  assumes "\<And>k. k < len \<Longrightarrow> \<bar>inp k * scale\<bar> \<le> 32767" and "len \<le> length out"
  shows "\<exists>r. convert_float_short (convert_init sse41 sse3) out inp scale len = Some r \<and> length r = length out \<and>
    (\<forall>k < length out. if k < len then \<bar>real_of_int (r ! k) - inp k * scale\<bar> < 1 else r ! k = out ! k)"
proof (cases sse3)
  case False
  then have "convert_float_short (convert_init sse41 sse3) out inp scale len = float_short_loop 0 len out inp scale"
    by (simp add: convert_float_short_def convert_init_def Let_def base_convert_float_short_def)
  then show ?thesis using float_short_loop_near [where i = 0 and n = len and inp = inp and scale = scale and out = out] assms by simp
next
  case True
  have near: "\<exists>r. Some (fill_from (sse_short inp scale) 0 len out) = Some r \<and> length r = length out \<and>
    (\<forall>k < length out. if k < len then \<bar>real_of_int (r ! k) - inp k * scale\<bar> < 1 else r ! k = out ! k)"
    using fill_short_near [where n = len and inp = inp and scale = scale and out = out] assms by (auto simp: fill_from_nth)
  let ?n = "8 * (len div 8)"
  let ?o = "fill_from (sse_short inp scale) 0 ?n out"
  have e: "?n + len mod 8 = len" by simp
  consider "len mod 16 = 0" | "len mod 16 \<noteq> 0" "len mod 8 = 0" | "len mod 16 \<noteq> 0" "len mod 8 \<noteq> 0" by blast
  then show ?thesis
  proof cases
    case 1
    then have "16 * (len div 16) = len" by auto
    then show ?thesis using 1 True near
      by (simp add: convert_float_short_def convert_init_def Let_def sse_16n_fill)
  next
    case 2
    then have "8 * (len div 8) = len" by auto
    then show ?thesis using 2 True near
      by (simp add: convert_float_short_def convert_init_def Let_def sse_8n_fill)
  next
    case 3
    obtain r where r: "float_short_loop ?n (len mod 8) ?o inp scale = Some r" "length r = length out"
      "\<forall>k < length out. if ?n \<le> k \<and> k < ?n + len mod 8 then \<bar>real_of_int (r ! k) - inp k * scale\<bar> < 1 else r ! k = ?o ! k"
      using float_short_loop_near [where i = ?n and n = "len mod 8" and inp = inp and scale = scale and out = ?o] assms e by auto
    have "if k < len then \<bar>real_of_int (r ! k) - inp k * scale\<bar> < 1 else r ! k = out ! k" if k: "k < length out" for k
      using spec [OF r(3), of k] k e assms(2) fill_short_near [where n = ?n and k = k and inp = inp and scale = scale and out = out] assms(1)
      by (auto simp: fill_from_nth split: if_splits)
    then show ?thesis using 3 True r(1,2)
      by (simp add: convert_float_short_def convert_init_def Let_def sse_convert_scale_ps_si16_def sse_8n_fill mult.commute [of _ 8])
  qed
qed

theorem convert_float_short_near_witness:
  "\<exists>r. convert_float_short (convert_init False True) [7, 7, 7] (\<lambda>k. real k) (3 / 4) 2 = Some r \<and> length r = 3 \<and>
    \<bar>real_of_int (r ! 1) - 3 / 4\<bar> < 1 \<and> r ! 2 = 7"
proof -
  have "\<bar>real k * (3 / 4)\<bar> \<le> 32767" if "k < 2" for k using that by (auto simp: less_2_cases_iff)
  from convert_float_short_near [of 2 real "3 / 4" "[7, 7, 7]" False True, OF this]
  obtain r where r: "convert_float_short (convert_init False True) [7, 7, 7] real (3 / 4) 2 = Some r" "length r = 3"
    "\<forall>k < 3. if k < 2 then \<bar>real_of_int (r ! k) - real k * (3 / 4)\<bar> < 1 else r ! k = [7, 7, 7] ! k"
    by (auto simp: numeral_3_eq_3)
  show ?thesis using r(1,2) spec [OF r(3), of 1] spec [OF r(3), of 2] by auto
qed

text \<open>The conversion of one value depends on where it stands: in a block of eight it is rounded, in the
  rest it is cut off.\<close>

lemma convert_position_dependent:
  "\<exists>r. convert_float_short (convert_init False True) [0, 0, 0, 0, 0, 0, 0, 0, 0] (\<lambda>_. 3 / 4) 1 9 = Some r \<and>
    r ! 0 = 1 \<and> r ! 8 = 0"
proof -
  have f: "\<lfloor>3 / 4 :: real\<rfloor> = 0" by linarith
  have s: "sse_short (\<lambda>_. 3 / 4) 1 k = 1" for k
    by (simp add: sse_short_def cvt_epi32_def round_even_def sat16_def f)
  have c: "c_short (3 / 4) = Some 0" by (simp add: c_short_def f)
  let ?o = "fill_from (sse_short (\<lambda>_. 3 / 4) 1) 0 8 [0, 0, 0, 0, 0, 0, 0, 0, 0]"
  have "convert_float_short (convert_init False True) [0, 0, 0, 0, 0, 0, 0, 0, 0] (\<lambda>_. 3 / 4) 1 9 = Some (?o[8 := 0])"
    by (simp add: convert_float_short_def convert_init_def Let_def sse_convert_scale_ps_si16_def sse_8n_fill c)
  then show ?thesis by (simp add: fill_from_nth s)
qed

end
