(* ===== verification/Filterbank.thy ===== *)
theory Filterbank
  imports Complex_Main Prelude Convolve
begin

text \<open>
  The filters in front of the converters: the rational resampler (\<^verbatim>\<open>Resampler.cpp\<close>), and the polyphase
  filter banks that split a wide band into carriers and join carriers to a wide band
  (\<^verbatim>\<open>ChannelizerBase.cpp\<close>, \<^verbatim>\<open>Channelizer.cpp\<close>, \<^verbatim>\<open>Synthesis.cpp\<close>).

  Floats are real numbers. An input of \<open>Resampler::rotate\<close> is a function from the index of a float,
  because the filters reach back before its start. The Fourier transform of the filter banks is a
  parameter: it turns the rows of the one side (one for each channel) into those of the other.
\<close>

section \<open>Resampler\<close>

definition MAX_OUTPUT_LEN :: nat where
  "MAX_OUTPUT_LEN = 4096"

definition rs_sinc :: "real \<Rightarrow> real" where
  "rs_sinc x = (if x = 0 then 0.9999999999 else sin (pi * x) / (pi * x))"

definition blackman_harris :: "nat \<Rightarrow> nat \<Rightarrow> real" where
  "blackman_harris len i =
    0.35875 - 0.48829 * cos (2 * pi * real i / real (len - 1)) +
    0.14128 * cos (4 * pi * real i / real (len - 1)) - 0.01168 * cos (6 * pi * real i / real (len - 1))"

record resampler =
  rs_p :: nat
  rs_q :: nat
  rs_filt_len :: nat
  rs_in_index :: "nat list"
  rs_out_path :: "nat list"
  rs_partitions :: "real list list"

definition rs_new :: "nat \<Rightarrow> nat \<Rightarrow> nat \<Rightarrow> resampler" where
  "rs_new p q filt_len =
    \<lparr>rs_p = p, rs_q = q, rs_filt_len = filt_len, rs_in_index = replicate MAX_OUTPUT_LEN 0,
     rs_out_path = replicate MAX_OUTPUT_LEN 0, rs_partitions = replicate p []\<rparr>"

definition rs_len :: "resampler \<Rightarrow> nat" where
  "rs_len r = rs_filt_len r"

definition rs_proto :: "real \<Rightarrow> resampler \<Rightarrow> real list" where
  "rs_proto bw r =
    (let len = rs_p r * rs_filt_len r;
         cutoff = (if rs_p r > rs_q r then real (rs_p r) else real (rs_q r));
         midpt = (real len - 1) / 2
     in map (\<lambda>i. rs_sinc ((real i - midpt) / cutoff * bw) * blackman_harris len i) [0..<len])"

text \<open>The taps of a filter are complex numbers without imaginary part, stored in reverse.\<close>

definition tap_pairs :: "real list \<Rightarrow> real list" where
  "tap_pairs cs = concat (map (\<lambda>c. [c, 0]) cs)"

definition rs_initFilters :: "real \<Rightarrow> resampler \<Rightarrow> resampler" where
  "rs_initFilters bw r =
    (let proto = rs_proto bw r; scale = real (rs_p r) / sum_list proto
     in r\<lparr>rs_partitions := map (\<lambda>n. tap_pairs (rev (map (\<lambda>i. proto ! (i * rs_p r + n) * scale) [0..<rs_filt_len r])))
            [0..<rs_p r]\<rparr>)"

definition rs_init :: "real \<Rightarrow> resampler \<Rightarrow> bool \<times> resampler" where
  "rs_init bw r =
    (if rs_p r = 0 \<or> rs_q r = 0 \<or> rs_filt_len r = 0 then (False, r)
     else
       let r1 = rs_initFilters bw r
       in (True, r1\<lparr>rs_in_index := map (\<lambda>i. (rs_q r * i) mod two64 div rs_p r) [0..<MAX_OUTPUT_LEN],
                    rs_out_path := map (\<lambda>i. (rs_q r * i) mod two64 mod rs_p r) [0..<MAX_OUTPUT_LEN]\<rparr>))"

definition check_vec_len :: "int \<Rightarrow> int \<Rightarrow> int \<Rightarrow> int \<Rightarrow> bool" where
  "check_vec_len in_len out_len p q =
    (if in_len mod q \<noteq> 0 then False
     else if out_len mod p \<noteq> 0 then False
     else if in_len div q \<noteq> out_len div p then False
     else if out_len > int MAX_OUTPUT_LEN then False
     else True)"

text \<open>The pointer to an array of floats, for the convolution.\<close>

definition float_ptr :: "real list \<Rightarrow> int \<Rightarrow> real" where
  "float_ptr xs i = (if 0 \<le> i \<and> i < int (length xs) then xs ! nat i else 0)"

definition rs_output :: "real convolve_cpu_context \<Rightarrow> resampler \<Rightarrow> (int \<Rightarrow> real) \<Rightarrow> nat \<Rightarrow> nat \<Rightarrow> nat \<Rightarrow> real list \<Rightarrow> real list" where
  "rs_output c r inp in_len out_len i out =
    take (2 * i) out @
    snd (convolve_real c inp (int in_len) (float_ptr (rs_partitions r ! (rs_out_path r ! i))) (int (rs_filt_len r))
      (drop (2 * i) out) (int (out_len - i)) (int (rs_in_index r ! i)) 1)"

definition rs_rotate ::
  "real convolve_cpu_context \<Rightarrow> resampler \<Rightarrow> (int \<Rightarrow> real) \<Rightarrow> nat \<Rightarrow> real list \<Rightarrow> nat \<Rightarrow> int \<times> real list" where
  "rs_rotate c r inp in_len out out_len =
    (if \<not> check_vec_len (int in_len) (int out_len) (int (rs_p r)) (int (rs_q r)) then (-1, out)
     else (int out_len, fold (rs_output c r inp in_len out_len) [0..<out_len] out))"

section \<open>Filter banks\<close>

text \<open>
  \<open>cb_hInputs\<close> has a row for each channel that begins with \<open>hLen\<close> samples of history in front of the
  samples (\<open>hInputs[i]\<close> points behind the history, into \<open>fftOutput\<close>), \<open>cb_hOutputs\<close> a row of \<open>blockLen\<close>
  samples for each channel (in \<open>fftInput\<close>). \<open>cb_fft\<close> tells whether the transform is set up.
\<close>

record chan_base =
  cb_m :: nat
  cb_hLen :: nat
  cb_blockLen :: nat
  cb_subFilters :: "real list list"
  cb_hist :: "real list list"
  cb_hInputs :: "real list list"
  cb_hOutputs :: "real list list"
  cb_fft :: bool

definition cb_new :: "nat \<Rightarrow> nat \<Rightarrow> nat \<Rightarrow> chan_base" where
  "cb_new m blockLen hLen =
    \<lparr>cb_m = m, cb_hLen = hLen, cb_blockLen = blockLen, cb_subFilters = [], cb_hist = [], cb_hInputs = [],
     cb_hOutputs = [], cb_fft = False\<rparr>"

definition cb_sinc :: "real \<Rightarrow> real" where
  "cb_sinc x = (if x = 0 then 0.999999999999 else sin (pi * x) / (pi * x))"

definition cb_proto :: "chan_base \<Rightarrow> real list" where
  "cb_proto b =
    (let len = cb_m b * cb_hLen b; midpt = (real len - 1) / 2
     in map (\<lambda>i. cb_sinc ((real i - midpt) / real (cb_m b)) * blackman_harris len i) [0..<len])"

fun reverse_pairs :: "real list \<Rightarrow> real list" where
  "reverse_pairs (a # b # xs) = reverse_pairs xs @ [a, b]"
| "reverse_pairs xs = xs"

definition cb_initFilters :: "chan_base \<Rightarrow> chan_base" where
  "cb_initFilters b =
    (let proto = cb_proto b; scale = real (cb_m b) / sum_list proto
     in b\<lparr>cb_subFilters := map (\<lambda>n. reverse_pairs (tap_pairs (map (\<lambda>i. proto ! (i * cb_m b + n) * scale) [0..<cb_hLen b])))
            [0..<cb_m b]\<rparr>)"

definition cb_initFFT :: "chan_base \<Rightarrow> bool \<times> chan_base" where
  "cb_initFFT b =
    (if cb_fft b then (False, b)
     else (True, b\<lparr>cb_fft := True,
                   cb_hOutputs := replicate (cb_m b) (replicate (2 * cb_blockLen b) 0),
                   cb_hInputs := replicate (cb_m b) (replicate (2 * (cb_hLen b + cb_blockLen b)) 0)\<rparr>))"

definition cb_init :: "chan_base \<Rightarrow> bool \<times> chan_base" where
  "cb_init b =
    (let b1 = cb_initFilters b;
         b2 = b1\<lparr>cb_hist := replicate (cb_m b) (replicate (2 * cb_hLen b) 0)\<rparr>
     in cb_initFFT b2)"

definition cb_checkLen :: "nat \<Rightarrow> nat \<Rightarrow> chan_base \<Rightarrow> bool" where
  "cb_checkLen innerLen outerLen b =
    (if outerLen \<noteq> innerLen * cb_m b then False else if innerLen \<noteq> cb_blockLen b then False else True)"

text \<open>The convolution of one channel with its history: \<open>hInputs\<close>, \<open>hist\<close> and \<open>hOutputs\<close> of the channel
  before, and after.\<close>

definition cb_filter ::
  "real convolve_cpu_context \<Rightarrow> chan_base \<Rightarrow> real list \<Rightarrow> real list \<Rightarrow> real list \<Rightarrow> real list \<Rightarrow>
    real list \<times> real list \<times> real list" where
  "cb_filter c b taps row hist out =
    (let row1 = hist @ drop (2 * cb_hLen b) row;
         hist1 = drop (2 * cb_blockLen b) row1;
         (_, out1) = convolve_real c (\<lambda>i. float_ptr row1 (i + 2 * int (cb_hLen b))) (int (cb_blockLen b))
                       (float_ptr taps) (int (cb_hLen b)) out (int (cb_blockLen b)) 0 (int (cb_blockLen b))
     in (row1, hist1, out1))"

definition cb_filters :: "real convolve_cpu_context \<Rightarrow> chan_base \<Rightarrow> chan_base" where
  "cb_filters c b =
    (let rs = map (\<lambda>i. cb_filter c b (cb_subFilters b ! i) (cb_hInputs b ! i) (cb_hist b ! i) (cb_hOutputs b ! i)) [0..<cb_m b]
     in b\<lparr>cb_hInputs := map fst rs, cb_hist := map (fst \<circ> snd) rs, cb_hOutputs := map (snd \<circ> snd) rs\<rparr>)"

subsection \<open>Channelizer\<close>

text \<open>Channel \<open>m - 1 - n\<close> gets every \<open>m\<close>-th sample, from sample \<open>n\<close> on.\<close>

definition deinterleave :: "real list \<Rightarrow> nat \<Rightarrow> nat \<Rightarrow> nat \<Rightarrow> real list" where
  "deinterleave inp olen m ch =
    concat (map (\<lambda>i. [inp ! (2 * (i * m + (m - 1 - ch))), inp ! (2 * (i * m + (m - 1 - ch)) + 1)]) [0..<olen])"

definition chan_inputLen :: "chan_base \<Rightarrow> nat" where
  "chan_inputLen b = cb_blockLen b * cb_m b"

definition chan_outputLen :: "chan_base \<Rightarrow> nat" where
  "chan_outputLen b = cb_blockLen b"

definition chan_outputBuffer :: "nat \<Rightarrow> chan_base \<Rightarrow> real list option" where
  "chan_outputBuffer ch b = (if ch \<ge> cb_m b then None else Some (drop (2 * cb_hLen b) (cb_hInputs b ! ch)))"

definition chan_rotate ::
  "real convolve_cpu_context \<Rightarrow> (real list list \<Rightarrow> real list list) \<Rightarrow> real list \<Rightarrow> nat \<Rightarrow> chan_base \<Rightarrow> bool \<times> chan_base" where
  "chan_rotate c fft inp len b =
    (if \<not> cb_checkLen (cb_blockLen b) len b then (False, b)
     else
       let b1 = b\<lparr>cb_hInputs := map (\<lambda>ch. take (2 * cb_hLen b) (cb_hInputs b ! ch) @
                     deinterleave inp (cb_blockLen b) (cb_m b) ch) [0..<cb_m b]\<rparr>;
           b2 = cb_filters c b1
       in (True, b2\<lparr>cb_hInputs := map2 (\<lambda>row blk. take (2 * cb_hLen b) row @ blk) (cb_hInputs b2) (fft (cb_hOutputs b2))\<rparr>))"

subsection \<open>Synthesis\<close>

definition interleave_rows :: "real list list \<Rightarrow> nat \<Rightarrow> nat \<Rightarrow> real list" where
  "interleave_rows rows ilen m =
    concat (map (\<lambda>i. concat (map (\<lambda>n. [rows ! n ! (2 * i), rows ! n ! (2 * i + 1)]) [0..<m])) [0..<ilen])"

definition syn_inputLen :: "chan_base \<Rightarrow> nat" where
  "syn_inputLen b = cb_blockLen b"

definition syn_outputLen :: "chan_base \<Rightarrow> nat" where
  "syn_outputLen b = cb_blockLen b * cb_m b"

definition syn_inputBuffer :: "nat \<Rightarrow> chan_base \<Rightarrow> real list option" where
  "syn_inputBuffer ch b = (if ch \<ge> cb_m b then None else Some (cb_hOutputs b ! ch))"

definition syn_resetBuffer :: "nat \<Rightarrow> chan_base \<Rightarrow> bool \<times> chan_base" where
  "syn_resetBuffer ch b =
    (if ch \<ge> cb_m b then (False, b)
     else (True, b\<lparr>cb_hOutputs := (cb_hOutputs b)[ch := replicate (2 * cb_blockLen b) 0]\<rparr>))"

text \<open>A wrong length ends the program (\<open>None\<close>). The samples to transform are in \<open>hOutputs\<close>.\<close>

definition syn_rotate ::
  "real convolve_cpu_context \<Rightarrow> (real list list \<Rightarrow> real list list) \<Rightarrow> nat \<Rightarrow> chan_base \<Rightarrow> (real list \<times> chan_base) option" where
  "syn_rotate c fft len b =
    (if \<not> cb_checkLen (cb_blockLen b) len b then None
     else
       let b1 = b\<lparr>cb_hInputs := map2 (\<lambda>row blk. take (2 * cb_hLen b) row @ blk) (cb_hInputs b) (fft (cb_hOutputs b))\<rparr>;
           b2 = cb_filters c b1
       in Some (interleave_rows (cb_hOutputs b2) (cb_blockLen b) (cb_m b), b2))"

section \<open>The resampler is a rational rate converter\<close>

lemma length_tap_pairs [simp]: "length (tap_pairs cs) = 2 * length cs"
  by (induction cs) (simp_all add: tap_pairs_def)

lemma tap_pairs_nth: "k < length cs \<Longrightarrow> tap_pairs cs ! (2 * k) = cs ! k"
proof (induction cs arbitrary: k)
  case (Cons c cs)
  then show ?case by (cases k) (simp_all add: tap_pairs_def)
qed simp

lemma float_ptr_tap: "k < length cs \<Longrightarrow> float_ptr (tap_pairs cs) (2 * int k) = cs ! k"
  by (simp add: float_ptr_def nat_mult_distrib tap_pairs_nth)

lemma put_pairs_fold_lenI:
  assumes "\<And>i y. i < n \<Longrightarrow> length y = length z \<Longrightarrow> f i y = y[2 * i := A i, 2 * i + 1 := B i]"
  shows "fold f [0..<n] z = put_pairs A B n z"
  using assms
proof (induction n)
  case (Suc n)
  then show ?case by (simp add: put_pairs_Suc)
qed simp

lemma memset_pair: "2 \<le> length y \<Longrightarrow> (memset0 2 y)[0 := a, 1 := b] = a # b # drop 2 y"
  by (simp add: memset0_def numeral_2_eq_2)

lemma update_pair: "2 * i + 1 < length y \<Longrightarrow> take (2 * i) y @ a # b # drop (2 * i + 2) y = y[2 * i := a, 2 * i + 1 := b]"
  by (intro nth_equalityI) (auto simp: nth_append nth_list_update nth_Cons' min_def intro!: arg_cong [where f = "(!) y"])

lemma rs_output_pair:
  assumes "length out = 2 * out_len" and "i < out_len" and "1 \<le> rs_filt_len r" and "rs_filt_len r \<le> in_len"
    and "rs_in_index r ! i < in_len"
  shows "rs_output (convolve_init sse3) r inp in_len out_len i out =
    out[2 * i := tap_sum (tapr_re inp (float_ptr (rs_partitions r ! (rs_out_path r ! i))))
          (2 * (- (int (rs_filt_len r) - 1) + int (rs_in_index r ! i))) (rs_filt_len r) 0,
        2 * i + 1 := tap_sum (tapr_im inp (float_ptr (rs_partitions r ! (rs_out_path r ! i))))
          (2 * (- (int (rs_filt_len r) - 1) + int (rs_in_index r ! i))) (rs_filt_len r) 0]"
proof -
  have l: "2 * int (out_len - i) \<le> int (length (drop (2 * i) out))" using assms(1,2) by simp
  have d: "2 \<le> length (drop (2 * i) out)" using assms(1,2) by simp
  have u: "2 * i + 1 < length out" using assms(1,2) by simp
  note c = convolve_real_pairs [OF l, of "int in_len" "int (rs_filt_len r)" 1 "int (rs_in_index r ! i)" sse3 inp
      "float_ptr (rs_partitions r ! (rs_out_path r ! i))"]
  show ?thesis
    using c assms memset_pair [OF d] update_pair [OF u]
    by (simp add: rs_output_def put_pairs_def)
qed

text \<open>The reference: the input with \<open>p - 1\<close> zeros after each sample, at the higher rate.\<close>

definition upsampled :: "(int \<Rightarrow> real) \<Rightarrow> nat \<Rightarrow> nat \<Rightarrow> int \<Rightarrow> real" where
  "upsampled inp p part t = (if t mod int p = 0 then inp (2 * (t div int p) + int part) else 0)"

definition rs_reference :: "real list \<Rightarrow> (int \<Rightarrow> real) \<Rightarrow> nat \<Rightarrow> nat \<Rightarrow> nat \<Rightarrow> nat \<Rightarrow> real" where
  "rs_reference g inp p part q i = (\<Sum>j < length g. g ! j * upsampled inp p part (int (q * i) - int j))"

lemma upsampled_filter:
  assumes "0 < p" and "length g = L * p"
  shows "(\<Sum>j < length g. g ! j * upsampled inp p part (int t - int j)) =
    (\<Sum>m<L. g ! (m * p + t mod p) * inp (2 * (int (t div p) - int m) + int part))"
proof -
  have inner: "(\<Sum>j = m * p..<m * p + p. g ! j * upsampled inp p part (int t - int j)) =
    g ! (m * p + t mod p) * inp (2 * (int (t div p) - int m) + int part)" for m
  proof -
    have t: "int t = int p * int (t div p) + int (t mod p)"
      by (metis mult_div_mod_eq of_nat_add of_nat_mult)
    have z: "upsampled inp p part (int t - int j) = (if j = m * p + t mod p then inp (2 * (int (t div p) - int m) + int part) else 0)"
      if "m * p \<le> j" "j < m * p + p" for j
    proof -
      obtain s where s: "j = m * p + s" "s < p" using \<open>m * p \<le> j\<close> \<open>j < m * p + p\<close> by (auto dest: le_Suc_ex)
      have e: "int t - int j = (int (t mod p) - int s) + int p * (int (t div p) - int m)"
        unfolding t s(1) by (simp add: algebra_simps)
      have m0: "(int t - int j) mod int p = (int (t mod p) - int s) mod int p" unfolding e by simp
      show ?thesis
      proof (cases "s = t mod p")
        case True
        then show ?thesis using assms(1) e s(1) by (simp add: upsampled_def)
      next
        case False
        have "\<not> int p dvd int (t mod p) - int s"
        proof
          assume "int p dvd int (t mod p) - int s"
          then have "int (t mod p) mod int p = int s mod int p" by (simp add: mod_eq_dvd_iff)
          then show False using False s(2) assms(1) by (simp flip: of_nat_mod)
        qed
        then show ?thesis using m0 False s(1) by (simp add: upsampled_def mod_eq_0_iff_dvd)
      qed
    qed
    have "(\<Sum>j = m * p..<m * p + p. g ! j * upsampled inp p part (int t - int j)) =
      (\<Sum>j = m * p..<m * p + p. if j = m * p + t mod p then g ! j * inp (2 * (int (t div p) - int m) + int part) else 0)"
      using z by (intro sum.cong) auto
    also have "\<dots> = g ! (m * p + t mod p) * inp (2 * (int (t div p) - int m) + int part)"
      using assms(1) by (simp add: sum.delta)
    finally show ?thesis .
  qed
  have "(\<Sum>j < length g. g ! j * upsampled inp p part (int t - int j)) =
    (\<Sum>m<L. \<Sum>j = m * p..<m * p + p. g ! j * upsampled inp p part (int t - int j))"
    unfolding assms(2) by (rule sum.nat_group [symmetric])
  then show ?thesis unfolding inner .
qed

lemma rs_init_parts:
  assumes "rs_init bw r = (True, r1)" and "i < MAX_OUTPUT_LEN" and "rs_q r * MAX_OUTPUT_LEN < two64"
  shows "rs_p r1 = rs_p r" "rs_q r1 = rs_q r" "rs_filt_len r1 = rs_filt_len r"
    "0 < rs_p r" "0 < rs_q r" "0 < rs_filt_len r"
    "rs_in_index r1 ! i = rs_q r * i div rs_p r" "rs_out_path r1 ! i = rs_q r * i mod rs_p r"
    "n < rs_p r \<Longrightarrow> rs_partitions r1 ! n = tap_pairs (rev (map (\<lambda>k. rs_proto bw r ! (k * rs_p r + n) *
       (real (rs_p r) / sum_list (rs_proto bw r))) [0..<rs_filt_len r]))"
proof -
  have "rs_q r * i \<le> rs_q r * MAX_OUTPUT_LEN" using assms(2) by simp
  then have "rs_q r * i < two64" using assms(3) by (rule le_less_trans)
  then have m: "(rs_q r * i) mod two64 = rs_q r * i" by (rule mod_less)
  show "rs_p r1 = rs_p r" "rs_q r1 = rs_q r" "rs_filt_len r1 = rs_filt_len r"
    "0 < rs_p r" "0 < rs_q r" "0 < rs_filt_len r"
    "rs_in_index r1 ! i = rs_q r * i div rs_p r" "rs_out_path r1 ! i = rs_q r * i mod rs_p r"
    "n < rs_p r \<Longrightarrow> rs_partitions r1 ! n = tap_pairs (rev (map (\<lambda>k. rs_proto bw r ! (k * rs_p r + n) *
       (real (rs_p r) / sum_list (rs_proto bw r))) [0..<rs_filt_len r]))"
    using assms(1,2) m by (auto simp: rs_init_def rs_initFilters_def Let_def split: if_splits)
qed

definition rs_filter :: "real \<Rightarrow> resampler \<Rightarrow> real list" where
  "rs_filter bw r = map (\<lambda>v. v * (real (rs_p r) / sum_list (rs_proto bw r))) (rs_proto bw r)"

lemma length_rs_filter [simp]: "length (rs_filter bw r) = rs_filt_len r * rs_p r"
  by (simp add: rs_filter_def rs_proto_def Let_def mult.commute)

lemma rs_taps:
  assumes "rs_init bw r = (True, r1)" and "i < MAX_OUTPUT_LEN" and "rs_q r * MAX_OUTPUT_LEN < two64" and "m < rs_filt_len r"
  shows "float_ptr (rs_partitions r1 ! (rs_out_path r1 ! i)) (2 * int (rs_filt_len r - Suc m)) =
    rs_filter bw r ! (m * rs_p r + rs_q r * i mod rs_p r)"
proof -
  note P = rs_init_parts [OF assms(1-3)]
  let ?n = "rs_q r * i mod rs_p r"
  have n: "?n < rs_p r" using P(4) by simp
  have "m * rs_p r + ?n < Suc m * rs_p r" using n by simp
  also have "\<dots> \<le> rs_filt_len r * rs_p r" using assms(4) by (intro mult_le_mono1) simp
  finally have l: "m * rs_p r + ?n < length (rs_proto bw r)" by (simp add: rs_proto_def Let_def mult.commute)
  show ?thesis
    unfolding P(8) P(9) [OF n]
    using assms(4) l by (subst float_ptr_tap) (simp_all add: rev_nth rs_filter_def)
qed

lemma rs_tap_sum:
  assumes "rs_init bw r = (True, r1)" and "i < MAX_OUTPUT_LEN" and "rs_q r * MAX_OUTPUT_LEN < two64"
  shows "(\<Sum>k < rs_filt_len r. inp (2 * (int (rs_q r * i div rs_p r) - int (rs_filt_len r - Suc k)) + int part) *
      float_ptr (rs_partitions r1 ! (rs_out_path r1 ! i)) (2 * int k)) =
    rs_reference (rs_filter bw r) inp (rs_p r) part (rs_q r) i"
proof -
  let ?L = "rs_filt_len r"
  let ?f = "\<lambda>k. inp (2 * (int (rs_q r * i div rs_p r) - int (?L - Suc k)) + int part) *
      float_ptr (rs_partitions r1 ! (rs_out_path r1 ! i)) (2 * int k)"
  have "sum ?f {..<?L} = (\<Sum>m<?L. ?f (?L - Suc m))" by (rule sum.nat_diff_reindex [symmetric])
  also have "\<dots> = (\<Sum>m<?L. rs_filter bw r ! (m * rs_p r + rs_q r * i mod rs_p r) *
      inp (2 * (int (rs_q r * i div rs_p r) - int m) + int part))"
  proof (intro sum.cong refl)
    fix m assume "m \<in> {..<?L}"
    then have m: "m < ?L" and e: "?L - Suc (?L - Suc m) = m" by simp_all
    show "?f (?L - Suc m) = rs_filter bw r ! (m * rs_p r + rs_q r * i mod rs_p r) *
      inp (2 * (int (rs_q r * i div rs_p r) - int m) + int part)"
      unfolding e rs_taps [OF assms m] by (rule mult.commute)
  qed
  also have "\<dots> = rs_reference (rs_filter bw r) inp (rs_p r) part (rs_q r) i"
    unfolding rs_reference_def
    using upsampled_filter [of "rs_p r" "rs_filter bw r" ?L inp part "rs_q r * i"] rs_init_parts(4) [OF assms]
    by simp
  finally show ?thesis .
qed

lemma rs_output_reference:
  assumes "rs_init bw r = (True, r1)" and "rs_q r * MAX_OUTPUT_LEN < two64" and "length y = 2 * out_len"
    and "rs_filt_len r \<le> in_len" and "i < out_len" and "out_len \<le> MAX_OUTPUT_LEN"
    and "in_len * rs_p r = rs_q r * out_len"
  shows "rs_output (convolve_init sse3) r1 inp in_len out_len i y =
    y[2 * i := rs_reference (rs_filter bw r) inp (rs_p r) 0 (rs_q r) i,
      2 * i + 1 := rs_reference (rs_filter bw r) inp (rs_p r) 1 (rs_q r) i]"
proof -
  have iM: "i < MAX_OUTPUT_LEN" using assms(5,6) by simp
  note P = rs_init_parts [OF assms(1) iM assms(2)]
  have "rs_q r * i < in_len * rs_p r" using assms(5,7) P(5) by simp
  then have n: "rs_in_index r1 ! i < in_len" unfolding P(7) by (simp add: less_mult_imp_div_less)
  have idx: "2 * (- (int (rs_filt_len r) - 1) + int (rs_q r * i div rs_p r)) + 2 * int 0 + 2 * int k =
    2 * (int (rs_q r * i div rs_p r) - int (rs_filt_len r - Suc k))" if "k < rs_filt_len r" for k
    using that by simp
  have part: "tap_sum (tapr_re inp h) (2 * (- (int (rs_filt_len r) - 1) + int (rs_q r * i div rs_p r))) (rs_filt_len r) 0 =
      (\<Sum>k < rs_filt_len r. inp (2 * (int (rs_q r * i div rs_p r) - int (rs_filt_len r - Suc k)) + int 0) * h (2 * int k))"
    "tap_sum (tapr_im inp h) (2 * (- (int (rs_filt_len r) - 1) + int (rs_q r * i div rs_p r))) (rs_filt_len r) 0 =
      (\<Sum>k < rs_filt_len r. inp (2 * (int (rs_q r * i div rs_p r) - int (rs_filt_len r - Suc k)) + int 1) * h (2 * int k))" for h
    unfolding tap_sum_def tapr_re_def tapr_im_def
    by (intro sum.cong refl, simp only: idx lessThan_iff, simp)+
  show ?thesis
    using rs_output_pair [of y out_len i r1 in_len sse3 inp] assms(3-5) n P(3,6)
    unfolding P(3) P(7) part rs_tap_sum [OF assms(1) iM assms(2)] by simp
qed

lemma check_vec_len_nat:
  "check_vec_len (int in_len) (int out_len) (int p) (int q) \<longleftrightarrow>
    in_len mod q = 0 \<and> out_len mod p = 0 \<and> in_len div q = out_len div p \<and> out_len \<le> MAX_OUTPUT_LEN"
  unfolding check_vec_len_def by (simp flip: of_nat_mod of_nat_div)

text \<open>C16. An initialised resampler refuses lengths that do not match its ratio. Otherwise, when the input is at
  least as long as the filters, every output sample is that of the reference: \<open>p - 1\<close> zeros after each
  input sample, the prototype filter over all of it, and every \<open>q\<close>-th value of the result. What follows
  the outputs is kept.\<close>

theorem resampler_rate_conversion:
  assumes "rs_init bw r = (True, r1)" and "rs_q r * MAX_OUTPUT_LEN < two64" and "length out = 2 * out_len"
    and "rs_filt_len r \<le> in_len"
  shows "if in_len mod rs_q r = 0 \<and> out_len mod rs_p r = 0 \<and> in_len div rs_q r = out_len div rs_p r \<and>
      out_len \<le> MAX_OUTPUT_LEN
    then \<exists>out'. rs_rotate (convolve_init sse3) r1 inp in_len out out_len = (int out_len, out') \<and>
      length out' = length out \<and>
      (\<forall>i < out_len.
        out' ! (2 * i) = rs_reference (rs_filter bw r) inp (rs_p r) 0 (rs_q r) i \<and>
        out' ! (2 * i + 1) = rs_reference (rs_filter bw r) inp (rs_p r) 1 (rs_q r) i)
    else rs_rotate (convolve_init sse3) r1 inp in_len out out_len = (-1, out)"
proof -
  have z: "0 < MAX_OUTPUT_LEN" by (simp add: MAX_OUTPUT_LEN_def)
  note P = rs_init_parts [OF assms(1) z assms(2)]
  show ?thesis
  proof (cases "check_vec_len (int in_len) (int out_len) (int (rs_p r1)) (int (rs_q r1))")
    case False
    then show ?thesis unfolding rs_rotate_def check_vec_len_nat P(1,2) by auto
  next
    case True
    then have c: "in_len mod rs_q r = 0 \<and> out_len mod rs_p r = 0 \<and> in_len div rs_q r = out_len div rs_p r \<and>
      out_len \<le> MAX_OUTPUT_LEN" unfolding check_vec_len_nat P(1,2) .
    then have l: "in_len * rs_p r = rs_q r * out_len"
      by (metis div_mult_mod_eq add.right_neutral mult.assoc mult.commute)
    have "fold (rs_output (convolve_init sse3) r1 inp in_len out_len) [0..<out_len] out =
      put_pairs (rs_reference (rs_filter bw r) inp (rs_p r) 0 (rs_q r))
        (rs_reference (rs_filter bw r) inp (rs_p r) 1 (rs_q r)) out_len out"
      using assms(3) c l by (intro put_pairs_fold_lenI rs_output_reference [OF assms(1,2)] assms(4)) auto
    then show ?thesis using c True assms(3) by (simp add: rs_rotate_def put_pairs_nth)
  qed
qed

theorem resampler_rate_conversion_witness:
  "\<exists>out'. rs_rotate (convolve_init True) (snd (rs_init 1 (rs_new 2 3 3))) (\<lambda>i. of_int i) 3 [0, 0, 0, 0] 2 = (2, out') \<and>
    length out' = 4 \<and>
    out' ! 2 = rs_reference (rs_filter 1 (rs_new 2 3 3)) (\<lambda>i. of_int i) 2 0 3 1 \<and>
    out' ! 3 = rs_reference (rs_filter 1 (rs_new 2 3 3)) (\<lambda>i. of_int i) 2 1 3 1"
proof -
  let ?r = "rs_new 2 3 3"
  have i: "rs_init 1 ?r = (True, snd (rs_init 1 ?r))" by (simp add: rs_init_def rs_new_def Let_def)
  have q: "rs_q ?r * MAX_OUTPUT_LEN < two64" "length [0, 0, 0, 0 :: real] = 2 * 2" "rs_filt_len ?r \<le> 3"
    "rs_p ?r = 2" "rs_q ?r = 3"
    by (simp_all add: rs_new_def MAX_OUTPUT_LEN_def)
  obtain out' where o: "rs_rotate (convolve_init True) (snd (rs_init 1 ?r)) (\<lambda>i. of_int i) 3 [0, 0, 0, 0] 2 = (2, out')"
    "length out' = 4" "\<forall>i < 2. out' ! (2 * i) = rs_reference (rs_filter 1 ?r) (\<lambda>i. of_int i) 2 0 3 i \<and>
      out' ! (2 * i + 1) = rs_reference (rs_filter 1 ?r) (\<lambda>i. of_int i) 2 1 3 i"
    using resampler_rate_conversion [OF i q(1,2,3), where inp = "\<lambda>i. of_int i" and ?sse3.0 = True] unfolding q(4,5)
    by (auto simp: MAX_OUTPUT_LEN_def)
  then show ?thesis using spec [OF o(3), of 1] by (intro exI [of _ out']) simp
qed

section \<open>The filter banks filter continuous streams\<close>

text \<open>The state after a stream \<open>S ch\<close> of floats went through each channel: the history is the end of the
  stream, which begins with silence.\<close>

definition padded :: "chan_base \<Rightarrow> (nat \<Rightarrow> real list) \<Rightarrow> nat \<Rightarrow> real list" where
  "padded b S ch = replicate (2 * cb_hLen b) 0 @ S ch"

definition cb_streams :: "chan_base \<Rightarrow> (nat \<Rightarrow> real list) \<Rightarrow> bool" where
  "cb_streams b S \<longleftrightarrow>
    length (cb_hist b) = cb_m b \<and> length (cb_hInputs b) = cb_m b \<and> length (cb_hOutputs b) = cb_m b \<and>
    (\<forall>ch < cb_m b. cb_hist b ! ch = drop (length (S ch)) (padded b S ch) \<and>
       length (cb_hOutputs b ! ch) = 2 * cb_blockLen b \<and> 2 * cb_hLen b \<le> length (cb_hInputs b ! ch))"

definition cb_load :: "(nat \<Rightarrow> real list) \<Rightarrow> chan_base \<Rightarrow> chan_base" where
  "cb_load B b = b\<lparr>cb_hInputs := map (\<lambda>ch. take (2 * cb_hLen b) (cb_hInputs b ! ch) @ B ch) [0..<cb_m b]\<rparr>"

lemma cb_init_streams: "cb_init (cb_new m blockLen hLen) = (True, b) \<Longrightarrow> cb_streams b (\<lambda>_. [])"
  by (auto simp: cb_init_def cb_new_def cb_initFFT_def cb_initFilters_def Let_def cb_streams_def padded_def)

lemma float_ptr_nat: "n < length xs \<Longrightarrow> float_ptr xs (int n) = xs ! n"
  by (simp add: float_ptr_def)

lemma cb_filter_stream:
  assumes "length (take (2 * cb_hLen b) row) = 2 * cb_hLen b" and "length blk = 2 * cb_blockLen b"
    and "hist = drop (length s) (replicate (2 * cb_hLen b) 0 @ s)" and "length out = 2 * cb_blockLen b"
    and "0 < cb_hLen b" and "cb_hLen b \<le> cb_blockLen b"
    and "cb_filter (convolve_init sse3) b taps (take (2 * cb_hLen b) row @ blk) hist out = (row1, hist1, out1)"
  shows "row1 = hist @ blk \<and> hist1 = drop (length (s @ blk)) (replicate (2 * cb_hLen b) 0 @ s @ blk) \<and>
    length out1 = 2 * cb_blockLen b \<and>
    (\<forall>t < cb_blockLen b. \<forall>part < 2. out1 ! (2 * t + part) =
      (\<Sum>k < cb_hLen b. (replicate (2 * cb_hLen b) 0 @ s @ blk) ! (length s + 2 * (t + 1 + k) + part) * float_ptr taps (2 * int k)))"
proof -
  let ?h = "cb_hLen b" and ?n = "cb_blockLen b"
  let ?Z = "replicate (2 * ?h) 0 @ s @ blk"
  let ?x = "\<lambda>i. float_ptr (hist @ blk) (i + 2 * int ?h)"
  have hl: "length hist = 2 * ?h" using assms(3) by simp
  have row1: "row1 = hist @ blk"
    using assms(1,7) by (auto simp: cb_filter_def Let_def split: prod.splits)
  have hist1: "hist1 = drop (2 * ?n) (hist @ blk)"
    using assms(1,7) row1 by (auto simp: cb_filter_def Let_def split: prod.splits)
  have hb: "hist @ blk = drop (length s) ?Z" using assms(3) by simp
  have out1: "out1 = put_pairs (tap_sum (tapr_re ?x (float_ptr taps)) (2 * (- (int ?h - 1))) ?h)
    (tap_sum (tapr_im ?x (float_ptr taps)) (2 * (- (int ?h - 1))) ?h) ?n (memset0 (int ?n * 2) out)"
    using assms(7) convolve_real_pairs [where y = out and y_len = "int ?n" and x_len = "int ?n" and h_len = "int ?h"
        and start = 0 and len = "int ?n" and x = ?x and h = "float_ptr taps"] assms(1,4-6)
    by (auto simp: cb_filter_def Let_def split: prod.splits)
  have lm: "length (memset0 (int ?n * 2) out) = 2 * ?n" using assms(4) by (simp add: memset0_props)
  have z: "?x (2 * (- (int ?h - 1)) + 2 * int t + 2 * int k + int part) = ?Z ! (length s + 2 * (t + 1 + k) + part)"
    if "t < ?n" "k < ?h" "part < 2" for t k part
  proof -
    let ?i = "2 * (t + 1 + k) + part"
    have i: "2 * (- (int ?h - 1)) + 2 * int t + 2 * int k + int part + 2 * int ?h = int ?i" by simp
    have l: "?i < length (hist @ blk)" using that hl assms(2) by simp
    have "length s \<le> length ?Z" by simp
    then have "drop (length s) ?Z ! ?i = ?Z ! (length s + ?i)" by (rule nth_drop)
    moreover have "float_ptr (hist @ blk) (int ?i) = (hist @ blk) ! ?i" using l by (rule float_ptr_nat)
    ultimately show ?thesis unfolding i hb by (simp only: add.assoc)
  qed
  have "out1 ! (2 * t + part) = (\<Sum>k < ?h. ?Z ! (length s + 2 * (t + 1 + k) + part) * float_ptr taps (2 * int k))"
    if t: "t < ?n" and p: "part < 2" for t part
  proof -
    have e: "part = 0 \<or> part = 1" using p by auto
    have "out1 ! (2 * t + part) = (\<Sum>k < ?h. ?x (2 * (- (int ?h - 1)) + 2 * int t + 2 * int k + int part) * float_ptr taps (2 * int k))"
      using e t lm unfolding out1 by (auto simp: put_pairs_nth tap_sum_def tapr_re_def tapr_im_def)
    also have "\<dots> = (\<Sum>k < ?h. ?Z ! (length s + 2 * (t + 1 + k) + part) * float_ptr taps (2 * int k))"
      using z [OF t _ p] by (intro sum.cong refl) simp
    finally show ?thesis .
  qed
  moreover have "hist1 = drop (length (s @ blk)) ?Z"
    unfolding hist1 hb drop_drop by (simp only: length_append assms(2) add.commute)
  ultimately show ?thesis using row1 lm out1 by auto
qed

definition stream_out :: "chan_base \<Rightarrow> (nat \<Rightarrow> real list) \<Rightarrow> nat \<Rightarrow> nat \<Rightarrow> nat \<Rightarrow> real" where
  "stream_out b S n ch j =
    (\<Sum>k < cb_hLen b. padded b S ch ! (2 * (n + j div 2 + 1 + k) + j mod 2) * float_ptr (cb_subFilters b ! ch) (2 * int k))"

text \<open>One block through all filters.\<close>

lemma cb_filters_streams:
  assumes "cb_streams b S" and "0 < cb_hLen b" and "cb_hLen b \<le> cb_blockLen b"
    and "\<And>ch. ch < cb_m b \<Longrightarrow> length (B ch) = 2 * cb_blockLen b \<and> length (S ch) = 2 * n"
    and b1_def: "b1 = cb_filters (convolve_init sse3) (cb_load B b)"
  shows "cb_streams b1 (\<lambda>ch. S ch @ B ch) \<and>
    (\<forall>ch < cb_m b. \<forall>j < 2 * cb_blockLen b. cb_hOutputs b1 ! ch ! j = stream_out b (\<lambda>ch. S ch @ B ch) n ch j) \<and>
    cb_m b1 = cb_m b \<and> cb_hLen b1 = cb_hLen b \<and> cb_blockLen b1 = cb_blockLen b \<and> cb_subFilters b1 = cb_subFilters b"
proof -
  let ?b = "cb_load B b"
  let ?f = "\<lambda>ch. cb_filter (convolve_init sse3) ?b (cb_subFilters b ! ch) (cb_hInputs ?b ! ch) (cb_hist b ! ch) (cb_hOutputs b ! ch)"
  have same: "cb_filter (convolve_init sse3) ?b = cb_filter (convolve_init sse3) b"
    by (intro ext) (simp add: cb_filter_def cb_load_def)
  have ch: "fst (?f ch) = cb_hist b ! ch @ B ch \<and> fst (snd (?f ch)) = drop (length (S ch @ B ch)) (padded b (\<lambda>ch. S ch @ B ch) ch) \<and>
      length (snd (snd (?f ch))) = 2 * cb_blockLen b \<and> length (cb_hist b ! ch) = 2 * cb_hLen b \<and>
      (\<forall>j < 2 * cb_blockLen b. snd (snd (?f ch)) ! j = stream_out b (\<lambda>ch. S ch @ B ch) n ch j)" if c: "ch < cb_m b" for ch
  proof -
    have row: "cb_hInputs ?b ! ch = take (2 * cb_hLen b) (cb_hInputs b ! ch) @ B ch" using c by (simp add: cb_load_def)
    obtain row1 hist1 out1 where f: "?f ch = (row1, hist1, out1)" by (rule prod_cases3)
    have F: "row1 = cb_hist b ! ch @ B ch \<and> hist1 = drop (length (S ch @ B ch)) (replicate (2 * cb_hLen b) 0 @ S ch @ B ch) \<and>
      length out1 = 2 * cb_blockLen b \<and>
      (\<forall>t < cb_blockLen b. \<forall>part < 2. out1 ! (2 * t + part) =
        (\<Sum>k < cb_hLen b. (replicate (2 * cb_hLen b) 0 @ S ch @ B ch) ! (length (S ch) + 2 * (t + 1 + k) + part) *
          float_ptr (cb_subFilters b ! ch) (2 * int k)))"
      using assms(1) assms(4) [OF c] c f unfolding same row
      by (intro cb_filter_stream [OF _ _ _ _ assms(2,3)]) (auto simp: cb_streams_def padded_def)
    have "out1 ! j = stream_out b (\<lambda>ch. S ch @ B ch) n ch j" if j: "j < 2 * cb_blockLen b" for j
    proof -
      have t: "j div 2 < cb_blockLen b" "j mod 2 < 2" and e: "2 * (j div 2) + j mod 2 = j" using j by auto
      have i: "2 * (n + j div 2 + 1 + k) + j mod 2 = length (S ch) + 2 * (j div 2 + 1 + k) + j mod 2" for k
        using assms(4) [OF c] by simp
      from F t have "out1 ! (2 * (j div 2) + j mod 2) = (\<Sum>k < cb_hLen b. (replicate (2 * cb_hLen b) 0 @ S ch @ B ch) !
        (length (S ch) + 2 * (j div 2 + 1 + k) + j mod 2) * float_ptr (cb_subFilters b ! ch) (2 * int k))" by blast
      then show ?thesis unfolding stream_out_def padded_def i e .
    qed
    moreover have "length (cb_hist b ! ch) = 2 * cb_hLen b" using assms(1) c by (simp add: cb_streams_def padded_def)
    ultimately show ?thesis using f F by (simp add: padded_def)
  qed
  have b1: "cb_hInputs b1 = map (\<lambda>i. fst (?f i)) [0..<cb_m b]" "cb_hist b1 = map (\<lambda>i. fst (snd (?f i))) [0..<cb_m b]"
    "cb_hOutputs b1 = map (\<lambda>i. snd (snd (?f i))) [0..<cb_m b]" "cb_m b1 = cb_m b" "cb_hLen b1 = cb_hLen b"
    "cb_blockLen b1 = cb_blockLen b" "cb_subFilters b1 = cb_subFilters b"
    unfolding b1_def by (simp_all add: cb_filters_def cb_load_def Let_def comp_def)
  show ?thesis using ch b1 by (simp add: cb_streams_def padded_def)
qed

fun chan_run ::
  "real convolve_cpu_context \<Rightarrow> (real list list \<Rightarrow> real list list) \<Rightarrow> real list list \<Rightarrow> chan_base \<Rightarrow> chan_base" where
  "chan_run c fft [] b = b"
| "chan_run c fft (x # xs) b = chan_run c fft xs (snd (chan_rotate c fft x (length x div 2) b))"

lemma length_deinterleave [simp]: "length (deinterleave inp olen m ch) = 2 * olen"
  by (induction olen) (simp_all add: deinterleave_def)

text \<open>A wide band in pieces: the stream of a channel is the one of the whole.\<close>

lemma deinterleave_append:
  assumes "length x = 2 * (a * m)" and "0 < m"
  shows "deinterleave (x @ y) (a + k) m ch = deinterleave x a m ch @ deinterleave y k m ch"
proof -
  have up: "[0..<a + k] = [0..<a] @ map (\<lambda>i. i + a) [0..<k]"
    using upt_add_eq_append [of 0 a k] map_add_upt [of a k] by (simp add: add.commute [of k a])
  have lo: "2 * (i * m + (m - 1 - ch)) + r < length x" if "i < a" "r < 2" for i r
  proof -
    have "(i + 1) * m \<le> a * m" using that by (intro mult_le_mono1) simp
    then show ?thesis using assms that(2) by simp
  qed
  have hi: "2 * ((i + a) * m + (m - 1 - ch)) + r = length x + (2 * (i * m + (m - 1 - ch)) + r)" for i r
    unfolding assms(1) by (simp add: add_mult_distrib add_mult_distrib2)
  have x: "(x @ y) ! (2 * (i * m + (m - 1 - ch)) + r) = x ! (2 * (i * m + (m - 1 - ch)) + r)" if "i < a" "r < 2" for i r
    using lo [OF that] by (simp only: nth_append if_True)
  have y: "(x @ y) ! (2 * ((i + a) * m + (m - 1 - ch)) + r) = y ! (2 * (i * m + (m - 1 - ch)) + r)" for i r
    unfolding hi by (rule nth_append_length_plus)
  show ?thesis
    unfolding deinterleave_def up map_append concat_append map_map comp_def
    using x [of _ 0] x [of _ 1] y [of _ 0] y [of _ 1]
    by (intro arg_cong2 [of _ _ _ _ "(@)"] arg_cong [where f = concat] map_cong refl) simp_all
qed

lemma chan_rotate_streams:
  assumes "cb_streams b S" and "0 < cb_hLen b" and "cb_hLen b \<le> cb_blockLen b"
    and "\<And>ch. ch < cb_m b \<Longrightarrow> length (S ch) = 2 * n" and "\<And>rows. length (fft rows) = length rows"
  shows "\<exists>b'. chan_rotate (convolve_init sse3) fft inp (cb_blockLen b * cb_m b) b = (True, b') \<and>
    cb_streams b' (\<lambda>ch. S ch @ deinterleave inp (cb_blockLen b) (cb_m b) ch) \<and>
    (\<forall>ch < cb_m b. \<forall>j < 2 * cb_blockLen b. cb_hOutputs b' ! ch ! j =
       stream_out b (\<lambda>ch. S ch @ deinterleave inp (cb_blockLen b) (cb_m b) ch) n ch j) \<and>
    (\<forall>ch < cb_m b. chan_outputBuffer ch b' = Some (fft (cb_hOutputs b') ! ch)) \<and>
    cb_m b' = cb_m b \<and> cb_hLen b' = cb_hLen b \<and> cb_blockLen b' = cb_blockLen b \<and> cb_subFilters b' = cb_subFilters b"
proof -
  let ?B = "deinterleave inp (cb_blockLen b) (cb_m b)"
  define b2 where "b2 = cb_filters (convolve_init sse3) (cb_load ?B b)"
  let ?b' = "b2\<lparr>cb_hInputs := map2 (\<lambda>row blk. take (2 * cb_hLen b) row @ blk) (cb_hInputs b2) (fft (cb_hOutputs b2))\<rparr>"
  have F: "cb_streams b2 (\<lambda>ch. S ch @ ?B ch) \<and>
    (\<forall>ch < cb_m b. \<forall>j < 2 * cb_blockLen b. cb_hOutputs b2 ! ch ! j = stream_out b (\<lambda>ch. S ch @ ?B ch) n ch j) \<and>
    cb_m b2 = cb_m b \<and> cb_hLen b2 = cb_hLen b \<and> cb_blockLen b2 = cb_blockLen b \<and> cb_subFilters b2 = cb_subFilters b"
    using assms(4) by (intro cb_filters_streams [OF assms(1-3) _ b2_def]) simp
  note same = F [THEN conjunct2, THEN conjunct2]
  have r: "chan_rotate (convolve_init sse3) fft inp (cb_blockLen b * cb_m b) b = (True, ?b')"
    by (simp add: chan_rotate_def cb_checkLen_def cb_load_def Let_def b2_def)
  have l: "length (cb_hInputs b2) = cb_m b" "length (cb_hOutputs b2) = cb_m b"
    and row: "2 * cb_hLen b \<le> length (cb_hInputs b2 ! ch)" if "ch < cb_m b" for ch
    using F that by (auto simp: cb_streams_def)
  have in': "cb_hInputs ?b' ! ch = take (2 * cb_hLen b) (cb_hInputs b2 ! ch) @ fft (cb_hOutputs b2) ! ch" if "ch < cb_m b" for ch
    using that l assms(5) by simp
  have s: "cb_streams ?b' (\<lambda>ch. S ch @ ?B ch)"
    using F in' row assms(5) unfolding cb_streams_def padded_def by auto
  have "chan_outputBuffer ch ?b' = Some (fft (cb_hOutputs ?b') ! ch)" if "ch < cb_m b" for ch
    using that in' [OF that] row [OF that] same by (simp add: chan_outputBuffer_def)
  then show ?thesis using r s F by (intro exI [of _ ?b']) simp
qed

lemma chan_run_streams:
  assumes "\<And>rows. length (fft rows) = length rows" and "0 < cb_hLen b" and "cb_hLen b \<le> cb_blockLen b"
    and "cb_streams b S" and "\<And>ch. ch < cb_m b \<Longrightarrow> length (S ch) = 2 * n"
    and "\<forall>x \<in> set ins. length x = 2 * (cb_blockLen b * cb_m b)"
  defines "T \<equiv> \<lambda>ch. S ch @ concat (map (\<lambda>x. deinterleave x (cb_blockLen b) (cb_m b) ch) ins)"
  shows "cb_streams (chan_run (convolve_init sse3) fft ins b) T \<and>
    (\<forall>ch < cb_m b. length (T ch) = 2 * (n + length ins * cb_blockLen b)) \<and>
    cb_m (chan_run (convolve_init sse3) fft ins b) = cb_m b \<and>
    cb_hLen (chan_run (convolve_init sse3) fft ins b) = cb_hLen b \<and>
    cb_blockLen (chan_run (convolve_init sse3) fft ins b) = cb_blockLen b \<and>
    cb_subFilters (chan_run (convolve_init sse3) fft ins b) = cb_subFilters b"
  using assms(2-6) unfolding T_def
proof (induction ins arbitrary: b S n)
  case (Cons x xs)
  let ?B = "deinterleave x (cb_blockLen b) (cb_m b)"
  have lx: "length x div 2 = cb_blockLen b * cb_m b" using Cons.prems(5) by simp
  obtain b1 where b1: "chan_rotate (convolve_init sse3) fft x (cb_blockLen b * cb_m b) b = (True, b1)"
    "cb_streams b1 (\<lambda>ch. S ch @ ?B ch)"
    "cb_m b1 = cb_m b" "cb_hLen b1 = cb_hLen b" "cb_blockLen b1 = cb_blockLen b" "cb_subFilters b1 = cb_subFilters b"
    using chan_rotate_streams [OF Cons.prems(3,1,2,4) assms(1), of sse3 x] by blast
  show ?case
    using Cons.IH [of b1 "\<lambda>ch. S ch @ ?B ch" "n + cb_blockLen b"] b1 Cons.prems lx
    by (simp add: algebra_simps)
qed simp

lemma deinterleave_concat:
  assumes "\<forall>x \<in> set ins. length x = 2 * (k * m)" and "0 < m"
  shows "concat (map (\<lambda>x. deinterleave x k m ch) ins) = deinterleave (concat ins) (length ins * k) m ch"
  using assms(1)
proof (induction ins)
  case (Cons x xs)
  then show ?case using deinterleave_append [of x k m "concat xs" "length xs * k" ch] assms(2) by simp
qed (simp add: deinterleave_def)

text \<open>C17. A channelizer that rotates over any number of blocks works as one filter on the whole stream:
  block \<open>n\<close> of a channel is the convolution of its filter with the wide band so far, cut to every \<open>m\<close>-th
  sample and preceded by silence, without a seam between the blocks; the outputs of the channels are
  the Fourier transform of these.\<close>

theorem channelizer_stream:
  assumes "cb_init (cb_new m blockLen hLen) = (True, b0)" and "0 < m" and "0 < hLen" and "hLen \<le> blockLen"
    and "\<And>rows. length (fft rows) = length rows"
    and "\<forall>x \<in> set (ins @ [inp]). length x = 2 * (blockLen * m)"
  shows "\<exists>b'. chan_rotate (convolve_init sse3) fft inp (blockLen * m) (chan_run (convolve_init sse3) fft ins b0) = (True, b') \<and>
    (\<forall>ch < m. chan_outputBuffer ch b' = Some (fft (cb_hOutputs b') ! ch) \<and>
      (\<forall>j < 2 * blockLen. cb_hOutputs b' ! ch ! j =
        stream_out b0 (deinterleave (concat (ins @ [inp])) (length (ins @ [inp]) * blockLen) m) (length ins * blockLen) ch j))"
proof -
  have p: "cb_m b0 = m" "cb_hLen b0 = hLen" "cb_blockLen b0 = blockLen"
    using assms(1) by (auto simp: cb_init_def cb_new_def cb_initFFT_def cb_initFilters_def Let_def)
  let ?S = "\<lambda>ch. concat (map (\<lambda>x. deinterleave x blockLen m ch) ins)"
  let ?b = "chan_run (convolve_init sse3) fft ins b0"
  have R: "cb_streams ?b ?S \<and> (\<forall>ch < m. length (?S ch) = 2 * (length ins * blockLen)) \<and> cb_m ?b = m \<and>
    cb_hLen ?b = hLen \<and> cb_blockLen ?b = blockLen \<and> cb_subFilters ?b = cb_subFilters b0"
    using chan_run_streams [OF assms(5) _ _ cb_init_streams [OF assms(1)], of 0 ins sse3] assms(3,4,6) by (simp add: p)
  obtain b' where b': "chan_rotate (convolve_init sse3) fft inp (blockLen * m) ?b = (True, b')"
    "\<forall>ch < m. \<forall>j < 2 * blockLen. cb_hOutputs b' ! ch ! j = stream_out ?b (\<lambda>ch. ?S ch @ deinterleave inp blockLen m ch) (length ins * blockLen) ch j"
    "\<forall>ch < m. chan_outputBuffer ch b' = Some (fft (cb_hOutputs b') ! ch)"
    using chan_rotate_streams [of ?b ?S "length ins * blockLen" fft sse3 inp] R assms(3-5) by auto
  have "?S ch @ deinterleave inp blockLen m ch = deinterleave (concat (ins @ [inp])) (length (ins @ [inp]) * blockLen) m ch" for ch
    using deinterleave_concat [OF assms(6,2), of ch] by simp
  moreover have "stream_out ?b T n ch j = stream_out b0 T n ch j" for T n ch j
    using R p by (simp add: stream_out_def padded_def)
  ultimately show ?thesis using b' by (simp add: stream_out_def)
qed

theorem channelizer_stream_witness:
  "\<exists>b'. chan_rotate (convolve_init True) rev [1, 2, 3, 4, 5, 6, 7, 8] 4
      (chan_run (convolve_init True) rev [[0, 0, 0, 0, 0, 0, 9, 9]] (snd (cb_init (cb_new 2 2 1)))) = (True, b') \<and>
    chan_outputBuffer 1 b' = Some (rev (cb_hOutputs b') ! 1) \<and>
    cb_hOutputs b' ! 1 ! 3 = stream_out (snd (cb_init (cb_new 2 2 1)))
      (deinterleave [0, 0, 0, 0, 0, 0, 9, 9, 1, 2, 3, 4, 5, 6, 7, 8] 4 2) 2 1 3"
proof -
  have i: "cb_init (cb_new 2 2 1) = (True, snd (cb_init (cb_new 2 2 1)))"
    by (simp add: cb_init_def cb_new_def cb_initFFT_def cb_initFilters_def Let_def)
  obtain b' where b': "chan_rotate (convolve_init True) rev [1, 2, 3, 4, 5, 6, 7, 8] (2 * 2)
      (chan_run (convolve_init True) rev [[0, 0, 0, 0, 0, 0, 9, 9]] (snd (cb_init (cb_new 2 2 1)))) = (True, b')"
    "\<forall>ch < 2. chan_outputBuffer ch b' = Some (rev (cb_hOutputs b') ! ch) \<and>
      (\<forall>j < 2 * 2. cb_hOutputs b' ! ch ! j = stream_out (snd (cb_init (cb_new 2 2 1)))
        (deinterleave (concat ([[0, 0, 0, 0, 0, 0, 9, 9]] @ [[1, 2, 3, 4, 5, 6, 7, 8]])) (length ([[0, 0, 0, 0, 0, 0, 9, 9 :: real]] @ [[1, 2, 3, 4, 5, 6, 7, 8]]) * 2) 2)
        (length [[0, 0, 0, 0, 0, 0, 9, 9 :: real]] * 2) ch j)"
    using channelizer_stream [OF i, of rev "[[0, 0, 0, 0, 0, 0, 9, 9]]" "[1, 2, 3, 4, 5, 6, 7, 8]" True] by auto
  have "chan_outputBuffer 1 b' = Some (rev (cb_hOutputs b') ! 1)" using b'(2) by simp
  moreover have "cb_hOutputs b' ! 1 ! 3 = stream_out (snd (cb_init (cb_new 2 2 1)))
      (deinterleave [0, 0, 0, 0, 0, 0, 9, 9, 1, 2, 3, 4, 5, 6, 7, 8] 4 2) 2 1 3"
    using spec [OF b'(2), of 1] by simp
  ultimately show ?thesis using b'(1) by auto
qed

text \<open>A synthesis block: each channel filters the stream of the transformed rows, and the wide band is the
  filtered rows, interleaved.\<close>

lemma syn_rotate_streams:
  assumes "cb_streams b S" and "0 < cb_hLen b" and "cb_hLen b \<le> cb_blockLen b"
    and "\<And>ch. ch < cb_m b \<Longrightarrow> length (S ch) = 2 * n" and "length (fft (cb_hOutputs b)) = cb_m b"
    and "\<And>ch. ch < cb_m b \<Longrightarrow> length (fft (cb_hOutputs b) ! ch) = 2 * cb_blockLen b"
  shows "\<exists>b'. syn_rotate (convolve_init sse3) fft (cb_blockLen b * cb_m b) b =
      Some (interleave_rows (cb_hOutputs b') (cb_blockLen b) (cb_m b), b') \<and>
    cb_streams b' (\<lambda>ch. S ch @ fft (cb_hOutputs b) ! ch) \<and>
    (\<forall>ch < cb_m b. \<forall>j < 2 * cb_blockLen b. cb_hOutputs b' ! ch ! j =
       stream_out b (\<lambda>ch. S ch @ fft (cb_hOutputs b) ! ch) n ch j)"
proof -
  let ?B = "\<lambda>ch. fft (cb_hOutputs b) ! ch"
  define b2 where "b2 = cb_filters (convolve_init sse3) (cb_load ?B b)"
  have F: "cb_streams b2 (\<lambda>ch. S ch @ ?B ch) \<and>
    (\<forall>ch < cb_m b. \<forall>j < 2 * cb_blockLen b. cb_hOutputs b2 ! ch ! j = stream_out b (\<lambda>ch. S ch @ ?B ch) n ch j)"
    using cb_filters_streams [OF assms(1-3) _ b2_def] assms(4,6) by blast
  have "map2 (\<lambda>row blk. take (2 * cb_hLen b) row @ blk) (cb_hInputs b) (fft (cb_hOutputs b)) =
    map (\<lambda>ch. take (2 * cb_hLen b) (cb_hInputs b ! ch) @ ?B ch) [0..<cb_m b]"
    using assms(1,5) by (intro nth_equalityI) (simp_all add: cb_streams_def)
  then have "syn_rotate (convolve_init sse3) fft (cb_blockLen b * cb_m b) b =
    Some (interleave_rows (cb_hOutputs b2) (cb_blockLen b) (cb_m b), b2)"
    by (simp add: syn_rotate_def cb_checkLen_def cb_load_def Let_def b2_def)
  then show ?thesis using F by blast
qed

end
