(* ===== verification/SigVector.thy ===== *)
theory SigVector
  imports Complex_Main Convolve Filterbank
begin

text \<open>
  Signal vectors (\<^verbatim>\<open>signalVector.cpp\<close>) and their convolution (\<open>convolve\<close> in \<^verbatim>\<open>sigProcLib.cpp\<close>).

  A sample is a complex number; in the arrays of floats that the convolution works on it is a pair.
  \<open>sv_data\<close> is the whole block with the head room in front of the samples, \<open>sv_start\<close> the length of the head
  room. Ownership is the subject of \<open>Vectors\<close>. A new block holds zeros, which is what the constructor of
  \<open>Complex\<close> leaves there; a block of the aligned allocator is filled by the operations that ask for it.
\<close>

section \<open>Vectors\<close>

datatype symmetry = NONE | ABSSYM

record signal_vector =
  sv_data :: "complex list"
  sv_start :: nat
  sv_isReal :: bool
  sv_aligned :: bool
  sv_symmetry :: symmetry

definition sv_size :: "signal_vector \<Rightarrow> nat" where
  "sv_size v = length (sv_data v) - sv_start v"

definition sv_samples :: "signal_vector \<Rightarrow> complex list" where
  "sv_samples v = drop (sv_start v) (sv_data v)"

definition sv_new :: "nat \<Rightarrow> nat \<Rightarrow> signal_vector" where
  "sv_new n start =
    \<lparr>sv_data = replicate (n + start) 0, sv_start = start, sv_isReal = False, sv_aligned = False, sv_symmetry = NONE\<rparr>"

definition sv_wrap :: "complex list \<Rightarrow> nat \<Rightarrow> nat \<Rightarrow> signal_vector" where
  "sv_wrap block start len =
    \<lparr>sv_data = take (start + len) block, sv_start = start, sv_isReal = False, sv_aligned = False, sv_symmetry = NONE\<rparr>"

definition sv_copy :: "signal_vector \<Rightarrow> signal_vector" where
  "sv_copy v =
    \<lparr>sv_data = replicate (sv_start v) 0 @ sv_samples v, sv_start = sv_start v, sv_isReal = sv_isReal v, sv_aligned = False,
      sv_symmetry = sv_symmetry v\<rparr>"

definition sv_extend :: "signal_vector \<Rightarrow> nat \<Rightarrow> nat \<Rightarrow> signal_vector" where
  "sv_extend v start tail_len =
    \<lparr>sv_data = replicate start 0 @ sv_samples v @ replicate tail_len 0, sv_start = start, sv_isReal = sv_isReal v,
      sv_aligned = False, sv_symmetry = sv_symmetry v\<rparr>"

definition sv_assign :: "signal_vector \<Rightarrow> signal_vector \<Rightarrow> signal_vector" where
  "sv_assign v other = v\<lparr>sv_data := sv_data other, sv_start := sv_start other\<rparr>"

definition sv_getStart :: "signal_vector \<Rightarrow> nat" where
  "sv_getStart v = sv_start v"

definition sv_getSymmetry :: "signal_vector \<Rightarrow> symmetry" where
  "sv_getSymmetry v = sv_symmetry v"

definition sv_setSymmetry :: "symmetry \<Rightarrow> signal_vector \<Rightarrow> signal_vector" where
  "sv_setSymmetry s v = v\<lparr>sv_symmetry := s\<rparr>"

definition sv_setReal :: "bool \<Rightarrow> signal_vector \<Rightarrow> signal_vector" where
  "sv_setReal b v = v\<lparr>sv_isReal := b\<rparr>"

definition sv_setAligned :: "bool \<Rightarrow> signal_vector \<Rightarrow> signal_vector" where
  "sv_setAligned b v = v\<lparr>sv_aligned := b\<rparr>"

definition sv_segment :: "signal_vector \<Rightarrow> nat \<Rightarrow> nat \<Rightarrow> signal_vector" where
  "sv_segment v start len = sv_wrap (sv_data v) start len"

definition sv_updateHistory :: "signal_vector \<Rightarrow> nat \<times> signal_vector" where
  "sv_updateHistory v =
    (let num = sv_getStart v
     in (num, v\<lparr>sv_data := take num (drop (sv_size v) (sv_data v)) @ drop num (sv_data v)\<rparr>))"

text \<open>A pass over the samples; a write to sample \<open>i\<close>, \<open>None\<close> outside.\<close>

definition sv_map_samples :: "(complex list \<Rightarrow> complex list) \<Rightarrow> signal_vector \<Rightarrow> signal_vector" where
  "sv_map_samples f v = v\<lparr>sv_data := take (sv_start v) (sv_data v) @ f (sv_samples v)\<rparr>"

definition sv_put :: "nat \<Rightarrow> complex \<Rightarrow> signal_vector \<Rightarrow> signal_vector option" where
  "sv_put i z v = (if i < sv_size v then Some (v\<lparr>sv_data := (sv_data v)[sv_start v + i := z]\<rparr>) else None)"

section \<open>Convolution\<close>

text \<open>The floats behind the pointer to the first sample. Outside the block there is nothing to read; the
  lemmas show that no such float is asked for.\<close>

definition sv_ptr :: "signal_vector \<Rightarrow> int \<Rightarrow> real" where
  "sv_ptr v i =
    (let j = i + 2 * int (sv_start v)
     in if 0 \<le> j \<and> j < 2 * int (length (sv_data v))
        then (if even j then Re (sv_data v ! nat (j div 2)) else Im (sv_data v ! nat (j div 2))) else 0)"

definition floats_of :: "complex list \<Rightarrow> real list" where
  "floats_of zs = concat (map (\<lambda>z. [Re z, Im z]) zs)"

definition samples_of :: "real list \<Rightarrow> complex list" where
  "samples_of xs = map (\<lambda>i. Complex (xs ! (2 * i)) (xs ! (2 * i + 1))) [0..<length xs div 2]"

datatype conv_type = START_ONLY | NO_DELAY | CUSTOM | UNDEFINED

definition conv_spans :: "conv_type \<Rightarrow> signal_vector \<Rightarrow> signal_vector \<Rightarrow> nat \<Rightarrow> nat \<Rightarrow> (nat \<times> nat \<times> nat \<times> nat \<times> bool) option" where
  "conv_spans spanType x h start len =
    (case spanType of
       START_ONLY \<Rightarrow> let hd_len = sv_size h - 1 in Some (0, sv_size x, hd_len, 0, sv_getStart x < hd_len)
     | NO_DELAY \<Rightarrow> let start = sv_size h div 2 in Some (start, sv_size x, start, start, True)
     | CUSTOM \<Rightarrow>
         let hd_len = (if start < sv_size h - 1 then sv_size h - start else 0);
             tl_len = (if start + len > sv_size x then start + len - sv_size x else 0)
         in Some (start, len, hd_len, tl_len, start < sv_size h - 1 \<or> start + len > sv_size x)
     | UNDEFINED \<Rightarrow> None)"

text \<open>The routine for the taps: real or complex, and with or without the alignment that the vector code needs.\<close>

definition conv_routine ::
  "real convolve_cpu_context \<Rightarrow> signal_vector \<Rightarrow>
    (int \<Rightarrow> real) \<Rightarrow> int \<Rightarrow> (int \<Rightarrow> real) \<Rightarrow> int \<Rightarrow> real list \<Rightarrow> int \<Rightarrow> int \<Rightarrow> int \<Rightarrow> int \<times> real list" where
  "conv_routine c h =
    (if sv_isReal h \<and> sv_aligned h then convolve_real c
     else if \<not> sv_isReal h \<and> sv_aligned h then convolve_complex c
     else if sv_isReal h \<and> \<not> sv_aligned h then base_convolve_real
     else base_convolve_complex)"

definition sv_convolve ::
  "real convolve_cpu_context \<Rightarrow> signal_vector option \<Rightarrow> signal_vector option \<Rightarrow> signal_vector option \<Rightarrow> conv_type \<Rightarrow>
    nat \<Rightarrow> nat \<Rightarrow> signal_vector option" where
  "sv_convolve c x h y spanType start len =
    (case (x, h) of
       (Some x, Some h) \<Rightarrow>
         (case conv_spans spanType x h start len of
            None \<Rightarrow> None
          | Some (start, len, hd_len, tl_len, app) \<Rightarrow>
              if (case y of None \<Rightarrow> False | Some y \<Rightarrow> len > sv_size y) then None
              else
                let y = (case y of None \<Rightarrow> sv_new len 0 | Some y \<Rightarrow> y);
                    x' = (if app then sv_extend x hd_len tl_len else x);
                    (rc, out) = conv_routine c h (sv_ptr x') (int (sv_size x')) (sv_ptr h) (int (sv_size h))
                                  (floats_of (sv_samples y)) (int (sv_size y)) (int start) (int len)
                in if rc < 0 then None else Some (sv_map_samples (\<lambda>_. samples_of out) y))
     | _ \<Rightarrow> None)"

section \<open>The convolution as a sum of samples\<close>

lemma length_floats_of [simp]: "length (floats_of zs) = 2 * length zs"
  by (induction zs) (simp_all add: floats_of_def)

lemma floats_of_nth: "i < length zs \<Longrightarrow> floats_of zs ! (2 * i) = Re (zs ! i) \<and> floats_of zs ! (2 * i + 1) = Im (zs ! i)"
proof (induction zs arbitrary: i)
  case (Cons z zs)
  then show ?case by (cases i) (simp_all add: floats_of_def)
qed simp

lemma samples_of_floats [simp]: "samples_of (floats_of zs) = zs"
  using floats_of_nth by (intro nth_equalityI) (auto simp: samples_of_def complex_eq_iff)

text \<open>Sample \<open>i\<close> of a vector; the head room has negative indexes, and there is silence around the block.\<close>

definition sv_at :: "signal_vector \<Rightarrow> int \<Rightarrow> complex" where
  "sv_at v i =
    (let j = i + int (sv_start v) in if 0 \<le> j \<and> j < int (length (sv_data v)) then sv_data v ! nat j else 0)"

lemma sv_ptr_at: "sv_ptr v (2 * i) = Re (sv_at v i)" "sv_ptr v (2 * i + 1) = Im (sv_at v i)"
proof -
  have e: "2 * i + 2 * int (sv_start v) = 2 * (i + int (sv_start v))" "2 * i + 1 + 2 * int (sv_start v) = 2 * (i + int (sv_start v)) + 1"
    by simp_all
  show "sv_ptr v (2 * i) = Re (sv_at v i)" "sv_ptr v (2 * i + 1) = Im (sv_at v i)"
    unfolding sv_ptr_def sv_at_def Let_def e by auto
qed

text \<open>The taps as the code uses them: of real taps, the real parts.\<close>

definition sv_tap :: "signal_vector \<Rightarrow> nat \<Rightarrow> complex" where
  "sv_tap h k = (if sv_isReal h then of_real (Re (sv_at h (int k))) else sv_at h (int k))"

definition conv_sum :: "signal_vector \<Rightarrow> signal_vector \<Rightarrow> int \<Rightarrow> complex" where
  "conv_sum x h s = (\<Sum>k < sv_size h. sv_at x (s - (int (sv_size h) - 1) + int k) * sv_tap h k)"

lemma tap_sum_real:
  assumes "sv_isReal h"
  shows "Complex (tap_sum (tapr_re (sv_ptr x) (sv_ptr h)) (2 * (- (int (sv_size h) - 1) + s)) (sv_size h) i)
      (tap_sum (tapr_im (sv_ptr x) (sv_ptr h)) (2 * (- (int (sv_size h) - 1) + s)) (sv_size h) i) =
    conv_sum x h (s + int i)"
proof -
  have e: "2 * (- (int (sv_size h) - 1) + s) + 2 * int i + 2 * int k = 2 * (s + int i - (int (sv_size h) - 1) + int k)" for k
    by simp
  show ?thesis
    unfolding tap_sum_def tapr_re_def tapr_im_def conv_sum_def sv_tap_def e sv_ptr_at
    using assms by (simp add: complex_eq_iff Re_sum Im_sum)
qed

lemma tap_sum_complex:
  assumes "\<not> sv_isReal h"
  shows "Complex (tap_sum (tapc_re (sv_ptr x) (sv_ptr h)) (2 * (- (int (sv_size h) - 1) + s)) (sv_size h) i)
      (tap_sum (tapc_im (sv_ptr x) (sv_ptr h)) (2 * (- (int (sv_size h) - 1) + s)) (sv_size h) i) =
    conv_sum x h (s + int i)"
proof -
  have e: "2 * (- (int (sv_size h) - 1) + s) + 2 * int i + 2 * int k = 2 * (s + int i - (int (sv_size h) - 1) + int k)" for k
    by simp
  show ?thesis
    unfolding tap_sum_def tapc_re_def tapc_im_def conv_sum_def sv_tap_def e sv_ptr_at
    using assms by (simp add: complex_eq_iff Re_sum Im_sum)
qed

lemma bounds_check_int:
  "\<not> bounds_check (int xl) (int hl) (int yl) (int start) (int len) < 0 \<longleftrightarrow>
    0 < hl \<and> 0 < len \<and> start + len \<le> xl \<and> len \<le> yl \<and> hl \<le> xl"
  by (subst bounds_check_ok) auto

lemma memset0_floats:
  "n \<le> length zs \<Longrightarrow> memset0 (int n * 2) (floats_of zs) = floats_of (replicate n 0 @ drop n zs)"
proof (induction n arbitrary: zs)
  case (Suc n)
  obtain z zs' where z: "zs = z # zs'" using Suc.prems by (cases zs) auto
  have "nat (int (Suc n) * 2) = Suc (Suc (nat (int n * 2)))" by (simp add: nat_mult_distrib)
  then have "memset0 (int (Suc n) * 2) (floats_of zs) = 0 # 0 # memset0 (int n * 2) (floats_of zs')"
    by (simp add: memset0_def z floats_of_def)
  then show ?case using Suc z by (simp add: floats_of_def)
qed (simp add: memset0_def)

lemma samples_of_put_pairs:
  assumes "n \<le> length zs"
  shows "samples_of (put_pairs A B n (floats_of zs)) = map (\<lambda>i. Complex (A i) (B i)) [0..<n] @ drop n zs"
proof (rule nth_equalityI)
  show "length (samples_of (put_pairs A B n (floats_of zs))) = length (map (\<lambda>i. Complex (A i) (B i)) [0..<n] @ drop n zs)"
    using assms by (simp add: samples_of_def)
next
  fix i assume "i < length (samples_of (put_pairs A B n (floats_of zs)))"
  then have i: "i < length zs" by (simp add: samples_of_def)
  have n: "2 * n \<le> length (floats_of zs)" using assms by simp
  have l: "2 * i < length (floats_of zs)" "2 * i + 1 < length (floats_of zs)" using i by simp_all
  have "samples_of (put_pairs A B n (floats_of zs)) ! i = (if i < n then Complex (A i) (B i) else zs ! i)"
    using i put_pairs_nth [OF n l(1), of A B] put_pairs_nth [OF n l(2), of A B] floats_of_nth [OF i]
    by (simp add: samples_of_def complex_eq_iff)
  then show "samples_of (put_pairs A B n (floats_of zs)) ! i = (map (\<lambda>i. Complex (A i) (B i)) [0..<n] @ drop n zs) ! i"
    using assms i by (simp add: nth_append)
qed

lemma conv_routine_base:
  assumes "2 * yl \<le> int (length out)"
  shows "conv_routine (convolve_init sse3) h x xl taps hl out yl start len =
    (if sv_isReal h then base_convolve_real x xl taps hl out yl start len else base_convolve_complex x xl taps hl out yl start len)"
  using convolve_equals_base_aux [OF assms, of sse3 x xl taps hl start len] by (simp add: conv_routine_def)

lemma conv_routine_samples:
  assumes "0 < sv_size h" and "0 < len" and "start + len \<le> sv_size x" and "len \<le> length zs" and "sv_size h \<le> sv_size x"
  shows "\<exists>out. conv_routine (convolve_init sse3) h (sv_ptr x) (int (sv_size x)) (sv_ptr h) (int (sv_size h))
      (floats_of zs) (int (length zs)) (int start) (int len) = (int len, out) \<and>
    samples_of out = map (\<lambda>i. conv_sum x h (int start + int i)) [0..<len] @ drop len zs"
proof -
  let ?xo = "2 * (- (int (sv_size h) - 1) + int start)"
  let ?m = "memset0 (int len * 2) (floats_of zs)"
  have l: "2 * int len \<le> int (length (floats_of zs))" and y: "2 * int (length zs) \<le> int (length (floats_of zs))"
    using assms by simp_all
  have b: "\<not> bounds_check (int (sv_size x)) (int (sv_size h)) (int (length zs)) (int start) (int len) < 0"
    using assms by (simp add: bounds_check_int)
  have z: "len \<le> length (replicate len 0 @ drop len zs)" by simp
  show ?thesis
  proof (cases "sv_isReal h")
    case True
    let ?out = "put_pairs (tap_sum (tapr_re (sv_ptr x) (sv_ptr h)) ?xo (sv_size h))
      (tap_sum (tapr_im (sv_ptr x) (sv_ptr h)) ?xo (sv_size h)) len ?m"
    have "conv_routine (convolve_init sse3) h (sv_ptr x) (int (sv_size x)) (sv_ptr h) (int (sv_size h))
        (floats_of zs) (int (length zs)) (int start) (int len) = (int len, ?out)"
      using True b by (simp add: conv_routine_base [OF y] base_convolve_real_def base_real_pairs [OF l])
    moreover have "samples_of ?out = map (\<lambda>i. conv_sum x h (int start + int i)) [0..<len] @ drop len zs"
      unfolding memset0_floats [OF assms(4)] samples_of_put_pairs [OF z] tap_sum_real [OF True] using assms(4) by simp
    ultimately show ?thesis by blast
  next
    case False
    let ?out = "put_pairs (tap_sum (tapc_re (sv_ptr x) (sv_ptr h)) ?xo (sv_size h))
      (tap_sum (tapc_im (sv_ptr x) (sv_ptr h)) ?xo (sv_size h)) len ?m"
    have "conv_routine (convolve_init sse3) h (sv_ptr x) (int (sv_size x)) (sv_ptr h) (int (sv_size h))
        (floats_of zs) (int (length zs)) (int start) (int len) = (int len, ?out)"
      using False b by (simp add: conv_routine_base [OF y] base_convolve_complex_def base_complex_pairs [OF l])
    moreover have "samples_of ?out = map (\<lambda>i. conv_sum x h (int start + int i)) [0..<len] @ drop len zs"
      unfolding memset0_floats [OF assms(4)] samples_of_put_pairs [OF z] tap_sum_complex [OF False] using assms(4) by simp
    ultimately show ?thesis by blast
  qed
qed

text \<open>What a vector holds in the middle of silence.\<close>

definition sv_sample :: "signal_vector \<Rightarrow> int \<Rightarrow> complex" where
  "sv_sample v i = (if 0 \<le> i \<and> i < int (sv_size v) then sv_samples v ! nat i else 0)"

definition sv_ok :: "signal_vector \<Rightarrow> bool" where
  "sv_ok v = (sv_start v \<le> length (sv_data v))"

definition sv_inside :: "signal_vector \<Rightarrow> int \<Rightarrow> bool" where
  "sv_inside v i = (0 \<le> i + int (sv_start v) \<and> i + int (sv_start v) < int (length (sv_data v)))"

lemma length_sv_samples [simp]: "length (sv_samples v) = sv_size v"
  by (simp add: sv_samples_def sv_size_def)

lemma sv_new_simps [simp]:
  "sv_size (sv_new n st) = n" "sv_samples (sv_new n st) = replicate n 0" "sv_start (sv_new n st) = st"
  "sv_isReal (sv_new n st) = False" "sv_aligned (sv_new n st) = False" "sv_ok (sv_new n st)"
  by (simp_all add: sv_new_def sv_size_def sv_samples_def sv_ok_def)

lemma sv_extend_simps [simp]:
  "sv_size (sv_extend x hd_len tl_len) = sv_size x + tl_len" "sv_start (sv_extend x hd_len tl_len) = hd_len"
  "sv_samples (sv_extend x hd_len tl_len) = sv_samples x @ replicate tl_len 0"
  "length (sv_data (sv_extend x hd_len tl_len)) = hd_len + sv_size x + tl_len" "sv_ok (sv_extend x hd_len tl_len)"
  by (simp_all add: sv_extend_def sv_size_def sv_samples_def sv_ok_def)

lemma sv_samples_map: "sv_ok v \<Longrightarrow> sv_samples (sv_map_samples f v) = f (sv_samples v)"
  by (simp add: sv_map_samples_def sv_samples_def sv_ok_def)

lemma sv_map_samples_simps [simp]:
  "sv_start (sv_map_samples f v) = sv_start v" "sv_isReal (sv_map_samples f v) = sv_isReal v"
  "sv_aligned (sv_map_samples f v) = sv_aligned v" "sv_ok v \<Longrightarrow> sv_ok (sv_map_samples f v)"
  by (simp_all add: sv_map_samples_def sv_ok_def)

lemma sv_size_map: "sv_ok v \<Longrightarrow> sv_size (sv_map_samples f v) = length (f (sv_samples v))"
  using sv_samples_map [of v f] by (metis length_sv_samples)

lemma sv_at_samples: "sv_at v i = (if 0 \<le> i \<and> i < int (sv_size v) then sv_samples v ! nat i else sv_at v i)"
proof -
  have "nat (i + int (sv_start v)) = sv_start v + nat i" if "0 \<le> i" using that by simp
  then show ?thesis by (auto simp: sv_at_def sv_samples_def sv_size_def Let_def)
qed

lemma sv_at_extend: "sv_at (sv_extend x hd_len tl_len) i = sv_sample x i"
proof -
  have d: "sv_data (sv_extend x hd_len tl_len) = replicate hd_len 0 @ sv_samples x @ replicate tl_len 0"
    by (simp add: sv_extend_def)
  show ?thesis
  proof (cases "0 \<le> i")
    case True
    then have "nat (i + int hd_len) = hd_len + nat i" by simp
    then show ?thesis using True by (auto simp: sv_at_def sv_sample_def d nth_append Let_def)
  next
    case False
    then show ?thesis by (auto simp: sv_at_def sv_sample_def d nth_append Let_def)
  qed
qed

text \<open>The samples that the convolution works on: those in front of the first one are the head room when
  it is long enough for a convolution from the start, and silence otherwise.\<close>

definition conv_input :: "conv_type \<Rightarrow> signal_vector \<Rightarrow> signal_vector \<Rightarrow> int \<Rightarrow> complex" where
  "conv_input spanType x h i =
    (if spanType = START_ONLY \<and> sv_size h - 1 \<le> sv_start x then sv_at x i else sv_sample x i)"

definition conv_range :: "conv_type \<Rightarrow> signal_vector \<Rightarrow> signal_vector \<Rightarrow> nat \<Rightarrow> nat \<Rightarrow> nat \<times> nat" where
  "conv_range spanType x h start len =
    (case spanType of START_ONLY \<Rightarrow> (0, sv_size x) | NO_DELAY \<Rightarrow> (sv_size h div 2, sv_size x) | _ \<Rightarrow> (start, len))"

definition conv_padded :: "signal_vector \<Rightarrow> nat \<times> nat \<times> bool \<Rightarrow> signal_vector" where
  "conv_padded x p = (case p of (hd_len, tl_len, app) \<Rightarrow> if app then sv_extend x hd_len tl_len else x)"

lemma conv_spans_cases:
  assumes "conv_spans spanType x h start len = Some (s, n, hd_len, tl_len, app)"
    and "sv_ok x" and "0 < sv_size h" and "0 < n" and "i < n" and "k < sv_size h"
  defines "j \<equiv> int s + int i - (int (sv_size h) - 1) + int k"
  shows "sv_inside (conv_padded x (hd_len, tl_len, app)) j" and
    "sv_at (conv_padded x (hd_len, tl_len, app)) j = conv_input spanType x h j"
proof -
  have d: "length (sv_data x) = sv_start x + sv_size x" using assms(2) by (simp add: sv_ok_def sv_size_def)
  have "sv_inside (conv_padded x (hd_len, tl_len, app)) j \<and>
    sv_at (conv_padded x (hd_len, tl_len, app)) j = conv_input spanType x h j"
  proof (cases spanType)
    case START_ONLY
    then show ?thesis using assms d
      by (auto simp: conv_spans_def Let_def conv_padded_def conv_input_def sv_getStart_def sv_inside_def sv_at_extend)
  next
    case NO_DELAY
    then have *: "s = sv_size h div 2" "n = sv_size x" "hd_len = s" "tl_len = s" "app"
      using assms(1) by (auto simp: conv_spans_def Let_def)
    have "int (sv_size h) \<le> 2 * int s + 1" using * by linarith
    then show ?thesis using assms(5,6) * NO_DELAY unfolding j_def
      by (auto simp: conv_padded_def conv_input_def sv_inside_def sv_at_extend)
  next
    case CUSTOM
    then have *: "s = start" "n = len" "hd_len = (if start < sv_size h - 1 then sv_size h - start else 0)"
      "tl_len = (if start + len > sv_size x then start + len - sv_size x else 0)"
      "app = (start < sv_size h - 1 \<or> start + len > sv_size x)"
      using assms(1) by (auto simp: conv_spans_def Let_def)
    show ?thesis
    proof (cases app)
      case True
      then show ?thesis using assms(5,6) * CUSTOM unfolding j_def
        by (auto simp: conv_padded_def conv_input_def sv_inside_def sv_at_extend split: if_splits)
    next
      case False
      then have "0 \<le> j" "j < int (sv_size x)" using assms(5,6) * unfolding j_def by auto
      then show ?thesis using False CUSTOM d sv_at_samples [of x j]
        by (simp add: conv_padded_def conv_input_def sv_inside_def sv_sample_def)
    qed
  qed (use assms(1) in \<open>simp add: conv_spans_def\<close>)
  then show "sv_inside (conv_padded x (hd_len, tl_len, app)) j" and
    "sv_at (conv_padded x (hd_len, tl_len, app)) j = conv_input spanType x h j" by blast+
qed

definition conv_at :: "(int \<Rightarrow> complex) \<Rightarrow> signal_vector \<Rightarrow> int \<Rightarrow> complex" where
  "conv_at f h s = (\<Sum>k < sv_size h. f (s - (int (sv_size h) - 1) + int k) * sv_tap h k)"

definition conv_fits :: "conv_type \<Rightarrow> signal_vector \<Rightarrow> signal_vector \<Rightarrow> nat \<Rightarrow> nat \<Rightarrow> bool" where
  "conv_fits spanType x h start len =
    (0 < sv_size h \<and>
     (case spanType of
        START_ONLY \<Rightarrow> 0 < sv_size x \<and> sv_size h \<le> sv_size x
      | NO_DELAY \<Rightarrow> 0 < sv_size x \<and> sv_size h \<le> sv_size x + sv_size h div 2
      | CUSTOM \<Rightarrow> 0 < len \<and> sv_size h \<le> max (sv_size x) (start + len)
      | UNDEFINED \<Rightarrow> False))"

lemma sv_convolve_unfold:
  assumes "conv_spans spanType x h start len = Some (s, n, hd_len, tl_len, app)"
    and "case y of None \<Rightarrow> True | Some y \<Rightarrow> n \<le> sv_size y"
  shows "sv_convolve c (Some x) (Some h) y spanType start len =
    (let y = (case y of None \<Rightarrow> sv_new n 0 | Some y \<Rightarrow> y); x' = conv_padded x (hd_len, tl_len, app);
         r = conv_routine c h (sv_ptr x') (int (sv_size x')) (sv_ptr h) (int (sv_size h))
               (floats_of (sv_samples y)) (int (sv_size y)) (int s) (int n)
     in if fst r < 0 then None else Some (sv_map_samples (\<lambda>_. samples_of (snd r)) y))"
proof (cases y)
  case None
  show ?thesis
    by (simp only: sv_convolve_def option.case prod.case assms(1) None conv_padded_def Let_def split_beta if_False fst_conv snd_conv)
next
  case (Some v)
  then have "\<not> n > sv_size v" using assms(2) by simp
  then show ?thesis
    by (simp only: sv_convolve_def option.case prod.case assms(1) Some conv_padded_def Let_def split_beta if_False fst_conv snd_conv)
qed

lemma conv_spans_fit:
  assumes "conv_spans spanType x h start len = Some (s, n, hd_len, tl_len, app)"
  shows "(s, n) = conv_range spanType x h start len" and
    "s + n \<le> sv_size (conv_padded x (hd_len, tl_len, app))" and
    "conv_fits spanType x h start len \<longleftrightarrow>
      0 < sv_size h \<and> 0 < n \<and> sv_size h \<le> sv_size (conv_padded x (hd_len, tl_len, app))"
  subgoal using assms by (cases spanType) (simp_all add: conv_spans_def conv_range_def Let_def)
  subgoal using assms
    by (cases spanType) (auto simp: conv_spans_def conv_padded_def Let_def)
  subgoal using assms
    by (cases spanType) (auto simp: conv_spans_def conv_padded_def conv_fits_def Let_def max_def split: if_splits)
  done

lemma conv_spans_some:
  assumes "spanType \<noteq> UNDEFINED"
  obtains s n hd_len tl_len app where "conv_spans spanType x h start len = Some (s, n, hd_len, tl_len, app)"
proof -
  have "conv_spans spanType x h start len \<noteq> None" using assms by (cases spanType) (simp_all add: conv_spans_def Let_def)
  then obtain v where "conv_spans spanType x h start len = Some v" by blast
  then show thesis using that by (cases v) blast
qed

lemma sv_convolve_aux:
  assumes "sv_ok x" and "case y of None \<Rightarrow> True | Some y \<Rightarrow> sv_ok y"
    and "conv_range spanType x h start len = (s, n)"
    and "case y of None \<Rightarrow> True | Some y \<Rightarrow> n \<le> sv_size y"
  shows "if conv_fits spanType x h start len
    then \<exists>y'. sv_convolve (convolve_init sse3) (Some x) (Some h) y spanType start len = Some y' \<and> sv_ok y' \<and>
      sv_samples y' = map (\<lambda>i. conv_at (conv_input spanType x h) h (int s + int i)) [0..<n] @
        (case y of None \<Rightarrow> [] | Some y \<Rightarrow> drop n (sv_samples y)) \<and>
      y' = sv_map_samples (\<lambda>_. sv_samples y') (case y of None \<Rightarrow> sv_new n 0 | Some y \<Rightarrow> y)
    else sv_convolve (convolve_init sse3) (Some x) (Some h) y spanType start len = None"
proof (cases "spanType = UNDEFINED")
  case True
  then show ?thesis by (simp add: conv_fits_def sv_convolve_def conv_spans_def)
next
  case False
  then obtain s' n' hd_len tl_len app where sp: "conv_spans spanType x h start len = Some (s', n', hd_len, tl_len, app)"
    by (rule conv_spans_some)
  have sn: "s' = s" "n' = n" using conv_spans_fit(1) [OF sp] assms(3) by simp_all
  note sp = sp [unfolded sn]
  let ?x = "conv_padded x (hd_len, tl_len, app)"
  let ?y = "case y of None \<Rightarrow> sv_new n 0 | Some y \<Rightarrow> y"
  let ?r = "conv_routine (convolve_init sse3) h (sv_ptr ?x) (int (sv_size ?x)) (sv_ptr h) (int (sv_size h))
    (floats_of (sv_samples ?y)) (int (sv_size ?y)) (int s) (int n)"
  have ly: "n \<le> sv_size ?y" and oy: "sv_ok ?y" using assms(2,4) by (auto split: option.splits)
  note u = sv_convolve_unfold [OF sp assms(4), of "convolve_init sse3", unfolded Let_def]
  note fits = conv_spans_fit(3) [OF sp] and inside = conv_spans_fit(2) [OF sp]
  show ?thesis
  proof (cases "conv_fits spanType x h start len")
    case True
    then have h: "0 < sv_size h" "0 < n" "sv_size h \<le> sv_size ?x" using fits by simp_all
    obtain out where out: "?r = (int n, out)"
      and so: "samples_of out = map (\<lambda>i. conv_sum ?x h (int s + int i)) [0..<n] @ drop n (sv_samples ?y)"
      using conv_routine_samples [OF h(1,2) inside _ h(3), of "sv_samples ?y" sse3] ly by auto
    have "conv_sum ?x h (int s + int i) = conv_at (conv_input spanType x h) h (int s + int i)" if "i < n" for i
      unfolding conv_sum_def conv_at_def
      using conv_spans_cases(2) [OF sp assms(1) h(1,2) that] by (intro sum.cong) simp_all
    then have so': "samples_of out = map (\<lambda>i. conv_at (conv_input spanType x h) h (int s + int i)) [0..<n] @ drop n (sv_samples ?y)"
      unfolding so by simp
    have c: "sv_convolve (convolve_init sse3) (Some x) (Some h) y spanType start len =
        Some (sv_map_samples (\<lambda>_. samples_of out) ?y)"
      using u unfolding out by simp
    have d: "drop n (sv_samples ?y) = (case y of None \<Rightarrow> [] | Some y \<Rightarrow> drop n (sv_samples y))"
      by (cases y) simp_all
    have so'': "samples_of out = map (\<lambda>i. conv_at (conv_input spanType x h) h (int s + int i)) [0..<n] @
        (case y of None \<Rightarrow> [] | Some y \<Rightarrow> drop n (sv_samples y))"
      using so' unfolding d .
    note m = sv_samples_map [OF oy, of "\<lambda>_. samples_of out"]
    show ?thesis unfolding if_P [OF True]
    proof (intro exI conjI)
      show "sv_convolve (convolve_init sse3) (Some x) (Some h) y spanType start len =
        Some (sv_map_samples (\<lambda>_. samples_of out) ?y)" by (fact c)
      show "sv_ok (sv_map_samples (\<lambda>_. samples_of out) ?y)" using oy by (rule sv_map_samples_simps(4))
      show "sv_samples (sv_map_samples (\<lambda>_. samples_of out) ?y) =
          map (\<lambda>i. conv_at (conv_input spanType x h) h (int s + int i)) [0..<n] @
          (case y of None \<Rightarrow> [] | Some y \<Rightarrow> drop n (sv_samples y))"
        by (rule trans [OF m so''])
      show "sv_map_samples (\<lambda>_. samples_of out) ?y =
          sv_map_samples (\<lambda>_. sv_samples (sv_map_samples (\<lambda>_. samples_of out) ?y)) ?y"
        by (subst m) (rule refl)
    qed
  next
    case False
    have "bounds_check (int (sv_size ?x)) (int (sv_size h)) (int (sv_size ?y)) (int s) (int n) < 0"
      using False unfolding fits by (rule contrapos_np) (simp only: bounds_check_int simp_thms)
    moreover have "2 * int (sv_size ?y) \<le> int (length (floats_of (sv_samples ?y)))" by simp
    ultimately have "fst ?r < 0"
      by (simp add: conv_routine_base base_convolve_real_def base_convolve_complex_def)
    then show ?thesis unfolding if_not_P [OF False] u by (simp only: if_True)
  qed
qed

lemma sv_convolve_refuses:
  assumes "conv_range spanType x h start len = (s, n)" and "sv_size y < n"
  shows "sv_convolve c (Some x) (Some h) (Some y) spanType start len = None"
  using assms
  by (cases spanType) (simp_all add: sv_convolve_def conv_spans_def conv_range_def Let_def)



section \<open>Passes and writes\<close>

lemma sv_map_samples_comp: "sv_ok v \<Longrightarrow> sv_map_samples f (sv_map_samples g v) = sv_map_samples (f \<circ> g) v"
  by (simp add: sv_map_samples_def sv_samples_def sv_ok_def)

lemma sv_map_samples_ident: "sv_map_samples (\<lambda>xs. xs) v = v"
  by (simp add: sv_map_samples_def sv_samples_def)

lemma sv_map_samples_cong: "f (sv_samples v) = g (sv_samples v) \<Longrightarrow> sv_map_samples f v = sv_map_samples g v"
  by (simp add: sv_map_samples_def)

lemma sv_put_map:
  assumes "sv_ok v"
  shows "sv_put i z v = (if i < sv_size v then Some (sv_map_samples (\<lambda>xs. xs[i := z]) v) else None)"
proof -
  let ?d = "sv_data v" and ?s = "sv_start v"
  have "?d[?s + i := z] = (take ?s ?d @ drop ?s ?d)[?s + i := z]" by simp
  also have "\<dots> = take ?s ?d @ (drop ?s ?d)[i := z]"
    using assms unfolding list_update_append sv_ok_def by simp
  finally show ?thesis by (simp add: sv_put_def sv_map_samples_def sv_samples_def)
qed

lemma sv_setReal_simps [simp]:
  "sv_size (sv_setReal b v) = sv_size v" "sv_samples (sv_setReal b v) = sv_samples v" "sv_start (sv_setReal b v) = sv_start v"
  "sv_isReal (sv_setReal b v) = b" "sv_aligned (sv_setReal b v) = sv_aligned v" "sv_ok (sv_setReal b v) = sv_ok v"
  by (simp_all add: sv_setReal_def sv_size_def sv_samples_def sv_ok_def)

lemma sv_assign_simps [simp]:
  "sv_size (sv_assign v w) = sv_size w" "sv_samples (sv_assign v w) = sv_samples w" "sv_start (sv_assign v w) = sv_start w"
  "sv_isReal (sv_assign v w) = sv_isReal v" "sv_aligned (sv_assign v w) = sv_aligned v" "sv_ok (sv_assign v w) = sv_ok w"
  by (simp_all add: sv_assign_def sv_size_def sv_samples_def sv_ok_def)

end
