(* ===== verification/Usrp1.thy ===== *)
theory Usrp1
  imports Prelude GSMTime "HOL-Library.Monad_Syntax" Complex_Main
begin

text \<open>
  The driver of the first USRP (\<^verbatim>\<open>device/usrp1/USRPDevice.cpp\<close>, \<^verbatim>\<open>USRPDevice.h\<close>): opening and starting the
  two halves of the device, gains and tuning, the packets of 512 bytes that carry samples in both directions,
  and the ring of received samples with the alignment of receive and transmit time. The library \<open>libusrp\<close> and
  the device behind it are the parameter \<open>usrp_lib\<close> over a state \<open>'h\<close>. Memory is a list of bytes, in the byte
  order of a little-endian host. An undefined access is \<open>None\<close>. The variant \<open>SWLOOPBACK\<close> is not modelled.
\<close>

unbundle bit_operations_syntax

section \<open>Memory\<close>

definition mem16 :: "int \<Rightarrow> nat list" where
  "mem16 x = (let u = nat (x mod 65536) in [u mod 256, u div 256])"

definition mem32 :: "nat \<Rightarrow> nat list" where
  "mem32 w = [w mod 256, w div 256 mod 256, w div 65536 mod 256, w div 16777216 mod 256]"

definition word_at :: "nat list \<Rightarrow> nat \<Rightarrow> nat" where
  "word_at m i = m ! (4 * i) + m ! (4 * i + 1) * 256 + m ! (4 * i + 2) * 65536 + m ! (4 * i + 3) * 16777216"

section \<open>The library and the state of the driver\<close>

text \<open>A function that may throw returns an option. \<open>usb_read n\<close> returns the number of bytes read, the bytes, and
  the overrun flag.\<close>

record 'h usrp_lib =
  make_rx :: "nat \<Rightarrow> 'h \<Rightarrow> 'h option"
  set_rx_clock :: "real \<Rightarrow> 'h \<Rightarrow> 'h option"
  rx_clock :: "'h \<Rightarrow> real"
  make_tx :: "nat \<Rightarrow> 'h \<Rightarrow> 'h option"
  set_tx_clock :: "real \<Rightarrow> 'h \<Rightarrow> 'h option"
  tx_clock :: "'h \<Rightarrow> real"
  rx_stop :: "'h \<Rightarrow> bool \<times> 'h"
  tx_stop :: "'h \<Rightarrow> bool \<times> 'h"
  rx_start :: "'h \<Rightarrow> bool \<times> 'h"
  tx_start :: "'h \<Rightarrow> bool \<times> 'h"
  select_tx :: "nat \<times> nat \<Rightarrow> 'h \<Rightarrow> 'h"
  select_rx :: "nat \<times> nat \<Rightarrow> 'h \<Rightarrow> 'h"
  tx_set_enable :: "bool \<Rightarrow> 'h \<Rightarrow> 'h"
  tx_mux_value :: "nat \<times> nat \<Rightarrow> 'h \<Rightarrow> int"
  rx_mux_value :: "nat \<times> nat \<Rightarrow> 'h \<Rightarrow> int"
  tx_set_mux :: "int \<Rightarrow> 'h \<Rightarrow> 'h"
  rx_set_mux :: "int \<Rightarrow> 'h \<Rightarrow> 'h"
  select_rx_antenna :: "nat \<Rightarrow> 'h \<Rightarrow> bool \<times> 'h"
  tx_gain_max :: "'h \<Rightarrow> real"
  tx_gain_min :: "'h \<Rightarrow> real"
  rx_gain_max :: "'h \<Rightarrow> real"
  rx_gain_min :: "'h \<Rightarrow> real"
  tx_set_gain :: "real \<Rightarrow> 'h \<Rightarrow> bool \<times> 'h"
  rx_set_gain :: "real \<Rightarrow> 'h \<Rightarrow> bool \<times> 'h"
  tx_tune :: "nat \<Rightarrow> real \<Rightarrow> 'h \<Rightarrow> bool \<times> 'h"
  rx_tune :: "nat \<Rightarrow> real \<Rightarrow> 'h \<Rightarrow> bool \<times> 'h"
  usb_read :: "int \<Rightarrow> 'h \<Rightarrow> int \<times> nat list \<times> bool \<times> 'h"
  usb_write :: "nat list \<Rightarrow> 'h \<Rightarrow> 'h"
  usrp_to_host_u32 :: "nat \<Rightarrow> nat"
  host_to_usrp_u32 :: "nat \<Rightarrow> nat"
  host_to_usrp_short :: "int \<Rightarrow> int"

text \<open>\<open>ud_rx\<close>, \<open>ud_tx\<close> and \<open>ud_db\<close> tell whether the pointers to the receiver, the transmitter and the two boards
  are set. \<open>ud_data\<close> is the ring, \<open>ud_arrays\<close> counts the arrays allocated for it, \<open>ud_currData\<close> is the pointer
  that nothing sets, \<open>ud_locks\<close> the depth of the recursive lock, and \<open>ud_outData\<close> the static packet array.\<close>

record 'h usrp_device =
  ud_hw :: 'h
  ud_tx_sps :: nat
  ud_rx_sps :: nat
  ud_tx_paths :: "string list"
  ud_rx_paths :: "string list"
  ud_rx :: bool
  ud_tx :: bool
  ud_db :: bool
  ud_rxSubdevSpec :: "nat \<times> nat"
  ud_txSubdevSpec :: "nat \<times> nat"
  ud_actualSampleRate :: real
  ud_decimRate :: nat
  ud_samplesRead :: nat
  ud_samplesWritten :: nat
  ud_started :: bool
  ud_data :: "nat list option"
  ud_arrays :: nat
  ud_dataStart :: nat
  ud_dataEnd :: nat
  ud_timeStart :: nat
  ud_timeEnd :: nat
  ud_isAligned :: bool
  ud_locks :: nat
  ud_currData :: nat
  ud_timestampOffset :: nat
  ud_latestWriteTimestamp :: nat
  ud_pingTimestamp :: nat
  ud_pingOffset :: int
  ud_hi32Timestamp :: nat
  ud_lastPktTimestamp :: nat
  ud_rxGain :: real
  ud_outData :: "nat list"

definition masterClockRate :: real where "masterClockRate = 52000000"
definition GSMRATE :: real where "GSMRATE = 1625000 / 6"
definition currDataSize :: nat where "currDataSize = 2097152"

datatype dboard_config = TXA_RXB | TXB_RXA | TXA_RXA | TXB_RXB

definition writeLock_lock :: "'h usrp_device \<Rightarrow> 'h usrp_device" where
  "writeLock_lock d = d\<lparr>ud_locks := ud_locks d + 1\<rparr>"

definition writeLock_unlock :: "'h usrp_device \<Rightarrow> 'h usrp_device" where
  "writeLock_unlock d = d\<lparr>ud_locks := ud_locks d - 1\<rparr>"

text \<open>The constructor; \<open>u\<close> is the state that the memory of the object happens to hold, and stands for the members
  that it leaves unset.\<close>

definition ud_new :: "nat \<Rightarrow> nat \<Rightarrow> string list \<Rightarrow> string list \<Rightarrow> 'h usrp_device \<Rightarrow> 'h usrp_device" where
  "ud_new tx_sps rx_sps tx_paths rx_paths u =
    (let decim = nat (round (masterClockRate / (GSMRATE * real tx_sps)))
     in u\<lparr>ud_tx_sps := tx_sps, ud_rx_sps := rx_sps, ud_tx_paths := tx_paths, ud_rx_paths := rx_paths,
          ud_rx := False, ud_tx := False, ud_db := False, ud_locks := 0, ud_outData := replicate 10240 0,
          ud_decimRate := decim, ud_actualSampleRate := masterClockRate / real decim, ud_rxGain := 0,
          ud_pingOffset := (if tx_sps = 1 then 272 else if tx_sps = 4 then 269 - 7500 else 0)\<rparr>)"

definition ud_make :: "nat \<Rightarrow> nat \<Rightarrow> nat \<Rightarrow> real \<Rightarrow> string list \<Rightarrow> string list \<Rightarrow> 'h usrp_device \<Rightarrow>
    'h usrp_device option" where
  "ud_make tx_sps rx_sps chans lo_offset tx_paths rx_paths u =
    (if tx_sps \<noteq> rx_sps then None
     else if chans \<noteq> 1 then None
     else if lo_offset \<noteq> 0 then None
     else Some (ud_new tx_sps rx_sps tx_paths rx_paths u))"

section \<open>Opening, starting and stopping\<close>

text \<open>The two halves: making one and setting its clock may throw, and the clock must then be the one asked for.\<close>

definition open_half :: "(nat \<Rightarrow> 'h \<Rightarrow> 'h option) \<Rightarrow> (real \<Rightarrow> 'h \<Rightarrow> 'h option) \<Rightarrow> ('h \<Rightarrow> real) \<Rightarrow> nat \<Rightarrow> 'h \<Rightarrow> 'h option" where
  "open_half mk set_clock clock rate h =
    do { h \<leftarrow> mk rate h;
         h \<leftarrow> set_clock masterClockRate h;
         if clock h \<noteq> masterClockRate then None else Some h }"

definition subdev_specs :: "dboard_config \<Rightarrow> (nat \<times> nat) \<times> (nat \<times> nat)" where
  "subdev_specs c =
    (case c of TXA_RXB \<Rightarrow> ((0, 0), (1, 0)) | TXB_RXA \<Rightarrow> ((1, 0), (0, 0))
     | TXA_RXA \<Rightarrow> ((0, 0), (0, 0)) | TXB_RXB \<Rightarrow> ((1, 0), (1, 0)))"

definition ud_open :: "'h usrp_lib \<Rightarrow> dboard_config \<Rightarrow> 'h usrp_device \<Rightarrow> int \<times> 'h usrp_device" where
  "ud_open E dboardConfig d =
    (let d = (writeLock_unlock d)\<lparr>ud_rx := False\<rparr>
     in case open_half (make_rx E) (set_rx_clock E) (rx_clock E) (ud_decimRate d * ud_tx_sps d) (ud_hw d) of
          None \<Rightarrow> (- 1, d)
        | Some h \<Rightarrow>
            let d = d\<lparr>ud_hw := h, ud_rx := True\<rparr>
            in case open_half (make_tx E) (set_tx_clock E) (tx_clock E) (ud_decimRate d * 2) h of
                 None \<Rightarrow> (- 1, d\<lparr>ud_tx := False\<rparr>)
               | Some h \<Rightarrow>
                   let h = snd (tx_stop E (snd (rx_stop E h)));
                       (tx, rx) = subdev_specs dboardConfig;
                       h = select_rx E rx (select_tx E tx h)
                   in (0, d\<lparr>ud_hw := h, ud_tx := True, ud_db := True, ud_txSubdevSpec := tx, ud_rxSubdevSpec := rx,
                           ud_samplesRead := 0, ud_samplesWritten := 0, ud_started := False\<rparr>))"

text \<open>The gain of the transmitter is clamped to the range of the board. A missing board is undefined.\<close>

definition clamp :: "real \<Rightarrow> real \<Rightarrow> real \<Rightarrow> real" where
  "clamp lo hi dB = (let dB = (if dB > hi then hi else dB) in if dB < lo then lo else dB)"

definition ud_setTxGain :: "'h usrp_lib \<Rightarrow> real \<Rightarrow> nat \<Rightarrow> 'h usrp_device \<Rightarrow> (real \<times> 'h usrp_device) option" where
  "ud_setTxGain E dB chan d =
    (if chan \<noteq> 0 then Some (0, d)
     else if \<not> ud_db d then None
     else
       let d = writeLock_lock d;
           dB = clamp (tx_gain_min E (ud_hw d)) (tx_gain_max E (ud_hw d)) dB
       in Some (dB, writeLock_unlock (d\<lparr>ud_hw := snd (tx_set_gain E dB (ud_hw d))\<rparr>)))"

text \<open>The gain of the receiver is always 47 dB, as far as the board allows, and is not stored.\<close>

definition ud_setRxGain :: "'h usrp_lib \<Rightarrow> real \<Rightarrow> nat \<Rightarrow> 'h usrp_device \<Rightarrow> (real \<times> 'h usrp_device) option" where
  "ud_setRxGain E dB chan d =
    (if chan \<noteq> 0 then Some (0, d)
     else if \<not> ud_db d then None
     else
       let d = writeLock_lock d;
           dB = clamp (rx_gain_min E (ud_hw d)) (rx_gain_max E (ud_hw d)) 47
       in Some (dB, writeLock_unlock (d\<lparr>ud_hw := snd (rx_set_gain E dB (ud_hw d))\<rparr>)))"

text \<open>\<open>start\<close>; \<open>junk\<close> is the memory of the new array.\<close>

definition ud_start :: "'h usrp_lib \<Rightarrow> nat list \<Rightarrow> 'h usrp_device \<Rightarrow> (bool \<times> 'h usrp_device) option" where
  "ud_start E junk d =
    (if \<not> ud_rx d then Some (False, d)
     else if \<not> ud_tx d then Some (False, d)
     else if \<not> ud_db d then None
     else do {
       let h = snd (tx_stop E (snd (rx_stop E (ud_hw d))));
       let d = writeLock_lock d;
       let h = tx_set_enable E True h;
       let h = tx_set_mux E (tx_mux_value E (ud_txSubdevSpec d) h) h;
       let h = rx_set_mux E (rx_mux_value E (ud_rxSubdevSpec d) h) h;
       let (ok, h) = select_rx_antenna E 1 h;
       let h = (if \<not> ok then snd (select_rx_antenna E 0 h) else h);
       let d = writeLock_unlock (d\<lparr>ud_hw := h\<rparr>);
       (_, d) \<leftarrow> ud_setTxGain E ((tx_gain_min E (ud_hw d) + tx_gain_max E (ud_hw d)) / 2) 0 d;
       (_, d) \<leftarrow> ud_setRxGain E ((rx_gain_min E (ud_hw d) + rx_gain_max E (ud_hw d)) / 2) 0 d;
       let d = d\<lparr>ud_data := Some (take (2 * currDataSize) junk @ replicate (2 * currDataSize - length junk) 0),
         ud_arrays := ud_arrays d + 1, ud_dataStart := 0, ud_dataEnd := 0, ud_timeStart := 0, ud_timeEnd := 0,
         ud_timestampOffset := 0, ud_latestWriteTimestamp := 0, ud_lastPktTimestamp := 0, ud_hi32Timestamp := 0,
         ud_isAligned := False\<rparr>;
       let (ok_rx, h) = rx_start E (ud_hw d);
       let (ok, h) = (if ok_rx then tx_start E h else (False, h));
       Some (ok, d\<lparr>ud_hw := h, ud_started := ok\<rparr>) })"

text \<open>\<open>stop\<close> deletes the pointer that nothing sets: undefined unless it happens to be null.\<close>

definition ud_stop :: "'h usrp_lib \<Rightarrow> 'h usrp_device \<Rightarrow> (bool \<times> 'h usrp_device) option" where
  "ud_stop E d =
    (if \<not> ud_rx d then Some (False, d)
     else if \<not> ud_tx d then Some (False, d)
     else if ud_currData d \<noteq> 0 then None
     else
       let (ok_rx, h) = rx_stop E (ud_hw d);
           (ok, h) = (if ok_rx then tx_stop E h else (False, h))
       in Some (ok, d\<lparr>ud_hw := h, ud_started := \<not> ok\<rparr>))"

section \<open>Tuning and antennas\<close>

definition ud_setTxFreq :: "'h usrp_lib \<Rightarrow> real \<Rightarrow> nat \<Rightarrow> 'h usrp_device \<Rightarrow> bool \<times> 'h usrp_device" where
  "ud_setTxFreq E wFreq chan d =
    (if chan \<noteq> 0 then (False, d)
     else let (ok, h) = tx_tune E (fst (ud_txSubdevSpec d)) wFreq (ud_hw d) in (ok, d\<lparr>ud_hw := h\<rparr>))"

text \<open>The receiver is tuned as channel 0 and not by the side of its board.\<close>

definition ud_setRxFreq :: "'h usrp_lib \<Rightarrow> real \<Rightarrow> nat \<Rightarrow> 'h usrp_device \<Rightarrow> bool \<times> 'h usrp_device" where
  "ud_setRxFreq E wFreq chan d =
    (if chan \<noteq> 0 then (False, d)
     else let (ok, h) = rx_tune E 0 wFreq (ud_hw d) in (ok, d\<lparr>ud_hw := h\<rparr>))"

definition ud_setRxAntenna :: "string \<Rightarrow> nat \<Rightarrow> 'h usrp_device \<Rightarrow> bool" where
  "ud_setRxAntenna ant chan d = (chan < length (ud_rx_paths d))"

definition ud_getRxAntenna :: "nat \<Rightarrow> 'h usrp_device \<Rightarrow> string" where
  "ud_getRxAntenna chan d = []"

definition ud_setTxAntenna :: "string \<Rightarrow> nat \<Rightarrow> 'h usrp_device \<Rightarrow> bool" where
  "ud_setTxAntenna ant chan d = (chan < length (ud_tx_paths d))"

definition ud_getTxAntenna :: "nat \<Rightarrow> 'h usrp_device \<Rightarrow> string" where
  "ud_getTxAntenna chan d = []"

definition ud_requiresRadioAlign :: bool where
  "ud_requiresRadioAlign = True"

definition ud_minLatency :: gsm_time where
  "ud_minLatency = Time 1 1"

section \<open>Received packets\<close>

text \<open>A packet has two words in front of its payload. The time of a packet has 32 bits; its upper half counts the
  turns of the lower one.\<close>

definition pkt_time :: "nat \<Rightarrow> 'h usrp_device \<Rightarrow> nat \<times> 'h usrp_device" where
  "pkt_time low d =
    (let inc = (ud_lastPktTimestamp d mod 4294967296 > low);
         d = (if inc \<and> ud_timeStart d \<noteq> 0 then d\<lparr>ud_hi32Timestamp := u64_add (ud_hi32Timestamp d) 1\<rparr> else d);
         t = (ud_hi32Timestamp d * 4294967296) mod two64 OR low
     in (t, d\<lparr>ud_lastPktTimestamp := t\<rparr>))"

function cursor_loop :: "nat \<Rightarrow> nat" where
  "cursor_loop cursor =
    (if (cursor * 2) mod 4294967296 > currDataSize then cursor_loop (cursor - currDataSize div 2) else cursor)"
  by pat_completeness auto
termination
proof (relation "measure (\<lambda>c. c)")
  fix c assume "currDataSize < c * 2 mod 4294967296"
  then have "c \<noteq> 0" by (cases "c = 0") simp_all
  then show "(c - currDataSize div 2, c) \<in> measure (\<lambda>c. c)" by (simp add: currDataSize_def)
qed simp

declare cursor_loop.simps [simp del]

text \<open>The payload goes to the position of its time in the ring, in two pieces at the end of the ring. A copy of an odd
  size may pass the end of the ring; what lies behind the bytes read is not defined.\<close>

definition ring_store :: "nat \<Rightarrow> nat list \<Rightarrow> nat \<Rightarrow> nat list \<Rightarrow> nat list option" where
  "ring_store cursor pkt payloadSz data =
    (let at_short = (cursor * 2) mod 4294967296
     in if at_short + payloadSz div 2 > currDataSize then
          if currDataSize div 2 < cursor \<or> length pkt < 8 + payloadSz then None
          else let first = (currDataSize - at_short) * 2
               in Some (blit (blit data (at_short * 2) (slice pkt 8 first)) 0
                    (slice pkt (8 + 4 * (currDataSize div 2 - cursor)) (payloadSz - first)))
        else if 2 * currDataSize < at_short * 2 + payloadSz \<or> length pkt < 8 + payloadSz then None
        else Some (blit data (at_short * 2) (slice pkt 8 payloadSz)))"

text \<open>A packet changes the state, the time to read (a reply to a ping moves the offset), and what is reported of
  underruns and signal strength, where the caller asked for it.\<close>

record 'h pkt_state =
  ps_dev :: "'h usrp_device"
  ps_timestamp :: nat
  ps_underrun :: "bool option"
  ps_RSSI :: "nat option"

definition of_long :: "int \<Rightarrow> nat" where
  "of_long x = nat (x mod 18446744073709551616)"

definition handle_packet :: "'h usrp_lib \<Rightarrow> nat list \<Rightarrow> 'h pkt_state \<Rightarrow> 'h pkt_state option" where
  "handle_packet E pkt s =
    (let low = usrp_to_host_u32 E (word_at pkt 1);
         word0 = usrp_to_host_u32 E (word_at pkt 0);
         chan = word0 div 65536 mod 32;
         payloadSz = word0 mod 512;
         (t, d) = pkt_time low (ps_dev s)
     in if chan = 31 then
          let word2 = usrp_to_host_u32 E (word_at pkt 2)
          in if word2 div 65536 = 258 then
               let timestamp = u64_sub (ps_timestamp s) (ud_timestampOffset d);
                   off = u64_add (u64_sub t (ud_pingTimestamp d)) (of_long (ud_pingOffset d))
               in Some (s\<lparr>ps_dev := d\<lparr>ud_timestampOffset := off, ud_isAligned := True\<rparr>,
                         ps_timestamp := u64_add timestamp off\<rparr>)
             else Some (s\<lparr>ps_dev := d\<rparr>)
        else if chan \<noteq> 0 then Some (s\<lparr>ps_dev := d\<rparr>)
        else
          let s = s\<lparr>ps_dev := d,
                ps_underrun := (if odd (word0 div 1073741824) then map_option (\<lambda>_. True) (ps_underrun s) else ps_underrun s),
                ps_RSSI := map_option (\<lambda>_. word0 div 2097152 mod 64) (ps_RSSI s)\<rparr>
          in if \<not> ud_isAligned d then Some s
             else do {
               data \<leftarrow> ud_data d;
               let cursor = cursor_loop (u64_add (u64_sub t (ud_timeStart d)) (ud_dataStart d) mod 4294967296);
               data \<leftarrow> ring_store cursor pkt payloadSz data;
               let fin = u64_add t (payloadSz div 2 div 2);
               Some (s\<lparr>ps_dev := d\<lparr>ud_data := Some data,
                 ud_timeEnd := (if fin > ud_timeEnd d then fin else ud_timeEnd d)\<rparr>\<rparr>) })"

fun handle_packets :: "'h usrp_lib \<Rightarrow> nat \<Rightarrow> nat list \<Rightarrow> 'h pkt_state \<Rightarrow> 'h pkt_state option" where
  "handle_packets E 0 readBuf s = Some s"
| "handle_packets E (Suc n) readBuf s =
     do { s \<leftarrow> handle_packet E readBuf s; handle_packets E n (drop 512 readBuf) s }"

text \<open>How many bytes to ask for; nothing when the ring holds what is needed. The sum is cut to an \<open>int\<close>.\<close>

definition read_length :: "nat \<Rightarrow> nat \<Rightarrow> nat \<Rightarrow> int option" where
  "read_length timestamp len timeEnd =
    (let needed = s32 (int (u64_sub (u64_add timestamp len) timeEnd))
     in if needed \<le> 0 then None
        else let readLen = s32 (512 * \<lceil>real_of_int needed / 126\<rceil>) in Some (if readLen > 8000 then 8000 div 512 * 512 else readLen))"

text \<open>The loop that reads packets ends when enough is there; it may wait for ever, so it takes fuel. The second
  result is the overrun flag, which the library sets.\<close>

fun read_packets :: "'h usrp_lib \<Rightarrow> nat \<Rightarrow> nat \<Rightarrow> bool \<Rightarrow> 'h pkt_state \<Rightarrow> (bool \<times> 'h pkt_state) option" where
  "read_packets E 0 len overrun s = None"
| "read_packets E (Suc fuel) len overrun s =
     (case read_length (ps_timestamp s) len (ud_timeEnd (ps_dev s)) of
        None \<Rightarrow> Some (overrun, s)
      | Some want \<Rightarrow>
          let (got, readBuf, over, h) = usb_read E want (ud_hw (ps_dev s))
          in do { s \<leftarrow> handle_packets E (nat (cdiv got 512)) readBuf (s\<lparr>ps_dev := (ps_dev s)\<lparr>ud_hw := h\<rparr>\<rparr>);
                  read_packets E fuel len over s })"

text \<open>The samples are copied out of the ring and cleared there, in two pieces at its end. A position behind the ring
  makes the first piece run past the array.\<close>

definition ring_take :: "nat \<Rightarrow> nat \<Rightarrow> nat list \<Rightarrow> (nat list \<times> nat list) option" where
  "ring_take bufStart len data =
    (let n = currDataSize div 2
     in if bufStart + len < n then
          Some (slice data (4 * bufStart) (4 * len), blit data (4 * bufStart) (replicate (4 * len) 0))
        else if n < bufStart \<or> 2 * n < bufStart + len then None
        else let firstLength = n - bufStart; rest = len - firstLength;
                 d1 = blit data (4 * bufStart) (replicate (4 * firstLength) 0)
             in Some (slice data (4 * bufStart) (4 * firstLength) @ slice d1 0 (4 * rest),
                  blit d1 0 (replicate (4 * rest) 0)))"

text \<open>\<open>readSamples\<close> gives its result, the bytes in the caller's buffer (\<open>None\<close> if it was not touched), the three
  reports and the new state.\<close>

record rx_report =
  rr_ret :: nat
  rr_buf :: "nat list option"
  rr_overrun :: bool
  rr_underrun :: "bool option"
  rr_RSSI :: "nat option"

definition ud_readSamples :: "'h usrp_lib \<Rightarrow> nat \<Rightarrow> nat \<Rightarrow> bool \<Rightarrow> nat \<Rightarrow> bool option \<Rightarrow> nat option \<Rightarrow> 'h usrp_device \<Rightarrow>
    (rx_report \<times> 'h usrp_device) option" where
  "ud_readSamples E fuel len overrun timestamp underrun RSSI d =
    (if \<not> ud_rx d then Some (\<lparr>rr_ret = 0, rr_buf = None, rr_overrun = overrun, rr_underrun = underrun, rr_RSSI = RSSI\<rparr>, d)
     else
       let timestamp = u64_add timestamp (ud_timestampOffset d)
       in if u64_add timestamp len < ud_timeStart d then
            Some (\<lparr>rr_ret = len, rr_buf = Some (replicate (4 * len) 0), rr_overrun = overrun, rr_underrun = underrun,
                  rr_RSSI = RSSI\<rparr>, d)
          else do {
            (over, s) \<leftarrow> read_packets E fuel len overrun
              \<lparr>ps_dev = d, ps_timestamp = timestamp, ps_underrun = map_option (\<lambda>_. False) underrun, ps_RSSI = RSSI\<rparr>;
            let d = ps_dev s;
            data \<leftarrow> ud_data d;
            let bufStart = u64_add (ud_dataStart d) (u64_sub (ps_timestamp s) (ud_timeStart d)) mod 4294967296;
            (buf, data) \<leftarrow> ring_take bufStart len data;
            Some (\<lparr>rr_ret = len, rr_buf = Some buf, rr_overrun = over, rr_underrun = ps_underrun s, rr_RSSI = ps_RSSI s\<rparr>,
              d\<lparr>ud_data := Some data, ud_dataStart := (bufStart + len) mod (currDataSize div 2),
                ud_timeStart := u64_add (ps_timestamp s) len\<rparr>) })"

section \<open>Transmitted packets\<close>

text \<open>The loop of \<open>writeSamples\<close>: \<open>i\<close> is the number of the packet, \<open>mem\<close> the bytes from \<open>numWritten\<close> on. A packet past
  the twenty of the static array is undefined.\<close>

definition packet_word :: "nat \<Rightarrow> nat \<Rightarrow> nat \<Rightarrow> nat \<Rightarrow> nat" where
  "packet_word isStart isEnd CHAN payloadLen =
    ((isStart * 4096 OR isEnd * 2048 OR 0 * 32 OR CHAN) * 65536) OR payloadLen"

function write_packets :: "'h usrp_lib \<Rightarrow> nat \<Rightarrow> nat \<Rightarrow> nat \<Rightarrow> nat \<Rightarrow> nat list \<Rightarrow> nat list \<Rightarrow> nat list option" where
  "write_packets E i isStart CHAN timestamp mem outData =
    (if mem = [] then Some outData
     else if 20 \<le> i then None
     else
       let isEnd = (if length mem \<le> 504 then 1 else 0);
           payloadLen = (if length mem < 504 then length mem else 504);
           pkt = mem32 (host_to_usrp_u32 E (packet_word isStart isEnd CHAN payloadLen)) @
                 mem32 (host_to_usrp_u32 E (timestamp mod 4294967296)) @ take payloadLen mem
       in write_packets E (i + 1) 0 CHAN (u64_add timestamp (payloadLen div 2 div 2)) (drop payloadLen mem)
            (blit outData (512 * i) pkt))"
  by pat_completeness auto
termination
  by (relation "measure (\<lambda>(E, i, st, ch, t, mem, out). length mem)") (auto split: if_splits)

declare write_packets.simps [simp del]

text \<open>The samples are pairs of shorts; the result counts them. Without a transmitter the lock stays taken.\<close>

definition ud_writeSamples :: "'h usrp_lib \<Rightarrow> int list \<Rightarrow> nat \<Rightarrow> nat \<Rightarrow> bool \<Rightarrow> 'h usrp_device \<Rightarrow>
    (nat \<times> 'h usrp_device) option" where
  "ud_writeSamples E buf len timestamp isControl d =
    (let d = writeLock_lock d
     in if \<not> ud_tx d then Some (0, d)
        else
          let mem = concat (map (\<lambda>x. mem16 (host_to_usrp_short E x)) (take (2 * len) buf));
              bytes = len * 2 * 2;
              CHAN = (if isControl then 31 else 0);
              numPkts = nat \<lceil>real bytes / 504\<rceil>
          in do {
            outData \<leftarrow> write_packets E 0 1 CHAN timestamp mem (ud_outData d);
            let h = usb_write E (take (4 * 128 * numPkts) outData) (ud_hw d);
            let d = d\<lparr>ud_hw := h, ud_outData := outData, ud_samplesWritten := u64_add (ud_samplesWritten d) (bytes div 2 div 2)\<rparr>;
            Some (bytes div 2 div 2, writeLock_unlock d) })"

text \<open>The ping is a control packet with the words \<open>0\<close> and \<open>2\<close>; its bytes are those of a word for the device.\<close>

definition ping_shorts :: "'h usrp_lib \<Rightarrow> int list" where
  "ping_shorts E =
    (let w = host_to_usrp_u32 E (2 * 65536) in [int (w mod 65536), int (w div 65536), 0, 0])"

definition ud_updateAlignment :: "'h usrp_lib \<Rightarrow> nat \<Rightarrow> 'h usrp_device \<Rightarrow> (bool \<times> 'h usrp_device) option" where
  "ud_updateAlignment E timestamp d =
    do { (n, d) \<leftarrow> ud_writeSamples E (ping_shorts E) 1 (timestamp mod 4294967296) True d;
         Some (if n \<noteq> 0 then (True, d\<lparr>ud_pingTimestamp := timestamp\<rparr>) else (False, d)) }"

section \<open>The packets that are sent\<close>

lemma length_mem [simp]: "length (mem16 x) = 2" "length (mem32 w) = 4"
  by (simp_all add: mem16_def mem32_def Let_def)

lemma length_concat_mem16: "length (concat (map (\<lambda>x. mem16 (f x)) xs)) = 2 * length xs"
  by (induction xs) simp_all

lemma word_digits:
  assumes "(w::nat) < 4294967296"
  shows "w mod 256 + w div 256 mod 256 * 256 + w div 65536 mod 256 * 65536 + w div 16777216 mod 256 * 16777216 = w"
proof -
  let ?a = "w div 256" let ?b = "?a div 256" let ?c = "?b div 256"
  have d: "w div 65536 = ?b" "w div 16777216 = ?c" by (simp_all flip: div_mult2_eq)
  have "w = w mod 256 + 256 * ?a" "?a = ?a mod 256 + 256 * ?b" "?b = ?b mod 256 + 256 * ?c" by simp_all
  moreover have "?c mod 256 = ?c" using assms by (simp flip: div_mult2_eq add: div_less_iff_less_mult)
  ultimately show ?thesis unfolding d by linarith
qed

lemma word_at_mem32:
  assumes "a < 4294967296" and "b < 4294967296"
  shows "word_at (mem32 a @ mem32 b @ m) 0 = a" "word_at (mem32 a @ mem32 b @ m) 1 = b"
  unfolding atomize_conj word_at_def mem32_def
  using word_digits [OF assms(1)] word_digits [OF assms(2)]
  by (simp only: mult_0_right mult_1_right append.simps nth_Cons_0 nth_Cons_numeral nth_Cons_Suc add_0 One_nat_def
      numeral_eq_Suc pred_numeral_simps) simp

lemma nat_or_shift:
  assumes "(b::nat) < 2 ^ n"
  shows "(a * 2 ^ n) OR b = a * 2 ^ n + b"
proof -
  have a: "push_bit n a = a * 2 ^ n" and b: "take_bit n b = b"
    using assms by (simp_all add: push_bit_eq_mult take_bit_eq_mod)
  have "push_bit n a + take_bit n b = push_bit n a OR take_bit n b"
    by (rule disjunctive_add_eq_or, rule bit_eqI) (auto simp: bit_and_iff bit_push_bit_iff bit_take_bit_iff)
  then show ?thesis unfolding a b by simp
qed

lemma packet_word_fields:
  assumes "st \<in> {0, 1}" and "en \<in> {0, 1}" and "ch \<in> {0, 31}" and "pl < 512"
  shows "packet_word st en ch pl < 4294967296" "packet_word st en ch pl mod 512 = pl"
    "packet_word st en ch pl div 65536 mod 32 = ch" "odd (packet_word st en ch pl div 268435456) = (st = 1)"
    "odd (packet_word st en ch pl div 134217728) = (en = 1)"
proof -
  have w: "packet_word st en ch pl = (st * 4096 + en * 2048 + ch) * 65536 + pl"
    using assms nat_or_shift [of pl 16] by (auto simp: packet_word_def)
  let ?X = "st * 4096 + en * 2048 + ch"
  have X: "?X < 8192" "?X mod 32 = ch" "odd (?X div 4096) = (st = 1)" "odd (?X div 2048) = (en = 1)"
    using assms(1-3) by auto
  have d: "(?X * 65536 + pl) div 65536 = ?X" using assms(4) by simp
  have dd: "(?X * 65536 + pl) div 268435456 = ?X div 4096" "(?X * 65536 + pl) div 134217728 = ?X div 2048"
    using div_mult2_eq [of "?X * 65536 + pl" 65536 4096] div_mult2_eq [of "?X * 65536 + pl" 65536 2048] unfolding d by simp_all
  have "(?X * 65536 + pl) mod 512 = (?X * 128 * 512 + pl) mod 512" by (simp add: algebra_simps)
  also have "\<dots> = pl" unfolding mod_mult_self3 using assms(4) by simp
  finally have m: "(?X * 65536 + pl) mod 512 = pl" .
  have "?X * 65536 < 8192 * 65536" using X(1) by (rule mult_strict_right_mono) simp
  then show "packet_word st en ch pl < 4294967296" unfolding w using assms(4) by simp
  show "packet_word st en ch pl mod 512 = pl" unfolding w by (rule m)
  show "packet_word st en ch pl div 65536 mod 32 = ch" unfolding w d by (rule X)
  show "odd (packet_word st en ch pl div 268435456) = (st = 1)" unfolding w dd by (rule X)
  show "odd (packet_word st en ch pl div 134217728) = (en = 1)" unfolding w dd by (rule X)
qed

text \<open>Packet \<open>k\<close> of a transmission of the bytes \<open>mem\<close> from time \<open>t\<close> on.\<close>

definition tx_packet :: "'h usrp_lib \<Rightarrow> nat \<Rightarrow> nat \<Rightarrow> nat \<Rightarrow> nat list \<Rightarrow> nat \<Rightarrow> nat list" where
  "tx_packet E st CHAN t mem k =
    (let m = drop (504 * k) mem
     in mem32 (host_to_usrp_u32 E (packet_word (if k = 0 then st else 0) (if length m \<le> 504 then 1 else 0) CHAN
          (min 504 (length m)))) @
        mem32 (host_to_usrp_u32 E ((t + 126 * k) mod 4294967296)) @ take 504 m)"

lemma length_tx_packet: "length (tx_packet E st CHAN t mem k) = 8 + min 504 (length mem - 504 * k)"
  by (simp add: tx_packet_def Let_def)

lemma tx_packet_Suc:
  assumes "504 < length mem"
  shows "tx_packet E st CHAN t mem (Suc k) = tx_packet E 0 CHAN (u64_add t 126) (drop 504 mem) k"
proof -
  have "(u64_add t 126 + 126 * k) mod 4294967296 = (t + 126 + 126 * k) mod 4294967296"
    unfolding u64_add_def by (simp add: mod_simps mod_mod_cancel flip: mod_add_left_eq [of "(t + 126) mod _"])
  then show ?thesis by (simp add: tx_packet_def Let_def algebra_simps)
qed

lemma slice_blit_other:
  assumes "i + length xs \<le> length a" and "j + n \<le> i \<or> i + length xs \<le> j" and "j + n \<le> length a"
  shows "slice (blit a i xs) j n = slice a j n"
  using assms by (intro nth_equalityI) (auto simp: blit)

lemma slice_blit_here: "i + length xs \<le> length a \<Longrightarrow> slice (blit a i xs) i (length xs) = xs"
  by (intro nth_equalityI) (simp_all add: blit)

lemma write_packets_out:
  assumes "length out = 10240" and "504 * 20 \<ge> 504 * i + length mem"
  shows "\<exists>out'. write_packets E i st CHAN t mem out = Some out' \<and> length out' = 10240 \<and>
    (\<forall>j < i. \<forall>n \<le> 512. slice out' (512 * j) n = slice out (512 * j) n) \<and>
    (\<forall>k. 504 * k < length mem \<longrightarrow> slice out' (512 * (i + k)) (8 + min 504 (length mem - 504 * k)) = tx_packet E st CHAN t mem k)"
  using assms
proof (induction "length mem" arbitrary: i st t mem out rule: less_induct)
  case less
  show ?case
  proof (cases "mem = []")
    case True
    then show ?thesis using less.prems by (simp add: write_packets.simps)
  next
    case False
    let ?pl = "min 504 (length mem)" and ?pkt = "tx_packet E st CHAN t mem 0"
    let ?out = "blit out (512 * i) ?pkt"
    have i: "i < 20" using less.prems False by (cases mem) simp_all
    have lp: "length ?pkt = 8 + ?pl" by (simp add: length_tx_packet)
    have lo: "512 * i + length ?pkt \<le> length out" using i less.prems(1) lp by simp
    then have l: "length ?out = 10240" using less.prems(1) by (simp add: length_blit)
    have wp: "write_packets E i st CHAN t mem out =
        write_packets E (i + 1) 0 CHAN (u64_add t (?pl div 2 div 2)) (drop ?pl mem) ?out"
      using False i by (subst write_packets.simps) (simp add: tx_packet_def Let_def min_def)
    have dec: "length (drop ?pl mem) < length mem" using False by simp
    have fit: "504 * (i + 1) + length (drop ?pl mem) \<le> 504 * 20" using less.prems(2) i by (simp add: min_def)
    obtain out' where o: "write_packets E i st CHAN t mem out = Some out'" "length out' = 10240"
      "\<forall>j < i + 1. \<forall>n \<le> 512. slice out' (512 * j) n = slice ?out (512 * j) n"
      "\<forall>k. 504 * k < length (drop ?pl mem) \<longrightarrow> slice out' (512 * (i + 1 + k)) (8 + min 504 (length (drop ?pl mem) - 504 * k)) =
        tx_packet E 0 CHAN (u64_add t (?pl div 2 div 2)) (drop ?pl mem) k"
      unfolding wp using less.hyps [OF dec l fit, of 0 "u64_add t (?pl div 2 div 2)"] by blast
    have "slice out' (512 * j) n = slice out (512 * j) n" if "j < i" "n \<le> 512" for j n
    proof -
      have "slice out' (512 * j) n = slice ?out (512 * j) n" using o(3) that by simp
      also have "\<dots> = slice out (512 * j) n" using that lo by (intro slice_blit_other) auto
      finally show ?thesis .
    qed
    moreover have "slice out' (512 * (i + k)) (8 + min 504 (length mem - 504 * k)) = tx_packet E st CHAN t mem k"
      if k: "504 * k < length mem" for k
    proof (cases k)
      case 0
      have "slice out' (512 * i) (length ?pkt) = slice ?out (512 * i) (length ?pkt)" using o(3) lp by simp
      also have "\<dots> = ?pkt" by (rule slice_blit_here [OF lo])
      finally show ?thesis using 0 lp by simp
    next
      case (Suc k')
      have m: "504 < length mem" using k Suc by simp
      then have p: "?pl = 504" by simp
      have "504 * k' < length (drop 504 mem)" using k Suc by simp
      with o(4) have "slice out' (512 * (i + 1 + k')) (8 + min 504 (length (drop 504 mem) - 504 * k')) =
        tx_packet E 0 CHAN (u64_add t 126) (drop 504 mem) k'" unfolding p by simp
      then show ?thesis unfolding Suc tx_packet_Suc [OF m] by (simp add: algebra_simps)
    qed
    ultimately show ?thesis using o(1,2) by blast
  qed
qed

lemma write_packets_overflow:
  assumes "504 * 20 < 504 * i + length mem" and "i \<le> 20"
  shows "write_packets E i st CHAN t mem out = None"
  using assms
proof (induction "length mem" arbitrary: i st t mem out rule: less_induct)
  case less
  show ?case
  proof (cases "mem = [] \<or> 20 \<le> i")
    case True
    then show ?thesis
      using less.prems by (subst write_packets.simps) auto
  next
    case False
    then have "504 < length mem" using less.prems by simp
    then show ?thesis using False less.prems less.hyps [of "drop 504 mem" "i + 1"]
      by (subst write_packets.simps) simp
  qed
qed

text \<open>How a receiver reads a transmission \<open>out\<close>: word \<open>i\<close> of packet \<open>k\<close>, and the payload, whose size is in the packet.\<close>

definition rx_word :: "'h usrp_lib \<Rightarrow> nat list \<Rightarrow> nat \<Rightarrow> nat \<Rightarrow> nat" where
  "rx_word E out k i = usrp_to_host_u32 E (word_at (slice out (512 * k) 512) i)"

definition rx_payload :: "'h usrp_lib \<Rightarrow> nat list \<Rightarrow> nat \<Rightarrow> nat list" where
  "rx_payload E out k = slice out (512 * k + 8) (rx_word E out k 0 mod 512)"

definition sample_bytes :: "'h usrp_lib \<Rightarrow> int list \<Rightarrow> nat list" where
  "sample_bytes E buf = concat (map (\<lambda>x. mem16 (host_to_usrp_short E x)) buf)"

lemma word_at_cong:
  assumes "take 8 a = take 8 b" and "i < 2"
  shows "word_at a i = word_at b i"
proof -
  have "a ! j = b ! j" if "j < 8" for j using nth_take [OF that, of a] nth_take [OF that, of b] assms(1) by simp
  then show ?thesis using assms(2) by (auto simp: word_at_def less_2_cases_iff)
qed

lemma take_slice: "take m (slice a i n) = slice a i (min m n)"
  by (simp add: slice_def)

lemma drop_slice: "drop m (slice a i n) = slice a (i + m) (n - m)"
  by (simp add: slice_def drop_take add.commute)

lemma concat_slices:
  "concat (map (\<lambda>k. take 504 (drop (504 * k) mem)) [0..<(length mem + 503) div 504]) = mem"
proof -
  have "concat (map (\<lambda>k. take 504 (drop (504 * k) mem)) [0..<n]) = take (504 * n) mem" for n
  proof (induction n)
    case (Suc n)
    have "504 * Suc n = 504 * n + 504" by simp
    then show ?case using Suc by (simp only: upt_Suc_append [OF le0] map_append concat_append list.map concat.simps append_Nil2 take_add)
  qed simp
  then show ?thesis by simp
qed

text \<open>C31. What \<open>writeSamples\<close> sends can be read back: up to 2520 samples are cut into packets that bear the channel, the
  size of their payload, the time of their first sample, and the marks of the first and of the last packet, and
  whose payloads are the samples in order. More samples overrun the static packet array.\<close>

theorem usrp_packets_roundtrip:
  assumes "ud_tx d" and "length (ud_outData d) = 10240" and "length buf = 2 * len"
    and "\<forall>w < 4294967296. host_to_usrp_u32 E w < 4294967296 \<and> usrp_to_host_u32 E (host_to_usrp_u32 E w) = w"
  shows "if 2520 < len then ud_writeSamples E buf len t control d = None
    else \<exists>out d'. ud_writeSamples E buf len t control d = Some (len, d') \<and> ud_hw d' = usb_write E out (ud_hw d) \<and>
      ud_locks d' = ud_locks d \<and>
      (let n = (4 * len + 503) div 504
       in length out = 512 * n \<and> concat (map (rx_payload E out) [0..<n]) = sample_bytes E buf \<and>
          (\<forall>k < n. rx_word E out k 1 = (t + 126 * k) mod 4294967296 \<and>
            rx_word E out k 0 div 65536 mod 32 = (if control then 31 else 0) \<and>
            odd (rx_word E out k 0 div 268435456) = (k = 0) \<and> odd (rx_word E out k 0 div 134217728) = (k = n - 1)))"
proof -
  let ?mem = "sample_bytes E buf" and ?ch = "if control then 31 else 0 :: nat" and ?n = "(4 * len + 503) div 504"
  have lm: "length ?mem = 4 * len" using assms(3) by (simp add: sample_bytes_def length_concat_mem16)
  have n: "nat \<lceil>real (len * 2 * 2) / 504\<rceil> = ?n"
    using ceiling_divide_eq_div [of "int (4 * len)" 504, where 'a = real] by simp
  have buf: "take (2 * len) buf = buf" using assms(3) by simp
  have q: "k < ?n \<longleftrightarrow> 504 * k < 4 * len" "k = ?n - 1 \<longleftrightarrow> 4 * len - 504 * k \<le> 504" if "k < ?n" for k
  proof -
    obtain q where q: "?n = q" "504 * q \<le> 4 * len + 503" "4 * len + 503 < 504 * q + 504"
      using times_div_less_eq_dividend [of 504 "4 * len + 503"] dividend_less_times_div [of 504 "4 * len + 503"] by simp
    show "k < ?n \<longleftrightarrow> 504 * k < 4 * len" "k = ?n - 1 \<longleftrightarrow> 4 * len - 504 * k \<le> 504" using q(2,3) that unfolding q(1) by auto
  qed
  show ?thesis
  proof (cases "2520 < len")
    case True
    then have "write_packets E 0 1 ?ch t ?mem (ud_outData d) = None"
      using lm by (intro write_packets_overflow) simp_all
    then show ?thesis using True assms(1) unfolding ud_writeSamples_def Let_def buf sample_bytes_def
      by (simp add: writeLock_lock_def)
  next
    case False
    obtain out where o: "write_packets E 0 1 ?ch t ?mem (ud_outData d) = Some out" "length out = 10240"
      "\<forall>k. 504 * k < length ?mem \<longrightarrow> slice out (512 * k) (8 + min 504 (length ?mem - 504 * k)) = tx_packet E 1 ?ch t ?mem k"
      using write_packets_out [OF assms(2), of 0 ?mem E 1 ?ch t] False lm by auto
    let ?out = "take (512 * ?n) out"
    have n20: "?n \<le> 20" using False by simp
    have w: "ud_writeSamples E buf len t control d =
        Some (len, writeLock_unlock ((writeLock_lock d)\<lparr>ud_hw := usb_write E ?out (ud_hw d), ud_outData := out,
          ud_samplesWritten := u64_add (ud_samplesWritten d) len\<rparr>))"
      using o(1) assms(1) unfolding ud_writeSamples_def Let_def buf n sample_bytes_def
      by (simp add: writeLock_lock_def mult.assoc)
    have k: "rx_word E ?out k 1 = (t + 126 * k) mod 4294967296 \<and> rx_word E ?out k 0 div 65536 mod 32 = ?ch \<and>
        odd (rx_word E ?out k 0 div 268435456) = (k = 0) \<and> odd (rx_word E ?out k 0 div 134217728) = (k = ?n - 1) \<and>
        rx_payload E ?out k = take 504 (drop (504 * k) ?mem)" if "k < ?n" for k
    proof -
      have k4: "504 * k < 4 * len" using q(1) that by blast
      let ?pl = "min 504 (4 * len - 504 * k)" and ?en = "if 4 * len - 504 * k \<le> 504 then 1 else 0 :: nat"
      let ?w = "packet_word (if k = 0 then 1 else 0) ?en ?ch ?pl"
      have s: "slice out (512 * k) (8 + ?pl) = tx_packet E 1 ?ch t ?mem k" using o(3) k4 lm by metis
      have so: "slice ?out (512 * k + a) b = slice out (512 * k + a) b" if "a + b \<le> 512" for a b
        using that \<open>k < ?n\<close> by (simp add: slice_def take_drop)
      have p: "packet_word (if k = 0 then 1 else 0) (if length (drop (504 * k) ?mem) \<le> 504 then 1 else 0) ?ch
          (min 504 (length (drop (504 * k) ?mem))) = ?w" using lm by simp
      have f: "?w < 4294967296" "?w mod 512 = ?pl" "?w div 65536 mod 32 = ?ch" "odd (?w div 268435456) = (k = 0)"
        "odd (?w div 134217728) = (4 * len - 504 * k \<le> 504)"
      proof -
        have b: "(if b then 1 else 0) \<in> {0, 1 :: nat}" "?ch \<in> {0, 31}" "?pl < 512"
          "((if b then 1 else 0) = (1 :: nat)) = b" for b :: bool by simp_all
        show "?w < 4294967296" "?w mod 512 = ?pl" "?w div 65536 mod 32 = ?ch" "odd (?w div 268435456) = (k = 0)"
          "odd (?w div 134217728) = (4 * len - 504 * k \<le> 504)"
          using packet_word_fields [OF b(1) b(1) b(2) b(3), of "k = 0" "4 * len - 504 * k \<le> 504"] unfolding b(4) by blast+
      qed
      have e: "(4 * len - 504 * k \<le> 504) = (k = ?n - 1)" using q(2) [OF that] by blast
      have t8: "take 8 (slice ?out (512 * k) 512) = take 8 (tx_packet E 1 ?ch t ?mem k)"
        using so [of 0 8] unfolding s [symmetric] take_slice by simp
      have "word_at (slice ?out (512 * k) 512) i = word_at (tx_packet E 1 ?ch t ?mem k) i" if "i < 2" for i
        by (rule word_at_cong [OF t8 that])
      note wa = this [unfolded tx_packet_def Let_def p]
      have h: "host_to_usrp_u32 E w < 4294967296" "usrp_to_host_u32 E (host_to_usrp_u32 E w) = w" if "w < 4294967296" for w
        using assms(4) that by blast+
      have tm: "(t + 126 * k) mod 4294967296 < 4294967296" by simp
      have r: "rx_word E ?out k 0 = ?w" "rx_word E ?out k 1 = (t + 126 * k) mod 4294967296"
        unfolding rx_word_def using wa [of 0] wa [of 1] word_at_mem32 [OF h(1) [OF f(1)] h(1) [OF tm]]
        by (simp_all only: h(2) [OF f(1)] h(2) [OF tm])
      have "rx_payload E ?out k = slice out (512 * k + 8) ?pl"
        unfolding rx_payload_def r f(2) by (rule so) simp
      also have "\<dots> = drop 8 (slice out (512 * k) (8 + ?pl))" unfolding drop_slice by simp
      also have "\<dots> = take 504 (drop (504 * k) ?mem)" unfolding s tx_packet_def Let_def by (simp only: append_assoc [symmetric] drop_append length_append length_mem) simp
      finally show ?thesis unfolding r using f(3,4,5) e by blast
    qed
    have "concat (map (rx_payload E ?out) [0..<?n]) = concat (map (\<lambda>k. take 504 (drop (504 * k) ?mem)) [0..<?n])"
      using k by (intro arg_cong [where f = concat] map_cong) simp_all
    also have "\<dots> = ?mem" using concat_slices [of ?mem] lm by simp
    finally have c: "concat (map (rx_payload E ?out) [0..<?n]) = ?mem" .
    have l: "length ?out = 512 * ?n" using o(2) n20 by simp
    have u: "ud_hw (writeLock_unlock ((writeLock_lock d)\<lparr>ud_hw := h, ud_outData := x, ud_samplesWritten := y\<rparr>)) = h"
      "ud_locks (writeLock_unlock ((writeLock_lock d)\<lparr>ud_hw := h, ud_outData := x, ud_samplesWritten := y\<rparr>)) = ud_locks d" for h x y
      by (simp_all add: writeLock_lock_def writeLock_unlock_def)
    show ?thesis unfolding if_not_P [OF False] Let_def
      by (intro exI conjI, rule w, rule u(1), rule u(2), rule l, rule c) (use k in blast)
  qed
qed

theorem usrp_packets_roundtrip_witness:
  "\<exists>E out d'. ud_writeSamples E (replicate 1000 7) 500 9 False
      ((ud_new 4 4 [] [] (undefined :: nat list usrp_device))\<lparr>ud_tx := True\<rparr>) = Some (500, d') \<and> ud_hw d' = out \<and> length out = 2048"
proof -
  let ?E = "(undefined :: nat list usrp_lib)\<lparr>usb_write := (\<lambda>out h. out), host_to_usrp_u32 := (\<lambda>w. w), usrp_to_host_u32 := (\<lambda>w. w)\<rparr>"
  let ?d = "(ud_new 4 4 [] [] (undefined :: nat list usrp_device))\<lparr>ud_tx := True\<rparr>"
  have "\<exists>out d'. ud_writeSamples ?E (replicate 1000 7) 500 9 False ?d = Some (500, d') \<and> ud_hw d' = usb_write ?E out (ud_hw ?d) \<and>
      length out = 2048"
    using usrp_packets_roundtrip [of ?d "replicate 1000 7" 500 ?E 9 False] by (simp add: ud_new_def Let_def) blast
  then show ?thesis by (intro exI [of _ ?E]) simp
qed

end
