(* ===== verification/Usrp1Rx.thy ===== *)
theory Usrp1Rx
  imports Usrp1
begin

text \<open>
  The received samples of the first USRP: the packets of a device that delivers a stream go to the ring, and
  consecutive reads give the stream.
\<close>

section \<open>The ring of received samples\<close>

definition ring_len :: nat where "ring_len = currDataSize div 2"

lemma ring_len: "ring_len = 1048576" "currDataSize = 2 * ring_len"
  by (simp_all add: ring_len_def currDataSize_def)

definition ring_sample :: "nat list \<Rightarrow> nat \<Rightarrow> nat list" where
  "ring_sample data p = slice data (4 * p) 4"

lemma cursor_loop_ring:
  assumes "c < 2147483648"
  shows "cursor_loop c \<le> ring_len \<and> cursor_loop c mod ring_len = c mod ring_len"
  using assms
proof (induction c rule: cursor_loop.induct)
  case (1 c)
  show ?case
  proof (cases "c * 2 mod 4294967296 > currDataSize")
    case True
    then have c: "ring_len < c" using "1.prems" by (simp add: ring_len)
    then have "(c - ring_len) mod ring_len = c mod ring_len" by (simp add: le_mod_geq)
    then show ?thesis using "1.IH" True "1.prems" by (subst (1 2) cursor_loop.simps) (simp flip: ring_len_def)
  next
    case False
    then show ?thesis using "1.prems" by (subst (1 2) cursor_loop.simps) (simp add: ring_len)
  qed
qed

lemma slice_blit_part:
  assumes "i + length xs \<le> length a" and "j + n \<le> length xs"
  shows "slice (blit a i xs) (i + j) n = slice xs j n"
  using assms by (intro nth_equalityI) (simp_all add: blit)

lemma ring_sample_blit:
  assumes "4 * (i + n) \<le> length a" and "length xs = 4 * n" and "4 * p < length a" and "4 dvd length a"
  shows "ring_sample (blit a (4 * i) xs) p = (if i \<le> p \<and> p < i + n then ring_sample xs (p - i) else ring_sample a p)"
proof (cases "i \<le> p \<and> p < i + n")
  case True
  then obtain j where j: "p = i + j" "j < n" by (metis le_iff_add nat_add_left_cancel_less)
  then show ?thesis using slice_blit_part [of "4 * i" xs a "4 * j" 4] assms by (simp add: ring_sample_def algebra_simps)
next
  case False
  have "4 * p + 4 \<le> length a" using assms(3,4) by presburger
  then have "slice (blit a (4 * i) xs) (4 * p) 4 = slice a (4 * p) 4"
    by (rule slice_blit_other [rotated 2]) (use False assms in auto)
  then show ?thesis using False by (auto simp: ring_sample_def)
qed

lemma slice_slice: "j + m \<le> n \<Longrightarrow> slice (slice a i n) j m = slice a (i + j) m"
  by (simp add: slice_def drop_take add.commute min_def)

text \<open>A stored payload of \<open>k\<close> samples: they are at the positions from the cursor on, the others stay.\<close>

lemma ring_store_samples:
  assumes "c \<le> ring_len" and "length data = 4 * ring_len" and "8 + 4 * k \<le> length pkt" and "k \<le> 126"
  obtains data' where "ring_store c pkt (4 * k) data = Some data'" and "length data' = 4 * ring_len"
    and "\<And>j. j < k \<Longrightarrow> ring_sample data' ((c + j) mod ring_len) = slice pkt (8 + 4 * j) 4"
    and "\<And>p. p < ring_len \<Longrightarrow> (\<forall>j < k. p \<noteq> (c + j) mod ring_len) \<Longrightarrow> ring_sample data' p = ring_sample data p"
proof -
  have c: "c * 2 mod 4294967296 = c * 2" using assms(1) by (simp add: ring_len)
  have dv: "4 dvd length data" using assms(2) by simp
  have pk: "ring_sample (slice pkt (8 + 4 * i) (4 * n)) j = slice pkt (8 + 4 * (i + j)) 4" if "j < n" for i n j
    using slice_slice [of "4 * j" 4 "4 * n" pkt "8 + 4 * i"] that by (simp add: ring_sample_def algebra_simps)
  have lp: "length (slice pkt (8 + 4 * i) (4 * n)) = 4 * n" if "i + n \<le> k" for i n
    using that assms(3) by (simp add: length_slice)
  show thesis
  proof (cases "c + k \<le> ring_len")
    case True
    let ?data = "blit data (4 * c) (slice pkt 8 (4 * k))"
    have st: "ring_store c pkt (4 * k) data = Some ?data"
      using True assms c by (simp add: ring_store_def Let_def ring_len(2) algebra_simps)
    have rs: "ring_sample ?data p = (if c \<le> p \<and> p < c + k then slice pkt (8 + 4 * (p - c)) 4 else ring_sample data p)"
      if "p < ring_len" for p
    proof (cases "c \<le> p \<and> p < c + k")
      case in_pkt: True
      then have "p - c < k" by linarith
      then show ?thesis
        using ring_sample_blit [of c k data "slice pkt 8 (4 * k)" p] lp [of 0 k] pk [of "p - c" k 0] True in_pkt assms(2) dv that
        by simp
    next
      case False
      have "ring_sample ?data p = (if c \<le> p \<and> p < c + k then ring_sample (slice pkt 8 (4 * k)) (p - c) else ring_sample data p)"
        by (rule ring_sample_blit) (use lp [of 0 k] True assms(2) that in simp_all)
      then show ?thesis unfolding if_not_P [OF False] .
    qed
    show thesis
    proof (rule that [OF st])
      show "length ?data = 4 * ring_len" using lp [of 0 k] True assms(2) by (simp add: length_blit)
      show "ring_sample ?data ((c + j) mod ring_len) = slice pkt (8 + 4 * j) 4" if "j < k" for j
        using that True by (simp add: rs)
      show "ring_sample ?data p = ring_sample data p" if "p < ring_len" "\<forall>j < k. p \<noteq> (c + j) mod ring_len" for p
      proof -
        have "\<not> (c \<le> p \<and> p < c + k)"
        proof
          assume "c \<le> p \<and> p < c + k"
          then have "p - c < k" "p = (c + (p - c)) mod ring_len" using that(1) by (linarith, simp)
          then show False using that(2) by blast
        qed
        then show ?thesis unfolding rs [OF that(1)] by (rule if_not_P)
      qed
    qed
  next
    case False
    let ?f = "ring_len - c"
    let ?d1 = "blit data (4 * c) (slice pkt 8 (4 * ?f))"
    let ?data = "blit ?d1 0 (slice pkt (8 + 4 * ?f) (4 * (k - ?f)))"
    have st: "ring_store c pkt (4 * k) data = Some ?data"
      using False assms c by (simp add: ring_store_def Let_def ring_len(2) algebra_simps diff_mult_distrib2)
    have k: "k - ?f \<le> ring_len" "?f + (k - ?f) = k" using assms(4) False by (simp_all add: ring_len)
    have l1: "length ?d1 = 4 * ring_len" using lp [of 0 ?f] False assms(1,2) by (simp add: length_blit)
    have s1: "ring_sample ?d1 p = (if c \<le> p then slice pkt (8 + 4 * (p - c)) 4 else ring_sample data p)" if "p < ring_len" for p
      using ring_sample_blit [of c ?f data "slice pkt 8 (4 * ?f)" p] lp [of 0 ?f] pk [of "p - c" ?f 0] False assms(1,2) dv that
      by simp
    have rs: "ring_sample ?data p = (if p < k - ?f then slice pkt (8 + 4 * (?f + p)) 4
        else if c \<le> p then slice pkt (8 + 4 * (p - c)) 4 else ring_sample data p)" if "p < ring_len" for p
      using ring_sample_blit [of 0 "k - ?f" ?d1 "slice pkt (8 + 4 * ?f) (4 * (k - ?f))" p] lp [of ?f "k - ?f"]
        pk [of p "k - ?f" ?f] l1 s1 [OF that] k that by simp
    have lt: "k - ?f < c" using assms(4) False assms(1) by (simp add: ring_len)
    show thesis
    proof (rule that [OF st])
      show "length ?data = 4 * ring_len" using lp [of ?f "k - ?f"] l1 k by (simp add: length_blit)
      show "ring_sample ?data ((c + j) mod ring_len) = slice pkt (8 + 4 * j) 4" if "j < k" for j
      proof (cases "j < ?f")
        case True
        then have "(c + j) mod ring_len = c + j" "c + j < ring_len" by simp_all
        then show ?thesis using rs lt by simp
      next
        case f: False
        have m: "(c + j) mod ring_len = j - ?f" using f that assms(1,4) by (simp add: ring_len mod_wrap_once)
        have lt: "j - ?f < ring_len" "j - ?f < k - ?f" "?f + (j - ?f) = j" using that k(1) f by linarith+
        show ?thesis unfolding m rs [OF lt(1)] if_P [OF lt(2)] lt(3) ..
      qed
      show "ring_sample ?data p = ring_sample data p" if p: "p < ring_len" "\<forall>j < k. p \<noteq> (c + j) mod ring_len" for p
      proof -
        have "\<not> c \<le> p"
        proof
          assume "c \<le> p"
          then have "p - c < k" "p = (c + (p - c)) mod ring_len" using p(1) False by (linarith, simp)
          then show False using p(2) by blast
        qed
        moreover have "\<not> p < k - ?f"
        proof
          assume a: "p < k - ?f"
          then have "?f + p < k" by simp
          moreover have "(c + (?f + p)) mod ring_len = p" using p(1) assms(1) by simp
          ultimately show False using p(2) by metis
        qed
        ultimately show ?thesis using rs [OF p(1)] by simp
      qed
    qed
  qed
qed

section \<open>The stream of received samples\<close>

text \<open>The sample of a time is at its position in the ring; times and their counters are in step.\<close>

definition ring_pos :: "'h usrp_device \<Rightarrow> nat \<Rightarrow> nat" where
  "ring_pos d t = (ud_dataStart d + (t - ud_timeStart d)) mod ring_len"

definition rx_sync :: "(nat \<Rightarrow> nat list) \<Rightarrow> 'h usrp_device \<Rightarrow> bool" where
  "rx_sync s d =
    (ud_rx d \<and> ud_isAligned d \<and>
     (\<exists>data. ud_data d = Some data \<and> length data = 4 * ring_len \<and>
        (\<forall>t. ud_timeStart d \<le> t \<longrightarrow> t < ud_timeEnd d \<longrightarrow> ring_sample data (ring_pos d t) = s t)) \<and>
     ud_dataStart d < ring_len \<and> 0 < ud_timeStart d \<and> ud_timeStart d \<le> ud_timeEnd d \<and>
     ud_timeEnd d \<le> ud_timeStart d + ring_len \<and> ud_timeEnd d < 2 ^ 62 \<and>
     ud_lastPktTimestamp d \<le> ud_timeEnd d \<and> ud_timeEnd d - ud_lastPktTimestamp d < 4294967296 \<and>
     ud_hi32Timestamp d = ud_lastPktTimestamp d div 4294967296)"

text \<open>A packet of the stream \<open>s\<close> with the 126 samples from time \<open>t\<close> on.\<close>

definition stream_packet :: "'h usrp_lib \<Rightarrow> (nat \<Rightarrow> nat list) \<Rightarrow> nat \<Rightarrow> nat list \<Rightarrow> bool" where
  "stream_packet E s t pkt =
    (512 \<le> length pkt \<and> usrp_to_host_u32 E (word_at pkt 1) = t mod 4294967296 \<and>
     usrp_to_host_u32 E (word_at pkt 0) div 65536 mod 32 = 0 \<and> usrp_to_host_u32 E (word_at pkt 0) mod 512 = 504 \<and>
     (\<forall>j < 126. slice pkt (8 + 4 * j) 4 = s (t + j)))"

text \<open>The upper half of the time is found again when the lower half turns over.\<close>

lemma turn_over:
  assumes "(l::nat) = B * a + x" and "t = B * b + y" and "x < B" and "y < B" and "l \<le> t" and "t - l < B"
    and "b = a \<or> b = a + 1"
  shows "b = a + (if x > y then 1 else 0)"
  using assms(7)
proof
  assume "b = a"
  then show ?thesis using assms(1-5) by simp
next
  assume b: "b = a + 1"
  have "t = B * a + B + y" unfolding assms(2) b by simp
  then show ?thesis using assms(1,3-6) b by simp
qed

lemma pkt_time_unwrap:
  assumes "ud_lastPktTimestamp d \<le> t" and "t - ud_lastPktTimestamp d < 4294967296" and "t < 2 ^ 62"
    and "ud_hi32Timestamp d = ud_lastPktTimestamp d div 4294967296" and "0 < ud_timeStart d"
  shows "pkt_time (t mod 4294967296) d = (t, d\<lparr>ud_hi32Timestamp := t div 4294967296, ud_lastPktTimestamp := t\<rparr>)"
proof -
  let ?B = "4294967296 :: nat" and ?l = "ud_lastPktTimestamp d"
  have l: "?l = ?B * (?l div ?B) + ?l mod ?B" and t: "t = ?B * (t div ?B) + t mod ?B" by simp_all
  have b: "?l mod ?B < ?B" "t mod ?B < ?B" by simp_all
  have "?l div ?B \<le> t div ?B" using assms(1) by (rule div_le_mono)
  moreover have "t div ?B \<le> ?l div ?B + 1"
    using assms(1,2) div_le_mono [of t "?l + ?B" ?B] by simp
  ultimately have "t div ?B = ?l div ?B \<or> t div ?B = ?l div ?B + 1" by linarith
  then have hi: "t div ?B = ?l div ?B + (if ?l mod ?B > t mod ?B then 1 else 0)"
    by (rule turn_over [OF l t b assms(1,2)])
  have d: "t div ?B < 1073741824" using assms(3) by (simp add: div_less_iff_less_mult)
  have o: "(t div ?B * ?B) mod two64 OR (t mod ?B) = t"
  proof -
    have "(t div ?B * ?B) mod two64 = t div ?B * ?B" using d by (intro mod_less) simp
    moreover have "(t div ?B * ?B) OR (t mod ?B) = t"
      using nat_or_shift [of "t mod ?B" 32 "t div ?B"] by (simp add: mult.commute)
    ultimately show ?thesis by simp
  qed
  show ?thesis
  proof (cases "?l mod ?B > t mod ?B")
    case True
    then have h: "t div ?B = ?l div ?B + 1" using hi by simp
    have "u64_add (ud_hi32Timestamp d) 1 = t div ?B" unfolding assms(4) h by (rule u64_add_id) (use d h in simp)
    then show ?thesis using True assms(5) o unfolding pkt_time_def Let_def by simp
  next
    case False
    then have "ud_hi32Timestamp d = t div ?B" using hi assms(4) by simp
    moreover from this have "d\<lparr>ud_hi32Timestamp := t div ?B\<rparr> = d" by (cases d) simp
    ultimately show ?thesis using False o unfolding pkt_time_def Let_def by simp
  qed
qed

lemma rx_syncD:
  assumes "rx_sync s d"
  shows "ud_rx d" "ud_isAligned d" "ud_dataStart d < ring_len" "0 < ud_timeStart d" "ud_timeStart d \<le> ud_timeEnd d"
    "ud_timeEnd d \<le> ud_timeStart d + ring_len" "ud_timeEnd d < 2 ^ 62" "ud_lastPktTimestamp d \<le> ud_timeEnd d"
    "ud_timeEnd d - ud_lastPktTimestamp d < 4294967296" "ud_hi32Timestamp d = ud_lastPktTimestamp d div 4294967296"
  using assms by (simp_all add: rx_sync_def)

lemma handle_stream_packet:
  assumes sync: "rx_sync s (ps_dev st)" and pkt: "stream_packet E s (ud_timeEnd (ps_dev st)) pkt"
    and room: "ud_timeEnd (ps_dev st) + 126 \<le> ud_timeStart (ps_dev st) + ring_len" and "ud_timeEnd (ps_dev st) + 126 < 2 ^ 62"
  obtains st' where "handle_packet E pkt st = Some st'" and "rx_sync s (ps_dev st')" and "ps_timestamp st' = ps_timestamp st"
    and "ud_timeEnd (ps_dev st') = ud_timeEnd (ps_dev st) + 126" and "ud_timeStart (ps_dev st') = ud_timeStart (ps_dev st)"
    and "ud_hw (ps_dev st') = ud_hw (ps_dev st)" and "ud_timestampOffset (ps_dev st') = ud_timestampOffset (ps_dev st)"
proof -
  let ?d = "ps_dev st"
  let ?t = "ud_timeEnd ?d"
  note D = rx_syncD [OF sync]
  obtain data where data: "ud_data ?d = Some data" "length data = 4 * ring_len"
    "\<And>t. ud_timeStart ?d \<le> t \<Longrightarrow> t < ?t \<Longrightarrow> ring_sample data (ring_pos ?d t) = s t"
    using sync by (auto simp: rx_sync_def)
  note P = pkt [unfolded stream_packet_def]
  have ptime: "pkt_time (?t mod 4294967296) ?d = (?t, ?d\<lparr>ud_hi32Timestamp := ?t div 4294967296, ud_lastPktTimestamp := ?t\<rparr>)"
    using D by (intro pkt_time_unwrap) simp_all
  let ?c0 = "u64_add (u64_sub ?t (ud_timeStart ?d)) (ud_dataStart ?d) mod 4294967296"
  have c0: "?c0 = ?t - ud_timeStart ?d + ud_dataStart ?d"
    using D by (simp add: u64_sub_id u64_add_id ring_len)
  have cr: "cursor_loop ?c0 \<le> ring_len" "cursor_loop ?c0 mod ring_len = ring_pos ?d ?t"
    using cursor_loop_ring [of ?c0] D unfolding c0 by (simp_all add: ring_len ring_pos_def add.commute)
  obtain data' where st: "ring_store (cursor_loop ?c0) pkt (4 * 126) data = Some data'" and l': "length data' = 4 * ring_len"
    and new: "\<And>j. j < 126 \<Longrightarrow> ring_sample data' ((cursor_loop ?c0 + j) mod ring_len) = slice pkt (8 + 4 * j) 4"
    and old: "\<And>p. p < ring_len \<Longrightarrow> (\<forall>j < 126. p \<noteq> (cursor_loop ?c0 + j) mod ring_len) \<Longrightarrow> ring_sample data' p = ring_sample data p"
    by (rule ring_store_samples [OF cr(1) data(2), of 126 pkt]) (use P in auto)
  have pos: "(cursor_loop ?c0 + j) mod ring_len = ring_pos ?d (?t + j)" for j
  proof -
    have "(cursor_loop ?c0 + j) mod ring_len = (cursor_loop ?c0 mod ring_len + j) mod ring_len" by (simp add: mod_simps)
    also have "\<dots> = ring_pos ?d (?t + j)" unfolding cr(2) using D(5) by (simp add: ring_pos_def mod_simps add.assoc)
    finally show ?thesis .
  qed
  let ?d' = "?d\<lparr>ud_hi32Timestamp := ?t div 4294967296, ud_lastPktTimestamp := ?t, ud_data := Some data', ud_timeEnd := ?t + 126\<rparr>"
  have samples: "ring_sample data' (ring_pos ?d t) = s t" if "ud_timeStart ?d \<le> t" "t < ?t + 126" for t
  proof (cases "?t \<le> t")
    case True
    then obtain j where j: "t = ?t + j" "j < 126"
      using \<open>t < ?t + 126\<close> by (metis le_iff_add nat_add_left_cancel_less)
    show ?thesis using new [OF j(2)] P j unfolding pos by simp
  next
    case False
    have "ring_pos ?d t \<noteq> ring_pos ?d (?t + j)" if j: "j < 126" for j
    proof
      assume "ring_pos ?d t = ring_pos ?d (?t + j)"
      then have "t - ud_timeStart ?d = ?t + j - ud_timeStart ?d"
        unfolding ring_pos_def by (rule ring_pos_inj [rotated 2]) (use False that room j D \<open>ud_timeStart ?d \<le> t\<close> in linarith)+
      then show False using False j that D(5) \<open>ud_timeStart ?d \<le> t\<close> by linarith
    qed
    then have "ring_sample data' (ring_pos ?d t) = ring_sample data (ring_pos ?d t)"
      unfolding pos [symmetric] by (intro old) (simp_all add: ring_pos_def ring_len pos)
    then show ?thesis using data(3) that False by simp
  qed
  have rp: "ring_pos ?d' = ring_pos ?d" by (simp add: ring_pos_def fun_eq_iff)
  have sy: "rx_sync s ?d'"
    unfolding rx_sync_def rp using D room assms(4) samples l' by simp
  let ?w = "usrp_to_host_u32 E (word_at pkt 0)"
  let ?st = "st\<lparr>ps_dev := ?d', ps_underrun := (if odd (?w div 1073741824) then map_option (\<lambda>_. True) (ps_underrun st) else ps_underrun st),
    ps_RSSI := map_option (\<lambda>_. ?w div 2097152 mod 64) (ps_RSSI st)\<rparr>"
  have "handle_packet E pkt st = Some ?st"
    unfolding handle_packet_def Let_def
    using P ptime st data(1) D assms(4) by (simp add: u64_add_id)
  then show thesis by (rule that) (use sy in simp_all)
qed

text \<open>What a step of the receiver leaves alone.\<close>

definition rx_frame :: "'h pkt_state \<Rightarrow> 'h pkt_state \<Rightarrow> bool" where
  "rx_frame st st' =
    (ps_timestamp st' = ps_timestamp st \<and> ud_timeStart (ps_dev st') = ud_timeStart (ps_dev st) \<and>
     ud_timestampOffset (ps_dev st') = ud_timestampOffset (ps_dev st))"

lemma handle_stream_packets:
  assumes "rx_sync s (ps_dev st)" and "512 * m \<le> length buf"
    and "\<forall>k < m. stream_packet E s (ud_timeEnd (ps_dev st) + 126 * k) (drop (512 * k) buf)"
    and "ud_timeEnd (ps_dev st) + 126 * m \<le> ud_timeStart (ps_dev st) + ring_len"
    and "ud_timeEnd (ps_dev st) + 126 * m < 2 ^ 62"
  shows "\<exists>st'. handle_packets E m buf st = Some st' \<and> rx_sync s (ps_dev st') \<and> rx_frame st st' \<and>
    ud_timeEnd (ps_dev st') = ud_timeEnd (ps_dev st) + 126 * m \<and> ud_hw (ps_dev st') = ud_hw (ps_dev st)"
  using assms
proof (induction m arbitrary: st buf)
  case (Suc m)
  have "stream_packet E s (ud_timeEnd (ps_dev st)) buf" using Suc.prems(3) [rule_format, of 0] by simp
  then obtain st1 where h: "handle_packet E buf st = Some st1" "rx_sync s (ps_dev st1)" "ps_timestamp st1 = ps_timestamp st"
    "ud_timeEnd (ps_dev st1) = ud_timeEnd (ps_dev st) + 126" "ud_timeStart (ps_dev st1) = ud_timeStart (ps_dev st)"
    "ud_hw (ps_dev st1) = ud_hw (ps_dev st)" "ud_timestampOffset (ps_dev st1) = ud_timestampOffset (ps_dev st)"
    by (rule handle_stream_packet [OF Suc.prems(1)]) (use Suc.prems(4,5) in simp_all)
  have "stream_packet E s (ud_timeEnd (ps_dev st1) + 126 * k) (drop (512 * k) (drop 512 buf))" if "k < m" for k
    using Suc.prems(3) [rule_format, of "Suc k"] that unfolding h(4) by (simp add: algebra_simps)
  then have "\<forall>k < m. stream_packet E s (ud_timeEnd (ps_dev st1) + 126 * k) (drop (512 * k) (drop 512 buf))" by blast
  moreover have "512 * m \<le> length (drop 512 buf)" using Suc.prems(2) unfolding length_drop mult_Suc_right by linarith
  ultimately obtain st2 where "handle_packets E m (drop 512 buf) st1 = Some st2" "rx_sync s (ps_dev st2)"
    "rx_frame st1 st2" "ud_timeEnd (ps_dev st2) = ud_timeEnd (ps_dev st1) + 126 * m" "ud_hw (ps_dev st2) = ud_hw (ps_dev st1)"
    using Suc.IH [OF h(2), of "drop 512 buf"] Suc.prems(4,5) unfolding h(4,5) by (auto simp: algebra_simps)
  then show ?case using h by (simp add: rx_frame_def)
qed (simp add: rx_frame_def)

text \<open>A receiver that delivers the stream: the bytes asked for are whole packets, the next of the stream each.\<close>

definition delivers_stream :: "'h usrp_lib \<Rightarrow> (nat \<Rightarrow> nat list) \<Rightarrow> ('h \<Rightarrow> nat) \<Rightarrow> bool" where
  "delivers_stream E s pos =
    (\<forall>h. \<forall>m \<in> {1..15}. \<exists>buf over h'. usb_read E (512 * int m) h = (512 * int m, buf, over, h') \<and> length buf = 512 * m \<and>
      (\<forall>k < m. stream_packet E s (pos h + 126 * k) (drop (512 * k) buf)) \<and> pos h' = pos h + 126 * m)"

lemma s32_wrap:
  assumes "0 \<le> x" and "x < 2147483648"
  shows "s32 (18446744073709551616 - x) = - x"
proof -
  have "18446744073709551616 - x + 2147483648 = (2147483648 - x) + 4294967296 * 4294967296" by simp
  moreover have "(2147483648 - x) mod 4294967296 = 2147483648 - x" using assms by (intro mod_pos_pos_trivial) simp_all
  ultimately show ?thesis unfolding s32_def by (simp only: mod_mult_self2)
qed

lemma ceiling_div_nat: "\<lceil>real_of_int (int n) / 126\<rceil> = int ((n + 125) div 126)"
proof -
  obtain q where q: "(n + 125) div 126 = q" "126 * q \<le> n + 125" "n + 125 < 126 * q + 126"
    using times_div_less_eq_dividend [of 126 "n + 125"] dividend_less_times_div [of 126 "n + 125"] by simp
  then have "126 * real q \<le> real n + 125" "real n + 125 < 126 * real q + 126" by linarith+
  moreover have "n \<le> 126 * q" "126 * q < n + 126" using q(2,3) by linarith+
  then have "real n \<le> 126 * real q" "126 * real q < real n + 126" by linarith+
  ultimately show ?thesis unfolding q(1) by (intro ceiling_unique) (simp_all add: field_simps)
qed

lemma read_length_cases:
  assumes "ts < 2 ^ 62" and "te < 2 ^ 62" and "len \<le> ring_len" and "te \<le> ts + ring_len" and "ts \<le> te"
  shows "read_length ts len te =
    (if ts + len \<le> te then None else Some (512 * int (min 15 ((ts + len - te + 125) div 126))))"
proof (cases "ts + len \<le> te")
  case True
  have "s32 (int (u64_sub (ts + len) te)) = - int (te - (ts + len))"
  proof (cases "te = ts + len")
    case True
    then show ?thesis using u64_sub_id [of te te] assms(2) by (simp add: s32_def)
  next
    case False
    then obtain x where x: "te = ts + len + x" "0 < x" using True by (metis le_iff_add neq0_conv add.right_neutral)
    then have "u64_sub (ts + len) te = two64 - x" using assms(2) by (simp add: u64_sub_def)
    moreover have "x < 2147483648" using x assms(4) by (simp add: ring_len)
    ultimately show ?thesis using s32_wrap [of "int x"] x(1) by (simp add: of_nat_diff)
  qed
  then show ?thesis using True assms by (simp add: read_length_def Let_def u64_add_id ring_len)
next
  case False
  let ?n = "ts + len - te"
  let ?q = "(?n + 125) div 126"
  have n: "0 < ?n" "?n \<le> len" using False assms by linarith+
  then have s: "s32 (int ?n) = int ?n" using assms(3) by (intro s32_id) (simp_all add: ring_len)
  have c: "\<lceil>real_of_int (int ?n) / 126\<rceil> = int ?q"
    by (rule ceiling_div_nat)
  have "?n + 125 < 9000 * 126" using n assms(3) by (simp add: ring_len)
  then have "?q < 9000" by (subst div_less_iff_less_mult) simp_all
  then have w: "s32 (512 * int q) = 512 * int q" if "q = ?q" for q using that by (intro s32_id) linarith+
  have u: "u64_sub (u64_add ts len) te = ?n" using assms False by (simp add: u64_add_id u64_sub_id ring_len)
  have "read_length ts len te = Some (if 512 * int ?q > 8000 then 8000 div 512 * 512 else 512 * int ?q)"
    unfolding read_length_def Let_def u s c w [OF refl] by (rule if_not_P) (use n in simp)
  moreover have "(if 512 * int q > 8000 then 8000 div 512 * 512 else 512 * int q) = 512 * int (min 15 q)" for q
    by (cases "q \<le> 15") auto
  ultimately show ?thesis unfolding if_not_P [OF False] by (simp only:)
qed

lemma read_stream_packets:
  assumes "delivers_stream E s pos" and "rx_sync s (ps_dev st)" and "ud_timeEnd (ps_dev st) = pos (ud_hw (ps_dev st))"
    and "ps_timestamp st = ud_timeStart (ps_dev st)" and "len + 126 \<le> ring_len" and "ud_timeStart (ps_dev st) < 2 ^ 61"
    and "ps_timestamp st + len - ud_timeEnd (ps_dev st) < fuel"
  shows "\<exists>over' st'. read_packets E fuel len over st = Some (over', st') \<and> rx_sync s (ps_dev st') \<and> rx_frame st st' \<and>
    ps_timestamp st + len \<le> ud_timeEnd (ps_dev st') \<and> ud_timeEnd (ps_dev st') = pos (ud_hw (ps_dev st'))"
  using assms(2-)
proof (induction fuel arbitrary: st over)
  case (Suc fuel)
  let ?d = "ps_dev st" and ?ts = "ps_timestamp st"
  let ?n = "?ts + len - ud_timeEnd ?d"
  note D = rx_syncD [OF Suc.prems(1)]
  have rl: "read_length ?ts len (ud_timeEnd ?d) =
      (if ?ts + len \<le> ud_timeEnd ?d then None else Some (512 * int (min 15 ((?n + 125) div 126))))"
    using D Suc.prems(3-5) by (intro read_length_cases) simp_all
  show ?case
  proof (cases "?ts + len \<le> ud_timeEnd ?d")
    case True
    then show ?thesis using rl Suc.prems by (simp add: rx_frame_def)
  next
    case False
    obtain m where me: "min 15 ((?n + 125) div 126) = m" by simp
    have n: "0 < ?n" using False by simp
    have "1 \<le> (?n + 125) div 126" using n by simp
    then have m: "m \<in> {1..15}" using me by (auto simp: min_def split: if_splits)
    have "126 * ((?n + 125) div 126) \<le> ?n + 125" by (rule times_div_less_eq_dividend)
    moreover have "m \<le> (?n + 125) div 126" unfolding me [symmetric] by (rule min.cobounded2)
    ultimately have m126: "126 * m \<le> ?n + 125" by linarith
    note rl = rl [unfolded me]
    obtain buf ov h where u: "usb_read E (512 * int m) (ud_hw ?d) = (512 * int m, buf, ov, h)" "length buf = 512 * m"
      "\<forall>k < m. stream_packet E s (pos (ud_hw ?d) + 126 * k) (drop (512 * k) buf)" "pos h = pos (ud_hw ?d) + 126 * m"
      using assms(1) m unfolding delivers_stream_def by metis
    let ?st = "st\<lparr>ps_dev := ?d\<lparr>ud_hw := h\<rparr>\<rparr>"
    have sy: "rx_sync s (ps_dev ?st)" using Suc.prems(1) by (simp add: rx_sync_def ring_pos_def)
    have room: "ud_timeEnd ?d + 126 * m \<le> ud_timeStart ?d + ring_len" "ud_timeEnd ?d + 126 * m < 2 ^ 62"
      using m126 n Suc.prems(3-5) by (linarith, simp add: ring_len)
    obtain st1 where h: "handle_packets E m buf ?st = Some st1" "rx_sync s (ps_dev st1)" "rx_frame ?st st1"
      "ud_timeEnd (ps_dev st1) = ud_timeEnd ?d + 126 * m" "ud_hw (ps_dev st1) = h"
    proof -
      have t: "ud_timeEnd (ps_dev ?st) = ud_timeEnd ?d" "ud_timeStart (ps_dev ?st) = ud_timeStart ?d" "ud_hw (ps_dev ?st) = h"
        by simp_all
      have "\<forall>k < m. stream_packet E s (ud_timeEnd (ps_dev ?st) + 126 * k) (drop (512 * k) buf)"
        unfolding t Suc.prems(2) by (rule u(3))
      note handle_stream_packets [OF sy _ this, unfolded t, OF eq_imp_le [OF u(2) [symmetric]] room]
      then show thesis by (elim exE conjE) (rule that)
    qed
    have fr: "ps_timestamp st1 = ?ts" "ud_timeStart (ps_dev st1) = ud_timeStart ?d"
      using h(3) by (simp_all add: rx_frame_def)
    have "?ts + len - ud_timeEnd (ps_dev st1) < fuel" using Suc.prems(6) m n unfolding h(4) atLeastAtMost_iff by linarith
    then obtain ov' st2 where r: "read_packets E fuel len ov st1 = Some (ov', st2)" "rx_sync s (ps_dev st2)" "rx_frame st1 st2"
      "?ts + len \<le> ud_timeEnd (ps_dev st2)" "ud_timeEnd (ps_dev st2) = pos (ud_hw (ps_dev st2))"
      using Suc.IH [OF h(2), of ov] fr h(4,5) u(4) Suc.prems(2-5) by auto
    have "cdiv (512 * int m) 512 = int m" by (simp add: cdiv_nonneg)
    then have "read_packets E (Suc fuel) len over st = read_packets E fuel len ov st1"
      using rl False u(1) h(1) by simp
    then show ?thesis using r h(3) by (auto simp: rx_frame_def)
  qed
qed simp

lemma ring_take_samples:
  assumes "length data = 4 * ring_len" and "b < ring_len" and "len \<le> ring_len"
  obtains data' where "ring_take b len data = Some (concat (map (\<lambda>i. ring_sample data ((b + i) mod ring_len)) [0..<len]), data')"
    and "length data' = 4 * ring_len"
    and "\<And>p. p < ring_len \<Longrightarrow> (\<forall>i < len. p \<noteq> (b + i) mod ring_len) \<Longrightarrow> ring_sample data' p = ring_sample data p"
proof -
  have cs: "slice a (4 * i) (4 * n) = concat (map (\<lambda>j. ring_sample a (i + j)) [0..<n])"
    if "4 * (i + n) \<le> length a" for i n and a :: "nat list"
    using that
  proof (induction n)
    case 0
    then show ?case by (simp add: slice_def)
  next
    case (Suc n)
    have "slice a (4 * i) (4 * Suc n) = slice a (4 * i) (4 * n) @ slice a (4 * (i + n)) 4"
    proof -
      have "4 * Suc n = 4 * n + 4" by simp
      then show ?thesis unfolding slice_def by (simp only: take_add drop_drop) (simp add: algebra_simps)
    qed
    then show ?case using Suc by (simp add: ring_sample_def)
  qed
  have dv: "4 dvd length data" using assms(1) by simp
  show thesis
  proof (cases "b + len < ring_len")
    case True
    show thesis
    proof (rule that [of "blit data (4 * b) (replicate (4 * len) 0)"])
      have mm: "map (\<lambda>i. ring_sample data ((b + i) mod ring_len)) [0..<len] = map (\<lambda>i. ring_sample data (b + i)) [0..<len]"
        using True by simp
      show "ring_take b len data = Some (concat (map (\<lambda>i. ring_sample data ((b + i) mod ring_len)) [0..<len]),
          blit data (4 * b) (replicate (4 * len) 0))"
        unfolding mm using True assms(1) cs [of b len data] by (simp add: ring_take_def Let_def flip: ring_len_def)
      show "length (blit data (4 * b) (replicate (4 * len) 0)) = 4 * ring_len" using True assms(1) by (simp add: length_blit)
      show "ring_sample (blit data (4 * b) (replicate (4 * len) 0)) p = ring_sample data p"
        if "p < ring_len" "\<forall>i < len. p \<noteq> (b + i) mod ring_len" for p
      proof -
        have nb: "\<not> (b \<le> p \<and> p < b + len)"
        proof
          assume "b \<le> p \<and> p < b + len"
          then have "p - b < len" "p = (b + (p - b)) mod ring_len" using that(1) by (linarith, simp)
          then show False using that(2) by blast
        qed
        have "ring_sample (blit data (4 * b) (replicate (4 * len) 0)) p =
            (if b \<le> p \<and> p < b + len then ring_sample (replicate (4 * len) 0) (p - b) else ring_sample data p)"
          by (rule ring_sample_blit) (use True assms(1) that(1) in simp_all)
        then show ?thesis unfolding if_not_P [OF nb] .
      qed
    qed
  next
    case False
    let ?f = "ring_len - b"
    let ?r = "len - ?f"
    let ?d1 = "blit data (4 * b) (replicate (4 * ?f) 0)"
    have l1: "length ?d1 = 4 * ring_len" using assms(1,2) by (simp add: length_blit)
    have rb: "?r \<le> b" "?f + ?r = len" using assms(2,3) False by linarith+
    have s1: "ring_sample ?d1 p = ring_sample data p" if "p < b" for p
    proof -
      have nb: "\<not> (b \<le> p \<and> p < b + ?f)" using that by linarith
      have "ring_sample ?d1 p = (if b \<le> p \<and> p < b + ?f then ring_sample (replicate (4 * ?f) 0) (p - b) else ring_sample data p)"
        by (rule ring_sample_blit) (use that assms(1,2) in simp_all)
      then show ?thesis unfolding if_not_P [OF nb] .
    qed
    show thesis
    proof (rule that [of "blit ?d1 0 (replicate (4 * ?r) 0)"])
      have "map (\<lambda>i. ?f + i) [0..<?r] = [?f..<?f + ?r]"
        using map_add_upt [of ?f ?r] by (simp only: add.commute)
      then have u: "[0..<len] = [0..<?f] @ map (\<lambda>i. ?f + i) [0..<?r]"
        using upt_add_eq_append [OF le0, of ?f ?r] unfolding rb(2) by simp
      have m1: "map (\<lambda>i. ring_sample data ((b + i) mod ring_len)) [0..<?f] = map (\<lambda>i. ring_sample data (b + i)) [0..<?f]"
        using assms(2) by simp
      have m2: "map (\<lambda>i. ring_sample data ((b + (?f + i)) mod ring_len)) [0..<?r] = map (\<lambda>i. ring_sample ?d1 (0 + i)) [0..<?r]"
        using assms(2) rb(1) s1 by (intro map_cong) simp_all
      have f: "4 * (b + ?f) \<le> length data" "4 * (0 + ?r) \<le> length ?d1" using assms(1,2) rb(1) l1 by simp_all
      have c: "concat (map (\<lambda>i. ring_sample data ((b + i) mod ring_len)) [0..<len]) =
          slice data (4 * b) (4 * ?f) @ slice ?d1 0 (4 * ?r)"
        unfolding u map_append concat_append map_map comp_def m1 m2 cs [OF f(1), symmetric] cs [OF f(2), symmetric] by simp
      show "ring_take b len data = Some (concat (map (\<lambda>i. ring_sample data ((b + i) mod ring_len)) [0..<len]),
          blit ?d1 0 (replicate (4 * ?r) 0))"
        unfolding c using False assms(2,3) by (simp add: ring_take_def Let_def flip: ring_len_def)
      show "length (blit ?d1 0 (replicate (4 * ?r) 0)) = 4 * ring_len" using l1 rb assms(2) by (simp add: length_blit)
      show "ring_sample (blit ?d1 0 (replicate (4 * ?r) 0)) p = ring_sample data p"
        if p: "p < ring_len" "\<forall>i < len. p \<noteq> (b + i) mod ring_len" for p
      proof -
        have "\<not> b \<le> p"
        proof
          assume "b \<le> p"
          then have "p - b < len" "p = (b + (p - b)) mod ring_len" using p(1) False by (linarith, simp)
          then show False using p(2) by blast
        qed
        moreover have nr: "\<not> (0 \<le> p \<and> p < 0 + ?r)"
        proof
          assume "0 \<le> p \<and> p < 0 + ?r"
          then have "?f + p < len" "(b + (?f + p)) mod ring_len = p" using p(1) assms(2) by (linarith, simp)
          then show False using p(2) by metis
        qed
        moreover have "ring_sample (blit ?d1 (4 * 0) (replicate (4 * ?r) 0)) p =
            (if 0 \<le> p \<and> p < 0 + ?r then ring_sample (replicate (4 * ?r) 0) (p - 0) else ring_sample ?d1 p)"
          by (rule ring_sample_blit) (use l1 rb assms(2) p(1) in simp_all)
        ultimately show ?thesis unfolding if_not_P [OF nr] using s1 by simp
      qed
    qed
  qed
qed

text \<open>C25. A device that delivers a stream of samples is read without loss: with enough fuel for the wait, a read of
  the next samples (at most the ring less one packet) returns exactly the samples of its times, whatever turns the
  32-bit packet times and the ring have made, and leaves the driver ready for the next read.\<close>

theorem usrp_read_stream:
  assumes "delivers_stream E s pos" and "rx_sync s d" and "ud_timeEnd d = pos (ud_hw d)"
    and "u64_add timestamp (ud_timestampOffset d) = ud_timeStart d" and "len + 126 \<le> ring_len"
    and "ud_timeStart d < 2 ^ 61" and "ud_timeStart d + len - ud_timeEnd d < fuel"
  shows "\<exists>r d'. ud_readSamples E fuel len overrun timestamp underrun RSSI d = Some (r, d') \<and>
    rr_ret r = len \<and> rr_buf r = Some (concat (map s [ud_timeStart d..<ud_timeStart d + len])) \<and>
    rx_sync s d' \<and> ud_timeEnd d' = pos (ud_hw d') \<and> ud_timeStart d' = ud_timeStart d + len \<and>
    ud_timestampOffset d' = ud_timestampOffset d"
proof -
  let ?T = "ud_timeStart d"
  note D = rx_syncD [OF assms(2)]
  let ?st = "\<lparr>ps_dev = d, ps_timestamp = ?T, ps_underrun = map_option (\<lambda>_. False) underrun, ps_RSSI = RSSI\<rparr>"
  obtain over st where r: "read_packets E fuel len overrun ?st = Some (over, st)" and sy: "rx_sync s (ps_dev st)"
    and fr: "rx_frame ?st st" and te: "?T + len \<le> ud_timeEnd (ps_dev st)" and ps: "ud_timeEnd (ps_dev st) = pos (ud_hw (ps_dev st))"
    using read_stream_packets [OF assms(1), of ?st len fuel overrun] assms by auto
  let ?d = "ps_dev st"
  note D' = rx_syncD [OF sy]
  have F: "ps_timestamp st = ?T" "ud_timeStart ?d = ?T" "ud_timestampOffset ?d = ud_timestampOffset d"
    using fr by (simp_all add: rx_frame_def)
  obtain data where data: "ud_data ?d = Some data" "length data = 4 * ring_len"
    "\<And>t. ?T \<le> t \<Longrightarrow> t < ud_timeEnd ?d \<Longrightarrow> ring_sample data (ring_pos ?d t) = s t"
    using sy F(2) by (auto simp: rx_sync_def)
  let ?b = "ud_dataStart ?d"
  obtain data' where tk: "ring_take ?b len data = Some (concat (map (\<lambda>i. ring_sample data ((?b + i) mod ring_len)) [0..<len]), data')"
    and l': "length data' = 4 * ring_len"
    and keep: "\<And>p. p < ring_len \<Longrightarrow> (\<forall>i < len. p \<noteq> (?b + i) mod ring_len) \<Longrightarrow> ring_sample data' p = ring_sample data p"
    by (rule ring_take_samples [OF data(2) D'(3), of len]) (use assms(5) in auto)
  have m1: "map (\<lambda>i. ring_sample data ((?b + i) mod ring_len)) [0..<len] = map (\<lambda>i. s (?T + i)) [0..<len]"
  proof (rule map_cong [OF refl])
    fix i assume "i \<in> set [0..<len]"
    then have "ring_sample data (ring_pos ?d (?T + i)) = s (?T + i)" using te by (intro data(3)) simp_all
    then show "ring_sample data ((?b + i) mod ring_len) = s (?T + i)" using F(2) by (simp add: ring_pos_def)
  qed
  have m2: "[?T..<?T + len] = map (\<lambda>i. ?T + i) [0..<len]" using map_add_upt [of ?T len] by (simp only: add.commute)
  have buf: "concat (map (\<lambda>i. ring_sample data ((?b + i) mod ring_len)) [0..<len]) = concat (map s [?T..<?T + len])"
    unfolding m1 m2 map_map comp_def ..
  have bs: "u64_add ?b (u64_sub ?T ?T) mod 4294967296 = ?b"
    using D'(3) assms(6) by (simp add: u64_sub_id u64_add_id ring_len)
  let ?d' = "?d\<lparr>ud_data := Some data', ud_dataStart := (?b + len) mod ring_len, ud_timeStart := ?T + len\<rparr>"
  have held: "ring_sample data' (ring_pos ?d' t) = s t" if t: "?T + len \<le> t" "t < ud_timeEnd ?d" for t
  proof -
    obtain x where x: "t = ?T + len + x" using t(1) by (metis le_iff_add)
    then have "t - (?T + len) = x" "t - ?T = len + x" by simp_all
    then have p: "ring_pos ?d' t = ring_pos ?d t" using F(2) by (simp add: ring_pos_def mod_simps add.assoc)
    have "ring_pos ?d t \<noteq> (?b + i) mod ring_len" if "i < len" for i
    proof
      assume "ring_pos ?d t = (?b + i) mod ring_len"
      then have "t - ud_timeStart ?d = i"
        unfolding ring_pos_def by (rule ring_pos_inj [rotated 2]) (use t that D'(6) F(2) assms(5) in linarith)+
      then show False using t(1) that F(2) by linarith
    qed
    then have "ring_sample data' (ring_pos ?d t) = ring_sample data (ring_pos ?d t)"
      by (intro keep) (simp_all add: ring_pos_def ring_len)
    then show ?thesis unfolding p using data(3) t by simp
  qed
  have "rx_sync s ?d'" unfolding rx_sync_def using D' F te held l' by (simp add: ring_len)
  moreover have "ud_readSamples E fuel len overrun timestamp underrun RSSI d =
      Some (\<lparr>rr_ret = len, rr_buf = Some (concat (map s [?T..<?T + len])), rr_overrun = over, rr_underrun = ps_underrun st,
        rr_RSSI = ps_RSSI st\<rparr>, ?d')"
    using D(1) assms(4,5,6) r F data(1) tk bs unfolding buf
    by (simp add: ud_readSamples_def Let_def u64_add_id ring_len(1) flip: ring_len_def)
  ultimately show ?thesis using ps F(3) by simp
qed

text \<open>A device that delivers the numbers of the samples.\<close>

definition counter_sample :: "nat \<Rightarrow> nat list" where
  "counter_sample t = [t mod 256, 1, 0, 0]"

definition counter_packet :: "nat \<Rightarrow> nat list" where
  "counter_packet t = mem32 504 @ mem32 (t mod 4294967296) @ concat (map counter_sample [t..<t + 126])"

definition counter_device :: "nat usrp_lib \<Rightarrow> nat usrp_lib" where
  "counter_device E = E\<lparr>usrp_to_host_u32 := (\<lambda>w. w), usb_read := (\<lambda>n h.
     (n, concat (map (\<lambda>k. counter_packet (h + 126 * k)) [0..<nat (n div 512)]), False, h + 126 * nat (n div 512)))\<rparr>"

lemma concat_blocks:
  assumes "\<And>x. length (f x) = n"
  shows "length (concat (map f xs)) = n * length xs"
    and "k < length xs \<Longrightarrow> \<exists>r. drop (n * k) (concat (map f xs)) = f (xs ! k) @ r"
proof -
  show "length (concat (map f xs)) = n * length xs" using assms by (induction xs) simp_all
  show "k < length xs \<Longrightarrow> \<exists>r. drop (n * k) (concat (map f xs)) = f (xs ! k) @ r"
    using assms by (induction xs arbitrary: k) (auto simp: nth_Cons split: nat.split)
qed

lemma counter_delivers: "delivers_stream (counter_device E) counter_sample (\<lambda>h. h)"
proof -
  have cs: "length (counter_sample t) = 4" for t by (simp add: counter_sample_def)
  have l: "length (counter_packet t) = 512" for t
    unfolding counter_packet_def length_append concat_blocks(1) [of counter_sample 4, OF cs] by simp
  have sp: "stream_packet (counter_device E) counter_sample t (counter_packet t @ r)" for t r
  proof -
    let ?c = "concat (map counter_sample [t..<t + 126])"
    have c: "counter_packet t @ r = mem32 504 @ mem32 (t mod 4294967296) @ ?c @ r" by (simp add: counter_packet_def)
    have w: "word_at (counter_packet t @ r) 0 = 504" "word_at (counter_packet t @ r) 1 = t mod 4294967296"
      unfolding c by (rule word_at_mem32; simp)+
    have "slice (counter_packet t @ r) (8 + 4 * j) 4 = counter_sample (t + j)" if "j < 126" for j
    proof -
      have "drop 8 (counter_packet t @ r) = ?c @ r" unfolding c by (simp add: mem32_def)
      then have d: "drop (8 + 4 * j) (counter_packet t @ r) = drop (4 * j) (?c @ r)"
        by (metis add.commute drop_drop)
      have "j < length [t..<t + 126]" using that by simp
      from concat_blocks(2) [of counter_sample 4, OF cs this] obtain q where "drop (4 * j) ?c = counter_sample ([t..<t + 126] ! j) @ q"
        by blast
      then have "drop (4 * j) ?c = counter_sample (t + j) @ q" using that by simp
      moreover have "4 * j < length ?c" unfolding concat_blocks(1) [of counter_sample 4, OF cs] using that by simp
      ultimately show ?thesis unfolding slice_def d by (simp add: cs del: length_concat)
    qed
    then show ?thesis unfolding stream_packet_def using w by (simp add: l counter_device_def del: One_nat_def)
  qed
  show ?thesis unfolding delivers_stream_def
  proof (intro allI ballI)
    fix h m :: nat assume "m \<in> {1..15}"
    let ?b = "concat (map (\<lambda>k. counter_packet (h + 126 * k)) [0..<m])"
    have "length ?b = 512 * m" using concat_blocks(1) [of "\<lambda>k. counter_packet (h + 126 * k)" 512 "[0..<m]"] l by simp
    moreover have "stream_packet (counter_device E) counter_sample (h + 126 * k) (drop (512 * k) ?b)" if "k < m" for k
      using concat_blocks(2) [of "\<lambda>k. counter_packet (h + 126 * k)" 512 k "[0..<m]"] l that sp by fastforce
    moreover have "usb_read (counter_device E) (512 * int m) h = (512 * int m, ?b, False, h + 126 * m)"
      by (simp add: counter_device_def)
    ultimately show "\<exists>buf over h'. usb_read (counter_device E) (512 * int m) h = (512 * int m, buf, over, h') \<and>
        length buf = 512 * m \<and> (\<forall>k < m. stream_packet (counter_device E) counter_sample (h + 126 * k) (drop (512 * k) buf)) \<and>
        h' = h + 126 * m" by blast
  qed
qed

theorem usrp_read_stream_witness:
  "\<exists>(E :: nat usrp_lib) d r d'. ud_readSamples E 700 600 False 5000 None None d = Some (r, d') \<and> rr_ret r = 600 \<and>
    rr_buf r = Some (concat (map counter_sample [5000..<5600])) \<and> ud_timeStart d' = 5600"
proof -
  let ?E = "counter_device undefined"
  let ?d = "(ud_new 4 4 [] [] undefined)\<lparr>ud_hw := 5000 :: nat, ud_rx := True, ud_isAligned := True,
    ud_data := Some (replicate (4 * ring_len) 0), ud_dataStart := 0, ud_timeStart := 5000, ud_timeEnd := 5000,
    ud_lastPktTimestamp := 4874, ud_hi32Timestamp := 0, ud_timestampOffset := 0\<rparr>"
  have s: "rx_sync counter_sample ?d" by (simp add: rx_sync_def ring_len(1))
  obtain T where T: "T = ud_timeStart ?d" "T = 5000" by simp
  have u: "u64_add 5000 (ud_timestampOffset ?d) = ud_timeStart ?d" by (simp add: u64_add_def)
  have w: "\<exists>r d'. ud_readSamples ?E 700 600 False 5000 None None ?d = Some (r, d') \<and> rr_ret r = 600 \<and>
      rr_buf r = Some (concat (map counter_sample [T..<T + 600])) \<and> ud_timeStart d' = T + 600"
    using usrp_read_stream [OF counter_delivers s _ u, of 600 700 undefined False None None] unfolding T(1)
    by (simp add: ring_len(1) del: upt_rec_numeral) blast
  have e: "T + 600 = 5600" using T(2) by simp
  show ?thesis using w unfolding e unfolding T(2) by - (rule exI, rule exI)
qed

end
