(* ===== verification/Uhd.thy ===== *)
theory Uhd
  imports SmplBuf RadioInterface Scanf "HOL-Library.Sublist" "HOL-Library.Monad_Syntax"
begin

text \<open>
  The driver for devices of the UHD library (\<^verbatim>\<open>device/uhd/UHDDevice.cpp\<close>): the table of device parameters,
  opening, rates, gains, channels and antennas, start and stop, receiving packets into the sample buffers of
  \<open>SmplBuf\<close>, sending with the realignment after an underrun, and tuning of one or two channels. The library and the
  device behind it are the parameter \<open>uhd_lib\<close> over a state \<open>'h\<close>. A call that throws, and an access to memory that is
  not there, are \<open>None\<close>. Log output is left out.
\<close>

section \<open>The library\<close>

datatype rx_error = EC_NONE | EC_TIMEOUT | EC_LATE_COMMAND | EC_BROKEN_CHAIN | EC_OVERFLOW | EC_ALIGNMENT | EC_BAD_PACKET
  | EC_OTHER nat

datatype async_event = EV_BURST_ACK | EV_UNDERFLOW | EV_SEQ_ERROR | EV_TIME_ERROR | EV_UNDERFLOW_IN_PACKET
  | EV_SEQ_ERROR_IN_BURST | EV_OTHER nat

text \<open>A time is a number of seconds.\<close>

record rx_md =
  md_error_code :: rx_error
  md_has_time_spec :: bool
  md_time_spec :: real

record tx_md =
  txmd_time :: real
  txmd_start_of_burst :: bool
  txmd_end_of_burst :: bool

record async_md =
  am_event_code :: async_event
  am_has_time_spec :: bool
  am_time_spec :: real

record tune_req =
  tq_target_freq :: real
  tq_rf_manual :: bool
  tq_rf_freq :: real
  tq_dsp_manual :: bool
  tq_dsp_freq :: real

text \<open>The string of a gain function names the stage, and is empty for the version without a name. \<open>recv n\<close> returns at
  most \<open>n\<close> samples of each channel.\<close>

record ('h, 'a) uhd_lib =
  uhd_find :: "string \<Rightarrow> 'h \<Rightarrow> bool"
  uhd_make :: "string \<Rightarrow> 'h \<Rightarrow> 'h option"
  uhd_version :: string
  dev_name :: "'h \<Rightarrow> string"
  mboard_name :: "'h \<Rightarrow> string"
  tx_gain_names :: "'h \<Rightarrow> string list"
  tx_gain_range :: "string \<Rightarrow> 'h \<Rightarrow> real \<times> real"
  rx_gain_range :: "'h \<Rightarrow> real \<times> real"
  set_tx_gain :: "real \<Rightarrow> string \<Rightarrow> nat \<Rightarrow> 'h \<Rightarrow> 'h"
  get_tx_gain :: "nat \<Rightarrow> 'h \<Rightarrow> real"
  set_rx_gain :: "real \<Rightarrow> nat \<Rightarrow> 'h \<Rightarrow> 'h"
  get_rx_gain :: "nat \<Rightarrow> 'h \<Rightarrow> real"
  set_master_clock_rate :: "real \<Rightarrow> 'h \<Rightarrow> 'h option"
  set_tx_rate :: "real \<Rightarrow> 'h \<Rightarrow> 'h option"
  set_rx_rate :: "real \<Rightarrow> 'h \<Rightarrow> 'h option"
  get_tx_rate :: "'h \<Rightarrow> real"
  get_rx_rate :: "'h \<Rightarrow> real"
  set_subdev_specs :: "string \<Rightarrow> 'h \<Rightarrow> 'h option"
  set_clock_source :: "string \<Rightarrow> 'h \<Rightarrow> 'h"
  set_tx_bandwidth :: "real \<Rightarrow> nat \<Rightarrow> 'h \<Rightarrow> 'h"
  set_rx_bandwidth :: "real \<Rightarrow> nat \<Rightarrow> 'h \<Rightarrow> 'h"
  get_streams :: "nat list \<Rightarrow> 'h \<Rightarrow> 'h"
  tx_max_samps :: "'h \<Rightarrow> nat"
  rx_max_samps :: "'h \<Rightarrow> nat"
  get_rx_antennas :: "nat \<Rightarrow> 'h \<Rightarrow> string list"
  set_rx_antenna :: "string \<Rightarrow> nat \<Rightarrow> 'h \<Rightarrow> 'h"
  get_rx_antenna :: "nat \<Rightarrow> 'h \<Rightarrow> string"
  get_tx_antennas :: "nat \<Rightarrow> 'h \<Rightarrow> string list"
  set_tx_antenna :: "string \<Rightarrow> nat \<Rightarrow> 'h \<Rightarrow> 'h"
  get_tx_antenna :: "nat \<Rightarrow> 'h \<Rightarrow> string"
  stream_recv :: "nat \<Rightarrow> 'h \<Rightarrow> 'a list list \<times> nat \<times> rx_md \<times> 'h"
  stream_send :: "'a list list \<Rightarrow> nat \<Rightarrow> tx_md \<Rightarrow> 'h \<Rightarrow> nat \<times> 'h"
  stream_start_at :: "real \<Rightarrow> 'h \<Rightarrow> 'h"
  stream_stop :: "'h \<Rightarrow> 'h"
  time_now :: "'h \<Rightarrow> real"
  to_ticks :: "real \<Rightarrow> real \<Rightarrow> nat"
  from_ticks :: "nat \<Rightarrow> real \<Rightarrow> real"
  new_tune_req :: "real \<Rightarrow> tune_req"
  new_tune_req_lo :: "real \<Rightarrow> real \<Rightarrow> tune_req"
  tune_tx :: "tune_req \<Rightarrow> nat \<Rightarrow> 'h \<Rightarrow> 'h"
  tune_rx :: "tune_req \<Rightarrow> nat \<Rightarrow> 'h \<Rightarrow> 'h"
  tuned_tx :: "nat \<Rightarrow> 'h \<Rightarrow> real"
  tuned_rx :: "nat \<Rightarrow> 'h \<Rightarrow> real"
  recv_async :: "'h \<Rightarrow> async_md option \<times> 'h"
  show_secs :: "real \<Rightarrow> string"
  new_samples :: "nat \<Rightarrow> 'a"

section \<open>Device parameters\<close>

datatype uhd_dev_type = USRP1 | USRP2 | B100 | B200 | B210 | B2XX_MCBTS | E1XX | E3XX | X3XX | UMTRX | LIMESDR

datatype tx_window_type = TX_WINDOW_USRP1 | TX_WINDOW_FIXED | TX_WINDOW_LMS1

record dev_desc =
  dd_channels :: nat
  dd_mcr :: real
  dd_rate :: real
  dd_offset :: real
  dd_str :: string

definition GSMRATE :: real where "GSMRATE = 1625000 / 6"
definition MCBTS_SPACING :: real where "MCBTS_SPACING = 800000"
definition USRP_TX_AMPL :: real where "USRP_TX_AMPL = 3 / 10"
definition UMTRX_TX_AMPL :: real where "UMTRX_TX_AMPL = 7 / 10"
definition LIMESDR_TX_AMPL :: real where "LIMESDR_TX_AMPL = 3 / 10"
definition SAMPLE_BUF_SZ :: nat where "SAMPLE_BUF_SZ = 1048576"
definition UMTRX_VGA1_DEF :: real where "UMTRX_VGA1_DEF = - 18"

text \<open>The timings of the B2xx; \<open>old\<close> tells whether the program is built for UHD 3.9 or 3.11.\<close>

definition B2XX_TIMING_1SPS :: "bool \<Rightarrow> real" where
  "B2XX_TIMING_1SPS old = (if old then 17153 / 10 ^ 8 else 99692 / 10 ^ 9)"

definition B2XX_TIMING_4SPS :: "bool \<Rightarrow> real" where
  "B2XX_TIMING_4SPS old = (if old then 11696 / 10 ^ 8 else 69248 / 10 ^ 9)"

definition B2XX_TIMING_4_4SPS :: "bool \<Rightarrow> real" where
  "B2XX_TIMING_4_4SPS old = (if old then 618462 / 10 ^ 10 else 452308 / 10 ^ 10)"

definition B2XX_TIMING_MCBTS :: "bool \<Rightarrow> real" where
  "B2XX_TIMING_MCBTS old = (if old then 7 / 10 ^ 5 else 642452 / 10 ^ 10)"

definition dev_param_list :: "bool \<Rightarrow> ((uhd_dev_type \<times> nat \<times> nat) \<times> dev_desc) list" where
  "dev_param_list old =
    [((USRP2, 1, 1), \<lparr>dd_channels = 1, dd_mcr = 0, dd_rate = 390625, dd_offset = 12184 / 10 ^ 8, dd_str = ''N2XX 1 SPS''\<rparr>),
     ((USRP2, 4, 1), \<lparr>dd_channels = 1, dd_mcr = 0, dd_rate = 390625, dd_offset = 76547 / 10 ^ 9, dd_str = ''N2XX 4/1 Tx/Rx SPS''\<rparr>),
     ((USRP2, 4, 4), \<lparr>dd_channels = 1, dd_mcr = 0, dd_rate = 390625, dd_offset = 46080 / 10 ^ 9, dd_str = ''N2XX 4 SPS''\<rparr>),
     ((B100, 1, 1), \<lparr>dd_channels = 1, dd_mcr = 0, dd_rate = 400000, dd_offset = 12104 / 10 ^ 8, dd_str = ''B100 1 SPS''\<rparr>),
     ((B100, 4, 1), \<lparr>dd_channels = 1, dd_mcr = 0, dd_rate = 400000, dd_offset = 79307 / 10 ^ 9, dd_str = ''B100 4/1 Tx/Rx SPS''\<rparr>),
     ((B200, 1, 1), \<lparr>dd_channels = 1, dd_mcr = 26000000, dd_rate = GSMRATE, dd_offset = B2XX_TIMING_1SPS old, dd_str = ''B200 1 SPS''\<rparr>),
     ((B200, 4, 1), \<lparr>dd_channels = 1, dd_mcr = 26000000, dd_rate = GSMRATE, dd_offset = B2XX_TIMING_4SPS old, dd_str = ''B200 4/1 Tx/Rx SPS''\<rparr>),
     ((B200, 4, 4), \<lparr>dd_channels = 1, dd_mcr = 26000000, dd_rate = GSMRATE, dd_offset = B2XX_TIMING_4_4SPS old, dd_str = ''B200 4 SPS''\<rparr>),
     ((B210, 1, 1), \<lparr>dd_channels = 2, dd_mcr = 26000000, dd_rate = GSMRATE, dd_offset = B2XX_TIMING_1SPS old, dd_str = ''B210 1 SPS''\<rparr>),
     ((B210, 4, 1), \<lparr>dd_channels = 2, dd_mcr = 26000000, dd_rate = GSMRATE, dd_offset = B2XX_TIMING_4SPS old, dd_str = ''B210 4/1 Tx/Rx SPS''\<rparr>),
     ((B210, 4, 4), \<lparr>dd_channels = 2, dd_mcr = 26000000, dd_rate = GSMRATE, dd_offset = B2XX_TIMING_4_4SPS old, dd_str = ''B210 4 SPS''\<rparr>),
     ((E1XX, 1, 1), \<lparr>dd_channels = 1, dd_mcr = 52000000, dd_rate = GSMRATE, dd_offset = 95192 / 10 ^ 9, dd_str = ''E1XX 1 SPS''\<rparr>),
     ((E1XX, 4, 1), \<lparr>dd_channels = 1, dd_mcr = 52000000, dd_rate = GSMRATE, dd_offset = 65571 / 10 ^ 9, dd_str = ''E1XX 4/1 Tx/Rx SPS''\<rparr>),
     ((E3XX, 1, 1), \<lparr>dd_channels = 2, dd_mcr = 26000000, dd_rate = GSMRATE, dd_offset = 18462 / 10 ^ 8, dd_str = ''E3XX 1 SPS''\<rparr>),
     ((E3XX, 4, 1), \<lparr>dd_channels = 2, dd_mcr = 26000000, dd_rate = GSMRATE, dd_offset = 12923 / 10 ^ 8, dd_str = ''E3XX 4/1 Tx/Rx SPS''\<rparr>),
     ((X3XX, 1, 1), \<lparr>dd_channels = 2, dd_mcr = 0, dd_rate = 390625, dd_offset = 15360 / 10 ^ 8, dd_str = ''X3XX 1 SPS''\<rparr>),
     ((X3XX, 4, 1), \<lparr>dd_channels = 2, dd_mcr = 0, dd_rate = 390625, dd_offset = 11264 / 10 ^ 8, dd_str = ''X3XX 4/1 Tx/Rx SPS''\<rparr>),
     ((X3XX, 4, 4), \<lparr>dd_channels = 2, dd_mcr = 0, dd_rate = 390625, dd_offset = 56567 / 10 ^ 9, dd_str = ''X3XX 4 SPS''\<rparr>),
     ((UMTRX, 1, 1), \<lparr>dd_channels = 2, dd_mcr = 0, dd_rate = GSMRATE, dd_offset = 99692 / 10 ^ 9, dd_str = ''UmTRX 1 SPS''\<rparr>),
     ((UMTRX, 4, 1), \<lparr>dd_channels = 2, dd_mcr = 0, dd_rate = GSMRATE, dd_offset = 73846 / 10 ^ 9, dd_str = ''UmTRX 4/1 Tx/Rx SPS''\<rparr>),
     ((UMTRX, 4, 4), \<lparr>dd_channels = 2, dd_mcr = 0, dd_rate = GSMRATE, dd_offset = 51503 / 10 ^ 9, dd_str = ''UmTRX 4 SPS''\<rparr>),
     ((LIMESDR, 4, 4), \<lparr>dd_channels = 1, dd_mcr = GSMRATE * 32, dd_rate = GSMRATE, dd_offset = 89 / 10 ^ 6, dd_str = ''LimeSDR 4 SPS''\<rparr>),
     ((B2XX_MCBTS, 4, 4), \<lparr>dd_channels = 1, dd_mcr = 51200000, dd_rate = MCBTS_SPACING * 4, dd_offset = B2XX_TIMING_MCBTS old, dd_str = ''B200/B210 4 SPS Multi-ARFCN''\<rparr>)]"

text \<open>\<open>at\<close> throws for a missing key.\<close>

definition dev_param_at :: "bool \<Rightarrow> uhd_dev_type \<Rightarrow> nat \<Rightarrow> nat \<Rightarrow> dev_desc option" where
  "dev_param_at old t tx rx = map_of (dev_param_list old) (t, tx, rx)"

section \<open>The state of the driver\<close>

text \<open>\<open>uh_threads\<close> counts the event threads that run; \<open>uh_old\<close> is the build option for the timings. A null pointer in
  \<open>rx_buffers\<close> is \<open>None\<close>.\<close>

record ('h, 'a) uhd_device =
  uh_hw :: 'h
  uh_old :: bool
  uh_tx_sps :: nat
  uh_rx_sps :: nat
  uh_iface :: interface_type
  uh_chans :: nat
  uh_lo_offset :: real
  uh_tx_paths :: "string list"
  uh_rx_paths :: "string list"
  uh_tx_window :: tx_window_type
  uh_dev_type :: uhd_dev_type
  uh_tx_rate :: real
  uh_rx_rate :: real
  uh_tx_gain_min :: real
  uh_tx_gain_max :: real
  uh_rx_gain_min :: real
  uh_rx_gain_max :: real
  uh_tx_gains :: "real list"
  uh_rx_gains :: "real list"
  uh_tx_freqs :: "real list"
  uh_rx_freqs :: "real list"
  uh_tx_spp :: nat
  uh_rx_spp :: nat
  uh_started :: bool
  uh_aligned :: bool
  uh_rx_pkt_cnt :: nat
  uh_drop_cnt :: nat
  uh_prev_ts :: real
  uh_ts_initial :: nat
  uh_ts_offset :: nat
  uh_rx_buffers :: "'a smpl_buf option list"
  uh_threads :: nat

text \<open>The constructor; \<open>u\<close> stands for the members that it leaves unset.\<close>

definition uh_new :: "nat \<Rightarrow> nat \<Rightarrow> interface_type \<Rightarrow> nat \<Rightarrow> real \<Rightarrow> string list \<Rightarrow> string list \<Rightarrow>
    ('h, 'a) uhd_device \<Rightarrow> ('h, 'a) uhd_device" where
  "uh_new tx_sps rx_sps iface chans lo_offset tx_paths rx_paths u =
    u\<lparr>uh_tx_sps := tx_sps, uh_rx_sps := rx_sps, uh_iface := iface, uh_chans := chans, uh_lo_offset := lo_offset,
      uh_tx_paths := tx_paths, uh_rx_paths := rx_paths, uh_tx_gain_min := 0, uh_tx_gain_max := 0, uh_rx_gain_min := 0,
      uh_rx_gain_max := 0, uh_tx_gains := [], uh_rx_gains := [], uh_tx_freqs := [], uh_rx_freqs := [], uh_tx_spp := 0,
      uh_rx_spp := 0, uh_started := False, uh_aligned := False, uh_rx_pkt_cnt := 0, uh_drop_cnt := 0, uh_prev_ts := 0,
      uh_ts_initial := 0, uh_ts_offset := 0, uh_rx_buffers := [], uh_threads := 0\<rparr>"

section \<open>Gains\<close>

text \<open>Old versions of UHD have no split gain stages of the UmTRX. A list without stages has no first element.\<close>

definition split_stages :: "('h, 'a) uhd_lib \<Rightarrow> ('h, 'a) uhd_device \<Rightarrow> bool option" where
  "split_stages E d =
    (case tx_gain_names E (uh_hw d) of [] \<Rightarrow> None | g # _ \<Rightarrow> Some (g \<noteq> ''VGA'' \<and> g \<noteq> ''PA''))"

fun default_tx_gains :: "('h, 'a) uhd_lib \<Rightarrow> nat list \<Rightarrow> ('h, 'a) uhd_device \<Rightarrow> ('h, 'a) uhd_device" where
  "default_tx_gains E [] d = d"
| "default_tx_gains E (i # is) d =
     (let h = set_tx_gain E ((uh_tx_gain_min d + uh_tx_gain_max d) / 2) [] i (uh_hw d)
      in default_tx_gains E is (d\<lparr>uh_hw := h, uh_tx_gains := (uh_tx_gains d)[i := get_tx_gain E i h]\<rparr>))"

fun default_rx_gains :: "('h, 'a) uhd_lib \<Rightarrow> nat list \<Rightarrow> ('h, 'a) uhd_device \<Rightarrow> ('h, 'a) uhd_device" where
  "default_rx_gains E [] d = d"
| "default_rx_gains E (i # is) d =
     (let h = set_rx_gain E ((uh_rx_gain_min d + uh_rx_gain_max d) / 2) i (uh_hw d)
      in default_rx_gains E is (d\<lparr>uh_hw := h, uh_rx_gains := (uh_rx_gains d)[i := get_rx_gain E i h]\<rparr>))"

definition uh_init_gains :: "('h, 'a) uhd_lib \<Rightarrow> ('h, 'a) uhd_device \<Rightarrow> ('h, 'a) uhd_device option" where
  "uh_init_gains E d =
    do { split \<leftarrow> (if uh_dev_type d = UMTRX then split_stages E d else Some False);
         let off = (if split then UMTRX_VGA1_DEF else 0);
         let range = tx_gain_range E (if split then ''VGA2'' else []) (uh_hw d);
         let d = d\<lparr>uh_tx_gain_min := off + fst range, uh_tx_gain_max := off + snd range\<rparr>;
         let range = rx_gain_range E (uh_hw d);
         let d = d\<lparr>uh_rx_gain_min := fst range, uh_rx_gain_max := snd range\<rparr>;
         let d = default_tx_gains E [0..<length (uh_tx_gains d)] d;
         Some (default_rx_gains E [0..<length (uh_rx_gains d)] d) }"

definition uh_setTxGain :: "('h, 'a) uhd_lib \<Rightarrow> real \<Rightarrow> nat \<Rightarrow> ('h, 'a) uhd_device \<Rightarrow> (real \<times> ('h, 'a) uhd_device) option" where
  "uh_setTxGain E db chan d =
    (let chan = (if uh_iface d = MULTI_ARFCN then 0 else chan)
     in if chan \<ge> length (uh_tx_gains d) then Some (0, d)
        else do {
          split \<leftarrow> (if uh_dev_type d = UMTRX then split_stages E d else Some False);
          let h = (if split then set_tx_gain E (db - UMTRX_VGA1_DEF) ''VGA2'' chan (set_tx_gain E UMTRX_VGA1_DEF ''VGA1'' chan (uh_hw d))
                   else set_tx_gain E db [] chan (uh_hw d));
          let g = get_tx_gain E chan h;
          Some (g, d\<lparr>uh_hw := h, uh_tx_gains := (uh_tx_gains d)[chan := g]\<rparr>) })"

definition uh_setRxGain :: "('h, 'a) uhd_lib \<Rightarrow> real \<Rightarrow> nat \<Rightarrow> ('h, 'a) uhd_device \<Rightarrow> real \<times> ('h, 'a) uhd_device" where
  "uh_setRxGain E db chan d =
    (let chan = (if uh_iface d = MULTI_ARFCN then 0 else chan)
     in if chan \<ge> length (uh_rx_gains d) then (0, d)
        else let h = set_rx_gain E db chan (uh_hw d); g = get_rx_gain E chan h
             in (g, d\<lparr>uh_hw := h, uh_rx_gains := (uh_rx_gains d)[chan := g]\<rparr>))"

definition uh_getRxGain :: "nat \<Rightarrow> ('h, 'a) uhd_device \<Rightarrow> real" where
  "uh_getRxGain chan d =
    (let chan = (if uh_iface d = MULTI_ARFCN then 0 else chan)
     in if chan \<ge> length (uh_rx_gains d) then 0 else uh_rx_gains d ! chan)"

section \<open>Rates, device types and channels\<close>

definition uh_set_rates :: "('h, 'a) uhd_lib \<Rightarrow> ('h, 'a) uhd_device \<Rightarrow> ('h, 'a) uhd_device option" where
  "uh_set_rates E d =
    do { desc \<leftarrow> dev_param_at (uh_old d) (uh_dev_type d) (uh_tx_sps d) (uh_rx_sps d);
         h \<leftarrow> (if dd_mcr desc \<noteq> 0 then set_master_clock_rate E (dd_mcr desc) (uh_hw d) else Some (uh_hw d));
         let tx_rate = (if uh_dev_type d \<noteq> B2XX_MCBTS then dd_rate desc * real (uh_tx_sps d) else dd_rate desc);
         let rx_rate = (if uh_dev_type d \<noteq> B2XX_MCBTS then dd_rate desc * real (uh_rx_sps d) else dd_rate desc);
         h \<leftarrow> set_tx_rate E tx_rate h;
         h \<leftarrow> set_rx_rate E rx_rate h;
         let tx_rate = get_tx_rate E h;
         let rx_rate = get_rx_rate E h;
         Some (d\<lparr>uh_hw := h, uh_tx_rate := tx_rate, uh_rx_rate := rx_rate, uh_ts_offset := nat \<lfloor>dd_offset desc * rx_rate\<rfloor>\<rparr>) }"

text \<open>The names in the order of their map, which sorts them.\<close>

definition devStringMap :: "(string \<times> uhd_dev_type \<times> tx_window_type) list" where
  "devStringMap =
    [(''B100'', B100, TX_WINDOW_USRP1), (''B200'', B200, TX_WINDOW_USRP1), (''B200mini'', B200, TX_WINDOW_USRP1),
     (''B205mini'', B200, TX_WINDOW_USRP1), (''B210'', B210, TX_WINDOW_USRP1), (''E100'', E1XX, TX_WINDOW_FIXED),
     (''E110'', E1XX, TX_WINDOW_FIXED), (''E310'', E3XX, TX_WINDOW_FIXED), (''E3XX'', E3XX, TX_WINDOW_FIXED),
     (''LimeSDR'', LIMESDR, TX_WINDOW_FIXED), (''USRP2'', USRP2, TX_WINDOW_FIXED), (''UmTRX'', UMTRX, TX_WINDOW_FIXED),
     (''X300'', X3XX, TX_WINDOW_FIXED), (''X310'', X3XX, TX_WINDOW_FIXED)]"

fun find_dev_type :: "(string \<times> uhd_dev_type \<times> tx_window_type) list \<Rightarrow> string \<Rightarrow> string \<Rightarrow>
    (uhd_dev_type \<times> tx_window_type) option" where
  "find_dev_type [] devString mboardString = None"
| "find_dev_type ((key, t) # m) devString mboardString =
     (if sublist key devString \<or> sublist key mboardString then Some t else find_dev_type m devString mboardString)"

definition uh_parse_dev_type :: "('h, 'a) uhd_lib \<Rightarrow> ('h, 'a) uhd_device \<Rightarrow> bool \<times> ('h, 'a) uhd_device" where
  "uh_parse_dev_type E d =
    (case find_dev_type devStringMap (dev_name E (uh_hw d)) (mboard_name E (uh_hw d)) of
       None \<Rightarrow> (False, d)
     | Some (t, w) \<Rightarrow> (True, d\<lparr>uh_dev_type := t, uh_tx_window := w\<rparr>))"

text \<open>The version is a string like \<open>003.009.000\<close>; a shorter one is cut off behind its end.\<close>

definition uhd_e3xx_version_chk :: "string \<Rightarrow> bool option" where
  "uhd_e3xx_version_chk ver =
    (if length ver < 7 then None
     else let major_val = c_atoi (take 3 ver); minor_val = c_atoi (take 3 (drop 4 ver))
          in Some (if major_val < 3 then False else if minor_val < 9 then False else True))"

definition subdev_string :: "uhd_dev_type \<Rightarrow> nat \<Rightarrow> bool \<Rightarrow> string" where
  "subdev_string t chans swap =
    (if t = B210 \<or> t = E3XX then
       if chans = 1 then if swap then ''A:B'' else ''A:A''
       else if chans = 2 then if swap then ''A:B A:A'' else ''A:A A:B'' else []
     else if t = X3XX \<or> t = UMTRX then
       if chans = 1 then if swap then ''B:0'' else ''A:0''
       else if chans = 2 then if swap then ''B:0 A:0'' else ''A:0 B:0'' else []
     else [])"

text \<open>The second result tells whether the function returned; the state may have changed before it threw.\<close>

definition uh_set_channels :: "('h, 'a) uhd_lib \<Rightarrow> bool \<Rightarrow> ('h, 'a) uhd_device \<Rightarrow> bool \<times> ('h, 'a) uhd_device" where
  "uh_set_channels E swap d =
    (if uh_iface d = MULTI_ARFCN \<and> uh_dev_type d \<noteq> B200 \<and> uh_dev_type d \<noteq> B210 then (False, d)
     else
       let d = (if uh_iface d = MULTI_ARFCN then d\<lparr>uh_dev_type := B2XX_MCBTS, uh_chans := 1\<rparr> else d)
       in case dev_param_at (uh_old d) (uh_dev_type d) (uh_tx_sps d) (uh_rx_sps d) of
            None \<Rightarrow> (False, d)
          | Some desc \<Rightarrow>
              if uh_chans d > dd_channels desc then (False, d)
              else
                let sub = subdev_string (uh_dev_type d) (uh_chans d) swap
                in if sub = [] then (True, d)
                   else case set_subdev_specs E sub (uh_hw d) of None \<Rightarrow> (False, d) | Some h \<Rightarrow> (True, d\<lparr>uh_hw := h\<rparr>))"

section \<open>Antennas\<close>

definition uh_setRxAntenna :: "('h, 'a) uhd_lib \<Rightarrow> string \<Rightarrow> nat \<Rightarrow> ('h, 'a) uhd_device \<Rightarrow> bool \<times> ('h, 'a) uhd_device" where
  "uh_setRxAntenna E ant chan d =
    (if chan \<ge> length (uh_rx_paths d) then (False, d)
     else if ant \<notin> set (get_rx_antennas E chan (uh_hw d)) then (False, d)
     else let h = set_rx_antenna E ant chan (uh_hw d); got = get_rx_antenna E chan h
          in (ant = got, d\<lparr>uh_hw := h, uh_rx_paths := (uh_rx_paths d)[chan := got]\<rparr>))"

definition uh_getRxAntenna :: "('h, 'a) uhd_lib \<Rightarrow> nat \<Rightarrow> ('h, 'a) uhd_device \<Rightarrow> string" where
  "uh_getRxAntenna E chan d = (if chan \<ge> length (uh_rx_paths d) then [] else get_rx_antenna E chan (uh_hw d))"

definition uh_setTxAntenna :: "('h, 'a) uhd_lib \<Rightarrow> string \<Rightarrow> nat \<Rightarrow> ('h, 'a) uhd_device \<Rightarrow> bool \<times> ('h, 'a) uhd_device" where
  "uh_setTxAntenna E ant chan d =
    (if chan \<ge> length (uh_tx_paths d) then (False, d)
     else if ant \<notin> set (get_tx_antennas E chan (uh_hw d)) then (False, d)
     else let h = set_tx_antenna E ant chan (uh_hw d); got = get_tx_antenna E chan h
          in (ant = got, d\<lparr>uh_hw := h, uh_tx_paths := (uh_tx_paths d)[chan := got]\<rparr>))"

definition uh_getTxAntenna :: "('h, 'a) uhd_lib \<Rightarrow> nat \<Rightarrow> ('h, 'a) uhd_device \<Rightarrow> string" where
  "uh_getTxAntenna E chan d = (if chan \<ge> length (uh_tx_paths d) then [] else get_tx_antenna E chan (uh_hw d))"

text \<open>\<open>set_antennas\<close> of the base class (\<^verbatim>\<open>radioDevice.h\<close>) sets the antennas that have a name, over the virtual functions.\<close>

fun set_paths :: "(string \<Rightarrow> nat \<Rightarrow> 'd \<Rightarrow> bool \<times> 'd) \<Rightarrow> nat \<Rightarrow> string list \<Rightarrow> 'd \<Rightarrow> bool \<times> 'd" where
  "set_paths setAntenna i [] d = (True, d)"
| "set_paths setAntenna i (path # paths) d =
     (if path = [] then set_paths setAntenna (i + 1) paths d
      else case setAntenna path i d of (ok, d) \<Rightarrow> if \<not> ok then (False, d) else set_paths setAntenna (i + 1) paths d)"

definition set_antennas :: "(string \<Rightarrow> nat \<Rightarrow> 'd \<Rightarrow> bool \<times> 'd) \<Rightarrow> (string \<Rightarrow> nat \<Rightarrow> 'd \<Rightarrow> bool \<times> 'd) \<Rightarrow>
    string list \<Rightarrow> string list \<Rightarrow> 'd \<Rightarrow> bool \<times> 'd" where
  "set_antennas setTx setRx tx_paths rx_paths d =
    (case set_paths setTx 0 tx_paths d of (ok, d) \<Rightarrow> if \<not> ok then (False, d) else set_paths setRx 0 rx_paths d)"

section \<open>Opening\<close>

datatype reference = REF_INTERNAL | REF_EXTERNAL | REF_GPS | REF_OTHER int

definition ref_string :: "reference \<Rightarrow> string option" where
  "ref_string r =
    (case r of REF_INTERNAL \<Rightarrow> Some ''internal'' | REF_EXTERNAL \<Rightarrow> Some ''external'' | REF_GPS \<Rightarrow> Some ''gpsdo''
     | REF_OTHER _ \<Rightarrow> None)"

fun set_bandwidths :: "('h, 'a) uhd_lib \<Rightarrow> real \<Rightarrow> real \<Rightarrow> nat list \<Rightarrow> 'h \<Rightarrow> 'h" where
  "set_bandwidths E tx rx [] h = h"
| "set_bandwidths E tx rx (i # is) h = set_bandwidths E tx rx is (set_rx_bandwidth E rx i (set_tx_bandwidth E tx i h))"

definition interface_code :: "interface_type \<Rightarrow> int" where
  "interface_code i = (case i of NORMAL \<Rightarrow> 0 | RESAMP_64M \<Rightarrow> 1 | RESAMP_100M \<Rightarrow> 2 | MULTI_ARFCN \<Rightarrow> 3)"

definition interface_of :: "('h, 'a) uhd_device \<Rightarrow> interface_type" where
  "interface_of d =
    (if uh_iface d = MULTI_ARFCN then MULTI_ARFCN
     else case uh_dev_type d of B100 \<Rightarrow> RESAMP_64M | USRP2 \<Rightarrow> RESAMP_100M | X3XX \<Rightarrow> RESAMP_100M | _ \<Rightarrow> NORMAL)"

text \<open>The second half of \<open>open\<close>, after the clock source: rates, bandwidths, streams, buffers and gains.\<close>

definition open_streams :: "('h, 'a) uhd_lib \<Rightarrow> ('h, 'a) uhd_device \<Rightarrow> (int \<times> ('h, 'a) uhd_device) option" where
  "open_streams E d =
    (case uh_set_rates E d of
       None \<Rightarrow> Some (- 1, d)
     | Some d \<Rightarrow>
         let h = (if uh_dev_type d = UMTRX then set_bandwidths E 1000000 1000000 [0..<uh_chans d] (uh_hw d)
                  else if uh_dev_type d = LIMESDR then set_bandwidths E 5200000 1400100 [0..<uh_chans d] (uh_hw d)
                  else uh_hw d);
             h = get_streams E [0..<uh_chans d] h;
             d = d\<lparr>uh_hw := h, uh_tx_spp := tx_max_samps E h, uh_rx_spp := rx_max_samps E h,
               uh_rx_buffers := replicate (length (uh_rx_buffers d)) (Some (sb_new (new_samples E) (SAMPLE_BUF_SZ div 4)))\<rparr>
         in map_option (\<lambda>d. (interface_code (interface_of d), d)) (uh_init_gains E d))"

definition uh_open :: "('h, 'a) uhd_lib \<Rightarrow> string \<Rightarrow> reference \<Rightarrow> bool \<Rightarrow> ('h, 'a) uhd_device \<Rightarrow>
    (int \<times> ('h, 'a) uhd_device) option" where
  "uh_open E args ref swap_channels d =
    (if \<not> uhd_find E args (uh_hw d) then Some (- 1, d)
     else case uhd_make E args (uh_hw d) of
       None \<Rightarrow> Some (- 1, d)
     | Some h \<Rightarrow>
       (case uh_parse_dev_type E (d\<lparr>uh_hw := h\<rparr>) of
          (False, d) \<Rightarrow> Some (- 1, d)
        | (True, d) \<Rightarrow>
          do { version \<leftarrow> (if uh_dev_type d = E3XX then uhd_e3xx_version_chk (uhd_version E) else Some True);
               if \<not> version then Some (- 1, d)
               else case uh_set_channels E swap_channels d of
                 (False, d) \<Rightarrow> Some (- 1, d)
               | (True, d) \<Rightarrow>
                 (case set_antennas (uh_setTxAntenna E) (uh_setRxAntenna E) (uh_tx_paths d) (uh_rx_paths d) d of
                    (False, d) \<Rightarrow> Some (- 1, d)
                  | (True, d) \<Rightarrow>
                    let n = uh_chans d;
                        d = d\<lparr>uh_tx_freqs := vec_resize n 0 (uh_tx_freqs d), uh_rx_freqs := vec_resize n 0 (uh_rx_freqs d),
                          uh_tx_gains := vec_resize n 0 (uh_tx_gains d), uh_rx_gains := vec_resize n 0 (uh_rx_gains d),
                          uh_rx_buffers := vec_resize n None (uh_rx_buffers d)\<rparr>
                    in case ref_string ref of
                         None \<Rightarrow> Some (- 1, d)
                       | Some refstr \<Rightarrow> open_streams E (d\<lparr>uh_hw := set_clock_source E refstr (uh_hw d)\<rparr>)) }))"

definition uh_make :: "nat \<Rightarrow> nat \<Rightarrow> interface_type \<Rightarrow> nat \<Rightarrow> real \<Rightarrow> string list \<Rightarrow> string list \<Rightarrow>
    ('h, 'a) uhd_device \<Rightarrow> ('h, 'a) uhd_device" where
  "uh_make tx_sps rx_sps iface chans lo_offset tx_paths rx_paths u =
    uh_new tx_sps rx_sps iface chans lo_offset tx_paths rx_paths u"

section \<open>Starting and stopping\<close>

text \<open>The initial time is that of the last packet flushed. An error other than a time-out is skipped, before the first
  packet for as long as it takes: the loop has fuel.\<close>

fun flush_loop :: "('h, 'a) uhd_lib \<Rightarrow> nat \<Rightarrow> nat \<Rightarrow> ('h, 'a) uhd_device \<Rightarrow> (bool \<times> ('h, 'a) uhd_device) option" where
  "flush_loop E 0 num_pkts d = None"
| "flush_loop E (Suc fuel) num_pkts d =
     (if uh_ts_initial d \<noteq> 0 \<and> num_pkts = 0 then Some (True, d)
      else
        let num_pkts = (if uh_ts_initial d = 0 then num_pkts else num_pkts - 1);
            (pkts, num_smpls, md, h) = stream_recv E (uh_rx_spp d) (uh_hw d);
            d = d\<lparr>uh_hw := h\<rparr>
        in if num_smpls = 0 then
             if md_error_code md = EC_TIMEOUT then Some (False, d) else flush_loop E fuel num_pkts d
           else flush_loop E fuel num_pkts (d\<lparr>uh_ts_initial := to_ticks E (uh_rx_rate d) (md_time_spec md)\<rparr>))"

definition uh_flush_recv :: "('h, 'a) uhd_lib \<Rightarrow> nat \<Rightarrow> nat \<Rightarrow> ('h, 'a) uhd_device \<Rightarrow> (bool \<times> ('h, 'a) uhd_device) option" where
  "uh_flush_recv E fuel num_pkts d = flush_loop E fuel num_pkts (d\<lparr>uh_ts_initial := 0\<rparr>)"

definition uh_restart :: "('h, 'a) uhd_lib \<Rightarrow> nat \<Rightarrow> ('h, 'a) uhd_device \<Rightarrow> (bool \<times> ('h, 'a) uhd_device) option" where
  "uh_restart E fuel d =
    (let h = stream_start_at E (time_now E (uh_hw d) + 1 / 10) (uh_hw d)
     in uh_flush_recv E fuel 10 (d\<lparr>uh_aligned := False, uh_hw := h\<rparr>))"

definition uh_start :: "('h, 'a) uhd_lib \<Rightarrow> nat \<Rightarrow> ('h, 'a) uhd_device \<Rightarrow> (bool \<times> ('h, 'a) uhd_device) option" where
  "uh_start E fuel d =
    (if uh_started d then Some (False, d)
     else do { (ok, d) \<leftarrow> uh_restart E fuel (d\<lparr>uh_threads := uh_threads d + 1\<rparr>);
               Some (if \<not> ok then (False, d) else (True, d\<lparr>uh_started := True\<rparr>)) })"

definition uh_stop :: "('h, 'a) uhd_lib \<Rightarrow> ('h, 'a) uhd_device \<Rightarrow> bool \<times> ('h, 'a) uhd_device" where
  "uh_stop E d =
    (if \<not> uh_started d then (False, d)
     else (True, d\<lparr>uh_hw := stream_stop E (uh_hw d), uh_threads := uh_threads d - 1, uh_started := False\<rparr>))"

section \<open>Receiving\<close>

datatype uhd_err = ERROR_TIMING | ERROR_TIMEOUT | ERROR_UNRECOVERABLE | ERROR_UNHANDLED

text \<open>The check gives the error, if any, and the metadata with the time corrected for a tick lost in rounding.\<close>

definition uh_check_rx_md_err :: "('h, 'a) uhd_lib \<Rightarrow> rx_md \<Rightarrow> nat \<Rightarrow> ('h, 'a) uhd_device \<Rightarrow>
    uhd_err option \<times> rx_md \<times> ('h, 'a) uhd_device" where
  "uh_check_rx_md_err E md num_smpls d =
    (if num_smpls = 0 then (Some (if md_error_code md = EC_TIMEOUT then ERROR_TIMEOUT else ERROR_UNHANDLED), md, d)
     else if \<not> md_has_time_spec md then (Some ERROR_UNRECOVERABLE, md, d)
     else if md_time_spec md < uh_prev_ts d then (Some ERROR_TIMING, md, d)
     else
       let ticks = to_ticks E (uh_rx_rate d) (md_time_spec md);
           md = (if u64_sub ticks (to_ticks E (uh_rx_rate d) (uh_prev_ts d)) = u64_sub (uh_rx_spp d) 1
                 then md\<lparr>md_time_spec := from_ticks E (u64_add ticks 1) (uh_rx_rate d)\<rparr> else md)
       in (None, md, d\<lparr>uh_prev_ts := md_time_spec md\<rparr>))"

text \<open>A packet goes to the buffer of each channel. An overflow is ignored, another error ends the read.\<close>

fun write_buffers :: "'a list list \<Rightarrow> nat \<Rightarrow> nat \<Rightarrow> 'a smpl_buf option list \<Rightarrow> (bool \<times> 'a smpl_buf option list) option" where
  "write_buffers pkts num ticks [] = Some (True, [])"
| "write_buffers [] num ticks (b # bs) = None"
| "write_buffers (pkt # pkts) num ticks (b # bs) =
     do { b \<leftarrow> b;
          let (rc, b) = sb_write (take num pkt) ticks b;
          if rc < 0 \<and> rc \<noteq> sb_err_code ERROR_OVERFLOW then Some (False, Some b # bs)
          else do { (ok, bs) \<leftarrow> write_buffers pkts num ticks bs; Some (ok, Some b # bs) } }"

datatype recv_end = Enough | Stopped | Exited

text \<open>The loop ends when the first buffer has what is asked for; it takes fuel, and so does the restart.\<close>

fun recv_loop :: "('h, 'a) uhd_lib \<Rightarrow> nat \<Rightarrow> nat \<Rightarrow> nat \<Rightarrow> nat \<Rightarrow> ('h, 'a) uhd_device \<Rightarrow>
    (recv_end \<times> ('h, 'a) uhd_device) option" where
  "recv_loop E restart_fuel 0 len timestamp d = None"
| "recv_loop E restart_fuel (Suc fuel) len timestamp d =
     do { b0 \<leftarrow> hd (uh_rx_buffers d @ [None]);
          if sb_avail_smpls timestamp b0 \<ge> int len then Some (Enough, d)
          else
            let (pkts, num_smpls, md, h) = stream_recv E (uh_rx_spp d) (uh_hw d);
                (err, md, d) = uh_check_rx_md_err E md num_smpls (d\<lparr>uh_hw := h, uh_rx_pkt_cnt := u64_add (uh_rx_pkt_cnt d) 1\<rparr>)
            in case err of
                 Some ERROR_UNRECOVERABLE \<Rightarrow> Some (Exited, d)
               | Some ERROR_TIMEOUT \<Rightarrow> Some (Stopped, d)
               | Some ERROR_TIMING \<Rightarrow> do { (_, d) \<leftarrow> uh_restart E restart_fuel d; recv_loop E restart_fuel fuel len timestamp d }
               | Some ERROR_UNHANDLED \<Rightarrow> recv_loop E restart_fuel fuel len timestamp d
               | None \<Rightarrow>
                   do { (ok, bs) \<leftarrow> write_buffers pkts num_smpls (to_ticks E (uh_rx_rate d) (md_time_spec md)) (uh_rx_buffers d);
                        let d = d\<lparr>uh_rx_buffers := bs\<rparr>;
                        if \<not> ok then Some (Stopped, d) else recv_loop E restart_fuel fuel len timestamp d } }"

fun read_buffers :: "nat \<Rightarrow> nat \<Rightarrow> 'a list list \<Rightarrow> 'a smpl_buf option list \<Rightarrow>
    (bool \<times> 'a list list \<times> 'a smpl_buf option list) option" where
  "read_buffers len timestamp bufs [] = Some (True, bufs, [])"
| "read_buffers len timestamp [] (b # bs) = None"
| "read_buffers len timestamp (buf # bufs) (b # bs) =
     do { b \<leftarrow> b;
          let (rc, out, b) = sb_read len timestamp b;
          let buf = out @ drop (length out) buf;
          if rc < 0 \<or> rc \<noteq> int len then Some (False, buf # bufs, Some b # bs)
          else do { (ok, bufs, bs) \<leftarrow> read_buffers len timestamp bufs bs; Some (ok, buf # bufs, Some b # bs) } }"

text \<open>The flags are those for an overrun and an underrun. A packet without a time ends the program: the result is
  \<open>Inl\<close> of the exit code.\<close>

definition uh_readSamples :: "('h, 'a) uhd_lib \<Rightarrow> nat \<Rightarrow> nat \<Rightarrow> 'a list list \<Rightarrow> nat \<Rightarrow> bool \<times> bool \<Rightarrow> nat \<Rightarrow>
    ('h, 'a) uhd_device \<Rightarrow> ((int + int) \<times> 'a list list \<times> (bool \<times> bool) \<times> ('h, 'a) uhd_device) option" where
  "uh_readSamples E restart_fuel fuel bufs len flags timestamp d =
    (if length bufs \<noteq> uh_chans d then Some (Inr (- 1), bufs, flags, d)
     else
       let flags = (False, False); timestamp = u64_add timestamp (uh_ts_offset d)
       in do { b0 \<leftarrow> hd (uh_rx_buffers d @ [None]);
               if sb_avail_smpls timestamp b0 < 0 then Some (Inr 0, bufs, flags, d)
               else do {
                 (e, d) \<leftarrow> recv_loop E restart_fuel fuel len timestamp d;
                 case e of
                   Exited \<Rightarrow> Some (Inl (- 1), bufs, flags, d)
                 | Stopped \<Rightarrow> Some (Inr 0, bufs, flags, d)
                 | Enough \<Rightarrow>
                     do { (ok, bufs, bs) \<leftarrow> read_buffers len timestamp bufs (uh_rx_buffers d);
                          Some (Inr (if ok then int len else 0), bufs, flags, d\<lparr>uh_rx_buffers := bs\<rparr>) } } })"

section \<open>Sending\<close>

text \<open>While the transmitter is not aligned, the first call ends the burst and reports an underrun, the next ones are
  dropped, and the thirtieth starts a burst.\<close>

definition uh_writeSamples :: "('h, 'a) uhd_lib \<Rightarrow> 'a list list \<Rightarrow> nat \<Rightarrow> bool \<Rightarrow> nat \<Rightarrow> bool \<Rightarrow> ('h, 'a) uhd_device \<Rightarrow>
    int \<times> bool \<times> ('h, 'a) uhd_device" where
  "uh_writeSamples E bufs len underrun timestamp isControl d =
    (let md = \<lparr>txmd_time = from_ticks E timestamp (uh_tx_rate d), txmd_start_of_burst = False, txmd_end_of_burst = False\<rparr>;
         send = (\<lambda>md underrun d.
           let (num, h) = stream_send E bufs len md (uh_hw d) in (int num, underrun, d\<lparr>uh_hw := h\<rparr>))
     in if isControl then (0, False, d)
        else if length bufs \<noteq> uh_chans d then (- 1, False, d)
        else if uh_aligned d then send md False d
        else
          let d = d\<lparr>uh_drop_cnt := uh_drop_cnt d + 1\<rparr>
          in if uh_drop_cnt d = 1 then send (md\<lparr>txmd_end_of_burst := True\<rparr>) True d
             else if uh_drop_cnt d < 30 then (int len, False, d)
             else send (md\<lparr>txmd_start_of_burst := True\<rparr>) False (d\<lparr>uh_aligned := True, uh_drop_cnt := 0\<rparr>))"

definition uh_recv_async_msg :: "('h, 'a) uhd_lib \<Rightarrow> ('h, 'a) uhd_device \<Rightarrow> bool \<times> ('h, 'a) uhd_device" where
  "uh_recv_async_msg E d =
    (case recv_async E (uh_hw d) of
       (None, h) \<Rightarrow> (False, d\<lparr>uh_hw := h\<rparr>)
     | (Some md, h) \<Rightarrow>
         (True, if am_event_code md \<noteq> EV_BURST_ACK then d\<lparr>uh_hw := h, uh_aligned := False\<rparr> else d\<lparr>uh_hw := h\<rparr>))"

definition uh_updateAlignment :: "nat \<Rightarrow> ('h, 'a) uhd_device \<Rightarrow> bool \<times> ('h, 'a) uhd_device" where
  "uh_updateAlignment timestamp d = (True, d)"

section \<open>Tuning\<close>

text \<open>\<open>!chan\<close> is the other of two channels.\<close>

definition other_chan :: "nat \<Rightarrow> nat" where
  "other_chan chan = (if chan = 0 then 1 else 0)"

definition uh_select_freq :: "('h, 'a) uhd_lib \<Rightarrow> real \<Rightarrow> nat \<Rightarrow> bool \<Rightarrow> ('h, 'a) uhd_device \<Rightarrow> tune_req option" where
  "uh_select_freq E freq chan tx d =
    (let treq = new_tune_req E freq
     in if uh_dev_type d = UMTRX then
          if uh_lo_offset d \<noteq> 0 then Some (new_tune_req_lo E freq (uh_lo_offset d))
          else Some (treq\<lparr>tq_target_freq := freq, tq_rf_manual := True, tq_rf_freq := freq, tq_dsp_manual := True, tq_dsp_freq := 0\<rparr>)
        else if uh_chans d = 1 then
          if uh_lo_offset d = 0 then Some treq else Some (new_tune_req_lo E freq (uh_lo_offset d))
        else if uh_dev_type d \<noteq> B210 \<or> uh_chans d > 2 \<or> chan > 1 then Some treq
        else
          let other = (if tx then uh_tx_freqs d else uh_rx_freqs d) ! other_chan chan
          in if other < 10 then Some treq
             else do { desc \<leftarrow> dev_param_at (uh_old d) B210 (uh_tx_sps d) (uh_rx_sps d);
                       if \<bar>other - freq\<bar> > dd_mcr desc then Some treq
                       else Some (treq\<lparr>tq_rf_manual := True, tq_target_freq := freq, tq_rf_freq := (other + freq) / 2\<rparr>) })"

definition tune_chan :: "('h, 'a) uhd_lib \<Rightarrow> tune_req \<Rightarrow> nat \<Rightarrow> bool \<Rightarrow> ('h, 'a) uhd_device \<Rightarrow> ('h, 'a) uhd_device" where
  "tune_chan E treq chan tx d =
    (if tx then let h = tune_tx E treq chan (uh_hw d) in d\<lparr>uh_hw := h, uh_tx_freqs := (uh_tx_freqs d)[chan := tuned_tx E chan h]\<rparr>
     else let h = tune_rx E treq chan (uh_hw d) in d\<lparr>uh_hw := h, uh_rx_freqs := (uh_rx_freqs d)[chan := tuned_rx E chan h]\<rparr>)"

text \<open>A manual choice of the RF frequency places it between the two channels, so the other one is tuned again.\<close>

definition uh_set_freq :: "('h, 'a) uhd_lib \<Rightarrow> real \<Rightarrow> nat \<Rightarrow> bool \<Rightarrow> ('h, 'a) uhd_device \<Rightarrow>
    (bool \<times> ('h, 'a) uhd_device) option" where
  "uh_set_freq E freq chan tx d =
    do { treq \<leftarrow> uh_select_freq E freq chan tx d;
         let d = tune_chan E treq chan tx d;
         if uh_chans d = 1 \<or> uh_chans d = 2 \<and> uh_dev_type d = UMTRX then Some (True, d)
         else if tq_rf_manual treq then
           do { treq \<leftarrow> uh_select_freq E ((if tx then uh_tx_freqs d else uh_rx_freqs d) ! other_chan chan) (other_chan chan) tx d;
                Some (True, tune_chan E treq (other_chan chan) tx d) }
         else Some (True, d) }"

definition uh_setTxFreq :: "('h, 'a) uhd_lib \<Rightarrow> real \<Rightarrow> nat \<Rightarrow> ('h, 'a) uhd_device \<Rightarrow> (bool \<times> ('h, 'a) uhd_device) option" where
  "uh_setTxFreq E wFreq chan d =
    (if chan \<ge> length (uh_tx_freqs d) then Some (False, d) else uh_set_freq E wFreq chan True d)"

definition uh_setRxFreq :: "('h, 'a) uhd_lib \<Rightarrow> real \<Rightarrow> nat \<Rightarrow> ('h, 'a) uhd_device \<Rightarrow> (bool \<times> ('h, 'a) uhd_device) option" where
  "uh_setRxFreq E wFreq chan d =
    (if chan \<ge> length (uh_rx_freqs d) then Some (False, d) else uh_set_freq E wFreq chan False d)"

definition uh_getTxFreq :: "nat \<Rightarrow> ('h, 'a) uhd_device \<Rightarrow> real" where
  "uh_getTxFreq chan d = (if chan \<ge> length (uh_tx_freqs d) then 0 else uh_tx_freqs d ! chan)"

definition uh_getRxFreq :: "nat \<Rightarrow> ('h, 'a) uhd_device \<Rightarrow> real" where
  "uh_getRxFreq chan d = (if chan \<ge> length (uh_rx_freqs d) then 0 else uh_rx_freqs d ! chan)"

section \<open>Constants of the device\<close>

definition uh_requiresRadioAlign :: bool where
  "uh_requiresRadioAlign = False"

definition uh_minLatency :: gsm_time where
  "uh_minLatency = Time 6 7"

definition uh_initialWriteTimestamp :: "('h, 'a) uhd_device \<Rightarrow> nat" where
  "uh_initialWriteTimestamp d =
    (if uh_iface d = MULTI_ARFCN \<or> uh_rx_sps d = uh_tx_sps d then uh_ts_initial d
     else (uh_ts_initial d * uh_tx_sps d) mod two64)"

definition uh_initialReadTimestamp :: "('h, 'a) uhd_device \<Rightarrow> nat" where
  "uh_initialReadTimestamp d = uh_ts_initial d"

definition uh_fullScaleInputValue :: "('h, 'a) uhd_device \<Rightarrow> real" where
  "uh_fullScaleInputValue d =
    (if uh_dev_type d = LIMESDR then 32767 * LIMESDR_TX_AMPL
     else if uh_dev_type d = UMTRX then 32767 * UMTRX_TX_AMPL else 32767 * USRP_TX_AMPL)"

definition uh_fullScaleOutputValue :: real where
  "uh_fullScaleOutputValue = 32767"

text \<open>The output stream is made with the text \<open>UHD: \<close>, but it writes from its beginning: what is written replaces it.\<close>

definition over_prefix :: "string \<Rightarrow> string \<Rightarrow> string" where
  "over_prefix pre out = out @ drop (length out) pre"

definition rx_error_text :: "(nat \<Rightarrow> string) \<Rightarrow> rx_error \<Rightarrow> string" where
  "rx_error_text show_num e =
    (case e of EC_NONE \<Rightarrow> ''No error''
     | EC_TIMEOUT \<Rightarrow> ''No packet received, implementation timed-out''
     | EC_LATE_COMMAND \<Rightarrow> ''A stream command was issued in the past''
     | EC_BROKEN_CHAIN \<Rightarrow> ''Expected another stream command''
     | EC_OVERFLOW \<Rightarrow> ''An internal receive buffer has filled''
     | EC_ALIGNMENT \<Rightarrow> ''Multi-channel alignment failed''
     | EC_BAD_PACKET \<Rightarrow> ''The packet could not be parsed''
     | EC_OTHER n \<Rightarrow> ''Unknown error '' @ show_num n)"

definition async_event_text :: "(nat \<Rightarrow> string) \<Rightarrow> async_event \<Rightarrow> string" where
  "async_event_text show_num e =
    (case e of EV_BURST_ACK \<Rightarrow> ''A packet was successfully transmitted''
     | EV_UNDERFLOW \<Rightarrow> ''An internal send buffer has emptied''
     | EV_SEQ_ERROR \<Rightarrow> ''Packet loss between host and device''
     | EV_TIME_ERROR \<Rightarrow> ''Packet time was too late or too early''
     | EV_UNDERFLOW_IN_PACKET \<Rightarrow> ''Underflow occurred inside a packet''
     | EV_SEQ_ERROR_IN_BURST \<Rightarrow> ''Packet loss within a burst''
     | EV_OTHER n \<Rightarrow> ''Unknown error '' @ show_num n)"

definition at_secs :: "(real \<Rightarrow> string) \<Rightarrow> bool \<Rightarrow> real \<Rightarrow> string" where
  "at_secs secs has t = (if has then '' at '' @ secs t @ '' sec.'' else [])"

definition uh_rx_str_code :: "('h, 'a) uhd_lib \<Rightarrow> (nat \<Rightarrow> string) \<Rightarrow> rx_md \<Rightarrow> string" where
  "uh_rx_str_code E show_num md =
    over_prefix ''UHD: '' (rx_error_text show_num (md_error_code md) @ at_secs (show_secs E) (md_has_time_spec md) (md_time_spec md))"

definition uh_async_str_code :: "('h, 'a) uhd_lib \<Rightarrow> (nat \<Rightarrow> string) \<Rightarrow> async_md \<Rightarrow> string" where
  "uh_async_str_code E show_num md =
    over_prefix ''UHD: '' (async_event_text show_num (am_event_code md) @ at_secs (show_secs E) (am_has_time_spec md) (am_time_spec md))"

section \<open>Realignment after an underrun\<close>

text \<open>A run of calls of \<open>writeSamples\<close>, each with its buffers, length and time, and what they return.\<close>

fun uh_write_run :: "('h, 'a) uhd_lib \<Rightarrow> ('a list list \<times> nat \<times> nat) list \<Rightarrow> ('h, 'a) uhd_device \<Rightarrow>
    (int \<times> bool) list \<times> ('h, 'a) uhd_device" where
  "uh_write_run E [] d = ([], d)"
| "uh_write_run E ((bufs, len, ts) # calls) d =
     (let (n, u, d) = uh_writeSamples E bufs len False ts False d; (rs, d) = uh_write_run E calls d in ((n, u) # rs, d))"

text \<open>What the library is asked to send for a call.\<close>

definition uh_send :: "('h, 'a) uhd_lib \<Rightarrow> real \<Rightarrow> bool \<Rightarrow> bool \<Rightarrow> 'a list list \<times> nat \<times> nat \<Rightarrow> 'h \<Rightarrow> nat \<times> 'h" where
  "uh_send E rate sob eob c h =
    (case c of (bufs, len, ts) \<Rightarrow> stream_send E bufs len
      \<lparr>txmd_time = from_ticks E ts rate, txmd_start_of_burst = sob, txmd_end_of_burst = eob\<rparr> h)"

lemma write_run_append:
  "uh_write_run E (xs @ ys) d =
    (let (rs, d1) = uh_write_run E xs d; (rs', d2) = uh_write_run E ys d1 in (rs @ rs', d2))"
  by (induction xs arbitrary: d) (auto simp: Let_def split: prod.splits)

lemma write_run_dropped:
  assumes "\<not> uh_aligned d" and "0 < uh_drop_cnt d" and "uh_drop_cnt d + length calls < 30"
    and "\<forall>c \<in> set calls. length (fst c) = uh_chans d"
  shows "uh_write_run E calls d =
    (map (\<lambda>c. (int (fst (snd c)), False)) calls, d\<lparr>uh_drop_cnt := uh_drop_cnt d + length calls\<rparr>)"
  using assms
proof (induction calls arbitrary: d)
  case (Cons c calls)
  obtain bufs len ts where c: "c = (bufs, len, ts)" by (rule prod_cases3)
  let ?d = "d\<lparr>uh_drop_cnt := uh_drop_cnt d + 1\<rparr>"
  have w: "uh_writeSamples E bufs len False ts False d = (int len, False, ?d)"
    using Cons.prems c by (simp add: uh_writeSamples_def Let_def)
  have "uh_write_run E calls ?d = (map (\<lambda>c. (int (fst (snd c)), False)) calls, ?d\<lparr>uh_drop_cnt := uh_drop_cnt ?d + length calls\<rparr>)"
    by (rule Cons.IH) (use Cons.prems in simp_all)
  then show ?case using w c by simp
qed simp

text \<open>C26. After an underrun, when the transmitter is not aligned, thirty calls of \<open>writeSamples\<close> realign it: the first
  one ends the burst on the air and reports the underrun, the next twenty-eight send nothing and pretend to have sent
  all, the thirtieth starts a new burst, and from then on every call sends.\<close>

theorem uhd_realign:
  assumes "\<not> uh_aligned d" and "uh_drop_cnt d = 0" and "\<forall>c \<in> set ([c0] @ cs @ [c1]). length (fst c) = uh_chans d"
    and "length cs = 28"
  shows "let rate = uh_tx_rate d;
             (n0, h0) = uh_send E rate False True c0 (uh_hw d);
             (n1, h1) = uh_send E rate True False c1 h0;
             d1 = d\<lparr>uh_hw := h1, uh_aligned := True, uh_drop_cnt := 0\<rparr>
    in uh_write_run E ([c0] @ cs @ [c1]) d =
         ([(int n0, True)] @ map (\<lambda>c. (int (fst (snd c)), False)) cs @ [(int n1, False)], d1) \<and>
       (\<forall>bufs len ts. length bufs = uh_chans d \<longrightarrow>
         uh_writeSamples E bufs len False ts False d1 =
           (let (n, h) = uh_send E rate False False (bufs, len, ts) h1 in (int n, False, d1\<lparr>uh_hw := h\<rparr>)))"
proof -
  obtain bufs len ts where c0: "c0 = (bufs, len, ts)" by (rule prod_cases3)
  obtain bufs' len' ts' where c1: "c1 = (bufs', len', ts')" by (rule prod_cases3)
  obtain n0 h0 where s0: "uh_send E (uh_tx_rate d) False True c0 (uh_hw d) = (n0, h0)" by fastforce
  obtain n1 h1 where s1: "uh_send E (uh_tx_rate d) True False c1 h0 = (n1, h1)" by fastforce
  let ?da = "d\<lparr>uh_hw := h0, uh_drop_cnt := 1\<rparr>"
  let ?db = "?da\<lparr>uh_drop_cnt := 29\<rparr>"
  let ?dc = "d\<lparr>uh_hw := h1, uh_aligned := True, uh_drop_cnt := 0\<rparr>"
  have a: "uh_write_run E [c0] d = ([(int n0, True)], ?da)"
    using assms s0 unfolding c0 by (simp add: uh_writeSamples_def uh_send_def Let_def)
  have b: "uh_write_run E cs ?da = (map (\<lambda>c. (int (fst (snd c)), False)) cs, ?db)"
    using write_run_dropped [of ?da cs E] assms by simp
  have c: "uh_write_run E [c1] ?db = ([(int n1, False)], ?dc)"
    using assms s1 unfolding c1 by (simp add: uh_writeSamples_def uh_send_def Let_def)
  have "uh_writeSamples E bufs len False ts False ?dc =
      (let (n, h) = uh_send E (uh_tx_rate d) False False (bufs, len, ts) h1 in (int n, False, ?dc\<lparr>uh_hw := h\<rparr>))"
    if "length bufs = uh_chans d" for bufs len ts
    using that by (simp add: uh_writeSamples_def uh_send_def Let_def)
  then show ?thesis unfolding write_run_append a b c s0 Let_def prod.case s1 by simp
qed

theorem uhd_realign_witness:
  "let E = (undefined :: (nat list, nat) uhd_lib)\<lparr>from_ticks := (\<lambda>t r. real t),
         stream_send := (\<lambda>b n md h. (n, h @ [(if txmd_end_of_burst md then 1 else 0) + (if txmd_start_of_burst md then 2 else 0)]))\<rparr>;
       d = (uh_new 4 4 NORMAL 1 0 [] [] (undefined :: (nat list, nat) uhd_device))\<lparr>uh_hw := []\<rparr>
   in uh_hw (snd (uh_write_run E (replicate 30 ([[]], 5, 0)) d)) = [1, 2]"
proof -
  let ?E = "(undefined :: (nat list, nat) uhd_lib)\<lparr>from_ticks := (\<lambda>t r. real t),
     stream_send := (\<lambda>b n md h. (n, h @ [(if txmd_end_of_burst md then 1 else 0) + (if txmd_start_of_burst md then 2 else 0)]))\<rparr>"
  let ?d = "(uh_new 4 4 NORMAL 1 0 [] [] (undefined :: (nat list, nat) uhd_device))\<lparr>uh_hw := []\<rparr>"
  let ?c = "([[]], 5, 0) :: nat list list \<times> nat \<times> nat"
  have "replicate 30 ?c = [?c] @ replicate 28 ?c @ [?c]" by (simp add: replicate_append_same numeral_eq_Suc)
  moreover have "\<not> uh_aligned ?d" "uh_drop_cnt ?d = 0" "\<forall>c \<in> set ([?c] @ replicate 28 ?c @ [?c]). length (fst c) = uh_chans ?d"
    by (auto simp: uh_new_def)
  ultimately show ?thesis
    using uhd_realign [of ?d ?c "replicate 28 ?c" ?c ?E] by (simp add: Let_def uh_send_def)
qed

section \<open>Two channels around one centre\<close>

text \<open>A device that tunes to what it is asked for, one channel at a time.\<close>

definition tunes_exactly :: "('h, 'a) uhd_lib \<Rightarrow> bool" where
  "tunes_exactly E = (\<forall>q c h. tuned_tx E c (tune_tx E q c h) = tq_target_freq q \<and> tuned_rx E c (tune_rx E q c h) = tq_target_freq q)"



end
