(* ===== verification/UhdRx.thy ===== *)
theory UhdRx
  imports Uhd
begin

text \<open>
  Reading from a UHD device: packets of a device that delivers a stream go through the sample buffers of the channels,
  and consecutive reads give the stream of each channel.
\<close>

text \<open>A write with a new sample reports the length or an overflow.\<close>

lemma sb_write_code:
  assumes "sb_ok b" and "buf \<noteq> []" and "length buf < sb_buf_len b" and "sb_time_start b \<le> ts" and "ts + length buf \<le> max_samples"
    and "sb_time_end b < ts + length buf"
  shows "fst (sb_write buf ts b) = int (length buf) \<or> fst (sb_write buf ts b) = sb_err_code ERROR_OVERFLOW"
proof -
  have u: "u64_add ts (length buf) = ts + length buf" using assms(5) by (intro u64_add_id) linarith
  have t: "\<not> ts + length buf \<le> sb_time_start b" using assms(1,6) by (simp add: sb_ok_def)
  show ?thesis unfolding sb_write_def Let_def u using assms(2,3,6) t by simp
qed

text \<open>A buffer that holds the stream \<open>s\<close> up to time \<open>e\<close>.\<close>

definition holds_stream :: "nat \<Rightarrow> (nat \<Rightarrow> 'a) \<Rightarrow> nat \<Rightarrow> 'a smpl_buf \<Rightarrow> bool" where
  "holds_stream ts s e b =
    (sb_ok b \<and> sb_time_start b = ts \<and> sb_time_end b = e \<and> sb_buf_len b = SAMPLE_BUF_SZ div 4 \<and>
     (\<forall>t. ts \<le> t \<longrightarrow> t < e \<longrightarrow> sb_at b t = s t))"

lemma holds_write:
  assumes "holds_stream ts s e b" and "sb_data_start b \<noteq> 0" and "0 < n" and "e + n - ts \<le> 262144" and "n < 262144"
    and "e + n \<le> max_samples"
  shows "case sb_write (map s [e..<e + n]) e b of (rc, b') \<Rightarrow>
    (0 \<le> rc \<or> rc = sb_err_code ERROR_OVERFLOW) \<and> holds_stream ts s (e + n) b' \<and> sb_data_start b' = sb_data_start b"
proof -
  let ?buf = "map s [e..<e + n]"
  have ok: "sb_ok b" and te: "sb_time_end b = e" "sb_time_start b = ts" and bl: "sb_buf_len b = 262144"
    and h: "\<And>t. ts \<le> t \<Longrightarrow> t < e \<Longrightarrow> sb_at b t = s t"
    using assms(1) by (auto simp: holds_stream_def SAMPLE_BUF_SZ_def)
  have tse: "ts \<le> e" using ok te by (simp add: sb_ok_def)
  have ne: "?buf \<noteq> []" and len: "length ?buf < sb_buf_len b" using assms(3,5) bl by simp_all
  have p: "sb_time_start b \<le> e" "e + length ?buf \<le> max_samples" "sb_time_end b < e + length ?buf"
    using te tse assms(3,6) by simp_all
  have fit: "e + length ?buf - sb_time_start b \<le> sb_buf_len b" using assms(4) te bl by simp
  note w = smpl_buf_write [OF ok assms(2) ne len p fit]
  note c = sb_write_code [OF ok ne len p]
  note b' = sb_write_ok [OF ok ne len p]
  have "sb_at (snd (sb_write ?buf e b)) t = s t" if "ts \<le> t" "t < e + n" for t
    using w that te(2) h [of t] by (cases "e \<le> t") auto
  then have "holds_stream ts s (e + n) (snd (sb_write ?buf e b))"
    using w te bl unfolding holds_stream_def b' by (simp add: SAMPLE_BUF_SZ_def)
  moreover have "sb_data_start (snd (sb_write ?buf e b)) = sb_data_start b" unfolding b' using assms(2) by simp
  ultimately show ?thesis using c by (auto simp: split_beta)
qed

lemma holds_read:
  assumes "holds_stream ts s e b" and "0 < len" and "ts + len \<le> e" and "len < 262144"
  shows "\<exists>b'. sb_read len ts b = (int len, map s [ts..<ts + len], b') \<and> holds_stream (ts + len) s e b'"
proof -
  have ok: "sb_ok b" and te: "sb_time_end b = e" "sb_time_start b = ts" and bl: "sb_buf_len b = 262144"
    and h: "\<And>t. ts \<le> t \<Longrightarrow> t < e \<Longrightarrow> sb_at b t = s t"
    using assms(1) by (auto simp: holds_stream_def SAMPLE_BUF_SZ_def)
  obtain rc buf b' where r: "sb_read len ts b = (rc, buf, b')" by (rule prod_cases3)
  have p: "sb_time_start b \<le> ts" "ts < sb_time_end b" "ts + len \<le> sb_time_end b" "len < sb_buf_len b"
    using te assms(2-4) bl by simp_all
  have w: "rc = int len" "buf = map (sb_at b) [ts..<ts + len]" "sb_ok b'" "\<And>t. ts + len \<le> t \<Longrightarrow> sb_at b' t = sb_at b t"
    using smpl_buf_read [OF ok p] unfolding r by auto
  have m: "map (sb_at b) [ts..<ts + len] = map s [ts..<ts + len]" using h assms(3) by simp
  have "e < two64" using ok te by (simp add: sb_ok_def)
  then have "u64_add ts len = ts + len" using assms(3) by (intro u64_add_id) simp
  then have "sb_time_start b' = ts + len" "sb_time_end b' = e" "sb_buf_len b' = 262144"
    using r p te bl unfolding sb_read_def Let_def by (auto split: if_splits)
  moreover have "sb_at b' t = s t" if "ts + len \<le> t" "t < e" for t using w(4) [OF that(1)] h that by simp
  ultimately have "holds_stream (ts + len) s e b'" using w(3) by (simp add: holds_stream_def SAMPLE_BUF_SZ_def)
  then show ?thesis using r w(1,2) m by simp
qed

text \<open>A device that delivers the stream \<open>s c\<close> of each channel \<open>c\<close> in full packets, with their times; ticks and times
  correspond.\<close>

definition uhd_delivers :: "('h, 'a) uhd_lib \<Rightarrow> (nat \<Rightarrow> nat \<Rightarrow> 'a) \<Rightarrow> ('h \<Rightarrow> nat) \<Rightarrow> real \<Rightarrow> nat \<Rightarrow> nat \<Rightarrow> bool" where
  "uhd_delivers E s pos rate spp chans =
    ((\<forall>h. \<exists>pkts md h'. stream_recv E spp h = (pkts, spp, md, h') \<and> md_has_time_spec md \<and>
        md_time_spec md = from_ticks E (pos h) rate \<and> pos h' = pos h + spp \<and>
        pkts = map (\<lambda>c. map (s c) [pos h..<pos h + spp]) [0..<chans]) \<and>
     (\<forall>a. to_ticks E rate (from_ticks E a rate) = a) \<and>
     (\<forall>a b. a \<le> b \<longrightarrow> from_ticks E a rate \<le> from_ticks E b rate))"

definition uhd_sync :: "('h, 'a) uhd_lib \<Rightarrow> (nat \<Rightarrow> nat \<Rightarrow> 'a) \<Rightarrow> nat \<Rightarrow> nat \<Rightarrow> ('h, 'a) uhd_device \<Rightarrow> bool" where
  "uhd_sync E s ts e d =
    (0 < uh_chans d \<and> length (uh_rx_buffers d) = uh_chans d \<and>
     (\<forall>c < uh_chans d. \<exists>b. uh_rx_buffers d ! c = Some b \<and> holds_stream ts (s c) e b) \<and>
     (\<exists>p. uh_prev_ts d = from_ticks E p (uh_rx_rate d) \<and> p \<le> e \<and> u64_sub e p \<noteq> u64_sub (uh_rx_spp d) 1))"

text \<open>No buffer starts at position 0, which \<open>write\<close> takes for a buffer that was never written.\<close>

definition off_zero :: "('h, 'a) uhd_device \<Rightarrow> bool" where
  "off_zero d = (\<forall>b. Some b \<in> set (uh_rx_buffers d) \<longrightarrow> sb_data_start b \<noteq> 0)"

lemma write_buffers_stream:
  assumes "\<forall>c < length bs. \<exists>b. bs ! c = Some b \<and> holds_stream ts (f c) e b \<and> sb_data_start b \<noteq> 0"
    and "0 < n" and "e + n - ts \<le> 262144" and "n < 262144" and "e + n \<le> max_samples"
  shows "\<exists>bs'. write_buffers (map (\<lambda>c. map (f c) [e..<e + n]) [0..<length bs]) n e bs = Some (True, bs') \<and> length bs' = length bs \<and>
    (\<forall>c < length bs. \<exists>b. bs' ! c = Some b \<and> holds_stream ts (f c) (e + n) b \<and> sb_data_start b \<noteq> 0)"
  using assms(1)
proof (induction bs arbitrary: f)
  case (Cons b0 bs)
  obtain b where b: "b0 = Some b" "holds_stream ts (f 0) e b" "sb_data_start b \<noteq> 0" using Cons.prems by fastforce
  obtain rc b' where w: "sb_write (map (f 0) [e..<e + n]) e b = (rc, b')" by fastforce
  have h: "0 \<le> rc \<or> rc = sb_err_code ERROR_OVERFLOW" "holds_stream ts (f 0) (e + n) b'" "sb_data_start b' \<noteq> 0"
    using holds_write [OF b(2,3) assms(2-5)] b(3) unfolding w by simp_all
  have "\<forall>c < length bs. \<exists>b. bs ! c = Some b \<and> holds_stream ts (f (Suc c)) e b \<and> sb_data_start b \<noteq> 0"
    using Cons.prems by (metis Suc_less_eq length_Cons nth_Cons_Suc)
  from Cons.IH [OF this] obtain bs' where r: "write_buffers (map (\<lambda>c. map (f (Suc c)) [e..<e + n]) [0..<length bs]) n e bs = Some (True, bs')"
    "length bs' = length bs" "\<forall>c < length bs. \<exists>b. bs' ! c = Some b \<and> holds_stream ts (f (Suc c)) (e + n) b \<and> sb_data_start b \<noteq> 0"
    by auto
  have m: "map (\<lambda>c. map (f c) [e..<e + n]) [0..<length (b0 # bs)] =
      map (f 0) [e..<e + n] # map (\<lambda>c. map (f (Suc c)) [e..<e + n]) [0..<length bs]"
    by (simp add: map_upt_Suc del: upt_Suc)
  have t: "take n (map (f 0) [e..<e + n]) = map (f 0) [e..<e + n]" by simp
  have "write_buffers (map (\<lambda>c. map (f c) [e..<e + n]) [0..<length (b0 # bs)]) n e (b0 # bs) = Some (True, Some b' # bs')"
    unfolding m unfolding b(1) using h(1) r(1) w by (auto simp: t simp del: upt_Suc)
  moreover have "\<exists>b. (Some b' # bs') ! c = Some b \<and> holds_stream ts (f c) (e + n) b \<and> sb_data_start b \<noteq> 0"
    if "c < length (b0 # bs)" for c
    using that h(2,3) r(3) by (cases c) auto
  ultimately show ?case using r(2) by auto
qed simp

lemma read_buffers_stream:
  assumes "\<forall>c < length bs. \<exists>b. bs ! c = Some b \<and> holds_stream ts (f c) e b" and "length bufs = length bs"
    and "\<forall>buf \<in> set bufs. length buf = len" and "0 < len" and "ts + len \<le> e" and "len < 262144"
  shows "\<exists>bs'. read_buffers len ts bufs bs = Some (True, map (\<lambda>c. map (f c) [ts..<ts + len]) [0..<length bs], bs') \<and>
    length bs' = length bs \<and> (\<forall>c < length bs. \<exists>b. bs' ! c = Some b \<and> holds_stream (ts + len) (f c) e b)"
  using assms(1-3)
proof (induction bs arbitrary: f bufs)
  case (Cons b0 bs)
  obtain buf bufs' where bf: "bufs = buf # bufs'" "length buf = len" "length bufs' = length bs" "\<forall>buf \<in> set bufs'. length buf = len"
    using Cons.prems(2,3) by (cases bufs) auto
  obtain b where b: "b0 = Some b" "holds_stream ts (f 0) e b" using Cons.prems(1) by fastforce
  obtain b' where r: "sb_read len ts b = (int len, map (f 0) [ts..<ts + len], b')" "holds_stream (ts + len) (f 0) e b'"
    using holds_read [OF b(2) assms(4-6)] by blast
  have "\<forall>c < length bs. \<exists>b. bs ! c = Some b \<and> holds_stream ts (f (Suc c)) e b"
    using Cons.prems(1) by (metis Suc_less_eq length_Cons nth_Cons_Suc)
  from Cons.IH [OF this bf(3,4)] obtain bs' where i: "read_buffers len ts bufs' bs =
      Some (True, map (\<lambda>c. map (f (Suc c)) [ts..<ts + len]) [0..<length bs], bs')" "length bs' = length bs"
    "\<forall>c < length bs. \<exists>b. bs' ! c = Some b \<and> holds_stream (ts + len) (f (Suc c)) e b" by auto
  have m: "map (\<lambda>c. map (f c) [ts..<ts + len]) [0..<length (b0 # bs)] =
      map (f 0) [ts..<ts + len] # map (\<lambda>c. map (f (Suc c)) [ts..<ts + len]) [0..<length bs]"
    by (simp add: map_upt_Suc del: upt_Suc)
  have "read_buffers len ts bufs (b0 # bs) = Some (True, map (\<lambda>c. map (f c) [ts..<ts + len]) [0..<length (b0 # bs)], Some b' # bs')"
    unfolding m bf(1) unfolding b(1) using i(1) r(1) bf(2) by (simp del: upt_Suc)
  moreover have "\<exists>b. (Some b' # bs') ! c = Some b \<and> holds_stream (ts + len) (f c) e b" if "c < length (b0 # bs)" for c
    using that r(2) i(3) by (cases c) auto
  ultimately show ?case using i(2) by auto
qed simp

text \<open>The part of the state that the loop keeps.\<close>

definition rx_same :: "('h, 'a) uhd_device \<Rightarrow> ('h, 'a) uhd_device \<Rightarrow> bool" where
  "rx_same d d' = (uh_chans d' = uh_chans d \<and> uh_rx_rate d' = uh_rx_rate d \<and> uh_rx_spp d' = uh_rx_spp d \<and> uh_ts_offset d' = uh_ts_offset d)"

lemma sync_avail:
  assumes "uhd_sync E s ts e d"
  obtains b where "hd (uh_rx_buffers d @ [None]) = Some b" and "sb_avail_smpls ts b = (if ts < e then int (e - ts) else 0)" and "ts \<le> e"
proof -
  obtain b where b: "uh_rx_buffers d ! 0 = Some b" "holds_stream ts (s 0) e b" using assms by (auto simp: uhd_sync_def)
  have "uh_rx_buffers d \<noteq> []" using assms by (auto simp: uhd_sync_def)
  then have "hd (uh_rx_buffers d @ [None]) = Some b" using b(1) by (cases "uh_rx_buffers d") simp_all
  moreover have "sb_time_start b = ts" "sb_time_end b = e" "ts \<le> e" using b(2) by (auto simp: holds_stream_def sb_ok_def)
  ultimately show thesis by (intro that) (auto simp: sb_avail_smpls_def)
qed

lemma recv_stream_packet:
  assumes "uhd_delivers E s pos (uh_rx_rate d) (uh_rx_spp d) (uh_chans d)" and "uhd_sync E s ts e d" and "off_zero d"
    and "e = pos (uh_hw d)" and "0 < uh_rx_spp d" and "e + uh_rx_spp d - ts \<le> 262144" and "uh_rx_spp d < 262144"
    and "e + uh_rx_spp d \<le> max_samples" and "int len > (if ts < e then int (e - ts) else 0)"
  obtains d' where "recv_loop E k (Suc fuel) len ts d = recv_loop E k fuel len ts d'" and "uhd_sync E s ts (e + uh_rx_spp d) d'"
    and "off_zero d'" and "e + uh_rx_spp d = pos (uh_hw d')" and "rx_same d d'"
proof -
  let ?n = "uh_rx_spp d"
  obtain pkts md h where r: "stream_recv E ?n (uh_hw d) = (pkts, ?n, md, h)" "md_has_time_spec md"
    "md_time_spec md = from_ticks E e (uh_rx_rate d)" "pos h = e + ?n"
    "pkts = map (\<lambda>c. map (s c) [e..<e + ?n]) [0..<uh_chans d]"
    using assms(1,4) unfolding uhd_delivers_def by metis
  have tt: "to_ticks E (uh_rx_rate d) (from_ticks E a (uh_rx_rate d)) = a" for a using assms(1) by (simp add: uhd_delivers_def)
  obtain p where p: "uh_prev_ts d = from_ticks E p (uh_rx_rate d)" "p \<le> e" "u64_sub e p \<noteq> u64_sub ?n 1"
    using assms(2) by (auto simp: uhd_sync_def)
  have mono: "uh_prev_ts d \<le> from_ticks E e (uh_rx_rate d)" using assms(1) p by (simp add: uhd_delivers_def)
  let ?d1 = "d\<lparr>uh_hw := h, uh_rx_pkt_cnt := u64_add (uh_rx_pkt_cnt d) 1\<rparr>"
  let ?d2 = "?d1\<lparr>uh_prev_ts := md_time_spec md\<rparr>"
  have ck: "uh_check_rx_md_err E md ?n ?d1 = (None, md, ?d2)"
    using assms(5) r(2,3) mono p tt by (simp add: uh_check_rx_md_err_def Let_def)
  have L: "length (uh_rx_buffers d) = uh_chans d" using assms(2) by (simp add: uhd_sync_def)
  have "\<exists>b. uh_rx_buffers d ! c = Some b \<and> holds_stream ts (s c) e b \<and> sb_data_start b \<noteq> 0" if "c < uh_chans d" for c
  proof -
    obtain b where b: "uh_rx_buffers d ! c = Some b" "holds_stream ts (s c) e b" using assms(2) \<open>c < uh_chans d\<close> by (auto simp: uhd_sync_def)
    then have "Some b \<in> set (uh_rx_buffers d)" using that L by (metis nth_mem)
    then show ?thesis using b assms(3) by (auto simp: off_zero_def)
  qed
  then obtain bs where bs: "write_buffers pkts ?n e (uh_rx_buffers d) = Some (True, bs)" "length bs = uh_chans d"
    "\<forall>c < uh_chans d. \<exists>b. bs ! c = Some b \<and> holds_stream ts (s c) (e + ?n) b \<and> sb_data_start b \<noteq> 0"
    using write_buffers_stream [of "uh_rx_buffers d" ts s e ?n] assms(5-8) L r(5) by auto
  let ?d' = "?d2\<lparr>uh_rx_buffers := bs\<rparr>"
  obtain b0 where b0: "hd (uh_rx_buffers d @ [None]) = Some b0" "sb_avail_smpls ts b0 = (if ts < e then int (e - ts) else 0)"
    by (rule sync_avail [OF assms(2)])
  show thesis
  proof (rule that [of ?d'])
    have na: "\<not> int len \<le> sb_avail_smpls ts b0" using b0(2) assms(9) by simp
    show "recv_loop E k (Suc fuel) len ts d = recv_loop E k fuel len ts ?d'"
      unfolding recv_loop.simps b0(1) using na r(1) ck bs(1) r(3) tt by simp
    have "u64_sub (e + ?n) e \<noteq> u64_sub ?n 1"
    proof -
      have "u64_sub (e + ?n) e = ?n" using assms(8) by (subst u64_sub_id) simp_all
      moreover have "u64_sub ?n 1 = ?n - 1" using assms(5,7) by (intro u64_sub_id) simp_all
      ultimately show ?thesis using assms(5) by simp
    qed
    then show "uhd_sync E s ts (e + ?n) ?d'"
      using assms(2) bs(2,3) r(3) unfolding uhd_sync_def by (auto intro!: exI [of _ e])
    have "sb_data_start b \<noteq> 0" if "Some b \<in> set bs" for b using that bs(2,3) by (metis in_set_conv_nth option.inject)
    then show "off_zero ?d'" by (simp add: off_zero_def)
    show "e + ?n = pos (uh_hw ?d')" using r(4) by simp
    show "rx_same d ?d'" by (simp add: rx_same_def)
  qed
qed

lemma recv_stream:
  assumes "uhd_delivers E s pos (uh_rx_rate d) (uh_rx_spp d) (uh_chans d)" and "uhd_sync E s ts e d" and "off_zero d"
    and "e = pos (uh_hw d)" and "0 < uh_rx_spp d" and "len + uh_rx_spp d \<le> 262144" and "0 < len"
    and "ts + len + uh_rx_spp d \<le> max_samples" and "ts + len - e < fuel"
  shows "\<exists>d' e'. recv_loop E k fuel len ts d = Some (Enough, d') \<and> uhd_sync E s ts e' d' \<and> e' = pos (uh_hw d') \<and>
    ts + len \<le> e' \<and> rx_same d d'"
  using assms
proof (induction fuel arbitrary: d e)
  case (Suc fuel)
  obtain b0 where b0: "hd (uh_rx_buffers d @ [None]) = Some b0" "sb_avail_smpls ts b0 = (if ts < e then int (e - ts) else 0)" "ts \<le> e"
    by (rule sync_avail [OF Suc.prems(2)])
  show ?case
  proof (cases "ts + len \<le> e")
    case True
    then have "int len \<le> sb_avail_smpls ts b0" using b0(2) Suc.prems(7) by auto
    then have "recv_loop E k (Suc fuel) len ts d = Some (Enough, d)" unfolding recv_loop.simps b0(1) by simp
    then show ?thesis using True Suc.prems(2,4) by (auto simp: rx_same_def)
  next
    case False
    then have a: "int len > (if ts < e then int (e - ts) else 0)" using b0(3) Suc.prems(7) by auto
    obtain d' where d': "recv_loop E k (Suc fuel) len ts d = recv_loop E k fuel len ts d'"
      "uhd_sync E s ts (e + uh_rx_spp d) d'" "off_zero d'" "e + uh_rx_spp d = pos (uh_hw d')" "rx_same d d'"
      by (rule recv_stream_packet [OF Suc.prems(1-5) _ _ _ a]) (use False Suc.prems(5-8) b0(3) in linarith)+
    have s: "uh_chans d' = uh_chans d" "uh_rx_rate d' = uh_rx_rate d" "uh_rx_spp d' = uh_rx_spp d" "uh_ts_offset d' = uh_ts_offset d"
      using d'(5) by (simp_all add: rx_same_def)
    have f: "ts + len - (e + uh_rx_spp d) < fuel" using Suc.prems(5,9) False by linarith
    have "\<exists>d'' e'. recv_loop E k fuel len ts d' = Some (Enough, d'') \<and> uhd_sync E s ts e' d'' \<and> e' = pos (uh_hw d'') \<and>
        ts + len \<le> e' \<and> rx_same d' d''"
      by (rule Suc.IH [of _ "e + uh_rx_spp d"]) (use d'(2-4) Suc.prems(1,5-8) s f in simp_all)
    then show ?thesis unfolding d'(1) using s by (auto simp: rx_same_def)
  qed
qed simp



end
