(* ===== verification/DeviceTable.thy ===== *)
theory DeviceTable
  imports Uhd "HOL-Library.RBT" "HOL-Library.Product_Lexorder"
begin

text \<open>
  The table of device parameters of \<^verbatim>\<open>device/uhd/UHDDevice.cpp\<close> as the code has it, a \<open>std::map\<close> from triples of the device
  type and the two sample rates: a search tree over the order of the enumeration and the lexicographic order of tuples. The driver
  in \<open>Uhd\<close> looks keys up in the list of the initialiser; the two agree, and every key is there once.
\<close>

section \<open>The order of the device types\<close>

fun dev_rank :: "uhd_dev_type \<Rightarrow> nat" where
  "dev_rank USRP1 = 0"
| "dev_rank USRP2 = 1"
| "dev_rank B100 = 2"
| "dev_rank B200 = 3"
| "dev_rank B210 = 4"
| "dev_rank B2XX_MCBTS = 5"
| "dev_rank E1XX = 6"
| "dev_rank E3XX = 7"
| "dev_rank X3XX = 8"
| "dev_rank UMTRX = 9"
| "dev_rank LIMESDR = 10"

lemma dev_rank_inject: "dev_rank a = dev_rank b \<longleftrightarrow> a = b"
  by (cases a; cases b) simp_all

instantiation uhd_dev_type :: linorder
begin

definition less_eq_uhd_dev_type :: "uhd_dev_type \<Rightarrow> uhd_dev_type \<Rightarrow> bool" where
  "less_eq_uhd_dev_type a b \<longleftrightarrow> dev_rank a \<le> dev_rank b"

definition less_uhd_dev_type :: "uhd_dev_type \<Rightarrow> uhd_dev_type \<Rightarrow> bool" where
  "less_uhd_dev_type a b \<longleftrightarrow> dev_rank a < dev_rank b"

instance
  by standard (auto simp: less_eq_uhd_dev_type_def less_uhd_dev_type_def dev_rank_inject [symmetric])

end

section \<open>The map\<close>

type_synonym dev_key = "uhd_dev_type \<times> nat \<times> nat"

text \<open>Of two entries of the initialiser with one key, the first would count.\<close>

definition dev_param_map :: "bool \<Rightarrow> (dev_key, dev_desc) rbt" where
  "dev_param_map old = RBT.bulkload (dev_param_list old)"

lemma dev_param_keys: "distinct (map fst (dev_param_list old))"
  by (simp add: dev_param_list_def)

lemma dev_param_map_at: "RBT.lookup (dev_param_map old) (t, tx, rx) = dev_param_at old t tx rx"
  by (simp add: dev_param_map_def dev_param_at_def lookup_bulkload)

lemma dev_param_map_keys:
  "sorted_wrt (<) (RBT.keys (dev_param_map old))" "set (RBT.keys (dev_param_map old)) = set (map fst (dev_param_list old))"
proof -
  show "sorted_wrt (<) (RBT.keys (dev_param_map old))"
    using RBT.sorted_keys [of "dev_param_map old"] RBT.distinct_keys [of "dev_param_map old"] by (simp add: strict_sorted_iff)
  show "set (RBT.keys (dev_param_map old)) = set (map fst (dev_param_list old))"
    unfolding dev_param_map_def lookup_keys [symmetric] lookup_bulkload by (simp only: dom_map_of_conv_image_fst set_map)
qed

text \<open>Which devices run at which rates: one sample per symbol both ways, four out and one in, or four both ways. None is for the first
  USRP, and the two that have only the last are the LimeSDR and the multi-carrier B2xx.\<close>

lemma dev_param_rates:
  "RBT.lookup (dev_param_map old) (t, tx, rx) \<noteq> None \<longleftrightarrow>
    (tx, rx) \<in> (if t = USRP1 then {} else if t = LIMESDR \<or> t = B2XX_MCBTS then {(4, 4)}
      else if t = B100 \<or> t = E1XX \<or> t = E3XX then {(1, 1), (4, 1)} else {(1, 1), (4, 1), (4, 4)})"
  unfolding dev_param_map_at dev_param_at_def dev_param_list_def by (cases t) auto

end
