(* ===== verification/CommonUtils.thy ===== *)
theory CommonUtils
  imports Prelude Complex_Main
begin

text \<open>
  Helpers of \<^verbatim>\<open>CommonLibs\<close>: the class \<open>Timeval\<close> (\<^verbatim>\<open>Timeval.h\<close>, \<^verbatim>\<open>Timeval.cpp\<close>), which the timed waits of the
  queues use, and the splitting of option strings at commas (\<^verbatim>\<open>Utils.cpp\<close>). Seconds and nanoseconds of a
  \<open>timespec\<close> are integers of 64 bits; the clock is an argument.
\<close>

section \<open>Times\<close>

record timeval =
  tv_sec :: int
  tv_nsec :: int

definition tv_now :: "timeval \<Rightarrow> timeval" where
  "tv_now clock = clock"

definition tv_future :: "timeval \<Rightarrow> nat \<Rightarrow> timeval" where
  "tv_future clock offset =
    (let t = tv_now clock; sec = int (offset div 1000); msec = int (offset mod 1000);
         ns = tv_nsec t + msec * 1000 * 1000; s = tv_sec t + sec
     in if ns > 1000 * 1000 * 1000 then t\<lparr>tv_sec := s + 1, tv_nsec := ns - 1000 * 1000 * 1000\<rparr>
        else t\<lparr>tv_sec := s, tv_nsec := ns\<rparr>)"

text \<open>The constructors; the last one keeps the seconds of its argument, times 1000, as nanoseconds.\<close>

definition tv_make :: "nat \<Rightarrow> nat \<Rightarrow> timeval" where
  "tv_make sec usec = \<lparr>tv_sec = int sec, tv_nsec = u32 (int usec * 1000)\<rparr>"

definition tv_of_timeval :: "int \<Rightarrow> int \<Rightarrow> timeval" where
  "tv_of_timeval sec usec = \<lparr>tv_sec = sec, tv_nsec = sec * 1000\<rparr>"

definition tv_passed :: "timeval \<Rightarrow> timeval \<Rightarrow> bool" where
  "tv_passed clock t =
    (let now = tv_future clock 0
     in if tv_sec now < tv_sec t then False
        else if tv_sec now > tv_sec t then True
        else tv_nsec now \<ge> tv_nsec t)"

definition tv_seconds :: "timeval \<Rightarrow> real" where
  "tv_seconds t = real_of_int (tv_sec t) + real_of_int (tv_nsec t) / 10 ^ 9"

definition tv_secs :: "timeval \<Rightarrow> int" where "tv_secs t = u32 (tv_sec t)"
definition tv_usecs :: "timeval \<Rightarrow> int" where "tv_usecs t = u32 (cdiv (tv_nsec t) 1000)"
definition tv_nsecs :: "timeval \<Rightarrow> int" where "tv_nsecs t = u32 (tv_nsec t)"

text \<open>The difference to another time in milliseconds; the product is computed with 32 bits.\<close>

definition tv_delta :: "timeval \<Rightarrow> timeval \<Rightarrow> int" where
  "tv_delta t other =
    (let deltaS = s32 (tv_secs other - tv_secs t); deltaNs = s32 (tv_nsecs other - tv_nsecs t)
     in s32 (s32 (1000 * deltaS) + cdiv deltaNs 1000000))"

definition tv_elapsed :: "timeval \<Rightarrow> timeval \<Rightarrow> int" where
  "tv_elapsed clock t = tv_delta t (tv_future clock 0)"

definition tv_remaining :: "timeval \<Rightarrow> timeval \<Rightarrow> int" where
  "tv_remaining clock t = - tv_elapsed clock t"

definition tv_addMinutes :: "nat \<Rightarrow> timeval \<Rightarrow> timeval" where
  "tv_addMinutes minutes t = t\<lparr>tv_sec := tv_sec t + u32 (int minutes * 60)\<rparr>"

text \<open>A time as nanoseconds, and the times that the clock gives.\<close>

definition tv_ns :: "timeval \<Rightarrow> int" where
  "tv_ns t = tv_sec t * 1000000000 + tv_nsec t"

definition tv_clock :: "timeval \<Rightarrow> bool" where
  "tv_clock t = (0 \<le> tv_sec t \<and> tv_sec t < 2 ^ 31 \<and> 0 \<le> tv_nsec t \<and> tv_nsec t < 1000000000)"

lemma tv_future_ns: "tv_ns (tv_future clock offset) = tv_ns clock + int offset * 1000000"
proof -
  obtain q r where qr: "q = int (offset div 1000)" "r = int (offset mod 1000)" by simp
  have "int (1000 * (offset div 1000) + offset mod 1000) = int offset" by (simp only: mult_div_mod_eq)
  then have "int offset = 1000 * q + r" unfolding qr by (simp only: of_nat_add of_nat_mult of_nat_numeral)
  then show ?thesis unfolding tv_ns_def tv_future_def tv_now_def Let_def qr [symmetric] by simp
qed

lemma tv_future_range:
  assumes "tv_clock clock"
  shows "0 \<le> tv_nsec (tv_future clock offset) \<and> tv_nsec (tv_future clock offset) \<le> 1000000000 \<and>
    tv_sec clock \<le> tv_sec (tv_future clock offset) \<and> tv_sec (tv_future clock offset) \<le> tv_sec clock + int (offset div 1000) + 1"
proof -
  obtain q r where qr: "q = int (offset div 1000)" "r = int (offset mod 1000)" by simp
  have "offset mod 1000 < 1000" by simp
  then have r: "0 \<le> r" "r \<le> 999" "0 \<le> q" unfolding qr by linarith+
  then show ?thesis
    using assms unfolding tv_clock_def tv_future_def tv_now_def Let_def qr [symmetric] by auto
qed

lemma tv_future_0: "tv_clock c \<Longrightarrow> tv_future c 0 = c"
  by (simp add: tv_future_def tv_now_def tv_clock_def Let_def)

lemma s32_u32_diff: "s32 (u32 a - u32 b) = s32 (a - b)"
proof -
  have "(u32 a - u32 b) mod 4294967296 = (a - b) mod 4294967296" unfolding u32_def by (rule mod_diff_eq)
  then have "(u32 a - u32 b + 2147483648) mod 4294967296 = (a - b + 2147483648) mod 4294967296" by (rule mod_add_cong) (rule refl)
  then show ?thesis unfolding s32_def by (rule arg_cong)
qed

lemma cdiv_mult: "0 < k \<Longrightarrow> cdiv (m * k) k = m"
  unfolding cdiv_def abs_mult sgn_mult by (simp add: mult_sgn_abs)

lemma tv_remaining_future:
  assumes "tv_clock c" and "offset < 2000000000"
  shows "tv_remaining c (tv_future c offset) = int offset"
proof -
  let ?f = "tv_future c offset"
  note r = tv_future_range [OF assms(1), of offset] and n = tv_future_ns [of c offset]
  obtain ds where ds: "ds = tv_sec c - tv_sec ?f" by simp
  obtain dn where dn: "dn = tv_nsec c - tv_nsec ?f" by simp
  have t: "ds * 1000000000 + dn = - int offset * 1000000" using n unfolding tv_ns_def ds dn by (simp add: algebra_simps)
  have "offset div 1000 < 2000000" using assms(2) by linarith
  then have "int (offset div 1000) \<le> 2000000" by linarith
  then have b: "- 2000001 \<le> ds" "ds \<le> 0" "- 1000000000 \<le> dn" "dn < 1000000000"
    using r assms(1) unfolding ds dn tv_clock_def by linarith+
  have u: "s32 (tv_secs c - tv_secs ?f) = ds" "s32 (tv_nsecs c - tv_nsecs ?f) = dn"
    unfolding tv_secs_def tv_nsecs_def s32_u32_diff ds [symmetric] dn [symmetric]
    by (rule s32_id, use b in linarith, use b in linarith)+
  have "dn = (- int offset - 1000 * ds) * 1000000" using t by (simp add: algebra_simps)
  moreover have "1000 * ds + (- int offset - 1000 * ds) = - int offset" by simp
  ultimately obtain m where m: "dn = m * 1000000" "1000 * ds + m = - int offset" by (rule that)
  have d: "cdiv dn 1000000 = m" unfolding m(1) by (rule cdiv_mult) simp
  have k: "s32 (1000 * ds) = 1000 * ds" by (rule s32_id, use b in linarith, use b in linarith)
  have "s32 (- int offset) = - int offset" by (rule s32_id, use assms(2) in linarith, use assms(2) in linarith)
  then show ?thesis
    unfolding tv_remaining_def tv_elapsed_def tv_future_0 [OF assms(1)] tv_delta_def Let_def u d k m(2) by linarith
qed

text \<open>A time a number of milliseconds in the future has passed exactly when the clock shows at least that many
  milliseconds more than at its making, and the time remaining until it, read at its making, is that number.\<close>

theorem timeval_future:
  assumes "tv_clock c0" and "tv_clock c1" and "offset < 2000000000"
  shows "tv_passed c1 (tv_future c0 offset) = (tv_ns c1 \<ge> tv_ns c0 + int offset * 1000000) \<and>
    tv_remaining c0 (tv_future c0 offset) = int offset"
proof -
  let ?f = "tv_future c0 offset"
  note r = tv_future_range [OF assms(1), of offset] and n = tv_future_ns [of c0 offset]
  have "tv_passed c1 ?f = (tv_ns c1 \<ge> tv_ns ?f)"
    using assms(2) r unfolding tv_passed_def Let_def tv_future_0 [OF assms(2)] tv_ns_def tv_clock_def by auto
  then show ?thesis using n tv_remaining_future [OF assms(1,3)] by simp
qed

theorem timeval_future_witness:
  "tv_passed \<lparr>tv_sec = 7, tv_nsec = 0\<rparr> (tv_future \<lparr>tv_sec = 5, tv_nsec = 900000000\<rparr> 1200) = False \<and>
   tv_remaining \<lparr>tv_sec = 5, tv_nsec = 900000000\<rparr> (tv_future \<lparr>tv_sec = 5, tv_nsec = 900000000\<rparr> 1200) = 1200"
  using timeval_future [of "\<lparr>tv_sec = 5, tv_nsec = 900000000\<rparr>" "\<lparr>tv_sec = 7, tv_nsec = 0\<rparr>" 1200]
  by (simp add: tv_clock_def tv_ns_def)

text \<open>The boundary: the nanoseconds may be a full second, which no \<open>timespec\<close> may hold.\<close>

lemma tv_future_full_second:
  "tv_future \<lparr>tv_sec = 5, tv_nsec = 900000000\<rparr> 100 = \<lparr>tv_sec = 5, tv_nsec = 1000000000\<rparr>"
  by (simp add: tv_future_def tv_now_def)

section \<open>Splitting at commas\<close>

fun comma_split :: "string \<Rightarrow> string \<Rightarrow> string list" where
  "comma_split substr [] = [rev substr]"
| "comma_split substr (c # cs) = (if c = CHR '','' then rev substr # comma_split [] cs else comma_split (c # substr) cs)"

definition comma_delimited_to_vector :: "string \<Rightarrow> string list" where
  "comma_delimited_to_vector opt = comma_split [] opt"

fun comma_join :: "string list \<Rightarrow> string" where
  "comma_join [] = []"
| "comma_join [x] = x"
| "comma_join (x # xs) = x @ CHR '','' # comma_join xs"

lemma comma_split_plain: "CHR '','' \<notin> set x \<Longrightarrow> comma_split a (x @ CHR '','' # cs) = (rev a @ x) # comma_split [] cs"
  by (induction x arbitrary: a) auto

lemma comma_split_last: "CHR '','' \<notin> set x \<Longrightarrow> comma_split a x = [rev a @ x]"
  by (induction x arbitrary: a) auto

text \<open>The pieces of a joined list are the list, empty pieces included.\<close>

lemma comma_split_join:
  assumes "xs \<noteq> []" and "\<forall>x \<in> set xs. CHR '','' \<notin> set x"
  shows "comma_delimited_to_vector (comma_join xs) = xs"
  using assms
proof (induction xs rule: comma_join.induct)
  case (3 x y zs)
  then show ?case by (simp add: comma_delimited_to_vector_def comma_split_plain)
qed (simp_all add: comma_delimited_to_vector_def comma_split_last)

end
