(* ===== verification/Lms.thy ===== *)
theory Lms
  imports Uhd CommonUtils
begin

text \<open>
  The driver for devices of LimeSuite (\<^verbatim>\<open>device/lms/LMSDevice.cpp\<close>, \<^verbatim>\<open>LMSDevice.h\<close>): finding and opening a device,
  start and stop, gains, antennas and tuning, and the two streams of each channel with the counters of their
  overruns and underruns. The library and the device behind it are the parameter \<open>lms_lib\<close> over a state \<open>'h\<close>. A
  sample is of type \<open>'a\<close>. An access to memory that is not there, and an allocation that fails, are \<open>None\<close>. Log output
  and the cancellation state of threads are left out.
\<close>

section \<open>The library\<close>

datatype lms_fmt = LMS_FMT_F32 | LMS_FMT_I16 | LMS_FMT_I12

text \<open>The handle is the one that the library enters.\<close>

record lms_stream =
  ls_handle :: nat
  ls_isTx :: bool
  ls_channel :: nat
  ls_fifoSize :: nat
  ls_throughputVsLatency :: real
  ls_dataFmt :: lms_fmt

record lms_meta =
  lm_timestamp :: nat
  lm_waitForTimestamp :: bool
  lm_flushPartialPacket :: bool

record lms_status =
  st_underrun :: nat
  st_overrun :: nat

text \<open>The first argument of the functions of a channel tells whether it transmits. \<open>lms_eeprom\<close> is the build option
  \<open>HAVE_LMS_VCTCXO_EEPROM_SAVING\<close>, without which the VCTCXO functions have one argument less. A stream is received
  as the result code, the samples written to the buffer and the metadata.\<close>

record ('h, 'a) lms_lib =
  lms_eeprom :: bool
  lms_device_count :: "'h \<Rightarrow> int"
  lms_device_list :: "'h \<Rightarrow> string list"
  lms_open_dev :: "string \<Rightarrow> 'h \<Rightarrow> int \<times> 'h"
  lms_close :: "'h \<Rightarrow> 'h"
  lms_init :: "'h \<Rightarrow> int \<times> 'h"
  lms_rate_range :: "'h \<Rightarrow> int"
  lms_set_rate :: "real \<Rightarrow> nat \<Rightarrow> 'h \<Rightarrow> int \<times> 'h"
  lms_get_rate :: "'h \<Rightarrow> int"
  lms_vctcxo_read :: "bool option \<Rightarrow> 'h \<Rightarrow> int \<times> nat"
  lms_vctcxo_write :: "nat \<Rightarrow> bool option \<Rightarrow> 'h \<Rightarrow> int \<times> 'h"
  lms_set_extref :: "real \<Rightarrow> 'h \<Rightarrow> int \<times> 'h"
  lms_lpfbw_range :: "bool \<Rightarrow> 'h \<Rightarrow> int \<times> real \<times> real"
  lms_set_lpfbw :: "bool \<Rightarrow> nat \<Rightarrow> real \<Rightarrow> 'h \<Rightarrow> int \<times> 'h"
  lms_calibrate :: "bool \<Rightarrow> nat \<Rightarrow> real \<Rightarrow> 'h \<Rightarrow> int \<times> 'h"
  lms_enable :: "bool \<Rightarrow> nat \<Rightarrow> bool \<Rightarrow> 'h \<Rightarrow> int \<times> 'h"
  lms_set_gain :: "bool \<Rightarrow> nat \<Rightarrow> nat \<Rightarrow> 'h \<Rightarrow> int \<times> 'h"
  lms_antennas :: "bool \<Rightarrow> nat \<Rightarrow> 'h \<Rightarrow> int \<times> string list"
  lms_antenna :: "bool \<Rightarrow> nat \<Rightarrow> 'h \<Rightarrow> int"
  lms_set_antenna :: "bool \<Rightarrow> nat \<Rightarrow> nat \<Rightarrow> 'h \<Rightarrow> int \<times> 'h"
  lms_set_lo :: "bool \<Rightarrow> nat \<Rightarrow> real \<Rightarrow> 'h \<Rightarrow> int \<times> 'h"
  lms_setup :: "lms_stream \<Rightarrow> 'h \<Rightarrow> int \<times> lms_stream \<times> 'h"
  lms_start :: "lms_stream \<Rightarrow> 'h \<Rightarrow> int \<times> 'h"
  lms_stop :: "lms_stream \<Rightarrow> 'h \<Rightarrow> 'h"
  lms_destroy :: "lms_stream \<Rightarrow> 'h \<Rightarrow> 'h"
  lms_recv :: "lms_stream \<Rightarrow> int \<Rightarrow> lms_meta \<Rightarrow> 'h \<Rightarrow> int \<times> 'a list \<times> lms_meta \<times> 'h"
  lms_send :: "lms_stream \<Rightarrow> 'a list \<Rightarrow> lms_meta \<Rightarrow> 'h \<Rightarrow> int \<times> 'h"
  lms_status :: "lms_stream \<Rightarrow> 'h \<Rightarrow> int \<times> lms_status \<times> 'h"

definition MAX_ANTENNA_LIST_SIZE :: nat where "MAX_ANTENNA_LIST_SIZE = 10"
definition GSM_CARRIER_BW :: real where "GSM_CARRIER_BW = 270000"
definition LMS_MIN_BW_SUPPORTED :: real where "LMS_MIN_BW_SUPPORTED = 2500000"
definition LMS_CALIBRATE_BW_HZ :: real where "LMS_CALIBRATE_BW_HZ = max GSM_CARRIER_BW LMS_MIN_BW_SUPPORTED"
definition LIMESDR_LMS_AMPL :: real where "LIMESDR_LMS_AMPL = 707 / 1000"

definition compat_LMS_VCTCXORead :: "('h, 'a) lms_lib \<Rightarrow> bool \<Rightarrow> 'h \<Rightarrow> int \<times> nat" where
  "compat_LMS_VCTCXORead E memory h = lms_vctcxo_read E (if lms_eeprom E then Some memory else None) h"

definition compat_LMS_VCTCXOWrite :: "('h, 'a) lms_lib \<Rightarrow> nat \<Rightarrow> bool \<Rightarrow> 'h \<Rightarrow> int \<times> 'h" where
  "compat_LMS_VCTCXOWrite E val memory h = lms_vctcxo_write E val (if lms_eeprom E then Some memory else None) h"

text \<open>The levels of the log; the library numbers its own from critical, 0, to debug, 4.\<close>

datatype log_level = LOGL_FATAL | LOGL_ERROR | LOGL_NOTICE | LOGL_INFO | LOGL_DEBUG

definition lms_log_level :: "int \<Rightarrow> log_level" where
  "lms_log_level lvl =
    (let lvl = (if u32 lvl \<ge> 5 then 4 else lvl)
     in [LOGL_FATAL, LOGL_ERROR, LOGL_NOTICE, LOGL_INFO, LOGL_DEBUG] ! nat lvl)"

section \<open>The device\<close>

text \<open>\<open>ld_dev\<close> tells whether the pointer to the device is set.\<close>

record 'h lms_device =
  ld_hw :: 'h
  ld_tx_sps :: nat
  ld_rx_sps :: nat
  ld_iface :: interface_type
  ld_chans :: nat
  ld_lo_offset :: real
  ld_tx_paths :: "string list"
  ld_rx_paths :: "string list"
  ld_dev :: bool
  ld_stream_rx :: "lms_stream list"
  ld_stream_tx :: "lms_stream list"
  ld_last_rx_underruns :: "nat list"
  ld_last_rx_overruns :: "nat list"
  ld_last_tx_underruns :: "nat list"
  ld_last_tx_overruns :: "nat list"
  ld_actualSampleRate :: real
  ld_samplesRead :: nat
  ld_samplesWritten :: nat
  ld_started :: bool
  ld_ts_initial :: nat
  ld_ts_offset :: nat
  ld_rxGain :: real

definition ls_zero :: lms_stream where
  "ls_zero = \<lparr>ls_handle = 0, ls_isTx = False, ls_channel = 0, ls_fifoSize = 0, ls_throughputVsLatency = 0,
    ls_dataFmt = LMS_FMT_F32\<rparr>"

text \<open>The constructor; \<open>u\<close> stands for the members that it leaves unset, \<open>started\<close> among them.\<close>

definition lm_new :: "nat \<Rightarrow> nat \<Rightarrow> interface_type \<Rightarrow> nat \<Rightarrow> real \<Rightarrow> string list \<Rightarrow> string list \<Rightarrow>
    'h lms_device \<Rightarrow> 'h lms_device" where
  "lm_new tx_sps rx_sps iface chans lo_offset tx_paths rx_paths u =
    u\<lparr>ld_tx_sps := tx_sps, ld_rx_sps := rx_sps, ld_iface := iface, ld_chans := chans, ld_lo_offset := lo_offset,
      ld_tx_paths := tx_paths, ld_rx_paths := rx_paths, ld_dev := False,
      ld_stream_rx := replicate chans ls_zero, ld_stream_tx := replicate chans ls_zero,
      ld_last_rx_underruns := replicate chans 0, ld_last_rx_overruns := replicate chans 0,
      ld_last_tx_underruns := replicate chans 0, ld_last_tx_overruns := replicate chans 0\<rparr>"

definition lm_destroy :: "('h, 'a) lms_lib \<Rightarrow> 'h lms_device \<Rightarrow> 'h lms_device" where
  "lm_destroy E d = (if ld_dev d then d\<lparr>ld_hw := lms_close E (ld_hw d), ld_dev := False\<rparr> else d)"

definition lm_make :: "nat \<Rightarrow> nat \<Rightarrow> interface_type \<Rightarrow> nat \<Rightarrow> real \<Rightarrow> string list \<Rightarrow> string list \<Rightarrow>
    'h lms_device \<Rightarrow> 'h lms_device option" where
  "lm_make tx_sps rx_sps iface chans lo_offset tx_paths rx_paths u =
    (if tx_sps \<noteq> rx_sps then None
     else if lo_offset \<noteq> 0 then None
     else Some (lm_new tx_sps rx_sps iface chans lo_offset tx_paths rx_paths u))"

text \<open>The functions of the header.\<close>

definition lm_getWindowType :: tx_window_type where "lm_getWindowType = TX_WINDOW_LMS1"
definition lm_initialWriteTimestamp :: "'h lms_device \<Rightarrow> nat" where "lm_initialWriteTimestamp d = ld_ts_initial d"
definition lm_initialReadTimestamp :: "'h lms_device \<Rightarrow> nat" where "lm_initialReadTimestamp d = ld_ts_initial d"
definition lm_fullScaleInputValue :: real where "lm_fullScaleInputValue = 32767 * LIMESDR_LMS_AMPL"
definition lm_fullScaleOutputValue :: real where "lm_fullScaleOutputValue = 32767"
definition lm_getRxGain :: "nat \<Rightarrow> 'h lms_device \<Rightarrow> real" where "lm_getRxGain chan d = ld_rxGain d"
definition lm_getTxFreq :: "nat \<Rightarrow> real" where "lm_getTxFreq chan = 0"
definition lm_getRxFreq :: "nat \<Rightarrow> real" where "lm_getRxFreq chan = 0"
definition lm_getSampleRate :: "'h lms_device \<Rightarrow> real" where "lm_getSampleRate d = ld_actualSampleRate d"
definition lm_numberRead :: "'h lms_device \<Rightarrow> real" where "lm_numberRead d = real (ld_samplesRead d)"
definition lm_numberWritten :: "'h lms_device \<Rightarrow> real" where "lm_numberWritten d = real (ld_samplesWritten d)"
definition lm_requiresRadioAlign :: bool where "lm_requiresRadioAlign = False"
definition lm_minLatency :: gsm_time where "lm_minLatency = Time 6 7"
definition lm_updateAlignment :: "nat \<Rightarrow> 'h lms_device \<Rightarrow> bool \<times> 'h lms_device" where "lm_updateAlignment timestamp d = (True, d)"

section \<open>Gains\<close>

definition lm_maxTxGain :: real where "lm_maxTxGain = 73"
definition lm_minTxGain :: real where "lm_minTxGain = 0"
definition lm_maxRxGain :: real where "lm_maxRxGain = 73"
definition lm_minRxGain :: real where "lm_minRxGain = 0"

text \<open>The library takes the gain as an unsigned integer. A failure is only logged.\<close>

definition lm_setTxGain :: "('h, 'a) lms_lib \<Rightarrow> real \<Rightarrow> nat \<Rightarrow> 'h lms_device \<Rightarrow> real \<times> 'h lms_device" where
  "lm_setTxGain E dB chan d =
    (let dB = (if dB > lm_maxTxGain then lm_maxTxGain else dB);
         dB = (if dB < lm_minTxGain then lm_minTxGain else dB);
         (rc, h) = lms_set_gain E True chan (nat \<lfloor>dB\<rfloor>) (ld_hw d)
     in (dB, d\<lparr>ld_hw := h\<rparr>))"

definition lm_setRxGain :: "('h, 'a) lms_lib \<Rightarrow> real \<Rightarrow> nat \<Rightarrow> 'h lms_device \<Rightarrow> real \<times> 'h lms_device" where
  "lm_setRxGain E dB chan d =
    (let dB = (if dB > lm_maxRxGain then lm_maxRxGain else dB);
         dB = (if dB < lm_minRxGain then lm_minRxGain else dB);
         (rc, h) = lms_set_gain E False chan (nat \<lfloor>dB\<rfloor>) (ld_hw d)
     in (dB, d\<lparr>ld_hw := h\<rparr>))"

section \<open>Antennas\<close>

fun find_name :: "string \<Rightarrow> string list \<Rightarrow> int \<Rightarrow> int" where
  "find_name c_name [] i = - 1"
| "find_name c_name (x # xs) i = (if c_name = x then i else find_name c_name xs (i + 1))"

definition lm_get_ant_idx :: "('h, 'a) lms_lib \<Rightarrow> string \<Rightarrow> bool \<Rightarrow> nat \<Rightarrow> 'h lms_device \<Rightarrow> int" where
  "lm_get_ant_idx E name dir_tx chan d =
    (case lms_antennas E dir_tx chan (ld_hw d) of (num_names, name_list) \<Rightarrow> find_name name (take (nat num_names) name_list) 0)"

definition lm_setRxAntenna :: "('h, 'a) lms_lib \<Rightarrow> string \<Rightarrow> nat \<Rightarrow> 'h lms_device \<Rightarrow> bool \<times> 'h lms_device" where
  "lm_setRxAntenna E ant chan d =
    (if chan \<ge> length (ld_rx_paths d) then (False, d)
     else let idx = lm_get_ant_idx E ant False chan d
          in if idx < 0 then (False, d)
             else case lms_set_antenna E False chan (nat idx) (ld_hw d) of (rc, h) \<Rightarrow> (True, d\<lparr>ld_hw := h\<rparr>))"

definition lm_setTxAntenna :: "('h, 'a) lms_lib \<Rightarrow> string \<Rightarrow> nat \<Rightarrow> 'h lms_device \<Rightarrow> bool \<times> 'h lms_device" where
  "lm_setTxAntenna E ant chan d =
    (if chan \<ge> length (ld_tx_paths d) then (False, d)
     else let idx = lm_get_ant_idx E ant True chan d
          in if idx < 0 then (False, d)
             else case lms_set_antenna E True chan (nat idx) (ld_hw d) of (rc, h) \<Rightarrow> (True, d\<lparr>ld_hw := h\<rparr>))"

text \<open>The name read is \<open>None\<close> when the library has not written the element of the array.\<close>

definition lm_getRxAntenna :: "('h, 'a) lms_lib \<Rightarrow> nat \<Rightarrow> 'h lms_device \<Rightarrow> string option" where
  "lm_getRxAntenna E chan d =
    (if chan \<ge> length (ld_rx_paths d) then Some []
     else let idx = lms_antenna E False chan (ld_hw d)
          in if idx < 0 then Some []
             else case lms_antennas E False chan (ld_hw d) of (n, name_list) \<Rightarrow>
               if n < idx then Some []
               else if nat idx < length name_list then Some (name_list ! nat idx) else None)"

definition lm_getTxAntenna :: "('h, 'a) lms_lib \<Rightarrow> nat \<Rightarrow> 'h lms_device \<Rightarrow> string option" where
  "lm_getTxAntenna E chan d =
    (if chan \<ge> length (ld_tx_paths d) then Some []
     else let idx = lms_antenna E True chan (ld_hw d)
          in if idx < 0 then Some []
             else case lms_antennas E True chan (ld_hw d) of (n, name_list) \<Rightarrow>
               if n < idx then Some []
               else if nat idx < length name_list then Some (name_list ! nat idx) else None)"

section \<open>Opening\<close>

text \<open>The first of the devices whose description contains every filter.\<close>

fun info_find :: "string list \<Rightarrow> string list \<Rightarrow> int \<Rightarrow> int" where
  "info_find filters [] i = - 1"
| "info_find filters (info # infos) i =
     (if list_all (\<lambda>f. sublist f info) filters then i else info_find filters infos (i + 1))"

definition info_list_find :: "string list \<Rightarrow> string \<Rightarrow> int" where
  "info_list_find info_list args = info_find (comma_delimited_to_vector args) info_list 0"

definition lm_out_close :: "('h, 'a) lms_lib \<Rightarrow> 'h lms_device \<Rightarrow> int \<times> 'h lms_device" where
  "lm_out_close E d = (- 1, d\<lparr>ld_hw := lms_close E (ld_hw d), ld_dev := False\<rparr>)"

definition lm_clock_ref :: "('h, 'a) lms_lib \<Rightarrow> reference \<Rightarrow> 'h \<Rightarrow> bool \<times> 'h" where
  "lm_clock_ref E ref h =
    (case ref of
       REF_INTERNAL \<Rightarrow>
         (case compat_LMS_VCTCXORead E False h of (rc, dac_val) \<Rightarrow>
            if rc < 0 then (False, h)
            else case compat_LMS_VCTCXOWrite E dac_val False h of (rc, h) \<Rightarrow> (rc \<ge> 0, h))
     | REF_EXTERNAL \<Rightarrow> (case lms_set_extref E 10000000 h of (rc, h) \<Rightarrow> (rc \<ge> 0, h))
     | _ \<Rightarrow> (False, h))"

fun lm_calibrate_chans :: "('h, 'a) lms_lib \<Rightarrow> real \<Rightarrow> real \<Rightarrow> nat list \<Rightarrow> 'h \<Rightarrow> bool \<times> 'h" where
  "lm_calibrate_chans E lpfbw_rx lpfbw_tx [] h = (True, h)"
| "lm_calibrate_chans E lpfbw_rx lpfbw_tx (i # is) h =
     (case lms_set_lpfbw E False i lpfbw_rx h of (rc, h) \<Rightarrow> if rc < 0 then (False, h)
      else case lms_set_lpfbw E True i lpfbw_tx h of (rc, h) \<Rightarrow> if rc < 0 then (False, h)
      else case lms_calibrate E False i LMS_CALIBRATE_BW_HZ h of (rc, h) \<Rightarrow> if rc < 0 then (False, h)
      else case lms_calibrate E True i LMS_CALIBRATE_BW_HZ h of (rc, h) \<Rightarrow> if rc < 0 then (False, h)
      else lm_calibrate_chans E lpfbw_rx lpfbw_tx is h)"

text \<open>The second half of \<open>open\<close>: filters, antennas and calibration. Both ranges are those of the receiver.\<close>

definition lm_open_filters :: "('h, 'a) lms_lib \<Rightarrow> 'h lms_device \<Rightarrow> int \<times> 'h lms_device" where
  "lm_open_filters E d =
    (case lms_lpfbw_range E False (ld_hw d) of (rc, rx_min, rx_max) \<Rightarrow> if rc \<noteq> 0 then lm_out_close E d
     else case lms_lpfbw_range E False (ld_hw d) of (rc, tx_min, tx_max) \<Rightarrow> if rc \<noteq> 0 then lm_out_close E d
     else
       let lpfbw_rx = min (max 1400100 rx_min) rx_max; lpfbw_tx = min (max 5200000 tx_min) tx_max
       in case set_antennas (lm_setTxAntenna E) (lm_setRxAntenna E) (ld_tx_paths d) (ld_rx_paths d) d of (ok, d) \<Rightarrow>
            if \<not> ok then (- 1, d)
            else case lm_calibrate_chans E lpfbw_rx lpfbw_tx [0..<ld_chans d] (ld_hw d) of (ok, h) \<Rightarrow>
              let d = d\<lparr>ld_hw := h\<rparr>
              in if \<not> ok then lm_out_close E d
                 else (interface_code NORMAL, d\<lparr>ld_samplesRead := 0, ld_samplesWritten := 0, ld_started := False\<rparr>))"

definition lm_open_device :: "('h, 'a) lms_lib \<Rightarrow> reference \<Rightarrow> 'h lms_device \<Rightarrow> int \<times> 'h lms_device" where
  "lm_open_device E ref d =
    (case lms_init E (ld_hw d) of (rc, h) \<Rightarrow> let d = d\<lparr>ld_hw := h\<rparr> in if rc \<noteq> 0 then lm_out_close E d
     else if lms_rate_range E (ld_hw d) \<noteq> 0 then lm_out_close E d
     else case lms_set_rate E (GSMRATE * real (ld_tx_sps d)) 32 (ld_hw d) of (rc, h) \<Rightarrow>
       let d = d\<lparr>ld_hw := h\<rparr> in if rc < 0 then lm_out_close E d
     else if lms_get_rate E (ld_hw d) \<noteq> 0 then lm_out_close E d
     else
       let d = d\<lparr>ld_ts_offset := nat \<lfloor>89 / 10 ^ 6 * GSMRATE * real (ld_tx_sps d)\<rfloor>\<rparr>
       in case lm_clock_ref E ref (ld_hw d) of (ok, h) \<Rightarrow>
         let d = d\<lparr>ld_hw := h\<rparr> in if \<not> ok then lm_out_close E d else lm_open_filters E d)"

text \<open>The number of devices is unsigned, so that the test for a negative one never holds.\<close>

definition lm_open :: "('h, 'a) lms_lib \<Rightarrow> string \<Rightarrow> reference \<Rightarrow> bool \<Rightarrow> 'h lms_device \<Rightarrow>
    (int \<times> 'h lms_device) option" where
  "lm_open E args ref swap_channels d =
    (let n = nat (u32 (lms_device_count E (ld_hw d))); info_list = lms_device_list E (ld_hw d)
     in if n < 1 then Some (- 1, d)
        else if length info_list < n then None
        else let dev_id = info_list_find (take n info_list) args
             in if dev_id = - 1 then Some (- 1, d)
                else case lms_open_dev E (info_list ! nat dev_id) (ld_hw d) of (rc, h) \<Rightarrow>
                  let d = d\<lparr>ld_hw := h\<rparr>
                  in if rc \<noteq> 0 then Some (- 1, d) else Some (lm_open_device E ref (d\<lparr>ld_dev := True\<rparr>)))"

section \<open>Start and stop\<close>

definition new_stream :: "bool \<Rightarrow> nat \<Rightarrow> lms_stream" where
  "new_stream isTx i = ls_zero\<lparr>ls_isTx := isTx, ls_channel := i, ls_fifoSize := 1024 * 1024,
    ls_throughputVsLatency := 3 / 10, ls_dataFmt := LMS_FMT_I16\<rparr>"

fun setup_chans :: "('h, 'a) lms_lib \<Rightarrow> nat list \<Rightarrow> 'h lms_device \<Rightarrow> bool \<times> 'h lms_device" where
  "setup_chans E [] d = (True, d)"
| "setup_chans E (i # is) d =
     (case lms_enable E False i True (ld_hw d) of (rc, h) \<Rightarrow> let d = d\<lparr>ld_hw := h\<rparr> in if rc < 0 then (False, d)
      else case lms_enable E True i True (ld_hw d) of (rc, h) \<Rightarrow> let d = d\<lparr>ld_hw := h\<rparr> in if rc < 0 then (False, d)
      else
        let (g, d) = lm_setTxGain E ((lm_minTxGain + lm_maxTxGain) / 2) i d;
            (g, d) = lm_setRxGain E ((lm_minRxGain + lm_maxRxGain) / 2) i d;
            d = d\<lparr>ld_stream_tx := (ld_stream_tx d)[i := new_stream True i]\<rparr>
        in case lms_setup E (new_stream False i) (ld_hw d) of (rc, s, h) \<Rightarrow>
          let d = d\<lparr>ld_hw := h, ld_stream_rx := (ld_stream_rx d)[i := s]\<rparr> in if rc < 0 then (False, d)
      else case lms_setup E (new_stream True i) (ld_hw d) of (rc, s, h) \<Rightarrow>
          let d = d\<lparr>ld_hw := h, ld_stream_tx := (ld_stream_tx d)[i := s]\<rparr> in if rc < 0 then (False, d)
      else setup_chans E is d)"

fun start_streams :: "('h, 'a) lms_lib \<Rightarrow> nat list \<Rightarrow> 'h lms_device \<Rightarrow> bool \<times> 'h lms_device" where
  "start_streams E [] d = (True, d)"
| "start_streams E (i # is) d =
     (case lms_start E (ld_stream_rx d ! i) (ld_hw d) of (rc, h) \<Rightarrow> let d = d\<lparr>ld_hw := h\<rparr> in if rc < 0 then (False, d)
      else case lms_start E (ld_stream_tx d ! i) (ld_hw d) of (rc, h) \<Rightarrow> let d = d\<lparr>ld_hw := h\<rparr> in if rc < 0 then (False, d)
      else start_streams E is d)"

text \<open>A time is a number of 64 bits. The fuel bounds the packets received.\<close>

definition u64 :: "int \<Rightarrow> nat" where "u64 x = nat (x mod 2 ^ 64)"

fun lm_flush_loop :: "('h, 'a) lms_lib \<Rightarrow> nat \<Rightarrow> nat \<Rightarrow> lms_meta \<Rightarrow> 'h lms_device \<Rightarrow> (bool \<times> 'h lms_device) option" where
  "lm_flush_loop E 0 num_pkts md d = None"
| "lm_flush_loop E (Suc fuel) num_pkts md d =
     (if ld_ts_initial d \<noteq> 0 \<and> num_pkts = 0 then Some (True, d)
      else
        let num_pkts = (if ld_ts_initial d = 0 then num_pkts else num_pkts - 1); len = 625 * int (ld_tx_sps d);
            (rc, v, md, h) = lms_recv E (ld_stream_rx d ! 0) len md (ld_hw d);
            d = d\<lparr>ld_hw := h\<rparr>
        in if rc \<noteq> len then Some (False, d)
           else lm_flush_loop E fuel num_pkts md (d\<lparr>ld_ts_initial := u64 (int (lm_timestamp md) + len)\<rparr>))"

definition lm_flush_recv :: "('h, 'a) lms_lib \<Rightarrow> nat \<Rightarrow> nat \<Rightarrow> 'h lms_device \<Rightarrow> (bool \<times> 'h lms_device) option" where
  "lm_flush_recv E fuel num_pkts d =
    (if ld_stream_rx d = [] then None
     else lm_flush_loop E fuel num_pkts \<lparr>lm_timestamp = 0, lm_waitForTimestamp = False, lm_flushPartialPacket = False\<rparr>
       (d\<lparr>ld_ts_initial := 0\<rparr>))"

text \<open>\<open>start\<close> does not look at the result of the flush.\<close>

definition lm_start :: "('h, 'a) lms_lib \<Rightarrow> nat \<Rightarrow> 'h lms_device \<Rightarrow> (bool \<times> 'h lms_device) option" where
  "lm_start E fuel d =
    (if ld_started d then Some (False, d)
     else case setup_chans E [0..<ld_chans d] d of (ok, d) \<Rightarrow> if \<not> ok then Some (False, d)
     else case start_streams E [0..<ld_chans d] d of (ok, d) \<Rightarrow> if \<not> ok then Some (False, d)
     else do { (ok, d) \<leftarrow> lm_flush_recv E fuel 10 d; Some (True, d\<lparr>ld_started := True\<rparr>) })"

fun stop_streams :: "('h, 'a) lms_lib \<Rightarrow> lms_stream list \<Rightarrow> lms_stream list \<Rightarrow> nat list \<Rightarrow> 'h \<Rightarrow> 'h" where
  "stop_streams E tx rx [] h = h"
| "stop_streams E tx rx (i # is) h = stop_streams E tx rx is (lms_stop E (rx ! i) (lms_stop E (tx ! i) h))"

fun destroy_streams :: "('h, 'a) lms_lib \<Rightarrow> lms_stream list \<Rightarrow> lms_stream list \<Rightarrow> nat list \<Rightarrow> 'h \<Rightarrow> 'h" where
  "destroy_streams E tx rx [] h = h"
| "destroy_streams E tx rx (i # is) h =
     destroy_streams E tx rx is
       (snd (lms_enable E True i False (snd (lms_enable E False i False (lms_destroy E (rx ! i) (lms_destroy E (tx ! i) h))))))"

definition lm_stop :: "('h, 'a) lms_lib \<Rightarrow> 'h lms_device \<Rightarrow> bool \<times> 'h lms_device" where
  "lm_stop E d =
    (if \<not> ld_started d then (True, d)
     else let h = stop_streams E (ld_stream_tx d) (ld_stream_rx d) [0..<ld_chans d] (ld_hw d);
              h = destroy_streams E (ld_stream_tx d) (ld_stream_rx d) [0..<ld_chans d] h
          in (True, d\<lparr>ld_hw := h, ld_started := False\<rparr>))"

section \<open>Receiving\<close>

definition lm_update_stream_stats :: "('h, 'a) lms_lib \<Rightarrow> nat \<Rightarrow> bool \<Rightarrow> bool \<Rightarrow> 'h lms_device \<Rightarrow> bool \<times> bool \<times> 'h lms_device" where
  "lm_update_stream_stats E chan underrun overrun d =
    (case lms_status E (ld_stream_rx d ! chan) (ld_hw d) of (rc, status, h) \<Rightarrow>
      let d = d\<lparr>ld_hw := h\<rparr>
      in if rc = 0
         then (underrun \<or> st_underrun status > ld_last_rx_underruns d ! chan,
               overrun \<or> st_overrun status > ld_last_rx_overruns d ! chan,
               d\<lparr>ld_last_rx_underruns := (ld_last_rx_underruns d)[chan := st_underrun status],
                 ld_last_rx_overruns := (ld_last_rx_overruns d)[chan := st_overrun status]\<rparr>)
         else (underrun, overrun, d))"

text \<open>The samples received replace the first ones of the buffer, which must have room for them.\<close>

fun read_chans :: "('h, 'a) lms_lib \<Rightarrow> int \<Rightarrow> nat list \<Rightarrow> int \<Rightarrow> 'a list list \<Rightarrow> bool \<Rightarrow> bool \<Rightarrow> lms_meta \<Rightarrow> 'h lms_device \<Rightarrow>
    (bool \<times> int \<times> 'a list list \<times> bool \<times> bool \<times> lms_meta \<times> 'h lms_device) option" where
  "read_chans E len [] rc bufs overrun underrun md d = Some (True, rc, bufs, overrun, underrun, md, d)"
| "read_chans E len (i # is) rc bufs overrun underrun md d =
     (case lms_recv E (ld_stream_rx d ! i) len md (ld_hw d) of (rc, v, md, h) \<Rightarrow>
        if length v > length (bufs ! i) then None
        else
          let bufs = bufs[i := v @ drop (length v) (bufs ! i)];
              (underrun, overrun, d) = lm_update_stream_stats E i underrun overrun (d\<lparr>ld_hw := h\<rparr>)
          in if rc \<noteq> len then Some (False, - 1, bufs, overrun, underrun, md, d)
             else read_chans E len is rc bufs overrun underrun md d)"

text \<open>The result is the code, the buffers, and the flags \<open>overrun\<close> and \<open>underrun\<close>, which keep the values \<open>o0\<close> and
  \<open>u0\<close> of the caller when the number of buffers is wrong.\<close>

definition lm_readSamples :: "('h, 'a) lms_lib \<Rightarrow> 'a list list \<Rightarrow> int \<Rightarrow> bool \<Rightarrow> nat \<Rightarrow> bool \<Rightarrow> 'h lms_device \<Rightarrow>
    (int \<times> 'a list list \<times> bool \<times> bool \<times> 'h lms_device) option" where
  "lm_readSamples E bufs len o0 timestamp u0 d =
    (if length bufs \<noteq> ld_chans d then Some (- 1, bufs, o0, u0, d)
     else do {
       (ok, rc, bufs, overrun, underrun, md, d) \<leftarrow> read_chans E len [0..<ld_chans d] 0 bufs False False
         \<lparr>lm_timestamp = 0, lm_waitForTimestamp = False, lm_flushPartialPacket = False\<rparr> d;
       if \<not> ok then Some (rc, bufs, overrun, underrun, d)
       else let d = d\<lparr>ld_samplesRead := u64 (int (ld_samplesRead d) + rc)\<rparr>
            in Some (if lm_timestamp md < timestamp then 0 else rc, bufs, overrun, underrun, d) })"

section \<open>Sending\<close>

fun write_chans :: "('h, 'a) lms_lib \<Rightarrow> nat \<Rightarrow> nat list \<Rightarrow> int \<Rightarrow> 'a list list \<Rightarrow> bool \<Rightarrow> lms_meta \<Rightarrow> 'h lms_device \<Rightarrow>
    (int \<times> bool \<times> 'h lms_device) option" where
  "write_chans E len [] rc bufs underrun md d = Some (rc, underrun, d)"
| "write_chans E len (i # is) rc bufs underrun md d =
     (if length (bufs ! i) < len then None
      else case lms_send E (ld_stream_tx d ! i) (take len (bufs ! i)) md (ld_hw d) of (rc, h) \<Rightarrow>
        case lms_status E (ld_stream_tx d ! i) h of (rs, status, h) \<Rightarrow>
          let d = d\<lparr>ld_hw := h\<rparr>
          in if rs = 0
             then write_chans E len is rc bufs (underrun \<or> st_underrun status > ld_last_tx_underruns d ! i) md
               (d\<lparr>ld_last_tx_underruns := (ld_last_tx_underruns d)[i := st_underrun status]\<rparr>)
             else write_chans E len is rc bufs underrun md d)"

definition lm_writeSamples :: "('h, 'a) lms_lib \<Rightarrow> 'a list list \<Rightarrow> nat \<Rightarrow> bool \<Rightarrow> nat \<Rightarrow> bool \<Rightarrow> 'h lms_device \<Rightarrow>
    (int \<times> bool \<times> 'h lms_device) option" where
  "lm_writeSamples E bufs len u0 timestamp isControl d =
    (if isControl then Some (0, u0, d)
     else if length bufs \<noteq> ld_chans d then Some (- 1, u0, d)
     else do {
       (rc, underrun, d) \<leftarrow> write_chans E len [0..<ld_chans d] 0 bufs False
         \<lparr>lm_timestamp = u64 (int timestamp - int (ld_ts_offset d)), lm_waitForTimestamp = True, lm_flushPartialPacket = False\<rparr> d;
       Some (rc, underrun, d\<lparr>ld_samplesWritten := u64 (int (ld_samplesWritten d) + rc)\<rparr>) })"

section \<open>Tuning\<close>

definition lm_setTxFreq :: "('h, 'a) lms_lib \<Rightarrow> real \<Rightarrow> nat \<Rightarrow> 'h lms_device \<Rightarrow> bool \<times> 'h lms_device" where
  "lm_setTxFreq E wFreq chan d = (case lms_set_lo E True chan wFreq (ld_hw d) of (rc, h) \<Rightarrow> (rc \<ge> 0, d\<lparr>ld_hw := h\<rparr>))"

definition lm_setRxFreq :: "('h, 'a) lms_lib \<Rightarrow> real \<Rightarrow> nat \<Rightarrow> 'h lms_device \<Rightarrow> bool \<times> 'h lms_device" where
  "lm_setRxFreq E wFreq chan d = (case lms_set_lo E False chan wFreq (ld_hw d) of (rc, h) \<Rightarrow> (rc \<ge> 0, d\<lparr>ld_hw := h\<rparr>))"

section \<open>Open devices\<close>

text \<open>A count of the devices that are open in the library: opening adds one, closing takes one off, and the other calls
  of \<open>open\<close> keep it.\<close>

definition keeps :: "('h \<Rightarrow> int) \<Rightarrow> ('h \<Rightarrow> 'b \<times> 'h) \<Rightarrow> bool" where
  "keeps opened f = (\<forall>h. opened (snd (f h)) = opened h)"

definition lms_counts :: "('h, 'a) lms_lib \<Rightarrow> ('h \<Rightarrow> int) \<Rightarrow> bool" where
  "lms_counts E opened =
    ((\<forall>s h. opened (snd (lms_open_dev E s h)) = opened h + (if fst (lms_open_dev E s h) = 0 then 1 else 0)) \<and>
     (\<forall>h. opened (lms_close E h) = opened h - 1) \<and>
     keeps opened (lms_init E) \<and> (\<forall>r n. keeps opened (lms_set_rate E r n)) \<and>
     (\<forall>v m. keeps opened (lms_vctcxo_write E v m)) \<and> (\<forall>f. keeps opened (lms_set_extref E f)) \<and>
     (\<forall>t i b. keeps opened (lms_set_lpfbw E t i b)) \<and> (\<forall>t i b. keeps opened (lms_calibrate E t i b)) \<and>
     (\<forall>t i n. keeps opened (lms_set_antenna E t i n)))"

text \<open>The antennas that are named in the configuration are known to the device.\<close>

definition knows :: "('h, 'a) lms_lib \<Rightarrow> bool \<Rightarrow> string list \<Rightarrow> bool" where
  "knows E dir_tx paths = (\<forall>path chan h. path \<in> set paths \<longrightarrow> path \<noteq> [] \<longrightarrow>
    path \<in> set (take (nat (fst (lms_antennas E dir_tx chan h))) (snd (lms_antennas E dir_tx chan h))))"

lemma counts_keep:
  assumes "lms_counts E opened"
  shows "lms_init E h = (rc, h') \<Longrightarrow> opened h' = opened h" and "lms_set_rate E r n h = (rc, h') \<Longrightarrow> opened h' = opened h"
    and "lms_vctcxo_write E v m h = (rc, h') \<Longrightarrow> opened h' = opened h" and "lms_set_extref E f h = (rc, h') \<Longrightarrow> opened h' = opened h"
    and "lms_set_lpfbw E t i b h = (rc, h') \<Longrightarrow> opened h' = opened h" and "lms_calibrate E t i b h = (rc, h') \<Longrightarrow> opened h' = opened h"
    and "lms_set_antenna E t i k h = (rc, h') \<Longrightarrow> opened h' = opened h"
  using assms unfolding lms_counts_def keeps_def by (metis snd_conv)+

lemma find_name_neg: "0 \<le> i \<Longrightarrow> find_name x xs i < 0 \<longleftrightarrow> x \<notin> set xs"
  by (induction xs arbitrary: i) auto

lemma setTxAntenna_known:
  assumes "lms_counts E opened" and "knows E True paths" and "path \<in> set paths" and "path \<noteq> []" and "i < length (ld_tx_paths d)"
  shows "\<exists>h. lm_setTxAntenna E path i d = (True, d\<lparr>ld_hw := h\<rparr>) \<and> opened h = opened (ld_hw d)"
proof -
  have n: "\<not> lm_get_ant_idx E path True i d < 0"
    using assms(2-4) unfolding knows_def lm_get_ant_idx_def by (simp add: case_prod_beta find_name_neg)
  obtain rc h where a: "lms_set_antenna E True i (nat (lm_get_ant_idx E path True i d)) (ld_hw d) = (rc, h)" by fastforce
  have "opened h = opened (ld_hw d)" by (rule counts_keep(7) [OF assms(1) a])
  then show ?thesis using n a assms(5) unfolding lm_setTxAntenna_def Let_def by (intro exI [of _ h]) simp
qed

lemma setRxAntenna_known:
  assumes "lms_counts E opened" and "knows E False paths" and "path \<in> set paths" and "path \<noteq> []" and "i < length (ld_rx_paths d)"
  shows "\<exists>h. lm_setRxAntenna E path i d = (True, d\<lparr>ld_hw := h\<rparr>) \<and> opened h = opened (ld_hw d)"
proof -
  have n: "\<not> lm_get_ant_idx E path False i d < 0"
    using assms(2-4) unfolding knows_def lm_get_ant_idx_def by (simp add: case_prod_beta find_name_neg)
  obtain rc h where a: "lms_set_antenna E False i (nat (lm_get_ant_idx E path False i d)) (ld_hw d) = (rc, h)" by fastforce
  have "opened h = opened (ld_hw d)" by (rule counts_keep(7) [OF assms(1) a])
  then show ?thesis using n a assms(5) unfolding lm_setRxAntenna_def Let_def by (intro exI [of _ h]) simp
qed

lemma set_paths_known:
  assumes set: "\<And>path i (d :: 'h lms_device). path \<in> set paths \<Longrightarrow> path \<noteq> [] \<Longrightarrow> i < length (known d) \<Longrightarrow>
      \<exists>h. setA path i d = (True, d\<lparr>ld_hw := h\<rparr>) \<and> opened h = opened (ld_hw d)"
    and known: "\<And>d h. known (d\<lparr>ld_hw := h\<rparr>) = known d" and "i + length paths \<le> length (known d)"
  shows "\<exists>h. set_paths setA i paths d = (True, d\<lparr>ld_hw := h\<rparr>) \<and> opened h = opened (ld_hw d)"
  using set assms(3)
proof (induction paths arbitrary: i d)
  case Nil
  show ?case by (rule exI [of _ "ld_hw d"]) simp
next
  case (Cons path paths)
  note IH = Cons.IH [OF Cons.prems(1)]
  show ?case
  proof (cases "path = []")
    case True
    then show ?thesis using IH [of "i + 1" d] Cons.prems(2) by simp
  next
    case False
    then obtain h where "setA path i d = (True, d\<lparr>ld_hw := h\<rparr>)" "opened h = opened (ld_hw d)"
      using Cons.prems(1) [of path i d] Cons.prems(2) by auto
    then show ?thesis using IH [of "i + 1" "d\<lparr>ld_hw := h\<rparr>"] Cons.prems(2) False by (simp add: known)
  qed
qed

lemma antennas_set:
  assumes "lms_counts E opened" and "knows E True (ld_tx_paths d)" and "knows E False (ld_rx_paths d)"
  shows "\<exists>h. set_antennas (lm_setTxAntenna E) (lm_setRxAntenna E) (ld_tx_paths d) (ld_rx_paths d) d = (True, d\<lparr>ld_hw := h\<rparr>) \<and>
    opened h = opened (ld_hw d)"
proof -
  obtain h where h: "set_paths (lm_setTxAntenna E) 0 (ld_tx_paths d) d = (True, d\<lparr>ld_hw := h\<rparr>)" "opened h = opened (ld_hw d)"
    using set_paths_known [of "ld_tx_paths d" ld_tx_paths "lm_setTxAntenna E" opened 0 d, OF setTxAntenna_known [OF assms(1,2)]]
    by auto
  obtain h' where "set_paths (lm_setRxAntenna E) 0 (ld_rx_paths d) (d\<lparr>ld_hw := h\<rparr>) = (True, d\<lparr>ld_hw := h'\<rparr>)" "opened h' = opened h"
    using set_paths_known [of "ld_rx_paths d" ld_rx_paths "lm_setRxAntenna E" opened 0 "d\<lparr>ld_hw := h\<rparr>",
        OF setRxAntenna_known [OF assms(1,3)]] by auto
  then show ?thesis using h by (intro exI [of _ h']) (simp add: set_antennas_def)
qed

lemma clock_ref_keeps:
  assumes "lms_counts E opened" and "lm_clock_ref E r h = (ok, h')"
  shows "opened h' = opened h"
  using assms(2) counts_keep(3,4) [OF assms(1)] unfolding lm_clock_ref_def compat_LMS_VCTCXOWrite_def
  by (auto split: reference.splits prod.splits if_splits)

lemma calibrate_keeps:
  assumes "lms_counts E opened" and "lm_calibrate_chans E a b is h = (ok, h')"
  shows "opened h' = opened h"
  using assms(2)
proof (induction "is" arbitrary: h)
  case (Cons i "is")
  note k = counts_keep(5,6) [OF assms(1)]
  show ?case using Cons.prems by (auto split: prod.splits if_splits dest!: k Cons.IH)
qed simp

text \<open>The outcome of the part of \<open>open\<close> after the device is open.\<close>

definition open_done :: "('h \<Rightarrow> int) \<Rightarrow> int \<Rightarrow> int \<times> 'h lms_device \<Rightarrow> bool" where
  "open_done opened n r =
    (if fst r = 0 then ld_dev (snd r) \<and> \<not> ld_started (snd r) \<and> opened (ld_hw (snd r)) = n
     else fst r = - 1 \<and> \<not> ld_dev (snd r) \<and> opened (ld_hw (snd r)) = n - 1)"

lemma out_close_done: "lms_counts E opened \<Longrightarrow> opened (ld_hw d) = n \<Longrightarrow> open_done opened n (lm_out_close E d)"
  unfolding lms_counts_def by (simp add: open_done_def lm_out_close_def)

lemma open_filters_done:
  assumes "lms_counts E opened" and "knows E True (ld_tx_paths d)" and "knows E False (ld_rx_paths d)" and "ld_dev d"
    and "opened (ld_hw d) = n"
  shows "open_done opened n (lm_open_filters E d)"
proof -
  obtain h where h: "set_antennas (lm_setTxAntenna E) (lm_setRxAntenna E) (ld_tx_paths d) (ld_rx_paths d) d = (True, d\<lparr>ld_hw := h\<rparr>)"
    "opened h = opened (ld_hw d)" using antennas_set [OF assms(1-3)] by auto
  have k: "open_done opened n (if \<not> ok then lm_out_close E (d\<lparr>ld_hw := h2\<rparr>)
      else (interface_code NORMAL, d\<lparr>ld_hw := h2, ld_samplesRead := 0, ld_samplesWritten := 0, ld_started := False\<rparr>))"
    if "lm_calibrate_chans E a b [0..<ld_chans d] h = (ok, h2)" for a b ok h2
  proof -
    have "opened h2 = n" using calibrate_keeps [OF assms(1) that] h(2) assms(5) by simp
    then show ?thesis
      using out_close_done [OF assms(1), of "d\<lparr>ld_hw := h2\<rparr>" n] assms(4)
      by (cases ok) (simp_all add: open_done_def interface_code_def)
  qed
  obtain rc lo hi where r: "lms_lpfbw_range E False (ld_hw d) = (rc, lo, hi)" by (rule prod_cases3)
  show ?thesis
  proof (cases "rc = 0")
    case True
    obtain ok h2 where c: "lm_calibrate_chans E (min (max 1400100 lo) hi) (min (max 5200000 lo) hi) [0..<ld_chans d] h = (ok, h2)"
      by fastforce
    then show ?thesis unfolding lm_open_filters_def using k [OF c] by (cases ok) (simp_all add: True r h(1) c Let_def)
  qed (use out_close_done [OF assms(1,5)] in \<open>simp add: lm_open_filters_def r\<close>)
qed

lemma open_device_done:
  assumes c: "lms_counts E opened" and "knows E True (ld_tx_paths d)" and "knows E False (ld_rx_paths d)" and "ld_dev d"
    and o: "opened (ld_hw d) = n"
  shows "open_done opened n (lm_open_device E r d)"
proof -
  obtain rc h where i: "lms_init E (ld_hw d) = (rc, h)" by fastforce
  obtain rc2 h2 where s: "lms_set_rate E (GSMRATE * real (ld_tx_sps d)) 32 h = (rc2, h2)" by fastforce
  obtain ok h3 where k: "lm_clock_ref E r h2 = (ok, h3)" by fastforce
  have n: "opened h = n" "opened h2 = n" "opened h3 = n"
    using counts_keep(1) [OF c i] counts_keep(2) [OF c s] clock_ref_keeps [OF c k] o by simp_all
  have x: "open_done opened n (lm_out_close E d')" if "opened (ld_hw d') = n" for d'
    by (rule out_close_done [OF c that])
  show ?thesis
    unfolding lm_open_device_def using n x open_filters_done [OF c] assms(2-4) by (simp add: i s k Let_def)
qed


text \<open>A device that lists one model, whose transmitter does not calibrate, and that counts the open devices.\<close>

definition failing_lms :: "(int, int) lms_lib" where
  "failing_lms =
    \<lparr>lms_eeprom = False, lms_device_count = \<lambda>h. 1, lms_device_list = \<lambda>h. [''LimeSDR-USB''],
     lms_open_dev = \<lambda>s h. (0, h + 1), lms_close = \<lambda>h. h - 1, lms_init = \<lambda>h. (0, h), lms_rate_range = \<lambda>h. 0,
     lms_set_rate = \<lambda>r n h. (0, h), lms_get_rate = \<lambda>h. 0, lms_vctcxo_read = \<lambda>m h. (0, 180),
     lms_vctcxo_write = \<lambda>v m h. (0, h), lms_set_extref = \<lambda>f h. (0, h), lms_lpfbw_range = \<lambda>t h. (0, 0, 10 ^ 8),
     lms_set_lpfbw = \<lambda>t i b h. (0, h), lms_calibrate = \<lambda>t i b h. (if t then - 1 else 0, h),
     lms_enable = \<lambda>t i e h. (0, h), lms_set_gain = \<lambda>t i g h. (0, h), lms_antennas = \<lambda>t i h. (1, [''BAND1'']),
     lms_antenna = \<lambda>t i h. 0, lms_set_antenna = \<lambda>t i n h. (0, h), lms_set_lo = \<lambda>t i f h. (0, h),
     lms_setup = \<lambda>s h. (0, s, h), lms_start = \<lambda>s h. (0, h), lms_stop = \<lambda>s h. h, lms_destroy = \<lambda>s h. h,
     lms_recv = \<lambda>s n md h. (0, [], md, h), lms_send = \<lambda>s v md h. (int (length v), h + 1),
     lms_status = \<lambda>s h. (0, \<lparr>st_underrun = nat h div 2, st_overrun = 0\<rparr>, h)\<rparr>"

definition some_lms :: "int \<Rightarrow> int lms_device" where
  "some_lms h =
    \<lparr>ld_hw = h, ld_tx_sps = 0, ld_rx_sps = 0, ld_iface = NORMAL, ld_chans = 0, ld_lo_offset = 0, ld_tx_paths = [],
     ld_rx_paths = [], ld_dev = False, ld_stream_rx = [], ld_stream_tx = [], ld_last_rx_underruns = [],
     ld_last_rx_overruns = [], ld_last_tx_underruns = [], ld_last_tx_overruns = [], ld_actualSampleRate = 0,
     ld_samplesRead = 0, ld_samplesWritten = 0, ld_started = False, ld_ts_initial = 0, ld_ts_offset = 0, ld_rxGain = 0\<rparr>"

lemma failing_lms_open:
  "\<exists>d'. lm_open failing_lms ''USB'' REF_INTERNAL False (lm_new 4 4 NORMAL 1 0 [''BAND1''] [[]] (some_lms 0)) = Some (- 1, d')"
  unfolding lm_open_def info_list_find_def
  by (simp add: failing_lms_def some_lms_def lm_new_def u32_def comma_delimited_to_vector_def sublist_code
      lm_open_device_def lm_clock_ref_def compat_LMS_VCTCXORead_def compat_LMS_VCTCXOWrite_def lm_open_filters_def
      set_antennas_def lm_setTxAntenna_def lm_get_ant_idx_def lm_out_close_def Let_def)


section \<open>Underruns\<close>

lemma write_chans_underruns:
  assumes status: "\<And>s h. lms_status E s h = (0, \<lparr>st_underrun = und (ls_channel s) h, st_overrun = ovr (ls_channel s) h\<rparr>, h)"
    and grow: "\<And>s v md h c. und c h \<le> und c (snd (lms_send E s v md h))"
    and "write_chans E len is rc bufs u md d = Some (rc', u', d')" and "distinct is"
    and "\<forall>i \<in> set is. i < length (ld_last_tx_underruns d) \<and> ls_channel (ld_stream_tx d ! i) = i"
  shows "u' = (u \<or> (\<exists>i \<in> set is. ld_last_tx_underruns d ! i < ld_last_tx_underruns d' ! i)) \<and>
    (\<forall>i \<in> set is. und i (ld_hw d) \<le> ld_last_tx_underruns d' ! i \<and> ld_last_tx_underruns d' ! i \<le> und i (ld_hw d')) \<and>
    (\<forall>i. i \<notin> set is \<longrightarrow> ld_last_tx_underruns d' ! i = ld_last_tx_underruns d ! i) \<and>
    (\<forall>i. und i (ld_hw d) \<le> und i (ld_hw d'))"
  using assms(3-5)
proof (induction "is" arbitrary: rc u d)
  case (Cons i "is")
  obtain rc1 h where s: "lms_send E (ld_stream_tx d ! i) (take len (bufs ! i)) md (ld_hw d) = (rc1, h)" by fastforce
  have g: "und c (ld_hw d) \<le> und c h" for c
    using grow [of c "ld_hw d" "ld_stream_tx d ! i" "take len (bufs ! i)" md] by (simp add: s)
  define d1 where "d1 = d\<lparr>ld_hw := h, ld_last_tx_underruns := (ld_last_tx_underruns d)[i := und i h]\<rparr>"
  define u1 where "u1 = (u \<or> ld_last_tx_underruns d ! i < und i h)"
  have i: "i < length (ld_last_tx_underruns d)" "ls_channel (ld_stream_tx d ! i) = i" using Cons.prems(3) by simp_all
  then have w: "write_chans E len is rc1 bufs u1 md d1 = Some (rc', u', d')"
    using Cons.prems(1) by (simp add: s status u1_def d1_def Let_def split: if_splits)
  have l: "length (ld_last_tx_underruns d1) = length (ld_last_tx_underruns d)" "ld_stream_tx d1 = ld_stream_tx d"
    "ld_hw d1 = h" "ld_last_tx_underruns d1 ! i = und i h" "\<And>j. j \<noteq> i \<Longrightarrow> ld_last_tx_underruns d1 ! j = ld_last_tx_underruns d ! j"
    using i by (simp_all add: d1_def)
  note IH = Cons.IH [OF w]
  have r: "u' = (u1 \<or> (\<exists>i \<in> set is. ld_last_tx_underruns d1 ! i < ld_last_tx_underruns d' ! i))"
    and a: "\<forall>i \<in> set is. und i h \<le> ld_last_tx_underruns d' ! i \<and> ld_last_tx_underruns d' ! i \<le> und i (ld_hw d')"
    and k: "\<forall>i. i \<notin> set is \<longrightarrow> ld_last_tx_underruns d' ! i = ld_last_tx_underruns d1 ! i"
    and m: "\<forall>i. und i h \<le> und i (ld_hw d')"
    using IH Cons.prems(2,3) unfolding l(1-3) by simp_all
  have n: "i \<notin> set is" using Cons.prems(2) by simp
  have same: "ld_last_tx_underruns d1 ! j = ld_last_tx_underruns d ! j" if "j \<in> set is" for j
    using that n by (intro l(5)) blast
  have li: "ld_last_tx_underruns d' ! i = und i h" using k n l(4) by simp
  have "u' = (u \<or> (\<exists>j \<in> set (i # is). ld_last_tx_underruns d ! j < ld_last_tx_underruns d' ! j))"
    unfolding r u1_def using same li by auto
  moreover have "\<forall>j \<in> set (i # is). und j (ld_hw d) \<le> ld_last_tx_underruns d' ! j \<and> ld_last_tx_underruns d' ! j \<le> und j (ld_hw d')"
    using a g m li le_trans by fastforce
  moreover have "\<forall>j. j \<notin> set (i # is) \<longrightarrow> ld_last_tx_underruns d' ! j = ld_last_tx_underruns d ! j" using k l(5) by simp
  moreover have "\<forall>j. und j (ld_hw d) \<le> und j (ld_hw d')" using g m le_trans by blast
  ultimately show ?case by blast
qed simp



end
