(* ===== verification/GSMSequences.thy ===== *)
theory GSMSequences
  imports BitVector
begin

unbundle bit_operations_syntax

text \<open>
  The bit sequences of the air interface (\<^verbatim>\<open>GSM/GSMCommon.cpp\<close>): training sequences of normal and EDGE bursts,
  the dummy burst and the access burst with its synchronisation sequences. A bit counts by its lowest bit, because
  the constructor of a bit vector stores the value accumulated so far in each position.
\<close>

definition gTrainingSequence :: "bitvec list" where
  "gTrainingSequence = map bv_of_string [
    ''00100101110000100010010111'',
    ''00101101110111100010110111'',
    ''01000011101110100100001110'',
    ''01000111101101000100011110'',
    ''00011010111001000001101011'',
    ''01001110101100000100111010'',
    ''10100111110110001010011111'',
    ''11101111000100101110111100'']"

definition gEdgeTrainingSequence :: "bitvec list" where
  "gEdgeTrainingSequence = map bv_of_string [
    ''111111001111111001111001001001111111111111001111111111001111111001111001001001'',
    ''111111001111001001111001001001111001001001001111111111001111001001111001001001'',
    ''111001111111111111001001001111001001001111001111111001111111111111001001001111'',
    ''111001111111111001001001001111001001111001111111111001111111111001001001001111'',
    ''111111111001001111001111001001001111111001111111111111111001001111001111001001'',
    ''111001111111001001001111001111001001111111111111111001111111001001001111001111'',
    ''001111001111111001001001001001111001001111111111001111001111111001001001001001'',
    ''001001001111001001001001111111111001111111001111001001001111001001001001111111'']"

definition gDummyBurst :: "bitvec" where
  "gDummyBurst = bv_of_string
    ''0001111101101110110000010100100111000001001000100000001111100011100010111000101110001010111010010100011001100111001111010011111000100101111101010000''"

definition gRACHSynchSequenceTS0 :: "bitvec" where
  "gRACHSynchSequenceTS0 = bv_of_string
    ''01001011011111111001100110101010001111000''"

definition gRACHSynchSequenceTS1 :: "bitvec" where
  "gRACHSynchSequenceTS1 = bv_of_string
    ''01010100111110001000011000101111001001101''"

definition gRACHSynchSequenceTS2 :: "bitvec" where
  "gRACHSynchSequenceTS2 = bv_of_string
    ''11101111001001110101011000001101101110111''"

definition gRACHBurst :: "bitvec" where
  "gRACHBurst = bv_of_string
    ''0011101001001011011111111001100110101010001111000110111101111110000111001001010110011000''"

section \<open>The bits\<close>

definition hard_bits :: "bitvec \<Rightarrow> bool list" where
  "hard_bits bs = map odd bs"

lemma length_bv_of_string [simp]: "length (bv_of_string s) = length s"
proof -
  have "length (bv_string_loop a s) = length s" for a by (induction s arbitrary: a) (simp_all add: Let_def)
  then show ?thesis by (simp add: bv_of_string_def)
qed

lemma hard_bits_string: "hard_bits (bv_of_string s) = map (\<lambda>c. c = CHR ''1'') s"
proof -
  have "map odd (bv_string_loop a s) = map (\<lambda>c. c = CHR ''1'') s" for a
  proof (induction s arbitrary: a)
    case (Cons c s)
    have "\<not> bit (push_bit 1 a) 0" "bit (push_bit 1 a OR 1) 0" by (simp_all only: bit_or_iff bit_1_iff bit_push_bit_iff) simp_all
    then show ?case using Cons.IH by (simp add: odd_char_of_u32 Let_def del: push_bit_Suc push_bit_of_1)
  qed simp
  then show ?thesis by (simp add: bv_of_string_def hard_bits_def)
qed

lemma hard_bits_slice: "hard_bits (slice bs i n) = slice (hard_bits bs) i n"
  by (simp add: hard_bits_def slice_def take_map drop_map)

lemmas sequence_defs = gTrainingSequence_def gEdgeTrainingSequence_def gDummyBurst_def gRACHSynchSequenceTS0_def
  gRACHSynchSequenceTS1_def gRACHSynchSequenceTS2_def gRACHBurst_def

text \<open>A sequence repeats with a period: its middle part is preceded and followed by a copy of its ends, so
  that a correlation with the middle part meets no foreign symbol near the right position.\<close>

definition periodic :: "nat \<Rightarrow> 'a list \<Rightarrow> bool" where
  "periodic p xs = (drop p xs = take (length xs - p) xs)"

text \<open>Each of the eight training sequences has 26 bits with period 16, each of the eight EDGE sequences
  78 bits with period 48, no two of one kind are equal, and the access burst holds the default synchronisation
  sequence of 41 bits behind its eight leading bits. The dummy burst has 148 bits.\<close>

theorem training_sequences:
  "map length gTrainingSequence = replicate 8 26 \<and> list_all (periodic 16 \<circ> hard_bits) gTrainingSequence \<and>
   map length gEdgeTrainingSequence = replicate 8 78 \<and> list_all (periodic 48 \<circ> hard_bits) gEdgeTrainingSequence \<and>
   distinct (map hard_bits gTrainingSequence) \<and> distinct (map hard_bits gEdgeTrainingSequence) \<and>
   map length [gRACHSynchSequenceTS0, gRACHSynchSequenceTS1, gRACHSynchSequenceTS2] = replicate 3 41 \<and>
   length gRACHBurst = 88 \<and> hard_bits (slice gRACHBurst 8 41) = hard_bits gRACHSynchSequenceTS0 \<and>
   length gDummyBurst = 148"
  unfolding sequence_defs list.map list.pred_inject o_apply hard_bits_slice hard_bits_string length_bv_of_string
  by code_simp

end
