(* ===== verification/SigModem.thy ===== *)
theory SigModem
  imports Complex_Main SigVector GSMSequences "HOL-Library.Monad_Syntax"
begin

text \<open>
  Modulation and the soft slicers (first half of \<^verbatim>\<open>sigProcLib.cpp\<close>): rotation tables, pulses, the GMSK
  modulators (rotation only, single pulse, two Laurent pulses), the 8-PSK modulator of EDGE, the bursts generated for
  tests, and the step from samples back to soft bits.

  The static tables of the library are the record \<open>sig_lib\<close>; \<open>dnsampler_deleted\<close> tells that the pointer to the
  resampler still has its value but the object is gone. Floats are real numbers. The outer \<open>None\<close> of a
  result is undefined behaviour (a null pointer that is followed, an access outside a vector), the inner \<open>None\<close> a
  null pointer that the function returns. \<open>rand()\<close> is a parameter: the value of its call number \<open>k\<close>.
\<close>

section \<open>Tables of the library\<close>

record pulse_sequence =
  ps_c0 :: "signal_vector option"
  ps_c1 :: "signal_vector option"
  ps_c0_inv :: "signal_vector option"
  ps_empty :: "signal_vector option"

record correlation_sequence =
  cs_sequence :: "signal_vector option"
  cs_toa :: real
  cs_gain :: complex

record sig_lib =
  sl_cpu :: "real convolve_cpu_context"
  GMSKRotation4 :: "signal_vector option"
  GMSKReverseRotation4 :: "signal_vector option"
  GMSKRotation1 :: "signal_vector option"
  GMSKReverseRotation1 :: "signal_vector option"
  GSMPulse1 :: "pulse_sequence option"
  GSMPulse4 :: "pulse_sequence option"
  gMidambles :: "correlation_sequence option list"
  gEdgeMidambles :: "correlation_sequence option list"
  gRACHSequences :: "correlation_sequence option list"
  delayFilters :: "signal_vector option list"
  sincTable :: "real list"
  dnsampler :: "resampler option"
  dnsampler_deleted :: bool

text \<open>The static initialisers.\<close>

definition sig_initial :: "real convolve_cpu_context \<Rightarrow> sig_lib" where
  "sig_initial cpu =
    \<lparr>sl_cpu = cpu, GMSKRotation4 = None, GMSKReverseRotation4 = None, GMSKRotation1 = None, GMSKReverseRotation1 = None,
     GSMPulse1 = None, GSMPulse4 = None, gMidambles = replicate 8 None, gEdgeMidambles = replicate 8 None,
     gRACHSequences = replicate 3 None, delayFilters = replicate 64 None, sincTable = replicate 1025 0, dnsampler = None,
     dnsampler_deleted = False\<rparr>"

definition psk8_table :: "complex list" where
  "psk8_table =
    [Complex (- 0.70710678) 0.70710678, Complex 0 (- 1), Complex 0 1, Complex 0.70710678 (- 0.70710678),
     Complex (- 1) 0, Complex (- 0.70710678) (- 0.70710678), Complex 0.70710678 0.70710678, Complex 1 0]"

definition norm2 :: "complex \<Rightarrow> real" where
  "norm2 z = Im z * Im z + Re z * Re z"

definition vectorNorm2 :: "signal_vector \<Rightarrow> real" where
  "vectorNorm2 x = foldl (\<lambda>e z. e + norm2 z) 0 (sv_samples x)"

text \<open>A loop over a vector that advances the phase.\<close>

fun phase_loop :: "nat \<Rightarrow> real \<Rightarrow> real \<Rightarrow> real \<Rightarrow> complex list" where
  "phase_loop 0 dir phase incr = []"
| "phase_loop (Suc n) dir phase incr = Complex (cos (dir * phase)) (sin (dir * phase)) # phase_loop n dir (phase + incr) incr"

definition initGMSKRotationTables :: "sig_lib \<Rightarrow> sig_lib" where
  "initGMSKRotationTables L =
    L\<lparr>GMSKRotation4 := Some (sv_map_samples (\<lambda>_. phase_loop 625 1 0 (pi / 2 / 4)) (sv_new 625 0)),
      GMSKReverseRotation4 := Some (sv_map_samples (\<lambda>_. phase_loop 625 (- 1) 0 (pi / 2 / 4)) (sv_new 625 0)),
      GMSKRotation1 := Some (sv_map_samples (\<lambda>_. phase_loop 157 1 0 (pi / 2)) (sv_new 157 0)),
      GMSKReverseRotation1 := Some (sv_map_samples (\<lambda>_. phase_loop 157 (- 1) 0 (pi / 2)) (sv_new 157 0))\<rparr>"

text \<open>The loop of both rotations; it runs to the end of the vector, whatever the size of the table.\<close>

definition rotate_by :: "signal_vector \<Rightarrow> signal_vector \<Rightarrow> signal_vector option" where
  "rotate_by rot x =
    (if sv_size x > sv_size rot then None
     else if sv_isReal x
     then Some (sv_map_samples (\<lambda>xs. map2 (\<lambda>r z. r * of_real (Re z)) (sv_samples rot) xs) x)
     else Some (sv_map_samples (\<lambda>xs. map2 (\<lambda>r z. r * z) (sv_samples rot) xs) x))"

definition GMSKRotate :: "sig_lib \<Rightarrow> signal_vector \<Rightarrow> nat \<Rightarrow> signal_vector option" where
  "GMSKRotate L x sps =
    do { rot \<leftarrow> (if sps = 1 then GMSKRotation1 L else GMSKRotation4 L); rotate_by rot x }"

definition GMSKReverseRotate :: "sig_lib \<Rightarrow> signal_vector \<Rightarrow> nat \<Rightarrow> (bool \<times> signal_vector) option" where
  "GMSKReverseRotate L x sps =
    (if sps = 1 then do { rot \<leftarrow> GMSKReverseRotation1 L; y \<leftarrow> rotate_by rot x; Some (True, y) }
     else if sps = 4 then do { rot \<leftarrow> GMSKReverseRotation4 L; y \<leftarrow> rotate_by rot x; Some (True, y) }
     else Some (False, x))"

section \<open>Pulses\<close>

definition real_taps :: "real list \<Rightarrow> bool \<Rightarrow> signal_vector" where
  "real_taps xs aligned =
    (sv_wrap (map of_real xs) 0 (length xs))\<lparr>sv_isReal := True, sv_aligned := aligned\<rparr>"

definition generateInvertC0Pulse :: "pulse_sequence \<Rightarrow> pulse_sequence" where
  "generateInvertC0Pulse pulse =
    pulse\<lparr>ps_c0_inv := Some (real_taps [0.15884, - 0.43176, 1.00000, - 0.42608, 0.14882] False)\<rparr>"

definition generateC1Pulse :: "nat \<Rightarrow> pulse_sequence \<Rightarrow> bool \<times> pulse_sequence" where
  "generateC1Pulse sps pulse =
    (if sps = 4
     then (True, pulse\<lparr>ps_c1 := Some (real_taps
            [0, 8.16373112 / 10 ^ 3, 2.84385729 / 10 ^ 2, 5.64158904 / 10 ^ 2, 7.05463553 / 10 ^ 2, 5.64158904 / 10 ^ 2,
             2.84385729 / 10 ^ 2, 8.16373112 / 10 ^ 3] True)\<rparr>)
     else (False, pulse))"

definition generateGSMPulse :: "nat \<Rightarrow> pulse_sequence option" where
  "generateGSMPulse sps =
    (if sps \<noteq> 1 \<and> sps \<noteq> 4 then None
     else
       let pulse = \<lparr>ps_c0 = None, ps_c1 = None, ps_c0_inv = None,
                    ps_empty = Some ((sv_map_samples (\<lambda>_. [1]) (sv_new 1 0))\<lparr>sv_isReal := True\<rparr>)\<rparr>
       in if sps = 4
          then
            let pulse = pulse\<lparr>ps_c0 := Some (real_taps
                  [0, 4.46348606 / 10 ^ 3, 2.84385729 / 10 ^ 2, 1.03184855 / 10, 2.56065552 / 10, 4.76375085 / 10,
                   7.05961177 / 10, 8.71291644 / 10, 9.29453645 / 10, 8.71291644 / 10, 7.05961177 / 10,
                   4.76375085 / 10, 2.56065552 / 10, 1.03184855 / 10, 2.84385729 / 10 ^ 2, 4.46348606 / 10 ^ 3] True)\<rparr>
            in Some (generateInvertC0Pulse (snd (generateC1Pulse sps pulse)))
          else
            let center = (4 - 1) / 2;
                taps = map (\<lambda>i. let arg = (real i - center) / real sps
                                in 0.96 * exp (- 1.1380 * arg * arg - 0.527 * arg * arg * arg * arg)) [0..<4];
                avg = sqrt (vectorNorm2 (real_taps taps True) / real sps)
            in Some (generateInvertC0Pulse (pulse\<lparr>ps_c0 := Some (real_taps (map (\<lambda>x. x / avg) taps) True)\<rparr>)))"

section \<open>GMSK\<close>

definition bit_symbol :: "int \<Rightarrow> complex" where
  "bit_symbol b = of_int (2 * (b mod 2) - 1)"

text \<open>Writing symbols at every \<open>sps\<close>-th sample.\<close>

fun put_symbols :: "nat \<Rightarrow> nat \<Rightarrow> complex list \<Rightarrow> signal_vector \<Rightarrow> signal_vector option" where
  "put_symbols sps i [] v = Some v"
| "put_symbols sps i (z # zs) v = do { v' \<leftarrow> sv_put i z v; put_symbols sps (i + sps) zs v' }"

definition burst_vector :: "int \<Rightarrow> nat \<Rightarrow> signal_vector option" where
  "burst_vector burst_len head = (if burst_len < 0 then None else Some (sv_new (nat burst_len) head))"

definition rotateBurst :: "sig_lib \<Rightarrow> bitvec \<Rightarrow> int \<Rightarrow> nat \<Rightarrow> signal_vector option option" where
  "rotateBurst L wBurst guardPeriodLength sps =
    do { pulses \<leftarrow> GSMPulse1 L;
         let pulse = ps_empty pulses;
         fresh \<leftarrow> burst_vector (int sps * (int (length wBurst) + guardPeriodLength)) 0;
         let rotated = sv_assign (sv_new 0 0) fresh;
         rotated \<leftarrow> put_symbols sps 0 (map bit_symbol wBurst) rotated;
         rotated \<leftarrow> GMSKRotate L rotated sps;
         let rotated = sv_setReal False rotated;
         Some (sv_convolve (sl_cpu L) (Some rotated) pulse None START_ONLY 0 0) }"

definition rotateBurst2 :: "signal_vector \<Rightarrow> real \<Rightarrow> signal_vector" where
  "rotateBurst2 burst phase = sv_map_samples (map (\<lambda>z. z * Complex (cos phase) (sin phase))) burst"

text \<open>The phase of a secondary (C1) coefficient: the sign that the exclusive or of two bits gives.\<close>

definition c1_phase :: "int \<Rightarrow> int \<Rightarrow> real" where
  "c1_phase a b = 2 * (if odd a = odd b then 0 else 1) - 1"

text \<open>A step of the loops over \<open>c1_itr\<close>: both iterators are at sample \<open>p\<close>.\<close>

definition c1_put :: "signal_vector \<Rightarrow> nat \<Rightarrow> real \<Rightarrow> signal_vector \<Rightarrow> signal_vector option" where
  "c1_put c0 p phase c1 = (if p < sv_size c0 then sv_put p (sv_samples c0 ! p * Complex 0 phase) c1 else None)"

fun c1_loop :: "signal_vector \<Rightarrow> bitvec \<Rightarrow> nat \<Rightarrow> nat \<Rightarrow> nat \<Rightarrow> nat \<Rightarrow> signal_vector \<Rightarrow> (nat \<times> signal_vector) option" where
  "c1_loop c0 bits sps 0 i p c1 = Some (p, c1)"
| "c1_loop c0 bits sps (Suc n) i p c1 =
     do { c1 \<leftarrow> c1_put c0 p (c1_phase (bits ! (i - 1)) (bits ! (i - 2))) c1;
          c1_loop c0 bits sps n (i + 1) (p + sps) c1 }"

definition modulateBurstLaurent :: "sig_lib \<Rightarrow> bitvec \<Rightarrow> signal_vector option option" where
  "modulateBurstLaurent L bits =
    do { pulses \<leftarrow> GSMPulse4 L;
         let sps = 4;
         let burst_len = 625;
         if length bits > 156 then Some None
         else do {
           c0_pulse \<leftarrow> ps_c0 pulses;
           c1_pulse \<leftarrow> ps_c1 pulses;
           c0_burst \<leftarrow> put_symbols sps 0 (bit_symbol 0 # map bit_symbol bits @ [bit_symbol 0])
             (sv_setReal True (sv_new burst_len (sv_size c0_pulse)));
           c0_burst \<leftarrow> GMSKRotate L c0_burst sps;
           let c0_burst = sv_setReal False c0_burst;
           c1_burst \<leftarrow> c1_put c0_burst (sps * 2) (c1_phase 1 1) (sv_new burst_len (sv_size c1_pulse));
           (p, c1_burst) \<leftarrow> c1_loop c0_burst bits sps (length bits - 2) 2 (sps * 3) c1_burst;
           c1_burst \<leftarrow> (if length bits < 2 then None
             else c1_put c0_burst p (c1_phase (bits ! (length bits - 1)) (bits ! (length bits - 2))) c1_burst);
           c0_shaped \<leftarrow> sv_convolve (sl_cpu L) (Some c0_burst) (Some c0_pulse) None START_ONLY 0 0;
           c1_shaped \<leftarrow> sv_convolve (sl_cpu L) (Some c1_burst) (Some c1_pulse) None START_ONLY 0 0;
           if sv_size c1_shaped < sv_size c0_shaped then None
           else Some (Some (sv_map_samples (\<lambda>zs. map2 (+) zs (sv_samples c1_shaped)) c0_shaped)) } }"

definition modulateBurstBasic :: "sig_lib \<Rightarrow> bitvec \<Rightarrow> int \<Rightarrow> nat \<Rightarrow> signal_vector option option" where
  "modulateBurstBasic L bits guard_len sps =
    do { pulses \<leftarrow> (if sps = 1 then GSMPulse1 L else GSMPulse4 L);
         pulse \<leftarrow> ps_c0 pulses;
         burst \<leftarrow> burst_vector (int sps * (int (length bits) + guard_len)) (sv_size pulse);
         burst \<leftarrow> put_symbols sps 0 (map bit_symbol bits) (sv_setReal True burst);
         burst \<leftarrow> GMSKRotate L burst sps;
         let burst = sv_setReal False burst;
         Some (sv_convolve (sl_cpu L) (Some burst) (Some pulse) None START_ONLY 0 0) }"

definition modulateBurst :: "sig_lib \<Rightarrow> bitvec \<Rightarrow> int \<Rightarrow> nat \<Rightarrow> bool \<Rightarrow> signal_vector option option" where
  "modulateBurst L wBurst guardPeriodLength sps emptyPulse =
    (if emptyPulse then rotateBurst L wBurst guardPeriodLength sps
     else if sps = 4 then modulateBurstLaurent L wBurst
     else modulateBurstBasic L wBurst guardPeriodLength sps)"

section \<open>8-PSK\<close>

definition edge_phase :: "nat \<Rightarrow> complex" where
  "edge_phase i = (let phase = real i * 3 * pi / 8 in Complex (cos phase) (sin phase))"

definition rotateEdgeBurst :: "signal_vector \<Rightarrow> nat \<Rightarrow> signal_vector option" where
  "rotateEdgeBurst symbols sps =
    put_symbols sps 0 (map (\<lambda>i. sv_samples symbols ! i * edge_phase i) [0..<sv_size symbols]) (sv_new (sv_size symbols * sps) 0)"

definition derotateEdgeBurst :: "signal_vector \<Rightarrow> nat \<Rightarrow> signal_vector option option" where
  "derotateEdgeBurst symbols sps =
    (if sps = 0 then None
     else if sv_size symbols mod sps \<noteq> 0 then Some None
     else Some (Some (sv_map_samples (\<lambda>_.
            map (\<lambda>i. let phase = real (i mod 16) * 3 * pi / 8
                     in sv_samples symbols ! (sps * i) * Complex (cos phase) (- sin phase)) [0..<sv_size symbols div sps])
            (sv_new (sv_size symbols div sps) 0))))"

definition psk8_index :: "bitvec \<Rightarrow> nat \<Rightarrow> nat" where
  "psk8_index bits i =
    nat (bits ! (3 * i) mod 2) + nat (bits ! (3 * i + 1) mod 2) * 2 + nat (bits ! (3 * i + 2) mod 2) * 4"

definition mapEdgeSymbols :: "bitvec \<Rightarrow> signal_vector option" where
  "mapEdgeSymbols bits =
    (if length bits mod 3 \<noteq> 0 then None
     else Some (sv_map_samples (\<lambda>_. map (\<lambda>i. psk8_table ! psk8_index bits i) [0..<length bits div 3])
            (sv_new (length bits div 3) 0)))"

definition shapeEdgeBurst :: "sig_lib \<Rightarrow> signal_vector \<Rightarrow> signal_vector option option" where
  "shapeEdgeBurst L symbols =
    do { pulses \<leftarrow> GSMPulse4 L;
         pulse \<leftarrow> ps_c0 pulses;
         let nsamps = 625;
         let sps = 4;
         let nsyms = (if sv_size symbols * sps > nsamps then 156 else sv_size symbols);
         burst \<leftarrow> put_symbols sps sps (map (\<lambda>i. sv_samples symbols ! i * edge_phase i) [0..<nsyms])
           (sv_new nsamps (sv_size pulse));
         Some (sv_convolve (sl_cpu L) (Some burst) (Some pulse) None START_ONLY 0 0) }"

definition modulateEdgeBurst :: "sig_lib \<Rightarrow> bitvec \<Rightarrow> nat \<Rightarrow> bool \<Rightarrow> signal_vector option option" where
  "modulateEdgeBurst L bits sps emptyPulse =
    (if sps \<noteq> 4 \<and> \<not> emptyPulse then Some None
     else
       case mapEdgeSymbols bits of
         None \<Rightarrow> Some None
       | Some burst \<Rightarrow> if emptyPulse then map_option Some (rotateEdgeBurst burst sps) else shapeEdgeBurst L burst)"

section \<open>Generated bursts\<close>

definition frame_guard :: "int \<Rightarrow> int" where
  "frame_guard tn = (if tn mod 4 = 0 then 1 else 0)"

definition randNormalBits :: "(nat \<Rightarrow> int) \<Rightarrow> int \<Rightarrow> bitvec" where
  "randNormalBits rnd tsc =
    replicate 3 0 @ map (\<lambda>k. rnd k mod 2) [0..<57] @ [0] @ take 26 (gTrainingSequence ! nat tsc) @ [0] @
    map (\<lambda>k. rnd k mod 2) [57..<114] @ replicate 3 0"

definition genRandNormalBurst :: "sig_lib \<Rightarrow> (nat \<Rightarrow> int) \<Rightarrow> int \<Rightarrow> nat \<Rightarrow> int \<Rightarrow> signal_vector option option" where
  "genRandNormalBurst L rnd tsc sps tn =
    (if tsc < 0 \<or> tsc > 7 \<or> tn < 0 \<or> tn > 7 then Some None
     else if sps \<noteq> 1 \<and> sps \<noteq> 4 then Some None
     else modulateBurst L (randNormalBits rnd tsc) (8 + frame_guard tn) sps False)"

text \<open>The loops of the access burst count up to \<open>delay\<close>, \<open>49 + delay\<close>, \<open>85 + delay\<close> and \<open>88 + delay\<close>.\<close>

definition randAccessBits :: "(nat \<Rightarrow> int) \<Rightarrow> int \<Rightarrow> bitvec" where
  "randAccessBits rnd delay =
    (let i1 = nat delay; i2 = max i1 (nat (49 + delay)); i3 = max i2 (nat (85 + delay)); i4 = max i3 (nat (88 + delay))
     in replicate i1 0 @ take (i2 - i1) gRACHBurst @ map (\<lambda>k. rnd k mod 2) [0..<i3 - i2] @ replicate (i4 - i3) 0)"

definition genRandAccessBurst :: "sig_lib \<Rightarrow> (nat \<Rightarrow> int) \<Rightarrow> int \<Rightarrow> nat \<Rightarrow> int \<Rightarrow> signal_vector option option" where
  "genRandAccessBurst L rnd delay sps tn =
    (if tn < 0 \<or> tn > 7 then Some None
     else if sps \<noteq> 1 \<and> sps \<noteq> 4 then Some None
     else if delay > 68 then Some None
     else if 88 + delay < 0 then None
     else modulateBurst L (randAccessBits rnd delay) (68 - delay + frame_guard tn) sps False)"

definition generateEmptyBurst :: "nat \<Rightarrow> int \<Rightarrow> signal_vector option" where
  "generateEmptyBurst sps tn =
    (if tn < 0 \<or> tn > 7 then None
     else if sps = 4 then Some (sv_new 625 0)
     else if sps = 1 then Some (sv_new (148 + 8 + nat (frame_guard tn)) 0)
     else None)"

definition generateDummyBurst :: "sig_lib \<Rightarrow> nat \<Rightarrow> int \<Rightarrow> signal_vector option option" where
  "generateDummyBurst L sps tn =
    (if (sps \<noteq> 1 \<and> sps \<noteq> 4) \<or> tn < 0 \<or> tn > 7 then Some None
     else modulateBurst L gDummyBurst (8 + frame_guard tn) sps False)"

definition edgeBurstSymbols :: "(nat \<Rightarrow> int) \<Rightarrow> nat \<Rightarrow> complex list" where
  "edgeBurstSymbols rnd tsc =
    replicate 3 (psk8_table ! 7) @ map (\<lambda>k. psk8_table ! nat (rnd k mod 8)) [0..<58] @
    map (\<lambda>n. psk8_table ! psk8_index (gEdgeTrainingSequence ! tsc) n) [0..<26] @
    map (\<lambda>k. psk8_table ! nat (rnd k mod 8)) [58..<116] @ replicate 3 (psk8_table ! 7)"

definition generateEdgeBurst :: "sig_lib \<Rightarrow> (nat \<Rightarrow> int) \<Rightarrow> int \<Rightarrow> signal_vector option option" where
  "generateEdgeBurst L rnd tsc =
    (if tsc < 0 \<or> tsc > 7 then Some None
     else shapeEdgeBurst L (sv_map_samples (\<lambda>_. edgeBurstSymbols rnd (nat tsc)) (sv_new 148 0)))"

section \<open>Soft bits\<close>

definition vectorSlicer :: "real list \<Rightarrow> real list" where
  "vectorSlicer = map (\<lambda>x. let y = 1 / 2 * (x + 1); y = (if y > 1 then 1 else y) in if y < 0 then 0 else y)"

definition softSliceEdgeBurst :: "signal_vector \<Rightarrow> real list option" where
  "softSliceEdgeBurst burst =
    (let nsyms = 148
     in if sv_size burst < nsyms then None
        else
          let burst1 = rotateBurst2 burst (- pi / 8);
              burst2 = sv_map_samples (map (\<lambda>z. Complex \<bar>Re z\<bar> \<bar>Im z\<bar>)) burst1;
              burst3 = rotateBurst2 burst2 (- pi / 4)
          in Some (concat (map (\<lambda>i. [- Im (sv_samples burst1 ! i), Re (sv_samples burst1 ! i), - Im (sv_samples burst3 ! i)])
                    [0..<nsyms])))"

definition signalToSoftVector :: "signal_vector \<Rightarrow> real list" where
  "signalToSoftVector dec = map Re (sv_samples dec)"

section \<open>Symbols in a vector\<close>

definition spread :: "nat \<Rightarrow> nat \<Rightarrow> complex list \<Rightarrow> complex list \<Rightarrow> complex list" where
  "spread sps i zs xs =
    map (\<lambda>k. if i \<le> k \<and> (k - i) mod sps = 0 \<and> (k - i) div sps < length zs then zs ! ((k - i) div sps) else xs ! k)
      [0..<length xs]"

lemma length_spread [simp]: "length (spread sps i zs xs) = length xs"
  by (simp add: spread_def)

lemma spread_Nil [simp]: "spread sps i [] xs = xs"
  by (auto simp: spread_def intro: nth_equalityI)

lemma spread_nth:
  "k < length xs \<Longrightarrow> spread sps i zs xs ! k =
    (if i \<le> k \<and> (k - i) mod sps = 0 \<and> (k - i) div sps < length zs then zs ! ((k - i) div sps) else xs ! k)"
  by (simp add: spread_def)

lemma spread_Cons:
  assumes "0 < sps" and "i < length xs"
  shows "spread sps i (z # zs) xs = spread sps (i + sps) zs (xs[i := z])"
proof (rule nth_equalityI)
  fix k assume "k < length (spread sps i (z # zs) xs)"
  then have k: "k < length xs" by simp
  then have k': "k < length (xs[i := z])" by simp
  note n = spread_nth [OF k] spread_nth [OF k']
  consider "k < i" | "k = i" | "i < k" "k < i + sps" | "i + sps \<le> k" by linarith
  then show "spread sps i (z # zs) xs ! k = spread sps (i + sps) zs (xs[i := z]) ! k"
  proof cases
    case 1
    then have "\<not> i \<le> k" "\<not> i + sps \<le> k" "i \<noteq> k" by simp_all
    then show ?thesis unfolding n by simp
  next
    case 2
    then have "\<not> i + sps \<le> i" using assms(1) by simp
    then show ?thesis unfolding n using 2 assms(2) by simp
  next
    case 3
    then have "(k - i) mod sps = k - i" "k - i \<noteq> 0" "\<not> i + sps \<le> k" "i \<noteq> k" by simp_all
    then show ?thesis unfolding n by simp
  next
    case 4
    then obtain d where d: "k = i + sps + d" by (metis le_Suc_ex)
    then have e: "k - i = d + sps" "k - (i + sps) = d" by simp_all
    have m: "(d + sps) mod sps = d mod sps" "(d + sps) div sps = Suc (d div sps)" using assms(1) by simp_all
    have "i \<le> k" "i \<noteq> k" using 4 assms(1) by simp_all
    then show ?thesis unfolding n e m using 4 by simp
  qed
qed simp

lemma put_symbols_spread:
  "sv_ok v \<Longrightarrow> 0 < sps \<Longrightarrow> zs = [] \<or> i + (length zs - 1) * sps < sv_size v \<Longrightarrow>
    put_symbols sps i zs v = Some (sv_map_samples (spread sps i zs) v)"
proof (induction zs arbitrary: i v)
  case Nil
  then show ?case by (simp add: sv_map_samples_ident cong: sv_map_samples_cong)
next
  case (Cons z zs)
  have b: "i + length zs * sps < sv_size v" using Cons.prems by simp
  then have i: "i < sv_size v" by linarith
  let ?v = "sv_map_samples (\<lambda>xs. xs[i := z]) v"
  have v: "sv_ok ?v" "sv_size ?v = sv_size v" using Cons.prems by (simp_all add: sv_size_map)
  have "zs = [] \<or> i + sps + (length zs - 1) * sps < sv_size ?v"
  proof (cases zs)
    case (Cons a as)
    then show ?thesis using b v by simp
  qed simp
  then have "put_symbols sps (i + sps) zs ?v = Some (sv_map_samples (spread sps (i + sps) zs) ?v)"
    using Cons.IH v Cons.prems by blast
  moreover have "sv_map_samples (spread sps (i + sps) zs) ?v = sv_map_samples (spread sps i (z # zs)) v"
    using i Cons.prems by (simp add: sv_map_samples_comp spread_Cons cong: sv_map_samples_cong)
  ultimately show ?case using i Cons.prems by (simp add: sv_put_map)
qed

lemma put_symbols_outside:
  "sv_ok v \<Longrightarrow> 0 < sps \<Longrightarrow> zs \<noteq> [] \<Longrightarrow> sv_size v \<le> i + (length zs - 1) * sps \<Longrightarrow> put_symbols sps i zs v = None"
proof (induction zs arbitrary: i v)
  case (Cons z zs)
  show ?case
  proof (cases "i < sv_size v")
    case True
    then have "zs \<noteq> []" using Cons.prems by auto
    then have "sv_size v \<le> i + sps + (length zs - 1) * sps" using Cons.prems(4) by (cases zs) simp_all
    then show ?thesis using True \<open>zs \<noteq> []\<close> Cons by (simp add: sv_put_map sv_size_map)
  qed (use Cons.prems in \<open>simp add: sv_put_map\<close>)
qed simp

section \<open>The 8-PSK round trip\<close>

lemma half_octant: "0 < sin (pi / 8)" "sin (pi / 8) < cos (pi / 8)"
proof -
  show "0 < sin (pi / 8)" by (rule sin_gt_zero) (use pi_gt_zero in auto)
  have "cos (pi / 2 - pi / 8) < cos (pi / 8)"
    by (rule cos_monotone_0_pi) (use pi_gt_zero in auto)
  moreover have "cos (pi / 2 - pi / 8) = sin (pi / 8)" unfolding cos_diff by simp
  ultimately show "sin (pi / 8) < cos (pi / 8)" by (simp only:)
qed

lemma psk8_sign:
  assumes "j < 8"
  defines "z1 \<equiv> psk8_table ! j * Complex (cos (- pi / 8)) (sin (- pi / 8))"
  defines "z3 \<equiv> Complex \<bar>Re z1\<bar> \<bar>Im z1\<bar> * Complex (cos (- pi / 4)) (sin (- pi / 4))"
  shows "(0 < - Im z1) = odd j" "(0 < Re z1) = odd (j div 2)" "(0 < - Im z3) = odd (j div 4)"
proof -
  have "j \<in> {0, 1, 2, 3, 4, 5, 6, 7}" using assms(1) by auto
  then show "(0 < - Im z1) = odd j" "(0 < Re z1) = odd (j div 2)"
    unfolding z1_def using half_octant by (auto simp: psk8_table_def algebra_simps)
  have "(0 < - Im z3) = (\<bar>Im z1\<bar> < \<bar>Re z1\<bar>)"
    unfolding z3_def using cos_gt_zero_pi [of "pi / 4"] pi_gt_zero
    by (simp add: cos_45 sin_45 algebra_simps)
  moreover have "(\<bar>Im z1\<bar> < \<bar>Re z1\<bar>) = odd (j div 4)"
    using \<open>j \<in> _\<close> unfolding z1_def using half_octant by (auto simp: psk8_table_def algebra_simps abs_if)
  ultimately show "(0 < - Im z3) = odd (j div 4)" by simp
qed

lemma whole_turns: "cos (x + real n * (2 * pi)) = cos x \<and> sin (x + real n * (2 * pi)) = sin x"
proof (induction n)
  case (Suc n)
  have "x + real (Suc n) * (2 * pi) = (x + real n * (2 * pi)) + 2 * pi" by (simp add: algebra_simps)
  then show ?case using Suc by (metis cos_periodic sin_periodic)
qed simp

lemma edge_phase_periodic: "edge_phase i * Complex (cos (real (i mod 16) * 3 * pi / 8)) (- sin (real (i mod 16) * 3 * pi / 8)) = 1"
proof -
  let ?a = "real i * 3 * pi / 8" and ?b = "real (i mod 16) * 3 * pi / 8"
  have "i = 16 * (i div 16) + i mod 16" by simp
  then have "real i = real (16 * (i div 16) + i mod 16)" by (rule arg_cong)
  also have "\<dots> = 16 * real (i div 16) + real (i mod 16)" unfolding of_nat_add of_nat_mult by simp
  finally have "real i = 16 * real (i div 16) + real (i mod 16)" .
  then have "?a = ?b + real (3 * (i div 16)) * (2 * pi)" by (simp add: field_simps)
  then have "cos ?a = cos ?b" "sin ?a = sin ?b" using whole_turns [of ?b "3 * (i div 16)"] by (simp_all only: simp_thms)
  then show ?thesis
    by (simp add: edge_phase_def Let_def complex_eq_iff)
qed

lemma concat_triples_nth:
  "k < 3 * n \<Longrightarrow> concat (map (\<lambda>i. [f i, g i, h i]) [0..<n]) ! k =
    (if k mod 3 = 0 then f (k div 3) else if k mod 3 = 1 then g (k div 3) else h (k div 3))"
proof (induction n arbitrary: k)
  case (Suc n)
  have l: "length (concat (map (\<lambda>i. [f i, g i, h i]) [0..<n])) = 3 * n" by (induction n) simp_all
  show ?case
  proof (cases "k < 3 * n")
    case True
    then show ?thesis using Suc by (simp add: nth_append l)
  next
    case False
    then have "k = 3 * n \<or> k = 3 * n + 1 \<or> k = 3 * n + 2" using Suc.prems by presburger
    moreover have "3 * n mod 3 = 0" "3 * n div 3 = n" "(3 * n + 1) mod 3 = 1" "(3 * n + 1) div 3 = n" "(3 * n + 2) mod 3 = 2"
      "(3 * n + 2) div 3 = n" by presburger+
    ultimately show ?thesis by (elim disjE) (simp_all add: nth_append l)
  qed
qed simp

lemma psk8_index_bits:
  "psk8_index bits i < 8" "odd (psk8_index bits i) = odd (bits ! (3 * i))"
  "odd (psk8_index bits i div 2) = odd (bits ! (3 * i + 1))" "odd (psk8_index bits i div 4) = odd (bits ! (3 * i + 2))"
proof -
  have "bits ! k mod 2 = 0 \<and> even (bits ! k) \<or> bits ! k mod 2 = 1 \<and> odd (bits ! k)" for k by presburger
  from this [of "3 * i"] this [of "3 * i + 1"] this [of "3 * i + 2"]
  show "psk8_index bits i < 8" "odd (psk8_index bits i) = odd (bits ! (3 * i))"
    "odd (psk8_index bits i div 2) = odd (bits ! (3 * i + 1))" "odd (psk8_index bits i div 4) = odd (bits ! (3 * i + 2))"
    unfolding psk8_index_def by auto
qed

lemma mapEdgeSymbols_samples:
  assumes "length bits = 3 * n"
  shows "\<exists>s. mapEdgeSymbols bits = Some s \<and> sv_ok s \<and> sv_samples s = map (\<lambda>i. psk8_table ! psk8_index bits i) [0..<n]"
  using assms by (simp add: mapEdgeSymbols_def sv_samples_map sv_map_samples_simps)

lemma rotateEdgeBurst_samples:
  assumes "0 < sps"
  shows "\<exists>r. rotateEdgeBurst s sps = Some r \<and> sv_ok r \<and> sv_size r = sv_size s * sps \<and>
    (\<forall>i < sv_size s. sv_samples r ! (sps * i) = sv_samples s ! i * edge_phase i)"
proof -
  let ?v = "sv_new (sv_size s * sps) 0" and ?zs = "map (\<lambda>i. sv_samples s ! i * edge_phase i) [0..<sv_size s]"
  have "?zs = [] \<or> 0 + (length ?zs - 1) * sps < sv_size ?v"
    using assms by (cases "sv_size s") simp_all
  then have r: "rotateEdgeBurst s sps = Some (sv_map_samples (spread sps 0 ?zs) ?v)"
    unfolding rotateEdgeBurst_def using assms by (intro put_symbols_spread) simp_all
  have "sv_samples (sv_map_samples (spread sps 0 ?zs) ?v) ! (sps * i) = sv_samples s ! i * edge_phase i" if "i < sv_size s" for i
  proof -
    have "sps * i < sv_size s * sps" using that assms by (simp add: mult.commute)
    then show ?thesis using that assms by (simp add: sv_samples_map spread_nth)
  qed
  then show ?thesis using r by (simp add: sv_size_map)
qed

lemma derotateEdgeBurst_samples:
  assumes "0 < sps" and "sv_size r = n * sps" and "\<forall>i < n. sv_samples r ! (sps * i) = f i * edge_phase i"
  shows "\<exists>d. derotateEdgeBurst r sps = Some (Some d) \<and> sv_ok d \<and> sv_samples d = map f [0..<n]"
proof -
  have "f i * edge_phase i * Complex (cos (real (i mod 16) * 3 * pi / 8)) (- sin (real (i mod 16) * 3 * pi / 8)) = f i" for i
    by (simp only: mult.assoc [of "f i"] edge_phase_periodic mult_1_right)
  then show ?thesis using assms by (simp add: derotateEdgeBurst_def sv_samples_map Let_def)
qed

lemma triples_signs:
  fixes f g h :: "nat \<Rightarrow> real"
  assumes "length bits = 3 * n" and "\<And>i. i < n \<Longrightarrow> (0 < f i) = odd (bits ! (3 * i))"
    and "\<And>i. i < n \<Longrightarrow> (0 < g i) = odd (bits ! (3 * i + 1))" and "\<And>i. i < n \<Longrightarrow> (0 < h i) = odd (bits ! (3 * i + 2))"
  shows "map (\<lambda>x. 0 < x) (concat (map (\<lambda>i. [f i, g i, h i]) [0..<n])) = hard_bits bits"
proof -
  have l: "length (concat (map (\<lambda>i. [f i, g i, h i]) [0..<n])) = 3 * n" by (induction n) simp_all
  show ?thesis
  proof (rule nth_equalityI)
    show "length (map (\<lambda>x. 0 < x) (concat (map (\<lambda>i. [f i, g i, h i]) [0..<n]))) = length (hard_bits bits)"
      unfolding length_map l by (simp add: hard_bits_def assms(1))
    fix k assume "k < length (map (\<lambda>x. 0 < x) (concat (map (\<lambda>i. [f i, g i, h i]) [0..<n])))"
    then have k: "k < 3 * n" unfolding length_map l .
    then have d: "k div 3 < n" by presburger
    have "k mod 3 = 0 \<and> 3 * (k div 3) = k \<or> k mod 3 = 1 \<and> 3 * (k div 3) + 1 = k \<or> k mod 3 = 2 \<and> 3 * (k div 3) + 2 = k"
      by presburger
    then have "(0 < concat (map (\<lambda>i. [f i, g i, h i]) [0..<n]) ! k) = odd (bits ! k)"
      unfolding concat_triples_nth [OF k] using assms(2-4) [OF d] by (elim disjE conjE) (simp_all del: One_nat_def)
    then show "map (\<lambda>x. 0 < x) (concat (map (\<lambda>i. [f i, g i, h i]) [0..<n])) ! k = hard_bits bits ! k"
      using k l assms(1) by (simp add: hard_bits_def)
  qed
qed

lemma softSlice_hard_bits:
  assumes "sv_ok d" and "sv_samples d = map (\<lambda>i. psk8_table ! psk8_index bits i) [0..<148]" and "length bits = 444"
  shows "\<exists>soft. softSliceEdgeBurst d = Some soft \<and> map (\<lambda>x. 0 < x) soft = hard_bits bits"
proof -
  let ?z1 = "\<lambda>i. psk8_table ! psk8_index bits i * Complex (cos (- pi / 8)) (sin (- pi / 8))"
  let ?z3 = "\<lambda>i. Complex \<bar>Re (?z1 i)\<bar> \<bar>Im (?z1 i)\<bar> * Complex (cos (- pi / 4)) (sin (- pi / 4))"
  have n: "sv_size d = 148" using assms(2) by (metis length_sv_samples length_map length_upt diff_zero)
  have "softSliceEdgeBurst d = Some (concat (map (\<lambda>i. [- Im (?z1 i), Re (?z1 i), - Im (?z3 i)]) [0..<148]))"
    using n assms(1,2)
    by (simp add: softSliceEdgeBurst_def Let_def rotateBurst2_def sv_samples_map)
      (intro arg_cong [of _ _ concat] map_cong, simp_all)
  moreover note sg = psk8_sign [OF psk8_index_bits(1) [of bits], unfolded psk8_index_bits]
  have "map (\<lambda>x. 0 < x) (concat (map (\<lambda>i. [- Im (?z1 i), Re (?z1 i), - Im (?z3 i)]) [0..<148])) = hard_bits bits"
    by (rule triples_signs) (simp add: assms(3), rule sg(1), rule sg(2), rule sg(3))
  ultimately show ?thesis by blast
qed

text \<open>C20. 8-PSK is invertible: 444 bits of an EDGE burst, mapped to symbols and rotated at any number of samples per
  symbol, come back as soft bits of the right sign when the samples are derotated and sliced.\<close>

theorem edge_burst_roundtrip:
  assumes "length bits = 444" and "0 < sps"
  shows "\<exists>burst derot soft. modulateEdgeBurst L bits sps True = Some (Some burst) \<and>
    derotateEdgeBurst burst sps = Some (Some derot) \<and> softSliceEdgeBurst derot = Some soft \<and>
    map (\<lambda>x. 0 < x) soft = hard_bits bits"
proof -
  note sps = assms(2)
  obtain s where s: "mapEdgeSymbols bits = Some s" "sv_samples s = map (\<lambda>i. psk8_table ! psk8_index bits i) [0..<148]"
    using mapEdgeSymbols_samples [of bits 148] assms(1) by auto
  then have n: "sv_size s = 148" by (metis length_sv_samples length_map length_upt diff_zero)
  obtain r where r: "rotateEdgeBurst s sps = Some r" "sv_size r = 148 * sps"
    and rs: "\<forall>i < 148. sv_samples r ! (sps * i) = psk8_table ! psk8_index bits i * edge_phase i"
    using rotateEdgeBurst_samples [OF sps, of s] s n by auto
  obtain d where d: "derotateEdgeBurst r sps = Some (Some d)" "sv_ok d"
      "sv_samples d = map (\<lambda>i. psk8_table ! psk8_index bits i) [0..<148]"
    using derotateEdgeBurst_samples [OF sps r(2) rs] by auto
  obtain soft where "softSliceEdgeBurst d = Some soft" "map (\<lambda>x. 0 < x) soft = hard_bits bits"
    using softSlice_hard_bits [OF d(2,3) assms(1)] by auto
  then show ?thesis using s r d by (simp add: modulateEdgeBurst_def)
qed

theorem edge_burst_roundtrip_witness:
  "\<exists>burst derot soft. modulateEdgeBurst (sig_initial (convolve_init True)) (concat (replicate 74 [1, 0, 0, 1, 1, 0])) 4 True = Some (Some burst) \<and>
    derotateEdgeBurst burst 4 = Some (Some derot) \<and> softSliceEdgeBurst derot = Some soft \<and>
    map (\<lambda>x. 0 < x) soft = concat (replicate 74 [True, False, False, True, True, False])"
proof -
  have "hard_bits (concat (replicate n [1, 0, 0, 1, 1, 0])) = concat (replicate n [True, False, False, True, True, False])" for n
    by (induction n) (simp_all add: hard_bits_def)
  then show ?thesis
    using edge_burst_roundtrip [of "concat (replicate 74 [1, 0, 0, 1, 1, 0])" 4 "sig_initial (convolve_init True)"]
    by (simp add: length_concat sum_list_replicate)
qed

section \<open>GMSK waveforms\<close>

text \<open>A signal that has the values \<open>f m\<close> at the symbols from \<open>lo\<close> to before \<open>hi\<close> and nothing in between.\<close>

definition at_symbols :: "nat \<Rightarrow> nat \<Rightarrow> nat \<Rightarrow> (nat \<Rightarrow> complex) \<Rightarrow> int \<Rightarrow> complex" where
  "at_symbols sps lo hi f i =
    (if 0 \<le> i \<and> nat i mod sps = 0 \<and> lo \<le> nat i div sps \<and> nat i div sps < hi then f (nat i div sps) else 0)"

text \<open>The symbol of a bit turns by a quarter per symbol. The secondary pulse gets the same symbols, turned by another
  quarter whose sign depends on the two bits before.\<close>

definition gmsk_symbol :: "bitvec \<Rightarrow> nat \<Rightarrow> complex" where
  "gmsk_symbol bits m = cis (real m * pi / 2) * bit_symbol (bits ! m)"

definition laurent_c0 :: "bitvec \<Rightarrow> nat \<Rightarrow> complex" where
  "laurent_c0 bits = gmsk_symbol (0 # bits @ [0])"

definition laurent_c1 :: "bitvec \<Rightarrow> nat \<Rightarrow> complex" where
  "laurent_c1 bits m =
    laurent_c0 bits m * Complex 0 (if m = 2 then - 1 else if odd (bits ! (m - 2)) = odd (bits ! (m - 3)) then - 1 else 1)"

lemma phase_loop_nth:
  "i < n \<Longrightarrow> phase_loop n dir phase incr ! i = cis (dir * (phase + real i * incr))"
proof (induction n arbitrary: i phase)
  case (Suc n)
  show ?case
  proof (cases i)
    case (Suc j)
    then show ?thesis using Suc.IH [of j "phase + incr"] Suc.prems by (simp add: algebra_simps)
  qed (simp add: complex_eq_iff)
qed simp

lemma length_phase_loop [simp]: "length (phase_loop n dir phase incr) = n"
  by (induction n arbitrary: phase) simp_all

lemma rotate_by_samples:
  assumes "sv_ok x" and "sv_size x \<le> sv_size rot"
  shows "\<exists>y. rotate_by rot x = Some y \<and> sv_ok y \<and> sv_size y = sv_size x \<and> sv_start y = sv_start x \<and>
    sv_isReal y = sv_isReal x \<and> sv_aligned y = sv_aligned x \<and>
    take (sv_start y) (sv_data y) = take (sv_start x) (sv_data x) \<and>
    (\<forall>i < sv_size x. sv_samples y ! i =
      sv_samples rot ! i * (if sv_isReal x then of_real (Re (sv_samples x ! i)) else sv_samples x ! i))"
proof -
  have t: "take (sv_start x) (sv_data (sv_map_samples f x)) = take (sv_start x) (sv_data x)" for f
    using assms(1) by (simp add: sv_map_samples_def sv_ok_def)
  show ?thesis
    using assms by (cases "sv_isReal x") (simp_all add: rotate_by_def sv_samples_map sv_size_map t)
qed

text \<open>What the modulators need from the set-up of the library.\<close>

definition sig_modem_ready :: "sig_lib \<Rightarrow> bool" where
  "sig_modem_ready L =
    ((\<exists>sse3. sl_cpu L = convolve_init sse3) \<and>
     (\<exists>L'. GMSKRotation4 L = GMSKRotation4 (initGMSKRotationTables L') \<and>
       GMSKRotation1 L = GMSKRotation1 (initGMSKRotationTables L') \<and>
       GMSKReverseRotation4 L = GMSKReverseRotation4 (initGMSKRotationTables L') \<and>
       GMSKReverseRotation1 L = GMSKReverseRotation1 (initGMSKRotationTables L')) \<and>
     GSMPulse1 L = generateGSMPulse 1 \<and> GSMPulse4 L = generateGSMPulse 4)"

lemma rotation_tables:
  assumes "sig_modem_ready L" and "sps = 1 \<or> sps = 4"
  obtains rot rev where "(if sps = 1 then GMSKRotation1 L else GMSKRotation4 L) = Some rot"
    and "(if sps = 1 then GMSKReverseRotation1 L else GMSKReverseRotation4 L) = Some rev"
    and "sv_size rot = (if sps = 1 then 157 else 625)" and "sv_size rev = (if sps = 1 then 157 else 625)"
    and "\<And>i. i < sv_size rot \<Longrightarrow> sv_samples rot ! i = cis (real i * pi / (2 * real sps))"
    and "\<And>i. i < sv_size rev \<Longrightarrow> sv_samples rev ! i = cis (- (real i * pi / (2 * real sps)))"
proof -
  let ?rot = "the (if sps = 1 then GMSKRotation1 L else GMSKRotation4 L)"
  let ?rev = "the (if sps = 1 then GMSKReverseRotation1 L else GMSKReverseRotation4 L)"
  show thesis
    by (rule that [of ?rot ?rev])
      (use assms in \<open>auto simp: sig_modem_ready_def initGMSKRotationTables_def sv_size_map sv_samples_map phase_loop_nth\<close>)
qed

definition sv_quiet :: "signal_vector \<Rightarrow> bool" where
  "sv_quiet v = (sv_ok v \<and> take (sv_start v) (sv_data v) = replicate (sv_start v) 0)"

lemma sv_at_quiet:
  assumes "sv_quiet v"
  shows "sv_at v i = sv_sample v i"
proof (cases "0 \<le> i")
  case True
  then have "nat (i + int (sv_start v)) = sv_start v + nat i" by simp
  then show ?thesis using True assms
    by (auto simp: sv_at_def sv_sample_def sv_samples_def sv_size_def Let_def sv_quiet_def sv_ok_def)
next
  case False
  have "sv_data v ! k = 0" if "k < sv_start v" for k
  proof -
    have "take (sv_start v) (sv_data v) ! k = replicate (sv_start v) 0 ! k" using assms by (simp add: sv_quiet_def)
    then show ?thesis using that by simp
  qed
  then show ?thesis using False by (auto simp: sv_at_def sv_sample_def Let_def)
qed

lemma conv_input_quiet: "sv_quiet x \<Longrightarrow> conv_input spanType x h = sv_sample x"
  by (rule ext) (simp add: conv_input_def sv_at_quiet)

lemma sv_quiet_simps [simp]:
  "sv_quiet (sv_new n st)" "sv_quiet v \<Longrightarrow> sv_quiet (sv_map_samples f v)" "sv_quiet (sv_setReal b v) = sv_quiet v"
  "sv_quiet (sv_assign v w) = sv_quiet w"
  by (auto simp: sv_quiet_def sv_new_def sv_ok_def sv_map_samples_def sv_setReal_def sv_assign_def)

lemma sv_sample_outside: "\<not> (0 \<le> i \<and> i < int (sv_size v)) \<Longrightarrow> sv_sample v i = 0"
  unfolding sv_sample_def by (rule if_not_P)

lemma at_symbols_nat:
  "at_symbols sps lo hi f (int m) = (if m mod sps = 0 \<and> lo \<le> m div sps \<and> m div sps < hi then f (m div sps) else 0)"
  by (simp add: at_symbols_def)

lemma at_symbols_outside:
  assumes "0 < sps" and "hi = 0 \<or> (hi - 1) * sps < N" and "int N \<le> i"
  shows "at_symbols sps lo hi f i = 0"
proof (rule ccontr)
  assume "at_symbols sps lo hi f i \<noteq> 0"
  then have h: "nat i div sps < hi" "nat i mod sps = 0" by (auto simp: at_symbols_def split: if_splits)
  then have "nat i = nat i div sps * sps" by auto
  also have "\<dots> \<le> (hi - 1) * sps" using h(1) by (intro mult_right_mono) simp_all
  finally show False using assms h by auto
qed

lemma bit_symbol_real [simp]: "of_real (Re (bit_symbol b)) = bit_symbol b"
  by (simp add: bit_symbol_def complex_eq_iff)

lemma gmsk_waveform:
  assumes "sig_modem_ready L" and "sps = 1 \<or> sps = 4" and "N \<le> (if sps = 1 then 157 else 625)"
    and "sv_quiet v" and "sv_samples v = replicate N 0" and "bs = [] \<or> (length bs - 1) * sps < N"
  obtains v1 y where "put_symbols sps 0 (map bit_symbol bs) v = Some v1" and "GMSKRotate L v1 sps = Some y"
    and "sv_quiet y" and "sv_size y = N" and "sv_start y = sv_start v" and "sv_aligned y = sv_aligned v"
    and "\<And>i. sv_sample y i = at_symbols sps 0 (length bs) (gmsk_symbol bs) i"
proof -
  have sps: "0 < sps" using assms(2) by auto
  have N: "sv_size v = N" using assms(5) by (metis length_sv_samples length_replicate)
  let ?v1 = "sv_map_samples (spread sps 0 (map bit_symbol bs)) v"
  have ok: "sv_ok v" using assms(4) by (simp add: sv_quiet_def)
  have 1: "put_symbols sps 0 (map bit_symbol bs) v = Some ?v1"
    using put_symbols_spread [OF ok sps, of "map bit_symbol bs" 0] assms(6) N by simp
  have s1: "sv_samples ?v1 = spread sps 0 (map bit_symbol bs) (replicate N 0)" "sv_size ?v1 = N" "sv_ok ?v1" "sv_quiet ?v1"
    using ok assms(4,5) by (simp_all add: sv_samples_map sv_size_map)
  obtain rot where rot: "(if sps = 1 then GMSKRotation1 L else GMSKRotation4 L) = Some rot"
    "sv_size rot = (if sps = 1 then 157 else 625)" "\<And>i. i < sv_size rot \<Longrightarrow> sv_samples rot ! i = cis (real i * pi / (2 * real sps))"
    by (rule rotation_tables [OF assms(1,2)]) blast
  obtain y where y: "rotate_by rot ?v1 = Some y" "sv_ok y" "sv_size y = N" "sv_start y = sv_start ?v1" "sv_aligned y = sv_aligned ?v1"
    "take (sv_start y) (sv_data y) = take (sv_start ?v1) (sv_data ?v1)"
    and ys: "\<forall>i < N. sv_samples y ! i =
      sv_samples rot ! i * (if sv_isReal ?v1 then of_real (Re (sv_samples ?v1 ! i)) else sv_samples ?v1 ! i)"
    using rotate_by_samples [OF s1(3), of rot] s1(2) rot(2) assms(3) by auto
  have q: "sv_quiet y" using y s1(4) by (simp add: sv_quiet_def)
  have "sv_sample y i = at_symbols sps 0 (length bs) (gmsk_symbol bs) i" for i
  proof (cases "0 \<le> i \<and> i < int N")
    case True
    then obtain m where m: "i = int m" "m < N" by (metis nonneg_int_cases of_nat_less_iff)
    have e: "sv_samples rot ! m = cis (real (m div sps) * pi / 2)" if "m mod sps = 0"
    proof -
      have "m = m div sps * sps" using that by auto
      then have "real m = real (m div sps) * real sps" by (metis of_nat_mult)
      moreover have "sv_samples rot ! m = cis (real m * pi / (2 * real sps))" using m(2) rot(2,3) assms(3) by simp
      ultimately show ?thesis using sps by simp
    qed
    have "sv_samples y ! m = at_symbols sps 0 (length bs) (gmsk_symbol bs) i"
    proof (cases "m mod sps = 0 \<and> m div sps < length bs")
      case True
      then show ?thesis using ys m e by (simp add: s1(1) spread_nth at_symbols_def gmsk_symbol_def)
    next
      case False
      then show ?thesis using ys m by (auto simp: s1(1) spread_nth at_symbols_def)
    qed
    then have "sv_samples y ! nat i = at_symbols sps 0 (length bs) (gmsk_symbol bs) i" using m(1) by simp
    then show ?thesis using True y(3) by (simp add: sv_sample_def)
  next
    case False
    then show ?thesis
    proof (cases "i < 0")
      case False
      then have "at_symbols sps 0 (length bs) (gmsk_symbol bs) i = 0"
        using \<open>\<not> (0 \<le> i \<and> i < int N)\<close> assms(6) sps by (intro at_symbols_outside [where N = N]) auto
      then show ?thesis using sv_sample_outside [of i y] \<open>\<not> (0 \<le> i \<and> i < int N)\<close> unfolding y(3) by simp
    qed (simp add: sv_sample_def at_symbols_def)
  qed
  then show thesis using that [OF 1 _ q y(3)] rot(1) y(1,4,5) by (simp add: GMSKRotate_def)
qed

text \<open>The filters that follow: each output is the sum of the taps over the waveform.\<close>

lemma shaped_burst:
  assumes "sl_cpu L = convolve_init sse3" and "sv_quiet x" and "0 < sv_size h" and "sv_size h \<le> sv_size x"
  shows "\<exists>y. sv_convolve (sl_cpu L) (Some x) (Some h) None START_ONLY 0 0 = Some y \<and> sv_quiet y \<and> sv_start y = 0 \<and>
    sv_isReal y = False \<and> sv_aligned y = False \<and>
    sv_samples y = map (\<lambda>i. conv_at (sv_sample x) h (int i)) [0..<sv_size x]"
proof -
  have "sv_ok x" using assms(2) by (simp add: sv_quiet_def)
  then obtain y where y: "sv_convolve (convolve_init sse3) (Some x) (Some h) None START_ONLY 0 0 = Some y"
    "sv_samples y = map (\<lambda>i. conv_at (conv_input START_ONLY x h) h (int 0 + int i)) [0..<sv_size x]"
    "y = sv_map_samples (\<lambda>_. sv_samples y) (sv_new (sv_size x) 0)"
    using sv_convolve_aux [where y = None and spanType = START_ONLY and x = x and h = h and start = 0 and len = 0 and s = 0
        and n = "sv_size x" and ?sse3.0 = sse3] assms(3,4)
    by (auto simp: conv_range_def conv_fits_def)
  have "sv_quiet y" "sv_start y = 0" "sv_isReal y = False" "sv_aligned y = False" by (subst y(3), simp)+
  then show ?thesis using y assms(1) by (simp add: conv_input_quiet [OF assms(2)])
qed

lemma sv_sample_setReal [simp]: "sv_sample (sv_setReal b v) = sv_sample v"
  by (rule ext) (simp add: sv_sample_def)

lemma conv_at_one: "sv_size h = 1 \<Longrightarrow> conv_at f h s = f s * sv_tap h 0"
  by (simp add: conv_at_def)

lemma pulse1_empty:
  assumes "sig_modem_ready L"
  obtains ps h where "GSMPulse1 L = Some ps" and "ps_empty ps = Some h" and "sv_size h = 1" and "sv_tap h 0 = 1"
  using assms by (auto simp: sig_modem_ready_def generateGSMPulse_def generateInvertC0Pulse_def Let_def sv_tap_def sv_at_def
      sv_map_samples_def sv_new_def sv_size_def)

lemma burst_vector_nat: "0 \<le> n \<Longrightarrow> burst_vector n st = Some (sv_new (nat n) st)"
  by (simp add: burst_vector_def)

lemma rotateBurst_waveform:
  assumes "sig_modem_ready L" and "sps = 1 \<or> sps = 4" and "0 \<le> guard" and "wBurst \<noteq> []"
    and "sps * (length wBurst + nat guard) \<le> (if sps = 1 then 157 else 625)"
  shows "\<exists>y. rotateBurst L wBurst guard sps = Some (Some y) \<and> sv_quiet y \<and> sv_start y = 0 \<and> sv_isReal y = False \<and>
    sv_aligned y = False \<and> sv_size y = sps * (length wBurst + nat guard) \<and>
    sv_sample y = at_symbols sps 0 (length wBurst) (gmsk_symbol wBurst)"
proof -
  let ?N = "sps * (length wBurst + nat guard)"
  have sps: "0 < sps" using assms(2) by auto
  have N: "int sps * (int (length wBurst) + guard) = int ?N" using assms(3) by simp
  have "(length wBurst - 1) * sps < length wBurst * sps" using assms(4) sps by (cases wBurst) simp_all
  also have "\<dots> \<le> ?N" by (simp add: algebra_simps)
  finally have b: "wBurst = [] \<or> (length wBurst - 1) * sps < ?N" by blast
  have q: "sv_quiet (sv_assign (sv_new 0 0) (sv_new ?N 0))" and
    z: "sv_samples (sv_assign (sv_new 0 0) (sv_new ?N 0)) = replicate ?N 0" by simp_all
  obtain v1 y where v1: "put_symbols sps 0 (map bit_symbol wBurst) (sv_assign (sv_new 0 0) (sv_new ?N 0)) = Some v1"
    and y: "GMSKRotate L v1 sps = Some y" "sv_quiet y" "sv_size y = ?N"
    and ys: "\<And>i. sv_sample y i = at_symbols sps 0 (length wBurst) (gmsk_symbol wBurst) i"
    by (rule gmsk_waveform [OF assms(1,2,5) q z b]) blast
  obtain ps h where h: "GSMPulse1 L = Some ps" "ps_empty ps = Some h" "sv_size h = 1" "sv_tap h 0 = 1"
    by (rule pulse1_empty [OF assms(1)])
  obtain sse3 where c: "sl_cpu L = convolve_init sse3" using assms(1) by (auto simp: sig_modem_ready_def)
  have n: "0 < ?N" using sps assms(4) by simp
  have sz: "sv_size (sv_setReal False y) = ?N" and q3: "sv_quiet (sv_setReal False y)" "0 < sv_size h"
    using y h(3) by simp_all
  have q3': "sv_size h \<le> sv_size (sv_setReal False y)" using n unfolding sz h(3) by linarith
  obtain w where w: "sv_convolve (sl_cpu L) (Some (sv_setReal False y)) (Some h) None START_ONLY 0 0 = Some w"
    "sv_quiet w" "sv_start w = 0" "sv_isReal w = False" "sv_aligned w = False"
    "sv_samples w = map (\<lambda>i. conv_at (sv_sample (sv_setReal False y)) h (int i)) [0..<?N]"
    using shaped_burst [OF c q3 q3', unfolded sz] by blast
  have ws: "sv_size w = ?N" using w(6) by (metis length_sv_samples length_map length_upt diff_zero)
  have "sv_sample w i = at_symbols sps 0 (length wBurst) (gmsk_symbol wBurst) i" for i
  proof (cases "0 \<le> i \<and> i < int ?N")
    case True
    then have "nat i < ?N" by linarith
    then show ?thesis using True ws w(6) ys h by (simp add: sv_sample_def [of w] conv_at_one)
  next
    case False
    then show ?thesis using ys [of i] sv_sample_outside [of i y] sv_sample_outside [of i w] unfolding ws y(3) by simp
  qed
  then have "sv_sample w = at_symbols sps 0 (length wBurst) (gmsk_symbol wBurst)" by (rule ext)
  moreover have "rotateBurst L wBurst guard sps = Some (Some w)"
    unfolding rotateBurst_def N burst_vector_nat [OF of_nat_0_le_iff] nat_int using h(1,2) v1 y(1) w(1) by simp
  ultimately show ?thesis using w ws by blast
qed

lemma real_taps_size [simp]: "sv_size (real_taps xs al) = length xs" "sv_aligned (real_taps xs al) = al"
  "sv_isReal (real_taps xs al) = True" "sv_ok (real_taps xs al)"
  by (simp_all add: real_taps_def sv_size_def sv_wrap_def sv_ok_def)

lemma pulse_c0:
  assumes "sig_modem_ready L" and "(sps::nat) = 1 \<or> sps = 4"
  obtains ps h where "(if sps = 1 then GSMPulse1 L else GSMPulse4 L) = Some ps" and "ps_c0 ps = Some h"
    and "sv_size h = 4 * (if sps = 1 then 1 else 4)"
  using assms by (auto simp: sig_modem_ready_def generateGSMPulse_def generateInvertC0Pulse_def generateC1Pulse_def Let_def)

lemma modulateBurstBasic_waveform:
  assumes "sig_modem_ready L" and "sps = 1 \<or> sps = 4" and "0 \<le> guard" and "bits \<noteq> []"
    and "4 \<le> length bits + nat guard" and "sps * (length bits + nat guard) \<le> (if sps = 1 then 157 else 625)"
    and "(if sps = 1 then GSMPulse1 L else GSMPulse4 L) = Some ps" and "ps_c0 ps = Some h"
  shows "\<exists>y. modulateBurstBasic L bits guard sps = Some (Some y) \<and> sv_quiet y \<and> sv_start y = 0 \<and> sv_isReal y = False \<and>
    sv_samples y = map (\<lambda>i. conv_at (at_symbols sps 0 (length bits) (gmsk_symbol bits)) h (int i))
      [0..<sps * (length bits + nat guard)]"
proof -
  let ?N = "sps * (length bits + nat guard)" and ?v = "sv_setReal True (sv_new (sps * (length bits + nat guard)) (sv_size h))"
  have sps: "0 < sps" using assms(2) by auto
  have N: "int sps * (int (length bits) + guard) = int ?N" using assms(3) by simp
  have "(length bits - 1) * sps < length bits * sps" using assms(4) sps by (cases bits) simp_all
  also have "\<dots> \<le> ?N" by (simp add: algebra_simps)
  finally have b: "bits = [] \<or> (length bits - 1) * sps < ?N" by blast
  have q: "sv_quiet ?v" and z: "sv_samples ?v = replicate ?N 0" by simp_all
  obtain v1 y where v1: "put_symbols sps 0 (map bit_symbol bits) ?v = Some v1"
    and y: "GMSKRotate L v1 sps = Some y" "sv_quiet y" "sv_size y = ?N"
    and ys: "\<And>i. sv_sample y i = at_symbols sps 0 (length bits) (gmsk_symbol bits) i"
    by (rule gmsk_waveform [OF assms(1,2,6) q z b]) blast
  have h: "sv_size h = 4 * (if sps = 1 then 1 else 4)"
    using pulse_c0 [OF assms(1,2)] assms(7,8) by (metis option.inject)
  obtain sse3 where c: "sl_cpu L = convolve_init sse3" using assms(1) by (auto simp: sig_modem_ready_def)
  have n: "0 < sv_size h" "sv_size h \<le> ?N" using h assms(2,5) by auto
  have sz: "sv_size (sv_setReal False y) = ?N" and q3: "sv_quiet (sv_setReal False y)" "0 < sv_size h"
    "sv_size h \<le> sv_size (sv_setReal False y)" using y n by simp_all
  have sr: "sv_sample (sv_setReal False y) = at_symbols sps 0 (length bits) (gmsk_symbol bits)"
    using ys by (intro ext) simp
  obtain w where w: "sv_convolve (sl_cpu L) (Some (sv_setReal False y)) (Some h) None START_ONLY 0 0 = Some w"
    "sv_quiet w" "sv_start w = 0" "sv_isReal w = False"
    "sv_samples w = map (\<lambda>i. conv_at (sv_sample (sv_setReal False y)) h (int i)) [0..<?N]"
    using shaped_burst [OF c q3, unfolded sz] by blast
  have "modulateBurstBasic L bits guard sps = Some (Some w)"
    unfolding modulateBurstBasic_def N burst_vector_nat [OF of_nat_0_le_iff] nat_int using assms(7,8) v1 y(1) w(1) by simp
  then show ?thesis using w sr by auto
qed

lemma put_symbols_append:
  "put_symbols sps i (xs @ ys) v = Option.bind (put_symbols sps i xs v) (put_symbols sps (i + length xs * sps) ys)"
proof (induction xs arbitrary: i v)
  case (Cons x xs)
  have e: "i + length (x # xs) * sps = i + sps + length xs * sps" by simp
  show ?case unfolding e by (cases "sv_put i x v") (simp_all add: Cons.IH)
qed simp

lemma c1_loop_put:
  "\<forall>k < n. p + k * sps < sv_size c0 \<Longrightarrow> c1_loop c0 bits sps n i p c1 =
    map_option (Pair (p + n * sps)) (put_symbols sps p
      (map (\<lambda>k. sv_samples c0 ! (p + k * sps) * Complex 0 (c1_phase (bits ! (i + k - 1)) (bits ! (i + k - 2)))) [0..<n]) c1)"
proof (induction n arbitrary: i p c1)
  case (Suc n)
  let ?z = "\<lambda>p i k. sv_samples c0 ! (p + k * sps) * Complex 0 (c1_phase (bits ! (i + k - 1)) (bits ! (i + k - 2)))"
  have u: "[0..<Suc n] = 0 # map Suc [0..<n]" by (metis map_Suc_upt upt_conv_Cons zero_less_Suc)
  have "\<forall>k < n. p + sps + k * sps < sv_size c0"
  proof (intro allI impI)
    fix k assume "k < n"
    then have "p + Suc k * sps < sv_size c0" using Suc.prems by blast
    then show "p + sps + k * sps < sv_size c0" by (simp add: algebra_simps)
  qed
  note IH = Suc.IH [OF this, of "i + 1"]
  have e: "?z p i (Suc k) = ?z (p + sps) (i + 1) k" for k by (simp add: algebra_simps)
  have m: "map (?z p i) [0..<Suc n] = ?z p i 0 # map (?z (p + sps) (i + 1)) [0..<n]"
    unfolding u using e by (simp add: comp_def)
  have p: "p < sv_size c0" using Suc.prems by (metis add_0_right mult_0 zero_less_Suc)
  have q: "p + sps + n * sps = p + Suc n * sps" by simp
  show ?case unfolding m using p IH unfolding q
    by (cases "sv_put p (?z p i 0) c1") (simp_all add: c1_put_def)
qed simp

lemma c1_phase_cases: "c1_phase a b = (if odd a = odd b then - 1 else 1)"
  by (simp add: c1_phase_def)

lemma pulse_c1:
  assumes "sig_modem_ready L"
  obtains ps h0 h1 where "GSMPulse4 L = Some ps" and "ps_c0 ps = Some h0" and "ps_c1 ps = Some h1"
    and "sv_size h0 = 16" and "sv_size h1 = 8"
  using assms by (auto simp: sig_modem_ready_def generateGSMPulse_def generateInvertC0Pulse_def generateC1Pulse_def Let_def)

text \<open>The secondary symbols: the three pieces of the code write the symbols 2 to \<open>n + 1\<close> in order.\<close>

lemma c1_symbols:
  assumes "2 \<le> length bits" and "length bits \<le> 155" and "sv_quiet c0" and "sv_size c0 = 625"
    and "\<And>i. sv_sample c0 i = at_symbols 4 0 (length bits + 2) (laurent_c0 bits) i"
  obtains c1 p c1' c1'' where "c1_put c0 8 (c1_phase 1 1) (sv_new 625 st) = Some c1"
    and "c1_loop c0 bits 4 (length bits - 2) 2 12 c1 = Some (p, c1')"
    and "c1_put c0 p (c1_phase (bits ! (length bits - 1)) (bits ! (length bits - 2))) c1' = Some c1''"
    and "sv_quiet c1''" and "sv_size c1'' = 625"
    and "\<And>i. sv_sample c1'' i = at_symbols 4 2 (length bits + 2) (laurent_c1 bits) i"
proof -
  let ?n = "length bits"
  let ?z = "\<lambda>k. sv_samples c0 ! (12 + k * 4) * Complex 0 (c1_phase (bits ! (2 + k - 1)) (bits ! (2 + k - 2)))"
  let ?zs = "sv_samples c0 ! 8 * Complex 0 (c1_phase 1 1) # map ?z [0..<?n - 2] @
    [sv_samples c0 ! (12 + (?n - 2) * 4) * Complex 0 (c1_phase (bits ! (?n - 1)) (bits ! (?n - 2)))]"
  have c0: "sv_samples c0 ! (4 * m) = laurent_c0 bits m" if "m < ?n + 2" for m
    using assms(5) [of "int (4 * m)"] that assms(2,4)
    by (simp add: sv_sample_def at_symbols_def nat_mult_distrib)
  have zs: "?zs = map (laurent_c1 bits) [2..<?n + 2]"
  proof (rule nth_equalityI)
    show "length ?zs = length (map (laurent_c1 bits) [2..<?n + 2])" using assms(1) by simp
    fix k assume "k < length ?zs"
    then have k: "k < ?n" using assms(1) by simp
    consider "k = 0" | j where "k = Suc j" "j < ?n - 2" | "k = Suc (?n - 2)"
      using k assms(1) by (cases k) force+
    then have "?zs ! k = laurent_c1 bits (2 + k)"
    proof cases
      case 1
      have "bits \<noteq> []" using assms(1) by auto
      then show ?thesis unfolding 1 using c0 [of 2] by (simp add: laurent_c1_def c1_phase_cases)
    next
      case 2
      have e: "12 + j * 4 = 4 * (j + 3)" and j: "j + 3 < ?n + 2" using 2 by simp_all
      have "?zs ! k = ?z j" unfolding 2(1) using 2(2) by (simp add: nth_append)
      also have "\<dots> = laurent_c1 bits (2 + k)"
        unfolding e c0 [OF j] 2(1) by (simp add: laurent_c1_def c1_phase_cases eval_nat_numeral)
      finally show ?thesis .
    next
      case 3
      obtain j where j: "?n = j + 2" using assms(1) by (metis add.commute le_Suc_ex)
      have e: "12 + (?n - 2) * 4 = 4 * (j + 3)" and j': "j + 3 < ?n + 2" using j by simp_all
      have "?zs ! k = sv_samples c0 ! (12 + (?n - 2) * 4) * Complex 0 (c1_phase (bits ! (?n - 1)) (bits ! (?n - 2)))"
        unfolding 3 by (simp add: nth_append)
      also have "\<dots> = laurent_c1 bits (2 + k)"
        unfolding e c0 [OF j'] unfolding 3 j by (simp add: laurent_c1_def c1_phase_cases eval_nat_numeral)
      finally show ?thesis .
    qed
    then show "?zs ! k = map (laurent_c1 bits) [2..<?n + 2] ! k" using k by (simp del: upt_Suc)
  qed
  let ?v = "sv_new 625 st :: signal_vector"
  let ?y = "sv_map_samples (spread 4 8 ?zs) ?v"
  have l: "length ?zs = ?n" using assms(1) by simp
  have "put_symbols 4 8 ?zs ?v = Some ?y"
    by (rule put_symbols_spread) (use assms(1,2) l in simp_all)
  then obtain c1 where c1: "sv_put 8 (sv_samples c0 ! 8 * Complex 0 (c1_phase 1 1)) ?v = Some c1"
    and r: "put_symbols 4 12 (map ?z [0..<?n - 2] @
      [sv_samples c0 ! (12 + (?n - 2) * 4) * Complex 0 (c1_phase (bits ! (?n - 1)) (bits ! (?n - 2)))]) c1 = Some ?y"
    by (auto simp: Option.bind_eq_Some_conv)
  then obtain c1' where c1': "put_symbols 4 12 (map ?z [0..<?n - 2]) c1 = Some c1'"
    and r': "sv_put (12 + (?n - 2) * 4) (sv_samples c0 ! (12 + (?n - 2) * 4) *
      Complex 0 (c1_phase (bits ! (?n - 1)) (bits ! (?n - 2)))) c1' = Some ?y"
    unfolding put_symbols_append by (auto simp: Option.bind_eq_Some_conv)
  have b: "\<forall>k < ?n - 2. 12 + k * 4 < sv_size c0" "12 + (?n - 2) * 4 < sv_size c0" using assms(1,2,4) by auto
  have loop: "c1_loop c0 bits 4 (?n - 2) 2 12 c1 = Some (12 + (?n - 2) * 4, c1')"
    unfolding c1_loop_put [OF b(1)] c1' by simp
  have "sv_sample ?y i = at_symbols 4 2 (?n + 2) (laurent_c1 bits) i" for i
  proof (cases "0 \<le> i \<and> i < 625")
    case True
    then obtain m where m: "i = int m" "m < 625" by (metis nonneg_int_cases of_nat_less_iff of_nat_numeral)
    have "sv_sample ?y i = spread 4 8 (map (laurent_c1 bits) [2..<?n + 2]) (replicate 625 0) ! m"
      using m unfolding zs by (simp add: sv_sample_def sv_size_map sv_samples_map)
    also have "\<dots> = at_symbols 4 2 (?n + 2) (laurent_c1 bits) i"
    proof (cases "8 \<le> m")
      case True
      then obtain d where d: "m = d + 8" by (metis add.commute le_Suc_ex)
      have "(d + 8) mod 4 = d mod 4" "(d + 8) div 4 = d div 4 + 2" by presburger+
      then show ?thesis using m(2) unfolding m(1) at_symbols_nat unfolding d
        by (simp add: spread_nth add.commute del: upt_Suc of_nat_add)
    next
      case False
      then have "\<not> 2 \<le> m div 4" by presburger
      then show ?thesis using m False by (simp add: spread_nth at_symbols_def)
    qed
    finally show ?thesis .
  next
    case False
    then have "at_symbols 4 2 (?n + 2) (laurent_c1 bits) i = 0"
      using at_symbols_outside [of 4 "?n + 2" 625 i 2 "laurent_c1 bits"] assms(2) by (cases "i < 0") (simp_all add: at_symbols_def)
    then show ?thesis using False sv_sample_outside [of i ?y] by (simp add: sv_size_map)
  qed
  then show thesis
    using that [of c1 "12 + (?n - 2) * 4" c1' ?y] c1 loop r' b assms(1,2,4) by (simp add: c1_put_def sv_size_map)
qed

lemma sv_size_samples: "sv_samples v = xs \<Longrightarrow> sv_size v = length xs"
  by (metis length_sv_samples)

text \<open>C21. The two-pulse modulator of 4 samples per symbol. A burst of 2 to 155 bits gives 625 samples, the sum of
  the main pulse over the turned symbols (with a zero bit on either side) and of the secondary pulse over the symbols
  that the differences of the bits select. More than 156 bits are refused, but 156 bits and fewer than two lead
  outside the vectors.\<close>

theorem laurent_burst:
  assumes "sig_modem_ready L" and "GSMPulse4 L = Some ps" and "ps_c0 ps = Some h0" and "ps_c1 ps = Some h1"
  shows "if 156 < length bits then modulateBurstLaurent L bits = Some None
    else if 2 \<le> length bits \<and> length bits \<le> 155
    then \<exists>y. modulateBurstLaurent L bits = Some (Some y) \<and>
      sv_samples y = map (\<lambda>i. conv_at (at_symbols 4 0 (length bits + 2) (laurent_c0 bits)) h0 (int i) +
        conv_at (at_symbols 4 2 (length bits + 2) (laurent_c1 bits)) h1 (int i)) [0..<625]
    else modulateBurstLaurent L bits = None"
proof -
  let ?n = "length bits" and ?bs = "0 # bits @ [0]"
  let ?v = "sv_setReal True (sv_new 625 (sv_size h0))"
  have h: "sv_size h0 = 16" "sv_size h1 = 8" using pulse_c1 [OF assms(1)] assms(2-4) by (metis option.inject)+
  consider "156 < ?n" | "?n = 156" | "?n \<le> 155" by linarith
  then show ?thesis
  proof cases
    case 1
    then show ?thesis using assms(2-4) by (simp add: modulateBurstLaurent_def Let_def)
  next
    case 2
    have "put_symbols 4 0 (map bit_symbol ?bs) ?v = None"
      by (rule put_symbols_outside) (use 2 in simp_all)
    then show ?thesis using 2 assms(2-4) by (simp add: modulateBurstLaurent_def Let_def del: put_symbols.simps)
  next
    case 3
    have q: "sv_quiet ?v" and z: "sv_samples ?v = replicate 625 0" and b: "?bs = [] \<or> (length ?bs - 1) * 4 < 625"
      using 3 by simp_all
    have l4: "625 \<le> (if (4::nat) = 1 then 157 else (625::nat))" by simp
    obtain v1 y where v1: "put_symbols 4 0 (map bit_symbol ?bs) ?v = Some v1" and y: "GMSKRotate L v1 4 = Some y"
      "sv_quiet y" "sv_size y = 625"
      and ys: "\<And>i. sv_sample y i = at_symbols 4 0 (length ?bs) (gmsk_symbol ?bs) i"
      by (rule gmsk_waveform [OF assms(1) disjI2 [OF refl] l4 q z b]) blast
    let ?c0 = "sv_setReal False y"
    have c0: "sv_quiet ?c0" "sv_size ?c0 = 625" and
      c0s: "\<And>i. sv_sample ?c0 i = at_symbols 4 0 (?n + 2) (laurent_c0 bits) i"
      using y ys by (simp_all add: laurent_c0_def)
    show ?thesis
    proof (cases "2 \<le> ?n")
      case False
      have "8 < sv_size ?c0" using c0 by simp
      then show ?thesis using False 3 assms(2-4) v1 y(1)
        by (simp add: modulateBurstLaurent_def Let_def del: put_symbols.simps split: bind_splits)
    next
      case True
      obtain c1 p c1' c1'' where c1: "c1_put ?c0 8 (c1_phase 1 1) (sv_new 625 (sv_size h1)) = Some c1"
        and c1': "c1_loop ?c0 bits 4 (?n - 2) 2 12 c1 = Some (p, c1')"
        and c1'': "c1_put ?c0 p (c1_phase (bits ! (?n - 1)) (bits ! (?n - 2))) c1' = Some c1''"
        and q1: "sv_quiet c1''" "sv_size c1'' = 625"
        and c1s: "\<And>i. sv_sample c1'' i = at_symbols 4 2 (?n + 2) (laurent_c1 bits) i"
        by (rule c1_symbols [OF True 3 c0 c0s, of "sv_size h1"]) blast
      obtain sse3 where c: "sl_cpu L = convolve_init sse3" using assms(1) by (auto simp: sig_modem_ready_def)
      obtain w0 where w0: "sv_convolve (sl_cpu L) (Some ?c0) (Some h0) None START_ONLY 0 0 = Some w0" "sv_quiet w0"
        "sv_samples w0 = map (\<lambda>i. conv_at (sv_sample ?c0) h0 (int i)) [0..<sv_size ?c0]"
        using shaped_burst [OF c c0(1), of h0] h c0(2) by auto
      obtain w1 where w1: "sv_convolve (sl_cpu L) (Some c1'') (Some h1) None START_ONLY 0 0 = Some w1"
        "sv_samples w1 = map (\<lambda>i. conv_at (sv_sample c1'') h1 (int i)) [0..<sv_size c1'']"
        using shaped_burst [OF c q1(1), of h1] h q1(2) by auto
      let ?w = "sv_map_samples (\<lambda>zs. map2 (+) zs (sv_samples w1)) w0"
      have n: "sv_size w0 = 625" "sv_size w1 = 625"
        using sv_size_samples [OF w0(3)] sv_size_samples [OF w1(2)] c0(2) q1(2) by simp_all
      have "modulateBurstLaurent L bits = Some (Some ?w)"
        using assms(2-4) v1 y(1) c1 c1' c1'' w0(1) w1(1) n True 3
        by (simp add: modulateBurstLaurent_def Let_def del: put_symbols.simps)
      moreover have "sv_sample ?c0 = at_symbols 4 0 (?n + 2) (laurent_c0 bits)"
        "sv_sample c1'' = at_symbols 4 2 (?n + 2) (laurent_c1 bits)" using c0s c1s by blast+
      then have "sv_samples ?w = map (\<lambda>i. conv_at (at_symbols 4 0 (?n + 2) (laurent_c0 bits)) h0 (int i) +
          conv_at (at_symbols 4 2 (?n + 2) (laurent_c1 bits)) h1 (int i)) [0..<625]"
        using w0 w1(2) c0(2) q1(2) by (simp add: sv_samples_map sv_quiet_def map2_map_map del: upt_rec_numeral)
      ultimately show ?thesis using True 3 by auto
    qed
  qed
qed

theorem laurent_burst_witness:
  "\<exists>L ps h0 h1. sig_modem_ready L \<and> GSMPulse4 L = Some ps \<and> ps_c0 ps = Some h0 \<and> ps_c1 ps = Some h1 \<and>
    (\<exists>y. modulateBurstLaurent L [1, 0, 1, 1, 0] = Some (Some y) \<and>
      sv_samples y = map (\<lambda>i. conv_at (at_symbols 4 0 7 (laurent_c0 [1, 0, 1, 1, 0])) h0 (int i) +
        conv_at (at_symbols 4 2 7 (laurent_c1 [1, 0, 1, 1, 0])) h1 (int i)) [0..<625])"
proof -
  let ?L = "(initGMSKRotationTables (sig_initial (convolve_init True)))
    \<lparr>GSMPulse1 := generateGSMPulse 1, GSMPulse4 := generateGSMPulse 4\<rparr>"
  have "sig_modem_ready ?L" by (auto simp: sig_modem_ready_def initGMSKRotationTables_def sig_initial_def)
  then obtain L where r: "sig_modem_ready L" by blast
  obtain ps h0 h1 where h: "GSMPulse4 L = Some ps" "ps_c0 ps = Some h0" "ps_c1 ps = Some h1"
    by (rule pulse_c1 [OF r])
  obtain b :: "int list" where b: "b = [1, 0, 1, 1, 0]" "length b = 5" by simp
  have "\<exists>y. modulateBurstLaurent L b = Some (Some y) \<and>
      sv_samples y = map (\<lambda>i. conv_at (at_symbols 4 0 7 (laurent_c0 b)) h0 (int i) +
        conv_at (at_symbols 4 2 7 (laurent_c1 b)) h1 (int i)) [0..<625]"
    using laurent_burst [OF r h, of b] b(2) by (simp del: upt_rec_numeral)
  then show ?thesis using r h unfolding b(1) by blast
qed

end
