(* ===== verification/SigDetect.thy ===== *)
theory SigDetect
  imports Complex_Main SigModem TrxState Convert
begin

text \<open>
  Correlation, detection and demodulation (second half of \<^verbatim>\<open>sigProcLib.cpp\<close>): the sinc table and the fractional
  delay filters, peak search, the correlation sequences of the training and synchronisation sequences, the gates that
  decide whether a burst is there, and the demodulators. The set-up and the release of the tables close the file.

  Conventions are those of \<open>SigModem\<close>: the outer \<open>None\<close> of a result is undefined behaviour, the inner \<open>None\<close> a null
  pointer that is returned. A function with reference parameters gives their values back.
\<close>

section \<open>Interpolation\<close>

definition TABLESIZE :: nat where
  "TABLESIZE = 1024"

definition DELAYFILTS :: nat where
  "DELAYFILTS = 64"

definition generateSincTable :: "sig_lib \<Rightarrow> sig_lib" where
  "generateSincTable L =
    L\<lparr>sincTable := map (\<lambda>i. let x = real i / real TABLESIZE * 8 * pi in if x = 0 then 1 else sin x / x) [0..<TABLESIZE] @
        drop TABLESIZE (sincTable L)\<rparr>"

definition sinc :: "sig_lib \<Rightarrow> real \<Rightarrow> real" where
  "sinc L x =
    (if \<bar>x\<bar> \<ge> 8 * pi then 0 else sincTable L ! nat \<lfloor>\<bar>x\<bar> / (8 * pi) * real TABLESIZE\<rfloor>)"

definition delay_filter :: "sig_lib \<Rightarrow> nat \<Rightarrow> signal_vector" where
  "delay_filter L i =
    (let h_len = 20;
         vals = map (\<lambda>n. sinc L (pi * (real n - real h_len / 2 - real i / real DELAYFILTS)) * blackman_harris h_len n) [0..<h_len];
         sum = sum_list vals
     in real_taps (map (\<lambda>x. x / sum) (rev vals)) True)"

definition generateDelayFilters :: "sig_lib \<Rightarrow> sig_lib" where
  "generateDelayFilters L = L\<lparr>delayFilters := map (\<lambda>i. Some (delay_filter L i)) [0..<DELAYFILTS]\<rparr>"

text \<open>The whole shift, towards the front and towards the back.\<close>

definition shift_front :: "nat \<Rightarrow> complex list \<Rightarrow> complex list" where
  "shift_front w xs = drop w xs @ replicate (length xs - length (drop w xs)) 0"

definition shift_back :: "nat \<Rightarrow> complex list \<Rightarrow> complex list" where
  "shift_back w xs = replicate (length xs - length (take (length xs - w) xs)) 0 @ take (length xs - w) xs"

definition delayVector :: "sig_lib \<Rightarrow> signal_vector \<Rightarrow> signal_vector option \<Rightarrow> real \<Rightarrow> signal_vector option" where
  "delayVector L inp out delay =
    (let whole = \<lfloor>delay\<rfloor>;
         frac = delay - of_int whole;
         shift = (if \<bar>frac\<bar> > 1 / 100
                  then sv_convolve (sl_cpu L) (Some inp) (delayFilters L ! nat \<lfloor>frac * real DELAYFILTS\<rfloor>) None NO_DELAY 0 0
                  else Some (sv_copy inp))
     in case shift of
          None \<Rightarrow> None
        | Some shift \<Rightarrow>
            let shift = (if whole < 0 then sv_map_samples (shift_front (nat (- whole))) shift
                         else sv_map_samples (shift_back (nat whole)) shift)
            in case out of
                 None \<Rightarrow> Some shift
               | Some out \<Rightarrow> Some (out\<lparr>sv_data := sv_samples shift, sv_start := 0\<rparr>))"

definition interpolatePoint :: "sig_lib \<Rightarrow> signal_vector \<Rightarrow> real \<Rightarrow> complex option" where
  "interpolatePoint L inSig ix =
    (let start = max 0 (\<lfloor>ix\<rfloor> - 10);
         end0 = \<lfloor>ix\<rfloor> + 11;
         last = (int (sv_size inSig) - 1) mod 2 ^ 64;
         end = (if end0 mod 2 ^ 32 > last then last else end0)
     in if end > int (sv_size inSig) then None
        else Some (\<Sum>i \<leftarrow> [start..end - 1].
               (let z = sv_samples inSig ! nat i in (if sv_isReal inSig then of_real (Re z) else z)) *
               of_real (sinc L (pi * (of_int i - ix)))))"

section \<open>Peaks\<close>

definition fast_peak_step :: "complex list \<Rightarrow> nat \<Rightarrow> real \<times> int \<times> complex \<Rightarrow> real \<times> int \<times> complex" where
  "fast_peak_step zs i s = (let val = norm2 (zs ! i) in if val > fst s then (val, int i, zs ! i) else s)"

definition fastPeakDetect :: "signal_vector \<Rightarrow> complex \<times> real" where
  "fastPeakDetect rxBurst =
    (let (mx, index, amp) = fold (fast_peak_step (sv_samples rxBurst)) [0..<sv_size rxBurst] (0, - 1, 0)
     in (amp, of_int index))"

text \<open>The early-late search halves its step from one half; nine rounds bring it to the bound. No caller asks
  for the average power, so it is left out.\<close>

fun early_late :: "sig_lib \<Rightarrow> signal_vector \<Rightarrow> nat \<Rightarrow> real \<Rightarrow> real \<Rightarrow> real \<Rightarrow> real option" where
  "early_late L rxBurst 0 incr earlyIndex lateIndex = (if incr > 1 / 1024 then None else Some earlyIndex)"
| "early_late L rxBurst (Suc n) incr earlyIndex lateIndex =
     (if incr > 1 / 1024
      then do { earlyP \<leftarrow> interpolatePoint L rxBurst earlyIndex;
                lateP \<leftarrow> interpolatePoint L rxBurst lateIndex;
                if norm2 earlyP < norm2 lateP
                then early_late L rxBurst n (incr / 2) (earlyIndex + incr) (earlyIndex + incr + 2)
                else if norm2 earlyP > norm2 lateP
                then early_late L rxBurst n (incr / 2) (earlyIndex - incr) (earlyIndex - incr + 2)
                else Some earlyIndex }
      else Some earlyIndex)"

definition peak_step :: "complex list \<Rightarrow> nat \<Rightarrow> real \<times> int \<Rightarrow> real \<times> int" where
  "peak_step zs i s = (let samplePower = norm2 (zs ! i) in if samplePower > fst s then (samplePower, int i) else s)"

definition peakDetect :: "sig_lib \<Rightarrow> signal_vector \<Rightarrow> (complex \<times> real) option" where
  "peakDetect L rxBurst =
    (let (maxVal, maxIndex) = fold (peak_step (sv_samples rxBurst)) [0..<sv_size rxBurst] (0, - 1)
     in do { earlyIndex \<leftarrow> early_late L rxBurst 9 (1 / 2) (of_int maxIndex - 1) (of_int maxIndex + 1);
             let maxIndex = earlyIndex + 1;
             maxVal \<leftarrow> interpolatePoint L rxBurst maxIndex;
             Some (maxVal, maxIndex) })"

definition scaleVector :: "signal_vector \<Rightarrow> complex \<Rightarrow> signal_vector" where
  "scaleVector x scale =
    sv_map_samples (map (\<lambda>z. if \<not> sv_isReal x then z * scale else of_real (Re z) * scale)) x"

definition conjugateVector :: "signal_vector \<Rightarrow> signal_vector" where
  "conjugateVector x = (if sv_isReal x then x else sv_map_samples (map cnj) x)"

definition maxAmplitude :: "signal_vector \<Rightarrow> real" where
  "maxAmplitude burst =
    fold (\<lambda>z mx. let mx = (if \<bar>Re z\<bar> > mx then \<bar>Re z\<bar> else mx) in if \<bar>Im z\<bar> > mx then \<bar>Im z\<bar> else mx)
      (sv_samples burst) 0"

text \<open>The window steps by four samples, whatever its length; the end of the vector is not checked on the way. (The
  quotient for an empty vector is no number; it counts as undefined.)\<close>

definition energyDetect :: "signal_vector \<Rightarrow> nat \<Rightarrow> real option" where
  "energyDetect rxBurst windowLength =
    (if windowLength = 0 then Some 0
     else
       let windowLength = min windowLength (sv_size rxBurst)
       in if windowLength = 0 then None
          else if 4 * (windowLength - 1) \<ge> sv_size rxBurst then None
          else Some (foldl (\<lambda>e i. e + norm2 (sv_samples rxBurst ! (4 * i))) 0 [0..<windowLength] / real windowLength))"

definition computePeakRatio :: "signal_vector \<Rightarrow> nat \<Rightarrow> real \<Rightarrow> complex \<Rightarrow> real" where
  "computePeakRatio corr sps toa amp =
    (if toa < 0 \<or> toa > real (sv_size corr) then 0
     else
       let peak = round_even toa;
           (avg, num) = fold (\<lambda>i (avg, num).
             let (avg, num) = (if peak - int i \<ge> 0 then (avg + norm2 (sv_samples corr ! nat (peak - int i)), num + 1) else (avg, num))
             in if peak + int i < int (sv_size corr) then (avg + norm2 (sv_samples corr ! nat (peak + int i)), num + 1)
                else (avg, num))
             [2 * sps..<5 * sps + 1] (0, 0 :: nat)
       in if num < 5 then 0
          else sqrt (norm2 amp) / (sqrt (avg / real num) + 1 / 100000))"

section \<open>Correlation sequences\<close>

definition aligned_copy :: "signal_vector \<Rightarrow> signal_vector" where
  "aligned_copy v = sv_setAligned True (sv_wrap (sv_samples v) 0 (sv_size v))"

text \<open>Both generators report failure with an empty entry. When the first modulation fails, the code leaves the
  deleted sequence in the table of midambles; the entry is as unusable as an empty one.\<close>

definition generateMidamble :: "sig_lib \<Rightarrow> nat \<Rightarrow> int \<Rightarrow> (bool \<times> sig_lib) option" where
  "generateMidamble L sps tsc =
    (if tsc < 0 \<or> tsc > 7 then Some (False, L)
     else
       let put = (\<lambda>e. L\<lparr>gMidambles := (gMidambles L)[nat tsc := e]\<rparr>)
       in do { middle \<leftarrow> bv_segment (gTrainingSequence ! nat tsc) 5 16;
               mid \<leftarrow> SigModem.modulateBurst L middle 0 sps True;
               case mid of
                 None \<Rightarrow> Some (False, put None)
               | Some midMidamble \<Rightarrow> do {
                   full \<leftarrow> SigModem.modulateBurst L (gTrainingSequence ! nat tsc) 0 sps False;
                   case full of
                     None \<Rightarrow> Some (False, put None)
                   | Some midamble \<Rightarrow>
                       let midMidamble = conjugateVector (scaleVector midMidamble (Complex (- 1) 0));
                           midamble = scaleVector midamble (Complex 0 1);
                           seq = aligned_copy midMidamble
                       in case sv_convolve (sl_cpu L) (Some midamble) (Some seq) None NO_DELAY 0 0 of
                            None \<Rightarrow> Some (False, put None)
                          | Some autocorr \<Rightarrow> do {
                              (gain, toa) \<leftarrow> peakDetect L autocorr;
                              Some (True, put (Some \<lparr>cs_sequence = Some seq,
                                cs_toa = (if sps = 1 then toa - 13.5 else 0), cs_gain = gain\<rparr>)) } } })"

definition generateEdgeMidamble :: "sig_lib \<Rightarrow> int \<Rightarrow> correlation_sequence option option" where
  "generateEdgeMidamble L tsc =
    (if tsc < 0 \<or> tsc > 7 then Some None
     else do {
       middle \<leftarrow> bv_segment (gEdgeTrainingSequence ! nat tsc) 15 48;
       mid \<leftarrow> SigModem.modulateEdgeBurst L middle 1 True;
       Some (case mid of
         None \<Rightarrow> None
       | Some midamble \<Rightarrow>
           Some \<lparr>cs_sequence = Some (aligned_copy (conjugateVector midamble)), cs_toa = 0,
                 cs_gain = Complex (- 19.6432) 19.5006 / 1.18\<rparr>) })"

definition generateRACHSequence :: "sig_lib \<Rightarrow> bitvec \<Rightarrow> nat \<Rightarrow> (bool \<times> correlation_sequence option) option" where
  "generateRACHSequence L bv sps =
    do { full \<leftarrow> SigModem.modulateBurst L bv 0 sps False;
         case full of
           None \<Rightarrow> Some (False, None)
         | Some seq0 \<Rightarrow> do {
             start \<leftarrow> bv_segment bv 0 40;
             part \<leftarrow> SigModem.modulateBurst L start 0 sps True;
             case part of
               None \<Rightarrow> Some (False, None)
             | Some seq1 \<Rightarrow>
                 let seq = aligned_copy (conjugateVector seq1)
                 in case sv_convolve (sl_cpu L) (Some seq0) (Some seq) None NO_DELAY 0 0 of
                      None \<Rightarrow> Some (False, None)
                    | Some autocorr \<Rightarrow> do {
                        (gain, toa) \<leftarrow> peakDetect L autocorr;
                        Some (True, Some \<lparr>cs_sequence = Some seq,
                          cs_toa = (if sps = 1 then toa - 20.5 else 0), cs_gain = gain\<rparr>) } } }"

section \<open>Detection\<close>

definition DOWNSAMPLE_IN_LEN :: nat where
  "DOWNSAMPLE_IN_LEN = 624"

definition DOWNSAMPLE_OUT_LEN :: nat where
  "DOWNSAMPLE_OUT_LEN = 156"

definition CLIP_THRESH :: real where
  "CLIP_THRESH = 30000"

definition downsampleBurst :: "sig_lib \<Rightarrow> signal_vector \<Rightarrow> signal_vector option option" where
  "downsampleBurst L burst =
    do { r \<leftarrow> dnsampler L;
         let inp = sv_new DOWNSAMPLE_IN_LEN (rs_len r);
         let out = sv_new DOWNSAMPLE_OUT_LEN 0;
         if sv_size burst < DOWNSAMPLE_IN_LEN then None
         else
           let inp = sv_map_samples (\<lambda>_. take DOWNSAMPLE_IN_LEN (sv_samples burst)) inp;
               (rc, floats) = rs_rotate (sl_cpu L) r (sv_ptr inp) DOWNSAMPLE_IN_LEN (floats_of (sv_samples out)) DOWNSAMPLE_OUT_LEN
           in Some (if rc < 0 then None else Some (sv_map_samples (\<lambda>_. samples_of floats) out)) }"

text \<open>\<open>amp\<close> and \<open>toa\<close> are the values behind the references before the call; the result has those after it.\<close>

definition detectBurst :: "sig_lib \<Rightarrow> signal_vector \<Rightarrow> nat \<Rightarrow> correlation_sequence option \<Rightarrow> real \<Rightarrow> nat \<Rightarrow> nat \<Rightarrow> nat \<Rightarrow>
    complex \<times> real \<Rightarrow> (int \<times> complex \<times> real) option" where
  "detectBurst L burst corr_len sync thresh sps start len = (\<lambda>(amp, toa).
    do { corr_in \<leftarrow> (if sps = 4 then downsampleBurst L burst else Some (Some burst));
         sync \<leftarrow> sync;
         case sv_convolve (sl_cpu L) corr_in (cs_sequence sync) (Some (sv_new corr_len 0)) CUSTOM start len of
           None \<Rightarrow> Some (- 1, amp, toa)
         | Some corr \<Rightarrow>
             let sps = 1; (amp, toa) = fastPeakDetect corr
             in if toa < 3 * real sps \<or> toa > real len - 3 * real sps then Some (0, amp, toa)
                else if computePeakRatio corr sps toa amp < thresh then Some (0, amp, toa)
                else do { (amp, toa) \<leftarrow> peakDetect L corr;
                          Some (1, amp / cs_gain sync, toa - cs_toa sync) } })"

definition detectGeneralBurst :: "sig_lib \<Rightarrow> signal_vector \<Rightarrow> real \<Rightarrow> nat \<Rightarrow> nat \<Rightarrow> nat \<Rightarrow> nat \<Rightarrow> correlation_sequence option \<Rightarrow>
    complex \<times> real \<Rightarrow> (int \<times> complex \<times> real) option" where
  "detectGeneralBurst L rxBurst thresh sps target head tail_len sync = (\<lambda>(amp, toa).
    if sps \<noteq> 1 \<and> sps \<noteq> 4 then Some (- 3, amp, toa)
    else
      let clipping = (maxAmplitude rxBurst > CLIP_THRESH); start = target - head - 1; len = head + tail_len
      in do { (rc, amp, toa) \<leftarrow> detectBurst L rxBurst len sync thresh sps start len (amp, toa);
              if rc < 0 then Some (- 4, amp, toa)
              else if rc = 0 then Some (if clipping then - 2 else 0, 0, 0)
              else Some (1, amp, toa - real head) })"

fun rach_loop :: "sig_lib \<Rightarrow> signal_vector \<Rightarrow> real \<Rightarrow> nat \<Rightarrow> nat \<Rightarrow> nat \<Rightarrow> nat \<Rightarrow> nat list \<Rightarrow>
    int \<times> complex \<times> real \<Rightarrow> (int \<times> complex \<times> real) option" where
  "rach_loop L burst threshold sps target head tail_len [] r = Some r"
| "rach_loop L burst threshold sps target head tail_len (i # is) r =
     do { r' \<leftarrow> detectGeneralBurst L burst threshold sps target head tail_len (gRACHSequences L ! i) (snd r);
          if fst r' > 0 then Some r' else rach_loop L burst threshold sps target head tail_len is r' }"

definition detectRACHBurst :: "sig_lib \<Rightarrow> signal_vector \<Rightarrow> real \<Rightarrow> nat \<Rightarrow> nat \<Rightarrow> bool \<Rightarrow> complex \<times> real \<Rightarrow>
    (int \<times> complex \<times> real) option" where
  "detectRACHBurst L burst threshold sps max_toa ext refs =
    rach_loop L burst threshold sps (8 + 40) 8 (8 + max_toa) [0..<if ext then 3 else 1] (0, refs)"

definition analyzeTrafficBurst :: "sig_lib \<Rightarrow> signal_vector \<Rightarrow> nat \<Rightarrow> real \<Rightarrow> nat \<Rightarrow> nat \<Rightarrow> complex \<times> real \<Rightarrow>
    (int \<times> complex \<times> real) option" where
  "analyzeTrafficBurst L burst tsc threshold sps max_toa refs =
    (if tsc > 7 then Some (- 3, refs)
     else detectGeneralBurst L burst threshold sps (3 + 58 + 16 + 5) 6 (6 + max_toa) (gMidambles L ! tsc) refs)"

definition detectEdgeBurst :: "sig_lib \<Rightarrow> signal_vector \<Rightarrow> nat \<Rightarrow> real \<Rightarrow> nat \<Rightarrow> nat \<Rightarrow> complex \<times> real \<Rightarrow>
    (int \<times> complex \<times> real) option" where
  "detectEdgeBurst L burst tsc threshold sps max_toa refs =
    (if tsc > 7 then Some (- 3, refs)
     else detectGeneralBurst L burst threshold sps (3 + 58 + 16 + 5) 6 (6 + max_toa) (gEdgeMidambles L ! tsc) refs)"

definition detectAnyBurst :: "sig_lib \<Rightarrow> signal_vector \<Rightarrow> nat \<Rightarrow> real \<Rightarrow> nat \<Rightarrow> corr_type \<Rightarrow> nat \<Rightarrow> complex \<times> real \<Rightarrow>
    (int \<times> complex \<times> real) option" where
  "detectAnyBurst L burst tsc threshold sps type max_toa refs =
    do { (type, rc, refs) \<leftarrow>
           (case type of
              EDGE \<Rightarrow> do {
                (rc, refs) \<leftarrow> detectEdgeBurst L burst tsc threshold sps max_toa refs;
                if rc > 0 then Some (EDGE, rc, refs)
                else do { r \<leftarrow> analyzeTrafficBurst L burst tsc threshold sps max_toa refs; Some (TSC, r) } }
            | TSC \<Rightarrow> do { r \<leftarrow> analyzeTrafficBurst L burst tsc threshold sps max_toa refs; Some (TSC, r) }
            | EXT_RACH \<Rightarrow> do { r \<leftarrow> detectRACHBurst L burst threshold sps max_toa True refs; Some (EXT_RACH, r) }
            | RACH \<Rightarrow> do { r \<leftarrow> detectRACHBurst L burst threshold sps max_toa False refs; Some (RACH, r) }
            | _ \<Rightarrow> Some (type, 0, refs));
         if rc > 0 then Some (corr_code type, refs) else Some (rc, refs) }"

section \<open>Demodulation\<close>

definition demodCommon :: "sig_lib \<Rightarrow> signal_vector \<Rightarrow> nat \<Rightarrow> complex \<Rightarrow> real \<Rightarrow> signal_vector option option" where
  "demodCommon L burst sps chan toa =
    (if sps \<noteq> 1 \<and> sps \<noteq> 4 then Some None
     else do {
       delay \<leftarrow> delayVector L burst None (- toa * real sps);
       let delay = scaleVector delay (1 / chan);
       if sps = 1 then Some (Some delay) else downsampleBurst L delay })"

definition demodGmskBurst :: "sig_lib \<Rightarrow> signal_vector \<Rightarrow> nat \<Rightarrow> complex \<Rightarrow> real \<Rightarrow> real list option option" where
  "demodGmskBurst L rxBurst sps channel TOA =
    do { dec \<leftarrow> demodCommon L rxBurst sps channel TOA;
         case dec of
           None \<Rightarrow> Some None
         | Some dec \<Rightarrow> do { (_, dec) \<leftarrow> GMSKReverseRotate L dec 1; Some (Some (signalToSoftVector dec)) } }"

definition demodEdgeBurst :: "sig_lib \<Rightarrow> signal_vector \<Rightarrow> nat \<Rightarrow> complex \<Rightarrow> real \<Rightarrow> real list option option" where
  "demodEdgeBurst L burst sps chan toa =
    do { dec \<leftarrow> demodCommon L burst sps chan toa;
         case dec of
           None \<Rightarrow> Some None
         | Some dec \<Rightarrow> do {
             pulses \<leftarrow> GSMPulse4 L;
             eq \<leftarrow> sv_convolve (sl_cpu L) (Some dec) (ps_c0_inv pulses) None NO_DELAY 0 0;
             rot \<leftarrow> derotateEdgeBurst eq 1;
             rot \<leftarrow> rot;
             Some (softSliceEdgeBurst rot) } }"

definition demodAnyBurst :: "sig_lib \<Rightarrow> signal_vector \<Rightarrow> nat \<Rightarrow> complex \<Rightarrow> real \<Rightarrow> corr_type \<Rightarrow> real list option option" where
  "demodAnyBurst L burst sps amp toa type =
    (if type = EDGE then demodEdgeBurst L burst sps amp toa else demodGmskBurst L burst sps amp toa)"

section \<open>Set-up and release\<close>

text \<open>The resampler is deleted, but its pointer is kept; deleting it once more is undefined.\<close>

definition sigProcLibDestroy :: "sig_lib \<Rightarrow> sig_lib option" where
  "sigProcLibDestroy L =
    (if dnsampler_deleted L then None
     else Some (L\<lparr>gMidambles := replicate 8 None, gEdgeMidambles := replicate 8 None, delayFilters := replicate DELAYFILTS None,
       gRACHSequences := replicate 3 None, GMSKRotation1 := None, GMSKRotation4 := None, GMSKReverseRotation4 := None,
       GMSKReverseRotation1 := None, GSMPulse1 := None, GSMPulse4 := None, dnsampler := None,
       dnsampler_deleted := (dnsampler L \<noteq> None)\<rparr>))"

definition setup_rach :: "nat \<Rightarrow> bitvec \<Rightarrow> sig_lib \<Rightarrow> sig_lib option" where
  "setup_rach i bv L =
    do { (_, seq) \<leftarrow> generateRACHSequence L bv 1; Some (L\<lparr>gRACHSequences := (gRACHSequences L)[i := seq]\<rparr>) }"

fun setup_midambles :: "nat list \<Rightarrow> sig_lib \<Rightarrow> sig_lib option" where
  "setup_midambles [] L = Some L"
| "setup_midambles (tsc # tscs) L =
     do { (_, L) \<leftarrow> generateMidamble L 1 (int tsc);
          edge \<leftarrow> generateEdgeMidamble L (int tsc);
          setup_midambles tscs (L\<lparr>gEdgeMidambles := (gEdgeMidambles L)[tsc := edge]\<rparr>) }"

definition sigProcLibSetup :: "sig_lib \<Rightarrow> (bool \<times> sig_lib) option" where
  "sigProcLibSetup L0 =
    do { let L = generateSincTable L0;
         let L = initGMSKRotationTables L;
         let L = L\<lparr>GSMPulse1 := generateGSMPulse 1\<rparr>;
         let L = L\<lparr>GSMPulse4 := generateGSMPulse 4\<rparr>;
         L \<leftarrow> setup_rach 0 gRACHSynchSequenceTS0 L;
         L \<leftarrow> setup_rach 1 gRACHSynchSequenceTS1 L;
         L \<leftarrow> setup_rach 2 gRACHSynchSequenceTS2 L;
         L \<leftarrow> setup_midambles [0..<8] L;
         let L = generateDelayFilters L;
         let (ok, r) = rs_init 1 (rs_new 1 4 16);
         let L = L\<lparr>dnsampler := Some r, dnsampler_deleted := False\<rparr>;
         if ok then Some (True, L) else do { L \<leftarrow> sigProcLibDestroy L; Some (False, L) } }"

section \<open>Delays\<close>

lemma length_shift [simp]: "length (shift_front w xs) = length xs" "length (shift_back w xs) = length xs"
  by (simp_all add: shift_front_def shift_back_def)

lemma shift_front_nth: "i < length xs \<Longrightarrow> shift_front w xs ! i = (if i + w < length xs then xs ! (i + w) else 0)"
  by (auto simp: shift_front_def nth_append add.commute)

lemma shift_back_nth: "i < length xs \<Longrightarrow> shift_back w xs ! i = (if w \<le> i then xs ! (i - w) else 0)"
  by (auto simp: shift_back_def nth_append)

lemma sv_copy_simps [simp]:
  "sv_samples (sv_copy v) = sv_samples v" "sv_size (sv_copy v) = sv_size v" "sv_start (sv_copy v) = sv_start v"
  "sv_isReal (sv_copy v) = sv_isReal v" "sv_aligned (sv_copy v) = False" "sv_quiet (sv_copy v)" "sv_ok (sv_copy v)"
  by (simp_all add: sv_copy_def sv_samples_def sv_size_def sv_quiet_def sv_ok_def)

lemma delayVector_whole:
  "delayVector L v None (of_int w) =
    Some (sv_map_samples (if w < 0 then shift_front (nat (- w)) else shift_back (nat w)) (sv_copy v))"
  by (simp add: delayVector_def Let_def)

lemma scaleVector_complex:
  "sv_ok v \<Longrightarrow> \<not> sv_isReal v \<Longrightarrow> sv_samples (scaleVector v a) = map (\<lambda>z. z * a) (sv_samples v)"
  "sv_isReal (scaleVector v a) = sv_isReal v" "sv_ok v \<Longrightarrow> sv_ok (scaleVector v a)"
  "sv_ok v \<Longrightarrow> sv_size (scaleVector v a) = sv_size v" "sv_quiet v \<Longrightarrow> sv_quiet (scaleVector v a)"
  "sv_start (scaleVector v a) = sv_start v"
  by (simp_all add: scaleVector_def sv_samples_map sv_size_map)

lemma gmsk_burst_roundtrip_aux:
  assumes "sig_modem_ready L" and "bits \<noteq> []" and "0 \<le> guard" and "t \<le> nat guard"
    and "length bits + nat guard \<le> 157" and "a \<noteq> 0" and "type \<noteq> EDGE"
  shows "\<exists>v rx soft. SigModem.modulateBurst L bits guard 1 True = Some (Some v) \<and> delayVector L v None (real t) = Some rx \<and>
    SigDetect.demodAnyBurst L (SigDetect.scaleVector rx a) 1 a (real t) type = Some (Some soft) \<and>
    take (length bits) soft = soft_of_bits bits \<and> length soft = length bits + nat guard \<and>
    sv_size (SigDetect.scaleVector rx a) = length bits + nat guard"
proof -
  let ?N = "length bits + nat guard"
  have one: "(1::nat) = 1 \<or> (1::nat) = 4" and l: "1 * ?N \<le> (if (1::nat) = 1 then 157 else 625)" using assms(5) by simp_all
  obtain v where v: "rotateBurst L bits guard 1 = Some (Some v)" "sv_quiet v" "sv_isReal v = False" "sv_size v = ?N"
    and vs: "sv_sample v = at_symbols 1 0 (length bits) (gmsk_symbol bits)"
    using rotateBurst_waveform [OF assms(1) one assms(3,2) l] by auto
  let ?rx = "sv_map_samples (shift_back t) (sv_copy v)"
  have rx: "delayVector L v None (real t) = Some ?rx" using delayVector_whole [of L v "int t"] by simp
  let ?in = "SigDetect.scaleVector ?rx a"
  have inp: "sv_samples ?in = map (\<lambda>z. z * a) (shift_back t (sv_samples v))" "sv_isReal ?in = False" "sv_size ?in = ?N"
    using v by (simp_all add: scaleVector_complex sv_samples_map sv_size_map)
  let ?dl = "SigDetect.scaleVector (sv_map_samples (shift_front t) (sv_copy ?in)) (1 / a)"
  have "delayVector L ?in None (- real t) = Some (sv_map_samples (shift_front t) (sv_copy ?in))"
    using delayVector_whole [of L ?in "- int t"]
    by (cases "t = 0") (auto simp: shift_front_def shift_back_def intro!: sv_map_samples_cong)
  then have dc: "demodCommon L ?in 1 a (real t) = Some (Some ?dl)" by (simp add: demodCommon_def)
  have dl: "sv_ok ?dl" "sv_size ?dl = ?N" "sv_isReal ?dl = False"
    "sv_samples ?dl = map (\<lambda>z. z * (1 / a)) (shift_front t (map (\<lambda>z. z * a) (shift_back t (sv_samples v))))"
    using inp by (simp_all add: scaleVector_complex sv_samples_map sv_size_map del: map_map)
  have dls: "sv_samples ?dl ! i = gmsk_symbol bits i" if "i < length bits" for i
  proof -
    have i: "i + t < ?N" using that assms(4) by simp
    have "sv_samples v ! i = sv_sample v (int i)" using that v(4) by (simp add: sv_sample_def)
    also have "\<dots> = gmsk_symbol bits i" unfolding vs at_symbols_nat using that by simp
    finally show ?thesis
      using i v(4) assms(6) unfolding dl(4) by (simp add: shift_front_nth shift_back_nth)
  qed
  obtain rev where rev: "GMSKReverseRotation1 L = Some rev" "sv_size rev = 157"
    "\<And>i. i < 157 \<Longrightarrow> sv_samples rev ! i = cis (- (real i * pi / 2))"
    by (rule rotation_tables [OF assms(1) one]) auto
  obtain y where y: "rotate_by rev ?dl = Some y" "sv_size y = ?N"
    and ys: "\<forall>i < ?N. sv_samples y ! i = sv_samples rev ! i * sv_samples ?dl ! i"
    using rotate_by_samples [OF dl(1), of rev] dl rev(2) assms(5) by auto
  have bit: "Re (sv_samples y ! i) = (if odd (bits ! i) then 1 else - 1)" if "i < length bits" for i
  proof -
    have "sv_samples y ! i = cis (- (real i * pi / 2)) * (cis (real i * pi / 2) * bit_symbol (bits ! i))"
      using ys dls that rev(3) assms(5) by (simp add: gmsk_symbol_def)
    also have "\<dots> = bit_symbol (bits ! i)" by (simp add: mult.assoc [symmetric] cis_mult)
    finally show ?thesis by (simp add: bit_symbol_def odd_iff_mod_2_eq_one)
  qed
  have "SigDetect.demodAnyBurst L ?in 1 a (real t) type = Some (Some (signalToSoftVector y))"
    using assms(7) dc rev(1) y(1) by (simp add: SigDetect.demodAnyBurst_def demodGmskBurst_def GMSKReverseRotate_def)
  moreover have "length (signalToSoftVector y) = ?N" using y(2) by (simp add: signalToSoftVector_def)
  moreover have "take (length bits) (signalToSoftVector y) = soft_of_bits bits"
    using y(2) bit by (intro nth_equalityI) (simp_all add: signalToSoftVector_def soft_of_bits_def)
  ultimately show ?thesis using v(1) rx inp(3) by (auto simp: SigModem.modulateBurst_def)
qed

text \<open>C19. Demodulation inverts modulation: the rotated burst of some bits, delayed by whole symbols within its guard
  period and multiplied by a gain, gives the bits back as soft bits of full amplitude, when the demodulator is told
  the gain and the delay.\<close>

theorem gmsk_burst_roundtrip:
  assumes "sig_modem_ready L" and "bits \<noteq> []" and "0 \<le> guard" and "t \<le> nat guard"
    and "length bits + nat guard \<le> 157" and "a \<noteq> 0" and "type \<noteq> EDGE"
  shows "\<exists>v rx soft. SigModem.modulateBurst L bits guard 1 True = Some (Some v) \<and> delayVector L v None (real t) = Some rx \<and>
    SigDetect.demodAnyBurst L (SigDetect.scaleVector rx a) 1 a (real t) type = Some (Some soft) \<and>
    take (length bits) soft = soft_of_bits bits"
  using gmsk_burst_roundtrip_aux [OF assms] by blast

theorem gmsk_burst_roundtrip_witness:
  "\<exists>L v rx soft. sig_modem_ready L \<and> SigModem.modulateBurst L [1, 0, 0, 1, 1] 2 1 True = Some (Some v) \<and>
    delayVector L v None 2 = Some rx \<and>
    SigDetect.demodAnyBurst L (SigDetect.scaleVector rx 3) 1 3 2 TSC = Some (Some soft) \<and>
    take 5 soft = soft_of_bits [1, 0, 0, 1, 1]"
proof -
  let ?L = "(initGMSKRotationTables (sig_initial (convolve_init True)))
    \<lparr>GSMPulse1 := generateGSMPulse 1, GSMPulse4 := generateGSMPulse 4\<rparr>"
  have "sig_modem_ready ?L" by (auto simp: sig_modem_ready_def initGMSKRotationTables_def sig_initial_def)
  then obtain L where r: "sig_modem_ready L" by blast
  obtain b :: "int list" where b: "b = [1, 0, 0, 1, 1]" "b \<noteq> []" "length b = 5" by simp
  have "\<exists>v rx soft. SigModem.modulateBurst L b 2 1 True = Some (Some v) \<and> delayVector L v None 2 = Some rx \<and>
    SigDetect.demodAnyBurst L (SigDetect.scaleVector rx 3) 1 3 2 TSC = Some (Some soft) \<and>
    take 5 soft = soft_of_bits b"
    using gmsk_burst_roundtrip [OF r b(2), of 2 2 3 TSC] b(3) by simp
  then show ?thesis using r unfolding b(1) by blast
qed

section \<open>Peaks and bounds\<close>

lemma norm2_ge_0 [simp]: "0 \<le> norm2 z"
  by (simp add: norm2_def)

text \<open>The first sample of the highest power; \<open>n\<close> if all samples are zero.\<close>

definition first_peak :: "complex list \<Rightarrow> nat \<Rightarrow> bool" where
  "first_peak zs k =
    (k < length zs \<and> 0 < norm2 (zs ! k) \<and> (\<forall>i < length zs. norm2 (zs ! i) \<le> norm2 (zs ! k)) \<and>
     (\<forall>i < k. norm2 (zs ! i) < norm2 (zs ! k)))"

lemma first_peak_unique:
  assumes "first_peak zs j" and "first_peak zs k"
  shows "j = k"
proof (rule ccontr)
  assume "j \<noteq> k"
  then consider "j < k" | "k < j" by linarith
  then show False using assms unfolding first_peak_def by cases (meson leD)+
qed

lemma peak_fold:
  "n \<le> length zs \<Longrightarrow> fold (fast_peak_step zs) [0..<n] (0, - 1, 0) = (mx, index, amp) \<Longrightarrow>
   (index = - 1 \<and> mx = 0 \<and> amp = 0 \<and> (\<forall>i < n. norm2 (zs ! i) = 0)) \<or>
   (\<exists>k. index = int k \<and> mx = norm2 (zs ! k) \<and> amp = zs ! k \<and> first_peak (take n zs) k)"
proof (induction n arbitrary: mx index amp)
  case (Suc n)
  obtain m j a where r: "fold (fast_peak_step zs) [0..<n] (0, - 1, 0) = (m, j, a)" by (rule prod_cases3)
  have IH: "(j = - 1 \<and> m = 0 \<and> a = 0 \<and> (\<forall>i < n. norm2 (zs ! i) = 0)) \<or>
    (\<exists>k. j = int k \<and> m = norm2 (zs ! k) \<and> a = zs ! k \<and> first_peak (take n zs) k)"
    using Suc.IH [OF _ r] Suc.prems(1) by simp
  have step: "(mx, index, amp) = fast_peak_step zs n (m, j, a)" using Suc.prems(2) r by simp
  have len: "length (take n zs) = n" "length (take (Suc n) zs) = Suc n" using Suc.prems(1) by simp_all
  show ?case
  proof (cases "norm2 (zs ! n) > m")
    case True
    then have e: "mx = norm2 (zs ! n)" "index = int n" "amp = zs ! n" using step by (simp_all add: fast_peak_step_def)
    have "norm2 (zs ! i) \<le> m" if "i < n" for i
      using IH that Suc.prems(1) by (auto simp: first_peak_def)
    then have "norm2 (zs ! i) < norm2 (zs ! n)" if "i < n" for i using True that by (meson le_less_trans)
    moreover have "0 < norm2 (zs ! n)" using True IH norm2_ge_0 by (metis le_less_trans)
    ultimately have "first_peak (take (Suc n) zs) n" unfolding first_peak_def len by (auto simp: less_Suc_eq intro: less_imp_le)
    then show ?thesis using e by blast
  next
    case False
    then have e: "mx = m" "index = j" "amp = a" using step by (simp_all add: fast_peak_step_def)
    show ?thesis
    proof (cases "j = - 1")
      case True
      then have "m = 0" "a = 0" "\<forall>i < n. norm2 (zs ! i) = 0" using IH by auto
      then show ?thesis using e True False norm2_ge_0 [of "zs ! n"] by (auto simp: less_Suc_eq)
    next
      case False': False
      then obtain k where k: "j = int k" "m = norm2 (zs ! k)" "a = zs ! k" "first_peak (take n zs) k" using IH by auto
      then have "first_peak (take (Suc n) zs) k"
        using False unfolding first_peak_def len by (auto simp: less_Suc_eq)
      then show ?thesis using e k by blast
    qed
  qed
qed simp

lemma fastPeakDetect_cases:
  "fastPeakDetect v = (0, - 1) \<and> (\<forall>i < sv_size v. norm2 (sv_samples v ! i) = 0) \<or>
   (\<exists>k. fastPeakDetect v = (sv_samples v ! k, real k) \<and> first_peak (sv_samples v) k)"
proof -
  obtain mx index amp where r: "fold (fast_peak_step (sv_samples v)) [0..<sv_size v] (0, - 1, 0) = (mx, index, amp)"
    by (rule prod_cases3)
  have "fastPeakDetect v = (amp, of_int index)"
    unfolding fastPeakDetect_def Let_def r by simp
  then show ?thesis using peak_fold [OF _ r] by auto
qed

lemma peak_fold_pair:
  "fold (peak_step zs) is (fst s, fst (snd s)) = (fst (fold (fast_peak_step zs) is s), fst (snd (fold (fast_peak_step zs) is s)))"
proof (induction "is" arbitrary: s)
  case (Cons i "is")
  have "peak_step zs i (fst s, fst (snd s)) = (fst (fast_peak_step zs i s), fst (snd (fast_peak_step zs i s)))"
    by (simp add: peak_step_def fast_peak_step_def Let_def)
  then show ?case using Cons.IH [of "fast_peak_step zs i s"] by simp
qed simp

lemma interpolatePoint_some:
  assumes "0 < sv_size v" and "- 1000 \<le> ix" and "ix \<le> 2 ^ 31"
  shows "interpolatePoint L v ix \<noteq> None"
proof -
  let ?e = "\<lfloor>ix\<rfloor> + 11" and ?n = "int (sv_size v)"
  have f: "\<lfloor>ix\<rfloor> \<le> 2 ^ 31" using assms(3) by (simp add: floor_le_iff)
  have b: "(if ?e mod 2 ^ 32 > (?n - 1) mod 2 ^ 64 then (?n - 1) mod 2 ^ 64 else ?e) \<le> ?n"
  proof -
    have "(?n - 1) mod 2 ^ 64 \<le> ?n - 1" using assms(1) by (intro zmod_le_nonneg_dividend) simp
    moreover have "?e \<le> ?e mod 2 ^ 32"
    proof (cases "0 \<le> ?e")
      case True
      then show ?thesis using f by simp
    next
      case False
      have "0 \<le> ?e mod 2 ^ 32" by simp
      then show ?thesis using False by linarith
    qed
    ultimately show ?thesis by (auto split: if_splits)
  qed
  show ?thesis unfolding interpolatePoint_def Let_def if_not_P [OF leD [OF b]] by (rule option.distinct(2))
qed

lemma early_late_some:
  assumes "0 < sv_size v" and "incr \<le> 2 ^ n / 1024" and "0 < incr" and "l = e + 2"
    and "- 900 \<le> e - 2 * incr" and "e + 2 * incr + 2 \<le> 2 ^ 31"
  shows "\<exists>r. early_late L v n incr e l = Some r \<and> \<bar>r - e\<bar> < 2 * incr"
  using assms(2-6)
proof (induction n arbitrary: incr e l)
  case 0
  then show ?case by simp
next
  case (Suc n)
  show ?case
  proof (cases "incr > 1 / 1024")
    case True
    obtain p q where pq: "interpolatePoint L v e = Some p" "interpolatePoint L v l = Some q"
      using interpolatePoint_some [OF assms(1), of e L] interpolatePoint_some [OF assms(1), of l L] Suc.prems by auto
    have h: "incr / 2 \<le> 2 ^ n / 1024" "0 < incr / 2" using Suc.prems by simp_all
    consider "norm2 p < norm2 q" | "norm2 q < norm2 p" | "norm2 p = norm2 q" by linarith
    then show ?thesis
    proof cases
      case 1
      then show ?thesis
        using Suc.IH [OF h, of "e + incr + 2" "e + incr"] Suc.prems pq True by (auto simp: abs_le_iff)
    next
      case 2
      then show ?thesis
        using Suc.IH [OF h, of "e - incr + 2" "e - incr"] Suc.prems pq True by (auto simp: abs_le_iff)
    next
      case 3
      then show ?thesis using Suc.prems pq True by simp
    qed
  next
    case False
    then show ?thesis using Suc.prems by simp
  qed
qed

lemma peakDetect_near:
  assumes "0 < sv_size v" and "sv_size v \<le> 2 ^ 30"
  obtains amp toa where "peakDetect L v = Some (amp, toa)" and "- 2 < toa" and "toa < real (sv_size v)"
    and "\<And>k. first_peak (sv_samples v) k \<Longrightarrow> \<bar>toa - real k\<bar> < 1"
proof -
  obtain mx index amp where r: "fold (fast_peak_step (sv_samples v)) [0..<sv_size v] (0, - 1, 0) = (mx, index, amp)"
    by (rule prod_cases3)
  have r': "fold (peak_step (sv_samples v)) [0..<sv_size v] (0, - 1) = (mx, index)"
    using peak_fold_pair [where zs = "sv_samples v" and s = "(0, - 1, 0)"] r by simp
  have c: "index = - 1 \<and> (\<forall>i < sv_size v. norm2 (sv_samples v ! i) = 0) \<or> (\<exists>k. index = int k \<and> first_peak (sv_samples v) k)"
    using peak_fold [OF _ r] by auto
  then have b: "- 1 \<le> index" "index < int (sv_size v)" by (auto simp: first_peak_def)
  have b': "- 1 \<le> real_of_int index" "real_of_int index \<le> real (sv_size v) - 1" using b by linarith+
  have s: "real (sv_size v) \<le> 2 ^ 30" using assms(2) by (metis of_nat_le_iff of_nat_numeral of_nat_power)
  obtain e where e: "early_late L v 9 (1 / 2) (of_int index - 1) (of_int index + 1) = Some e" "\<bar>e - (of_int index - 1)\<bar> < 1"
    using early_late_some [OF assms(1), of "1 / 2" 9 "of_int index + 1" "of_int index - 1" L] b' s by auto
  have "(2::real) ^ 30 + 2 \<le> 2 ^ 31" by simp
  then have ie: "- 1000 \<le> e + 1" "e + 1 \<le> 2 ^ 31" using e(2) b' s by linarith+
  then obtain amp' where "interpolatePoint L v (e + 1) = Some amp'" using interpolatePoint_some [OF assms(1) ie, of L] by auto
  then have p: "peakDetect L v = Some (amp', e + 1)"
    unfolding peakDetect_def Let_def r' using e(1) by simp
  have n: "\<bar>(e + 1) - real k\<bar> < 1" if "first_peak (sv_samples v) k" for k
  proof -
    have "0 < norm2 (sv_samples v ! k)" "k < sv_size v" using that by (simp_all add: first_peak_def)
    then have "index = int k" using c first_peak_unique [OF that] by auto
    then show ?thesis using e(2) by simp
  qed
  show thesis by (rule that [OF p _ _ n]) (use e(2) b' in linarith)+
qed

section \<open>The tables after the set-up\<close>

definition seq_ready :: "nat \<Rightarrow> correlation_sequence option \<Rightarrow> bool" where
  "seq_ready n cs = (\<exists>c s. cs = Some c \<and> cs_sequence c = Some s \<and> sv_ok s \<and> sv_size s = n)"

definition filter_ready :: "signal_vector option \<Rightarrow> bool" where
  "filter_ready h = (\<exists>v. h = Some v \<and> sv_ok v \<and> sv_isReal v \<and> sv_size v = 20)"

definition sig_ready :: "sig_lib \<Rightarrow> bool" where
  "sig_ready L =
    (sig_modem_ready L \<and> length (gMidambles L) = 8 \<and> list_all (seq_ready 16) (gMidambles L) \<and>
     length (gEdgeMidambles L) = 8 \<and> list_all (seq_ready 16) (gEdgeMidambles L) \<and>
     length (gRACHSequences L) = 3 \<and> list_all (seq_ready 40) (gRACHSequences L) \<and>
     length (delayFilters L) = DELAYFILTS \<and> list_all filter_ready (delayFilters L) \<and>
     length (sincTable L) = TABLESIZE + 1 \<and>
     dnsampler L = Some (snd (rs_init 1 (rs_new 1 4 16))) \<and> \<not> dnsampler_deleted L)"

lemma sig_modem_ready_update [simp]:
  "sig_modem_ready (L\<lparr>gRACHSequences := x1\<rparr>) = sig_modem_ready L" "sig_modem_ready (L\<lparr>gMidambles := x2\<rparr>) = sig_modem_ready L"
  "sig_modem_ready (L\<lparr>gEdgeMidambles := x3\<rparr>) = sig_modem_ready L" "sig_modem_ready (L\<lparr>delayFilters := x4\<rparr>) = sig_modem_ready L"
  "sig_modem_ready (L\<lparr>dnsampler := x5\<rparr>) = sig_modem_ready L" "sig_modem_ready (L\<lparr>dnsampler_deleted := x6\<rparr>) = sig_modem_ready L"
  by (simp_all add: sig_modem_ready_def)

lemma aligned_copy_simps [simp]: "sv_size (aligned_copy v) = sv_size v" "sv_ok (aligned_copy v)"
  "sv_samples (aligned_copy v) = sv_samples v"
  by (simp_all add: aligned_copy_def sv_setAligned_def sv_wrap_def sv_size_def sv_ok_def sv_samples_def)

lemma conjugateVector_simps:
  "sv_ok v \<Longrightarrow> sv_size (conjugateVector v) = sv_size v" "sv_ok v \<Longrightarrow> sv_ok (conjugateVector v)"
  by (simp_all add: conjugateVector_def sv_size_map)

text \<open>The burst and its correlation sequence have an autocorrelation with a peak.\<close>

lemma autocorr_peak:
  assumes "sl_cpu L = convolve_init sse3" and "sv_ok x" and "0 < sv_size x" and "sv_size x \<le> 2 ^ 30" and "0 < sv_size h"
    and "sv_size h \<le> sv_size x + sv_size h div 2"
  obtains ac gain toa where "sv_convolve (sl_cpu L) (Some x) (Some h) None NO_DELAY 0 0 = Some ac" and
    "peakDetect L' ac = Some (gain, toa)"
proof -
  obtain ac where ac: "sv_convolve (convolve_init sse3) (Some x) (Some h) None NO_DELAY 0 0 = Some ac" and
    s: "sv_samples ac = map (\<lambda>i. conv_at (conv_input NO_DELAY x h) h (int (sv_size h div 2) + int i)) [0..<sv_size x]"
    using sv_convolve_aux [where y = None and spanType = NO_DELAY and x = x and h = h and start = 0 and len = 0
        and s = "sv_size h div 2" and n = "sv_size x" and ?sse3.0 = sse3] assms(2,3,5,6)
    by (auto simp: conv_range_def conv_fits_def)
  have "sv_size ac = sv_size x" using sv_size_samples [OF s] by simp
  then obtain gain toa where "peakDetect L' ac = Some (gain, toa)"
    using peakDetect_near [of ac L'] assms(3,4) by metis
  then show thesis using that ac assms(1) by simp
qed

lemma basic_burst:
  assumes "sig_modem_ready L" and "4 \<le> length bits" and "length bits \<le> 157"
  obtains y where "SigModem.modulateBurst L bits 0 1 False = Some (Some y)" and "sv_ok y" and "sv_size y = length bits"
    and "sv_isReal y = False"
proof -
  have ne: "bits \<noteq> []" using assms(2) by auto
  obtain ps h where ps: "(if (1::nat) = 1 then GSMPulse1 L else GSMPulse4 L) = Some ps" "ps_c0 ps = Some h"
    by (rule pulse_c0 [OF assms(1), of 1]) simp_all
  obtain y where y: "modulateBurstBasic L bits 0 1 = Some (Some y)" "sv_quiet y" "sv_isReal y = False" and
    s: "sv_samples y = map (\<lambda>i. conv_at (at_symbols 1 0 (length bits) (gmsk_symbol bits)) h (int i)) [0..<1 * (length bits + nat 0)]"
    using modulateBurstBasic_waveform [of L 1 0 bits ps h] assms ps ne by auto
  have "sv_size y = length bits" using sv_size_samples [OF s] by simp
  then show thesis using that y by (simp add: SigModem.modulateBurst_def sv_quiet_def)
qed

lemma rotated_burst:
  assumes "sig_modem_ready L" and "bits \<noteq> []" and "length bits \<le> 157"
  obtains y where "SigModem.modulateBurst L bits 0 1 True = Some (Some y)" and "sv_ok y" and "sv_size y = length bits"
proof -
  obtain y where "rotateBurst L bits 0 1 = Some (Some y)" "sv_quiet y" "sv_size y = 1 * (length bits + nat 0)"
    using rotateBurst_waveform [of L 1 0 bits] assms by auto
  then show thesis using that by (simp add: SigModem.modulateBurst_def sv_quiet_def)
qed

lemma generateRACHSequence_ready:
  assumes "sig_modem_ready L" and "length bv = 41"
  obtains seq where "generateRACHSequence L bv 1 = Some (True, seq)" and "seq_ready 40 seq"
proof -
  obtain sse3 where c: "sl_cpu L = convolve_init sse3" using assms(1) by (auto simp: sig_modem_ready_def)
  obtain y where y: "SigModem.modulateBurst L bv 0 1 False = Some (Some y)" "sv_ok y" "sv_size y = 41"
    by (rule basic_burst [OF assms(1), of bv]) (use assms(2) in simp_all)
  let ?part = "slice bv 0 40"
  have part: "bv_segment bv 0 40 = Some ?part" "length ?part = 40" using assms(2) by (simp_all add: bv_segment_def slice_def)
  then have "?part \<noteq> []" by auto
  then obtain z where z: "SigModem.modulateBurst L ?part 0 1 True = Some (Some z)" "sv_ok z" "sv_size z = 40"
    by (rule rotated_burst [OF assms(1)]) (use part(2) in simp_all)
  let ?seq = "aligned_copy (conjugateVector z)"
  have s: "sv_size ?seq = 40" using z by (simp add: conjugateVector_simps)
  obtain ac gain toa where a: "sv_convolve (sl_cpu L) (Some y) (Some ?seq) None NO_DELAY 0 0 = Some ac"
    "peakDetect L ac = Some (gain, toa)"
    by (rule autocorr_peak [where L' = L and x = y and h = ?seq, OF c y(2)]) (use y(3) s in simp_all)
  show thesis
    by (rule that [of "Some \<lparr>cs_sequence = Some ?seq, cs_toa = toa - 20.5, cs_gain = gain\<rparr>"])
      (use y z part a s in \<open>simp_all add: generateRACHSequence_def seq_ready_def Let_def\<close>)
qed

lemma training_lengths:
  "tsc < 8 \<Longrightarrow> length (gTrainingSequence ! tsc) = 26" "tsc < 8 \<Longrightarrow> length (gEdgeTrainingSequence ! tsc) = 78"
proof -
  have "map length gTrainingSequence = replicate 8 26" "map length gEdgeTrainingSequence = replicate 8 78"
    by (simp_all add: gTrainingSequence_def gEdgeTrainingSequence_def eval_nat_numeral)
  then have "length (gTrainingSequence ! tsc) = replicate 8 26 ! tsc" "length (gEdgeTrainingSequence ! tsc) = replicate 8 78 ! tsc"
    if "tsc < 8" using that nth_map [of tsc] by (metis length_map length_replicate)+
  then show "tsc < 8 \<Longrightarrow> length (gTrainingSequence ! tsc) = 26" "tsc < 8 \<Longrightarrow> length (gEdgeTrainingSequence ! tsc) = 78"
    by simp_all
qed

lemma generateMidamble_ready:
  assumes "sig_modem_ready L" and "tsc < 8"
  obtains e where "generateMidamble L 1 (int tsc) = Some (True, L\<lparr>gMidambles := (gMidambles L)[tsc := e]\<rparr>)" and "seq_ready 16 e"
proof -
  let ?t = "gTrainingSequence ! tsc"
  have lt: "length ?t = 26" using assms(2) by (rule training_lengths)
  obtain sse3 where c: "sl_cpu L = convolve_init sse3" using assms(1) by (auto simp: sig_modem_ready_def)
  obtain y where y: "SigModem.modulateBurst L ?t 0 1 False = Some (Some y)" "sv_ok y" "sv_size y = 26" "sv_isReal y = False"
    by (rule basic_burst [OF assms(1), of ?t]) (use lt in simp_all)
  let ?part = "slice ?t 5 16"
  have part: "bv_segment ?t 5 16 = Some ?part" "length ?part = 16" using lt by (simp_all add: bv_segment_def slice_def)
  then have "?part \<noteq> []" by auto
  then obtain z where z: "SigModem.modulateBurst L ?part 0 1 True = Some (Some z)" "sv_ok z" "sv_size z = 16"
    by (rule rotated_burst [OF assms(1)]) (use part(2) in simp_all)
  let ?seq = "aligned_copy (conjugateVector (SigDetect.scaleVector z (Complex (- 1) 0)))"
  let ?y = "SigDetect.scaleVector y (Complex 0 1)"
  have s: "sv_size ?seq = 16" using z by (simp add: conjugateVector_simps scaleVector_complex)
  obtain ac gain toa where a: "sv_convolve (sl_cpu L) (Some ?y) (Some ?seq) None NO_DELAY 0 0 = Some ac"
    "peakDetect L ac = Some (gain, toa)"
    by (rule autocorr_peak [where L' = L and x = ?y and h = ?seq, OF c]) (use y s in \<open>simp_all add: scaleVector_complex\<close>)
  show thesis
    by (rule that [of "Some \<lparr>cs_sequence = Some ?seq, cs_toa = toa - 13.5, cs_gain = gain\<rparr>"])
      (use assms(2) y z part a s in \<open>simp_all add: generateMidamble_def seq_ready_def Let_def\<close>)
qed

lemma generateEdgeMidamble_ready:
  assumes "tsc < 8"
  obtains e where "generateEdgeMidamble L (int tsc) = Some e" and "seq_ready 16 e"
proof -
  let ?t = "gEdgeTrainingSequence ! tsc"
  have lt: "length ?t = 78" using assms by (rule training_lengths)
  let ?part = "slice ?t 15 48"
  have part: "bv_segment ?t 15 48 = Some ?part" "length ?part = 3 * 16" using lt by (simp_all add: bv_segment_def slice_def)
  obtain sy where sy: "mapEdgeSymbols ?part = Some sy" "sv_samples sy = map (\<lambda>i. psk8_table ! psk8_index ?part i) [0..<16]"
    using mapEdgeSymbols_samples [OF part(2)] by auto
  have "sv_size sy = 16" using sv_size_samples [OF sy(2)] by simp
  then obtain r where r: "rotateEdgeBurst sy 1 = Some r" "sv_ok r" "sv_size r = 16"
    using rotateEdgeBurst_samples [of 1 sy] by auto
  show thesis
    by (rule that [of "Some \<lparr>cs_sequence = Some (aligned_copy (conjugateVector r)), cs_toa = 0,
          cs_gain = Complex (- 19.6432) 19.5006 / 1.18\<rparr>"])
      (use assms part(1) sy(1) r in \<open>simp_all add: generateEdgeMidamble_def SigModem.modulateEdgeBurst_def seq_ready_def conjugateVector_simps\<close>)
qed

lemma setup_rach_ready:
  assumes "sig_modem_ready L" and "length bv = 41"
  obtains e where "setup_rach i bv L = Some (L\<lparr>gRACHSequences := (gRACHSequences L)[i := e]\<rparr>)" and "seq_ready 40 e"
proof -
  obtain e where "generateRACHSequence L bv 1 = Some (True, e)" "seq_ready 40 e" by (rule generateRACHSequence_ready [OF assms])
  then show thesis using that by (simp add: setup_rach_def)
qed

text \<open>The two tables fill from the front, and nothing else changes.\<close>

lemma setup_midambles_ready:
  assumes "sig_modem_ready L" and "length (gMidambles L) = 8" and "length (gEdgeMidambles L) = 8" and "n \<le> 8"
    and "list_all (seq_ready 16) (take (8 - n) (gMidambles L))" and "list_all (seq_ready 16) (take (8 - n) (gEdgeMidambles L))"
  shows "\<exists>M E. setup_midambles [8 - n..<8] L = Some (L\<lparr>gMidambles := M, gEdgeMidambles := E\<rparr>) \<and>
    length M = 8 \<and> length E = 8 \<and> list_all (seq_ready 16) M \<and> list_all (seq_ready 16) E"
  using assms
proof (induction n arbitrary: L)
  case 0
  then show ?case by (intro exI [of _ "gMidambles L"] exI [of _ "gEdgeMidambles L"]) simp
next
  case (Suc n)
  let ?k = "8 - Suc n"
  have k: "?k < 8" "Suc ?k = 8 - n" using Suc.prems(4) by simp_all
  have u: "[?k..<8] = ?k # [8 - n..<8]" using k by (metis upt_conv_Cons)
  obtain e where e: "generateMidamble L 1 (int ?k) = Some (True, L\<lparr>gMidambles := (gMidambles L)[?k := e]\<rparr>)" "seq_ready 16 e"
    by (rule generateMidamble_ready [OF Suc.prems(1) k(1)])
  let ?L1 = "L\<lparr>gMidambles := (gMidambles L)[?k := e]\<rparr>"
  obtain f where f: "generateEdgeMidamble ?L1 (int ?k) = Some f" "seq_ready 16 f"
    by (rule generateEdgeMidamble_ready [OF k(1)])
  let ?L2 = "?L1\<lparr>gEdgeMidambles := (gEdgeMidambles ?L1)[?k := f]\<rparr>"
  have t: "take (8 - n) (xs[?k := x]) = take ?k xs @ [x]" if "length xs = 8" for xs :: "correlation_sequence option list" and x
    using that k unfolding k(2) [symmetric] by (simp add: take_Suc_conv_app_nth)
  have p: "sig_modem_ready ?L2" "length (gMidambles ?L2) = 8" "length (gEdgeMidambles ?L2) = 8" "n \<le> 8"
    using Suc.prems by simp_all
  have g: "gMidambles ?L2 = (gMidambles L)[?k := e]" "gEdgeMidambles ?L2 = (gEdgeMidambles L)[?k := f]" by simp_all
  have q: "list_all (seq_ready 16) (take (8 - n) (gMidambles ?L2))" "list_all (seq_ready 16) (take (8 - n) (gEdgeMidambles ?L2))"
    unfolding g t [OF Suc.prems(2)] t [OF Suc.prems(3)] list_all_append using Suc.prems(5,6) e(2) f(2)
    by (simp_all only: list.pred_inject simp_thms)
  obtain M E where "setup_midambles [8 - n..<8] ?L2 = Some (?L2\<lparr>gMidambles := M, gEdgeMidambles := E\<rparr>)"
    "length M = 8" "length E = 8" "list_all (seq_ready 16) M" "list_all (seq_ready 16) E"
    using Suc.IH [OF p q] by blast
  moreover have "?L2\<lparr>gMidambles := M, gEdgeMidambles := E\<rparr> = L\<lparr>gMidambles := M, gEdgeMidambles := E\<rparr>" by simp
  ultimately show ?case unfolding u using e(1) f(1) by auto
qed

lemma delay_filter_ready: "filter_ready (Some (delay_filter L i))"
  by (simp add: filter_ready_def delay_filter_def Let_def)

lemma sequences_41: "length gRACHSynchSequenceTS0 = 41" "length gRACHSynchSequenceTS1 = 41" "length gRACHSynchSequenceTS2 = 41"
  by (simp_all add: gRACHSynchSequenceTS0_def gRACHSynchSequenceTS1_def gRACHSynchSequenceTS2_def)

definition setup_base :: "sig_lib \<Rightarrow> sig_lib" where
  "setup_base L0 =
    (initGMSKRotationTables (generateSincTable L0))\<lparr>GSMPulse1 := generateGSMPulse 1, GSMPulse4 := generateGSMPulse 4\<rparr>"

lemma setup_base_ready: "sl_cpu L0 = convolve_init sse3 \<Longrightarrow> sig_modem_ready (setup_base L0)"
  unfolding sig_modem_ready_def by (auto simp: setup_base_def initGMSKRotationTables_def generateSincTable_def)

lemma setup_base_fields [simp]:
  "gMidambles (setup_base L0) = gMidambles L0" "gEdgeMidambles (setup_base L0) = gEdgeMidambles L0"
  "gRACHSequences (setup_base L0) = gRACHSequences L0"
  "sincTable (setup_base L0) = sincTable (generateSincTable L0)"
  by (simp_all add: setup_base_def initGMSKRotationTables_def generateSincTable_def)

lemma rs_init_dnsampler: "rs_init 1 (rs_new 1 4 16) = (True, snd (rs_init 1 (rs_new 1 4 16)))"
  by (simp add: rs_init_def rs_new_def Let_def)

lemma setup_ready_aux:
  assumes "sl_cpu L0 = convolve_init sse3" and "length (gMidambles L0) = 8" and "length (gEdgeMidambles L0) = 8"
    and "length (gRACHSequences L0) = 3" and "length (sincTable L0) = TABLESIZE + 1"
  shows "\<exists>L. sigProcLibSetup L0 = Some (True, L) \<and> sig_ready L \<and> sl_cpu L = convolve_init sse3"
proof -
  let ?L = "setup_base L0"
  have rd: "sig_modem_ready ?L" by (rule setup_base_ready [OF assms(1)])
  obtain e0 where e0: "setup_rach 0 gRACHSynchSequenceTS0 ?L = Some (?L\<lparr>gRACHSequences := (gRACHSequences ?L)[0 := e0]\<rparr>)" "seq_ready 40 e0"
    by (rule setup_rach_ready [OF rd sequences_41(1)])
  let ?L1 = "?L\<lparr>gRACHSequences := (gRACHSequences ?L)[0 := e0]\<rparr>"
  have r1: "sig_modem_ready ?L1" using rd by simp
  obtain e1 where e1: "setup_rach 1 gRACHSynchSequenceTS1 ?L1 = Some (?L1\<lparr>gRACHSequences := (gRACHSequences ?L1)[1 := e1]\<rparr>)" "seq_ready 40 e1"
    by (rule setup_rach_ready [OF r1 sequences_41(2)])
  let ?L2 = "?L1\<lparr>gRACHSequences := (gRACHSequences ?L1)[1 := e1]\<rparr>"
  have r2: "sig_modem_ready ?L2" using rd by simp
  obtain e2 where e2: "setup_rach 2 gRACHSynchSequenceTS2 ?L2 = Some (?L2\<lparr>gRACHSequences := (gRACHSequences ?L2)[2 := e2]\<rparr>)" "seq_ready 40 e2"
    by (rule setup_rach_ready [OF r2 sequences_41(3)])
  let ?L3 = "?L2\<lparr>gRACHSequences := (gRACHSequences ?L2)[2 := e2]\<rparr>"
  have r3: "sig_modem_ready ?L3" and l3: "length (gMidambles ?L3) = 8" "length (gEdgeMidambles ?L3) = 8"
    using rd assms(2,3) by simp_all
  have t3: "list_all (seq_ready 16) (take (8 - 8) (gMidambles ?L3))" "list_all (seq_ready 16) (take (8 - 8) (gEdgeMidambles ?L3))"
    by simp_all
  obtain M E where m: "setup_midambles [8 - 8..<8] ?L3 = Some (?L3\<lparr>gMidambles := M, gEdgeMidambles := E\<rparr>)"
    and me: "length M = 8" "length E = 8" "list_all (seq_ready 16) M" "list_all (seq_ready 16) E"
    using setup_midambles_ready [OF r3 l3 order_refl t3] by blast
  obtain r where r: "rs_init 1 (rs_new 1 4 16) = (True, r)" using rs_init_dnsampler by blast
  let ?L4 = "(generateDelayFilters (?L3\<lparr>gMidambles := M, gEdgeMidambles := E\<rparr>))\<lparr>dnsampler := Some r, dnsampler_deleted := False\<rparr>"
  have b: "initGMSKRotationTables (generateSincTable L0)\<lparr>GSMPulse1 := generateGSMPulse 1\<rparr>\<lparr>GSMPulse4 := generateGSMPulse 4\<rparr> = ?L"
    by (simp add: setup_base_def)
  have s: "sigProcLibSetup L0 = Some (True, ?L4)"
    unfolding sigProcLibSetup_def Let_def b r using e0(1) e1(1) e2(1) m by simp
  have r4: "sig_modem_ready ?L4" using rd by (simp add: generateDelayFilters_def)
  obtain a0 a1 a2 where "gRACHSequences L0 = [a0, a1, a2]" using assms(4) by (auto simp: eval_nat_numeral length_Suc_conv)
  then have g: "gRACHSequences ?L4 = [e0, e1, e2]" by (simp add: generateDelayFilters_def numeral_2_eq_2)
  have "length (sincTable (generateSincTable L0)) = TABLESIZE + 1" using assms(5) by (simp add: generateSincTable_def)
  then have st: "length (sincTable ?L4) = TABLESIZE + 1" by (simp add: generateDelayFilters_def)
  have "list_all filter_ready (delayFilters ?L4)" "length (delayFilters ?L4) = DELAYFILTS"
    by (simp_all add: generateDelayFilters_def list_all_iff delay_filter_ready)
  then have "sig_ready ?L4"
    unfolding sig_ready_def using r4 me g e0(2) e1(2) e2(2) st r by (simp add: generateDelayFilters_def)
  moreover have "sl_cpu ?L4 = convolve_init sse3"
    using assms(1) by (simp add: generateDelayFilters_def setup_base_def initGMSKRotationTables_def generateSincTable_def)
  ultimately show ?thesis using s by blast
qed

text \<open>C23. The set-up of the library succeeds from the static initial values on every processor, without touching
  anything undefined, and leaves all tables filled: eight GMSK and eight EDGE midambles of 16 symbols, three
  synchronisation sequences of 40, 64 delay filters of 20 taps, the pulses, the rotations and the resampler. Releasing
  the tables works once, and after a new set-up again; a second release in a row is undefined, because the pointer to
  the resampler is not cleared.\<close>

theorem setup_and_release:
  "\<exists>L L'. sigProcLibSetup (sig_initial (convolve_init sse3)) = Some (True, L) \<and> sig_ready L \<and>
     sigProcLibDestroy L = Some L' \<and> sigProcLibDestroy L' = None \<and>
     (\<exists>L2. sigProcLibSetup L' = Some (True, L2) \<and> sig_ready L2)"
proof -
  obtain L where L: "sigProcLibSetup (sig_initial (convolve_init sse3)) = Some (True, L)" "sig_ready L" "sl_cpu L = convolve_init sse3"
    using setup_ready_aux [of "sig_initial (convolve_init sse3)" sse3] by (auto simp: sig_initial_def TABLESIZE_def)
  then obtain L' where L': "sigProcLibDestroy L = Some L'" "sigProcLibDestroy L' = None" and
    f: "sl_cpu L' = convolve_init sse3" "length (gMidambles L') = 8" "length (gEdgeMidambles L') = 8"
      "length (gRACHSequences L') = 3" "length (sincTable L') = TABLESIZE + 1"
    by (auto simp: sig_ready_def sigProcLibDestroy_def)
  then obtain L2 where "sigProcLibSetup L' = Some (True, L2)" "sig_ready L2"
    using setup_ready_aux [OF f] by blast
  then show ?thesis using L L' by blast
qed

section \<open>What detection returns\<close>

lemma downsampleBurst_some:
  assumes "sig_ready L" and "624 \<le> sv_size burst"
  obtains dec where "downsampleBurst L burst = Some (Some dec)" and "sv_ok dec"
proof -
  obtain r where r: "rs_init 1 (rs_new 1 4 16) = (True, r)" using rs_init_dnsampler by blast
  then have pq: "rs_p r = 1" "rs_q r = 4" by (auto simp: rs_init_def rs_new_def rs_initFilters_def Let_def)
  have "check_vec_len 624 156 (int (rs_p r)) (int (rs_q r))" by (simp add: check_vec_len_def pq MAX_OUTPUT_LEN_def)
  then have c: "\<not> \<not> check_vec_len (int 624) (int 156) (int (rs_p r)) (int (rs_q r))" by simp
  have d: "dnsampler L = Some r" using assms(1) r by (simp add: sig_ready_def)
  show thesis
    by (rule that, simp add: assms(2) not_less downsampleBurst_def d rs_rotate_def if_not_P [OF c] DOWNSAMPLE_IN_LEN_def
        DOWNSAMPLE_OUT_LEN_def Let_def case_prod_beta c [simplified], simp)
qed

definition detect_input_ok :: "sig_lib \<Rightarrow> signal_vector \<Rightarrow> nat \<Rightarrow> bool" where
  "detect_input_ok L burst sps = (sig_ready L \<and> sv_ok burst \<and> (sps = 1 \<or> sps = 4 \<and> 624 \<le> sv_size burst))"

lemma detectBurst_result:
  assumes "detect_input_ok L burst sps" and "seq_ready n sync" and "0 < n" and "n \<le> start + len" and "0 < len"
    and "len \<le> 2 ^ 30"
  obtains rc amp toa c where "detectBurst L burst len sync thresh sps start len at0 = Some (rc, amp, toa)" and "sync = Some c"
    and "rc = 0 \<or> rc = 1 \<and> 2 < toa + cs_toa c \<and> toa + cs_toa c < real len - 2"
proof -
  obtain c h where c: "sync = Some c" "cs_sequence c = Some h" "sv_size h = n" using assms(2) by (auto simp: seq_ready_def)
  obtain x where x: "(if sps = 4 then downsampleBurst L burst else Some (Some burst)) = Some (Some x)" "sv_ok x"
  proof (cases "sps = 4")
    case True
    have "sig_ready L" "624 \<le> sv_size burst" using assms(1) True by (auto simp: detect_input_ok_def)
    then obtain dec where "downsampleBurst L burst = Some (Some dec)" "sv_ok dec" by (rule downsampleBurst_some)
    then show thesis using that True by simp
  qed (use that assms(1) in \<open>auto simp: detect_input_ok_def\<close>)
  obtain sse3 where cpu: "sl_cpu L = convolve_init sse3" using assms(1) by (auto simp: detect_input_ok_def sig_ready_def sig_modem_ready_def)
  have fit: "sv_size h \<le> max (sv_size x) (start + len)" using assms(4) c(3) by simp
  obtain corr where corr: "sv_convolve (sl_cpu L) (Some x) (Some h) (Some (sv_new len 0)) CUSTOM start len = Some corr"
    and cs: "sv_samples corr = map (\<lambda>i. conv_at (conv_input CUSTOM x h) h (int start + int i)) [0..<len] @ drop len (sv_samples (sv_new len 0))"
    using sv_convolve_aux [where y = "Some (sv_new len 0)" and spanType = CUSTOM and x = x and h = h and start = start and len = len
        and s = start and n = len and ?sse3.0 = sse3] x(2) assms(3-5) c(3) cpu fit
    by (auto simp: conv_range_def conv_fits_def)
  have n: "sv_size corr = len" using sv_size_samples [OF cs] by simp
  obtain amp0 toa0 where f: "fastPeakDetect corr = (amp0, toa0)" by (cases "fastPeakDetect corr")
  obtain a0 t0 where at0: "at0 = (a0, t0)" by (cases at0)
  have d: "detectBurst L burst len sync thresh sps start len at0 =
      (if toa0 < 3 \<or> toa0 > real len - 3 then Some (0, amp0, toa0)
       else if computePeakRatio corr 1 toa0 amp0 < thresh then Some (0, amp0, toa0)
       else do { (amp, toa) \<leftarrow> peakDetect L corr; Some (1, amp / cs_gain c, toa - cs_toa c) })"
    unfolding detectBurst_def at0 by (simp add: x(1) c(1,2) corr f Let_def del: if_split_asm)
  show thesis
  proof (cases "toa0 < 3 \<or> toa0 > real len - 3 \<or> computePeakRatio corr 1 toa0 amp0 < thresh")
    case True
    then show thesis using that [of 0 amp0 toa0 c] d c(1) by auto
  next
    case False
    then obtain k where k: "toa0 = real k" "first_peak (sv_samples corr) k" using fastPeakDetect_cases [of corr] f by auto
    have l: "0 < sv_size corr" "sv_size corr \<le> 2 ^ 30" using n assms(5,6) by simp_all
    obtain amp toa where p: "peakDetect L corr = Some (amp, toa)" and near: "\<And>k. first_peak (sv_samples corr) k \<Longrightarrow> \<bar>toa - real k\<bar> < 1"
      by (rule peakDetect_near [OF l, of L]) blast
    have "2 < toa" "toa < real len - 2" using near [OF k(2)] False k(1) by linarith+
    then show thesis using that [of 1 "amp / cs_gain c" "toa - cs_toa c" c] d p False c(1) by auto
  qed
qed

definition clip_code :: "signal_vector \<Rightarrow> int" where
  "clip_code burst = (if maxAmplitude burst > CLIP_THRESH then - 2 else 0)"

definition toa_window :: "correlation_sequence option \<Rightarrow> nat \<Rightarrow> nat \<Rightarrow> real \<Rightarrow> bool" where
  "toa_window sync head max_toa toa =
    (\<exists>c. sync = Some c \<and> 2 - real head < toa + cs_toa c \<and> toa + cs_toa c < real (head + max_toa) - 2)"

lemma detectGeneralBurst_result:
  assumes "detect_input_ok L burst sps" and "seq_ready n sync" and "0 < n" and "n \<le> target + max_toa" and "0 < head"
    and "head < target" and "max_toa \<le> 2 ^ 29" and "head \<le> 8"
  obtains rc amp toa where "detectGeneralBurst L burst thresh sps target head (head + max_toa) sync at0 = Some (rc, amp, toa)"
    and "rc = 1 \<and> toa_window sync head max_toa toa \<or> rc = clip_code burst"
proof -
  let ?start = "target - head - 1" and ?len = "head + (head + max_toa)"
  have b: "n \<le> ?start + ?len" "0 < ?len" "?len \<le> 2 ^ 30" using assms(4-8) by simp_all
  have sps: "sps = 1 \<or> sps = 4" using assms(1) by (auto simp: detect_input_ok_def)
  obtain a0 t0 where at0: "at0 = (a0, t0)" by (cases at0)
  obtain rc amp toa c where d: "detectBurst L burst ?len sync thresh sps ?start ?len (a0, t0) = Some (rc, amp, toa)" "sync = Some c"
    and r: "rc = 0 \<or> rc = 1 \<and> 2 < toa + cs_toa c \<and> toa + cs_toa c < real ?len - 2"
    by (rule detectBurst_result [OF assms(1-3) b])
  show thesis
  proof (cases "rc = 0")
    case True
    show thesis
      by (rule that [of "clip_code burst" 0 0])
        (use sps True d in \<open>auto simp: detectGeneralBurst_def at0 Let_def clip_code_def simp del: One_nat_def\<close>)
  next
    case False
    then have "rc = 1" "toa_window sync head max_toa (toa - real head)" using r d(2) by (auto simp: toa_window_def)
    then show thesis
      by (intro that [of 1 amp "toa - real head"])
        (use sps d in \<open>auto simp: detectGeneralBurst_def at0 Let_def simp del: One_nat_def\<close>)
  qed
qed

lemma rach_loop_result:
  assumes "detect_input_ok L burst sps" and "\<forall>i \<in> set is. seq_ready 40 (gRACHSequences L ! i)" and "max_toa \<le> 2 ^ 29" and "is \<noteq> []"
  shows "\<exists>rc amp toa. rach_loop L burst thresh sps 48 8 (8 + max_toa) is r0 = Some (rc, amp, toa) \<and>
    (rc = 1 \<and> (\<exists>i \<in> set is. toa_window (gRACHSequences L ! i) 8 max_toa toa) \<or> rc = clip_code burst)"
  using assms(2,4)
proof (induction "is" arbitrary: r0)
  case (Cons i "is")
  obtain rc amp toa where d: "detectGeneralBurst L burst thresh sps 48 8 (8 + max_toa) (gRACHSequences L ! i) (snd r0) = Some (rc, amp, toa)"
    and r: "rc = 1 \<and> toa_window (gRACHSequences L ! i) 8 max_toa toa \<or> rc = clip_code burst"
    by (rule detectGeneralBurst_result [OF assms(1), of 40 "gRACHSequences L ! i" 48 max_toa 8]) (use Cons.prems assms(3) in auto)
  show ?case
  proof (cases "rc > 0 \<or> is = []")
    case True
    then show ?thesis using d r by (auto simp: clip_code_def split: if_splits)
  next
    case False
    then obtain rc' amp' toa' where "rach_loop L burst thresh sps 48 8 (8 + max_toa) is (rc, amp, toa) = Some (rc', amp', toa')"
      "rc' = 1 \<and> (\<exists>i \<in> set is. toa_window (gRACHSequences L ! i) 8 max_toa toa') \<or> rc' = clip_code burst"
      using Cons.IH [of "(rc, amp, toa)"] Cons.prems by auto
    then show ?thesis using d False by auto
  qed
qed simp

text \<open>The correlation sequences that a burst type looks for, and the symbols searched in front of the expected place.\<close>

definition detect_syncs :: "sig_lib \<Rightarrow> nat \<Rightarrow> corr_type \<Rightarrow> int \<Rightarrow> correlation_sequence option list" where
  "detect_syncs L tsc type rc =
    (if rc = corr_code EDGE then [gEdgeMidambles L ! tsc]
     else if rc = corr_code TSC then [gMidambles L ! tsc]
     else if type = EXT_RACH then gRACHSequences L else [gRACHSequences L ! 0])"

definition detect_head :: "corr_type \<Rightarrow> nat" where
  "detect_head type = (if type = RACH \<or> type = EXT_RACH then 8 else 6)"

definition result_codes :: "corr_type \<Rightarrow> int set" where
  "result_codes type =
    (case type of OFF \<Rightarrow> {} | IDLE \<Rightarrow> {} | EDGE \<Rightarrow> {corr_code EDGE, corr_code TSC} | _ \<Rightarrow> {corr_code type})"

lemma traffic_result:
  assumes "detect_input_ok L burst sps" and "tsc < 8" and "max_toa \<le> 2 ^ 29"
  obtains rc amp toa where "analyzeTrafficBurst L burst tsc thresh sps max_toa at0 = Some (rc, amp, toa)"
    and "rc = 1 \<and> toa_window (gMidambles L ! tsc) 6 max_toa toa \<or> rc = clip_code burst"
proof -
  have "seq_ready 16 (gMidambles L ! tsc)" using assms(1,2) by (simp add: detect_input_ok_def sig_ready_def list_all_length)
  then obtain rc amp toa where "detectGeneralBurst L burst thresh sps 82 6 (6 + max_toa) (gMidambles L ! tsc) at0 = Some (rc, amp, toa)"
    "rc = 1 \<and> toa_window (gMidambles L ! tsc) 6 max_toa toa \<or> rc = clip_code burst"
    by (rule detectGeneralBurst_result [OF assms(1), of 16 "gMidambles L ! tsc" 82 max_toa 6]) (use assms(3) in auto)
  then show thesis using that assms(2) by (simp add: analyzeTrafficBurst_def)
qed

lemma edge_result:
  assumes "detect_input_ok L burst sps" and "tsc < 8" and "max_toa \<le> 2 ^ 29"
  obtains rc amp toa where "detectEdgeBurst L burst tsc thresh sps max_toa at0 = Some (rc, amp, toa)"
    and "rc = 1 \<and> toa_window (gEdgeMidambles L ! tsc) 6 max_toa toa \<or> rc = clip_code burst"
proof -
  have "seq_ready 16 (gEdgeMidambles L ! tsc)" using assms(1,2) by (simp add: detect_input_ok_def sig_ready_def list_all_length)
  then obtain rc amp toa where "detectGeneralBurst L burst thresh sps 82 6 (6 + max_toa) (gEdgeMidambles L ! tsc) at0 = Some (rc, amp, toa)"
    "rc = 1 \<and> toa_window (gEdgeMidambles L ! tsc) 6 max_toa toa \<or> rc = clip_code burst"
    by (rule detectGeneralBurst_result [OF assms(1), of 16 "gEdgeMidambles L ! tsc" 82 max_toa 6]) (use assms(3) in auto)
  then show thesis using that assms(2) by (simp add: detectEdgeBurst_def)
qed

lemma rach_result:
  assumes "detect_input_ok L burst sps" and "max_toa \<le> 2 ^ 29"
  obtains rc amp toa where "detectRACHBurst L burst thresh sps max_toa ext at0 = Some (rc, amp, toa)"
    and "rc = 1 \<and> (\<exists>i < (if ext then 3 else 1). toa_window (gRACHSequences L ! i) 8 max_toa toa) \<or> rc = clip_code burst"
proof -
  have q: "\<forall>i \<in> set [0..<if ext then 3 else 1]. seq_ready 40 (gRACHSequences L ! i)" "[0..<if ext then 3 else (1::nat)] \<noteq> []"
    using assms(1) by (auto simp: detect_input_ok_def sig_ready_def list_all_length)
  show thesis
    using rach_loop_result [OF assms(1) q(1) assms(2) q(2), of thresh "(0, at0)"] that
    by (auto simp: detectRACHBurst_def atLeast0LessThan)
qed

text \<open>C18. Detection is total and its result is confined. With the tables set up, for a burst at one sample per
  symbol (or one of at least 624 samples at four), nothing undefined is met. Either nothing is found, and the result
  tells whether the burst was clipped, or the code of the burst type is returned (an EDGE slot may hold a GMSK burst),
  and the time of arrival lies inside the window that was searched, two symbols away from its edges.\<close>

theorem detected_delay_window:
  assumes "sig_ready L" and "sv_ok burst" and "sps = 1 \<or> sps = 4 \<and> 624 \<le> sv_size burst" and "tsc < 8"
    and "max_toa \<le> 2 ^ 29"
  shows "\<exists>rc amp toa. SigDetect.detectAnyBurst L burst tsc thresh sps type max_toa at0 = Some (rc, amp, toa) \<and>
    (if rc > 0 then rc \<in> result_codes type \<and>
       list_ex (\<lambda>s. toa_window s (detect_head type) max_toa toa) (detect_syncs L tsc type rc)
     else rc = (if result_codes type = {} then 0 else clip_code burst))"
proof -
  have ok: "detect_input_ok L burst sps" using assms(1-3) by (simp add: detect_input_ok_def)
  have cc: "\<not> clip_code burst > 0" by (simp add: clip_code_def)
  have lr: "length (gRACHSequences L) = 3" using assms(1) by (simp add: sig_ready_def)
  note rd = result_codes_def detect_head_def detect_syncs_def corr_code_def
  show ?thesis
  proof (cases type)
    case EDGE
    obtain rc amp toa where e: "detectEdgeBurst L burst tsc thresh sps max_toa at0 = Some (rc, amp, toa)"
      "rc = 1 \<and> toa_window (gEdgeMidambles L ! tsc) 6 max_toa toa \<or> rc = clip_code burst"
      by (rule edge_result [OF ok assms(4,5)])
    obtain rc' amp' toa' where t: "analyzeTrafficBurst L burst tsc thresh sps max_toa (amp, toa) = Some (rc', amp', toa')"
      "rc' = 1 \<and> toa_window (gMidambles L ! tsc) 6 max_toa toa' \<or> rc' = clip_code burst"
      by (rule traffic_result [OF ok assms(4,5)])
    show ?thesis
      using e t cc EDGE by (cases "rc > 0"; cases "rc' > 0") (auto simp: SigDetect.detectAnyBurst_def rd)
  next
    case TSC
    obtain rc amp toa where t: "analyzeTrafficBurst L burst tsc thresh sps max_toa at0 = Some (rc, amp, toa)"
      "rc = 1 \<and> toa_window (gMidambles L ! tsc) 6 max_toa toa \<or> rc = clip_code burst"
      by (rule traffic_result [OF ok assms(4,5)])
    show ?thesis using t cc TSC by (cases "rc > 0") (auto simp: SigDetect.detectAnyBurst_def rd)
  next
    case RACH
    obtain rc amp toa where t: "detectRACHBurst L burst thresh sps max_toa False at0 = Some (rc, amp, toa)"
      "rc = 1 \<and> (\<exists>i < (if False then 3 else 1). toa_window (gRACHSequences L ! i) 8 max_toa toa) \<or> rc = clip_code burst"
      by (rule rach_result [OF ok assms(5)])
    show ?thesis using t cc RACH by (cases "rc > 0") (auto simp: SigDetect.detectAnyBurst_def rd)
  next
    case EXT_RACH
    obtain rc amp toa where t: "detectRACHBurst L burst thresh sps max_toa True at0 = Some (rc, amp, toa)"
      "rc = 1 \<and> (\<exists>i < (if True then 3 else 1). toa_window (gRACHSequences L ! i) 8 max_toa toa) \<or> rc = clip_code burst"
      by (rule rach_result [OF ok assms(5)])
    show ?thesis using t cc EXT_RACH lr
      by (cases "rc > 0") (auto simp: SigDetect.detectAnyBurst_def rd list_ex_length)
  qed (cases at0, simp_all add: SigDetect.detectAnyBurst_def rd)+
qed

theorem detected_delay_window_witness:
  "\<exists>L. sigProcLibSetup (sig_initial (convolve_init True)) = Some (True, L) \<and>
     (\<exists>rc amp toa. SigDetect.detectAnyBurst L (sv_new 156 0) 2 4 1 RACH 3 (0, 0) = Some (rc, amp, toa) \<and> (rc = 3 \<or> rc = 0 \<or> rc = - 2))"
proof -
  obtain L where L: "sigProcLibSetup (sig_initial (convolve_init True)) = Some (True, L)" "sig_ready L"
    using setup_ready_aux [of "sig_initial (convolve_init True)" True] by (auto simp: sig_initial_def TABLESIZE_def)
  obtain rc amp toa where "SigDetect.detectAnyBurst L (sv_new 156 0) 2 4 1 RACH 3 (0, 0) = Some (rc, amp, toa)"
    "if rc > 0 then rc \<in> result_codes RACH \<and> list_ex (\<lambda>s. toa_window s (detect_head RACH) 3 toa) (detect_syncs L 2 RACH rc)
     else rc = (if result_codes RACH = {} then 0 else clip_code (sv_new 156 0))"
    using detected_delay_window [OF L(2), of "sv_new 156 0" 1 2 3 4 RACH "(0, 0)"] by auto
  then show ?thesis using L(1) by (auto simp: result_codes_def corr_code_def clip_code_def CLIP_THRESH_def split: if_splits)
qed

end
