(* ===== verification/ComplexClass.thy ===== *)
theory ComplexClass
  imports Complex_Main
begin

text \<open>
  The class template for complex numbers (\<^verbatim>\<open>Transceiver52M/Complex.h\<close>), over the reals: its components and every function
  of it that computes. \<open>cx\<close> is the number that an object stands for; the functions compute what the mathematical ones do,
  with three exceptions: the assignments \<open>*=\<close> and \<open>/=\<close> with a complex operand change nothing, and a real minus a complex number
  comes out with the wrong sign. \<open>atan2\<close> is the angle of the library of C. Division by zero and the logarithm of zero, where the
  floating-point numbers of C have infinities, are outside the model.
\<close>

section \<open>The class\<close>

record cplx =
  cr :: real
  ci :: real

definition cx :: "cplx \<Rightarrow> complex" where
  "cx z = Complex (cr z) (ci z)"

definition cx_make :: "real \<Rightarrow> real \<Rightarrow> cplx" where
  "cx_make x y = \<lparr>cr = x, ci = y\<rparr>"

definition cx_of_real :: "real \<Rightarrow> cplx" where
  "cx_of_real x = \<lparr>cr = x, ci = 0\<rparr>"

definition cx_zero :: cplx where
  "cx_zero = \<lparr>cr = 0, ci = 0\<rparr>"

definition cx_copy :: "cplx \<Rightarrow> cplx" where
  "cx_copy z = \<lparr>cr = cr z, ci = ci z\<rparr>"

definition cx_set_real :: "real \<Rightarrow> cplx \<Rightarrow> cplx" where
  "cx_set_real a z = z\<lparr>cr := a, ci := 0\<rparr>"

section \<open>Arithmetic\<close>

definition cx_norm2 :: "cplx \<Rightarrow> real" where
  "cx_norm2 z = ci z * ci z + cr z * cr z"

definition cx_inv :: "cplx \<Rightarrow> cplx" where
  "cx_inv z = (let nVal = cx_norm2 z in cx_make (cr z / nVal) (- ci z / nVal))"

definition cx_add :: "cplx \<Rightarrow> cplx \<Rightarrow> cplx" where
  "cx_add z a = cx_make (cr z + cr a) (ci z + ci a)"

definition cx_add_real :: "cplx \<Rightarrow> real \<Rightarrow> cplx" where
  "cx_add_real z a = cx_make (cr z + a) (ci z)"

definition cx_sub :: "cplx \<Rightarrow> cplx \<Rightarrow> cplx" where
  "cx_sub z a = cx_make (cr z - cr a) (ci z - ci a)"

definition cx_sub_real :: "cplx \<Rightarrow> real \<Rightarrow> cplx" where
  "cx_sub_real z a = cx_make (cr z - a) (ci z)"

definition cx_mul :: "cplx \<Rightarrow> cplx \<Rightarrow> cplx" where
  "cx_mul z a = cx_make (cr z * cr a - ci z * ci a) (cr z * ci a + ci z * cr a)"

definition cx_mul_real :: "cplx \<Rightarrow> real \<Rightarrow> cplx" where
  "cx_mul_real z a = cx_make (cr z * a) (ci z * a)"

definition cx_div :: "cplx \<Rightarrow> cplx \<Rightarrow> cplx" where
  "cx_div z a = cx_mul z (cx_inv a)"

definition cx_div_real :: "cplx \<Rightarrow> real \<Rightarrow> cplx" where
  "cx_div_real z a = cx_make (cr z / a) (ci z / a)"

definition cx_and :: "cplx \<Rightarrow> cplx \<Rightarrow> cplx" where
  "cx_and z a = cx_make (cr z * cr a) (ci z * ci a)"

text \<open>In place; two of them compute a value and drop it.\<close>

definition cx_add_eq :: "cplx \<Rightarrow> cplx \<Rightarrow> cplx" where
  "cx_add_eq a z = z\<lparr>cr := cr z + cr a, ci := ci z + ci a\<rparr>"

definition cx_sub_eq :: "cplx \<Rightarrow> cplx \<Rightarrow> cplx" where
  "cx_sub_eq a z = z\<lparr>cr := cr z - cr a, ci := ci z - ci a\<rparr>"

definition cx_mul_eq :: "cplx \<Rightarrow> cplx \<Rightarrow> cplx" where
  "cx_mul_eq a z = (let unused = cx_mul z a in z)"

definition cx_div_eq :: "cplx \<Rightarrow> cplx \<Rightarrow> cplx" where
  "cx_div_eq a z = (let unused = cx_div z a in z)"

definition cx_add_real_eq :: "real \<Rightarrow> cplx \<Rightarrow> cplx" where
  "cx_add_real_eq a z = z\<lparr>cr := cr z + a\<rparr>"

definition cx_sub_real_eq :: "real \<Rightarrow> cplx \<Rightarrow> cplx" where
  "cx_sub_real_eq a z = z\<lparr>cr := cr z - a\<rparr>"

definition cx_mul_real_eq :: "real \<Rightarrow> cplx \<Rightarrow> cplx" where
  "cx_mul_real_eq a z = z\<lparr>cr := cr z * a, ci := ci z * a\<rparr>"

definition cx_div_real_eq :: "real \<Rightarrow> cplx \<Rightarrow> cplx" where
  "cx_div_real_eq a z = z\<lparr>cr := cr z / a, ci := ci z / a\<rparr>"

text \<open>With a real on the left.\<close>

definition real_mul_cx :: "real \<Rightarrow> cplx \<Rightarrow> cplx" where
  "real_mul_cx a z = cx_make (cr z * a) (ci z * a)"

definition real_add_cx :: "real \<Rightarrow> cplx \<Rightarrow> cplx" where
  "real_add_cx a z = cx_make (cr z + a) (ci z)"

definition real_sub_cx :: "real \<Rightarrow> cplx \<Rightarrow> cplx" where
  "real_sub_cx a z = cx_make (cr z - a) (ci z)"

section \<open>Comparisons and functions\<close>

definition cx_eq :: "cplx \<Rightarrow> cplx \<Rightarrow> bool" where
  "cx_eq z a = (ci z = ci a \<and> cr z = cr a)"

definition cx_neq :: "cplx \<Rightarrow> cplx \<Rightarrow> bool" where
  "cx_neq z a = (ci z \<noteq> ci a \<or> cr z \<noteq> cr a)"

definition cx_less :: "cplx \<Rightarrow> cplx \<Rightarrow> bool" where
  "cx_less z a = (cx_norm2 z < cx_norm2 a)"

definition cx_greater :: "cplx \<Rightarrow> cplx \<Rightarrow> bool" where
  "cx_greater z a = (cx_norm2 z > cx_norm2 a)"

definition cx_conj :: "cplx \<Rightarrow> cplx" where "cx_conj z = cx_make (cr z) (- ci z)"
definition cx_flip :: "cplx \<Rightarrow> cplx" where "cx_flip z = cx_make (ci z) (cr z)"
definition cx_real :: "cplx \<Rightarrow> real" where "cx_real z = cr z"
definition cx_imag :: "cplx \<Rightarrow> real" where "cx_imag z = ci z"
definition cx_neg :: "cplx \<Rightarrow> cplx" where "cx_neg z = cx_make (- cr z) (- ci z)"
definition cx_isZero :: "cplx \<Rightarrow> bool" where "cx_isZero z = (cr z = 0 \<and> ci z = 0)"

definition atan2 :: "real \<Rightarrow> real \<Rightarrow> real" where
  "atan2 y x = Arg (Complex x y)"

definition expj :: "real \<Rightarrow> cplx" where
  "expj phi = cx_make (cos phi) (sin phi)"

definition phasor :: "real \<Rightarrow> real \<Rightarrow> cplx" where
  "phasor C phi = cx_mul_real (expj phi) C"

definition cx_abs :: "cplx \<Rightarrow> real" where "cx_abs z = sqrt (cx_norm2 z)"
definition cx_arg :: "cplx \<Rightarrow> real" where "cx_arg z = atan2 (ci z) (cr z)"
definition cx_dB :: "cplx \<Rightarrow> real" where "cx_dB z = 10 * log 10 (cx_norm2 z)"
definition cx_exp :: "cplx \<Rightarrow> cplx" where "cx_exp z = cx_mul_real (expj (ci z)) (exp (cr z))"
definition cx_log :: "cplx \<Rightarrow> cplx" where "cx_log z = cx_make (ln (cx_abs z)) (cx_arg z)"

definition cx_unit :: "cplx \<Rightarrow> cplx" where
  "cx_unit z = (let absVal = cx_abs z in cx_make (cr z / absVal) (ci z / absVal))"

text \<open>The power function of C: \<^verbatim>\<open>pow(0, 0)\<close> is 1.\<close>

definition c_pow :: "real \<Rightarrow> real \<Rightarrow> real" where
  "c_pow x n = (if n = 0 then 1 else x powr n)"

definition cx_pow :: "real \<Rightarrow> cplx \<Rightarrow> cplx" where
  "cx_pow n z = cx_mul_real (expj (cx_arg z * n)) (c_pow (cx_abs z) n)"

definition cx_sqrt :: "cplx \<Rightarrow> cplx" where
  "cx_sqrt z = cx_pow (1 / 2) z"

section \<open>Agreement with the complex numbers\<close>

lemma cx_make [simp]: "cx (cx_make a b) = Complex a b" "cr (cx_make a b) = a" "ci (cx_make a b) = b"
  by (simp_all add: cx_make_def cx_def)

lemma cx_parts: "Re (cx z) = cr z" "Im (cx z) = ci z"
  by (simp_all add: cx_def)

lemma cx_inject: "cx z = cx w \<longleftrightarrow> z = w"
  by (cases z; cases w) (simp add: cx_def)

lemma norm2_cx: "cx_norm2 z = (cmod (cx z))\<^sup>2"
  unfolding cx_norm2_def cmod_power2 cx_parts by (simp only: power2_eq_square add.commute)

lemma abs_cx: "cx_abs z = cmod (cx z)"
  by (simp add: cx_abs_def norm2_cx)

lemma arg_cx: "cx_arg z = Arg (cx z)"
  by (simp add: cx_arg_def atan2_def cx_def)

lemma inv_cx: "cx z \<noteq> 0 \<Longrightarrow> cx (cx_inv z) = inverse (cx z)"
  unfolding complex_eq_iff cx_inv_def Let_def cx_make cx_parts cx_norm2_def complex.sel inverse_complex.sel power2_eq_square
  by (metis add.commute)

lemma ring_cx:
  "cx (cx_add z a) = cx z + cx a" "cx (cx_sub z a) = cx z - cx a" "cx (cx_mul z a) = cx z * cx a"
  "cx (cx_conj z) = cnj (cx z)" "cx (cx_neg z) = - cx z"
  by (simp_all add: cx_add_def cx_sub_def cx_mul_def cx_conj_def cx_neg_def cx_def complex_eq_iff)

lemma div_cx: "cx a \<noteq> 0 \<Longrightarrow> cx (cx_div z a) = cx z / cx a"
  by (simp add: cx_div_def ring_cx inv_cx divide_inverse)

lemma scalar_cx:
  "cx (cx_add_real z x) = cx z + of_real x" "cx (cx_sub_real z x) = cx z - of_real x" "cx (cx_mul_real z x) = cx z * of_real x"
  by (simp_all add: cx_add_real_def cx_sub_real_def cx_mul_real_def cx_def complex_eq_iff)

lemma div_real_cx: "x \<noteq> 0 \<Longrightarrow> cx (cx_div_real z x) = cx z / of_real x"
  by (simp add: cx_div_real_def cx_def complex_eq_iff)

text \<open>The operations in place agree with the ones that return a new number.\<close>

lemma in_place_cx:
  "cx_add_eq a z = cx_add z a" "cx_sub_eq a z = cx_sub z a" "cx_add_real_eq x z = cx_add_real z x"
  "cx_sub_real_eq x z = cx_sub_real z x" "cx_mul_real_eq x z = cx_mul_real z x" "cx_div_real_eq x z = cx_div_real z x"
  by (simp_all add: cx_add_eq_def cx_sub_eq_def cx_add_real_eq_def cx_sub_real_eq_def cx_mul_real_eq_def cx_div_real_eq_def
      cx_add_def cx_sub_def cx_add_real_def cx_sub_real_def cx_mul_real_def cx_div_real_def cx_make_def)

lemma left_real_cx: "real_mul_cx x z = cx_mul_real z x" "real_add_cx x z = cx_add_real z x"
  by (simp_all add: real_mul_cx_def real_add_cx_def cx_mul_real_def cx_add_real_def)

text \<open>The three exceptions.\<close>

lemma dropped_cx: "cx_mul_eq a z = z" "cx_div_eq a z = z" "cx (real_sub_cx x z) = - (of_real x - cx z)"
  by (simp_all add: cx_mul_eq_def cx_div_eq_def real_sub_cx_def cx_def complex_eq_iff)

lemma eq_cx: "cx_eq z a = (cx z = cx a)" "cx_neq z a = (cx z \<noteq> cx a)" "cx_isZero z = (cx z = 0)"
  by (auto simp: cx_eq_def cx_neq_def cx_isZero_def complex_eq_iff cx_parts)

lemma less_cx: "cx_less z a = (cmod (cx z) < cmod (cx a))"
  unfolding cx_less_def norm2_cx
  by (rule power_mono_iff [THEN arg_cong [where f = Not], of "cmod (cx a)" "cmod (cx z)" 2, unfolded not_le, simplified])

lemma expj_cx: "cx (expj phi) = cis phi"
  by (simp add: expj_def complex_eq_iff)

lemma exp_cx: "cx (cx_exp z) = exp (cx z)"
  unfolding cx_exp_def scalar_cx expj_cx exp_eq_polar cx_parts by (rule mult.commute)

lemma log_cx:
  assumes "cx z \<noteq> 0"
  shows "exp (cx (cx_log z)) = cx z"
proof -
  have "exp (cx (cx_log z)) = of_real (exp (ln (cmod (cx z)))) * cis (Arg (cx z))"
    by (simp only: cx_log_def exp_eq_polar cx_make complex.sel abs_cx arg_cx)
  then show ?thesis using assms rcis_cmod_Arg [of "cx z"] by (simp add: rcis_def)
qed

lemma pow_polar: "cx (cx_pow x z) = rcis (c_pow (cmod (cx z)) x) (x * Arg (cx z))"
  unfolding cx_pow_def scalar_cx expj_cx abs_cx arg_cx rcis_def by (simp only: mult.commute)

lemma c_pow_nat: "0 \<le> x \<Longrightarrow> c_pow x (real n) = x ^ n"
  by (cases "x = 0") (auto simp: c_pow_def powr_realpow)

lemma pow_cx: "cx (cx_pow (real n) z) = cx z ^ n"
  using DeMoivre2 [of "cmod (cx z)" "Arg (cx z)" n] by (simp add: pow_polar c_pow_nat rcis_cmod_Arg)

lemma sqrt_cx: "(cx (cx_sqrt z))\<^sup>2 = cx z" and sqrt_right_half: "0 \<le> Re (cx (cx_sqrt z))"
proof -
  have b: "- pi < Arg (cx z)" "Arg (cx z) \<le> pi" using Arg_bounded [of "cx z"] by simp_all
  have e: "cx (cx_sqrt z) = rcis (sqrt (cmod (cx z))) (1 / 2 * Arg (cx z))"
    by (simp add: cx_sqrt_def pow_polar c_pow_def powr_half_sqrt)
  have "(cx (cx_sqrt z))\<^sup>2 = rcis (cmod (cx z)) (Arg (cx z))"
    unfolding e DeMoivre2 by simp
  then show "(cx (cx_sqrt z))\<^sup>2 = cx z" by (simp add: rcis_cmod_Arg)
  have "0 \<le> cos (1 / 2 * Arg (cx z))" by (rule cos_ge_zero) (use b in simp_all)
  then show "0 \<le> Re (cx (cx_sqrt z))" unfolding e rcis_def by simp
qed

lemma unit_cx: "cx z \<noteq> 0 \<Longrightarrow> cx (cx_unit z) = sgn (cx z)"
  unfolding cx_unit_def Let_def abs_cx sgn_eq cx_make by (simp add: complex_eq_iff cx_parts)

end
