(* ===== verification/Sockets.thy ===== *)
theory Sockets
  imports Scanf
begin

text \<open>
  The UDP sockets of the transceiver (\<^verbatim>\<open>CommonLibs/Sockets.cpp\<close>, \<^verbatim>\<open>CommonLibs/Sockets.h\<close>). The operating system is a
  parameter: a record of the calls that the code makes, over a type \<open>'w\<close> of its states. A thrown \<open>SocketError\<close> is \<open>Inl SocketError\<close>,
  a failed assertion or a missing address \<open>Inl Aborted\<close>. Pointers to strings are strings, so that the assertions against \<open>NULL\<close> hold.
  The lemmas say what a socket sends and to whom, that a reply goes back to the sender of the last packet, that waiting times are valid
  times, and, for a system that keeps a set of open descriptors, that a constructor leaves exactly one more descriptor open when
  it succeeds and none when it throws.
\<close>

section \<open>Addresses\<close>

text \<open>A \<open>sockaddr_in\<close>: the port in network order, the address as its bytes in order.\<close>

record sockaddr_in =
  sin_family :: nat
  sin_port :: "16 word"
  sin_addr :: "8 word list"

abbreviation AF_INET :: nat where "AF_INET \<equiv> 2"

definition MAX_UDP_LENGTH :: nat where
  "MAX_UDP_LENGTH = 1500"

text \<open>\<open>memset(mDestination, 0, sizeof(mDestination))\<close>.\<close>

definition zero_address :: sockaddr_in where
  "zero_address = \<lparr>sin_family = 0, sin_port = 0, sin_addr = [0, 0, 0, 0]\<rparr>"

text \<open>The bytes of a port change places on a little-endian machine, in both directions.\<close>

definition htons :: "16 word \<Rightarrow> 16 word" where
  "htons w = word_rotl 8 w"

definition ntohs :: "16 word \<Rightarrow> 16 word" where
  "ntohs w = word_rotl 8 w"

section \<open>The operating system\<close>

record hostent =
  h_addrtype :: nat
  h_addr_list :: "8 word list list"

datatype received = Datagram "8 word list" sockaddr_in | Would_block | Receive_failed

datatype socket_error = SocketError | Aborted

text \<open>The look-up gives \<open>None\<close> where it fails; \<open>os_select\<close> gives its result and whether the descriptor is in the set afterwards.\<close>

record 'w socket_os =
  os_gethostbyname :: "string \<Rightarrow> 'w \<Rightarrow> hostent option \<times> 'w"
  os_inet_addr :: "string \<Rightarrow> 8 word list"
  os_socket :: "'w \<Rightarrow> int \<times> 'w"
  os_reuse :: "int \<Rightarrow> 'w \<Rightarrow> 'w"
  os_bind :: "int \<Rightarrow> sockaddr_in \<Rightarrow> 'w \<Rightarrow> int \<times> 'w"
  os_sendto :: "int \<Rightarrow> 8 word list \<Rightarrow> sockaddr_in \<Rightarrow> 'w \<Rightarrow> int \<times> 'w"
  os_recvfrom :: "int \<Rightarrow> nat \<Rightarrow> 'w \<Rightarrow> received \<times> 'w"
  os_select :: "int \<Rightarrow> nat \<Rightarrow> nat \<Rightarrow> 'w \<Rightarrow> int \<times> bool \<times> 'w"
  os_getsockname :: "int \<Rightarrow> 'w \<Rightarrow> sockaddr_in option \<times> 'w"
  os_setfl :: "int \<Rightarrow> bool \<Rightarrow> 'w \<Rightarrow> 'w"
  os_close :: "int \<Rightarrow> 'w \<Rightarrow> 'w"

section \<open>Resolving addresses\<close>

definition resolveAddress :: "'w socket_os \<Rightarrow> sockaddr_in \<Rightarrow> string \<Rightarrow> 16 word \<Rightarrow> 'w \<Rightarrow> (socket_error + bool) \<times> sockaddr_in \<times> 'w" where
  "resolveAddress os address host port w =
    (case os_gethostbyname os host w of
       (None, w) \<Rightarrow> (Inr False, address, w)
     | (Some hp, w) \<Rightarrow>
         if h_addrtype hp \<noteq> AF_INET then (Inr False, address, w)
         else (let address = address\<lparr>sin_family := h_addrtype hp\<rparr> in
           case h_addr_list hp of
             [] \<Rightarrow> (Inl Aborted, address, w)
           | a # _ \<Rightarrow> if length a \<noteq> 4 then (Inl Aborted, address, w)
                      else (Inr True, address\<lparr>sin_addr := a, sin_port := htons port\<rparr>, w)))"

text \<open>The version for \<open>host:port\<close>. The number is the count of copies of the argument that are never freed.\<close>

definition resolveAddress_text ::
    "'w socket_os \<Rightarrow> sockaddr_in \<Rightarrow> string \<Rightarrow> 'w \<Rightarrow> (socket_error + bool) \<times> sockaddr_in \<times> nat \<times> 'w" where
  "resolveAddress_text os address hostAndPort w =
    (if CHR '':'' \<notin> set hostAndPort then (Inr False, address, 1, w)
     else (let host = takeWhile (\<lambda>c. c \<noteq> CHR '':'') hostAndPort;
               port = u32 (c_atoi (tl (dropWhile (\<lambda>c. c \<noteq> CHR '':'') hostAndPort)));
               (r, address, w) = resolveAddress os address host (word_of_int port) w
           in (r, address, 0, w)))"

section \<open>Datagram sockets\<close>

record datagram_socket =
  mSocketFD :: int
  mDestination :: sockaddr_in
  mSource :: sockaddr_in

text \<open>The constructor sets the destination only; \<open>fd0\<close> and \<open>src0\<close> are what the memory held.\<close>

definition DatagramSocket :: "int \<Rightarrow> sockaddr_in \<Rightarrow> datagram_socket" where
  "DatagramSocket fd0 src0 = \<lparr>mSocketFD = fd0, mDestination = zero_address, mSource = src0\<rparr>"

definition sock_nonblocking :: "'w socket_os \<Rightarrow> datagram_socket \<Rightarrow> 'w \<Rightarrow> 'w" where
  "sock_nonblocking os s = os_setfl os (mSocketFD s) True"

definition sock_blocking :: "'w socket_os \<Rightarrow> datagram_socket \<Rightarrow> 'w \<Rightarrow> 'w" where
  "sock_blocking os s = os_setfl os (mSocketFD s) False"

definition sock_close :: "'w socket_os \<Rightarrow> datagram_socket \<Rightarrow> 'w \<Rightarrow> 'w" where
  "sock_close os s = os_close os (mSocketFD s)"

definition sock_destroy :: "'w socket_os \<Rightarrow> datagram_socket \<Rightarrow> 'w \<Rightarrow> 'w" where
  "sock_destroy os s = sock_close os s"

text \<open>A string as the bytes that the versions for strings pass on, with the terminating zero, and what its reader makes of it.\<close>

definition c_bytes :: "string \<Rightarrow> 8 word list" where
  "c_bytes s = map (\<lambda>c. word_of_nat (of_char c)) s @ [0]"

definition c_string :: "8 word list \<Rightarrow> string" where
  "c_string bs = map (\<lambda>b. char_of (unat b)) (takeWhile (\<lambda>b. b \<noteq> 0) bs)"

definition sock_send :: "'w socket_os \<Rightarrow> sockaddr_in \<Rightarrow> 8 word list \<Rightarrow> datagram_socket \<Rightarrow> 'w \<Rightarrow> (socket_error + int) \<times> 'w" where
  "sock_send os dest message s w =
    (if length message \<le> MAX_UDP_LENGTH then (case os_sendto os (mSocketFD s) message dest w of (retVal, w) \<Rightarrow> (Inr retVal, w))
     else (Inl Aborted, w))"

definition sock_write :: "'w socket_os \<Rightarrow> 8 word list \<Rightarrow> datagram_socket \<Rightarrow> 'w \<Rightarrow> (socket_error + int) \<times> 'w" where
  "sock_write os message s w =
    (if length message \<le> MAX_UDP_LENGTH then
       (case os_sendto os (mSocketFD s) message (mDestination s) w of (retVal, w) \<Rightarrow> (Inr retVal, w))
     else (Inl Aborted, w))"

definition sock_writeBack :: "'w socket_os \<Rightarrow> 8 word list \<Rightarrow> datagram_socket \<Rightarrow> 'w \<Rightarrow> (socket_error + int) \<times> 'w" where
  "sock_writeBack os message s w =
    (if length message \<le> MAX_UDP_LENGTH then
       (case os_sendto os (mSocketFD s) message (mSource s) w of (retVal, w) \<Rightarrow> (Inr retVal, w))
     else (Inl Aborted, w))"

definition sock_send_str :: "'w socket_os \<Rightarrow> sockaddr_in \<Rightarrow> string \<Rightarrow> datagram_socket \<Rightarrow> 'w \<Rightarrow> (socket_error + int) \<times> 'w" where
  "sock_send_str os dest message = sock_send os dest (c_bytes message)"

definition sock_write_str :: "'w socket_os \<Rightarrow> string \<Rightarrow> datagram_socket \<Rightarrow> 'w \<Rightarrow> (socket_error + int) \<times> 'w" where
  "sock_write_str os message = sock_write os (c_bytes message)"

definition sock_writeBack_str :: "'w socket_os \<Rightarrow> string \<Rightarrow> datagram_socket \<Rightarrow> 'w \<Rightarrow> (socket_error + int) \<times> 'w" where
  "sock_writeBack_str os message = sock_writeBack os (c_bytes message)"

text \<open>Reading gives the number of bytes, or \<open>-1\<close>, and the bytes.\<close>

definition sock_read ::
    "'w socket_os \<Rightarrow> nat \<Rightarrow> datagram_socket \<Rightarrow> 'w \<Rightarrow> (socket_error + int \<times> 8 word list) \<times> datagram_socket \<times> 'w" where
  "sock_read os n s w =
    (case os_recvfrom os (mSocketFD s) n w of
       (Datagram bs src, w) \<Rightarrow> (Inr (int (length bs), bs), s\<lparr>mSource := src\<rparr>, w)
     | (Would_block, w) \<Rightarrow> (Inr (-1, []), s, w)
     | (Receive_failed, w) \<Rightarrow> (Inl SocketError, s, w))"

definition select_sec :: "nat \<Rightarrow> nat" where "select_sec timeout = timeout div 1000"
definition select_usec :: "nat \<Rightarrow> nat" where "select_usec timeout = timeout mod 1000 * 1000"

definition sock_read_timeout ::
    "'w socket_os \<Rightarrow> nat \<Rightarrow> nat \<Rightarrow> datagram_socket \<Rightarrow> 'w \<Rightarrow> (socket_error + int \<times> 8 word list) \<times> datagram_socket \<times> 'w" where
  "sock_read_timeout os n timeout s w =
    (case os_select os (mSocketFD s) (select_sec timeout) (select_usec timeout) w of
       (sel, isset, w) \<Rightarrow>
         if sel < 0 then (Inl SocketError, s, w)
         else if sel = 0 then (Inr (-1, []), s, w)
         else if isset then sock_read os n s w
         else (Inr (-1, []), s, w))"

section \<open>UDP sockets\<close>

text \<open>The result of the look-up is not read: where it fails, the destination stays as it is.\<close>

definition udp_destination ::
    "'w socket_os \<Rightarrow> 16 word \<Rightarrow> string \<Rightarrow> datagram_socket \<Rightarrow> 'w \<Rightarrow> (socket_error + unit) \<times> datagram_socket \<times> 'w" where
  "udp_destination os wDestPort wDestIP s w =
    (case resolveAddress os (mDestination s) wDestIP wDestPort w of
       (Inl e, address, w) \<Rightarrow> (Inl e, s\<lparr>mDestination := address\<rparr>, w)
     | (Inr _, address, w) \<Rightarrow> (Inr (), s\<lparr>mDestination := address\<rparr>, w))"

definition udp_open ::
    "'w socket_os \<Rightarrow> 16 word \<Rightarrow> string \<Rightarrow> datagram_socket \<Rightarrow> 'w \<Rightarrow> (socket_error + unit) \<times> datagram_socket \<times> 'w" where
  "udp_open os localPort wlocalIP s w =
    (case os_socket os w of
       (fd, w) \<Rightarrow>
         (let s = s\<lparr>mSocketFD := fd\<rparr> in
          if fd < 0 then (Inl SocketError, s, w)
          else (let w = os_reuse os fd w in
            case os_bind os fd \<lparr>sin_family = AF_INET, sin_port = htons localPort, sin_addr = os_inet_addr os wlocalIP\<rparr> w of
              (r, w) \<Rightarrow> if r < 0 then (Inl SocketError, s, w) else (Inr (), s, w))))"

text \<open>An exception in a constructor destroys the base class, which closes the descriptor; an abort ends the program.\<close>

definition unwind :: "'w socket_os \<Rightarrow> (socket_error + unit) \<times> datagram_socket \<times> 'w \<Rightarrow> (socket_error + datagram_socket) \<times> 'w" where
  "unwind os r =
    (case r of
       (Inl SocketError, s, w) \<Rightarrow> (Inl SocketError, sock_destroy os s w)
     | (Inl Aborted, s, w) \<Rightarrow> (Inl Aborted, w)
     | (Inr _, s, w) \<Rightarrow> (Inr s, w))"

definition UDPSocket_local ::
    "'w socket_os \<Rightarrow> int \<Rightarrow> sockaddr_in \<Rightarrow> string \<Rightarrow> 16 word \<Rightarrow> 'w \<Rightarrow> (socket_error + datagram_socket) \<times> 'w" where
  "UDPSocket_local os fd0 src0 wSrcIP wSrcPort w = unwind os (udp_open os wSrcPort wSrcIP (DatagramSocket fd0 src0) w)"

definition UDPSocket ::
    "'w socket_os \<Rightarrow> int \<Rightarrow> sockaddr_in \<Rightarrow> string \<Rightarrow> 16 word \<Rightarrow> string \<Rightarrow> 16 word \<Rightarrow> 'w \<Rightarrow> (socket_error + datagram_socket) \<times> 'w" where
  "UDPSocket os fd0 src0 wSrcIP wSrcPort wDestIP wDestPort w =
    unwind os
      (case udp_open os wSrcPort wSrcIP (DatagramSocket fd0 src0) w of
         (Inl e, s, w) \<Rightarrow> (Inl e, s, w)
       | (Inr _, s, w) \<Rightarrow> udp_destination os wDestPort wDestIP s w)"

definition udp_port :: "'w socket_os \<Rightarrow> datagram_socket \<Rightarrow> 'w \<Rightarrow> (socket_error + 16 word) \<times> 'w" where
  "udp_port os s w =
    (case os_getsockname os (mSocketFD s) w of
       (None, w) \<Rightarrow> (Inl SocketError, w)
     | (Some name, w) \<Rightarrow> (Inr (ntohs (sin_port name)), w))"

definition udp_source :: "datagram_socket \<Rightarrow> sockaddr_in" where
  "udp_source s = mSource s"

definition udp_addressSize :: nat where
  "udp_addressSize = 16"

section \<open>Addresses and bytes\<close>

lemma ntohs_htons [simp]: "ntohs (htons p) = p"
proof -
  have "ntohs = word_rotr 8" by (rule ext) (simp add: ntohs_def word_rotl_eq_word_rotr [of 8])
  then have "ntohs (htons p) = word_rotr 8 (word_rotl 8 p)" by (simp only: htons_def)
  then show ?thesis by (simp only: word_rot_lr)
qed

lemma byte_of_char: "word_of_nat (of_char c) = (0 :: 8 word) \<longleftrightarrow> c = CHR 0x00" "char_of (unat (word_of_nat (of_char c) :: 8 word)) = c"
proof -
  have b: "(of_char c :: nat) < 256" by simp
  then have u: "unat (word_of_nat (of_char c) :: 8 word) = of_char c" by (simp add: unat_of_nat)
  then show "char_of (unat (word_of_nat (of_char c) :: 8 word)) = c" by simp
  have "word_of_nat (of_char c) = (0 :: 8 word) \<longleftrightarrow> (of_char c :: nat) = 0" using u by (metis unat_0 unat_eq_zero)
  also have "\<dots> \<longleftrightarrow> c = CHR 0x00" using of_char_eq_iff [of c "CHR 0x00", where ?'a = nat] by simp
  finally show "word_of_nat (of_char c) = (0 :: 8 word) \<longleftrightarrow> c = CHR 0x00" .
qed

lemma c_string_bytes:
  assumes "CHR 0x00 \<notin> set s"
  shows "c_string (c_bytes s @ rest) = s"
proof -
  have "c_string (map (\<lambda>c. word_of_nat (of_char c)) s @ 0 # rest) = s"
    using assms by (induction s) (auto simp: c_string_def byte_of_char)
  then show ?thesis by (simp add: c_bytes_def)
qed

lemma length_c_bytes [simp]: "length (c_bytes s) = Suc (length s)"
  by (simp add: c_bytes_def)

text \<open>The waiting time of \<open>select\<close> is the argument in milliseconds, with microseconds below a second.\<close>

lemma timeout_split: "select_sec t * 1000000 + select_usec t = t * 1000" "select_usec t < 1000000"
proof -
  have "t div 1000 * 1000 + t mod 1000 = t" by (rule div_mult_mod_eq)
  then show "select_sec t * 1000000 + select_usec t = t * 1000" unfolding select_sec_def select_usec_def by linarith
  have "t mod 1000 < 1000" by simp
  then show "select_usec t < 1000000" unfolding select_usec_def by linarith
qed

lemma resolve_found:
  assumes "os_gethostbyname os host w = (Some hp, w')" and "h_addrtype hp = AF_INET" and "h_addr_list hp = a # as" and "length a = 4"
  shows "resolveAddress os address host port w =
    (Inr True, \<lparr>sin_family = AF_INET, sin_port = htons port, sin_addr = a, \<dots> = sockaddr_in.more address\<rparr>, w')"
  using assms by (cases address) (simp add: resolveAddress_def)

text \<open>The part behind the first colon is the port, modulo \<open>2 ^ 16\<close>.\<close>

lemma resolve_text:
  assumes "CHR '':'' \<notin> set host"
  shows "resolveAddress_text os address (host @ CHR '':'' # digits) w =
    (case resolveAddress os address host (word_of_int (c_atoi digits)) w of (r, a, w) \<Rightarrow> (r, a, 0, w))"
proof -
  have "(word_of_int (u32 x) :: 16 word) = word_of_int x" for x
    by (simp add: u32_def word_of_int_eq_iff take_bit_eq_mod mod_mod_cancel)
  moreover have "takeWhile (\<lambda>c. c \<noteq> CHR '':'') (host @ CHR '':'' # digits) = host"
    "tl (dropWhile (\<lambda>c. c \<noteq> CHR '':'') (host @ CHR '':'' # digits)) = digits"
    using assms by (auto simp: takeWhile_append dropWhile_append)
  ultimately show ?thesis by (simp add: resolveAddress_text_def)
qed

section \<open>Descriptors\<close>

text \<open>What the code relies on: a system with a set of open descriptors, in which \<open>socket\<close> opens a new one or fails, \<open>close\<close> closes
  one, and no other call opens or closes any.\<close>

definition keeps_descriptors :: "('w \<Rightarrow> int set) \<Rightarrow> ('w \<Rightarrow> 'a \<times> 'w) \<Rightarrow> bool" where
  "keeps_descriptors opened f \<longleftrightarrow> (\<forall>w. opened (snd (f w)) = opened w)"

definition descriptor_laws :: "'w socket_os \<Rightarrow> ('w \<Rightarrow> int set) \<Rightarrow> bool" where
  "descriptor_laws os opened \<longleftrightarrow>
    (\<forall>w. \<forall>fd\<in>opened w. 0 \<le> fd) \<and>
    (\<forall>w. case os_socket os w of (fd, w') \<Rightarrow>
       if fd < 0 then opened w' = opened w else fd \<notin> opened w \<and> opened w' = insert fd (opened w)) \<and>
    (\<forall>fd w. opened (os_close os fd w) = opened w - {fd}) \<and>
    (\<forall>fd w. opened (os_reuse os fd w) = opened w) \<and>
    (\<forall>host. keeps_descriptors opened (os_gethostbyname os host)) \<and>
    (\<forall>fd a. keeps_descriptors opened (os_bind os fd a))"

lemma keeps_descriptorsD: "keeps_descriptors opened f \<Longrightarrow> f w = (r, w') \<Longrightarrow> opened w' = opened w"
  by (metis keeps_descriptors_def snd_conv)

lemma descriptor_lawsD:
  assumes "descriptor_laws os opened"
  shows "fd \<in> opened w \<Longrightarrow> 0 \<le> fd"
    and "os_socket os w = (fd, w') \<Longrightarrow> fd < 0 \<Longrightarrow> opened w' = opened w"
    and "os_socket os w = (fd, w') \<Longrightarrow> 0 \<le> fd \<Longrightarrow> fd \<notin> opened w \<and> opened w' = insert fd (opened w)"
    and "opened (os_close os fd w) = opened w - {fd}" and "opened (os_reuse os fd w) = opened w"
    and "os_gethostbyname os host w = (hp, w') \<Longrightarrow> opened w' = opened w"
    and "os_bind os fd a w = (i, w') \<Longrightarrow> opened w' = opened w"
proof -
  have s: "\<forall>w. case os_socket os w of (fd, w') \<Rightarrow>
       if fd < 0 then opened w' = opened w else fd \<notin> opened w \<and> opened w' = insert fd (opened w)"
    using assms by (simp add: descriptor_laws_def)
  show "os_socket os w = (fd, w') \<Longrightarrow> fd < 0 \<Longrightarrow> opened w' = opened w"
    using s [rule_format, of w] by simp
  show "os_socket os w = (fd, w') \<Longrightarrow> 0 \<le> fd \<Longrightarrow> fd \<notin> opened w \<and> opened w' = insert fd (opened w)"
    using s [rule_format, of w] by simp
  have g: "keeps_descriptors opened (os_gethostbyname os host)" "keeps_descriptors opened (os_bind os fd a)"
    using assms by (simp_all add: descriptor_laws_def)
  show "os_gethostbyname os host w = (hp, w') \<Longrightarrow> opened w' = opened w" by (rule keeps_descriptorsD [OF g(1)])
  show "os_bind os fd a w = (i, w') \<Longrightarrow> opened w' = opened w" by (rule keeps_descriptorsD [OF g(2)])
qed (use assms in \<open>simp_all add: descriptor_laws_def\<close>)

lemma resolve_keeps:
  assumes "descriptor_laws os opened" and "resolveAddress os address host port w = (r, a, w')"
  shows "opened w' = opened w"
proof -
  obtain hp w1 where h: "os_gethostbyname os host w = (hp, w1)" by (metis surj_pair)
  have "w' = w1" using assms(2) h by (auto simp: resolveAddress_def Let_def split: option.splits if_splits list.splits)
  then show ?thesis using descriptor_lawsD(6) [OF assms(1) h] by simp
qed

lemma open_descriptor:
  assumes laws: "descriptor_laws os opened" and e: "udp_open os port ip s w = (r, s', w')"
  shows "(r = Inr () \<and> mSocketFD s' \<notin> opened w \<and> opened w' = insert (mSocketFD s') (opened w)) \<or>
    (r = Inl SocketError \<and> opened w' - {mSocketFD s'} = opened w)"
proof -
  note L = descriptor_lawsD [OF laws]
  obtain fd w1 where s: "os_socket os w = (fd, w1)" by (metis surj_pair)
  show ?thesis
  proof (cases "fd < 0")
    case True
    have "fd \<notin> opened w" using L(1) [of fd w] True by linarith
    then show ?thesis using e s True L(2) [OF s True] by (auto simp: udp_open_def Let_def)
  next
    case False
    obtain i w2 where b: "os_bind os fd \<lparr>sin_family = AF_INET, sin_port = htons port, sin_addr = os_inet_addr os ip\<rparr> (os_reuse os fd w1)
        = (i, w2)" by (metis surj_pair)
    have o: "fd \<notin> opened w" "opened w1 = insert fd (opened w)" using L(3) [OF s] False by simp_all
    have "opened w2 = insert fd (opened w)" using L(7) [OF b] L(5) [of fd w1] o(2) by simp
    moreover have "(r, s', w') = (if i < 0 then (Inl SocketError, s\<lparr>mSocketFD := fd\<rparr>, w2) else (Inr (), s\<lparr>mSocketFD := fd\<rparr>, w2))"
      by (simp only: e [symmetric] udp_open_def s b False Let_def prod.case if_False)
    ultimately show ?thesis using o(1) by (cases "i < 0") simp_all
  qed
qed

text \<open>A constructor leaves one new descriptor open, which the destructor closes; one that throws leaves none.\<close>

lemma socket_descriptor:
  assumes laws: "descriptor_laws os opened" and e: "UDPSocket os fd0 src0 ip port dest_ip dest_port w = (r, w')"
  shows "case r of
      Inr s \<Rightarrow> mSocketFD s \<notin> opened w \<and> opened w' = insert (mSocketFD s) (opened w) \<and> opened (sock_destroy os s w') = opened w
    | Inl SocketError \<Rightarrow> opened w' = opened w
    | Inl Aborted \<Rightarrow> True"
proof -
  note L = descriptor_lawsD [OF laws]
  obtain r1 s1 w1 where o: "udp_open os port ip (DatagramSocket fd0 src0) w = (r1, s1, w1)" by (metis surj_pair)
  note od = open_descriptor [OF laws o]
  obtain r2 a w2 where d: "resolveAddress os (mDestination s1) dest_ip dest_port w1 = (r2, a, w2)" by (metis surj_pair)
  note k = resolve_keeps [OF laws d]
  show ?thesis
  proof (cases r1)
    case (Inl err)
    then show ?thesis using e o od L(4) by (auto simp: UDPSocket_def unwind_def sock_destroy_def sock_close_def)
  next
    case (Inr u)
    then show ?thesis using e o od d k L(4)
      by (cases r2; cases "projl r2") (auto simp: UDPSocket_def unwind_def udp_destination_def sock_destroy_def sock_close_def)
  qed
qed

section \<open>Sending and receiving\<close>

text \<open>With a host that is found, everything written goes to its address and the given port.\<close>

definition host_found :: "'w socket_os \<Rightarrow> string \<Rightarrow> 8 word list \<Rightarrow> bool" where
  "host_found os host a \<longleftrightarrow> length a = 4 \<and>
    (\<forall>w. \<exists>as. fst (os_gethostbyname os host w) = Some \<lparr>h_addrtype = AF_INET, h_addr_list = a # as\<rparr>)"

lemma socket_destination:
  assumes e: "UDPSocket os fd0 src0 ip port dest_ip dest_port w = (Inr s, w')" and found: "host_found os dest_ip a"
  shows "mDestination s = \<lparr>sin_family = AF_INET, sin_port = htons dest_port, sin_addr = a\<rparr>"
proof -
  obtain r1 s1 w1' where o: "udp_open os port ip (DatagramSocket fd0 src0) w = (r1, s1, w1')" by (metis surj_pair)
  have r: "r1 = Inr ()" using e o by (cases r1; cases "projl r1") (auto simp: UDPSocket_def unwind_def)
  obtain as where f: "fst (os_gethostbyname os dest_ip w1') = Some \<lparr>h_addrtype = AF_INET, h_addr_list = a # as\<rparr>"
    using found unfolding host_found_def by blast
  obtain w2 where g: "os_gethostbyname os dest_ip w1' = (Some \<lparr>h_addrtype = AF_INET, h_addr_list = a # as\<rparr>, w2)"
    using f by (metis prod.collapse)
  have "length a = 4" using found by (simp add: host_found_def)
  then show ?thesis using e o r resolve_found [OF g] by (auto simp: UDPSocket_def unwind_def udp_destination_def)
qed

lemma write_destination:
  assumes "UDPSocket os fd0 src0 ip port dest_ip dest_port w = (Inr s, w')" and "host_found os dest_ip a"
    and "length m \<le> MAX_UDP_LENGTH"
  shows "sock_write os m s w1 =
    (case os_sendto os (mSocketFD s) m \<lparr>sin_family = AF_INET, sin_port = htons dest_port, sin_addr = a\<rparr> w1 of (n, w2) \<Rightarrow> (Inr n, w2))"
  using socket_destination [OF assms(1,2)] assms(3) by (simp add: sock_write_def)

text \<open>With a host that is not found, the socket is made all the same, and what is written goes to an address of zeros.\<close>

lemma write_unresolved:
  assumes "udp_open os port ip (DatagramSocket fd0 src0) w = (Inr (), s, w1)" and "mDestination s = zero_address"
    and "os_gethostbyname os dest_ip w1 = (None, w2)"
  shows "UDPSocket os fd0 src0 ip port dest_ip dest_port w = (Inr s, w2)"
    and "length m \<le> MAX_UDP_LENGTH \<Longrightarrow> sock_write os m s w3 = (case os_sendto os (mSocketFD s) m zero_address w3 of (n, w4) \<Rightarrow> (Inr n, w4))"
proof -
  have "s\<lparr>mDestination := zero_address\<rparr> = s" using assms(2) by (cases s) simp
  then show "UDPSocket os fd0 src0 ip port dest_ip dest_port w = (Inr s, w2)"
    by (simp add: UDPSocket_def unwind_def assms udp_destination_def resolveAddress_def)
qed (simp add: sock_write_def assms(2))

text \<open>A reply goes to the sender of the last packet; a pass without a packet or an error does not change where it goes.\<close>

lemma reply_goes_back:
  assumes "sock_read os n s w = (r, s', w')"
  shows "mSocketFD s' = mSocketFD s \<and> mDestination s' = mDestination s \<and>
    (case os_recvfrom os (mSocketFD s) n w of
       (Datagram bs src, _) \<Rightarrow> r = Inr (int (length bs), bs) \<and> mSource s' = src
     | (Would_block, _) \<Rightarrow> r = Inr (-1, []) \<and> s' = s
     | (Receive_failed, _) \<Rightarrow> r = Inl SocketError \<and> s' = s)"
  using assms by (auto simp: sock_read_def split: prod.splits received.splits)

text \<open>A read with a timeout does not ask for a packet before there is one.\<close>

lemma read_timeout_cases:
  "os_select os (mSocketFD s) (select_sec t) (select_usec t) w = (sel, isset, w1) \<Longrightarrow>
    sock_read_timeout os n t s w =
      (if sel < 0 then (Inl SocketError, s, w1) else if 0 < sel \<and> isset then sock_read os n s w1 else (Inr (-1, []), s, w1))"
  by (auto simp: sock_read_timeout_def)

section \<open>A loopback system\<close>

text \<open>A system with the one host \<^verbatim>\<open>127.0.0.1\<close>, that keeps the open descriptors, their addresses and the packets under way.\<close>

record loopback_state =
  lo_open :: "int list"
  lo_bound :: "(int \<times> sockaddr_in) list"
  lo_mail :: "(sockaddr_in \<times> 8 word list \<times> sockaddr_in) list"

definition localhost :: "8 word list" where
  "localhost = [127, 0, 0, 1]"

definition lo_address :: "16 word \<Rightarrow> sockaddr_in" where
  "lo_address port = \<lparr>sin_family = AF_INET, sin_port = htons port, sin_addr = localhost\<rparr>"

definition lo_for :: "int \<Rightarrow> loopback_state \<Rightarrow> (sockaddr_in \<times> 8 word list \<times> sockaddr_in) option" where
  "lo_for fd w = find (\<lambda>(dest, _). map_of (lo_bound w) fd = Some dest) (lo_mail w)"

definition loopback :: "loopback_state socket_os" where
  "loopback =
    \<lparr>os_gethostbyname = (\<lambda>host w.
       (if host = ''localhost'' \<or> host = ''127.0.0.1'' then Some \<lparr>h_addrtype = AF_INET, h_addr_list = [localhost]\<rparr> else None, w)),
     os_inet_addr = (\<lambda>_. localhost),
     os_socket = (\<lambda>w. let fd = fold max (lo_open w) 2 + 1 in (fd, w\<lparr>lo_open := fd # lo_open w\<rparr>)),
     os_reuse = (\<lambda>_ w. w),
     os_bind = (\<lambda>fd a w. if a \<in> snd ` set (lo_bound w) then (-1, w) else (0, w\<lparr>lo_bound := (fd, a) # lo_bound w\<rparr>)),
     os_sendto = (\<lambda>fd m dest w. case map_of (lo_bound w) fd of
         None \<Rightarrow> (-1, w)
       | Some a \<Rightarrow> if sin_family dest = AF_INET then (int (length m), w\<lparr>lo_mail := lo_mail w @ [(dest, m, a)]\<rparr>) else (-1, w)),
     os_recvfrom = (\<lambda>fd n w. case lo_for fd w of
         None \<Rightarrow> (Would_block, w)
       | Some (dest, m, src) \<Rightarrow> (Datagram (take n m) src, w\<lparr>lo_mail := remove1 (dest, m, src) (lo_mail w)\<rparr>)),
     os_select = (\<lambda>fd _ _ w. if lo_for fd w = None then (0, False, w) else (1, True, w)),
     os_getsockname = (\<lambda>fd w. (map_of (lo_bound w) fd, w)),
     os_setfl = (\<lambda>_ _ w. w),
     os_close = (\<lambda>fd w. w\<lparr>lo_open := removeAll fd (lo_open w), lo_bound := filter (\<lambda>(f, _). f \<noteq> fd) (lo_bound w)\<rparr>)\<rparr>"

definition lo_opened :: "loopback_state \<Rightarrow> int set" where
  "lo_opened w = {fd \<in> set (lo_open w). 0 \<le> fd}"

lemma fold_max_less: "fold max xs a < (b :: int) \<Longrightarrow> a < b \<and> (\<forall>x\<in>set xs. x < b)"
proof (induction xs arbitrary: a)
  case (Cons y ys)
  have "fold max ys (max y a) < b" using Cons.prems by (simp only: fold_simps)
  from Cons.IH [OF this] show ?case by auto
qed simp

lemma loopback_laws: "descriptor_laws loopback lo_opened"
proof -
  have l: "2 < fold max xs 2 + 1 \<and> (\<forall>x\<in>set xs. x < fold max xs 2 + 1)" for xs :: "int list"
    by (rule fold_max_less) simp
  have f: "fold max xs 2 + 1 \<notin> set xs" "0 \<le> fold max xs 2 + (1 :: int)" for xs :: "int list"
    subgoal using l [of xs] by (metis less_irrefl)
    subgoal using conjunct1 [OF l [of xs]] by linarith
    done
  have s: "case os_socket loopback w of (fd, w') \<Rightarrow>
      if fd < 0 then lo_opened w' = lo_opened w else fd \<notin> lo_opened w \<and> lo_opened w' = insert fd (lo_opened w)" for w
    using f(1) [of "lo_open w"] f(2) [of "lo_open w"] by (auto simp: loopback_def lo_opened_def Let_def)
  have "lo_opened (os_close loopback fd w) = lo_opened w - {fd}" for fd w by (auto simp: loopback_def lo_opened_def)
  moreover have "keeps_descriptors lo_opened (os_bind loopback fd a)" "keeps_descriptors lo_opened (os_gethostbyname loopback host)"
    for fd a host by (simp_all add: keeps_descriptors_def loopback_def lo_opened_def)
  moreover have "os_reuse loopback fd w = w" for fd w by (simp add: loopback_def)
  ultimately show ?thesis using s by (simp add: descriptor_laws_def) (simp add: lo_opened_def)
qed

lemma loopback_found: "host_found loopback ''localhost'' localhost" "host_found loopback ''127.0.0.1'' localhost"
  by (simp_all add: host_found_def loopback_def localhost_def)

definition lo_start :: loopback_state where
  "lo_start = \<lparr>lo_open = [0, 1, 2], lo_bound = [], lo_mail = []\<rparr>"

text \<open>A control message from the GSM core to the transceiver and back: both strings arrive, the reply at the sender.\<close>

definition lo_exchange :: "string \<Rightarrow> string \<Rightarrow> ((string \<times> int) \<times> (string \<times> int)) option" where
  "lo_exchange command response =
    (case UDPSocket loopback 0 zero_address ''127.0.0.1'' 5701 ''127.0.0.1'' 5801 lo_start of
       (Inl _, _) \<Rightarrow> None
     | (Inr trx, w) \<Rightarrow> (case UDPSocket loopback 0 zero_address ''127.0.0.1'' 5801 ''localhost'' 5701 w of
       (Inl _, _) \<Rightarrow> None
     | (Inr core, w) \<Rightarrow> (case sock_read_timeout loopback 1500 0 trx (snd (sock_write_str loopback command core w)) of
       (Inl _, _, _) \<Rightarrow> None
     | (Inr (n, bs), trx, w) \<Rightarrow> (case sock_read loopback 1500 core (snd (sock_writeBack_str loopback response trx w)) of
       (Inl _, _, _) \<Rightarrow> None
     | (Inr (k, cs), core, w) \<Rightarrow> Some ((c_string bs, n), (c_string cs, k))))))"

lemma loopback_exchange: "lo_exchange ''CMD POWERON'' ''RSP POWERON 0'' = Some ((''CMD POWERON'', 12), (''RSP POWERON 0'', 14))"
  by code_simp

lemma loopback_busy_port:
  "let (r1, w1) = UDPSocket loopback 0 zero_address ''127.0.0.1'' 5701 ''127.0.0.1'' 5801 lo_start;
       (r2, w2) = UDPSocket loopback 0 zero_address ''127.0.0.1'' 5701 ''127.0.0.1'' 5801 w1
   in map_sum id (\<lambda>s. ()) r1 = Inr () \<and> r2 = Inl SocketError \<and> lo_open w2 = lo_open w1"
  by code_simp

end
