(* ===== verification/TrxSockets.thy ===== *)
theory TrxSockets
  imports TrxControl Sockets
begin

text \<open>
  The sockets of the transceiver: the constructor makes the clock socket, \<open>init\<close> a control and a data socket for each channel, and
  the destructor closes them all (\<^verbatim>\<open>Transceiver.cpp\<close> over \<^verbatim>\<open>CommonLibs/Sockets.cpp\<close>). They are the sockets that the
  transceiver of \<open>TrxControl\<close> knows by their port numbers. No part of the program catches a \<open>SocketError\<close>: where one is thrown,
  the program ends with the sockets made so far still open.
\<close>

record trx_sockets =
  sk_clock :: datagram_socket
  sk_ctrl :: "datagram_socket list"
  sk_data :: "datagram_socket list"

text \<open>An \<open>int\<close> becomes an \<open>unsigned short\<close>; \<open>j\<close> is what the memory of a new socket holds.\<close>

definition make_socket :: "'w socket_os \<Rightarrow> int \<times> sockaddr_in \<Rightarrow> string \<Rightarrow> string \<Rightarrow> int \<times> int \<Rightarrow> 'w \<Rightarrow>
    (socket_error + datagram_socket) \<times> 'w" where
  "make_socket os j local remote ports w =
    UDPSocket os (fst j) (snd j) local (word_of_int (fst ports)) remote (word_of_int (snd ports)) w"

fun init_sockets :: "'w socket_os \<Rightarrow> int \<times> sockaddr_in \<Rightarrow> string \<Rightarrow> string \<Rightarrow> int \<Rightarrow> nat list \<Rightarrow> trx_sockets \<Rightarrow> 'w \<Rightarrow>
    (socket_error + unit) \<times> trx_sockets \<times> 'w" where
  "init_sockets os j local remote base [] s w = (Inr (), s, w)"
| "init_sockets os j local remote base (i # is) s w =
    (case make_socket os j local remote (base + 2 * int i + 1, base + 2 * int i + 101) w of
       (Inl e, w) \<Rightarrow> (Inl e, s, w)
     | (Inr c, w) \<Rightarrow>
         (let s = s\<lparr>sk_ctrl := sk_ctrl s @ [c]\<rparr> in
          case make_socket os j local remote (base + 2 * int i + 2, base + 2 * int i + 102) w of
            (Inl e, w) \<Rightarrow> (Inl e, s, w)
          | (Inr d, w) \<Rightarrow> init_sockets os j local remote base is (s\<lparr>sk_data := sk_data s @ [d]\<rparr>) w))"

text \<open>The constructor and \<open>init\<close> one after the other, as \<open>makeTransceiver\<close> calls them; \<open>None\<close> where the constructor throws.\<close>

definition open_sockets :: "'w socket_os \<Rightarrow> int \<times> sockaddr_in \<Rightarrow> string \<Rightarrow> string \<Rightarrow> int \<Rightarrow> nat \<Rightarrow> 'w \<Rightarrow>
    (socket_error + unit) \<times> trx_sockets option \<times> 'w" where
  "open_sockets os j local remote base chans w =
    (case make_socket os j local remote (base, base + 100) w of
       (Inl e, w) \<Rightarrow> (Inl e, None, w)
     | (Inr c, w) \<Rightarrow>
         (case init_sockets os j local remote base [0..<chans] \<lparr>sk_clock = c, sk_ctrl = [], sk_data = []\<rparr> w of
            (r, s, w) \<Rightarrow> (r, Some s, w)))"

text \<open>The destructor deletes the sockets of each channel; the clock socket is a member and goes last.\<close>

definition close_sockets :: "'w socket_os \<Rightarrow> trx_sockets \<Rightarrow> 'w \<Rightarrow> 'w" where
  "close_sockets os s w =
    sock_destroy os (sk_clock s)
      (fold (\<lambda>i w. sock_destroy os (sk_data s ! i) (sock_destroy os (sk_ctrl s ! i) w)) [0..<length (sk_ctrl s)] w)"

definition socket_fds :: "trx_sockets \<Rightarrow> int list" where
  "socket_fds s = mSocketFD (sk_clock s) # map mSocketFD (sk_ctrl s) @ map mSocketFD (sk_data s)"

section \<open>Descriptors\<close>

text \<open>The sockets made so far own the descriptors opened since \<open>before\<close>.\<close>

definition sockets_own :: "int set \<Rightarrow> int set \<Rightarrow> trx_sockets \<Rightarrow> bool" where
  "sockets_own before now s \<longleftrightarrow> distinct (socket_fds s) \<and> set (socket_fds s) \<inter> before = {} \<and> now = before \<union> set (socket_fds s)"

lemma make_socket_ok:
  assumes "descriptor_laws os opened" and "make_socket os j local remote ports w = (Inr c, w')"
  shows "mSocketFD c \<notin> opened w \<and> opened w' = insert (mSocketFD c) (opened w)"
  using socket_descriptor [OF assms(1) assms(2) [unfolded make_socket_def]] by simp

lemma make_socket_fails:
  assumes "descriptor_laws os opened" and "make_socket os j local remote ports w = (Inl SocketError, w')"
  shows "opened w' = opened w"
  using socket_descriptor [OF assms(1) assms(2) [unfolded make_socket_def]] by simp

lemma own_ctrl: "sockets_own O1 N s \<Longrightarrow> mSocketFD c \<notin> N \<Longrightarrow> sockets_own O1 (insert (mSocketFD c) N) (s\<lparr>sk_ctrl := sk_ctrl s @ [c]\<rparr>)"
  by (auto simp: sockets_own_def socket_fds_def)

lemma own_data: "sockets_own O1 N s \<Longrightarrow> mSocketFD c \<notin> N \<Longrightarrow> sockets_own O1 (insert (mSocketFD c) N) (s\<lparr>sk_data := sk_data s @ [c]\<rparr>)"
  by (auto simp: sockets_own_def socket_fds_def)

text \<open>Whether they all open or one of them throws, the sockets made own what is open.\<close>

lemma init_sockets_own:
  assumes laws: "descriptor_laws os opened"
  shows "init_sockets os j local remote base is s w = (r, s', w') \<Longrightarrow> sockets_own O1 (opened w) s \<Longrightarrow> r \<noteq> Inl Aborted \<Longrightarrow>
    sockets_own O1 (opened w') s'"
proof (induction "is" arbitrary: s w)
  case (Cons i "is")
  obtain r1 w1 where m1: "make_socket os j local remote (base + 2 * int i + 1, base + 2 * int i + 101) w = (r1, w1)" by (metis surj_pair)
  show ?case
  proof (cases r1)
    case (Inl e)
    then have "r = Inl e" "s' = s" "w' = w1" using Cons.prems(1) m1 by simp_all
    moreover from this have "e = SocketError" using Cons.prems(3) by (cases e) simp_all
    ultimately show ?thesis using make_socket_fails [OF laws, of j local remote _ w w1] m1 Inl Cons.prems(2) by simp
  next
    case (Inr c)
    define s1 where "s1 = s\<lparr>sk_ctrl := sk_ctrl s @ [c]\<rparr>"
    have o1: "sockets_own O1 (opened w1) s1"
      using make_socket_ok [OF laws m1 [unfolded Inr]] own_ctrl [OF Cons.prems(2), of c] by (simp add: s1_def)
    obtain r2 w2 where m2: "make_socket os j local remote (base + 2 * int i + 2, base + 2 * int i + 102) w1 = (r2, w2)" by (metis surj_pair)
    show ?thesis
    proof (cases r2)
      case (Inl e)
      then have "r = Inl e" "s' = s1" "w' = w2" using Cons.prems(1) m1 Inr m2 by (simp_all add: s1_def)
      moreover from this have "e = SocketError" using Cons.prems(3) by (cases e) simp_all
      ultimately show ?thesis using make_socket_fails [OF laws, of j local remote _ w1 w2] m2 Inl o1 by simp
    next
      case (Inr d)
      have o2: "sockets_own O1 (opened w2) (s1\<lparr>sk_data := sk_data s1 @ [d]\<rparr>)"
        using make_socket_ok [OF laws m2 [unfolded Inr]] own_data [OF o1, of d] by simp
      have "init_sockets os j local remote base is (s1\<lparr>sk_data := sk_data s1 @ [d]\<rparr>) w2 = (r, s', w')"
        using Cons.prems(1) m1 \<open>r1 = Inr c\<close> m2 Inr by (simp add: s1_def)
      then show ?thesis by (rule Cons.IH [OF _ o2 Cons.prems(3)])
    qed
  qed
qed simp

lemma open_sockets_own:
  assumes laws: "descriptor_laws os opened" and e: "open_sockets os j local remote base chans w = (r, s, w')" and "r \<noteq> Inl Aborted"
  shows "case s of None \<Rightarrow> opened w' = opened w | Some s \<Rightarrow> sockets_own (opened w) (opened w') s"
proof -
  obtain r1 w1 where m: "make_socket os j local remote (base, base + 100) w = (r1, w1)" by (metis surj_pair)
  show ?thesis
  proof (cases r1)
    case (Inl err)
    then have "r = Inl err" "s = None" "w' = w1" using e m by (simp_all add: open_sockets_def)
    moreover from this have "err = SocketError" using assms(3) by (cases err) simp_all
    ultimately show ?thesis using make_socket_fails [OF laws, of j local remote _ w w1] m Inl by simp
  next
    case (Inr c)
    define s0 where "s0 = \<lparr>sk_clock = c, sk_ctrl = [], sk_data = []\<rparr>"
    obtain r2 s2 w2 where i: "init_sockets os j local remote base [0..<chans] s0 w1 = (r2, s2, w2)" by (metis surj_pair)
    have "sockets_own (opened w) (opened w1) s0"
      using make_socket_ok [OF laws m [unfolded Inr]] by (simp add: sockets_own_def socket_fds_def s0_def)
    moreover have "r = r2" "s = Some s2" "w' = w2" using e m Inr i by (simp_all add: open_sockets_def s0_def)
    ultimately show ?thesis using init_sockets_own [OF laws i] assms(3) by simp
  qed
qed

text \<open>Closing takes away exactly the descriptors of the sockets.\<close>

lemma close_channels:
  assumes laws: "descriptor_laws os opened"
  shows "opened (fold (\<lambda>i w. sock_destroy os (sk_data s ! i) (sock_destroy os (sk_ctrl s ! i) w)) is w) =
    opened w - (\<Union>i\<in>set is. {mSocketFD (sk_ctrl s ! i), mSocketFD (sk_data s ! i)})"
proof (induction "is" arbitrary: w)
  case (Cons i "is")
  have "opened (sock_destroy os (sk_data s ! i) (sock_destroy os (sk_ctrl s ! i) w)) =
      opened w - {mSocketFD (sk_ctrl s ! i), mSocketFD (sk_data s ! i)}"
    unfolding sock_destroy_def sock_close_def descriptor_lawsD(4) [OF laws] by blast
  then show ?case unfolding fold_simps Cons.IH by auto
qed simp

lemma close_sockets_own:
  assumes laws: "descriptor_laws os opened" and "length (sk_data s) = length (sk_ctrl s)"
  shows "opened (close_sockets os s w) = opened w - set (socket_fds s)"
proof -
  have "(\<Union>i\<in>set [0..<length (sk_ctrl s)]. {mSocketFD (sk_ctrl s ! i), mSocketFD (sk_data s ! i)}) =
      mSocketFD ` set (sk_ctrl s) \<union> mSocketFD ` set (sk_data s)"
    using assms(2) by (fastforce simp: in_set_conv_nth image_iff)
  then show ?thesis
    unfolding close_sockets_def sock_destroy_def [of _ "sk_clock s"] sock_close_def [of _ "sk_clock s"] descriptor_lawsD(4) [OF laws]
      close_channels [OF laws] by (auto simp: socket_fds_def)
qed

section \<open>Destinations\<close>

definition core_address :: "8 word list \<Rightarrow> int \<Rightarrow> sockaddr_in" where
  "core_address a port = \<lparr>sin_family = AF_INET, sin_port = htons (word_of_int port), sin_addr = a\<rparr>"

lemma make_socket_destination:
  "make_socket os j local remote ports w = (Inr c, w') \<Longrightarrow> host_found os remote a \<Longrightarrow> mDestination c = core_address a (snd ports)"
  unfolding make_socket_def core_address_def by (rule socket_destination)

lemma init_sockets_made:
  assumes found: "host_found os remote a"
  shows "init_sockets os j local remote base is s w = (Inr (), s', w') \<Longrightarrow>
    sk_clock s' = sk_clock s \<and>
    map mDestination (sk_ctrl s') = map mDestination (sk_ctrl s) @ map (\<lambda>i. core_address a (base + 2 * int i + 101)) is \<and>
    map mDestination (sk_data s') = map mDestination (sk_data s) @ map (\<lambda>i. core_address a (base + 2 * int i + 102)) is"
proof (induction "is" arbitrary: s w)
  case (Cons i "is")
  obtain c w1 where m1: "make_socket os j local remote (base + 2 * int i + 1, base + 2 * int i + 101) w = (Inr c, w1)"
    using Cons.prems by (auto split: prod.splits sum.splits)
  obtain d w2 where m2: "make_socket os j local remote (base + 2 * int i + 2, base + 2 * int i + 102) w1 = (Inr d, w2)"
    using Cons.prems m1 by (auto simp: Let_def split: prod.splits sum.splits)
  have "init_sockets os j local remote base is (s\<lparr>sk_ctrl := sk_ctrl s @ [c], sk_data := sk_data s @ [d]\<rparr>) w2 = (Inr (), s', w')"
    using Cons.prems m1 m2 by simp
  from Cons.IH [OF this] show ?case
    using make_socket_destination [OF m1 found] make_socket_destination [OF m2 found] by simp
qed simp

section \<open>Property\<close>

text \<open>C14. A transceiver whose initialisation succeeds and whose sockets can be made has one clock socket and a control and a data
  socket for each channel, with descriptors of their own that nobody held before. Each sends to the remote port that the
  transceiver has noted for it. The destructor closes exactly these, so that the open descriptors are those from before.\<close>

theorem transceiver_sockets:
  assumes laws: "descriptor_laws os opened" and found: "host_found os remote a"
    and init: "trx_init D R True rnd filler rtsc rach_delay edge ext_rach t = Some (True, t')"
    and made: "open_sockets os j local remote (tr_mBasePort t) (tr_mChans t) w = (Inr (), Some s, w')"
  shows "distinct (socket_fds s) \<and> length (socket_fds s) = 2 * tr_mChans t + 1 \<and> set (socket_fds s) \<inter> opened w = {} \<and>
    opened w' = opened w \<union> set (socket_fds s) \<and> opened (close_sockets os s w') = opened w \<and>
    mDestination (sk_clock s) = core_address a (tr_mBasePort t + 100) \<and>
    map mDestination (sk_ctrl s) = map (\<lambda>(_, dst). core_address a dst) (tr_ctrlSockets t') \<and>
    map mDestination (sk_data s) = map (\<lambda>(_, dst). core_address a dst) (tr_dataSockets t')"
proof -
  have own: "sockets_own (opened w) (opened w') s" using open_sockets_own [OF laws made] by simp
  obtain c w1 where m: "make_socket os j local remote (tr_mBasePort t, tr_mBasePort t + 100) w = (Inr c, w1)"
    and i: "init_sockets os j local remote (tr_mBasePort t) [0..<tr_mChans t] \<lparr>sk_clock = c, sk_ctrl = [], sk_data = []\<rparr> w1 = (Inr (), s, w')"
    using made by (auto simp: open_sockets_def split: prod.splits sum.splits)
  note d = init_sockets_made [OF found i]
  have ports: "tr_ctrlSockets t' = map (\<lambda>i. (tr_mBasePort t + 2 * int i + 1, tr_mBasePort t + 2 * int i + 101)) [0..<tr_mChans t]"
    "tr_dataSockets t' = map (\<lambda>i. (tr_mBasePort t + 2 * int i + 2, tr_mBasePort t + 2 * int i + 102)) [0..<tr_mChans t]"
    using init by (auto simp: trx_init_def Let_def split: if_splits option.splits)
  have len: "length (sk_ctrl s) = tr_mChans t" "length (sk_data s) = tr_mChans t"
    using d by (metis append_Nil length_map length_upt minus_nat.diff_0 trx_sockets.select_convs(2) list.map(1),
      metis append_Nil length_map length_upt minus_nat.diff_0 trx_sockets.select_convs(3) list.map(1))
  have "opened (close_sockets os s w') = opened w"
    using close_sockets_own [OF laws, of s w'] len own by (auto simp: sockets_own_def)
  then show ?thesis
    using own d make_socket_destination [OF m found] len by (auto simp: sockets_own_def ports socket_fds_def)
qed

lemma loopback_two_channels:
  "case open_sockets loopback (0, zero_address) ''127.0.0.1'' ''localhost'' 5700 2 lo_start of
     (r, s, w) \<Rightarrow> r = Inr () \<and> map_option (\<lambda>s. socket_fds s) s = Some [3, 4, 6, 5, 7]"
  by code_simp

theorem transceiver_sockets_witness:
  "\<exists>s w'. open_sockets loopback (0, zero_address) ''127.0.0.1'' ''localhost'' 5700 2 lo_start = (Inr (), Some s, w') \<and>
    length (socket_fds s) = 5 \<and> lo_opened (close_sockets loopback s w') = lo_opened lo_start \<and>
    map mDestination (sk_ctrl s) = [core_address localhost 5801, core_address localhost 5803]"
proof -
  let ?t = "trx_new demo_ops 5700 4 4 2 (Time 3 0) idle_radio 0"
  obtain t' where t': "trx_init demo_dsp demo_ops True 7 FILLER_DUMMY 0 0 False False ?t = Some (True, t')"
    using trx_init_ok [OF demo_dsp_total, of 2 "\<lambda>_. True" demo_ops idle_radio 7 FILLER_DUMMY 0 0 False False 5700 4 4 "Time 3 0" 0]
    by auto
  have b: "tr_mBasePort ?t = 5700" "tr_mChans ?t = 2" by (simp_all add: trx_new_def)
  obtain s w' where o: "open_sockets loopback (0, zero_address) ''127.0.0.1'' ''localhost'' 5700 2 lo_start = (Inr (), Some s, w')"
    using loopback_two_channels by (auto split: prod.splits)
  have c: "tr_ctrlSockets t' = [(5701, 5801), (5703, 5803)]"
    using t' by (auto simp: trx_init_def b Let_def upt_rec split: if_splits option.splits)
  have o': "open_sockets loopback (0, zero_address) ''127.0.0.1'' ''localhost'' (tr_mBasePort ?t) (tr_mChans ?t) lo_start = (Inr (), Some s, w')"
    unfolding b by (rule o)
  have p: "length (socket_fds s) = 2 * 2 + 1" "lo_opened (close_sockets loopback s w') = lo_opened lo_start"
    "map mDestination (sk_ctrl s) = map (\<lambda>(_, dst). core_address localhost dst) (tr_ctrlSockets t')"
    using transceiver_sockets [OF loopback_laws loopback_found(1) t' o'] unfolding b by blast+
  have q: "length (socket_fds s) = 5" "map mDestination (sk_ctrl s) = [core_address localhost 5801, core_address localhost 5803]"
    using p(1,3) unfolding c by simp_all
  show ?thesis by (intro exI conjI, rule o, rule q(1), rule p(2), rule q(2))
qed

text \<open>The ports of the sockets differ as 16-bit numbers while they are below \<open>2 ^ 16\<close>; a second transceiver at the same base port
  fails with its clock socket.\<close>

lemma ports_distinct:
  assumes "0 \<le> base" and "base + 2 * int n + 102 < 65536" and "i < n" and "k < n"
  shows "(word_of_int (base + 2 * int i + 1) :: 16 word) \<noteq> word_of_int (base + 2 * int k + 2)"
    and "i \<noteq> k \<Longrightarrow> (word_of_int (base + 2 * int i + 1) :: 16 word) \<noteq> word_of_int (base + 2 * int k + 1)"
proof -
  have inj: "(word_of_int x :: 16 word) \<noteq> word_of_int y" if "0 \<le> x" "x < 65536" "0 \<le> y" "y < 65536" "x \<noteq> y" for x y
    using that by (simp add: word_of_int_eq_iff take_bit_eq_mod)
  show "(word_of_int (base + 2 * int i + 1) :: 16 word) \<noteq> word_of_int (base + 2 * int k + 2)"
    by (rule inj) (use assms in presburger)+
  show "i \<noteq> k \<Longrightarrow> (word_of_int (base + 2 * int i + 1) :: 16 word) \<noteq> word_of_int (base + 2 * int k + 1)"
    by (rule inj) (use assms in presburger)+
qed

lemma second_transceiver_fails:
  "let (_, _, w) = open_sockets loopback (0, zero_address) ''127.0.0.1'' ''localhost'' 5700 1 lo_start
   in (case open_sockets loopback (0, zero_address) ''127.0.0.1'' ''localhost'' 5700 1 w of
         (r, s, w') \<Rightarrow> r = Inl SocketError \<and> s = None \<and> lo_open w' = lo_open w)"
  by code_simp

end
