(* ===== verification/Uplink.thy ===== *)
theory Uplink
  imports TrxBurst SigDetect
begin

text \<open>
  The receive path of the transceiver (\<^verbatim>\<open>Transceiver.cpp\<close>, \<open>driveReceiveFIFO\<close>) over the signal processing library
  (\<^verbatim>\<open>sigProcLib.cpp\<close>): the parameter \<open>rx_dsp\<close> of \<open>TrxBurst\<close> with the definitions of \<open>SigDetect\<close>, and an
  ideal burst from the air to the packet for the core. An undefined result of the library is an arbitrary value of the
  parameter; the properties hold where the library is defined.
\<close>

definition corr_of_code :: "int \<Rightarrow> corr_type" where
  "corr_of_code rc = (if rc = 1 then TSC else if rc = 2 then EXT_RACH else if rc = 3 then RACH else if rc = 4 then EDGE
    else if rc = 5 then IDLE else OFF)"

lemma corr_of_code: "corr_of_code (corr_code c) = c"
  by (cases c) (simp_all add: corr_of_code_def corr_code_def)

definition sig_rx :: "sig_lib \<Rightarrow> (signal_vector \<Rightarrow> int \<Rightarrow> real \<Rightarrow> nat \<Rightarrow> corr_type \<Rightarrow> int \<Rightarrow> int \<times> complex \<times> real) \<Rightarrow>
    (signal_vector, complex) rx_dsp" where
  "sig_rx L detect =
    rx_dsp.make (\<lambda>v n. the (SigDetect.energyDetect v n)) detect
      (\<lambda>v sps amp toa rc. the (SigDetect.demodAnyBurst L v sps amp toa (corr_of_code rc)))"

text \<open>The detector of the library; \<open>refs\<close> are the values that the variables for the amplitude and the delay have before.\<close>

definition sig_detect :: "sig_lib \<Rightarrow> complex \<times> real \<Rightarrow> signal_vector \<Rightarrow> int \<Rightarrow> real \<Rightarrow> nat \<Rightarrow> corr_type \<Rightarrow> int \<Rightarrow>
    int \<times> complex \<times> real" where
  "sig_detect L refs burst tsc threshold sps type max_toa =
    the (SigDetect.detectAnyBurst L burst (nat tsc) threshold sps type (nat max_toa) refs)"

lemma sig_rx_simps:
  "rx_dsp.energyDetect (sig_rx L detect) v n = the (SigDetect.energyDetect v n)"
  "rx_dsp.detectAnyBurst (sig_rx L detect) = detect"
  "rx_dsp.demodAnyBurst (sig_rx L detect) v sps amp toa rc = the (SigDetect.demodAnyBurst L v sps amp toa (corr_of_code rc))"
  by (simp_all add: sig_rx_def rx_dsp.make_def)

section \<open>A burst from the air\<close>

lemma energy_nonneg:
  assumes "SigDetect.energyDetect v n = Some e"
  shows "0 \<le> e"
proof -
  have "0 \<le> foldl (\<lambda>e i. e + norm2 (sv_samples v ! (4 * i))) x is" if "0 \<le> x" for x and "is" :: "nat list"
    using that by (induction "is" arbitrary: x) auto
  then show ?thesis using assms unfolding SigDetect.energyDetect_def Let_def by (auto split: if_splits)
qed

lemma energy_defined:
  assumes "sv_size v = n" and "76 < n"
  shows "\<exists>e. SigDetect.energyDetect v 20 = Some e \<and> 0 \<le> e"
proof -
  have "SigDetect.energyDetect v 20 \<noteq> None" using assms unfolding SigDetect.energyDetect_def Let_def by simp
  then obtain e where "SigDetect.energyDetect v 20 = Some e" by blast
  then show ?thesis using energy_nonneg by blast
qed

lemma pull_single:
  assumes "tr_mReceiveFIFO t ! chan = Some f" and "itq_read wakes (ro_fifo R f (tr_mRadioInterface t)) = Some (rv_single time (Some v), q)"
    and "ts_expectedCorrType time (tr_mHandover t) (tr_mExtRACH t) (tr_mStates t ! chan) = type"
    and "type = TSC \<or> type = RACH \<or> type = EXT_RACH" and "\<not> tr_mEdge t" and "- 1 < rx_dsp.energyDetect X v (20 * tr_mSPSRx t)"
    and "\<And>m. rx_dsp.detectAnyBurst X v (tr_mTSC t) BURST_THRESH (tr_mSPSRx t) type m = (rc, amp, toa)" and "0 < rc"
  shows "\<exists>out t'. pullRadioVector X R wakes chan t = Some (out, t') \<and> pl_time out = time \<and> pl_toa out = toa \<and>
    pl_RSSI out = rssi_dB (tr_rxFullScale t) (sqrt (rx_dsp.energyDetect X v (20 * tr_mSPSRx t))) \<and>
    pl_bits out = rx_dsp.demodAnyBurst X v (tr_mSPSRx t) amp toa rc \<and> tr_rssiOffset t' = tr_rssiOffset t"
  using assms
  by (auto simp: pullRadioVector_def pull_burst_def Let_def best_path_def rv_single_def rv_getTime_def rv_getVector_def rv_chans_def)

lemma sliced_bit: "i < length bits \<Longrightarrow> take (length bits) soft = soft_of_bits bits \<Longrightarrow> set bits \<subseteq> {0, 1} \<Longrightarrow>
    TrxBurst.vectorSlicer soft ! i = of_int (bits ! i)"
proof -
  assume i: "i < length bits" and s: "take (length bits) soft = soft_of_bits bits" and b: "set bits \<subseteq> {0, 1}"
  have "length (take (length bits) soft) = length bits" unfolding s by (simp add: soft_of_bits_def)
  then have l: "length bits \<le> length soft" by simp
  have "soft ! i = soft_of_bits bits ! i" using arg_cong [OF s, of "\<lambda>xs. xs ! i"] i by simp
  moreover have "bits ! i = 0 \<or> bits ! i = 1" using b i nth_mem by blast
  ultimately show ?thesis using i l by (auto simp: TrxBurst.vectorSlicer_def soft_of_bits_def Let_def)
qed

lemma soft_byte_exact: "\<bar>of_int p / 255 - of_int b\<bar> \<le> 1 / (510 :: real) \<Longrightarrow> p = 255 * (b :: int)"
proof -
  assume a: "\<bar>of_int p / 255 - of_int b\<bar> \<le> 1 / (510 :: real)"
  then have "\<bar>real_of_int p / 255 - real_of_int b\<bar> * 255 \<le> 1 / 2" by simp
  then have "\<bar>real_of_int p - 255 * real_of_int b\<bar> < 1" by (simp add: abs_if split: if_splits)
  then have "\<bar>real_of_int (p - 255 * b)\<bar> < 1" by simp
  then have "\<bar>p - 255 * b\<bar> < 1" by linarith
  then show "p = 255 * b" by linarith
qed



end
