(* ===== verification/TrxConfig.thy ===== *)
theory TrxConfig
  imports TrxControl Uhd CommonUtils
begin

text \<open>
  The configuration of the transceiver and its command language (\<^verbatim>\<open>CommonLibs/trx_vty.c\<close>, \<^verbatim>\<open>trx_vty.h\<close>): the commands of
  the configuration file, the writer that prints the file, and the defaults. A command is declared by a string such as
  \<^verbatim>\<open>test rtsc <0-7>\<close>, which the VTY library parses; here it is the list of its words. The library is a parameter:
  what it matches, how C prints and reads a real, and the name of an unknown value. The configuration nodes are the
  file, the transceiver and a channel.
\<close>

section \<open>The configuration\<close>

definition TRX_CHAN_MAX :: nat where "TRX_CHAN_MAX = 8"
definition DEFAULT_TX_SPS :: int where "DEFAULT_TX_SPS = 4"
definition DEFAULT_RX_SPS :: int where "DEFAULT_RX_SPS = 1"
definition DEFAULT_TRX_PORT :: int where "DEFAULT_TRX_PORT = 5700"
definition DEFAULT_TRX_IP :: string where "DEFAULT_TRX_IP = ''127.0.0.1''"

record trx_chan =
  tc_idx :: int
  tc_rx_path :: "string option"
  tc_tx_path :: "string option"

record trx_cfg =
  cf_bind_addr :: "string option"
  cf_remote_addr :: "string option"
  cf_dev_args :: "string option"
  cf_base_port :: int
  cf_tx_sps :: int
  cf_rx_sps :: int
  cf_rtsc :: int
  cf_rtsc_set :: bool
  cf_rach_delay :: int
  cf_rach_delay_set :: bool
  cf_clock_ref :: reference
  cf_filler :: filler_type
  cf_multi_arfcn :: bool
  cf_offset :: real
  cf_rssi_offset :: real
  cf_swap_channels :: bool
  cf_ext_rach :: bool
  cf_egprs :: bool
  cf_sched_rr :: int
  cf_num_chans :: nat
  cf_chans :: "trx_chan list"

definition chan_zero :: trx_chan where
  "chan_zero = \<lparr>tc_idx = 0, tc_rx_path = None, tc_tx_path = None\<rparr>"

definition vty_trx_ctx_alloc :: trx_cfg where
  "vty_trx_ctx_alloc =
    \<lparr>cf_bind_addr = Some DEFAULT_TRX_IP, cf_remote_addr = Some DEFAULT_TRX_IP, cf_dev_args = None,
     cf_base_port = DEFAULT_TRX_PORT, cf_tx_sps = DEFAULT_TX_SPS, cf_rx_sps = DEFAULT_RX_SPS, cf_rtsc = 0,
     cf_rtsc_set = False, cf_rach_delay = 0, cf_rach_delay_set = False, cf_clock_ref = REF_INTERNAL,
     cf_filler = FILLER_ZERO, cf_multi_arfcn = False, cf_offset = 0, cf_rssi_offset = 0, cf_swap_channels = False,
     cf_ext_rach = False, cf_egprs = False, cf_sched_rr = 0, cf_num_chans = 0,
     cf_chans = replicate TRX_CHAN_MAX chan_zero\<rparr>"

section \<open>The terminal and its library\<close>

datatype vty_node = CONFIG_NODE | TRX_NODE | CHAN_NODE

datatype cmd_result = CMD_SUCCESS | CMD_WARNING

text \<open>\<open>vt_index\<close> is the channel that the pointer \<open>index\<close> points to, and \<open>vt_out\<close> the lines printed.\<close>

record vty =
  vt_node :: vty_node
  vt_index :: "nat option"
  vt_cfg :: trx_cfg
  vt_out :: "string list"

datatype cmd_word = Lit string | Range nat nat | Alt "string list" | Ipv4 | Var

record vty_lib =
  vl_match :: "cmd_word list \<Rightarrow> string \<Rightarrow> string list option"
  vl_show_f :: "real \<Rightarrow> string"
  vl_atof :: "string \<Rightarrow> real"
  vl_unknown :: "int \<Rightarrow> string"

definition clock_ref_names :: "(reference \<times> string) list" where
  "clock_ref_names = [(REF_INTERNAL, ''internal''), (REF_EXTERNAL, ''external''), (REF_GPS, ''gpsdo'')]"

definition filler_names :: "(filler_type \<times> string) list" where
  "filler_names =
    [(FILLER_DUMMY, ''Dummy bursts''), (FILLER_ZERO, ''Disabled''), (FILLER_NORM_RAND, ''Normal bursts with random payload''),
     (FILLER_EDGE_RAND, ''EDGE bursts with random payload''), (FILLER_ACCESS_RAND, ''Access bursts with random payload'')]"

text \<open>\<open>get_string_value\<close> gives \<open>-EINVAL\<close> for a name that is not in the table.\<close>

definition clock_ref_value :: "string \<Rightarrow> reference" where
  "clock_ref_value s =
    (case map_of (map (\<lambda>(v, n). (n, v)) clock_ref_names) s of Some v \<Rightarrow> v | None \<Rightarrow> REF_OTHER (- 22))"

definition clock_ref_name :: "vty_lib \<Rightarrow> reference \<Rightarrow> string" where
  "clock_ref_name E r =
    (case map_of clock_ref_names r of Some n \<Rightarrow> n | None \<Rightarrow> vl_unknown E (case r of REF_OTHER n \<Rightarrow> n | _ \<Rightarrow> 0))"

definition filler_name :: "filler_type \<Rightarrow> string" where
  "filler_name f = the (map_of filler_names f)"

section \<open>The commands\<close>

definition upd_cfg :: "(trx_cfg \<Rightarrow> trx_cfg) \<Rightarrow> vty \<Rightarrow> cmd_result \<times> vty" where
  "upd_cfg f v = (CMD_SUCCESS, v\<lparr>vt_cfg := f (vt_cfg v)\<rparr>)"

definition vty_print :: "string \<Rightarrow> vty \<Rightarrow> vty" where
  "vty_print s v = v\<lparr>vt_out := vt_out v @ [s]\<rparr>"

definition cfg_trx :: "string list \<Rightarrow> vty \<Rightarrow> cmd_result \<times> vty" where
  "cfg_trx argv v = (CMD_SUCCESS, v\<lparr>vt_node := TRX_NODE\<rparr>)"

definition cfg_bind_ip :: "string list \<Rightarrow> vty \<Rightarrow> cmd_result \<times> vty" where
  "cfg_bind_ip argv = upd_cfg (\<lambda>c. c\<lparr>cf_bind_addr := Some (argv ! 0)\<rparr>)"

definition cfg_remote_ip :: "string list \<Rightarrow> vty \<Rightarrow> cmd_result \<times> vty" where
  "cfg_remote_ip argv = upd_cfg (\<lambda>c. c\<lparr>cf_remote_addr := Some (argv ! 0)\<rparr>)"

definition cfg_base_port :: "string list \<Rightarrow> vty \<Rightarrow> cmd_result \<times> vty" where
  "cfg_base_port argv = upd_cfg (\<lambda>c. c\<lparr>cf_base_port := u32 (c_atoi (argv ! 0))\<rparr>)"

definition cfg_dev_args :: "string list \<Rightarrow> vty \<Rightarrow> cmd_result \<times> vty" where
  "cfg_dev_args argv = upd_cfg (\<lambda>c. c\<lparr>cf_dev_args := Some (argv ! 0)\<rparr>)"

definition cfg_tx_sps :: "string list \<Rightarrow> vty \<Rightarrow> cmd_result \<times> vty" where
  "cfg_tx_sps argv = upd_cfg (\<lambda>c. c\<lparr>cf_tx_sps := u32 (c_atoi (argv ! 0))\<rparr>)"

definition cfg_rx_sps :: "string list \<Rightarrow> vty \<Rightarrow> cmd_result \<times> vty" where
  "cfg_rx_sps argv = upd_cfg (\<lambda>c. c\<lparr>cf_rx_sps := u32 (c_atoi (argv ! 0))\<rparr>)"

definition cfg_test_rtsc :: "string list \<Rightarrow> vty \<Rightarrow> cmd_result \<times> vty" where
  "cfg_test_rtsc argv v =
    (if cf_rach_delay_set (vt_cfg v) then (CMD_WARNING, vty_print ''rach-delay and rtsc options are mutual-exclusive'' v)
     else upd_cfg (\<lambda>c. let c = c\<lparr>cf_rtsc_set := True, cf_rtsc := u32 (c_atoi (argv ! 0))\<rparr>
                       in if \<not> cf_egprs c then c\<lparr>cf_filler := FILLER_NORM_RAND\<rparr> else c) v)"

definition cfg_test_rach_delay :: "string list \<Rightarrow> vty \<Rightarrow> cmd_result \<times> vty" where
  "cfg_test_rach_delay argv v =
    (if cf_rtsc_set (vt_cfg v) then (CMD_WARNING, vty_print ''rach-delay and rtsc options are mutual-exclusive'' v)
     else if cf_egprs (vt_cfg v) then (CMD_WARNING, vty_print ''rach-delay and egprs options are mutual-exclusive'' v)
     else upd_cfg (\<lambda>c. c\<lparr>cf_rach_delay_set := True, cf_rach_delay := u32 (c_atoi (argv ! 0)), cf_filler := FILLER_ACCESS_RAND\<rparr>) v)"

definition cfg_clock_ref :: "string list \<Rightarrow> vty \<Rightarrow> cmd_result \<times> vty" where
  "cfg_clock_ref argv = upd_cfg (\<lambda>c. c\<lparr>cf_clock_ref := clock_ref_value (argv ! 0)\<rparr>)"

definition cfg_multi_arfcn :: "string list \<Rightarrow> vty \<Rightarrow> cmd_result \<times> vty" where
  "cfg_multi_arfcn argv v =
    (if argv ! 0 = ''disable'' then upd_cfg (\<lambda>c. c\<lparr>cf_multi_arfcn := False\<rparr>) v
     else if argv ! 0 = ''enable'' then upd_cfg (\<lambda>c. c\<lparr>cf_multi_arfcn := True\<rparr>) v
     else (CMD_WARNING, v))"

definition cfg_offset :: "vty_lib \<Rightarrow> string list \<Rightarrow> vty \<Rightarrow> cmd_result \<times> vty" where
  "cfg_offset E argv = upd_cfg (\<lambda>c. c\<lparr>cf_offset := vl_atof E (argv ! 0)\<rparr>)"

definition cfg_rssi_offset :: "vty_lib \<Rightarrow> string list \<Rightarrow> vty \<Rightarrow> cmd_result \<times> vty" where
  "cfg_rssi_offset E argv = upd_cfg (\<lambda>c. c\<lparr>cf_rssi_offset := vl_atof E (argv ! 0)\<rparr>)"

definition cfg_swap_channels :: "string list \<Rightarrow> vty \<Rightarrow> cmd_result \<times> vty" where
  "cfg_swap_channels argv v =
    (if argv ! 0 = ''disable'' then upd_cfg (\<lambda>c. c\<lparr>cf_swap_channels := False\<rparr>) v
     else if argv ! 0 = ''enable'' then upd_cfg (\<lambda>c. c\<lparr>cf_swap_channels := True\<rparr>) v
     else (CMD_WARNING, v))"

definition cfg_egprs :: "string list \<Rightarrow> vty \<Rightarrow> cmd_result \<times> vty" where
  "cfg_egprs argv v =
    (if argv ! 0 = ''disable'' then upd_cfg (\<lambda>c. c\<lparr>cf_egprs := False\<rparr>) v
     else if argv ! 0 = ''enable'' then upd_cfg (\<lambda>c. c\<lparr>cf_egprs := True, cf_filler := FILLER_EDGE_RAND\<rparr>) v
     else (CMD_WARNING, v))"

definition cfg_ext_rach :: "string list \<Rightarrow> vty \<Rightarrow> cmd_result \<times> vty" where
  "cfg_ext_rach argv =
    upd_cfg (\<lambda>c. let c = (if argv ! 0 = ''disable'' then c\<lparr>cf_ext_rach := False\<rparr> else c)
                 in if argv ! 0 = ''enable'' then c\<lparr>cf_ext_rach := True\<rparr> else c)"

definition cfg_rt_prio :: "string list \<Rightarrow> vty \<Rightarrow> cmd_result \<times> vty" where
  "cfg_rt_prio argv = upd_cfg (\<lambda>c. c\<lparr>cf_sched_rr := u32 (c_atoi (argv ! 0))\<rparr>)"

definition cfg_filler :: "string list \<Rightarrow> vty \<Rightarrow> cmd_result \<times> vty" where
  "cfg_filler argv = upd_cfg (\<lambda>c. c\<lparr>cf_filler := FILLER_DUMMY\<rparr>)"

text \<open>The index is compared with the unsigned number of channels after the check of the upper bound.\<close>

definition cfg_chan :: "string list \<Rightarrow> vty \<Rightarrow> cmd_result \<times> vty" where
  "cfg_chan argv v =
    (let idx = c_atoi (argv ! 0); n = cf_num_chans (vt_cfg v)
     in if idx \<ge> int TRX_CHAN_MAX then (CMD_WARNING, vty_print ''Chan list full.'' v)
        else if int n < u32 idx then (CMD_WARNING, vty_print (''Non-existent or non-consecutive chan '' @ print_d idx @ ''.'') v)
        else
          let i = nat idx;
              c = (if n = i then (vt_cfg v)\<lparr>cf_num_chans := n + 1,
                       cf_chans := (cf_chans (vt_cfg v))[i := (cf_chans (vt_cfg v) ! i)\<lparr>tc_idx := idx\<rparr>]\<rparr>
                   else vt_cfg v)
          in (CMD_SUCCESS, v\<lparr>vt_cfg := c, vt_node := CHAN_NODE, vt_index := Some i\<rparr>))"

definition cfg_chan_rx_path :: "string list \<Rightarrow> vty \<Rightarrow> cmd_result \<times> vty" where
  "cfg_chan_rx_path argv v =
    (let i = the (vt_index v)
     in upd_cfg (\<lambda>c. c\<lparr>cf_chans := (cf_chans c)[i := (cf_chans c ! i)\<lparr>tc_rx_path := Some (argv ! 0)\<rparr>]\<rparr>) v)"

definition cfg_chan_tx_path :: "string list \<Rightarrow> vty \<Rightarrow> cmd_result \<times> vty" where
  "cfg_chan_tx_path argv v =
    (let i = the (vt_index v)
     in upd_cfg (\<lambda>c. c\<lparr>cf_chans := (cf_chans c)[i := (cf_chans c ! i)\<lparr>tc_tx_path := Some (argv ! 0)\<rparr>]\<rparr>) v)"

text \<open>The commands of each node, in the order of their installation; \<open>show_trx\<close> is installed beside them in the nodes
  of the terminal, which a file does not use.\<close>

definition trx_vty_init :: "vty_lib \<Rightarrow> (vty_node \<times> cmd_word list \<times> (string list \<Rightarrow> vty \<Rightarrow> cmd_result \<times> vty)) list" where
  "trx_vty_init E =
    [(CONFIG_NODE, [Lit ''trx''], cfg_trx),
     (TRX_NODE, [Lit ''bind-ip'', Ipv4], cfg_bind_ip),
     (TRX_NODE, [Lit ''remote-ip'', Ipv4], cfg_remote_ip),
     (TRX_NODE, [Lit ''base-port'', Range 1 65535], cfg_base_port),
     (TRX_NODE, [Lit ''dev-args'', Var], cfg_dev_args),
     (TRX_NODE, [Lit ''tx-sps'', Alt [''1'', ''4'']], cfg_tx_sps),
     (TRX_NODE, [Lit ''rx-sps'', Alt [''1'', ''4'']], cfg_rx_sps),
     (TRX_NODE, [Lit ''test'', Lit ''rtsc'', Range 0 7], cfg_test_rtsc),
     (TRX_NODE, [Lit ''test'', Lit ''rach-delay'', Range 0 68], cfg_test_rach_delay),
     (TRX_NODE, [Lit ''clock-ref'', Alt [''internal'', ''external'', ''gpsdo'']], cfg_clock_ref),
     (TRX_NODE, [Lit ''multi-arfcn'', Alt [''disable'', ''enable'']], cfg_multi_arfcn),
     (TRX_NODE, [Lit ''offset'', Var], cfg_offset E),
     (TRX_NODE, [Lit ''rssi-offset'', Var], cfg_rssi_offset E),
     (TRX_NODE, [Lit ''swap-channels'', Alt [''disable'', ''enable'']], cfg_swap_channels),
     (TRX_NODE, [Lit ''egprs'', Alt [''disable'', ''enable'']], cfg_egprs),
     (TRX_NODE, [Lit ''ext-rach'', Alt [''disable'', ''enable'']], cfg_ext_rach),
     (TRX_NODE, [Lit ''rt-prio'', Range 1 32], cfg_rt_prio),
     (TRX_NODE, [Lit ''filler'', Lit ''dummy''], cfg_filler),
     (TRX_NODE, [Lit ''chan'', Range 0 100], cfg_chan),
     (CHAN_NODE, [Lit ''rx-path'', Var], cfg_chan_rx_path),
     (CHAN_NODE, [Lit ''tx-path'', Var], cfg_chan_tx_path)]"

definition trx_vty_is_config_node :: "vty_node \<Rightarrow> bool" where
  "trx_vty_is_config_node n = (n = TRX_NODE \<or> n = CHAN_NODE)"

definition trx_vty_go_parent :: "vty \<Rightarrow> vty" where
  "trx_vty_go_parent v =
    (case vt_node v of
       TRX_NODE \<Rightarrow> v\<lparr>vt_node := CONFIG_NODE, vt_index := None\<rparr>
     | CHAN_NODE \<Rightarrow> v\<lparr>vt_node := TRX_NODE, vt_index := None\<rparr>
     | _ \<Rightarrow> v\<lparr>vt_node := CONFIG_NODE, vt_index := None\<rparr>)"

section \<open>Printing the configuration\<close>

definition enable_name :: "bool \<Rightarrow> string" where
  "enable_name b = (if b then ''enable'' else ''disable'')"

definition opt_line :: "string \<Rightarrow> string option \<Rightarrow> string list" where
  "opt_line text x = (case x of None \<Rightarrow> [] | Some s \<Rightarrow> [text @ s])"

definition chan_lines :: "trx_chan \<Rightarrow> string list" where
  "chan_lines chan =
    ['' chan '' @ print_d (tc_idx chan)] @ opt_line ''  rx-path '' (tc_rx_path chan) @ opt_line ''  tx-path '' (tc_tx_path chan)"

definition config_lines :: "vty_lib \<Rightarrow> trx_cfg \<Rightarrow> string list" where
  "config_lines E c =
    [''trx''] @
    opt_line '' bind-ip '' (cf_bind_addr c) @
    opt_line '' remote-ip '' (cf_remote_addr c) @
    (if cf_base_port c \<noteq> DEFAULT_TRX_PORT then ['' base-port '' @ print_d (cf_base_port c)] else []) @
    opt_line '' dev-args '' (cf_dev_args c) @
    (if cf_tx_sps c \<noteq> DEFAULT_TX_SPS then ['' tx-sps '' @ print_d (cf_tx_sps c)] else []) @
    (if cf_rx_sps c \<noteq> DEFAULT_RX_SPS then ['' rx-sps '' @ print_d (cf_rx_sps c)] else []) @
    (if cf_rtsc_set c then ['' test rtsc '' @ print_d (cf_rtsc c)] else []) @
    (if cf_rach_delay_set c then ['' test rach-delay '' @ print_d (cf_rach_delay c)] else []) @
    (if cf_clock_ref c \<noteq> REF_INTERNAL then ['' clock-ref '' @ clock_ref_name E (cf_clock_ref c)] else []) @
    ['' multi-arfcn '' @ enable_name (cf_multi_arfcn c)] @
    (if cf_offset c \<noteq> 0 then ['' offset '' @ vl_show_f E (cf_offset c)] else []) @
    (if cf_rssi_offset c \<noteq> 0 then ['' rssi-offset '' @ vl_show_f E (cf_rssi_offset c)] else []) @
    ['' swap-channels '' @ enable_name (cf_swap_channels c)] @
    ['' egprs '' @ enable_name (cf_egprs c)] @
    ['' ext-rach '' @ enable_name (cf_ext_rach c)] @
    (if cf_sched_rr c \<noteq> 0 then ['' rt-prio '' @ print_d (cf_sched_rr c)] else []) @
    concat (map chan_lines (take (cf_num_chans c) (cf_chans c)))"

definition config_write_trx :: "vty_lib \<Rightarrow> vty \<Rightarrow> cmd_result \<times> vty" where
  "config_write_trx E v = (CMD_SUCCESS, v\<lparr>vt_out := vt_out v @ config_lines E (vt_cfg v)\<rparr>)"

definition dummy_config_write :: "vty \<Rightarrow> cmd_result \<times> vty" where
  "dummy_config_write v = (CMD_SUCCESS, v)"

text \<open>\<open>show trx\<close>; an address that is null is printed as the C library of GNU does.\<close>

definition c_string :: "string option \<Rightarrow> string" where
  "c_string s = (case s of None \<Rightarrow> ''(null)'' | Some s \<Rightarrow> s)"

definition enabled_name :: "bool \<Rightarrow> string" where
  "enabled_name b = (if b then ''Enabled'' else ''Disabled'')"

definition dump_chan :: "trx_chan \<Rightarrow> string list" where
  "dump_chan chan =
    [''  Channel '' @ print_d (tc_idx chan) @ '':''] @ opt_line ''   Rx Path: '' (tc_rx_path chan) @
    opt_line ''   Tx Path: '' (tc_tx_path chan)"

definition trx_dump_vty :: "vty_lib \<Rightarrow> trx_cfg \<Rightarrow> string list" where
  "trx_dump_vty E c =
    [''TRX Config:'', '' Local IP: '' @ c_string (cf_bind_addr c), '' Remote IP: '' @ c_string (cf_remote_addr c),
     '' TRX Base Port: '' @ print_d (cf_base_port c), '' Device args: '' @ c_string (cf_dev_args c),
     '' Tx Samples-per-Symbol: '' @ print_d (cf_tx_sps c), '' Rx Samples-per-Symbol: '' @ print_d (cf_rx_sps c),
     '' Test Mode: TSC: '' @ print_d (cf_rtsc c) @ '' ('' @ enabled_name (cf_rtsc_set c) @ '')'',
     '' Test Mode: RACH Delay: '' @ print_d (cf_rach_delay c) @ '' ('' @ enabled_name (cf_rach_delay_set c) @ '')'',
     '' C0 Filler Table: '' @ filler_name (cf_filler c), '' Clock Reference: '' @ clock_ref_name E (cf_clock_ref c),
     '' Multi-Carrier: '' @ enabled_name (cf_multi_arfcn c), '' Tuning offset: '' @ vl_show_f E (cf_offset c),
     '' RSSI to dBm offset: '' @ vl_show_f E (cf_rssi_offset c), '' Swap channels: '' @ enabled_name (cf_swap_channels c),
     '' EDGE support: '' @ enabled_name (cf_egprs c), '' Extended RACH support: '' @ enabled_name (cf_ext_rach c),
     '' Real Time Priority: '' @ print_d (cf_sched_rr c) @ '' ('' @ enabled_name (cf_sched_rr c \<noteq> 0) @ '')'',
     '' Channels: '' @ print_d (int (cf_num_chans c))] @
    concat (map dump_chan (take (cf_num_chans c) (cf_chans c)))"

definition show_trx :: "vty_lib \<Rightarrow> vty \<Rightarrow> cmd_result \<times> vty" where
  "show_trx E v = (CMD_SUCCESS, v\<lparr>vt_out := vt_out v @ trx_dump_vty E (vt_cfg v)\<rparr>)"

section \<open>Reading a file\<close>

text \<open>The documented meaning of a command: its words are those of the line, a number lies in its range, and a word that
  is not literal is an argument.\<close>

definition range_word :: "nat \<Rightarrow> nat \<Rightarrow> string \<Rightarrow> bool" where
  "range_word lo hi w = (w \<noteq> [] \<and> list_all is_digit w \<and> lo \<le> fst (scan_digits 0 w) \<and> fst (scan_digits 0 w) \<le> hi)"

fun words_match :: "(string \<Rightarrow> bool) \<Rightarrow> cmd_word list \<Rightarrow> string list \<Rightarrow> string list option" where
  "words_match ipv4 [] [] = Some []"
| "words_match ipv4 (t # ts) (w # ws) =
     (case t of
        Lit s \<Rightarrow> if w = s then words_match ipv4 ts ws else None
      | Range lo hi \<Rightarrow> if range_word lo hi w then map_option ((#) w) (words_match ipv4 ts ws) else None
      | Alt ss \<Rightarrow> if w \<in> set ss then map_option ((#) w) (words_match ipv4 ts ws) else None
      | Ipv4 \<Rightarrow> if ipv4 w then map_option ((#) w) (words_match ipv4 ts ws) else None
      | Var \<Rightarrow> map_option ((#) w) (words_match ipv4 ts ws))"
| "words_match ipv4 _ _ = None"

fun words_from :: "string \<Rightarrow> string \<Rightarrow> string list" where
  "words_from w [] = (if w = [] then [] else [rev w])"
| "words_from w (c # cs) = (if c = CHR '' '' then (if w = [] then [] else [rev w]) @ words_from [] cs else words_from (c # w) cs)"

definition vty_documented :: "(string \<Rightarrow> bool) \<Rightarrow> vty_lib \<Rightarrow> bool" where
  "vty_documented ipv4 E = (\<forall>ts line. vl_match E ts line = words_match ipv4 ts (words_from [] line))"

fun run_command :: "vty_lib \<Rightarrow> (vty_node \<times> cmd_word list \<times> (string list \<Rightarrow> vty \<Rightarrow> cmd_result \<times> vty)) list \<Rightarrow> string \<Rightarrow> vty \<Rightarrow>
    vty option" where
  "run_command E [] line v = None"
| "run_command E ((node, ts, f) # cmds) line v =
     (if node = vt_node v then
        case vl_match E ts line of
          Some argv \<Rightarrow> (case f argv v of (CMD_SUCCESS, v) \<Rightarrow> Some v | (CMD_WARNING, v) \<Rightarrow> None)
        | None \<Rightarrow> run_command E cmds line v
      else run_command E cmds line v)"

text \<open>A line belongs to the node of its indentation; the reader leaves the nodes that are deeper.\<close>

definition node_depth :: "vty_node \<Rightarrow> nat" where
  "node_depth n = (case n of CONFIG_NODE \<Rightarrow> 0 | TRX_NODE \<Rightarrow> 1 | CHAN_NODE \<Rightarrow> 2)"

definition line_indent :: "string \<Rightarrow> nat" where
  "line_indent line = length (takeWhile (\<lambda>c. c = CHR '' '') line)"

fun leave_nodes :: "nat \<Rightarrow> nat \<Rightarrow> vty \<Rightarrow> vty" where
  "leave_nodes 0 depth v = v"
| "leave_nodes (Suc n) depth v = (if depth < node_depth (vt_node v) then leave_nodes n depth (trx_vty_go_parent v) else v)"

definition read_line :: "vty_lib \<Rightarrow> string \<Rightarrow> vty \<Rightarrow> vty option" where
  "read_line E line v = run_command E (trx_vty_init E) line (leave_nodes 2 (line_indent line) v)"

fun read_file :: "vty_lib \<Rightarrow> string list \<Rightarrow> vty \<Rightarrow> vty option" where
  "read_file E [] v = Some v"
| "read_file E (line # lines) v = (case read_line E line v of None \<Rightarrow> None | Some v \<Rightarrow> read_file E lines v)"

section \<open>Words and numbers\<close>

definition is_word :: "string \<Rightarrow> bool" where
  "is_word w = (w \<noteq> [] \<and> CHR '' '' \<notin> set w)"

lemma words_last: "CHR '' '' \<notin> set x \<Longrightarrow> w @ x \<noteq> [] \<Longrightarrow> words_from w x = [rev w @ x]"
  by (induction x arbitrary: w) auto

lemma words_from_words: "CHR '' '' \<notin> set acc \<Longrightarrow> \<forall>w \<in> set (words_from acc line). is_word w"
proof (induction line arbitrary: acc)
  case (Cons c cs)
  then show ?case using Cons.IH [of "[]"] Cons.IH [of "c # acc"] by (auto simp: is_word_def)
qed (simp add: is_word_def)

lemma scan_digits_all: "list_all is_digit w \<Longrightarrow> scan_digits acc w = (digits_val acc w, [])"
  using scan_digits_append [of w "[]" acc] by (simp add: list_all_iff)

lemma digits_atoi:
  assumes "w \<noteq> []" and "list_all is_digit w" and "digits_val 0 w < 2147483648"
  shows "c_atoi w = int (digits_val 0 w)"
proof -
  have d: "is_digit (hd w)" using assms(1,2) by (cases w) simp_all
  then have "scan_number w = Some (False, digits_val 0 w, [])"
    using assms(1,2) digit_not_space [OF d] by (cases w) (auto simp: scan_number_def scan_digits_all digits_val_def Let_def)
  then show ?thesis using assms(3) by (simp add: c_atoi_def scan_d_def s32_id)
qed

lemma range_word_atoi:
  assumes "range_word lo hi w" and "hi < 2147483648"
  shows "u32 (c_atoi w) = c_atoi w" and "int lo \<le> c_atoi w" and "c_atoi w \<le> int hi"
  using assms digits_atoi [of w] by (auto simp: range_word_def scan_digits_all u32_id)

lemma range_word_print:
  assumes "int lo \<le> n" and "n \<le> int hi"
  shows "range_word lo hi (print_d n)"
proof -
  have "0 \<le> n" using assms(1) by simp
  then have p: "print_d n = dec (nat n)" by (simp add: print_d_def)
  have "list_all is_digit (dec (nat n))" using dec_digits by (simp add: list_all_iff)
  then show ?thesis using assms unfolding range_word_def p by (simp add: scan_digits_all dec_val) linarith
qed

lemma atoi_print: "0 \<le> n \<Longrightarrow> n < 2147483648 \<Longrightarrow> c_atoi (print_d n) = n"
  using digits_atoi [of "dec (nat n)"] dec_digits [of "nat n"] by (simp add: print_d_def dec_val list_all_iff)

lemma print_word: "is_word (print_d n)"
proof -
  have "CHR '' '' \<notin> set (print_d n)"
    using print_chars [of "CHR '' ''" n] digit_not_space [of "CHR '' ''"] by auto
  then show ?thesis by (simp add: is_word_def print_d_def)
qed

section \<open>Each line is read back\<close>

lemma leave_nodes_trx: "vt_node v = TRX_NODE \<Longrightarrow> leave_nodes 2 (Suc 0) v = v"
  by (simp add: numeral_2_eq_2 node_depth_def)

lemma run_matching:
  assumes "vty_documented ipv4 E"
  shows "run_command E ((node, ts, f) # cmds) line v =
    (if node = vt_node v then
       case words_match ipv4 ts (words_from [] line) of
         Some argv \<Rightarrow> (case f argv v of (CMD_SUCCESS, v) \<Rightarrow> Some v | (CMD_WARNING, v) \<Rightarrow> None)
       | None \<Rightarrow> run_command E cmds line v
     else run_command E cmds line v)"
  using assms by (simp add: vty_documented_def)

declare run_command.simps(2) [simp del]

lemmas line_simps = read_line_def trx_vty_init_def line_indent_def leave_nodes_trx words_last upd_cfg_def Let_def

lemma read_ip:
  assumes "vty_documented ipv4 E" and "vt_node v = TRX_NODE" and "ipv4 x" and "is_word x"
  shows "read_line E ('' bind-ip '' @ x) v = Some (v\<lparr>vt_cfg := (vt_cfg v)\<lparr>cf_bind_addr := Some x\<rparr>\<rparr>)"
    and "read_line E ('' remote-ip '' @ x) v = Some (v\<lparr>vt_cfg := (vt_cfg v)\<lparr>cf_remote_addr := Some x\<rparr>\<rparr>)"
  using assms by (simp_all add: line_simps run_matching [OF assms(1)] is_word_def cfg_bind_ip_def cfg_remote_ip_def)

lemma read_word:
  assumes "vty_documented ipv4 E" and "vt_node v = TRX_NODE" and "is_word x"
  shows "read_line E ('' dev-args '' @ x) v = Some (v\<lparr>vt_cfg := (vt_cfg v)\<lparr>cf_dev_args := Some x\<rparr>\<rparr>)"
    and "read_line E ('' offset '' @ x) v = Some (v\<lparr>vt_cfg := (vt_cfg v)\<lparr>cf_offset := vl_atof E x\<rparr>\<rparr>)"
    and "read_line E ('' rssi-offset '' @ x) v = Some (v\<lparr>vt_cfg := (vt_cfg v)\<lparr>cf_rssi_offset := vl_atof E x\<rparr>\<rparr>)"
  using assms
  by (simp_all add: line_simps run_matching [OF assms(1)] is_word_def cfg_dev_args_def cfg_offset_def cfg_rssi_offset_def)

lemma read_number:
  assumes "vty_documented ipv4 E" and "vt_node v = TRX_NODE"
  shows "1 \<le> n \<Longrightarrow> n \<le> 65535 \<Longrightarrow>
      read_line E ('' base-port '' @ print_d n) v = Some (v\<lparr>vt_cfg := (vt_cfg v)\<lparr>cf_base_port := n\<rparr>\<rparr>)"
    and "1 \<le> n \<Longrightarrow> n \<le> 32 \<Longrightarrow>
      read_line E ('' rt-prio '' @ print_d n) v = Some (v\<lparr>vt_cfg := (vt_cfg v)\<lparr>cf_sched_rr := n\<rparr>\<rparr>)"
  using assms print_word [of n] range_word_print [of 1 n 65535] range_word_print [of 1 n 32]
  by (simp_all add: line_simps run_matching [OF assms(1)] is_word_def cfg_base_port_def cfg_rt_prio_def atoi_print u32_id)

lemma read_sps:
  assumes "vty_documented ipv4 E" and "vt_node v = TRX_NODE" and "n = 1 \<or> n = 4"
  shows "read_line E ('' tx-sps '' @ print_d n) v = Some (v\<lparr>vt_cfg := (vt_cfg v)\<lparr>cf_tx_sps := n\<rparr>\<rparr>)"
    and "read_line E ('' rx-sps '' @ print_d n) v = Some (v\<lparr>vt_cfg := (vt_cfg v)\<lparr>cf_rx_sps := n\<rparr>\<rparr>)"
proof -
  have "print_d 1 = ''1''" "print_d 4 = ''4''" by (simp_all add: print_d_def dec.simps char_of_def bit_0)
  then have d: "print_d n = ''1'' \<or> print_d n = ''4''" using assms(3) by auto
  have a: "c_atoi (print_d n) = n" "u32 n = n" using assms(3) by (auto intro: atoi_print u32_id)
  obtain p where p: "p = print_d n" by simp
  show "read_line E ('' tx-sps '' @ print_d n) v = Some (v\<lparr>vt_cfg := (vt_cfg v)\<lparr>cf_tx_sps := n\<rparr>\<rparr>)"
    "read_line E ('' rx-sps '' @ print_d n) v = Some (v\<lparr>vt_cfg := (vt_cfg v)\<lparr>cf_rx_sps := n\<rparr>\<rparr>)"
    using assms(2) print_word [of n] d a unfolding p [symmetric]
    by (simp_all add: line_simps run_matching [OF assms(1)] is_word_def cfg_tx_sps_def cfg_rx_sps_def)
qed

lemma read_test:
  assumes "vty_documented ipv4 E" and "vt_node v = TRX_NODE" and "\<not> cf_egprs (vt_cfg v)"
  shows "0 \<le> n \<Longrightarrow> n \<le> 7 \<Longrightarrow> \<not> cf_rach_delay_set (vt_cfg v) \<Longrightarrow>
      read_line E ('' test rtsc '' @ print_d n) v =
      Some (v\<lparr>vt_cfg := (vt_cfg v)\<lparr>cf_rtsc_set := True, cf_rtsc := n, cf_filler := FILLER_NORM_RAND\<rparr>\<rparr>)"
    and "0 \<le> n \<Longrightarrow> n \<le> 68 \<Longrightarrow> \<not> cf_rtsc_set (vt_cfg v) \<Longrightarrow>
      read_line E ('' test rach-delay '' @ print_d n) v =
      Some (v\<lparr>vt_cfg := (vt_cfg v)\<lparr>cf_rach_delay_set := True, cf_rach_delay := n, cf_filler := FILLER_ACCESS_RAND\<rparr>\<rparr>)"
  using assms print_word [of n] range_word_print [of 0 n 7] range_word_print [of 0 n 68]
  by (simp_all add: line_simps run_matching [OF assms(1)] is_word_def cfg_test_rtsc_def cfg_test_rach_delay_def atoi_print u32_id)

lemma read_switch:
  assumes "vty_documented ipv4 E" and "vt_node v = TRX_NODE"
  shows "read_line E ('' multi-arfcn '' @ enable_name b) v = Some (v\<lparr>vt_cfg := (vt_cfg v)\<lparr>cf_multi_arfcn := b\<rparr>\<rparr>)"
    and "read_line E ('' swap-channels '' @ enable_name b) v = Some (v\<lparr>vt_cfg := (vt_cfg v)\<lparr>cf_swap_channels := b\<rparr>\<rparr>)"
    and "read_line E ('' ext-rach '' @ enable_name b) v = Some (v\<lparr>vt_cfg := (vt_cfg v)\<lparr>cf_ext_rach := b\<rparr>\<rparr>)"
    and "read_line E ('' egprs '' @ enable_name b) v =
      Some (v\<lparr>vt_cfg := (vt_cfg v)\<lparr>cf_egprs := b, cf_filler := (if b then FILLER_EDGE_RAND else cf_filler (vt_cfg v))\<rparr>\<rparr>)"
  using assms
  by (cases b; simp add: line_simps run_matching [OF assms(1)] enable_name_def cfg_multi_arfcn_def cfg_swap_channels_def
      cfg_ext_rach_def cfg_egprs_def)+

lemma read_clock_ref:
  assumes "vty_documented ipv4 E" and "vt_node v = TRX_NODE" and "r \<in> {REF_INTERNAL, REF_EXTERNAL, REF_GPS}"
  shows "read_line E ('' clock-ref '' @ clock_ref_name E r) v = Some (v\<lparr>vt_cfg := (vt_cfg v)\<lparr>cf_clock_ref := r\<rparr>\<rparr>)"
  using assms
  by (auto simp: line_simps run_matching [OF assms(1)] clock_ref_name_def clock_ref_names_def cfg_clock_ref_def clock_ref_value_def)

lemma leave_nodes_chan:
  "vt_node v = CHAN_NODE \<Longrightarrow> leave_nodes 2 (Suc (Suc 0)) v = v"
  "vt_node v = CHAN_NODE \<Longrightarrow> leave_nodes 2 (Suc 0) v = v\<lparr>vt_node := TRX_NODE, vt_index := None\<rparr>"
  by (simp_all add: numeral_2_eq_2 node_depth_def trx_vty_go_parent_def)

lemma read_trx:
  assumes "vty_documented ipv4 E" and "vt_node v = CONFIG_NODE"
  shows "read_line E ''trx'' v = Some (v\<lparr>vt_node := TRX_NODE\<rparr>)"
proof -
  have "leave_nodes 2 0 v = v" using assms(2) by (simp add: numeral_2_eq_2 node_depth_def)
  then show ?thesis using assms by (simp add: line_simps run_matching [OF assms(1)] cfg_trx_def)
qed

lemma read_chan_line:
  assumes "vty_documented ipv4 E" and "vt_node v = TRX_NODE \<or> vt_node v = CHAN_NODE" and "cf_num_chans (vt_cfg v) = i" and "i < 8"
  shows "read_line E ('' chan '' @ print_d (int i)) v =
    Some (v\<lparr>vt_cfg := (vt_cfg v)\<lparr>cf_num_chans := i + 1,
        cf_chans := (cf_chans (vt_cfg v))[i := (cf_chans (vt_cfg v) ! i)\<lparr>tc_idx := int i\<rparr>]\<rparr>,
      vt_node := CHAN_NODE, vt_index := Some i\<rparr>)"
proof -
  obtain p where p: "p = print_d (int i)" by simp
  have a: "c_atoi p = int i" "u32 (int i) = int i" using assms(4) by (simp_all add: p atoi_print u32_id)
  have r: "range_word 0 100 p" "is_word p" using assms(4) print_word by (simp_all add: p range_word_print)
  show ?thesis
    using assms(2-4) a r unfolding p [symmetric]
    by (elim disjE) (simp_all add: line_simps leave_nodes_chan run_matching [OF assms(1)] is_word_def cfg_chan_def TRX_CHAN_MAX_def)
qed

lemma read_path:
  assumes "vty_documented ipv4 E" and "vt_node v = CHAN_NODE" and "vt_index v = Some i" and "is_word x"
  shows "read_line E (''  rx-path '' @ x) v =
      Some (v\<lparr>vt_cfg := (vt_cfg v)\<lparr>cf_chans := (cf_chans (vt_cfg v))[i := (cf_chans (vt_cfg v) ! i)\<lparr>tc_rx_path := Some x\<rparr>]\<rparr>\<rparr>)"
    and "read_line E (''  tx-path '' @ x) v =
      Some (v\<lparr>vt_cfg := (vt_cfg v)\<lparr>cf_chans := (cf_chans (vt_cfg v))[i := (cf_chans (vt_cfg v) ! i)\<lparr>tc_tx_path := Some x\<rparr>]\<rparr>\<rparr>)"
  using assms
  by (simp_all add: line_simps leave_nodes_chan run_matching [OF assms(1)] is_word_def cfg_chan_rx_path_def cfg_chan_tx_path_def)

section \<open>What the commands keep\<close>

text \<open>The words of a configuration, its numbers in their ranges, the options that exclude each other, and the channels.\<close>

definition opt_word :: "string option \<Rightarrow> bool" where
  "opt_word s = (case s of None \<Rightarrow> True | Some w \<Rightarrow> is_word w)"

definition chan_ok :: "nat \<Rightarrow> trx_chan \<Rightarrow> bool" where
  "chan_ok i chan = (tc_idx chan = int i \<and> opt_word (tc_rx_path chan) \<and> opt_word (tc_tx_path chan))"

definition chans_ok :: "nat \<Rightarrow> trx_chan list \<Rightarrow> bool" where
  "chans_ok n chans = (n \<le> 8 \<and> length chans = 8 \<and>
    (\<forall>i < 8. if i < n then chan_ok i (chans ! i) else chans ! i = chan_zero))"

lemma chans_ok_add:
  assumes "chans_ok n chans" and "n < 8"
  shows "chans_ok (n + 1) (chans[n := (chans ! n)\<lparr>tc_idx := int n\<rparr>])"
proof -
  have "chans ! n = chan_zero" using assms by (simp add: chans_ok_def)
  then have "chan_ok n ((chans ! n)\<lparr>tc_idx := int n\<rparr>)" by (simp add: chan_ok_def chan_zero_def opt_word_def)
  then show ?thesis using assms by (auto simp: chans_ok_def nth_list_update_if less_Suc_eq)
qed

lemma chans_ok_upd:
  assumes "chans_ok n chans" and "i < n" and "is_word w"
  shows "chans_ok n (chans[i := (chans ! i)\<lparr>tc_rx_path := Some w\<rparr>])"
    and "chans_ok n (chans[i := (chans ! i)\<lparr>tc_tx_path := Some w\<rparr>])"
proof -
  have "chan_ok i (chans ! i)" using assms(1,2) by (simp add: chans_ok_def)
  then have "chan_ok i ((chans ! i)\<lparr>tc_rx_path := Some w\<rparr>)" "chan_ok i ((chans ! i)\<lparr>tc_tx_path := Some w\<rparr>)"
    using assms(3) by (simp_all add: chan_ok_def opt_word_def)
  then show "chans_ok n (chans[i := (chans ! i)\<lparr>tc_rx_path := Some w\<rparr>])"
    "chans_ok n (chans[i := (chans ! i)\<lparr>tc_tx_path := Some w\<rparr>])"
    using assms(1,2) by (auto simp: chans_ok_def nth_list_update_if)
qed

definition cfg_ok :: "(string \<Rightarrow> bool) \<Rightarrow> trx_cfg \<Rightarrow> bool" where
  "cfg_ok ipv4 c =
    ((\<exists>a. cf_bind_addr c = Some a \<and> ipv4 a \<and> is_word a) \<and> (\<exists>a. cf_remote_addr c = Some a \<and> ipv4 a \<and> is_word a) \<and>
     opt_word (cf_dev_args c) \<and> 1 \<le> cf_base_port c \<and> cf_base_port c \<le> 65535 \<and>
     cf_tx_sps c \<in> {1, 4} \<and> cf_rx_sps c \<in> {1, 4} \<and> 0 \<le> cf_rtsc c \<and> cf_rtsc c \<le> 7 \<and>
     (\<not> cf_rtsc_set c \<longrightarrow> cf_rtsc c = 0) \<and> 0 \<le> cf_rach_delay c \<and> cf_rach_delay c \<le> 68 \<and>
     (\<not> cf_rach_delay_set c \<longrightarrow> cf_rach_delay c = 0) \<and> \<not> (cf_rtsc_set c \<and> cf_rach_delay_set c) \<and>
     cf_clock_ref c \<in> {REF_INTERNAL, REF_EXTERNAL, REF_GPS} \<and> 0 \<le> cf_sched_rr c \<and> cf_sched_rr c \<le> 32 \<and>
     chans_ok (cf_num_chans c) (cf_chans c))"

definition vty_ok :: "(string \<Rightarrow> bool) \<Rightarrow> vty \<Rightarrow> bool" where
  "vty_ok ipv4 v = (cfg_ok ipv4 (vt_cfg v) \<and>
    (vt_node v = CHAN_NODE \<longrightarrow> (\<exists>i. vt_index v = Some i \<and> i < cf_num_chans (vt_cfg v))))"

definition vty_start :: vty where
  "vty_start = \<lparr>vt_node = CONFIG_NODE, vt_index = None, vt_cfg = vty_trx_ctx_alloc, vt_out = []\<rparr>"

lemma vty_start_ok: "ipv4 DEFAULT_TRX_IP \<Longrightarrow> vty_ok ipv4 vty_start"
  by (simp add: vty_ok_def vty_start_def cfg_ok_def chans_ok_def vty_trx_ctx_alloc_def opt_word_def is_word_def DEFAULT_TRX_IP_def
      DEFAULT_TRX_PORT_def DEFAULT_TX_SPS_def DEFAULT_RX_SPS_def TRX_CHAN_MAX_def)

lemma go_parent_ok: "vty_ok ipv4 v \<Longrightarrow> vty_ok ipv4 (trx_vty_go_parent v)"
  by (cases "vt_node v") (simp_all add: vty_ok_def trx_vty_go_parent_def)

lemma leave_nodes_ok: "vty_ok ipv4 v \<Longrightarrow> vty_ok ipv4 (leave_nodes n depth v)"
  by (induction n depth v rule: leave_nodes.induct) (simp_all add: go_parent_ok)

text \<open>A command with one argument.\<close>

definition word_ok :: "(string \<Rightarrow> bool) \<Rightarrow> cmd_word \<Rightarrow> string \<Rightarrow> bool" where
  "word_ok ipv4 t w =
    (case t of Lit s \<Rightarrow> w = s | Range lo hi \<Rightarrow> range_word lo hi w | Alt ss \<Rightarrow> w \<in> set ss | Ipv4 \<Rightarrow> ipv4 w | Var \<Rightarrow> True)"

lemma words_match_args:
  "words_match ipv4 ts ws = Some argv \<Longrightarrow>
    set argv \<subseteq> set ws \<and> list_all2 (word_ok ipv4) (filter (\<lambda>t. \<not> (\<exists>s. t = Lit s)) ts) argv"
proof (induction ts arbitrary: ws argv)
  case Nil
  then show ?case by (cases ws) simp_all
next
  case (Cons t ts)
  obtain w ws' where ws: "ws = w # ws'" using Cons.prems by (cases ws) simp_all
  show ?case
  proof (cases "\<exists>s. t = Lit s")
    case True
    then show ?thesis using Cons.prems Cons.IH [of ws'] by (auto simp: ws split: if_splits)
  next
    case False
    then obtain as where m: "words_match ipv4 ts ws' = Some as" "argv = w # as" "word_ok ipv4 t w"
      using Cons.prems by (cases t) (auto simp: ws word_ok_def split: if_splits)
    then show ?thesis using False Cons.IH [OF m(1)] by (auto simp: ws)
  qed
qed

lemma one_arg:
  assumes "words_match ipv4 ts ws = Some argv" and "filter (\<lambda>t. \<not> (\<exists>s. t = Lit s)) ts = [t]" and "\<forall>w \<in> set ws. is_word w"
  shows "\<exists>w. argv = [w] \<and> is_word w \<and> word_ok ipv4 t w"
proof -
  have "set argv \<subseteq> set ws" "list_all2 (word_ok ipv4) [t] argv"
    using words_match_args [OF assms(1)] unfolding assms(2) by simp_all
  then show ?thesis using assms(3) by (auto simp: list_all2_Cons1)
qed

lemma cfg_chan_ok:
  assumes "vty_ok ipv4 v" and "range_word 0 100 w" and "cfg_chan [w] v = (CMD_SUCCESS, v')"
  shows "vty_ok ipv4 v'"
proof -
  define idx where "idx = c_atoi w"
  have i: "0 \<le> idx" "idx < 8" "u32 idx = idx"
    using range_word_atoi [OF assms(2)] assms(3) by (auto simp: idx_def cfg_chan_def TRX_CHAN_MAX_def Let_def split: if_splits)
  let ?c = "vt_cfg v" and ?i = "nat idx"
  have n: "?i \<le> cf_num_chans ?c"
    and v': "v' = v\<lparr>vt_cfg := if cf_num_chans ?c = ?i then ?c\<lparr>cf_num_chans := cf_num_chans ?c + 1,
      cf_chans := (cf_chans ?c)[?i := (cf_chans ?c ! ?i)\<lparr>tc_idx := idx\<rparr>]\<rparr> else ?c, vt_node := CHAN_NODE, vt_index := Some ?i\<rparr>"
    using assms(3) i by (auto simp: idx_def [symmetric] cfg_chan_def TRX_CHAN_MAX_def Let_def split: if_splits)
  have ok: "cfg_ok ipv4 ?c" using assms(1) by (simp add: vty_ok_def)
  show ?thesis
  proof (cases "cf_num_chans ?c = ?i")
    case True
    then have "chans_ok (?i + 1) ((cf_chans ?c)[?i := (cf_chans ?c ! ?i)\<lparr>tc_idx := idx\<rparr>])"
      using chans_ok_add [of ?i "cf_chans ?c"] ok i by (simp add: cfg_ok_def)
    then have "cfg_ok ipv4 (?c\<lparr>cf_num_chans := cf_num_chans ?c + 1,
        cf_chans := (cf_chans ?c)[?i := (cf_chans ?c ! ?i)\<lparr>tc_idx := idx\<rparr>]\<rparr>)"
      using ok True unfolding cfg_ok_def by simp
    then show ?thesis using True by (simp add: vty_ok_def v')
  next
    case False
    then show ?thesis using ok n by (auto simp: vty_ok_def v')
  qed
qed

lemma upd_cfg_ok:
  assumes "vty_ok ipv4 v" and "upd_cfg f v = (CMD_SUCCESS, v')" and "cfg_ok ipv4 (f (vt_cfg v))"
    and "cf_num_chans (f (vt_cfg v)) = cf_num_chans (vt_cfg v)"
  shows "vty_ok ipv4 v'"
  using assms by (auto simp: vty_ok_def upd_cfg_def)

lemma cfg_path_ok:
  assumes "vty_ok ipv4 v" and "vt_node v = CHAN_NODE" and "is_word w"
    and "cfg_chan_rx_path [w] v = (CMD_SUCCESS, v') \<or> cfg_chan_tx_path [w] v = (CMD_SUCCESS, v')"
  shows "vty_ok ipv4 v'"
proof -
  obtain i where i: "vt_index v = Some i" "i < cf_num_chans (vt_cfg v)" and ok: "cfg_ok ipv4 (vt_cfg v)"
    using assms(1,2) by (auto simp: vty_ok_def)
  have "cfg_ok ipv4 ((vt_cfg v)\<lparr>cf_chans := (cf_chans (vt_cfg v))[i := (cf_chans (vt_cfg v) ! i)\<lparr>tc_rx_path := Some w\<rparr>]\<rparr>)"
    "cfg_ok ipv4 ((vt_cfg v)\<lparr>cf_chans := (cf_chans (vt_cfg v))[i := (cf_chans (vt_cfg v) ! i)\<lparr>tc_tx_path := Some w\<rparr>]\<rparr>)"
    using ok chans_ok_upd [OF _ i(2) assms(3)] by (simp_all add: cfg_ok_def)
  then show ?thesis
    using assms(4) i by (auto simp: cfg_chan_rx_path_def cfg_chan_tx_path_def upd_cfg_def vty_ok_def Let_def)
qed

text \<open>Each command keeps the invariant when its words match.\<close>

lemmas cmd_defs = cfg_bind_ip_def cfg_remote_ip_def cfg_base_port_def cfg_dev_args_def cfg_tx_sps_def cfg_rx_sps_def
  cfg_test_rtsc_def cfg_test_rach_delay_def cfg_clock_ref_def cfg_multi_arfcn_def cfg_offset_def cfg_rssi_offset_def
  cfg_swap_channels_def cfg_egprs_def cfg_ext_rach_def cfg_rt_prio_def cfg_filler_def

lemma atoi_1_4: "w \<in> {''1'', ''4''} \<Longrightarrow> u32 (c_atoi w) \<in> {1, 4}"
  by (auto simp: c_atoi_def scan_d_def scan_number_def is_space_def is_digit_def digit_val_def s32_def u32_def)

lemma cfg_ok_upd:
  assumes "cfg_ok ipv4 c"
  shows "ipv4 w \<Longrightarrow> is_word w \<Longrightarrow> cfg_ok ipv4 (c\<lparr>cf_bind_addr := Some w\<rparr>)"
    and "ipv4 w \<Longrightarrow> is_word w \<Longrightarrow> cfg_ok ipv4 (c\<lparr>cf_remote_addr := Some w\<rparr>)"
    and "is_word w \<Longrightarrow> cfg_ok ipv4 (c\<lparr>cf_dev_args := Some w\<rparr>)"
    and "1 \<le> n \<Longrightarrow> n \<le> 65535 \<Longrightarrow> cfg_ok ipv4 (c\<lparr>cf_base_port := n\<rparr>)"
    and "n \<in> {1, 4} \<Longrightarrow> cfg_ok ipv4 (c\<lparr>cf_tx_sps := n\<rparr>)" and "n \<in> {1, 4} \<Longrightarrow> cfg_ok ipv4 (c\<lparr>cf_rx_sps := n\<rparr>)"
    and "0 \<le> n \<Longrightarrow> n \<le> 7 \<Longrightarrow> \<not> cf_rach_delay_set c \<Longrightarrow> cfg_ok ipv4 (c\<lparr>cf_rtsc_set := True, cf_rtsc := n\<rparr>)"
    and "0 \<le> n \<Longrightarrow> n \<le> 68 \<Longrightarrow> \<not> cf_rtsc_set c \<Longrightarrow> cfg_ok ipv4 (c\<lparr>cf_rach_delay_set := True, cf_rach_delay := n\<rparr>)"
    and "r \<in> {REF_INTERNAL, REF_EXTERNAL, REF_GPS} \<Longrightarrow> cfg_ok ipv4 (c\<lparr>cf_clock_ref := r\<rparr>)"
    and "0 \<le> n \<Longrightarrow> n \<le> 32 \<Longrightarrow> cfg_ok ipv4 (c\<lparr>cf_sched_rr := n\<rparr>)"
    and "cfg_ok ipv4 (c\<lparr>cf_filler := fl\<rparr>)" and "cfg_ok ipv4 (c\<lparr>cf_multi_arfcn := b\<rparr>)" and "cfg_ok ipv4 (c\<lparr>cf_offset := x\<rparr>)"
    and "cfg_ok ipv4 (c\<lparr>cf_rssi_offset := x\<rparr>)" and "cfg_ok ipv4 (c\<lparr>cf_swap_channels := b\<rparr>)"
    and "cfg_ok ipv4 (c\<lparr>cf_egprs := b\<rparr>)" and "cfg_ok ipv4 (c\<lparr>cf_ext_rach := b\<rparr>)"
  using assms by (simp_all add: cfg_ok_def opt_word_def)

lemma command_ok:
  assumes "(node, ts, f) \<in> set (trx_vty_init E)" and "words_match ipv4 ts ws = Some argv" and "\<forall>w \<in> set ws. is_word w"
    and "vty_ok ipv4 v" and "node = vt_node v" and "f argv v = (CMD_SUCCESS, v')"
  shows "vty_ok ipv4 v'"
proof -
  note arg = one_arg [OF assms(2) _ assms(3)]
  have c: "cfg_ok ipv4 (vt_cfg v)" using assms(4) by (simp add: vty_ok_def)
  consider "f = cfg_trx" | "f = cfg_filler"
    | w where "argv = [w]" "is_word w" "ipv4 w" "f \<in> {cfg_bind_ip, cfg_remote_ip}"
    | w where "argv = [w]" "is_word w" "f \<in> {cfg_dev_args, cfg_offset E, cfg_rssi_offset E}"
    | w where "argv = [w]" "range_word 1 65535 w" "f = cfg_base_port" | w where "argv = [w]" "range_word 1 32 w" "f = cfg_rt_prio"
    | w where "argv = [w]" "w \<in> {''1'', ''4''}" "f \<in> {cfg_tx_sps, cfg_rx_sps}"
    | w where "argv = [w]" "range_word 0 7 w" "f = cfg_test_rtsc" | w where "argv = [w]" "range_word 0 68 w" "f = cfg_test_rach_delay"
    | w where "argv = [w]" "w \<in> {''internal'', ''external'', ''gpsdo''}" "f = cfg_clock_ref"
    | w where "argv = [w]" "f \<in> {cfg_multi_arfcn, cfg_swap_channels, cfg_egprs, cfg_ext_rach}"
    | w where "argv = [w]" "range_word 0 100 w" "f = cfg_chan"
    | w where "argv = [w]" "is_word w" "f \<in> {cfg_chan_rx_path, cfg_chan_tx_path}" "vt_node v = CHAN_NODE"
    using assms(1) arg assms(5) unfolding trx_vty_init_def by (auto simp: word_ok_def)
  then show ?thesis
  proof cases
    case 1
    then show ?thesis using assms(4,6) by (auto simp: vty_ok_def cfg_trx_def)
  next
    case 12
    then show ?thesis using cfg_chan_ok assms(4,6) by blast
  next
    case 13
    then show ?thesis using cfg_path_ok assms(4,6) by blast
  next
    case (5 w)
    then show ?thesis using upd_cfg_ok [OF assms(4)] assms(6) cfg_ok_upd(4) [OF c] range_word_atoi [OF 5(2)] by (simp add: cmd_defs)
  next
    case (6 w)
    then show ?thesis using upd_cfg_ok [OF assms(4)] assms(6) cfg_ok_upd(10) [OF c] range_word_atoi [OF 6(2)] by (simp add: cmd_defs)
  next
    case (7 w)
    then show ?thesis using upd_cfg_ok [OF assms(4)] assms(6) cfg_ok_upd(5,6) [OF c atoi_1_4 [OF 7(2)]] by (auto simp: cmd_defs)
  next
    case (8 w)
    then show ?thesis
      using upd_cfg_ok [OF assms(4)] assms(6) cfg_ok_upd(11) [OF cfg_ok_upd(7) [OF c]] cfg_ok_upd(7) [OF c] range_word_atoi [OF 8(2)]
      by (auto simp: cmd_defs Let_def split: if_splits)
  next
    case (9 w)
    then show ?thesis
      using upd_cfg_ok [OF assms(4)] assms(6) cfg_ok_upd(11) [OF cfg_ok_upd(8) [OF c]] range_word_atoi [OF 9(2)]
      by (auto simp: cmd_defs split: if_splits)
  next
    case (10 w)
    have "clock_ref_value w \<in> {REF_INTERNAL, REF_EXTERNAL, REF_GPS}"
      using 10(2) by (auto simp: clock_ref_value_def clock_ref_names_def)
    then show ?thesis using 10 upd_cfg_ok [OF assms(4)] assms(6) cfg_ok_upd(9) [OF c] by (simp add: cmd_defs)
  next
    case (11 w)
    then show ?thesis
      using upd_cfg_ok [OF assms(4)] assms(6) cfg_ok_upd(11) [OF cfg_ok_upd(16) [OF c]] cfg_ok_upd(12,15,16,17) [OF c] c
      by (auto simp: cmd_defs Let_def split: if_splits)
  qed (use upd_cfg_ok [OF assms(4)] assms(6) cfg_ok_upd(1-3,11,13,14) [OF c] in \<open>auto simp: cmd_defs\<close>)
qed

lemma run_command_ok:
  assumes "vty_documented ipv4 E" and "set cmds \<subseteq> set (trx_vty_init E)" and "vty_ok ipv4 v" and "run_command E cmds line v = Some v'"
  shows "vty_ok ipv4 v'"
  using assms(2,4)
proof (induction cmds)
  case (Cons cmd cmds)
  obtain node ts f where cmd: "cmd = (node, ts, f)" by (rule prod_cases3)
  note r = Cons.prems(2) [unfolded cmd run_matching [OF assms(1)]]
  have w: "\<forall>w \<in> set (words_from [] line). is_word w" by (rule words_from_words) simp
  show ?case
  proof (cases "node = vt_node v \<and> words_match ipv4 ts (words_from [] line) \<noteq> None")
    case True
    then obtain argv where m: "node = vt_node v" "words_match ipv4 ts (words_from [] line) = Some argv" by blast
    then have "f argv v = (CMD_SUCCESS, v')" using r by (simp split: prod.splits cmd_result.splits)
    then show ?thesis using command_ok [OF _ m(2) w assms(3) m(1)] Cons.prems(1) cmd by auto
  next
    case False
    then have "run_command E cmds line v = Some v'" using r by (auto split: if_splits option.splits)
    then show ?thesis using Cons by simp
  qed
qed simp

lemma read_file_ok:
  assumes "vty_documented ipv4 E" and "vty_ok ipv4 v" and "read_file E lines v = Some v'"
  shows "vty_ok ipv4 v'"
  using assms(2,3)
proof (induction lines arbitrary: v)
  case (Cons line lines)
  obtain v1 where v1: "read_line E line v = Some v1" "read_file E lines v1 = Some v'"
    using Cons.prems(2) by (auto split: option.splits)
  have "vty_ok ipv4 v1"
    using run_command_ok [OF assms(1) order_refl leave_nodes_ok [OF Cons.prems(1)]] v1(1) unfolding read_line_def by blast
  then show ?case using Cons.IH v1(2) by blast
qed simp

section \<open>The file that is written is read back\<close>

lemma read_file_append:
  "read_file E (xs @ ys) v = (case read_file E xs v of None \<Rightarrow> None | Some v \<Rightarrow> read_file E ys v)"
  by (induction xs arbitrary: v) (simp_all split: option.split)

lemma read_file_1: "read_line E line v = Some v' \<Longrightarrow> read_file E [line] v = Some v'"
  by simp

text \<open>The lines of one option, absent when the option has its default.\<close>

lemma cfg_same: "v\<lparr>vt_cfg := vt_cfg v\<rparr> = v"
  by simp

lemma read_ip_lines:
  assumes "vty_documented ipv4 E" and "vt_node v = TRX_NODE" and "\<exists>a. x = Some a \<and> ipv4 a \<and> is_word a"
  shows "read_file E (opt_line '' bind-ip '' x) v = Some (v\<lparr>vt_cfg := (vt_cfg v)\<lparr>cf_bind_addr := x\<rparr>\<rparr>)"
    and "read_file E (opt_line '' remote-ip '' x) v = Some (v\<lparr>vt_cfg := (vt_cfg v)\<lparr>cf_remote_addr := x\<rparr>\<rparr>)"
  using assms(3) read_ip [OF assms(1,2)] unfolding opt_line_def by (auto intro!: read_file_1)

lemma read_dev_args_lines:
  assumes "vty_documented ipv4 E" and "vt_node v = TRX_NODE" and "opt_word x" and "cf_dev_args (vt_cfg v) = None"
  shows "read_file E (opt_line '' dev-args '' x) v = Some (v\<lparr>vt_cfg := (vt_cfg v)\<lparr>cf_dev_args := x\<rparr>\<rparr>)"
proof (cases x)
  case None
  then have "(vt_cfg v)\<lparr>cf_dev_args := x\<rparr> = vt_cfg v" using assms(4) by simp
  then show ?thesis using None by (simp add: opt_line_def)
next
  case (Some w)
  then show ?thesis using read_word(1) [OF assms(1,2)] assms(3) by (simp add: opt_line_def opt_word_def)
qed

lemma read_num_lines:
  assumes "vty_documented ipv4 E" and "vt_node v = TRX_NODE"
  shows "1 \<le> n \<Longrightarrow> n \<le> 65535 \<Longrightarrow> cf_base_port (vt_cfg v) = DEFAULT_TRX_PORT \<Longrightarrow>
      read_file E (if n \<noteq> DEFAULT_TRX_PORT then ['' base-port '' @ print_d n] else []) v =
      Some (v\<lparr>vt_cfg := (vt_cfg v)\<lparr>cf_base_port := n\<rparr>\<rparr>)"
    and "n \<in> {1, 4} \<Longrightarrow> cf_tx_sps (vt_cfg v) = DEFAULT_TX_SPS \<Longrightarrow>
      read_file E (if n \<noteq> DEFAULT_TX_SPS then ['' tx-sps '' @ print_d n] else []) v =
      Some (v\<lparr>vt_cfg := (vt_cfg v)\<lparr>cf_tx_sps := n\<rparr>\<rparr>)"
    and "n \<in> {1, 4} \<Longrightarrow> cf_rx_sps (vt_cfg v) = DEFAULT_RX_SPS \<Longrightarrow>
      read_file E (if n \<noteq> DEFAULT_RX_SPS then ['' rx-sps '' @ print_d n] else []) v =
      Some (v\<lparr>vt_cfg := (vt_cfg v)\<lparr>cf_rx_sps := n\<rparr>\<rparr>)"
    and "0 \<le> n \<Longrightarrow> n \<le> 32 \<Longrightarrow> cf_sched_rr (vt_cfg v) = 0 \<Longrightarrow>
      read_file E (if n \<noteq> 0 then ['' rt-prio '' @ print_d n] else []) v = Some (v\<lparr>vt_cfg := (vt_cfg v)\<lparr>cf_sched_rr := n\<rparr>\<rparr>)"
  using read_number [OF assms, of n] read_sps [OF assms, of n] by (auto simp del: append.simps)

lemma read_test_lines:
  assumes "vty_documented ipv4 E" and "vt_node v = TRX_NODE" and "\<not> cf_egprs (vt_cfg v)"
  shows "0 \<le> n \<Longrightarrow> n \<le> 7 \<Longrightarrow> (\<not> b \<longrightarrow> n = 0) \<Longrightarrow> \<not> cf_rach_delay_set (vt_cfg v) \<Longrightarrow> \<not> cf_rtsc_set (vt_cfg v) \<Longrightarrow>
      cf_rtsc (vt_cfg v) = 0 \<Longrightarrow>
      read_file E (if b then ['' test rtsc '' @ print_d n] else []) v =
      Some (v\<lparr>vt_cfg := (vt_cfg v)\<lparr>cf_rtsc_set := b, cf_rtsc := n, cf_filler := if b then FILLER_NORM_RAND else cf_filler (vt_cfg v)\<rparr>\<rparr>)"
    and "0 \<le> n \<Longrightarrow> n \<le> 68 \<Longrightarrow> (\<not> b \<longrightarrow> n = 0) \<Longrightarrow> \<not> (b \<and> cf_rtsc_set (vt_cfg v)) \<Longrightarrow> \<not> cf_rach_delay_set (vt_cfg v) \<Longrightarrow>
      cf_rach_delay (vt_cfg v) = 0 \<Longrightarrow>
      read_file E (if b then ['' test rach-delay '' @ print_d n] else []) v =
      Some (v\<lparr>vt_cfg := (vt_cfg v)\<lparr>cf_rach_delay_set := b, cf_rach_delay := n,
        cf_filler := if b then FILLER_ACCESS_RAND else cf_filler (vt_cfg v)\<rparr>\<rparr>)"
  using read_test [OF assms, of n] by (cases b; auto simp del: append.simps)+

lemma read_clock_lines:
  assumes "vty_documented ipv4 E" and "vt_node v = TRX_NODE" and "r \<in> {REF_INTERNAL, REF_EXTERNAL, REF_GPS}"
    and "cf_clock_ref (vt_cfg v) = REF_INTERNAL"
  shows "read_file E (if r \<noteq> REF_INTERNAL then ['' clock-ref '' @ clock_ref_name E r] else []) v =
    Some (v\<lparr>vt_cfg := (vt_cfg v)\<lparr>cf_clock_ref := r\<rparr>\<rparr>)"
  using read_clock_ref [OF assms(1-3)] assms(4) by (auto simp del: append.simps)

text \<open>A real is read back when the library prints and reads it without loss.\<close>

definition real_ok :: "vty_lib \<Rightarrow> real \<Rightarrow> bool" where
  "real_ok E x = (is_word (vl_show_f E x) \<and> vl_atof E (vl_show_f E x) = x)"

lemma read_real_lines:
  assumes "vty_documented ipv4 E" and "vt_node v = TRX_NODE" and "real_ok E x"
  shows "cf_offset (vt_cfg v) = 0 \<Longrightarrow> read_file E (if x \<noteq> 0 then ['' offset '' @ vl_show_f E x] else []) v =
      Some (v\<lparr>vt_cfg := (vt_cfg v)\<lparr>cf_offset := x\<rparr>\<rparr>)"
    and "cf_rssi_offset (vt_cfg v) = 0 \<Longrightarrow> read_file E (if x \<noteq> 0 then ['' rssi-offset '' @ vl_show_f E x] else []) v =
      Some (v\<lparr>vt_cfg := (vt_cfg v)\<lparr>cf_rssi_offset := x\<rparr>\<rparr>)"
  using read_word(2,3) [OF assms(1,2)] assms(3) by (auto simp: real_ok_def simp del: append.simps)

lemma read_path_lines:
  assumes "vty_documented ipv4 E" and "vt_node v = CHAN_NODE" and "vt_index v = Some i" and "i < length (cf_chans (vt_cfg v))"
    and "opt_word x"
  shows "tc_rx_path (cf_chans (vt_cfg v) ! i) = None \<Longrightarrow> read_file E (opt_line ''  rx-path '' x) v =
      Some (v\<lparr>vt_cfg := (vt_cfg v)\<lparr>cf_chans := (cf_chans (vt_cfg v))[i := (cf_chans (vt_cfg v) ! i)\<lparr>tc_rx_path := x\<rparr>]\<rparr>\<rparr>)"
    and "tc_tx_path (cf_chans (vt_cfg v) ! i) = None \<Longrightarrow> read_file E (opt_line ''  tx-path '' x) v =
      Some (v\<lparr>vt_cfg := (vt_cfg v)\<lparr>cf_chans := (cf_chans (vt_cfg v))[i := (cf_chans (vt_cfg v) ! i)\<lparr>tc_tx_path := x\<rparr>]\<rparr>\<rparr>)"
proof -
  let ?chs = "cf_chans (vt_cfg v)"
  have same: "v\<lparr>vt_cfg := (vt_cfg v)\<lparr>cf_chans := ?chs[i := ch]\<rparr>\<rparr> = v" if "ch = ?chs ! i" for ch
    using that by simp
  show "read_file E (opt_line ''  rx-path '' x) v =
      Some (v\<lparr>vt_cfg := (vt_cfg v)\<lparr>cf_chans := ?chs[i := (?chs ! i)\<lparr>tc_rx_path := x\<rparr>]\<rparr>\<rparr>)" if "tc_rx_path (?chs ! i) = None"
  proof (cases x)
    case None
    then have "(?chs ! i)\<lparr>tc_rx_path := x\<rparr> = ?chs ! i" using that by simp
    from same [OF this] show ?thesis by (simp add: None opt_line_def)
  qed (use read_path(1) [OF assms(1-3)] assms(5) in \<open>simp add: opt_line_def opt_word_def\<close>)
  show "read_file E (opt_line ''  tx-path '' x) v =
      Some (v\<lparr>vt_cfg := (vt_cfg v)\<lparr>cf_chans := ?chs[i := (?chs ! i)\<lparr>tc_tx_path := x\<rparr>]\<rparr>\<rparr>)" if "tc_tx_path (?chs ! i) = None"
  proof (cases x)
    case None
    then have "(?chs ! i)\<lparr>tc_tx_path := x\<rparr> = ?chs ! i" using that by simp
    from same [OF this] show ?thesis by (simp add: None opt_line_def)
  qed (use read_path(2) [OF assms(1-3)] assms(5) in \<open>simp add: opt_line_def opt_word_def\<close>)
qed

lemma read_chan_lines:
  assumes "vty_documented ipv4 E" and "vt_node v = TRX_NODE \<or> vt_node v = CHAN_NODE" and "cf_num_chans (vt_cfg v) = i"
    and "i < 8" and "length (cf_chans (vt_cfg v)) = 8" and "cf_chans (vt_cfg v) ! i = chan_zero" and "chan_ok i x"
  shows "\<exists>v'. read_file E (chan_lines x) v = Some v' \<and> vt_node v' = CHAN_NODE \<and>
    vt_cfg v' = (vt_cfg v)\<lparr>cf_num_chans := i + 1, cf_chans := (cf_chans (vt_cfg v))[i := x]\<rparr>"
proof -
  let ?chs = "cf_chans (vt_cfg v)"
  define v1 where "v1 = v\<lparr>vt_cfg := (vt_cfg v)\<lparr>cf_num_chans := i + 1, cf_chans := ?chs[i := chan_zero\<lparr>tc_idx := int i\<rparr>]\<rparr>,
    vt_node := CHAN_NODE, vt_index := Some i\<rparr>"
  define v2 where "v2 = v1\<lparr>vt_cfg := (vt_cfg v1)\<lparr>cf_chans := ?chs[i := chan_zero\<lparr>tc_idx := int i, tc_rx_path := tc_rx_path x\<rparr>]\<rparr>\<rparr>"
  define v3 where "v3 = v2\<lparr>vt_cfg := (vt_cfg v2)\<lparr>cf_chans := ?chs[i := chan_zero\<lparr>tc_idx := int i, tc_rx_path := tc_rx_path x,
    tc_tx_path := tc_tx_path x\<rparr>]\<rparr>\<rparr>"
  have x: "tc_idx x = int i" "opt_word (tc_rx_path x)" "opt_word (tc_tx_path x)" using assms(7) by (simp_all add: chan_ok_def)
  have 1: "read_file E ['' chan '' @ print_d (tc_idx x)] v = Some v1"
    unfolding x(1) by (rule read_file_1) (use read_chan_line [OF assms(1-4)] assms(6) in \<open>simp add: v1_def\<close>)
  have 2: "read_file E (opt_line ''  rx-path '' (tc_rx_path x)) v1 = Some v2"
    using read_path_lines(1) [OF assms(1), of v1 i "tc_rx_path x"] x assms(4,5) by (simp add: v1_def v2_def chan_zero_def)
  have 3: "read_file E (opt_line ''  tx-path '' (tc_tx_path x)) v2 = Some v3"
    using read_path_lines(2) [OF assms(1), of v2 i "tc_tx_path x"] x assms(4,5) by (simp add: v1_def v2_def v3_def chan_zero_def)
  have "chan_zero\<lparr>tc_idx := int i, tc_rx_path := tc_rx_path x, tc_tx_path := tc_tx_path x\<rparr> = x" using x(1) by (simp add: chan_zero_def)
  then have "vt_cfg v3 = (vt_cfg v)\<lparr>cf_num_chans := i + 1, cf_chans := ?chs[i := x]\<rparr>" "vt_node v3 = CHAN_NODE"
    by (simp_all add: v1_def v2_def v3_def)
  moreover have "read_file E (chan_lines x) v = Some v3" unfolding chan_lines_def read_file_append 1 2 3 option.case ..
  ultimately show ?thesis by blast
qed

lemma read_chans:
  assumes "vty_documented ipv4 E"
  shows "vt_node v = TRX_NODE \<or> vt_node v = CHAN_NODE \<Longrightarrow> cf_num_chans (vt_cfg v) = i \<Longrightarrow> i + length xs \<le> 8 \<Longrightarrow>
    length (cf_chans (vt_cfg v)) = 8 \<Longrightarrow> \<forall>j < 8. i \<le> j \<longrightarrow> cf_chans (vt_cfg v) ! j = chan_zero \<Longrightarrow>
    \<forall>j < length xs. chan_ok (i + j) (xs ! j) \<Longrightarrow>
    \<exists>v'. read_file E (concat (map chan_lines xs)) v = Some v' \<and>
      vt_cfg v' = (vt_cfg v)\<lparr>cf_num_chans := i + length xs,
        cf_chans := take i (cf_chans (vt_cfg v)) @ xs @ drop (i + length xs) (cf_chans (vt_cfg v))\<rparr>"
proof (induction xs arbitrary: i v)
  case Nil
  then show ?case by simp
next
  case (Cons x xs)
  let ?chs = "cf_chans (vt_cfg v)"
  have x: "chan_ok i x" "i < 8" "?chs ! i = chan_zero" using Cons.prems(3,5,6) by auto
  obtain v1 where v1: "read_file E (chan_lines x) v = Some v1" "vt_node v1 = CHAN_NODE"
      "vt_cfg v1 = (vt_cfg v)\<lparr>cf_num_chans := i + 1, cf_chans := ?chs[i := x]\<rparr>"
    using read_chan_lines [OF assms Cons.prems(1,2) x(2) Cons.prems(4) x(3,1)] by blast
  have r: "\<forall>j < length xs. chan_ok (i + 1 + j) (xs ! j)" using Cons.prems(6) by auto
  have z: "\<forall>j < 8. i + 1 \<le> j \<longrightarrow> ?chs[i := x] ! j = chan_zero" using Cons.prems(4,5) by simp
  have "\<exists>v'. read_file E (concat (map chan_lines xs)) v1 = Some v' \<and>
      vt_cfg v' = (vt_cfg v1)\<lparr>cf_num_chans := i + 1 + length xs,
        cf_chans := take (i + 1) (cf_chans (vt_cfg v1)) @ xs @ drop (i + 1 + length xs) (cf_chans (vt_cfg v1))\<rparr>"
    by (rule Cons.IH) (use v1 r z Cons.prems(3,4) in simp_all)
  moreover have "take (i + 1) (?chs[i := x]) = take i ?chs @ [x]"
    using x(2) Cons.prems(4) by (simp add: take_Suc_conv_app_nth)
  ultimately show ?case using v1 by (simp add: read_file_append)
qed

text \<open>The filler that reading the file leaves: the one of the last option that sets it.\<close>

definition read_filler :: "trx_cfg \<Rightarrow> filler_type" where
  "read_filler c =
    (if cf_egprs c then FILLER_EDGE_RAND else if cf_rach_delay_set c then FILLER_ACCESS_RAND
     else if cf_rtsc_set c then FILLER_NORM_RAND else FILLER_ZERO)"

definition options_read :: "trx_cfg \<Rightarrow> trx_cfg" where
  "options_read c = c\<lparr>cf_filler := read_filler c, cf_num_chans := 0, cf_chans := replicate 8 chan_zero\<rparr>"

lemma config_options_read:
  assumes "vty_documented ipv4 E" and "cfg_ok ipv4 c" and "real_ok E (cf_offset c)" and "real_ok E (cf_rssi_offset c)"
  shows "read_file E (config_lines E c) vty_start =
    read_file E (concat (map chan_lines (take (cf_num_chans c) (cf_chans c)))) (vty_start\<lparr>vt_node := TRX_NODE, vt_cfg := options_read c\<rparr>)"
proof -
  note D = assms(1) and ok = assms(2) [unfolded cfg_ok_def]
  define S where "S = (\<lambda>g. vty_start\<lparr>vt_node := TRX_NODE, vt_cfg := g\<rparr>)"
  have n: "vt_node (S g) = TRX_NODE" "vt_cfg (S g) = g" and S: "(S g)\<lparr>vt_cfg := g'\<rparr> = S g'" for g g' by (simp_all add: S_def)
  have t: "read_file E [''trx''] vty_start = Some (S vty_trx_ctx_alloc)"
    unfolding S_def by (rule read_file_1) (use read_trx [OF D] in \<open>simp add: vty_start_def\<close>)
  define g0 where "g0 = vty_trx_ctx_alloc"
  define g1 where "g1 = g0\<lparr>cf_bind_addr := cf_bind_addr c\<rparr>"
  define g2 where "g2 = g1\<lparr>cf_remote_addr := cf_remote_addr c\<rparr>"
  define g3 where "g3 = g2\<lparr>cf_base_port := cf_base_port c\<rparr>"
  define g4 where "g4 = g3\<lparr>cf_dev_args := cf_dev_args c\<rparr>"
  define g5 where "g5 = g4\<lparr>cf_tx_sps := cf_tx_sps c\<rparr>"
  define g6 where "g6 = g5\<lparr>cf_rx_sps := cf_rx_sps c\<rparr>"
  define g7 where "g7 = g6\<lparr>cf_rtsc_set := cf_rtsc_set c, cf_rtsc := cf_rtsc c, cf_filler := if cf_rtsc_set c then FILLER_NORM_RAND else cf_filler g6\<rparr>"
  define g8 where "g8 = g7\<lparr>cf_rach_delay_set := cf_rach_delay_set c, cf_rach_delay := cf_rach_delay c, cf_filler := if cf_rach_delay_set c then FILLER_ACCESS_RAND else cf_filler g7\<rparr>"
  define g9 where "g9 = g8\<lparr>cf_clock_ref := cf_clock_ref c\<rparr>"
  define g10 where "g10 = g9\<lparr>cf_multi_arfcn := cf_multi_arfcn c\<rparr>"
  define g11 where "g11 = g10\<lparr>cf_offset := cf_offset c\<rparr>"
  define g12 where "g12 = g11\<lparr>cf_rssi_offset := cf_rssi_offset c\<rparr>"
  define g13 where "g13 = g12\<lparr>cf_swap_channels := cf_swap_channels c\<rparr>"
  define g14 where "g14 = g13\<lparr>cf_egprs := cf_egprs c, cf_filler := if cf_egprs c then FILLER_EDGE_RAND else cf_filler g13\<rparr>"
  define g15 where "g15 = g14\<lparr>cf_ext_rach := cf_ext_rach c\<rparr>"
  define g16 where "g16 = g15\<lparr>cf_sched_rr := cf_sched_rr c\<rparr>"
  note G = g0_def g1_def g2_def g3_def g4_def g5_def g6_def g7_def g8_def g9_def g10_def g11_def g12_def g13_def g14_def g15_def g16_def vty_trx_ctx_alloc_def
  have s1: "read_file E (opt_line '' bind-ip '' (cf_bind_addr c)) (S g0) = Some (S g1)"
    unfolding g1_def by (rule read_ip_lines(1) [OF D n(1), unfolded n S]; use ok in \<open>(simp add: G)?\<close>)
  have s2: "read_file E (opt_line '' remote-ip '' (cf_remote_addr c)) (S g1) = Some (S g2)"
    unfolding g2_def by (rule read_ip_lines(2) [OF D n(1), unfolded n S]; use ok in \<open>(simp add: G)?\<close>)
  have s3: "read_file E (if cf_base_port c \<noteq> DEFAULT_TRX_PORT then ['' base-port '' @ print_d (cf_base_port c)] else []) (S g2) = Some (S g3)"
    unfolding g3_def by (rule read_num_lines(1) [OF D n(1), unfolded n S]; use ok in \<open>(simp add: G)?\<close>)
  have s4: "read_file E (opt_line '' dev-args '' (cf_dev_args c)) (S g3) = Some (S g4)"
    unfolding g4_def by (rule read_dev_args_lines [OF D n(1), unfolded n S]; use ok in \<open>(simp add: G)?\<close>)
  have s5: "read_file E (if cf_tx_sps c \<noteq> DEFAULT_TX_SPS then ['' tx-sps '' @ print_d (cf_tx_sps c)] else []) (S g4) = Some (S g5)"
    unfolding g5_def by (rule read_num_lines(2) [OF D n(1), unfolded n S]; use ok in \<open>(simp add: G)?\<close>)
  have s6: "read_file E (if cf_rx_sps c \<noteq> DEFAULT_RX_SPS then ['' rx-sps '' @ print_d (cf_rx_sps c)] else []) (S g5) = Some (S g6)"
    unfolding g6_def by (rule read_num_lines(3) [OF D n(1), unfolded n S]; use ok in \<open>(simp add: G)?\<close>)
  have s7: "read_file E (if cf_rtsc_set c then ['' test rtsc '' @ print_d (cf_rtsc c)] else []) (S g6) = Some (S g7)"
    unfolding g7_def by (rule read_test_lines(1) [OF D n(1), unfolded n S]; use ok in \<open>(simp add: G)?\<close>)
  have s8: "read_file E (if cf_rach_delay_set c then ['' test rach-delay '' @ print_d (cf_rach_delay c)] else []) (S g7) = Some (S g8)"
    unfolding g8_def by (rule read_test_lines(2) [OF D n(1), unfolded n S]; use ok in \<open>auto simp: G\<close>)
  have s9: "read_file E (if cf_clock_ref c \<noteq> REF_INTERNAL then ['' clock-ref '' @ clock_ref_name E (cf_clock_ref c)] else []) (S g8) = Some (S g9)"
    unfolding g9_def by (rule read_clock_lines [OF D n(1), unfolded n S]; use ok in \<open>(simp add: G)?\<close>)
  have s10: "read_file E (['' multi-arfcn '' @ enable_name (cf_multi_arfcn c)]) (S g9) = Some (S g10)"
    unfolding g10_def by (rule read_switch(1) [OF D n(1), THEN read_file_1, unfolded n S]; use ok in \<open>(simp add: G)?\<close>)
  have s11: "read_file E (if cf_offset c \<noteq> 0 then ['' offset '' @ vl_show_f E (cf_offset c)] else []) (S g10) = Some (S g11)"
    unfolding g11_def by (rule read_real_lines(1) [OF D n(1) assms(3), unfolded n S]; use ok in \<open>(simp add: G)?\<close>)
  have s12: "read_file E (if cf_rssi_offset c \<noteq> 0 then ['' rssi-offset '' @ vl_show_f E (cf_rssi_offset c)] else []) (S g11) = Some (S g12)"
    unfolding g12_def by (rule read_real_lines(2) [OF D n(1) assms(4), unfolded n S]; use ok in \<open>(simp add: G)?\<close>)
  have s13: "read_file E (['' swap-channels '' @ enable_name (cf_swap_channels c)]) (S g12) = Some (S g13)"
    unfolding g13_def by (rule read_switch(2) [OF D n(1), THEN read_file_1, unfolded n S]; use ok in \<open>(simp add: G)?\<close>)
  have s14: "read_file E (['' egprs '' @ enable_name (cf_egprs c)]) (S g13) = Some (S g14)"
    unfolding g14_def by (rule read_switch(4) [OF D n(1), THEN read_file_1, unfolded n S]; use ok in \<open>(simp add: G)?\<close>)
  have s15: "read_file E (['' ext-rach '' @ enable_name (cf_ext_rach c)]) (S g14) = Some (S g15)"
    unfolding g15_def by (rule read_switch(3) [OF D n(1), THEN read_file_1, unfolded n S]; use ok in \<open>(simp add: G)?\<close>)
  have s16: "read_file E (if cf_sched_rr c \<noteq> 0 then ['' rt-prio '' @ print_d (cf_sched_rr c)] else []) (S g15) = Some (S g16)"
    unfolding g16_def by (rule read_num_lines(4) [OF D n(1), unfolded n S]; use ok in \<open>(simp add: G)?\<close>)
  have "g16 = options_read c" by (rule trx_cfg.equality) (simp_all add: G options_read_def read_filler_def TRX_CHAN_MAX_def)
  then show ?thesis
    unfolding config_lines_def read_file_append t g0_def [symmetric] option.case s1 option.case s2 option.case s3 option.case s4 option.case s5 option.case s6 option.case s7 option.case s8 option.case s9 option.case s10 option.case s11 option.case s12 option.case s13 option.case s14 option.case s15 option.case s16 option.case by (simp add: S_def)
qed

lemma config_read_back:
  assumes "vty_documented ipv4 E" and "cfg_ok ipv4 c" and "real_ok E (cf_offset c)" and "real_ok E (cf_rssi_offset c)"
  shows "\<exists>v'. read_file E (config_lines E c) vty_start = Some v' \<and> vt_cfg v' = c\<lparr>cf_filler := read_filler c\<rparr>"
proof -
  let ?g = "options_read c" and ?S = "vty_start\<lparr>vt_node := TRX_NODE, vt_cfg := options_read c\<rparr>"
  let ?n = "cf_num_chans c" and ?chs = "cf_chans c"
  have ch: "?n \<le> 8" "length ?chs = 8" "\<forall>i < ?n. chan_ok i (?chs ! i)" "\<forall>i < 8. ?n \<le> i \<longrightarrow> ?chs ! i = chan_zero"
    using assms(2) by (auto simp: cfg_ok_def chans_ok_def)
  obtain v' where v': "read_file E (concat (map chan_lines (take ?n ?chs))) ?S = Some v'"
      "vt_cfg v' = ?g\<lparr>cf_num_chans := 0 + length (take ?n ?chs),
        cf_chans := take 0 (cf_chans ?g) @ take ?n ?chs @ drop (0 + length (take ?n ?chs)) (cf_chans ?g)\<rparr>"
    using read_chans [OF assms(1), of ?S 0 "take ?n ?chs"] ch by (auto simp: options_read_def)
  have "drop ?n ?chs = replicate (8 - ?n) chan_zero" using ch by (intro nth_equalityI) simp_all
  then have "take ?n ?chs @ replicate (8 - ?n) chan_zero = ?chs" by (metis append_take_drop_id)
  then have "vt_cfg v' = c\<lparr>cf_filler := read_filler c\<rparr>" unfolding v'(2) options_read_def using ch by simp
  then show ?thesis using config_options_read [OF assms] v'(1) by simp
qed

text \<open>A library that keeps its documentation, for examples: its reals are all zero and are printed as such.\<close>

definition plain_lib :: vty_lib where
  "plain_lib = \<lparr>vl_match = \<lambda>ts line. words_match (\<lambda>a. a \<in> {''127.0.0.1'', ''10.0.0.2''}) ts (words_from [] line),
    vl_show_f = \<lambda>x. ''0.000000'', vl_atof = \<lambda>s. 0, vl_unknown = \<lambda>n. ''unknown''\<rparr>"

lemma plain_lib_documented: "vty_documented (\<lambda>a. a \<in> {''127.0.0.1'', ''10.0.0.2''}) plain_lib"
  by (simp add: vty_documented_def plain_lib_def)

definition example_file :: "string list" where
  "example_file = [''trx'', '' remote-ip '' @ ''10.0.0.2'', '' base-port '' @ print_d 6700, '' egprs '' @ enable_name True,
    '' filler dummy'', '' chan '' @ print_d (int 0), ''  rx-path '' @ ''LNAW'']"

definition example_vty :: vty where
  "example_vty = vty_start\<lparr>vt_node := CHAN_NODE, vt_index := Some 0,
    vt_cfg := vty_trx_ctx_alloc\<lparr>cf_remote_addr := Some ''10.0.0.2'', cf_base_port := 6700, cf_egprs := True,
      cf_filler := FILLER_DUMMY, cf_num_chans := 1,
      cf_chans := (replicate TRX_CHAN_MAX chan_zero)[0 := \<lparr>tc_idx = 0, tc_rx_path = Some ''LNAW'', tc_tx_path = None\<rparr>]\<rparr>\<rparr>"

lemma read_filler_line:
  assumes "vty_documented ipv4 E" and "vt_node v = TRX_NODE"
  shows "read_line E '' filler dummy'' v = Some (v\<lparr>vt_cfg := (vt_cfg v)\<lparr>cf_filler := FILLER_DUMMY\<rparr>\<rparr>)"
  using assms by (simp add: line_simps run_matching [OF assms(1)] cfg_filler_def)

lemma example_read: "read_file plain_lib example_file vty_start = Some example_vty"
proof -
  note D = plain_lib_documented
  let ?v = "\<lambda>c. vty_start\<lparr>vt_node := TRX_NODE, vt_cfg := c\<rparr>"
  have n: "vt_node (?v c) = TRX_NODE" "vt_cfg (?v c) = c" for c by simp_all
  let ?c = "vty_trx_ctx_alloc\<lparr>cf_remote_addr := Some ''10.0.0.2'', cf_base_port := 6700, cf_egprs := True, cf_filler := FILLER_DUMMY\<rparr>"
  let ?w = "vty_start\<lparr>vt_node := CHAN_NODE, vt_index := Some 0, vt_cfg := ?c\<lparr>cf_num_chans := 1,
    cf_chans := (replicate TRX_CHAN_MAX chan_zero)[0 := chan_zero\<lparr>tc_idx := 0\<rparr>]\<rparr>\<rparr>"
  have z: "cf_num_chans ?c = 0" "cf_chans ?c = replicate TRX_CHAN_MAX chan_zero" "0 < TRX_CHAN_MAX"
    by (simp_all add: vty_trx_ctx_alloc_def TRX_CHAN_MAX_def)
  have "read_line plain_lib ''trx'' vty_start = Some (?v vty_trx_ctx_alloc)"
    using read_trx [OF D, of vty_start] by (simp add: vty_start_def)
  moreover have "read_line plain_lib ('' remote-ip '' @ ''10.0.0.2'') (?v vty_trx_ctx_alloc) = Some (?v (vty_trx_ctx_alloc\<lparr>cf_remote_addr := Some ''10.0.0.2''\<rparr>))"
    using read_ip(2) [OF D n(1), of "''10.0.0.2''"] by (simp add: is_word_def del: append.simps)
  moreover have "read_line plain_lib ('' base-port '' @ print_d 6700) (?v (vty_trx_ctx_alloc\<lparr>cf_remote_addr := Some ''10.0.0.2''\<rparr>)) =
      Some (?v (vty_trx_ctx_alloc\<lparr>cf_remote_addr := Some ''10.0.0.2'', cf_base_port := 6700\<rparr>))"
    using read_number(1) [OF D n(1), of 6700] by (simp del: append.simps)
  moreover have "read_line plain_lib ('' egprs '' @ enable_name True) (?v (vty_trx_ctx_alloc\<lparr>cf_remote_addr := Some ''10.0.0.2'', cf_base_port := 6700\<rparr>)) =
      Some (?v (vty_trx_ctx_alloc\<lparr>cf_remote_addr := Some ''10.0.0.2'', cf_base_port := 6700, cf_egprs := True, cf_filler := FILLER_EDGE_RAND\<rparr>))"
    using read_switch(4) [OF D n(1), of True] by (simp del: append.simps)
  moreover have "read_line plain_lib '' filler dummy'' (?v (vty_trx_ctx_alloc\<lparr>cf_remote_addr := Some ''10.0.0.2'', cf_base_port := 6700, cf_egprs := True, cf_filler := FILLER_EDGE_RAND\<rparr>)) =
      Some (?v ?c)"
    using read_filler_line [OF D n(1)] by (simp del: append.simps)
  moreover have "read_line plain_lib ('' chan '' @ print_d (int 0)) (?v ?c) = Some ?w"
    using read_chan_line [OF D, of "?v ?c" 0] z by (simp del: append.simps)
  moreover have "read_line plain_lib (''  rx-path '' @ ''LNAW'') ?w = Some example_vty"
    using read_path(1) [OF D, of ?w 0 "''LNAW''"] z(3) by (simp add: is_word_def example_vty_def chan_zero_def del: append.simps)
  ultimately show ?thesis unfolding example_file_def read_file.simps by (simp only: option.case)
qed



text \<open>The example has the filler of dummy bursts, and the lines written for it have not.\<close>

lemma config_filler_lost:
  "\<exists>v v'. read_file plain_lib example_file vty_start = Some v \<and> cf_filler (vt_cfg v) = FILLER_DUMMY \<and>
    read_file plain_lib (config_lines plain_lib (vt_cfg v)) vty_start = Some v' \<and> cf_filler (vt_cfg v') = FILLER_EDGE_RAND"
proof -
  have "vty_ok (\<lambda>a. a \<in> {''127.0.0.1'', ''10.0.0.2''}) vty_start"
    by (rule vty_start_ok) (simp add: DEFAULT_TRX_IP_def)
  from read_file_ok [OF plain_lib_documented this example_read]
  have "cfg_ok (\<lambda>a. a \<in> {''127.0.0.1'', ''10.0.0.2''}) (vt_cfg example_vty)" by (simp add: vty_ok_def)
  moreover have "real_ok plain_lib (cf_offset (vt_cfg example_vty))" "real_ok plain_lib (cf_rssi_offset (vt_cfg example_vty))"
    by (simp_all add: example_vty_def vty_trx_ctx_alloc_def real_ok_def plain_lib_def is_word_def)
  ultimately obtain v' where "read_file plain_lib (config_lines plain_lib (vt_cfg example_vty)) vty_start = Some v'"
      "vt_cfg v' = (vt_cfg example_vty)\<lparr>cf_filler := read_filler (vt_cfg example_vty)\<rparr>"
    using config_read_back [OF plain_lib_documented] by blast
  then show ?thesis using example_read by (simp add: example_vty_def read_filler_def)
qed

end
