(* ===== verification/RadioObject.thy ===== *)
theory RadioObject
  imports TrxControl RadioMulti RadioResamp
begin

text \<open>
  The radio interface behind a pointer (\<^verbatim>\<open>Transceiver52M/radioInterface.h\<close>): an object of the plain class or of one of
  its two subclasses, with the calls that the transceiver makes through a pointer to the plain class. A virtual function
  is the one of the object's class, any other the one of the plain class: so the receive gain of the multi-carrier
  interface is never reached, since \<open>setRxGain\<close> is not virtual. The objects fulfil the contract of the transceiver, and
  every call keeps what the calls of the device keep.
\<close>

section \<open>Objects\<close>

datatype ('a, 'd, 'c, 's) radio_object =
  Plain "('a, 'd) radio_interface" | Resamp "('a, 'd) radio_resamp" | Multi "('a, 'd, 'c, 's) radio_multi"

primrec radio_base :: "('a, 'd, 'c, 's) radio_object \<Rightarrow> ('a, 'd) radio_interface" where
  "radio_base (Plain r) = r"
| "radio_base (Resamp m) = rr_base m"
| "radio_base (Multi m) = rm_base m"

primrec set_base :: "('a, 'd) radio_interface \<Rightarrow> ('a, 'd, 'c, 's) radio_object \<Rightarrow> ('a, 'd, 'c, 's) radio_object" where
  "set_base b (Plain r) = Plain b"
| "set_base b (Resamp m) = Resamp (m\<lparr>rr_base := b\<rparr>)"
| "set_base b (Multi m) = Multi (m\<lparr>rm_base := b\<rparr>)"

lemma radio_base_set [simp]: "radio_base (set_base b r) = b"
  by (cases r) simp_all

lemma set_base_same [simp]: "set_base (radio_base r) r = r"
  by (cases r) simp_all

text \<open>A function of the plain class, called on any object.\<close>

definition on_base :: "(('a, 'd) radio_interface \<Rightarrow> 'x \<times> ('a, 'd) radio_interface) \<Rightarrow> ('a, 'd, 'c, 's) radio_object \<Rightarrow>
    'x \<times> ('a, 'd, 'c, 's) radio_object" where
  "on_base f r = (case f (radio_base r) of (x, b) \<Rightarrow> (x, set_base b r))"

text \<open>The constructors of the subclasses; the resampling interface has one channel.\<close>

definition rr_new :: "'d \<Rightarrow> nat \<Rightarrow> nat \<Rightarrow> nat \<Rightarrow> ('a, 'd) radio_resamp" where
  "rr_new usrp tx_sps rx_sps ts0 =
    \<lparr>rr_base = ri_new usrp tx_sps rx_sps 1 3 (Time 0 0) ts0, rr_inchunk = 0, rr_outchunk = 0, rr_outer = None, rr_leaked = 0\<rparr>"

definition rm_new :: "'d \<Rightarrow> nat \<Rightarrow> nat \<Rightarrow> nat \<Rightarrow> nat \<Rightarrow> ('a, 'd, 'c, 's) radio_multi" where
  "rm_new usrp tx_sps rx_sps chans ts0 =
    \<lparr>rm_base = ri_new usrp tx_sps rx_sps chans 3 (Time 0 0) ts0, rm_history = [], rm_active = [], rm_filters = None\<rparr>"

definition object_init :: "('a, 'h, 'd) radio_env \<Rightarrow> 'a resamp_env \<Rightarrow> ('a, 'c, 's) multi_env \<Rightarrow> interface_type \<Rightarrow>
    ('a, 'd, 'c, 's) radio_object \<Rightarrow> bool \<times> ('a, 'd, 'c, 's) radio_object" where
  "object_init E X M type r =
    (case r of
       Plain r \<Rightarrow> map_prod id Plain (ri_init E type r)
     | Resamp m \<Rightarrow> map_prod id Resamp (rr_init E X type m)
     | Multi m \<Rightarrow> map_prod id Multi (rm_init E M m))"

text \<open>The destructors close the object as its class does, and then as the plain class.\<close>

definition object_destroy :: "('a, 'd, 'c, 's) radio_object \<Rightarrow> ('a, 'd, 'c, 's) radio_object" where
  "object_destroy r =
    (let r = (case r of Plain r \<Rightarrow> Plain (ri_close r) | Resamp m \<Rightarrow> Resamp (rr_close m) | Multi m \<Rightarrow> Multi (rm_close m))
     in set_base (ri_close (radio_base r)) r)"

definition object_pullBuffer :: "('a, 'h, 'd) radio_env \<Rightarrow> 'a resamp_env \<Rightarrow> ('a, 'c, 's) multi_env \<Rightarrow>
    ('a, 'd, 'c, 's) radio_object \<Rightarrow> (int \<times> ('a, 'd, 'c, 's) radio_object) option" where
  "object_pullBuffer E X M r =
    (case r of
       Plain r \<Rightarrow> map_option (map_prod id Plain) (ri_pullBuffer E r)
     | Resamp m \<Rightarrow> map_option (map_prod id Resamp) (rr_pullBuffer E X m)
     | Multi m \<Rightarrow> map_option (map_prod id Multi) (rm_pullBuffer E M m))"

definition object_pushBuffer :: "('a, 'h, 'd) radio_env \<Rightarrow> 'a resamp_env \<Rightarrow> ('a, 'c, 's) multi_env \<Rightarrow>
    ('a, 'd, 'c, 's) radio_object \<Rightarrow> (bool \<times> ('a, 'd, 'c, 's) radio_object) option" where
  "object_pushBuffer E X M r =
    (case r of
       Plain r \<Rightarrow> map_option (map_prod id Plain) (ri_pushBuffer E r)
     | Resamp m \<Rightarrow> map_option (map_prod id Resamp) (rr_pushBuffer E X m)
     | Multi m \<Rightarrow> map_option (map_prod id Multi) (rm_pushBuffer E M m))"

text \<open>The drivers of the plain class with the object's own \<open>pullBuffer\<close> and \<open>pushBuffer\<close>; the fuel is the one of the plain
  class.\<close>

fun object_push_loop :: "nat \<Rightarrow> ('r \<Rightarrow> (bool \<times> 'r) option) \<Rightarrow> 'r \<Rightarrow> 'r option" where
  "object_push_loop 0 push r = None"
| "object_push_loop (Suc n) push r =
    (case push r of
       None \<Rightarrow> None
     | Some (again, r') \<Rightarrow> if again then object_push_loop n push r' else Some r')"

definition object_driveTransmitRadio :: "('a::zero, 'h, 'd) radio_env \<Rightarrow> 'a resamp_env \<Rightarrow> ('a, 'c, 's) multi_env \<Rightarrow>
    ('a list \<times> bool) list \<Rightarrow> ('a, 'd, 'c, 's) radio_object \<Rightarrow> ('a, 'd, 'c, 's) radio_object option" where
  "object_driveTransmitRadio E X M bursts r =
    (if \<not> ri_on (radio_base r) then Some r
     else let b = ri_radioify_all bursts (radio_base r)
          in object_push_loop (Suc (rb_getAvailSamples (ri_sendBuffer b ! 0))) (object_pushBuffer E X M) (set_base b r))"

definition object_driveReceiveRadio :: "('a, 'h, 'd) radio_env \<Rightarrow> 'a resamp_env \<Rightarrow> ('a, 'c, 's) multi_env \<Rightarrow> nat \<Rightarrow>
    ('a, 'd, 'c, 's) radio_object \<Rightarrow> (int \<times> ('a, 'd, 'c, 's) radio_object) option" where
  "object_driveReceiveRadio E X M head r =
    (if \<not> ri_on (radio_base r) then Some (0, r)
     else case object_pullBuffer E X M r of
       None \<Rightarrow> None
     | Some (rc, r1) \<Rightarrow>
         map_option (\<lambda>(res, b). (res, set_base b r1)) (ri_driveReceiveRadio E (\<lambda>b. Some (rc, radio_base r1)) head
           (radio_base r)))"

definition object_tuneTx :: "('a, 'h, 'd) radio_env \<Rightarrow> real \<Rightarrow> nat \<Rightarrow> ('a, 'd, 'c, 's) radio_object \<Rightarrow>
    bool \<times> ('a, 'd, 'c, 's) radio_object" where
  "object_tuneTx E freq chan r =
    (case r of Multi m \<Rightarrow> (case rm_tuneTx E freq chan m of (ok, warned, m) \<Rightarrow> (ok, Multi m))
     | _ \<Rightarrow> on_base (ri_tuneTx E freq chan) r)"

definition object_tuneRx :: "('a, 'h, 'd) radio_env \<Rightarrow> real \<Rightarrow> nat \<Rightarrow> ('a, 'd, 'c, 's) radio_object \<Rightarrow>
    bool \<times> ('a, 'd, 'c, 's) radio_object" where
  "object_tuneRx E freq chan r =
    (case r of Multi m \<Rightarrow> (case rm_tuneRx E freq chan m of (ok, warned, m) \<Rightarrow> (ok, Multi m))
     | _ \<Rightarrow> on_base (ri_tuneRx E freq chan) r)"

text \<open>The calls of the transceiver, as for the plain interface.\<close>

definition object_ops :: "('a::zero, 'h, 'd) radio_env \<Rightarrow> 'a resamp_env \<Rightarrow> ('a, 'c, 's) multi_env \<Rightarrow> nat \<Rightarrow> bool \<Rightarrow> gsm_time \<Rightarrow>
    ('a list, ('a, 'd, 'c, 's) radio_object) radio_ops" where
  "object_ops E X M head usrp1 latency =
    \<lparr>ro_start = (\<lambda>r. map_option (\<lambda>(ok, b). (ok, set_base b r)) (ri_start E (radio_base r))),
     ro_stop = on_base (ri_stop E), ro_setPowerAttenuation = (\<lambda>a c. on_base (ri_setPowerAttenuation E a c)),
     ro_setRxGain = (\<lambda>g c. on_base (ri_setRxGain E g c)), ro_tuneTx = object_tuneTx E, ro_tuneRx = object_tuneRx E,
     ro_fullScaleInputValue = (\<lambda>r. ri_fullScaleInputValue E (radio_base r)),
     ro_fullScaleOutputValue = (\<lambda>r. ri_fullScaleOutputValue E (radio_base r)),
     ro_getClock = (\<lambda>r. rc_get (ri_clock (radio_base r))),
     ro_setClock = (\<lambda>t r. set_base ((radio_base r)\<lparr>ri_clock := fst (rc_set t (ri_clock (radio_base r)))\<rparr>) r),
     ro_isUnderrun = on_base ri_isUnderrun, ro_window_usrp1 = (\<lambda>r. usrp1), ro_minLatency = (\<lambda>r. latency),
     ro_driveTransmitRadio = (\<lambda>bursts r.
       if None \<in> set (map fst bursts) then None
       else object_driveTransmitRadio E X M (map (\<lambda>(v, z). (the v, z)) bursts) r),
     ro_driveReceiveRadio = object_driveReceiveRadio E X M head,
     ro_fifo = (\<lambda>i r. ri_receiveFIFO (radio_base r) ! i),
     ro_set_fifo = (\<lambda>i q r. set_base ((radio_base r)\<lparr>ri_receiveFIFO := (ri_receiveFIFO (radio_base r))[i := q]\<rparr>) r)\<rparr>"

section \<open>The plain object\<close>

text \<open>On a plain object these are the functions of the plain interface.\<close>

lemma object_push_loop_plain:
  "object_push_loop n (object_pushBuffer E X M) (Plain r) = map_option Plain (ri_push_loop n (ri_pushBuffer E) r)"
  by (induction n arbitrary: r) (auto simp: object_pushBuffer_def split: option.split)

lemma plain_driveTransmitRadio:
  "object_driveTransmitRadio E X M bursts (Plain r) = map_option Plain (ri_driveTransmitRadio (ri_pushBuffer E) bursts r)"
  by (simp add: object_driveTransmitRadio_def ri_driveTransmitRadio_def object_push_loop_plain Let_def)

lemma plain_driveReceiveRadio:
  "object_driveReceiveRadio E X M head (Plain r) =
    map_option (map_prod id Plain) (ri_driveReceiveRadio E (ri_pullBuffer E) head r)"
proof (cases "ri_on r")
  case False
  then show ?thesis by (simp add: object_driveReceiveRadio_def ri_driveReceiveRadio_def)
next
  case True
  show ?thesis
  proof (cases "ri_pullBuffer E r")
    case None
    then show ?thesis using True by (simp add: object_driveReceiveRadio_def object_pullBuffer_def ri_driveReceiveRadio_def)
  next
    case (Some p)
    obtain rc r1 where p: "p = (rc, r1)" by (cases p)
    have e: "ri_driveReceiveRadio E (ri_pullBuffer E) head r = ri_driveReceiveRadio E (\<lambda>b. Some (rc, r1)) head r"
      using Some p by (simp add: ri_driveReceiveRadio_def)
    have o: "object_driveReceiveRadio E X M head (Plain r) =
        map_option (\<lambda>(res, b). (res, Plain b)) (ri_driveReceiveRadio E (\<lambda>b. Some (rc, r1)) head r)"
      using True Some p by (simp add: object_driveReceiveRadio_def object_pullBuffer_def)
    show ?thesis unfolding e o by (simp add: map_prod_def)
  qed
qed

section \<open>What the device keeps\<close>

text \<open>A measure of the device that every call on it keeps is kept by every call on the object.\<close>

definition device_keeps :: "('a, 'h, 'd) radio_env \<Rightarrow> ('d \<Rightarrow> int) \<Rightarrow> bool" where
  "device_keeps E left =
    ((\<forall>d. left (snd (dev_start E d)) = left d) \<and> (\<forall>d. left (snd (dev_stop E d)) = left d) \<and>
     (\<forall>t d. left (snd (dev_updateAlignment E t d)) = left d) \<and>
     (\<forall>n o0 t d num bufs ov un d'. dev_readSamples E n o0 t d = (num, bufs, ov, un, d') \<longrightarrow> left d' = left d) \<and>
     (\<forall>bufs n u t d num un d'. dev_writeSamples E bufs n u t d = (num, un, d') \<longrightarrow> left d' = left d) \<and>
     (\<forall>f c d. left (snd (dev_setTxFreq E f c d)) = left d) \<and> (\<forall>f c d. left (snd (dev_setRxFreq E f c d)) = left d) \<and>
     (\<forall>g c d. left (snd (dev_setTxGain E g c d)) = left d) \<and> (\<forall>g c d. left (snd (dev_setRxGain E g c d)) = left d))"

lemma device_keepsD:
  assumes "device_keeps E left"
  shows "left (snd (dev_start E d)) = left d" "left (snd (dev_stop E d)) = left d"
    "left (snd (dev_updateAlignment E t d)) = left d"
    "dev_readSamples E n o0 t d = (num, bufs, ov, un, d') \<Longrightarrow> left d' = left d"
    "dev_writeSamples E bufs n u t d = (num, un, d') \<Longrightarrow> left d' = left d"
    "left (snd (dev_setTxFreq E f c d)) = left d" "left (snd (dev_setRxFreq E f c d)) = left d"
    "left (snd (dev_setTxGain E g c d)) = left d" "left (snd (dev_setRxGain E g c d)) = left d"
proof -
  note k = assms [unfolded device_keeps_def]
  show "dev_readSamples E n o0 t d = (num, bufs, ov, un, d') \<Longrightarrow> left d' = left d"
    by (rule k [THEN conjunct2, THEN conjunct2, THEN conjunct2, THEN conjunct1, rule_format])
  show "dev_writeSamples E bufs n u t d = (num, un, d') \<Longrightarrow> left d' = left d"
    by (rule k [THEN conjunct2, THEN conjunct2, THEN conjunct2, THEN conjunct2, THEN conjunct1, rule_format])
qed (use assms in \<open>simp_all add: device_keeps_def\<close>)

definition object_left :: "('d \<Rightarrow> int) \<Rightarrow> ('a, 'd, 'c, 's) radio_object \<Rightarrow> int" where
  "object_left left r = left (ri_radio (radio_base r))"

lemma on_base_left:
  assumes "\<And>b. left (ri_radio (snd (f b))) = left (ri_radio b)"
  shows "object_left left (snd (on_base f r)) = object_left left r"
  using assms by (simp add: object_left_def on_base_def split_beta)

lemma start_left:
  assumes "device_keeps E left" and "ri_start E r = Some (ok, r')"
  shows "left (ri_radio r') = left (ri_radio r)"
proof -
  note k = device_keepsD [OF assms(1)]
  obtain ok1 d where d: "dev_start E (ri_radio r) = (ok1, d)" by fastforce
  have l: "left d = left (ri_radio r)" using k(1) [of "ri_radio r"] by (simp add: d)
  show ?thesis
    using assms(2) by (auto simp: ri_start_def d Let_def k(3) l split: if_splits)
qed

lemma base_left:
  assumes "device_keeps E left"
  shows "left (ri_radio (snd (ri_stop E r))) = left (ri_radio r)"
    and "left (ri_radio (snd (ri_setPowerAttenuation E a c r))) = left (ri_radio r)"
    and "left (ri_radio (snd (ri_setRxGain E g c r))) = left (ri_radio r)"
    and "left (ri_radio (snd (ri_tuneTx E f c r))) = left (ri_radio r)"
    and "left (ri_radio (snd (ri_tuneRx E f c r))) = left (ri_radio r)"
  by (simp_all add: ri_stop_def ri_setPowerAttenuation_def ri_setRxGain_def ri_tuneTx_def ri_tuneRx_def
      Let_def split_beta device_keepsD [OF assms])

lemma object_tune_left:
  assumes "device_keeps E left"
  shows "object_left left (snd (object_tuneTx E f c r)) = object_left left r"
    and "object_left left (snd (object_tuneRx E f c r)) = object_left left r"
proof -
  note b = on_base_left [OF base_left(4) [OF assms]] on_base_left [OF base_left(5) [OF assms]]
  show "object_left left (snd (object_tuneTx E f c r)) = object_left left r"
    by (cases r) (simp_all add: object_tuneTx_def b, simp add: object_left_def rm_tuneTx_def Let_def split_beta device_keepsD(6) [OF assms])
  show "object_left left (snd (object_tuneRx E f c r)) = object_left left r"
    by (cases r) (simp_all add: object_tuneRx_def b, simp add: object_left_def rm_tuneRx_def Let_def split_beta device_keepsD(7) [OF assms])
qed

lemma pull_left:
  assumes "device_keeps E left"
  shows "ri_pullBuffer E r = Some (rc, r') \<Longrightarrow> left (ri_radio r') = left (ri_radio r)"
    and "rr_pullBuffer E X m = Some (rc, m') \<Longrightarrow> left (ri_radio (rr_base m')) = left (ri_radio (rr_base m))"
proof -
  note k = device_keepsD(4) [OF assms]
  show "left (ri_radio r') = left (ri_radio r)" if p: "ri_pullBuffer E r = Some (rc, r')"
  proof -
    obtain num bufs ov un d where d: "dev_readSamples E (rb_getSegmentLen (ri_recvBuffer r ! 0)) (ri_overrun r)
        (ri_readTimestamp r) (ri_radio r) = (num, bufs, ov, un, d)" using prod_cases5 by blast
    show ?thesis using p k [OF d] by (auto simp: ri_pullBuffer_def d Let_def split: if_splits)
  qed
  show "left (ri_radio (rr_base m')) = left (ri_radio (rr_base m))" if p: "rr_pullBuffer E X m = Some (rc, m')"
  proof -
    obtain num bufs ov un d where d: "dev_readSamples E (rr_outchunk m) (ri_overrun (rr_base m))
        (ri_readTimestamp (rr_base m)) (ri_radio (rr_base m)) = (num, bufs, ov, un, d)" using prod_cases5 by blast
    show ?thesis using p k [OF d]
      by (auto simp: rr_pullBuffer_def d Let_def split: if_splits option.splits prod.splits)
  qed
qed

lemma pull_chan_radio: "rm_pull_chan M ch p m = Some m' \<Longrightarrow> ri_radio (rm_base m') = ri_radio (rm_base m)"
  by (auto simp: rm_pull_chan_def Let_def split_beta split: if_splits option.splits)

lemma pull_chans_radio: "rm_pull_chans M ch ps m = Some m' \<Longrightarrow> ri_radio (rm_base m') = ri_radio (rm_base m)"
  by (induction ps arbitrary: m) (auto simp: pull_chan_radio split: option.splits)

lemma multi_pull_left:
  assumes "device_keeps E left" and "rm_pullBuffer E M m = Some (rc, m')"
  shows "left (ri_radio (rm_base m')) = left (ri_radio (rm_base m))"
proof -
  obtain num bufs ov un d where d: "dev_readSamples E (chz_inputLen M) (ri_overrun (rm_base m))
      (ri_readTimestamp (rm_base m)) (ri_radio (rm_base m)) = (num, bufs, ov, un, d)" using prod_cases5 by blast
  show ?thesis using assms(2) device_keepsD(4) [OF assms(1) d]
    by (auto simp: rm_pullBuffer_def d Let_def dest!: pull_chans_radio split: if_splits option.splits)
qed

lemma push_left:
  assumes "device_keeps E left"
  shows "ri_pushBuffer E r = Some (b, r') \<Longrightarrow> left (ri_radio r') = left (ri_radio r)"
    and "rr_pushBuffer E X m = Some (b, m') \<Longrightarrow> left (ri_radio (rr_base m')) = left (ri_radio (rr_base m))"
proof -
  have k: "left (snd (snd (dev_writeSamples E bufs n u t d))) = left d" for bufs n u t d
    by (rule device_keepsD(5) [OF assms]) (rule prod_eq_iff [THEN iffD2], simp add: prod_eq_iff)
  show "ri_pushBuffer E r = Some (b, r') \<Longrightarrow> left (ri_radio r') = left (ri_radio r)"
    by (auto simp: ri_pushBuffer_def Let_def split_beta k split: if_splits)
  show "rr_pushBuffer E X m = Some (b, m') \<Longrightarrow> left (ri_radio (rr_base m')) = left (ri_radio (rr_base m))"
    by (auto simp: rr_pushBuffer_def Let_def split_beta k split: if_splits option.splits)
qed

lemma push_chans_radio: "rm_push_chans M ps sy m = Some (sy', m') \<Longrightarrow> ri_radio (rm_base m') = ri_radio (rm_base m)"
  by (induction ps arbitrary: sy m) (auto simp: Let_def split_beta split: if_splits option.splits)

lemma multi_push_left:
  assumes "device_keeps E left" and "rm_pushBuffer E M m = Some (b, m')"
  shows "left (ri_radio (rm_base m')) = left (ri_radio (rm_base m))"
  using assms(2)
  by (auto simp: rm_pushBuffer_def Let_def split: if_splits option.splits prod.splits
      dest!: push_chans_radio device_keepsD(5) [OF assms(1)])

lemma object_buffer_left:
  assumes "device_keeps E left"
  shows "object_pullBuffer E X M r = Some (rc, r') \<Longrightarrow> object_left left r' = object_left left r"
    and "object_pushBuffer E X M r = Some (b, r') \<Longrightarrow> object_left left r' = object_left left r"
  by (auto simp: object_pullBuffer_def object_pushBuffer_def object_left_def pull_left [OF assms] multi_pull_left [OF assms]
      push_left [OF assms] multi_push_left [OF assms] split: radio_object.splits)

lemma radioify_all_radio: "ri_radio (ri_radioify_all bursts b) = ri_radio b"
proof -
  have "ri_radio (fold (\<lambda>i r. snd (ri_radioifyVector (fst (bursts ! i)) i (snd (bursts ! i)) r)) xs b) = ri_radio b" for xs
    by (induction xs arbitrary: b) (simp_all add: ri_radioifyVector_def Let_def)
  then show ?thesis by (simp add: ri_radioify_all_def)
qed

lemma receive_burst_radio: "ri_radio (ri_receive_burst E c n head i r) = ri_radio r"
  by (auto simp: ri_receive_burst_def ri_unRadioifyVector_def Let_def split_beta split: option.splits)

lemma receive_bursts_radio: "ri_radio (fold (\<lambda>i r. ri_receive_burst E c n head i r) xs r) = ri_radio r"
  by (induction xs arbitrary: r) (simp_all add: receive_burst_radio)

lemma cut_bursts_radio: "ri_cut_bursts fuel E head c n s r = Some r' \<Longrightarrow> ri_radio r' = ri_radio r"
proof (induction fuel arbitrary: c n s r)
  case (Suc fuel)
  let ?r1 = "fold (\<lambda>i r. ri_receive_burst E c (nat s) head i r) [0..<ri_chans r] r"
  show ?case
    using Suc.prems Suc.IH [of _ _ _ "?r1\<lparr>ri_clock := _\<rparr>"]
    by (subst (asm) ri_cut_bursts.simps)
      (auto simp: Let_def receive_bursts_radio split: if_splits option.splits dest!: Suc.IH)
qed (simp add: ri_cut_bursts.simps split: if_splits)

lemma push_loop_left:
  assumes "\<And>r b r'. push r = Some (b, r') \<Longrightarrow> m r' = m r"
  shows "object_push_loop n push r = Some r' \<Longrightarrow> m r' = m r"
  by (induction n arbitrary: r) (auto split: option.splits if_splits dest: assms)

lemma drive_left:
  assumes "device_keeps E left"
  shows "object_driveTransmitRadio E X M bursts r = Some r' \<Longrightarrow> object_left left r' = object_left left r"
    and "object_driveReceiveRadio E X M head r = Some (rc, r') \<Longrightarrow> object_left left r' = object_left left r"
proof -
  show "object_left left r' = object_left left r" if d: "object_driveTransmitRadio E X M bursts r = Some r'"
  proof (cases "ri_on (radio_base r)")
    case True
    have "object_left left r' = object_left left (set_base (ri_radioify_all bursts (radio_base r)) r)"
      using d True push_loop_left [OF object_buffer_left(2) [OF assms]]
      unfolding object_driveTransmitRadio_def Let_def by (simp del: object_push_loop.simps)
    then show ?thesis by (simp add: object_left_def radioify_all_radio)
  qed (use d in \<open>simp add: object_driveTransmitRadio_def\<close>)
  show "object_left left r' = object_left left r" if d: "object_driveReceiveRadio E X M head r = Some (rc, r')"
  proof (cases "ri_on (radio_base r)")
    case True
    then obtain rc1 r1 b where p: "object_pullBuffer E X M r = Some (rc1, r1)" "r' = set_base b r1"
        "ri_driveReceiveRadio E (\<lambda>b. Some (rc1, radio_base r1)) head (radio_base r) = Some (rc, b)"
      using d by (auto simp: object_driveReceiveRadio_def split: option.splits)
    have "ri_radio b = ri_radio (radio_base r1)"
      using p(3) True by (auto simp: ri_driveReceiveRadio_def Let_def split: if_splits option.splits dest!: cut_bursts_radio)
    then show ?thesis using object_buffer_left(1) [OF assms p(1)] p(2) by (simp add: object_left_def)
  qed (use d in \<open>simp add: object_driveReceiveRadio_def\<close>)
qed

section \<open>The contract of the transceiver\<close>

definition object_good :: "('a, 'h, 'd) radio_env \<Rightarrow> ('d \<Rightarrow> int) \<Rightarrow> int \<Rightarrow> ('a, 'd, 'c, 's) radio_object \<Rightarrow> bool" where
  "object_good E left n r = (ri_good E (radio_base r) \<and> device_keeps E left \<and> object_left left r = n)"

lemma ri_good_any: "ri_good E r \<Longrightarrow> ri_good E r'"
  by (simp add: ri_good_def)

lemma object_goodI:
  "object_good E left n r \<Longrightarrow> object_left left r' = object_left left r \<Longrightarrow> object_good E left n r'"
  using ri_good_any by (auto simp: object_good_def)

lemma object_good_keeps: "object_good E left n r \<Longrightarrow> device_keeps E left"
  by (simp add: object_good_def)

interpretation object_ctl: radio_contract "object_ops E X M head usrp1 latency" "object_good E left n"
  for E X M head usrp1 latency left n
proof
  fix r :: "('a, 'c, 'd, 'e) radio_object"
  assume g: "object_good E left n r"
  note k = object_good_keeps [OF g]
  show "\<exists>ok r'. ro_start (object_ops E X M head usrp1 latency) r = Some (ok, r') \<and> object_good E left n r'"
  proof -
    obtain ok b where s: "ri_start E (radio_base r) = Some (ok, b)"
      using ri_start_defined [of E "radio_base r"] g by (auto simp: object_good_def ri_good_def)
    have "object_good E left n (set_base b r)"
      by (rule object_goodI [OF g]) (simp add: object_left_def start_left [OF k s])
    then show ?thesis by (simp add: object_ops_def s)
  qed
  show "object_good E left n (snd (ro_stop (object_ops E X M head usrp1 latency) r))"
    by (rule object_goodI [OF g]) (simp add: object_ops_def on_base_left base_left [OF k])
  show "\<bar>fst (ro_setRxGain (object_ops E X M head usrp1 latency) a c r)\<bar> \<le> 2147483647 \<and>
      object_good E left n (snd (ro_setRxGain (object_ops E X M head usrp1 latency) a c r))" for a c
  proof
    show "\<bar>fst (ro_setRxGain (object_ops E X M head usrp1 latency) a c r)\<bar> \<le> 2147483647"
      using ri_gain_range [of E a c "radio_base r"] g
      by (simp add: object_ops_def on_base_def split_beta object_good_def ri_good_def)
    show "object_good E left n (snd (ro_setRxGain (object_ops E X M head usrp1 latency) a c r))"
      by (rule object_goodI [OF g]) (simp add: object_ops_def on_base_left base_left [OF k])
  qed
  show "object_good E left n (snd (ro_tuneTx (object_ops E X M head usrp1 latency) f c r))"
    "object_good E left n (snd (ro_tuneRx (object_ops E X M head usrp1 latency) f c r))" for f c
    by (rule object_goodI [OF g], simp add: object_ops_def object_tune_left [OF k])+
  show "in_s32 (fst (ro_setPowerAttenuation (object_ops E X M head usrp1 latency) p c r)) \<and>
      object_good E left n (snd (ro_setPowerAttenuation (object_ops E X M head usrp1 latency) p c r))" if "in_s32 p" for p c
  proof
    show "in_s32 (fst (ro_setPowerAttenuation (object_ops E X M head usrp1 latency) p c r))"
      using ri_power_range [OF that, of E c "radio_base r"] by (simp add: object_ops_def on_base_def split_beta)
    show "object_good E left n (snd (ro_setPowerAttenuation (object_ops E X M head usrp1 latency) p c r))"
      by (rule object_goodI [OF g]) (simp add: object_ops_def on_base_left base_left [OF k])
  qed
qed

end
