(* ===== verification/OsmoTrx.thy ===== *)
theory OsmoTrx
  imports TrxConfig RadioObject
begin

text \<open>
  The program (\<^verbatim>\<open>Transceiver52M/osmo-trx.cpp\<close>): command line, configuration, making and deleting the device, the radio
  interface and the transceiver, and the main loop with its signals. The device is the one that the program is linked
  with: \<open>oe_make\<close> to \<open>oe_delete\<close> are \<open>RadioDevice::make\<close>, \<open>open\<close> and \<open>delete\<close>, and \<open>oe_radio\<close> its other functions. A call
  on a null pointer and an access outside a vector are \<open>None\<close>. Log output, memory reports and the VTY and control
  servers are outside.
\<close>

section \<open>The environment\<close>

record ('a, 'h, 'd, 'c, 's) osmo_env =
  oe_radio :: "('a, 'h, 'd) radio_env"
  oe_resamp :: "'a resamp_env"
  oe_multi :: "('a, 'c, 's) multi_env"
  oe_dsp :: "'a list dsp_env"
  oe_make :: "nat \<Rightarrow> nat \<Rightarrow> interface_type \<Rightarrow> nat \<Rightarrow> real \<Rightarrow> string list \<Rightarrow> string list \<Rightarrow> 'd option"
  oe_open :: "string \<Rightarrow> reference \<Rightarrow> bool \<Rightarrow> 'd \<Rightarrow> (int \<times> 'd) option"
  oe_delete :: "'d \<Rightarrow> 'd"
  oe_usrp1 :: bool
  oe_latency :: gsm_time
  oe_head :: nat
  oe_setup :: bool
  oe_random :: nat
  oe_ts0 :: nat

definition osmo_ops :: "('a::zero, 'h, 'd, 'c, 's) osmo_env \<Rightarrow> ('a list, ('a, 'd, 'c, 's) radio_object) radio_ops" where
  "osmo_ops E = object_ops (oe_radio E) (oe_resamp E) (oe_multi E) (oe_head E) (oe_usrp1 E) (oe_latency E)"

definition DEFAULT_CONFIG_FILE :: string where "DEFAULT_CONFIG_FILE = ''osmo-trx.cfg''"

definition charp2str :: "string option \<Rightarrow> string" where
  "charp2str a = (case a of None \<Rightarrow> [] | Some s \<Rightarrow> s)"

section \<open>The command line\<close>

text \<open>The options that \<open>getopt_long\<close> returns, each with its argument. \<open>None\<close> for a list of paths is its flag not set.\<close>

record opt_state =
  op_cfg :: trx_cfg
  op_tx_paths :: "string list option"
  op_rx_paths :: "string list option"
  op_config_file :: string
  op_log_level :: int

definition opt_cfg :: "(trx_cfg \<Rightarrow> trx_cfg) \<Rightarrow> opt_state \<Rightarrow> opt_state option" where
  "opt_cfg f s = Some (s\<lparr>op_cfg := f (op_cfg s)\<rparr>)"

text \<open>\<open>None\<close> ends the program: the help, the version, and any option that is not known.\<close>

definition handle_option :: "vty_lib \<Rightarrow> char \<times> string \<Rightarrow> opt_state \<Rightarrow> opt_state option" where
  "handle_option L oa s =
    (let (option, optarg) = oa in
     if option = CHR ''h'' then None
     else if option = CHR ''a'' then opt_cfg (\<lambda>c. c\<lparr>cf_dev_args := Some optarg\<rparr>) s
     else if option = CHR ''l'' then Some (s\<lparr>op_log_level := c_atoi optarg\<rparr>)
     else if option = CHR ''i'' then opt_cfg (\<lambda>c. c\<lparr>cf_remote_addr := Some optarg\<rparr>) s
     else if option = CHR ''j'' then opt_cfg (\<lambda>c. c\<lparr>cf_bind_addr := Some optarg\<rparr>) s
     else if option = CHR ''p'' then opt_cfg (\<lambda>c. c\<lparr>cf_base_port := u32 (c_atoi optarg)\<rparr>) s
     else if option = CHR ''c'' then opt_cfg (\<lambda>c. c\<lparr>cf_num_chans := nat (u32 (c_atoi optarg))\<rparr>) s
     else if option = CHR ''m'' then opt_cfg (\<lambda>c. c\<lparr>cf_multi_arfcn := True\<rparr>) s
     else if option = CHR ''x'' then opt_cfg (\<lambda>c. c\<lparr>cf_clock_ref := REF_EXTERNAL\<rparr>) s
     else if option = CHR ''g'' then opt_cfg (\<lambda>c. c\<lparr>cf_clock_ref := REF_GPS\<rparr>) s
     else if option = CHR ''f'' then opt_cfg (\<lambda>c. c\<lparr>cf_filler := FILLER_DUMMY\<rparr>) s
     else if option = CHR ''o'' then opt_cfg (\<lambda>c. c\<lparr>cf_offset := vl_atof L optarg\<rparr>) s
     else if option = CHR ''s'' then opt_cfg (\<lambda>c. c\<lparr>cf_tx_sps := u32 (c_atoi optarg)\<rparr>) s
     else if option = CHR ''b'' then opt_cfg (\<lambda>c. c\<lparr>cf_rx_sps := u32 (c_atoi optarg)\<rparr>) s
     else if option = CHR ''r'' then
       opt_cfg (\<lambda>c. let c = c\<lparr>cf_rtsc_set := True, cf_rtsc := u32 (c_atoi optarg)\<rparr>
                    in if \<not> cf_egprs c then c\<lparr>cf_filler := FILLER_NORM_RAND\<rparr> else c) s
     else if option = CHR ''A'' then
       opt_cfg (\<lambda>c. c\<lparr>cf_rach_delay_set := True, cf_rach_delay := u32 (c_atoi optarg), cf_filler := FILLER_ACCESS_RAND\<rparr>) s
     else if option = CHR ''R'' then opt_cfg (\<lambda>c. c\<lparr>cf_rssi_offset := vl_atof L optarg\<rparr>) s
     else if option = CHR ''S'' then opt_cfg (\<lambda>c. c\<lparr>cf_swap_channels := True\<rparr>) s
     else if option = CHR ''e'' then opt_cfg (\<lambda>c. c\<lparr>cf_egprs := True\<rparr>) s
     else if option = CHR ''t'' then opt_cfg (\<lambda>c. c\<lparr>cf_sched_rr := u32 (c_atoi optarg)\<rparr>) s
     else if option = CHR ''y'' then Some (s\<lparr>op_tx_paths := Some (comma_delimited_to_vector optarg)\<rparr>)
     else if option = CHR ''z'' then Some (s\<lparr>op_rx_paths := Some (comma_delimited_to_vector optarg)\<rparr>)
     else if option = CHR ''C'' then Some (s\<lparr>op_config_file := optarg\<rparr>)
     else None)"

fun options_loop :: "vty_lib \<Rightarrow> (char \<times> string) list \<Rightarrow> opt_state \<Rightarrow> opt_state option" where
  "options_loop L [] s = Some s"
| "options_loop L (oa # args) s = (case handle_option L oa s of None \<Rightarrow> None | Some s \<Rightarrow> options_loop L args s)"

definition paths_differ :: "nat \<Rightarrow> string list option \<Rightarrow> bool" where
  "paths_differ n paths = (case paths of None \<Rightarrow> False | Some ps \<Rightarrow> length ps \<noteq> n)"

definition chan_option :: "string list option \<Rightarrow> string list option \<Rightarrow> nat \<Rightarrow> trx_chan \<Rightarrow> trx_chan" where
  "chan_option tx_paths rx_paths i ch =
    (let ch = ch\<lparr>tc_idx := int i\<rparr>;
         ch = (case tx_paths of None \<Rightarrow> ch | Some ps \<Rightarrow> ch\<lparr>tc_tx_path := Some (ps ! i)\<rparr>)
     in case rx_paths of None \<Rightarrow> ch | Some ps \<Rightarrow> ch\<lparr>tc_rx_path := Some (ps ! i)\<rparr>)"

definition handle_options :: "vty_lib \<Rightarrow> (char \<times> string) list \<Rightarrow> opt_state \<Rightarrow> opt_state option" where
  "handle_options L args s0 =
    (case options_loop L args s0 of
       None \<Rightarrow> None
     | Some s \<Rightarrow>
         let n = cf_num_chans (op_cfg s); chs = cf_chans (op_cfg s)
         in if n > TRX_CHAN_MAX then None
            else if paths_differ n (op_tx_paths s) \<or> paths_differ n (op_rx_paths s) then None
            else opt_cfg (\<lambda>c. c\<lparr>cf_chans :=
              map (\<lambda>i. if i < n then chan_option (op_tx_paths s) (op_rx_paths s) i (chs ! i) else chs ! i) [0..<length chs]\<rparr>) s)"

definition trx_validate_config :: "trx_cfg \<Rightarrow> int" where
  "trx_validate_config c =
    (if cf_multi_arfcn c \<and> cf_num_chans c > 5 then - 1
     else if (cf_egprs c \<or> cf_multi_arfcn c) \<and> (cf_tx_sps c \<noteq> 4 \<or> cf_rx_sps c \<noteq> 4) then - 1
     else 0)"

section \<open>Starting\<close>

text \<open>An interface type as the number that \<open>open\<close> returns.\<close>

definition interface_of_code :: "int \<Rightarrow> interface_type option" where
  "interface_of_code type = map_of (map (\<lambda>t. (interface_code t, t)) [NORMAL, RESAMP_64M, RESAMP_100M, MULTI_ARFCN]) type"

definition new_object :: "('a, 'h, 'd, 'c, 's) osmo_env \<Rightarrow> trx_cfg \<Rightarrow> 'd \<Rightarrow> interface_type \<Rightarrow> ('a, 'd, 'c, 's) radio_object" where
  "new_object E c usrp type =
    (let tx_sps = nat (cf_tx_sps c); rx_sps = nat (cf_rx_sps c); n = cf_num_chans c
     in case type of
          NORMAL \<Rightarrow> Plain (ri_new usrp tx_sps rx_sps n 3 (Time 0 0) (oe_ts0 E))
        | MULTI_ARFCN \<Rightarrow> Multi (rm_new usrp tx_sps rx_sps n (oe_ts0 E))
        | _ \<Rightarrow> Resamp (rr_new usrp tx_sps rx_sps (oe_ts0 E)))"

text \<open>An object whose \<open>init\<close> fails is lost: it is returned on the right.\<close>

definition makeRadioInterface :: "('a, 'h, 'd, 'c, 's) osmo_env \<Rightarrow> trx_cfg \<Rightarrow> 'd \<Rightarrow> int \<Rightarrow>
    ('a, 'd, 'c, 's) radio_object option \<times> ('a, 'd, 'c, 's) radio_object option" where
  "makeRadioInterface E c usrp type =
    (case interface_of_code type of
       None \<Rightarrow> (None, None)
     | Some t \<Rightarrow>
         (case object_init (oe_radio E) (oe_resamp E) (oe_multi E) t (new_object E c usrp t) of
            (ok, radio) \<Rightarrow> if \<not> ok then (None, Some radio) else (Some radio, None)))"

text \<open>The callback for the signals of the transceiver has the number 0.\<close>

fun attach_fifos :: "nat list \<Rightarrow> ('a list, ('a, 'd, 'c, 's) radio_object) transceiver \<Rightarrow>
    bool \<times> ('a list, ('a, 'd, 'c, 's) radio_object) transceiver" where
  "attach_fifos [] t = (True, t)"
| "attach_fifos (i # is) t =
     (case ri_fifo i (radio_base (tr_mRadioInterface t)) of
        None \<Rightarrow> (False, t)
      | Some fifo \<Rightarrow> (case trx_receiveFIFO (Some i) i t of (ok, t) \<Rightarrow> if ok then attach_fifos is t else (False, t)))"

definition makeTransceiver :: "('a::zero, 'h, 'd, 'c, 's) osmo_env \<Rightarrow> trx_cfg \<Rightarrow> ('a, 'd, 'c, 's) radio_object \<Rightarrow>
    (int \<times> ('a list, ('a, 'd, 'c, 's) radio_object) transceiver) option" where
  "makeTransceiver E c radio =
    (let t = trx_new (osmo_ops E) (cf_base_port c) (nat (cf_tx_sps c)) (nat (cf_rx_sps c)) (cf_num_chans c) (Time 3 0) radio
               (cf_rssi_offset c)
     in case trx_init (oe_dsp E) (osmo_ops E) (oe_setup E) (oe_random E) (cf_filler c) (nat (cf_rtsc c))
            (nat (cf_rach_delay c)) (cf_egprs c) (cf_ext_rach c) t of
          None \<Rightarrow> None
        | Some (ok, t) \<Rightarrow>
            if \<not> ok then Some (- 1, t)
            else (case attach_fifos [0..<cf_num_chans c] (trx_setSignalHandler (Some 0) t) of
                    (ok, t) \<Rightarrow> Some (if ok then 0 else - 1, t)))"

text \<open>What the pointers \<open>usrp\<close>, \<open>radio\<close> and \<open>transceiver\<close> point to: an object holds the state of the one it uses.\<close>

datatype ('a, 'd, 'c, 's) objects =
  Device 'd
| Radio "('a, 'd, 'c, 's) radio_object"
| Core "('a list, ('a, 'd, 'c, 's) radio_object) transceiver"

text \<open>\<open>trx_stop\<close> deletes them and gives the device as its destructor leaves it, and the threads that still run. The
  destructor of the transceiver cancels the control thread of each channel, which must exist.\<close>

definition delete_transceiver :: "('v, 'r) radio_ops \<Rightarrow> ('v, 'r) transceiver \<Rightarrow> ('r \<times> trx_thread list) option" where
  "delete_transceiver R t =
    (let t1 = snd (trx_delete R t)
     in if set (map CtrlService [0..<tr_mChans t]) \<subseteq> set (tr_threads t)
        then Some (tr_mRadioInterface t1, tr_threads t1) else None)"

definition delete_radio :: "('a, 'h, 'd, 'c, 's) osmo_env \<Rightarrow> ('a, 'd, 'c, 's) radio_object \<Rightarrow> 'd" where
  "delete_radio E r = oe_delete E (ri_radio (radio_base (object_destroy r)))"

definition trx_stop :: "('a::zero, 'h, 'd, 'c, 's) osmo_env \<Rightarrow> ('a, 'd, 'c, 's) objects \<Rightarrow> ('d \<times> trx_thread list) option" where
  "trx_stop E objs =
    (case objs of
       Device d \<Rightarrow> Some (oe_delete E d, [])
     | Radio r \<Rightarrow> Some (delete_radio E r, [])
     | Core t \<Rightarrow>
         (case delete_transceiver (osmo_ops E) t of
            None \<Rightarrow> None
          | Some (r, threads) \<Rightarrow> Some (delete_radio E r, threads)))"

text \<open>\<open>trx_start\<close> returns 0 with the transceiver, or -1 after \<open>trx_stop\<close>, then with the radio interface that was lost.\<close>

datatype ('a, 'd, 'c, 's) started =
  Started "('a list, ('a, 'd, 'c, 's) radio_object) transceiver"
| Failed 'd "trx_thread list" "('a, 'd, 'c, 's) radio_object option"

definition shutdown :: "('a::zero, 'h, 'd, 'c, 's) osmo_env \<Rightarrow> ('a, 'd, 'c, 's) objects \<Rightarrow>
    ('a, 'd, 'c, 's) radio_object option \<Rightarrow> ('a, 'd, 'c, 's) started option" where
  "shutdown E objs lost = map_option (\<lambda>(d, threads). Failed d threads lost) (trx_stop E objs)"

text \<open>The device with the paths of the channels, and its opening.\<close>

definition make_device :: "('a, 'h, 'd, 'c, 's) osmo_env \<Rightarrow> trx_cfg \<Rightarrow> 'd option" where
  "make_device E c =
    (let iface = (if cf_multi_arfcn c then MULTI_ARFCN else NORMAL); n = cf_num_chans c;
         rx_paths = map (\<lambda>i. charp2str (tc_rx_path (cf_chans c ! i))) [0..<n];
         tx_paths = map (\<lambda>i. charp2str (tc_tx_path (cf_chans c ! i))) [0..<n]
     in oe_make E (nat (cf_tx_sps c)) (nat (cf_rx_sps c)) iface n (cf_offset c) tx_paths rx_paths)"

definition open_device :: "('a, 'h, 'd, 'c, 's) osmo_env \<Rightarrow> trx_cfg \<Rightarrow> 'd \<Rightarrow> (int \<times> 'd) option" where
  "open_device E c usrp = oe_open E (charp2str (cf_dev_args c)) (cf_clock_ref c) (cf_swap_channels c) usrp"

definition trx_start :: "('a::zero, 'h, 'd, 'c, 's) osmo_env \<Rightarrow> trx_cfg \<Rightarrow> ('a, 'd, 'c, 's) started option" where
  "trx_start E c =
    (case make_device E c of
       None \<Rightarrow> None
     | Some usrp \<Rightarrow>
       (case open_device E c usrp of
          None \<Rightarrow> None
        | Some (type, usrp) \<Rightarrow>
          if type < 0 then shutdown E (Device usrp) None
          else (case makeRadioInterface E c usrp type of
            (None, lost) \<Rightarrow> shutdown E (Device usrp) lost
          | (Some radio, _) \<Rightarrow>
            (case makeTransceiver E c radio of
               None \<Rightarrow> None
             | Some (rc, t) \<Rightarrow> if rc < 0 then shutdown E (Core t) None else Some (Started t)))))"

section \<open>Signals and the main loop\<close>

datatype sig_action = TallocReport | TallocReportFull | LogReopen

text \<open>The numbers of the signals are those of Linux. During a shutdown nothing is done.\<close>

definition sig_handler :: "int \<Rightarrow> bool \<Rightarrow> sig_action list \<times> bool" where
  "sig_handler signo gshutdown =
    (if gshutdown then ([], gshutdown)
     else if signo = 2 \<or> signo = 15 then ([], True)
     else if signo = 6 \<or> signo = 10 then ([TallocReport, TallocReportFull], gshutdown)
     else if signo = 12 then ([TallocReportFull], gshutdown)
     else if signo = 1 then ([LogReopen], gshutdown)
     else ([], gshutdown))"

text \<open>The signal read from the descriptor, or \<open>None\<close> when reading fails.\<close>

definition signalfd_callback :: "int option \<Rightarrow> bool \<Rightarrow> sig_action list \<times> bool" where
  "signalfd_callback read gshutdown = (case read of None \<Rightarrow> ([], True) | Some signo \<Rightarrow> sig_handler signo gshutdown)"

definition transc_sig_cb :: "bool \<Rightarrow> bool \<Rightarrow> bool" where
  "transc_sig_cb stop_required gshutdown = (if stop_required then True else gshutdown)"

text \<open>
  The steps of the running program: a signal read by the main loop, another descriptor served by it, a signal of the
  transceiver, which a thread raises and which does not wake the main loop, and the work of the threads: a control message
  on a channel, and a call of each driver of the radio.
\<close>

datatype 'a run_step =
  Signal "int option" | OtherFd | TranscSignal bool
| Control nat string "int \<times> int" | Receive | Transmit "('a list option \<times> bool) list"

definition serve_step :: "('a::zero, 'h, 'd, 'c, 's) osmo_env \<Rightarrow> 'a run_step \<Rightarrow>
    ('a list, ('a, 'd, 'c, 's) radio_object) transceiver \<Rightarrow> ('a list, ('a, 'd, 'c, 's) radio_object) transceiver option" where
  "serve_step E s t =
    (case s of
       Control chan msg junk \<Rightarrow>
         if chan < tr_mChans t then map_option snd (driveControl (osmo_ops E) chan msg junk t) else Some t
     | Receive \<Rightarrow>
         map_option (\<lambda>(rc, r). t\<lparr>tr_mRadioInterface := r\<rparr>) (ro_driveReceiveRadio (osmo_ops E) (tr_mRadioInterface t))
     | Transmit bursts \<Rightarrow>
         map_option (\<lambda>r. t\<lparr>tr_mRadioInterface := r\<rparr>) (ro_driveTransmitRadio (osmo_ops E) bursts (tr_mRadioInterface t))
     | _ \<Rightarrow> Some t)"

text \<open>The flag is looked at whenever the select of the main loop returns. The result is \<open>None\<close> inside while it waits.\<close>

fun main_loop :: "('a::zero, 'h, 'd, 'c, 's) osmo_env \<Rightarrow> bool \<Rightarrow> 'a run_step list \<Rightarrow>
    ('a list, ('a, 'd, 'c, 's) radio_object) transceiver \<Rightarrow> ('a list, ('a, 'd, 'c, 's) radio_object) transceiver option option" where
  "main_loop E gshutdown [] t = Some None"
| "main_loop E gshutdown (s # steps) t =
     (case s of
        Signal read \<Rightarrow>
          (let gshutdown = snd (signalfd_callback read gshutdown)
           in if gshutdown then Some (Some t) else main_loop E gshutdown steps t)
      | OtherFd \<Rightarrow> if gshutdown then Some (Some t) else main_loop E gshutdown steps t
      | TranscSignal stop_required \<Rightarrow> main_loop E (transc_sig_cb stop_required gshutdown) steps t
      | _ \<Rightarrow> (case serve_step E s t of None \<Rightarrow> None | Some t \<Rightarrow> main_loop E gshutdown steps t))"

section \<open>The program\<close>

text \<open>The commands of a configuration file, and whether the servers and the scheduler accept.\<close>

record main_env =
  mn_file :: "string \<Rightarrow> string list option"
  mn_telnet :: bool
  mn_ctrl :: bool
  mn_sched :: "int \<Rightarrow> bool"

text \<open>The exit code, with the device and the threads that \<open>trx_stop\<close> leaves when it was called.\<close>

datatype 'd main_end = Exit int "('d \<times> trx_thread list) option" | Running

definition default_chan :: "trx_cfg \<Rightarrow> trx_cfg" where
  "default_chan c =
    (if cf_num_chans c = 0 then c\<lparr>cf_num_chans := 1, cf_chans := (cf_chans c)[0 := (cf_chans c ! 0)\<lparr>tc_idx := 0\<rparr>]\<rparr> else c)"

definition opt_start :: opt_state where
  "opt_start = \<lparr>op_cfg = vty_trx_ctx_alloc, op_tx_paths = None, op_rx_paths = None, op_config_file = DEFAULT_CONFIG_FILE,
    op_log_level = 0\<rparr>"

definition run_program :: "('a::zero, 'h, 'd, 'c, 's) osmo_env \<Rightarrow> trx_cfg \<Rightarrow> 'a run_step list \<Rightarrow> 'd main_end option" where
  "run_program E c steps =
    (case trx_start E c of
       None \<Rightarrow> None
     | Some (Failed d threads lost) \<Rightarrow> Some (Exit 1 (Some (d, threads)))
     | Some (Started t) \<Rightarrow>
       (case main_loop E False steps t of
          None \<Rightarrow> None
        | Some None \<Rightarrow> Some Running
        | Some (Some t) \<Rightarrow> map_option (\<lambda>r. Exit 0 (Some r)) (trx_stop E (Core t))))"

definition main :: "vty_lib \<Rightarrow> main_env \<Rightarrow> ('a::zero, 'h, 'd, 'c, 's) osmo_env \<Rightarrow> (char \<times> string) list \<Rightarrow> 'a run_step list \<Rightarrow>
    'd main_end option" where
  "main L M E args steps =
    (case handle_options L args opt_start of
       None \<Rightarrow> Some (Exit 0 None)
     | Some s \<Rightarrow>
       (case mn_file M (op_config_file s) of
          None \<Rightarrow> Some (Exit 2 None)
        | Some lines \<Rightarrow>
          (case read_file L lines (vty_start\<lparr>vt_cfg := op_cfg s\<rparr>) of
             None \<Rightarrow> Some (Exit 2 None)
           | Some v \<Rightarrow>
             if \<not> mn_telnet M \<or> \<not> mn_ctrl M then Some (Exit 1 None)
             else
               let c = default_chan (vt_cfg v)
               in if trx_validate_config c < 0 then Some (Exit 1 None)
                  else if cf_sched_rr c \<noteq> 0 \<and> \<not> mn_sched M (cf_sched_rr c) then Some (Exit 1 None)
                  else run_program E c steps)))"

section \<open>The main loop\<close>

text \<open>The loop ends at the first signal that asks for it, or at the next event after a thread has asked for it.\<close>

definition asks_stop :: "'a run_step \<Rightarrow> bool" where
  "asks_stop s = (case s of Signal read \<Rightarrow> read = None \<or> read = Some 2 \<or> read = Some 15 | TranscSignal b \<Rightarrow> b | _ \<Rightarrow> False)"

definition wakes :: "'a run_step \<Rightarrow> bool" where
  "wakes s = (case s of Signal read \<Rightarrow> True | OtherFd \<Rightarrow> True | _ \<Rightarrow> False)"

lemma signalfd_stop: "snd (signalfd_callback read g) = (g \<or> asks_stop (Signal read :: 'a run_step))"
  by (auto simp: signalfd_callback_def sig_handler_def asks_stop_def split: option.split)

lemma main_loop_step:
  assumes "main_loop E g (s # steps) t = Some r"
  shows "if wakes s \<and> (g \<or> asks_stop s) then r = Some t
    else \<exists>t'. (t' = t \<or> serve_step E s t = Some t') \<and> main_loop E (g \<or> asks_stop s) steps t' = Some r"
  using assms
  by (cases s) (auto simp: wakes_def asks_stop_def transc_sig_cb_def signalfd_callback_def sig_handler_def
      split: option.splits if_splits)

lemma main_loop_ends:
  assumes "main_loop E g steps t = Some r"
  shows "(r = None) = (\<forall>i < length steps. wakes (steps ! i) \<longrightarrow> \<not> g \<and> (\<forall>j \<le> i. \<not> asks_stop (steps ! j)))"
  using assms
proof (induction steps arbitrary: g t)
  case (Cons s steps)
  have j: "(\<forall>j \<le> Suc i. P j) = (P 0 \<and> (\<forall>j \<le> i. P (Suc j)))" for P i
    by (metis Suc_le_mono le0 not0_implies_Suc)
  have split: "(\<forall>i < length (s # steps). wakes ((s # steps) ! i) \<longrightarrow> \<not> g \<and> (\<forall>j \<le> i. \<not> asks_stop ((s # steps) ! j))) =
    ((wakes s \<longrightarrow> \<not> (g \<or> asks_stop s)) \<and>
     (\<forall>i < length steps. wakes (steps ! i) \<longrightarrow> \<not> (g \<or> asks_stop s) \<and> (\<forall>j \<le> i. \<not> asks_stop (steps ! j))))"
    unfolding list.size add_Suc_right add_0_right All_less_Suc2 by (auto simp: j)
  show ?case
  proof (cases "wakes s \<and> (g \<or> asks_stop s)")
    case True
    then show ?thesis using main_loop_step [OF Cons.prems] unfolding split by simp
  next
    case False
    then obtain t' where "main_loop E (g \<or> asks_stop s) steps t' = Some r"
      using main_loop_step [OF Cons.prems] by auto
    from Cons.IH [OF this] show ?thesis using False unfolding split by blast
  qed
qed simp

section \<open>The transceiver while it runs and when it is deleted\<close>

lemma driveControl_inv:
  assumes "radio_contract R good" and "trx_inv good t" and "chan < tr_mChans t" and "driveControl R chan msg junk t = Some (resp, t')"
  shows "trx_inv good t' \<and> tr_mChans t' = tr_mChans t"
  using radio_contract.driveControl_ok [OF assms(1,2) _ assms(3), of False msg junk] assms(4)
  by (simp add: ctl_ok_def noise_ok_def)

lemma trx_inv_radio: "trx_inv good t \<Longrightarrow> good r \<Longrightarrow> trx_inv good (t\<lparr>tr_mRadioInterface := r\<rparr>)"
  by (simp add: trx_inv_def)

lemma serve_step_inv:
  assumes "trx_inv (object_good (oe_radio E) left n) t" and "serve_step E s t = Some t'"
  shows "trx_inv (object_good (oe_radio E) left n) t'"
proof -
  have g: "object_good (oe_radio E) left n (tr_mRadioInterface t)" using assms(1) by (simp add: trx_inv_def)
  note d = drive_left [OF object_good_keeps [OF g]]
  show ?thesis
  proof (cases s)
    case (Control chan msg junk)
    then show ?thesis
      using assms driveControl_inv [OF object_ctl.radio_contract_axioms assms(1), of chan]
      by (fastforce simp: serve_step_def osmo_ops_def split: if_splits)
  next
    case Receive
    then obtain rc r where "object_driveReceiveRadio (oe_radio E) (oe_resamp E) (oe_multi E) (oe_head E) (tr_mRadioInterface t) =
        Some (rc, r)" "t' = t\<lparr>tr_mRadioInterface := r\<rparr>"
      using assms(2) by (auto simp: serve_step_def osmo_ops_def object_ops_def)
    then show ?thesis using trx_inv_radio [OF assms(1) object_goodI [OF g d(2)]] by simp
  next
    case (Transmit bursts)
    then obtain xs r where "object_driveTransmitRadio (oe_radio E) (oe_resamp E) (oe_multi E) xs (tr_mRadioInterface t) = Some r"
        "t' = t\<lparr>tr_mRadioInterface := r\<rparr>"
      using assms(2) by (auto simp: serve_step_def osmo_ops_def object_ops_def split: if_splits)
    then show ?thesis using trx_inv_radio [OF assms(1) object_goodI [OF g d(1)]] by simp
  qed (use assms in \<open>simp_all add: serve_step_def\<close>)
qed

lemma main_loop_inv:
  assumes "trx_inv (object_good (oe_radio E) left n) t" and "main_loop E g steps t = Some (Some t')"
  shows "trx_inv (object_good (oe_radio E) left n) t'"
  using assms
proof (induction steps arbitrary: g t)
  case (Cons s steps)
  show ?case
  proof (cases "wakes s \<and> (g \<or> asks_stop s)")
    case True
    then show ?thesis using main_loop_step [OF Cons.prems(2)] Cons.prems(1) by simp
  next
    case False
    then obtain t1 where "t1 = t \<or> serve_step E s t = Some t1" "main_loop E (g \<or> asks_stop s) steps t1 = Some (Some t')"
      using main_loop_step [OF Cons.prems(2)] unfolding if_not_P [OF False] by blast
    then show ?thesis using Cons.IH Cons.prems(1) serve_step_inv by blast
  qed
qed simp

lemma delete_transceiver_inv:
  assumes "radio_contract R good" and "trx_inv good t"
  shows "\<exists>r. delete_transceiver R t = Some (r, []) \<and> good r"
proof -
  define t1 where "t1 = snd (TrxControl.trx_stop R t)"
  note s = trx_stop_inv [OF assms, folded t1_def]
  have m: "mset (tr_threads t1) = mset (map CtrlService [0..<tr_mChans t1])" using s by (simp add: trx_inv_def)
  have "tr_threads (snd (trx_delete R t)) = fold remove1 (map CtrlService [0..<tr_mChans t1]) (tr_threads t1)"
    and r: "tr_mRadioInterface (snd (trx_delete R t)) = tr_mRadioInterface t1"
    by (simp_all add: trx_delete_def t1_def split_beta Let_def)
  then have "mset (tr_threads (snd (trx_delete R t))) = {#}" using m by (simp add: mset_fold_remove1)
  then have e: "tr_threads (snd (trx_delete R t)) = []" by simp
  have "set_mset (mset (map CtrlService [0..<tr_mChans t])) \<subseteq> set_mset (mset (tr_threads t))"
    using assms(2) by (auto simp: trx_inv_def)
  then have "set (map CtrlService [0..<tr_mChans t]) \<subseteq> set (tr_threads t)" by simp
  then show ?thesis using s e r by (simp add: delete_transceiver_def Let_def trx_inv_def)
qed

section \<open>Starting succeeds or undoes itself\<close>

text \<open>The radio interfaces that can be made: the plain one for any channels, the multi-carrier one for up to three, and
  the resampling one, whatever the number of channels.\<close>

definition radio_possible :: "('a, 'h, 'd, 'c, 's) osmo_env \<Rightarrow> trx_cfg \<Rightarrow> interface_type \<Rightarrow> bool" where
  "radio_possible E c type =
    (case type of
       NORMAL \<Rightarrow> cf_num_chans c \<noteq> 0
     | MULTI_ARFCN \<Rightarrow> cf_num_chans c \<in> {1, 2, 3} \<and> dn_init (oe_multi E) \<and> up_init (oe_multi E) \<and> chz_init (oe_multi E) \<and>
         syn_init (oe_multi E)
     | _ \<Rightarrow> rs_dn_init (oe_resamp E) \<and> rs_up_init (oe_resamp E) (if nat (cf_tx_sps c) = 4 then 0.45 else 1))"

definition radio_fifos :: "trx_cfg \<Rightarrow> interface_type \<Rightarrow> nat" where
  "radio_fifos c type = (if type = NORMAL \<or> type = MULTI_ARFCN then cf_num_chans c else 1)"

lemma ri_init_result:
  assumes "ri_init R type r = (ok, r')" and "ri_receiveFIFO r = []"
  shows "ok = (type = NORMAL \<and> ri_chans r \<noteq> 0)" "ri_radio r' = ri_radio r"
    "ok \<Longrightarrow> length (ri_receiveFIFO r') = ri_chans r"
  using assms by (auto simp: ri_init_def ri_close_def vec_resize_def Let_def split: if_splits)

lemma rr_init_object:
  assumes "rr_init R X type m = (ok, m')" and "ri_receiveFIFO (rr_base m) = []"
  shows "ok = ((type = RESAMP_64M \<or> type = RESAMP_100M) \<and> rs_dn_init X \<and> rs_up_init X (if ri_SPSTx (rr_base m) = 4 then 0.45 else 1))"
    "ri_radio (rr_base m') = ri_radio (rr_base m)" "ok \<Longrightarrow> length (ri_receiveFIFO (rr_base m')) = 1"
  using assms
  by (cases type; auto simp: rr_init_def rr_close_def rr_rates_def ri_close_def vec_resize_def Let_def split: if_splits)+

lemma rm_init_result:
  assumes "rm_init R M m = (ok, m')"
  shows "ok = (ri_chans (rm_base m) \<in> {1, 2, 3} \<and> dn_init M \<and> up_init M \<and> chz_init M \<and> syn_init M)"
    "ri_radio (rm_base m') = ri_radio (rm_base m)" "ok \<Longrightarrow> length (ri_receiveFIFO (rm_base m')) = ri_chans (rm_base m)"
proof -
  have "625 * 2 \<le> RESAMP_INRATE * 4 * MULTI_NUMCHUNKS" by (simp add: RESAMP_INRATE_def MULTI_NUMCHUNKS_def)
  then show "ok = (ri_chans (rm_base m) \<in> {1, 2, 3} \<and> dn_init M \<and> up_init M \<and> chz_init M \<and> syn_init M)"
    "ri_radio (rm_base m') = ri_radio (rm_base m)" "ok \<Longrightarrow> length (ri_receiveFIFO (rm_base m')) = ri_chans (rm_base m)"
    using assms
    by (auto simp: rm_init_def rm_close_def ri_close_def rm_active_map_def MCHANS_def Let_def split: if_splits)
qed

lemma object_init_result:
  assumes "object_init (oe_radio E) (oe_resamp E) (oe_multi E) type (new_object E c usrp type) = (ok, r)"
  shows "ok = radio_possible E c type" "ri_radio (radio_base r) = usrp"
    "ok \<Longrightarrow> length (ri_receiveFIFO (radio_base r)) = radio_fifos c type"
proof -
  let ?tx = "nat (cf_tx_sps c)" and ?rx = "nat (cf_rx_sps c)" and ?n = "cf_num_chans c"
  have "ok = radio_possible E c type \<and> ri_radio (radio_base r) = usrp \<and>
    (ok \<longrightarrow> length (ri_receiveFIFO (radio_base r)) = radio_fifos c type)"
  proof (cases "type = NORMAL")
    case True
    obtain ok1 r1 where i: "ri_init (oe_radio E) type (ri_new usrp ?tx ?rx ?n 3 (Time 0 0) (oe_ts0 E)) = (ok1, r1)" by fastforce
    have "ok = ok1" "r = Plain r1" using assms True i by (simp_all add: object_init_def new_object_def Let_def)
    then show ?thesis using ri_init_result [OF i] True by (simp add: ri_new_def radio_possible_def radio_fifos_def)
  next
    case nn: False
    show ?thesis
    proof (cases "type = MULTI_ARFCN")
      case True
      obtain ok1 m1 where i: "rm_init (oe_radio E) (oe_multi E) (rm_new usrp ?tx ?rx ?n (oe_ts0 E)) = (ok1, m1)" by fastforce
      have "ok = ok1" "r = Multi m1" using assms True i by (simp_all add: object_init_def new_object_def Let_def)
      then show ?thesis using rm_init_result [OF i] True by (simp add: rm_new_def ri_new_def radio_possible_def radio_fifos_def)
    next
      case False
      then have t: "type = RESAMP_64M \<or> type = RESAMP_100M" using nn by (cases type) simp_all
      obtain ok1 m1 where i: "rr_init (oe_radio E) (oe_resamp E) type (rr_new usrp ?tx ?rx (oe_ts0 E)) = (ok1, m1)" by fastforce
      have "ok = ok1" "r = Resamp m1" using assms t i by (auto simp: object_init_def new_object_def Let_def)
      then show ?thesis using rr_init_object [OF i] t by (auto simp: rr_new_def ri_new_def radio_possible_def radio_fifos_def)
    qed
  qed
  then show "ok = radio_possible E c type" "ri_radio (radio_base r) = usrp"
    "ok \<Longrightarrow> length (ri_receiveFIFO (radio_base r)) = radio_fifos c type" by simp_all
qed

section \<open>The transceiver of a configuration\<close>

lemma attach_fifos_inv:
  assumes "trx_inv good t"
  shows "trx_inv good (snd (attach_fifos is t)) \<and> tr_mChans (snd (attach_fifos is t)) = tr_mChans t \<and>
    tr_mRadioInterface (snd (attach_fifos is t)) = tr_mRadioInterface t \<and> tr_mOn (snd (attach_fifos is t)) = tr_mOn t"
  using assms
proof (induction "is" arbitrary: t)
  case (Cons i "is")
  have u: "trx_inv good (t\<lparr>tr_mReceiveFIFO := q\<rparr>)" for q using Cons.prems by (simp add: trx_inv_def)
  show ?case using Cons.IH [OF u] Cons.prems by (auto simp: trx_receiveFIFO_def split: option.split)
qed simp

lemma attach_fifos_all:
  assumes "\<forall>i \<in> set is. i < length (ri_receiveFIFO (radio_base (tr_mRadioInterface t))) \<and> i < length (tr_mReceiveFIFO t)"
  shows "attach_fifos is t = (True, t\<lparr>tr_mReceiveFIFO := fold (\<lambda>i xs. xs[i := Some i]) is (tr_mReceiveFIFO t)\<rparr>)"
  using assms
proof (induction "is" arbitrary: t)
  case (Cons i "is")
  let ?t = "t\<lparr>tr_mReceiveFIFO := (tr_mReceiveFIFO t)[i := Some i]\<rparr>"
  have "attach_fifos is ?t = (True, ?t\<lparr>tr_mReceiveFIFO := fold (\<lambda>i xs. xs[i := Some i]) is (tr_mReceiveFIFO ?t)\<rparr>)"
    by (rule Cons.IH) (use Cons.prems in auto)
  then show ?case using Cons.prems by (simp add: ri_fifo_def trx_receiveFIFO_def)
qed simp

lemma attach_fifos_fails:
  assumes "i \<in> set is" and "length (ri_receiveFIFO (radio_base (tr_mRadioInterface t))) \<le> i"
  shows "\<not> fst (attach_fifos is t)"
  using assms
proof (induction "is" arbitrary: t)
  case (Cons j "is")
  show ?case
  proof (cases "i = j")
    case False
    then have "i \<in> set is" using Cons.prems(1) by simp
    then show ?thesis using Cons.IH Cons.prems(2) by (auto simp: trx_receiveFIFO_def split: option.split)
  qed (use Cons.prems in \<open>simp add: ri_fifo_def\<close>)
qed simp

lemma fold_some: "fold (\<lambda>i xs. xs[i := Some i]) [0..<n] (replicate n None) = map Some [0..<n]"
proof -
  have "fold (\<lambda>i xs. xs[i := Some i]) [0..<k] (replicate n None) = map Some [0..<k] @ replicate (n - k) None" if "k \<le> n" for k
    using that
  proof (induction k)
    case (Suc k)
    have "(map Some [0..<k] @ replicate (n - k) None)[k := Some k] = map Some [0..<Suc k] @ replicate (n - Suc k) None"
      using Suc.prems by (simp add: list_update_append Suc_diff_Suc [symmetric])
    then show ?case using Suc by simp
  qed simp
  from this [of n] show ?thesis by simp
qed

lemma setSignalHandler_same:
  "trx_inv good (trx_setSignalHandler f t) = trx_inv good t" "tr_mChans (trx_setSignalHandler f t) = tr_mChans t"
  "tr_mReceiveFIFO (trx_setSignalHandler f t) = tr_mReceiveFIFO t" "tr_mOn (trx_setSignalHandler f t) = tr_mOn t"
  "tr_mRadioInterface (trx_setSignalHandler f t) = tr_mRadioInterface t" "tr_mSPSTx (trx_setSignalHandler f t) = tr_mSPSTx t"
  "tr_mSPSRx (trx_setSignalHandler f t) = tr_mSPSRx t" "tr_mBasePort (trx_setSignalHandler f t) = tr_mBasePort t"
  by (simp_all add: trx_setSignalHandler_def trx_inv_def Let_def split: option.split)

text \<open>What the environment is relied on for: the signal processing library sets up and makes every filler burst, and the
  device needs no alignment and keeps its gains in range.\<close>

definition osmo_ready :: "('a, 'h, 'd, 'c, 's) osmo_env \<Rightarrow> ('d \<Rightarrow> int) \<Rightarrow> bool" where
  "osmo_ready E left =
    (oe_setup E \<and> dsp_total (oe_dsp E) \<and> device_keeps (oe_radio E) left \<and>
     (\<forall>d. \<not> dev_requiresRadioAlign (oe_radio E) d) \<and> (\<forall>g c d. \<bar>fst (dev_setRxGain (oe_radio E) g c d)\<bar> \<le> 2147483647))"

lemma ready_good: "osmo_ready E left \<Longrightarrow> object_good (oe_radio E) left (left (ri_radio (radio_base r))) r"
  by (simp add: osmo_ready_def object_good_def ri_good_def object_left_def)

definition transceiver_made :: "trx_cfg \<Rightarrow> 'd \<Rightarrow> ('a list, ('a, 'd, 'c, 's) radio_object) transceiver \<Rightarrow> bool" where
  "transceiver_made c usrp t =
    (tr_mChans t = cf_num_chans c \<and> tr_mReceiveFIFO t = map Some [0..<cf_num_chans c] \<and> tr_mBasePort t = cf_base_port c \<and>
     tr_mSPSTx t = nat (cf_tx_sps c) \<and> tr_mSPSRx t = nat (cf_rx_sps c) \<and> \<not> tr_mOn t \<and>
     ri_radio (radio_base (tr_mRadioInterface t)) = usrp)"

lemma makeTransceiver_result:
  assumes "osmo_ready E left" and "0 < cf_num_chans c"
  shows "\<exists>t. makeTransceiver E c radio =
      Some (if cf_num_chans c \<le> length (ri_receiveFIFO (radio_base radio)) then 0 else - 1, t) \<and>
    trx_inv (object_good (oe_radio E) left (left (ri_radio (radio_base radio)))) t \<and> \<not> tr_mOn t \<and>
    ri_radio (radio_base (tr_mRadioInterface t)) = ri_radio (radio_base radio) \<and>
    (cf_num_chans c \<le> length (ri_receiveFIFO (radio_base radio)) \<longrightarrow> transceiver_made c (ri_radio (radio_base radio)) t)"
proof -
  let ?n = "cf_num_chans c" and ?good = "object_good (oe_radio E) left (left (ri_radio (radio_base radio)))"
  have g: "\<forall>time. ?good (ro_setClock (osmo_ops E) time radio)"
    by (intro allI object_goodI [OF ready_good [OF assms(1)]]) (simp add: osmo_ops_def object_ops_def object_left_def)
  have d: "dsp_total (oe_dsp E)" "oe_setup E" using assms(1) by (simp_all add: osmo_ready_def)
  obtain t where t: "trx_init (oe_dsp E) (osmo_ops E) True (oe_random E) (cf_filler c) (nat (cf_rtsc c))
        (nat (cf_rach_delay c)) (cf_egprs c) (cf_ext_rach c)
        (trx_new (osmo_ops E) (cf_base_port c) (nat (cf_tx_sps c)) (nat (cf_rx_sps c)) ?n (Time 3 0) radio (cf_rssi_offset c)) =
        Some (True, t)" "trx_inv ?good t" "tr_mChans t = ?n" "\<not> tr_mOn t" "tr_mReceiveFIFO t = replicate ?n None"
      "tr_mBasePort t = cf_base_port c" "tr_mSPSTx t = nat (cf_tx_sps c)" "tr_mSPSRx t = nat (cf_rx_sps c)"
      "\<exists>time. tr_mRadioInterface t = ro_setClock (osmo_ops E) time radio"
    using trx_init_ok [OF d(1) assms(2) g] by blast
  obtain time where "tr_mRadioInterface t = ro_setClock (osmo_ops E) time radio" using t(9) by blast
  then have r: "ri_radio (radio_base (tr_mRadioInterface t)) = ri_radio (radio_base radio)"
    "ri_receiveFIFO (radio_base (tr_mRadioInterface t)) = ri_receiveFIFO (radio_base radio)"
    by (simp_all add: osmo_ops_def object_ops_def)
  define t1 where "t1 = trx_setSignalHandler (Some 0) t"
  have i: "trx_inv ?good t1" using t(2) by (simp add: t1_def setSignalHandler_same)
  have m: "makeTransceiver E c radio =
      Some (if fst (attach_fifos [0..<?n] t1) then 0 else - 1, snd (attach_fifos [0..<?n] t1))"
    using t(1) d(2) by (simp add: makeTransceiver_def t1_def split_beta)
  have a: "fst (attach_fifos [0..<?n] t1) = (?n \<le> length (ri_receiveFIFO (radio_base radio)))"
  proof (cases "?n \<le> length (ri_receiveFIFO (radio_base radio))")
    case True
    then show ?thesis using attach_fifos_all [of "[0..<?n]" t1] r t(5) by (simp add: t1_def setSignalHandler_same)
  next
    case False
    then show ?thesis
      using attach_fifos_fails [of "length (ri_receiveFIFO (radio_base radio))" "[0..<?n]" t1] r
      by (simp add: t1_def setSignalHandler_same)
  qed
  have "transceiver_made c (ri_radio (radio_base radio)) (snd (attach_fifos [0..<?n] t1))"
    if "?n \<le> length (ri_receiveFIFO (radio_base radio))"
    using that attach_fifos_all [of "[0..<?n]" t1] r t(3-8)
    by (simp add: t1_def setSignalHandler_same transceiver_made_def fold_some)
  moreover have "trx_inv ?good (snd (attach_fifos [0..<?n] t1)) \<and> \<not> tr_mOn (snd (attach_fifos [0..<?n] t1)) \<and>
      ri_radio (radio_base (tr_mRadioInterface (snd (attach_fifos [0..<?n] t1)))) = ri_radio (radio_base radio)"
    using attach_fifos_inv [OF i] t(4) r(1) by (simp add: t1_def setSignalHandler_same)
  ultimately show ?thesis unfolding m a by blast
qed

section \<open>Starting\<close>

lemma destroy_radio: "ri_radio (radio_base (object_destroy r)) = ri_radio (radio_base r)"
  by (cases r) (simp_all add: object_destroy_def ri_close_def rr_close_def rm_close_def Let_def)

lemma stop_core:
  assumes "trx_inv (object_good (oe_radio E) left n) t"
  shows "\<exists>d. trx_stop E (Core t) = Some (oe_delete E d, []) \<and> left d = n \<and>
    (\<not> tr_mOn t \<longrightarrow> d = ri_radio (radio_base (tr_mRadioInterface t)))"
proof -
  have c: "radio_contract (osmo_ops E) (object_good (oe_radio E) left n)"
    unfolding osmo_ops_def by (rule object_ctl.radio_contract_axioms)
  obtain r where r: "delete_transceiver (osmo_ops E) t = Some (r, [])" "object_good (oe_radio E) left n r"
    using delete_transceiver_inv [OF c assms] by blast
  have "r = tr_mRadioInterface t" if "\<not> tr_mOn t"
    using r(1) that
    by (auto simp: delete_transceiver_def trx_delete_def TrxControl.trx_stop_def split_beta Let_def split: if_splits)
  then show ?thesis using r by (auto simp: trx_stop_def delete_radio_def destroy_radio object_good_def object_left_def)
qed

lemma trx_start_result:
  assumes "osmo_ready E left" and "0 < cf_num_chans c" and "make_device E c = Some d0" and "open_device E c d0 = Some (type, d)"
  shows "(\<exists>t. trx_start E c = Some (Started t) \<and> trx_inv (object_good (oe_radio E) left (left d)) t \<and> transceiver_made c d t \<and>
      (\<exists>i. interface_of_code type = Some i \<and> 0 \<le> type \<and> radio_possible E c i \<and> cf_num_chans c \<le> radio_fifos c i)) \<or>
    (\<exists>lost. trx_start E c = Some (Failed (oe_delete E d) [] lost) \<and>
      (lost \<noteq> None) = (\<exists>i. interface_of_code type = Some i \<and> 0 \<le> type \<and> \<not> radio_possible E c i) \<and>
      \<not> (\<exists>i. interface_of_code type = Some i \<and> 0 \<le> type \<and> radio_possible E c i \<and> cf_num_chans c \<le> radio_fifos c i))"
proof (cases "type < 0 \<or> interface_of_code type = None")
  case True
  then show ?thesis using assms(3,4)
    by (auto simp: trx_start_def shutdown_def trx_stop_def makeRadioInterface_def)
next
  case False
  then obtain i where i: "0 \<le> type" "interface_of_code type = Some i" by auto
  obtain ok radio where o: "object_init (oe_radio E) (oe_resamp E) (oe_multi E) i (new_object E c d i) = (ok, radio)" by fastforce
  note O = object_init_result [OF o]
  have mr: "makeRadioInterface E c d type = (if ok then (Some radio, None) else (None, Some radio))"
    by (simp add: makeRadioInterface_def i o)
  show ?thesis
  proof (cases ok)
    case False
    then show ?thesis using assms(3,4) i O(1) by (auto simp: trx_start_def shutdown_def trx_stop_def mr)
  next
    case True
    obtain t where t: "makeTransceiver E c radio = Some (if cf_num_chans c \<le> radio_fifos c i then 0 else - 1, t)"
        "trx_inv (object_good (oe_radio E) left (left d)) t" "\<not> tr_mOn t" "ri_radio (radio_base (tr_mRadioInterface t)) = d"
        "cf_num_chans c \<le> radio_fifos c i \<Longrightarrow> transceiver_made c d t"
      using makeTransceiver_result [OF assms(1,2), of radio] O True by auto
    obtain d1 where s: "trx_stop E (Core t) = Some (oe_delete E d, [])" using stop_core [OF t(2)] t(3,4) by auto
    show ?thesis
    proof (cases "cf_num_chans c \<le> radio_fifos c i")
      case True
      then have "trx_start E c = Some (Started t)" using assms(3,4) i t(1) \<open>ok\<close> by (simp add: trx_start_def mr)
      then show ?thesis using t(2,5) True i O(1) \<open>ok\<close> by blast
    next
      case False
      then have "trx_start E c = Some (Failed (oe_delete E d) [] None)"
        using assms(3,4) i t(1) \<open>ok\<close> s by (simp add: trx_start_def mr shutdown_def)
      then show ?thesis using False i O(1) \<open>ok\<close> by auto
    qed
  qed
qed

section \<open>The contract of the device\<close>

lemma default_chans: "0 < cf_num_chans (default_chan c)"
  by (simp add: default_chan_def)

lemma main_runs:
  assumes "main L M E args steps = Some res" and "\<And>rc. res \<noteq> Exit rc None"
  shows "\<exists>c. 0 < cf_num_chans c \<and> run_program E c steps = Some res"
proof -
  obtain c where "run_program E (default_chan c) steps = Some res"
    using assms unfolding main_def Let_def by (auto split: option.splits if_splits)
  then show ?thesis using default_chans by blast
qed

text \<open>
  What the program relies on a device for: \<open>held\<close> counts what the device driver holds, and \<open>count\<close> is the number before the
  program made its own. Deleting a device that was opened, successfully or not, goes back to that number, and no other
  call changes what a deletion would leave. \<open>sound\<close> stands for the assumptions on the driver's library.
\<close>

locale program_device =
  fixes E :: "('a::zero, 'h, 'd, 'c, 's) osmo_env" and held :: "'d \<Rightarrow> int" and count :: int and sound :: bool
  assumes closes: "sound \<Longrightarrow> oe_make E tx rx iface chans offset tx_paths rx_paths = Some d0 \<Longrightarrow> oe_open E args r swap d0 = Some (rc, d) \<Longrightarrow>
      held (oe_delete E d) = count"
    and keeps: "sound \<Longrightarrow> osmo_ready E (\<lambda>d. held (oe_delete E d))"
begin

lemma start_releases:
  assumes "sound" and "0 < cf_num_chans c"
  shows "trx_start E c = Some (Failed d threads lost) \<Longrightarrow> held d = count \<and> threads = []"
    and "trx_start E c = Some (Started t) \<Longrightarrow> trx_inv (object_good (oe_radio E) (\<lambda>d. held (oe_delete E d)) count) t"
proof -
  have made: "\<exists>d0 type d. make_device E c = Some d0 \<and> open_device E c d0 = Some (type, d) \<and> held (oe_delete E d) = count"
    if "trx_start E c = Some x" for x
  proof -
    obtain d0 type d where "make_device E c = Some d0" "open_device E c d0 = Some (type, d)"
      using \<open>trx_start E c = Some x\<close> unfolding trx_start_def by (auto split: option.splits)
    then show ?thesis using closes [OF assms(1)] unfolding make_device_def open_device_def Let_def by blast
  qed
  show "held d = count \<and> threads = []" if "trx_start E c = Some (Failed d threads lost)"
    using made [OF that] trx_start_result [OF keeps [OF assms(1)] assms(2)] that by fastforce
  show "trx_inv (object_good (oe_radio E) (\<lambda>d. held (oe_delete E d)) count) t" if "trx_start E c = Some (Started t)"
    using made [OF that] trx_start_result [OF keeps [OF assms(1)] assms(2)] that by fastforce
qed

lemma main_releases:
  assumes "sound" and "main L M E args steps = Some (Exit rc (Some (d, threads)))"
  shows "held d = count \<and> threads = []"
proof -
  obtain c where n: "0 < cf_num_chans c" and r: "run_program E c steps = Some (Exit rc (Some (d, threads)))"
    using assms(2) main_runs by blast
  then obtain x where x: "trx_start E c = Some x" by (auto simp: run_program_def split: option.splits)
  show ?thesis
  proof (cases x)
    case (Failed d1 threads1 lost)
    then show ?thesis using start_releases(1) [OF assms(1) n] x r by (simp add: run_program_def)
  next
    case (Started t)
    then obtain t1 where t1: "main_loop E False steps t = Some (Some t1)" "trx_stop E (Core t1) = Some (d, threads)"
      using r x by (auto simp: run_program_def split: option.splits)
    have "trx_inv (object_good (oe_radio E) (\<lambda>d. held (oe_delete E d)) count) t1"
      by (rule main_loop_inv [OF start_releases(2) [OF assms(1) n] t1(1)]) (use x Started in simp)
    from stop_core [OF this] show ?thesis using t1(2) by auto
  qed
qed

end

text \<open>While the program is still running no stop has been asked for and then noticed.\<close>

lemma main_running:
  assumes "main L M E args steps = Some Running"
  shows "\<forall>i < length steps. wakes (steps ! i) \<longrightarrow> (\<forall>j \<le> i. \<not> asks_stop (steps ! j))"
proof -
  obtain c where c: "run_program E c steps = Some Running" using main_runs [OF assms] by blast
  obtain x where x: "trx_start E c = Some x" using c by (cases "trx_start E c") (simp_all add: run_program_def)
  obtain t where "main_loop E False steps t = Some None"
    using c x by (cases x) (auto simp: run_program_def split: option.splits)
  from main_loop_ends [OF this] show ?thesis by simp
qed


text \<open>A device without samples that opens as a plain one, or as a multi-carrier one when its arguments say so.\<close>

definition demo_osmo :: "(int, int, nat, nat, nat) osmo_env" where
  "demo_osmo =
    \<lparr>oe_radio = demo_env, oe_resamp = undefined, oe_multi = undefined, oe_dsp = demo_dsp,
     oe_make = \<lambda>tx rx iface chans offset tx_paths rx_paths. Some 0,
     oe_open = \<lambda>args ref swap d. Some (if args = ''multi'' then 3 else 0, d + 1), oe_delete = \<lambda>d. d - 1,
     oe_usrp1 = False, oe_latency = Time 6 7, oe_head = 0, oe_setup = True, oe_random = 7, oe_ts0 = 0\<rparr>"

lemma demo_osmo_ready: "osmo_ready demo_osmo (\<lambda>d. 0)"
  using demo_dsp_total by (simp add: osmo_ready_def demo_osmo_def device_keeps_def demo_env_def)


end
