(* ===== verification/OsmoLms.thy ===== *)
theory OsmoLms
  imports OsmoTrx Lms
begin

text \<open>
  The program built for LimeSDR (\<^verbatim>\<open>osmo-trx.cpp\<close> with \<^verbatim>\<open>LMSDevice.cpp\<close>): the contract of \<open>OsmoTrx\<close> with the device of
  \<open>Lms\<close>, and what follows for the program. The calls of the device that can be undefined or wait for ever, \<open>start\<close>, \<open>readSamples\<close>
  and \<open>writeSamples\<close>, count as failed ones without effect then.
\<close>

section \<open>The device as the radio interface sees it\<close>

text \<open>\<open>fuel\<close> bounds the packets that \<open>start\<close> flushes, \<open>junk\<close> is what the receive buffers hold before, and \<open>toF\<close> and
  \<open>toS\<close> convert samples.\<close>

definition lms_env :: "('w, 's) lms_lib \<Rightarrow> nat \<Rightarrow> 's \<Rightarrow> ('s \<Rightarrow> 'a) \<Rightarrow> (real \<Rightarrow> 'a \<Rightarrow> 's) \<Rightarrow> (nat \<Rightarrow> 'a) \<Rightarrow> ('a, 's, 'w lms_device) radio_env" where
  "lms_env L fuel junk toF toS floats =
    \<lparr>dev_start = \<lambda>d. (case lm_start L fuel d of None \<Rightarrow> (False, d) | Some r \<Rightarrow> r), dev_stop = lm_stop L,
     dev_requiresRadioAlign = \<lambda>d. lm_requiresRadioAlign, dev_updateAlignment = lm_updateAlignment,
     dev_initialWriteTimestamp = lm_initialWriteTimestamp, dev_initialReadTimestamp = lm_initialReadTimestamp,
     dev_readSamples = \<lambda>n overrun timestamp d.
       (case lm_readSamples L (replicate (ld_chans d) (replicate n junk)) (int n) overrun timestamp False d of
          None \<Rightarrow> (- 1, [], overrun, False, d)
        | Some (rc, bufs, overrun, underrun, d) \<Rightarrow> (rc, bufs, overrun, underrun, d)),
     dev_writeSamples = \<lambda>bufs n underrun timestamp d.
       (case lm_writeSamples L bufs n underrun timestamp False d of None \<Rightarrow> (- 1, underrun, d) | Some r \<Rightarrow> r),
     dev_setTxFreq = lm_setTxFreq L, dev_setRxFreq = lm_setRxFreq L, dev_getTxFreq = \<lambda>chan d. lm_getTxFreq chan,
     dev_getRxFreq = \<lambda>chan d. lm_getRxFreq chan, dev_setTxGain = lm_setTxGain L, dev_setRxGain = lm_setRxGain L,
     dev_getRxGain = lm_getRxGain, dev_maxTxGain = \<lambda>d. lm_maxTxGain, dev_fullScaleInputValue = \<lambda>d. lm_fullScaleInputValue,
     dev_fullScaleOutputValue = \<lambda>d. lm_fullScaleOutputValue, convert_short_float = toF, convert_float_short = toS,
     new_vector = \<lambda>n head. map floats [0..<n], new_floats = floats\<rparr>"

text \<open>The program with this device; \<open>u\<close> is the state of the library and what the constructor leaves unset, and \<open>E\<close> holds
  the rest of the environment.\<close>

definition osmo_lms :: "('w, 's) lms_lib \<Rightarrow> nat \<Rightarrow> 's \<Rightarrow> ('s \<Rightarrow> 'a) \<Rightarrow> (real \<Rightarrow> 'a \<Rightarrow> 's) \<Rightarrow> (nat \<Rightarrow> 'a) \<Rightarrow> 'w lms_device \<Rightarrow>
    ('a, 's, 'w lms_device, 'c, 'f) osmo_env \<Rightarrow> ('a, 's, 'w lms_device, 'c, 'f) osmo_env" where
  "osmo_lms L fuel junk toF toS floats u E =
    E\<lparr>oe_radio := lms_env L fuel junk toF toS floats,
      oe_make := (\<lambda>tx rx iface chans offset tx_paths rx_paths. lm_make tx rx iface chans offset tx_paths rx_paths u),
      oe_open := lm_open L, oe_delete := lm_destroy L, oe_usrp1 := False, oe_latency := lm_minLatency\<rparr>"

section \<open>Every call keeps the open device\<close>

text \<open>The calls while the device runs keep the number of open devices, too.\<close>

definition lms_counts_run :: "('w, 's) lms_lib \<Rightarrow> ('w \<Rightarrow> int) \<Rightarrow> bool" where
  "lms_counts_run L opened =
    (lms_counts L opened \<and> (\<forall>t i e. keeps opened (lms_enable L t i e)) \<and> (\<forall>t i g. keeps opened (lms_set_gain L t i g)) \<and>
     (\<forall>t i f. keeps opened (lms_set_lo L t i f)) \<and> (\<forall>s. keeps opened (lms_start L s)) \<and>
     (\<forall>s h. opened (snd (snd (lms_setup L s h))) = opened h) \<and> (\<forall>s h. opened (lms_stop L s h) = opened h) \<and>
     (\<forall>s h. opened (lms_destroy L s h) = opened h) \<and> (\<forall>s n md h. opened (snd (snd (snd (lms_recv L s n md h)))) = opened h) \<and>
     (\<forall>s v md. keeps opened (lms_send L s v md)) \<and> (\<forall>s h. opened (snd (snd (lms_status L s h))) = opened h))"

lemma run_keep:
  assumes "lms_counts_run L opened"
  shows "lms_enable L t i e h = (rc, h') \<Longrightarrow> opened h' = opened h" and "lms_set_gain L t i g h = (rc, h') \<Longrightarrow> opened h' = opened h"
    and "lms_set_lo L t i f h = (rc, h') \<Longrightarrow> opened h' = opened h" and "lms_start L s h = (rc, h') \<Longrightarrow> opened h' = opened h"
    and "lms_setup L s h = (rc, s', h') \<Longrightarrow> opened h' = opened h" and "lms_recv L s n md h = (rc, v, md', h') \<Longrightarrow> opened h' = opened h"
    and "lms_send L s v md h = (rc, h') \<Longrightarrow> opened h' = opened h" and "lms_status L s h = (rc, st, h') \<Longrightarrow> opened h' = opened h"
    and "opened (lms_stop L s h) = opened h" and "opened (lms_destroy L s h) = opened h" and "opened (snd (lms_enable L t i e h)) = opened h"
  using assms unfolding lms_counts_run_def keeps_def by (metis snd_conv)+

text \<open>The device open and the number of open devices stay the same.\<close>

definition same_open :: "('w \<Rightarrow> int) \<Rightarrow> 'w lms_device \<Rightarrow> 'w lms_device \<Rightarrow> bool" where
  "same_open opened d d' = (opened (ld_hw d') = opened (ld_hw d) \<and> ld_dev d' = ld_dev d)"

lemma gain_same:
  assumes "lms_counts_run L opened"
  shows "same_open opened d (snd (lm_setTxGain L g c d))" and "same_open opened d (snd (lm_setRxGain L g c d))"
  using run_keep(2) [OF assms] by (auto simp: same_open_def lm_setTxGain_def lm_setRxGain_def Let_def split: prod.splits)

lemma freq_same:
  assumes "lms_counts_run L opened"
  shows "same_open opened d (snd (lm_setTxFreq L f c d))" and "same_open opened d (snd (lm_setRxFreq L f c d))"
  using run_keep(3) [OF assms] by (auto simp: same_open_def lm_setTxFreq_def lm_setRxFreq_def split: prod.splits)

lemma same_trans: "same_open opened d d1 \<Longrightarrow> same_open opened d1 d2 \<Longrightarrow> same_open opened d d2"
  by (simp add: same_open_def)

lemma setup_chans_same:
  assumes "lms_counts_run L opened"
  shows "same_open opened d (snd (setup_chans L is d))"
proof (induction "is" arbitrary: d)
  case (Cons i "is")
  note k = run_keep [OF assms] and g = gain_same [OF assms]
  obtain rc1 h1 where 1: "lms_enable L False i True (ld_hw d) = (rc1, h1)" by fastforce
  obtain rc2 h2 where 2: "lms_enable L True i True h1 = (rc2, h2)" by fastforce
  define d2 where "d2 = d\<lparr>ld_hw := h2\<rparr>"
  obtain g3 d3 where 3: "lm_setTxGain L ((lm_minTxGain + lm_maxTxGain) / 2) i d2 = (g3, d3)" by fastforce
  obtain g4 d4 where 4: "lm_setRxGain L ((lm_minRxGain + lm_maxRxGain) / 2) i d3 = (g4, d4)" by fastforce
  obtain rc5 s5 h5 where 5: "lms_setup L (new_stream False i) (ld_hw d4) = (rc5, s5, h5)" using prod_cases3 by blast
  obtain rc6 s6 h6 where 6: "lms_setup L (new_stream True i) h5 = (rc6, s6, h6)" using prod_cases3 by blast
  have o: "opened h1 = opened (ld_hw d)" "opened h2 = opened (ld_hw d)" using k(1) [OF 1] k(1) [OF 2] by simp_all
  have d2: "opened (ld_hw d2) = opened (ld_hw d)" "ld_dev d2 = ld_dev d" using o by (simp_all add: d2_def)
  have d4: "opened (ld_hw d4) = opened (ld_hw d)" "ld_dev d4 = ld_dev d"
    using g(1) [of d2 "(lm_minTxGain + lm_maxTxGain) / 2" i] g(2) [of d3 "(lm_minRxGain + lm_maxRxGain) / 2" i] o
    unfolding 3 4 same_open_def by (simp_all add: d2_def)
  have h: "opened h5 = opened (ld_hw d)" "opened h6 = opened (ld_hw d)" using k(5) [OF 5] k(5) [OF 6] d4 by simp_all
  show ?case
    using Cons.IH o d2 d4 h 4 by (simp add: same_open_def 1 2 d2_def [symmetric] 3 5 6 Let_def)
qed (simp add: same_open_def)

lemma start_streams_same:
  assumes "lms_counts_run L opened"
  shows "same_open opened d (snd (start_streams L is d))"
proof (induction "is" arbitrary: d)
  case (Cons i "is")
  obtain rc1 h1 where 1: "lms_start L (ld_stream_rx d ! i) (ld_hw d) = (rc1, h1)" by fastforce
  obtain rc2 h2 where 2: "lms_start L (ld_stream_tx d ! i) h1 = (rc2, h2)" by fastforce
  have o: "opened h1 = opened (ld_hw d)" "opened h2 = opened (ld_hw d)"
    using run_keep(4) [OF assms 1] run_keep(4) [OF assms 2] by simp_all
  show ?case using Cons.IH [of "d\<lparr>ld_hw := h2\<rparr>"] o by (simp add: same_open_def 1 2 Let_def)
qed (simp add: same_open_def)

lemma flush_same:
  assumes "lms_counts_run L opened"
  shows "lm_flush_loop L fuel k md d = Some (ok, d') \<Longrightarrow> same_open opened d d'"
proof (induction fuel arbitrary: k md d)
  case (Suc fuel)
  obtain rc v md1 h where r: "lms_recv L (ld_stream_rx d ! 0) (625 * int (ld_tx_sps d)) md (ld_hw d) = (rc, v, md1, h)"
    using prod_cases4 by blast
  have o: "opened h = opened (ld_hw d)" by (rule run_keep(6) [OF assms r])
  define d1 where "d1 = d\<lparr>ld_hw := h, ld_ts_initial := u64 (int (lm_timestamp md1) + 625 * int (ld_tx_sps d))\<rparr>"
  have d1: "same_open opened d d1" using o by (simp add: same_open_def d1_def)
  consider "d' = d" | "d' = d\<lparr>ld_hw := h\<rparr>" | k' where "lm_flush_loop L fuel k' md1 d1 = Some (ok, d')"
    using Suc.prems by (auto simp: r Let_def d1_def split: if_splits)
  then show ?case
    by cases (use o same_trans [OF d1 Suc.IH] in \<open>simp_all add: same_open_def\<close>)
qed simp

lemma start_same:
  assumes "lms_counts_run L opened" and "lm_start L fuel d = Some (ok, d')"
  shows "same_open opened d d'"
proof -
  obtain ok1 d1 where 1: "setup_chans L [0..<ld_chans d] d = (ok1, d1)" by fastforce
  obtain ok2 d2 where 2: "start_streams L [0..<ld_chans d1] d1 = (ok2, d2)" by fastforce
  have o: "same_open opened d d1" "same_open opened d1 d2"
    using setup_chans_same [OF assms(1), of d "[0..<ld_chans d]"] start_streams_same [OF assms(1), of d1 "[0..<ld_chans d1]"]
    by (simp_all add: 1 2)
  have f: "same_open opened d2 d3" if "lm_flush_recv L fuel 10 d2 = Some (ok3, d3)" for ok3 d3
    using that flush_same [OF assms(1), of fuel 10 _ "d2\<lparr>ld_ts_initial := 0\<rparr>"]
    by (auto simp: lm_flush_recv_def same_open_def split: if_splits)
  have "d' = d \<or> d' = d1 \<or> d' = d2 \<or> (\<exists>ok3 d3. lm_flush_recv L fuel 10 d2 = Some (ok3, d3) \<and> d' = d3\<lparr>ld_started := True\<rparr>)"
    using assms(2) by (fastforce simp: lm_start_def 1 2 bind_eq_Some_conv split: if_splits)
  then show ?thesis using o f by (auto simp: same_open_def)
qed

lemma stop_same:
  assumes "lms_counts_run L opened"
  shows "same_open opened d (snd (lm_stop L d))"
proof -
  have "opened (stop_streams L tx rx xs h) = opened h" for tx rx xs h
    by (induction xs arbitrary: h) (simp_all add: run_keep [OF assms])
  moreover have "opened (destroy_streams L tx rx xs h) = opened h" for tx rx xs h
    by (induction xs arbitrary: h) (simp_all add: run_keep [OF assms])
  ultimately show ?thesis by (simp add: same_open_def lm_stop_def Let_def)
qed

lemma stats_same:
  assumes "lms_counts_run L opened" and "lm_update_stream_stats L i u v d = (u', v', d')"
  shows "same_open opened d d'"
  using assms(2) run_keep(8) [OF assms(1)]
  by (auto simp: lm_update_stream_stats_def same_open_def Let_def split: prod.splits if_splits)

lemma read_chans_same:
  assumes "lms_counts_run L opened"
  shows "read_chans L len is rc bufs ov un md d = Some (ok, rc', bufs', ov', un', md', d') \<Longrightarrow> same_open opened d d'"
proof (induction "is" arbitrary: rc bufs ov un md d)
  case (Cons i "is")
  obtain rc1 v md1 h where r: "lms_recv L (ld_stream_rx d ! i) len md (ld_hw d) = (rc1, v, md1, h)" using prod_cases4 by blast
  obtain un1 ov1 d1 where s: "lm_update_stream_stats L i un ov (d\<lparr>ld_hw := h\<rparr>) = (un1, ov1, d1)" using prod_cases3 by blast
  have o: "same_open opened d d1"
    using stats_same [OF assms s] run_keep(6) [OF assms r] by (simp add: same_open_def)
  consider "d' = d1" | bufs1 where "read_chans L len is rc1 bufs1 ov1 un1 md1 d1 = Some (ok, rc', bufs', ov', un', md', d')"
    using Cons.prems by (auto simp: r s Let_def split: if_splits)
  then show ?case
  proof cases
    case 2
    show ?thesis by (rule same_trans [OF o Cons.IH [OF 2]])
  qed (use o in simp)
qed (simp add: same_open_def)

lemma read_same:
  assumes "lms_counts_run L opened" and "lm_readSamples L bufs len o0 ts u0 d = Some (rc, bufs', ov, un, d')"
  shows "same_open opened d d'"
proof (cases "length bufs = ld_chans d")
  case True
  obtain ok rc1 bufs1 ov1 un1 md1 d1 where r: "read_chans L len [0..<ld_chans d] 0 bufs False False
      \<lparr>lm_timestamp = 0, lm_waitForTimestamp = False, lm_flushPartialPacket = False\<rparr> d = Some (ok, rc1, bufs1, ov1, un1, md1, d1)"
    using assms(2) True unfolding lm_readSamples_def
    by (cases "read_chans L len [0..<ld_chans d] 0 bufs False False
      \<lparr>lm_timestamp = 0, lm_waitForTimestamp = False, lm_flushPartialPacket = False\<rparr> d") auto
  have "same_open opened d1 d'" using assms(2) True by (auto simp: lm_readSamples_def r same_open_def Let_def split: if_splits)
  then show ?thesis by (rule same_trans [OF read_chans_same [OF assms(1) r]])
qed (use assms(2) in \<open>simp add: lm_readSamples_def same_open_def\<close>)

lemma write_chans_same:
  assumes "lms_counts_run L opened"
  shows "write_chans L len is rc bufs un md d = Some (rc', un', d') \<Longrightarrow> same_open opened d d'"
proof (induction "is" arbitrary: rc un d)
  case (Cons i "is")
  obtain rc1 h1 where s: "lms_send L (ld_stream_tx d ! i) (take len (bufs ! i)) md (ld_hw d) = (rc1, h1)" by fastforce
  obtain rs st h2 where t: "lms_status L (ld_stream_tx d ! i) h1 = (rs, st, h2)" using prod_cases3 by blast
  have o: "opened h2 = opened (ld_hw d)" using run_keep(7) [OF assms s] run_keep(8) [OF assms t] by simp
  obtain un1 d1 where "write_chans L len is rc1 bufs un1 md d1 = Some (rc', un', d')" "same_open opened d d1"
    using Cons.prems o by (auto simp: s t Let_def same_open_def split: if_splits)
  then show ?case using Cons.IH same_trans by blast
qed (simp add: same_open_def)

lemma write_same:
  assumes "lms_counts_run L opened" and "lm_writeSamples L bufs len u0 ts ctl d = Some (rc, un, d')"
  shows "same_open opened d d'"
  using assms(2) write_chans_same [OF assms(1)]
  by (fastforce simp: lm_writeSamples_def same_open_def bind_eq_Some_conv split: if_splits)

section \<open>Opening and deleting\<close>

text \<open>The number of devices that are open once the object is deleted.\<close>

definition released :: "('w \<Rightarrow> int) \<Rightarrow> 'w lms_device \<Rightarrow> int" where
  "released opened d = opened (ld_hw d) - (if ld_dev d then 1 else 0)"

lemma destroy_released: "lms_counts L opened \<Longrightarrow> opened (ld_hw (lm_destroy L d)) = released opened d"
  by (simp add: lm_destroy_def released_def lms_counts_def)

lemma same_released: "same_open opened d d' \<Longrightarrow> released opened d' = released opened d"
  by (simp add: same_open_def released_def)

lemma out_close_released: "lms_counts L opened \<Longrightarrow> ld_dev d \<Longrightarrow> released opened (snd (lm_out_close L d)) = released opened d"
  by (simp add: lm_out_close_def released_def lms_counts_def)

lemma set_paths_same:
  assumes "\<And>path i d. same_open opened d (snd (setA path i d))"
  shows "same_open opened d (snd (set_paths setA i paths d))"
proof (induction paths arbitrary: i d)
  case (Cons path paths)
  obtain ok d1 where a: "setA path i d = (ok, d1)" by fastforce
  have o: "same_open opened d d1" using assms [of d path i] by (simp add: a)
  show ?case using Cons.IH same_trans [OF o Cons.IH] o by (simp add: a)
qed (simp add: same_open_def)

lemma antennas_same:
  assumes "lms_counts L opened" and "set_antennas (lm_setTxAntenna L) (lm_setRxAntenna L) tx rx d = (ok, d')"
  shows "same_open opened d d'"
proof -
  have t: "same_open opened d (snd (lm_setTxAntenna L path i d))" for path i d
    using counts_keep(7) [OF assms(1)] by (auto simp: lm_setTxAntenna_def same_open_def Let_def split: prod.splits)
  have r: "same_open opened d (snd (lm_setRxAntenna L path i d))" for path i d
    using counts_keep(7) [OF assms(1)] by (auto simp: lm_setRxAntenna_def same_open_def Let_def split: prod.splits)
  obtain ok1 d1 where 1: "set_paths (lm_setTxAntenna L) 0 tx d = (ok1, d1)" by fastforce
  have o: "same_open opened d d1" using set_paths_same [where setA = "lm_setTxAntenna L" and i = 0 and paths = tx and d = d, OF t] by (simp add: 1)
  obtain ok2 d2 where 2: "set_paths (lm_setRxAntenna L) 0 rx d1 = (ok2, d2)" by fastforce
  have "same_open opened d1 d2" using set_paths_same [where setA = "lm_setRxAntenna L" and i = 0 and paths = rx and d = d1, OF r] by (simp add: 2)
  then show ?thesis using assms(2) o same_trans [OF o] by (auto simp: set_antennas_def 1 2 split: if_splits)
qed

lemma open_filters_released:
  assumes "lms_counts L opened" and "ld_dev d"
  shows "released opened (snd (lm_open_filters L d)) = released opened d"
proof -
  obtain rc lo hi where r: "lms_lpfbw_range L False (ld_hw d) = (rc, lo, hi)" by (rule prod_cases3)
  obtain ok d1 where a: "set_antennas (lm_setTxAntenna L) (lm_setRxAntenna L) (ld_tx_paths d) (ld_rx_paths d) d = (ok, d1)"
    by fastforce
  note s = antennas_same [OF assms(1) a]
  have "ld_dev d1" using s assms(2) by (simp add: same_open_def)
  obtain ok2 h where c: "lm_calibrate_chans L (min (max 1400100 lo) hi) (min (max 5200000 lo) hi) [0..<ld_chans d1] (ld_hw d1) =
      (ok2, h)" by fastforce
  have "same_open opened d1 (d1\<lparr>ld_hw := h\<rparr>)" using calibrate_keeps [OF assms(1) c] by (simp add: same_open_def)
  then have "released opened (d1\<lparr>ld_hw := h\<rparr>) = released opened d" using same_trans [OF s] same_released by blast
  then show ?thesis
    using out_close_released [OF assms(1), of d] out_close_released [OF assms(1), of "d1\<lparr>ld_hw := h\<rparr>"] assms(2) \<open>ld_dev d1\<close>
      same_released [OF s]
    by (simp add: lm_open_filters_def r a c Let_def) (auto simp: released_def)
qed

lemma open_device_released:
  assumes "lms_counts L opened" and "ld_dev d"
  shows "released opened (snd (lm_open_device L ref d)) = released opened d"
proof -
  obtain rc h where i: "lms_init L (ld_hw d) = (rc, h)" by fastforce
  obtain rc2 h2 where s: "lms_set_rate L (GSMRATE * real (ld_tx_sps d)) 32 h = (rc2, h2)" by fastforce
  obtain ok h3 where k: "lm_clock_ref L ref h2 = (ok, h3)" by fastforce
  have o: "opened h = opened (ld_hw d)" "opened h2 = opened (ld_hw d)" "opened h3 = opened (ld_hw d)"
    using counts_keep(1) [OF assms(1) i] counts_keep(2) [OF assms(1) s] clock_ref_keeps [OF assms(1) k] by simp_all
  have c: "released opened (snd (lm_out_close L d1)) = released opened d"
    "released opened (snd (lm_open_filters L d1)) = released opened d"
    if "opened (ld_hw d1) = opened (ld_hw d)" "ld_dev d1" for d1
    using out_close_released [OF assms(1) that(2)] open_filters_released [OF assms(1) that(2)] that assms(2)
    by (simp_all add: released_def)
  show ?thesis using o assms(2) by (simp add: lm_open_device_def i s k Let_def c)
qed

lemma open_released:
  assumes "lms_counts L opened" and "\<not> ld_dev d" and "lm_open L args ref swap d = Some (rc, d')"
  shows "released opened d' = opened (ld_hw d)"
proof (cases "d' = d")
  case True
  then show ?thesis using assms(2) by (simp add: released_def)
next
  case False
  obtain s rc1 h where o: "lms_open_dev L s (ld_hw d) = (rc1, h)"
      "(rc, d') = (if rc1 \<noteq> 0 then (- 1, d\<lparr>ld_hw := h\<rparr>) else lm_open_device L ref (d\<lparr>ld_hw := h, ld_dev := True\<rparr>))"
    using assms(3) False unfolding lm_open_def Let_def by (auto split: if_splits prod.splits)
  have n: "opened h = opened (ld_hw d) + (if rc1 = 0 then 1 else 0)"
    using assms(1) o(1) unfolding lms_counts_def by (metis fst_conv snd_conv)
  show ?thesis
  proof (cases "rc1 = 0")
    case True
    then have "d' = snd (lm_open_device L ref (d\<lparr>ld_hw := h, ld_dev := True\<rparr>))" using o(2) by (metis snd_conv)
    then show ?thesis using open_device_released [OF assms(1), of "d\<lparr>ld_hw := h, ld_dev := True\<rparr>" ref] n True
      by (simp add: released_def)
  qed (use o(2) n assms(2) in \<open>simp add: released_def\<close>)
qed

section \<open>The contract\<close>

lemma lms_env_keeps:
  assumes "lms_counts_run L opened"
  shows "device_keeps (lms_env L fuel junk toF toS floats) (released opened)"
proof -
  note r = same_released [of opened]
  have "same_open opened d d" for d by (simp add: same_open_def)
  note r0 = r [OF this]
  have "dev_start (lms_env L fuel junk toF toS floats) d = x \<Longrightarrow> released opened (snd x) = released opened d" for d x
    using r [OF start_same [OF assms]] by (cases "lm_start L fuel d"; cases x) (auto simp: lms_env_def)
  moreover have "dev_readSamples (lms_env L fuel junk toF toS floats) n o0 t d = (num, bufs, ov, un, d') \<Longrightarrow>
      released opened d' = released opened d" for n o0 t d num bufs ov un d'
    using r [OF read_same [OF assms]]
    by (cases "lm_readSamples L (replicate (ld_chans d) (replicate n junk)) (int n) o0 t False d") (auto simp: lms_env_def)
  moreover have "dev_writeSamples (lms_env L fuel junk toF toS floats) bufs n u t d = (num, un, d') \<Longrightarrow>
      released opened d' = released opened d" for bufs n u t d num un d'
    using r [OF write_same [OF assms]] by (cases "lm_writeSamples L bufs n u t False d") (auto simp: lms_env_def)
  moreover have "released opened (snd (dev_stop (lms_env L fuel junk toF toS floats) d)) = released opened d"
    "released opened (snd (dev_updateAlignment (lms_env L fuel junk toF toS floats) t d)) = released opened d"
    "released opened (snd (dev_setTxFreq (lms_env L fuel junk toF toS floats) f c d)) = released opened d"
    "released opened (snd (dev_setRxFreq (lms_env L fuel junk toF toS floats) f c d)) = released opened d"
    "released opened (snd (dev_setTxGain (lms_env L fuel junk toF toS floats) f c d)) = released opened d"
    "released opened (snd (dev_setRxGain (lms_env L fuel junk toF toS floats) f c d)) = released opened d" for d t f c
    using r [OF stop_same [OF assms]] r [OF freq_same(1) [OF assms]] r [OF freq_same(2) [OF assms]]
      r [OF gain_same(1) [OF assms]] r [OF gain_same(2) [OF assms]]
    by (simp_all add: lms_env_def lm_updateAlignment_def)
  ultimately show ?thesis unfolding device_keeps_def by (intro conjI allI impI) blast+
qed

definition lms_sound :: "('w, 's) lms_lib \<Rightarrow> ('w \<Rightarrow> int) \<Rightarrow> ('a, 's, 'w lms_device, 'c, 'f) osmo_env \<Rightarrow> bool" where
  "lms_sound L opened E = (lms_counts_run L opened \<and> oe_setup E \<and> dsp_total (oe_dsp E))"

interpretation lms: program_device "osmo_lms L fuel junk toF toS floats u E" "\<lambda>d. opened (ld_hw d)" "opened (ld_hw u)"
    "lms_sound L opened E" for L fuel junk toF toS floats u E opened
proof
  let ?E = "osmo_lms L fuel junk toF toS floats u E"
  assume sound: "lms_sound L opened E"
  then have k: "lms_counts_run L opened" "lms_counts L opened" by (simp_all add: lms_sound_def lms_counts_run_def)
  show "opened (ld_hw (oe_delete ?E d)) = opened (ld_hw u)"
    if "oe_make ?E tx rx iface chans offset tx_paths rx_paths = Some d0" "oe_open ?E args r swap d0 = Some (rc, d)"
    for tx rx iface chans offset tx_paths rx_paths d0 args r swap rc d
  proof -
    have "\<not> ld_dev d0" "ld_hw d0 = ld_hw u" "lm_open L args r swap d0 = Some (rc, d)"
      using that by (auto simp: osmo_lms_def lm_make_def lm_new_def split: if_splits)
    then show ?thesis using open_released [OF k(2)] destroy_released [OF k(2)] by (simp add: osmo_lms_def)
  qed
  have "(\<lambda>d. opened (ld_hw (oe_delete ?E d))) = released opened"
    using destroy_released [OF k(2)] by (simp add: osmo_lms_def)
  moreover have "\<bar>fst (lm_setRxGain L g c d)\<bar> \<le> 2147483647" for g c d
    by (auto simp: lm_setRxGain_def lm_maxRxGain_def lm_minRxGain_def Let_def split: prod.splits)
  ultimately show "osmo_ready ?E (\<lambda>d. opened (ld_hw (oe_delete ?E d)))"
    using sound lms_env_keeps [OF k(1)]
    by (simp add: osmo_ready_def osmo_lms_def lms_sound_def) (simp add: lms_env_def lm_requiresRadioAlign_def)
qed

section \<open>The program leaves nothing behind\<close>


text \<open>A run with a library whose transmitter does not calibrate, and whose state is the number of open devices.\<close>

definition quiet_lms :: "(int, int) lms_lib" where
  "quiet_lms = failing_lms\<lparr>lms_send := \<lambda>s v md h. (int (length v), h)\<rparr>"

lemma quiet_lms_counts: "lms_counts_run quiet_lms (\<lambda>h. h)"
  by (simp add: lms_counts_run_def lms_counts_def keeps_def quiet_lms_def failing_lms_def)

lemma quiet_lms_open:
  "\<exists>d'. lm_open quiet_lms ''USB'' REF_INTERNAL False (lm_new 4 4 NORMAL 1 0 [''BAND1''] [[]] (some_lms 0)) = Some (- 1, d')"
  unfolding lm_open_def info_list_find_def
  by (simp add: quiet_lms_def failing_lms_def some_lms_def lm_new_def u32_def comma_delimited_to_vector_def sublist_code
      lm_open_device_def lm_clock_ref_def compat_LMS_VCTCXORead_def compat_LMS_VCTCXOWrite_def lm_open_filters_def
      set_antennas_def lm_setTxAntenna_def lm_get_ant_idx_def lm_out_close_def Let_def)

definition lms_args :: "(char \<times> string) list" where
  "lms_args = [(CHR ''b'', print_d 4), (CHR ''a'', ''USB''), (CHR ''c'', print_d 1), (CHR ''y'', ''BAND1'')]"

definition lms_rest :: "(int, int, int lms_device, nat, nat) osmo_env" where
  "lms_rest =
    \<lparr>oe_radio = undefined, oe_resamp = undefined, oe_multi = undefined, oe_dsp = demo_dsp, oe_make = undefined,
     oe_open = undefined, oe_delete = undefined, oe_usrp1 = False, oe_latency = Time 0 0, oe_head = 0, oe_setup = True,
     oe_random = 7, oe_ts0 = 0\<rparr>"

definition lms_main :: main_env where
  "lms_main = \<lparr>mn_file = \<lambda>f. if f = ''osmo-trx.cfg'' then Some [] else None, mn_telnet = True, mn_ctrl = True, mn_sched = \<lambda>p. True\<rparr>"

abbreviation lms_run :: "int run_step list \<Rightarrow> int lms_device main_end option" where
  "lms_run \<equiv> main plain_lib lms_main (osmo_lms quiet_lms 20 0 (\<lambda>x. x) (\<lambda>a x. x) (\<lambda>n. 0) (some_lms 0) lms_rest) lms_args"

lemma lms_run_fails: "\<exists>d. lms_run steps = Some (Exit 1 (Some (d, [])))"
proof -
  define E where "E = osmo_lms quiet_lms 20 0 (\<lambda>x. x) (\<lambda>a x. x) (\<lambda>n. 0) (some_lms 0) lms_rest"
  define c where "c = vty_trx_ctx_alloc\<lparr>cf_rx_sps := 4, cf_dev_args := Some ''USB'', cf_num_chans := 1,
    cf_chans := (replicate 8 chan_zero)[0 := \<lparr>tc_idx = 0, tc_rx_path = None, tc_tx_path = Some ''BAND1''\<rparr>]\<rparr>"
  have a: "c_atoi (print_d 4) = 4" "c_atoi (print_d 1) = 1" by (simp_all add: atoi_print)
  have v: "comma_delimited_to_vector ''BAND1'' = [''BAND1'']" by (simp add: comma_delimited_to_vector_def)
  have u: "[0..<8] = [0, 1, 2, 3, 4, 5, 6, 7 :: nat]" by (simp add: upt_rec)
  have rep: "replicate 8 x = [x, x, x, x, x, x, x, x]" for x :: trx_chan by (simp add: eval_nat_numeral)
  have o: "handle_options plain_lib lms_args opt_start = Some (opt_start\<lparr>op_cfg := c, op_tx_paths := Some [''BAND1'']\<rparr>)"
    unfolding handle_options_def lms_args_def
    by (simp add: handle_option_def opt_cfg_def a v u32_id paths_differ_def opt_start_def TRX_CHAN_MAX_def
        vty_trx_ctx_alloc_def c_def u rep chan_option_def chan_zero_def Let_def)
  obtain d where d: "lm_open quiet_lms ''USB'' REF_INTERNAL False (lm_new 4 4 NORMAL 1 0 [''BAND1''] [[]] (some_lms 0)) = Some (- 1, d)"
    using quiet_lms_open by (elim exE)
  have m: "make_device E c = Some (lm_new 4 4 NORMAL 1 0 [''BAND1''] [[]] (some_lms 0))"
    by (simp add: make_device_def E_def c_def osmo_lms_def lm_make_def charp2str_def vty_trx_ctx_alloc_def DEFAULT_TX_SPS_def)
  have p: "open_device E c x = lm_open quiet_lms ''USB'' REF_INTERNAL False x" for x
    by (simp add: open_device_def E_def c_def osmo_lms_def charp2str_def vty_trx_ctx_alloc_def)
  have s: "run_program E c steps = Some (Exit 1 (Some (lm_destroy quiet_lms d, [])))"
    by (simp add: run_program_def trx_start_def m p d [unfolded One_nat_def] shutdown_def trx_stop_def) (simp add: E_def osmo_lms_def)
  have f: "mn_file lms_main (op_config_file (opt_start\<lparr>op_cfg := c, op_tx_paths := Some [''BAND1'']\<rparr>)) = Some []"
    by (simp add: lms_main_def opt_start_def DEFAULT_CONFIG_FILE_def)
  have "trx_validate_config c = 0" "default_chan c = c" "cf_sched_rr c = 0"
    by (simp_all add: c_def trx_validate_config_def default_chan_def vty_trx_ctx_alloc_def)
  then have "main plain_lib lms_main E lms_args steps = Some (Exit 1 (Some (lm_destroy quiet_lms d, [])))"
    by (simp add: main_def o f s) (simp add: lms_main_def opt_start_def DEFAULT_CONFIG_FILE_def vty_start_def s)
  then show ?thesis unfolding E_def by blast
qed


text \<open>The default configuration sends four samples per symbol and receives one, which the device refuses: \<open>make\<close> gives
  the null pointer, and the program calls \<open>open\<close> on it.\<close>

lemma lms_default_undefined: "trx_start (osmo_lms L fuel junk toF toS floats u E) (default_chan vty_trx_ctx_alloc) = None"
  by (simp add: trx_start_def make_device_def osmo_lms_def lm_make_def default_chan_def vty_trx_ctx_alloc_def
      DEFAULT_TX_SPS_def DEFAULT_RX_SPS_def Let_def)

end
