(* ===== verification/Spec2Isabelle.thy ===== *)
theory Spec2Isabelle
  imports GSMTime LinkedLists Interthread SingleList RadioVector RadioBuffer SmplBuf RadioInterface RadioMulti RadioResamp
    TrxState TrxControl TrxBurst Vectors BitVector PRBS Convolve Convert Filterbank SigVector Usrp1Rx UhdRx DeviceTable Lms CommonUtils
    GSMSequences SigModem SigDetect ComplexClass Sockets TrxSockets Uplink TrxConfig
    RadioObject OsmoTrx OsmoLms
begin

text \<open>
  A verification development for osmo-trx, the software-radio transceiver that sits between a GSM base station core (over UDP) and
  a software-radio device. All paths are below \<^verbatim>\<open>src/\<close>; \<^verbatim>\<open>T52/\<close> stands for \<^verbatim>\<open>src/Transceiver52M/\<close>.

  \<^bold>\<open>The program.\<close> \<^verbatim>\<open>osmo-trx.cpp\<close> reads options and a configuration file (\<^verbatim>\<open>trx_vty.c\<close>), opens a device (\<^verbatim>\<open>device/\<close>), makes a
  radio interface for it and a transceiver on top, and waits for signals. The transceiver (\<^verbatim>\<open>Transceiver.cpp\<close>) has a control and
  a data socket for each channel (\<^verbatim>\<open>Sockets.cpp\<close>) and these threads: the control threads answer text commands; the upper
  transmit threads turn data packets into modulated bursts in a priority queue (\<^verbatim>\<open>radioVector.cpp\<close>); the lower transmit thread takes
  for each time slot the burst due or a filler and hands it to the radio interface; the lower receive thread lets the radio
  interface cut the sample stream into bursts, in one FIFO for each channel (\<^verbatim>\<open>Interthread.h\<close>); the upper receive threads detect and
  demodulate them (\<^verbatim>\<open>sigProcLib.cpp\<close>) and send packets to the core. The radio interface (\<^verbatim>\<open>radioInterface*.cpp\<close>) keeps rings of
  samples (\<^verbatim>\<open>radioBuffer.cpp\<close>) between bursts and device chunks, through resamplers and filter banks where the device needs them.

  \<^bold>\<open>Common parts.\<close>
  \<^item> \<open>Prelude\<close>: C++ integers at their widths, block copies, lemma collections. \<open>Scanf\<close>: \<open>sscanf\<close> and \<open>atoi\<close> on decimal numbers.
  \<^item> \<open>GSMTime\<close>, \<open>GSMSequences\<close> (\<^verbatim>\<open>GSM/GSMCommon\<close>): frame clock arithmetic against the count of slots modulo the hyperframe; the
    training sequences with their periods.
  \<^item> \<open>LinkedLists\<close>, \<open>SingleList\<close>, \<open>Interthread\<close> (\<^verbatim>\<open>CommonLibs/LinkedLists\<close>, \<^verbatim>\<open>Interthread.h\<close>): both linked lists over explicit
    heaps of nodes, the queues, map, priority queue and semaphore between threads. A run of any producers and consumers keeps the
    order; each object in a map or queue has one owner. \<open>CommonUtils\<close>: \<open>Timeval\<close> and the splitting of strings.
  \<^item> \<open>Vectors\<close>, \<open>BitVector\<close>, \<open>PRBS\<close> (\<^verbatim>\<open>CommonLibs/Vector.h\<close>, \<^verbatim>\<open>BitVector\<close>, \<^verbatim>\<open>PRBS.h\<close>): ownership of blocks behind vectors and
    aliases, bit fields and packing, shift registers with their period and synchronisation.
  \<^item> \<open>Sockets\<close> (\<^verbatim>\<open>CommonLibs/Sockets\<close>): resolving addresses, sending and receiving, and the descriptors that a socket owns.
  \<^item> \<open>ComplexClass\<close> (\<^verbatim>\<open>T52/Complex.h\<close>): the class of complex numbers against the complex numbers of the library.

  \<^bold>\<open>Samples.\<close>
  \<^item> \<open>Convolve\<close>, \<open>Convert\<close> (\<^verbatim>\<open>T52/arch/common\<close>, \<^verbatim>\<open>T52/arch/x86\<close>): base routines and SSE routines, instruction by instruction, and the
    choice by processor; the optimised routines equal the base ones.
  \<^item> \<open>Filterbank\<close> (\<^verbatim>\<open>Resampler\<close>, \<^verbatim>\<open>ChannelizerBase\<close>, \<^verbatim>\<open>Channelizer\<close>, \<^verbatim>\<open>Synthesis\<close>): polyphase resampling and filter banks, against plain
    filtering of the whole stream.
  \<^item> \<open>SigVector\<close>, \<open>SigModem\<close>, \<open>SigDetect\<close> (\<^verbatim>\<open>signalVector.cpp\<close>, \<^verbatim>\<open>sigProcLib.cpp\<close>): signal vectors with head room, modulators, delay filters,
    correlation, detection gates, demodulators, set-up and release of the tables; round trips of ideal bursts, and the windows in
    which a detected delay lies.

  \<^bold>\<open>Radio interface and transceiver.\<close>
  \<^item> \<open>RadioVector\<close>, \<open>RadioBuffer\<close>: bursts with their time, transmit queue, radio clock; the sample ring as a lossless stream.
  \<^item> \<open>RadioInterface\<close>, \<open>RadioMulti\<close>, \<open>RadioResamp\<close>: the three classes of radio interfaces, and \<open>RadioObject\<close>: an object of any of
    them behind a pointer, with virtual and other calls. The transmit driver sends, and the receive driver cuts, one stream.
  \<^item> \<open>TrxState\<close>: channel combinations, filler table, expected bursts, and the burst of a slot; none is leaked or freed twice.
  \<^item> \<open>TrxControl\<close>: life cycle and control messages of the transceiver; any messages keep the invariant and the thread count.
    \<open>TrxSockets\<close>: the sockets that it opens and closes.
  \<^item> \<open>TrxBurst\<close>: packets to bursts, the transmit loop with its deadline, bursts to packets. \<open>Uplink\<close>: a burst from the air to the packet,
    over the definitions of \<open>SigDetect\<close>.

  \<^bold>\<open>Devices.\<close> \<open>SmplBuf\<close>, \<open>Uhd\<close>, \<open>UhdRx\<close>, \<open>DeviceTable\<close> (\<^verbatim>\<open>device/uhd\<close>), \<open>Usrp1\<close>, \<open>Usrp1Rx\<close> (\<^verbatim>\<open>device/usrp1\<close>), \<open>Lms\<close> (\<^verbatim>\<open>device/lms\<close>): opening
  and closing without leaks, tuning, gains, streams with lost and late packets; what a driver reads in any number of calls is
  what the device delivered.

  \<^bold>\<open>Program.\<close> \<open>TrxConfig\<close> (\<^verbatim>\<open>trx_vty.c\<close>): commands and the writer of the configuration, which read each other back. \<open>OsmoTrx\<close>
  (\<^verbatim>\<open>osmo-trx.cpp\<close>): options, starting, main loop and stopping, over any device. \<open>OsmoLms\<close>: the program with the driver of \<open>Lms\<close>; it ends
  with no thread and no device left.

  \<^bold>\<open>Conventions.\<close> An object is a record of its members, a method a function on it that returns its result and the new object;
  what is deleted is part of the result. Undefined behaviour (null pointers, accesses outside an array, double frees, failed
  assertions) is \<open>None\<close> or an error value, so that a theorem with \<open>Some\<close> includes that it does not occur. \<open>float\<close> and \<open>double\<close> are real
  numbers: no rounding, no overflow. Code that is not in the repository (UHD, LimeSuite, libusrp, FFTW, the VTY library, the system
  calls) is a record of functions over a state of a type parameter; hypotheses on them state what they document. A thread that holds
  a mutex is one step, and a wait is a function that the other threads apply.

  \<^bold>\<open>Interfaces.\<close> Locales state what one part asks of another, with interpretations on the models: \<open>fifo_queue\<close> (PointerFIFO),
  \<open>thread_fifo\<close> (PointerFIFO and SingleLinkList below the queues between threads), \<open>weak_order_on\<close> (order of the transmit queue),
  \<open>sample_stream\<close> (both directions of the ring), \<open>radio_contract\<close> (the transceiver's control on the plain interface and on any radio
  object), \<open>tx_contract\<close> (the transmit loop on the plain interface), \<open>program_device\<close> (the program on the LimeSDR driver).

  \<^bold>\<open>Loops.\<close> Most are structural recursions. Fuel is used where the bound is not in the arguments, and is proved to suffice: nine for
  the search between early and late samples (its step halves from a half to 1/1024), the number of queued elements for \<open>clear\<close>, the
  number of nodes for the walks over lists, one more than the stored samples for pushing chunks, the samples of a chunk for cutting bursts, and
  more than the missing samples for reading packets from a device that delivers, and the slots up to the target for the transmit loop. Loops that wait for the outside (blocking reads, the
  flush of packets, the main loop) take the list of events or packets, or fuel, and give \<open>None\<close> when it ends; theorems say when they return.

  \<^bold>\<open>Not modelled.\<close> Log and print output; the wrappers of pthreads (\<^verbatim>\<open>Threads\<close>): mutexes and threads appear as stated above; the wrappers of
  FFTW (\<^verbatim>\<open>fft.c\<close>); the ARM routines, which are assembler for another instruction set; \<open>writeToFile\<close> and the thread adapters of
  \<^verbatim>\<open>Transceiver.cpp\<close>, which loop over the modelled steps; the loopback variant of the USRP1 driver; the control interface of libosmocore;
  thread priorities; rounding of floating-point numbers; tests, build files and documentation.
\<close>

end
